(* ===== verification/Prelude.thy ===== *)
theory Prelude
  imports "HOL-Library.Word"
begin

text \<open>
  Shared vocabulary of the development: the machine integer types of the C++ code, the helpers of
  \<^verbatim>\<open>src/src/yuzu_common/alignment.h\<close>, the page constants of
  \<^verbatim>\<open>memory_types.h\<close>, and the generic facts on words, lists and options that the
  component theories use.  A \<^verbatim>\<open>uN\<close> of the code is an \<open>N word\<close>; arithmetic on it wraps
  as in C++.  Theorems about sizes and addresses move to \<^typ>\<open>nat\<close> with \<^const>\<open>unat\<close>
  under explicit no-overflow hypotheses.
\<close>

unbundle bit_operations_syntax

section \<open>Integer types\<close>

type_synonym u8 = "8 word"
type_synonym u16 = "16 word"
type_synonym u32 = "32 word"
type_synonym u64 = "64 word"

text \<open>
  \<^verbatim>\<open>word_facts\<close> collects the arithmetic of words under no-overflow hypotheses,
  \<^verbatim>\<open>list_facts\<close> the list algebra, \<^verbatim>\<open>model_defs\<close> the small projections of the
  model that proofs unfold everywhere.
\<close>

named_theorems word_facts
named_theorems list_facts
named_theorems model_defs

section \<open>Pages and alignment\<close>

definition PageBits :: nat where
  "PageBits = 12"

definition PageSize :: u64 where
  "PageSize = 0x1000"

lemma PageSize_shift: "PageSize = push_bit PageBits 1"
  by (simp add: PageSize_def PageBits_def)

text \<open>\<^verbatim>\<open>Common::AlignUp\<close>: the remainder is removed and, if there was one, a whole unit added.\<close>

definition AlignUp :: "u64 \<Rightarrow> u64 \<Rightarrow> u64" where
  "AlignUp v sz =
     (let md = v mod sz; v' = v - md
      in if md = 0 then v' else v' + sz)"

definition AlignDown :: "u64 \<Rightarrow> u64 \<Rightarrow> u64" where
  "AlignDown v sz = v - v mod sz"

definition IsAligned :: "u64 \<Rightarrow> u64 \<Rightarrow> bool" where
  "IsAligned v algn \<longleftrightarrow> v AND (algn - 1) = 0"

section \<open>Words\<close>

lemma unat_add_no_ovf [word_facts]:
  fixes a b :: "'a::len word"
  assumes "unat a + unat b < 2 ^ LENGTH('a)"
  shows "unat (a + b) = unat a + unat b"
  using assms by (simp add: unat_add_lem)

lemma unat_mult_no_ovf [word_facts]:
  fixes a b :: "'a::len word"
  assumes "unat a * unat b < 2 ^ LENGTH('a)"
  shows "unat (a * b) = unat a * unat b"
  using assms by (simp add: unat_mult_lem)

lemma unat_PageSize [simp]: "unat PageSize = 4096"
  by (simp add: PageSize_def)

lemma unat_pages [word_facts]:
  fixes n :: u64
  assumes "unat n * 4096 < 2 ^ 64"
  shows "unat (n * PageSize) = unat n * 4096"
proof -
  have "unat n * unat PageSize < 2 ^ LENGTH(64)" using assms by simp
  then show ?thesis using unat_mult_no_ovf [of n PageSize] by simp
qed

lemma unat_addr_pages [word_facts]:
  fixes a n :: u64
  assumes "unat a + unat n * 4096 < 2 ^ 64"
  shows "unat (a + n * PageSize) = unat a + unat n * 4096"
proof -
  have n: "unat (n * PageSize) = unat n * 4096"
    by (rule unat_pages) (use assms in linarith)
  show ?thesis
    using assms unat_add_no_ovf [of a "n * PageSize"] by (simp add: n)
qed

lemma unat_sub_le [word_facts]:
  fixes a b :: "'a::len word"
  assumes "unat b \<le> unat a"
  shows "unat (a - b) = unat a - unat b"
  using assms by (simp add: unat_sub word_le_nat_alt)

lemma word_less_unat [word_facts]: "(a < (b :: 'a::len word)) \<longleftrightarrow> unat a < unat b"
  by (simp add: word_less_nat_alt)

lemma word_le_unat [word_facts]: "(a \<le> (b :: 'a::len word)) \<longleftrightarrow> unat a \<le> unat b"
  by (simp add: word_le_nat_alt)

lemma word_eq_unat: "(a = (b :: 'a::len word)) \<longleftrightarrow> unat a = unat b"
  by (simp add: word_unat_eq_iff)

lemma unat_div_PageSize [simp]: "unat (a div PageSize) = unat a div 4096"
  by (simp add: unat_div_distrib)

lemma unat_AlignDown: "unat (AlignDown a s) = unat a - unat a mod unat s"
  unfolding AlignDown_def
  by (subst unat_sub_le) (simp_all add: unat_mod_distrib)

lemma unat_AlignUp:
  assumes "0 < unat s" and "unat a + unat s < 2 ^ 64"
  shows "unat (AlignUp a s) = (unat a + (unat s - 1)) div unat s * unat s"
proof -
  let ?a = "unat a" and ?s = "unat s"
  have m: "unat (a mod s) = ?a mod ?s" by (simp add: unat_mod_distrib)
  have sub: "unat (a - a mod s) = ?a - ?a mod ?s" by (subst unat_sub_le) (simp_all add: m)
  have dm: "?a = ?a div ?s * ?s + ?a mod ?s" by simp
  show ?thesis
  proof (cases "?a mod ?s = 0")
    case True
    then have "a mod s = 0" by (metis m unat_eq_0)
    moreover have "(?a + (?s - 1)) div ?s = ?a div ?s"
    proof -
      have "?a + (?s - 1) = (?s - 1) + ?a div ?s * ?s" using True dm by linarith
      then have "(?a + (?s - 1)) div ?s = (?s - 1) div ?s + ?a div ?s"
        using assms(1) by (metis div_mult_self3 neq0_conv add.commute)
      then show ?thesis using assms(1) by simp
    qed
    ultimately show ?thesis using True dm by (simp add: AlignUp_def)
  next
    case False
    then have ne: "a mod s \<noteq> 0" by (metis m unat_0)
    have lt: "?a mod ?s < ?s" using assms(1) by simp
    have "unat (a - a mod s + s) = ?a - ?a mod ?s + ?s"
      using assms sub unat_add_no_ovf [of "a - a mod s" s] by simp
    moreover have "(?a + (?s - 1)) div ?s = ?a div ?s + 1"
    proof -
      have "?a + (?s - 1) = (?a mod ?s - 1) + (?a div ?s * ?s + ?s)"
        using False dm assms(1) by linarith
      then have "?a + (?s - 1) = (?a mod ?s - 1) + (?a div ?s + 1) * ?s"
        by (simp only: add_mult_distrib mult_1)
      then have "(?a + (?s - 1)) div ?s = (?a mod ?s - 1) div ?s + (?a div ?s + 1)"
        using assms(1) by (metis div_mult_self3 neq0_conv add.commute)
      then show ?thesis using lt by simp
    qed
    moreover have "?a - ?a mod ?s + ?s = (?a div ?s + 1) * ?s"
      using dm by (simp only: add_mult_distrib mult_1)
    moreover have "AlignUp a s = a - a mod s + s"
      using ne by (simp add: AlignUp_def Let_def)
    ultimately show ?thesis by metis
  qed
qed

section \<open>Bits\<close>

lemma word_and_or_split:
  fixes x :: "'a::len word"
  assumes "x AND (m OR k) = x"
  shows "(x AND m) OR (x AND k) = x"
  using assms by (simp add: bit.conj_disj_distrib)

lemma word_or_and_not_absorb:
  fixes x :: "'a::len word"
  assumes "x AND m = 0"
  shows "(x OR m) AND NOT m = x"
proof (rule bit_word_eqI)
  fix n assume "n < LENGTH('a)"
  moreover have "\<not> (bit x n \<and> bit m n)"
    using assms by (metis bit_and_iff bit_0_eq bot_apply bot_bool_def)
  ultimately show "bit ((x OR m) AND NOT m) n = bit x n"
    by (auto simp: bit_simps)
qed

lemma and_single_bit_0: "(x AND push_bit n 1 = 0) \<longleftrightarrow> \<not> bit (x :: 'a::len word) n"
  by (metis bit_iff_and_push_bit_not_eq_0)

lemma and_single_bit_1:
  assumes "n < LENGTH('a)"
  shows "(x AND push_bit n 1 = push_bit n 1) \<longleftrightarrow> bit (x :: 'a::len word) n"
proof
  assume "x AND push_bit n 1 = push_bit n 1"
  then have "bit (x AND push_bit n 1) n" using assms by (simp add: bit_simps)
  then show "bit x n" by (simp add: bit_and_iff)
next
  assume "bit x n"
  then show "x AND push_bit n 1 = push_bit n 1"
    by (intro bit_word_eqI) (auto simp: bit_simps)
qed

lemma or_bit_cancel: "\<not> bit (x :: u8) n \<Longrightarrow> (x OR push_bit n 1) AND NOT (push_bit n 1) = x"
  by (rule word_or_and_not_absorb) (use and_single_bit_0 in blast)

lemma or_bit_absorb: "bit (x :: u8) n \<Longrightarrow> x OR push_bit n 1 = x"
  by (rule bit_word_eqI) (auto simp: bit_simps)

lemma and_not_bit_absorb: "\<not> bit (x :: u8) n \<Longrightarrow> x AND NOT (push_bit n 1) = x"
  by (rule bit_word_eqI) (auto simp: bit_simps)

text \<open>The single-bit facts at the bits the kernel's flag bytes use, in simplified form.\<close>

lemmas u8_flag_bits =
  and_single_bit_1 [where 'a = 8 and n = 1, simplified]
  and_single_bit_0 [where 'a = 8 and n = 1, simplified]
  and_single_bit_1 [where 'a = 8 and n = 2, simplified]
  and_single_bit_0 [where 'a = 8 and n = 2, simplified]
  and_single_bit_0 [where 'a = 8 and n = 4, simplified]

lemmas u8_flag_roundtrip =
  or_bit_cancel [of _ 1, simplified] or_bit_cancel [of _ 2, simplified]
  or_bit_cancel [of _ 4, simplified] or_bit_absorb [of _ 1, simplified]
  or_bit_absorb [of _ 2, simplified] or_bit_absorb [of _ 4, simplified]
  and_not_bit_absorb [of _ 1, simplified]

lemma word_sub_1_eq_0: "(x :: 'a::len word) - 1 = 0 \<longleftrightarrow> x = 1"
  by (metis eq_iff_diff_eq_0)

section \<open>Lists\<close>

lemma replicate_split [list_facts]:
  "k \<le> n \<Longrightarrow> replicate n x = replicate k x @ replicate (n - k) x"
  by (metis le_add_diff_inverse replicate_add)

lemma nth_list_update_split: "(xs[i := v]) ! j = (if i = j \<and> j < length xs then v else xs ! j)"
  by (cases "i < length xs") (auto simp: nth_list_update list_update_beyond)

section \<open>Counting zero bits\<close>

text \<open>\<^verbatim>\<open>std::countl_zero\<close> and \<^verbatim>\<open>std::countr_zero\<close> of a 64-bit word.\<close>

definition countl_zero :: "u64 \<Rightarrow> nat" where
  "countl_zero v = length (takeWhile (\<lambda>i. \<not> bit v i) (rev [0..<64]))"

definition countr_zero :: "u64 \<Rightarrow> nat" where
  "countr_zero v = length (takeWhile (\<lambda>i. \<not> bit v i) [0..<64])"

lemma word_bit_nonzero: "(w :: u64) \<noteq> 0 \<longleftrightarrow> (\<exists>k < 64. bit w k)"
proof -
  have "w = 0" if "\<forall>k < 64. \<not> bit w k"
    by (rule bit_word_eqI) (use that in simp)
  then show ?thesis by auto
qed

lemma countr_zero_bit:
  assumes "v \<noteq> 0"
  shows "countr_zero v < 64 \<and> bit v (countr_zero v) \<and> (\<forall>k. bit v k \<longrightarrow> countr_zero v \<le> k)"
proof -
  let ?p = "\<lambda>i. \<not> bit v i" and ?xs = "[0..<64]"
  obtain k where k: "k < 64" "bit v k" using assms word_bit_nonzero by blast
  have "\<exists>x \<in> set ?xs. \<not> ?p x" using k by (intro bexI [of _ k]) simp_all
  then have "takeWhile ?p ?xs \<noteq> ?xs" by (metis takeWhile_eq_all_conv)
  then have lt: "countr_zero v < 64"
    unfolding countr_zero_def
    by (metis length_takeWhile_le le_neq_implies_less length_upt diff_zero takeWhile_eq_take take_all
        order_refl)
  have "bit v (countr_zero v)"
    using nth_length_takeWhile [of ?p ?xs] lt by (simp add: countr_zero_def)
  moreover have "countr_zero v \<le> j" if "bit v j" for j
  proof (rule ccontr)
    assume "\<not> countr_zero v \<le> j"
    then have "j < length (takeWhile ?p ?xs)" by (simp add: countr_zero_def)
    then have "?p (takeWhile ?p ?xs ! j)" and "takeWhile ?p ?xs ! j = ?xs ! j"
      using set_takeWhileD [of _ ?p ?xs] nth_mem takeWhile_nth by blast+
    moreover have "j < 64" using lt \<open>\<not> countr_zero v \<le> j\<close> by simp
    ultimately show False using that by simp
  qed
  ultimately show ?thesis using lt by blast
qed

lemma countl_zero_0 [simp]: "countl_zero 0 = 64"
  by (simp add: countl_zero_def takeWhile_eq_all_conv [THEN iffD2] del: upt_rec_numeral)

lemma countl_zero_bit:
  assumes "v \<noteq> 0"
  shows "countl_zero v < 64 \<and> bit v (63 - countl_zero v) \<and> (\<forall>k. bit v k \<longrightarrow> k \<le> 63 - countl_zero v)"
proof -
  let ?p = "\<lambda>i. \<not> bit v i" and ?xs = "rev [0..<64]"
  let ?k = "countl_zero v"
  have len: "length ?xs = 64" by simp
  have nth: "?xs ! j = 63 - j" if "j < 64" for j using that by (simp add: rev_nth del: upt_rec_numeral)
  obtain k where k: "k < 64" "bit v k" using assms word_bit_nonzero by blast
  have "\<exists>x \<in> set ?xs. \<not> ?p x" using k by (intro bexI [of _ k]) (simp_all del: upt_rec_numeral)
  then have "takeWhile ?p ?xs \<noteq> ?xs" by (metis takeWhile_eq_all_conv)
  then have lt: "?k < 64"
    unfolding countl_zero_def
    by (metis length_takeWhile_le le_neq_implies_less len takeWhile_eq_take take_all order_refl)
  have "bit v (?xs ! ?k)"
    using nth_length_takeWhile [of ?p ?xs] lt len by (simp add: countl_zero_def del: upt_rec_numeral)
  then have "bit v (63 - ?k)" by (simp add: nth [OF lt] del: upt_rec_numeral)
  moreover have "j \<le> 63 - ?k" if j: "bit v j" for j
  proof (rule ccontr)
    have j64: "j < 64" using j bit_imp_le_length [of v j] by simp
    assume "\<not> j \<le> 63 - ?k"
    then have i: "63 - j < ?k" using lt j64 by linarith
    then have "?p (takeWhile ?p ?xs ! (63 - j))" and "takeWhile ?p ?xs ! (63 - j) = ?xs ! (63 - j)"
      using set_takeWhileD [of _ ?p ?xs] nth_mem takeWhile_nth unfolding countl_zero_def by blast+
    moreover have "?xs ! (63 - j) = j" using j64 by (simp add: nth del: upt_rec_numeral)
    ultimately show False using j by simp
  qed
  ultimately show ?thesis using lt by blast
qed

end
