(* ===== verification/Memory_Block.thy ===== *)
theory Memory_Block
  imports Prelude
begin

text \<open>
  \<^verbatim>\<open>src/src/nxemu-os/core/hle/kernel/k_memory_block.h\<close>: one block of a process address
  space, a run of pages with the same state, permissions and attributes.  The enums with flag
  operators are words of the width the code gives them, the class is the record
  \<open>KMemoryBlock\<close> with the source's member names, and every member function is a
  function of the same name.  An \<^verbatim>\<open>ASSERT\<close> of the code logs and, unless the user turns on
  \<^verbatim>\<open>use_debug_asserts\<close>, continues (\<^verbatim>\<open>yuzu_assert.cpp\<close>): the functions therefore
  continue too, and the asserted conditions are the predicates \<open>..._asserts\<close>, so that the
  theorems can say when no assertion fires.
\<close>

section \<open>Memory states\<close>

datatype SvcMemoryState =
    Svc_Free | Svc_Io | Svc_Static | Svc_Code | Svc_CodeData | Svc_Normal | Svc_Shared | Svc_Alias
  | Svc_AliasCode | Svc_AliasCodeData | Svc_Ipc | Svc_Stack | Svc_ThreadLocal | Svc_Transferred
  | Svc_SharedTransferred | Svc_SharedCode | Svc_Inaccessible | Svc_NonSecureIpc
  | Svc_NonDeviceIpc | Svc_Kernel | Svc_GeneratedCode | Svc_CodeOut | Svc_Coverage | Svc_Insecure

primrec SvcMemoryState_value :: "SvcMemoryState \<Rightarrow> u32" where
  "SvcMemoryState_value Svc_Free = 0x00"
| "SvcMemoryState_value Svc_Io = 0x01"
| "SvcMemoryState_value Svc_Static = 0x02"
| "SvcMemoryState_value Svc_Code = 0x03"
| "SvcMemoryState_value Svc_CodeData = 0x04"
| "SvcMemoryState_value Svc_Normal = 0x05"
| "SvcMemoryState_value Svc_Shared = 0x06"
| "SvcMemoryState_value Svc_Alias = 0x07"
| "SvcMemoryState_value Svc_AliasCode = 0x08"
| "SvcMemoryState_value Svc_AliasCodeData = 0x09"
| "SvcMemoryState_value Svc_Ipc = 0x0A"
| "SvcMemoryState_value Svc_Stack = 0x0B"
| "SvcMemoryState_value Svc_ThreadLocal = 0x0C"
| "SvcMemoryState_value Svc_Transferred = 0x0D"
| "SvcMemoryState_value Svc_SharedTransferred = 0x0E"
| "SvcMemoryState_value Svc_SharedCode = 0x0F"
| "SvcMemoryState_value Svc_Inaccessible = 0x10"
| "SvcMemoryState_value Svc_NonSecureIpc = 0x11"
| "SvcMemoryState_value Svc_NonDeviceIpc = 0x12"
| "SvcMemoryState_value Svc_Kernel = 0x13"
| "SvcMemoryState_value Svc_GeneratedCode = 0x14"
| "SvcMemoryState_value Svc_CodeOut = 0x15"
| "SvcMemoryState_value Svc_Coverage = 0x16"
| "SvcMemoryState_value Svc_Insecure = 0x17"

datatype KMemoryStateFlag =
    FlagCanReprotect | FlagCanDebug | FlagCanUseIpc | FlagCanUseNonDeviceIpc
  | FlagCanUseNonSecureIpc | FlagMapped | FlagCode | FlagCanAlias | FlagCanCodeAlias
  | FlagCanTransfer | FlagCanQueryPhysical | FlagCanDeviceMap | FlagCanAlignedDeviceMap
  | FlagCanIpcUserBuffer | FlagReferenceCounted | FlagCanMapProcess | FlagCanChangeAttribute
  | FlagCanCodeMemory | FlagLinearMapped | FlagCanPermissionLock

primrec KMemoryStateFlag_bit :: "KMemoryStateFlag \<Rightarrow> nat" where
  "KMemoryStateFlag_bit FlagCanReprotect = 8"
| "KMemoryStateFlag_bit FlagCanDebug = 9"
| "KMemoryStateFlag_bit FlagCanUseIpc = 10"
| "KMemoryStateFlag_bit FlagCanUseNonDeviceIpc = 11"
| "KMemoryStateFlag_bit FlagCanUseNonSecureIpc = 12"
| "KMemoryStateFlag_bit FlagMapped = 13"
| "KMemoryStateFlag_bit FlagCode = 14"
| "KMemoryStateFlag_bit FlagCanAlias = 15"
| "KMemoryStateFlag_bit FlagCanCodeAlias = 16"
| "KMemoryStateFlag_bit FlagCanTransfer = 17"
| "KMemoryStateFlag_bit FlagCanQueryPhysical = 18"
| "KMemoryStateFlag_bit FlagCanDeviceMap = 19"
| "KMemoryStateFlag_bit FlagCanAlignedDeviceMap = 20"
| "KMemoryStateFlag_bit FlagCanIpcUserBuffer = 21"
| "KMemoryStateFlag_bit FlagReferenceCounted = 22"
| "KMemoryStateFlag_bit FlagCanMapProcess = 23"
| "KMemoryStateFlag_bit FlagCanChangeAttribute = 24"
| "KMemoryStateFlag_bit FlagCanCodeMemory = 25"
| "KMemoryStateFlag_bit FlagLinearMapped = 26"
| "KMemoryStateFlag_bit FlagCanPermissionLock = 27"

definition flag :: "KMemoryStateFlag \<Rightarrow> u32" where
  "flag f = push_bit (KMemoryStateFlag_bit f) 1"

text \<open>The C++ expression \<^verbatim>\<open>A | B | ... | Z\<close> over flags.\<close>

primrec flags :: "KMemoryStateFlag list \<Rightarrow> u32" where
  "flags [] = 0"
| "flags (f # fs) = flag f OR flags fs"

definition FlagsData :: u32 where
  "FlagsData = flags [FlagCanReprotect, FlagCanUseIpc, FlagCanUseNonDeviceIpc,
     FlagCanUseNonSecureIpc, FlagMapped, FlagCanAlias, FlagCanTransfer, FlagCanQueryPhysical,
     FlagCanDeviceMap, FlagCanAlignedDeviceMap, FlagCanIpcUserBuffer, FlagReferenceCounted,
     FlagCanChangeAttribute, FlagLinearMapped]"

definition FlagsCode :: u32 where
  "FlagsCode = flags [FlagCanDebug, FlagCanUseIpc, FlagCanUseNonDeviceIpc, FlagCanUseNonSecureIpc,
     FlagMapped, FlagCode, FlagCanQueryPhysical, FlagCanDeviceMap, FlagCanAlignedDeviceMap,
     FlagReferenceCounted, FlagLinearMapped]"

definition FlagsMisc :: u32 where
  "FlagsMisc = flags [FlagMapped, FlagReferenceCounted, FlagCanQueryPhysical, FlagCanDeviceMap,
     FlagLinearMapped]"

datatype KMemoryStateName =
    StNone | StMask | StAll | StFree | StIoMemory | StIoRegister | StStatic | StCode | StCodeData
  | StNormal | StShared | StAliasCode | StAliasCodeData | StIpc | StStack | StThreadLocal
  | StTransferred | StSharedTransferred | StSharedCode | StInaccessible | StNonSecureIpc
  | StNonDeviceIpc | StKernel | StGeneratedCode | StCodeOut | StCoverage | StInsecure

primrec KMemoryState :: "KMemoryStateName \<Rightarrow> u32" where
  "KMemoryState StNone = 0"
| "KMemoryState StMask = 0xFF"
| "KMemoryState StAll = NOT 0"
| "KMemoryState StFree = SvcMemoryState_value Svc_Free"
| "KMemoryState StIoMemory = SvcMemoryState_value Svc_Io OR
     flags [FlagMapped, FlagCanDeviceMap, FlagCanAlignedDeviceMap]"
| "KMemoryState StIoRegister = SvcMemoryState_value Svc_Io OR
     flags [FlagCanDeviceMap, FlagCanAlignedDeviceMap]"
| "KMemoryState StStatic = SvcMemoryState_value Svc_Static OR
     flags [FlagMapped, FlagCanQueryPhysical]"
| "KMemoryState StCode = SvcMemoryState_value Svc_Code OR FlagsCode OR flags [FlagCanMapProcess]"
| "KMemoryState StCodeData = SvcMemoryState_value Svc_CodeData OR FlagsData OR
     flags [FlagCanMapProcess, FlagCanCodeMemory, FlagCanPermissionLock]"
| "KMemoryState StNormal = SvcMemoryState_value Svc_Normal OR FlagsData OR
     flags [FlagCanCodeMemory]"
| "KMemoryState StShared = SvcMemoryState_value Svc_Shared OR
     flags [FlagMapped, FlagReferenceCounted, FlagLinearMapped]"
| "KMemoryState StAliasCode = SvcMemoryState_value Svc_AliasCode OR FlagsCode OR
     flags [FlagCanMapProcess, FlagCanCodeAlias]"
| "KMemoryState StAliasCodeData = SvcMemoryState_value Svc_AliasCodeData OR FlagsData OR
     flags [FlagCanMapProcess, FlagCanCodeAlias, FlagCanCodeMemory, FlagCanPermissionLock]"
| "KMemoryState StIpc = SvcMemoryState_value Svc_Ipc OR FlagsMisc OR
     flags [FlagCanAlignedDeviceMap, FlagCanUseIpc, FlagCanUseNonSecureIpc,
            FlagCanUseNonDeviceIpc]"
| "KMemoryState StStack = SvcMemoryState_value Svc_Stack OR FlagsMisc OR
     flags [FlagCanAlignedDeviceMap, FlagCanUseIpc, FlagCanUseNonSecureIpc,
            FlagCanUseNonDeviceIpc]"
| "KMemoryState StThreadLocal = SvcMemoryState_value Svc_ThreadLocal OR flags [FlagLinearMapped]"
| "KMemoryState StTransferred = SvcMemoryState_value Svc_Transferred OR FlagsMisc OR
     flags [FlagCanAlignedDeviceMap, FlagCanChangeAttribute, FlagCanUseIpc,
            FlagCanUseNonSecureIpc, FlagCanUseNonDeviceIpc]"
| "KMemoryState StSharedTransferred = SvcMemoryState_value Svc_SharedTransferred OR FlagsMisc OR
     flags [FlagCanAlignedDeviceMap, FlagCanUseNonSecureIpc, FlagCanUseNonDeviceIpc]"
| "KMemoryState StSharedCode = SvcMemoryState_value Svc_SharedCode OR
     flags [FlagMapped, FlagReferenceCounted, FlagLinearMapped, FlagCanUseNonSecureIpc,
            FlagCanUseNonDeviceIpc]"
| "KMemoryState StInaccessible = SvcMemoryState_value Svc_Inaccessible"
| "KMemoryState StNonSecureIpc = SvcMemoryState_value Svc_NonSecureIpc OR FlagsMisc OR
     flags [FlagCanAlignedDeviceMap, FlagCanUseNonSecureIpc, FlagCanUseNonDeviceIpc]"
| "KMemoryState StNonDeviceIpc = SvcMemoryState_value Svc_NonDeviceIpc OR FlagsMisc OR
     flags [FlagCanUseNonDeviceIpc]"
| "KMemoryState StKernel = SvcMemoryState_value Svc_Kernel"
| "KMemoryState StGeneratedCode = SvcMemoryState_value Svc_GeneratedCode OR
     flags [FlagMapped, FlagReferenceCounted, FlagCanDebug, FlagLinearMapped]"
| "KMemoryState StCodeOut = SvcMemoryState_value Svc_CodeOut OR
     flags [FlagMapped, FlagReferenceCounted, FlagLinearMapped]"
| "KMemoryState StCoverage = SvcMemoryState_value Svc_Coverage OR flags [FlagMapped]"
| "KMemoryState StInsecure = SvcMemoryState_value Svc_Insecure OR
     flags [FlagMapped, FlagReferenceCounted, FlagLinearMapped, FlagCanChangeAttribute,
            FlagCanDeviceMap, FlagCanAlignedDeviceMap, FlagCanQueryPhysical,
            FlagCanUseNonSecureIpc, FlagCanUseNonDeviceIpc]"

lemmas KMemoryState_defs = flag_def FlagsData_def FlagsCode_def FlagsMisc_def

text \<open>The \<^verbatim>\<open>static_assert\<close>s of the header, recomputed from the definitions above.\<close>

lemma KMemoryState_static_asserts:
  "map KMemoryState [StFree, StIoMemory, StIoRegister, StStatic, StCode, StCodeData, StNormal,
     StShared, StAliasCode, StAliasCodeData, StIpc, StStack, StThreadLocal, StTransferred,
     StSharedTransferred, StSharedCode, StInaccessible, StNonSecureIpc, StNonDeviceIpc, StKernel,
     StGeneratedCode, StCodeOut, StCoverage, StInsecure] =
   [0x00000000, 0x00182001, 0x00180001, 0x00042002, 0x04DC7E03, 0x0FFEBD04, 0x077EBD05,
    0x04402006, 0x04DD7E08, 0x0FFFBD09, 0x045C3C0A, 0x045C3C0B, 0x0400000C, 0x055C3C0D,
    0x045C380E, 0x0440380F, 0x00000010, 0x045C3811, 0x044C2812, 0x00000013,
    0x04402214, 0x04402015, 0x00002016, 0x055C3817]"
  by (simp add: KMemoryState_defs)

section \<open>Permissions and attributes\<close>

definition SvcPerm_None :: u32 where "SvcPerm_None = 0"
definition SvcPerm_Read :: u32 where "SvcPerm_Read = push_bit 0 1"
definition SvcPerm_Write :: u32 where "SvcPerm_Write = push_bit 1 1"
definition SvcPerm_Execute :: u32 where "SvcPerm_Execute = push_bit 2 1"

datatype KMemoryPermissionName =
    PermNone | PermAll | PermKernelRead | PermKernelWrite | PermKernelExecute | PermNotMapped
  | PermKernelReadWrite | PermKernelReadExecute | PermUserRead | PermUserWrite | PermUserExecute
  | PermUserReadWrite | PermUserReadExecute | PermUserMask | PermIpcLockChangeMask

definition KernelShift :: nat where
  "KernelShift = 3"

primrec KMemoryPermission :: "KMemoryPermissionName \<Rightarrow> u8" where
  "KMemoryPermission PermNone = 0"
| "KMemoryPermission PermAll = NOT 0"
| "KMemoryPermission PermKernelRead = push_bit KernelShift (ucast SvcPerm_Read)"
| "KMemoryPermission PermKernelWrite = push_bit KernelShift (ucast SvcPerm_Write)"
| "KMemoryPermission PermKernelExecute = push_bit KernelShift (ucast SvcPerm_Execute)"
| "KMemoryPermission PermNotMapped = push_bit (2 * KernelShift) 1"
| "KMemoryPermission PermKernelReadWrite =
     push_bit KernelShift (ucast SvcPerm_Read) OR push_bit KernelShift (ucast SvcPerm_Write)"
| "KMemoryPermission PermKernelReadExecute =
     push_bit KernelShift (ucast SvcPerm_Read) OR push_bit KernelShift (ucast SvcPerm_Execute)"
| "KMemoryPermission PermUserRead =
     ucast SvcPerm_Read OR push_bit KernelShift (ucast SvcPerm_Read)"
| "KMemoryPermission PermUserWrite =
     ucast SvcPerm_Write OR push_bit KernelShift (ucast SvcPerm_Write)"
| "KMemoryPermission PermUserExecute = ucast SvcPerm_Execute"
| "KMemoryPermission PermUserReadWrite =
     (ucast SvcPerm_Read OR push_bit KernelShift (ucast SvcPerm_Read)) OR
     (ucast SvcPerm_Write OR push_bit KernelShift (ucast SvcPerm_Write))"
| "KMemoryPermission PermUserReadExecute =
     (ucast SvcPerm_Read OR push_bit KernelShift (ucast SvcPerm_Read)) OR ucast SvcPerm_Execute"
| "KMemoryPermission PermUserMask = ucast (SvcPerm_Read OR SvcPerm_Write OR SvcPerm_Execute)"
| "KMemoryPermission PermIpcLockChangeMask =
     push_bit (2 * KernelShift) 1 OR
     ((ucast SvcPerm_Read OR push_bit KernelShift (ucast SvcPerm_Read)) OR
      (ucast SvcPerm_Write OR push_bit KernelShift (ucast SvcPerm_Write)))"

lemmas KMemoryPermission_defs =
  KernelShift_def SvcPerm_None_def SvcPerm_Read_def SvcPerm_Write_def SvcPerm_Execute_def

definition ConvertToKMemoryPermission :: "u32 \<Rightarrow> u8" where
  "ConvertToKMemoryPermission perm =
     (ucast perm AND KMemoryPermission PermUserMask) OR
     KMemoryPermission PermKernelRead OR
     push_bit KernelShift (ucast perm AND KMemoryPermission PermUserWrite) OR
     (if perm = SvcPerm_None then KMemoryPermission PermNotMapped else KMemoryPermission PermNone)"

datatype KMemoryAttributeName =
    AttrNone | AttrAll | AttrUserMask | AttrLocked | AttrIpcLocked | AttrDeviceShared
  | AttrUncached | AttrPermissionLocked | AttrSetMask

primrec KMemoryAttribute :: "KMemoryAttributeName \<Rightarrow> u8" where
  "KMemoryAttribute AttrNone = 0x00"
| "KMemoryAttribute AttrAll = 0xFF"
| "KMemoryAttribute AttrUserMask = 0xFF"
| "KMemoryAttribute AttrLocked = push_bit 0 1"
| "KMemoryAttribute AttrIpcLocked = push_bit 1 1"
| "KMemoryAttribute AttrDeviceShared = push_bit 2 1"
| "KMemoryAttribute AttrUncached = push_bit 3 1"
| "KMemoryAttribute AttrPermissionLocked = push_bit 4 1"
| "KMemoryAttribute AttrSetMask = push_bit 3 1 OR push_bit 4 1"

datatype KMemoryBlockDisableMergeAttributeName =
    DmNone | DmNormal | DmDeviceLeft | DmIpcLeft | DmLocked | DmDeviceRight | DmAllLeft | DmAllRight

primrec KMemoryBlockDisableMergeAttribute ::
    "KMemoryBlockDisableMergeAttributeName \<Rightarrow> u8" where
  "KMemoryBlockDisableMergeAttribute DmNone = 0"
| "KMemoryBlockDisableMergeAttribute DmNormal = push_bit 0 1"
| "KMemoryBlockDisableMergeAttribute DmDeviceLeft = push_bit 1 1"
| "KMemoryBlockDisableMergeAttribute DmIpcLeft = push_bit 2 1"
| "KMemoryBlockDisableMergeAttribute DmLocked = push_bit 3 1"
| "KMemoryBlockDisableMergeAttribute DmDeviceRight = push_bit 4 1"
| "KMemoryBlockDisableMergeAttribute DmAllLeft =
     push_bit 0 1 OR push_bit 1 1 OR push_bit 2 1 OR push_bit 3 1"
| "KMemoryBlockDisableMergeAttribute DmAllRight = push_bit 4 1"

abbreviation Attr :: "KMemoryAttributeName \<Rightarrow> u8" where
  "Attr \<equiv> KMemoryAttribute"

abbreviation Perm :: "KMemoryPermissionName \<Rightarrow> u8" where
  "Perm \<equiv> KMemoryPermission"

abbreviation Dm :: "KMemoryBlockDisableMergeAttributeName \<Rightarrow> u8" where
  "Dm \<equiv> KMemoryBlockDisableMergeAttribute"

section \<open>Blocks\<close>

record KMemoryBlock =
  m_device_disable_merge_left_count :: u16
  m_device_disable_merge_right_count :: u16
  m_address :: u64
  m_num_pages :: u64
  m_memory_state :: u32
  m_ipc_lock_count :: u16
  m_device_use_count :: u16
  m_ipc_disable_merge_count :: u16
  m_permission :: u8
  m_original_permission :: u8
  m_attribute :: u8
  m_disable_merge_attribute :: u8

text \<open>
  \<^verbatim>\<open>KMemoryInfo\<close>, the value copy of a block that the manager and the system calls read;
  its fields carry the prefix \<open>i_\<close>.
\<close>

record KMemoryInfo =
  i_address :: u64
  i_size :: u64
  i_state :: u32
  i_device_disable_merge_left_count :: u16
  i_device_disable_merge_right_count :: u16
  i_ipc_lock_count :: u16
  i_device_use_count :: u16
  i_ipc_disable_merge_count :: u16
  i_permission :: u8
  i_attribute :: u8
  i_original_permission :: u8
  i_disable_merge_attribute :: u8

record SvcMemoryInfo =
  svc_base_address :: u64
  svc_size :: u64
  svc_state :: u32
  svc_attribute :: u32
  svc_permission :: u32
  svc_ipc_count :: u32
  svc_device_count :: u32

definition GetSvcMemoryInfo :: "KMemoryInfo \<Rightarrow> SvcMemoryInfo" where
  "GetSvcMemoryInfo i =
     \<lparr>svc_base_address = i_address i, svc_size = i_size i,
      svc_state = i_state i AND KMemoryState StMask,
      svc_attribute = ucast (i_attribute i AND Attr AttrUserMask),
      svc_permission = ucast (i_permission i AND Perm PermUserMask),
      svc_ipc_count = ucast (i_ipc_lock_count i),
      svc_device_count = ucast (i_device_use_count i)\<rparr>"

definition KMemoryInfo_GetEndAddress :: "KMemoryInfo \<Rightarrow> u64" where
  "KMemoryInfo_GetEndAddress i = i_address i + i_size i"

definition KMemoryInfo_GetLastAddress :: "KMemoryInfo \<Rightarrow> u64" where
  "KMemoryInfo_GetLastAddress i = KMemoryInfo_GetEndAddress i - 1"

definition KMemoryInfo_GetNumPages :: "KMemoryInfo \<Rightarrow> u64" where
  "KMemoryInfo_GetNumPages i = i_size i div PageSize"

definition GetSize :: "KMemoryBlock \<Rightarrow> u64" where
  "GetSize b = m_num_pages b * PageSize"

definition GetEndAddress :: "KMemoryBlock \<Rightarrow> u64" where
  "GetEndAddress b = m_address b + GetSize b"

definition GetLastAddress :: "KMemoryBlock \<Rightarrow> u64" where
  "GetLastAddress b = GetEndAddress b - 1"

definition Compare :: "KMemoryBlock \<Rightarrow> KMemoryBlock \<Rightarrow> int" where
  "Compare lhs rhs =
     (if m_address lhs < m_address rhs then -1
      else if m_address lhs \<le> GetLastAddress rhs then 0
      else 1)"

definition GetMemoryInfo :: "KMemoryBlock \<Rightarrow> KMemoryInfo" where
  "GetMemoryInfo b =
     \<lparr>i_address = m_address b, i_size = GetSize b, i_state = m_memory_state b,
      i_device_disable_merge_left_count = m_device_disable_merge_left_count b,
      i_device_disable_merge_right_count = m_device_disable_merge_right_count b,
      i_ipc_lock_count = m_ipc_lock_count b, i_device_use_count = m_device_use_count b,
      i_ipc_disable_merge_count = m_ipc_disable_merge_count b,
      i_permission = m_permission b, i_attribute = m_attribute b,
      i_original_permission = m_original_permission b,
      i_disable_merge_attribute = m_disable_merge_attribute b\<rparr>"

definition new_KMemoryBlock :: "u64 \<Rightarrow> u64 \<Rightarrow> u32 \<Rightarrow> u8 \<Rightarrow> u8 \<Rightarrow> KMemoryBlock" where
  "new_KMemoryBlock addr np ms p attr =
     \<lparr>m_device_disable_merge_left_count = 0, m_device_disable_merge_right_count = 0,
      m_address = addr, m_num_pages = np, m_memory_state = ms, m_ipc_lock_count = 0,
      m_device_use_count = 0, m_ipc_disable_merge_count = 0, m_permission = p,
      m_original_permission = Perm PermNone, m_attribute = attr,
      m_disable_merge_attribute = Dm DmNone\<rparr>"

definition KMemoryBlock_Initialize ::
    "KMemoryBlock \<Rightarrow> u64 \<Rightarrow> u64 \<Rightarrow> u32 \<Rightarrow> u8 \<Rightarrow> u8 \<Rightarrow> KMemoryBlock" where
  "KMemoryBlock_Initialize b addr np ms p attr =
     b\<lparr>m_device_disable_merge_left_count := 0, m_device_disable_merge_right_count := 0,
       m_address := addr, m_num_pages := np, m_memory_state := ms, m_ipc_lock_count := 0,
       m_device_use_count := 0, m_permission := p, m_original_permission := Perm PermNone,
       m_attribute := attr, m_disable_merge_attribute := Dm DmNone\<rparr>"

definition HasProperties :: "KMemoryBlock \<Rightarrow> u32 \<Rightarrow> u8 \<Rightarrow> u8 \<Rightarrow> bool" where
  "HasProperties b s p a \<longleftrightarrow>
     (let AttributeIgnoreMask = Attr AttrIpcLocked OR Attr AttrDeviceShared
      in m_memory_state b = s \<and> m_permission b = p \<and>
         (m_attribute b OR AttributeIgnoreMask) = (a OR AttributeIgnoreMask))"

definition HasSameProperties :: "KMemoryBlock \<Rightarrow> KMemoryBlock \<Rightarrow> bool" where
  "HasSameProperties b rhs \<longleftrightarrow>
     m_memory_state b = m_memory_state rhs \<and> m_permission b = m_permission rhs \<and>
     m_original_permission b = m_original_permission rhs \<and>
     m_attribute b = m_attribute rhs \<and> m_ipc_lock_count b = m_ipc_lock_count rhs \<and>
     m_device_use_count b = m_device_use_count rhs"

definition CanMergeWith :: "KMemoryBlock \<Rightarrow> KMemoryBlock \<Rightarrow> bool" where
  "CanMergeWith b rhs \<longleftrightarrow>
     HasSameProperties b rhs \<and>
     m_disable_merge_attribute b AND Dm DmAllRight = Dm DmNone \<and>
     m_disable_merge_attribute rhs AND Dm DmAllLeft = Dm DmNone"

definition Contains :: "KMemoryBlock \<Rightarrow> u64 \<Rightarrow> bool" where
  "Contains b addr \<longleftrightarrow> m_address b \<le> addr \<and> addr \<le> GetEndAddress b"

definition Add_asserts :: "KMemoryBlock \<Rightarrow> KMemoryBlock \<Rightarrow> bool" where
  "Add_asserts b added \<longleftrightarrow>
     m_num_pages added > 0 \<and>
     m_address b + GetSize added - 1 < GetEndAddress b + GetSize added - 1"

definition Add :: "KMemoryBlock \<Rightarrow> KMemoryBlock \<Rightarrow> KMemoryBlock" where
  "Add b added =
     b\<lparr>m_num_pages := m_num_pages b + m_num_pages added,
       m_disable_merge_attribute := m_disable_merge_attribute b OR m_disable_merge_attribute added,
       m_device_disable_merge_right_count := m_device_disable_merge_right_count added\<rparr>"

definition KMemoryBlock_Update_asserts :: "KMemoryBlock \<Rightarrow> bool" where
  "KMemoryBlock_Update_asserts b \<longleftrightarrow>
     m_original_permission b = Perm PermNone \<and>
     m_attribute b AND Attr AttrIpcLocked = Attr AttrNone"

definition KMemoryBlock_Update ::
    "KMemoryBlock \<Rightarrow> u32 \<Rightarrow> u8 \<Rightarrow> u8 \<Rightarrow> bool \<Rightarrow> u8 \<Rightarrow> u8 \<Rightarrow> KMemoryBlock" where
  "KMemoryBlock_Update b s p a set_disable_merge_attr set_mask clear_mask =
     (let b1 = b\<lparr>m_memory_state := s, m_permission := p,
                 m_attribute := a OR (m_attribute b AND
                                  (Attr AttrIpcLocked OR Attr AttrDeviceShared))\<rparr>;
          b2 = (if set_disable_merge_attr \<and> set_mask \<noteq> 0
                then b1\<lparr>m_disable_merge_attribute := m_disable_merge_attribute b1 OR set_mask\<rparr>
                else b1)
      in if clear_mask \<noteq> 0
         then b2\<lparr>m_disable_merge_attribute := m_disable_merge_attribute b2 AND NOT clear_mask\<rparr>
         else b2)"

definition KMemoryBlock_UpdateAttribute_asserts :: "u8 \<Rightarrow> bool" where
  "KMemoryBlock_UpdateAttribute_asserts msk \<longleftrightarrow>
     msk AND Attr AttrIpcLocked = 0 \<and> msk AND Attr AttrDeviceShared = 0"

definition KMemoryBlock_UpdateAttribute :: "KMemoryBlock \<Rightarrow> u8 \<Rightarrow> u8 \<Rightarrow> KMemoryBlock" where
  "KMemoryBlock_UpdateAttribute b msk attr =
     b\<lparr>m_attribute := (m_attribute b AND NOT msk) OR attr\<rparr>"

text \<open>
  \<^verbatim>\<open>Split\<close> writes the left part into the block it is given, all twelve members of it, and
  keeps the right part in place: the result is (left part, right part).
\<close>

definition Split_asserts :: "KMemoryBlock \<Rightarrow> u64 \<Rightarrow> bool" where
  "Split_asserts b addr \<longleftrightarrow> m_address b < addr \<and> Contains b addr \<and> IsAligned addr PageSize"

definition Split :: "KMemoryBlock \<Rightarrow> u64 \<Rightarrow> KMemoryBlock \<times> KMemoryBlock" where
  "Split b addr =
     (let left_pages = (addr - m_address b) div PageSize;
          block = \<lparr>m_device_disable_merge_left_count = m_device_disable_merge_left_count b,
                   m_device_disable_merge_right_count = 0,
                   m_address = m_address b, m_num_pages = left_pages,
                   m_memory_state = m_memory_state b,
                   m_ipc_lock_count = m_ipc_lock_count b,
                   m_device_use_count = m_device_use_count b,
                   m_ipc_disable_merge_count = m_ipc_disable_merge_count b,
                   m_permission = m_permission b,
                   m_original_permission = m_original_permission b,
                   m_attribute = m_attribute b,
                   m_disable_merge_attribute = m_disable_merge_attribute b AND Dm DmAllLeft\<rparr>;
          this = b\<lparr>m_address := addr, m_num_pages := m_num_pages b - left_pages,
                   m_ipc_disable_merge_count := 0,
                   m_device_disable_merge_left_count := 0,
                   m_disable_merge_attribute := m_disable_merge_attribute b AND Dm DmAllRight\<rparr>
      in (block, this))"

section \<open>Device sharing\<close>

definition UpdateDeviceDisableMergeStateForShareLeft ::
    "KMemoryBlock \<Rightarrow> u8 \<Rightarrow> bool \<Rightarrow> bool \<Rightarrow> KMemoryBlock" where
  "UpdateDeviceDisableMergeStateForShareLeft b new_perm left right =
     (if left
      then b\<lparr>m_disable_merge_attribute := m_disable_merge_attribute b OR Dm DmDeviceLeft,
             m_device_disable_merge_left_count := m_device_disable_merge_left_count b + 1\<rparr>
      else b)"

definition UpdateDeviceDisableMergeStateForShareRight ::
    "KMemoryBlock \<Rightarrow> u8 \<Rightarrow> bool \<Rightarrow> bool \<Rightarrow> KMemoryBlock" where
  "UpdateDeviceDisableMergeStateForShareRight b new_perm left right =
     (if right
      then b\<lparr>m_disable_merge_attribute := m_disable_merge_attribute b OR Dm DmDeviceRight,
             m_device_disable_merge_right_count := m_device_disable_merge_right_count b + 1\<rparr>
      else b)"

definition UpdateDeviceDisableMergeStateForShare ::
    "KMemoryBlock \<Rightarrow> u8 \<Rightarrow> bool \<Rightarrow> bool \<Rightarrow> KMemoryBlock" where
  "UpdateDeviceDisableMergeStateForShare b new_perm left right =
     UpdateDeviceDisableMergeStateForShareRight
       (UpdateDeviceDisableMergeStateForShareLeft b new_perm left right) new_perm left right"

definition ShareToDevice_asserts :: "KMemoryBlock \<Rightarrow> bool \<Rightarrow> bool \<Rightarrow> bool" where
  "ShareToDevice_asserts b left right \<longleftrightarrow>
     (m_attribute b AND Attr AttrDeviceShared = Attr AttrDeviceShared \<or>
      m_device_use_count b = 0) \<and>
     m_device_use_count b + 1 > 0 \<and>
     (left \<longrightarrow> m_device_disable_merge_left_count b + 1 > 0) \<and>
     (right \<longrightarrow> m_device_disable_merge_right_count b + 1 > 0)"

definition ShareToDevice :: "KMemoryBlock \<Rightarrow> u8 \<Rightarrow> bool \<Rightarrow> bool \<Rightarrow> KMemoryBlock" where
  "ShareToDevice b new_perm left right =
     (let b1 = b\<lparr>m_device_use_count := m_device_use_count b + 1\<rparr>;
          b2 = b1\<lparr>m_attribute := m_attribute b1 OR Attr AttrDeviceShared\<rparr>
      in UpdateDeviceDisableMergeStateForShare b2 new_perm left right)"

definition UpdateDeviceDisableMergeStateForUnshareLeft ::
    "KMemoryBlock \<Rightarrow> u8 \<Rightarrow> bool \<Rightarrow> bool \<Rightarrow> KMemoryBlock" where
  "UpdateDeviceDisableMergeStateForUnshareLeft b new_perm left right =
     (if left \<and> m_device_disable_merge_left_count b = 0 then b
      else
        let b1 = (if left
                  then b\<lparr>m_device_disable_merge_left_count :=
                           m_device_disable_merge_left_count b - 1\<rparr>
                  else b);
            b2 = b1\<lparr>m_device_disable_merge_left_count :=
                      min (m_device_disable_merge_left_count b1) (m_device_use_count b1)\<rparr>
        in if m_device_disable_merge_left_count b2 = 0
           then b2\<lparr>m_disable_merge_attribute :=
                     m_disable_merge_attribute b2 AND NOT (Dm DmDeviceLeft)\<rparr>
           else b2)"

definition UpdateDeviceDisableMergeStateForUnshareRight ::
    "KMemoryBlock \<Rightarrow> u8 \<Rightarrow> bool \<Rightarrow> bool \<Rightarrow> KMemoryBlock" where
  "UpdateDeviceDisableMergeStateForUnshareRight b new_perm left right =
     (if right
      then
        let old = m_device_disable_merge_right_count b;
            b1 = b\<lparr>m_device_disable_merge_right_count := old - 1\<rparr>
        in if old = 1
           then b1\<lparr>m_disable_merge_attribute :=
                     m_disable_merge_attribute b1 AND NOT (Dm DmDeviceRight)\<rparr>
           else b1
      else b)"

definition UpdateDeviceDisableMergeStateForUnshare ::
    "KMemoryBlock \<Rightarrow> u8 \<Rightarrow> bool \<Rightarrow> bool \<Rightarrow> KMemoryBlock" where
  "UpdateDeviceDisableMergeStateForUnshare b new_perm left right =
     UpdateDeviceDisableMergeStateForUnshareRight
       (UpdateDeviceDisableMergeStateForUnshareLeft b new_perm left right) new_perm left right"

definition UnshareToDevice_asserts :: "KMemoryBlock \<Rightarrow> bool \<Rightarrow> bool" where
  "UnshareToDevice_asserts b right \<longleftrightarrow>
     m_attribute b AND Attr AttrDeviceShared = Attr AttrDeviceShared \<and>
     m_device_use_count b > 0 \<and>
     (right \<longrightarrow> m_device_disable_merge_right_count b > 0)"

text \<open>The common head of \<^verbatim>\<open>UnshareToDevice\<close> and \<^verbatim>\<open>UnshareToDeviceRight\<close>.\<close>

definition drop_device_use :: "KMemoryBlock \<Rightarrow> KMemoryBlock" where
  "drop_device_use b =
     (let old_count = m_device_use_count b;
          b1 = b\<lparr>m_device_use_count := old_count - 1\<rparr>
      in if old_count = 1
         then b1\<lparr>m_attribute := m_attribute b1 AND NOT (Attr AttrDeviceShared)\<rparr>
         else b1)"

definition UnshareToDevice :: "KMemoryBlock \<Rightarrow> u8 \<Rightarrow> bool \<Rightarrow> bool \<Rightarrow> KMemoryBlock" where
  "UnshareToDevice b new_perm left right =
     UpdateDeviceDisableMergeStateForUnshare (drop_device_use b) new_perm left right"

definition UnshareToDeviceRight :: "KMemoryBlock \<Rightarrow> u8 \<Rightarrow> bool \<Rightarrow> bool \<Rightarrow> KMemoryBlock" where
  "UnshareToDeviceRight b new_perm left right =
     UpdateDeviceDisableMergeStateForUnshareRight (drop_device_use b) new_perm left right"

section \<open>Locking for IPC\<close>

definition LockForIpc_asserts :: "KMemoryBlock \<Rightarrow> u8 \<Rightarrow> bool \<Rightarrow> bool" where
  "LockForIpc_asserts b new_perm left \<longleftrightarrow>
     (m_attribute b AND Attr AttrIpcLocked = Attr AttrIpcLocked \<or> m_ipc_lock_count b = 0) \<and>
     m_ipc_lock_count b + 1 > 0 \<and>
     (m_ipc_lock_count b + 1 = 1 \<longrightarrow>
        m_original_permission b = Perm PermNone \<and>
        (m_permission b OR new_perm OR Perm PermNotMapped) =
          (m_permission b OR Perm PermNotMapped) \<and>
        (m_permission b AND Perm PermUserExecute \<noteq> Perm PermUserExecute \<or>
         new_perm = Perm PermUserRead)) \<and>
     (left \<longrightarrow> m_ipc_disable_merge_count b + 1 > 0)"

definition LockForIpc :: "KMemoryBlock \<Rightarrow> u8 \<Rightarrow> bool \<Rightarrow> bool \<Rightarrow> KMemoryBlock" where
  "LockForIpc b new_perm left right =
     (let new_lock_count = m_ipc_lock_count b + 1;
          b1 = b\<lparr>m_ipc_lock_count := new_lock_count\<rparr>;
          b2 = (if new_lock_count = 1
                then b1\<lparr>m_original_permission := m_permission b1,
                        m_permission := (new_perm AND Perm PermIpcLockChangeMask) OR
                          (m_permission b1 AND NOT (Perm PermIpcLockChangeMask))\<rparr>
                else b1);
          b3 = b2\<lparr>m_attribute := m_attribute b2 OR Attr AttrIpcLocked\<rparr>
      in if left
         then b3\<lparr>m_disable_merge_attribute := m_disable_merge_attribute b3 OR Dm DmIpcLeft,
                 m_ipc_disable_merge_count := m_ipc_disable_merge_count b3 + 1\<rparr>
         else b3)"

definition UnlockForIpc_asserts :: "KMemoryBlock \<Rightarrow> bool \<Rightarrow> bool" where
  "UnlockForIpc_asserts b left \<longleftrightarrow>
     m_attribute b AND Attr AttrIpcLocked = Attr AttrIpcLocked \<and>
     m_ipc_lock_count b > 0 \<and>
     (m_ipc_lock_count b = 1 \<longrightarrow> m_original_permission b \<noteq> Perm PermNone) \<and>
     (left \<longrightarrow> m_ipc_disable_merge_count b > 0)"

definition UnlockForIpc :: "KMemoryBlock \<Rightarrow> u8 \<Rightarrow> bool \<Rightarrow> bool \<Rightarrow> KMemoryBlock" where
  "UnlockForIpc b new_perm left right =
     (let old_lock_count = m_ipc_lock_count b;
          b1 = b\<lparr>m_ipc_lock_count := old_lock_count - 1\<rparr>;
          b2 = (if old_lock_count = 1
                then b1\<lparr>m_permission := m_original_permission b1,
                        m_original_permission := Perm PermNone,
                        m_attribute := m_attribute b1 AND NOT (Attr AttrIpcLocked)\<rparr>
                else b1)
      in if left
         then
           let old_ipc_disable_merge_count = m_ipc_disable_merge_count b2;
               b3 = b2\<lparr>m_ipc_disable_merge_count := old_ipc_disable_merge_count - 1\<rparr>
           in if old_ipc_disable_merge_count = 1
              then b3\<lparr>m_disable_merge_attribute :=
                        m_disable_merge_attribute b3 AND NOT (Dm DmIpcLeft)\<rparr>
              else b3
         else b2)"

section \<open>The block invariant\<close>

text \<open>
  What the code keeps true between the members of one block: an attribute bit or a disable-merge
  bit is set exactly when the counter behind it is positive, and the original permission is saved
  exactly while the block is locked for IPC.
\<close>

definition block_inv :: "KMemoryBlock \<Rightarrow> bool" where
  "block_inv b \<longleftrightarrow>
     (bit (m_attribute b) 1 \<longleftrightarrow> m_ipc_lock_count b \<noteq> 0) \<and>
     (bit (m_attribute b) 2 \<longleftrightarrow> m_device_use_count b \<noteq> 0) \<and>
     (m_original_permission b \<noteq> 0 \<longleftrightarrow> m_ipc_lock_count b \<noteq> 0) \<and>
     (bit (m_disable_merge_attribute b) 1 \<longleftrightarrow> m_device_disable_merge_left_count b \<noteq> 0) \<and>
     (bit (m_disable_merge_attribute b) 2 \<longleftrightarrow> m_ipc_disable_merge_count b \<noteq> 0) \<and>
     (bit (m_disable_merge_attribute b) 4 \<longleftrightarrow> m_device_disable_merge_right_count b \<noteq> 0)"

lemmas ShareToDevice_defs =
  ShareToDevice_def ShareToDevice_asserts_def UpdateDeviceDisableMergeStateForShare_def
  UpdateDeviceDisableMergeStateForShareRight_def UpdateDeviceDisableMergeStateForShareLeft_def

lemmas UnshareToDevice_defs =
  UnshareToDevice_def UnshareToDeviceRight_def UnshareToDevice_asserts_def drop_device_use_def
  UpdateDeviceDisableMergeStateForUnshare_def UpdateDeviceDisableMergeStateForUnshareRight_def
  UpdateDeviceDisableMergeStateForUnshareLeft_def

lemmas ipc_defs =
  LockForIpc_def LockForIpc_asserts_def UnlockForIpc_def UnlockForIpc_asserts_def

lemmas block_inv_simps =
  block_inv_def Let_def bit_simps word_gt_0 u8_flag_bits word_sub_1_eq_0

lemma block_inv_ShareToDevice:
  assumes "block_inv b" and "ShareToDevice_asserts b l r"
  shows "block_inv (ShareToDevice b p l r)"
  using assms by (cases l; cases r) (simp_all add: block_inv_simps ShareToDevice_defs)

lemma block_inv_UnshareToDevice:
  assumes "block_inv b" and "UnshareToDevice_asserts b r"
  shows "block_inv (UnshareToDevice b p l r)"
  using assms by (cases l; cases r) (auto simp: block_inv_simps UnshareToDevice_defs min_def)

lemma block_inv_UnshareToDeviceRight:
  assumes "block_inv b" and "UnshareToDevice_asserts b r"
  shows "block_inv (UnshareToDeviceRight b p l r)"
  using assms by (cases r) (simp_all add: block_inv_simps UnshareToDevice_defs)

lemma block_inv_LockForIpc:
  assumes "block_inv b" and "LockForIpc_asserts b p l" and "m_permission b \<noteq> Perm PermNone"
  shows "block_inv (LockForIpc b p l r)"
  using assms by (cases l) (simp_all add: block_inv_simps ipc_defs)

lemma block_inv_UnlockForIpc:
  assumes "block_inv b" and "UnlockForIpc_asserts b l"
  shows "block_inv (UnlockForIpc b p l r)"
  using assms by (cases l) (simp_all add: block_inv_simps ipc_defs)

text \<open>
  The masks that the manager passes to \<^verbatim>\<open>Update\<close> and \<^verbatim>\<open>UpdateAttribute\<close> leave the
  counted bits alone.
\<close>

definition uncounted_attr :: "u8 \<Rightarrow> bool" where
  "uncounted_attr a \<longleftrightarrow> a AND (Attr AttrIpcLocked OR Attr AttrDeviceShared) = Attr AttrNone"

definition uncounted_dm :: "u8 \<Rightarrow> bool" where
  "uncounted_dm a \<longleftrightarrow> a AND (Dm DmDeviceLeft OR Dm DmIpcLeft OR Dm DmDeviceRight) = Dm DmNone"

lemma uncounted_attr_bits: "uncounted_attr a \<Longrightarrow> \<not> bit a 1 \<and> \<not> bit a 2"
  by (metis (no_types, opaque_lifting) uncounted_attr_def KMemoryAttribute.simps(1,5,6)
      and_single_bit_0 bit.conj_disj_distrib disjunctive_add or_eq_0_iff)

lemma uncounted_dm_bits: "uncounted_dm a \<Longrightarrow> \<not> bit a 1 \<and> \<not> bit a 2 \<and> \<not> bit a 4"
proof -
  assume "uncounted_dm a"
  then have z: "bit (a AND 22) n = bit (0 :: u8) n" for n
    by (simp add: uncounted_dm_def)
  show ?thesis using z [of 1] z [of 2] z [of 4] by (simp add: bit_simps)
qed

lemma block_inv_KMemoryBlock_Update:
  assumes "block_inv b" and "uncounted_attr a" and "uncounted_dm set_mask"
    and "uncounted_dm clear_mask"
  shows "block_inv (KMemoryBlock_Update b s p a set_disable set_mask clear_mask)"
  using assms(1) uncounted_attr_bits [OF assms(2)] uncounted_dm_bits [OF assms(3)]
    uncounted_dm_bits [OF assms(4)]
  by (simp add: block_inv_def KMemoryBlock_Update_def Let_def bit_simps)

lemma block_inv_KMemoryBlock_UpdateAttribute:
  assumes "block_inv b" and "uncounted_attr msk" and "uncounted_attr attr"
  shows "block_inv (KMemoryBlock_UpdateAttribute b msk attr)"
  using assms(1) uncounted_attr_bits [OF assms(2)] uncounted_attr_bits [OF assms(3)]
  by (simp add: block_inv_def KMemoryBlock_UpdateAttribute_def bit_simps)

lemma block_inv_Split:
  assumes "block_inv b"
  shows "block_inv (fst (Split b addr))" and "block_inv (snd (Split b addr))"
  using assms by (simp_all add: block_inv_def Split_def Let_def bit_simps)

lemma block_inv_Add:
  assumes "block_inv b" and "block_inv added" and "CanMergeWith b added"
  shows "block_inv (Add b added)"
proof -
  have z: "bit (m_disable_merge_attribute added AND 15) n = bit (0 :: u8) n" for n
    using assms(3) by (simp add: CanMergeWith_def)
  have "bit (m_disable_merge_attribute b AND 16) 4 = bit (0 :: u8) 4"
    using assms(3) by (simp add: CanMergeWith_def)
  then show ?thesis using assms(1,2) z [of 1] z [of 2]
    by (simp add: block_inv_def Add_def bit_simps)
qed

lemma block_inv_new: "uncounted_attr a \<Longrightarrow> block_inv (new_KMemoryBlock addr np s p a)"
  using uncounted_attr_bits [of a] by (simp add: block_inv_def new_KMemoryBlock_def)

section \<open>Round trips\<close>

lemma Lock_Unlock:
  assumes "block_inv b" and "LockForIpc_asserts b p l"
  shows "UnlockForIpc (LockForIpc b p l r) q l r' = b"
  using assms by (cases l; cases "m_ipc_lock_count b = 0")
    (simp_all add: Let_def block_inv_def ipc_defs u8_flag_roundtrip)

lemma drop_ShareToDevice:
  assumes "block_inv b"
  shows "drop_device_use (ShareToDevice b p l r) = UpdateDeviceDisableMergeStateForShare b p l r"
  using assms by (cases l; cases r; cases "m_device_use_count b = 0")
    (simp_all add: drop_device_use_def Let_def block_inv_def u8_flag_roundtrip ShareToDevice_defs)

lemma Unshare_Share_left:
  assumes inv: "block_inv b" and as: "l \<longrightarrow> m_device_disable_merge_left_count b + 1 \<noteq> 0"
    and le: "m_device_disable_merge_left_count b \<le> m_device_use_count b"
  shows "UpdateDeviceDisableMergeStateForUnshareLeft
    (UpdateDeviceDisableMergeStateForShareLeft b p l r) q l r' = b"
  using inv as by (cases l; cases "m_device_disable_merge_left_count b = 0")
    (simp_all add: min_absorb1 [OF le] UnshareToDevice_defs ShareToDevice_defs block_inv_def
      u8_flag_roundtrip Let_def)

lemma Unshare_Share_right:
  assumes "block_inv b" and "r \<longrightarrow> m_device_disable_merge_right_count b + 1 \<noteq> 0"
  shows "UpdateDeviceDisableMergeStateForUnshareRight
    (UpdateDeviceDisableMergeStateForShareRight b p l r) q l' r = b"
  using assms by (cases r; cases "m_device_disable_merge_right_count b = 0")
    (simp_all add: UnshareToDevice_defs ShareToDevice_defs block_inv_def u8_flag_roundtrip
      Let_def)

lemma Unshare_left_Share_right:
  "UpdateDeviceDisableMergeStateForUnshareLeft
     (UpdateDeviceDisableMergeStateForShareRight b p l r) q l' r' =
   UpdateDeviceDisableMergeStateForShareRight
     (UpdateDeviceDisableMergeStateForUnshareLeft b q l' r') p l r"
proof -
  have "(x OR 16) AND - 3 = (x AND - 3) OR 16" for x :: u8
    by (simp add: bit.conj_disj_distrib2)
  then show ?thesis
    by (simp add: UnshareToDevice_defs ShareToDevice_defs Let_def)
qed

lemma Share_Unshare:
  assumes inv: "block_inv b" and as: "ShareToDevice_asserts b l r"
    and le: "m_device_disable_merge_left_count b \<le> m_device_use_count b"
  shows "UnshareToDevice (ShareToDevice b p l r) q l r = b"
proof -
  from as have "l \<longrightarrow> m_device_disable_merge_left_count b + 1 \<noteq> 0"
    "r \<longrightarrow> m_device_disable_merge_right_count b + 1 \<noteq> 0"
    by (simp_all add: ShareToDevice_asserts_def word_gt_0)
  then show ?thesis
    by (simp add: UnshareToDevice_def UpdateDeviceDisableMergeStateForUnshare_def
        drop_ShareToDevice UpdateDeviceDisableMergeStateForShare_def Unshare_left_Share_right
        Unshare_Share_left Unshare_Share_right inv le)
qed

lemma Split_Add:
  assumes "m_disable_merge_attribute b AND (Dm DmAllLeft OR Dm DmAllRight) =
           m_disable_merge_attribute b"
  shows "Add (fst (Split b addr)) (snd (Split b addr)) = b"
  using word_and_or_split [OF assms] by (simp add: Split_def Add_def Let_def)

section \<open>Life of a block\<close>

text \<open>
  Every way the kernel makes or changes a block.  The guards are the assertions of the operation
  and, for the two general updates, that the masks do not name a counted bit, which is how every
  caller of the page table uses them.
\<close>

inductive block_reachable :: "KMemoryBlock \<Rightarrow> bool" where
  fresh: "uncounted_attr a \<Longrightarrow> block_reachable (new_KMemoryBlock addr np s p a)"
| update: "block_reachable b \<Longrightarrow> uncounted_attr a \<Longrightarrow> uncounted_dm set_mask \<Longrightarrow>
    uncounted_dm clear_mask \<Longrightarrow>
    block_reachable (KMemoryBlock_Update b s p a set_disable set_mask clear_mask)"
| update_attribute: "block_reachable b \<Longrightarrow> uncounted_attr msk \<Longrightarrow> uncounted_attr attr \<Longrightarrow>
    block_reachable (KMemoryBlock_UpdateAttribute b msk attr)"
| share: "block_reachable b \<Longrightarrow> ShareToDevice_asserts b l r \<Longrightarrow>
    block_reachable (ShareToDevice b p l r)"
| unshare: "block_reachable b \<Longrightarrow> UnshareToDevice_asserts b r \<Longrightarrow>
    block_reachable (UnshareToDevice b p l r)"
| unshare_right: "block_reachable b \<Longrightarrow> UnshareToDevice_asserts b r \<Longrightarrow>
    block_reachable (UnshareToDeviceRight b p l r)"
| lock: "block_reachable b \<Longrightarrow> LockForIpc_asserts b p l \<Longrightarrow> m_permission b \<noteq> Perm PermNone \<Longrightarrow>
    block_reachable (LockForIpc b p l r)"
| unlock: "block_reachable b \<Longrightarrow> UnlockForIpc_asserts b l \<Longrightarrow>
    block_reachable (UnlockForIpc b p l r)"
| split_left: "block_reachable b \<Longrightarrow> block_reachable (fst (Split b addr))"
| split_right: "block_reachable b \<Longrightarrow> block_reachable (snd (Split b addr))"
| merge: "block_reachable b \<Longrightarrow> block_reachable added \<Longrightarrow> CanMergeWith b added \<Longrightarrow>
    block_reachable (Add b added)"

lemma block_reachable_imp_inv: "block_reachable b \<Longrightarrow> block_inv b"
proof (induction rule: block_reachable.induct)
qed (auto intro: block_inv_new block_inv_KMemoryBlock_Update block_inv_KMemoryBlock_UpdateAttribute
    block_inv_ShareToDevice block_inv_UnshareToDevice block_inv_UnshareToDeviceRight
    block_inv_LockForIpc block_inv_UnlockForIpc block_inv_Split block_inv_Add)

text \<open>
  Under the invariant the unlocking assertions that compare members with each other follow from
  the lock count alone.
\<close>

lemma UnlockForIpc_asserts_inv:
  assumes "block_inv b" and "m_ipc_lock_count b \<noteq> 0"
    and "left \<longrightarrow> m_ipc_disable_merge_count b \<noteq> 0"
  shows "UnlockForIpc_asserts b left"
  using assms by (simp add: block_inv_simps UnlockForIpc_asserts_def)

lemma UnshareToDevice_asserts_inv:
  assumes "block_inv b" and "m_device_use_count b \<noteq> 0"
    and "right \<longrightarrow> m_device_disable_merge_right_count b \<noteq> 0"
  shows "UnshareToDevice_asserts b right"
  using assms by (simp add: block_inv_simps UnshareToDevice_asserts_def)

section \<open>Properties\<close>

text \<open>
  C1.  On every block the kernel can reach, the attribute and disable-merge bits mirror their
  counters and the original permission is saved exactly while the block is locked for IPC; hence
  the assertions of \<^verbatim>\<open>UnlockForIpc\<close> and \<^verbatim>\<open>UnshareToDevice\<close> on bits and saved
  permission cannot fire when the counters are positive.
\<close>

theorem block_counters_consistent:
  assumes "block_reachable b"
  shows "block_inv b \<and>
    (m_ipc_lock_count b \<noteq> 0 \<and> (left \<longrightarrow> m_ipc_disable_merge_count b \<noteq> 0) \<longrightarrow>
       UnlockForIpc_asserts b left) \<and>
    (m_device_use_count b \<noteq> 0 \<and> (right \<longrightarrow> m_device_disable_merge_right_count b \<noteq> 0) \<longrightarrow>
       UnshareToDevice_asserts b right)"
  using block_reachable_imp_inv [OF assms] UnlockForIpc_asserts_inv UnshareToDevice_asserts_inv
  by blast

definition example_block :: KMemoryBlock where
  "example_block = new_KMemoryBlock 0x10000 4 (KMemoryState StNormal) (Perm PermUserReadWrite)
     (Attr AttrNone)"

theorem block_counters_consistent_witness:
  "block_inv (LockForIpc example_block (Perm PermUserRead) True False) \<and>
   UnlockForIpc_asserts (LockForIpc example_block (Perm PermUserRead) True False) True"
proof -
  have "block_reachable example_block"
    unfolding example_block_def by (rule block_reachable.fresh) (simp add: uncounted_attr_def)
  then have "block_reachable (LockForIpc example_block (Perm PermUserRead) True False)"
    by (rule block_reachable.lock)
      (simp_all add: example_block_def new_KMemoryBlock_def LockForIpc_asserts_def
        KMemoryPermission_defs)
  from block_counters_consistent [OF this, of True True] show ?thesis
    by (simp add: LockForIpc_def example_block_def new_KMemoryBlock_def Let_def)
qed

text \<open>
  Locking a block for IPC and unlocking it with the same \<^verbatim>\<open>left\<close> flag gives the block
  back, permissions, attributes and counters included; so does sharing it with a device and
  unsharing it with the same flags, as long as the left count does not exceed the use count.
\<close>

theorem lock_share_roundtrip:
  assumes "block_inv b"
  shows "(LockForIpc_asserts b p l \<longrightarrow> UnlockForIpc (LockForIpc b p l r) q l r' = b) \<and>
    (ShareToDevice_asserts b l r \<and>
       m_device_disable_merge_left_count b \<le> m_device_use_count b \<longrightarrow>
     UnshareToDevice (ShareToDevice b p l r) q l r = b)"
  using Lock_Unlock [OF assms] Share_Unshare [OF assms] by blast

theorem lock_share_roundtrip_witness:
  "UnlockForIpc (LockForIpc example_block (Perm PermUserRead) True False) 0 True True =
     example_block \<and>
   UnshareToDevice (ShareToDevice example_block 0 True True) 0 True True = example_block"
proof -
  have "block_inv example_block"
    unfolding example_block_def by (rule block_inv_new) (simp add: uncounted_attr_def)
  moreover have "LockForIpc_asserts example_block (Perm PermUserRead) True"
    by (simp add: example_block_def new_KMemoryBlock_def LockForIpc_asserts_def
        KMemoryPermission_defs)
  moreover have "ShareToDevice_asserts example_block True True"
    by (simp add: example_block_def new_KMemoryBlock_def ShareToDevice_asserts_def)
  moreover have "m_device_disable_merge_left_count example_block \<le>
      m_device_use_count example_block"
    by (simp add: example_block_def new_KMemoryBlock_def)
  ultimately show ?thesis
    using lock_share_roundtrip
      [of example_block "Perm PermUserRead" True False 0 True]
      lock_share_roundtrip [of example_block 0 True True 0 True] by blast
qed

end
