(* ===== verification/Block_Manager.thy ===== *)
theory Block_Manager
  imports Memory_Block
begin

text \<open>
  \<^verbatim>\<open>src/src/nxemu-os/core/hle/kernel/k_memory_block_manager.h\<close> and
  \<^verbatim>\<open>.cpp\<close>: the ordered set of the blocks of a process address space.  The intrusive
  red-black tree is the list of its blocks in tree order, an iterator is an index into that list
  and \<open>end()\<close> its length.  A dereferenced null pointer, an index outside an array or a
  dereferenced \<open>end()\<close> is \<open>None\<close>.  The slab manager is the number of objects it can still
  hand out.  The four \<^verbatim>\<open>Update\<close> functions share one loop in the source, copied with a
  different test and a different block function; here it is \<open>update_loop\<close> with these two as
  arguments.

  A page-level reading of the tree, \<open>pages_of\<close>, is the abstract specification: an
  address space is the list of the properties of its pages, and every update is a pointwise change
  of the pages of its range.  The locale \<open>block_update\<close> states what the loop needs of the
  test and the block function, and each of the four updates is an interpretation of it.
\<close>

unbundle bit_operations_syntax

section \<open>The update allocator\<close>

definition MaxBlocks :: nat where
  "MaxBlocks = 2"

record UpdateAllocator =
  m_blocks :: "KMemoryBlock option list"
  m_index :: nat
  slab_free :: nat

datatype BlockResult = Block_Success | Block_OutOfResource

definition default_KMemoryBlock :: KMemoryBlock where
  "default_KMemoryBlock =
     \<lparr>m_device_disable_merge_left_count = 0, m_device_disable_merge_right_count = 0,
      m_address = 0, m_num_pages = 0, m_memory_state = KMemoryState StNone,
      m_ipc_lock_count = 0, m_device_use_count = 0, m_ipc_disable_merge_count = 0,
      m_permission = Perm PermNone, m_original_permission = Perm PermNone,
      m_attribute = Attr AttrNone, m_disable_merge_attribute = Dm DmNone\<rparr>"

definition slab_Allocate :: "nat \<Rightarrow> KMemoryBlock option \<times> nat" where
  "slab_Allocate n = (if n = 0 then (None, 0) else (Some default_KMemoryBlock, n - 1))"

text \<open>
  \<^verbatim>\<open>Initialize\<close> fills the last \<open>num_blocks\<close> entries from the slab.  A larger number
  than \<open>MaxBlocks\<close>, which the code asserts against, wraps the index and writes outside the
  array.
\<close>

fun UpdateAllocator_fill :: "nat \<Rightarrow> nat \<Rightarrow> UpdateAllocator \<Rightarrow> BlockResult \<times> UpdateAllocator" where
  "UpdateAllocator_fill 0 i al = (Block_Success, al)"
| "UpdateAllocator_fill (Suc n) i al =
     (let (blk, free) = slab_Allocate (slab_free al);
          al' = al\<lparr>m_blocks := (m_blocks al)[m_index al + i := blk], slab_free := free\<rparr>
      in if blk = None then (Block_OutOfResource, al') else UpdateAllocator_fill n (i + 1) al')"

definition UpdateAllocator_Initialize ::
    "nat \<Rightarrow> UpdateAllocator \<Rightarrow> (BlockResult \<times> UpdateAllocator) option" where
  "UpdateAllocator_Initialize num_blocks al =
     (if num_blocks > MaxBlocks then None
      else Some (UpdateAllocator_fill num_blocks 0 (al\<lparr>m_index := MaxBlocks - num_blocks\<rparr>)))"

definition new_UpdateAllocator :: "nat \<Rightarrow> nat \<Rightarrow> (BlockResult \<times> UpdateAllocator) option" where
  "new_UpdateAllocator free num_blocks =
     UpdateAllocator_Initialize num_blocks
       \<lparr>m_blocks = replicate MaxBlocks None, m_index = MaxBlocks, slab_free = free\<rparr>"

text \<open>The destructor returns what is left to the slab: the number of its free objects.\<close>

definition delete_UpdateAllocator :: "UpdateAllocator \<Rightarrow> nat" where
  "delete_UpdateAllocator al =
     fold (\<lambda>blk free. if blk \<noteq> None then free + 1 else free) (m_blocks al) (slab_free al)"

definition UpdateAllocator_Allocate :: "UpdateAllocator \<Rightarrow> (KMemoryBlock \<times> UpdateAllocator) option" where
  "UpdateAllocator_Allocate al =
     (if m_index al < length (m_blocks al)
      then case m_blocks al ! m_index al of
          None \<Rightarrow> None
        | Some block \<Rightarrow>
            Some (block, al\<lparr>m_blocks := (m_blocks al)[m_index al := None],
                            m_index := m_index al + 1\<rparr>)
      else None)"

definition UpdateAllocator_Free :: "UpdateAllocator \<Rightarrow> KMemoryBlock \<Rightarrow> UpdateAllocator" where
  "UpdateAllocator_Free al block =
     (if m_index al = 0 then al\<lparr>slab_free := slab_free al + 1\<rparr>
      else al\<lparr>m_index := m_index al - 1,
              m_blocks := (m_blocks al)[m_index al - 1 := Some block]\<rparr>)"

section \<open>The tree\<close>

type_synonym MemoryBlockTree = "KMemoryBlock list"

record KMemoryBlockManager =
  m_memory_block_tree :: MemoryBlockTree
  m_start_address :: u64
  m_end_address :: u64

text \<open>
  \<^verbatim>\<open>insert\<close> goes by \<^const>\<open>Compare\<close>; it gives the tree and the iterator of the new
  block.  On a block that compares equal the tree stays as it is and the iterator it returns is
  not in the tree: \<open>None\<close>.
\<close>

fun tree_insert :: "KMemoryBlock \<Rightarrow> MemoryBlockTree \<Rightarrow> (MemoryBlockTree \<times> nat) option" where
  "tree_insert x [] = Some ([x], 0)"
| "tree_insert x (b # bs) =
     (if Compare x b < 0 then Some (x # b # bs, 0)
      else if Compare x b = 0 then None
      else case tree_insert x bs of
          None \<Rightarrow> None
        | Some (bs', i) \<Rightarrow> Some (b # bs', i + 1))"

definition tree_erase :: "nat \<Rightarrow> MemoryBlockTree \<Rightarrow> MemoryBlockTree" where
  "tree_erase it bs = take it bs @ drop (Suc it) bs"

definition FindIterator :: "MemoryBlockTree \<Rightarrow> u64 \<Rightarrow> nat" where
  "FindIterator bs address =
     (let key = new_KMemoryBlock address 1 (KMemoryState StFree) (Perm PermNone) (Attr AttrNone)
      in length (takeWhile (\<lambda>b. Compare key b \<noteq> 0) bs))"

definition FindBlock :: "MemoryBlockTree \<Rightarrow> u64 \<Rightarrow> KMemoryBlock option" where
  "FindBlock bs address =
     (let it = FindIterator bs address in if it \<noteq> length bs then Some (bs ! it) else None)"

definition KMemoryBlockManager_Initialize ::
    "KMemoryBlockManager \<Rightarrow> u64 \<Rightarrow> u64 \<Rightarrow> nat \<Rightarrow>
     (BlockResult \<times> KMemoryBlockManager \<times> nat) option" where
  "KMemoryBlockManager_Initialize m st nd slab =
     (case slab_Allocate slab of
        (None, slab') \<Rightarrow> Some (Block_OutOfResource, m, slab')
      | (Some start_block, slab') \<Rightarrow>
          let m1 = m\<lparr>m_start_address := st, m_end_address := nd\<rparr>;
              blk = KMemoryBlock_Initialize start_block st ((nd - st) div PageSize)
                      (KMemoryState StFree) (Perm PermNone) (Attr AttrNone)
          in case tree_insert blk (m_memory_block_tree m1) of
              None \<Rightarrow> None
            | Some (bs, _) \<Rightarrow> Some (Block_Success, m1\<lparr>m_memory_block_tree := bs\<rparr>, slab'))"

text \<open>The calls of the block callback, in order, and what is left of tree and slab.\<close>

fun Finalize_loop :: "MemoryBlockTree \<Rightarrow> nat \<Rightarrow> (u64 \<times> u64) list \<times> nat" where
  "Finalize_loop [] slab = ([], slab)"
| "Finalize_loop (block # rest) slab =
     (let (calls, slab') = Finalize_loop rest (slab + 1)
      in ((m_address block, GetSize block) # calls, slab'))"

definition KMemoryBlockManager_Finalize ::
    "KMemoryBlockManager \<Rightarrow> nat \<Rightarrow> (u64 \<times> u64) list \<times> KMemoryBlockManager \<times> nat" where
  "KMemoryBlockManager_Finalize m slab =
     (let (calls, slab') = Finalize_loop (m_memory_block_tree m) slab
      in (calls, m\<lparr>m_memory_block_tree := []\<rparr>, slab'))"

section \<open>Free areas\<close>

text \<open>
  \<^verbatim>\<open>AlignDown\<close> divides by the alignment, so an alignment of zero is undefined once a free
  block has been reached.
\<close>

definition area_in_block :: "KMemoryInfo \<Rightarrow> u64 \<Rightarrow> u64 \<Rightarrow> u64 \<Rightarrow> u64 \<Rightarrow> u64" where
  "area_in_block info region_start algn offset guard_pages =
     (let area0 = (if i_address info \<le> region_start then region_start else i_address info);
          area1 = area0 + guard_pages * PageSize;
          offset_area = AlignDown area1 algn + offset
      in if area1 \<le> offset_area then offset_area else offset_area + algn)"

fun FindFreeArea_loop ::
    "MemoryBlockTree \<Rightarrow> u64 \<Rightarrow> u64 \<Rightarrow> u64 \<Rightarrow> u64 \<Rightarrow> u64 \<Rightarrow> u64 \<Rightarrow> u64 option" where
  "FindFreeArea_loop [] region_start region_last num_pages algn offset guard_pages = Some 0"
| "FindFreeArea_loop (b # bs) region_start region_last num_pages algn offset guard_pages =
     (let info = GetMemoryInfo b in
      if region_last < i_address info then Some 0
      else if i_state info \<noteq> KMemoryState StFree then
        FindFreeArea_loop bs region_start region_last num_pages algn offset guard_pages
      else if algn = 0 then None
      else
        let area = area_in_block info region_start algn offset guard_pages;
            area_end = area + num_pages * PageSize + guard_pages * PageSize;
            area_last = area_end - 1
        in if i_address info \<le> area \<and> area < area_last \<and> area_last \<le> region_last \<and>
              area_last \<le> KMemoryInfo_GetLastAddress info
           then Some area
           else FindFreeArea_loop bs region_start region_last num_pages algn offset guard_pages)"

definition FindFreeArea ::
    "KMemoryBlockManager \<Rightarrow> u64 \<Rightarrow> u64 \<Rightarrow> u64 \<Rightarrow> u64 \<Rightarrow> u64 \<Rightarrow> u64 \<Rightarrow> u64 option" where
  "FindFreeArea m region_start region_num_pages num_pages algn offset guard_pages =
     (if num_pages > 0
      then
        let region_end = region_start + region_num_pages * PageSize;
            region_last = region_end - 1;
            bs = m_memory_block_tree m
        in FindFreeArea_loop (drop (FindIterator bs region_start) bs) region_start region_last
             num_pages algn offset guard_pages
      else Some 0)"

section \<open>Updates\<close>

text \<open>
  Splitting the block at \<open>it\<close> at \<open>addr\<close> and inserting the left part; the iterator that
  results is the one of the left part.
\<close>

definition split_insert ::
    "MemoryBlockTree \<Rightarrow> nat \<Rightarrow> UpdateAllocator \<Rightarrow> u64 \<Rightarrow>
     (MemoryBlockTree \<times> nat \<times> UpdateAllocator) option" where
  "split_insert bs it al addr =
     (case UpdateAllocator_Allocate al of
        None \<Rightarrow> None
      | Some (new_block, al') \<Rightarrow>
          let (block, this) = Split (bs ! it) addr
          in case tree_insert block (bs[it := this]) of
              None \<Rightarrow> None
            | Some (bs', it') \<Rightarrow> Some (bs', it', al'))"

text \<open>``If we need to, create a new block before and insert it'': with \<open>cur_address\<close>.\<close>

definition split_before ::
    "MemoryBlockTree \<Rightarrow> nat \<Rightarrow> UpdateAllocator \<Rightarrow> u64 \<Rightarrow>
     (MemoryBlockTree \<times> nat \<times> UpdateAllocator \<times> u64) option" where
  "split_before bs it al cur_address =
     (if i_address (GetMemoryInfo (bs ! it)) \<noteq> cur_address
      then case split_insert bs it al cur_address of
          None \<Rightarrow> None
        | Some (bs', it', al') \<Rightarrow>
            if it' + 1 < length bs'
            then Some (bs', it' + 1, al', i_address (GetMemoryInfo (bs' ! (it' + 1))))
            else None
      else Some (bs, it, al, cur_address))"

text \<open>``If we need to, create a new block after and insert it''.\<close>

definition split_after ::
    "MemoryBlockTree \<Rightarrow> nat \<Rightarrow> UpdateAllocator \<Rightarrow> u64 \<Rightarrow> u64 \<Rightarrow>
     (MemoryBlockTree \<times> nat \<times> UpdateAllocator) option" where
  "split_after bs it al cur_address remaining_size =
     (if i_size (GetMemoryInfo (bs ! it)) > remaining_size
      then split_insert bs it al (cur_address + remaining_size)
      else Some (bs, it, al))"

text \<open>
  The loop of the four updates.  \<open>skip\<close> is the test under which a block is left alone,
  \<open>upd\<close> the function called on a block that lies inside the range.  The first argument
  bounds the number of iterations.
\<close>

fun update_loop ::
    "nat \<Rightarrow> (KMemoryBlock \<Rightarrow> bool) \<Rightarrow> (KMemoryBlock \<Rightarrow> KMemoryBlock) \<Rightarrow> MemoryBlockTree \<Rightarrow> nat \<Rightarrow>
     UpdateAllocator \<Rightarrow> u64 \<Rightarrow> u64 \<Rightarrow> (MemoryBlockTree \<times> UpdateAllocator) option" where
  "update_loop 0 skip upd bs it al cur_address remaining_pages = None"
| "update_loop (Suc n) skip upd bs it al cur_address remaining_pages =
     (if remaining_pages = 0 then Some (bs, al)
      else if it \<ge> length bs then None
      else
        let remaining_size = remaining_pages * PageSize;
            cur_info = GetMemoryInfo (bs ! it)
        in if skip (bs ! it)
           then
             if cur_address + remaining_size < KMemoryInfo_GetEndAddress cur_info
             then update_loop n skip upd bs (it + 1) al (cur_address + remaining_size) 0
             else update_loop n skip upd bs (it + 1) al (KMemoryInfo_GetEndAddress cur_info)
                    ((cur_address + remaining_size - KMemoryInfo_GetEndAddress cur_info)
                       div PageSize)
           else
             case split_before bs it al cur_address of
               None \<Rightarrow> None
             | Some (bs1, it1, al1, cur1) \<Rightarrow>
                 (case split_after bs1 it1 al1 cur1 remaining_size of
                    None \<Rightarrow> None
                  | Some (bs2, it2, al2) \<Rightarrow>
                      let info = GetMemoryInfo (bs2 ! it2)
                      in update_loop n skip upd (bs2[it2 := upd (bs2 ! it2)]) (it2 + 1) al2
                           (cur1 + i_size info)
                           (remaining_pages - KMemoryInfo_GetNumPages info)))"

function CoalesceForUpdate_loop ::
    "MemoryBlockTree \<Rightarrow> nat \<Rightarrow> UpdateAllocator \<Rightarrow> u64 \<Rightarrow> MemoryBlockTree \<times> UpdateAllocator" where
  "CoalesceForUpdate_loop bs prev al end_addr =
     (let it = prev + 1
      in if it \<ge> length bs then (bs, al)
         else if CanMergeWith (bs ! prev) (bs ! it)
         then
           let block = bs ! it;
               bs' = (tree_erase it bs)[prev := Add (bs ! prev) block];
               al' = UpdateAllocator_Free al block
           in if end_addr < KMemoryInfo_GetEndAddress (GetMemoryInfo (bs' ! prev)) then (bs', al')
              else CoalesceForUpdate_loop bs' prev al' end_addr
         else if end_addr < KMemoryInfo_GetEndAddress (GetMemoryInfo (bs ! it)) then (bs, al)
         else CoalesceForUpdate_loop bs it al end_addr)"
  by pat_completeness auto
termination
  by (relation "measure (\<lambda>(bs, prev, al, end_addr). length bs - prev)") (auto simp: tree_erase_def)

definition CoalesceForUpdate ::
    "KMemoryBlockManager \<Rightarrow> UpdateAllocator \<Rightarrow> u64 \<Rightarrow> u64 \<Rightarrow>
     (KMemoryBlockManager \<times> UpdateAllocator) option" where
  "CoalesceForUpdate m al address num_pages =
     (let bs = m_memory_block_tree m;
          it = FindIterator bs address;
          end_addr = address + num_pages * PageSize
      in if it = length bs \<or> (address \<noteq> m_start_address m \<and> it = 0) then None
         else
           let it' = (if address \<noteq> m_start_address m then it - 1 else it);
               (bs', al') = CoalesceForUpdate_loop bs it' al end_addr
           in Some (m\<lparr>m_memory_block_tree := bs'\<rparr>, al'))"

text \<open>One update: the loop from the block of \<open>address\<close>, then the merging.\<close>

definition update_with ::
    "(KMemoryBlock \<Rightarrow> bool) \<Rightarrow> (KMemoryBlock \<Rightarrow> KMemoryBlock) \<Rightarrow> KMemoryBlockManager \<Rightarrow>
     UpdateAllocator \<Rightarrow> u64 \<Rightarrow> u64 \<Rightarrow> (KMemoryBlockManager \<times> UpdateAllocator) option" where
  "update_with skip upd m al address num_pages =
     (let bs = m_memory_block_tree m
      in case update_loop (length bs + 1) skip upd bs (FindIterator bs address) al address
                num_pages of
          None \<Rightarrow> None
        | Some (bs', al') \<Rightarrow>
            CoalesceForUpdate (m\<lparr>m_memory_block_tree := bs'\<rparr>) al' address num_pages)"

definition Update_asserts :: "u64 \<Rightarrow> u8 \<Rightarrow> bool" where
  "Update_asserts address attr \<longleftrightarrow>
     IsAligned address PageSize \<and>
     attr AND (Attr AttrIpcLocked OR Attr AttrDeviceShared) = Attr AttrNone"

definition Update ::
    "KMemoryBlockManager \<Rightarrow> UpdateAllocator \<Rightarrow> u64 \<Rightarrow> u64 \<Rightarrow> u32 \<Rightarrow> u8 \<Rightarrow> u8 \<Rightarrow> u8 \<Rightarrow> u8 \<Rightarrow>
     (KMemoryBlockManager \<times> UpdateAllocator) option" where
  "Update m al address num_pages s perm attr set_disable_attr clear_disable_attr =
     update_with (\<lambda>b. HasProperties b s perm attr)
       (\<lambda>b. KMemoryBlock_Update b s perm attr (m_address b = address) set_disable_attr
              clear_disable_attr)
       m al address num_pages"

definition UpdateIfMatch ::
    "KMemoryBlockManager \<Rightarrow> UpdateAllocator \<Rightarrow> u64 \<Rightarrow> u64 \<Rightarrow> u32 \<Rightarrow> u8 \<Rightarrow> u8 \<Rightarrow> u32 \<Rightarrow> u8 \<Rightarrow> u8 \<Rightarrow>
     u8 \<Rightarrow> u8 \<Rightarrow> (KMemoryBlockManager \<times> UpdateAllocator) option" where
  "UpdateIfMatch m al address num_pages test_state test_perm test_attr s perm attr
       set_disable_attr clear_disable_attr =
     update_with
       (\<lambda>b. \<not> (HasProperties b test_state test_perm test_attr \<and> \<not> HasProperties b s perm attr))
       (\<lambda>b. KMemoryBlock_Update b s perm attr False set_disable_attr clear_disable_attr)
       m al address num_pages"

definition UpdateLock ::
    "KMemoryBlockManager \<Rightarrow> UpdateAllocator \<Rightarrow> u64 \<Rightarrow> u64 \<Rightarrow>
     (KMemoryBlock \<Rightarrow> u8 \<Rightarrow> bool \<Rightarrow> bool \<Rightarrow> KMemoryBlock) \<Rightarrow> u8 \<Rightarrow>
     (KMemoryBlockManager \<times> UpdateAllocator) option" where
  "UpdateLock m al address num_pages lock_func perm =
     (let end_address = address + num_pages * PageSize
      in update_with (\<lambda>b. False)
           (\<lambda>b. lock_func b perm (i_address (GetMemoryInfo b) = address)
                  (KMemoryInfo_GetEndAddress (GetMemoryInfo b) = end_address))
           m al address num_pages)"

definition UpdateAttribute ::
    "KMemoryBlockManager \<Rightarrow> UpdateAllocator \<Rightarrow> u64 \<Rightarrow> u64 \<Rightarrow> u8 \<Rightarrow> u8 \<Rightarrow>
     (KMemoryBlockManager \<times> UpdateAllocator) option" where
  "UpdateAttribute m al address num_pages msk attr =
     update_with (\<lambda>b. m_attribute b AND msk = attr)
       (\<lambda>b. KMemoryBlock_UpdateAttribute b msk attr) m al address num_pages"

section \<open>The debug check\<close>

definition block_has_counts :: "KMemoryInfo \<Rightarrow> bool" where
  "block_has_counts info \<longleftrightarrow>
     \<not> (i_attribute info AND Attr AttrIpcLocked \<noteq> Attr AttrNone \<and> i_ipc_lock_count info = 0) \<and>
     \<not> (i_attribute info AND Attr AttrDeviceShared \<noteq> Attr AttrNone \<and>
        i_device_use_count info = 0)"

fun CheckState_loop :: "KMemoryBlock \<Rightarrow> MemoryBlockTree \<Rightarrow> bool" where
  "CheckState_loop prev [] = block_has_counts (GetMemoryInfo prev)"
| "CheckState_loop prev (it # rest) =
     (if CanMergeWith prev it then False
      else if KMemoryInfo_GetEndAddress (GetMemoryInfo prev) \<noteq> i_address (GetMemoryInfo it)
      then False
      else if \<not> block_has_counts (GetMemoryInfo it) then False
      else CheckState_loop it rest)"

definition CheckState :: "KMemoryBlockManager \<Rightarrow> bool option" where
  "CheckState m =
     (case m_memory_block_tree m of [] \<Rightarrow> None | prev # rest \<Rightarrow> Some (CheckState_loop prev rest))"

end
