(* ===== verification/Block_Manager_Loop.thy ===== *)
theory Block_Manager_Loop
  imports Block_Manager
begin

text \<open>
  Why the update loop and the merging pass of the block manager are right: blocks as intervals that
  tile the address space, the allocator's bookkeeping, the page-level reading of a tree, one
  iteration of the loop, the locale \<open>block_update\<close> in which the loop is proved once for every
  test and block function, the merging pass, and their composition.
\<close>

unbundle bit_operations_syntax

section \<open>Blocks as intervals\<close>

definition block_start :: "KMemoryBlock \<Rightarrow> nat" where
  "block_start b = unat (m_address b)"

definition block_pages :: "KMemoryBlock \<Rightarrow> nat" where
  "block_pages b = unat (m_num_pages b)"

definition block_end :: "KMemoryBlock \<Rightarrow> nat" where
  "block_end b = block_start b + block_pages b * 4096"

text \<open>
  \<open>tiles lo bs hi\<close>: the blocks are nonempty and follow each other without gap or overlap from
  \<open>lo\<close> to \<open>hi\<close>.
\<close>

fun tiles :: "nat \<Rightarrow> MemoryBlockTree \<Rightarrow> nat \<Rightarrow> bool" where
  "tiles lo [] hi \<longleftrightarrow> lo = hi"
| "tiles lo (b # bs) hi \<longleftrightarrow> block_start b = lo \<and> 0 < block_pages b \<and> tiles (block_end b) bs hi"

lemma tiles_append: "tiles lo (xs @ ys) hi \<longleftrightarrow> (\<exists>m. tiles lo xs m \<and> tiles m ys hi)"
  by (induction xs arbitrary: lo) auto

lemma block_start_less_end: "0 < block_pages b \<Longrightarrow> block_start b < block_end b"
  by (simp add: block_end_def)

lemma tiles_le: "tiles lo bs hi \<Longrightarrow> lo \<le> hi"
  by (induction bs arbitrary: lo) (force simp: block_end_def)+

lemma tiles_mem:
  assumes "tiles lo bs hi" and "b \<in> set bs"
  shows "lo \<le> block_start b \<and> 0 < block_pages b \<and> block_end b \<le> hi"
  using assms
proof (induction bs arbitrary: lo)
  case (Cons c bs)
  then show ?case using tiles_le [of "block_end c" bs hi] block_start_less_end [of c]
    by fastforce
qed simp

lemma unat_end_address:
  assumes "block_end b < 2 ^ 64"
  shows "unat (GetEndAddress b) = block_end b"
  using assms
  by (simp add: GetEndAddress_def GetSize_def block_end_def block_start_def block_pages_def
      unat_addr_pages)

lemma unat_size:
  assumes "block_end b < 2 ^ 64"
  shows "unat (GetSize b) = block_pages b * 4096"
  using assms
  by (simp add: GetSize_def block_end_def block_start_def block_pages_def unat_pages)

lemma unat_last_address:
  assumes "block_end b < 2 ^ 64" and "0 < block_pages b"
  shows "unat (GetLastAddress b) = block_end b - 1"
proof -
  have "unat (1 :: u64) \<le> unat (GetEndAddress b)"
    using assms by (simp add: unat_end_address block_end_def)
  then show ?thesis
    using unat_sub_le [of "1 :: u64" "GetEndAddress b"] assms
    by (simp add: GetLastAddress_def unat_end_address)
qed

lemma Compare_nat:
  assumes "block_end b < 2 ^ 64" and "0 < block_pages b"
  shows "Compare x b = (if block_start x < block_start b then -1
                        else if block_start x < block_end b then 0 else 1)"
  using assms block_start_less_end [of b]
  by (auto simp: Compare_def word_less_unat word_le_unat unat_last_address block_start_def)

lemma info_simps [simp]:
  "KMemoryInfo_GetEndAddress (GetMemoryInfo b) = GetEndAddress b"
  "i_address (GetMemoryInfo b) = m_address b" "i_size (GetMemoryInfo b) = GetSize b"
  "i_attribute (GetMemoryInfo b) = m_attribute b" "i_state (GetMemoryInfo b) = m_memory_state b"
  "i_ipc_lock_count (GetMemoryInfo b) = m_ipc_lock_count b"
  "i_device_use_count (GetMemoryInfo b) = m_device_use_count b"
  by (simp_all add: KMemoryInfo_GetEndAddress_def GetMemoryInfo_def GetEndAddress_def)

lemma unat_info_pages:
  assumes "block_end b < 2 ^ 64"
  shows "unat (KMemoryInfo_GetNumPages (GetMemoryInfo b)) = block_pages b"
  using unat_size [OF assms] by (simp add: KMemoryInfo_GetNumPages_def)

subsection \<open>Finding and inserting\<close>

lemma tree_insert_before:
  assumes "\<And>b. b \<in> set pre \<Longrightarrow> 0 < block_pages b \<and> block_end b \<le> block_start x"
    and "block_start x < block_start t" and "block_end t < 2 ^ 64" and "0 < block_pages t"
  shows "tree_insert x (pre @ t # rest) = Some (pre @ x # t # rest, length pre)"
  using assms(1)
proof (induction pre)
  case Nil
  then show ?case using assms(2-4) by (simp add: Compare_nat)
next
  case (Cons b pre)
  have b: "0 < block_pages b" "block_end b \<le> block_start x" using Cons.prems by simp_all
  then have "block_end b < 2 ^ 64" "block_start b < block_end b"
    using assms(2,3) by (simp_all add: block_end_def)
  moreover have "Compare x b = 1"
    using b(2) calculation b(1) by (simp add: Compare_nat)
  ultimately show ?case using Cons by simp
qed

lemma FindIterator_tiles:
  assumes "tiles lo bs hi" and "hi < 2 ^ 64" and "lo \<le> unat address" and "unat address < hi"
  shows "\<exists>pre b rest. bs = pre @ b # rest \<and> FindIterator bs address = length pre \<and>
    block_start b \<le> unat address \<and> unat address < block_end b"
  using assms
proof (induction bs arbitrary: lo)
  case (Cons b bs)
  let ?key = "new_KMemoryBlock address 1 (KMemoryState StFree) (Perm PermNone) (Attr AttrNone)"
  have key: "Compare ?key c = (if unat address < block_start c then -1
      else if unat address < block_end c then 0 else 1)"
    if "block_end c < 2 ^ 64" "0 < block_pages c" for c
    using that by (simp add: Compare_nat) (simp add: block_start_def new_KMemoryBlock_def)
  have b: "block_start b = lo" "0 < block_pages b" "block_end b < 2 ^ 64"
    using Cons.prems tiles_mem [of lo "b # bs" hi b] by auto
  show ?case
  proof (cases "unat address < block_end b")
    case True
    then have "FindIterator (b # bs) address = length ([] :: MemoryBlockTree)"
      using b Cons.prems by (simp add: FindIterator_def Let_def key del: KMemoryState.simps KMemoryPermission.simps KMemoryAttribute.simps)
    then show ?thesis using True b Cons.prems(3)
      by (intro exI [of _ "[]"] exI [of _ b] exI [of _ bs]) simp
  next
    case False
    then have ge: "block_end b \<le> unat address" by simp
    then have f: "FindIterator (b # bs) address = Suc (FindIterator bs address)"
      using b block_start_less_end [of b] by (simp add: FindIterator_def Let_def key del: KMemoryState.simps KMemoryPermission.simps KMemoryAttribute.simps)
    obtain pre c rest where "bs = pre @ c # rest" "FindIterator bs address = length pre"
      "block_start c \<le> unat address" "unat address < block_end c"
      using Cons.IH [of "block_end b"] Cons.prems ge by auto
    then show ?thesis using f
      by (intro exI [of _ "b # pre"] exI [of _ c] exI [of _ rest]) simp
  qed
qed simp

subsection \<open>Splitting\<close>

lemma Split_geometry:
  assumes e: "block_end b < 2 ^ 64" and a: "unat addr = block_start b + k * 4096"
    and k: "k < block_pages b"
  shows "block_start (fst (Split b addr)) = block_start b"
    and "block_pages (fst (Split b addr)) = k"
    and "block_start (snd (Split b addr)) = block_start b + k * 4096"
    and "block_pages (snd (Split b addr)) = block_pages b - k"
proof -
  have "unat (addr - m_address b) = k * 4096"
    using a by (subst unat_sub_le) (simp_all add: block_start_def)
  then have lp: "unat ((addr - m_address b) div PageSize) = k" by simp
  have "unat (m_num_pages b - (addr - m_address b) div PageSize) = block_pages b - k"
    using k unat_sub_le [of "(addr - m_address b) div PageSize" "m_num_pages b"]
    by (simp only: lp block_pages_def less_imp_le)
  then show "block_start (fst (Split b addr)) = block_start b"
    "block_pages (fst (Split b addr)) = k"
    "block_start (snd (Split b addr)) = block_start b + k * 4096"
    "block_pages (snd (Split b addr)) = block_pages b - k"
    using a lp by (simp_all add: Split_def Let_def block_start_def block_pages_def)
qed

lemma CanMergeWith_Split:
  "CanMergeWith x (fst (Split b addr)) = CanMergeWith x b"
  "CanMergeWith (snd (Split b addr)) y = CanMergeWith b y"
  by (simp_all add: CanMergeWith_def HasSameProperties_def Split_def Let_def and.assoc)

lemma CanMergeWith_Add:
  assumes "CanMergeWith p q"
  shows "CanMergeWith (Add p q) y = CanMergeWith q y"
    and "CanMergeWith x (Add p q) = CanMergeWith x p"
  using assms
  by (auto simp: CanMergeWith_def HasSameProperties_def Add_def bit.conj_disj_distrib2)

lemma split_insert_spec:
  assumes pre: "\<And>c. c \<in> set pre \<Longrightarrow> 0 < block_pages c \<and> block_end c \<le> block_start b"
    and e: "block_end b < 2 ^ 64" and a: "unat addr = block_start b + k * 4096"
    and k: "0 < k" "k < block_pages b"
    and al: "UpdateAllocator_Allocate al = Some (nb, al')"
  shows "split_insert (pre @ b # rest) (length pre) al addr =
    Some (pre @ fst (Split b addr) # snd (Split b addr) # rest, length pre, al')"
proof -
  note g = Split_geometry [OF e a k(2)]
  have end_r: "block_end (snd (Split b addr)) < 2 ^ 64"
    using e k by (simp add: block_end_def g) 
  have "tree_insert (fst (Split b addr)) (pre @ snd (Split b addr) # rest) =
      Some (pre @ fst (Split b addr) # snd (Split b addr) # rest, length pre)"
    by (rule tree_insert_before) (use pre k end_r in \<open>auto simp: g\<close>)
  then show ?thesis
    by (simp add: split_insert_def al case_prod_beta)
qed

subsection \<open>The allocator\<close>

definition alloc_ok :: "UpdateAllocator \<Rightarrow> bool" where
  "alloc_ok al \<longleftrightarrow> length (m_blocks al) = MaxBlocks \<and> m_index al \<le> MaxBlocks \<and>
     (\<forall>i < MaxBlocks. m_blocks al ! i \<noteq> None \<longleftrightarrow> m_index al \<le> i)"

definition avail :: "UpdateAllocator \<Rightarrow> nat" where
  "avail al = MaxBlocks - m_index al"

lemma Allocate_ok:
  assumes "alloc_ok al" and "0 < avail al"
  obtains nb al' where "UpdateAllocator_Allocate al = Some (nb, al')" "alloc_ok al'"
    "avail al' = avail al - 1" "slab_free al' = slab_free al"
proof -
  have i: "m_index al < MaxBlocks" using assms by (simp add: avail_def)
  then obtain nb where nb: "m_blocks al ! m_index al = Some nb"
    using assms(1) by (auto simp: alloc_ok_def)
  let ?al = "al\<lparr>m_blocks := (m_blocks al)[m_index al := None], m_index := m_index al + 1\<rparr>"
  have "UpdateAllocator_Allocate al = Some (nb, ?al)"
    using assms(1) i nb by (simp add: UpdateAllocator_Allocate_def alloc_ok_def)
  moreover have "alloc_ok ?al"
    using assms(1) i by (auto simp: alloc_ok_def nth_list_update)
  ultimately show ?thesis using that i by (simp add: avail_def)
qed

lemma Free_ok:
  assumes "alloc_ok al"
  shows "alloc_ok (UpdateAllocator_Free al b)"
    and "slab_free (UpdateAllocator_Free al b) + avail (UpdateAllocator_Free al b) =
         slab_free al + avail al + 1"
proof -
  have "m_blocks al ! i \<noteq> None \<longleftrightarrow> m_index al \<le> i" if "i < MaxBlocks" for i
    using assms that unfolding alloc_ok_def by blast
  then show "alloc_ok (UpdateAllocator_Free al b)"
    using assms by (cases "m_index al") (auto simp: alloc_ok_def UpdateAllocator_Free_def nth_list_update)
qed (use assms in \<open>auto simp: alloc_ok_def UpdateAllocator_Free_def avail_def\<close>)

lemma two_blocks:
  assumes "length xs = MaxBlocks" obtains x y where "xs = [x, y]"
  using assms by (auto simp: MaxBlocks_def numeral_2_eq_2 length_Suc_conv)

lemma delete_UpdateAllocator_ok:
  assumes "alloc_ok al"
  shows "delete_UpdateAllocator al = slab_free al + avail al"
proof -
  obtain x y where xy: "m_blocks al = [x, y]"
    using assms two_blocks [of "m_blocks al"] by (auto simp: alloc_ok_def)
  have "m_blocks al ! 0 \<noteq> None \<longleftrightarrow> m_index al \<le> 0" "m_blocks al ! 1 \<noteq> None \<longleftrightarrow> m_index al \<le> 1"
    "m_index al \<le> 2" using assms by (auto simp: alloc_ok_def MaxBlocks_def)
  then show ?thesis by (auto simp: delete_UpdateAllocator_def xy avail_def MaxBlocks_def)
qed

lemma new_UpdateAllocator_ok:
  assumes "num_blocks \<le> MaxBlocks" and "num_blocks \<le> free"
  obtains al where "new_UpdateAllocator free num_blocks = Some (Block_Success, al)"
    "alloc_ok al" "avail al = num_blocks" "slab_free al + num_blocks = free"
proof -
  have "num_blocks = 0 \<or> num_blocks = 1 \<or> num_blocks = 2"
    using assms(1) by (auto simp: MaxBlocks_def)
  then show ?thesis
  proof (elim disjE)
    assume "num_blocks = 0"
    then show ?thesis using that
      by (auto simp: new_UpdateAllocator_def UpdateAllocator_Initialize_def alloc_ok_def avail_def
          MaxBlocks_def)
  next
    assume "num_blocks = 1"
    then show ?thesis using that assms(2)
      by (force simp: new_UpdateAllocator_def UpdateAllocator_Initialize_def alloc_ok_def avail_def
          MaxBlocks_def slab_Allocate_def numeral_2_eq_2 nth_Cons' less_Suc_eq)
  next
    assume "num_blocks = 2"
    then show ?thesis using that assms(2)
      by (force simp: new_UpdateAllocator_def UpdateAllocator_Initialize_def alloc_ok_def avail_def
          MaxBlocks_def slab_Allocate_def numeral_2_eq_2 nth_Cons' less_Suc_eq)
  qed
qed

section \<open>The address space as pages\<close>

text \<open>What a page shows to the rest of the kernel; the disable-merge members are not part of it.\<close>

record PageProps =
  p_state :: u32
  p_perm :: u8
  p_original_perm :: u8
  p_attr :: u8
  p_ipc_lock_count :: u16
  p_device_use_count :: u16

definition props :: "KMemoryBlock \<Rightarrow> PageProps" where
  "props b = \<lparr>p_state = m_memory_state b, p_perm = m_permission b,
     p_original_perm = m_original_permission b, p_attr = m_attribute b,
     p_ipc_lock_count = m_ipc_lock_count b, p_device_use_count = m_device_use_count b\<rparr>"

definition pages_of :: "MemoryBlockTree \<Rightarrow> PageProps list" where
  "pages_of bs = concat (map (\<lambda>b. replicate (block_pages b) (props b)) bs)"

definition update_range :: "nat \<Rightarrow> nat \<Rightarrow> ('a \<Rightarrow> 'a) \<Rightarrow> 'a list \<Rightarrow> 'a list" where
  "update_range off n f xs = take off xs @ map f (take n (drop off xs)) @ drop (off + n) xs"

lemma pages_of_simps [simp]:
  "pages_of [] = []" "pages_of (b # bs) = replicate (block_pages b) (props b) @ pages_of bs"
  "pages_of (xs @ ys) = pages_of xs @ pages_of ys"
  by (simp_all add: pages_of_def)

lemma tiles_pages: "tiles lo bs hi \<Longrightarrow> length (pages_of bs) * 4096 = hi - lo"
proof (induction bs arbitrary: lo)
  case (Cons b bs)
  then have "block_end b \<le> hi" using tiles_le by auto
  with Cons show ?case by (auto simp: block_end_def algebra_simps)
qed simp

lemma props_Split [simp]:
  "props (fst (Split b addr)) = props b" "props (snd (Split b addr)) = props b"
  by (simp_all add: props_def Split_def Let_def)

lemma props_Add [simp]: "props (Add b c) = props b"
  by (simp add: props_def Add_def)

lemma CanMergeWith_props: "CanMergeWith b c \<Longrightarrow> props b = props c"
  by (simp add: CanMergeWith_def HasSameProperties_def props_def)

lemma update_range_0 [simp]: "update_range off 0 f xs = xs"
  by (simp add: update_range_def)

lemma update_range_append:
  "update_range (length xs + off) n f (xs @ ys) = xs @ update_range off n f ys"
  by (simp add: update_range_def)

lemma update_range_length [simp]: "length (update_range off n f xs) = length xs"
  by (simp add: update_range_def)

lemma update_range_nth:
  assumes "i < length xs"
  shows "update_range off n f xs ! i = (if off \<le> i \<and> i < off + n then f (xs ! i) else xs ! i)"
  using assms by (auto simp: update_range_def nth_append min_def)

lemma update_range_replicate:
  assumes "off \<le> p"
  shows "update_range off n f (replicate p x @ ys) =
    (if off + n \<le> p
     then replicate off x @ replicate n (f x) @ replicate (p - off - n) x @ ys
     else replicate off x @ replicate (p - off) (f x) @ update_range 0 (n - (p - off)) f ys)"
  using assms by (auto simp: update_range_def min_def add.commute)

section \<open>One iteration of the update loop\<close>

definition split_closed :: "(KMemoryBlock \<Rightarrow> bool) \<Rightarrow> bool" where
  "split_closed Q \<longleftrightarrow> (\<forall>b addr. Q b \<longrightarrow> Q (fst (Split b addr)) \<and> Q (snd (Split b addr)))"

text \<open>
  \<open>carved b off n L mid R\<close>: the block \<open>b\<close> has been cut into the parts \<open>L\<close>,
  \<open>mid\<close> and \<open>R\<close>, with \<open>mid\<close> its \<open>n\<close> pages from page \<open>off\<close> on, as far as
  \<open>b\<close> reaches.
\<close>

definition carved ::
    "KMemoryBlock \<Rightarrow> nat \<Rightarrow> nat \<Rightarrow> MemoryBlockTree \<Rightarrow> KMemoryBlock \<Rightarrow> MemoryBlockTree \<Rightarrow> bool" where
  "carved b off n L mid R \<longleftrightarrow>
     block_start mid = block_start b + off * 4096 \<and>
     block_pages mid = min n (block_pages b - off) \<and> props mid = props b \<and>
     (if off = 0 then L = [] \<and> (R = [] \<longrightarrow> mid = b)
      else \<exists>l. L = [l] \<and> block_start l = block_start b \<and> block_pages l = off \<and>
             props l = props b \<and> (\<forall>x. CanMergeWith x l = CanMergeWith x b)) \<and>
     (if block_pages b - off \<le> n then R = []
      else \<exists>r. R = [r] \<and> block_start r = block_start b + (off + n) * 4096 \<and>
             block_pages r = block_pages b - off - n \<and> props r = props b \<and>
             (\<forall>y. CanMergeWith r y = CanMergeWith b y)) \<and>
     (\<forall>Q. split_closed Q \<longrightarrow> Q b \<longrightarrow> (\<forall>c \<in> set (L @ mid # R). Q c))"

lemma split_before_spec:
  assumes pre: "\<And>c. c \<in> set pre \<Longrightarrow> 0 < block_pages c \<and> block_end c \<le> block_start b"
    and e: "block_end b < 2 ^ 64" and cur: "unat cur = block_start b + off * 4096"
    and off: "off < block_pages b" and al: "alloc_ok al" and av: "off \<noteq> 0 \<longrightarrow> 0 < avail al"
  obtains L b1 al1 where
    "split_before (pre @ b # rest) (length pre) al cur =
       Some (pre @ L @ b1 # rest, length pre + length L, al1, cur)"
    "alloc_ok al1" "avail al1 + length L = avail al" "slab_free al1 = slab_free al"
    "carved b off (block_pages b - off) L b1 []" "\<forall>y. CanMergeWith b1 y = CanMergeWith b y"
proof (cases "off = 0")
  case True
  then have "m_address b = cur" using cur by (simp add: block_start_def word_eq_unat)
  then have "split_before (pre @ b # rest) (length pre) al cur =
       Some (pre @ [] @ b # rest, length pre + length ([] :: MemoryBlockTree), al, cur)"
    by (simp add: split_before_def)
  then show ?thesis by (rule that) (use True al off in \<open>auto simp: carved_def\<close>)
next
  case False
  then have ne: "m_address b \<noteq> cur" using cur by (auto simp: block_start_def)
  obtain nb al1 where a: "UpdateAllocator_Allocate al = Some (nb, al1)" "alloc_ok al1"
      "avail al1 = avail al - 1" "slab_free al1 = slab_free al"
    using Allocate_ok [OF al] av False by blast
  let ?l = "fst (Split b cur)" and ?r = "snd (Split b cur)"
  note g = Split_geometry [OF e cur off]
  have si: "split_insert (pre @ b # rest) (length pre) al cur =
      Some (pre @ ?l # ?r # rest, length pre, al1)"
    by (rule split_insert_spec [OF _ e cur _ off a(1)]) (use pre False in auto)
  have "m_address ?r = cur" by (simp add: Split_def Let_def)
  then have "split_before (pre @ b # rest) (length pre) al cur =
       Some (pre @ [?l] @ ?r # rest, length pre + length [?l], al1, cur)"
    using ne by (simp add: split_before_def nth_append si)
  then show ?thesis
    by (rule that) (use False av a off in \<open>auto simp: carved_def g CanMergeWith_Split split_closed_def\<close>)
qed

lemma split_after_spec:
  assumes pre: "\<And>c. c \<in> set pre \<Longrightarrow> 0 < block_pages c \<and> block_end c \<le> block_start b"
    and e: "block_end b < 2 ^ 64" and cur: "unat cur = block_start b"
    and rs: "unat rs = n * 4096" and n: "0 < n" and ovf: "unat cur + n * 4096 < 2 ^ 64"
    and al: "alloc_ok al" and av: "n < block_pages b \<longrightarrow> 0 < avail al"
  obtains mid R al2 where
    "split_after (pre @ b # rest) (length pre) al cur rs = Some (pre @ mid # R @ rest, length pre, al2)"
    "alloc_ok al2" "avail al2 + length R = avail al" "slab_free al2 = slab_free al"
    "carved b 0 n [] mid R"
proof (cases "n < block_pages b")
  case False
  then have "\<not> i_size (GetMemoryInfo b) > rs"
    using rs e by (simp add: word_less_unat unat_size)
  then have "split_after (pre @ b # rest) (length pre) al cur rs = Some (pre @ b # [] @ rest, length pre, al)"
    by (simp add: split_after_def)
  then show ?thesis by (rule that) (use al False in \<open>auto simp: carved_def min_def\<close>)
next
  case True
  then have gt: "i_size (GetMemoryInfo b) > rs"
    using rs e by (simp add: word_less_unat unat_size)
  obtain nb al2 where a: "UpdateAllocator_Allocate al = Some (nb, al2)" "alloc_ok al2"
      "avail al2 = avail al - 1" "slab_free al2 = slab_free al"
    using Allocate_ok [OF al] av True by blast
  have adr: "unat (cur + rs) = block_start b + n * 4096"
    using ovf rs cur unat_add_no_ovf [of cur rs] by simp
  let ?l = "fst (Split b (cur + rs))" and ?r = "snd (Split b (cur + rs))"
  note g = Split_geometry [OF e adr True]
  have si: "split_insert (pre @ b # rest) (length pre) al (cur + rs) =
      Some (pre @ ?l # ?r # rest, length pre, al2)"
    by (rule split_insert_spec [OF _ e adr n True a(1)]) (use pre in auto)
  have "split_after (pre @ b # rest) (length pre) al cur rs =
      Some (pre @ ?l # [?r] @ rest, length pre, al2)"
    using gt si by (simp add: split_after_def)
  then show ?thesis
    by (rule that) (use True av a in \<open>auto simp: carved_def g CanMergeWith_Split split_closed_def\<close>)
qed

lemma carved_trans:
  assumes 1: "carved b off (block_pages b - off) L b1 []" and cm: "\<forall>y. CanMergeWith b1 y = CanMergeWith b y"
    and 2: "carved b1 0 n [] mid R" and off: "off < block_pages b"
  shows "carved b off n L mid R"
proof -
  have b1: "block_pages b1 = block_pages b - off" "block_start b1 = block_start b + off * 4096"
    "props b1 = props b" using 1 by (simp_all add: carved_def)
  have Q: "\<forall>c \<in> set (L @ mid # R). Q c" if "split_closed Q" "Q b" for Q
  proof -
    have "\<forall>c \<in> set (L @ b1 # []). Q c" using 1 that unfolding carved_def by blast
    moreover from this have "\<forall>c \<in> set ([] @ mid # R). Q c"
      using 2 that(1) unfolding carved_def by (metis in_set_conv_decomp)
    ultimately show ?thesis by auto
  qed
  have b1b: "off = 0 \<Longrightarrow> b1 = b" using 1 by (simp add: carved_def)
  have L: "if off = 0 then L = [] \<and> (R = [] \<longrightarrow> mid = b)
      else \<exists>l. L = [l] \<and> block_start l = block_start b \<and> block_pages l = off \<and>
             props l = props b \<and> (\<forall>x. CanMergeWith x l = CanMergeWith x b)"
    using 1 2 b1b by (auto simp: carved_def split: if_splits)
  have R: "if block_pages b - off \<le> n then R = []
      else \<exists>r. R = [r] \<and> block_start r = block_start b + (off + n) * 4096 \<and>
             block_pages r = block_pages b - off - n \<and> props r = props b \<and>
             (\<forall>y. CanMergeWith r y = CanMergeWith b y)"
    using 2 cm b1 by (auto simp: carved_def algebra_simps split: if_splits)
  have mid: "block_start mid = block_start b + off * 4096 \<and>
     block_pages mid = min n (block_pages b - off) \<and> props mid = props b"
    using 2 b1 by (simp add: carved_def)
  from mid L R Q show ?thesis unfolding carved_def by blast
qed

lemma split_both_spec:
  assumes pre: "\<And>c. c \<in> set pre \<Longrightarrow> 0 < block_pages c \<and> block_end c \<le> block_start b"
    and e: "block_end b < 2 ^ 64" and cur: "unat cur = block_start b + off * 4096"
    and off: "off < block_pages b" and rp: "unat rp = n" and n: "0 < n"
    and ovf: "unat cur + n * 4096 < 2 ^ 64" and al: "alloc_ok al"
    and av: "(if off = 0 then 0 else 1) + (if n < block_pages b - off then 1 else 0) \<le> avail al"
  obtains L mid R bs1 it1 al1 al2 where
    "split_before (pre @ b # rest) (length pre) al cur = Some (bs1, it1, al1, cur)"
    "split_after bs1 it1 al1 cur (rp * PageSize) =
       Some (pre @ L @ mid # R @ rest, length pre + length L, al2)"
    "alloc_ok al2" "avail al2 + length L + length R = avail al" "slab_free al2 = slab_free al"
    "carved b off n L mid R"
proof -
  have av1: "off \<noteq> 0 \<longrightarrow> 0 < avail al" using av by (auto split: if_splits)
  obtain L b1 al1 where 1: "split_before (pre @ b # rest) (length pre) al cur =
       Some (pre @ L @ b1 # rest, length pre + length L, al1, cur)"
    "alloc_ok al1" "avail al1 + length L = avail al" "slab_free al1 = slab_free al"
    "carved b off (block_pages b - off) L b1 []" "\<forall>y. CanMergeWith b1 y = CanMergeWith b y"
    by (rule split_before_spec [where pre = pre and rest = rest, OF _ e cur off al av1])
      (use pre in auto)
  have b1: "block_pages b1 = block_pages b - off" "block_start b1 = unat cur"
    using 1(5) cur by (simp_all add: carved_def)
  have L: "length L = (if off = 0 then 0 else 1)"
    using 1(5) by (auto simp: carved_def split: if_splits)
  have preL: "0 < block_pages c \<and> block_end c \<le> block_start b1" if cin: "c \<in> set (pre @ L)" for c
  proof -
    consider "c \<in> set pre" | "c \<in> set L" using cin by auto
    then show ?thesis
    proof cases
      case 1
      then show ?thesis using pre b1 cur by fastforce
    next
      case 2
      then show ?thesis using 1(5) cur b1
        by (auto simp: carved_def block_end_def split: if_splits)
    qed
  qed
  have e1: "block_end b1 < 2 ^ 64"
    using e off b1 cur by (simp add: block_end_def diff_mult_distrib)
  have rs: "unat (rp * PageSize) = n * 4096"
    using ovf rp unat_pages [of rp] by simp
  have av2: "n < block_pages b1 \<longrightarrow> 0 < avail al1"
    using av 1(3) L b1 by (auto split: if_splits)
  obtain mid R al2 where 2:
    "split_after ((pre @ L) @ b1 # rest) (length (pre @ L)) al1 cur (rp * PageSize) =
       Some ((pre @ L) @ mid # R @ rest, length (pre @ L), al2)"
    "alloc_ok al2" "avail al2 + length R = avail al1" "slab_free al2 = slab_free al1"
    "carved b1 0 n [] mid R"
    by (rule split_after_spec [where pre = "pre @ L" and b = b1 and rest = rest and al = al1,
          OF _ e1 _ rs n ovf 1(2) av2]) (use b1 preL in auto)
  have c: "carved b off n L mid R" by (rule carved_trans [OF 1(5,6) 2(5) off])
  show ?thesis
    by (rule that [OF 1(1) _ 2(2) _ _ c]) (use 1(3,4) 2(1,3,4) in \<open>simp_all\<close>)
qed

lemma update_range_replicate_append:
  assumes "off \<le> p"
  shows "update_range off n f (replicate p x @ ys) =
    update_range off n f (replicate p x) @ update_range 0 (n - (p - off)) f ys"
  using assms update_range_replicate [of off p n f x ys] update_range_replicate [of off p n f x "[]"]
  by (auto simp: update_range_def [of 0])

lemma update_range_id: "f x = x \<Longrightarrow> update_range off n f (replicate p x) = replicate p x"
  by (rule nth_equalityI) (simp_all add: update_range_nth)

lemma carved_all:
  assumes "carved b off n L mid R" and "split_closed Q" and "Q b"
  shows "\<forall>c \<in> set (L @ mid # R). Q c"
  using assms unfolding carved_def by blast

lemma carved_tiles:
  assumes "carved b off n L mid R" and "off < block_pages b" and "0 < n"
    and "block_start m = block_start mid" and "block_pages m = block_pages mid"
  shows "tiles (block_start b) (L @ [m]) (block_end m)" and "tiles (block_end m) R (block_end b)"
    and "block_end m = block_start b + (off + min n (block_pages b - off)) * 4096"
  using assms by (auto simp: carved_def block_end_def algebra_simps min_def split: if_splits)

lemma carved_pages:
  assumes c: "carved b off n L mid R" and off: "off < block_pages b"
    and m: "block_pages m = block_pages mid" "props m = f (props b)"
  shows "pages_of L @ replicate (block_pages m) (props m) @ pages_of R =
    update_range off n f (replicate (block_pages b) (props b))"
proof -
  have "pages_of L = replicate off (props b)" using c by (auto simp: carved_def split: if_splits)
  moreover have "pages_of R = replicate (block_pages b - off - n) (props b)"
    using c by (auto simp: carved_def split: if_splits)
  moreover have "block_pages m = min n (block_pages b - off)" using c m by (simp add: carved_def)
  ultimately show ?thesis using off m(2)
    by (auto simp: update_range_def min_def)
qed

text \<open>
  Blocks whose common border lies strictly outside \<open>[lo, hi]\<close> cannot be merged.
\<close>

definition coalesced_outside :: "nat \<Rightarrow> nat \<Rightarrow> MemoryBlockTree \<Rightarrow> bool" where
  "coalesced_outside lo hi bs \<longleftrightarrow>
     successively (\<lambda>x y. block_start y < lo \<or> hi < block_start y \<longrightarrow> \<not> CanMergeWith x y) bs"

lemma coalesced_outside_carved:
  assumes c: "carved b off n L mid R" and off: "off < block_pages b" and n: "0 < n"
    and m: "block_start m = block_start mid" and lo: "lo \<le> block_start b + off * 4096"
    and hi: "hi = block_start b + (off + n) * 4096"
    and t: "tiles (block_end b) rest z" and co: "coalesced_outside lo hi (pre @ b # rest)"
  shows "coalesced_outside lo hi (pre @ L @ m # R @ rest)"
proof -
  let ?P = "\<lambda>x y. block_start y < lo \<or> hi < block_start y \<longrightarrow> \<not> CanMergeWith x y"
  have mid: "block_start m = block_start b + off * 4096" using c m by (simp add: carved_def)
  have nx: "rest \<noteq> [] \<Longrightarrow> block_start (hd rest) = block_end b" using t by (cases rest) auto
  have co': "successively ?P pre" "successively ?P rest"
    "pre \<noteq> [] \<Longrightarrow> ?P (last pre) b" "rest \<noteq> [] \<Longrightarrow> ?P b (hd rest)"
    using co unfolding coalesced_outside_def successively_append_iff
    by (auto simp: successively_Cons)
  have L: "L = [] \<and> off = 0 \<or> (\<exists>l. L = [l] \<and> block_start l = block_start b \<and>
      (\<forall>x. CanMergeWith x l = CanMergeWith x b))"
    using c by (auto simp: carved_def split: if_splits)
  have R: "R = [] \<and> block_pages b - off \<le> n \<or> (\<exists>r. R = [r] \<and> block_start r = hi \<and>
      (\<forall>y. CanMergeWith r y = CanMergeWith b y))"
    using c by (auto simp: carved_def hi split: if_splits)
  have mR: "?P x m" for x using mid lo hi by simp
  have Rr: "successively ?P (m # R @ rest)"
  proof (cases "R = []")
    case True
    then have "block_pages b - off \<le> n" using R by auto
    then have "rest \<noteq> [] \<Longrightarrow> lo \<le> block_start (hd rest) \<and> block_start (hd rest) \<le> hi"
      using nx lo hi off by (auto simp: block_end_def)
    then show ?thesis using True co'(2) by (auto simp: successively_Cons)
  next
    case False
    then obtain r where r: "R = [r]" "block_start r = hi" "\<forall>y. CanMergeWith r y = CanMergeWith b y"
      using R by auto
    then show ?thesis using co'(2,4) lo hi by (auto simp: successively_Cons)
  qed
  have "successively ?P (pre @ L @ m # R @ rest)"
    using L
  proof
    assume "L = [] \<and> off = 0"
    then show ?thesis using co'(1) Rr mR by (simp add: successively_append_iff)
  next
    assume "\<exists>l. L = [l] \<and> block_start l = block_start b \<and> (\<forall>x. CanMergeWith x l = CanMergeWith x b)"
    then obtain l where l: "L = [l]" "block_start l = block_start b"
      "\<forall>x. CanMergeWith x l = CanMergeWith x b" by blast
    have "successively ?P (l # m # R @ rest)" using Rr mR [of l] by simp
    then show ?thesis using l co'(1,3)
      by (cases "pre = []") (simp_all add: successively_append_iff)
  qed
  then show ?thesis by (simp add: coalesced_outside_def)
qed

text \<open>
  The situation at the head of the loop: \<open>pre\<close> are the blocks before the iterator, \<open>rest\<close>
  those from it on, \<open>off\<close> the pages of the first of them that lie before \<open>cur\<close>, and
  \<open>z\<close> the end of the range.
\<close>

definition loop_ready ::
    "(KMemoryBlock \<Rightarrow> bool) \<Rightarrow> nat \<Rightarrow> nat \<Rightarrow> nat \<Rightarrow> nat \<Rightarrow> MemoryBlockTree \<Rightarrow> nat \<Rightarrow> MemoryBlockTree \<Rightarrow>
     UpdateAllocator \<Rightarrow> nat \<Rightarrow> u64 \<Rightarrow> u64 \<Rightarrow> bool" where
  "loop_ready good lo z hi n pre m rest al off cur rp \<longleftrightarrow>
     tiles m rest hi \<and> hi < 2 ^ 64 \<and>
     (\<forall>c \<in> set pre. 0 < block_pages c \<and> block_end c \<le> m) \<and> 0 < n \<and> alloc_ok al \<and>
     (\<forall>b \<in> set rest. block_inv b \<and> (block_start b < z \<longrightarrow> good b)) \<and>
     (0 < unat rp \<longrightarrow> length rest < n \<and> (if off = 0 then 1 else 2) \<le> avail al \<and>
        unat cur = m + off * 4096 \<and> m + (off + unat rp) * 4096 = z \<and> z \<le> hi \<and>
        off < block_pages (hd rest) \<and> lo \<le> unat cur)"

text \<open>The outcome of the loop from there.\<close>

definition loop_result ::
    "(KMemoryBlock \<Rightarrow> bool) \<Rightarrow> (PageProps \<Rightarrow> PageProps) \<Rightarrow> nat \<Rightarrow> nat \<Rightarrow> nat \<Rightarrow> MemoryBlockTree \<Rightarrow> nat \<Rightarrow>
     MemoryBlockTree \<Rightarrow> UpdateAllocator \<Rightarrow> nat \<Rightarrow> nat \<Rightarrow> (MemoryBlockTree \<times> UpdateAllocator) option \<Rightarrow>
     bool" where
  "loop_result skip eff lo z hi pre m rest al off k x \<longleftrightarrow>
     (\<exists>rest' al'. x = Some (pre @ rest', al') \<and> tiles m rest' hi \<and>
        pages_of rest' = update_range off k eff (pages_of rest) \<and>
        alloc_ok al' \<and> avail al' + length rest' = avail al + length rest \<and>
        slab_free al' = slab_free al \<and> (\<forall>b \<in> set rest'. block_inv b) \<and>
        (coalesced_outside lo z (pre @ rest) \<longrightarrow> coalesced_outside lo z (pre @ rest')) \<and>
        (0 < off \<and> 0 < k \<and> \<not> skip (hd rest) \<longrightarrow>
           rest' \<noteq> [] \<and> block_end (hd rest') = m + off * 4096))"

lemma loop_ready_hd:
  assumes r: "loop_ready good lo z hi (Suc n) pre m (b # rs) al off cur rp" and rp: "rp \<noteq> 0"
  shows "block_start b = m" "0 < block_pages b" "tiles (block_end b) rs hi"
    "unat cur = block_start b + off * 4096" "off < block_pages b" "block_end b < 2 ^ 64"
    "z = block_start b + (off + unat rp) * 4096" "unat cur + unat rp * 4096 < 2 ^ 64"
    "0 < n" "z \<le> hi"
  using assms tiles_le [of "block_end b" rs hi]
  by (auto simp: loop_ready_def unat_gt_0 algebra_simps)

lemma loop_ready_good:
  assumes r: "loop_ready good lo z hi (Suc n) pre m (b # rs) al off cur rp" and rp: "rp \<noteq> 0"
  shows "good b \<and> block_inv b"
proof -
  have "block_start b < z" using loop_ready_hd(7) [OF assms] rp by (simp add: unat_gt_0)
  then show ?thesis using r by (simp add: loop_ready_def)
qed

text \<open>Past the block the loop is ready again if it left exactly the rest of the range to do.\<close>

lemma loop_ready_next:
  assumes r: "loop_ready good lo z hi (Suc n) pre m (b # rs) al off cur rp" and rp: "rp \<noteq> 0"
    and k: "unat rp' = unat rp - (block_pages b - off)"
    and seg: "tiles m S e" and t: "tiles e (R @ rs) hi"
    and R: "0 < unat rp' \<Longrightarrow> R = []" and e: "0 < unat rp' \<Longrightarrow> e = block_end b"
    and Q: "\<And>c. c \<in> set R \<Longrightarrow> block_inv c \<and> good c"
    and c: "0 < unat rp' \<Longrightarrow> unat cur' = block_end b"
    and al: "alloc_ok al'" "0 < unat rp' \<Longrightarrow> 1 \<le> avail al'"
  shows "loop_ready good lo z hi n (pre @ S) e (R @ rs) al' 0 cur' rp'"
proof -
  note b = loop_ready_hd [OF r rp]
  have "0 < block_pages c \<and> block_end c \<le> e" if "c \<in> set (pre @ S)" for c
    using that r tiles_mem [OF seg, of c] tiles_le [OF seg] by (auto simp: loop_ready_def)
  moreover have "block_end b + unat rp' * 4096 = z \<and> rs \<noteq> [] \<and> 0 < block_pages (hd rs) \<and>
      lo \<le> block_end b \<and> length rs < n" if p: "0 < unat rp'"
  proof -
    have z: "block_end b + unat rp' * 4096 = z"
      using p k b(5,7) by (simp add: block_end_def algebra_simps)
    then have "block_end b < hi" using p b(10) by simp
    then have "rs \<noteq> [] \<and> 0 < block_pages (hd rs)" using b(3) by (cases rs) auto
    moreover have "lo \<le> block_end b"
      using r rp b(4,5) by (auto simp: loop_ready_def unat_gt_0 block_end_def)
    ultimately show ?thesis using z r rp by (auto simp: loop_ready_def unat_gt_0)
  qed
  ultimately show ?thesis
    using r t R e Q c al b(9,10) unfolding loop_ready_def by auto
qed

section \<open>What the loop needs of a block function\<close>

locale block_update =
  fixes skip :: "KMemoryBlock \<Rightarrow> bool" and upd :: "KMemoryBlock \<Rightarrow> KMemoryBlock"
    and eff :: "PageProps \<Rightarrow> PageProps" and good :: "KMemoryBlock \<Rightarrow> bool"
  assumes upd_start: "block_start (upd b) = block_start b"
    and upd_pages: "block_pages (upd b) = block_pages b"
    and upd_props: "\<not> skip b \<Longrightarrow> props (upd b) = eff (props b)"
    and skip_props: "good b \<Longrightarrow> skip b \<Longrightarrow> eff (props b) = props b"
    and skip_cong: "props b = props c \<Longrightarrow> skip b = skip c"
    and upd_inv: "block_inv b \<Longrightarrow> good b \<Longrightarrow> \<not> skip b \<Longrightarrow> block_inv (upd b)"
    and good_split: "split_closed good"
begin

lemma good_inv_closed: "split_closed (\<lambda>b. good b \<and> block_inv b)"
  using good_split block_inv_Split by (auto simp: split_closed_def)

lemma loop_done: "0 < n \<Longrightarrow> rp = 0 \<Longrightarrow> update_loop n skip upd bs it al cur rp = Some (bs, al)"
  by (cases n) simp_all

lemma loop_skip:
  assumes "skip b" and e: "block_end b < 2 ^ 64" and cur: "unat cur = block_start b + off * 4096"
    and off: "off < block_pages b" and k: "0 < unat rp" and ovf: "unat cur + unat rp * 4096 < 2 ^ 64"
    and n: "0 < n"
  obtains cur' rp' where
    "update_loop (Suc n) skip upd (pre @ b # rest) (length pre) al cur rp =
       update_loop n skip upd (pre @ b # rest) (Suc (length pre)) al cur' rp'"
    "unat rp' = unat rp - (block_pages b - off)" "0 < unat rp' \<longrightarrow> unat cur' = block_end b"
proof -
  have rs: "unat (cur + rp * PageSize) = block_start b + (off + unat rp) * 4096"
    using ovf cur unat_addr_pages [of cur rp] by simp
  have ne: "rp \<noteq> 0" using k by auto
  show ?thesis
  proof (cases "cur + rp * PageSize < GetEndAddress b")
    case True
    then have "off + unat rp < block_pages b"
      using rs e by (simp add: word_less_unat unat_end_address block_end_def)
    then have "unat (0 :: u64) = unat rp - (block_pages b - off)" by simp
    moreover have "update_loop (Suc n) skip upd (pre @ b # rest) (length pre) al cur rp =
       update_loop n skip upd (pre @ b # rest) (Suc (length pre)) al (cur + rp * PageSize) 0"
      using True assms(1) ne by (simp add: nth_append Let_def)
    ultimately show ?thesis using that [of "cur + rp * PageSize" 0] by simp
  next
    case False
    then have le: "block_end b \<le> block_start b + (off + unat rp) * 4096"
      using rs e by (simp add: word_less_unat unat_end_address)
    let ?rp = "(cur + rp * PageSize - GetEndAddress b) div PageSize"
    have "unat (cur + rp * PageSize - GetEndAddress b) =
        block_start b + (off + unat rp) * 4096 - block_end b"
      using le e rs by (subst unat_sub_le) (simp_all add: unat_end_address)
    also have "\<dots> = (unat rp - (block_pages b - off)) * 4096"
      using off by (simp add: block_end_def algebra_simps)
    finally have "unat ?rp = unat rp - (block_pages b - off)" by simp
    moreover have "update_loop (Suc n) skip upd (pre @ b # rest) (length pre) al cur rp =
       update_loop n skip upd (pre @ b # rest) (Suc (length pre)) al (GetEndAddress b) ?rp"
      using False assms(1) ne by (simp add: nth_append Let_def)
    ultimately show ?thesis using that e by (simp add: unat_end_address)
  qed
qed

lemma loop_update:
  assumes pre: "\<And>c. c \<in> set pre \<Longrightarrow> 0 < block_pages c \<and> block_end c \<le> block_start b"
    and ns: "\<not> skip b" and e: "block_end b < 2 ^ 64"
    and cur: "unat cur = block_start b + off * 4096" and off: "off < block_pages b"
    and k: "unat rp = k" "0 < k" and ovf: "unat cur + k * 4096 < 2 ^ 64" and al: "alloc_ok al"
    and av: "(if off = 0 then 0 else 1) + (if k < block_pages b - off then 1 else 0) \<le> avail al"
  obtains L mid R al' cur' rp' where
    "update_loop (Suc n) skip upd (pre @ b # rest) (length pre) al cur rp =
       update_loop n skip upd (pre @ L @ upd mid # R @ rest) (Suc (length (pre @ L))) al' cur' rp'"
    "carved b off k L mid R" "unat rp' = k - (block_pages b - off)" "unat cur' = block_end mid"
    "alloc_ok al'" "avail al' + length L + length R = avail al" "slab_free al' = slab_free al"
proof -
  obtain L mid R bs1 it1 al1 al2 where
    s: "split_before (pre @ b # rest) (length pre) al cur = Some (bs1, it1, al1, cur)"
    "split_after bs1 it1 al1 cur (rp * PageSize) =
       Some (pre @ L @ mid # R @ rest, length pre + length L, al2)"
    "alloc_ok al2" "avail al2 + length L + length R = avail al" "slab_free al2 = slab_free al"
    "carved b off k L mid R"
    by (rule split_both_spec [where pre = pre and rest = rest, OF _ e cur off k ovf al av])
      (use pre in auto)
  have mid: "block_start mid = unat cur" "block_pages mid = min k (block_pages b - off)"
    using s(6) cur by (simp_all add: carved_def)
  have em: "block_end mid \<le> block_end b"
  proof -
    have "(off + block_pages mid) * 4096 \<le> block_pages b * 4096" using mid off by simp
    then show ?thesis using mid cur by (simp add: block_end_def algebra_simps)
  qed
  then have em64: "block_end mid < 2 ^ 64" using e by simp
  have c: "unat (cur + GetSize mid) = block_end mid"
    using em64 mid unat_add_no_ovf [of cur "GetSize mid"] unat_size [OF em64]
    by (simp add: block_end_def)
  have r: "unat (rp - KMemoryInfo_GetNumPages (GetMemoryInfo mid)) = k - (block_pages b - off)"
    using k mid(2) unat_info_pages [OF em64] by (subst unat_sub_le) auto
  have "rp \<noteq> 0" using k by auto
  then have "update_loop (Suc n) skip upd (pre @ b # rest) (length pre) al cur rp =
    update_loop n skip upd (pre @ L @ upd mid # R @ rest) (Suc (length (pre @ L))) al2
      (cur + GetSize mid) (rp - KMemoryInfo_GetNumPages (GetMemoryInfo mid))"
    using ns s(1,2) by (simp add: nth_append Let_def list_update_append)
  then show ?thesis by (rule that [OF _ s(6) r c s(3-5)])
qed

lemma loop_step_skip:
  assumes r: "loop_ready good lo z hi (Suc n) pre m (b # rs) al off cur rp"
    and rp: "rp \<noteq> 0" and skip: "skip b"
  obtains cur' rp' where
    "update_loop (Suc n) skip upd (pre @ b # rs) (length pre) al cur rp =
       update_loop n skip upd ((pre @ [b]) @ rs) (length (pre @ [b])) al cur' rp'"
    "loop_ready good lo z hi n (pre @ [b]) (block_end b) rs al 0 cur' rp'"
    "\<forall>x. loop_result skip eff lo z hi (pre @ [b]) (block_end b) rs al 0 (unat rp') x \<longrightarrow>
       loop_result skip eff lo z hi pre m (b # rs) al off (unat rp) x"
proof -
  note b = loop_ready_hd [OF r rp]
  obtain cur' rp' where s: "update_loop (Suc n) skip upd (pre @ b # rs) (length pre) al cur rp =
       update_loop n skip upd (pre @ b # rs) (Suc (length pre)) al cur' rp'"
    "unat rp' = unat rp - (block_pages b - off)" "0 < unat rp' \<longrightarrow> unat cur' = block_end b"
    by (rule loop_skip [where pre = pre and rest = rs and al = al, OF skip b(6,4,5) _ b(8,9)])
      (use rp in \<open>simp add: unat_gt_0\<close>)
  have "good b" using r loop_ready_good [OF r rp] by simp
  then have eff: "eff (props b) = props b" using skip by (rule skip_props)
  have "loop_ready good lo z hi n (pre @ [b]) (block_end b) ([] @ rs) al 0 cur' rp'"
  proof (rule loop_ready_next [OF r rp s(2)])
    show "tiles m [b] (block_end b)" using b(1,2) by simp
    show "tiles (block_end b) ([] @ rs) hi" using b(3) by simp
    show "unat cur' = block_end b" if "0 < unat rp'" using that s(3) by simp
    show "alloc_ok al" "1 \<le> avail al"
      using r rp by (auto simp: loop_ready_def unat_gt_0 split: if_splits)
  qed simp_all
  moreover have "loop_result skip eff lo z hi pre m (b # rs) al off (unat rp) x"
    if x: "loop_result skip eff lo z hi (pre @ [b]) (block_end b) rs al 0 (unat rp') x" for x
  proof -
    obtain rest' al' where r': "x = Some (pre @ b # rest', al')" "tiles (block_end b) rest' hi"
      "pages_of rest' = update_range 0 (unat rp - (block_pages b - off)) eff (pages_of rs)"
      "alloc_ok al'" "avail al' + length rest' = avail al + length rs"
      "slab_free al' = slab_free al" "\<forall>c \<in> set rest'. block_inv c"
      "coalesced_outside lo z (pre @ b # rs) \<longrightarrow> coalesced_outside lo z (pre @ b # rest')"
      using x unfolding loop_result_def s(2) by auto
    show ?thesis
      unfolding loop_result_def using r' loop_ready_good [OF r rp] b(1,2,5)
      by (intro exI [of _ "b # rest'"] exI [of _ al'])
        (simp add: update_range_replicate_append update_range_id eff skip)
  qed
  ultimately show ?thesis using that s(1) by simp
qed

lemma loop_step_update:
  assumes r: "loop_ready good lo z hi (Suc n) pre m (b # rs) al off cur rp"
    and rp: "rp \<noteq> 0" and ns: "\<not> skip b"
  obtains S R e al' cur' rp' where
    "update_loop (Suc n) skip upd (pre @ b # rs) (length pre) al cur rp =
       update_loop n skip upd ((pre @ S) @ R @ rs) (length (pre @ S)) al' cur' rp'"
    "loop_ready good lo z hi n (pre @ S) e (R @ rs) al' 0 cur' rp'"
    "\<forall>x. loop_result skip eff lo z hi (pre @ S) e (R @ rs) al' 0 (unat rp') x \<longrightarrow>
       loop_result skip eff lo z hi pre m (b # rs) al off (unat rp) x"
proof -
  let ?k = "unat rp" and ?p = "block_pages b"
  note b = loop_ready_hd [OF r rp]
  have k: "0 < ?k" using rp by (simp add: unat_gt_0)
  have al: "alloc_ok al" "(if off = 0 then 1 else 2) \<le> avail al"
    using r k by (simp_all add: loop_ready_def)
  obtain L mid R al' cur' rp' where u:
    "update_loop (Suc n) skip upd (pre @ b # rs) (length pre) al cur rp =
       update_loop n skip upd (pre @ L @ upd mid # R @ rs) (Suc (length (pre @ L))) al' cur' rp'"
    "carved b off ?k L mid R" "unat rp' = ?k - (?p - off)" "unat cur' = block_end mid"
    "alloc_ok al'" "avail al' + length L + length R = avail al" "slab_free al' = slab_free al"
    by (rule loop_update [where pre = pre and rest = rs and n = n,
          OF _ ns b(6,4,5) refl k b(8) al(1)])
      (use r b(1) al(2) in \<open>auto simp: loop_ready_def split: if_splits\<close>)
  let ?m = "upd mid"
  have m: "block_start ?m = block_start mid" "block_pages ?m = block_pages mid"
    "block_end ?m = block_end mid"
    by (simp_all add: upd_start upd_pages block_end_def)
  have Q: "\<forall>c \<in> set (L @ mid # R). good c \<and> block_inv c"
    by (rule carved_all [OF u(2) good_inv_closed]) (use loop_ready_good [OF r rp] in simp)
  have pm: "props mid = props b" using u(2) by (simp add: carved_def)
  have nsm: "\<not> skip mid" using ns skip_cong [OF pm] by simp
  note t = carved_tiles [OF u(2) b(5) k m(1,2)]
  have RL: "R = [] \<and> block_end ?m = block_end b" if "0 < unat rp'"
    using that u(2,3) t(2) by (auto simp: carved_def split: if_splits)
  have Ll: "length L = (if off = 0 then 0 else 1)"
    using u(2) by (auto simp: carved_def split: if_splits)
  have ready: "loop_ready good lo z hi n (pre @ L @ [?m]) (block_end ?m) (R @ rs) al' 0 cur' rp'"
  proof (rule loop_ready_next [OF r rp u(3)])
    show "tiles m (L @ [?m]) (block_end ?m)" using t(1) b(1) by simp
    show "tiles (block_end ?m) (R @ rs) hi" using t(2) b(3) by (auto simp: tiles_append)
    show "unat cur' = block_end b" if "0 < unat rp'" using RL [OF that] u(4) m(3) by simp
    show "1 \<le> avail al'" if "0 < unat rp'"
      using RL [OF that] u(6) Ll al(2) by (auto split: if_splits)
  qed (use RL Q u(5) in auto)
  have "loop_result skip eff lo z hi pre m (b # rs) al off ?k x"
    if x: "loop_result skip eff lo z hi (pre @ L @ [?m]) (block_end ?m) (R @ rs) al' 0 (unat rp') x" for x
  proof -
    obtain rest' al'' where r': "x = Some (pre @ (L @ ?m # rest'), al'')"
      "tiles (block_end ?m) rest' hi"
      "pages_of rest' = update_range 0 (unat rp') eff (pages_of (R @ rs))"
      "alloc_ok al''" "avail al'' + length rest' = avail al' + length (R @ rs)"
      "slab_free al'' = slab_free al'" "\<forall>c \<in> set rest'. block_inv c"
      "coalesced_outside lo z (pre @ L @ ?m # R @ rs) \<longrightarrow>
       coalesced_outside lo z (pre @ (L @ ?m # rest'))"
      using x unfolding loop_result_def by auto
    have "pages_of rest' = pages_of R @ update_range 0 (?k - (?p - off)) eff (pages_of rs)"
      using r'(3) u(3) RL by (cases "unat rp' = 0") auto
    then have p: "pages_of (L @ ?m # rest') = update_range off ?k eff (pages_of (b # rs))"
      using carved_pages [OF u(2) b(5) m(2), of eff] upd_props [OF nsm] b(5)
      by (simp add: update_range_replicate_append pm)
    have c: "coalesced_outside lo z (pre @ b # rs) \<longrightarrow> coalesced_outside lo z (pre @ L @ ?m # R @ rs)"
      using coalesced_outside_carved [OF u(2) b(5) k m(1) _ b(7,3), of lo pre] r b(4) k
      by (simp add: loop_ready_def)
    have "tiles m (L @ ?m # rest') hi" using t(1) r'(2) b(1) by (force simp: tiles_append)
    moreover have "\<forall>c \<in> set (L @ ?m # rest'). block_inv c"
      using upd_inv Q nsm r'(7) by auto
    moreover have "L @ ?m # rest' \<noteq> [] \<and> block_end (hd (L @ ?m # rest')) = m + off * 4096"
      if "0 < off"
      using that u(2) b(1) by (auto simp: carved_def block_end_def)
    ultimately show ?thesis unfolding loop_result_def using r' p c u(6,7)
      by (intro exI [of _ "L @ ?m # rest'"] exI [of _ al'']) auto
  qed
  with that [of "L @ [?m]" R al' cur' rp' "block_end ?m"] u(1) ready show ?thesis by simp
qed

lemma loop_spec:
  assumes "loop_ready good lo z hi n pre m rest al off cur rp"
  shows "loop_result skip eff lo z hi pre m rest al off (unat rp)
           (update_loop n skip upd (pre @ rest) (length pre) al cur rp)"
  using assms
proof (induction n arbitrary: m pre rest al cur rp off)
  case 0
  then show ?case by (simp add: loop_ready_def)
next
  case (Suc n)
  show ?case
  proof (cases "rp = 0")
    case True
    then show ?thesis using Suc.prems by (simp add: loop_result_def loop_ready_def)
  next
    case rp: False
    then have "0 < unat rp" by (simp add: unat_gt_0)
    then obtain b rs where rest: "rest = b # rs"
      using Suc.prems by (cases rest) (auto simp: loop_ready_def)
    note r = Suc.prems [unfolded rest]
    show ?thesis
    proof (cases "skip b")
      case True
      then show ?thesis using loop_step_skip [OF r rp True] Suc.IH unfolding rest by metis
    next
      case False
      then show ?thesis using loop_step_update [OF r rp False] Suc.IH unfolding rest by metis
    qed
  qed
qed

end

section \<open>Merging\<close>

definition coalesced :: "MemoryBlockTree \<Rightarrow> bool" where
  "coalesced bs \<longleftrightarrow> successively (\<lambda>x y. \<not> CanMergeWith x y) bs"

definition coalesced_after :: "nat \<Rightarrow> MemoryBlockTree \<Rightarrow> bool" where
  "coalesced_after e bs \<longleftrightarrow>
     successively (\<lambda>x y. e < block_start y \<longrightarrow> \<not> CanMergeWith x y) bs"

lemma coalesced_afterD:
  assumes "tiles lo bs hi" and "e < lo" and "coalesced_after e bs"
  shows "coalesced bs"
  using assms
proof (induction bs arbitrary: lo)
  case (Cons b bs)
  then have "e < block_end b" by (auto simp: block_end_def)
  with Cons show ?case
    by (cases bs) (auto simp: coalesced_def coalesced_after_def)
qed (simp add: coalesced_def)

lemma Add_geometry:
  assumes "block_start q = block_end p" and "block_end q < 2 ^ 64"
  shows "block_start (Add p q) = block_start p" "block_pages (Add p q) = block_pages p + block_pages q"
    "block_end (Add p q) = block_end q"
proof -
  show s: "block_start (Add p q) = block_start p" by (simp add: Add_def block_start_def)
  have "block_pages p + block_pages q < 2 ^ 64"
    using assms by (simp add: block_end_def)
  then show p: "block_pages (Add p q) = block_pages p + block_pages q"
    by (simp add: Add_def block_pages_def unat_add_no_ovf)
  show "block_end (Add p q) = block_end q"
    using s p assms(1) by (simp add: block_end_def algebra_simps)
qed

lemma pages_of_Add:
  assumes "CanMergeWith p q" and "block_pages (Add p q) = block_pages p + block_pages q"
  shows "pages_of (Add p q # rest) = pages_of (p # q # rest)"
  using CanMergeWith_props [OF assms(1)] by (simp add: assms(2) replicate_add)

definition coalesce_result ::
    "nat \<Rightarrow> nat \<Rightarrow> MemoryBlockTree \<Rightarrow> KMemoryBlock \<Rightarrow> MemoryBlockTree \<Rightarrow> UpdateAllocator \<Rightarrow>
     MemoryBlockTree \<times> UpdateAllocator \<Rightarrow> bool" where
  "coalesce_result e hi pre p rest al x \<longleftrightarrow>
     (\<exists>r res al'. x = (pre @ r # res, al') \<and> tiles (block_start p) (r # res) hi \<and>
        pages_of (r # res) = pages_of (p # rest) \<and> alloc_ok al' \<and>
        slab_free al' + avail al' + length res = slab_free al + avail al + length rest \<and>
        (\<forall>b \<in> set (r # res). block_inv b) \<and> (\<forall>y. CanMergeWith y r = CanMergeWith y p) \<and>
        (coalesced_after e (p # rest) \<longrightarrow> coalesced (r # res)))"

lemma coalesce_result_stop:
  assumes "tiles (block_start p) (p # rest) hi" and "alloc_ok al"
    and "\<forall>b \<in> set (p # rest). block_inv b" and "coalesced_after e (p # rest) \<longrightarrow> coalesced (p # rest)"
  shows "coalesce_result e hi pre p rest al (pre @ p # rest, al)"
  using assms by (auto simp: coalesce_result_def)

lemma coalesce_result_merge:
  assumes c: "coalesce_result e hi pre (Add p q) rest (UpdateAllocator_Free al q) x"
    and m: "CanMergeWith p q" and q: "block_start q = block_end p" "block_end q < 2 ^ 64"
    and al: "alloc_ok al"
  shows "coalesce_result e hi pre p (q # rest) al x"
proof -
  note g = Add_geometry [OF q]
  have "coalesced_after e (p # q # rest) \<longrightarrow> coalesced_after e (Add p q # rest)"
    using CanMergeWith_Add(1) [OF m] by (cases rest) (auto simp: coalesced_after_def)
  then show ?thesis
    using c CanMergeWith_Add(2) [OF m] pages_of_Add [OF m g(2), of rest] Free_ok [OF al, of q]
    unfolding coalesce_result_def g(1) by fastforce
qed

declare CoalesceForUpdate_loop.simps [simp del]

lemma CoalesceForUpdate_loop_spec:
  assumes "tiles (block_start p) (p # rest) hi" and "hi < 2 ^ 64" and "alloc_ok al"
    and "\<forall>b \<in> set (p # rest). block_inv b"
  shows "coalesce_result (unat end_addr) hi pre p rest al
    (CoalesceForUpdate_loop (pre @ p # rest) (length pre) al end_addr)"
  using assms
proof (induction rest arbitrary: p pre al)
  case Nil
  then show ?case
    by (subst CoalesceForUpdate_loop.simps)
      (auto intro: coalesce_result_stop simp: coalesced_def)
next
  case (Cons q rest)
  have q: "block_start q = block_end p" "0 < block_pages q" "tiles (block_end q) rest hi"
    "block_end q < 2 ^ 64"
    using Cons.prems(1,2) tiles_le [of "block_end q" rest hi] by auto
  have after: "coalesced_after (unat end_addr) (b # rest) \<longrightarrow> coalesced (b # rest)"
    if "unat end_addr < block_end q" for b
    using that coalesced_afterD [OF q(3) that] q(3)
    by (cases rest) (auto simp: coalesced_after_def coalesced_def)
  show ?case
  proof (cases "CanMergeWith p q")
    case True
    let ?al = "UpdateAllocator_Free al q"
    note g = Add_geometry [OF q(1,4)]
    have inv: "\<forall>b \<in> set (Add p q # rest). block_inv b"
      using Cons.prems(4) block_inv_Add True by simp
    have t: "tiles (block_start (Add p q)) (Add p q # rest) hi" using q(2,3) g by simp
    have e: "end_addr < GetEndAddress (Add p q) \<longleftrightarrow> unat end_addr < block_end q"
      using q(4) by (simp add: word_less_unat unat_end_address g)
    have step: "CoalesceForUpdate_loop (pre @ p # q # rest) (length pre) al end_addr =
      (if end_addr < GetEndAddress (Add p q) then (pre @ Add p q # rest, ?al)
       else CoalesceForUpdate_loop (pre @ Add p q # rest) (length pre) ?al end_addr)"
      using True by (subst CoalesceForUpdate_loop.simps)
        (simp add: tree_erase_def nth_append Let_def list_update_append)
    have "coalesce_result (unat end_addr) hi pre (Add p q) rest ?al
        (CoalesceForUpdate_loop (pre @ p # q # rest) (length pre) al end_addr)"
      unfolding step e
      using coalesce_result_stop [OF t Free_ok(1) [OF Cons.prems(3)] inv] after
        Cons.IH [OF t Cons.prems(2) Free_ok(1) [OF Cons.prems(3)] inv] by simp
    then show ?thesis by (rule coalesce_result_merge [OF _ True q(1,4) Cons.prems(3)])
  next
    case False
    have e: "end_addr < GetEndAddress q \<longleftrightarrow> unat end_addr < block_end q"
      using q(4) by (simp add: word_less_unat unat_end_address)
    have step: "CoalesceForUpdate_loop (pre @ p # q # rest) (length pre) al end_addr =
      (if end_addr < GetEndAddress q then (pre @ p # q # rest, al)
       else CoalesceForUpdate_loop ((pre @ [p]) @ q # rest) (length (pre @ [p])) al end_addr)"
      using False by (subst CoalesceForUpdate_loop.simps) (simp add: nth_append Let_def)
    show ?thesis
    proof (cases "unat end_addr < block_end q")
      case True
      have "coalesced_after (unat end_addr) (p # q # rest) \<longrightarrow> coalesced (p # q # rest)"
        using after [OF True, of q] False by (auto simp: coalesced_after_def coalesced_def)
      then show ?thesis unfolding step e using True
        by (simp add: coalesce_result_stop [OF Cons.prems(1,3,4)])
    next
      case nb: False
      have "tiles (block_start q) (q # rest) hi" using Cons.prems(1) by simp
      then have "coalesce_result (unat end_addr) hi (pre @ [p]) q rest al
          (CoalesceForUpdate_loop ((pre @ [p]) @ q # rest) (length (pre @ [p])) al end_addr)"
        by (rule Cons.IH) (use Cons.prems(2-4) in simp_all)
      then obtain r res al' where x:
        "CoalesceForUpdate_loop ((pre @ [p]) @ q # rest) (length (pre @ [p])) al end_addr =
          ((pre @ [p]) @ r # res, al')" "tiles (block_start q) (r # res) hi"
        "pages_of (r # res) = pages_of (q # rest)" "alloc_ok al'"
        "slab_free al' + avail al' + length res = slab_free al + avail al + length rest"
        "\<forall>b \<in> set (r # res). block_inv b" "\<forall>y. CanMergeWith y r = CanMergeWith y q"
        "coalesced_after (unat end_addr) (q # rest) \<longrightarrow> coalesced (r # res)"
        unfolding coalesce_result_def by blast
      have 1: "coalesced_after (unat end_addr) (p # q # rest) \<longrightarrow> coalesced (p # r # res)"
        using x(7,8) False by (simp add: coalesced_after_def coalesced_def)
      have 2: "tiles (block_start p) (p # r # res) hi" using Cons.prems(1) x(2) q(1) by simp
      have 3: "pages_of (p # r # res) = pages_of (p # q # rest)" using x(3) by simp
      have 4: "\<forall>b \<in> set (p # r # res). block_inv b" using x(6) Cons.prems(4) by simp
      show ?thesis
        unfolding coalesce_result_def step e using nb x(1,4,5) 1 2 3 4
        by (intro exI [of _ p] exI [of _ "r # res"] exI [of _ al']) simp
    qed
  qed
qed

section \<open>Whole updates\<close>

definition tree_ok :: "KMemoryBlockManager \<Rightarrow> bool" where
  "tree_ok m \<longleftrightarrow>
     tiles (unat (m_start_address m)) (m_memory_block_tree m) (unat (m_end_address m)) \<and>
     unat (m_start_address m) mod 4096 = 0 \<and> (\<forall>b \<in> set (m_memory_block_tree m). block_inv b)"

definition manager_wf :: "KMemoryBlockManager \<Rightarrow> bool" where
  "manager_wf m \<longleftrightarrow> tree_ok m \<and> m_memory_block_tree m \<noteq> [] \<and> coalesced (m_memory_block_tree m)"

definition same_region :: "KMemoryBlockManager \<Rightarrow> KMemoryBlockManager \<Rightarrow> bool" where
  "same_region m m' \<longleftrightarrow>
     m_start_address m' = m_start_address m \<and> m_end_address m' = m_end_address m"

text \<open>The objects an allocator and a tree own together.\<close>

definition owned_blocks :: "KMemoryBlockManager \<Rightarrow> UpdateAllocator \<Rightarrow> nat" where
  "owned_blocks m al = slab_free al + avail al + length (m_memory_block_tree m)"

lemma CoalesceForUpdate_spec:
  assumes ok: "tree_ok m" and al: "alloc_ok al"
    and lo: "unat (m_start_address m) \<le> unat address" "unat address < unat (m_end_address m)"
    and out: "coalesced_outside (unat address) (unat (address + num_pages * PageSize))
                (m_memory_block_tree m)"
    and fst_block: "address = m_start_address m \<or>
      block_end (hd (m_memory_block_tree m)) \<le> unat address"
  obtains m' al' where "CoalesceForUpdate m al address num_pages = Some (m', al')"
    "manager_wf m'" "same_region m m'"
    "pages_of (m_memory_block_tree m') = pages_of (m_memory_block_tree m)"
    "alloc_ok al'" "owned_blocks m' al' = owned_blocks m al"
proof -
  let ?bs = "m_memory_block_tree m" and ?e = "address + num_pages * PageSize"
  let ?lo = "unat (m_start_address m)" and ?hi = "unat (m_end_address m)"
  have t: "tiles ?lo ?bs ?hi" and inv: "\<forall>b \<in> set ?bs. block_inv b"
    using ok by (simp_all add: tree_ok_def)
  have hi: "?hi < 2 ^ 64" using unsigned_less [of "m_end_address m"] by simp
  obtain pre b rest where f: "?bs = pre @ b # rest" "FindIterator ?bs address = length pre"
    "block_start b \<le> unat address" "unat address < block_end b"
    using FindIterator_tiles [OF t hi lo] by auto
  obtain pre3 p rest3 where z: "?bs = pre3 @ p # rest3"
    "CoalesceForUpdate m al address num_pages = (let (bs', al') =
       CoalesceForUpdate_loop ?bs (length pre3) al ?e in Some (m\<lparr>m_memory_block_tree := bs'\<rparr>, al'))"
    "pre3 = [] \<or> block_start p < unat address"
  proof (cases "address = m_start_address m")
    case True
    have "pre = []"
    proof (cases pre)
      case (Cons a as)
      then have "tiles (block_end a) (as @ b # rest) ?hi" "?lo < block_end a"
        using t f(1) by (auto simp: block_end_def)
      then show ?thesis using tiles_mem [of "block_end a" "as @ b # rest" ?hi b] f(3) True by simp
    qed
    then show ?thesis using that [of "[]" b rest] f(1,2) True
      by (simp add: CoalesceForUpdate_def)
  next
    case False
    then have "pre \<noteq> []" using f(1,4) fst_block by auto
    then obtain pre3 p where pre: "pre = pre3 @ [p]" using rev_exhaust by blast
    have "block_start p < block_start b"
      using t f(1) pre by (auto simp: tiles_append block_end_def)
    then show ?thesis using that [of pre3 p "b # rest"] f(1-3) pre False
      by (simp add: CoalesceForUpdate_def)
  qed
  have tp: "tiles ?lo pre3 (block_start p)" "tiles (block_start p) (p # rest3) ?hi"
    using t by (auto simp: z(1) tiles_append)
  have invp: "\<forall>b \<in> set (p # rest3). block_inv b" using inv z(1) by simp
  obtain r res al' where c: "CoalesceForUpdate_loop ?bs (length pre3) al ?e = (pre3 @ r # res, al')"
    "tiles (block_start p) (r # res) ?hi" "pages_of (r # res) = pages_of (p # rest3)"
    "alloc_ok al'" "slab_free al' + avail al' + length res = slab_free al + avail al + length rest3"
    "\<forall>b \<in> set (r # res). block_inv b" "\<forall>y. CanMergeWith y r = CanMergeWith y p"
    "coalesced_after (unat ?e) (p # rest3) \<longrightarrow> coalesced (r # res)"
    using CoalesceForUpdate_loop_spec [OF tp(2) hi al invp, of ?e pre3]
    unfolding coalesce_result_def z(1) by blast
  let ?m = "m\<lparr>m_memory_block_tree := pre3 @ r # res\<rparr>"
  have o: "successively (\<lambda>x y. block_start y < unat address \<or> unat ?e < block_start y \<longrightarrow>
      \<not> CanMergeWith x y) (pre3 @ p # rest3)"
    using out z(1) by (simp add: coalesced_outside_def)
  then have op: "successively (\<lambda>x y. block_start y < unat address \<or> unat ?e < block_start y \<longrightarrow>
      \<not> CanMergeWith x y) (p # rest3)"
    unfolding successively_append_iff by blast
  have after: "coalesced_after (unat ?e) (p # rest3)"
    unfolding coalesced_after_def
    by (rule successively_mono [OF op]) blast
  have "coalesced (pre3 @ r # res)"
  proof (cases "pre3 = []")
    case True
    then show ?thesis using c(8) after by simp
  next
    case False
    then have lt: "block_start p < unat address" using z(3) by simp
    have "successively (\<lambda>x y. \<not> CanMergeWith x y) pre3"
    proof (rule successively_mono)
      show "successively (\<lambda>x y. block_start y < unat address \<or> unat ?e < block_start y \<longrightarrow>
          \<not> CanMergeWith x y) pre3" using o by (simp add: successively_append_iff)
    next
      fix x y assume "y \<in> set pre3"
      then have "block_start y < unat address"
        using tiles_mem [OF tp(1), of y] block_start_less_end [of y] lt by linarith
      then show "(block_start y < unat address \<or> unat ?e < block_start y \<longrightarrow>
          \<not> CanMergeWith x y) \<Longrightarrow> \<not> CanMergeWith x y" by simp
    qed
    moreover have "\<not> CanMergeWith (last pre3) r"
      using o lt False c(7) by (auto simp: successively_append_iff)
    ultimately show ?thesis using c(8) after by (simp add: coalesced_def successively_append_iff)
  qed
  moreover have "tree_ok ?m"
    using ok tp(1) c(2,6) inv z(1) by (auto simp: tree_ok_def tiles_append)
  ultimately have "manager_wf ?m" by (simp add: manager_wf_def)
  then show ?thesis
    using that [of ?m al'] z c by (simp add: same_region_def owned_blocks_def)
qed

text \<open>The range of an update: page aligned, and inside the address space of the manager.\<close>

definition range_ok :: "KMemoryBlockManager \<Rightarrow> u64 \<Rightarrow> u64 \<Rightarrow> bool" where
  "range_ok m address num_pages \<longleftrightarrow>
     unat (m_start_address m) \<le> unat address \<and> unat address < unat (m_end_address m) \<and>
     unat address mod 4096 = 0 \<and>
     unat address + unat num_pages * 4096 \<le> unat (m_end_address m)"

definition page_index :: "KMemoryBlockManager \<Rightarrow> u64 \<Rightarrow> nat" where
  "page_index m address = (unat address - unat (m_start_address m)) div 4096"

text \<open>
  The merging pass steps back one block from the block of \<open>address\<close>, which must not be the
  first one then: unless the range starts at the start address, either the first block ends before
  it, or the loop cuts the first block.
\<close>

definition border_ok :: "(KMemoryBlock \<Rightarrow> bool) \<Rightarrow> KMemoryBlockManager \<Rightarrow> u64 \<Rightarrow> u64 \<Rightarrow> bool" where
  "border_ok skip m address num_pages \<longleftrightarrow>
     address = m_start_address m \<or> block_end (hd (m_memory_block_tree m)) \<le> unat address \<or>
     (num_pages \<noteq> 0 \<and> \<not> skip (hd (m_memory_block_tree m)))"

definition touched :: "KMemoryBlockManager \<Rightarrow> u64 \<Rightarrow> u64 \<Rightarrow> KMemoryBlock \<Rightarrow> bool" where
  "touched m address num_pages b \<longleftrightarrow> b \<in> set (m_memory_block_tree m) \<and>
     unat address < block_end b \<and> block_start b < unat address + unat num_pages * 4096"

definition update_post ::
    "(PageProps \<Rightarrow> PageProps) \<Rightarrow> KMemoryBlockManager \<Rightarrow> UpdateAllocator \<Rightarrow> u64 \<Rightarrow> u64 \<Rightarrow>
     (KMemoryBlockManager \<times> UpdateAllocator) option \<Rightarrow> bool" where
  "update_post eff m al address num_pages x \<longleftrightarrow>
     (\<exists>m' al'. x = Some (m', al') \<and> manager_wf m' \<and> same_region m m' \<and>
        pages_of (m_memory_block_tree m') =
          update_range (page_index m address) (unat num_pages) eff
            (pages_of (m_memory_block_tree m)) \<and>
        alloc_ok al' \<and> owned_blocks m' al' = owned_blocks m al)"

context block_update
begin

lemma ready_at_range:
  assumes wf: "manager_wf m" and al: "alloc_ok al" "2 \<le> avail al"
    and r: "range_ok m address num_pages" and g: "\<And>b. touched m address num_pages b \<Longrightarrow> good b"
    and f: "m_memory_block_tree m = pre @ b # rest" "block_start b \<le> unat address"
      "unat address < block_end b"
  shows "loop_ready good (unat address) (unat address + unat num_pages * 4096)
      (unat (m_end_address m)) (length (m_memory_block_tree m) + 1) pre (block_start b) (b # rest)
      al (page_index m address - length (pages_of pre)) address num_pages"
    and "tiles (unat (m_start_address m)) pre (block_start b)"
    and "unat address = block_start b + (page_index m address - length (pages_of pre)) * 4096"
    and "length (pages_of pre) \<le> page_index m address"
proof -
  let ?bs = "m_memory_block_tree m" and ?k = "page_index m address"
  let ?lo = "unat (m_start_address m)" and ?hi = "unat (m_end_address m)"
  have t: "tiles ?lo ?bs ?hi" and inv: "\<forall>b \<in> set ?bs. block_inv b" and m0: "?lo mod 4096 = 0"
    using wf by (simp_all add: manager_wf_def tree_ok_def)
  show tp: "tiles ?lo pre (block_start b)"
    using t f(1) by (auto simp: tiles_append)
  have tr: "tiles (block_start b) (b # rest) ?hi"
    using t f(1) by (auto simp: tiles_append)
  have lb: "?lo + length (pages_of pre) * 4096 = block_start b"
    using tiles_pages [OF tp] tiles_le [OF tp] by simp
  have "4096 dvd unat address - ?lo"
    using r m0 by (simp add: range_ok_def mod_eq_0_iff_dvd)
  then have "?k * 4096 = unat address - ?lo" by (simp add: page_index_def)
  then have ka: "unat address = ?lo + ?k * 4096" using r by (simp add: range_ok_def)
  show le: "length (pages_of pre) \<le> ?k" using lb f(2) ka by simp
  then show off: "unat address = block_start b + (?k - length (pages_of pre)) * 4096"
    using lb ka by (simp add: algebra_simps)
  have rest: "block_end b \<le> block_start c" if "c \<in> set rest" for c
    using tiles_mem [of "block_end b" rest ?hi c] tr that by simp
  have good: "good c" if "c \<in> set (b # rest)" "block_start c < unat address + unat num_pages * 4096"
    for c
  proof (rule g)
    have "unat address < block_end c"
      using that(1) f(3) rest [of c] block_start_less_end [of c] tiles_mem [OF tr that(1)]
      by auto
    then show "touched m address num_pages c" using that f(1) by (auto simp: touched_def)
  qed
  have pre: "\<forall>c \<in> set pre. 0 < block_pages c \<and> block_end c \<le> block_start b"
    using tiles_mem [OF tp] by blast
  have "?k - length (pages_of pre) < block_pages b"
    using off f(3) by (simp add: block_end_def)
  moreover have "?hi < 2 ^ 64" using unsigned_less [of "m_end_address m"] by simp
  moreover have "block_start b + (?k - length (pages_of pre) + unat num_pages) * 4096 =
      unat address + unat num_pages * 4096" using off by (simp add: algebra_simps)
  moreover have "unat address + unat num_pages * 4096 \<le> ?hi" using r by (simp add: range_ok_def)
  ultimately show "loop_ready good (unat address) (unat address + unat num_pages * 4096) ?hi
      (length ?bs + 1) pre (block_start b) (b # rest) al (?k - length (pages_of pre)) address
      num_pages"
    using tr pre al off good inv f(1) unfolding loop_ready_def by simp
qed

lemma update_with_spec:
  assumes wf: "manager_wf m" and al: "alloc_ok al" "2 \<le> avail al"
    and r: "range_ok m address num_pages" and bo: "border_ok skip m address num_pages"
    and g: "\<And>b. touched m address num_pages b \<Longrightarrow> good b"
  shows "update_post eff m al address num_pages (update_with skip upd m al address num_pages)"
proof -
  let ?bs = "m_memory_block_tree m" and ?k = "page_index m address"
  let ?lo = "unat (m_start_address m)" and ?hi = "unat (m_end_address m)"
  let ?z = "unat address + unat num_pages * 4096"
  have t: "tiles ?lo ?bs ?hi" and inv: "\<forall>b \<in> set ?bs. block_inv b" and co: "coalesced ?bs"
    using wf by (simp_all add: manager_wf_def tree_ok_def)
  have lo: "?lo \<le> unat address" "unat address < ?hi" using r by (simp_all add: range_ok_def)
  have hi: "?hi < 2 ^ 64" using unsigned_less [of "m_end_address m"] by simp
  obtain pre b rest where f: "?bs = pre @ b # rest" "FindIterator ?bs address = length pre"
    "block_start b \<le> unat address" "unat address < block_end b"
    using FindIterator_tiles [OF t hi lo] by auto
  let ?off = "?k - length (pages_of pre)"
  note rd = ready_at_range [OF wf al r g f(1,3,4)]
  obtain rest' al' where x: "update_loop (length ?bs + 1) skip upd ?bs (length pre) al address num_pages =
      Some (pre @ rest', al')" "tiles (block_start b) rest' ?hi"
    "pages_of rest' = update_range ?off (unat num_pages) eff (pages_of (b # rest))"
    "alloc_ok al'" "avail al' + length rest' = avail al + length (b # rest)"
    "slab_free al' = slab_free al" "\<forall>b \<in> set rest'. block_inv b"
    "coalesced_outside (unat address) ?z ?bs \<longrightarrow>
       coalesced_outside (unat address) ?z (pre @ rest')"
    "0 < ?off \<and> 0 < unat num_pages \<and> \<not> skip b \<longrightarrow>
       rest' \<noteq> [] \<and> block_end (hd rest') = block_start b + ?off * 4096"
    using loop_spec [OF rd(1)] unfolding loop_result_def f(1) by auto
  let ?m = "m\<lparr>m_memory_block_tree := pre @ rest'\<rparr>"
  have ok: "tree_ok ?m"
    using wf rd(2) x(2,7) f(1) by (auto simp: manager_wf_def tree_ok_def tiles_append)
  have "coalesced_outside (unat address) ?z ?bs"
    using co unfolding coalesced_outside_def coalesced_def
    by (rule successively_mono) blast
  then have out: "coalesced_outside (unat address) ?z (pre @ rest')" using x(8) by simp
  have "?z < 2 ^ 64" using r hi by (simp add: range_ok_def)
  then have z: "unat (address + num_pages * PageSize) = ?z" by (rule unat_addr_pages)
  have first: "address = m_start_address m \<or> block_end (hd (pre @ rest')) \<le> unat address"
  proof (cases "pre = []")
    case True
    then have lo_b: "?lo = block_start b" and hd: "hd ?bs = b" using rd(2) f(1) by simp_all
    show ?thesis
    proof (cases "?off = 0")
      case True
      then have "unat address = ?lo" using rd(3) lo_b by simp
      then show ?thesis by (simp add: word_eq_unat)
    next
      case False
      then have "address = m_start_address m \<or> (num_pages \<noteq> 0 \<and> \<not> skip b)"
        using bo f(4) hd unfolding border_ok_def by auto
      moreover have "block_end (hd rest') = unat address" if "num_pages \<noteq> 0" "\<not> skip b"
      proof -
        have "block_end (hd rest') = block_start b + ?off * 4096"
          using x(9) False that by (simp add: unat_gt_0)
        then show ?thesis by (simp only: rd(3))
      qed
      ultimately show ?thesis using True by auto
    qed
  next
    case False
    then show ?thesis using tiles_mem [OF rd(2), of "hd pre"] f(3) by (cases pre) auto
  qed
  obtain m' al2 where c: "CoalesceForUpdate ?m al' address num_pages = Some (m', al2)"
    "manager_wf m'" "same_region ?m m'" "pages_of (m_memory_block_tree m') = pages_of (pre @ rest')"
    "alloc_ok al2" "owned_blocks m' al2 = owned_blocks ?m al'"
    using CoalesceForUpdate_spec [OF ok x(4), of address num_pages] lo out first z by auto
  have "update_with skip upd m al address num_pages = Some (m', al2)"
    unfolding update_with_def Let_def f(2) x(1) by (simp add: c(1))
  moreover have "pages_of (m_memory_block_tree m') = update_range ?k (unat num_pages) eff (pages_of ?bs)"
    using c(4) x(3) rd(4) f(1) update_range_append [of "pages_of pre" ?off] by simp
  moreover have "owned_blocks m' al2 = owned_blocks m al"
    using c(6) x(5,6) f(1) by (simp add: owned_blocks_def)
  ultimately show ?thesis
    unfolding update_post_def using c(2,3,5) by (auto simp: same_region_def)
qed

end

end
