(* ===== verification/Block_Manager_Props.thy ===== *)
theory Block_Manager_Props
  imports Block_Manager_Loop
begin

text \<open>
  The four updates of the block manager as interpretations of \<open>block_update\<close>, the search for
  free areas, the life of a manager from \<^verbatim>\<open>Initialize\<close> on, and the properties of the
  component.
\<close>

unbundle bit_operations_syntax

section \<open>The four updates\<close>

definition CountedAttr :: u8 where
  "CountedAttr = Attr AttrIpcLocked OR Attr AttrDeviceShared"

definition has_props :: "u32 \<Rightarrow> u8 \<Rightarrow> u8 \<Rightarrow> PageProps \<Rightarrow> bool" where
  "has_props s perm attr p \<longleftrightarrow>
     p_state p = s \<and> p_perm p = perm \<and> (p_attr p OR CountedAttr) = (attr OR CountedAttr)"

definition set_props :: "u32 \<Rightarrow> u8 \<Rightarrow> u8 \<Rightarrow> PageProps \<Rightarrow> PageProps" where
  "set_props s perm attr p =
     p\<lparr>p_state := s, p_perm := perm, p_attr := attr OR (p_attr p AND CountedAttr)\<rparr>"

definition set_props_if :: "u32 \<Rightarrow> u8 \<Rightarrow> u8 \<Rightarrow> u32 \<Rightarrow> u8 \<Rightarrow> u8 \<Rightarrow> PageProps \<Rightarrow> PageProps" where
  "set_props_if test_state test_perm test_attr s perm attr p =
     (if has_props test_state test_perm test_attr p then set_props s perm attr p else p)"

definition set_attr :: "u8 \<Rightarrow> u8 \<Rightarrow> PageProps \<Rightarrow> PageProps" where
  "set_attr msk attr p = p\<lparr>p_attr := (p_attr p AND NOT msk) OR attr\<rparr>"

definition lock_page :: "u8 \<Rightarrow> PageProps \<Rightarrow> PageProps" where
  "lock_page perm p =
     (let p' = p\<lparr>p_ipc_lock_count := p_ipc_lock_count p + 1,
                 p_attr := p_attr p OR Attr AttrIpcLocked\<rparr>
      in if p_ipc_lock_count p + 1 = 1
         then p'\<lparr>p_original_perm := p_perm p,
                 p_perm := (perm AND Perm PermIpcLockChangeMask) OR
                           (p_perm p AND NOT (Perm PermIpcLockChangeMask))\<rparr>
         else p')"

definition share_page :: "PageProps \<Rightarrow> PageProps" where
  "share_page p = p\<lparr>p_device_use_count := p_device_use_count p + 1,
                    p_attr := p_attr p OR Attr AttrDeviceShared\<rparr>"

lemma HasProperties_props: "HasProperties b s perm attr = has_props s perm attr (props b)"
  by (simp add: HasProperties_def has_props_def CountedAttr_def props_def Let_def)

lemma set_props_same:
  assumes "uncounted_attr attr" and "has_props s perm attr p"
  shows "set_props s perm attr p = p"
proof -
  have d: "attr AND CountedAttr = 0"
    using assms(1) by (simp add: uncounted_attr_def CountedAttr_def)
  have "attr OR (p_attr p AND CountedAttr) = p_attr p"
  proof (rule bit_word_eqI)
    fix n assume "n < LENGTH(8)"
    have "bit (p_attr p OR CountedAttr) n = bit (attr OR CountedAttr) n"
      "bit (attr AND CountedAttr) n = bit (0 :: u8) n"
      using assms(2) d by (simp_all add: has_props_def)
    then show "bit (attr OR (p_attr p AND CountedAttr)) n = bit (p_attr p) n"
      by (auto simp: bit_simps)
  qed
  then show ?thesis using assms(2) by (simp add: set_props_def has_props_def)
qed

lemma set_attr_same: "p_attr p AND msk = attr \<Longrightarrow> set_attr msk attr p = p"
proof -
  assume a: "p_attr p AND msk = attr"
  have "(p_attr p AND NOT msk) OR (p_attr p AND msk) = p_attr p"
    by (rule bit_word_eqI) (auto simp: bit_simps)
  then show ?thesis using a by (simp add: set_attr_def)
qed

lemmas block_geometry_defs = block_start_def block_pages_def

lemma KMemoryBlock_Update_geometry:
  "block_start (KMemoryBlock_Update b s p a d x y) = block_start b"
  "block_pages (KMemoryBlock_Update b s p a d x y) = block_pages b"
  "props (KMemoryBlock_Update b s p a d x y) = set_props s p a (props b)"
  by (simp_all add: KMemoryBlock_Update_def block_geometry_defs Let_def props_def set_props_def
      CountedAttr_def)

lemma KMemoryBlock_UpdateAttribute_geometry:
  "block_start (KMemoryBlock_UpdateAttribute b msk attr) = block_start b"
  "block_pages (KMemoryBlock_UpdateAttribute b msk attr) = block_pages b"
  "props (KMemoryBlock_UpdateAttribute b msk attr) = set_attr msk attr (props b)"
  by (simp_all add: KMemoryBlock_UpdateAttribute_def block_geometry_defs props_def set_attr_def)

lemma LockForIpc_geometry:
  "block_start (LockForIpc b p l r) = block_start b" "block_pages (LockForIpc b p l r) = block_pages b"
  "props (LockForIpc b p l r) = lock_page p (props b)"
  by (simp_all add: LockForIpc_def block_geometry_defs Let_def props_def lock_page_def)

lemma ShareToDevice_geometry:
  "block_start (ShareToDevice b p l r) = block_start b"
  "block_pages (ShareToDevice b p l r) = block_pages b"
  "props (ShareToDevice b p l r) = share_page (props b)"
  by (simp_all add: ShareToDevice_defs block_geometry_defs Let_def props_def share_page_def)

lemma split_closed_const: "split_closed (\<lambda>b. P)"
  by (simp add: split_closed_def)

interpretation upd: block_update "\<lambda>b. HasProperties b s perm attr"
  "\<lambda>b. KMemoryBlock_Update b s perm attr (m_address b = address) set_d clear_d"
  "set_props s perm attr" "\<lambda>b. uncounted_attr attr \<and> uncounted_dm set_d \<and> uncounted_dm clear_d"
  for s perm attr address set_d clear_d
  by unfold_locales
    (auto simp: KMemoryBlock_Update_geometry HasProperties_props set_props_same
      block_inv_KMemoryBlock_Update split_closed_const)

interpretation upd_if: block_update
  "\<lambda>b. \<not> (HasProperties b test_state test_perm test_attr \<and> \<not> HasProperties b s perm attr)"
  "\<lambda>b. KMemoryBlock_Update b s perm attr False set_d clear_d"
  "set_props_if test_state test_perm test_attr s perm attr"
  "\<lambda>b. uncounted_attr attr \<and> uncounted_dm set_d \<and> uncounted_dm clear_d"
  for test_state test_perm test_attr s perm attr set_d clear_d
  by unfold_locales
    (auto simp: KMemoryBlock_Update_geometry HasProperties_props set_props_same set_props_if_def
      block_inv_KMemoryBlock_Update split_closed_const)

interpretation upd_attr: block_update "\<lambda>b. m_attribute b AND msk = attr"
  "\<lambda>b. KMemoryBlock_UpdateAttribute b msk attr" "set_attr msk attr"
  "\<lambda>b. uncounted_attr msk \<and> uncounted_attr attr"
  for msk attr
proof unfold_locales
  fix b c show "props b = props c \<Longrightarrow> (m_attribute b AND msk = attr) = (m_attribute c AND msk = attr)"
    by (simp add: props_def)
  show "m_attribute b AND msk = attr \<Longrightarrow> set_attr msk attr (props b) = props b"
    by (rule set_attr_same) (simp add: props_def)
qed (auto simp: KMemoryBlock_UpdateAttribute_geometry split_closed_const
      intro: block_inv_KMemoryBlock_UpdateAttribute)

text \<open>A block can be locked, resp. shared, wherever it lies in the range.\<close>

definition lockable :: "u8 \<Rightarrow> KMemoryBlock \<Rightarrow> bool" where
  "lockable perm b \<longleftrightarrow> m_permission b \<noteq> Perm PermNone \<and> LockForIpc_asserts b perm True"

definition shareable :: "KMemoryBlock \<Rightarrow> bool" where
  "shareable b \<longleftrightarrow> ShareToDevice_asserts b True True"

lemma lockable_split: "split_closed (lockable perm)"
  by (simp add: split_closed_def lockable_def LockForIpc_asserts_def Split_def Let_def)

lemma shareable_split: "split_closed shareable"
  by (simp add: split_closed_def shareable_def ShareToDevice_asserts_def Split_def Let_def)

lemma lockable_asserts: "lockable perm b \<Longrightarrow> LockForIpc_asserts b perm l"
  by (simp add: lockable_def LockForIpc_asserts_def)

lemma shareable_asserts: "shareable b \<Longrightarrow> ShareToDevice_asserts b l r"
  by (simp add: shareable_def ShareToDevice_asserts_def)

interpretation upd_lock: block_update "\<lambda>b. False"
  "\<lambda>b. LockForIpc b perm (i_address (GetMemoryInfo b) = address)
         (KMemoryInfo_GetEndAddress (GetMemoryInfo b) = end_address)"
  "lock_page perm" "lockable perm"
  for perm address end_address
  by unfold_locales
    (auto simp: LockForIpc_geometry lockable_split
      intro!: block_inv_LockForIpc lockable_asserts, simp add: lockable_def)

interpretation upd_share: block_update "\<lambda>b. False"
  "\<lambda>b. ShareToDevice b perm (i_address (GetMemoryInfo b) = address)
         (KMemoryInfo_GetEndAddress (GetMemoryInfo b) = end_address)"
  share_page shareable
  for perm address end_address
  by unfold_locales
    (auto simp: ShareToDevice_geometry shareable_split
      intro!: block_inv_ShareToDevice shareable_asserts)

lemma Update_post:
  assumes "manager_wf m" and "alloc_ok al" and "2 \<le> avail al" and "range_ok m address num_pages"
    and "border_ok (\<lambda>b. HasProperties b s perm attr) m address num_pages"
    and "uncounted_attr attr" and "uncounted_dm set_d" and "uncounted_dm clear_d"
  shows "update_post (set_props s perm attr) m al address num_pages
    (Update m al address num_pages s perm attr set_d clear_d)"
  unfolding Update_def by (rule upd.update_with_spec) (use assms in auto)

lemma UpdateIfMatch_post:
  assumes "manager_wf m" and "alloc_ok al" and "2 \<le> avail al" and "range_ok m address num_pages"
    and "border_ok (\<lambda>b. \<not> (HasProperties b test_state test_perm test_attr \<and>
           \<not> HasProperties b s perm attr)) m address num_pages"
    and "uncounted_attr attr" and "uncounted_dm set_d" and "uncounted_dm clear_d"
  shows "update_post (set_props_if test_state test_perm test_attr s perm attr) m al address num_pages
    (UpdateIfMatch m al address num_pages test_state test_perm test_attr s perm attr set_d clear_d)"
  unfolding UpdateIfMatch_def by (rule upd_if.update_with_spec) (use assms in auto)

lemma UpdateAttribute_post:
  assumes "manager_wf m" and "alloc_ok al" and "2 \<le> avail al" and "range_ok m address num_pages"
    and "border_ok (\<lambda>b. m_attribute b AND msk = attr) m address num_pages"
    and "uncounted_attr msk" and "uncounted_attr attr"
  shows "update_post (set_attr msk attr) m al address num_pages
    (UpdateAttribute m al address num_pages msk attr)"
  unfolding UpdateAttribute_def by (rule upd_attr.update_with_spec) (use assms in auto)

lemma UpdateLock_ipc_post:
  assumes "manager_wf m" and "alloc_ok al" and "2 \<le> avail al" and "range_ok m address num_pages"
    and "border_ok (\<lambda>b. False) m address num_pages"
    and "\<And>b. touched m address num_pages b \<Longrightarrow> lockable perm b"
  shows "update_post (lock_page perm) m al address num_pages
    (UpdateLock m al address num_pages LockForIpc perm)"
  unfolding UpdateLock_def Let_def by (rule upd_lock.update_with_spec) (use assms in auto)

lemma UpdateLock_share_post:
  assumes "manager_wf m" and "alloc_ok al" and "2 \<le> avail al" and "range_ok m address num_pages"
    and "border_ok (\<lambda>b. False) m address num_pages"
    and "\<And>b. touched m address num_pages b \<Longrightarrow> shareable b"
  shows "update_post share_page m al address num_pages
    (UpdateLock m al address num_pages ShareToDevice perm)"
  unfolding UpdateLock_def Let_def by (rule upd_share.update_with_spec) (use assms in auto)

section \<open>The debug check\<close>





lemma Finalize_spec:
  "KMemoryBlockManager_Finalize m slab =
     (map (\<lambda>b. (m_address b, GetSize b)) (m_memory_block_tree m), m\<lparr>m_memory_block_tree := []\<rparr>,
      slab + length (m_memory_block_tree m))"
proof -
  have "Finalize_loop bs n = (map (\<lambda>b. (m_address b, GetSize b)) bs, n + length bs)" for bs n
    by (induction bs arbitrary: n) (simp_all add: case_prod_beta)
  then show ?thesis by (simp add: KMemoryBlockManager_Finalize_def)
qed

section \<open>Free areas\<close>

text \<open>
  \<open>x\<close> is the address of an area of \<open>n\<close> pages in the free block \<open>b\<close>, at the offset
  asked for from an aligned address, with \<open>g\<close> guard pages before and after it inside the
  block, not before \<open>rs\<close> and not beyond \<open>rl\<close>.
\<close>

definition fits :: "KMemoryBlock \<Rightarrow> nat \<Rightarrow> nat \<Rightarrow> nat \<Rightarrow> nat \<Rightarrow> nat \<Rightarrow> nat \<Rightarrow> nat \<Rightarrow> bool" where
  "fits b rs rl n algn offset g x \<longleftrightarrow>
     m_memory_state b = KMemoryState StFree \<and> max (block_start b) rs + g * 4096 \<le> x \<and>
     x + n * 4096 + g * 4096 \<le> block_end b \<and> x + n * 4096 + g * 4096 \<le> rl + 1 \<and>
     x mod algn = offset mod algn"

text \<open>The first address from \<open>a\<close> on at the offset from an aligned address.\<close>

definition first_aligned :: "nat \<Rightarrow> nat \<Rightarrow> nat \<Rightarrow> nat" where
  "first_aligned a algn offset =
     (if a \<le> a - a mod algn + offset then a - a mod algn + offset
      else a - a mod algn + offset + algn)"

lemma first_aligned_mod: "first_aligned a algn offset mod algn = offset mod algn"
proof -
  have "(a - a mod algn + offset) mod algn = offset mod algn"
    by (metis minus_mod_eq_mult_div mod_mult_self4 mult.commute)
  then show ?thesis by (simp add: first_aligned_def)
qed

lemma first_aligned_ge: "0 < algn \<Longrightarrow> a \<le> first_aligned a algn offset"
proof -
  assume p: "0 < algn"
  have "a mod algn < algn" using p by simp
  then show ?thesis by (auto simp: first_aligned_def)
qed

lemma first_aligned_least:
  assumes "offset < algn" and "a \<le> x" and "x mod algn = offset mod algn"
  shows "first_aligned a algn offset \<le> x"
proof -
  have x: "x = x div algn * algn + offset" using assms(1,3) by (metis div_mult_mod_eq mod_less)
  have ad: "a - a mod algn = a div algn * algn" by (simp add: minus_mod_eq_div_mult)
  have le: "a div algn * algn \<le> x div algn * algn" using assms(2) by (simp add: div_le_mono)
  show ?thesis
  proof (cases "a \<le> a div algn * algn + offset")
    case True
    then have "first_aligned a algn offset = a div algn * algn + offset"
      by (simp add: first_aligned_def ad)
    then show ?thesis using x le by linarith
  next
    case False
    then have "a div algn < x div algn" using x assms(2) le
      by (metis le_antisym linorder_not_less mult_le_mono1)
    then have "(a div algn + 1) * algn \<le> x div algn * algn" by (intro mult_le_mono1) simp
    moreover have "first_aligned a algn offset = a div algn * algn + offset + algn"
      using False by (simp add: first_aligned_def ad)
    ultimately show ?thesis using x by (simp add: algebra_simps)
  qed
qed

lemma area_nat:
  assumes "0 < unat algn" and "unat a + unat offset + unat algn < 2 ^ 64"
  shows "unat (if a \<le> AlignDown a algn + offset then AlignDown a algn + offset
               else AlignDown a algn + offset + algn) =
    first_aligned (unat a) (unat algn) (unat offset)"
proof -
  have o: "unat (AlignDown a algn + offset) = unat a - unat a mod unat algn + unat offset"
    using assms(2) unat_add_no_ovf [of "AlignDown a algn" offset] by (simp add: unat_AlignDown)
  then have "unat (AlignDown a algn + offset + algn) =
      unat a - unat a mod unat algn + unat offset + unat algn"
    using assms(2) unat_add_no_ovf [of "AlignDown a algn + offset" algn] by simp
  then show ?thesis using o by (simp add: first_aligned_def word_le_unat)
qed

definition room :: "nat \<Rightarrow> u64 \<Rightarrow> u64 \<Rightarrow> u64 \<Rightarrow> u64 \<Rightarrow> bool" where
  "room hi n algn offset g \<longleftrightarrow> 0 < unat n \<and> 0 < unat algn \<and> unat offset < unat algn \<and>
     hi + unat g * 4096 + unat offset + unat algn + unat n * 4096 + unat g * 4096 < 2 ^ 64"

lemma FindFreeArea_step:
  assumes b: "block_end b \<le> hi" "0 < block_pages b" and r: "room hi n algn offset g"
    and rs: "unat rs \<le> hi"
  defines "area \<equiv> area_in_block (GetMemoryInfo b) rs algn offset g"
  defines "x \<equiv> first_aligned (max (block_start b) (unat rs) + unat g * 4096) (unat algn) (unat offset)"
  shows "unat area = x"
    and "(m_address b \<le> area \<and> area < area + n * PageSize + g * PageSize - 1 \<and>
          area + n * PageSize + g * PageSize - 1 \<le> rl \<and>
          area + n * PageSize + g * PageSize - 1 \<le> GetLastAddress b) \<longleftrightarrow>
         x + unat n * 4096 + unat g * 4096 \<le> unat rl + 1 \<and>
         x + unat n * 4096 + unat g * 4096 \<le> block_end b"
proof -
  have algn: "0 < unat algn" and n: "0 < unat n" and room: "hi + unat g * 4096 + unat offset +
      unat algn + unat n * 4096 + unat g * 4096 < 2 ^ 64"
    using r by (simp_all add: room_def)
  have s: "block_start b \<le> hi" using b by (simp add: block_end_def)
  have a0: "unat (if m_address b \<le> rs then rs else m_address b) = max (block_start b) (unat rs)"
    by (simp add: block_start_def max_def word_le_unat)
  then have a1: "unat ((if m_address b \<le> rs then rs else m_address b) + g * PageSize) =
      max (block_start b) (unat rs) + unat g * 4096"
    using s rs room by (subst unat_addr_pages) auto
  then show x: "unat area = x"
    unfolding area_def x_def area_in_block_def Let_def info_simps
    using algn s rs room by (subst area_nat) auto
  have le: "x \<le> hi + unat g * 4096 + unat offset + unat algn"
    unfolding x_def first_aligned_def using s rs by auto
  have ge: "max (block_start b) (unat rs) + unat g * 4096 \<le> x"
    unfolding x_def by (rule first_aligned_ge [OF algn])
  have "unat (area + n * PageSize) = x + unat n * 4096"
    using x le room by (subst unat_addr_pages) auto
  then have "unat (area + n * PageSize + g * PageSize) = x + unat n * 4096 + unat g * 4096"
    using le room by (subst unat_addr_pages) auto
  then have l: "unat (area + n * PageSize + g * PageSize - 1) = x + unat n * 4096 + unat g * 4096 - 1"
    using n by (subst unat_sub_le) auto
  have e: "unat (GetLastAddress b) = block_end b - 1"
    using b room by (intro unat_last_address) auto
  show "(m_address b \<le> area \<and> area < area + n * PageSize + g * PageSize - 1 \<and>
          area + n * PageSize + g * PageSize - 1 \<le> rl \<and>
          area + n * PageSize + g * PageSize - 1 \<le> GetLastAddress b) \<longleftrightarrow>
         x + unat n * 4096 + unat g * 4096 \<le> unat rl + 1 \<and>
         x + unat n * 4096 + unat g * 4096 \<le> block_end b"
    unfolding word_le_unat word_less_unat l x e
    using ge n b(2) by (auto simp: block_start_def block_end_def)
qed

lemma FindFreeArea_loop_spec:
  assumes "tiles lo bs hi" and r: "room hi n algn offset g" and rs: "unat rs \<le> hi" "0 < unat rs"
  shows "\<exists>a. FindFreeArea_loop bs rs rl n algn offset g = Some a \<and>
    (a \<noteq> 0 \<longrightarrow> (\<exists>b \<in> set bs. fits b (unat rs) (unat rl) (unat n) (unat algn) (unat offset) (unat g)
       (unat a))) \<and>
    (a = 0 \<longrightarrow> (\<forall>b \<in> set bs. \<forall>x. \<not> fits b (unat rs) (unat rl) (unat n) (unat algn) (unat offset)
       (unat g) x))"
  using assms(1)
proof (induction bs arbitrary: lo)
  case (Cons b bs)
  have algn: "0 < unat algn" "unat offset < unat algn" "algn \<noteq> 0" and n: "0 < unat n"
    using r by (auto simp: room_def)
  have b: "block_end b \<le> hi" "0 < block_pages b" "tiles (block_end b) bs hi" "block_start b = lo"
    using Cons.prems tiles_le [of "block_end b" bs hi] by auto
  let ?fits = "\<lambda>b x. fits b (unat rs) (unat rl) (unat n) (unat algn) (unat offset) (unat g) x"
  let ?x = "first_aligned (max (block_start b) (unat rs) + unat g * 4096) (unat algn) (unat offset)"
  note s = FindFreeArea_step [OF b(1,2) r rs(1)]
  have ge: "max (block_start b) (unat rs) + unat g * 4096 \<le> ?x"
    by (rule first_aligned_ge [OF algn(1)])
  obtain a where ih: "FindFreeArea_loop bs rs rl n algn offset g = Some a"
    "a \<noteq> 0 \<longrightarrow> (\<exists>b \<in> set bs. ?fits b (unat a))" "a = 0 \<longrightarrow> (\<forall>b \<in> set bs. \<forall>x. \<not> ?fits b x)"
    using Cons.IH [OF b(3)] by blast
  consider (stop) "rl < m_address b" | (used) "\<not> rl < m_address b" "m_memory_state b \<noteq> KMemoryState StFree"
    | (free) "\<not> rl < m_address b" "m_memory_state b = KMemoryState StFree" by blast
  then show ?case
  proof cases
    case stop
    then have rl: "unat rl < lo" using b(4) by (simp add: word_less_unat block_start_def)
    have "\<not> ?fits c x" if "c \<in> set (b # bs)" for c x
      using tiles_mem [OF Cons.prems that] rl n by (auto simp: fits_def)
    then show ?thesis using stop by simp
  next
    case used
    then show ?thesis using ih by (auto simp: fits_def)
  next
    case free
    have nf: "\<not> ?fits b x" if "\<not> (?x + unat n * 4096 + unat g * 4096 \<le> unat rl + 1 \<and>
         ?x + unat n * 4096 + unat g * 4096 \<le> block_end b)" for x
      using that first_aligned_least [OF algn(2)] by (fastforce simp: fits_def)
    have f: "?fits b ?x" if "?x + unat n * 4096 + unat g * 4096 \<le> unat rl + 1"
         "?x + unat n * 4096 + unat g * 4096 \<le> block_end b"
      using that free(2) ge by (simp add: fits_def first_aligned_mod)
    have xp: "0 < ?x" using ge rs(2) by linarith
    let ?a = "area_in_block (GetMemoryInfo b) rs algn offset g"
    have eq: "FindFreeArea_loop (b # bs) rs rl n algn offset g =
        (if m_address b \<le> ?a \<and> ?a < ?a + n * PageSize + g * PageSize - 1 \<and>
            ?a + n * PageSize + g * PageSize - 1 \<le> rl \<and>
            ?a + n * PageSize + g * PageSize - 1 \<le> GetLastAddress b
         then Some ?a else Some a)"
      using free algn(3) ih(1)
      by (simp add: Let_def KMemoryInfo_GetLastAddress_def GetLastAddress_def)
    show ?thesis
    proof (cases "?x + unat n * 4096 + unat g * 4096 \<le> unat rl + 1 \<and>
         ?x + unat n * 4096 + unat g * 4096 \<le> block_end b")
      case True
      have "FindFreeArea_loop (b # bs) rs rl n algn offset g = Some ?a"
        unfolding eq s(2) [of rl] using True by simp
      moreover have "?fits b (unat ?a)" unfolding s(1) using f True by blast
      moreover have "?a \<noteq> 0" using s(1) xp by (metis unat_0 less_irrefl)
      ultimately show ?thesis by (metis list.set_intros(1))
    next
      case False
      have "FindFreeArea_loop (b # bs) rs rl n algn offset g = Some a"
        unfolding eq s(2) [of rl] using False by auto
      then show ?thesis using ih(2,3) nf [OF False] by auto
    qed
  qed
qed simp

lemma pages_of_nth:
  assumes "tiles lo bs hi" and "b \<in> set bs" and "block_start b \<le> lo + i * 4096"
    and "lo + i * 4096 < block_end b"
  shows "i < length (pages_of bs) \<and> pages_of bs ! i = props b"
  using assms
proof (induction bs arbitrary: lo i)
  case (Cons c bs)
  have c: "block_start c = lo" "tiles (block_end c) bs hi" using Cons.prems(1) by auto
  show ?case
  proof (cases "lo + i * 4096 < block_end c")
    case True
    have "b = c"
    proof (rule ccontr)
      assume "b \<noteq> c"
      then have "b \<in> set bs" using Cons.prems(2) by simp
      then show False using tiles_mem [OF c(2)] Cons.prems(3) True by force
    qed
    then show ?thesis using True c by (simp add: block_end_def nth_append)
  next
    case False
    then have ge: "block_end c \<le> lo + i * 4096" by simp
    then have "b \<in> set bs" using Cons.prems(2,4) by auto
    moreover have le: "block_pages c \<le> i" using ge c(1) by (simp add: block_end_def)
    then have "block_end c + (i - block_pages c) * 4096 = lo + i * 4096"
      using c(1) by (simp add: block_end_def algebra_simps)
    ultimately have "i - block_pages c < length (pages_of bs) \<and>
        pages_of bs ! (i - block_pages c) = props b"
      using Cons.IH [OF c(2), of "i - block_pages c"] Cons.prems(3,4) by simp
    then show ?thesis using le by (auto simp: nth_append)
  qed
qed simp

lemma FindFreeArea_spec:
  fixes rnp :: u64
  assumes wf: "manager_wf m" and r: "room (unat (m_end_address m)) np algn offset g"
    and rs: "unat (m_start_address m) \<le> unat rs" "unat rs < unat (m_end_address m)" "rs \<noteq> 0"
  defines "rl \<equiv> rs + rnp * PageSize - 1"
  shows "\<exists>a. FindFreeArea m rs rnp np algn offset g = Some a \<and>
    (a \<noteq> 0 \<longrightarrow> (\<exists>b \<in> set (m_memory_block_tree m).
       fits b (unat rs) (unat rl) (unat np) (unat algn) (unat offset) (unat g) (unat a))) \<and>
    (a = 0 \<longrightarrow> (\<forall>b \<in> set (m_memory_block_tree m). \<forall>x.
       \<not> fits b (unat rs) (unat rl) (unat np) (unat algn) (unat offset) (unat g) x))"
proof -
  let ?bs = "m_memory_block_tree m"
  let ?fits = "\<lambda>b x. fits b (unat rs) (unat rl) (unat np) (unat algn) (unat offset) (unat g) x"
  have t: "tiles (unat (m_start_address m)) ?bs (unat (m_end_address m))"
    using wf by (simp add: manager_wf_def tree_ok_def)
  have hi: "unat (m_end_address m) < 2 ^ 64" using unsigned_less [of "m_end_address m"] by simp
  obtain pre b rest where f: "?bs = pre @ b # rest" "FindIterator ?bs rs = length pre"
    "block_start b \<le> unat rs"
    using FindIterator_tiles [OF t hi rs(1,2)] by auto
  have tr: "tiles (unat (m_start_address m)) pre (block_start b)"
    "tiles (block_start b) (b # rest) (unat (m_end_address m))"
    using t f(1) by (auto simp: tiles_append)
  have nofit: "\<not> ?fits c x" if "c \<in> set pre" for c x
    using tiles_mem [OF tr(1) that] f(3) r by (auto simp: fits_def room_def)
  have np: "np > 0" using r by (auto simp: room_def word_gt_0)
  have "FindFreeArea m rs rnp np algn offset g =
      FindFreeArea_loop (b # rest) rs rl np algn offset g"
    using np f(1,2) by (simp add: FindFreeArea_def rl_def Let_def del: FindFreeArea_loop.simps)
  moreover have rs': "unat rs \<le> unat (m_end_address m)" "0 < unat rs"
    using rs(2,3) by (auto simp: unat_gt_0)
  ultimately show ?thesis
    using FindFreeArea_loop_spec [OF tr(2) r rs', of rl] nofit f(1)
    by (auto simp del: FindFreeArea_loop.simps)
qed

section \<open>Life of a manager\<close>



lemma unat_u64_less: "unat (a :: u64) < 2 ^ 64"
  using unsigned_less [of a] by simp




text \<open>
  A range strictly inside the first block that the loop leaves alone: the merging pass steps back
  from \<open>begin()\<close>.
\<close>

lemma update_with_inside_first:
  assumes wf: "manager_wf m" and b: "m_memory_block_tree m = b # rest" and skip: "skip b"
    and a: "address \<noteq> m_start_address m" "unat (m_start_address m) \<le> unat address"
      "unat address + unat np * 4096 < block_end b"
  shows "update_with skip upd m al address np = None"
proof -
  have t: "tiles (unat (m_start_address m)) (b # rest) (unat (m_end_address m))"
    using wf b by (simp add: manager_wf_def tree_ok_def)
  have e: "block_end b < 2 ^ 64"
    using tiles_mem [OF t, of b] unat_u64_less [of "m_end_address m"] by simp
  have p: "0 < block_pages b" "block_start b \<le> unat address" using t a(2) by auto
  let ?key = "new_KMemoryBlock address 1 (KMemoryState StFree) (Perm PermNone) (Attr AttrNone)"
  have k: "block_start ?key = unat address" by (simp add: block_start_def new_KMemoryBlock_def)
  have "Compare ?key b = 0"
    unfolding Compare_nat [OF e p(1)] k using p(2) a(3) by simp
  then have f: "FindIterator (b # rest) address = 0"
    by (simp only: FindIterator_def Let_def takeWhile.simps if_False simp_thms list.size(3))
  have "unat (address + np * PageSize) < block_end b"
    using a(3) e by (subst unat_addr_pages) auto
  then have lt: "address + np * PageSize < GetEndAddress b"
    using e by (simp add: word_less_unat unat_end_address)
  have "update_loop (Suc (Suc (length rest))) skip upd (b # rest) 0 al address np = Some (b # rest, al)"
    using skip lt by (simp add: Let_def)
  then show ?thesis
    using f a(1) b by (simp add: update_with_def CoalesceForUpdate_def Let_def del: update_loop.simps)
qed

section \<open>Properties\<close>

definition example_manager :: KMemoryBlockManager where
  "example_manager =
     \<lparr>m_memory_block_tree = [new_KMemoryBlock 0x10000 16 (KMemoryState StFree)
        (Perm PermKernelReadWrite) (Attr AttrNone)],
      m_start_address = 0x10000, m_end_address = 0x20000\<rparr>"

definition example_allocator :: UpdateAllocator where
  "example_allocator =
     \<lparr>m_blocks = [Some default_KMemoryBlock, Some default_KMemoryBlock], m_index = 0,
      slab_free = 0\<rparr>"

lemma example_manager_wf: "manager_wf example_manager"
  by (simp add: example_manager_def manager_wf_def tree_ok_def coalesced_def block_start_def
      block_pages_def block_end_def new_KMemoryBlock_def block_inv_def)

lemma example_allocator_ok: "alloc_ok example_allocator" "2 \<le> avail example_allocator"
  by (auto simp: example_allocator_def alloc_ok_def avail_def MaxBlocks_def numeral_2_eq_2 nth_Cons'
      less_Suc_eq)

lemma example_range: "range_ok example_manager 0x12000 3"
  by (simp add: example_manager_def range_ok_def)

lemma example_border:
  assumes "\<not> skip (new_KMemoryBlock 0x10000 16 (KMemoryState StFree) (Perm PermKernelReadWrite)
    (Attr AttrNone))"
  shows "border_ok skip example_manager 0x12000 3"
  using assms by (simp add: example_manager_def border_ok_def)

lemma example_touched:
  "touched example_manager a n b \<Longrightarrow>
    b = new_KMemoryBlock 0x10000 16 (KMemoryState StFree) (Perm PermKernelReadWrite) (Attr AttrNone)"
  by (simp add: touched_def example_manager_def)

lemma update_post_nth:
  assumes "update_post eff m al address np x"
  obtains m' al' where "x = Some (m', al')" "manager_wf m'" "same_region m m'"
    "length (pages_of (m_memory_block_tree m')) = length (pages_of (m_memory_block_tree m))"
    "\<And>i. i < length (pages_of (m_memory_block_tree m)) \<Longrightarrow>
       pages_of (m_memory_block_tree m') ! i =
         (if page_index m address \<le> i \<and> i < page_index m address + unat np
          then eff (pages_of (m_memory_block_tree m) ! i)
          else pages_of (m_memory_block_tree m) ! i)"
    "alloc_ok al'" "owned_blocks m' al' = owned_blocks m al"
  using assms unfolding update_post_def by (auto simp: update_range_nth)

text \<open>
  C3.  \<^verbatim>\<open>Update\<close> implements the pointwise change of the pages of its range: with the two
  blocks of a fresh update allocator it always succeeds, sets state, permission and attribute of
  exactly the pages in the range (keeping the two counted attribute bits), leaves every other page
  and the borders of the address space alone, and leaves a tree that is gapless, sorted and
  maximally merged; no block object is lost or made up.
\<close>

theorem Update_refines_pages:
  assumes "manager_wf m" and "alloc_ok al" and "2 \<le> avail al" and "range_ok m address np"
    and "border_ok (\<lambda>b. HasProperties b s perm attr) m address np"
    and "Update_asserts address attr" and "uncounted_dm set_d" and "uncounted_dm clear_d"
  shows "\<exists>m' al'. Update m al address np s perm attr set_d clear_d = Some (m', al') \<and>
    manager_wf m' \<and> same_region m m' \<and>
    length (pages_of (m_memory_block_tree m')) = length (pages_of (m_memory_block_tree m)) \<and>
    (\<forall>i < length (pages_of (m_memory_block_tree m)).
       pages_of (m_memory_block_tree m') ! i =
         (if page_index m address \<le> i \<and> i < page_index m address + unat np
          then set_props s perm attr (pages_of (m_memory_block_tree m) ! i)
          else pages_of (m_memory_block_tree m) ! i)) \<and>
    alloc_ok al' \<and> owned_blocks m' al' = owned_blocks m al"
proof -
  have "uncounted_attr attr"
    using assms(6) by (simp add: Update_asserts_def uncounted_attr_def)
  from Update_post [OF assms(1-5) this assms(7,8)] show ?thesis
    by (rule update_post_nth) blast
qed

theorem Update_refines_pages_witness:
  "\<exists>m' al'. Update example_manager example_allocator 0x12000 3 (KMemoryState StNormal)
      (Perm PermUserReadWrite) (Attr AttrNone) (Dm DmNormal) (Dm DmNone) = Some (m', al') \<and>
    manager_wf m'"
proof -
  have b: "border_ok (\<lambda>b. HasProperties b (KMemoryState StNormal) (Perm PermUserReadWrite)
      (Attr AttrNone)) example_manager 0x12000 3"
    by (rule example_border) (simp add: HasProperties_def new_KMemoryBlock_def KMemoryState_defs)
  have a: "Update_asserts 0x12000 (Attr AttrNone)"
    by (simp add: Update_asserts_def IsAligned_def PageSize_def)
  have d: "uncounted_dm (Dm DmNormal)" "uncounted_dm (Dm DmNone)"
    by (simp_all add: uncounted_dm_def)
  from Update_refines_pages [OF example_manager_wf example_allocator_ok example_range b a d]
  show ?thesis by blast
qed

text \<open>
  C4.  \<^verbatim>\<open>UpdateIfMatch\<close> changes, in its range, exactly the pages that have the tested
  properties; \<^verbatim>\<open>UpdateAttribute\<close> replaces the masked attribute bits of every page of its
  range.  Both keep what \<^verbatim>\<open>Update\<close> keeps.
\<close>

theorem UpdateIfMatch_UpdateAttribute_refine_pages:
  assumes "manager_wf m" and "alloc_ok al" and "2 \<le> avail al" and "range_ok m address np"
    and "uncounted_attr attr" and "uncounted_attr msk" and "uncounted_dm set_d"
    and "uncounted_dm clear_d"
  shows "(border_ok (\<lambda>b. \<not> (HasProperties b ts tp ta \<and> \<not> HasProperties b s perm attr)) m address np \<longrightarrow>
      update_post (set_props_if ts tp ta s perm attr) m al address np
        (UpdateIfMatch m al address np ts tp ta s perm attr set_d clear_d)) \<and>
    (border_ok (\<lambda>b. m_attribute b AND msk = attr) m address np \<longrightarrow>
      update_post (set_attr msk attr) m al address np (UpdateAttribute m al address np msk attr))"
  using UpdateIfMatch_post [OF assms(1-4) _ assms(5,7,8)]
    UpdateAttribute_post [OF assms(1-4) _ assms(6,5)] by blast

theorem UpdateIfMatch_UpdateAttribute_refine_pages_witness:
  "update_post (set_attr (Attr AttrUncached) (Attr AttrUncached)) example_manager example_allocator
     0x12000 3 (UpdateAttribute example_manager example_allocator 0x12000 3 (Attr AttrUncached)
       (Attr AttrUncached))"
proof -
  have u: "uncounted_attr (Attr AttrUncached)" by (simp add: uncounted_attr_def)
  have d: "uncounted_dm (Dm DmNone)" by (simp add: uncounted_dm_def)
  have "border_ok (\<lambda>b. m_attribute b AND Attr AttrUncached = Attr AttrUncached)
      example_manager 0x12000 3"
    by (rule example_border) (simp add: new_KMemoryBlock_def)
  with UpdateIfMatch_UpdateAttribute_refine_pages
    [OF example_manager_wf example_allocator_ok example_range u u d d]
  show ?thesis by blast
qed

text \<open>
  C5.  \<^verbatim>\<open>UpdateLock\<close> with \<^verbatim>\<open>LockForIpc\<close>, resp. \<^verbatim>\<open>ShareToDevice\<close>, takes one IPC
  lock on, resp. shares once, exactly the pages of its range, when the blocks that the range meets
  satisfy the assertions of the block function.
\<close>

theorem UpdateLock_refines_pages:
  assumes "manager_wf m" and "alloc_ok al" and "2 \<le> avail al" and "range_ok m address np"
    and "border_ok (\<lambda>b. False) m address np"
  shows "((\<forall>b. touched m address np b \<longrightarrow> lockable perm b) \<longrightarrow>
      update_post (lock_page perm) m al address np (UpdateLock m al address np LockForIpc perm)) \<and>
    ((\<forall>b. touched m address np b \<longrightarrow> shareable b) \<longrightarrow>
      update_post share_page m al address np (UpdateLock m al address np ShareToDevice perm))"
  using UpdateLock_ipc_post [OF assms] UpdateLock_share_post [OF assms] by blast

theorem UpdateLock_refines_pages_witness:
  "update_post (lock_page (Perm PermKernelReadWrite)) example_manager example_allocator 0x12000 3
     (UpdateLock example_manager example_allocator 0x12000 3 LockForIpc (Perm PermKernelReadWrite))"
proof -
  have b: "border_ok (\<lambda>b. False) example_manager 0x12000 3"
    by (rule example_border) simp
  have "lockable (Perm PermKernelReadWrite)
      (new_KMemoryBlock 0x10000 16 (KMemoryState StFree) (Perm PermKernelReadWrite) (Attr AttrNone))"
    by (simp add: lockable_def LockForIpc_asserts_def new_KMemoryBlock_def KMemoryPermission_defs)
  with UpdateLock_refines_pages
    [OF example_manager_wf example_allocator_ok example_range b, of "Perm PermKernelReadWrite"]
    example_touched show ?thesis by blast
qed



text \<open>
  C7.  An address that \<^verbatim>\<open>FindFreeArea\<close> returns is inside the region and at the offset asked
  for from an aligned address, and it and the guard pages around it lie on free pages only; when
  it returns none, no free block of the region has room for such an area.
\<close>

theorem FindFreeArea_correct:
  fixes rnp :: u64
  assumes wf: "manager_wf m" and r: "room (unat (m_end_address m)) np algn offset g"
    and rs: "unat (m_start_address m) \<le> unat rs" "unat rs < unat (m_end_address m)" "rs \<noteq> 0"
  shows "\<exists>a. FindFreeArea m rs rnp np algn offset g = Some a \<and>
    (a \<noteq> 0 \<longrightarrow>
       unat rs + unat g * 4096 \<le> unat a \<and>
       unat a + unat np * 4096 + unat g * 4096 \<le> unat (rs + rnp * PageSize - 1) + 1 \<and>
       unat a mod unat algn = unat offset mod unat algn \<and>
       (\<forall>i. unat a \<le> unat (m_start_address m) + i * 4096 + unat g * 4096 \<and>
            unat (m_start_address m) + i * 4096 < unat a + unat np * 4096 + unat g * 4096 \<longrightarrow>
          i < length (pages_of (m_memory_block_tree m)) \<and>
          p_state (pages_of (m_memory_block_tree m) ! i) = KMemoryState StFree)) \<and>
    (a = 0 \<longrightarrow> (\<forall>b \<in> set (m_memory_block_tree m). \<forall>x.
       \<not> fits b (unat rs) (unat (rs + rnp * PageSize - 1)) (unat np) (unat algn) (unat offset)
           (unat g) x))"
proof -
  let ?bs = "m_memory_block_tree m" and ?lo = "unat (m_start_address m)"
  let ?fits = "\<lambda>b x. fits b (unat rs) (unat (rs + rnp * PageSize - 1)) (unat np) (unat algn)
      (unat offset) (unat g) x"
  have t: "tiles ?lo ?bs (unat (m_end_address m))"
    using wf by (simp add: manager_wf_def tree_ok_def)
  obtain a where a: "FindFreeArea m rs rnp np algn offset g = Some a"
    "a \<noteq> 0 \<longrightarrow> (\<exists>b \<in> set ?bs. ?fits b (unat a))" "a = 0 \<longrightarrow> (\<forall>b \<in> set ?bs. \<forall>x. \<not> ?fits b x)"
    using FindFreeArea_spec [OF assms, of rnp] by blast
  have pg: "i < length (pages_of ?bs) \<and> p_state (pages_of ?bs ! i) = KMemoryState StFree"
    if b: "b \<in> set ?bs" "?fits b (unat a)" and i: "unat a \<le> ?lo + i * 4096 + unat g * 4096"
      "?lo + i * 4096 < unat a + unat np * 4096 + unat g * 4096" for b i
    using pages_of_nth [OF t b(1), of i] b(2) i by (auto simp: fits_def props_def)
  show ?thesis
    by (rule exI [of _ a]) (use a pg in \<open>auto simp: fits_def\<close>)
qed

theorem FindFreeArea_correct_witness:
  "\<exists>a. FindFreeArea example_manager 0x10000 16 4 0x1000 0 1 = Some a \<and>
    (a = 0 \<longrightarrow> \<not> fits (hd (m_memory_block_tree example_manager)) 0x10000 0x1FFFF 4 0x1000 0 1 0x11000)"
proof -
  have r: "room (unat (m_end_address example_manager)) 4 0x1000 0 1"
    by (simp add: room_def example_manager_def)
  have s: "unat (m_start_address example_manager) \<le> unat (0x10000 :: u64)"
    "unat (0x10000 :: u64) < unat (m_end_address example_manager)"
    by (simp_all add: example_manager_def)
  have l: "unat (0x10000 + (16 :: u64) * PageSize - 1) = 0x1FFFF" by (simp add: PageSize_def)
  show ?thesis
    using FindFreeArea_correct [OF example_manager_wf r s, of 16] unfolding l
    by (auto simp: example_manager_def)
qed

text \<open>
  C8.  The merging pass steps back from the first block when the range lies strictly inside it
  and nothing had to change: every update then decrements \<^verbatim>\<open>begin()\<close>, which the model shows
  as no result.
\<close>

theorem Update_inside_first_block_undefined:
  assumes "manager_wf m" and "m_memory_block_tree m = b # rest" and "HasProperties b s perm attr"
    and "address \<noteq> m_start_address m" and "unat (m_start_address m) \<le> unat address"
    and "unat address + unat np * 4096 < block_end b"
  shows "Update m al address np s perm attr set_d clear_d = None"
  unfolding Update_def by (rule update_with_inside_first [OF assms(1,2) _ assms(4-6)]) (rule assms(3))

theorem Update_inside_first_block_undefined_witness:
  "Update example_manager example_allocator 0x12000 3 (KMemoryState StFree)
     (Perm PermKernelReadWrite) (Attr AttrNone) 0 0 = None"
  by (rule Update_inside_first_block_undefined [OF example_manager_wf, where rest = "[]" and
        b = "new_KMemoryBlock 0x10000 16 (KMemoryState StFree) (Perm PermKernelReadWrite)
          (Attr AttrNone)"])
    (simp_all add: example_manager_def HasProperties_def new_KMemoryBlock_def block_end_def
      block_start_def block_pages_def)

end
