(* ===== verification/Handle_Table.thy ===== *)
theory Handle_Table
  imports Prelude
begin

text \<open>
  \<^verbatim>\<open>src/src/nxemu-os/core/hle/kernel/k_handle_table.h\<close> and \<^verbatim>\<open>.cpp\<close>: the table
  that gives a process its handles.  The union \<^verbatim>\<open>EntryInfo\<close> is its sixteen bits, read as a
  linear id or as the signed index of the next free entry.  Kernel objects are numbers; the
  references the table holds are counted per object in \<open>opened\<close>, which
  \<^verbatim>\<open>Open\<close> and \<^verbatim>\<open>Close\<close> change.  Indexing an array out of bounds is \<open>None\<close>.  The
  spin lock makes every operation atomic, so each is one function of the table.

  The locale \<open>handle_map\<close> is the contract a client of the table relies on: a lookup is a finite
  map, adding extends it at a handle that was unused and removing deletes the handle.
\<close>

unbundle bit_operations_syntax

section \<open>Handles\<close>

type_synonym Handle = u32
type_synonym KObject = nat

definition handle_index :: "Handle \<Rightarrow> u32" where
  "handle_index h = take_bit 15 h"

definition handle_linear_id :: "Handle \<Rightarrow> u32" where
  "handle_linear_id h = take_bit 15 (drop_bit 15 h)"

definition handle_reserved :: "Handle \<Rightarrow> u32" where
  "handle_reserved h = drop_bit 30 h"

definition EncodeHandle :: "u16 \<Rightarrow> u16 \<Rightarrow> Handle" where
  "EncodeHandle index linear_id =
     take_bit 15 (ucast index) OR push_bit 15 (take_bit 15 (ucast linear_id))"

definition CurrentThread :: Handle where "CurrentThread = 0xFFFF8000"
definition CurrentProcess :: Handle where "CurrentProcess = 0xFFFF8001"

definition IsPseudoHandle :: "Handle \<Rightarrow> bool" where
  "IsPseudoHandle h \<longleftrightarrow> h = CurrentProcess \<or> h = CurrentThread"

definition MaxTableSize :: nat where "MaxTableSize = 1024"
definition MinLinearId :: u16 where "MinLinearId = 1"
definition MaxLinearId :: u16 where "MaxLinearId = 0x7FFF"

section \<open>The table\<close>

record KHandleTable =
  m_entry_infos :: "u16 list"
  m_objects :: "KObject option list"
  m_free_head_index :: int
  m_table_size :: u16
  m_max_count :: u16
  m_next_linear_id :: u16
  m_count :: u16
  opened :: "KObject \<Rightarrow> nat"

datatype HandleResult = Handle_Success | Handle_OutOfMemory | Handle_OutOfHandles

definition new_KHandleTable :: KHandleTable where
  "new_KHandleTable =
     \<lparr>m_entry_infos = replicate MaxTableSize 0, m_objects = replicate MaxTableSize None,
      m_free_head_index = 0, m_table_size = 0, m_max_count = 0, m_next_linear_id = 0,
      m_count = 0, opened = (\<lambda>_. 0)\<rparr>"

definition GetNextFreeIndex :: "u16 \<Rightarrow> int" where
  "GetNextFreeIndex info = sint info"

definition Open :: "KHandleTable \<Rightarrow> KObject \<Rightarrow> KHandleTable" where
  "Open t obj = t\<lparr>opened := (opened t)(obj := opened t obj + 1)\<rparr>"

definition Close :: "KHandleTable \<Rightarrow> KObject \<Rightarrow> KHandleTable" where
  "Close t obj = t\<lparr>opened := (opened t)(obj := opened t obj - 1)\<rparr>"

fun Initialize_loop :: "nat \<Rightarrow> nat \<Rightarrow> KHandleTable \<Rightarrow> KHandleTable" where
  "Initialize_loop 0 i t = t"
| "Initialize_loop (Suc n) i t =
     Initialize_loop n (i + 1)
       (t\<lparr>m_objects := (m_objects t)[i := None],
          m_entry_infos := (m_entry_infos t)[i := word_of_int (int i - 1)],
          m_free_head_index := int i\<rparr>)"

definition KHandleTable_Initialize :: "KHandleTable \<Rightarrow> int \<Rightarrow> HandleResult \<times> KHandleTable" where
  "KHandleTable_Initialize t sz =
     (if \<not> sz \<le> int MaxTableSize then (Handle_OutOfMemory, t)
      else
        let t1 = t\<lparr>m_max_count := 0,
                   m_table_size := word_of_int (if sz \<le> 0 then int MaxTableSize else sz),
                   m_next_linear_id := MinLinearId, m_count := 0, m_free_head_index := -1\<rparr>
        in (Handle_Success, Initialize_loop (unat (m_table_size t1)) 0 t1))"

definition AllocateEntry :: "KHandleTable \<Rightarrow> (int \<times> KHandleTable) option" where
  "AllocateEntry t =
     (let index = m_free_head_index t
      in if 0 \<le> index \<and> index < int MaxTableSize
         then
           let t1 = t\<lparr>m_free_head_index := GetNextFreeIndex (m_entry_infos t ! nat index)\<rparr>;
               t2 = t1\<lparr>m_count := m_count t1 + 1\<rparr>
           in Some (index, t2\<lparr>m_max_count := max (m_max_count t2) (m_count t2)\<rparr>)
         else None)"

definition FreeEntry :: "KHandleTable \<Rightarrow> nat \<Rightarrow> KHandleTable" where
  "FreeEntry t index =
     t\<lparr>m_objects := (m_objects t)[index := None],
       m_entry_infos := (m_entry_infos t)[index := word_of_int (m_free_head_index t)],
       m_free_head_index := int index,
       m_count := m_count t - 1\<rparr>"

definition AllocateLinearId :: "KHandleTable \<Rightarrow> u16 \<times> KHandleTable" where
  "AllocateLinearId t =
     (let id = m_next_linear_id t;
          t1 = t\<lparr>m_next_linear_id := m_next_linear_id t + 1\<rparr>
      in (id, if m_next_linear_id t1 > MaxLinearId
              then t1\<lparr>m_next_linear_id := MinLinearId\<rparr> else t1))"

definition IsValidHandle :: "KHandleTable \<Rightarrow> Handle \<Rightarrow> bool" where
  "IsValidHandle t handle =
     (let index = unat (handle_index handle); linear_id = handle_linear_id handle
      in if handle = 0 then False
         else if linear_id = 0 then False
         else if index \<ge> unat (m_table_size t) then False
         else if m_objects t ! index = None then False
         else if ucast (m_entry_infos t ! index) \<noteq> linear_id then False
         else True)"

definition GetObjectImpl :: "KHandleTable \<Rightarrow> Handle \<Rightarrow> KObject option" where
  "GetObjectImpl t handle =
     (if handle_reserved handle \<noteq> 0 then None
      else if IsValidHandle t handle then m_objects t ! unat (handle_index handle)
      else None)"

definition GetObjectByIndexImpl :: "KHandleTable \<Rightarrow> nat \<Rightarrow> (Handle \<times> KObject) option" where
  "GetObjectByIndexImpl t index =
     (if index \<ge> unat (m_table_size t) then None
      else case m_objects t ! index of
          Some obj \<Rightarrow> Some (EncodeHandle (of_nat index) (m_entry_infos t ! index), obj)
        | None \<Rightarrow> None)"

text \<open>\<open>cast\<close> says which objects \<^verbatim>\<open>DynamicCast\<close> accepts for the type asked for.\<close>

definition GetObjectWithoutPseudoHandle ::
    "(KObject \<Rightarrow> bool) \<Rightarrow> KHandleTable \<Rightarrow> Handle \<Rightarrow> KObject option" where
  "GetObjectWithoutPseudoHandle cast t handle =
     (case GetObjectImpl t handle of
        Some obj \<Rightarrow> if cast obj then Some obj else None
      | None \<Rightarrow> None)"

datatype HandleType = ProcessBase | ThreadBase | OtherType

definition GetObject ::
    "HandleType \<Rightarrow> (KObject \<Rightarrow> bool) \<Rightarrow> KObject \<Rightarrow> KObject \<Rightarrow> KHandleTable \<Rightarrow> Handle \<Rightarrow> KObject option"
  where
  "GetObject ty cast cur_process cur_thread t handle =
     (if ty = ProcessBase \<and> handle = CurrentProcess then Some cur_process
      else if ty = ThreadBase \<and> handle = CurrentThread then Some cur_thread
      else GetObjectWithoutPseudoHandle cast t handle)"

definition GetObjectForIpc :: "KObject \<Rightarrow> KObject \<Rightarrow> KHandleTable \<Rightarrow> Handle \<Rightarrow> KObject option" where
  "GetObjectForIpc owner_process cur_thread t handle =
     (if handle = CurrentProcess then Some owner_process
      else if handle = CurrentThread then Some cur_thread
      else GetObjectImpl t handle)"

definition KHandleTable_Add ::
    "KHandleTable \<Rightarrow> KObject \<Rightarrow> (HandleResult \<times> Handle \<times> KHandleTable) option" where
  "KHandleTable_Add t obj =
     (if \<not> m_count t < m_table_size t then Some (Handle_OutOfHandles, 0, t)
      else
        let (linear_id, t1) = AllocateLinearId t
        in case AllocateEntry t1 of
            None \<Rightarrow> None
          | Some (index, t2) \<Rightarrow>
              let t3 = t2\<lparr>m_entry_infos := (m_entry_infos t2)[nat index := linear_id],
                          m_objects := (m_objects t2)[nat index := Some obj]\<rparr>
              in Some (Handle_Success, EncodeHandle (word_of_int index) linear_id, Open t3 obj))"

definition KHandleTable_Remove :: "KHandleTable \<Rightarrow> Handle \<Rightarrow> bool \<times> KHandleTable" where
  "KHandleTable_Remove t handle =
     (if IsPseudoHandle handle then (False, t)
      else if handle_reserved handle \<noteq> 0 then (False, t)
      else if IsValidHandle t handle
      then
        let index = unat (handle_index handle); obj = the (m_objects t ! index)
        in (True, Close (FreeEntry t index) obj)
      else (False, t))"

text \<open>
  The two calls inside the argument list of \<^verbatim>\<open>Reserve\<close> touch different members, so their
  order does not matter.
\<close>

definition KHandleTable_Reserve ::
    "KHandleTable \<Rightarrow> (HandleResult \<times> Handle \<times> KHandleTable) option" where
  "KHandleTable_Reserve t =
     (if \<not> m_count t < m_table_size t then Some (Handle_OutOfHandles, 0, t)
      else case AllocateEntry t of
          None \<Rightarrow> None
        | Some (index, t1) \<Rightarrow>
            let (linear_id, t2) = AllocateLinearId t1
            in Some (Handle_Success, EncodeHandle (word_of_int index) linear_id, t2))"

definition Unreserve_asserts :: "KHandleTable \<Rightarrow> Handle \<Rightarrow> bool" where
  "Unreserve_asserts t handle \<longleftrightarrow>
     handle_reserved handle = 0 \<and> handle_linear_id handle \<noteq> 0 \<and>
     (unat (handle_index handle) < unat (m_table_size t) \<longrightarrow>
        m_objects t ! unat (handle_index handle) = None)"

definition KHandleTable_Unreserve :: "KHandleTable \<Rightarrow> Handle \<Rightarrow> KHandleTable" where
  "KHandleTable_Unreserve t handle =
     (let index = unat (handle_index handle)
      in if index < unat (m_table_size t) then FreeEntry t index else t)"

definition KHandleTable_Register :: "KHandleTable \<Rightarrow> Handle \<Rightarrow> KObject \<Rightarrow> KHandleTable" where
  "KHandleTable_Register t handle obj =
     (let index = unat (handle_index handle)
      in if index < unat (m_table_size t)
         then Open (t\<lparr>m_entry_infos :=
                        (m_entry_infos t)[index := ucast (handle_linear_id handle)],
                      m_objects := (m_objects t)[index := Some obj]\<rparr>) obj
         else t)"

fun Finalize_objects :: "KObject option list \<Rightarrow> KHandleTable \<Rightarrow> KHandleTable" where
  "Finalize_objects [] t = t"
| "Finalize_objects (Some obj # objs) t = Finalize_objects objs (Close t obj)"
| "Finalize_objects (None # objs) t = Finalize_objects objs t"

definition KHandleTable_Finalize :: "KHandleTable \<Rightarrow> HandleResult \<times> KHandleTable" where
  "KHandleTable_Finalize t =
     (let saved_table_size = unat (m_table_size t); t1 = t\<lparr>m_table_size := 0\<rparr>
      in (Handle_Success, Finalize_objects (take saved_table_size (m_objects t1)) t1))"

text \<open>The objects opened before the first handle that does not resolve, then the two endings.\<close>

fun GetMultiple_open ::
    "(KObject \<Rightarrow> bool) \<Rightarrow> KHandleTable \<Rightarrow> Handle list \<Rightarrow> KObject list \<times> KHandleTable" where
  "GetMultiple_open cast t [] = ([], t)"
| "GetMultiple_open cast t (h # hs) =
     (case GetObjectImpl t h of
        None \<Rightarrow> ([], t)
      | Some obj \<Rightarrow>
          if \<not> cast obj then ([], t)
          else let (out, t') = GetMultiple_open cast (Open t obj) hs in (obj # out, t'))"

definition GetMultipleObjects ::
    "(KObject \<Rightarrow> bool) \<Rightarrow> KHandleTable \<Rightarrow> Handle list \<Rightarrow> bool \<times> KObject list \<times> KHandleTable" where
  "GetMultipleObjects cast t handles =
     (let (out, t') = GetMultiple_open cast t handles
      in if length out = length handles then (True, out, t')
         else (False, out, fold (\<lambda>obj s. Close s obj) out t'))"

section \<open>Packing\<close>

lemma Encode_fields:
  assumes "unat i < 2 ^ 15" and "unat l < 2 ^ 15"
  shows "unat (handle_index (EncodeHandle i l)) = unat i"
    and "handle_linear_id (EncodeHandle i l) = ucast l"
    and "handle_reserved (EncodeHandle i l) = 0"
proof -
  have t: "take_bit 15 (ucast x :: u32) = ucast x" if "unat x < 2 ^ 15" for x :: u16
    using that by (simp add: word_unat_eq_iff unsigned_take_bit_eq unsigned_ucast_eq take_bit_nat_eq_self)
  have "handle_index (EncodeHandle i l) = take_bit 15 (ucast i)"
    by (rule bit_word_eqI) (auto simp: handle_index_def EncodeHandle_def bit_simps)
  then show "unat (handle_index (EncodeHandle i l)) = unat i"
    using t [OF assms(1)] assms(1) by (simp add: unsigned_ucast_eq take_bit_nat_eq_self)
  have "handle_linear_id (EncodeHandle i l) = take_bit 15 (ucast l)"
    by (rule bit_word_eqI) (auto simp: handle_linear_id_def EncodeHandle_def bit_simps)
  then show "handle_linear_id (EncodeHandle i l) = ucast l" using t [OF assms(2)] by simp
  show "handle_reserved (EncodeHandle i l) = 0"
    by (rule bit_word_eqI) (auto simp: handle_reserved_def EncodeHandle_def bit_simps)
qed

lemma handle_eqI:
  assumes "handle_reserved h = 0" and "handle_reserved k = 0"
    and "handle_index h = handle_index k" and "handle_linear_id h = handle_linear_id k"
  shows "h = k"
proof -
  have split: "x = take_bit 15 x OR push_bit 15 (take_bit 15 (drop_bit 15 x)) OR
      push_bit 30 (drop_bit 30 x)" for x :: u32
  proof (rule bit_word_eqI)
    fix n assume "n < LENGTH(32)"
    consider "n < 15" | "15 \<le> n" "n < 30" | "30 \<le> n" by linarith
    then show "bit x n = bit (take_bit 15 x OR push_bit 15 (take_bit 15 (drop_bit 15 x)) OR
        push_bit 30 (drop_bit 30 x)) n"
      using \<open>n < LENGTH(32)\<close> by cases (auto simp: bit_simps)
  qed
  show ?thesis
    using split [of h] split [of k] assms
    by (simp add: handle_reserved_def handle_index_def handle_linear_id_def)
qed

section \<open>The invariant\<close>

text \<open>The free entries, from the head of the list on.\<close>

fun free_chain :: "u16 list \<Rightarrow> int \<Rightarrow> nat list \<Rightarrow> bool" where
  "free_chain infos h [] \<longleftrightarrow> h = -1"
| "free_chain infos h (i # is) \<longleftrightarrow> h = int i \<and> free_chain infos (GetNextFreeIndex (infos ! i)) is"

definition table_inv :: "KHandleTable \<Rightarrow> nat list \<Rightarrow> bool" where
  "table_inv t fl \<longleftrightarrow>
     length (m_entry_infos t) = MaxTableSize \<and> length (m_objects t) = MaxTableSize \<and>
     unat (m_table_size t) \<le> MaxTableSize \<and>
     distinct fl \<and> (\<forall>i \<in> set fl. i < unat (m_table_size t) \<and> m_objects t ! i = None) \<and>
     free_chain (m_entry_infos t) (m_free_head_index t) fl \<and>
     unat (m_count t) + length fl = unat (m_table_size t) \<and>
     1 \<le> unat (m_next_linear_id t) \<and> unat (m_next_linear_id t) \<le> 0x7FFF \<and>
     (\<forall>i < MaxTableSize. m_objects t ! i \<noteq> None \<longrightarrow>
        i < unat (m_table_size t) \<and> 1 \<le> unat (m_entry_infos t ! i) \<and>
        unat (m_entry_infos t ! i) \<le> 0x7FFF)"

definition table_ok :: "KHandleTable \<Rightarrow> bool" where
  "table_ok t \<longleftrightarrow> (\<exists>fl. table_inv t fl)"

text \<open>The references that the entries hold, against those that were opened.\<close>

definition refs_ok :: "KHandleTable \<Rightarrow> bool" where
  "refs_ok t \<longleftrightarrow> (\<forall>obj. opened t obj = count_list (m_objects t) (Some obj))"

lemma free_chain_update:
  "i \<notin> set fl \<Longrightarrow> free_chain (infos[i := x]) h fl = free_chain infos h fl"
  by (induction fl arbitrary: h) auto

lemma count_list_update:
  assumes "i < length xs"
  shows "count_list (xs[i := x]) y + (if xs ! i = y then 1 else 0) =
    count_list xs y + (if x = y then 1 else 0)"
  using assms
proof (induction xs arbitrary: i)
  case (Cons a xs)
  then show ?case
  proof (cases i)
    case (Suc n)
    then show ?thesis using Cons.IH [of n] Cons.prems by (simp split: if_splits)
  qed (simp split: if_splits)
qed simp

lemma GetNextFreeIndex_of_int:
  assumes "-1 \<le> k" and "k < int MaxTableSize"
  shows "GetNextFreeIndex (word_of_int k) = k"
proof -
  have "sint (word_of_int k :: u16) = k"
    using assms by (simp add: signed_of_int signed_take_bit_int_eq_self MaxTableSize_def)
  then show ?thesis by (simp add: GetNextFreeIndex_def)
qed

lemma unat_u16_less: "unat (a :: u16) < 2 ^ 16"
  using unsigned_less [of a] by simp

lemma AllocateEntry_ok:
  assumes inv: "table_inv t fl" and lt: "m_count t < m_table_size t"
  obtains i fl' where "fl = i # fl'" "i < unat (m_table_size t)" "i < MaxTableSize"
    "AllocateEntry t = Some (int i, t\<lparr>m_free_head_index := GetNextFreeIndex (m_entry_infos t ! i),
       m_count := m_count t + 1, m_max_count := max (m_max_count t) (m_count t + 1)\<rparr>)"
    "unat (m_count t + 1) = unat (m_count t) + 1"
proof -
  have "fl \<noteq> []" using inv lt by (auto simp: table_inv_def word_less_unat)
  then obtain i fl' where fl: "fl = i # fl'" by (cases fl) auto
  have i: "i < unat (m_table_size t)" "i < MaxTableSize" "m_free_head_index t = int i"
    using inv fl by (auto simp: table_inv_def)
  have c: "unat (m_count t + 1) = unat (m_count t) + 1"
    using lt unat_u16_less [of "m_table_size t"]
    by (subst unat_add_no_ovf) (auto simp: word_less_unat)
  show ?thesis
    by (rule that [OF fl i(1,2) _ c]) (use i in \<open>simp add: AllocateEntry_def Let_def\<close>)
qed

lemma AllocateLinearId_ok:
  assumes "1 \<le> unat (m_next_linear_id t)" and "unat (m_next_linear_id t) \<le> 0x7FFF"
  obtains n where "AllocateLinearId t = (m_next_linear_id t, t\<lparr>m_next_linear_id := n\<rparr>)"
    "unat n = unat (m_next_linear_id t) mod 0x7FFF + 1"
proof (cases "unat (m_next_linear_id t) = 0x7FFF")
  case True
  then have "m_next_linear_id t = 0x7FFF" by (simp add: word_eq_unat)
  then show ?thesis
    by (intro that [of 1]) (simp_all add: AllocateLinearId_def Let_def MaxLinearId_def MinLinearId_def)
next
  case False
  then have "unat (m_next_linear_id t + 1) = unat (m_next_linear_id t) + 1"
    using assms by (subst unat_add_no_ovf) auto
  then show ?thesis using assms False
    by (intro that [of "m_next_linear_id t + 1"])
      (simp_all add: AllocateLinearId_def Let_def MaxLinearId_def word_less_unat)
qed

lemma table_size_u32: "unat (m_table_size t) \<le> MaxTableSize \<Longrightarrow> i < unat (m_table_size t) \<Longrightarrow>
    unat (word_of_int (int i) :: u16) = i"
  by (simp add: MaxTableSize_def unat_of_nat take_bit_nat_eq_self)

subsection \<open>Lookup\<close>

lemma GetObjectImpl_iff:
  "GetObjectImpl t h = Some obj \<longleftrightarrow>
     handle_reserved h = 0 \<and> h \<noteq> 0 \<and> handle_linear_id h \<noteq> 0 \<and>
     unat (handle_index h) < unat (m_table_size t) \<and>
     m_objects t ! unat (handle_index h) = Some obj \<and>
     ucast (m_entry_infos t ! unat (handle_index h)) = handle_linear_id h"
  by (auto simp: GetObjectImpl_def IsValidHandle_def Let_def split: if_splits)
lemma option_eqI: "(\<And>x. a = Some x \<longleftrightarrow> b = Some x) \<Longrightarrow> a = b"
  by (cases a; cases b) auto

text \<open>Writing the entry of a reserved or removed handle.\<close>

lemma lookup_set:
  assumes "length (m_objects t) = MaxTableSize" and "length (m_entry_infos t) = MaxTableSize"
    and i: "i < unat (m_table_size t)" "i < MaxTableSize" and "m_objects t ! i = None"
    and l: "1 \<le> unat l" "unat l \<le> 0x7FFF"
    and t': "m_objects t' = (m_objects t)[i := Some obj]"
      "m_entry_infos t' = (m_entry_infos t)[i := l]" "m_table_size t' = m_table_size t"
  defines "h \<equiv> EncodeHandle (word_of_int (int i)) l"
  shows "GetObjectImpl t h = None" and "GetObjectImpl t' = (GetObjectImpl t)(h \<mapsto> obj)"
proof -
  have wi: "unat (word_of_int (int i) :: u16) = i"
    using i(2) by (simp add: MaxTableSize_def unat_of_nat take_bit_nat_eq_self)
  have h: "unat (handle_index h) = i" "handle_linear_id h = ucast l" "handle_reserved h = 0"
    using Encode_fields [of "word_of_int (int i)" l] wi i(2) l by (simp_all add: h_def MaxTableSize_def)
  have lz: "(ucast l :: u32) \<noteq> 0" using l by (auto simp: word_eq_unat unsigned_ucast_eq
        take_bit_nat_eq_self)
  have hz: "h \<noteq> 0" using h(2) lz by (auto simp: handle_linear_id_def)
  show "GetObjectImpl t h = None"
    using GetObjectImpl_iff [of t h] h(1) assms(5) by (cases "GetObjectImpl t h") auto
  show "GetObjectImpl t' = (GetObjectImpl t)(h \<mapsto> obj)"
  proof
    fix k
    show "GetObjectImpl t' k = ((GetObjectImpl t)(h \<mapsto> obj)) k"
    proof (cases "k = h")
      case True
      then show ?thesis
        using h lz hz i assms(1,2) t' by (simp add: GetObjectImpl_iff)
    next
      case False
      have "GetObjectImpl t' k = Some x \<longleftrightarrow> GetObjectImpl t k = Some x" for x
      proof (cases "unat (handle_index k) = i")
        case True
        have "\<not> (handle_reserved k = 0 \<and> (ucast l :: u32) = handle_linear_id k)"
          using False handle_eqI [of k h] h True by (auto simp: word_eq_unat)
        then show ?thesis
          using True t' i assms(1,2,5) by (simp add: GetObjectImpl_iff)
      next
        case False
        then show ?thesis using t' by (simp add: GetObjectImpl_iff)
      qed
      then have "GetObjectImpl t' k = GetObjectImpl t k" by (rule option_eqI)
      then show ?thesis using False by simp
    qed
  qed
qed

lemma lookup_inj:
  assumes h: "GetObjectImpl t h = Some x" and k: "GetObjectImpl t k = Some y"
    and i: "unat (handle_index h) = unat (handle_index k)"
  shows "h = k"
proof (rule handle_eqI)
  note hh = h [unfolded GetObjectImpl_iff] and kk = k [unfolded GetObjectImpl_iff]
  show "handle_reserved h = 0" "handle_reserved k = 0" using hh kk by simp_all
  show "handle_index h = handle_index k" using i by (simp add: word_eq_unat)
  show "handle_linear_id h = handle_linear_id k" using hh kk i by simp
qed

lemma lookup_clear:
  assumes "length (m_objects t) = MaxTableSize" and i: "i < MaxTableSize"
    and h: "GetObjectImpl t h \<noteq> None" "unat (handle_index h) = i"
    and t': "m_objects t' = (m_objects t)[i := None]" "m_table_size t' = m_table_size t"
      "\<And>j. j \<noteq> i \<Longrightarrow> m_entry_infos t' ! j = m_entry_infos t ! j"
  shows "GetObjectImpl t' = (GetObjectImpl t)(h := None)"
proof
  fix k
  show "GetObjectImpl t' k = ((GetObjectImpl t)(h := None)) k"
  proof (cases "unat (handle_index k) = i")
    case True
    then have "GetObjectImpl t' k = None"
      using GetObjectImpl_iff [of t' k] t'(1) assms(1) i by (cases "GetObjectImpl t' k") auto
    moreover have "GetObjectImpl t k = None" if "k \<noteq> h"
    proof (rule ccontr)
      assume "GetObjectImpl t k \<noteq> None"
      then obtain x y where "GetObjectImpl t k = Some x" "GetObjectImpl t h = Some y"
        using h(1) by blast
      then show False using lookup_inj True h(2) that by metis
    qed
    ultimately show ?thesis by simp
  next
    case False
    then have "GetObjectImpl t' k = Some x \<longleftrightarrow> GetObjectImpl t k = Some x" for x
      using t' by (simp add: GetObjectImpl_iff)
    then have "GetObjectImpl t' k = GetObjectImpl t k" by (rule option_eqI)
    moreover have "k \<noteq> h" using False h(2) by blast
    ultimately show ?thesis by simp
  qed
qed

subsection \<open>The operations\<close>

definition table_wf :: "KHandleTable \<Rightarrow> bool" where
  "table_wf t \<longleftrightarrow> table_ok t \<and> refs_ok t"

lemma FreeEntry_inv:
  assumes inv: "table_inv t fl" and i: "i < unat (m_table_size t)" "i \<notin> set fl"
  shows "table_inv (FreeEntry t i) (i # fl)"
proof -
  have len: "i < MaxTableSize" using inv i(1) by (auto simp: table_inv_def)
  have "card (set (i # fl)) \<le> card {..< unat (m_table_size t)}"
    using inv i by (intro card_mono) (auto simp: table_inv_def)
  then have "length fl + 1 \<le> unat (m_table_size t)"
    using inv i(2) by (simp add: table_inv_def distinct_card)
  then have c1: "1 \<le> unat (m_count t)" using inv by (simp add: table_inv_def)
  then have c: "unat (m_count t - 1) = unat (m_count t) - 1"
    using unat_sub_le [of 1 "m_count t"] by simp
  have fh: "-1 \<le> m_free_head_index t \<and> m_free_head_index t < int MaxTableSize"
    using inv by (cases fl) (auto simp: table_inv_def MaxTableSize_def)
  show ?thesis
    using inv i len c c1 GetNextFreeIndex_of_int [of "m_free_head_index t"] fh
    by (auto simp: table_inv_def FreeEntry_def free_chain_update nth_list_update)
qed

lemma Add_ok:
  assumes wf: "table_wf t"
  shows "if unat (m_count t) < unat (m_table_size t)
    then \<exists>h t' i. KHandleTable_Add t obj = Some (Handle_Success, h, t') \<and> table_wf t' \<and>
      GetObjectImpl t h = None \<and> GetObjectImpl t' = (GetObjectImpl t)(h \<mapsto> obj) \<and>
      i < MaxTableSize \<and> h = EncodeHandle (word_of_int (int i)) (m_next_linear_id t) \<and>
      unat (m_next_linear_id t') = unat (m_next_linear_id t) mod 0x7FFF + 1
    else KHandleTable_Add t obj = Some (Handle_OutOfHandles, 0, t)"
proof (cases "unat (m_count t) < unat (m_table_size t)")
  case True
  obtain fl where inv: "table_inv t fl" using wf by (auto simp: table_wf_def table_ok_def)
  then have l: "1 \<le> unat (m_next_linear_id t)" "unat (m_next_linear_id t) \<le> 0x7FFF"
    by (simp_all add: table_inv_def)
  obtain n where n: "AllocateLinearId t = (m_next_linear_id t, t\<lparr>m_next_linear_id := n\<rparr>)"
    "unat n = unat (m_next_linear_id t) mod 0x7FFF + 1"
    by (rule AllocateLinearId_ok [OF l])
  let ?t1 = "t\<lparr>m_next_linear_id := n\<rparr>"
  have nb: "1 \<le> unat n" "unat n \<le> 0x7FFF"
    using n(2) mod_less_divisor [of "0x7FFF" "unat (m_next_linear_id t)"] by simp_all
  have inv1: "table_inv ?t1 fl" using inv nb by (simp add: table_inv_def)
  obtain i fl' where a: "fl = i # fl'" "i < unat (m_table_size t)" "i < MaxTableSize"
    "AllocateEntry ?t1 = Some (int i, ?t1\<lparr>m_free_head_index := GetNextFreeIndex (m_entry_infos t ! i),
       m_count := m_count t + 1, m_max_count := max (m_max_count t) (m_count t + 1)\<rparr>)"
    "unat (m_count t + 1) = unat (m_count t) + 1"
    using AllocateEntry_ok [OF inv1] True by (auto simp: word_less_unat)
  let ?h = "EncodeHandle (word_of_int (int i)) (m_next_linear_id t)"
  let ?t' = "Open (?t1\<lparr>m_free_head_index := GetNextFreeIndex (m_entry_infos t ! i),
       m_count := m_count t + 1, m_max_count := max (m_max_count t) (m_count t + 1),
       m_entry_infos := (m_entry_infos t)[i := m_next_linear_id t],
       m_objects := (m_objects t)[i := Some obj]\<rparr>) obj"
  have len: "length (m_objects t) = MaxTableSize" "length (m_entry_infos t) = MaxTableSize"
    and none: "m_objects t ! i = None" and ni: "i \<notin> set fl'"
    using inv a(1) by (simp_all add: table_inv_def)
  have add: "KHandleTable_Add t obj = Some (Handle_Success, ?h, ?t')"
    using True n(1) a(4) by (simp add: KHandleTable_Add_def word_less_unat Let_def)
  have inv': "table_inv ?t' fl'"
    using inv a l nb len none ni
    by (auto simp: table_inv_def Open_def free_chain_update nth_list_update)
  have "count_list ((m_objects t)[i := Some obj]) (Some x) =
      count_list (m_objects t) (Some x) + (if x = obj then 1 else 0)" for x
    using count_list_update [of i "m_objects t" "Some obj" "Some x"] len a(3) none
    by (cases "x = obj") auto
  then have refs: "refs_ok ?t'"
    using wf by (simp add: table_wf_def refs_ok_def Open_def)
  note s = lookup_set [OF len a(2,3) none l, of ?t' obj]
  show ?thesis
    using True add inv' refs s n(2) a(3)
    by (auto simp: table_wf_def table_ok_def Open_def)
next
  case False
  then show ?thesis by (simp add: KHandleTable_Add_def word_less_unat)
qed

lemma Remove_ok:
  assumes wf: "table_wf t"
  shows "\<exists>t'. KHandleTable_Remove t h = (GetObjectImpl t h \<noteq> None, t') \<and> table_wf t' \<and>
    GetObjectImpl t' = (GetObjectImpl t)(h := None) \<and> m_next_linear_id t' = m_next_linear_id t"
proof (cases "GetObjectImpl t h")
  case None
  have "KHandleTable_Remove t h = (False, t)"
  proof (cases "handle_reserved h \<noteq> 0")
    case False
    then have "\<not> IsValidHandle t h"
      using None by (auto simp: GetObjectImpl_def IsValidHandle_def Let_def split: if_splits)
    then show ?thesis by (simp add: KHandleTable_Remove_def)
  qed (simp add: KHandleTable_Remove_def)
  then show ?thesis using None wf by (auto simp: fun_upd_idem)
next
  case (Some obj)
  let ?i = "unat (handle_index h)"
  obtain fl where inv: "table_inv t fl" using wf by (auto simp: table_wf_def table_ok_def)
  have h: "handle_reserved h = 0" "?i < unat (m_table_size t)" "m_objects t ! ?i = Some obj"
    "IsValidHandle t h"
    using Some GetObjectImpl_iff [of t h obj] by (auto simp: IsValidHandle_def Let_def)
  have np: "\<not> IsPseudoHandle h"
    using h(1) by (auto simp: IsPseudoHandle_def CurrentThread_def CurrentProcess_def
        handle_reserved_def)
  have i: "?i \<notin> set fl" "?i < MaxTableSize" using inv h by (auto simp: table_inv_def)
  have len: "length (m_objects t) = MaxTableSize" "length (m_entry_infos t) = MaxTableSize"
    using inv by (simp_all add: table_inv_def)
  let ?t' = "Close (FreeEntry t ?i) obj"
  have r: "KHandleTable_Remove t h = (True, ?t')"
    using np h by (simp add: KHandleTable_Remove_def Let_def)
  have "table_inv ?t' (?i # fl)"
    using FreeEntry_inv [OF inv h(2) i(1)] by (simp add: table_inv_def Close_def)
  moreover have "refs_ok ?t'"
  proof -
    have "count_list ((m_objects t)[?i := None]) (Some x) =
        count_list (m_objects t) (Some x) - (if x = obj then 1 else 0)" for x
      using count_list_update [of ?i "m_objects t" None "Some x"] len i(2) h(3)
      by (cases "x = obj") auto
    then show ?thesis
      using wf by (simp add: table_wf_def refs_ok_def Close_def FreeEntry_def)
  qed
  moreover have "GetObjectImpl ?t' = (GetObjectImpl t)(h := None)"
    by (rule lookup_clear [OF len(1) i(2) _ refl]) (use Some in \<open>simp_all add: Close_def FreeEntry_def\<close>)
  ultimately show ?thesis
    using r Some by (auto simp: table_wf_def table_ok_def Close_def FreeEntry_def)
qed

lemma Initialize_loop_ok:
  assumes "length (m_entry_infos t) = MaxTableSize" and "i + n \<le> MaxTableSize"
    and "m_free_head_index t = int i - 1" and "free_chain (m_entry_infos t) (int i - 1) (rev [0..<i])"
    and "m_objects t = replicate MaxTableSize None"
  shows "\<exists>infos. Initialize_loop n i t =
      t\<lparr>m_entry_infos := infos, m_free_head_index := int (i + n) - 1\<rparr> \<and>
    length infos = MaxTableSize \<and> free_chain infos (int (i + n) - 1) (rev [0..<i + n])"
  using assms
proof (induction n arbitrary: i t)
  case 0
  then show ?case by (intro exI [of _ "m_entry_infos t"]) simp
next
  case (Suc n)
  let ?t = "t\<lparr>m_objects := (m_objects t)[i := None],
      m_entry_infos := (m_entry_infos t)[i := word_of_int (int i - 1)], m_free_head_index := int i\<rparr>"
  have i: "i < MaxTableSize" using Suc.prems(2) by simp
  have g: "GetNextFreeIndex (word_of_int (int i - 1)) = int i - 1"
    by (rule GetNextFreeIndex_of_int) (use i in simp_all)
  have r: "(m_objects t)[i := None] = replicate MaxTableSize None"
    unfolding Suc.prems(5) using i by (intro nth_equalityI) (simp_all add: nth_list_update)
  have "free_chain (m_entry_infos ?t) (int (Suc i) - 1) (rev [0..<Suc i])"
    using Suc.prems(1,4) i g by (simp add: free_chain_update)
  then obtain infos where "Initialize_loop n (Suc i) ?t =
      ?t\<lparr>m_entry_infos := infos, m_free_head_index := int (Suc i + n) - 1\<rparr>"
    "length infos = MaxTableSize" "free_chain infos (int (Suc i + n) - 1) (rev [0..<Suc i + n])"
    using Suc.IH [of ?t "Suc i"] Suc.prems(1,2) r by auto
  then show ?case using r Suc.prems(5) by (intro exI [of _ infos]) simp
qed

lemma Initialize_ok:
  assumes "sz \<le> int MaxTableSize"
  obtains t where "KHandleTable_Initialize new_KHandleTable sz = (Handle_Success, t)" "table_wf t"
    "GetObjectImpl t = Map.empty" "unat (m_table_size t) = (if sz \<le> 0 then MaxTableSize else nat sz)"
    "m_next_linear_id t = 1" "m_count t = 0"
proof -
  let ?n = "if sz \<le> 0 then MaxTableSize else nat sz"
  have sz: "unat (word_of_int (if sz \<le> 0 then int MaxTableSize else sz) :: u16) = ?n"
  proof -
    have "unat (word_of_int (int k) :: u16) = k" if "k \<le> MaxTableSize" for k
      using that by (simp add: MaxTableSize_def unat_of_nat take_bit_nat_eq_self)
    moreover have "(if sz \<le> 0 then int MaxTableSize else sz) = int ?n" by simp
    moreover have "?n \<le> MaxTableSize" using assms by (simp add: nat_le_iff)
    ultimately show ?thesis by metis
  qed
  let ?t1 = "new_KHandleTable\<lparr>m_max_count := 0,
      m_table_size := word_of_int (if sz \<le> 0 then int MaxTableSize else sz),
      m_next_linear_id := MinLinearId, m_count := 0, m_free_head_index := -1\<rparr>"
  have n: "?n \<le> MaxTableSize" using assms by (simp add: nat_le_iff)
  obtain infos where i: "Initialize_loop ?n 0 ?t1 =
      ?t1\<lparr>m_entry_infos := infos, m_free_head_index := int (0 + ?n) - 1\<rparr>"
    "length infos = MaxTableSize" "free_chain infos (int (0 + ?n) - 1) (rev [0..<0 + ?n])"
    using Initialize_loop_ok [of ?t1 0 ?n] n by (auto simp: new_KHandleTable_def)
  let ?t = "?t1\<lparr>m_entry_infos := infos, m_free_head_index := int (0 + ?n) - 1\<rparr>"
  have r: "KHandleTable_Initialize new_KHandleTable sz = (Handle_Success, ?t)"
    using i(1) assms unfolding KHandleTable_Initialize_def Let_def by (simp add: sz)
  have o: "m_objects ?t = replicate MaxTableSize None" by (simp add: new_KHandleTable_def)
  have "table_inv ?t (rev [0..<?n])"
    unfolding table_inv_def using i(2,3) n sz o by (simp add: MinLinearId_def)
  moreover have "refs_ok ?t"
    by (simp add: refs_ok_def new_KHandleTable_def count_list_0_iff)
  moreover have "GetObjectImpl ?t h = None" for h
    using GetObjectImpl_iff [of ?t h] o n sz by (cases "GetObjectImpl ?t h") auto
  ultimately show ?thesis
    using that [OF r] sz by (auto simp: table_wf_def table_ok_def MinLinearId_def)
qed

section \<open>The contract of the table\<close>

datatype 'h table_op = Op_Add KObject | Op_Remove 'h

datatype 'h table_event = Added 'h KObject | Full KObject | Removed 'h bool

text \<open>A client: any sequence of additions and removals, with what they returned.\<close>

fun run_table ::
    "('t \<Rightarrow> KObject \<Rightarrow> (HandleResult \<times> 'h \<times> 't) option) \<Rightarrow> ('t \<Rightarrow> 'h \<Rightarrow> bool \<times> 't) \<Rightarrow>
     't \<Rightarrow> 'h table_op list \<Rightarrow> ('h table_event list \<times> 't) option" where
  "run_table add remove t [] = Some ([], t)"
| "run_table add remove t (Op_Add obj # ops) =
     (case add t obj of
        None \<Rightarrow> None
      | Some (r, h, t') \<Rightarrow>
          (case run_table add remove t' ops of
             None \<Rightarrow> None
           | Some (evs, t'') \<Rightarrow>
               Some ((if r = Handle_Success then Added h obj else Full obj) # evs, t'')))"
| "run_table add remove t (Op_Remove h # ops) =
     (let (b, t') = remove t h
      in case run_table add remove t' ops of
          None \<Rightarrow> None
        | Some (evs, t'') \<Rightarrow> Some (Removed h b # evs, t''))"

text \<open>What the events mean for a finite map from handles to objects, and when they make sense.\<close>

fun map_after :: "('h \<Rightarrow> KObject option) \<Rightarrow> 'h table_event list \<Rightarrow> 'h \<Rightarrow> KObject option" where
  "map_after m [] = m"
| "map_after m (Added h obj # evs) = map_after (m(h \<mapsto> obj)) evs"
| "map_after m (Full obj # evs) = map_after m evs"
| "map_after m (Removed h b # evs) = map_after (m(h := None)) evs"

fun events_ok :: "('h \<Rightarrow> KObject option) \<Rightarrow> 'h table_event list \<Rightarrow> bool" where
  "events_ok m [] \<longleftrightarrow> True"
| "events_ok m (Added h obj # evs) \<longleftrightarrow> m h = None \<and> events_ok (m(h \<mapsto> obj)) evs"
| "events_ok m (Full obj # evs) \<longleftrightarrow> events_ok m evs"
| "events_ok m (Removed h b # evs) \<longleftrightarrow> (b \<longleftrightarrow> m h \<noteq> None) \<and> events_ok (m(h := None)) evs"

locale handle_map =
  fixes ok :: "'t \<Rightarrow> bool" and get :: "'t \<Rightarrow> 'h \<Rightarrow> KObject option"
    and add :: "'t \<Rightarrow> KObject \<Rightarrow> (HandleResult \<times> 'h \<times> 't) option"
    and remove :: "'t \<Rightarrow> 'h \<Rightarrow> bool \<times> 't"
  assumes add_total: "ok t \<Longrightarrow> add t obj \<noteq> None"
    and add_success: "ok t \<Longrightarrow> add t obj = Some (Handle_Success, h, t') \<Longrightarrow>
           ok t' \<and> get t h = None \<and> get t' = (get t)(h \<mapsto> obj)"
    and add_failure: "ok t \<Longrightarrow> add t obj = Some (r, h, t') \<Longrightarrow> r \<noteq> Handle_Success \<Longrightarrow> t' = t"
    and remove_spec: "ok t \<Longrightarrow> remove t h = (b, t') \<Longrightarrow>
           ok t' \<and> b = (get t h \<noteq> None) \<and> get t' = (get t)(h := None)"
begin

lemma run_table_refines:
  assumes "ok t"
  shows "\<exists>evs t'. run_table add remove t ops = Some (evs, t') \<and> ok t' \<and>
    length evs = length ops \<and> events_ok (get t) evs \<and> get t' = map_after (get t) evs"
  using assms
proof (induction ops arbitrary: t)
  case (Cons op ops)
  show ?case
  proof (cases op)
    case (Op_Add obj)
    obtain r h t1 where a: "add t obj = Some (r, h, t1)"
      using add_total [OF Cons.prems, of obj] by (cases "add t obj") auto
    show ?thesis
    proof (cases "r = Handle_Success")
      case True
      with a have s: "ok t1" "get t h = None" "get t1 = (get t)(h \<mapsto> obj)"
        using add_success [OF Cons.prems] by blast+
      then show ?thesis using Cons.IH [OF s(1)] a True Op_Add by (auto simp: fun_upd_def)
    next
      case False
      with a have "t1 = t" using add_failure [OF Cons.prems] by blast
      then show ?thesis using Cons.IH [OF Cons.prems] a False Op_Add by auto
    qed
  next
    case (Op_Remove h)
    obtain b t1 where r: "remove t h = (b, t1)" by force
    then have s: "ok t1" "b = (get t h \<noteq> None)" "get t1 = (get t)(h := None)"
      using remove_spec [OF Cons.prems] by blast+
    then show ?thesis using Cons.IH [OF s(1)] r Op_Remove by (auto simp: fun_upd_def)
  qed
qed simp

end

interpretation handles: handle_map table_wf GetObjectImpl KHandleTable_Add KHandleTable_Remove
proof unfold_locales
  fix t obj h t' r
  assume wf: "table_wf t"
  note a = Add_ok [OF wf, of obj]
  show "KHandleTable_Add t obj \<noteq> None" using a by (auto split: if_splits)
  show "table_wf t' \<and> GetObjectImpl t h = None \<and> GetObjectImpl t' = (GetObjectImpl t)(h \<mapsto> obj)"
    if "KHandleTable_Add t obj = Some (Handle_Success, h, t')"
    using a that by (auto split: if_splits)
  show "t' = t" if "KHandleTable_Add t obj = Some (r, h, t')" "r \<noteq> Handle_Success"
    using a that by (auto split: if_splits)
next
  fix t h b t'
  assume "table_wf t" "KHandleTable_Remove t h = (b, t')"
  then show "table_wf t' \<and> b = (GetObjectImpl t h \<noteq> None) \<and>
      GetObjectImpl t' = (GetObjectImpl t)(h := None)"
    using Remove_ok [of t h] by auto
qed

section \<open>Linear ids\<close>

fun added_handles :: "'h table_event list \<Rightarrow> 'h list" where
  "added_handles [] = []"
| "added_handles (Added h obj # evs) = h # added_handles evs"
| "added_handles (Full obj # evs) = added_handles evs"
| "added_handles (Removed h b # evs) = added_handles evs"

lemma added_handles_append: "added_handles (xs @ ys) = added_handles xs @ added_handles ys"
  by (induction xs rule: added_handles.induct) auto

lemma added_linear_ids:
  assumes "table_wf t" and "run_table KHandleTable_Add KHandleTable_Remove t ops = Some (evs, t')"
  shows "map (\<lambda>h. unat (handle_linear_id h)) (added_handles evs) =
    map (\<lambda>j. (unat (m_next_linear_id t) - 1 + j) mod 0x7FFF + 1) [0..<length (added_handles evs)]"
  using assms
proof (induction ops arbitrary: t evs)
  case (Cons op ops)
  let ?n = "unat (m_next_linear_id t)"
  have n: "1 \<le> ?n" "?n \<le> 0x7FFF"
    using Cons.prems(1) by (auto simp: table_wf_def table_ok_def table_inv_def)
  show ?case
  proof (cases op)
    case (Op_Add obj)
    note a = Add_ok [OF Cons.prems(1), of obj]
    show ?thesis
    proof (cases "unat (m_count t) < unat (m_table_size t)")
      case True
      then obtain h t1 i where s: "KHandleTable_Add t obj = Some (Handle_Success, h, t1)" "table_wf t1"
        "i < MaxTableSize" "h = EncodeHandle (word_of_int (int i)) (m_next_linear_id t)"
        "unat (m_next_linear_id t1) = ?n mod 0x7FFF + 1"
        using a by auto
      have "unat (word_of_int (int i) :: u16) < 2 ^ 15"
        using s(3) by (simp add: MaxTableSize_def unat_of_nat take_bit_nat_eq_self)
      then have l: "unat (handle_linear_id h) = ?n"
        using Encode_fields(2) [of "word_of_int (int i)" "m_next_linear_id t"] n s(4)
        by (simp add: unsigned_ucast_eq take_bit_nat_eq_self)
      obtain evs1 where e: "run_table KHandleTable_Add KHandleTable_Remove t1 ops = Some (evs1, t')"
        "evs = Added h obj # evs1"
        using Cons.prems(2) Op_Add s(1) by (auto split: option.splits)
      have shift: "(unat (m_next_linear_id t1) - 1 + j) mod 0x7FFF = (?n - 1 + Suc j) mod 0x7FFF" for j
      proof -
        have "(?n mod 0x7FFF + j) mod 0x7FFF = (?n + j) mod 0x7FFF" by (simp add: mod_add_left_eq)
        then show ?thesis using s(5) n(1) by simp
      qed
      have "?n = (?n - 1 + 0) mod 0x7FFF + 1" using n by simp
      then show ?thesis
        using Cons.IH [OF s(2) e(1)] e(2) l shift
        by (simp add: upt_conv_Cons map_Suc_upt [symmetric] del: upt_Suc)
    next
      case False
      then have "KHandleTable_Add t obj = Some (Handle_OutOfHandles, 0, t)" using a by simp
      then show ?thesis
        using Cons.prems Cons.IH [OF Cons.prems(1)] Op_Add by (auto split: option.splits)
    qed
  next
    case (Op_Remove h)
    obtain t1 where r: "KHandleTable_Remove t h = (GetObjectImpl t h \<noteq> None, t1)" "table_wf t1"
      "m_next_linear_id t1 = m_next_linear_id t"
      using Remove_ok [OF Cons.prems(1), of h] by auto
    then show ?thesis
      using Cons.prems(2) Cons.IH [OF r(2)] Op_Remove by (auto split: option.splits)
  qed
qed simp

lemma added_handles_distinct:
  assumes "table_wf t" and "run_table KHandleTable_Add KHandleTable_Remove t ops = Some (evs, t')"
    and "length (added_handles evs) \<le> 0x7FFF"
  shows "distinct (added_handles evs)"
proof -
  let ?n = "unat (m_next_linear_id t) - 1"
  have "inj_on (\<lambda>j. (?n + j) mod 0x7FFF + 1) (set [0..<length (added_handles evs)])"
  proof (rule inj_onI)
    fix x y :: nat
    assume x: "x \<in> set [0..<length (added_handles evs)]" and y: "y \<in> set [0..<length (added_handles evs)]"
      and e: "(?n + x) mod 0x7FFF + 1 = (?n + y) mod 0x7FFF + 1"
    then have "(x + ?n) mod 0x7FFF = (y + ?n) mod 0x7FFF" by (simp add: add.commute)
    then obtain q1 q2 where "x + ?n + 0x7FFF * q1 = y + ?n + 0x7FFF * q2"
      using nat_mod_eq_iff [of "x + ?n" "0x7FFF" "y + ?n"] by blast
    then have "x + 0x7FFF * q1 = y + 0x7FFF * q2" by simp
    then have "x mod 0x7FFF = y mod 0x7FFF" using nat_mod_eq_iff [of x "0x7FFF" y] by blast
    then show "x = y" using x y assms(3) by simp
  qed
  then have "distinct (map (\<lambda>h. unat (handle_linear_id h)) (added_handles evs))"
    unfolding added_linear_ids [OF assms(1,2)] by (simp add: distinct_map)
  then show ?thesis by (simp add: distinct_map)
qed

lemma map_after_dead:
  "m h = None \<Longrightarrow> h \<notin> set (added_handles evs) \<Longrightarrow> map_after m evs h = None"
  by (induction m evs rule: map_after.induct) auto

lemma map_after_append: "map_after m (xs @ ys) = map_after (map_after m xs) ys"
  by (induction m xs rule: map_after.induct) (auto simp: fun_upd_def)

section \<open>Reserved handles\<close>

lemma lookup_cong:
  assumes "m_table_size t' = m_table_size t" and "m_objects t' = m_objects t"
    and "\<And>i. m_objects t ! i \<noteq> None \<Longrightarrow> m_entry_infos t' ! i = m_entry_infos t ! i"
  shows "GetObjectImpl t' = GetObjectImpl t"
proof
  fix k
  have "GetObjectImpl t' k = Some x \<longleftrightarrow> GetObjectImpl t k = Some x" for x
    unfolding GetObjectImpl_iff using assms by auto
  then show "GetObjectImpl t' k = GetObjectImpl t k" by (rule option_eqI)
qed

lemma Reserve_ok:
  assumes wf: "table_wf t" and lt: "m_count t < m_table_size t"
  obtains h t1 i where "KHandleTable_Reserve t = Some (Handle_Success, h, t1)" "table_wf t1"
    "GetObjectImpl t1 = GetObjectImpl t" "GetObjectImpl t h = None"
    "handle_reserved h = 0" "unat (handle_index h) = i" "i < unat (m_table_size t1)"
    "m_objects t1 ! i = None" "ucast (ucast (handle_linear_id h) :: u16) = handle_linear_id h"
    "handle_linear_id h \<noteq> 0"
    "KHandleTable_Add t obj = Some (Handle_Success, h, KHandleTable_Register t1 h obj)"
    "table_wf (KHandleTable_Unreserve t1 h)"
    "GetObjectImpl (KHandleTable_Unreserve t1 h) = GetObjectImpl t"
    "m_count (KHandleTable_Unreserve t1 h) = m_count t"
proof -
  obtain fl where inv: "table_inv t fl" using wf by (auto simp: table_wf_def table_ok_def)
  then have l: "1 \<le> unat (m_next_linear_id t)" "unat (m_next_linear_id t) \<le> 0x7FFF"
    and ts: "unat (m_table_size t) \<le> MaxTableSize"
    and len: "length (m_objects t) = MaxTableSize" "length (m_entry_infos t) = MaxTableSize"
    by (simp_all add: table_inv_def)
  obtain i fl' where a: "fl = i # fl'" "i < unat (m_table_size t)" "i < MaxTableSize"
    "AllocateEntry t = Some (int i, t\<lparr>m_free_head_index := GetNextFreeIndex (m_entry_infos t ! i),
       m_count := m_count t + 1, m_max_count := max (m_max_count t) (m_count t + 1)\<rparr>)"
    "unat (m_count t + 1) = unat (m_count t) + 1"
    by (rule AllocateEntry_ok [OF inv lt])
  let ?t0 = "t\<lparr>m_free_head_index := GetNextFreeIndex (m_entry_infos t ! i),
       m_count := m_count t + 1, m_max_count := max (m_max_count t) (m_count t + 1)\<rparr>"
  have l0: "1 \<le> unat (m_next_linear_id ?t0)" "unat (m_next_linear_id ?t0) \<le> 0x7FFF" using l by simp_all
  obtain n where n: "AllocateLinearId ?t0 = (m_next_linear_id ?t0, ?t0\<lparr>m_next_linear_id := n\<rparr>)"
    "unat n = unat (m_next_linear_id ?t0) mod 0x7FFF + 1"
    by (rule AllocateLinearId_ok [OF l0])
  obtain n' where n': "AllocateLinearId t = (m_next_linear_id t, t\<lparr>m_next_linear_id := n'\<rparr>)"
    "unat n' = unat (m_next_linear_id t) mod 0x7FFF + 1"
    by (rule AllocateLinearId_ok [OF l])
  have nn: "n' = n" using n(2) n'(2) by (simp add: word_eq_unat)
  let ?h = "EncodeHandle (word_of_int (int i)) (m_next_linear_id t)"
  let ?t1 = "?t0\<lparr>m_next_linear_id := n\<rparr>"
  have r: "KHandleTable_Reserve t = Some (Handle_Success, ?h, ?t1)"
    using lt a(4) n(1) by (simp add: KHandleTable_Reserve_def)
  have nb: "1 \<le> unat n" "unat n \<le> 0x7FFF"
    using n(2) mod_less_divisor [of "0x7FFF" "unat (m_next_linear_id t)"] by simp_all
  have none: "m_objects t ! i = None" and ni: "i \<notin> set fl'"
    using inv a(1) by (simp_all add: table_inv_def)
  have inv1: "table_inv ?t1 fl'"
    using inv a nb by (auto simp: table_inv_def)
  have wf1: "table_wf ?t1" using inv1 wf by (auto simp: table_wf_def table_ok_def refs_ok_def)
  have g1: "GetObjectImpl ?t1 = GetObjectImpl t" by (rule lookup_cong) simp_all
  have wi: "unat (word_of_int (int i) :: u16) = i"
    using a(3) by (simp add: MaxTableSize_def unat_of_nat take_bit_nat_eq_self)
  have h: "unat (handle_index ?h) = i" "handle_linear_id ?h = ucast (m_next_linear_id t)"
    "handle_reserved ?h = 0"
    using Encode_fields [of "word_of_int (int i)" "m_next_linear_id t"] wi a(3) l
    by (simp_all add: MaxTableSize_def)
  have lz: "(ucast (m_next_linear_id t) :: u32) \<noteq> 0"
    using l by (auto simp: word_eq_unat unsigned_ucast_eq take_bit_nat_eq_self)
  have lu: "ucast (ucast (m_next_linear_id t) :: u32) = m_next_linear_id t"
    by (rule bit_word_eqI) (simp add: bit_simps)
  have gh: "GetObjectImpl t ?h = None"
    using GetObjectImpl_iff [of t ?h] h none by (cases "GetObjectImpl t ?h") auto
  have reg: "KHandleTable_Add t obj = Some (Handle_Success, ?h, KHandleTable_Register ?t1 ?h obj)"
    using lt a(2,4) n'(1) h lu nn
    by (simp add: KHandleTable_Add_def KHandleTable_Register_def AllocateEntry_def Let_def Open_def
        split: if_splits)
  have un: "KHandleTable_Unreserve ?t1 ?h = FreeEntry ?t1 i"
    using h a(2) by (simp add: KHandleTable_Unreserve_def Let_def)
  have inv2: "table_inv (FreeEntry ?t1 i) (i # fl')"
    by (rule FreeEntry_inv [OF inv1]) (use a(2) ni in simp_all)
  have ob: "(m_objects t)[i := None] = m_objects t"
    using none by (metis list_update_id)
  have wf2: "table_wf (KHandleTable_Unreserve ?t1 ?h)"
    using inv2 wf un ob by (auto simp: table_wf_def table_ok_def refs_ok_def FreeEntry_def)
  have g2: "GetObjectImpl (KHandleTable_Unreserve ?t1 ?h) = GetObjectImpl t"
    proof -
    have "m_entry_infos (FreeEntry ?t1 i) ! j = m_entry_infos t ! j" if "m_objects t ! j \<noteq> None" for j
      using that none by (cases "j = i") (simp_all add: FreeEntry_def)
    then show ?thesis unfolding un using ob by (intro lookup_cong) (simp_all add: FreeEntry_def)
  qed
  have c2: "m_count (KHandleTable_Unreserve ?t1 ?h) = m_count t"
    unfolding un by (simp add: FreeEntry_def)
  show ?thesis
    by (rule that [OF r wf1 g1 gh h(3,1) _ _ _ _ reg wf2 g2 c2])
      (use a(2) none h(2) lz lu in simp_all)
qed

section \<open>Multiple lookups and the end of the table\<close>

lemma opened_cong: "(\<And>x. f x = g x) \<Longrightarrow> t\<lparr>opened := f\<rparr> = t\<lparr>opened := g\<rparr>"
  for t :: KHandleTable
  by presburger

lemma length_takeWhile_all: "length (takeWhile P xs) = length xs \<longleftrightarrow> (\<forall>x \<in> set xs. P x)"
  by (induction xs) auto

lemma Open_Close_fold:
  "fold (\<lambda>obj s. Open s obj) out t = t\<lparr>opened := (\<lambda>x. opened t x + count_list out x)\<rparr>"
  "fold (\<lambda>obj s. Close s obj) out t = t\<lparr>opened := (\<lambda>x. opened t x - count_list out x)\<rparr>"
proof -
  show "fold (\<lambda>obj s. Open s obj) out t = t\<lparr>opened := (\<lambda>x. opened t x + count_list out x)\<rparr>"
    by (induction out arbitrary: t) (auto simp: Open_def intro!: opened_cong)
  show "fold (\<lambda>obj s. Close s obj) out t = t\<lparr>opened := (\<lambda>x. opened t x - count_list out x)\<rparr>"
    by (induction out arbitrary: t) (auto simp: Close_def intro!: opened_cong)
qed

lemma GetObjectImpl_Open [simp]: "GetObjectImpl (Open t obj) = GetObjectImpl t"
  by (rule lookup_cong) (simp_all add: Open_def)

lemma GetMultiple_open_spec:
  "GetMultiple_open cast t hs =
     (let out = map (the \<circ> GetObjectImpl t)
        (takeWhile (\<lambda>h. \<exists>x. GetObjectImpl t h = Some x \<and> cast x) hs)
      in (out, fold (\<lambda>obj s. Open s obj) out t))"
proof (induction hs arbitrary: t)
  case (Cons h hs)
  then show ?case by (cases "GetObjectImpl t h") (simp_all add: Let_def)
qed simp

lemma GetMultipleObjects_spec:
  "GetMultipleObjects cast t hs =
     (let found = (\<forall>h \<in> set hs. \<exists>x. GetObjectImpl t h = Some x \<and> cast x);
          out = map (the \<circ> GetObjectImpl t)
            (takeWhile (\<lambda>h. \<exists>x. GetObjectImpl t h = Some x \<and> cast x) hs)
      in (found, out,
          if found then t\<lparr>opened := (\<lambda>x. opened t x + count_list out x)\<rparr> else t))"
  by (auto simp: GetMultipleObjects_def GetMultiple_open_spec Let_def Open_Close_fold
      length_takeWhile_all)

lemma Finalize_objects_spec:
  "Finalize_objects objs t = t\<lparr>opened := (\<lambda>x. opened t x - count_list objs (Some x))\<rparr>"
  by (induction objs t rule: Finalize_objects.induct)
    (auto simp: Close_def intro!: opened_cong)

lemma Finalize_ok:
  assumes "table_wf t"
  shows "KHandleTable_Finalize t = (Handle_Success, t\<lparr>m_table_size := 0, opened := (\<lambda>_. 0)\<rparr>)"
proof -
  let ?n = "unat (m_table_size t)"
  obtain fl where inv: "table_inv t fl" using assms by (auto simp: table_wf_def table_ok_def)
  have "m_objects t ! i = None" if "i < length (m_objects t)" "?n \<le> i" for i
    using inv that by (auto simp: table_inv_def)
  then have "Some x \<notin> set (drop ?n (m_objects t))" for x
    by (auto simp: in_set_conv_nth)
  then have "count_list (drop ?n (m_objects t)) (Some x) = 0" for x
    by (simp add: count_list_0_iff)
  then have "count_list (take ?n (m_objects t)) (Some x) = count_list (m_objects t) (Some x)" for x
    by (metis append_take_drop_id count_list_append add.right_neutral)
  then show ?thesis
    using assms by (simp add: KHandleTable_Finalize_def Let_def Finalize_objects_spec table_wf_def
        refs_ok_def)
qed

section \<open>Properties\<close>

definition example_table :: KHandleTable where
  "example_table = snd (KHandleTable_Initialize new_KHandleTable 4)"

lemma example_table_wf:
  "table_wf example_table" "GetObjectImpl example_table = Map.empty"
  "unat (m_table_size example_table) = 4" "m_count example_table = 0"
proof -
  have "(4 :: int) \<le> int MaxTableSize" by (simp add: MaxTableSize_def)
  then obtain t where "KHandleTable_Initialize new_KHandleTable 4 = (Handle_Success, t)"
    and t: "table_wf t" "GetObjectImpl t = Map.empty"
      "unat (m_table_size t) = (if (4 :: int) \<le> 0 then MaxTableSize else nat 4)" "m_count t = 0"
    by (rule Initialize_ok)
  then have "example_table = t" by (simp only: example_table_def snd_conv)
  with t show "table_wf example_table"
    "GetObjectImpl example_table = Map.empty" "unat (m_table_size example_table) = 4"
    "m_count example_table = 0"
    by simp_all
qed

text \<open>
  C9.  The handle table is a finite map from handles to objects: any sequence of \<^verbatim>\<open>Add\<close> and
  \<^verbatim>\<open>Remove\<close> runs without touching memory outside the arrays, an addition that succeeds
  returns a handle that resolved to nothing before and to the object afterwards, a removal returns
  whether the handle resolved, and no other handle is affected; \<^verbatim>\<open>Add\<close> fails exactly when
  every entry is taken.
\<close>

theorem handle_table_is_a_map:
  assumes "table_wf t"
  shows "(\<exists>evs t'. run_table KHandleTable_Add KHandleTable_Remove t ops = Some (evs, t') \<and>
      table_wf t' \<and> length evs = length ops \<and> events_ok (GetObjectImpl t) evs \<and>
      GetObjectImpl t' = map_after (GetObjectImpl t) evs) \<and>
    ((\<exists>h t'. KHandleTable_Add t obj = Some (Handle_Success, h, t')) \<longleftrightarrow>
     unat (m_count t) < unat (m_table_size t))"
proof
  show "\<exists>evs t'. run_table KHandleTable_Add KHandleTable_Remove t ops = Some (evs, t') \<and>
      table_wf t' \<and> length evs = length ops \<and> events_ok (GetObjectImpl t) evs \<and>
      GetObjectImpl t' = map_after (GetObjectImpl t) evs"
    by (rule handles.run_table_refines [OF assms])
  show "(\<exists>h t'. KHandleTable_Add t obj = Some (Handle_Success, h, t')) \<longleftrightarrow>
     unat (m_count t) < unat (m_table_size t)"
    using Add_ok [OF assms, of obj] by (auto split: if_splits)
qed

theorem handle_table_is_a_map_witness:
  "\<exists>evs t'. run_table KHandleTable_Add KHandleTable_Remove example_table
      [Op_Add 7, Op_Remove 0x8003, Op_Add 8] = Some (evs, t') \<and>
    GetObjectImpl t' = map_after Map.empty evs"
  using handle_table_is_a_map [OF example_table_wf(1), of "[Op_Add 7, Op_Remove 0x8003, Op_Add 8]"]
  unfolding example_table_wf(2) by blast

text \<open>
  C10.  Within 32767 additions no handle is given out twice; in particular a handle that has been
  removed resolves to nothing from then on, whatever else was added in its entry.
\<close>

theorem stale_handles_stay_dead:
  assumes "table_wf t" and "run_table KHandleTable_Add KHandleTable_Remove t ops = Some (evs, t')"
    and "length (added_handles evs) \<le> 0x7FFF"
  shows "distinct (added_handles evs) \<and>
    (\<forall>evs1 h b evs2. evs = evs1 @ Removed h b # evs2 \<and> h \<in> set (added_handles evs1) \<longrightarrow>
       GetObjectImpl t' h = None)"
proof -
  have d: "distinct (added_handles evs)" by (rule added_handles_distinct [OF assms])
  obtain evs' t'' where "run_table KHandleTable_Add KHandleTable_Remove t ops = Some (evs', t'')"
    "GetObjectImpl t'' = map_after (GetObjectImpl t) evs'"
    using handles.run_table_refines [OF assms(1), of ops] by blast
  then have m: "GetObjectImpl t' = map_after (GetObjectImpl t) evs" using assms(2) by simp
  have "GetObjectImpl t' h = None"
    if e: "evs = evs1 @ Removed h b # evs2" "h \<in> set (added_handles evs1)" for evs1 h b evs2
  proof -
    have "h \<notin> set (added_handles evs2)" using d e by (auto simp: added_handles_append)
    then show ?thesis unfolding m e(1) map_after_append by (simp add: map_after_dead)
  qed
  with d show ?thesis by blast
qed

theorem stale_handles_stay_dead_witness:
  "\<exists>evs t'. run_table KHandleTable_Add KHandleTable_Remove example_table [Op_Add 7, Op_Add 8] =
      Some (evs, t') \<and> distinct (added_handles evs)"
proof -
  obtain evs t' where r: "run_table KHandleTable_Add KHandleTable_Remove example_table
      [Op_Add 7, Op_Add 8] = Some (evs, t')" "length evs = 2"
    using handles.run_table_refines [OF example_table_wf(1), of "[Op_Add 7, Op_Add 8]"] by auto
  have "length (added_handles evs) \<le> length evs"
    by (induction evs rule: added_handles.induct) auto
  then have "length (added_handles evs) \<le> 0x7FFF" using r(2) by simp
  from stale_handles_stay_dead [OF example_table_wf(1) r(1) this] r(1) show ?thesis by blast
qed

text \<open>
  C11.  Reserving a handle and registering an object for it is the same as adding the object, in
  every member of the table; a reserved handle resolves to nothing, and giving the reservation back
  restores all lookups and the number of used entries.
\<close>

theorem reserve_register_is_add:
  assumes "table_wf t" and "m_count t < m_table_size t"
  shows "\<exists>h t1. KHandleTable_Reserve t = Some (Handle_Success, h, t1) \<and>
    GetObjectImpl t1 h = None \<and>
    KHandleTable_Add t obj = Some (Handle_Success, h, KHandleTable_Register t1 h obj) \<and>
    Unreserve_asserts t1 h \<and> table_wf (KHandleTable_Unreserve t1 h) \<and>
    GetObjectImpl (KHandleTable_Unreserve t1 h) = GetObjectImpl t \<and>
    m_count (KHandleTable_Unreserve t1 h) = m_count t"
  by (rule Reserve_ok [OF assms, of obj]) (auto simp: Unreserve_asserts_def)

theorem reserve_register_is_add_witness:
  "\<exists>h t1. KHandleTable_Reserve example_table = Some (Handle_Success, h, t1) \<and>
    KHandleTable_Add example_table 7 = Some (Handle_Success, h, KHandleTable_Register t1 h 7)"
proof -
  have "m_count example_table < m_table_size example_table"
    using example_table_wf(3,4) by (simp add: word_less_unat)
  from reserve_register_is_add [OF example_table_wf(1) this, of 7] show ?thesis by blast
qed

text \<open>
  C12.  \<^verbatim>\<open>GetMultipleObjects\<close> is all or nothing: when every handle resolves to an object of
  the type it returns these objects with one more reference each, otherwise it leaves every
  reference count as it was.  \<^verbatim>\<open>Finalize\<close> closes every reference the table still holds.
\<close>

theorem references_balance:
  assumes "table_wf t"
  shows "((\<forall>h \<in> set hs. \<exists>x. GetObjectImpl t h = Some x \<and> cast x) \<longrightarrow>
      GetMultipleObjects cast t hs = (True, map (the \<circ> GetObjectImpl t) hs,
        t\<lparr>opened := (\<lambda>x. opened t x + count_list (map (the \<circ> GetObjectImpl t) hs) x)\<rparr>)) \<and>
    (\<not> (\<forall>h \<in> set hs. \<exists>x. GetObjectImpl t h = Some x \<and> cast x) \<longrightarrow>
      (\<exists>out. GetMultipleObjects cast t hs = (False, out, t))) \<and>
    opened (snd (KHandleTable_Finalize t)) = (\<lambda>_. 0)"
proof -
  have tw: "takeWhile (\<lambda>h. \<exists>x. GetObjectImpl t h = Some x \<and> cast x) hs = hs"
    if "\<forall>h \<in> set hs. \<exists>x. GetObjectImpl t h = Some x \<and> cast x"
    using that by (simp add: takeWhile_eq_all_conv)
  show ?thesis
  proof (intro conjI impI)
    assume a: "\<forall>h \<in> set hs. \<exists>x. GetObjectImpl t h = Some x \<and> cast x"
    show "GetMultipleObjects cast t hs = (True, map (the \<circ> GetObjectImpl t) hs,
        t\<lparr>opened := (\<lambda>x. opened t x + count_list (map (the \<circ> GetObjectImpl t) hs) x)\<rparr>)"
      unfolding GetMultipleObjects_spec Let_def tw [OF a] eqTrueI [OF a] by simp
  next
    assume a: "\<not> (\<forall>h \<in> set hs. \<exists>x. GetObjectImpl t h = Some x \<and> cast x)"
    show "\<exists>out. GetMultipleObjects cast t hs = (False, out, t)"
      unfolding GetMultipleObjects_spec Let_def if_not_P [OF a] using a by blast
  next
    show "opened (snd (KHandleTable_Finalize t)) = (\<lambda>_. 0)"
      by (simp add: Finalize_ok [OF assms])
  qed
qed

theorem references_balance_witness:
  "\<exists>out. GetMultipleObjects (\<lambda>_. True) example_table [0x8003] = (False, out, example_table)"
  using references_balance [OF example_table_wf(1), of "[0x8003]" "\<lambda>_. True"]
  by (simp add: example_table_wf)

end
