(* ===== verification/Resource_Limit.thy ===== *)
theory Resource_Limit
  imports Prelude
begin

text \<open>
  \<^verbatim>\<open>src/src/nxemu-os/core/hle/kernel/k_resource_limit.cpp\<close>: the quota of a process for
  memory, threads, events and sessions.  The \<^verbatim>\<open>s64\<close> values are integers;
  \<^verbatim>\<open>Common::WrappingAdd\<close> wraps at 64 bits, and a lemma shows that the plain additions and
  subtractions of the code stay in range under the invariant.  Every operation holds the light
  lock, so it is one function; only \<^verbatim>\<open>Reserve\<close> gives the lock up, while it waits on the
  condition variable.  One turn of its loop is \<open>Reserve_iteration\<close>, and the threads that wait
  are part of the system \<open>rl_step\<close>, in which other operations happen between two turns.
\<close>

datatype LimitableResource =
    PhysicalMemoryMax | ThreadCountMax | EventCountMax | TransferMemoryCountMax | SessionCountMax

definition wrap64 :: "int \<Rightarrow> int" where
  "wrap64 x = (x + 2 ^ 63) mod 2 ^ 64 - 2 ^ 63"

definition WrappingAdd :: "int \<Rightarrow> int \<Rightarrow> int" where
  "WrappingAdd a b = wrap64 (a + b)"

definition in_s64 :: "int \<Rightarrow> bool" where
  "in_s64 x \<longleftrightarrow> - (2 ^ 63) \<le> x \<and> x < 2 ^ 63"

definition DefaultTimeout :: int where
  "DefaultTimeout = 10000000000"

record KResourceLimit =
  m_limit_values :: "LimitableResource \<Rightarrow> int"
  m_current_values :: "LimitableResource \<Rightarrow> int"
  m_current_hints :: "LimitableResource \<Rightarrow> int"
  m_peak_values :: "LimitableResource \<Rightarrow> int"
  m_waiter_count :: int

datatype LimitResult = Limit_Success | Limit_InvalidState

definition new_KResourceLimit :: KResourceLimit where
  "new_KResourceLimit =
     \<lparr>m_limit_values = (\<lambda>_. 0), m_current_values = (\<lambda>_. 0), m_current_hints = (\<lambda>_. 0),
      m_peak_values = (\<lambda>_. 0), m_waiter_count = 0\<rparr>"

text \<open>The assertions of the four getters on the values they read.\<close>

definition GetValue_asserts :: "KResourceLimit \<Rightarrow> LimitableResource \<Rightarrow> int \<Rightarrow> bool" where
  "GetValue_asserts rl which value \<longleftrightarrow>
     value \<ge> 0 \<and> m_current_values rl which \<le> m_limit_values rl which \<and>
     m_current_hints rl which \<le> m_current_values rl which"

definition GetLimitValue :: "KResourceLimit \<Rightarrow> LimitableResource \<Rightarrow> int" where
  "GetLimitValue rl which = m_limit_values rl which"

definition GetCurrentValue :: "KResourceLimit \<Rightarrow> LimitableResource \<Rightarrow> int" where
  "GetCurrentValue rl which = m_current_values rl which"

definition GetPeakValue :: "KResourceLimit \<Rightarrow> LimitableResource \<Rightarrow> int" where
  "GetPeakValue rl which = m_peak_values rl which"

definition GetFreeValue :: "KResourceLimit \<Rightarrow> LimitableResource \<Rightarrow> int" where
  "GetFreeValue rl which = m_limit_values rl which - m_current_values rl which"

definition SetLimitValue ::
    "KResourceLimit \<Rightarrow> LimitableResource \<Rightarrow> int \<Rightarrow> LimitResult \<times> KResourceLimit" where
  "SetLimitValue rl which value =
     (if \<not> m_current_values rl which \<le> value then (Limit_InvalidState, rl)
      else (Limit_Success,
            rl\<lparr>m_limit_values := (m_limit_values rl)(which := value),
               m_peak_values := (m_peak_values rl)(which := m_current_values rl which)\<rparr>))"

datatype ReserveOutcome = Reserve_True KResourceLimit | Reserve_False | Reserve_Wait

definition Reserve_asserts :: "KResourceLimit \<Rightarrow> LimitableResource \<Rightarrow> int \<Rightarrow> bool" where
  "Reserve_asserts rl which value \<longleftrightarrow>
     value \<ge> 0 \<and> m_current_values rl which \<le> m_limit_values rl which \<and>
     m_current_hints rl which \<le> m_current_values rl which"

text \<open>The check before the loop, and one turn of it at the time \<open>tick\<close>.\<close>

definition Reserve_refused :: "KResourceLimit \<Rightarrow> LimitableResource \<Rightarrow> bool" where
  "Reserve_refused rl which \<longleftrightarrow> m_current_hints rl which \<ge> m_limit_values rl which"

definition Reserve_iteration ::
    "KResourceLimit \<Rightarrow> LimitableResource \<Rightarrow> int \<Rightarrow> int \<Rightarrow> int \<Rightarrow> ReserveOutcome" where
  "Reserve_iteration rl which value timeout tick =
     (if WrappingAdd (m_current_values rl which) value \<le> m_current_values rl which
      then Reserve_False
      else if m_current_values rl which + value \<le> m_limit_values rl which
      then
        let current = m_current_values rl which + value
        in Reserve_True
             (rl\<lparr>m_current_values := (m_current_values rl)(which := current),
                 m_current_hints :=
                   (m_current_hints rl)(which := m_current_hints rl which + value),
                 m_peak_values :=
                   (m_peak_values rl)(which := max (m_peak_values rl which) current)\<rparr>)
      else if m_current_hints rl which + value \<le> m_limit_values rl which \<and>
              (timeout < 0 \<or> tick < timeout)
      then Reserve_Wait
      else Reserve_False)"

definition Reserve ::
    "KResourceLimit \<Rightarrow> LimitableResource \<Rightarrow> int \<Rightarrow> int \<Rightarrow> int \<Rightarrow> ReserveOutcome" where
  "Reserve rl which value timeout tick =
     (if Reserve_refused rl which then Reserve_False
      else Reserve_iteration rl which value timeout tick)"

definition Reserve_default ::
    "KResourceLimit \<Rightarrow> LimitableResource \<Rightarrow> int \<Rightarrow> int \<Rightarrow> ReserveOutcome" where
  "Reserve_default rl which value tick = Reserve rl which value (tick + DefaultTimeout) tick"

definition Release_asserts :: "KResourceLimit \<Rightarrow> LimitableResource \<Rightarrow> int \<Rightarrow> int \<Rightarrow> bool" where
  "Release_asserts rl which value hint \<longleftrightarrow>
     value \<ge> 0 \<and> hint \<ge> 0 \<and> m_current_values rl which \<le> m_limit_values rl which \<and>
     m_current_hints rl which \<le> m_current_values rl which \<and>
     value \<le> m_current_values rl which \<and> hint \<le> m_current_hints rl which"

text \<open>Whether the condition variable is broadcast is the second part of the result.\<close>

definition Release_hint ::
    "KResourceLimit \<Rightarrow> LimitableResource \<Rightarrow> int \<Rightarrow> int \<Rightarrow> KResourceLimit \<times> bool" where
  "Release_hint rl which value hint =
     (rl\<lparr>m_current_values := (m_current_values rl)(which := m_current_values rl which - value),
         m_current_hints := (m_current_hints rl)(which := m_current_hints rl which - hint)\<rparr>,
      m_waiter_count rl \<noteq> 0)"

definition Release :: "KResourceLimit \<Rightarrow> LimitableResource \<Rightarrow> int \<Rightarrow> KResourceLimit \<times> bool" where
  "Release rl which value = Release_hint rl which value value"

definition CreateResourceLimitForProcess :: "int \<Rightarrow> KResourceLimit" where
  "CreateResourceLimitForProcess physical_memory_size =
     (let rl0 = new_KResourceLimit;
          rl1 = snd (SetLimitValue rl0 PhysicalMemoryMax physical_memory_size);
          rl2 = snd (SetLimitValue rl1 ThreadCountMax 800);
          rl3 = snd (SetLimitValue rl2 EventCountMax 900);
          rl4 = snd (SetLimitValue rl3 TransferMemoryCountMax 200)
      in snd (SetLimitValue rl4 SessionCountMax 1133))"

section \<open>Threads that wait\<close>

text \<open>
  A waiting thread is the reservation it retries.  \<open>granted\<close> adds up the reservations that
  succeeded less the releases; it is not part of the code's state.
\<close>

record Waiter =
  w_which :: LimitableResource
  w_value :: int
  w_timeout :: int

record RlSystem =
  rl :: KResourceLimit
  waiters :: "Waiter list"
  granted :: "LimitableResource \<Rightarrow> int"

text \<open>What a turn of the loop does to the system; \<^verbatim>\<open>m_waiter_count\<close> goes up before the wait.\<close>

definition apply_outcome :: "RlSystem \<Rightarrow> Waiter \<Rightarrow> ReserveOutcome \<Rightarrow> RlSystem" where
  "apply_outcome s w out =
     (case out of
        Reserve_True rl' \<Rightarrow>
          s\<lparr>rl := rl', granted := (granted s)(w_which w := granted s (w_which w) + w_value w)\<rparr>
      | Reserve_False \<Rightarrow> s
      | Reserve_Wait \<Rightarrow>
          s\<lparr>rl := (rl s)\<lparr>m_waiter_count := m_waiter_count (rl s) + 1\<rparr>,
            waiters := waiters s @ [w]\<rparr>)"

inductive rl_step :: "RlSystem \<Rightarrow> RlSystem \<Rightarrow> bool" where
  set_limit: "SetLimitValue (rl s) which value = (r, rl') \<Longrightarrow> in_s64 value \<Longrightarrow>
    rl_step s (s\<lparr>rl := rl'\<rparr>)"
| reserve: "0 \<le> w_value w \<Longrightarrow> in_s64 (w_value w) \<Longrightarrow>
    rl_step s (apply_outcome s w
      (Reserve (rl s) (w_which w) (w_value w) (w_timeout w) tick))"
| retry: "waiters s = ws1 @ w # ws2 \<Longrightarrow>
    s1 = s\<lparr>rl := (rl s)\<lparr>m_waiter_count := m_waiter_count (rl s) - 1\<rparr>, waiters := ws1 @ ws2\<rparr> \<Longrightarrow>
    rl_step s (apply_outcome s1 w
      (Reserve_iteration (rl s1) (w_which w) (w_value w) (w_timeout w) tick))"
| release: "Release_asserts (rl s) which value hint \<Longrightarrow>
    m_current_hints (rl s) which - hint \<le> m_current_values (rl s) which - value \<Longrightarrow>
    Release_hint (rl s) which value hint = (rl', b) \<Longrightarrow>
    rl_step s (s\<lparr>rl := rl', granted := (granted s)(which := granted s which - value)\<rparr>)"

section \<open>The invariant\<close>

definition limit_ok :: "KResourceLimit \<Rightarrow> LimitableResource \<Rightarrow> bool" where
  "limit_ok r w \<longleftrightarrow>
     0 \<le> m_current_hints r w \<and> m_current_hints r w \<le> m_current_values r w \<and>
     m_current_values r w \<le> m_peak_values r w \<and> m_peak_values r w \<le> m_limit_values r w \<and>
     m_limit_values r w < 2 ^ 63"

definition rl_inv :: "RlSystem \<Rightarrow> bool" where
  "rl_inv s \<longleftrightarrow>
     (\<forall>w. limit_ok (rl s) w \<and> m_current_values (rl s) w = granted s w) \<and>
     m_waiter_count (rl s) = int (length (waiters s)) \<and>
     (\<forall>w \<in> set (waiters s). 0 \<le> w_value w \<and> in_s64 (w_value w))"

lemma limit_ok_waiters [simp]: "limit_ok (r\<lparr>m_waiter_count := n\<rparr>) w = limit_ok r w"
  by (simp add: limit_ok_def)

lemma rl_invD: "rl_inv s \<Longrightarrow> limit_ok (rl s) x \<and> m_current_values (rl s) x = granted s x"
  by (simp add: rl_inv_def)

lemma WrappingAdd_le:
  assumes "0 \<le> c" and "c < 2 ^ 63" and "0 \<le> v" and "v < 2 ^ 63"
  shows "WrappingAdd c v \<le> c \<longleftrightarrow> v = 0 \<or> 2 ^ 63 \<le> c + v"
proof (cases "c + v < 2 ^ 63")
  case True
  then have "(c + v + 2 ^ 63) mod 2 ^ 64 = c + v + 2 ^ 63"
    using assms by (intro mod_pos_pos_trivial) simp_all
  then show ?thesis using True assms by (auto simp: WrappingAdd_def wrap64_def)
next
  case False
  have "(c + v + 2 ^ 63) mod 2 ^ 64 = (c + v + 2 ^ 63 - 2 ^ 64) mod 2 ^ 64"
    by (rule minus_mod_self2 [symmetric])
  also have "\<dots> = c + v + 2 ^ 63 - 2 ^ 64"
    using False assms by (intro mod_pos_pos_trivial) simp_all
  finally show ?thesis using False assms by (auto simp: WrappingAdd_def wrap64_def)
qed

lemma limit_ok_range:
  assumes "limit_ok r w" and "0 \<le> v" and "in_s64 v"
  shows "WrappingAdd (m_current_values r w) v \<le> m_current_values r w \<longleftrightarrow>
    v = 0 \<or> 2 ^ 63 \<le> m_current_values r w + v"
  using assms by (intro WrappingAdd_le) (auto simp: limit_ok_def in_s64_def)

lemma Reserve_iteration_cases:
  assumes "limit_ok r w" and "0 \<le> v" and "in_s64 v"
  shows "Reserve_iteration r w v timeout tick =
    (if 0 < v \<and> m_current_values r w + v \<le> m_limit_values r w
     then Reserve_True
       (r\<lparr>m_current_values := (m_current_values r)(w := m_current_values r w + v),
          m_current_hints := (m_current_hints r)(w := m_current_hints r w + v),
          m_peak_values := (m_peak_values r)
            (w := max (m_peak_values r w) (m_current_values r w + v))\<rparr>)
     else if 0 < v \<and> m_current_values r w + v < 2 ^ 63 \<and>
             m_current_hints r w + v \<le> m_limit_values r w \<and> (timeout < 0 \<or> tick < timeout)
     then Reserve_Wait else Reserve_False)"
proof -
  have "m_limit_values r w < 2 ^ 63" using assms(1) by (simp add: limit_ok_def)
  then show ?thesis
    unfolding Reserve_iteration_def limit_ok_range [OF assms] Let_def using assms(2) by auto
qed

lemma Reserve_iteration_inv:
  assumes inv: "rl_inv s" and w: "0 \<le> w_value w" "in_s64 (w_value w)"
  shows "rl_inv (apply_outcome s w
    (Reserve_iteration (rl s) (w_which w) (w_value w) (w_timeout w) tick))"
proof -
  let ?out = "Reserve_iteration (rl s) (w_which w) (w_value w) (w_timeout w) tick"
  have all: "limit_ok (rl s) x \<and> m_current_values (rl s) x = granted s x" for x
    using inv by (simp add: rl_inv_def)
  note c = Reserve_iteration_cases [OF conjunct1 [OF all] w]
  show ?thesis
  proof (cases ?out)
    case (Reserve_True r)
    have "limit_ok r x \<and> m_current_values r x =
        ((granted s)(w_which w := granted s (w_which w) + w_value w)) x" for x
      using Reserve_True all [of x] unfolding c by (auto simp: limit_ok_def split: if_splits)
    moreover have "m_waiter_count r = m_waiter_count (rl s)"
      using Reserve_True unfolding c by (auto split: if_splits)
    ultimately show ?thesis
      using inv Reserve_True by (simp add: apply_outcome_def rl_inv_def)
  next
    case Reserve_Wait
    then show ?thesis using inv w by (auto simp: apply_outcome_def rl_inv_def)
  qed (use inv in \<open>simp add: apply_outcome_def\<close>)
qed

lemma rl_step_inv:
  assumes "rl_step s s'" and "rl_inv s"
  shows "rl_inv s'"
  using assms
proof cases
  case (set_limit x val r rl')
  have "limit_ok rl' y \<and> m_current_values rl' y = granted s y" for y
    using set_limit(2,3) rl_invD [OF assms(2), of y]
    by (cases "y = x") (auto simp: limit_ok_def SetLimitValue_def in_s64_def split: if_splits)
  moreover have "m_waiter_count rl' = m_waiter_count (rl s)"
    using set_limit(2) by (auto simp: SetLimitValue_def split: if_splits)
  ultimately show ?thesis using set_limit(1) assms(2) by (simp add: rl_inv_def)
next
  case (reserve w tick)
  have "rl_inv (apply_outcome s w Reserve_False)" using assms(2) by (simp add: apply_outcome_def)
  then show ?thesis
    using reserve Reserve_iteration_inv [OF assms(2)] by (simp add: Reserve_def)
next
  case (retry ws1 w ws2 s1 tick)
  have "rl_inv s1" "0 \<le> w_value w" "in_s64 (w_value w)"
    using retry(2,3) assms(2) by (auto simp: rl_inv_def)
  then show ?thesis using retry(1) Reserve_iteration_inv by simp
next
  case (release x val hint rl' b)
  have "limit_ok rl' y \<and> m_current_values rl' y =
      ((granted s)(x := granted s x - val)) y" for y
    using release(2-4) rl_invD [OF assms(2), of y]
    by (cases "y = x") (auto simp: limit_ok_def Release_asserts_def Release_hint_def)
  moreover have "m_waiter_count rl' = m_waiter_count (rl s)"
    using release(4) by (auto simp: Release_hint_def)
  ultimately show ?thesis using release(1) assms(2) by (simp add: rl_inv_def)
qed

definition initial_system :: "int \<Rightarrow> RlSystem" where
  "initial_system physical_memory_size =
     \<lparr>rl = CreateResourceLimitForProcess physical_memory_size, waiters = [], granted = (\<lambda>_. 0)\<rparr>"

lemma initial_system_inv:
  assumes "0 \<le> mem" and "in_s64 mem"
  shows "rl_inv (initial_system mem)"
proof -
  have "limit_ok (CreateResourceLimitForProcess mem) w \<and>
      m_current_values (CreateResourceLimitForProcess mem) w = 0" for w
    using assms by (cases w) (simp_all add: CreateResourceLimitForProcess_def Let_def
        SetLimitValue_def new_KResourceLimit_def limit_ok_def in_s64_def)
  moreover have "m_waiter_count (CreateResourceLimitForProcess mem) = 0"
    using assms by (simp add: CreateResourceLimitForProcess_def Let_def SetLimitValue_def
        new_KResourceLimit_def)
  ultimately show ?thesis by (simp add: rl_inv_def initial_system_def)
qed

lemma rl_reachable_inv:
  assumes "rl_step\<^sup>*\<^sup>* (initial_system mem) s" and "0 \<le> mem" and "in_s64 mem"
  shows "rl_inv s"
  using assms(1) by (induction rule: rtranclp_induct)
    (auto intro: initial_system_inv [OF assms(2,3)] rl_step_inv)

section \<open>Properties\<close>

text \<open>
  C13.  Whatever reservations, retries, releases and limit changes happen, in any order and with
  any number of waiting threads, a resource is never used beyond its limit, what is in use is what
  was granted less what was released, the waiter count is the number of waiting threads, and no
  assertion of a getter fires.
\<close>

theorem resource_limit_never_exceeded:
  assumes "rl_step\<^sup>*\<^sup>* (initial_system mem) s" and "0 \<le> mem" and "in_s64 mem"
  shows "0 \<le> GetCurrentValue (rl s) w \<and> GetCurrentValue (rl s) w \<le> GetLimitValue (rl s) w \<and>
    GetCurrentValue (rl s) w = granted s w \<and> 0 \<le> GetFreeValue (rl s) w \<and>
    GetCurrentValue (rl s) w \<le> GetPeakValue (rl s) w \<and>
    GetPeakValue (rl s) w \<le> GetLimitValue (rl s) w \<and>
    m_waiter_count (rl s) = int (length (waiters s)) \<and>
    GetValue_asserts (rl s) w (GetPeakValue (rl s) w)"
proof -
  have inv: "rl_inv s" by (rule rl_reachable_inv [OF assms])
  then have "limit_ok (rl s) w" "granted s w = m_current_values (rl s) w"
    "m_waiter_count (rl s) = int (length (waiters s))"
    by (simp_all add: rl_inv_def)
  then show ?thesis
    unfolding GetCurrentValue_def GetLimitValue_def GetFreeValue_def GetPeakValue_def
      GetValue_asserts_def limit_ok_def by linarith
qed

theorem resource_limit_never_exceeded_witness:
  "\<exists>s. rl_step (initial_system 100) s \<and> GetCurrentValue (rl s) PhysicalMemoryMax = 60"
proof -
  let ?w = "\<lparr>w_which = PhysicalMemoryMax, w_value = 60, w_timeout = -1\<rparr>"
  let ?s = "apply_outcome (initial_system 100) ?w
    (Reserve (rl (initial_system 100)) PhysicalMemoryMax 60 (-1) 0)"
  have st: "rl_step (initial_system 100) ?s"
    using rl_step.reserve [of ?w "initial_system 100" 0] by (simp add: in_s64_def)
  have "in_s64 100" by (simp add: in_s64_def)
  then have "GetCurrentValue (rl ?s) PhysicalMemoryMax = granted ?s PhysicalMemoryMax"
    using resource_limit_never_exceeded [OF r_into_rtranclp [of rl_step, OF st], of PhysicalMemoryMax]
    by simp
  also have "\<dots> = 60"
    by (simp add: initial_system_def CreateResourceLimitForProcess_def SetLimitValue_def
        new_KResourceLimit_def Reserve_def Reserve_refused_def Reserve_iteration_def
        WrappingAdd_def wrap64_def Let_def apply_outcome_def)
  finally show ?thesis using st by blast
qed



end
