(* ===== verification/Buffer_Queue_Core.thy ===== *)
theory Buffer_Queue_Core
  imports Prelude
begin

text \<open>
  The state the two ends of a graphics buffer queue share:
  \<^verbatim>\<open>buffer_queue_core.h\<close>, \<^verbatim>\<open>buffer_queue_core.cpp\<close>, \<^verbatim>\<open>buffer_slot.h\<close>, \<^verbatim>\<open>buffer_item.h\<close>,
  \<^verbatim>\<open>status.h\<close>, \<^verbatim>\<open>window.h\<close> and the value types they use.  An \<^verbatim>\<open>s32\<close> that is only compared
  is an integer; a \<^verbatim>\<open>shared_ptr\<close> to a graphic buffer is the buffer together with its address,
  which is what pointer comparisons read.  The members \<^verbatim>\<open>use_async_buffer\<close> and
  \<^verbatim>\<open>max_acquired_buffer_count\<close> are constants of the code.
\<close>

section \<open>Status codes\<close>

type_synonym Status = u32

definition Status_None :: Status where "Status_None = 0"
definition NoError :: Status where "NoError = 0"
definition StaleBufferSlot :: Status where "StaleBufferSlot = 1"
definition NoBufferAvailable :: Status where "NoBufferAvailable = 2"
definition PresentLater :: Status where "PresentLater = 3"
definition WouldBlock :: Status where "WouldBlock = word_of_int (- 11)"
definition NoMemory :: Status where "NoMemory = word_of_int (- 12)"
definition Busy :: Status where "Busy = word_of_int (- 16)"
definition NoInit :: Status where "NoInit = word_of_int (- 19)"
definition BadValue :: Status where "BadValue = word_of_int (- 22)"
definition InvalidOperation :: Status where "InvalidOperation = word_of_int (- 38)"
definition BufferNeedsReallocation :: Status where "BufferNeedsReallocation = 1"
definition ReleaseAllBuffers :: Status where "ReleaseAllBuffers = 2"

lemmas status_defs = Status_None_def NoError_def StaleBufferSlot_def NoBufferAvailable_def
  PresentLater_def WouldBlock_def NoMemory_def Busy_def NoInit_def BadValue_def
  InvalidOperation_def BufferNeedsReallocation_def ReleaseAllBuffers_def

section \<open>Fences, rectangles and buffers\<close>

record NvFence =
  fence_id :: int
  fence_value :: u32

record Fence =
  num_fences :: u32
  fences :: "NvFence list"

definition new_Fence :: Fence where
  "new_Fence = \<lparr>num_fences = 0, fences = replicate 4 \<lparr>fence_id = 0, fence_value = 0\<rparr>\<rparr>"

definition NoFence :: Fence where
  "NoFence = \<lparr>num_fences = 0, fences = replicate 4 \<lparr>fence_id = - 1, fence_value = 0\<rparr>\<rparr>"

record Rectangle =
  rect_left :: int
  rect_top :: int
  rect_right :: int
  rect_bottom :: int

definition rect_of_size :: "int \<Rightarrow> int \<Rightarrow> Rectangle" where
  "rect_of_size w h = \<lparr>rect_left = 0, rect_top = 0, rect_right = w, rect_bottom = h\<rparr>"

definition GetWidth :: "Rectangle \<Rightarrow> int" where
  "GetWidth r = \<bar>rect_right r - rect_left r\<bar>"

definition GetHeight :: "Rectangle \<Rightarrow> int" where
  "GetHeight r = \<bar>rect_bottom r - rect_top r\<bar>"

definition IsEmpty :: "Rectangle \<Rightarrow> bool" where
  "IsEmpty r \<longleftrightarrow> GetWidth r \<le> 0 \<or> GetHeight r \<le> 0"

definition Intersect :: "Rectangle \<Rightarrow> Rectangle \<Rightarrow> bool \<times> Rectangle" where
  "Intersect r other =
     (let result = \<lparr>rect_left = max (rect_left r) (rect_left other),
                    rect_top = max (rect_top r) (rect_top other),
                    rect_right = min (rect_right r) (rect_right other),
                    rect_bottom = min (rect_bottom r) (rect_bottom other)\<rparr>
      in (\<not> IsEmpty result, result))"

type_synonym PixelFormat = u32

definition NoFormat :: PixelFormat where "NoFormat = 0"
definition Rgba8888 :: PixelFormat where "Rgba8888 = 1"

record NvGraphicBuffer =
  gb_magic :: u32
  gb_width :: int
  gb_height :: int
  gb_stride :: int
  gb_format :: PixelFormat
  gb_usage :: int
  gb_index :: u32
  gb_buffer_id :: u32
  gb_external_format :: PixelFormat
  gb_handle :: u32
  gb_offset :: u32

text \<open>
  \<^verbatim>\<open>gb_ptr\<close> is the address of the object, \<^verbatim>\<open>gb_nvmap\<close> whether \<^verbatim>\<open>m_nvmap\<close> is set.
\<close>

record GraphicBuffer = NvGraphicBuffer +
  gb_ptr :: nat
  gb_nvmap :: bool

definition Width :: "'a NvGraphicBuffer_scheme \<Rightarrow> u32" where
  "Width b = word_of_int (gb_width b)"

definition Height :: "'a NvGraphicBuffer_scheme \<Rightarrow> u32" where
  "Height b = word_of_int (gb_height b)"

definition Usage :: "'a NvGraphicBuffer_scheme \<Rightarrow> u32" where
  "Usage b = word_of_int (gb_usage b)"

definition new_NvGraphicBuffer :: NvGraphicBuffer where
  "new_NvGraphicBuffer =
     \<lparr>gb_magic = 0, gb_width = 0, gb_height = 0, gb_stride = 0, gb_format = NoFormat, gb_usage = 0,
      gb_index = 0, gb_buffer_id = 0, gb_external_format = NoFormat, gb_handle = 0, gb_offset = 0\<rparr>"

definition NvGraphicBuffer_of :: "u32 \<Rightarrow> u32 \<Rightarrow> PixelFormat \<Rightarrow> u32 \<Rightarrow> NvGraphicBuffer" where
  "NvGraphicBuffer_of w h fmt us =
     new_NvGraphicBuffer\<lparr>gb_width := sint w, gb_height := sint h, gb_format := fmt,
                         gb_usage := sint us\<rparr>"

definition NeedsReallocation ::
    "'a NvGraphicBuffer_scheme \<Rightarrow> u32 \<Rightarrow> u32 \<Rightarrow> PixelFormat \<Rightarrow> u32 \<Rightarrow> bool" where
  "NeedsReallocation b w h fmt us =
     (if sint w \<noteq> gb_width b then True
      else if sint h \<noteq> gb_height b then True
      else if fmt \<noteq> gb_format b then True
      else if word_of_int (gb_usage b) AND us \<noteq> us then True
      else False)"

text \<open>
  The two constructors at a fresh address; the second duplicates and pins the handle of the buffer
  it wraps, which the queue's \<^verbatim>\<open>NvMap\<close> is told.
\<close>

datatype NvMapCall = DuplicateHandle u32 bool | PinHandle u32 bool

definition to_GraphicBuffer :: "nat \<Rightarrow> bool \<Rightarrow> NvGraphicBuffer \<Rightarrow> GraphicBuffer" where
  "to_GraphicBuffer ptr nvmap b =
     NvGraphicBuffer.extend b \<lparr>gb_ptr = ptr, gb_nvmap = nvmap\<rparr>"

definition new_GraphicBuffer :: "nat \<Rightarrow> u32 \<Rightarrow> u32 \<Rightarrow> PixelFormat \<Rightarrow> u32 \<Rightarrow> GraphicBuffer" where
  "new_GraphicBuffer ptr w h fmt us = to_GraphicBuffer ptr False (NvGraphicBuffer_of w h fmt us)"

definition GetBuffer :: "NvGraphicBuffer option \<Rightarrow> NvGraphicBuffer" where
  "GetBuffer buffer = (case buffer of Some b \<Rightarrow> b | None \<Rightarrow> new_NvGraphicBuffer)"

definition wrap_GraphicBuffer :: "nat \<Rightarrow> NvGraphicBuffer option \<Rightarrow> GraphicBuffer \<times> NvMapCall list" where
  "wrap_GraphicBuffer ptr buffer =
     (let b = GetBuffer buffer
      in (to_GraphicBuffer ptr True b,
          if gb_buffer_id b > 0
          then [DuplicateHandle (gb_buffer_id b) True, PinHandle (gb_buffer_id b) False] else []))"

section \<open>Slots and queued items\<close>

definition NUM_BUFFER_SLOTS :: nat where "NUM_BUFFER_SLOTS = 64"
definition INVALID_BUFFER_SLOT :: int where "INVALID_BUFFER_SLOT = - 1"

datatype BufferState = Free | Dequeued | Queued | Acquired

record BufferSlot =
  graphic_buffer :: "GraphicBuffer option"
  buffer_state :: BufferState
  request_buffer_called :: bool
  frame_number :: u64
  fence :: Fence
  acquire_called :: bool
  needs_cleanup_on_release :: bool
  attached_by_consumer :: bool
  is_preallocated :: bool

definition new_BufferSlot :: BufferSlot where
  "new_BufferSlot =
     \<lparr>graphic_buffer = None, buffer_state = Free, request_buffer_called = False, frame_number = 0,
      fence = new_Fence, acquire_called = False, needs_cleanup_on_release = False,
      attached_by_consumer = False, is_preallocated = False\<rparr>"

record BufferItem =
  it_graphic_buffer :: "GraphicBuffer option"
  it_fence :: Fence
  it_crop :: Rectangle
  it_transform :: u32
  it_scaling_mode :: u32
  it_timestamp :: int
  it_is_auto_timestamp :: bool
  it_frame_number :: u64
  it_slot :: int
  it_is_droppable :: bool
  it_acquire_called :: bool
  it_transform_to_display_inverse :: bool
  it_swap_interval :: int

definition new_BufferItem :: BufferItem where
  "new_BufferItem =
     \<lparr>it_graphic_buffer = None, it_fence = new_Fence, it_crop = rect_of_size 0 0, it_transform = 0,
      it_scaling_mode = 0, it_timestamp = 0, it_is_auto_timestamp = False, it_frame_number = 0,
      it_slot = INVALID_BUFFER_SLOT, it_is_droppable = False, it_acquire_called = False,
      it_transform_to_display_inverse = False, it_swap_interval = 0\<rparr>"

section \<open>The core\<close>

type_synonym NativeWindowApi = u32

definition NoConnectedApi :: NativeWindowApi where "NoConnectedApi = 0"

text \<open>A listener is an object the queue only compares with null and calls; it is a number here.\<close>

type_synonym Listener = nat

record BufferQueueCore =
  is_abandoned :: bool
  consumer_controlled_by_app :: bool
  consumer_listener :: "Listener option"
  consumer_usage_bit :: u32
  connected_api :: NativeWindowApi
  connected_producer_listener :: "Listener option"
  slots :: "BufferSlot list"
  queue :: "BufferItem list"
  has_queued_buffer :: bool
  producers_waiting_for_slot :: u32
  override_max_buffer_count :: int
  dequeue_possible :: bool
  dequeue_buffer_cannot_block :: bool
  default_buffer_format :: PixelFormat
  default_width :: u32
  default_height :: u32
  default_max_buffer_count :: int
  buffer_has_been_queued :: bool
  frame_counter :: u64
  transform_hint :: u32

definition use_async_buffer :: bool where "use_async_buffer = False"
definition max_acquired_buffer_count :: int where "max_acquired_buffer_count = 0"

definition new_BufferQueueCore :: BufferQueueCore where
  "new_BufferQueueCore =
     \<lparr>is_abandoned = False, consumer_controlled_by_app = False, consumer_listener = None,
      consumer_usage_bit = 0, connected_api = NoConnectedApi, connected_producer_listener = None,
      slots = replicate NUM_BUFFER_SLOTS new_BufferSlot, queue = [], has_queued_buffer = False,
      producers_waiting_for_slot = 0, override_max_buffer_count = 0, dequeue_possible = False,
      dequeue_buffer_cannot_block = False, default_buffer_format = Rgba8888, default_width = 1,
      default_height = 1, default_max_buffer_count = 2, buffer_has_been_queued = False,
      frame_counter = 0, transform_hint = 0\<rparr>"

definition upd_slot ::
    "nat \<Rightarrow> (BufferSlot \<Rightarrow> BufferSlot) \<Rightarrow> 'a BufferQueueCore_scheme \<Rightarrow> 'a BufferQueueCore_scheme" where
  "upd_slot s f c = c\<lparr>slots := (slots c)[s := f (slots c ! s)]\<rparr>"

definition SignalDequeueCondition ::
    "'a BufferQueueCore_scheme \<Rightarrow> 'a BufferQueueCore_scheme" where
  "SignalDequeueCondition c = c\<lparr>dequeue_possible := True\<rparr>"

text \<open>
  The wait of \<^verbatim>\<open>WaitForDequeueCondition\<close> ends when \<^verbatim>\<open>dequeue_possible\<close> holds; this is what
  follows the wait.
\<close>

definition WaitForDequeueCondition ::
    "'a BufferQueueCore_scheme \<Rightarrow> (bool \<times> 'a BufferQueueCore_scheme) option" where
  "WaitForDequeueCondition c =
     (if dequeue_possible c then Some (True, c\<lparr>dequeue_possible := False\<rparr>) else None)"

definition GetMinUndequeuedBufferCountLocked :: "'a BufferQueueCore_scheme \<Rightarrow> bool \<Rightarrow> int" where
  "GetMinUndequeuedBufferCountLocked c async =
     (if \<not> use_async_buffer then 0
      else if dequeue_buffer_cannot_block c \<or> async then max_acquired_buffer_count + 1
      else max_acquired_buffer_count)"

definition GetMinMaxBufferCountLocked :: "'a BufferQueueCore_scheme \<Rightarrow> bool \<Rightarrow> int" where
  "GetMinMaxBufferCountLocked c async = GetMinUndequeuedBufferCountLocked c async"

definition GetMaxBufferCountLocked :: "'a BufferQueueCore_scheme \<Rightarrow> bool \<Rightarrow> int" where
  "GetMaxBufferCountLocked c async =
     (let min_buffer_count = GetMinMaxBufferCountLocked c async;
          max_buffer_count = max (default_max_buffer_count c) min_buffer_count
      in if override_max_buffer_count c \<noteq> 0 then override_max_buffer_count c
         else fold (\<lambda>slot m.
                      let state = buffer_state (slots c ! slot)
                      in if state = Queued \<or> state = Dequeued then int slot + 1 else m)
                [nat max_buffer_count..<NUM_BUFFER_SLOTS] max_buffer_count)"

definition GetPreallocatedBufferCountLocked :: "'a BufferQueueCore_scheme \<Rightarrow> int" where
  "GetPreallocatedBufferCountLocked c = int (length (filter is_preallocated (slots c)))"

definition free_slot :: "BufferSlot \<Rightarrow> BufferSlot" where
  "free_slot sl =
     (let s1 = sl\<lparr>graphic_buffer := None\<rparr>;
          s2 = (if buffer_state s1 = Acquired then s1\<lparr>needs_cleanup_on_release := True\<rparr> else s1)
      in s2\<lparr>buffer_state := Free, frame_number := 0xFFFFFFFF, acquire_called := False,
            fence := NoFence\<rparr>)"

definition FreeBufferLocked ::
    "nat \<Rightarrow> 'a BufferQueueCore_scheme \<Rightarrow> 'a BufferQueueCore_scheme" where
  "FreeBufferLocked slot c = upd_slot slot free_slot c"

definition FreeAllBuffersLocked ::
    "'a BufferQueueCore_scheme \<Rightarrow> 'a BufferQueueCore_scheme" where
  "FreeAllBuffersLocked c =
     fold FreeBufferLocked [0..<NUM_BUFFER_SLOTS] (c\<lparr>buffer_has_been_queued := False\<rparr>)"

definition same_buffer :: "GraphicBuffer option \<Rightarrow> GraphicBuffer option \<Rightarrow> bool" where
  "same_buffer a b =
     (case (a, b) of (None, None) \<Rightarrow> True | (Some x, Some y) \<Rightarrow> gb_ptr x = gb_ptr y | _ \<Rightarrow> False)"

definition StillTracking :: "'a BufferQueueCore_scheme \<Rightarrow> BufferItem \<Rightarrow> bool" where
  "StillTracking c item =
     (let slot = slots c ! nat (it_slot item)
      in graphic_buffer slot \<noteq> None \<and> same_buffer (it_graphic_buffer item) (graphic_buffer slot))"

end
