(* ===== verification/Buffer_Queue_Producer.thy ===== *)
theory Buffer_Queue_Producer
  imports Buffer_Queue_Core
begin

text \<open>
  The producer end of the buffer queue: \<^verbatim>\<open>buffer_queue_producer.cpp\<close>.  Each public function
  runs under the core's mutex and is one state transformer; where a function gives the mutex up (the wait
  for a free slot, the allocation in \<^verbatim>\<open>DequeueBuffer\<close>, the callbacks of \<^verbatim>\<open>QueueBuffer\<close>) it
  is split there.  Nothing in the code sets \<^verbatim>\<open>is_allocating\<close>, so \<^verbatim>\<open>WaitWhileAllocatingLocked\<close>
  never waits.  \<^const>\<open>None\<close> is a null pointer that is followed or a signed overflow.  The producer's
  own members extend the record of the core; \<^verbatim>\<open>buffer_wait_event\<close> is whether the event was signalled.
\<close>

record BufferQueueProducer = BufferQueueCore +
  sticky_transform :: u32
  next_callback_ticket :: int
  current_callback_ticket :: int
  buffer_wait_event :: bool

definition new_BufferQueueProducer :: BufferQueueProducer where
  "new_BufferQueueProducer =
     BufferQueueCore.extend new_BufferQueueCore
       \<lparr>sticky_transform = 0, next_callback_ticket = 0, current_callback_ticket = 0,
        buffer_wait_event = False\<rparr>"

datatype Callback =
  OnFrameAvailable Listener BufferItem
| OnFrameReplaced Listener BufferItem
| OnBuffersReleased Listener
| OnBufferReleased Listener

definition Signal :: "'a BufferQueueProducer_scheme \<Rightarrow> 'a BufferQueueProducer_scheme" where
  "Signal p = p\<lparr>buffer_wait_event := True\<rparr>"

abbreviation bad_slot :: "int \<Rightarrow> bool" where
  "bad_slot slot \<equiv> slot < 0 \<or> slot \<ge> int NUM_BUFFER_SLOTS"

section \<open>RequestBuffer and SetBufferCount\<close>

definition RequestBuffer ::
    "'a BufferQueueProducer_scheme \<Rightarrow> int \<Rightarrow>
     Status \<times> GraphicBuffer option option \<times> 'a BufferQueueProducer_scheme" where
  "RequestBuffer p slot =
     (if is_abandoned p then (NoInit, None, p)
      else if bad_slot slot then (BadValue, None, p)
      else if buffer_state (slots p ! nat slot) \<noteq> Dequeued then (BadValue, None, p)
      else
        let p1 = upd_slot (nat slot) (request_buffer_called_update (\<lambda>_. True)) p
        in (NoError, Some (graphic_buffer (slots p1 ! nat slot)), p1))"

definition SetBufferCount ::
    "'a BufferQueueProducer_scheme \<Rightarrow> int \<Rightarrow>
     Status \<times> Callback list \<times> 'a BufferQueueProducer_scheme" where
  "SetBufferCount p buffer_count =
     (if is_abandoned p then (NoInit, [], p)
      else if buffer_count > int NUM_BUFFER_SLOTS then (BadValue, [], p)
      else if \<exists>s \<in> set [0..<NUM_BUFFER_SLOTS]. buffer_state (slots p ! s) = Dequeued
      then (BadValue, [], p)
      else if buffer_count = 0
      then (NoError, [], SignalDequeueCondition (p\<lparr>override_max_buffer_count := 0\<rparr>))
      else if buffer_count < GetMinMaxBufferCountLocked p False then (BadValue, [], p)
      else
        let p1 = (if GetPreallocatedBufferCountLocked p \<le> 0 then FreeAllBuffersLocked p else p);
            p2 = p1\<lparr>override_max_buffer_count := buffer_count\<rparr>;
            p3 = Signal (SignalDequeueCondition p2)
        in (NoError,
            case consumer_listener p3 of Some l \<Rightarrow> [OnBuffersReleased l] | None \<Rightarrow> [], p3))"

section \<open>The search for a free slot\<close>

datatype 'p WaitOutcome =
  Wait_Return Status int Status 'p
| Wait_Sleep Status 'p

text \<open>The two loops of a turn: give back the buffers beyond the limit, then look for a slot.\<close>

definition release_beyond ::
    "'a BufferQueueCore_scheme \<Rightarrow> int \<Rightarrow> Status \<Rightarrow> Status \<times> 'a BufferQueueCore_scheme" where
  "release_beyond c max_buffer_count return_flags =
     fold (\<lambda>s (flags, c).
             let sl = slots c ! s
             in if graphic_buffer sl \<noteq> None \<and> buffer_state sl = Free \<and> \<not> is_preallocated sl
                then (flags OR ReleaseAllBuffers, FreeBufferLocked s c) else (flags, c))
          [nat max_buffer_count..<NUM_BUFFER_SLOTS] (return_flags, c)"

definition scan_slots :: "BufferSlot list \<Rightarrow> int \<Rightarrow> int \<times> int \<times> int" where
  "scan_slots sls max_buffer_count =
     fold (\<lambda>s (found, dequeued_count, acquired_count).
             case buffer_state (sls ! s) of
               Dequeued \<Rightarrow> (found, dequeued_count + 1, acquired_count)
             | Acquired \<Rightarrow> (found, dequeued_count, acquired_count + 1)
             | Free \<Rightarrow>
                 (if found = INVALID_BUFFER_SLOT \<or>
                     frame_number (sls ! s) < frame_number (sls ! nat found)
                  then (int s, dequeued_count, acquired_count)
                  else (found, dequeued_count, acquired_count))
             | Queued \<Rightarrow> (found, dequeued_count, acquired_count))
          [0..<nat max_buffer_count] (INVALID_BUFFER_SLOT, 0, 0)"

definition WaitForFreeSlot_iteration ::
    "'a BufferQueueCore_scheme \<Rightarrow> bool \<Rightarrow> int \<Rightarrow> Status \<Rightarrow> 'a BufferQueueCore_scheme WaitOutcome" where
  "WaitForFreeSlot_iteration c async found return_flags =
     (if is_abandoned c then Wait_Return NoInit found return_flags c
      else
        let max_buffer_count = GetMaxBufferCountLocked c async
        in if async \<and> override_max_buffer_count c \<noteq> 0 \<and>
              override_max_buffer_count c < max_buffer_count
           then Wait_Return BadValue INVALID_BUFFER_SLOT return_flags c
           else
             let (flags, c1) = release_beyond c max_buffer_count return_flags;
                 (found, dequeued_count, acquired_count) = scan_slots (slots c1) max_buffer_count
             in if override_max_buffer_count c1 = 0 \<and> dequeued_count \<noteq> 0
                then Wait_Return InvalidOperation found flags c1
                else if buffer_has_been_queued c1 \<and>
                        max_buffer_count - (dequeued_count + 1)
                          < GetMinUndequeuedBufferCountLocked c1 async
                then Wait_Return InvalidOperation found flags c1
                else
                  let too_many_buffers =
                        int (length (queue c1)) > uint (word_of_int max_buffer_count :: u64);
                      try_again = (found = INVALID_BUFFER_SLOT \<or> too_many_buffers)
                  in if \<not> try_again then Wait_Return NoError found flags c1
                     else if dequeue_buffer_cannot_block c1 \<and>
                             acquired_count \<le> max_acquired_buffer_count
                     then Wait_Return WouldBlock found flags c1
                     else Wait_Sleep flags
                            (c1\<lparr>producers_waiting_for_slot := producers_waiting_for_slot c1 + 1\<rparr>))"

text \<open>What the woken caller does before its next turn.\<close>

definition WaitForFreeSlot_wake ::
    "'a BufferQueueCore_scheme \<Rightarrow> 'a BufferQueueCore_scheme option" where
  "WaitForFreeSlot_wake c =
     (case WaitForDequeueCondition c of
        None \<Rightarrow> None
      | Some (_, c1) \<Rightarrow>
          Some (c1\<lparr>producers_waiting_for_slot := producers_waiting_for_slot c1 - 1\<rparr>))"

section \<open>DequeueBuffer\<close>

record DequeueRequest =
  dq_async :: bool
  dq_width :: u32
  dq_height :: u32
  dq_format :: PixelFormat
  dq_usage :: u32

text \<open>
  A call is rejected, sleeps with the flags it has gathered, returns a slot that already has a
  suitable buffer, or returns a slot that still needs one, allocated after the mutex is released.
\<close>

datatype 'p DequeueOutcome =
  Dequeue_Fail Status 'p
| Dequeue_Sleep DequeueRequest Status 'p
| Dequeue_Done Status int Fence 'p
| Dequeue_Allocate DequeueRequest Status int Fence bool 'p

definition DequeueBuffer_enter ::
    "'a BufferQueueCore_scheme \<Rightarrow> DequeueRequest \<Rightarrow> DequeueRequest option" where
  "DequeueBuffer_enter c req =
     (if (dq_width req \<noteq> 0 \<and> dq_height req = 0) \<or> (dq_width req = 0 \<and> dq_height req \<noteq> 0)
      then None
      else Some (req\<lparr>dq_format := (if dq_format req = NoFormat then default_buffer_format c
                                   else dq_format req),
                     dq_usage := dq_usage req OR consumer_usage_bit c\<rparr>))"

definition buffer_unsuitable :: "GraphicBuffer option \<Rightarrow> DequeueRequest \<Rightarrow> bool" where
  "buffer_unsuitable buffer req =
     (case buffer of
        None \<Rightarrow> True
      | Some b \<Rightarrow> Width b \<noteq> dq_width req \<or> Height b \<noteq> dq_height req \<or>
                  gb_format b \<noteq> dq_format req \<or> Usage b AND dq_usage req \<noteq> dq_usage req)"

definition DequeueBuffer_take ::
    "'a BufferQueueCore_scheme \<Rightarrow> DequeueRequest \<Rightarrow> int \<Rightarrow> Status \<Rightarrow>
     'a BufferQueueCore_scheme DequeueOutcome" where
  "DequeueBuffer_take c req found return_flags =
     (if found = INVALID_BUFFER_SLOT then Dequeue_Fail Busy c
      else
        let s = nat found;
            attached = attached_by_consumer (slots c ! s);
            use_default_size = (dq_width req = 0 \<and> dq_height req = 0);
            req1 = (if use_default_size
                    then req\<lparr>dq_width := default_width c, dq_height := default_height c\<rparr> else req);
            c1 = upd_slot s (buffer_state_update (\<lambda>_. Dequeued)) c;
            realloc = buffer_unsuitable (graphic_buffer (slots c1 ! s)) req1;
            c2 = (if realloc
                  then upd_slot s (\<lambda>sl. sl\<lparr>acquire_called := False, graphic_buffer := None,
                                          request_buffer_called := False, fence := NoFence\<rparr>) c1
                  else c1);
            flags = (if realloc then return_flags OR BufferNeedsReallocation else return_flags);
            out_fence = fence (slots c2 ! s);
            c3 = upd_slot s (fence_update (\<lambda>_. NoFence)) c2
        in if flags AND BufferNeedsReallocation \<noteq> Status_None
           then Dequeue_Allocate req1 flags found out_fence attached c3
           else Dequeue_Done (if attached then flags OR BufferNeedsReallocation else flags)
                  found out_fence c3)"

definition DequeueBuffer_turn ::
    "'a BufferQueueCore_scheme \<Rightarrow> DequeueRequest \<Rightarrow> Status \<Rightarrow>
     'a BufferQueueCore_scheme DequeueOutcome" where
  "DequeueBuffer_turn c req return_flags =
     (case WaitForFreeSlot_iteration c (dq_async req) 0 return_flags of
        Wait_Sleep flags c1 \<Rightarrow> Dequeue_Sleep req flags c1
      | Wait_Return status found flags c1 \<Rightarrow>
          if status \<noteq> NoError then Dequeue_Fail status c1
          else DequeueBuffer_take c1 req found flags)"

definition DequeueBuffer ::
    "'a BufferQueueCore_scheme \<Rightarrow> DequeueRequest \<Rightarrow> 'a BufferQueueCore_scheme DequeueOutcome" where
  "DequeueBuffer c req =
     (case DequeueBuffer_enter c req of
        None \<Rightarrow> Dequeue_Fail BadValue c
      | Some req1 \<Rightarrow> DequeueBuffer_turn c req1 NoError)"

definition DequeueBuffer_wake ::
    "'a BufferQueueCore_scheme \<Rightarrow> DequeueRequest \<Rightarrow> Status \<Rightarrow>
     'a BufferQueueCore_scheme DequeueOutcome option" where
  "DequeueBuffer_wake c req return_flags =
     (case WaitForFreeSlot_wake c of
        None \<Rightarrow> None
      | Some c1 \<Rightarrow> Some (DequeueBuffer_turn c1 req return_flags))"

text \<open>The second locked section, with the address of the buffer allocated in between.\<close>

definition DequeueBuffer_allocate ::
    "'a BufferQueueCore_scheme \<Rightarrow> DequeueRequest \<Rightarrow> Status \<Rightarrow> int \<Rightarrow> bool \<Rightarrow> nat \<Rightarrow>
     Status \<times> 'a BufferQueueCore_scheme" where
  "DequeueBuffer_allocate c req return_flags out_slot attached ptr =
     (let buffer = new_GraphicBuffer ptr (dq_width req) (dq_height req) (dq_format req) (dq_usage req)
      in if is_abandoned c then (NoInit, c)
         else (if attached then return_flags OR BufferNeedsReallocation else return_flags,
               upd_slot (nat out_slot)
                 (\<lambda>sl. sl\<lparr>frame_number := 0xFFFFFFFF, graphic_buffer := Some buffer\<rparr>) c))"

section \<open>Detaching and attaching\<close>

text \<open>A \<open>bool\<close> argument named \<open>has_\<dots>\<close> says that the pointer for an output is not null.\<close>

definition DetachBuffer ::
    "'a BufferQueueCore_scheme \<Rightarrow> int \<Rightarrow> Status \<times> 'a BufferQueueCore_scheme" where
  "DetachBuffer c slot =
     (if is_abandoned c then (NoInit, c)
      else if bad_slot slot then (BadValue, c)
      else if buffer_state (slots c ! nat slot) \<noteq> Dequeued then (BadValue, c)
      else if \<not> request_buffer_called (slots c ! nat slot) then (BadValue, c)
      else (NoError, SignalDequeueCondition (FreeBufferLocked (nat slot) c)))"

definition oldest_free_buffer :: "BufferSlot list \<Rightarrow> int" where
  "oldest_free_buffer sls =
     fold (\<lambda>s found.
             if buffer_state (sls ! s) = Free \<and> graphic_buffer (sls ! s) \<noteq> None
             then
               if found = INVALID_BUFFER_SLOT \<or>
                  frame_number (sls ! s) < frame_number (sls ! nat found)
               then int s else found
             else found)
          [0..<NUM_BUFFER_SLOTS] INVALID_BUFFER_SLOT"

definition DetachNextBuffer ::
    "'a BufferQueueCore_scheme \<Rightarrow> bool \<Rightarrow> bool \<Rightarrow>
     Status \<times> (GraphicBuffer option \<times> Fence) option \<times> 'a BufferQueueCore_scheme" where
  "DetachNextBuffer c has_out_buffer has_out_fence =
     (if \<not> has_out_buffer then (BadValue, None, c)
      else if \<not> has_out_fence then (BadValue, None, c)
      else if is_abandoned c then (NoInit, None, c)
      else
        let found = oldest_free_buffer (slots c)
        in if found = INVALID_BUFFER_SLOT then (NoMemory, None, c)
           else
             let sl = slots c ! nat found
             in (NoError, Some (graphic_buffer sl, fence sl), FreeBufferLocked (nat found) c))"

datatype 'p AttachOutcome =
  Attach_Return Status "int option" 'p
| Attach_Sleep GraphicBuffer Status 'p

definition AttachBuffer_turn ::
    "'a BufferQueueCore_scheme \<Rightarrow> GraphicBuffer \<Rightarrow> Status \<Rightarrow> 'a BufferQueueCore_scheme AttachOutcome" where
  "AttachBuffer_turn c buffer return_flags =
     (case WaitForFreeSlot_iteration c False 0 return_flags of
        Wait_Sleep flags c1 \<Rightarrow> Attach_Sleep buffer flags c1
      | Wait_Return status found flags c1 \<Rightarrow>
          if status \<noteq> NoError then Attach_Return status None c1
          else if found = INVALID_BUFFER_SLOT then Attach_Return Busy None c1
          else Attach_Return flags (Some found)
                 (upd_slot (nat found)
                    (\<lambda>sl. sl\<lparr>graphic_buffer := Some buffer, buffer_state := Dequeued,
                            fence := NoFence, request_buffer_called := True\<rparr>) c1))"

definition AttachBuffer ::
    "'a BufferQueueCore_scheme \<Rightarrow> bool \<Rightarrow> GraphicBuffer option \<Rightarrow>
     'a BufferQueueCore_scheme AttachOutcome" where
  "AttachBuffer c has_out_slot buffer =
     (if \<not> has_out_slot then Attach_Return BadValue None c
      else case buffer of
             None \<Rightarrow> Attach_Return BadValue None c
           | Some b \<Rightarrow> AttachBuffer_turn c b NoError)"

definition AttachBuffer_wake ::
    "'a BufferQueueCore_scheme \<Rightarrow> GraphicBuffer \<Rightarrow> Status \<Rightarrow>
     'a BufferQueueCore_scheme AttachOutcome option" where
  "AttachBuffer_wake c buffer return_flags =
     (case WaitForFreeSlot_wake c of
        None \<Rightarrow> None
      | Some c1 \<Rightarrow> Some (AttachBuffer_turn c1 buffer return_flags))"

section \<open>QueueBuffer and CancelBuffer\<close>

record QueueBufferInput =
  in_timestamp :: int
  in_is_auto_timestamp :: int
  in_crop :: Rectangle
  in_scaling_mode :: u32
  in_transform :: u32
  in_sticky_transform :: u32
  in_async :: int
  in_swap_interval :: int
  in_fence :: Fence

record QueueBufferOutput =
  out_width :: u32
  out_height :: u32
  out_transform_hint :: u32
  out_num_pending_buffers :: u32

definition Inflate :: "u32 \<Rightarrow> u32 \<Rightarrow> u32 \<Rightarrow> u32 \<Rightarrow> QueueBufferOutput" where
  "Inflate w h hint num =
     \<lparr>out_width = w, out_height = h, out_transform_hint = hint, out_num_pending_buffers = num\<rparr>"

definition known_scaling_mode :: "u32 \<Rightarrow> bool" where
  "known_scaling_mode m \<longleftrightarrow> m = 0 \<or> m = 1 \<or> m = 2 \<or> m = 3 \<or> m = 4"

definition InverseDisplay :: u32 where "InverseDisplay = 0x08"

text \<open>The item built from a slot that has just been queued.\<close>

definition queued_item ::
    "'a BufferQueueCore_scheme \<Rightarrow> int \<Rightarrow> QueueBufferInput \<Rightarrow> BufferItem" where
  "queued_item c slot input =
     (let sl = slots c ! nat slot
      in \<lparr>it_graphic_buffer = graphic_buffer sl, it_fence = in_fence input,
          it_crop = in_crop input,
          it_transform = in_transform input AND NOT InverseDisplay,
          it_scaling_mode = in_scaling_mode input,
          it_timestamp = in_timestamp input,
          it_is_auto_timestamp = (in_is_auto_timestamp input \<noteq> 0),
          it_frame_number = frame_counter c, it_slot = slot,
          it_is_droppable = (dequeue_buffer_cannot_block c \<or> in_async input \<noteq> 0),
          it_acquire_called = acquire_called sl,
          it_transform_to_display_inverse = (in_transform input AND InverseDisplay \<noteq> 0),
          it_swap_interval = in_swap_interval input\<rparr>)"

text \<open>
  Appending the item or overwriting a droppable front item, and which callback is due: \<open>True\<close>
  for \<^verbatim>\<open>OnFrameAvailable\<close>, \<open>False\<close> for \<^verbatim>\<open>OnFrameReplaced\<close>.
\<close>

definition enqueue_item ::
    "'a BufferQueueCore_scheme \<Rightarrow> BufferItem \<Rightarrow> bool \<times> 'a BufferQueueCore_scheme" where
  "enqueue_item c item =
     (case queue c of
        [] \<Rightarrow> (True, c\<lparr>queue := [item]\<rparr>)
      | front # rest \<Rightarrow>
          if it_is_droppable front
          then
            let c1 = (if StillTracking c front
                      then upd_slot (nat (it_slot front))
                             (\<lambda>sl. sl\<lparr>buffer_state := Free, frame_number := 0\<rparr>) c
                      else c)
            in (False, c1\<lparr>queue := item # rest\<rparr>)
          else (True, c\<lparr>queue := queue c @ [item]\<rparr>))"

definition QueueBuffer_checks :: "'a BufferQueueCore_scheme \<Rightarrow> int \<Rightarrow> bool \<Rightarrow> Status" where
  "QueueBuffer_checks c slot async =
     (if is_abandoned c then NoInit
      else
        let max_buffer_count = GetMaxBufferCountLocked c async
        in if async \<and> override_max_buffer_count c \<noteq> 0 \<and>
              override_max_buffer_count c < max_buffer_count then BadValue
           else if slot < 0 \<or> slot \<ge> max_buffer_count then BadValue
           else if buffer_state (slots c ! nat slot) \<noteq> Dequeued then BadValue
           else if \<not> request_buffer_called (slots c ! nat slot) then BadValue
           else NoError)"

text \<open>
  The locked section: the result is the status, the output block and, when the buffer was queued,
  the callback with its ticket.
\<close>

definition QueueBuffer ::
    "'a BufferQueueProducer_scheme \<Rightarrow> int \<Rightarrow> QueueBufferInput \<Rightarrow>
     (Status \<times> QueueBufferOutput option \<times> (int \<times> Callback list) option \<times>
      'a BufferQueueProducer_scheme) option" where
  "QueueBuffer p slot input =
     (if \<not> known_scaling_mode (in_scaling_mode input) then Some (BadValue, None, None, p)
      else
        let status = QueueBuffer_checks p slot (in_async input \<noteq> 0)
        in if status \<noteq> NoError then Some (status, None, None, p)
           else case graphic_buffer (slots p ! nat slot) of
             None \<Rightarrow> None
           | Some b \<Rightarrow>
               let buffer_rect = rect_of_size (sint (Width b)) (sint (Height b))
               in if snd (Intersect (in_crop input) buffer_rect) \<noteq> in_crop input
                  then Some (BadValue, None, None, p)
                  else if \<not> next_callback_ticket p < 2 ^ 31 - 1 then None
                  else
                    let p1 = upd_slot (nat slot)
                               (\<lambda>sl. sl\<lparr>fence := in_fence input, buffer_state := Queued\<rparr>) p;
                        p2 = p1\<lparr>frame_counter := frame_counter p1 + 1\<rparr>;
                        p3 = upd_slot (nat slot) (frame_number_update (\<lambda>_. frame_counter p2)) p2;
                        item = queued_item p3 slot input;
                        p4 = p3\<lparr>sticky_transform := in_sticky_transform input\<rparr>;
                        (available, p5) = enqueue_item p4 item;
                        p6 = SignalDequeueCondition
                               (p5\<lparr>has_queued_buffer := True, buffer_has_been_queued := True\<rparr>);
                        out = Inflate (default_width p6) (default_height p6) (transform_hint p6)
                                (word_of_nat (length (queue p6)));
                        item' = item\<lparr>it_graphic_buffer := None, it_slot := INVALID_BUFFER_SLOT\<rparr>;
                        cb = (case consumer_listener p6 of
                                None \<Rightarrow> []
                              | Some l \<Rightarrow> [if available then OnFrameAvailable l item'
                                          else OnFrameReplaced l item'])
                    in Some (NoError, Some out, Some (next_callback_ticket p6, cb),
                             p6\<lparr>next_callback_ticket := next_callback_ticket p6 + 1\<rparr>))"

text \<open>The callback section, which waits for its ticket to come up.\<close>

definition QueueBuffer_callback ::
    "'a BufferQueueProducer_scheme \<Rightarrow> int \<Rightarrow> 'a BufferQueueProducer_scheme option" where
  "QueueBuffer_callback p callback_ticket =
     (if callback_ticket \<noteq> current_callback_ticket p then None
      else Some (p\<lparr>current_callback_ticket := current_callback_ticket p + 1\<rparr>))"

definition CancelBuffer ::
    "'a BufferQueueProducer_scheme \<Rightarrow> int \<Rightarrow> Fence \<Rightarrow> 'a BufferQueueProducer_scheme" where
  "CancelBuffer p slot fnc =
     (if is_abandoned p then p
      else if bad_slot slot then p
      else if buffer_state (slots p ! nat slot) \<noteq> Dequeued then p
      else Signal (SignalDequeueCondition
             (upd_slot (nat slot)
                (\<lambda>sl. sl\<lparr>buffer_state := Free, frame_number := 0, fence := fnc\<rparr>) p)))"

section \<open>Query, Connect, Disconnect, SetPreallocatedBuffer\<close>

definition Query ::
    "'a BufferQueueProducer_scheme \<Rightarrow> u32 \<Rightarrow> bool \<Rightarrow> Status \<times> int option" where
  "Query p what has_out_value =
     (if \<not> has_out_value then (BadValue, None)
      else if is_abandoned p then (NoInit, None)
      else
        let ok = (\<lambda>v :: u32. (NoError, Some (sint v)))
        in if what = 0 then ok (default_width p)
           else if what = 1 then ok (default_height p)
           else if what = 2 then ok (default_buffer_format p)
           else if what = 3 then ok (word_of_int (GetMinUndequeuedBufferCountLocked p False))
           else if what = 11 then ok (sticky_transform p)
           else if what = 9 then ok (if length (queue p) > 1 then 1 else 0)
           else if what = 10 then ok (consumer_usage_bit p)
           else (BadValue, None))"

definition known_api :: "NativeWindowApi \<Rightarrow> bool" where
  "known_api api \<longleftrightarrow> api = 1 \<or> api = 2 \<or> api = 3 \<or> api = 4"

definition Connect ::
    "'a BufferQueueCore_scheme \<Rightarrow> Listener option \<Rightarrow> NativeWindowApi \<Rightarrow> bool \<Rightarrow> bool \<Rightarrow>
     Status \<times> QueueBufferOutput option \<times> 'a BufferQueueCore_scheme" where
  "Connect c listener api producer_controlled_by_app has_output =
     (if is_abandoned c then (NoInit, None, c)
      else if consumer_listener c = None then (NoInit, None, c)
      else if \<not> has_output then (BadValue, None, c)
      else if connected_api c \<noteq> NoConnectedApi then (BadValue, None, c)
      else
        let (status, out, c1) =
              (if known_api api
               then (NoError,
                     Some (Inflate (default_width c) (default_height c) (transform_hint c)
                             (word_of_nat (length (queue c)))),
                     c\<lparr>connected_api := api, connected_producer_listener := listener\<rparr>)
               else (BadValue, None, c))
        in (status, out,
            c1\<lparr>buffer_has_been_queued := False,
               dequeue_buffer_cannot_block :=
                 consumer_controlled_by_app c1 \<and> producer_controlled_by_app\<rparr>))"

definition Disconnect ::
    "'a BufferQueueProducer_scheme \<Rightarrow> NativeWindowApi \<Rightarrow>
     Status \<times> Callback list \<times> 'a BufferQueueProducer_scheme" where
  "Disconnect p api =
     (if is_abandoned p then (NoError, [], p)
      else if known_api api
      then
        if connected_api p = api
        then
          let p1 = FreeAllBuffersLocked (p\<lparr>queue := [], has_queued_buffer := False\<rparr>);
              p2 = Signal (SignalDequeueCondition
                     (p1\<lparr>connected_producer_listener := None, connected_api := NoConnectedApi\<rparr>))
          in (NoError,
              case consumer_listener p2 of Some l \<Rightarrow> [OnBuffersReleased l] | None \<Rightarrow> [], p2)
        else (BadValue, [], p)
      else (BadValue, [], p))"

definition SetPreallocatedBuffer ::
    "'a BufferQueueProducer_scheme \<Rightarrow> int \<Rightarrow> NvGraphicBuffer option \<Rightarrow> nat \<Rightarrow>
     Status \<times> NvMapCall list \<times> 'a BufferQueueProducer_scheme" where
  "SetPreallocatedBuffer p slot buffer ptr =
     (if bad_slot slot then (BadValue, [], p)
      else
        let (gb, calls) = wrap_GraphicBuffer ptr buffer;
            p1 = upd_slot (nat slot)
                   (\<lambda>_. new_BufferSlot\<lparr>fence := NoFence, graphic_buffer := Some gb,
                                       frame_number := 0\<rparr>) p;
            p2 = (case buffer of
                    None \<Rightarrow> p1
                  | Some b \<Rightarrow>
                      let q = upd_slot (nat slot) (is_preallocated_update (\<lambda>_. True)) p1
                      in q\<lparr>override_max_buffer_count := GetPreallocatedBufferCountLocked q,
                           default_width := Width b, default_height := Height b,
                           default_buffer_format := gb_format b\<rparr>)
        in (NoError, calls, Signal (SignalDequeueCondition p2)))"

end
