(* ===== verification/Buffer_Queue_Consumer.thy ===== *)
theory Buffer_Queue_Consumer
  imports Buffer_Queue_Producer
begin

text \<open>
  The consumer end of the buffer queue, \<^verbatim>\<open>buffer_queue_consumer.cpp\<close>, and the cache the
  display side keeps of the buffers it has seen, \<^verbatim>\<open>consumer_base.cpp\<close> and
  \<^verbatim>\<open>buffer_item_consumer.cpp\<close>.  Times are nanoseconds in an \<^verbatim>\<open>s64\<close>.
\<close>

section \<open>Acquiring and releasing\<close>

definition GetBufferQueueHints :: "'a BufferQueueCore_scheme \<Rightarrow> bool \<times> bool" where
  "GetBufferQueueHints c = (has_queued_buffer c, producers_waiting_for_slot c \<noteq> 0)"

definition MAX_REASONABLE_NSEC :: int where "MAX_REASONABLE_NSEC = 1000000000"

definition erase_front :: "'a BufferQueueCore_scheme \<Rightarrow> 'a BufferQueueCore_scheme" where
  "erase_front c =
     (let c1 = c\<lparr>queue := tl (queue c)\<rparr> in c1\<lparr>has_queued_buffer := (queue c1 \<noteq> [])\<rparr>)"

text \<open>
  The loop that drops front items whose successor is already due, over the queue that is left.
\<close>

fun drop_late :: "BufferItem list \<Rightarrow> int \<Rightarrow> 'a BufferQueueCore_scheme \<Rightarrow> 'a BufferQueueCore_scheme" where
  "drop_late (front # second # rest) expected c =
     (if it_is_auto_timestamp front then c
      else
        let desired_present = it_timestamp second
        in if desired_present < expected - MAX_REASONABLE_NSEC \<or> desired_present > expected then c
           else
             let c1 = (if StillTracking c front
                       then upd_slot (nat (it_slot front)) (buffer_state_update (\<lambda>_. Free)) c
                       else c)
             in drop_late (second # rest) expected (erase_front c1))"
| "drop_late _ expected c = c"

definition num_acquired_buffers :: "'a BufferQueueCore_scheme \<Rightarrow> int" where
  "num_acquired_buffers c = int (length (filter (\<lambda>sl. buffer_state sl = Acquired) (slots c)))"

definition take_front ::
    "'a BufferQueueCore_scheme \<Rightarrow> BufferItem \<times> 'a BufferQueueCore_scheme" where
  "take_front c =
     (let front = hd (queue c);
          c1 = (if StillTracking c front
                then upd_slot (nat (it_slot front))
                       (\<lambda>sl. sl\<lparr>acquire_called := True, needs_cleanup_on_release := False,
                               buffer_state := Acquired\<rparr>) c
                else c);
          out_buffer = (if it_acquire_called front then front\<lparr>it_graphic_buffer := None\<rparr> else front)
      in (out_buffer, SignalDequeueCondition (erase_front c1)))"

definition AcquireBuffer ::
    "'a BufferQueueCore_scheme \<Rightarrow> int \<Rightarrow>
     Status \<times> BufferItem option \<times> 'a BufferQueueCore_scheme" where
  "AcquireBuffer c expected_present =
     (if num_acquired_buffers c \<ge> max_acquired_buffer_count + 1 then (InvalidOperation, None, c)
      else if queue c = [] then (NoBufferAvailable, None, c)
      else
        let c1 = (if expected_present \<noteq> 0 then drop_late (queue c) expected_present c else c);
            desired_present = it_timestamp (hd (queue c1))
        in if expected_present \<noteq> 0 \<and> desired_present > expected_present \<and>
              desired_present < expected_present + MAX_REASONABLE_NSEC
           then (PresentLater, None, c1)
           else let (item, c2) = take_front c1 in (NoError, Some item, c2))"

text \<open>
  \<^verbatim>\<open>ReleaseBufferImpl\<close>; the flag says whether the caller passed \<^verbatim>\<open>has_pending_buffer\<close>, whose value
  is returned.
\<close>

definition ReleaseBufferImpl ::
    "'a BufferQueueCore_scheme \<Rightarrow> int \<Rightarrow> u64 \<Rightarrow> bool \<Rightarrow>
     Status \<times> bool option \<times> Callback list \<times> 'a BufferQueueCore_scheme" where
  "ReleaseBufferImpl c slot frame with_pending =
     (if bad_slot slot then (BadValue, None, [], c)
      else
        let pending = (if with_pending then Some (queue c \<noteq> []) else None)
        in if pending = Some False \<and> producers_waiting_for_slot c = 0
           then (WouldBlock, pending, [], c)
           else if frame \<noteq> frame_number (slots c ! nat slot) then (StaleBufferSlot, pending, [], c)
           else if \<exists>it \<in> set (queue c). it_slot it = slot then (BadValue, pending, [], c)
           else if buffer_state (slots c ! nat slot) = Acquired
           then
             let c1 = upd_slot (nat slot) (buffer_state_update (\<lambda>_. Free)) c
             in (NoError, pending,
                 case connected_producer_listener c1 of
                   Some l \<Rightarrow> [OnBufferReleased l] | None \<Rightarrow> [],
                 SignalDequeueCondition c1)
           else if needs_cleanup_on_release (slots c ! nat slot)
           then (StaleBufferSlot, pending, [],
                 upd_slot (nat slot) (needs_cleanup_on_release_update (\<lambda>_. False)) c)
           else (BadValue, pending, [], c))"

definition ReleaseBufferIfNeeded ::
    "'a BufferQueueCore_scheme \<Rightarrow> int \<Rightarrow> u64 \<Rightarrow>
     Status \<times> bool option \<times> Callback list \<times> 'a BufferQueueCore_scheme" where
  "ReleaseBufferIfNeeded c slot frame = ReleaseBufferImpl c slot frame True"

definition ReleaseBuffer ::
    "'a BufferQueueCore_scheme \<Rightarrow> int \<Rightarrow> u64 \<Rightarrow>
     Status \<times> bool option \<times> Callback list \<times> 'a BufferQueueCore_scheme" where
  "ReleaseBuffer c slot frame = ReleaseBufferImpl c slot frame False"

definition Consumer_Connect ::
    "'a BufferQueueCore_scheme \<Rightarrow> Listener option \<Rightarrow> bool \<Rightarrow> Status \<times> 'a BufferQueueCore_scheme" where
  "Consumer_Connect c listener controlled_by_app =
     (if listener = None then (BadValue, c)
      else if is_abandoned c then (NoInit, c)
      else (NoError, c\<lparr>consumer_listener := listener,
                       consumer_controlled_by_app := controlled_by_app\<rparr>))"

definition Consumer_Disconnect ::
    "'a BufferQueueCore_scheme \<Rightarrow> Status \<times> 'a BufferQueueCore_scheme" where
  "Consumer_Disconnect c =
     (if consumer_listener c = None then (BadValue, c)
      else (NoError,
            SignalDequeueCondition (FreeAllBuffersLocked
              (c\<lparr>is_abandoned := True, consumer_listener := None, queue := [],
                 has_queued_buffer := False\<rparr>))))"

definition GetReleasedBuffers ::
    "'a BufferQueueCore_scheme \<Rightarrow> bool \<Rightarrow> Status \<times> u64 option" where
  "GetReleasedBuffers c has_out_slot_mask =
     (if \<not> has_out_slot_mask then (BadValue, None)
      else if is_abandoned c then (NoInit, None)
      else
        let m = fold (\<lambda>s m. if \<not> acquire_called (slots c ! s) then m OR push_bit s 1 else m)
                     [0..<NUM_BUFFER_SLOTS] 0
        in (NoError,
            Some (fold (\<lambda>it m. if it_acquire_called it
                               then m AND NOT (push_bit (nat (it_slot it)) 1) else m)
                       (queue c) m)))"

end
