(* ===== verification/Buffer_Item_Consumer.thy ===== *)
theory Buffer_Item_Consumer
  imports Buffer_Queue_Consumer
begin

text \<open>
  The display side of the queue: \<^verbatim>\<open>consumer_base.cpp\<close> and \<^verbatim>\<open>buffer_item_consumer.cpp\<close>.  It keeps,
  per slot, the buffer it last saw there, because the queue sends the buffer of a slot only once.  Its
  state is a record of its own; an operation takes it and the core, and returns both.
  \<^const>\<open>None\<close> is a null pointer that is followed: the queue's pointer after \<^verbatim>\<open>Abandon\<close>, or a buffer.
\<close>

record ConsumerSlot =
  cs_graphic_buffer :: "GraphicBuffer option"
  cs_fence :: Fence
  cs_frame_number :: u64

record ConsumerBase =
  cb_slots :: "ConsumerSlot list"
  cb_is_abandoned :: bool
  cb_consumer :: bool

definition new_ConsumerBase :: ConsumerBase where
  "new_ConsumerBase =
     \<lparr>cb_slots = replicate NUM_BUFFER_SLOTS
        \<lparr>cs_graphic_buffer = None, cs_fence = new_Fence, cs_frame_number = 0\<rparr>,
      cb_is_abandoned = False, cb_consumer = True\<rparr>"

definition cb_upd :: "nat \<Rightarrow> (ConsumerSlot \<Rightarrow> ConsumerSlot) \<Rightarrow> ConsumerBase \<Rightarrow> ConsumerBase" where
  "cb_upd i f cb = cb\<lparr>cb_slots := (cb_slots cb)[i := f (cb_slots cb ! i)]\<rparr>"

definition cb_FreeBufferLocked :: "nat \<Rightarrow> ConsumerBase \<Rightarrow> ConsumerBase" where
  "cb_FreeBufferLocked slot_index cb =
     cb_upd slot_index
       (\<lambda>s. s\<lparr>cs_graphic_buffer := None, cs_fence := NoFence, cs_frame_number := 0\<rparr>) cb"

definition cb_Connect ::
    "ConsumerBase \<Rightarrow> 'a BufferQueueCore_scheme \<Rightarrow> Listener \<Rightarrow> bool \<Rightarrow>
     'a BufferQueueCore_scheme option" where
  "cb_Connect cb c self controlled_by_app =
     (if cb_consumer cb then Some (snd (Consumer_Connect c (Some self) controlled_by_app)) else None)"

definition cb_AbandonLocked ::
    "ConsumerBase \<Rightarrow> 'a BufferQueueCore_scheme \<Rightarrow> (ConsumerBase \<times> 'a BufferQueueCore_scheme) option" where
  "cb_AbandonLocked cb c =
     (let cb1 = fold cb_FreeBufferLocked [0..<NUM_BUFFER_SLOTS] cb
      in if cb_consumer cb1
         then Some (cb1\<lparr>cb_consumer := False\<rparr>, snd (Consumer_Disconnect c)) else None)"

definition cb_Abandon ::
    "ConsumerBase \<Rightarrow> 'a BufferQueueCore_scheme \<Rightarrow> (ConsumerBase \<times> 'a BufferQueueCore_scheme) option" where
  "cb_Abandon cb c =
     (if cb_is_abandoned cb then Some (cb, c)
      else case cb_AbandonLocked cb c of
             None \<Rightarrow> None
           | Some (cb1, c1) \<Rightarrow> Some (cb1\<lparr>cb_is_abandoned := True\<rparr>, c1))"

text \<open>The listener calls for new and replaced frames do nothing; this is the third one.\<close>

definition cb_OnBuffersReleased ::
    "ConsumerBase \<Rightarrow> 'a BufferQueueCore_scheme \<Rightarrow> ConsumerBase option" where
  "cb_OnBuffersReleased cb c =
     (if cb_is_abandoned cb then Some cb
      else if \<not> cb_consumer cb then None
      else
        let m = (case snd (GetReleasedBuffers c True) of Some m \<Rightarrow> m | None \<Rightarrow> 0)
        in Some (fold (\<lambda>i cb. if m AND push_bit i 1 \<noteq> 0 then cb_FreeBufferLocked i cb else cb)
                   [0..<NUM_BUFFER_SLOTS] cb))"

text \<open>Whether the cached buffer has the handle of the given one, whose pointer is then followed.\<close>

definition cb_StillTracking :: "ConsumerBase \<Rightarrow> int \<Rightarrow> GraphicBuffer option \<Rightarrow> bool option" where
  "cb_StillTracking cb slot gb =
     (if bad_slot slot then Some False
      else case cs_graphic_buffer (cb_slots cb ! nat slot) of
             None \<Rightarrow> Some False
           | Some b \<Rightarrow> (case gb of None \<Rightarrow> None | Some g \<Rightarrow> Some (gb_handle b = gb_handle g)))"

definition AcquireBufferLocked ::
    "ConsumerBase \<Rightarrow> 'a BufferQueueCore_scheme \<Rightarrow> int \<Rightarrow>
     (Status \<times> BufferItem option \<times> ConsumerBase \<times> 'a BufferQueueCore_scheme) option" where
  "AcquireBufferLocked cb c present_when =
     (if \<not> cb_consumer cb then None
      else
        case AcquireBuffer c present_when of
          (err, Some item, c1) \<Rightarrow>
            let i = nat (it_slot item);
                cb1 = (if it_graphic_buffer item \<noteq> None
                       then cb_upd i (cs_graphic_buffer_update (\<lambda>_. it_graphic_buffer item)) cb
                       else cb);
                cb2 = cb_upd i (\<lambda>s. s\<lparr>cs_frame_number := it_frame_number item,
                                       cs_fence := it_fence item\<rparr>) cb1
            in Some (NoError, Some item, cb2, c1)
        | (err, None, c1) \<Rightarrow> Some (err, None, cb, c1))"

definition AddReleaseFenceLocked ::
    "ConsumerBase \<Rightarrow> int \<Rightarrow> GraphicBuffer option \<Rightarrow> Fence \<Rightarrow> (Status \<times> ConsumerBase) option" where
  "AddReleaseFenceLocked cb slot gb fnc =
     (case cb_StillTracking cb slot gb of
        None \<Rightarrow> None
      | Some False \<Rightarrow> Some (NoError, cb)
      | Some True \<Rightarrow> Some (NoError, cb_upd (nat slot) (cs_fence_update (\<lambda>_. fnc)) cb))"

definition ReleaseBufferLocked ::
    "ConsumerBase \<Rightarrow> 'a BufferQueueCore_scheme \<Rightarrow> int \<Rightarrow> GraphicBuffer option \<Rightarrow> bool \<Rightarrow>
     (Status \<times> bool option \<times> Callback list \<times> ConsumerBase \<times> 'a BufferQueueCore_scheme) option" where
  "ReleaseBufferLocked cb c slot gb with_pending =
     (case cb_StillTracking cb slot gb of
        None \<Rightarrow> None
      | Some False \<Rightarrow> Some (NoError, None, [], cb, c)
      | Some True \<Rightarrow>
          if \<not> cb_consumer cb then None
          else
            let frame = cs_frame_number (cb_slots cb ! nat slot);
                (err, pending, calls, c1) =
                  (if with_pending then ReleaseBufferIfNeeded c slot frame
                   else ReleaseBuffer c slot frame)
            in if err = WouldBlock then Some (err, pending, calls, cb, c1)
               else
                 let cb1 = (if err = StaleBufferSlot then cb_FreeBufferLocked (nat slot) cb else cb);
                     cb2 = cb_upd (nat slot) (cs_fence_update (\<lambda>_. NoFence)) cb1
                 in Some (err, pending, calls, cb2, c1))"

section \<open>BufferItemConsumer\<close>

definition Item_GetBufferQueueHints ::
    "ConsumerBase \<Rightarrow> 'a BufferQueueCore_scheme \<Rightarrow> (bool \<times> bool) option" where
  "Item_GetBufferQueueHints cb c = (if cb_consumer cb then Some (GetBufferQueueHints c) else None)"

definition Item_AcquireBuffer ::
    "ConsumerBase \<Rightarrow> 'a BufferQueueCore_scheme \<Rightarrow> bool \<Rightarrow> int \<Rightarrow>
     (Status \<times> BufferItem option \<times> ConsumerBase \<times> 'a BufferQueueCore_scheme) option" where
  "Item_AcquireBuffer cb c has_item present_when =
     (if \<not> has_item then Some (BadValue, None, cb, c)
      else
        case AcquireBufferLocked cb c present_when of
          None \<Rightarrow> None
        | Some (status, None, cb1, c1) \<Rightarrow> Some (status, None, cb1, c1)
        | Some (status, Some item, cb1, c1) \<Rightarrow>
            Some (NoError,
                  Some (item\<lparr>it_graphic_buffer :=
                               cs_graphic_buffer (cb_slots cb1 ! nat (it_slot item))\<rparr>), cb1, c1))"

definition Item_ReleaseBufferIfNeeded ::
    "ConsumerBase \<Rightarrow> 'a BufferQueueCore_scheme \<Rightarrow> BufferItem \<Rightarrow>
     (Status \<times> bool \<times> Callback list \<times> ConsumerBase \<times> 'a BufferQueueCore_scheme) option" where
  "Item_ReleaseBufferIfNeeded cb c item =
     (case ReleaseBufferLocked cb c (it_slot item) (it_graphic_buffer item) True of
        None \<Rightarrow> None
      | Some (status, pending, calls, cb1, c1) \<Rightarrow>
          Some (status, (case pending of Some b \<Rightarrow> b | None \<Rightarrow> False), calls, cb1, c1))"

definition Item_ReleaseBuffer ::
    "ConsumerBase \<Rightarrow> 'a BufferQueueCore_scheme \<Rightarrow> BufferItem \<Rightarrow> Fence \<Rightarrow>
     (Status \<times> Callback list \<times> ConsumerBase \<times> 'a BufferQueueCore_scheme) option" where
  "Item_ReleaseBuffer cb c item release_fence =
     (case AddReleaseFenceLocked cb (it_slot item) (it_graphic_buffer item) release_fence of
        None \<Rightarrow> None
      | Some (_, cb1) \<Rightarrow>
          (case ReleaseBufferLocked cb1 c (it_slot item) (it_graphic_buffer item) False of
             None \<Rightarrow> None
           | Some (status, _, calls, cb2, c2) \<Rightarrow>
               Some (if status \<noteq> NoError then status else NoError, calls, cb2, c2)))"

end
