(* ===== verification/Buffer_Queue_Invariant.thy ===== *)
theory Buffer_Queue_Invariant
  imports Buffer_Item_Consumer
begin

text \<open>
  The invariant of the buffer queue and its preservation by the operations of both ends.  It speaks of
  the slots and the queue only, so that every other member of the core may change freely.
\<close>

section \<open>Slots and the items that track them\<close>

lemma NUM_64 [simp]: "NUM_BUFFER_SLOTS = 64"
  by (simp add: NUM_BUFFER_SLOTS_def)

lemma upd_slot_simps [simp]:
  "slots (upd_slot s f c) = (slots c)[s := f (slots c ! s)]"
  "queue (upd_slot s f c) = queue c"
  "has_queued_buffer (upd_slot s f c) = has_queued_buffer c"
  "is_abandoned (upd_slot s f c) = is_abandoned c"
  "override_max_buffer_count (upd_slot s f c) = override_max_buffer_count c"
  "default_max_buffer_count (upd_slot s f c) = default_max_buffer_count c"
  by (simp_all add: upd_slot_def)

lemma Signal_simps [simp]:
  "slots (SignalDequeueCondition c) = slots c"
  "queue (SignalDequeueCondition c) = queue c"
  "has_queued_buffer (SignalDequeueCondition c) = has_queued_buffer c"
  "is_abandoned (SignalDequeueCondition c) = is_abandoned c"
  "override_max_buffer_count (SignalDequeueCondition c) = override_max_buffer_count c"
  "default_max_buffer_count (SignalDequeueCondition c) = default_max_buffer_count c"
  "slots (Signal p) = slots p"
  "queue (Signal p) = queue p"
  "has_queued_buffer (Signal p) = has_queued_buffer p"
  "is_abandoned (Signal p) = is_abandoned p"
  "override_max_buffer_count (Signal p) = override_max_buffer_count p"
  "default_max_buffer_count (Signal p) = default_max_buffer_count p"
  by (simp_all add: SignalDequeueCondition_def Signal_def)

definition tracks :: "BufferSlot list \<Rightarrow> BufferItem \<Rightarrow> bool" where
  "tracks sls it =
     (graphic_buffer (sls ! nat (it_slot it)) \<noteq> None \<and>
      same_buffer (it_graphic_buffer it) (graphic_buffer (sls ! nat (it_slot it))))"

lemma StillTracking_tracks: "StillTracking c it = tracks (slots c) it"
  by (simp add: StillTracking_def tracks_def Let_def)

definition tracked :: "BufferSlot list \<Rightarrow> BufferItem list \<Rightarrow> nat list" where
  "tracked sls q = map (nat \<circ> it_slot) (filter (tracks sls) q)"

lemma tracked_simps [simp]:
  "tracked sls [] = []"
  "tracked sls (it # q) =
     (if tracks sls it then nat (it_slot it) # tracked sls q else tracked sls q)"
  "tracked sls (q @ q') = tracked sls q @ tracked sls q'"
  by (simp_all add: tracked_def)

definition single_acquired :: "BufferSlot list \<Rightarrow> bool" where
  "single_acquired sls \<longleftrightarrow>
     (\<forall>s < 64. \<forall>t < 64. buffer_state (sls ! s) = Acquired \<and> buffer_state (sls ! t) = Acquired
        \<longrightarrow> s = t)"

definition q_inv :: "BufferSlot list \<Rightarrow> BufferItem list \<Rightarrow> bool" where
  "q_inv sls q \<longleftrightarrow>
     length sls = 64 \<and> (\<forall>it \<in> set q. 0 \<le> it_slot it \<and> it_slot it < 64) \<and>
     distinct (tracked sls q) \<and> (\<forall>s \<in> set (tracked sls q). buffer_state (sls ! s) = Queued) \<and>
     single_acquired sls"

text \<open>No slot is lost: a queued slot has an item that tracks it.\<close>

definition q_full :: "BufferSlot list \<Rightarrow> BufferItem list \<Rightarrow> bool" where
  "q_full sls q \<longleftrightarrow> (\<forall>s < 64. buffer_state (sls ! s) = Queued \<longrightarrow> s \<in> set (tracked sls q))"

text \<open>
  How a slot may change without the queue: it keeps its buffer and is not moved out of the queued
  state, or no queued item refers to its new buffer.
\<close>

definition slot_change ::
    "BufferItem list \<Rightarrow> nat \<Rightarrow> BufferSlot \<Rightarrow> BufferSlot \<Rightarrow> bool" where
  "slot_change q s a b \<longleftrightarrow>
     (graphic_buffer b = graphic_buffer a \<and> (buffer_state a = Queued \<longrightarrow> buffer_state b = Queued)) \<or>
     graphic_buffer b = None \<or>
     (\<forall>it \<in> set q. it_slot it = int s \<longrightarrow>
        \<not> same_buffer (it_graphic_buffer it) (graphic_buffer b))"

lemma slot_change_refl [simp]: "slot_change q s a a"
  by (simp add: slot_change_def)


lemma tracks_change:
  assumes q: "\<forall>it \<in> set q. 0 \<le> it_slot it \<and> it_slot it < 64"
    and ch: "\<forall>s < 64. slot_change q s (sls ! s) (sls' ! s)"
    and it: "it \<in> set q" "tracks sls' it"
  shows "tracks sls it \<and>
    (buffer_state (sls ! nat (it_slot it)) = Queued \<longrightarrow>
     buffer_state (sls' ! nat (it_slot it)) = Queued)"
proof -
  let ?s = "nat (it_slot it)"
  have r: "0 \<le> it_slot it" "it_slot it < 64" using q it(1) by blast+
  then have "?s < 64" "it_slot it = int ?s" by simp_all
  then have "slot_change q ?s (sls ! ?s) (sls' ! ?s)" using ch by blast
  moreover have "graphic_buffer (sls' ! ?s) \<noteq> None"
    "same_buffer (it_graphic_buffer it) (graphic_buffer (sls' ! ?s))"
    using it(2) by (auto simp: tracks_def)
  ultimately have "graphic_buffer (sls' ! ?s) = graphic_buffer (sls ! ?s) \<and>
    (buffer_state (sls ! ?s) = Queued \<longrightarrow> buffer_state (sls' ! ?s) = Queued)"
    using it(1) \<open>it_slot it = int ?s\<close> unfolding slot_change_def by blast
  then show ?thesis using it(2) by (simp add: tracks_def)
qed

lemma tracked_change:
  assumes q: "\<forall>it \<in> set q. 0 \<le> it_slot it \<and> it_slot it < 64"
    and ch: "\<forall>s < 64. slot_change q s (sls ! s) (sls' ! s)"
  shows "tracked sls' q = map (nat \<circ> it_slot) (filter (tracks sls') (filter (tracks sls) q))"
proof -
  have "filter (tracks sls') q = filter (tracks sls') (filter (tracks sls) q)"
    unfolding filter_filter by (rule filter_cong) (use tracks_change [OF q ch] in auto)
  then show ?thesis unfolding tracked_def by simp
qed

lemma q_inv_change:
  assumes inv: "q_inv sls q" and len: "length sls' = 64"
    and ch: "\<forall>s < 64. slot_change q s (sls ! s) (sls' ! s)"
    and acq: "single_acquired sls'"
  shows "q_inv sls' q"
proof -
  have q: "\<forall>it \<in> set q. 0 \<le> it_slot it \<and> it_slot it < 64"
    and d: "distinct (map (nat \<circ> it_slot) (filter (tracks sls) q))"
    and st: "\<forall>s \<in> set (tracked sls q). buffer_state (sls ! s) = Queued"
    using inv by (simp_all add: q_inv_def tracked_def)
  have "distinct (tracked sls' q)"
    unfolding tracked_change [OF q ch] by (rule distinct_map_filter [OF d])
  moreover have "buffer_state (sls' ! s) = Queued" if s: "s \<in> set (tracked sls' q)" for s
  proof -
    obtain it where it: "it \<in> set q" "tracks sls' it" "s = nat (it_slot it)"
      using s by (auto simp: tracked_def)
    have t: "tracks sls it"
      "buffer_state (sls ! s) = Queued \<longrightarrow> buffer_state (sls' ! s) = Queued"
      using tracks_change [OF q ch it(1,2)] it(3) by simp_all
    have "s \<in> set (tracked sls q)" using t(1) it unfolding tracked_def by force
    then show ?thesis using st t(2) by blast
  qed
  ultimately show ?thesis using q len acq by (simp add: q_inv_def)
qed

lemma q_inv_length: "q_inv sls q \<Longrightarrow> length sls = 64"
  by (simp add: q_inv_def)

lemma q_inv_nil: "length sls = 64 \<Longrightarrow> single_acquired sls \<Longrightarrow> q_inv sls []"
  by (simp add: q_inv_def)

lemma single_acquired_change:
  assumes "single_acquired sls"
    and "\<forall>s < 64. buffer_state (sls' ! s) = Acquired \<longrightarrow> buffer_state (sls ! s) = Acquired"
  shows "single_acquired sls'"
  using assms unfolding single_acquired_def by blast

text \<open>The same for one slot.\<close>

lemma q_inv_upd:
  assumes inv: "q_inv sls q" and s: "s < 64" and ch: "slot_change q s (sls ! s) x"
    and acq: "buffer_state x = Acquired \<longrightarrow> buffer_state (sls ! s) = Acquired"
  shows "q_inv (sls[s := x]) q"
proof (rule q_inv_change [OF inv])
  have len: "length sls = 64" using inv by (rule q_inv_length)
  show "length (sls[s := x]) = 64" using len by simp
  have n: "sls[s := x] ! t = (if t = s then x else sls ! t)" if "t < 64" for t
    using that len s by (simp add: nth_list_update)
  show "\<forall>t < 64. slot_change q t (sls ! t) (sls[s := x] ! t)"
    using ch by (simp add: n)
  have "\<forall>t < 64. buffer_state (sls[s := x] ! t) = Acquired \<longrightarrow> buffer_state (sls ! t) = Acquired"
    using acq by (simp add: n)
  moreover have "single_acquired sls" using inv by (simp add: q_inv_def)
  ultimately show "single_acquired (sls[s := x])" by (rule single_acquired_change [rotated])
qed

lemma q_full_change:
  assumes full: "q_full sls q"
    and ch: "\<forall>s < 64. buffer_state (sls' ! s) = Queued \<longrightarrow>
      buffer_state (sls ! s) = Queued \<and> graphic_buffer (sls' ! s) = graphic_buffer (sls ! s)"
    and q: "\<forall>it \<in> set q. 0 \<le> it_slot it \<and> it_slot it < 64"
  shows "q_full sls' q"
  unfolding q_full_def
proof (intro allI impI)
  fix s :: nat assume s: "s < 64" "buffer_state (sls' ! s) = Queued"
  then have g: "buffer_state (sls ! s) = Queued"
    "graphic_buffer (sls' ! s) = graphic_buffer (sls ! s)" using ch by blast+
  then have "s \<in> set (tracked sls q)" using full s(1) by (simp add: q_full_def)
  then obtain it where "it \<in> set q" "tracks sls it" "s = nat (it_slot it)"
    by (auto simp: tracked_def)
  then have "it \<in> set q" "tracks sls' it" "s = nat (it_slot it)" using g(2) by (auto simp: tracks_def)
  then show "s \<in> set (tracked sls' q)" unfolding tracked_def by force
qed

lemma q_full_upd:
  assumes full: "q_full sls q" and inv: "q_inv sls q" and s: "s < 64"
    and ch: "buffer_state x \<noteq> Queued"
  shows "q_full (sls[s := x]) q"
proof (rule q_full_change [OF full])
  have len: "length sls = 64" using inv by (rule q_inv_length)
  show "\<forall>t < 64. buffer_state (sls[s := x] ! t) = Queued \<longrightarrow>
      buffer_state (sls ! t) = Queued \<and> graphic_buffer (sls[s := x] ! t) = graphic_buffer (sls ! t)"
    using len ch s by (simp add: nth_list_update)
  show "\<forall>it \<in> set q. 0 \<le> it_slot it \<and> it_slot it < 64" using inv by (simp add: q_inv_def)
qed

lemma not_tracked:
  assumes "q_inv sls q" and "buffer_state (sls ! s) \<noteq> Queued"
  shows "s \<notin> set (tracked sls q)"
  using assms by (auto simp: q_inv_def)

lemma tracked_same:
  assumes "\<forall>it \<in> set q. graphic_buffer (sls' ! nat (it_slot it)) = graphic_buffer (sls ! nat (it_slot it))"
  shows "tracked sls' q = tracked sls q"
proof -
  have "filter (tracks sls') q = filter (tracks sls) q"
    by (rule filter_cong) (use assms in \<open>simp_all add: tracks_def\<close>)
  then show ?thesis by (simp add: tracked_def)
qed

lemma tracked_upd_same:
  assumes "graphic_buffer x = graphic_buffer (sls ! s)"
  shows "tracked (sls[s := x]) q = tracked sls q"
proof (rule tracked_same, rule ballI)
  fix it
  show "graphic_buffer (sls[s := x] ! nat (it_slot it)) = graphic_buffer (sls ! nat (it_slot it))"
    using assms by (cases "s < length sls") (auto simp: nth_list_update list_update_beyond)
qed

section \<open>Queueing and acquiring\<close>

lemma enqueue_inv:
  assumes inv: "q_inv (slots c) (queue c)" and s: "s < 64"
    and st: "buffer_state (slots c ! s) = Queued" and new: "s \<notin> set (tracked (slots c) (queue c))"
    and item: "it_slot item = int s" "tracks (slots c) item"
    and e: "enqueue_item c item = (av, c')"
  shows "q_inv (slots c') (queue c')"
proof -
  let ?sls = "slots c"
  have len: "length ?sls = 64" and acq: "single_acquired ?sls" using inv by (simp_all add: q_inv_def)
  show ?thesis
  proof (cases "queue c")
    case Nil
    then show ?thesis using e item st s len acq by (auto simp: enqueue_item_def q_inv_def)
  next
    case (Cons front rest)
    show ?thesis
    proof (cases "it_is_droppable front \<and> tracks ?sls front")
      case False
      then consider "av = True" "c' = c\<lparr>queue := queue c @ [item]\<rparr>"
        | "\<not> tracks ?sls front" "c' = c\<lparr>queue := item # rest\<rparr>"
        using e Cons by (auto simp: enqueue_item_def StillTracking_tracks split: if_splits)
      then show ?thesis
      proof cases
        case 1
        then show ?thesis using inv new st item s by (auto simp: q_inv_def)
      next
        case 2
        then show ?thesis using inv new st item s Cons by (auto simp: q_inv_def)
      qed
    next
      case True
      let ?f = "nat (it_slot front)"
      let ?x = "(?sls ! ?f)\<lparr>buffer_state := Free, frame_number := 0\<rparr>"
      have c': "slots c' = ?sls[?f := ?x]" "queue c' = item # rest"
        using e Cons True by (simp_all add: enqueue_item_def StillTracking_tracks Let_def
            split: prod.splits) (auto)
      have t: "tracked ?sls (queue c) = ?f # tracked ?sls rest" using Cons True by simp
      have f: "?f < 64" "?f \<noteq> s" "?f \<notin> set (tracked ?sls rest)" "s \<notin> set (tracked ?sls rest)"
        using inv new True Cons unfolding q_inv_def t by auto
      have same: "tracked (?sls[?f := ?x]) q = tracked ?sls q" for q
        by (rule tracked_upd_same) simp
      have "tracked (?sls[?f := ?x]) (item # rest) = s # tracked ?sls rest"
        using same [of "[item]"] item by (simp add: same split: if_splits)
      moreover have "single_acquired (?sls[?f := ?x])"
        by (rule single_acquired_change [OF acq]) (use f len in \<open>simp add: nth_list_update\<close>)
      ultimately show ?thesis
        using inv Cons f item s st len unfolding c' q_inv_def t
        by (auto simp: nth_list_update)
    qed
  qed
qed

lemma enqueue_full:
  assumes inv: "q_inv (slots c) (queue c)" and s: "s < 64"
    and full: "\<forall>t < 64. buffer_state (slots c ! t) = Queued \<longrightarrow>
      t = s \<or> t \<in> set (tracked (slots c) (queue c))"
    and item: "it_slot item = int s" "tracks (slots c) item"
    and e: "enqueue_item c item = (av, c')"
  shows "q_full (slots c') (queue c')"
proof -
  let ?sls = "slots c"
  have len: "length ?sls = 64" using inv by (simp add: q_inv_def)
  show ?thesis
  proof (cases "queue c")
    case Nil
    then show ?thesis using e item full by (auto simp: enqueue_item_def q_full_def)
  next
    case (Cons front rest)
    show ?thesis
    proof (cases "it_is_droppable front \<and> tracks ?sls front")
      case False
      then consider "c' = c\<lparr>queue := queue c @ [item]\<rparr>"
        | "\<not> tracks ?sls front" "c' = c\<lparr>queue := item # rest\<rparr>"
        using e Cons by (auto simp: enqueue_item_def StillTracking_tracks split: if_splits)
      then show ?thesis
        by cases (use full item Cons in \<open>auto simp: q_full_def\<close>)
    next
      case True
      let ?f = "nat (it_slot front)"
      let ?x = "(?sls ! ?f)\<lparr>buffer_state := Free, frame_number := 0\<rparr>"
      have c': "slots c' = ?sls[?f := ?x]" "queue c' = item # rest"
        using e Cons True by (simp_all add: enqueue_item_def StillTracking_tracks Let_def
            split: prod.splits) (auto)
      have t: "tracked ?sls (queue c) = ?f # tracked ?sls rest" using Cons True by simp
      have f: "?f < 64" using inv Cons by (auto simp: q_inv_def)
      have same: "tracked (?sls[?f := ?x]) q = tracked ?sls q" for q
        by (rule tracked_upd_same) simp
      have tr: "tracked (?sls[?f := ?x]) (item # rest) = s # tracked ?sls rest"
        using same [of "[item]"] item by (simp add: same split: if_splits)
      show ?thesis
        using full len f unfolding c' q_full_def tr t by (auto simp: nth_list_update)
    qed
  qed
qed

lemma erase_front_simps [simp]:
  "slots (erase_front c) = slots c" "queue (erase_front c) = tl (queue c)"
  "has_queued_buffer (erase_front c) = (tl (queue c) \<noteq> [])"
  "is_abandoned (erase_front c) = is_abandoned c"
  "override_max_buffer_count (erase_front c) = override_max_buffer_count c"
  "default_max_buffer_count (erase_front c) = default_max_buffer_count c"
  by (simp_all add: erase_front_def Let_def)

text \<open>Popping the front item and, when it is tracked, moving its slot out of the queued state.\<close>

lemma pop_front_inv:
  assumes inv: "q_inv sls (front # rest)" and st: "buffer_state x \<noteq> Queued"
    and gb: "graphic_buffer x = graphic_buffer (sls ! nat (it_slot front))"
    and acq: "buffer_state x = Acquired \<longrightarrow> (\<forall>s < 64. buffer_state (sls ! s) \<noteq> Acquired)"
    and sls': "sls' = (if tracks sls front then sls[nat (it_slot front) := x] else sls)"
  shows "q_inv sls' rest" and "q_full sls (front # rest) \<Longrightarrow> q_full sls' rest"
proof -
  let ?f = "nat (it_slot front)"
  have len: "length sls = 64" and f': "0 \<le> it_slot front \<and> it_slot front < 64"
    and ac: "single_acquired sls"
    and r: "\<forall>it \<in> set rest. 0 \<le> it_slot it \<and> it_slot it < 64"
    and d: "distinct (tracked sls (front # rest))"
    and q: "\<forall>s \<in> set (tracked sls (front # rest)). buffer_state (sls ! s) = Queued"
    using inv unfolding q_inv_def by simp_all
  have f: "?f < 64" using f' by arith
  have same: "tracked (sls[?f := x]) rest = tracked sls rest" by (rule tracked_upd_same [OF gb])
  have "single_acquired (sls[?f := x])"
    using ac acq len f unfolding single_acquired_def by (auto simp: nth_list_update)
  then show "q_inv sls' rest"
    using r d q len f ac unfolding q_inv_def sls'
    by (auto simp: same nth_list_update split: if_splits)
  show "q_full sls' rest" if "q_full sls (front # rest)"
    using that len f st unfolding q_full_def sls'
    by (auto simp: same nth_list_update split: if_splits)
qed

text \<open>
  What the two ends must keep: the queue invariant, the flag the display side polls, and the range of the
  buffer count.
\<close>

definition core_inv :: "'a BufferQueueCore_scheme \<Rightarrow> bool" where
  "core_inv c \<longleftrightarrow>
     q_inv (slots c) (queue c) \<and> (has_queued_buffer c \<longleftrightarrow> queue c \<noteq> []) \<and>
     0 \<le> override_max_buffer_count c \<and> override_max_buffer_count c \<le> 64 \<and>
     default_max_buffer_count c = 2 \<and> (is_abandoned c \<longrightarrow> queue c = [])"

abbreviation core_full :: "'a BufferQueueCore_scheme \<Rightarrow> bool" where
  "core_full c \<equiv> q_full (slots c) (queue c)"

lemma core_inv_q: "core_inv c \<Longrightarrow> q_inv (slots c) (queue c)"
  by (simp add: core_inv_def)

lemma core_inv_length: "core_inv c \<Longrightarrow> length (slots c) = 64"
  by (simp add: core_inv_def q_inv_def)

lemma core_inv_upd:
  assumes "core_inv c" and "s < 64" and "slot_change (queue c) s (slots c ! s) (f (slots c ! s))"
    and "buffer_state (f (slots c ! s)) = Acquired \<longrightarrow> buffer_state (slots c ! s) = Acquired"
  shows "core_inv (upd_slot s f c)"
  using assms q_inv_upd [OF core_inv_q] by (simp add: core_inv_def)

lemma core_full_upd:
  assumes "core_full c" and "core_inv c" and "s < 64" and "buffer_state (f (slots c ! s)) \<noteq> Queued"
  shows "core_full (upd_slot s f c)"
  using assms q_full_upd [OF _ core_inv_q] by simp

lemma no_acquired:
  assumes "\<not> num_acquired_buffers c \<ge> max_acquired_buffer_count + 1" and "s < length (slots c)"
  shows "buffer_state (slots c ! s) \<noteq> Acquired"
proof -
  have "length (filter (\<lambda>sl. buffer_state sl = Acquired) (slots c)) = 0"
    using assms(1) unfolding num_acquired_buffers_def max_acquired_buffer_count_def by linarith
  then show ?thesis using assms(2) by (auto simp: filter_empty_conv)
qed

text \<open>One dropped item; its slot, if tracked, is free again.\<close>

lemma drop_one:
  assumes inv: "core_inv c" and q: "queue c = front # second # rest"
    and c1: "c1 = (if StillTracking c front
      then upd_slot (nat (it_slot front)) (buffer_state_update (\<lambda>_. Free)) c else c)"
  shows "core_inv (erase_front c1)"
    and "core_full c \<Longrightarrow> core_full (erase_front c1)"
    and "queue (erase_front c1) = second # rest"
    and "\<forall>s < 64. buffer_state (slots (erase_front c1) ! s) = Acquired \<longrightarrow>
      buffer_state (slots c ! s) = Acquired"
    and "has_queued_buffer (erase_front c1)"
proof -
  let ?f = "nat (it_slot front)"
  let ?x = "(slots c ! ?f)\<lparr>buffer_state := Free\<rparr>"
  have sl: "slots c1 = (if tracks (slots c) front then (slots c)[?f := ?x] else slots c)"
    unfolding c1 StillTracking_tracks by simp
  have q1: "queue c1 = front # second # rest" unfolding c1 using q by simp
  have qi: "q_inv (slots c) (front # second # rest)" using inv q by (simp add: core_inv_def)
  have p: "q_inv (slots c1) (second # rest)"
    by (rule pop_front_inv(1) [OF qi _ _ _ sl]) simp_all
  have "override_max_buffer_count c1 = override_max_buffer_count c"
    "default_max_buffer_count c1 = default_max_buffer_count c" "is_abandoned c1 = is_abandoned c"
    unfolding c1 by simp_all
  then show "core_inv (erase_front c1)" using p inv q1 q by (simp add: core_inv_def)
  show "core_full (erase_front c1)" if "core_full c"
  proof -
    have "q_full (slots c1) (second # rest)"
      by (rule pop_front_inv(2) [OF qi _ _ _ sl]) (use that q in simp_all)
    then show ?thesis using q1 by simp
  qed
  show "queue (erase_front c1) = second # rest" using q1 by simp
  show "has_queued_buffer (erase_front c1)" using q1 by simp
  show "\<forall>s < 64. buffer_state (slots (erase_front c1) ! s) = Acquired \<longrightarrow>
      buffer_state (slots c ! s) = Acquired"
  proof (intro allI impI)
    fix s :: nat
    assume "s < 64" "buffer_state (slots (erase_front c1) ! s) = Acquired"
    then show "buffer_state (slots c ! s) = Acquired"
      using core_inv_length [OF inv] unfolding erase_front_simps sl
      by (cases "s = ?f") (auto split: if_splits)
  qed
qed

text \<open>The dropping loop keeps a suffix of the queue.\<close>

lemma drop_late_inv:
  assumes "core_inv c" and "queue c \<noteq> []"
  shows "core_inv (drop_late (queue c) expected c) \<and>
    (core_full c \<longrightarrow> core_full (drop_late (queue c) expected c)) \<and>
    queue (drop_late (queue c) expected c) \<noteq> [] \<and>
    (\<exists>dropped. queue c = dropped @ queue (drop_late (queue c) expected c)) \<and>
    (\<forall>s < 64. buffer_state (slots (drop_late (queue c) expected c) ! s) = Acquired \<longrightarrow>
       buffer_state (slots c ! s) = Acquired)"
  using assms
proof (induction "queue c" expected c rule: drop_late.induct)
  case (1 front second rest expected c)
  show ?case
  proof (cases "it_is_auto_timestamp front \<or> it_timestamp second < expected - MAX_REASONABLE_NSEC \<or>
      it_timestamp second > expected")
    case True
    then have "drop_late (queue c) expected c = c"
      unfolding 1(2) [symmetric] by (auto simp: Let_def)
    then show ?thesis using 1(3,4) by simp
  next
    case False
    define c1 where "c1 = (if StillTracking c front
      then upd_slot (nat (it_slot front)) (buffer_state_update (\<lambda>_. Free)) c else c)"
    note d = drop_one [OF 1(3) 1(2) [symmetric] c1_def]
    have step: "drop_late (queue c) expected c = drop_late (queue (erase_front c1)) expected (erase_front c1)"
      unfolding d(3) unfolding 1(2) [symmetric] using False by (simp add: Let_def c1_def)
    have ih: "core_inv (drop_late (queue (erase_front c1)) expected (erase_front c1)) \<and>
      (core_full (erase_front c1) \<longrightarrow>
        core_full (drop_late (queue (erase_front c1)) expected (erase_front c1))) \<and>
      queue (drop_late (queue (erase_front c1)) expected (erase_front c1)) \<noteq> [] \<and>
      (\<exists>dropped. queue (erase_front c1) =
        dropped @ queue (drop_late (queue (erase_front c1)) expected (erase_front c1))) \<and>
      (\<forall>s < 64. buffer_state (slots (drop_late (queue (erase_front c1)) expected (erase_front c1)) ! s)
         = Acquired \<longrightarrow> buffer_state (slots (erase_front c1) ! s) = Acquired)"
    proof (rule 1(1) [OF _ refl _ c1_def])
      show "\<not> it_is_auto_timestamp front" using False by blast
      show "\<not> (it_timestamp second < expected - MAX_REASONABLE_NSEC \<or>
        expected < it_timestamp second)" using False by blast
      show "second # rest = queue (erase_front c1)" using d(3) by simp
      show "core_inv (erase_front c1)" by (rule d(1))
      show "queue (erase_front c1) \<noteq> []" using d(3) by simp
    qed
    have "\<exists>dropped. queue c = dropped @ queue (drop_late (queue (erase_front c1)) expected (erase_front c1))"
      using ih unfolding 1(2) [symmetric] d(3) by (metis append_Cons)
    then show ?thesis using ih d(2,4) unfolding step by blast
  qed
qed (simp, drule sym, simp)

lemma AcquireBuffer_inv:
  assumes inv: "core_inv c" and a: "AcquireBuffer c expected = (st, item, c')"
  shows "core_inv c'" and "core_full c \<Longrightarrow> core_full c'"
proof -
  have "core_inv c' \<and> (core_full c \<longrightarrow> core_full c')"
  proof (cases "num_acquired_buffers c \<ge> max_acquired_buffer_count + 1 \<or> queue c = []")
    case True
    then have "c' = c" using a by (auto simp: AcquireBuffer_def split: if_splits)
    then show ?thesis using inv by simp
  next
    case False
    define c1 where "c1 = (if expected \<noteq> 0 then drop_late (queue c) expected c else c)"
    have c1: "core_inv c1" "core_full c \<longrightarrow> core_full c1" "queue c1 \<noteq> []"
      "\<forall>s < 64. buffer_state (slots c1 ! s) = Acquired \<longrightarrow> buffer_state (slots c ! s) = Acquired"
      using drop_late_inv [OF inv, of expected] False inv unfolding c1_def by (cases "expected = 0"; simp)+
    show ?thesis
    proof (cases "c' = c1")
      case True
      then show ?thesis using c1 by simp
    next
      case False2: False
      then have c': "c' = snd (take_front c1)"
        using a False unfolding AcquireBuffer_def c1_def [symmetric] Let_def
        by (auto split: if_splits prod.splits)
      obtain front rest where q: "queue c1 = front # rest" using c1(3) by (cases "queue c1") auto
      let ?f = "nat (it_slot front)"
      let ?x = "(slots c1 ! ?f)\<lparr>acquire_called := True, needs_cleanup_on_release := False,
        buffer_state := Acquired\<rparr>"
      have nacq: "\<forall>s < 64. buffer_state (slots c1 ! s) \<noteq> Acquired"
        using no_acquired [of c] False c1(4) core_inv_length [OF inv] by auto
      have qi: "q_inv (slots c1) (front # rest)" using c1(1) q by (simp add: core_inv_def)
      have sl: "slots c' = (if tracks (slots c1) front then (slots c1)[?f := ?x] else slots c1)"
        "queue c' = rest" "has_queued_buffer c' = (rest \<noteq> [])" "is_abandoned c' = is_abandoned c1"
        "override_max_buffer_count c' = override_max_buffer_count c1"
        "default_max_buffer_count c' = default_max_buffer_count c1"
        unfolding c' take_front_def Let_def q by (simp_all add: StillTracking_tracks q)
      have p: "q_inv (slots c') rest"
        by (rule pop_front_inv(1) [OF qi _ _ _ sl(1)]) (use nacq in simp_all)
      have f: "core_full c1 \<longrightarrow> q_full (slots c') rest"
      proof
        assume "core_full c1"
        then show "q_full (slots c') rest"
          by (intro pop_front_inv(2) [OF qi _ _ _ sl(1)]) (use nacq q in simp_all)
      qed
      show ?thesis using p f c1(1,2) q sl unfolding core_inv_def by auto
    qed
  qed
  then show "core_inv c'" "core_full c \<Longrightarrow> core_full c'" by blast+
qed

lemma ReleaseBufferImpl_state:
  fixes c :: "'a BufferQueueCore_scheme"
  assumes "c' = snd (snd (snd (ReleaseBufferImpl c slot frame wp)))"
  shows "c' = c \<or>
    \<not> bad_slot slot \<and> buffer_state (slots c ! nat slot) = Acquired \<and>
      c' = SignalDequeueCondition (upd_slot (nat slot) (buffer_state_update (\<lambda>_. Free)) c) \<or>
    \<not> bad_slot slot \<and>
      c' = upd_slot (nat slot) (needs_cleanup_on_release_update (\<lambda>_. False)) c"
  unfolding assms ReleaseBufferImpl_def Let_def by (simp del: not_less not_le)

lemma ReleaseBufferImpl_inv:
  assumes inv: "core_inv c" and r: "ReleaseBufferImpl c slot frame wp = (st, pending, calls, c')"
  shows "core_inv c'" and "core_full c \<Longrightarrow> core_full c'"
proof -
  have "core_inv c' \<and> (core_full c \<longrightarrow> core_full c')"
  proof (cases "bad_slot slot")
    case True
    then show ?thesis using r inv by (auto simp: ReleaseBufferImpl_def)
  next
    case False
    then have s: "nat slot < 64" by simp arith
    consider "c' = c"
      | "buffer_state (slots c ! nat slot) = Acquired"
        "c' = SignalDequeueCondition (upd_slot (nat slot) (buffer_state_update (\<lambda>_. Free)) c)"
      | "c' = upd_slot (nat slot) (needs_cleanup_on_release_update (\<lambda>_. False)) c"
      using ReleaseBufferImpl_state [of c' c slot frame wp] r by (metis snd_conv)
    then show ?thesis
    proof cases
      case 1
      then show ?thesis using inv by simp
    next
      case 2
      have "core_inv (upd_slot (nat slot) (buffer_state_update (\<lambda>_. Free)) c)"
        by (rule core_inv_upd [OF inv s]) (simp_all add: slot_change_def 2(1))
      moreover have "core_full c \<longrightarrow> core_full (upd_slot (nat slot) (buffer_state_update (\<lambda>_. Free)) c)"
        using core_full_upd [OF _ inv s, of "buffer_state_update (\<lambda>_. Free)"] by simp
      ultimately show ?thesis unfolding 2(2) core_inv_def by simp
    next
      case 3
      have "core_inv (upd_slot (nat slot) (needs_cleanup_on_release_update (\<lambda>_. False)) c)"
        by (rule core_inv_upd [OF inv s]) (simp_all add: slot_change_def)
      moreover have "core_full (upd_slot (nat slot) (needs_cleanup_on_release_update (\<lambda>_. False)) c)"
        if "core_full c"
        unfolding upd_slot_simps
      proof (rule q_full_change [OF that])
        have n: "(slots c)[nat slot := (slots c ! nat slot)\<lparr>needs_cleanup_on_release := False\<rparr>] ! t =
          (if t = nat slot then (slots c ! nat slot)\<lparr>needs_cleanup_on_release := False\<rparr>
           else slots c ! t)" if "t < 64" for t
          using that s core_inv_length [OF inv] by (simp add: nth_list_update)
        show "\<forall>t < 64. buffer_state ((slots c)[nat slot :=
            (slots c ! nat slot)\<lparr>needs_cleanup_on_release := False\<rparr>] ! t) = Queued \<longrightarrow>
          buffer_state (slots c ! t) = Queued \<and> graphic_buffer ((slots c)[nat slot :=
            (slots c ! nat slot)\<lparr>needs_cleanup_on_release := False\<rparr>] ! t) = graphic_buffer (slots c ! t)"
          by (simp add: n)
        show "\<forall>it \<in> set (queue c). 0 \<le> it_slot it \<and> it_slot it < 64"
          using core_inv_q [OF inv] by (simp add: q_inv_def)
      qed
      ultimately show ?thesis using 3 by simp
    qed
  qed
  then show "core_inv c'" "core_full c \<Longrightarrow> core_full c'" by blast+
qed

section \<open>Freeing buffers\<close>

lemma free_slot_simps [simp]:
  "graphic_buffer (free_slot sl) = None" "buffer_state (free_slot sl) = Free"
  by (simp_all add: free_slot_def Let_def)

lemma fold_FreeBufferLocked:
  "n \<le> length (slots c) \<Longrightarrow>
   fold FreeBufferLocked [0..<n] c = c\<lparr>slots := map free_slot (take n (slots c)) @ drop n (slots c)\<rparr>"
proof (induction n)
  case (Suc n)
  have "(map free_slot (take n (slots c)) @ drop n (slots c))
      [n := free_slot ((map free_slot (take n (slots c)) @ drop n (slots c)) ! n)] =
    map free_slot (take (Suc n) (slots c)) @ drop (Suc n) (slots c)"
    using Suc(2) by (simp add: nth_append list_update_append take_Suc_conv_app_nth
        Cons_nth_drop_Suc [symmetric])
  then show ?case using Suc by (simp add: FreeBufferLocked_def upd_slot_def)
qed simp

lemma FreeAll_eq:
  "length (slots c) = 64 \<Longrightarrow>
   FreeAllBuffersLocked c = c\<lparr>buffer_has_been_queued := False, slots := map free_slot (slots c)\<rparr>"
  using fold_FreeBufferLocked [of 64 "c\<lparr>buffer_has_been_queued := False\<rparr>"]
  by (simp add: FreeAllBuffersLocked_def)

lemma q_inv_free_all:
  assumes "q_inv sls q"
  shows "q_inv (map free_slot sls) q"
  by (rule q_inv_change [OF assms])
    (use assms in \<open>auto simp: q_inv_def slot_change_def single_acquired_def\<close>)

lemma q_full_free_all: "length sls = 64 \<Longrightarrow> q_full (map free_slot sls) q"
  by (simp add: q_full_def)

definition released :: "BufferSlot list \<Rightarrow> BufferSlot list \<Rightarrow> bool" where
  "released sls sls' \<longleftrightarrow> length sls' = length sls \<and>
     (\<forall>s < length sls. sls' ! s = sls ! s \<or>
        (sls' ! s = free_slot (sls ! s) \<and> buffer_state (sls ! s) = Free))"

lemma released_refl [simp]: "released sls sls"
  by (simp add: released_def)

lemma released_upd:
  assumes "released sls sls'" and "buffer_state (sls' ! s) = Free" and "s < length sls"
  shows "released sls (sls'[s := free_slot (sls' ! s)])"
proof -
  have f: "free_slot (free_slot sl) = free_slot sl" for sl
    by (simp add: free_slot_def Let_def)
  show ?thesis using assms unfolding released_def
    by (auto simp: nth_list_update f)
qed

definition release_one ::
    "nat \<Rightarrow> Status \<times> 'a BufferQueueCore_scheme \<Rightarrow> Status \<times> 'a BufferQueueCore_scheme" where
  "release_one s = (\<lambda>(flags, c).
     let sl = slots c ! s
     in if graphic_buffer sl \<noteq> None \<and> buffer_state sl = Free \<and> \<not> is_preallocated sl
        then (flags OR ReleaseAllBuffers, FreeBufferLocked s c) else (flags, c))"

lemma release_beyond_fold:
  assumes "released sls (slots c)" and "set xs \<subseteq> {..<length sls}"
  shows "\<exists>flags' sls'. fold release_one xs (flags, c) = (flags', c\<lparr>slots := sls'\<rparr>) \<and>
    released sls sls'"
  using assms
proof (induction xs arbitrary: flags c)
  case Nil
  then show ?case by (intro exI [of _ flags] exI [of _ "slots c"]) simp
next
  case (Cons s xs)
  have xs: "set xs \<subseteq> {..<length sls}" using Cons(3) by simp
  show ?case
  proof (cases "graphic_buffer (slots c ! s) \<noteq> None \<and> buffer_state (slots c ! s) = Free \<and>
      \<not> is_preallocated (slots c ! s)")
    case False
    then have "release_one s (flags, c) = (flags, c)" by (auto simp: release_one_def Let_def)
    then show ?thesis using Cons(1) [OF Cons(2) xs] by simp
  next
    case True
    have r: "released sls (slots (FreeBufferLocked s c))"
      unfolding FreeBufferLocked_def upd_slot_simps
      by (rule released_upd) (use Cons(2,3) True in simp_all)
    have e: "(FreeBufferLocked s c)\<lparr>slots := sls'\<rparr> = c\<lparr>slots := sls'\<rparr>" for sls'
      by (simp add: FreeBufferLocked_def upd_slot_def)
    have "release_one s (flags, c) = (flags OR ReleaseAllBuffers, FreeBufferLocked s c)"
      using True by (simp add: release_one_def Let_def)
    then show ?thesis
      using Cons(1) [OF r xs, of "flags OR ReleaseAllBuffers", unfolded e] by simp
  qed
qed

lemma release_beyond_eq:
  assumes "length (slots c) = 64"
  obtains flags' sls' where "release_beyond c m flags = (flags', c\<lparr>slots := sls'\<rparr>)"
    "released (slots c) sls'"
proof -
  have "set [nat m..<64] \<subseteq> {..<length (slots c)}" using assms by auto
  then show thesis
    using release_beyond_fold [OF released_refl, of "[nat m..<64]" c flags] that
    unfolding release_beyond_def release_one_def [abs_def] NUM_64 by blast
qed

lemma q_inv_released:
  assumes "q_inv sls q" and "released sls sls'"
  shows "q_inv sls' q"
proof (rule q_inv_change [OF assms(1)])
  have len: "length sls = 64" using assms(1) by (rule q_inv_length)
  then show "length sls' = 64" using assms(2) by (simp add: released_def)
  show "\<forall>s < 64. slot_change q s (sls ! s) (sls' ! s)"
    using assms(2) len unfolding released_def slot_change_def by (metis free_slot_simps(1))
  have "\<forall>s < 64. buffer_state (sls' ! s) = Acquired \<longrightarrow> buffer_state (sls ! s) = Acquired"
    using assms(2) len unfolding released_def by (metis free_slot_simps(2))
  then show "single_acquired sls'"
    using assms(1) single_acquired_change unfolding q_inv_def by blast
qed

lemma q_full_released:
  assumes "q_full sls q" and "q_inv sls q" and "released sls sls'"
  shows "q_full sls' q"
proof (rule q_full_change [OF assms(1)])
  have len: "length sls = 64" using assms(2) by (rule q_inv_length)
  show "\<forall>s < 64. buffer_state (sls' ! s) = Queued \<longrightarrow>
      buffer_state (sls ! s) = Queued \<and> graphic_buffer (sls' ! s) = graphic_buffer (sls ! s)"
    using assms(3) len unfolding released_def by (metis BufferState.distinct(4) free_slot_simps(2))
  show "\<forall>it \<in> set q. 0 \<le> it_slot it \<and> it_slot it < 64" using assms(2) by (simp add: q_inv_def)
qed

section \<open>The search for a free slot\<close>

lemma GetMaxBufferCount_range:
  assumes "0 \<le> override_max_buffer_count c" and "override_max_buffer_count c \<le> 64"
    and "default_max_buffer_count c = 2"
  shows "0 < GetMaxBufferCountLocked c async \<and> GetMaxBufferCountLocked c async \<le> 64"
proof -
  let ?f = "\<lambda>slot m. let state = buffer_state (slots c ! slot)
    in if state = Queued \<or> state = Dequeued then int slot + 1 else m"
  have fold: "0 < fold ?f xs m \<and> fold ?f xs m \<le> 64"
    if "\<forall>x \<in> set xs. x < 64" "0 < m" "m \<le> 64" for xs m
    using that by (induction xs arbitrary: m) (auto simp: Let_def)
  have "\<forall>x \<in> set [nat 2..<64]. x < 64" by simp
  from fold [OF this, of 2] show ?thesis
    using assms by (auto simp: GetMaxBufferCountLocked_def GetMinMaxBufferCountLocked_def
        GetMinUndequeuedBufferCountLocked_def use_async_buffer_def)
qed

lemma core_inv_max:
  "core_inv c \<Longrightarrow> 0 < GetMaxBufferCountLocked c async \<and> GetMaxBufferCountLocked c async \<le> 64"
  by (rule GetMaxBufferCount_range) (simp_all add: core_inv_def)

text \<open>The slot found is free and the oldest of the free ones; no slot is found only if none is free.\<close>

definition oldest_free :: "BufferSlot list \<Rightarrow> nat \<Rightarrow> int \<Rightarrow> bool" where
  "oldest_free sls n found \<longleftrightarrow>
     (found = INVALID_BUFFER_SLOT \<and> (\<forall>s < n. buffer_state (sls ! s) \<noteq> Free)) \<or>
     (0 \<le> found \<and> found < int n \<and> buffer_state (sls ! nat found) = Free \<and>
      (\<forall>s < n. buffer_state (sls ! s) = Free \<longrightarrow>
         frame_number (sls ! nat found) \<le> frame_number (sls ! s)))"

lemma oldest_free_Suc:
  assumes "oldest_free sls n found"
  shows "oldest_free sls (Suc n)
    (if buffer_state (sls ! n) = Free \<and>
        (found = INVALID_BUFFER_SLOT \<or> frame_number (sls ! n) < frame_number (sls ! nat found))
     then int n else found)"
  using assms unfolding oldest_free_def
  by (auto simp: less_Suc_eq INVALID_BUFFER_SLOT_def)

definition scan_one :: "BufferSlot list \<Rightarrow> nat \<Rightarrow> int \<times> int \<times> int \<Rightarrow> int \<times> int \<times> int" where
  "scan_one sls s = (\<lambda>(found, dequeued_count, acquired_count).
     case buffer_state (sls ! s) of
       Dequeued \<Rightarrow> (found, dequeued_count + 1, acquired_count)
     | Acquired \<Rightarrow> (found, dequeued_count, acquired_count + 1)
     | Free \<Rightarrow>
         (if found = INVALID_BUFFER_SLOT \<or>
             frame_number (sls ! s) < frame_number (sls ! nat found)
          then (int s, dequeued_count, acquired_count)
          else (found, dequeued_count, acquired_count))
     | Queued \<Rightarrow> (found, dequeued_count, acquired_count))"

lemma fst_scan_one:
  "fst (scan_one sls s x) = (if buffer_state (sls ! s) = Free \<and>
      (fst x = INVALID_BUFFER_SLOT \<or> frame_number (sls ! s) < frame_number (sls ! nat (fst x)))
     then int s else fst x)"
  by (cases x) (auto simp: scan_one_def split: BufferState.splits)

lemma scan_slots_found:
  assumes "scan_slots sls m = (found, dequeued, acquired)"
  shows "oldest_free sls (nat m) found"
proof -
  have "oldest_free sls n (fst (fold (scan_one sls) [0..<n] (INVALID_BUFFER_SLOT, 0, 0)))" for n
  proof (induction n)
    case 0
    show ?case by (simp add: oldest_free_def)
  next
    case (Suc n)
    have e: "fold (scan_one sls) [0..<Suc n] (INVALID_BUFFER_SLOT, 0, 0) =
      scan_one sls n (fold (scan_one sls) [0..<n] (INVALID_BUFFER_SLOT, 0, 0))" by simp
    show ?case unfolding e fst_scan_one by (rule oldest_free_Suc [OF Suc])
  qed
  from this [of "nat m"] show ?thesis using assms by (simp add: scan_slots_def scan_one_def [abs_def])
qed

lemma if_chain:
  "x = (if a then A else if b then A else if \<not> (p \<or> q) then B else if d then C else D) \<Longrightarrow>
   x = A \<or> x = B \<and> \<not> p \<or> x = C \<or> x = D"
  by (auto split: if_splits)

lemma WaitForFreeSlot_cases:
  assumes inv: "core_inv c" and w: "WaitForFreeSlot_iteration c async found0 flags0 = out"
  obtains (ret) st found flags where "out = Wait_Return st found flags c" "st \<noteq> NoError"
  | (fail) st found flags sls' where "out = Wait_Return st found flags (c\<lparr>slots := sls'\<rparr>)"
      "st \<noteq> NoError" "released (slots c) sls'"
  | (found) found flags sls' where "out = Wait_Return NoError found flags (c\<lparr>slots := sls'\<rparr>)"
      "released (slots c) sls'" "\<not> is_abandoned c" "0 \<le> found"
      "found < GetMaxBufferCountLocked c async"
      "oldest_free sls' (nat (GetMaxBufferCountLocked c async)) found"
  | (sleep) flags sls' where "out = Wait_Sleep flags (c\<lparr>slots := sls',
        producers_waiting_for_slot := producers_waiting_for_slot c + 1\<rparr>)"
      "released (slots c) sls'"
proof -
  let ?m = "GetMaxBufferCountLocked c async"
  have ne: "NoInit \<noteq> NoError" "BadValue \<noteq> NoError" "InvalidOperation \<noteq> NoError" "WouldBlock \<noteq> NoError"
    by (simp_all add: status_defs)
  obtain flags sls' where rb: "release_beyond c ?m flags0 = (flags, c\<lparr>slots := sls'\<rparr>)"
    "released (slots c) sls'" using release_beyond_eq [OF core_inv_length [OF inv]] by blast
  obtain f d a where sc: "scan_slots sls' ?m = (f, d, a)" using prod_cases3 by blast
  have of: "oldest_free sls' (nat ?m) f" by (rule scan_slots_found [OF sc])
  let ?c1 = "c\<lparr>slots := sls'\<rparr>"
  consider "is_abandoned c \<or> (async \<and> override_max_buffer_count c \<noteq> 0 \<and>
      override_max_buffer_count c < ?m)"
    | "\<not> is_abandoned c" "\<not> (async \<and> override_max_buffer_count c \<noteq> 0 \<and>
      override_max_buffer_count c < ?m)" by blast
  then show thesis
  proof cases
    case 1
    then have "\<exists>st found flags. out = Wait_Return st found flags c \<and> st \<noteq> NoError"
      using w ne unfolding WaitForFreeSlot_iteration_def by (auto simp: Let_def split: if_splits)
    then show thesis using ret by blast
  next
    case 2
    have out: "out =
      (if override_max_buffer_count c = 0 \<and> d \<noteq> 0 then Wait_Return InvalidOperation f flags ?c1
       else if buffer_has_been_queued c \<and> ?m - (d + 1) < GetMinUndequeuedBufferCountLocked ?c1 async
       then Wait_Return InvalidOperation f flags ?c1
       else if \<not> (f = INVALID_BUFFER_SLOT \<or>
            int (length (queue c)) > uint (word_of_int ?m :: u64))
       then Wait_Return NoError f flags ?c1
       else if dequeue_buffer_cannot_block c \<and> a \<le> max_acquired_buffer_count
       then Wait_Return WouldBlock f flags ?c1
       else Wait_Sleep flags (?c1\<lparr>producers_waiting_for_slot := producers_waiting_for_slot c + 1\<rparr>))"
      using w unfolding WaitForFreeSlot_iteration_def if_not_P [OF 2(1)] Let_def if_not_P [OF 2(2)] rb
      by (simp add: sc cong: if_cong)
    consider (no) st where "out = Wait_Return st f flags ?c1" "st \<noteq> NoError"
      | (yes) "out = Wait_Return NoError f flags ?c1" "f \<noteq> INVALID_BUFFER_SLOT"
      | (zzz) "out = Wait_Sleep flags (?c1\<lparr>producers_waiting_for_slot :=
          producers_waiting_for_slot c + 1\<rparr>)"
      using if_chain [OF out] ne(3,4) by blast
    then show thesis
    proof cases
      case no
      then show thesis using fail rb(2) by blast
    next
      case yes
      have "0 \<le> f" "f < ?m" using of yes(2) core_inv_max [OF inv, of async]
        by (auto simp: oldest_free_def)
      then show thesis using found yes(1) rb(2) 2(1) of by blast
    next
      case zzz
      then show thesis using sleep rb(2) by simp
    qed
  qed
qed

section \<open>The operations of the producer\<close>

text \<open>A slot the producer owns has a buffer, unless its allocation is still outstanding.\<close>

definition no_bare :: "'a BufferQueueCore_scheme \<Rightarrow> bool" where
  "no_bare c \<longleftrightarrow> \<not> is_abandoned c \<longrightarrow>
     (\<forall>s < 64. buffer_state (slots c ! s) = Dequeued \<longrightarrow> graphic_buffer (slots c ! s) \<noteq> None)"

definition preserves :: "'a BufferQueueCore_scheme \<Rightarrow> 'a BufferQueueCore_scheme \<Rightarrow> bool" where
  "preserves c c' \<longleftrightarrow>
     (core_inv c \<longrightarrow> core_inv c' \<and> (core_full c \<longrightarrow> core_full c') \<and> (no_bare c \<longrightarrow> no_bare c'))"

lemma preserves_refl [simp]: "preserves c c"
  by (simp add: preserves_def)

lemma preserves_trans: "preserves a b \<Longrightarrow> preserves b c \<Longrightarrow> preserves a c"
  by (simp add: preserves_def)

lemma preserves_fields:
  assumes "slots c' = slots c" "queue c' = queue c" "has_queued_buffer c' = has_queued_buffer c"
    "is_abandoned c' = is_abandoned c" "default_max_buffer_count c' = default_max_buffer_count c"
    "0 \<le> override_max_buffer_count c' \<and> override_max_buffer_count c' \<le> 64 \<or>
     override_max_buffer_count c' = override_max_buffer_count c"
  shows "preserves c c'"
  using assms by (auto simp: preserves_def core_inv_def no_bare_def)

lemma preserves_upd:
  assumes s: "s < 64" and new: "buffer_state (f (slots c ! s)) \<noteq> Queued"
    "buffer_state (f (slots c ! s)) \<noteq> Acquired"
    and ch: "slot_change (queue c) s (slots c ! s) (f (slots c ! s))"
    and gb: "buffer_state (f (slots c ! s)) = Dequeued \<Longrightarrow>
      graphic_buffer (f (slots c ! s)) \<noteq> None \<or>
      (buffer_state (slots c ! s) = Dequeued \<and>
       graphic_buffer (f (slots c ! s)) = graphic_buffer (slots c ! s))"
  shows "preserves c (upd_slot s f c)"
  unfolding preserves_def
proof (intro impI conjI)
  assume inv: "core_inv c"
  show "core_inv (upd_slot s f c)" by (rule core_inv_upd [where f = f, OF inv s ch]) (simp add: new)
  show "core_full (upd_slot s f c)" if "core_full c" by (rule core_full_upd [where f = f, OF that inv s new(1)])
  show "no_bare (upd_slot s f c)" if nb: "no_bare c"
    unfolding no_bare_def upd_slot_simps
  proof (intro impI allI)
    fix t :: nat
    assume a: "\<not> is_abandoned c" "t < 64"
      "buffer_state ((slots c)[s := f (slots c ! s)] ! t) = Dequeued"
    show "graphic_buffer ((slots c)[s := f (slots c ! s)] ! t) \<noteq> None"
      using a gb nb s core_inv_length [OF inv] unfolding no_bare_def
      by (cases "t = s") auto
  qed
qed

lemma preserves_free_all:
  assumes "queue c' = queue c \<or> queue c' = []" "slots c' = map free_slot (slots c)"
    "core_inv c \<Longrightarrow> has_queued_buffer c' = (queue c' \<noteq> [])"
    "is_abandoned c' \<longrightarrow> is_abandoned c \<or> queue c' = []"
    "default_max_buffer_count c' = default_max_buffer_count c"
    "0 \<le> override_max_buffer_count c' \<and> override_max_buffer_count c' \<le> 64 \<or>
     override_max_buffer_count c' = override_max_buffer_count c"
  shows "preserves c c'"
proof -
  have "core_inv c' \<and> core_full c' \<and> no_bare c'" if inv: "core_inv c"
  proof -
    have len: "length (slots c) = 64" by (rule core_inv_length [OF inv])
    have "q_inv (map free_slot (slots c)) (queue c')"
      using assms(1) q_inv_free_all [OF core_inv_q [OF inv]] q_inv_nil [of "map free_slot (slots c)"] len
      by (auto simp: single_acquired_def)
    then show ?thesis
      using assms(2-6) assms(3) [OF inv] assms(1) inv q_full_free_all [OF len] len by (auto simp: core_inv_def no_bare_def)
  qed
  then show ?thesis by (simp add: preserves_def)
qed

lemma RequestBuffer_preserves:
  assumes "RequestBuffer p slot = (st, out, p')"
  shows "preserves p p'"
proof (cases "is_abandoned p \<or> bad_slot slot \<or> buffer_state (slots p ! nat slot) \<noteq> Dequeued")
  case True
  then have "p' = p" using assms by (auto simp: RequestBuffer_def split: if_splits)
  then show ?thesis by simp
next
  case False
  then have "p' = upd_slot (nat slot) (request_buffer_called_update (\<lambda>_. True)) p" "nat slot < 64"
    "buffer_state (slots p ! nat slot) = Dequeued"
    using assms by (auto simp: RequestBuffer_def Let_def split: if_splits)
  then show ?thesis using preserves_upd [of "nat slot" "request_buffer_called_update (\<lambda>_. True)" p]
    by (simp add: slot_change_def)
qed

lemma SetBufferCount_preserves:
  assumes "SetBufferCount p n = (st, calls, p')"
  shows "preserves p p'"
proof -
  have st: "p' = p \<or> p' = SignalDequeueCondition (p\<lparr>override_max_buffer_count := 0\<rparr>) \<or>
    0 \<le> n \<and> n \<le> 64 \<and> (p' = Signal (SignalDequeueCondition (p\<lparr>override_max_buffer_count := n\<rparr>)) \<or>
      p' = Signal (SignalDequeueCondition ((FreeAllBuffersLocked p)\<lparr>override_max_buffer_count := n\<rparr>)))"
    using assms unfolding SetBufferCount_def Let_def GetMinMaxBufferCountLocked_def
      GetMinUndequeuedBufferCountLocked_def use_async_buffer_def
    by (auto split: if_splits)
  then consider "p' = p" | "p' = SignalDequeueCondition (p\<lparr>override_max_buffer_count := 0\<rparr>)"
    | "0 \<le> n \<and> n \<le> 64" "p' = Signal (SignalDequeueCondition (p\<lparr>override_max_buffer_count := n\<rparr>))"
    | "0 \<le> n \<and> n \<le> 64"
      "p' = Signal (SignalDequeueCondition ((FreeAllBuffersLocked p)\<lparr>override_max_buffer_count := n\<rparr>))"
    by blast
  then show ?thesis
  proof cases
    case 4
    show ?thesis
    proof (cases "length (slots p) = 64")
      case True
      show ?thesis unfolding 4(2) FreeAll_eq [OF True]
        by (rule preserves_free_all) (use 4(1) in simp_all, auto simp: core_inv_def)
    next
      case False
      then show ?thesis by (simp add: preserves_def core_inv_def q_inv_def)
    qed
  qed (auto intro!: preserves_fields)
qed

lemma preserves_released:
  assumes "released (slots c) sls'"
  shows "preserves c (c\<lparr>slots := sls'\<rparr>)"
  unfolding preserves_def
proof (intro impI conjI)
  assume inv: "core_inv c"
  show "core_inv (c\<lparr>slots := sls'\<rparr>)"
    using q_inv_released [OF core_inv_q [OF inv] assms] inv by (simp add: core_inv_def)
  show "core_full (c\<lparr>slots := sls'\<rparr>)" if "core_full c"
    using q_full_released [OF that core_inv_q [OF inv] assms] by simp
  show "no_bare (c\<lparr>slots := sls'\<rparr>)" if nb: "no_bare c"
    unfolding no_bare_def
  proof (intro impI allI)
    fix s :: nat
    assume a: "\<not> is_abandoned (c\<lparr>slots := sls'\<rparr>)" "s < 64"
      "buffer_state (slots (c\<lparr>slots := sls'\<rparr>) ! s) = Dequeued"
    then have "sls' ! s = slots c ! s"
      using assms core_inv_length [OF inv] unfolding released_def by fastforce
    then show "graphic_buffer (slots (c\<lparr>slots := sls'\<rparr>) ! s) \<noteq> None"
      using nb a unfolding no_bare_def by simp
  qed
qed

lemma upd_slot_upd_slot:
  "s < length (slots c) \<Longrightarrow> upd_slot s f (upd_slot s g c) = upd_slot s (f \<circ> g) c"
  by (simp add: upd_slot_def)

lemma core_inv_slots_length: "core_inv c \<Longrightarrow> released (slots c) sls' \<Longrightarrow> length sls' = 64"
  by (simp add: released_def core_inv_length)

definition no_bare_but :: "nat \<Rightarrow> 'a BufferQueueCore_scheme \<Rightarrow> bool" where
  "no_bare_but t c \<longleftrightarrow> \<not> is_abandoned c \<longrightarrow>
     buffer_state (slots c ! t) = Dequeued \<and>
     (\<forall>s < 64. s \<noteq> t \<and> buffer_state (slots c ! s) = Dequeued \<longrightarrow> graphic_buffer (slots c ! s) \<noteq> None)"

fun outcome_core :: "'p DequeueOutcome \<Rightarrow> 'p" where
  "outcome_core (Dequeue_Fail st c) = c"
| "outcome_core (Dequeue_Sleep req flags c) = c"
| "outcome_core (Dequeue_Done st slot fnc c) = c"
| "outcome_core (Dequeue_Allocate req flags slot fnc att c) = c"

text \<open>Taking a free slot, described as one change of that slot.\<close>

definition take_slot :: "bool \<Rightarrow> BufferSlot \<Rightarrow> BufferSlot" where
  "take_slot realloc sl =
     (let s1 = sl\<lparr>buffer_state := Dequeued\<rparr>;
          s2 = (if realloc then s1\<lparr>acquire_called := False, graphic_buffer := None,
                                   request_buffer_called := False, fence := NoFence\<rparr> else s1)
      in s2\<lparr>fence := NoFence\<rparr>)"

lemma take_slot_simps [simp]:
  "buffer_state (take_slot r sl) = Dequeued"
  "graphic_buffer (take_slot r sl) = (if r then None else graphic_buffer sl)"
  by (simp_all add: take_slot_def Let_def)

definition sized_request :: "'a BufferQueueCore_scheme \<Rightarrow> DequeueRequest \<Rightarrow> DequeueRequest" where
  "sized_request c req = (if dq_width req = 0 \<and> dq_height req = 0
     then req\<lparr>dq_width := default_width c, dq_height := default_height c\<rparr> else req)"

lemma DequeueBuffer_take_cases:
  assumes f: "0 \<le> found" and len: "nat found < length (slots c)"
    and t: "DequeueBuffer_take c req found flags = out"
  obtains (took) st fnc where
      "out = Dequeue_Done st found fnc (upd_slot (nat found) (take_slot False) c)"
      "\<not> buffer_unsuitable (graphic_buffer (slots c ! nat found)) (sized_request c req)"
      "st = (if attached_by_consumer (slots c ! nat found) then flags OR BufferNeedsReallocation
             else flags)"
      "fnc = fence (slots c ! nat found)"
  | (alloc) flags' fnc r where
      "out = Dequeue_Allocate (sized_request c req) flags' found fnc
        (attached_by_consumer (slots c ! nat found)) (upd_slot (nat found) (take_slot r) c)"
      "r \<longrightarrow> flags' = flags OR BufferNeedsReallocation"
      "r \<or> flags AND BufferNeedsReallocation \<noteq> Status_None"
      "r = buffer_unsuitable (graphic_buffer (slots c ! nat found)) (sized_request c req)"
proof -
  let ?s = "nat found"
  let ?r = "buffer_unsuitable (graphic_buffer (slots c ! ?s)) (sized_request c req)"
  have one: "(flags OR BufferNeedsReallocation) AND BufferNeedsReallocation \<noteq> Status_None"
    by (simp add: status_defs bit.conj_disj_distrib2)
  have ni: "found \<noteq> INVALID_BUFFER_SLOT" using f by (simp add: INVALID_BUFFER_SLOT_def)
  have merge: "upd_slot ?s (fence_update (\<lambda>_. NoFence))
      (if ?r then upd_slot ?s (\<lambda>sl. sl\<lparr>acquire_called := False, graphic_buffer := None,
          request_buffer_called := False, fence := NoFence\<rparr>)
          (upd_slot ?s (buffer_state_update (\<lambda>_. Dequeued)) c)
       else upd_slot ?s (buffer_state_update (\<lambda>_. Dequeued)) c) = upd_slot ?s (take_slot ?r) c"
    using len by (cases ?r) (simp_all add: upd_slot_def take_slot_def)
  have out: "out = (let flags' = (if ?r then flags OR BufferNeedsReallocation else flags);
        fnc = (if ?r then NoFence else fence (slots c ! ?s));
        att = attached_by_consumer (slots c ! ?s)
      in if flags' AND BufferNeedsReallocation \<noteq> Status_None
         then Dequeue_Allocate (sized_request c req) flags' found fnc att (upd_slot ?s (take_slot ?r) c)
         else Dequeue_Done (if att then flags' OR BufferNeedsReallocation else flags')
           found fnc (upd_slot ?s (take_slot ?r) c))"
    unfolding t [symmetric] merge [symmetric]
    using ni len by (simp add: DequeueBuffer_take_def Let_def sized_request_def)
  show thesis
  proof (cases "?r")
    case True
    then show thesis using alloc out one by (simp add: Let_def)
  next
    case False
    then show thesis using took alloc out by (cases "flags AND BufferNeedsReallocation = Status_None")
        (simp_all add: Let_def)
  qed
qed

lemma DequeueBuffer_turn_inv:
  assumes inv: "core_inv c" and t: "DequeueBuffer_turn c req flags = out"
  shows "core_inv (outcome_core out)"
    and "core_full c \<Longrightarrow> core_full (outcome_core out)"
    and "no_bare c \<Longrightarrow>
      (case out of
         Dequeue_Allocate r f slot fnc a c' \<Rightarrow> 0 \<le> slot \<and> slot < 64 \<and> no_bare_but (nat slot) c'
       | _ \<Rightarrow> no_bare (outcome_core out))"
    and "case out of Dequeue_Allocate r f slot fnc a c' \<Rightarrow> 0 \<le> slot \<and> slot < 64 | _ \<Rightarrow> True"
proof -
  have main: "core_inv (outcome_core out) \<and> (core_full c \<longrightarrow> core_full (outcome_core out)) \<and>
    (no_bare c \<longrightarrow> (case out of
       Dequeue_Allocate r f slot fnc a c' \<Rightarrow> 0 \<le> slot \<and> slot < 64 \<and> no_bare_but (nat slot) c'
     | _ \<Rightarrow> no_bare (outcome_core out))) \<and>
    (case out of Dequeue_Allocate r f slot fnc a c' \<Rightarrow> 0 \<le> slot \<and> slot < 64 | _ \<Rightarrow> True)"
  proof (rule WaitForFreeSlot_cases [OF inv refl, of "dq_async req" 0 flags])
    fix st found fl
    assume w: "WaitForFreeSlot_iteration c (dq_async req) 0 flags = Wait_Return st found fl c"
      "st \<noteq> NoError"
    then have "out = Dequeue_Fail st c" using t by (simp add: DequeueBuffer_turn_def)
    then show ?thesis using inv by simp
  next
    fix st found fl sls'
    assume w: "WaitForFreeSlot_iteration c (dq_async req) 0 flags =
      Wait_Return st found fl (c\<lparr>slots := sls'\<rparr>)" "st \<noteq> NoError" "released (slots c) sls'"
    then have "out = Dequeue_Fail st (c\<lparr>slots := sls'\<rparr>)" using t by (simp add: DequeueBuffer_turn_def)
    then show ?thesis using preserves_released [OF w(3)] inv by (simp add: preserves_def)
  next
    fix fl sls'
    assume w: "WaitForFreeSlot_iteration c (dq_async req) 0 flags = Wait_Sleep fl (c\<lparr>slots := sls',
      producers_waiting_for_slot := producers_waiting_for_slot c + 1\<rparr>)" "released (slots c) sls'"
    have "preserves c (c\<lparr>slots := sls',
        producers_waiting_for_slot := producers_waiting_for_slot c + 1\<rparr>)"
      by (rule preserves_trans [OF preserves_released [OF w(2)]]) (rule preserves_fields, simp_all)
    then show ?thesis using w(1) t inv by (auto simp: DequeueBuffer_turn_def preserves_def)
  next
    fix found fl sls'
    assume w: "WaitForFreeSlot_iteration c (dq_async req) 0 flags =
        Wait_Return NoError found fl (c\<lparr>slots := sls'\<rparr>)" "released (slots c) sls'"
      "\<not> is_abandoned c" "0 \<le> found" "found < GetMaxBufferCountLocked c (dq_async req)"
      "oldest_free sls' (nat (GetMaxBufferCountLocked c (dq_async req))) found"
    let ?c1 = "c\<lparr>slots := sls'\<rparr>" and ?s = "nat found"
    have p1: "preserves c ?c1" by (rule preserves_released [OF w(2)])
    have inv1: "core_inv ?c1" using p1 inv by (simp add: preserves_def)
    have s: "?s < 64" "found < 64" using w(4,5) core_inv_max [OF inv, of "dq_async req"] by linarith+
    have len: "?s < length (slots ?c1)" using s core_inv_length [OF inv1] by simp
    have free: "buffer_state (sls' ! ?s) = Free"
      using w(4,6) by (simp add: oldest_free_def INVALID_BUFFER_SLOT_def)
    have out: "out = DequeueBuffer_take ?c1 req found fl"
      using t w(1) by (simp add: DequeueBuffer_turn_def)
    show ?thesis
    proof (rule DequeueBuffer_take_cases [OF w(4) len out [symmetric]])
      fix st fnc
      assume d: "out = Dequeue_Done st found fnc (upd_slot ?s (take_slot False) ?c1)"
        "\<not> buffer_unsuitable (graphic_buffer (slots ?c1 ! ?s)) (sized_request ?c1 req)"
      have "preserves ?c1 (upd_slot ?s (take_slot False) ?c1)"
        by (rule preserves_upd [OF s(1)])
          (use d(2) free in \<open>auto simp: slot_change_def buffer_unsuitable_def split: option.splits\<close>)
      then have "preserves c (upd_slot ?s (take_slot False) ?c1)" by (rule preserves_trans [OF p1])
      then show ?thesis using inv d(1) by (simp add: preserves_def)
    next
      fix flags' fnc r
      assume d: "out = Dequeue_Allocate (sized_request ?c1 req) flags' found fnc
        (attached_by_consumer (slots ?c1 ! ?s)) (upd_slot ?s (take_slot r) ?c1)"
      have ch: "slot_change (queue ?c1) ?s (slots ?c1 ! ?s) (take_slot r (slots ?c1 ! ?s))"
        using free by (auto simp: slot_change_def)
      have i: "core_inv (upd_slot ?s (take_slot r) ?c1)"
        by (rule core_inv_upd [where f = "take_slot r", OF inv1 s(1) ch]) simp
      have f: "core_full (upd_slot ?s (take_slot r) ?c1)" if "core_full c"
        by (rule core_full_upd [where f = "take_slot r", OF _ inv1 s(1)])
          (use p1 inv that in \<open>simp_all add: preserves_def\<close>)
      have b: "no_bare_but ?s (upd_slot ?s (take_slot r) ?c1)" if "no_bare c"
      proof -
        have "no_bare ?c1" using p1 inv that by (simp add: preserves_def)
        then show ?thesis using len unfolding no_bare_def no_bare_but_def by (auto simp: nth_list_update)
      qed
      show ?thesis using d i f b w(4) s(2) by simp
    qed
  qed
  from main show "core_inv (outcome_core out)" "core_full c \<Longrightarrow> core_full (outcome_core out)"
    "no_bare c \<Longrightarrow> (case out of
       Dequeue_Allocate r f slot fnc a c' \<Rightarrow> 0 \<le> slot \<and> slot < 64 \<and> no_bare_but (nat slot) c'
     | _ \<Rightarrow> no_bare (outcome_core out))"
    "case out of Dequeue_Allocate r f slot fnc a c' \<Rightarrow> 0 \<le> slot \<and> slot < 64 | _ \<Rightarrow> True"
    by blast+
qed

lemma DequeueBuffer_wake_preserves:
  assumes "WaitForFreeSlot_wake c = Some c'"
  shows "preserves c c'"
  by (rule preserves_fields)
    (use assms in \<open>auto simp: WaitForFreeSlot_wake_def WaitForDequeueCondition_def split: if_splits\<close>)

text \<open>A buffer no queued item refers to.\<close>

definition unqueued :: "'a BufferQueueCore_scheme \<Rightarrow> nat \<Rightarrow> bool" where
  "unqueued c ptr \<longleftrightarrow>
     (\<forall>it \<in> set (queue c). \<forall>g. it_graphic_buffer it = Some g \<longrightarrow> gb_ptr g \<noteq> ptr)"

lemma unqueued_slot_change:
  assumes "unqueued c (gb_ptr g)" and "graphic_buffer b = Some g"
  shows "slot_change (queue c) s a b"
  using assms unfolding slot_change_def unqueued_def same_buffer_def
  by (auto split: option.splits)

lemma allocate_inv:
  assumes inv: "core_inv c" and s: "0 \<le> slot" "slot < 64" and fresh: "unqueued c ptr"
    and a: "DequeueBuffer_allocate c req flags slot att ptr = (st, c')"
  shows "core_inv c'"
    and "core_full c \<Longrightarrow> no_bare_but (nat slot) c \<Longrightarrow> core_full c'"
    and "no_bare_but (nat slot) c \<Longrightarrow> no_bare c'"
proof -
  let ?b = "new_GraphicBuffer ptr (dq_width req) (dq_height req) (dq_format req) (dq_usage req)"
  let ?f = "\<lambda>sl. sl\<lparr>frame_number := 0xFFFFFFFF, graphic_buffer := Some ?b\<rparr>"
  have n: "nat slot < 64" using s by simp
  have c': "c' = (if is_abandoned c then c else upd_slot (nat slot) ?f c)"
    using a by (auto simp: DequeueBuffer_allocate_def Let_def split: if_splits)
  have ptr: "gb_ptr ?b = ptr"
    by (simp add: new_GraphicBuffer_def to_GraphicBuffer_def NvGraphicBuffer.defs)
  have ch: "slot_change (queue c) (nat slot) (slots c ! nat slot) (?f (slots c ! nat slot))"
    by (rule unqueued_slot_change [of c ?b]) (use fresh ptr in simp_all)
  have "core_inv (upd_slot (nat slot) ?f c)"
    by (rule core_inv_upd [where f = ?f, OF inv n ch]) simp
  then show "core_inv c'" using inv c' by simp
  show "core_full c'" if f: "core_full c" and nb: "no_bare_but (nat slot) c"
  proof (cases "is_abandoned c")
    case True
    then show ?thesis using c' f by simp
  next
    case False
    then have "buffer_state (?f (slots c ! nat slot)) \<noteq> Queued" using nb by (simp add: no_bare_but_def)
    from core_full_upd [where f = ?f, OF f inv n this] show ?thesis using c' False by simp
  qed
  show "no_bare c'" if nb: "no_bare_but (nat slot) c"
  proof (cases "is_abandoned c")
    case True
    then show ?thesis using c' by (simp add: no_bare_def)
  next
    case False
    show ?thesis
      using nb False core_inv_length [OF inv] n unfolding c' no_bare_but_def no_bare_def
      by (auto simp: nth_list_update)
  qed
qed

lemma DetachBuffer_preserves:
  assumes "DetachBuffer c slot = (st, c')"
  shows "preserves c c'"
proof -
  consider "c' = c" | "\<not> bad_slot slot" "c' = SignalDequeueCondition (FreeBufferLocked (nat slot) c)"
    using assms by (auto simp: DetachBuffer_def split: if_splits)
  then show ?thesis
  proof cases
    case 2
    have "preserves c (FreeBufferLocked (nat slot) c)" unfolding FreeBufferLocked_def
      by (rule preserves_upd) (use 2(1) in \<open>auto simp: slot_change_def\<close>)
    then show ?thesis unfolding 2(2) by (rule preserves_trans) (rule preserves_fields, simp_all)
  qed simp
qed

lemma oldest_free_buffer_range:
  "oldest_free_buffer sls = INVALID_BUFFER_SLOT \<or>
   0 \<le> oldest_free_buffer sls \<and> oldest_free_buffer sls < 64 \<and>
   buffer_state (sls ! nat (oldest_free_buffer sls)) = Free"
proof -
  let ?f = "\<lambda>s found.
             if buffer_state (sls ! s) = Free \<and> graphic_buffer (sls ! s) \<noteq> None
             then
               if found = INVALID_BUFFER_SLOT \<or>
                  frame_number (sls ! s) < frame_number (sls ! nat found)
               then int s else found
             else found"
  let ?P = "\<lambda>found. found = INVALID_BUFFER_SLOT \<or>
    0 \<le> found \<and> found < 64 \<and> buffer_state (sls ! nat found) = Free"
  have "?P (fold ?f xs m)" if "\<forall>x \<in> set xs. x < 64" "?P m" for xs m
    using that
  proof (induction xs arbitrary: m)
    case (Cons x xs)
    have "?P (?f x m)" using Cons(2,3) by auto
    then show ?case using Cons(1) [of "?f x m"] Cons(2) by simp
  qed simp
  from this [of "[0..<64]" INVALID_BUFFER_SLOT] show ?thesis
    unfolding oldest_free_buffer_def NUM_64 by simp
qed

lemma DetachNextBuffer_preserves:
  assumes "DetachNextBuffer c b1 b2 = (st, out, c')"
  shows "preserves c c'"
proof -
  have "snd (snd (DetachNextBuffer c b1 b2)) = c \<or>
      oldest_free_buffer (slots c) \<noteq> INVALID_BUFFER_SLOT \<and> snd (snd (DetachNextBuffer c b1 b2)) =
        FreeBufferLocked (nat (oldest_free_buffer (slots c))) c"
    by (simp add: DetachNextBuffer_def Let_def)
  then consider "c' = c" | "oldest_free_buffer (slots c) \<noteq> INVALID_BUFFER_SLOT"
      "c' = FreeBufferLocked (nat (oldest_free_buffer (slots c))) c"
    using assms by auto
  then show ?thesis
  proof cases
    case 2
    have "nat (oldest_free_buffer (slots c)) < 64"
      using oldest_free_buffer_range [of "slots c"] 2(1) by auto
    then show ?thesis unfolding 2(2) FreeBufferLocked_def
      by (rule preserves_upd) (auto simp: slot_change_def)
  qed simp
qed

lemma CancelBuffer_preserves: "preserves p (CancelBuffer p slot fnc)"
proof -
  let ?f = "\<lambda>sl. sl\<lparr>buffer_state := Free, frame_number := 0, fence := fnc\<rparr>"
  have "CancelBuffer p slot fnc = p \<or> \<not> bad_slot slot \<and> buffer_state (slots p ! nat slot) = Dequeued \<and>
      CancelBuffer p slot fnc = Signal (SignalDequeueCondition (upd_slot (nat slot) ?f p))"
    unfolding CancelBuffer_def by (simp del: not_less not_le)
  then consider "CancelBuffer p slot fnc = p"
    | "\<not> bad_slot slot" "buffer_state (slots p ! nat slot) = Dequeued"
      "CancelBuffer p slot fnc = Signal (SignalDequeueCondition (upd_slot (nat slot) ?f p))"
    by blast
  then show ?thesis
  proof cases
    case 2
    have "preserves p (upd_slot (nat slot) ?f p)"
      by (rule preserves_upd) (use 2(1,2) in \<open>auto simp: slot_change_def\<close>)
    then show ?thesis unfolding 2(3) by (rule preserves_trans) (rule preserves_fields, simp_all)
  qed simp
qed

lemma Connect_preserves:
  assumes "Connect c listener api app has_out = (st, out, c')"
  shows "preserves c c'"
  by (rule preserves_fields)
    (use assms in \<open>auto simp: Connect_def Let_def split: if_splits prod.splits\<close>)

lemma Consumer_Connect_preserves:
  assumes "Consumer_Connect c listener app = (st, c')"
  shows "preserves c c'"
  by (rule preserves_fields) (use assms in \<open>auto simp: Consumer_Connect_def split: if_splits\<close>)

lemma Disconnect_preserves:
  assumes "Disconnect p api = (st, calls, p')"
  shows "preserves p p'"
proof -
  let ?q = "p\<lparr>queue := [], has_queued_buffer := False\<rparr>"
  consider "p' = p"
    | "p' = Signal (SignalDequeueCondition ((FreeAllBuffersLocked ?q)
        \<lparr>connected_producer_listener := None, connected_api := NoConnectedApi\<rparr>))"
    using assms by (auto simp: Disconnect_def Let_def split: if_splits)
  then show ?thesis
  proof cases
    case 2
    show ?thesis
    proof (cases "length (slots p) = 64")
      case True
      then have "length (slots ?q) = 64" by simp
      from FreeAll_eq [OF this] show ?thesis unfolding 2
        by (intro preserves_free_all) simp_all
    next
      case False
      then show ?thesis by (simp add: preserves_def core_inv_def q_inv_def)
    qed
  qed simp
qed

lemma Consumer_Disconnect_preserves:
  assumes "Consumer_Disconnect c = (st, c')"
  shows "preserves c c'"
proof -
  let ?q = "c\<lparr>is_abandoned := True, consumer_listener := None, queue := [],
    has_queued_buffer := False\<rparr>"
  consider "c' = c" | "c' = SignalDequeueCondition (FreeAllBuffersLocked ?q)"
    using assms by (auto simp: Consumer_Disconnect_def Let_def split: if_splits)
  then show ?thesis
  proof cases
    case 2
    show ?thesis
    proof (cases "length (slots c) = 64")
      case True
      then have "length (slots ?q) = 64" by simp
      from FreeAll_eq [OF this] show ?thesis unfolding 2
        by (intro preserves_free_all) simp_all
    next
      case False
      then show ?thesis by (simp add: preserves_def core_inv_def q_inv_def)
    qed
  qed simp
qed

fun attach_core :: "'p AttachOutcome \<Rightarrow> 'p" where
  "attach_core (Attach_Return st out c) = c"
| "attach_core (Attach_Sleep b flags c) = c"

lemma AttachBuffer_turn_preserves:
  assumes t: "AttachBuffer_turn c b flags = out" and u: "unqueued c (gb_ptr b)"
  shows "preserves c (attach_core out)"
proof (cases "core_inv c")
  case False
  then show ?thesis by (simp add: preserves_def)
next
  case inv: True
  show ?thesis
  proof (rule WaitForFreeSlot_cases [OF inv refl, of False 0 flags])
    fix st found fl
    assume w: "WaitForFreeSlot_iteration c False 0 flags = Wait_Return st found fl c" "st \<noteq> NoError"
    then have "out = Attach_Return st None c" using t by (simp add: AttachBuffer_turn_def)
    then show ?thesis by simp
  next
    fix st found fl sls'
    assume w: "WaitForFreeSlot_iteration c False 0 flags =
      Wait_Return st found fl (c\<lparr>slots := sls'\<rparr>)" "st \<noteq> NoError" "released (slots c) sls'"
    then have "out = Attach_Return st None (c\<lparr>slots := sls'\<rparr>)"
      using t by (simp add: AttachBuffer_turn_def)
    then show ?thesis using preserves_released [OF w(3)] by simp
  next
    fix fl sls'
    assume w: "WaitForFreeSlot_iteration c False 0 flags = Wait_Sleep fl (c\<lparr>slots := sls',
      producers_waiting_for_slot := producers_waiting_for_slot c + 1\<rparr>)" "released (slots c) sls'"
    have "preserves c (c\<lparr>slots := sls',
        producers_waiting_for_slot := producers_waiting_for_slot c + 1\<rparr>)"
      by (rule preserves_trans [OF preserves_released [OF w(2)]]) (rule preserves_fields, simp_all)
    then show ?thesis using w(1) t by (auto simp: AttachBuffer_turn_def)
  next
    fix found fl sls'
    assume w: "WaitForFreeSlot_iteration c False 0 flags =
        Wait_Return NoError found fl (c\<lparr>slots := sls'\<rparr>)" "released (slots c) sls'"
      "\<not> is_abandoned c" "0 \<le> found" "found < GetMaxBufferCountLocked c False"
      "oldest_free sls' (nat (GetMaxBufferCountLocked c False)) found"
    let ?c1 = "c\<lparr>slots := sls'\<rparr>" and ?s = "nat found"
    let ?f = "\<lambda>sl. sl\<lparr>graphic_buffer := Some b, buffer_state := Dequeued,
      fence := NoFence, request_buffer_called := True\<rparr>"
    have ni: "found \<noteq> INVALID_BUFFER_SLOT" using w(4) by (simp add: INVALID_BUFFER_SLOT_def)
    have out: "attach_core out = upd_slot ?s ?f ?c1"
      using t w(1) ni by (auto simp: AttachBuffer_turn_def)
    have s: "?s < 64" using w(4,5) core_inv_max [OF inv, of False] by linarith
    have "unqueued ?c1 (gb_ptr b)" using u by (simp add: unqueued_def)
    then have ch: "slot_change (queue ?c1) ?s (slots ?c1 ! ?s) (?f (slots ?c1 ! ?s))"
      by (rule unqueued_slot_change) simp
    have "preserves ?c1 (upd_slot ?s ?f ?c1)"
      by (rule preserves_upd [where f = ?f, OF s _ _ ch]) simp_all
    then show ?thesis unfolding out by (rule preserves_trans [OF preserves_released [OF w(2)]])
  qed
qed

lemma GetPreallocated_range:
  "length (slots c) = 64 \<Longrightarrow>
   0 \<le> GetPreallocatedBufferCountLocked c \<and> GetPreallocatedBufferCountLocked c \<le> 64"
  unfolding GetPreallocatedBufferCountLocked_def
  using length_filter_le [of is_preallocated "slots c"] by simp

lemma SetPreallocatedBuffer_preserves:
  assumes a: "SetPreallocatedBuffer p slot buffer ptr = (st, calls, p')" and u: "unqueued p ptr"
  shows "preserves p p'"
proof (cases "bad_slot slot \<or> \<not> core_inv p")
  case True
  then show ?thesis using a by (auto simp: SetPreallocatedBuffer_def preserves_def)
next
  case False
  then have s: "nat slot < 64" and inv: "core_inv p" by auto
  obtain gb cs where w: "wrap_GraphicBuffer ptr buffer = (gb, cs)" by fastforce
  have ptr: "gb_ptr gb = ptr" using w
    by (auto simp: wrap_GraphicBuffer_def to_GraphicBuffer_def NvGraphicBuffer.defs Let_def)
  let ?f = "\<lambda>_. new_BufferSlot\<lparr>fence := NoFence, graphic_buffer := Some gb, frame_number := 0\<rparr>"
  let ?g = "is_preallocated_update (\<lambda>_. True)"
  let ?p1 = "upd_slot (nat slot) ?f p"
  have ch1: "slot_change (queue p) (nat slot) (slots p ! nat slot) (?f (slots p ! nat slot))"
    by (rule unqueued_slot_change [of p gb]) (use u ptr in \<open>simp_all add: new_BufferSlot_def\<close>)
  have p1: "preserves p ?p1"
    by (rule preserves_upd [where f = ?f, OF s _ _ ch1]) (simp_all add: new_BufferSlot_def)
  have inv1: "core_inv ?p1" using p1 inv by (simp add: preserves_def)
  let ?q = "upd_slot (nat slot) ?g ?p1"
  have st: "slots ?p1 ! nat slot = ?f (slots p ! nat slot)" using s core_inv_length [OF inv] by simp
  have p2: "preserves ?p1 ?q"
    by (rule preserves_upd [OF s]) (use st in \<open>simp_all add: slot_change_def new_BufferSlot_def\<close>)
  have inv2: "core_inv ?q" using p2 inv1 by (simp add: preserves_def)
  note rng = GetPreallocated_range [OF core_inv_length [OF inv2]]
  show ?thesis
  proof (cases buffer)
    case None
    then have "p' = Signal (SignalDequeueCondition ?p1)"
      using a w False by (simp add: SetPreallocatedBuffer_def Let_def)
    then show ?thesis
      by (auto intro!: preserves_trans [OF p1] preserves_fields)
  next
    case (Some b)
    then have p': "p' = Signal (SignalDequeueCondition
        (?q\<lparr>override_max_buffer_count := GetPreallocatedBufferCountLocked ?q,
            default_width := Width b, default_height := Height b,
            default_buffer_format := gb_format b\<rparr>))"
      using a w False by (simp add: SetPreallocatedBuffer_def Let_def)
    have "preserves ?q p'" unfolding p' by (rule preserves_fields) (use rng in simp_all)
    then show ?thesis using preserves_trans [OF p1 preserves_trans [OF p2]] by blast
  qed
qed

lemma enqueue_item_fields:
  fixes c :: "'a BufferQueueCore_scheme"
  assumes "enqueue_item c item = (av, c')"
  shows "\<exists>sls q. c' = c\<lparr>slots := sls, queue := q\<rparr>"
proof (cases "queue c")
  case Nil
  then have "c' = c\<lparr>slots := slots c, queue := [item]\<rparr>"
    using assms by (auto simp: enqueue_item_def)
  then show ?thesis by blast
next
  case (Cons front rest)
  have e: "c\<lparr>queue := q\<rparr> = c\<lparr>slots := slots c, queue := q\<rparr>" for q by simp
  have "snd (enqueue_item c item) = c\<lparr>queue := queue c @ [item]\<rparr> \<or>
    snd (enqueue_item c item) = c\<lparr>queue := item # rest\<rparr> \<or>
    snd (enqueue_item c item) = c\<lparr>slots := (slots c)[nat (it_slot front) :=
      (slots c ! nat (it_slot front))\<lparr>buffer_state := Free, frame_number := 0\<rparr>], queue := item # rest\<rparr>"
    unfolding enqueue_item_def Cons by (simp add: Let_def upd_slot_def)
  then show ?thesis unfolding assms snd_conv by (metis e)
qed

text \<open>
  A call of \<^verbatim>\<open>QueueBuffer\<close> that does not fail: the slot was the producer's, the crop is inside
  its buffer, and the item is put in the queue.
\<close>

lemma QueueBuffer_cases:
  fixes p :: "'a BufferQueueProducer_scheme"
  assumes q: "QueueBuffer p slot input = Some (st, out, cb, p')"
  obtains (no) "p' = p" "cb = None" "out = None" "st \<noteq> NoError"
  | (yes) b p3 item av p5 calls where
      "st = NoError" "cb = Some (next_callback_ticket p, calls)" "\<not> is_abandoned p"
      "0 \<le> slot" "slot < GetMaxBufferCountLocked p (in_async input \<noteq> 0)"
      "buffer_state (slots p ! nat slot) = Dequeued" "request_buffer_called (slots p ! nat slot)"
      "graphic_buffer (slots p ! nat slot) = Some b"
      "snd (Intersect (in_crop input) (rect_of_size (sint (Width b)) (sint (Height b)))) = in_crop input"
      "p3 = (upd_slot (nat slot) (\<lambda>sl. sl\<lparr>fence := in_fence input, buffer_state := Queued,
               frame_number := frame_counter p + 1\<rparr>) p)\<lparr>frame_counter := frame_counter p + 1\<rparr>"
      "item = queued_item p3 slot input"
      "enqueue_item (p3\<lparr>sticky_transform := in_sticky_transform input\<rparr>) item = (av, p5)"
      "p' = (SignalDequeueCondition (p5\<lparr>has_queued_buffer := True, buffer_has_been_queued := True\<rparr>))
              \<lparr>next_callback_ticket := next_callback_ticket p5 + 1\<rparr>"
      "next_callback_ticket p < 2 ^ 31 - 1"
proof -
  let ?chk = "QueueBuffer_checks p slot (in_async input \<noteq> 0)"
  have bad: "BadValue \<noteq> NoError" by (simp add: status_defs)
  show thesis
  proof (cases "\<not> known_scaling_mode (in_scaling_mode input) \<or> ?chk \<noteq> NoError")
    case True
    then show thesis using q no bad by (auto simp: QueueBuffer_def Let_def split: if_splits)
  next
    case False
    then have chk: "?chk = NoError" and sm: "known_scaling_mode (in_scaling_mode input)" by simp_all
    have c: "\<not> is_abandoned p" "0 \<le> slot" "slot < GetMaxBufferCountLocked p (in_async input \<noteq> 0)"
      "buffer_state (slots p ! nat slot) = Dequeued" "request_buffer_called (slots p ! nat slot)"
      using chk unfolding QueueBuffer_checks_def
      by (auto simp: Let_def status_defs split: if_splits)
    show thesis
    proof (cases "graphic_buffer (slots p ! nat slot)")
      case None
      then show thesis using q chk sm by (simp add: QueueBuffer_def)
    next
      case (Some b)
      let ?crop = "snd (Intersect (in_crop input) (rect_of_size (sint (Width b)) (sint (Height b))))"
      show thesis
      proof (cases "?crop = in_crop input")
        case False
        then show thesis using q chk sm Some no bad by (simp add: QueueBuffer_def)
      next
        case crop: True
        define p3 where "p3 = (upd_slot (nat slot) (\<lambda>sl. sl\<lparr>fence := in_fence input,
          buffer_state := Queued, frame_number := frame_counter p + 1\<rparr>) p)
          \<lparr>frame_counter := frame_counter p + 1\<rparr>"
        have p3: "upd_slot (nat slot) (frame_number_update (\<lambda>_. frame_counter (upd_slot (nat slot)
              (\<lambda>sl. sl\<lparr>fence := in_fence input, buffer_state := Queued\<rparr>) p) + 1))
            ((upd_slot (nat slot) (\<lambda>sl. sl\<lparr>fence := in_fence input, buffer_state := Queued\<rparr>) p)
              \<lparr>frame_counter := frame_counter (upd_slot (nat slot)
                (\<lambda>sl. sl\<lparr>fence := in_fence input, buffer_state := Queued\<rparr>) p) + 1\<rparr>) = p3"
          by (cases "nat slot < length (slots p)")
            (simp_all add: p3_def upd_slot_def list_update_beyond)
        obtain av p5 where e: "enqueue_item (p3\<lparr>sticky_transform := in_sticky_transform input\<rparr>)
            (queued_item p3 slot input) = (av, p5)" by fastforce
        have nt: "next_callback_ticket p5 = next_callback_ticket p"
          using enqueue_item_fields [OF e] by (auto simp: p3_def upd_slot_def)
        show thesis
        proof (cases "next_callback_ticket p < 2 ^ 31 - 1")
          case False
          then show thesis using q chk sm Some crop by (simp add: QueueBuffer_def)
        next
          case tk: True
          have "\<exists>out' calls. QueueBuffer p slot input = Some (NoError, out',
              Some (next_callback_ticket p, calls),
              (SignalDequeueCondition (p5\<lparr>has_queued_buffer := True, buffer_has_been_queued := True\<rparr>))
                \<lparr>next_callback_ticket := next_callback_ticket p5 + 1\<rparr>)"
            using chk sm Some crop tk unfolding QueueBuffer_def Let_def
            by (simp add: p3 e nt SignalDequeueCondition_def)
          then show thesis using q yes [OF _ _ c Some crop p3_def refl e _ tk] by auto
        qed
      qed
    qed
  qed
qed

lemma QueueBuffer_preserves:
  assumes q: "QueueBuffer p slot input = Some (st, out, cb, p')"
  shows "preserves p p'"
proof (cases "core_inv p")
  case False
  then show ?thesis by (simp add: preserves_def)
next
  case inv: True
  from q show ?thesis
  proof (cases rule: QueueBuffer_cases)
    case no
    then show ?thesis by simp
  next
    case (yes b p3 item av p5 calls)
    let ?s = "nat slot"
    let ?x = "(slots p ! ?s)\<lparr>fence := in_fence input, buffer_state := Queued,
      frame_number := frame_counter p + 1\<rparr>"
    have s: "?s < 64" using yes(4,5) core_inv_max [OF inv, of "in_async input \<noteq> 0"] by linarith
    have len: "length (slots p) = 64" by (rule core_inv_length [OF inv])
    have q0: "q_inv (slots p) (queue p)" by (rule core_inv_q [OF inv])
    have p3: "slots p3 = (slots p)[?s := ?x]" "queue p3 = queue p"
      "has_queued_buffer p3 = has_queued_buffer p" "is_abandoned p3 = is_abandoned p"
      "override_max_buffer_count p3 = override_max_buffer_count p"
      "default_max_buffer_count p3 = default_max_buffer_count p"
      unfolding yes(10) by simp_all
    let ?p4 = "p3\<lparr>sticky_transform := in_sticky_transform input\<rparr>"
    have same: "tracked ((slots p)[?s := ?x]) q = tracked (slots p) q" for q
      by (rule tracked_upd_same) simp
    have nt: "?s \<notin> set (tracked (slots p) (queue p))"
      by (rule not_tracked [OF q0]) (simp add: yes(6))
    have i3: "q_inv (slots ?p4) (queue ?p4)"
      using q_inv_upd [OF q0 s, of ?x] yes(6) p3 by (simp add: slot_change_def)
    have st3: "buffer_state (slots ?p4 ! ?s) = Queued" using p3 s len by simp
    have nt3: "?s \<notin> set (tracked (slots ?p4) (queue ?p4))" using nt p3 same by simp
    have it: "it_slot item = int ?s" "it_graphic_buffer item = Some b"
      using yes(4,8,11) p3 s len by (simp_all add: queued_item_def Let_def)
    have trk: "tracks (slots ?p4) item"
      using it p3 s len yes(4,8) by (simp add: tracks_def same_buffer_def)
    have i5: "q_inv (slots p5) (queue p5)"
      by (rule enqueue_inv [OF i3 s st3 nt3 it(1) trk yes(12)])
    obtain sls qu where p5: "p5 = ?p4\<lparr>slots := sls, queue := qu\<rparr>"
      using enqueue_item_fields [OF yes(12)] by blast
    have qne: "queue p5 \<noteq> []"
      using yes(12) by (auto simp: enqueue_item_def Let_def split: list.splits if_splits)
    have ci: "core_inv p'"
      using i5 qne inv yes(3) p3 unfolding yes(13) core_inv_def by (simp add: p5)
    have cf: "core_full p'" if f: "core_full p"
    proof -
      have "\<forall>t < 64. buffer_state (slots ?p4 ! t) = Queued \<longrightarrow>
          t = ?s \<or> t \<in> set (tracked (slots ?p4) (queue ?p4))"
        using f p3 same len s by (auto simp: q_full_def nth_list_update)
      from enqueue_full [OF i3 s this it(1) trk yes(12)]
      show ?thesis unfolding yes(13) by simp
    qed
    have nb: "no_bare p'" if n: "no_bare p"
    proof -
      have dq: "buffer_state (slots p5 ! t) = Dequeued \<Longrightarrow> buffer_state (slots p ! t) = Dequeued \<and>
          graphic_buffer (slots p5 ! t) = graphic_buffer (slots p ! t)" if "t < 64" for t
      proof -
        have e: "slots p5 = slots ?p4 \<or> (\<exists>f y. slots p5 = (slots ?p4)[f := y] \<and>
            buffer_state y = Free \<and> f < 64)"
        proof (cases "queue ?p4")
          case Nil
          then show ?thesis using yes(12) by (auto simp: enqueue_item_def)
        next
          case (Cons front rest)
          have f: "nat (it_slot front) < 64" using i3 Cons by (auto simp: q_inv_def)
          have "snd (enqueue_item ?p4 item) = p5" using yes(12) by simp
          then have "slots p5 = slots ?p4 \<or> slots p5 = (slots ?p4)[nat (it_slot front) :=
              (slots ?p4 ! nat (it_slot front))\<lparr>buffer_state := Free, frame_number := 0\<rparr>]"
            unfolding enqueue_item_def Cons by (auto simp: Let_def split: if_splits)
          moreover have "buffer_state ((slots ?p4 ! k)\<lparr>buffer_state := Free, frame_number := 0\<rparr>) = Free"
            for k by simp
          ultimately show ?thesis using f by blast
        qed
        have "buffer_state (slots ?p4 ! t) = Dequeued \<Longrightarrow> buffer_state (slots p ! t) = Dequeued \<and>
          graphic_buffer (slots ?p4 ! t) = graphic_buffer (slots p ! t)"
          using p3 len s that by (auto simp: nth_list_update split: if_splits)
        moreover have "length (slots ?p4) = 64" using p3 len by simp
        ultimately show "buffer_state (slots p5 ! t) = Dequeued \<Longrightarrow> buffer_state (slots p ! t) = Dequeued \<and>
          graphic_buffer (slots p5 ! t) = graphic_buffer (slots p ! t)"
          using e that by (auto simp: nth_list_update split: if_splits)
      qed
      have "is_abandoned p' = is_abandoned p" unfolding yes(13) by (simp add: p5 p3)
      moreover have "slots p' = slots p5" unfolding yes(13) by simp
      ultimately show ?thesis using n dq unfolding no_bare_def by metis
    qed
    show ?thesis using ci cf nb by (simp add: preserves_def)
  qed
qed

text \<open>The consumer leaves the producer's slots alone.\<close>

definition same_dequeued :: "'a BufferQueueCore_scheme \<Rightarrow> 'a BufferQueueCore_scheme \<Rightarrow> bool" where
  "same_dequeued c c' \<longleftrightarrow> is_abandoned c' = is_abandoned c \<and>
     (\<forall>s < 64. (buffer_state (slots c' ! s) = Dequeued \<longleftrightarrow> buffer_state (slots c ! s) = Dequeued) \<and>
        (buffer_state (slots c ! s) = Dequeued \<longrightarrow>
         graphic_buffer (slots c' ! s) = graphic_buffer (slots c ! s)))"

lemma same_dequeued_refl [simp]: "same_dequeued c c"
  by (simp add: same_dequeued_def)

lemma same_dequeued_trans: "same_dequeued a b \<Longrightarrow> same_dequeued b c \<Longrightarrow> same_dequeued a c"
  by (simp add: same_dequeued_def)

lemma same_dequeued_no_bare: "same_dequeued c c' \<Longrightarrow> no_bare c \<Longrightarrow> no_bare c'"
  by (simp add: same_dequeued_def no_bare_def)

lemma same_dequeued_no_bare_but:
  "same_dequeued c c' \<Longrightarrow> t < 64 \<Longrightarrow> no_bare_but t c \<Longrightarrow> no_bare_but t c'"
  by (simp add: same_dequeued_def no_bare_but_def)

lemma same_dequeued_upd:
  assumes "length (slots c) = 64" "is_abandoned c' = is_abandoned c"
    "slots c' = (slots c)[s := x]" "buffer_state (slots c ! s) \<noteq> Dequeued" "buffer_state x \<noteq> Dequeued"
  shows "same_dequeued c c'"
  using assms unfolding same_dequeued_def
  by (cases "s < 64") (auto simp: nth_list_update list_update_beyond)

lemma tracked_state:
  assumes "q_inv sls q" "it \<in> set q" "tracks sls it"
  shows "buffer_state (sls ! nat (it_slot it)) = Queued"
proof -
  have "nat (it_slot it) \<in> set (tracked sls q)" using assms(2,3) unfolding tracked_def by force
  then show ?thesis using assms(1) by (simp add: q_inv_def)
qed

lemma drop_late_dequeued:
  assumes "core_inv c" and "queue c \<noteq> []"
  shows "same_dequeued c (drop_late (queue c) expected c)"
  using assms
proof (induction "queue c" expected c rule: drop_late.induct)
  case (1 front second rest expected c)
  show ?case
  proof (cases "it_is_auto_timestamp front \<or> it_timestamp second < expected - MAX_REASONABLE_NSEC \<or>
      it_timestamp second > expected")
    case True
    then have "drop_late (queue c) expected c = c"
      unfolding 1(2) [symmetric] by (auto simp: Let_def)
    then show ?thesis by simp
  next
    case False
    define c1 where "c1 = (if StillTracking c front
      then upd_slot (nat (it_slot front)) (buffer_state_update (\<lambda>_. Free)) c else c)"
    note d = drop_one [OF 1(3) 1(2) [symmetric] c1_def]
    have step: "drop_late (queue c) expected c = drop_late (queue (erase_front c1)) expected (erase_front c1)"
      unfolding d(3) unfolding 1(2) [symmetric] using False by (simp add: Let_def c1_def)
    have fr: "front \<in> set (queue c)" unfolding 1(2) [symmetric] by simp
    have "same_dequeued c (erase_front c1)"
    proof (cases "StillTracking c front")
      case True
      then have st: "buffer_state (slots c ! nat (it_slot front)) = Queued"
        using tracked_state [OF core_inv_q [OF 1(3)] fr] by (simp add: StillTracking_tracks)
      show ?thesis
        by (rule same_dequeued_upd [OF core_inv_length [OF 1(3)], where s = "nat (it_slot front)"
              and x = "(slots c ! nat (it_slot front))\<lparr>buffer_state := Free\<rparr>"])
          (use True st in \<open>simp_all add: c1_def\<close>)
    next
      case False
      then show ?thesis by (simp add: c1_def same_dequeued_def)
    qed
    moreover have "same_dequeued (erase_front c1) (drop_late (queue (erase_front c1)) expected (erase_front c1))"
    proof (rule 1(1) [OF _ refl _ c1_def])
      show "\<not> it_is_auto_timestamp front" using False by blast
      show "\<not> (it_timestamp second < expected - MAX_REASONABLE_NSEC \<or>
        expected < it_timestamp second)" using False by blast
      show "second # rest = queue (erase_front c1)" using d(3) by simp
      show "core_inv (erase_front c1)" by (rule d(1))
      show "queue (erase_front c1) \<noteq> []" using d(3) by simp
    qed
    ultimately show ?thesis unfolding step by (rule same_dequeued_trans)
  qed
qed (simp, drule sym, simp)

lemma AcquireBuffer_dequeued:
  assumes inv: "core_inv c" and a: "AcquireBuffer c expected = (st, item, c')"
  shows "same_dequeued c c'"
proof (cases "num_acquired_buffers c \<ge> max_acquired_buffer_count + 1 \<or> queue c = []")
  case True
  then have "c' = c" using a by (auto simp: AcquireBuffer_def split: if_splits)
  then show ?thesis by simp
next
  case False
  define c1 where "c1 = (if expected \<noteq> 0 then drop_late (queue c) expected c else c)"
  have c1: "core_inv c1" "queue c1 \<noteq> []" "same_dequeued c c1"
    using drop_late_inv [OF inv, of expected] drop_late_dequeued [OF inv, of expected] False inv
    unfolding c1_def by (cases "expected = 0"; simp)+
  have "c' = c1 \<or> c' = snd (take_front c1)"
    using a False unfolding AcquireBuffer_def c1_def [symmetric] Let_def
    by (auto split: if_splits prod.splits)
  moreover have "same_dequeued c1 (snd (take_front c1))"
  proof (cases "StillTracking c1 (hd (queue c1))")
    case True
    then have st: "buffer_state (slots c1 ! nat (it_slot (hd (queue c1)))) = Queued"
      using tracked_state [OF core_inv_q [OF c1(1)] hd_in_set [OF c1(2)]]
      by (simp add: StillTracking_tracks)
    show ?thesis
      by (rule same_dequeued_upd [OF core_inv_length [OF c1(1)], where s = "nat (it_slot (hd (queue c1)))"
            and x = "(slots c1 ! nat (it_slot (hd (queue c1))))\<lparr>acquire_called := True,
              needs_cleanup_on_release := False, buffer_state := Acquired\<rparr>"])
        (use True st in \<open>simp_all add: take_front_def Let_def\<close>)
  next
    case False
    then show ?thesis by (simp add: take_front_def Let_def same_dequeued_def)
  qed
  ultimately show ?thesis using c1(3) same_dequeued_trans by blast
qed

lemma ReleaseBufferImpl_dequeued:
  assumes inv: "core_inv c" and r: "ReleaseBufferImpl c slot frame wp = (st, pending, calls, c')"
  shows "same_dequeued c c'"
proof -
  have len: "length (slots c) = 64" by (rule core_inv_length [OF inv])
  consider "c' = c"
    | "buffer_state (slots c ! nat slot) = Acquired"
      "c' = SignalDequeueCondition (upd_slot (nat slot) (buffer_state_update (\<lambda>_. Free)) c)"
    | "c' = upd_slot (nat slot) (needs_cleanup_on_release_update (\<lambda>_. False)) c"
    using ReleaseBufferImpl_state [of c' c slot frame wp] r by (metis snd_conv)
  then show ?thesis
  proof cases
    case 2
    show ?thesis
      by (rule same_dequeued_upd [OF len, where s = "nat slot" and
            x = "(slots c ! nat slot)\<lparr>buffer_state := Free\<rparr>"]) (use 2 in simp_all)
  next
    case 3
    then show ?thesis using len
      by (cases "nat slot < 64") (auto simp: same_dequeued_def nth_list_update list_update_beyond)
  qed simp
qed

end
