(* ===== verification/Buffer_Queue_Props.thy ===== *)
theory Buffer_Queue_Props
  imports Buffer_Queue_Invariant
begin

text \<open>
  The buffer queue as a system of threads: calls of the two ends in any order, callers that sleep for
  a slot, buffers being allocated between the two locked sections of \<^verbatim>\<open>DequeueBuffer\<close>, and
  callbacks waiting for their ticket.  Then the properties of the queue.
\<close>

section \<open>The system\<close>

record BqSystem = BufferQueueProducer +
  pending_alloc :: "(DequeueRequest \<times> Status \<times> int \<times> bool) list"
  sleeping_dequeue :: "(DequeueRequest \<times> Status) list"
  sleeping_attach :: "(GraphicBuffer \<times> Status) list"
  pending_callbacks :: "(int \<times> Callback list) list"

definition new_BqSystem :: BqSystem where
  "new_BqSystem = BufferQueueProducer.extend new_BufferQueueProducer
     \<lparr>pending_alloc = [], sleeping_dequeue = [], sleeping_attach = [], pending_callbacks = []\<rparr>"

definition settle_dequeue :: "BqSystem DequeueOutcome \<Rightarrow> BqSystem" where
  "settle_dequeue out =
     (case out of
        Dequeue_Fail st c \<Rightarrow> c
      | Dequeue_Sleep req flags c \<Rightarrow> c\<lparr>sleeping_dequeue := sleeping_dequeue c @ [(req, flags)]\<rparr>
      | Dequeue_Done st slot fnc c \<Rightarrow> c
      | Dequeue_Allocate req flags slot fnc att c \<Rightarrow>
          c\<lparr>pending_alloc := pending_alloc c @ [(req, flags, slot, att)]\<rparr>)"

definition settle_attach :: "BqSystem AttachOutcome \<Rightarrow> BqSystem" where
  "settle_attach out =
     (case out of
        Attach_Return st slot c \<Rightarrow> c
      | Attach_Sleep b flags c \<Rightarrow> c\<lparr>sleeping_attach := sleeping_attach c @ [(b, flags)]\<rparr>)"

text \<open>
  With \<open>one = True\<close> the producer is a single thread: it makes a call only when none of its calls is
  still under way.  The consumer runs at any time.  New buffers have addresses no live buffer has, and
  \<^verbatim>\<open>AttachBuffer\<close> is given a buffer that is not in the queue.
\<close>

definition may_call :: "bool \<Rightarrow> BqSystem \<Rightarrow> bool" where
  "may_call one s \<longleftrightarrow> one \<longrightarrow>
     pending_alloc s = [] \<and> sleeping_dequeue s = [] \<and> sleeping_attach s = [] \<and>
     pending_callbacks s = []"

inductive bq_step :: "bool \<Rightarrow> BqSystem \<Rightarrow> BqSystem \<Rightarrow> bool" for one :: bool where
  request: "may_call one s \<Longrightarrow> RequestBuffer s slot = (st, out, s') \<Longrightarrow> bq_step one s s'"
| set_count: "may_call one s \<Longrightarrow> SetBufferCount s n = (st, calls, s') \<Longrightarrow> bq_step one s s'"
| dequeue: "may_call one s \<Longrightarrow> bq_step one s (settle_dequeue (DequeueBuffer s req))"
| dequeue_wake: "sleeping_dequeue s = xs @ (req, flags) # ys \<Longrightarrow>
    DequeueBuffer_wake (s\<lparr>sleeping_dequeue := xs @ ys\<rparr>) req flags = Some out \<Longrightarrow>
    bq_step one s (settle_dequeue out)"
| allocate: "pending_alloc s = xs @ (req, flags, slot, att) # ys \<Longrightarrow> unqueued s ptr \<Longrightarrow>
    DequeueBuffer_allocate (s\<lparr>pending_alloc := xs @ ys\<rparr>) req flags slot att ptr = (st, s') \<Longrightarrow>
    bq_step one s s'"
| detach: "may_call one s \<Longrightarrow> DetachBuffer s slot = (st, s') \<Longrightarrow> bq_step one s s'"
| detach_next: "may_call one s \<Longrightarrow> DetachNextBuffer s b1 b2 = (st, out, s') \<Longrightarrow> bq_step one s s'"
| attach: "may_call one s \<Longrightarrow> (\<And>b. buffer = Some b \<Longrightarrow> unqueued s (gb_ptr b)) \<Longrightarrow>
    bq_step one s (settle_attach (AttachBuffer s has_out buffer))"
| attach_wake: "sleeping_attach s = xs @ (b, flags) # ys \<Longrightarrow> unqueued s (gb_ptr b) \<Longrightarrow>
    AttachBuffer_wake (s\<lparr>sleeping_attach := xs @ ys\<rparr>) b flags = Some out \<Longrightarrow>
    bq_step one s (settle_attach out)"
| queue: "may_call one s \<Longrightarrow> QueueBuffer s slot input = Some (st, out, cb, s1) \<Longrightarrow>
    s' = (case cb of None \<Rightarrow> s1
          | Some c \<Rightarrow> s1\<lparr>pending_callbacks := pending_callbacks s1 @ [c]\<rparr>) \<Longrightarrow>
    bq_step one s s'"
| callback: "pending_callbacks s = xs @ (ticket, calls) # ys \<Longrightarrow>
    QueueBuffer_callback (s\<lparr>pending_callbacks := xs @ ys\<rparr>) ticket = Some s' \<Longrightarrow>
    bq_step one s s'"
| cancel: "may_call one s \<Longrightarrow> bq_step one s (CancelBuffer s slot fnc)"
| connect: "may_call one s \<Longrightarrow> Connect s listener api app has_out = (st, out, s') \<Longrightarrow> bq_step one s s'"
| disconnect: "may_call one s \<Longrightarrow> Disconnect s api = (st, calls, s') \<Longrightarrow> bq_step one s s'"
| preallocate: "may_call one s \<Longrightarrow> unqueued s ptr \<Longrightarrow>
    SetPreallocatedBuffer s slot buffer ptr = (st, calls, s') \<Longrightarrow> bq_step one s s'"
| acquire: "AcquireBuffer s expected = (st, item, s') \<Longrightarrow> bq_step one s s'"
| release: "ReleaseBufferImpl s slot frame wp = (st, pending, calls, s') \<Longrightarrow> bq_step one s s'"
| consumer_connect: "Consumer_Connect s listener app = (st, s') \<Longrightarrow> bq_step one s s'"
| consumer_disconnect: "Consumer_Disconnect s = (st, s') \<Longrightarrow> bq_step one s s'"

section \<open>The threads' own members\<close>

text \<open>The operations of the queue do not touch what belongs to the threads.\<close>

definition same_threads :: "BqSystem \<Rightarrow> BqSystem \<Rightarrow> bool" where
  "same_threads s s' \<longleftrightarrow>
     pending_alloc s' = pending_alloc s \<and> sleeping_dequeue s' = sleeping_dequeue s \<and>
     sleeping_attach s' = sleeping_attach s \<and> pending_callbacks s' = pending_callbacks s"

definition same_tickets :: "BqSystem \<Rightarrow> BqSystem \<Rightarrow> bool" where
  "same_tickets s s' \<longleftrightarrow> next_callback_ticket s' = next_callback_ticket s \<and>
     current_callback_ticket s' = current_callback_ticket s"

definition frame :: "BqSystem \<Rightarrow> BqSystem \<Rightarrow> bool" where
  "frame s s' \<longleftrightarrow> same_threads s s' \<and> same_tickets s s'"

lemma frame_refl [simp]: "frame s s"
  by (simp add: frame_def same_threads_def same_tickets_def)

lemma frame_trans: "frame a b \<Longrightarrow> frame b c \<Longrightarrow> frame a c"
  by (simp add: frame_def same_threads_def same_tickets_def)

lemma frame_upd_slot [simp]: "frame s (upd_slot i f t) = frame s t"
  by (simp add: frame_def same_threads_def same_tickets_def upd_slot_def)

lemma frame_signals [simp]:
  "frame s (SignalDequeueCondition t) = frame s t" "frame s (Signal t) = frame s t"
  by (simp_all add: frame_def same_threads_def same_tickets_def SignalDequeueCondition_def Signal_def)

lemma frame_core [simp]:
  "frame s (t\<lparr>slots := x1\<rparr>) = frame s t" "frame s (t\<lparr>queue := x2\<rparr>) = frame s t"
  "frame s (t\<lparr>has_queued_buffer := x3\<rparr>) = frame s t"
  "frame s (t\<lparr>override_max_buffer_count := x4\<rparr>) = frame s t"
  "frame s (t\<lparr>dequeue_possible := x3\<rparr>) = frame s t"
  "frame s (t\<lparr>producers_waiting_for_slot := x5\<rparr>) = frame s t"
  "frame s (t\<lparr>buffer_has_been_queued := x3\<rparr>) = frame s t"
  "frame s (t\<lparr>dequeue_buffer_cannot_block := x3\<rparr>) = frame s t"
  "frame s (t\<lparr>connected_api := x5\<rparr>) = frame s t"
  "frame s (t\<lparr>connected_producer_listener := x6\<rparr>) = frame s t"
  "frame s (t\<lparr>consumer_listener := x6\<rparr>) = frame s t"
  "frame s (t\<lparr>consumer_controlled_by_app := x3\<rparr>) = frame s t"
  "frame s (t\<lparr>is_abandoned := x3\<rparr>) = frame s t"
  "frame s (t\<lparr>default_width := x5\<rparr>) = frame s t"
  "frame s (t\<lparr>default_height := x5\<rparr>) = frame s t"
  "frame s (t\<lparr>default_buffer_format := x5\<rparr>) = frame s t"
  "frame s (t\<lparr>frame_counter := x7\<rparr>) = frame s t"
  "frame s (t\<lparr>sticky_transform := x5\<rparr>) = frame s t"
  by (simp_all add: frame_def same_threads_def same_tickets_def)

lemma frame_fold_free: "frame s (fold FreeBufferLocked xs t) = frame s t"
  by (induction xs arbitrary: t) (simp_all add: FreeBufferLocked_def)

lemma frame_free_all [simp]: "frame s (FreeAllBuffersLocked t) = frame s t"
  by (simp add: FreeAllBuffersLocked_def frame_fold_free)

lemma frame_erase_front [simp]: "frame s (erase_front t) = frame s t"
  by (simp add: erase_front_def Let_def)

lemma frame_drop_late: "frame s (drop_late q expected t) = frame s t"
  by (induction q expected t rule: drop_late.induct) (simp_all add: Let_def)

lemma frame_take_front [simp]: "frame s (snd (take_front t)) = frame s t"
  by (simp add: take_front_def Let_def)

lemma frame_RequestBuffer: "RequestBuffer s slot = (st, out, s') \<Longrightarrow> frame s s'"
  by (auto simp: RequestBuffer_def Let_def split: if_splits)

lemma frame_SetBufferCount: "SetBufferCount s n = (st, calls, s') \<Longrightarrow> frame s s'"
  by (auto simp: SetBufferCount_def Let_def split: if_splits)

lemma frame_DetachBuffer: "DetachBuffer s slot = (st, s') \<Longrightarrow> frame s s'"
  by (auto simp: DetachBuffer_def FreeBufferLocked_def split: if_splits)

lemma frame_DetachNextBuffer:
  assumes "DetachNextBuffer s b1 b2 = (st, out, s')"
  shows "frame s s'"
proof -
  have "frame s (snd (snd (DetachNextBuffer s b1 b2)))"
    by (simp add: DetachNextBuffer_def FreeBufferLocked_def Let_def)
  then show ?thesis by (simp add: assms)
qed

lemma frame_CancelBuffer: "frame s (CancelBuffer s slot fnc)"
  by (simp add: CancelBuffer_def)

lemma frame_Connect: "Connect s listener api app has_out = (st, out, s') \<Longrightarrow> frame s s'"
  by (auto simp: Connect_def Let_def split: if_splits)

lemma frame_Disconnect: "Disconnect s api = (st, calls, s') \<Longrightarrow> frame s s'"
  by (auto simp: Disconnect_def Let_def split: if_splits)

lemma frame_SetPreallocatedBuffer:
  "SetPreallocatedBuffer s slot buffer ptr = (st, calls, s') \<Longrightarrow> frame s s'"
  by (auto simp: SetPreallocatedBuffer_def Let_def split: if_splits prod.splits option.splits)

lemma frame_AcquireBuffer:
  assumes "AcquireBuffer s expected = (st, item, s')"
  shows "frame s s'"
proof -
  have "frame s (snd (snd (AcquireBuffer s expected)))"
    by (simp add: AcquireBuffer_def Let_def case_prod_beta frame_drop_late)
  then show ?thesis by (simp add: assms)
qed

lemma frame_ReleaseBufferImpl:
  assumes "ReleaseBufferImpl s slot frm wp = (st, pending, calls, s')"
  shows "frame s s'"
  using ReleaseBufferImpl_state [of s' s slot frm wp] assms by auto

lemma frame_Consumer_Connect: "Consumer_Connect s listener app = (st, s') \<Longrightarrow> frame s s'"
  by (auto simp: Consumer_Connect_def split: if_splits)

lemma frame_Consumer_Disconnect: "Consumer_Disconnect s = (st, s') \<Longrightarrow> frame s s'"
  by (auto simp: Consumer_Disconnect_def split: if_splits)

lemma frame_allocate: "DequeueBuffer_allocate s req flags slot att ptr = (st, s') \<Longrightarrow> frame s s'"
  by (auto simp: DequeueBuffer_allocate_def Let_def split: if_splits)

lemma frame_release_beyond: "frame s (snd (release_beyond s m flags))"
proof -
  have "frame s (snd (fold release_one xs (f, t))) = frame s t" for xs f t
    by (induction xs arbitrary: f t)
      (simp_all add: release_one_def Let_def FreeBufferLocked_def)
  then show ?thesis unfolding release_beyond_def release_one_def [abs_def, symmetric] by simp
qed

lemma frame_DequeueBuffer_turn:
  assumes inv: "core_inv (s :: BqSystem)"
  shows "frame s (outcome_core (DequeueBuffer_turn s req flags))"
proof (rule WaitForFreeSlot_cases [OF inv refl, of "dq_async req" 0 flags])
  fix found fl sls'
  assume w: "WaitForFreeSlot_iteration s (dq_async req) 0 flags =
    Wait_Return NoError found fl (s\<lparr>slots := sls'\<rparr>)"
  have "frame s (outcome_core (DequeueBuffer_take (s\<lparr>slots := sls'\<rparr>) req found fl))"
    by (simp add: DequeueBuffer_take_def Let_def)
  then show ?thesis using w by (simp add: DequeueBuffer_turn_def)
qed (simp_all add: DequeueBuffer_turn_def)

lemma frame_AttachBuffer_turn:
  assumes inv: "core_inv (s :: BqSystem)"
  shows "frame s (attach_core (AttachBuffer_turn s b flags))"
  by (rule WaitForFreeSlot_cases [OF inv refl, of False 0 flags])
    (simp_all add: AttachBuffer_turn_def)

lemma frame_wake: "WaitForFreeSlot_wake s = Some s' \<Longrightarrow> frame s s'"
  by (auto simp: WaitForFreeSlot_wake_def WaitForDequeueCondition_def split: if_splits)

lemma threads_QueueBuffer:
  assumes "QueueBuffer s slot input = Some (st, out, cb, s')"
  shows "same_threads s s'"
    and "cb = None \<Longrightarrow> same_tickets s s'"
    and "cb = Some c \<Longrightarrow> fst c = next_callback_ticket s \<and>
      next_callback_ticket s' = next_callback_ticket s + 1 \<and>
      current_callback_ticket s' = current_callback_ticket s"
proof -
  have "same_threads s s' \<and> (case cb of None \<Rightarrow> same_tickets s s' | Some c \<Rightarrow>
    fst c = next_callback_ticket s \<and> next_callback_ticket s' = next_callback_ticket s + 1 \<and>
      current_callback_ticket s' = current_callback_ticket s)"
    using assms
  proof (cases rule: QueueBuffer_cases)
    case no
    then show ?thesis by (simp add: same_threads_def same_tickets_def)
  next
    case (yes b p3 item av p5 calls)
    obtain sls qu where "p5 = p3\<lparr>sticky_transform := in_sticky_transform input, slots := sls, queue := qu\<rparr>"
      using enqueue_item_fields [OF yes(12)] by blast
    then have "frame s p5" unfolding yes(10) by simp
    then show ?thesis
      unfolding yes(13) using yes(2)
      by (simp add: frame_def same_threads_def same_tickets_def SignalDequeueCondition_def)
  qed
  then show "same_threads s s'" "cb = None \<Longrightarrow> same_tickets s s'"
    "cb = Some c \<Longrightarrow> fst c = next_callback_ticket s \<and>
      next_callback_ticket s' = next_callback_ticket s + 1 \<and>
      current_callback_ticket s' = current_callback_ticket s" by auto
qed

section \<open>Invariants of the system\<close>

definition alloc_ok :: "(DequeueRequest \<times> Status \<times> int \<times> bool) list \<Rightarrow> bool" where
  "alloc_ok ps \<longleftrightarrow> (\<forall>(req, flags, slot, att) \<in> set ps. 0 \<le> slot \<and> slot < 64)"

text \<open>The waiting callbacks hold the tickets that are out, in order.\<close>

definition tickets_ok :: "BqSystem \<Rightarrow> bool" where
  "tickets_ok s \<longleftrightarrow> current_callback_ticket s \<le> next_callback_ticket s \<and>
     map fst (pending_callbacks s) = [current_callback_ticket s .. next_callback_ticket s - 1]"

definition sys_inv :: "BqSystem \<Rightarrow> bool" where
  "sys_inv s \<longleftrightarrow> core_inv s \<and> alloc_ok (pending_alloc s) \<and> tickets_ok s"

definition under_way :: "BqSystem \<Rightarrow> nat" where
  "under_way s = length (pending_alloc s) + length (sleeping_dequeue s) +
     length (sleeping_attach s) + length (pending_callbacks s)"

definition serial_inv :: "BqSystem \<Rightarrow> bool" where
  "serial_inv s \<longleftrightarrow> core_full s \<and> under_way s \<le> 1 \<and>
     (case pending_alloc s of
        [] \<Rightarrow> no_bare s
      | (req, flags, slot, att) # _ \<Rightarrow> no_bare_but (nat slot) s)"

lemma under_way_frame: "frame s s' \<Longrightarrow> under_way s' = under_way s"
  by (simp add: under_way_def frame_def same_threads_def)

lemma sys_inv_plain:
  assumes "sys_inv s" "preserves s s'" "frame s s'"
  shows "sys_inv s'"
  using assms by (simp add: sys_inv_def preserves_def frame_def same_threads_def same_tickets_def
      tickets_ok_def)

lemma serial_inv_plain:
  assumes "serial_inv s" "sys_inv s" "may_call True s" "preserves s s'" "frame s s'"
  shows "serial_inv s'"
  using assms under_way_frame [OF assms(5)]
  by (simp add: serial_inv_def sys_inv_def preserves_def frame_def same_threads_def may_call_def)

lemma sys_inv_core:
  assumes "sys_inv s" "core_inv s'" "frame s s'"
  shows "sys_inv s'"
  using assms by (simp add: sys_inv_def frame_def same_threads_def same_tickets_def tickets_ok_def)

lemma serial_inv_consumer:
  assumes "serial_inv s" "sys_inv s" "core_full s'" "frame s s'"
    and "same_dequeued s s' \<or> is_abandoned s'"
  shows "serial_inv s'"
proof (cases "pending_alloc s")
  case Nil
  then show ?thesis
    using assms under_way_frame [OF assms(4)] same_dequeued_no_bare [of s s']
    by (auto simp: serial_inv_def frame_def same_threads_def no_bare_def)
next
  case (Cons x ps)
  obtain req flags slot att where x: "x = (req, flags, slot, att)" using prod_cases4 by blast
  have "0 \<le> slot \<and> slot < 64" using assms(2) Cons x by (simp add: sys_inv_def alloc_ok_def)
  then have t: "nat slot < 64" by linarith
  show ?thesis
    using assms under_way_frame [OF assms(4)] same_dequeued_no_bare_but [of s s', OF _ t] Cons x
    by (auto simp: serial_inv_def frame_def same_threads_def no_bare_but_def)
qed

lemma settle_dequeue_inv:
  assumes inv: "sys_inv s" and t: "DequeueBuffer_turn s req flags = out"
  shows "sys_inv (settle_dequeue out)"
    and "core_full s \<Longrightarrow> no_bare s \<Longrightarrow> under_way s = 0 \<Longrightarrow> serial_inv (settle_dequeue out)"
proof -
  have ci: "core_inv s" using inv by (simp add: sys_inv_def)
  note i = DequeueBuffer_turn_inv [OF ci t]
  have fr: "frame s (outcome_core out)" using frame_DequeueBuffer_turn [OF ci, of req flags] t by simp
  have si: "sys_inv (outcome_core out)" by (rule sys_inv_core [OF inv i(1) fr])
  show "sys_inv (settle_dequeue out)"
    using si i(4) by (cases out)
      (auto simp: settle_dequeue_def sys_inv_def core_inv_def tickets_ok_def alloc_ok_def)
  show "serial_inv (settle_dequeue out)" if "core_full s" "no_bare s" "under_way s = 0"
    using i(2) [OF that(1)] i(3) [OF that(2)] that(3) fr
    by (cases out) (auto simp: settle_dequeue_def serial_inv_def under_way_def frame_def
        same_threads_def no_bare_def no_bare_but_def)
qed

lemma settle_attach_inv:
  assumes inv: "sys_inv s" and t: "AttachBuffer_turn s b flags = out" and u: "unqueued s (gb_ptr b)"
  shows "sys_inv (settle_attach out)"
    and "core_full s \<Longrightarrow> no_bare s \<Longrightarrow> under_way s = 0 \<Longrightarrow> serial_inv (settle_attach out)"
proof -
  have ci: "core_inv s" using inv by (simp add: sys_inv_def)
  have p: "preserves s (attach_core out)" by (rule AttachBuffer_turn_preserves [OF t u])
  have fr: "frame s (attach_core out)" using frame_AttachBuffer_turn [OF ci, of b flags] t by simp
  have si: "sys_inv (attach_core out)" by (rule sys_inv_plain [OF inv p fr])
  show "sys_inv (settle_attach out)"
    using si by (cases out) (auto simp: settle_attach_def sys_inv_def core_inv_def tickets_ok_def)
  show "serial_inv (settle_attach out)" if "core_full s" "no_bare s" "under_way s = 0"
    using p ci that fr
    by (cases out) (auto simp: settle_attach_def serial_inv_def under_way_def frame_def
        same_threads_def no_bare_def preserves_def)
qed

lemma sys_inv_threads:
  assumes "sys_inv s"
  shows "sys_inv (s\<lparr>sleeping_dequeue := x\<rparr>)" and "sys_inv (s\<lparr>sleeping_attach := y\<rparr>)"
  using assms by (simp_all add: sys_inv_def core_inv_def tickets_ok_def)

lemma wake_inv:
  assumes inv: "sys_inv s" and w: "WaitForFreeSlot_wake s = Some c"
  shows "sys_inv c" and "core_full s \<Longrightarrow> core_full c" and "no_bare s \<Longrightarrow> no_bare c"
    and "under_way c = under_way s"
  using sys_inv_plain [OF inv DequeueBuffer_wake_preserves [OF w] frame_wake [OF w]]
    DequeueBuffer_wake_preserves [OF w] inv under_way_frame [OF frame_wake [OF w]]
  by (simp_all add: preserves_def sys_inv_def)

lemma unqueued_wake:
  assumes "WaitForFreeSlot_wake s = Some c"
  shows "unqueued c ptr = unqueued s ptr"
  using assms by (auto simp: WaitForFreeSlot_wake_def WaitForDequeueCondition_def unqueued_def
      split: if_splits)

lemma serial_quiet:
  assumes "serial_inv s" and "pending_alloc s = []"
  shows "core_full s" "no_bare s"
  using assms by (simp_all add: serial_inv_def)

lemma dequeue_wake_inv:
  assumes inv: "sys_inv s" and sl: "sleeping_dequeue s = xs @ (req, flags) # ys"
    and w: "DequeueBuffer_wake (s\<lparr>sleeping_dequeue := xs @ ys\<rparr>) req flags = Some out"
  shows "sys_inv (settle_dequeue out)" and "serial_inv s \<Longrightarrow> serial_inv (settle_dequeue out)"
proof -
  let ?s1 = "s\<lparr>sleeping_dequeue := xs @ ys\<rparr>"
  obtain c where c: "WaitForFreeSlot_wake ?s1 = Some c" "out = DequeueBuffer_turn c req flags"
    using w by (auto simp: DequeueBuffer_wake_def split: option.splits)
  note i = wake_inv [OF sys_inv_threads(1) [OF inv] c(1)]
  note d = settle_dequeue_inv [OF i(1) c(2) [symmetric]]
  show "sys_inv (settle_dequeue out)" by (rule d(1))
  show "serial_inv (settle_dequeue out)" if "serial_inv s"
  proof -
    have "under_way s \<le> 1" using that by (simp add: serial_inv_def)
    then have "pending_alloc s = []" "under_way ?s1 = 0" using sl by (auto simp: under_way_def)
    then show ?thesis using d(2) i(2-4) serial_quiet [OF that]
      by (simp add: no_bare_def)
  qed
qed

lemma attach_wake_inv:
  assumes inv: "sys_inv s" and sl: "sleeping_attach s = xs @ (b, flags) # ys"
    and u: "unqueued s (gb_ptr b)"
    and w: "AttachBuffer_wake (s\<lparr>sleeping_attach := xs @ ys\<rparr>) b flags = Some out"
  shows "sys_inv (settle_attach out)" and "serial_inv s \<Longrightarrow> serial_inv (settle_attach out)"
proof -
  let ?s1 = "s\<lparr>sleeping_attach := xs @ ys\<rparr>"
  obtain c where c: "WaitForFreeSlot_wake ?s1 = Some c" "out = AttachBuffer_turn c b flags"
    using w by (auto simp: AttachBuffer_wake_def split: option.splits)
  note i = wake_inv [OF sys_inv_threads(2) [OF inv] c(1)]
  have u': "unqueued c (gb_ptr b)" using u unqueued_wake [OF c(1)] by (simp add: unqueued_def)
  note d = settle_attach_inv [OF i(1) c(2) [symmetric] u']
  show "sys_inv (settle_attach out)" by (rule d(1))
  show "serial_inv (settle_attach out)" if "serial_inv s"
  proof -
    have "under_way s \<le> 1" using that by (simp add: serial_inv_def)
    then have "pending_alloc s = []" "under_way ?s1 = 0" using sl by (auto simp: under_way_def)
    then show ?thesis using d(2) i(2-4) serial_quiet [OF that]
      by (simp add: no_bare_def)
  qed
qed

lemma allocate_step_inv:
  assumes inv: "sys_inv s" and pa: "pending_alloc s = xs @ (req, flags, slot, att) # ys"
    and fresh: "unqueued s ptr"
    and a: "DequeueBuffer_allocate (s\<lparr>pending_alloc := xs @ ys\<rparr>) req flags slot att ptr = (st, s')"
  shows "sys_inv s'" and "serial_inv s \<Longrightarrow> serial_inv s'"
proof -
  let ?s1 = "s\<lparr>pending_alloc := xs @ ys\<rparr>"
  have i1: "sys_inv ?s1" using inv pa by (auto simp: sys_inv_def core_inv_def tickets_ok_def alloc_ok_def)
  have ci: "core_inv ?s1" using i1 by (simp add: sys_inv_def)
  have sl: "0 \<le> slot" "slot < 64" using inv pa by (auto simp: sys_inv_def alloc_ok_def)
  have u: "unqueued ?s1 ptr" using fresh by (simp add: unqueued_def)
  have fr: "frame ?s1 s'" by (rule frame_allocate [OF a])
  note al = allocate_inv [OF ci sl u a]
  show "sys_inv s'" by (rule sys_inv_core [OF i1 al(1) fr])
  show "serial_inv s'" if s: "serial_inv s"
  proof -
    have "under_way s \<le> 1" using s by (simp add: serial_inv_def)
    then have e: "xs = []" "ys = []" "under_way ?s1 = 0" using pa by (auto simp: under_way_def)
    have nb: "no_bare_but (nat slot) ?s1" "core_full ?s1"
      using s pa e by (simp_all add: serial_inv_def no_bare_but_def)
    then show ?thesis using al(2,3) under_way_frame [OF fr] fr e
      by (simp add: serial_inv_def frame_def same_threads_def)
  qed
qed

lemma queue_step_inv:
  assumes inv: "sys_inv s" and q: "QueueBuffer s slot input = Some (st, out, cb, s1)"
    and s': "s' = (case cb of None \<Rightarrow> s1
          | Some c \<Rightarrow> s1\<lparr>pending_callbacks := pending_callbacks s1 @ [c]\<rparr>)"
  shows "sys_inv s'" and "serial_inv s \<Longrightarrow> may_call True s \<Longrightarrow> serial_inv s'"
proof -
  have p: "preserves s s1" by (rule QueueBuffer_preserves [OF q])
  note t = threads_QueueBuffer [OF q]
  have th: "pending_alloc s1 = pending_alloc s" "pending_callbacks s1 = pending_callbacks s"
    "sleeping_dequeue s1 = sleeping_dequeue s" "sleeping_attach s1 = sleeping_attach s"
    using t(1) by (simp_all add: same_threads_def)
  have ci: "core_inv s1" using p inv by (simp add: preserves_def sys_inv_def)
  have "tickets_ok s'"
  proof (cases cb)
    case None
    then show ?thesis using inv t(2) th s'
      by (simp add: sys_inv_def tickets_ok_def same_tickets_def)
  next
    case (Some c)
    have ok: "current_callback_ticket s \<le> next_callback_ticket s"
      "map fst (pending_callbacks s) = [current_callback_ticket s .. next_callback_ticket s - 1]"
      using inv by (simp_all add: sys_inv_def tickets_ok_def)
    have "[current_callback_ticket s .. next_callback_ticket s] =
      [current_callback_ticket s .. next_callback_ticket s - 1] @ [next_callback_ticket s]"
      using upto_rec2 [OF ok(1)] by simp
    then show ?thesis using ok t(3) [OF Some] th s' Some by (simp add: tickets_ok_def)
  qed
  then show "sys_inv s'"
    using ci inv th s' by (cases cb) (simp_all add: sys_inv_def core_inv_def)
  show "serial_inv s'" if "serial_inv s" "may_call True s"
    using p inv that th s' by (cases cb)
      (simp_all add: serial_inv_def sys_inv_def preserves_def may_call_def under_way_def no_bare_def)
qed

lemma callback_step_inv:
  assumes inv: "sys_inv s" and c: "pending_callbacks s = xs @ (ticket, calls) # ys"
    and q: "QueueBuffer_callback (s\<lparr>pending_callbacks := xs @ ys\<rparr>) ticket = Some s'"
  shows "xs = []" and "sys_inv s'" and "serial_inv s \<Longrightarrow> serial_inv s'"
proof -
  have t: "ticket = current_callback_ticket s"
    and s': "s' = s\<lparr>pending_callbacks := xs @ ys, current_callback_ticket := current_callback_ticket s + 1\<rparr>"
    using q by (auto simp: QueueBuffer_callback_def split: if_splits)
  let ?a = "current_callback_ticket s" and ?b = "next_callback_ticket s - 1"
  have m: "map fst xs @ ticket # map fst ys = [?a .. ?b]"
    using inv c by (simp add: sys_inv_def tickets_ok_def)
  then have "[?a .. ?b] \<noteq> []" by (metis append_is_Nil_conv list.distinct(1))
  then have ab: "?a \<le> ?b" by simp
  then have r: "[?a .. ?b] = ?a # [?a + 1 .. ?b]" by (rule upto_rec1)
  show xs: "xs = []"
  proof (rule ccontr)
    assume "xs \<noteq> []"
    then obtain x xs' where x: "xs = x # xs'" by (cases xs) auto
    then have "map fst xs' @ ticket # map fst ys = [?a + 1 .. ?b]" using m unfolding r by auto
    from arg_cong [OF this, of set] have "ticket \<in> set [?a + 1 .. ?b]" by auto
    then show False using t by simp
  qed
  have "map fst ys = [?a + 1 .. ?b]" using m xs r t by simp
  then have "tickets_ok s'" using ab s' xs by (simp add: tickets_ok_def)
  then show "sys_inv s'" using inv s' by (simp add: sys_inv_def core_inv_def)
  show "serial_inv s'" if "serial_inv s"
    using that s' c by (simp add: serial_inv_def under_way_def no_bare_def no_bare_but_def
        split: list.splits prod.splits)
qed

lemma may_call_quiet:
  "may_call True s \<Longrightarrow> pending_alloc s = [] \<and> under_way s = 0"
  by (simp add: may_call_def under_way_def)

text \<open>A call of the producer that does not sleep or allocate.\<close>

lemma plain_step:
  assumes "sys_inv s" "preserves s s'" "frame s s'" "may_call one s"
  shows "sys_inv s' \<and> (one \<longrightarrow> serial_inv s \<longrightarrow> serial_inv s')"
  using sys_inv_plain [OF assms(1-3)] serial_inv_plain [OF _ assms(1) _ assms(2,3)] assms(4) by auto

lemma consumer_step:
  assumes "sys_inv s" "core_inv s'" "core_full s \<longrightarrow> core_full s'" "frame s s'"
    "same_dequeued s s' \<or> is_abandoned s'"
  shows "sys_inv s' \<and> (one \<longrightarrow> serial_inv s \<longrightarrow> serial_inv s')"
  using sys_inv_core [OF assms(1,2,4)] serial_inv_consumer [OF _ assms(1) _ assms(4,5)] assms(3)
  by (auto simp: serial_inv_def)

lemma bq_step_inv:
  assumes step: "bq_step one s s'" and inv: "sys_inv s"
  shows "sys_inv s' \<and> (one \<longrightarrow> serial_inv s \<longrightarrow> serial_inv s')"
proof -
  have ci: "core_inv s" using inv by (simp add: sys_inv_def)
  show ?thesis
    using step
  proof cases
    case (request slot st out)
    show ?thesis by (rule plain_step [OF inv RequestBuffer_preserves frame_RequestBuffer]) (use request in auto)
  next
    case (set_count n st calls)
    show ?thesis
      by (rule plain_step [OF inv SetBufferCount_preserves frame_SetBufferCount]) (use set_count in auto)
  next
    case (dequeue req)
    show ?thesis
    proof (cases "DequeueBuffer_enter s req")
      case None
      then have "s' = s" using dequeue(1) by (simp add: DequeueBuffer_def settle_dequeue_def)
      then show ?thesis using inv by simp
    next
      case (Some r)
      then have s': "s' = settle_dequeue (DequeueBuffer_turn s r NoError)"
        using dequeue(1) by (simp add: DequeueBuffer_def)
      note d = settle_dequeue_inv [OF inv refl, of r NoError]
      show ?thesis unfolding s' using d dequeue(2) may_call_quiet [of s] serial_quiet [of s] by auto
    qed
  next
    case (dequeue_wake xs req flags ys out)
    show ?thesis using dequeue_wake_inv [OF inv dequeue_wake(2,3)] dequeue_wake(1) by simp
  next
    case (allocate xs req flags slot att ys ptr st)
    show ?thesis using allocate_step_inv [OF inv allocate] by simp
  next
    case (detach slot st)
    show ?thesis by (rule plain_step [OF inv DetachBuffer_preserves frame_DetachBuffer]) (use detach in auto)
  next
    case (detach_next b1 b2 st out)
    show ?thesis
      by (rule plain_step [OF inv DetachNextBuffer_preserves frame_DetachNextBuffer])
        (use detach_next in auto)
  next
    case (attach buffer has_out)
    show ?thesis
    proof (cases "has_out \<and> buffer \<noteq> None")
      case False
      then have "s' = s" using attach(1)
        by (cases buffer) (auto simp: AttachBuffer_def settle_attach_def)
      then show ?thesis using inv by simp
    next
      case True
      then obtain b where b: "buffer = Some b" by auto
      then have s': "s' = settle_attach (AttachBuffer_turn s b NoError)"
        using attach(1) True by (simp add: AttachBuffer_def)
      note d = settle_attach_inv [OF inv refl attach(3) [OF b], of NoError]
      show ?thesis unfolding s' using d attach(2) may_call_quiet [of s] serial_quiet [of s] by auto
    qed
  next
    case (attach_wake xs b flags ys out)
    show ?thesis using attach_wake_inv [OF inv attach_wake(2-4)] attach_wake(1) by simp
  next
    case (queue slot input st out cb s1)
    show ?thesis using queue_step_inv [OF inv queue(2,3)] queue(1) by auto
  next
    case (callback xs ticket calls ys)
    show ?thesis using callback_step_inv [OF inv callback] by simp
  next
    case (cancel slot fnc)
    show ?thesis
      using plain_step [OF inv CancelBuffer_preserves frame_CancelBuffer cancel(2)] cancel(1) by simp
  next
    case (connect listener api app has_out st out)
    show ?thesis by (rule plain_step [OF inv Connect_preserves frame_Connect]) (use connect in auto)
  next
    case (disconnect api st calls)
    show ?thesis
      by (rule plain_step [OF inv Disconnect_preserves frame_Disconnect]) (use disconnect in auto)
  next
    case (preallocate ptr slot buffer st calls)
    show ?thesis
      by (rule plain_step [OF inv SetPreallocatedBuffer_preserves frame_SetPreallocatedBuffer])
        (use preallocate in auto)
  next
    case (acquire expected st item)
    show ?thesis
      using consumer_step [OF inv AcquireBuffer_inv(1) [OF ci acquire] _ frame_AcquireBuffer [OF acquire]]
        AcquireBuffer_inv(2) [OF ci acquire] AcquireBuffer_dequeued [OF ci acquire] by blast
  next
    case (release slot frame wp st pending calls)
    show ?thesis
      using consumer_step [OF inv ReleaseBufferImpl_inv(1) [OF ci release] _
          frame_ReleaseBufferImpl [OF release]]
        ReleaseBufferImpl_inv(2) [OF ci release] ReleaseBufferImpl_dequeued [OF ci release] by blast
  next
    case (consumer_connect listener app st)
    have p: "preserves s s'" by (rule Consumer_Connect_preserves [OF consumer_connect])
    have d: "same_dequeued s s'" using consumer_connect
      by (auto simp: Consumer_Connect_def same_dequeued_def split: if_splits)
    show ?thesis
      using consumer_step [OF inv _ _ frame_Consumer_Connect [OF consumer_connect]] p d ci
      by (simp add: preserves_def)
  next
    case (consumer_disconnect st)
    have p: "preserves s s'" by (rule Consumer_Disconnect_preserves [OF consumer_disconnect])
    have "s' = s \<or> is_abandoned s'"
      using consumer_disconnect FreeAll_eq [of "s\<lparr>is_abandoned := True, consumer_listener := None,
          queue := [], has_queued_buffer := False\<rparr>"] core_inv_length [OF ci]
      by (auto simp: Consumer_Disconnect_def split: if_splits)
    then have d: "same_dequeued s s' \<or> is_abandoned s'" by auto
    show ?thesis
      using consumer_step [OF inv _ _ frame_Consumer_Disconnect [OF consumer_disconnect] d] p ci
      by (simp add: preserves_def)
  qed
qed

lemma new_system_inv: "sys_inv new_BqSystem \<and> serial_inv new_BqSystem"
proof -
  have s: "slots new_BqSystem = replicate 64 new_BufferSlot" "queue new_BqSystem = []"
    "has_queued_buffer new_BqSystem = False" "override_max_buffer_count new_BqSystem = 0"
    "default_max_buffer_count new_BqSystem = 2" "is_abandoned new_BqSystem = False"
    "pending_alloc new_BqSystem = []" "sleeping_dequeue new_BqSystem = []"
    "sleeping_attach new_BqSystem = []" "pending_callbacks new_BqSystem = []"
    "next_callback_ticket new_BqSystem = 0" "current_callback_ticket new_BqSystem = 0"
    by (simp_all add: new_BqSystem_def new_BufferQueueProducer_def new_BufferQueueCore_def
        BufferQueueProducer.defs BufferQueueCore.defs)
  then show ?thesis
    by (simp add: sys_inv_def core_inv_def q_inv_def single_acquired_def alloc_ok_def tickets_ok_def
        serial_inv_def q_full_def under_way_def no_bare_def new_BufferSlot_def)
qed

lemma reachable_sys_inv:
  assumes "(bq_step one)\<^sup>*\<^sup>* new_BqSystem s"
  shows "sys_inv s \<and> (one \<longrightarrow> serial_inv s)"
  using assms
proof (induction rule: rtranclp_induct)
  case base
  then show ?case using new_system_inv by simp
next
  case (step s s')
  then show ?case using bq_step_inv by blast
qed

section \<open>Properties\<close>

text \<open>
  C15.  Whatever the two ends do, in any interleaving and with any number of producer threads: there are
  64 slots, the flag the display polls says whether items are queued, queued items name existing slots,
  a slot with a live queued item is in the queued state and has only one such item, at most one slot is
  acquired, the number of usable slots is between 1 and 64, and an abandoned queue is empty.
\<close>

theorem buffer_queue_invariant:
  assumes "(bq_step one)\<^sup>*\<^sup>* new_BqSystem s"
  shows "length (slots s) = 64 \<and> (has_queued_buffer s \<longleftrightarrow> queue s \<noteq> []) \<and>
    (\<forall>it \<in> set (queue s). 0 \<le> it_slot it \<and> it_slot it < 64 \<and>
       (StillTracking s it \<longrightarrow> buffer_state (slots s ! nat (it_slot it)) = Queued)) \<and>
    distinct (map (nat \<circ> it_slot) (filter (StillTracking s) (queue s))) \<and>
    (\<forall>i < 64. \<forall>j < 64. buffer_state (slots s ! i) = Acquired \<and> buffer_state (slots s ! j) = Acquired
       \<longrightarrow> i = j) \<and>
    0 < GetMaxBufferCountLocked s async \<and> GetMaxBufferCountLocked s async \<le> 64 \<and>
    (is_abandoned s \<longrightarrow> queue s = [])"
proof -
  have ci: "core_inv s" using reachable_sys_inv [OF assms] by (simp add: sys_inv_def)
  then have q: "q_inv (slots s) (queue s)" by (rule core_inv_q)
  have t: "StillTracking s = tracks (slots s)" by (rule ext) (rule StillTracking_tracks)
  show ?thesis
    using ci q core_inv_max [OF ci, of async] tracked_state [OF q]
    unfolding core_inv_def q_inv_def single_acquired_def tracked_def t by auto
qed

theorem buffer_queue_invariant_witness:
  "\<exists>s. bq_step True new_BqSystem s \<and> length (slots s) = 64 \<and> \<not> has_queued_buffer s"
proof -
  let ?s = "CancelBuffer new_BqSystem 0 NoFence"
  have st: "bq_step True new_BqSystem ?s"
    by (rule bq_step.cancel) (simp add: may_call_def new_BqSystem_def BufferQueueProducer.defs)
  have "\<not> has_queued_buffer ?s"
    by (simp add: CancelBuffer_def new_BqSystem_def new_BufferQueueProducer_def
        new_BufferQueueCore_def BufferQueueProducer.defs BufferQueueCore.defs)
  then show ?thesis
    using buffer_queue_invariant [OF r_into_rtranclp [of "bq_step True", OF st]] st by blast
qed

text \<open>
  C16.  With a single producer thread no buffer is lost: a slot is in the queued state exactly when
  one item of the queue tracks it, so every queued buffer will be acquired, dropped or replaced.
\<close>

theorem queued_slots_have_items:
  assumes "(bq_step True)\<^sup>*\<^sup>* new_BqSystem s" and "i < 64"
  shows "buffer_state (slots s ! i) = Queued \<longleftrightarrow>
    (\<exists>!it. it \<in> set (queue s) \<and> StillTracking s it \<and> nat (it_slot it) = i)"
proof -
  have inv: "sys_inv s" "serial_inv s" using reachable_sys_inv [OF assms(1)] by simp_all
  have q: "q_inv (slots s) (queue s)"
    by (rule core_inv_q) (use inv(1) in \<open>simp add: sys_inv_def\<close>)
  have full: "core_full s" using inv(2) by (simp add: serial_inv_def)
  have d: "distinct (map (nat \<circ> it_slot) (filter (tracks (slots s)) (queue s)))"
    using q by (simp add: q_inv_def tracked_def)
  show ?thesis unfolding StillTracking_tracks
  proof
    assume "buffer_state (slots s ! i) = Queued"
    then have "i \<in> set (tracked (slots s) (queue s))" using full assms(2) by (simp add: q_full_def)
    then obtain it where it: "it \<in> set (queue s)" "tracks (slots s) it" "nat (it_slot it) = i"
      by (auto simp: tracked_def)
    have "it' = it" if "it' \<in> set (queue s)" "tracks (slots s) it'" "nat (it_slot it') = i" for it'
      using d it that unfolding distinct_map inj_on_def by auto
    then show "\<exists>!it. it \<in> set (queue s) \<and> tracks (slots s) it \<and> nat (it_slot it) = i"
      using it by blast
  next
    assume "\<exists>!it. it \<in> set (queue s) \<and> tracks (slots s) it \<and> nat (it_slot it) = i"
    then obtain it where "it \<in> set (queue s)" "tracks (slots s) it" "nat (it_slot it) = i" by blast
    then show "buffer_state (slots s ! i) = Queued" using tracked_state [OF q] by blast
  qed
qed

theorem queued_slots_have_items_witness:
  "buffer_state (slots new_BqSystem ! 5) = Queued \<longleftrightarrow>
    (\<exists>!it. it \<in> set (queue new_BqSystem) \<and> StillTracking new_BqSystem it \<and> nat (it_slot it) = 5)"
  by (rule queued_slots_have_items [OF rtranclp.rtrancl_refl]) simp

text \<open>
  C17.  With a single producer thread, queueing a buffer never follows a null pointer, whatever slot
  and block of parameters the guest passes.
\<close>

theorem QueueBuffer_never_null:
  assumes "(bq_step True)\<^sup>*\<^sup>* new_BqSystem s" and "may_call True s"
    and "next_callback_ticket s < 2 ^ 31 - 1"
  shows "\<exists>st out cb s'. QueueBuffer s slot input = Some (st, out, cb, s')"
proof -
  have inv: "sys_inv s" "serial_inv s" using reachable_sys_inv [OF assms(1)] by simp_all
  have nb: "no_bare s" using serial_quiet [OF inv(2)] may_call_quiet [OF assms(2)] by simp
  have ci: "core_inv s" using inv(1) by (simp add: sys_inv_def)
  show ?thesis
  proof (cases "QueueBuffer_checks s slot (in_async input \<noteq> 0) = NoError")
    case False
    then show ?thesis by (auto simp: QueueBuffer_def Let_def)
  next
    case True
    then have c: "\<not> is_abandoned s" "0 \<le> slot" "slot < GetMaxBufferCountLocked s (in_async input \<noteq> 0)"
      "buffer_state (slots s ! nat slot) = Dequeued"
      unfolding QueueBuffer_checks_def by (auto simp: Let_def status_defs split: if_splits)
    then have "nat slot < 64" using core_inv_max [OF ci, of "in_async input \<noteq> 0"] by linarith
    then obtain b where "graphic_buffer (slots s ! nat slot) = Some b"
      using nb c unfolding no_bare_def by blast
    then show ?thesis using True assms(3)
      by (auto simp: QueueBuffer_def Let_def case_prod_beta)
  qed
qed

theorem QueueBuffer_never_null_witness:
  "\<exists>st out cb s'. QueueBuffer new_BqSystem 70
     \<lparr>in_timestamp = 0, in_is_auto_timestamp = 0, in_crop = rect_of_size 0 0, in_scaling_mode = 0,
      in_transform = 0, in_sticky_transform = 0, in_async = 0, in_swap_interval = 0,
      in_fence = NoFence\<rparr> = Some (st, out, cb, s')"
proof -
  have "may_call True new_BqSystem" "next_callback_ticket new_BqSystem < 2 ^ 31 - 1"
    using new_system_inv
    by (simp_all add: may_call_def new_BqSystem_def new_BufferQueueProducer_def
        BufferQueueProducer.defs BufferQueueCore.defs)
  from QueueBuffer_never_null [OF rtranclp.rtrancl_refl this] show ?thesis by blast
qed

text \<open>
  C18.  Callbacks are delivered in the order of the \<^verbatim>\<open>QueueBuffer\<close> calls and cannot get stuck: of
  the callers waiting with a ticket, exactly the one that queued first may go on.
\<close>

theorem callbacks_in_order:
  assumes "(bq_step one)\<^sup>*\<^sup>* new_BqSystem s" and "pending_callbacks s = xs @ (ticket, calls) # ys"
  shows "QueueBuffer_callback s ticket \<noteq> None \<longleftrightarrow> xs = []"
proof -
  have t: "map fst (pending_callbacks s) = [current_callback_ticket s .. next_callback_ticket s - 1]"
    using reachable_sys_inv [OF assms(1)] by (simp add: sys_inv_def tickets_ok_def)
  let ?a = "current_callback_ticket s" and ?b = "next_callback_ticket s - 1"
  have m: "map fst xs @ ticket # map fst ys = [?a .. ?b]" using t assms(2) by simp
  then have "[?a .. ?b] \<noteq> []" by (metis append_is_Nil_conv list.distinct(1))
  then have r: "[?a .. ?b] = ?a # [?a + 1 .. ?b]" by (intro upto_rec1) simp
  have "ticket = ?a \<longleftrightarrow> xs = []"
  proof (cases xs)
    case Nil
    then show ?thesis using m unfolding r by simp
  next
    case (Cons x xs')
    then have "map fst xs' @ ticket # map fst ys = [?a + 1 .. ?b]" using m unfolding r by auto
    from arg_cong [OF this, of set] have "ticket \<in> set [?a + 1 .. ?b]" by auto
    then show ?thesis using Cons by auto
  qed
  then show ?thesis by (simp add: QueueBuffer_callback_def)
qed

section \<open>A run\<close>

text \<open>A producer dequeues a slot of a new queue, requests its buffer and queues it.\<close>

definition example_request :: DequeueRequest where
  "example_request = \<lparr>dq_async = False, dq_width = 0, dq_height = 0, dq_format = 0, dq_usage = 0\<rparr>"

definition example_input :: QueueBufferInput where
  "example_input = \<lparr>in_timestamp = 0, in_is_auto_timestamp = 0, in_crop = rect_of_size 1 1,
     in_scaling_mode = 0, in_transform = 0, in_sticky_transform = 0, in_async = 0,
     in_swap_interval = 0, in_fence = NoFence\<rparr>"

definition dequeued_system :: BqSystem where
  "dequeued_system = settle_dequeue (DequeueBuffer new_BqSystem example_request)"

definition allocated_system :: BqSystem where
  "allocated_system = (case pending_alloc dequeued_system of
     (req, flags, slot, att) # ps \<Rightarrow>
       snd (DequeueBuffer_allocate (dequeued_system\<lparr>pending_alloc := ps\<rparr>) req flags slot att 1)
   | [] \<Rightarrow> dequeued_system)"

definition requested_system :: "BqSystem \<Rightarrow> BqSystem" where
  "requested_system s = snd (snd (RequestBuffer s 0))"

definition queued_system :: BqSystem where
  "queued_system = (case QueueBuffer (requested_system allocated_system) 0 example_input of
     Some (st, out, Some cb, s) \<Rightarrow> s\<lparr>pending_callbacks := pending_callbacks s @ [cb]\<rparr>
   | _ \<Rightarrow> new_BqSystem)"

lemma new_may_call: "may_call one new_BqSystem"
  by (simp add: may_call_def new_BqSystem_def BufferQueueProducer.defs)

lemma dequeued_step: "bq_step one new_BqSystem dequeued_system"
  unfolding dequeued_system_def by (rule bq_step.dequeue [OF new_may_call])

lemma allocated_step: "bq_step one dequeued_system allocated_system"
proof -
  have p: "map (\<lambda>(req, flags, slot, att). slot) (pending_alloc dequeued_system) = [0]" by code_simp
  then obtain req flags att where pa: "pending_alloc dequeued_system = [] @ (req, flags, 0, att) # []"
    by (auto simp: map_eq_Cons_conv)
  have "queue dequeued_system = []" by code_simp
  then have u: "unqueued dequeued_system 1" by (simp add: unqueued_def)
  show ?thesis
    using bq_step.allocate [OF pa u, of "fst (DequeueBuffer_allocate
      (dequeued_system\<lparr>pending_alloc := []\<rparr>) req flags 0 att 1)" allocated_system]
    by (simp add: allocated_system_def pa)
qed

lemma requested_step:
  assumes "may_call one s"
  shows "bq_step one s (requested_system s)"
  by (rule bq_step.request [OF assms, of 0 "fst (RequestBuffer s 0)" "fst (snd (RequestBuffer s 0))"])
    (simp add: requested_system_def)

lemma queued_steps: "(bq_step True)\<^sup>*\<^sup>* new_BqSystem queued_system"
proof -
  have m: "may_call True allocated_system" "may_call True (requested_system allocated_system)"
    by code_simp+
  have n: "(case QueueBuffer (requested_system allocated_system) 0 example_input of
    Some (st, out, Some cb, s) \<Rightarrow> True | _ \<Rightarrow> False)" by code_simp
  then obtain st out cb s where q: "QueueBuffer (requested_system allocated_system) 0 example_input =
      Some (st, out, Some cb, s)"
    by (auto split: option.splits)
  have s: "queued_system = (case Some cb of None \<Rightarrow> s
          | Some c \<Rightarrow> s\<lparr>pending_callbacks := pending_callbacks s @ [c]\<rparr>)"
    by (simp add: queued_system_def q)
  have "bq_step True (requested_system allocated_system) queued_system"
    by (rule bq_step.queue [OF m(2) q s])
  then show ?thesis
    using dequeued_step [of True] allocated_step [of True] requested_step [OF m(1)]
    by (meson converse_rtranclp_into_rtranclp rtranclp.rtrancl_refl)
qed

theorem callbacks_in_order_witness:
  "QueueBuffer_callback queued_system 0 \<noteq> None"
proof -
  have "map fst (pending_callbacks queued_system) = [0]" by code_simp
  then obtain calls where "pending_callbacks queued_system = [] @ (0, calls) # []"
    by (auto simp: map_eq_Cons_conv)
  from callbacks_in_order [OF queued_steps this] show ?thesis by simp
qed

text \<open>
  C19.  A second producer thread that requests a slot while the first is still allocating its buffer,
  and then queues it, makes \<^verbatim>\<open>QueueBuffer\<close> follow the null pointer of the slot: the request
  sets the flag that \<^verbatim>\<open>QueueBuffer\<close> checks, but the buffer is not there yet.
\<close>

theorem QueueBuffer_null_race:
  "\<exists>s. (bq_step False)\<^sup>*\<^sup>* new_BqSystem s \<and> next_callback_ticket s < 2 ^ 31 - 1 \<and>
     length (pending_alloc s) = 1 \<and> QueueBuffer s 0 example_input = None"
proof (intro exI conjI)
  let ?s = "requested_system dequeued_system"
  have "may_call False dequeued_system" by (simp add: may_call_def)
  then show "(bq_step False)\<^sup>*\<^sup>* new_BqSystem ?s"
    using dequeued_step [of False] requested_step [of False dequeued_system]
    by (meson converse_rtranclp_into_rtranclp rtranclp.rtrancl_refl)
  show "next_callback_ticket ?s < 2 ^ 31 - 1" by code_simp
  show "length (pending_alloc ?s) = 1" by code_simp
  show "QueueBuffer ?s 0 example_input = None" by code_simp
qed

section \<open>What the operations do\<close>

lemma Intersect_id:
  assumes "snd (Intersect r (rect_of_size w h)) = r"
  shows "0 \<le> rect_left r" "0 \<le> rect_top r" "rect_right r \<le> w" "rect_bottom r \<le> h"
proof -
  have "max (rect_left r) 0 = rect_left r" "max (rect_top r) 0 = rect_top r"
    "min (rect_right r) w = rect_right r" "min (rect_bottom r) h = rect_bottom r"
    using arg_cong [OF assms, of rect_left] arg_cong [OF assms, of rect_top]
      arg_cong [OF assms, of rect_right] arg_cong [OF assms, of rect_bottom]
    by (simp_all add: Intersect_def rect_of_size_def Let_def)
  then show "0 \<le> rect_left r" "0 \<le> rect_top r" "rect_right r \<le> w" "rect_bottom r \<le> h"
    by linarith+
qed

definition droppable_front :: "BufferItem list \<Rightarrow> bool" where
  "droppable_front q \<longleftrightarrow> q \<noteq> [] \<and> it_is_droppable (hd q)"

lemma enqueue_item_queue:
  assumes "enqueue_item c item = (av, c')"
  shows "queue c' = (if droppable_front (queue c) then item # tl (queue c) else queue c @ [item])"
    and "droppable_front (queue c) \<Longrightarrow> StillTracking c (hd (queue c)) \<Longrightarrow>
      nat (it_slot (hd (queue c))) < length (slots c) \<Longrightarrow>
      slots c' = (slots c)[nat (it_slot (hd (queue c))) :=
        (slots c ! nat (it_slot (hd (queue c))))\<lparr>buffer_state := Free, frame_number := 0\<rparr>]"
    and "\<not> (droppable_front (queue c) \<and> StillTracking c (hd (queue c))) \<Longrightarrow> slots c' = slots c"
proof -
  have s: "snd (enqueue_item c item) = c'" using assms by simp
  show "queue c' = (if droppable_front (queue c) then item # tl (queue c) else queue c @ [item])"
    "droppable_front (queue c) \<Longrightarrow> StillTracking c (hd (queue c)) \<Longrightarrow>
      nat (it_slot (hd (queue c))) < length (slots c) \<Longrightarrow>
      slots c' = (slots c)[nat (it_slot (hd (queue c))) :=
        (slots c ! nat (it_slot (hd (queue c))))\<lparr>buffer_state := Free, frame_number := 0\<rparr>]"
    "\<not> (droppable_front (queue c) \<and> StillTracking c (hd (queue c))) \<Longrightarrow> slots c' = slots c"
    unfolding s [symmetric] enqueue_item_def droppable_front_def
    by (cases "queue c"; simp add: Let_def)+
qed

text \<open>
  C20.  \<^verbatim>\<open>QueueBuffer\<close> either fails and changes nothing, or the slot was the producer's and its
  buffer requested, the crop lies inside the buffer, the slot is queued under the next frame number, and
  the item with the slot's buffer and the given crop is appended, or takes the place of a droppable front
  item, whose slot becomes free.
\<close>

theorem QueueBuffer_spec:
  assumes "core_inv p" and "QueueBuffer p slot input = Some (st, out, cb, p')"
  shows "st \<noteq> NoError \<and> p' = p \<and> cb = None \<or>
    st = NoError \<and> buffer_state (slots p ! nat slot) = Dequeued \<and>
    request_buffer_called (slots p ! nat slot) \<and>
    (\<exists>b item. graphic_buffer (slots p ! nat slot) = Some b \<and>
       0 \<le> rect_left (in_crop input) \<and> 0 \<le> rect_top (in_crop input) \<and>
       rect_right (in_crop input) \<le> sint (Width b) \<and> rect_bottom (in_crop input) \<le> sint (Height b) \<and>
       it_slot item = slot \<and> it_graphic_buffer item = Some b \<and> it_crop item = in_crop input \<and>
       it_frame_number item = frame_counter p + 1 \<and>
       queue p' = (if droppable_front (queue p) then item # tl (queue p) else queue p @ [item])) \<and>
    buffer_state (slots p' ! nat slot) = Queued \<and>
    frame_number (slots p' ! nat slot) = frame_counter p + 1 \<and>
    (droppable_front (queue p) \<and> StillTracking p (hd (queue p)) \<longrightarrow>
       buffer_state (slots p' ! nat (it_slot (hd (queue p)))) = Free)"
  using assms(2)
proof (cases rule: QueueBuffer_cases)
  case no
  then show ?thesis by simp
next
  case (yes b p3 item av p5 calls)
  let ?s = "nat slot" and ?f = "nat (it_slot (hd (queue p)))"
  let ?x = "(slots p ! ?s)\<lparr>fence := in_fence input, buffer_state := Queued,
    frame_number := frame_counter p + 1\<rparr>"
  let ?p4 = "p3\<lparr>sticky_transform := in_sticky_transform input\<rparr>"
  have len: "length (slots p) = 64" by (rule core_inv_length [OF assms(1)])
  have q: "q_inv (slots p) (queue p)" by (rule core_inv_q [OF assms(1)])
  have s: "?s < 64" using yes(4,5) core_inv_max [OF assms(1), of "in_async input \<noteq> 0"] by linarith
  have p3: "slots p3 = (slots p)[?s := ?x]" "queue p3 = queue p" "frame_counter p3 = frame_counter p + 1"
    unfolding yes(10) by (simp_all add: upd_slot_def)
  have item: "it_slot item = slot" "it_graphic_buffer item = Some b" "it_crop item = in_crop input"
    "it_frame_number item = frame_counter p + 1"
    using yes(8,11) p3 s len by (simp_all add: queued_item_def Let_def)
  have p': "queue p' = queue p5" "slots p' = slots p5" unfolding yes(13) by simp_all
  note e = enqueue_item_queue [OF yes(12)]
  have gb: "graphic_buffer (slots p3 ! i) = graphic_buffer (slots p ! i)" for i
    using p3 s len by (cases "i = ?s") simp_all
  have trk: "StillTracking ?p4 it = StillTracking p it" for it
    by (simp add: StillTracking_tracks tracks_def gb)
  have front: "?f \<noteq> ?s \<and> ?f < 64" if d: "droppable_front (queue p)" "StillTracking p (hd (queue p))"
  proof -
    have h: "hd (queue p) \<in> set (queue p)" using d(1) by (simp add: droppable_front_def)
    have "buffer_state (slots p ! ?f) = Queued"
      using tracked_state [OF q h] d(2) by (simp add: StillTracking_tracks)
    moreover have "0 \<le> it_slot (hd (queue p)) \<and> it_slot (hd (queue p)) < 64"
      using q h by (simp add: q_inv_def)
    ultimately show ?thesis using yes(6) by (metis BufferState.distinct(7) nat_less_iff of_nat_numeral)
  qed
  have sl5: "slots p5 ! ?s = ?x \<and>
    (droppable_front (queue p) \<and> StillTracking p (hd (queue p)) \<longrightarrow>
       buffer_state (slots p5 ! ?f) = Free)"
  proof (cases "droppable_front (queue p) \<and> StillTracking p (hd (queue p))")
    case True
    then have "slots p5 = (slots ?p4)[?f := (slots ?p4 ! ?f)\<lparr>buffer_state := Free, frame_number := 0\<rparr>]"
      using e(2) p3 trk front len by simp
    then show ?thesis using front True p3 s len by simp
  next
    case False
    then have "slots p5 = slots ?p4" using e(3) p3 trk by simp
    then show ?thesis using False p3 s len by auto
  qed
  have "queue p' = (if droppable_front (queue p) then item # tl (queue p) else queue p @ [item])"
    using e(1) p' p3 by simp
  then show ?thesis
    using yes(1,6,7,8) Intersect_id [OF yes(9)] item sl5 p' by auto
qed

theorem QueueBuffer_spec_witness:
  "\<exists>p' out cb. QueueBuffer (requested_system allocated_system) 0 example_input =
     Some (NoError, out, cb, p') \<and> length (queue p') = 1 \<and> buffer_state (slots p' ! 0) = Queued"
proof -
  let ?p = "requested_system allocated_system"
  have m: "may_call True allocated_system" by code_simp
  have "(bq_step True)\<^sup>*\<^sup>* new_BqSystem ?p"
    using dequeued_step [of True] allocated_step [of True] requested_step [OF m]
    by (meson converse_rtranclp_into_rtranclp rtranclp.rtrancl_refl)
  then have ci: "core_inv ?p" using reachable_sys_inv by (simp add: sys_inv_def)
  have "map_option fst (QueueBuffer ?p 0 example_input) = Some NoError" by code_simp
  then obtain out cb p' where q: "QueueBuffer ?p 0 example_input = Some (NoError, out, cb, p')"
    by auto
  have n: "queue ?p = []" by code_simp
  show ?thesis
    using QueueBuffer_spec [OF ci q] q n by (auto simp: droppable_front_def)
qed


lemma acquired_count:
  assumes "length (slots c) = 64"
  shows "num_acquired_buffers c \<ge> max_acquired_buffer_count + 1 \<longleftrightarrow>
    (\<exists>s < 64. buffer_state (slots c ! s) = Acquired)"
proof -
  have "0 < length (filter (\<lambda>sl. buffer_state sl = Acquired) (slots c)) \<longleftrightarrow>
      (\<exists>s < 64. buffer_state (slots c ! s) = Acquired)"
    using assms unfolding length_greater_0_conv filter_empty_conv by (metis in_set_conv_nth)
  moreover have "num_acquired_buffers c \<ge> max_acquired_buffer_count + 1 \<longleftrightarrow>
      0 < length (filter (\<lambda>sl. buffer_state sl = Acquired) (slots c))"
    unfolding num_acquired_buffers_def max_acquired_buffer_count_def by linarith
  ultimately show ?thesis by simp
qed



lemma release_beyond_low:
  assumes "i < nat m"
  shows "slots (snd (release_beyond c m flags)) ! i = slots c ! i"
proof -
  have "slots (snd (fold release_one xs x)) ! i = slots (snd x) ! i" if "i \<notin> set xs" for xs x
    using that
    by (induction xs arbitrary: x)
      (auto simp: release_one_def Let_def FreeBufferLocked_def split: prod.splits)
  from this [of "[nat m..<64]" "(flags, c)"] show ?thesis
    using assms unfolding release_beyond_def release_one_def [abs_def, symmetric] by simp
qed

lemma WaitForFreeSlot_low:
  assumes "WaitForFreeSlot_iteration c async found0 flags0 = Wait_Return NoError found flags c'"
    and "i < nat (GetMaxBufferCountLocked c async)"
  shows "slots c' ! i = slots c ! i"
proof -
  have ne: "NoInit \<noteq> NoError" "BadValue \<noteq> NoError" "InvalidOperation \<noteq> NoError" "WouldBlock \<noteq> NoError"
    by (simp_all add: status_defs)
  have "c' = snd (release_beyond c (GetMaxBufferCountLocked c async) flags0)"
    using assms(1) ne unfolding WaitForFreeSlot_iteration_def
    by (auto simp: Let_def case_prod_beta split: if_splits)
  then show ?thesis using release_beyond_low [OF assms(2)] by simp
qed

text \<open>What a buffer must be for a request.\<close>

definition fits_request :: "GraphicBuffer option \<Rightarrow> DequeueRequest \<Rightarrow> bool" where
  "fits_request buffer r \<longleftrightarrow> (\<exists>b. buffer = Some b \<and> Width b = dq_width r \<and> Height b = dq_height r \<and>
     gb_format b = dq_format r \<and> Usage b AND dq_usage r = dq_usage r)"

lemma suitable_fits: "\<not> buffer_unsuitable b r \<Longrightarrow> fits_request b r"
  by (auto simp: buffer_unsuitable_def fits_request_def split: option.splits)

lemma new_buffer_fits:
  "fits_request (Some (new_GraphicBuffer ptr (dq_width r) (dq_height r) (dq_format r) (dq_usage r))) r"
  by (simp add: fits_request_def new_GraphicBuffer_def to_GraphicBuffer_def NvGraphicBuffer_of_def
      NvGraphicBuffer.defs Width_def Height_def Usage_def new_NvGraphicBuffer_def)

definition oldest_free_slot :: "BufferSlot list \<Rightarrow> int \<Rightarrow> int \<Rightarrow> bool" where
  "oldest_free_slot sls n slot \<longleftrightarrow> 0 \<le> slot \<and> slot < n \<and> buffer_state (sls ! nat slot) = Free \<and>
     (\<forall>i < nat n. buffer_state (sls ! i) = Free \<longrightarrow>
        frame_number (sls ! nat slot) \<le> frame_number (sls ! i))"

text \<open>
  C22.  A slot that \<^verbatim>\<open>DequeueBuffer\<close> hands out is the least recently used of the free slots
  below the limit, belongs to the producer afterwards, and holds a buffer of the requested size (the
  default size for 0 by 0), format and usage, either the one it had or the one allocated for it.
\<close>

theorem DequeueBuffer_spec:
  assumes "core_inv c" and "DequeueBuffer_turn c req flags = out"
  shows "case out of
      Dequeue_Done st slot fnc c' \<Rightarrow>
        oldest_free_slot (slots c) (GetMaxBufferCountLocked c (dq_async req)) slot \<and>
        buffer_state (slots c' ! nat slot) = Dequeued \<and>
        fits_request (graphic_buffer (slots c' ! nat slot)) (sized_request c req)
    | Dequeue_Allocate r fl slot fnc att c' \<Rightarrow>
        oldest_free_slot (slots c) (GetMaxBufferCountLocked c (dq_async req)) slot \<and>
        buffer_state (slots c' ! nat slot) = Dequeued \<and> r = sized_request c req \<and>
        (\<forall>ptr st c''. DequeueBuffer_allocate c' r fl slot att ptr = (st, c'') \<longrightarrow>
           fits_request (graphic_buffer (slots c'' ! nat slot)) r)
    | _ \<Rightarrow> True"
proof (rule WaitForFreeSlot_cases [OF assms(1) refl, of "dq_async req" 0 flags])
  fix found fl sls'
  assume w: "WaitForFreeSlot_iteration c (dq_async req) 0 flags =
      Wait_Return NoError found fl (c\<lparr>slots := sls'\<rparr>)" "released (slots c) sls'"
    "\<not> is_abandoned c" "0 \<le> found" "found < GetMaxBufferCountLocked c (dq_async req)"
    "oldest_free sls' (nat (GetMaxBufferCountLocked c (dq_async req))) found"
  let ?c1 = "c\<lparr>slots := sls'\<rparr>" and ?s = "nat found"
  let ?m = "GetMaxBufferCountLocked c (dq_async req)"
  have low: "sls' ! i = slots c ! i" if "i < nat ?m" for i
    using WaitForFreeSlot_low [OF w(1) that] by simp
  have s: "?s < nat ?m" "?s < 64" using w(4,5) core_inv_max [OF assms(1), of "dq_async req"] by linarith+
  have len: "?s < length (slots ?c1)"
    using s core_inv_length [OF assms(1)] w(2) by (simp add: released_def)
  have old: "oldest_free_slot (slots c) ?m found"
    using w(4-6) low s by (auto simp: oldest_free_slot_def oldest_free_def INVALID_BUFFER_SLOT_def)
  have sz: "sized_request ?c1 req = sized_request c req" by (simp add: sized_request_def)
  have out: "DequeueBuffer_take ?c1 req found fl = out"
    using assms(2) w(1) by (simp add: DequeueBuffer_turn_def)
  show ?thesis
  proof (rule DequeueBuffer_take_cases [OF w(4) len out])
    fix st fnc
    assume d: "out = Dequeue_Done st found fnc (upd_slot ?s (take_slot False) ?c1)"
      "\<not> buffer_unsuitable (graphic_buffer (slots ?c1 ! ?s)) (sized_request ?c1 req)"
    show ?thesis using d old len suitable_fits [OF d(2)] sz by simp
  next
    fix flags' fnc r
    assume d: "out = Dequeue_Allocate (sized_request ?c1 req) flags' found fnc
      (attached_by_consumer (slots ?c1 ! ?s)) (upd_slot ?s (take_slot r) ?c1)"
    have "fits_request (graphic_buffer (slots c'' ! ?s)) (sized_request c req)"
      if "DequeueBuffer_allocate (upd_slot ?s (take_slot r) ?c1) (sized_request c req) flags' found
        att ptr = (st, c'')" for att ptr st c''
      using that w(3) len new_buffer_fits [of ptr "sized_request c req"]
      by (auto simp: DequeueBuffer_allocate_def Let_def)
    then show ?thesis using d old len sz by simp
  qed
qed (use assms(2) in \<open>auto simp: DequeueBuffer_turn_def\<close>)

theorem DequeueBuffer_spec_witness:
  "\<exists>r fl fnc att c'. DequeueBuffer_turn new_BqSystem example_request 0 =
      Dequeue_Allocate r fl 0 fnc att c' \<and> buffer_state (slots c' ! 0) = Dequeued"
proof -
  have ci: "core_inv new_BqSystem" using new_system_inv by (simp add: sys_inv_def)
  have "(case DequeueBuffer_turn new_BqSystem example_request 0 of
     Dequeue_Allocate r fl slot fnc att c' \<Rightarrow> slot = 0 | _ \<Rightarrow> False)" by code_simp
  then obtain r fl fnc att c' where o: "DequeueBuffer_turn new_BqSystem example_request 0 =
      Dequeue_Allocate r fl 0 fnc att c'" by (auto split: DequeueOutcome.splits)
  show ?thesis using DequeueBuffer_spec [OF ci o] o by simp
qed

section \<open>The display side\<close>

text \<open>
  C23.  What the display acquires it can give back: when the front item is live, its slot carries its
  frame number and is queued only once, and the display's cache holds the buffer if the queue will not
  send it again, then acquiring the item yields its buffer, and releasing it makes the slot free, tells
  the producer, and leaves the rest of the queue as it was.
\<close>

theorem acquire_release_roundtrip:
  assumes "core_inv c" and "cb_consumer cb" and "length (cb_slots cb) = 64"
    and "queue c = front # rest" and "StillTracking c front"
    and "\<forall>i < 64. buffer_state (slots c ! i) \<noteq> Acquired"
    and "frame_number (slots c ! nat (it_slot front)) = it_frame_number front"
    and "\<forall>it \<in> set rest. it_slot it \<noteq> it_slot front"
    and "it_acquire_called front \<longrightarrow>
      cs_graphic_buffer (cb_slots cb ! nat (it_slot front)) = it_graphic_buffer front"
  shows "\<exists>item cb1 c1 calls cb2 c2.
    Item_AcquireBuffer cb c True 0 = Some (NoError, Some item, cb1, c1) \<and>
    it_graphic_buffer item = it_graphic_buffer front \<and> it_slot item = it_slot front \<and>
    buffer_state (slots c1 ! nat (it_slot front)) = Acquired \<and>
    Item_ReleaseBuffer cb1 c1 item fnc = Some (NoError, calls, cb2, c2) \<and>
    buffer_state (slots c2 ! nat (it_slot front)) = Free \<and> queue c2 = rest \<and>
    calls = (case connected_producer_listener c of Some l \<Rightarrow> [OnBufferReleased l] | None \<Rightarrow> [])"
proof -
  let ?s = "nat (it_slot front)"
  have q: "q_inv (slots c) (queue c)" by (rule core_inv_q [OF assms(1)])
  have len: "length (slots c) = 64" by (rule core_inv_length [OF assms(1)])
  have sl: "0 \<le> it_slot front" "it_slot front < 64" using q assms(4) by (simp_all add: q_inv_def)
  then have s: "?s < 64" by linarith
  obtain g where g: "it_graphic_buffer front = Some g"
    using assms(5) by (auto simp: StillTracking_def same_buffer_def Let_def split: option.splits)
  have acq: "\<not> num_acquired_buffers c \<ge> max_acquired_buffer_count + 1"
    using acquired_count [OF len] assms(6) by blast
  define c1 where "c1 = snd (take_front c)"
  have a: "AcquireBuffer c 0 = (NoError, Some (fst (take_front c)), c1)"
    using acq assms(4) unfolding AcquireBuffer_def by (simp add: case_prod_beta c1_def Let_def)
  let ?x = "(slots c ! ?s)\<lparr>acquire_called := True, needs_cleanup_on_release := False,
    buffer_state := Acquired\<rparr>"
  have c1: "slots c1 = (slots c)[?s := ?x]" "queue c1 = rest"
    "connected_producer_listener c1 = connected_producer_listener c"
    using assms(4,5) by (simp_all add: c1_def take_front_def Let_def erase_front_def upd_slot_def
        SignalDequeueCondition_def)
  define it where "it = fst (take_front c)"
  have it: "it = (if it_acquire_called front then front\<lparr>it_graphic_buffer := None\<rparr> else front)"
    using assms(4) by (simp add: it_def take_front_def Let_def)
  define cb1 where "cb1 = cb_upd ?s (\<lambda>s. s\<lparr>cs_graphic_buffer := Some g,
    cs_frame_number := it_frame_number front, cs_fence := it_fence front\<rparr>) cb"
  let ?item = "it\<lparr>it_graphic_buffer := Some g\<rparr>"
  have cs: "cs_graphic_buffer (cb_slots cb1 ! ?s) = Some g"
    "cs_frame_number (cb_slots cb1 ! ?s) = it_frame_number front" "cb_consumer cb1" "length (cb_slots cb1) = 64"
    using s assms(2,3) by (simp_all add: cb1_def cb_upd_def)
  have cached: "(cb_slots cb ! ?s)\<lparr>cs_graphic_buffer := Some g\<rparr> = cb_slots cb ! ?s" if "it_acquire_called front"
    using assms(9) that g by (metis ConsumerSlot.surjective ConsumerSlot.update_convs(1) ConsumerSlot.select_convs(1))
  have "AcquireBufferLocked cb c 0 = Some (NoError, Some it, cb1, c1)"
  proof (cases "it_acquire_called front")
    case True
    then have "cb_upd ?s (\<lambda>s. s\<lparr>cs_frame_number := it_frame_number front, cs_fence := it_fence front\<rparr>) cb
        = cb1"
      using cached [OF True] s assms(3) unfolding cb1_def cb_upd_def
      by (metis (no_types, lifting) ConsumerSlot.surjective ConsumerSlot.update_convs(1,2,3))
    then show ?thesis using a True it assms(2) by (simp add: AcquireBufferLocked_def it_def [symmetric] Let_def)
  next
    case False
    then show ?thesis using a it g assms(2,3) s
      by (simp add: AcquireBufferLocked_def it_def [symmetric] Let_def cb1_def cb_upd_def)
  qed
  moreover have its: "it_slot it = it_slot front" using it by simp
  ultimately have acq1: "Item_AcquireBuffer cb c True 0 = Some (NoError, Some ?item, cb1, c1)"
    by (simp add: Item_AcquireBuffer_def cs(1))
  define cb2 where "cb2 = cb_upd ?s (cs_fence_update (\<lambda>_. fnc)) cb1"
  have cs2: "cs_graphic_buffer (cb_slots cb2 ! ?s) = Some g"
    "cs_frame_number (cb_slots cb2 ! ?s) = it_frame_number front" "cb_consumer cb2"
    using cs s by (simp_all add: cb2_def cb_upd_def)
  have nb: "\<not> bad_slot (it_slot front)" using sl by simp
  have add: "AddReleaseFenceLocked cb1 (it_slot front) (Some g) fnc = Some (NoError, cb2)"
    using nb cs(1) by (simp add: AddReleaseFenceLocked_def cb_StillTracking_def cb2_def)
  have fr: "frame_number (slots c1 ! ?s) = it_frame_number front" "buffer_state (slots c1 ! ?s) = Acquired"
    using c1(1) s len assms(7) by simp_all
  have nq: "\<not> (\<exists>it \<in> set (queue c1). it_slot it = it_slot front)" using c1(2) assms(8) by simp
  let ?c2 = "SignalDequeueCondition (upd_slot ?s (buffer_state_update (\<lambda>_. Free)) c1)"
  let ?calls = "case connected_producer_listener c of Some l \<Rightarrow> [OnBufferReleased l] | None \<Rightarrow> []"
  have rel: "ReleaseBuffer c1 (it_slot front) (it_frame_number front) = (NoError, None, ?calls, ?c2)"
    unfolding ReleaseBuffer_def ReleaseBufferImpl_def if_not_P [OF nb] Let_def if_not_P [OF nq]
    using fr c1(3) by (simp add: upd_slot_def)
  have ne: "NoError \<noteq> WouldBlock" "NoError \<noteq> StaleBufferSlot" by (simp_all add: status_defs)
  have "\<exists>cb3. ReleaseBufferLocked cb2 c1 (it_slot front) (Some g) False =
    Some (NoError, None, ?calls, cb3, ?c2)"
    using nb cs2 rel ne by (simp add: ReleaseBufferLocked_def cb_StillTracking_def)
  then obtain cb3 where "ReleaseBufferLocked cb2 c1 (it_slot front) (Some g) False =
    Some (NoError, None, ?calls, cb3, ?c2)" by blast
  then have "Item_ReleaseBuffer cb1 c1 ?item fnc = Some (NoError, ?calls, cb3, ?c2)"
    using add its by (simp add: Item_ReleaseBuffer_def)
  moreover have "buffer_state (slots ?c2 ! ?s) = Free" "queue ?c2 = rest"
    using c1 s len by simp_all
  ultimately show ?thesis using acq1 fr(2) g its by auto
qed

theorem acquire_release_roundtrip_witness:
  "\<exists>item cb1 c1 calls cb2 c2.
    Item_AcquireBuffer new_ConsumerBase queued_system True 0 = Some (NoError, Some item, cb1, c1) \<and>
    Item_ReleaseBuffer cb1 c1 item NoFence = Some (NoError, calls, cb2, c2) \<and>
    buffer_state (slots c2 ! 0) = Free \<and> queue c2 = []"
proof -
  have ci: "core_inv queued_system" using reachable_sys_inv [OF queued_steps] by (simp add: sys_inv_def)
  have q: "map (\<lambda>it. (it_slot it, it_frame_number it, it_acquire_called it)) (queue queued_system) =
      [(0, 1, False)] \<and> list_all (StillTracking queued_system) (queue queued_system) \<and>
      frame_number (slots queued_system ! 0) = 1 \<and> buffer_state (slots queued_system ! 0) = Queued"
    by code_simp
  have na: "list_all (\<lambda>sl. buffer_state sl \<noteq> Acquired) (slots queued_system)" by code_simp
  obtain front where f: "queue queued_system = [front]" "it_slot front = 0" "it_frame_number front = 1"
    "\<not> it_acquire_called front" "StillTracking queued_system front"
    using q by (auto simp: map_eq_Cons_conv)
  have a: "\<forall>i < 64. buffer_state (slots queued_system ! i) \<noteq> Acquired"
    using na core_inv_length [OF ci] by (simp add: list_all_length)
  have cb: "cb_consumer new_ConsumerBase" "length (cb_slots new_ConsumerBase) = 64"
    by (simp_all add: new_ConsumerBase_def)
  show ?thesis
    using acquire_release_roundtrip [OF ci cb f(1,5) a, of NoFence] f q by auto
qed

end
