(* ===== verification/Macro_Interpreter.thy ===== *)
theory Macro_Interpreter
  imports Prelude
begin

text \<open>
  The interpreter of the macros a guest uploads to the GPU front end:
  \<^verbatim>\<open>yuzu_video_core/macro/macro.h\<close> (the encoding) and
  \<^verbatim>\<open>yuzu_video_core/macro/macro_interpreter.cpp\<close>.  The interpreter sees the 3D engine through \<open>Engine\<close>: its
  \<^verbatim>\<open>CallMethod\<close> and \<^verbatim>\<open>GetRegisterValue\<close>, the vector of parameters the engine owns while the macro
  runs, and the uploaded code, which the interpreter only references.  The locale
  \<open>macro_host\<close> is what it asks of an engine; the engine of the code is in
  \<open>Macro_Engine\<close>.  A macro runs until it exits, which need not happen, and a
  step may call itself for a delay slot: both take fuel, and \<open>Timeout\<close> says it ran out.
  The assertions of the code are not fatal and change nothing.
\<close>

section \<open>Outcomes\<close>

text \<open>
  What a run of host code ends in: a value, exhausted fuel, undefined behaviour of C++ with its
  kind, or a macro object entered again while it runs, which the model does not follow (the inner
  run would reset the registers of the outer one).
\<close>

datatype Fault = Parameter_Read | Parameter_Write | Register_Read | Register_Write
  | Macro_Position_Write | Use_After_Free | End_Iterator | Null_Pointer | Engine_Register_Write

datatype 'a Run = Timeout | Undefined Fault | Reentered | Returns 'a

fun bind_run :: "'a Run \<Rightarrow> ('a \<Rightarrow> 'b Run) \<Rightarrow> 'b Run" where
  "bind_run (Returns x) f = f x"
| "bind_run Timeout f = Timeout"
| "bind_run (Undefined w) f = Undefined w"
| "bind_run Reentered f = Reentered"

lemma bind_run_Returns_iff:
  "bind_run r f = Returns y \<longleftrightarrow> (\<exists>x. r = Returns x \<and> f x = Returns y)"
  by (cases r) simp_all

lemma bind_run_Undefined_iff:
  "bind_run r f = Undefined w \<longleftrightarrow>
     r = Undefined w \<or> (\<exists>x. r = Returns x \<and> f x = Undefined w)"
  by (cases r) simp_all

lemma bind_run_Timeout_iff:
  "bind_run r f = Timeout \<longleftrightarrow> r = Timeout \<or> (\<exists>x. r = Returns x \<and> f x = Timeout)"
  by (cases r) simp_all

lemmas bind_run_iffs = bind_run_Returns_iff bind_run_Undefined_iff bind_run_Timeout_iff

text \<open>
  The weakest precondition of a run for the postcondition \<open>P\<close>, where faults outside
  \<open>F\<close> must not occur and running out of fuel is allowed.
\<close>

fun within :: "Fault set \<Rightarrow> ('a \<Rightarrow> bool) \<Rightarrow> 'a Run \<Rightarrow> bool" where
  "within F P (Returns x) = P x"
| "within F P (Undefined w) \<longleftrightarrow> w \<in> F"
| "within F P Timeout = True"
| "within F P Reentered = True"

lemma within_bind [simp]: "within F P (bind_run r f) = within F (\<lambda>x. within F P (f x)) r"
  by (cases r) simp_all

lemma within_mono: "within F P r \<Longrightarrow> (\<And>x. r = Returns x \<Longrightarrow> P x \<Longrightarrow> Q x) \<Longrightarrow> within F Q r"
  by (cases r) simp_all

lemma withinD:
  assumes "within F P r"
  shows "r = Returns x \<Longrightarrow> P x" and "r = Undefined w \<Longrightarrow> w \<in> F"
  using assms by auto

section \<open>Encoding\<close>

definition NUM_MACRO_REGISTERS :: nat where "NUM_MACRO_REGISTERS = 8"

definition MaskShiftCount :: "u32 \<Rightarrow> u32" where
  "MaskShiftCount count = count AND 31"

datatype Operation = ALU | AddImmediate | ExtractInsert | ExtractShiftLeftImmediate
  | ExtractShiftLeftRegister | ReadOp | Unused | Branch

datatype ALUOperation = ALU_Add | ALU_AddWithCarry | ALU_Subtract | ALU_SubtractWithBorrow
  | ALU_Xor | ALU_Or | ALU_And | ALU_AndNot | ALU_Nand | ALU_Invalid

datatype ResultOperation = IgnoreAndFetch | Move | MoveAndSetMethod | FetchAndSend | MoveAndSend
  | FetchAndSetMethod | MoveAndSetMethodFetchAndSend | MoveAndSetMethodSend

datatype BranchCondition = Zero | NotZero

type_synonym Opcode = u32

text \<open>\<^verbatim>\<open>BitField<lo, n, T>\<close> of an unsigned type.\<close>

definition bit_field :: "nat \<Rightarrow> nat \<Rightarrow> u32 \<Rightarrow> u32" where
  "bit_field lo n raw = take_bit n (drop_bit lo raw)"

definition op_operation :: "Opcode \<Rightarrow> Operation" where
  "op_operation raw =
     [ALU, AddImmediate, ExtractInsert, ExtractShiftLeftImmediate, ExtractShiftLeftRegister, ReadOp,
      Unused, Branch] ! unat (bit_field 0 3 raw)"

definition op_result_operation :: "Opcode \<Rightarrow> ResultOperation" where
  "op_result_operation raw =
     [IgnoreAndFetch, Move, MoveAndSetMethod, FetchAndSend, MoveAndSend, FetchAndSetMethod,
      MoveAndSetMethodFetchAndSend, MoveAndSetMethodSend] ! unat (bit_field 4 3 raw)"

definition op_branch_condition :: "Opcode \<Rightarrow> BranchCondition" where
  "op_branch_condition raw = (if bit_field 4 1 raw = 0 then Zero else NotZero)"

definition op_branch_annul :: "Opcode \<Rightarrow> bool" where "op_branch_annul raw = bit raw 5"
definition op_is_exit :: "Opcode \<Rightarrow> bool" where "op_is_exit raw = bit raw 7"
definition op_dst :: "Opcode \<Rightarrow> u32" where "op_dst raw = bit_field 8 3 raw"
definition op_src_a :: "Opcode \<Rightarrow> u32" where "op_src_a raw = bit_field 11 3 raw"
definition op_src_b :: "Opcode \<Rightarrow> u32" where "op_src_b raw = bit_field 14 3 raw"

definition op_immediate :: "Opcode \<Rightarrow> u32" where
  "op_immediate raw = scast (ucast (drop_bit 14 raw) :: 18 word)"

definition op_alu_operation :: "Opcode \<Rightarrow> ALUOperation" where
  "op_alu_operation raw =
     (let n = unat (bit_field 17 5 raw)
      in if n = 0 then ALU_Add else if n = 1 then ALU_AddWithCarry else if n = 2 then ALU_Subtract
         else if n = 3 then ALU_SubtractWithBorrow else if n = 8 then ALU_Xor
         else if n = 9 then ALU_Or else if n = 10 then ALU_And else if n = 11 then ALU_AndNot
         else if n = 12 then ALU_Nand else ALU_Invalid)"

definition op_bf_src_bit :: "Opcode \<Rightarrow> nat" where "op_bf_src_bit raw = unat (bit_field 17 5 raw)"
definition op_bf_size :: "Opcode \<Rightarrow> nat" where "op_bf_size raw = unat (bit_field 22 5 raw)"
definition op_bf_dst_bit :: "Opcode \<Rightarrow> nat" where "op_bf_dst_bit raw = unat (bit_field 27 5 raw)"

definition GetBitfieldMask :: "Opcode \<Rightarrow> u32" where
  "GetBitfieldMask raw = push_bit (op_bf_size raw) 1 - 1"

definition GetBranchTarget :: "Opcode \<Rightarrow> u32" where
  "GetBranchTarget raw = op_immediate raw * 4"

definition ma_address :: "u32 \<Rightarrow> u32" where "ma_address raw = bit_field 0 12 raw"
definition ma_increment :: "u32 \<Rightarrow> u32" where "ma_increment raw = bit_field 12 6 raw"

text \<open>\<^verbatim>\<open>address.Assign\<close>: the other bits stay.\<close>

definition ma_assign_address :: "u32 \<Rightarrow> u32 \<Rightarrow> u32" where
  "ma_assign_address raw v = (raw AND NOT 0xFFF) OR take_bit 12 v"

section \<open>The engine and the state of the interpreter\<close>

record 'e Engine =
  engine_call :: "'e \<Rightarrow> u32 \<Rightarrow> u32 \<Rightarrow> 'e Run"
  engine_read :: "'e \<Rightarrow> u32 \<Rightarrow> u32 Run"
  engine_params :: "'e \<Rightarrow> u32 list"
  engine_code :: "'e \<Rightarrow> u32 list"

text \<open>
  \<^verbatim>\<open>parameters\<close> points into the caller's vector until a snapshot is taken; \<^verbatim>\<open>snapshot\<close>
  is \<^verbatim>\<open>stable_parameters\<close> when \<^verbatim>\<open>parameters_snapshotted\<close> is set.
\<close>

record 'e Interpreter =
  pc :: u32
  delayed_pc :: "u32 option"
  registers :: "u32 list"
  method_address :: u32
  snapshot :: "u32 list option"
  num_parameters :: nat
  next_parameter_index :: u32
  carry_flag :: bool
  engine :: 'e

definition Reset :: "'e \<Rightarrow> 'e Interpreter" where
  "Reset e = \<lparr>pc = 0, delayed_pc = None, registers = replicate NUM_MACRO_REGISTERS 0,
     method_address = 0, snapshot = None, num_parameters = 0, next_parameter_index = 1,
     carry_flag = False, engine = e\<rparr>"

definition GetRegister :: "'e Interpreter \<Rightarrow> u32 \<Rightarrow> u32" where
  "GetRegister s register_id = registers s ! unat register_id"

definition SetRegister :: "'e Interpreter \<Rightarrow> u32 \<Rightarrow> u32 \<Rightarrow> 'e Interpreter" where
  "SetRegister s register_id v =
     (if register_id = 0 then s else s\<lparr>registers := (registers s)[unat register_id := v]\<rparr>)"

definition SetMethodAddress :: "'e Interpreter \<Rightarrow> u32 \<Rightarrow> 'e Interpreter" where
  "SetMethodAddress s address = s\<lparr>method_address := address\<rparr>"

text \<open>The parameters as the pointer sees them.\<close>

definition visible_parameters :: "'e Engine \<Rightarrow> 'e Interpreter \<Rightarrow> u32 list" where
  "visible_parameters E s =
     (case snapshot s of Some ps \<Rightarrow> ps | None \<Rightarrow> engine_params E (engine s))"

definition take_snapshot :: "'e Engine \<Rightarrow> 'e Interpreter \<Rightarrow> 'e Interpreter Run" where
  "take_snapshot E s =
     (if ma_address (method_address s) \<ge> 0xE00 \<and> snapshot s = None
      then if length (engine_params E (engine s)) < num_parameters s then Undefined Parameter_Read
           else Returns (s\<lparr>snapshot := Some (take (num_parameters s) (engine_params E (engine s)))\<rparr>)
      else Returns s)"

definition Send :: "'e Engine \<Rightarrow> 'e Interpreter \<Rightarrow> u32 \<Rightarrow> 'e Interpreter Run" where
  "Send E s v =
     bind_run (take_snapshot E s) (\<lambda>s1.
     bind_run (engine_call E (engine s1) (ma_address (method_address s1)) v) (\<lambda>e.
       Returns (s1\<lparr>engine := e,
                   method_address := ma_assign_address (method_address s1)
                     (ma_address (method_address s1) + ma_increment (method_address s1))\<rparr>)))"

definition Read :: "'e Engine \<Rightarrow> 'e Interpreter \<Rightarrow> u32 \<Rightarrow> u32 Run" where
  "Read E s m = engine_read E (engine s) m"

definition FetchParameter :: "'e Engine \<Rightarrow> 'e Interpreter \<Rightarrow> (u32 \<times> 'e Interpreter) Run" where
  "FetchParameter E s =
     (let i = unat (next_parameter_index s)
      in if i \<ge> num_parameters s then Returns (0, s)
         else if i < length (visible_parameters E s)
         then Returns (visible_parameters E s ! i,
                       s\<lparr>next_parameter_index := next_parameter_index s + 1\<rparr>)
         else Undefined Parameter_Read)"

section \<open>Executing an instruction\<close>

definition GetALUResult :: "ALUOperation \<Rightarrow> bool \<Rightarrow> u32 \<Rightarrow> u32 \<Rightarrow> u32 \<times> bool" where
  "GetALUResult operation carry src_a src_b =
     (case operation of
        ALU_Add \<Rightarrow>
          (let result = ucast src_a + ucast src_b :: u64 in (ucast result, result > 0xFFFFFFFF))
      | ALU_AddWithCarry \<Rightarrow>
          (let result = ucast src_a + ucast src_b + (if carry then 1 else 0) :: u64
           in (ucast result, result > 0xFFFFFFFF))
      | ALU_Subtract \<Rightarrow>
          (let result = ucast src_a - ucast src_b :: u64 in (ucast result, result < 0x100000000))
      | ALU_SubtractWithBorrow \<Rightarrow>
          (let result = ucast src_a - ucast src_b - (if carry then 0 else 1) :: u64
           in (ucast result, result < 0x100000000))
      | ALU_Xor \<Rightarrow> (src_a XOR src_b, carry)
      | ALU_Or \<Rightarrow> (src_a OR src_b, carry)
      | ALU_And \<Rightarrow> (src_a AND src_b, carry)
      | ALU_AndNot \<Rightarrow> (src_a AND NOT src_b, carry)
      | ALU_Nand \<Rightarrow> (NOT (src_a AND src_b), carry)
      | ALU_Invalid \<Rightarrow> (0, carry))"

definition ProcessResult ::
    "'e Engine \<Rightarrow> 'e Interpreter \<Rightarrow> ResultOperation \<Rightarrow> u32 \<Rightarrow> u32 \<Rightarrow> 'e Interpreter Run" where
  "ProcessResult E s operation reg result =
     (case operation of
        IgnoreAndFetch \<Rightarrow>
          bind_run (FetchParameter E s) (\<lambda>(p, s1). Returns (SetRegister s1 reg p))
      | Move \<Rightarrow> Returns (SetRegister s reg result)
      | MoveAndSetMethod \<Rightarrow> Returns (SetMethodAddress (SetRegister s reg result) result)
      | FetchAndSend \<Rightarrow>
          bind_run (FetchParameter E s) (\<lambda>(p, s1). Send E (SetRegister s1 reg p) result)
      | MoveAndSend \<Rightarrow> Send E (SetRegister s reg result) result
      | FetchAndSetMethod \<Rightarrow>
          bind_run (FetchParameter E s)
            (\<lambda>(p, s1). Returns (SetMethodAddress (SetRegister s1 reg p) result))
      | MoveAndSetMethodFetchAndSend \<Rightarrow>
          bind_run (FetchParameter E (SetMethodAddress (SetRegister s reg result) result))
            (\<lambda>(p, s1). Send E s1 p)
      | MoveAndSetMethodSend \<Rightarrow>
          Send E (SetMethodAddress (SetRegister s reg result) result)
            (drop_bit 12 result AND 0x3F))"

definition EvaluateBranchCondition :: "BranchCondition \<Rightarrow> u32 \<Rightarrow> bool" where
  "EvaluateBranchCondition cond v = (case cond of Zero \<Rightarrow> v = 0 | NotZero \<Rightarrow> v \<noteq> 0)"

definition exit_opcode :: Opcode where
  "exit_opcode = 0x91"

definition GetOpcode :: "u32 list \<Rightarrow> u32 \<Rightarrow> Opcode" where
  "GetOpcode code at =
     (if unat at \<ge> length code * 4 then exit_opcode else code ! (unat at div 4))"

definition extract_insert :: "Opcode \<Rightarrow> u32 \<Rightarrow> u32 \<Rightarrow> u32" where
  "extract_insert op dst src =
     (let src' = drop_bit (op_bf_src_bit op) src AND GetBitfieldMask op;
          dst' = dst AND NOT (push_bit (op_bf_dst_bit op) (GetBitfieldMask op))
      in dst' OR push_bit (op_bf_dst_bit op) src')"

text \<open>
  One instruction without the delay slot it may ask for: whether to go on, to execute a delay slot
  and go on (a taken branch), or to execute one and stop (the exit flag).
\<close>

datatype StepKind = Keep | Branch_Delay | Exit_Delay

definition after_instruction :: "Opcode \<Rightarrow> bool \<Rightarrow> StepKind" where
  "after_instruction op is_delay_slot =
     (if op_is_exit op \<and> \<not> is_delay_slot then Exit_Delay else Keep)"

text \<open>The value the instruction hands to \<^verbatim>\<open>ProcessResult\<close>, with the carry it leaves.\<close>

definition computed ::
    "'e Engine \<Rightarrow> Opcode \<Rightarrow> 'e Interpreter \<Rightarrow> (u32 \<times> 'e Interpreter) Run" where
  "computed E op s =
     (let a = GetRegister s (op_src_a op); b = GetRegister s (op_src_b op)
      in case op_operation op of
           ALU \<Rightarrow>
             (let (result, c) = GetALUResult (op_alu_operation op) (carry_flag s) a b
              in Returns (result, s\<lparr>carry_flag := c\<rparr>))
         | AddImmediate \<Rightarrow> Returns (a + op_immediate op, s)
         | ExtractInsert \<Rightarrow> Returns (extract_insert op a b, s)
         | ExtractShiftLeftImmediate \<Rightarrow>
             Returns (push_bit (op_bf_dst_bit op)
                        (drop_bit (unat (MaskShiftCount a)) b AND GetBitfieldMask op), s)
         | ExtractShiftLeftRegister \<Rightarrow>
             Returns (push_bit (unat (MaskShiftCount a))
                        (drop_bit (op_bf_src_bit op) b AND GetBitfieldMask op), s)
         | ReadOp \<Rightarrow> bind_run (Read E s (a + op_immediate op)) (\<lambda>v. Returns (v, s))
         | _ \<Rightarrow> Returns (0, s))"

text \<open>\<^verbatim>\<open>pc += 4\<close>, or the target of the branch whose delay slot this is.\<close>

definition advance_pc :: "'e Interpreter \<Rightarrow> 'e Interpreter" where
  "advance_pc s =
     (case delayed_pc s of
        None \<Rightarrow> s\<lparr>pc := pc s + 4\<rparr>
      | Some d \<Rightarrow> s\<lparr>pc := d, delayed_pc := None\<rparr>)"

definition compute_and_store :: "'e Engine \<Rightarrow> Opcode \<Rightarrow> 'e Interpreter \<Rightarrow> 'e Interpreter Run" where
  "compute_and_store E op s =
     bind_run (computed E op s) (\<lambda>(result, s1).
       ProcessResult E s1 (op_result_operation op) (op_dst op) result)"

definition step_body ::
    "'e Engine \<Rightarrow> bool \<Rightarrow> 'e Interpreter \<Rightarrow> (StepKind \<times> 'e Interpreter) Run" where
  "step_body E is_delay_slot s =
     (let base_address = pc s;
          op = GetOpcode (engine_code E (engine s)) base_address;
          s1 = advance_pc s;
          target = base_address + GetBranchTarget op
      in case op_operation op of
           Branch \<Rightarrow>
             if EvaluateBranchCondition (op_branch_condition op) (GetRegister s1 (op_src_a op))
             then
               if op_branch_annul op then Returns (Keep, s1\<lparr>pc := target\<rparr>)
               else Returns (Branch_Delay, s1\<lparr>delayed_pc := Some target\<rparr>)
             else Returns (after_instruction op is_delay_slot, s1)
         | Unused \<Rightarrow> Returns (after_instruction op is_delay_slot, s1)
         | _ \<Rightarrow>
             bind_run (compute_and_store E op s1) (\<lambda>s2.
               Returns (after_instruction op is_delay_slot, s2)))"

section \<open>Running a macro\<close>

fun Step ::
    "nat \<Rightarrow> 'e Engine \<Rightarrow> bool \<Rightarrow> 'e Interpreter \<Rightarrow> (bool \<times> 'e Interpreter) Run" where
  "Step 0 E is_delay_slot s = Timeout"
| "Step (Suc n) E is_delay_slot s =
     bind_run (step_body E is_delay_slot s) (\<lambda>(kind, s1).
       case kind of
         Keep \<Rightarrow> Returns (True, s1)
       | Branch_Delay \<Rightarrow> Step n E True s1
       | Exit_Delay \<Rightarrow> bind_run (Step n E True s1) (\<lambda>(_, s2). Returns (False, s2)))"

fun run_steps :: "nat \<Rightarrow> 'e Engine \<Rightarrow> 'e Interpreter \<Rightarrow> 'e Interpreter Run" where
  "run_steps 0 E s = Timeout"
| "run_steps (Suc n) E s =
     bind_run (Step n E False s) (\<lambda>(keep_executing, s1).
       if keep_executing then run_steps n E s1 else Returns s1)"

definition Execute :: "nat \<Rightarrow> 'e Engine \<Rightarrow> 'e \<Rightarrow> 'e Interpreter Run" where
  "Execute fuel E e =
     (let params = engine_params E e; s = Reset e
      in if params = [] then Returns s
         else run_steps fuel E
                (s\<lparr>registers := (registers s)[1 := params ! 0], num_parameters := length params\<rparr>))"

end
