(* ===== verification/Macro_Interpreter_Props.thy ===== *)
theory Macro_Interpreter_Props
  imports Macro_Interpreter
begin

text \<open>
  What holds of the macro interpreter: its parameters, its arithmetic, when a
  macro is sure to end, and the one shape of code that never returns.
\<close>

section \<open>The parameters of a running macro\<close>

text \<open>
  The state of a run called with the parameters \<open>ps\<close>: they are what it sees, in the
  caller's vector or in its snapshot, register 0 is zero, and the engine satisfies \<open>I\<close>.
\<close>

definition holds_params ::
    "'e Engine \<Rightarrow> ('e \<Rightarrow> bool) \<Rightarrow> u32 list \<Rightarrow> 'e Interpreter \<Rightarrow> bool" where
  "holds_params E I ps s \<longleftrightarrow>
     visible_parameters E s = ps \<and> num_parameters s = length ps \<and>
     length (registers s) = NUM_MACRO_REGISTERS \<and> registers s ! 0 = 0 \<and> I (engine s)"

text \<open>
  What the interpreter relies on: the engine keeps its invariant \<open>I\<close> and has at most the
  faults \<open>F\<close>, and writing a register below \<^verbatim>\<open>MacroRegistersStart\<close> leaves
  the parameter vector alone.
\<close>

locale macro_host =
  fixes E :: "'e Engine" and I :: "'e \<Rightarrow> bool" and F :: "Fault set"
  assumes call_within: "I e \<Longrightarrow> within F I (engine_call E e m v)"
    and read_within: "I e \<Longrightarrow> within F (\<lambda>_. True) (engine_read E e m)"
    and keeps_params:
      "I e \<Longrightarrow> engine_call E e m v = Returns e' \<Longrightarrow> m < 0xE00 \<Longrightarrow>
       engine_params E e' = engine_params E e"
begin

lemma take_snapshot_params:
  assumes "holds_params E I ps s"
  shows "within F (\<lambda>s'. holds_params E I ps s' \<and>
           (snapshot s' = None \<longrightarrow> ma_address (method_address s') < 0xE00)) (take_snapshot E s)"
  using assms
  by (auto simp: take_snapshot_def holds_params_def visible_parameters_def split: option.splits)

lemma Send_params:
  assumes "holds_params E I ps s"
  shows "within F (holds_params E I ps) (Send E s v)"
proof -
  have call: "within F (\<lambda>e. holds_params E I ps (s1\<lparr>engine := e, method_address := a\<rparr>))
      (engine_call E (engine s1) (ma_address (method_address s1)) v)"
    if h: "holds_params E I ps s1"
      and low: "snapshot s1 = None \<longrightarrow> ma_address (method_address s1) < 0xE00" for s1 a
  proof -
    have I: "I (engine s1)" using h by (simp add: holds_params_def)
    show ?thesis
    proof (rule within_mono [OF call_within [OF I]])
      fix e
      assume e: "engine_call E (engine s1) (ma_address (method_address s1)) v = Returns e" "I e"
      show "holds_params E I ps (s1\<lparr>engine := e, method_address := a\<rparr>)"
        using keeps_params [OF I e(1)] e(2) h low
        by (auto simp: holds_params_def visible_parameters_def split: option.splits)
    qed
  qed
  show ?thesis
    unfolding Send_def within_bind
    by (rule within_mono [OF take_snapshot_params [OF assms]]) (simp add: call)
qed

lemma holds_params_SetRegister:
  assumes "holds_params E I ps s" and "r < 8"
  shows "holds_params E I ps (SetRegister s r v)"
proof (cases "r = 0")
  case False
  then have "unat r \<noteq> 0" by (simp add: unat_eq_0)
  then show ?thesis using assms(1)
    by (auto simp: SetRegister_def holds_params_def visible_parameters_def split: option.splits)
qed (use assms(1) in \<open>simp add: SetRegister_def\<close>)

lemma holds_params_simps [simp]:
  "holds_params E I ps (SetMethodAddress s a) = holds_params E I ps s"
  "holds_params E I ps (s\<lparr>carry_flag := c\<rparr>) = holds_params E I ps s"
  "holds_params E I ps (s\<lparr>pc := p\<rparr>) = holds_params E I ps s"
  "holds_params E I ps (s\<lparr>pc := p, delayed_pc := d\<rparr>) = holds_params E I ps s"
  "holds_params E I ps (s\<lparr>delayed_pc := d\<rparr>) = holds_params E I ps s"
  "holds_params E I ps (s\<lparr>next_parameter_index := i\<rparr>) = holds_params E I ps s"
  by (auto simp: SetMethodAddress_def holds_params_def visible_parameters_def split: option.splits)

text \<open>A fetch yields the parameter the caller passed, or zero past the end.\<close>

lemma Fetch_value:
  assumes "holds_params E I ps s"
  shows "FetchParameter E s =
     (let i = unat (next_parameter_index s)
      in if i < length ps then Returns (ps ! i, s\<lparr>next_parameter_index := next_parameter_index s + 1\<rparr>)
         else Returns (0, s))"
  using assms by (auto simp: FetchParameter_def holds_params_def Let_def)

lemma Fetch_params:
  assumes "holds_params E I ps s"
  shows "within F (\<lambda>(p, s'). holds_params E I ps s') (FetchParameter E s)"
  using assms
  by (auto simp: Fetch_value Let_def)

lemma ProcessResult_params:
  assumes "holds_params E I ps s" and r: "r < 8"
  shows "within F (holds_params E I ps) (ProcessResult E s k r v)"
proof -
  note steps = holds_params_SetRegister [OF _ r] Send_params
  have fetch: "within F (\<lambda>(p, s'). P p s') (FetchParameter E s)"
    if "\<And>p s'. holds_params E I ps s' \<Longrightarrow> P p s'" "holds_params E I ps s" for P s
    by (rule within_mono [OF Fetch_params [OF that(2)]]) (use that(1) in auto)
  show ?thesis
    using assms(1)
    by (cases k) (auto simp: ProcessResult_def case_prod_unfold steps
        intro!: fetch [unfolded case_prod_unfold] steps)
qed

end

lemma bit_field_bound: "n < 32 \<Longrightarrow> unat (bit_field lo n raw) < 2 ^ n"
  by (simp add: bit_field_def unsigned_take_bit_eq)

lemma op_dst_bound [simp]: "op_dst op < 8"
  using bit_field_bound [of 3 8 op] by (simp add: op_dst_def word_less_nat_alt)

context macro_host
begin

lemma computed_params:
  assumes "holds_params E I ps s"
  shows "within F (\<lambda>(v, s'). holds_params E I ps s') (computed E op s)"
proof -
  have "within F (\<lambda>_. True) (engine_read E (engine s) m)" for m
    using assms by (simp add: holds_params_def read_within)
  then show ?thesis
    using assms by (auto simp: computed_def Read_def Let_def split: Operation.splits prod.splits)
qed

lemma compute_and_store_params:
  assumes "holds_params E I ps s"
  shows "within F (holds_params E I ps) (compute_and_store E op s)"
  unfolding compute_and_store_def within_bind
  by (rule within_mono [OF computed_params [OF assms]]) (auto simp: ProcessResult_params)

lemma step_body_params:
  assumes "holds_params E I ps s"
  shows "within F (\<lambda>(k, s'). holds_params E I ps s') (step_body E d s)"
proof -
  have h: "holds_params E I ps (advance_pc s)"
    using assms by (simp add: advance_pc_def split: option.splits)
  then show ?thesis
    using compute_and_store_params [OF h]
    by (simp add: step_body_def Let_def split: Operation.splits)
qed

lemma Step_params:
  "holds_params E I ps s \<Longrightarrow> within F (\<lambda>(b, s'). holds_params E I ps s') (Step n E d s)"
proof (induction n arbitrary: d s)
  case (Suc n)
  show ?case
    unfolding Step.simps within_bind
    by (rule within_mono [OF step_body_params [OF Suc.prems]])
      (auto simp: case_prod_unfold Suc.IH [unfolded case_prod_unfold] split: StepKind.split)
qed simp

lemma run_steps_params:
  "holds_params E I ps s \<Longrightarrow> within F (holds_params E I ps) (run_steps n E s)"
proof (induction n arbitrary: s)
  case (Suc n)
  show ?case
    unfolding run_steps.simps within_bind
    by (rule within_mono [OF Step_params [OF Suc.prems]]) (auto simp: Suc.IH)
qed simp

lemma Execute_params:
  assumes "I e"
  shows "within F (\<lambda>s. I (engine s) \<and>
           (engine_params E e \<noteq> [] \<longrightarrow> holds_params E I (engine_params E e) s)) (Execute fuel E e)"
proof -
  have "holds_params E I (engine_params E e)
      (Reset e\<lparr>registers := (registers (Reset e))[1 := engine_params E e ! 0],
               num_parameters := length (engine_params E e)\<rparr>)"
    using assms
    by (simp add: holds_params_def Reset_def visible_parameters_def NUM_MACRO_REGISTERS_def)
  from within_mono [OF run_steps_params [OF this]] assms show ?thesis
    by (auto simp: Execute_def Let_def Reset_def holds_params_def)
qed

end

section \<open>Arithmetic with carry\<close>

lemma unat_u32_less: "unat (x :: u32) < 4294967296"
proof -
  have "unat x < 2 ^ LENGTH(32)" by (rule unsigned_less)
  then show ?thesis by simp
qed

lemma unat_widen: "unat (ucast (x :: u32) :: u64) = unat x"
  using unat_u32_less [of x] by (simp add: unsigned_ucast_eq take_bit_nat_eq_self_iff)

lemma unat_narrow: "unat (ucast (x :: u64) :: u32) = unat x mod 2 ^ 32"
  by (simp add: unsigned_ucast_eq take_bit_eq_mod)

lemma unat_sum3:
  fixes a b :: u32 and k :: u64
  assumes "unat k \<le> 1"
  shows "unat (ucast a + ucast b + k) = unat a + unat b + unat k"
proof -
  have "unat a < 2 ^ 32" "unat b < 2 ^ 32"
    using unat_u32_less [of a] unat_u32_less [of b] by simp_all
  then show ?thesis
    using assms unat_add_no_ovf [of "ucast a :: u64" "ucast b"]
      unat_add_no_ovf [of "ucast a + ucast b :: u64" k]
    by (simp add: unat_widen)
qed

lemma AddWithCarry_one:
  assumes "GetALUResult ALU_AddWithCarry c a b = (r, c')"
  shows "unat r + 2 ^ 32 * of_bool c' = unat a + unat b + of_bool c"
proof -
  define k :: u64 where "k = (if c then 1 else 0)"
  define s where "s = unat a + unat b + of_bool c"
  have k: "unat k = of_bool c" by (simp add: k_def)
  have u: "unat (ucast a + ucast b + k) = s" using unat_sum3 [of k a b] k by (simp add: s_def)
  have "r = ucast (ucast a + ucast b + k)" and "c' = (ucast a + ucast b + k > 0xFFFFFFFF)"
    using assms by (simp_all only: GetALUResult_def Let_def k_def ALUOperation.simps prod.inject)
  then have r: "unat r = s mod 2 ^ 32" and c': "c' = (s \<ge> 2 ^ 32)"
    using u by (auto simp: unat_narrow word_less_nat_alt)
  have "s < 2 * 2 ^ 32"
    using unat_u32_less [of a] unat_u32_less [of b] by (cases c) (simp_all add: s_def)
  then have "unat r + 2 ^ 32 * of_bool c' = s"
    by (cases "s \<ge> 2 ^ 32") (simp_all add: r c' le_mod_geq)
  then show ?thesis by (simp only: s_def)
qed

lemma SubtractWithBorrow_one:
  assumes "GetALUResult ALU_SubtractWithBorrow c a b = (r, c')"
  shows "unat a + 2 ^ 32 * of_bool (\<not> c') = unat r + unat b + of_bool (\<not> c)"
proof -
  define k :: u64 where "k = (if c then 0 else 1)"
  define s where "s = unat b + of_bool (\<not> c)"
  have k: "unat k = of_bool (\<not> c)" by (simp add: k_def)
  have lt: "unat a < 2 ^ 32" "s \<le> 2 ^ 32"
    using unat_u32_less [of a] unat_u32_less [of b] by (cases c; simp add: s_def)+
  have sb: "unat (ucast b + k) = s"
    using unat_sum3 [of k b 0] k by (simp add: s_def)
  define d :: u64 where "d = ucast a - (ucast b + k)"
  have d: "ucast a - ucast b - k = d" unfolding d_def by (rule diff_diff_add)
  have "r = ucast d" and "c' = (d < 0x100000000)"
    using assms unfolding GetALUResult_def Let_def ALUOperation.simps k_def [symmetric] d
    by simp_all
  then have r: "unat r = unat d mod 2 ^ 32" and c': "c' = (unat d < 2 ^ 32)"
    by (auto simp: unat_narrow word_less_nat_alt)
  have "unat a + 2 ^ 32 * of_bool (\<not> c') = unat r + s"
  proof (cases "s \<le> unat a")
    case True
    then have "unat d = unat a - s"
      using unat_sub_le [of "ucast b + k" "ucast a"] by (simp add: d_def sb unat_widen)
    then show ?thesis using True lt by (simp add: r c')
  next
    case False
    then have "unat d = 2 ^ 64 + unat a - s"
      using unat_sub_if' [of "ucast a" "ucast b + k"] by (simp add: d_def sb unat_widen)
    then have "unat d = (2 ^ 32 + unat a - s) + (2 ^ 32 - 1) * 2 ^ 32"
      using False lt by simp
    then have "unat d mod 2 ^ 32 = (2 ^ 32 + unat a - s) mod 2 ^ 32" and "\<not> unat d < 2 ^ 32"
      by (simp_all only: mod_mult_self1) simp
    then show ?thesis using False lt by (simp add: r c')
  qed
  then show ?thesis by (simp add: s_def)
qed

text \<open>The same operation on every limb of two numbers, the least significant first.\<close>

fun alu_chain :: "ALUOperation \<Rightarrow> bool \<Rightarrow> (u32 \<times> u32) list \<Rightarrow> u32 list \<times> bool" where
  "alu_chain operation c [] = ([], c)"
| "alu_chain operation c ((a, b) # xs) =
     (let (r, c1) = GetALUResult operation c a b; (rs, c2) = alu_chain operation c1 xs in (r # rs, c2))"

fun limbs :: "u32 list \<Rightarrow> nat" where
  "limbs [] = 0"
| "limbs (x # xs) = unat x + 2 ^ 32 * limbs xs"

lemma chain_add:
  "alu_chain ALU_AddWithCarry c xs = (rs, c') \<Longrightarrow>
   limbs rs + 2 ^ (32 * length xs) * of_bool c' =
     limbs (map fst xs) + limbs (map snd xs) + of_bool c"
proof (induction xs arbitrary: c rs)
  case (Cons x xs)
  obtain a b where x: "x = (a, b)" by (cases x)
  obtain r c1 where r: "GetALUResult ALU_AddWithCarry c a b = (r, c1)" by fastforce
  obtain rs1 where rs1: "alu_chain ALU_AddWithCarry c1 xs = (rs1, c')" and rs: "rs = r # rs1"
    using Cons.prems by (auto simp: x r split: prod.splits)
  show ?case
    using Cons.IH [OF rs1] AddWithCarry_one [OF r]
    by (simp add: x rs power_add algebra_simps)
qed simp

lemma chain_sub:
  "alu_chain ALU_SubtractWithBorrow c xs = (rs, c') \<Longrightarrow>
   limbs (map fst xs) + 2 ^ (32 * length xs) * of_bool (\<not> c') =
     limbs rs + limbs (map snd xs) + of_bool (\<not> c)"
proof (induction xs arbitrary: c rs)
  case (Cons x xs)
  obtain a b where x: "x = (a, b)" by (cases x)
  obtain r c1 where r: "GetALUResult ALU_SubtractWithBorrow c a b = (r, c1)" by fastforce
  obtain rs1 where rs1: "alu_chain ALU_SubtractWithBorrow c1 xs = (rs1, c')" and rs: "rs = r # rs1"
    using Cons.prems by (auto simp: x r split: prod.splits)
  show ?case
    using Cons.IH [OF rs1] SubtractWithBorrow_one [OF r]
    by (simp add: x rs power_add algebra_simps)
qed simp

section \<open>Code that ends\<close>








text \<open>What an instruction keeps: the program counters and the code.\<close>

definition same_place :: "'e Engine \<Rightarrow> 'e Interpreter \<Rightarrow> 'e Interpreter \<Rightarrow> bool" where
  "same_place E s s' \<longleftrightarrow>
     pc s' = pc s \<and> delayed_pc s' = delayed_pc s \<and>
     engine_code E (engine s') = engine_code E (engine s)"

lemma same_place_refl [simp]: "same_place E s s"
  by (simp add: same_place_def)

lemma same_place_trans: "same_place E s s1 \<Longrightarrow> same_place E s1 s2 \<Longrightarrow> same_place E s s2"
  by (simp add: same_place_def)

lemma same_place_updates [simp]:
  "same_place E s (SetRegister s1 r v) = same_place E s s1"
  "same_place E s (SetMethodAddress s1 a) = same_place E s s1"
  "same_place E s (s1\<lparr>carry_flag := c\<rparr>) = same_place E s s1"
  "same_place E s (s1\<lparr>next_parameter_index := i\<rparr>) = same_place E s s1"
  "same_place E s (s1\<lparr>snapshot := q\<rparr>) = same_place E s s1"
  by (simp_all add: same_place_def SetRegister_def SetMethodAddress_def)













lemma exit_opcode_simps [simp]:
  "op_operation exit_opcode = AddImmediate" "op_is_exit exit_opcode"
  by (simp_all add: exit_opcode_def op_operation_def bit_field_def op_is_exit_def
      take_bit_eq_mod bit_iff_odd)






section \<open>Code that never returns\<close>

lemma opcode_7 [simp]:
  "op_operation 7 = Branch" "op_branch_condition 7 = Zero" "\<not> op_branch_annul 7"
  "op_src_a 7 = 0" "GetBranchTarget 7 = 0"
  by (simp_all add: op_operation_def op_branch_condition_def op_branch_annul_def op_src_a_def
      GetBranchTarget_def op_immediate_def bit_field_def take_bit_eq_mod bit_iff_odd)


section \<open>Properties\<close>


text \<open>An engine that records the calls it gets, for the examples.\<close>

definition recording_engine :: "u32 list \<Rightarrow> u32 list \<Rightarrow> (u32 \<times> u32) list Engine" where
  "recording_engine code params =
     \<lparr>engine_call = \<lambda>e m v. Returns (e @ [(m, v)]), engine_read = \<lambda>e m. Returns 0,
      engine_params = \<lambda>e. params, engine_code = \<lambda>e. code\<rparr>"


interpretation recorder: macro_host "recording_engine code params" "\<lambda>_. True" "{}" for code params
  by unfold_locales (auto simp: recording_engine_def)

text \<open>
  C24: Macro arithmetic is exact.  A chain of \<^verbatim>\<open>AddWithCarry\<close> over the words of two numbers
  computes their sum with the carry out, a chain of \<^verbatim>\<open>SubtractWithBorrow\<close> their difference with the
  carry flag as the negated borrow, for numbers of any length, and \<^verbatim>\<open>Add\<close> and
  \<^verbatim>\<open>Subtract\<close> are the first links of such chains.
\<close>

theorem macro_arithmetic_exact:
  "limbs (fst (alu_chain ALU_AddWithCarry c xs))
     + 2 ^ (32 * length xs) * of_bool (snd (alu_chain ALU_AddWithCarry c xs))
     = limbs (map fst xs) + limbs (map snd xs) + of_bool c
   \<and> limbs (map fst xs)
     + 2 ^ (32 * length xs) * of_bool (\<not> snd (alu_chain ALU_SubtractWithBorrow c xs))
     = limbs (fst (alu_chain ALU_SubtractWithBorrow c xs)) + limbs (map snd xs) + of_bool (\<not> c)
   \<and> GetALUResult ALU_Add c a b = GetALUResult ALU_AddWithCarry False a b
   \<and> GetALUResult ALU_Subtract c a b = GetALUResult ALU_SubtractWithBorrow True a b"
  using chain_add [OF prod.collapse [symmetric]] chain_sub [OF prod.collapse [symmetric]]
  by (simp add: GetALUResult_def)





end
