(* ===== verification/Macro_Engine.thy ===== *)
theory Macro_Engine
  imports Macro_Interpreter
begin

text \<open>
  The front end of the 3D engine: register writes, the shadow copy and the dirty flags, the queue of
  deferred writes and the macros, from \<^verbatim>\<open>yuzu_video_core/engines/maxwell_3d.cpp\<close>, with the macro
  cache of \<^verbatim>\<open>yuzu_video_core/macro/macro.cpp\<close>.  The macros run in the interpreter (the setting
  \<^verbatim>\<open>disable_macro_jit\<close>, or a host that is not x86-64).  A macro writes registers through the
  same \<^verbatim>\<open>CallMethod\<close>, so a macro may start another: \<open>CallMethod\<close> takes the depth of
  that nesting as fuel.  Renderer, draw manager, uploads, memory manager and the native replacements of
  known macros are the parameter \<open>Outside\<close> with a state \<open>'d\<close> of their own.
\<close>

section \<open>State\<close>

definition MacroRegistersStart :: u32 where "MacroRegistersStart = 0xE00"

text \<open>Word indices of the registers that the front end itself reacts to (\<^verbatim>\<open>MAXWELL3D_REG_INDEX\<close>).\<close>

definition reg_load_mme_instruction_ptr :: u32 where "reg_load_mme_instruction_ptr = 0x45"
definition reg_load_mme_instruction :: u32 where "reg_load_mme_instruction = 0x46"
definition reg_load_mme_start_address_ptr :: u32 where "reg_load_mme_start_address_ptr = 0x47"
definition reg_load_mme_start_address :: u32 where "reg_load_mme_start_address = 0x48"
definition reg_shadow_ram_control :: u32 where "reg_shadow_ram_control = 0x49"
definition reg_inline_data :: u32 where "reg_inline_data = 0x6D"
definition reg_falcon_4 :: u32 where "reg_falcon_4 = 0x8C4"
definition reg_const_buffer_address_high :: u32 where "reg_const_buffer_address_high = 0x8E1"
definition reg_const_buffer_address_low :: u32 where "reg_const_buffer_address_low = 0x8E2"
definition reg_const_buffer_offset :: u32 where "reg_const_buffer_offset = 0x8E3"
definition reg_const_buffer_data :: u32 where "reg_const_buffer_data = 0x8E4"
definition reg_shadow_scratch :: u32 where "reg_shadow_scratch = 0xD00"

lemmas reg_index_defs =
  MacroRegistersStart_def reg_load_mme_instruction_ptr_def reg_load_mme_instruction_def
  reg_load_mme_start_address_ptr_def reg_load_mme_start_address_def reg_shadow_ram_control_def
  reg_inline_data_def reg_falcon_4_def reg_const_buffer_address_high_def
  reg_const_buffer_address_low_def reg_const_buffer_offset_def reg_const_buffer_data_def
  reg_shadow_scratch_def

text \<open>\<^verbatim>\<open>Regs::ShadowRamControl\<close>; the register holds any word.\<close>

definition shadow_Track :: u32 where "shadow_Track = 0"
definition shadow_TrackWithFilter :: u32 where "shadow_TrackWithFilter = 1"
definition shadow_Replay :: u32 where "shadow_Replay = 3"

text \<open>
  A compiled macro is an object: \<open>Lle\<close> interprets the code uploaded at a position, to which it
  keeps a reference, \<open>Hle\<close> is a native replacement found by hash.  Pointers are the numbers of
  the objects; \<open>programs\<close> holds the live ones.
\<close>

datatype CachedMacro = Lle u32 | Hle u32 u64

record CacheInfo =
  lle_program :: "nat option"
  hle_program :: "nat option"
  code_hash :: u64
  has_hle_program :: bool

record FastEntry =
  program :: "nat option"
  is_lle :: bool

definition FAST_LOOKUP_SIZE :: nat where "FAST_LOOKUP_SIZE = 0x2000"

text \<open>
  \<^verbatim>\<open>Maxwell3D\<close> with its \<^verbatim>\<open>MacroEngine\<close>.  A fixed array indexed by a method is a function; an
  index past its end is a fault of the operation.  \<open>uploaded_macro_code\<close> is an unordered map,
  kept as a list of its entries; \<open>running\<close> holds the macro objects being executed.
\<close>

record 'd Maxwell3D =
  regs :: "u32 \<Rightarrow> u32"
  shadow_regs :: "u32 \<Rightarrow> u32"
  dirty_flags :: "u8 \<Rightarrow> bool"
  dirty_tables :: "(u32 \<Rightarrow> u8) \<times> (u32 \<Rightarrow> u8)"
  shader_profile_registers :: "u32 \<Rightarrow> u8"
  shader_profile_changes :: u64
  method_sink :: "(u32 \<times> u32) list"
  current_dirty :: bool
  current_dma_segment :: u64
  macro_positions :: "u32 list"
  executing_macro :: u32
  macro_params :: "u32 list"
  macro_segments :: "(u64 \<times> nat) list"
  macro_addresses :: "u64 list"
  current_macro_dirty :: bool
  macro_cache :: "u32 \<Rightarrow> CacheInfo option"
  fast_lookup :: "FastEntry list"
  uploaded_macro_code :: "(u32 \<times> u32 list) list"
  programs :: "nat \<Rightarrow> CachedMacro option"
  next_program :: nat
  running :: "nat list"
  device :: 'd

text \<open>
  The parts the front end calls: the methods that drive renderer, queries and draws (they read the
  registers and may set dirty flags), the deferred draw after a macro, a write into a constant buffer,
  a multiword upload, a word of guest memory, the hash of a code, the native macro for a hash (it works
  on the whole engine), the iteration order of the map, and two settings.
\<close>

record 'd Outside =
  renderer_method ::
    "'d \<Rightarrow> (u32 \<Rightarrow> u32) \<Rightarrow> (u8 \<Rightarrow> bool) \<Rightarrow> u32 \<Rightarrow> u32 \<Rightarrow> bool \<Rightarrow> 'd \<times> (u8 \<Rightarrow> bool)"
  draw_deferred :: "'d \<Rightarrow> (u32 \<Rightarrow> u32) \<Rightarrow> (u8 \<Rightarrow> bool) \<Rightarrow> 'd \<times> (u8 \<Rightarrow> bool)"
  write_block :: "'d \<Rightarrow> u64 \<Rightarrow> u32 list \<Rightarrow> 'd"
  upload_data :: "'d \<Rightarrow> (u32 \<Rightarrow> u32) \<Rightarrow> u32 list \<Rightarrow> 'd"
  read_word :: "'d \<Rightarrow> u64 \<Rightarrow> u32"
  hash_value :: "u32 list \<Rightarrow> u64"
  hle_macro :: "u64 \<Rightarrow> ('d Maxwell3D \<Rightarrow> u32 \<Rightarrow> 'd Maxwell3D Run) option"
  iteration_order :: "(u32 \<times> u32 list) list \<Rightarrow> (u32 \<times> u32 list) list"
  disable_macro_hle :: bool
  dump_macros :: bool

section \<open>Registers\<close>

definition GetRegisterValue :: "'d Maxwell3D \<Rightarrow> u32 \<Rightarrow> u32 Run" where
  "GetRegisterValue M method =
     (if method < MacroRegistersStart then Returns (regs M method) else Undefined Register_Read)"

definition ProcessShadowRam :: "'d Maxwell3D \<Rightarrow> u32 \<Rightarrow> u32 \<Rightarrow> u32 \<times> 'd Maxwell3D" where
  "ProcessShadowRam M method argument =
     (let control = shadow_regs M reg_shadow_ram_control
      in if control = shadow_Track \<or> control = shadow_TrackWithFilter
         then (argument, M\<lparr>shadow_regs := (shadow_regs M)(method := argument)\<rparr>)
         else if control = shadow_Replay then (shadow_regs M method, M)
         else (argument, M))"

definition mark_dirty :: "u8 \<Rightarrow> u8 \<Rightarrow> (u8 \<Rightarrow> bool) \<Rightarrow> (u8 \<Rightarrow> bool)" where
  "mark_dirty a b flags =
     (if a < 64 \<and> b < 64 then (\<lambda>i. flags i \<or> i = a \<or> i = b)
      else let flags1 = flags(a := True) in if a \<noteq> b then flags1(b := True) else flags1)"

definition ProcessDirtyRegisters :: "'d Maxwell3D \<Rightarrow> u32 \<Rightarrow> u32 \<Rightarrow> 'd Maxwell3D Run" where
  "ProcessDirtyRegisters M method argument =
     (if method \<ge> MacroRegistersStart then Undefined Register_Write
      else if regs M method = argument then Returns M
      else Returns (M\<lparr>
        regs := (regs M)(method := argument),
        shader_profile_changes := shader_profile_changes M OR ucast (shader_profile_registers M method),
        dirty_flags := mark_dirty (fst (dirty_tables M) method) (snd (dirty_tables M) method)
          (dirty_flags M)\<rparr>))"

definition PushMethod :: "'d Maxwell3D \<Rightarrow> u32 \<Rightarrow> u32 \<Rightarrow> 'd Maxwell3D Run" where
  "PushMethod M method argument =
     (let (v, M1) = ProcessShadowRam M method argument in ProcessDirtyRegisters M1 method v)"

text \<open>
  \<^verbatim>\<open>PushMethodRun\<close> and \<^verbatim>\<open>ConsumeSinkImpl\<close> select the shadow mode once.  A write in the loop
  goes through \<open>sink_write\<close> with that mode.
\<close>

definition sink_write :: "u32 \<Rightarrow> 'd Maxwell3D \<Rightarrow> u32 \<Rightarrow> u32 \<Rightarrow> 'd Maxwell3D Run" where
  "sink_write control M method argument =
     (if control = shadow_Replay then ProcessDirtyRegisters M method (shadow_regs M method)
      else if control = shadow_Track \<or> control = shadow_TrackWithFilter
      then ProcessDirtyRegisters (M\<lparr>shadow_regs := (shadow_regs M)(method := argument)\<rparr>) method argument
      else ProcessDirtyRegisters M method argument)"

fun sink_writes :: "u32 \<Rightarrow> 'd Maxwell3D \<Rightarrow> (u32 \<times> u32) list \<Rightarrow> 'd Maxwell3D Run" where
  "sink_writes control M [] = Returns M"
| "sink_writes control M ((method, argument) # ws) =
     bind_run (sink_write control M method argument) (\<lambda>M1. sink_writes control M1 ws)"

fun number_methods :: "u32 \<Rightarrow> u32 list \<Rightarrow> (u32 \<times> u32) list" where
  "number_methods method [] = []"
| "number_methods method (v # vs) = (method, v) # number_methods (method + 1) vs"

definition PushMethodRun :: "'d Maxwell3D \<Rightarrow> u32 \<Rightarrow> u32 list \<Rightarrow> 'd Maxwell3D Run" where
  "PushMethodRun M method arguments =
     sink_writes (shadow_regs M reg_shadow_ram_control) M (number_methods method arguments)"

definition ConsumeSinkImpl :: "'d Maxwell3D \<Rightarrow> 'd Maxwell3D Run" where
  "ConsumeSinkImpl M =
     bind_run (sink_writes (shadow_regs M reg_shadow_ram_control) M (method_sink M))
       (\<lambda>M1. Returns (M1\<lparr>method_sink := []\<rparr>))"

definition ConsumeSink :: "'d Maxwell3D \<Rightarrow> 'd Maxwell3D Run" where
  "ConsumeSink M = (if method_sink M = [] then Returns M else ConsumeSinkImpl M)"

definition const_buffer_Address :: "'d Maxwell3D \<Rightarrow> u64" where
  "const_buffer_Address M =
     push_bit 32 (ucast (regs M reg_const_buffer_address_high)) OR
       ucast (regs M reg_const_buffer_address_low)"

definition ProcessCBMultiData :: "'d Outside \<Rightarrow> 'd Maxwell3D \<Rightarrow> u32 list \<Rightarrow> 'd Maxwell3D" where
  "ProcessCBMultiData X M values =
     M\<lparr>device := write_block X (device M)
                   (const_buffer_Address M + ucast (regs M reg_const_buffer_offset)) values,
       regs := (regs M)(reg_const_buffer_offset :=
                 regs M reg_const_buffer_offset + of_nat (length values * 4))\<rparr>"

definition is_const_buffer_data :: "u32 \<Rightarrow> bool" where
  "is_const_buffer_data method \<longleftrightarrow> reg_const_buffer_data \<le> method \<and> method \<le> reg_const_buffer_data + 15"

section \<open>The macro cache\<close>

text \<open>\<^verbatim>\<open>uploaded_macro_code[method].push_back(data)\<close>.\<close>

definition AddCode :: "'d Maxwell3D \<Rightarrow> u32 \<Rightarrow> u32 \<Rightarrow> 'd Maxwell3D" where
  "AddCode M method data =
     M\<lparr>uploaded_macro_code :=
         (if method \<in> fst ` set (uploaded_macro_code M)
          then map (\<lambda>(k, code). (k, if k = method then code @ [data] else code)) (uploaded_macro_code M)
          else (method, [data]) # uploaded_macro_code M)\<rparr>"

definition info_objects :: "CacheInfo option \<Rightarrow> nat list" where
  "info_objects info =
     (case info of
        None \<Rightarrow> []
      | Some i \<Rightarrow> (case lle_program i of None \<Rightarrow> [] | Some p \<Rightarrow> [p]) @
                  (case CacheInfo.hle_program i of None \<Rightarrow> [] | Some p \<Rightarrow> [p]))"

definition ClearCode :: "'d Maxwell3D \<Rightarrow> u32 \<Rightarrow> 'd Maxwell3D" where
  "ClearCode M method =
     M\<lparr>fast_lookup :=
         (if unat method < length (fast_lookup M)
          then (fast_lookup M)[unat method := \<lparr>program = None, is_lle = False\<rparr>] else fast_lookup M),
       programs := (\<lambda>p. if p \<in> set (info_objects (macro_cache M method)) then None else programs M p),
       macro_cache := (macro_cache M)(method := None),
       uploaded_macro_code := filter (\<lambda>(k, code). k \<noteq> method) (uploaded_macro_code M)\<rparr>"

fun refresh_segments ::
    "('d \<Rightarrow> u64 \<Rightarrow> u32) \<Rightarrow> 'd \<Rightarrow> nat \<Rightarrow> (u64 \<times> nat) list \<Rightarrow> u32 list \<Rightarrow> u32 list Run" where
  "refresh_segments rd d current_index [] params = Returns params"
| "refresh_segments rd d current_index ((address, n) # segments) params =
     (if address = 0 then refresh_segments rd d (current_index + n) segments params
      else if current_index + n > length params then Undefined Parameter_Write
      else refresh_segments rd d (current_index + n) segments
             (take current_index params @ map (\<lambda>i. rd d (address + of_nat (4 * i))) [0..<n] @
              drop (current_index + n) params))"

definition RefreshParameters :: "'d Outside \<Rightarrow> 'd Maxwell3D \<Rightarrow> 'd Maxwell3D Run" where
  "RefreshParameters X M =
     (if \<not> current_macro_dirty M then Returns M
      else bind_run (refresh_segments (read_word X) (device M) 0 (macro_segments M) (macro_params M))
             (\<lambda>ps. Returns (M\<lparr>macro_params := ps\<rparr>)))"

text \<open>The upload that starts before \<open>method\<close> and reaches it.\<close>

definition find_mid_method :: "'d Outside \<Rightarrow> 'd Maxwell3D \<Rightarrow> u32 \<Rightarrow> (u32 \<times> u32 list) option" where
  "find_mid_method X M method =
     find (\<lambda>(method_base, code). method_base \<le> method \<and> unat (method - method_base) < length code)
       (iteration_order X (uploaded_macro_code M))"

definition cache_entry :: "'d Outside \<Rightarrow> 'd Maxwell3D \<Rightarrow> u32 \<Rightarrow> u32 list \<Rightarrow> 'd Maxwell3D" where
  "cache_entry X M method code =
     (let lle = next_program M;
          h = hash_value X code;
          has_hle = (hle_macro X h \<noteq> None \<and> \<not> disable_macro_hle X);
          hle = (if has_hle then Some (lle + 1) else None);
          info = \<lparr>lle_program = Some lle, hle_program = hle, code_hash = h, has_hle_program = has_hle\<rparr>;
          entry = (if has_hle then \<lparr>program = hle, is_lle = False\<rparr>
                   else \<lparr>program = Some lle, is_lle = True\<rparr>);
          padded = fast_lookup M @
            replicate (Suc (unat method) - length (fast_lookup M)) \<lparr>program = None, is_lle = False\<rparr>
      in M\<lparr>programs := (if has_hle then (programs M)(lle := Some (Lle method), lle + 1 := Some (Hle method h))
                        else (programs M)(lle := Some (Lle method))),
           next_program := lle + 2,
           macro_cache := (macro_cache M)(method := Some info),
           fast_lookup := (if unat method < FAST_LOOKUP_SIZE then padded[unat method := entry]
                           else fast_lookup M)\<rparr>)"

text \<open>The last branch of \<^verbatim>\<open>Execute\<close>: compile, and whether it was the middle of an upload.\<close>

definition compile_macro :: "'d Outside \<Rightarrow> 'd Maxwell3D \<Rightarrow> u32 \<Rightarrow> (bool \<times> 'd Maxwell3D) option" where
  "compile_macro X M method =
     (case map_of (uploaded_macro_code M) method of
        Some code \<Rightarrow> Some (False, cache_entry X M method code)
      | None \<Rightarrow>
          (case find_mid_method X M method of
             None \<Rightarrow> None
           | Some (method_base, macro_cached) \<Rightarrow>
               let code = drop (unat (method - method_base)) macro_cached
               in Some (True, cache_entry X
                    (M\<lparr>uploaded_macro_code := (method, code) # uploaded_macro_code M\<rparr>) method code)))"

type_synonym 'd Call = "'d Maxwell3D \<Rightarrow> u32 \<Rightarrow> u32 \<Rightarrow> 'd Maxwell3D Run"

text \<open>
  The engine as the interpreter object \<open>p\<close> of the code at \<open>key\<close> sees it.  When a call
  returns, the object goes on with its members, which must still exist.
\<close>

definition macro_view :: "'d Call \<Rightarrow> nat \<Rightarrow> u32 \<Rightarrow> 'd Maxwell3D Engine" where
  "macro_view call p key =
     \<lparr>engine_call = \<lambda>M m v. bind_run (call M m v)
        (\<lambda>M1. if programs M1 p = None then Undefined Use_After_Free else Returns M1),
      engine_read = GetRegisterValue,
      engine_params = macro_params,
      engine_code = \<lambda>M. (case map_of (uploaded_macro_code M) key of None \<Rightarrow> [] | Some code \<Rightarrow> code)\<rparr>"

definition run_program ::
    "'d Outside \<Rightarrow> nat \<Rightarrow> 'd Call \<Rightarrow> nat option \<Rightarrow> 'd Maxwell3D \<Rightarrow> u32 \<Rightarrow> 'd Maxwell3D Run" where
  "run_program X fuel call pointer M method =
     (case pointer of
        None \<Rightarrow> Undefined Null_Pointer
      | Some p \<Rightarrow>
          (case programs M p of
             None \<Rightarrow> Undefined Use_After_Free
           | Some (Hle key h) \<Rightarrow> (case hle_macro X h of None \<Rightarrow> Returns M | Some f \<Rightarrow> f M method)
           | Some (Lle key) \<Rightarrow>
               if p \<in> set (running M) then Reentered
               else bind_run (Execute fuel (macro_view call p key) (M\<lparr>running := p # running M\<rparr>))
                      (\<lambda>s. Returns ((engine s)\<lparr>running := running M\<rparr>))))"

definition run_cached ::
    "'d Outside \<Rightarrow> nat \<Rightarrow> 'd Call \<Rightarrow> CacheInfo \<Rightarrow> 'd Maxwell3D \<Rightarrow> u32 \<Rightarrow> 'd Maxwell3D Run" where
  "run_cached X fuel call info M method =
     (if has_hle_program info
      then run_program X fuel call (CacheInfo.hle_program info) M method
      else bind_run (RefreshParameters X M)
             (\<lambda>M1. run_program X fuel call (lle_program info) M1 method))"

text \<open>\<^verbatim>\<open>Dump\<close> reads the hash of the entry and the code at the iterator found before compiling.\<close>

definition dump_macro :: "'d Outside \<Rightarrow> bool \<Rightarrow> 'd Maxwell3D \<Rightarrow> u32 \<Rightarrow> 'd Maxwell3D Run" where
  "dump_macro X mid M method =
     (if \<not> dump_macros X then Returns M
      else if macro_cache M method = None then Undefined Use_After_Free
      else if mid then Undefined End_Iterator
      else Returns M)"

definition MacroEngine_Execute ::
    "'d Outside \<Rightarrow> nat \<Rightarrow> 'd Call \<Rightarrow> 'd Maxwell3D \<Rightarrow> u32 \<Rightarrow> 'd Maxwell3D Run" where
  "MacroEngine_Execute X fuel call M method =
     (if unat method < length (fast_lookup M) \<and> program (fast_lookup M ! unat method) \<noteq> None
      then let entry = fast_lookup M ! unat method
           in bind_run (if is_lle entry then RefreshParameters X M else Returns M)
                (\<lambda>M1. run_program X fuel call (program entry) M1 method)
      else case macro_cache M method of
             Some info \<Rightarrow> run_cached X fuel call info M method
           | None \<Rightarrow>
               (case compile_macro X M method of
                  None \<Rightarrow> Returns M
                | Some (mid, M1) \<Rightarrow>
                    (case macro_cache M1 method of
                       None \<Rightarrow> Undefined Null_Pointer
                     | Some info \<Rightarrow>
                         bind_run (run_cached X fuel call info M1 method)
                           (\<lambda>M2. dump_macro X mid M2 method))))"

section \<open>Methods\<close>

definition CallMacroMethod ::
    "'d Outside \<Rightarrow> nat \<Rightarrow> 'd Call \<Rightarrow> 'd Maxwell3D \<Rightarrow> u32 \<Rightarrow> 'd Maxwell3D Run" where
  "CallMacroMethod X fuel call M method =
     (let M1 = M\<lparr>executing_macro := 0\<rparr>;
          entry = drop_bit 1 (method - MacroRegistersStart) mod of_nat (length (macro_positions M1))
      in bind_run (MacroEngine_Execute X fuel call M1 (macro_positions M1 ! unat entry)) (\<lambda>M2.
           let (d, flags) = draw_deferred X (device M2) (regs M2) (dirty_flags M2)
           in Returns (M2\<lparr>device := d, dirty_flags := flags\<rparr>)))"

definition ProcessMacro ::
    "'d Outside \<Rightarrow> nat \<Rightarrow> 'd Call \<Rightarrow> 'd Maxwell3D \<Rightarrow> u32 \<Rightarrow> u32 list \<Rightarrow> bool \<Rightarrow> 'd Maxwell3D Run" where
  "ProcessMacro X fuel call M method arguments is_last_call =
     (let M1 = (if executing_macro M = 0 then M\<lparr>executing_macro := method\<rparr> else M);
          amount = length arguments;
          M2 = M1\<lparr>
            macro_params := macro_params M1 @ arguments,
            macro_addresses := macro_addresses M1 @
              map (\<lambda>i. current_dma_segment M1 + of_nat (i * 4)) [0..<amount],
            macro_segments := macro_segments M1 @ [(current_dma_segment M1, amount)],
            current_macro_dirty := (current_macro_dirty M1 \<or> current_dirty M1),
            current_dirty := False\<rparr>
      in if is_last_call
         then bind_run (ConsumeSink M2) (\<lambda>M3.
              bind_run (CallMacroMethod X fuel call M3 (executing_macro M3)) (\<lambda>M4.
                Returns (M4\<lparr>macro_params := [], macro_addresses := [], macro_segments := [],
                            current_macro_dirty := False\<rparr>)))
         else Returns M2)"

definition ProcessMacroBind :: "'d Maxwell3D \<Rightarrow> u32 \<Rightarrow> 'd Maxwell3D Run" where
  "ProcessMacroBind M data =
     (let ptr = regs M reg_load_mme_start_address_ptr;
          M1 = M\<lparr>regs := (regs M)(reg_load_mme_start_address_ptr := ptr + 1)\<rparr>
      in if unat ptr < length (macro_positions M1)
         then Returns (M1\<lparr>macro_positions := (macro_positions M1)[unat ptr := data]\<rparr>)
         else Undefined Macro_Position_Write)"

definition ProcessFirmwareCall4 :: "'d Maxwell3D \<Rightarrow> 'd Maxwell3D" where
  "ProcessFirmwareCall4 M = M\<lparr>regs := (regs M)(reg_shadow_scratch := 1)\<rparr>"

text \<open>
  Every method that only drives the renderer, a query or a draw goes to \<open>renderer_method\<close>, which
  gets the method and its argument.
\<close>

definition ProcessMethodCall ::
    "'d Outside \<Rightarrow> 'd Maxwell3D \<Rightarrow> u32 \<Rightarrow> u32 \<Rightarrow> u32 \<Rightarrow> bool \<Rightarrow> 'd Maxwell3D Run" where
  "ProcessMethodCall X M method argument nonshadow_argument is_last_call =
     (if method = reg_shadow_ram_control
      then Returns (M\<lparr>shadow_regs := (shadow_regs M)(reg_shadow_ram_control := nonshadow_argument)\<rparr>)
      else if method = reg_load_mme_instruction_ptr
      then Returns (ClearCode M (regs M reg_load_mme_instruction_ptr))
      else if method = reg_load_mme_instruction
      then Returns (AddCode M (regs M reg_load_mme_instruction_ptr) argument)
      else if method = reg_load_mme_start_address then ProcessMacroBind M argument
      else if method = reg_falcon_4 then Returns (ProcessFirmwareCall4 M)
      else if is_const_buffer_data method then Returns (ProcessCBMultiData X M [argument])
      else let (d, flags) = renderer_method X (device M) (regs M) (dirty_flags M) method argument is_last_call
           in Returns (M\<lparr>device := d, dirty_flags := flags\<rparr>))"

definition CallMethod_with ::
    "'d Outside \<Rightarrow> nat \<Rightarrow> 'd Call \<Rightarrow> 'd Maxwell3D \<Rightarrow> u32 \<Rightarrow> u32 \<Rightarrow> bool \<Rightarrow> 'd Maxwell3D Run" where
  "CallMethod_with X fuel call M method method_argument is_last_call =
     (if method \<ge> MacroRegistersStart
      then ProcessMacro X fuel call M method [method_argument] is_last_call
      else let (argument, M1) = ProcessShadowRam M method method_argument
           in bind_run (ProcessDirtyRegisters M1 method argument)
                (\<lambda>M2. ProcessMethodCall X M2 method argument method_argument is_last_call))"

text \<open>A macro calls back with \<^verbatim>\<open>is_last_call\<close> set.\<close>

primrec CallMethod ::
    "nat \<Rightarrow> 'd Outside \<Rightarrow> nat \<Rightarrow> 'd Maxwell3D \<Rightarrow> u32 \<Rightarrow> u32 \<Rightarrow> bool \<Rightarrow> 'd Maxwell3D Run" where
  "CallMethod 0 X fuel M method method_argument is_last_call = Timeout"
| "CallMethod (Suc depth) X fuel M method method_argument is_last_call =
     CallMethod_with X fuel (\<lambda>M m v. CallMethod depth X fuel M m v True) M method method_argument
       is_last_call"

fun call_each ::
    "('d Maxwell3D \<Rightarrow> u32 \<Rightarrow> bool \<Rightarrow> 'd Maxwell3D Run) \<Rightarrow> 'd Maxwell3D \<Rightarrow> u32 list \<Rightarrow> u32 \<Rightarrow> 'd Maxwell3D Run" where
  "call_each f M [] methods_pending = Returns M"
| "call_each f M (v # vs) methods_pending =
     bind_run (f M v (methods_pending \<le> 1)) (\<lambda>M1. call_each f M1 vs (methods_pending - 1))"

definition CallMultiMethod ::
    "nat \<Rightarrow> 'd Outside \<Rightarrow> nat \<Rightarrow> 'd Maxwell3D \<Rightarrow> u32 \<Rightarrow> u32 list \<Rightarrow> u32 \<Rightarrow> 'd Maxwell3D Run" where
  "CallMultiMethod depth X fuel M method arguments methods_pending =
     (if method \<ge> MacroRegistersStart
      then ProcessMacro X fuel (\<lambda>M m v. CallMethod depth X fuel M m v True) M method arguments
             (of_nat (length arguments) = methods_pending)
      else if is_const_buffer_data method then Returns (ProcessCBMultiData X M arguments)
      else if method = reg_inline_data
      then Returns (M\<lparr>device := upload_data X (device M) (regs M) arguments\<rparr>)
      else call_each (\<lambda>M v last_call. CallMethod depth X fuel M method v last_call) M arguments
             methods_pending)"

end
