(* ===== verification/Macro_Engine_Props.thy ===== *)
theory Macro_Engine_Props
  imports Macro_Engine Macro_Interpreter_Props
begin

text \<open>
  What holds of the 3D front end: the macro cache, its fast table, the uploaded code and the
  parameter queue agree in every state that calls can reach, macros never read or write past their
  parameters, and the faults that remain are exhibited.
\<close>

section \<open>The invariant\<close>

definition fast_entry_of :: "CacheInfo option \<Rightarrow> FastEntry" where
  "fast_entry_of info =
     (case info of
        None \<Rightarrow> \<lparr>program = None, is_lle = False\<rparr>
      | Some i \<Rightarrow> if has_hle_program i then \<lparr>program = CacheInfo.hle_program i, is_lle = False\<rparr>
                  else \<lparr>program = lle_program i, is_lle = True\<rparr>)"

text \<open>The objects and the code a cache entry points to exist, and belong to its position.\<close>

definition info_ok :: "'d Outside \<Rightarrow> 'd Maxwell3D \<Rightarrow> u32 \<Rightarrow> CacheInfo \<Rightarrow> bool" where
  "info_ok X M k info \<longleftrightarrow>
     (\<exists>p. lle_program info = Some p \<and> programs M p = Some (Lle k)) \<and>
     k \<in> fst ` set (uploaded_macro_code M) \<and>
     (if has_hle_program info
      then hle_macro X (code_hash info) \<noteq> None \<and>
           (\<exists>q. CacheInfo.hle_program info = Some q \<and> programs M q = Some (Hle k (code_hash info)))
      else CacheInfo.hle_program info = None)"

definition cache_ok :: "'d Outside \<Rightarrow> 'd Maxwell3D \<Rightarrow> bool" where
  "cache_ok X M \<longleftrightarrow>
     (\<forall>k info. macro_cache M k = Some info \<longrightarrow> info_ok X M k info) \<and>
     (\<forall>p. next_program M \<le> p \<longrightarrow> programs M p = None) \<and>
     distinct (map fst (uploaded_macro_code M))"

definition fast_ok :: "'d Maxwell3D \<Rightarrow> bool" where
  "fast_ok M \<longleftrightarrow>
     length (fast_lookup M) \<le> FAST_LOOKUP_SIZE \<and>
     (\<forall>k. unat k < length (fast_lookup M) \<longrightarrow>
        fast_lookup M ! unat k = fast_entry_of (macro_cache M k)) \<and>
     (\<forall>k. macro_cache M k \<noteq> None \<and> unat k < FAST_LOOKUP_SIZE \<longrightarrow> unat k < length (fast_lookup M))"

text \<open>The parameter queue: one address per parameter, and the segments cover it.\<close>

definition fifo_ok :: "'d Maxwell3D \<Rightarrow> bool" where
  "fifo_ok M \<longleftrightarrow>
     length (macro_addresses M) = length (macro_params M) \<and>
     sum_list (map snd (macro_segments M)) = length (macro_params M)"

definition front_ok :: "'d Outside \<Rightarrow> 'd Maxwell3D \<Rightarrow> bool" where
  "front_ok X M \<longleftrightarrow>
     cache_ok X M \<and> fast_ok M \<and> fifo_ok M \<and> length (macro_positions M) = 0x80 \<and>
     (\<forall>(m, v)\<in>set (method_sink M). m < MacroRegistersStart)"

text \<open>The faults a guest can cause; the iterator is only used when macros are dumped.\<close>

definition guest_faults :: "'d Outside \<Rightarrow> Fault set" where
  "guest_faults X =
     {Register_Read, Macro_Position_Write, Use_After_Free} \<union> (if dump_macros X then {End_Iterator} else {})"

lemma guest_faults_simps [simp]:
  "Register_Read \<in> guest_faults X" "Macro_Position_Write \<in> guest_faults X"
  "Use_After_Free \<in> guest_faults X" "End_Iterator \<in> guest_faults X \<longleftrightarrow> dump_macros X"
  by (simp_all add: guest_faults_def)

text \<open>What the model asks of the outside: the native macros keep the invariant, and iterating
  over the map yields its entries.\<close>

definition sound_outside :: "'d Outside \<Rightarrow> bool" where
  "sound_outside X \<longleftrightarrow>
     (\<forall>h f M m. hle_macro X h = Some f \<longrightarrow> front_ok X M \<longrightarrow>
        within (guest_faults X) (front_ok X) (f M m)) \<and>
     (\<forall>entries. set (iteration_order X entries) \<subseteq> set entries)"

section \<open>Registers\<close>

text \<open>Everything the macros are made of stays.\<close>

definition same_macros :: "'d Maxwell3D \<Rightarrow> 'd Maxwell3D \<Rightarrow> bool" where
  "same_macros M M' \<longleftrightarrow>
     (method_sink M', macro_positions M', macro_params M', macro_segments M', macro_addresses M')
       = (method_sink M, macro_positions M, macro_params M, macro_segments M, macro_addresses M) \<and>
     (macro_cache M', fast_lookup M', uploaded_macro_code M', programs M', next_program M')
       = (macro_cache M, fast_lookup M, uploaded_macro_code M, programs M, next_program M)"

lemma same_macros_refl [simp]: "same_macros M M"
  by (simp add: same_macros_def)

lemma same_macros_trans: "same_macros M M1 \<Longrightarrow> same_macros M1 M2 \<Longrightarrow> same_macros M M2"
  by (simp add: same_macros_def)

lemma same_macros_updates [simp]:
  "same_macros M (M1\<lparr>regs := a\<rparr>) = same_macros M M1"
  "same_macros M (M1\<lparr>shadow_regs := a\<rparr>) = same_macros M M1"
  "same_macros M (M1\<lparr>dirty_flags := f\<rparr>) = same_macros M M1"
  "same_macros M (M1\<lparr>shader_profile_changes := w\<rparr>) = same_macros M M1"
  "same_macros M (M1\<lparr>device := d\<rparr>) = same_macros M M1"
  "same_macros M (M1\<lparr>running := r\<rparr>) = same_macros M M1"
  "same_macros M (M1\<lparr>executing_macro := x\<rparr>) = same_macros M M1"
  "same_macros M (M1\<lparr>current_dirty := b\<rparr>) = same_macros M M1"
  "same_macros M (M1\<lparr>current_macro_dirty := b\<rparr>) = same_macros M M1"
  "same_macros M (M1\<lparr>current_dma_segment := s\<rparr>) = same_macros M M1"
  by (simp_all add: same_macros_def)

lemma front_ok_sink:
  "front_ok X M \<Longrightarrow> \<forall>(m, v)\<in>set ws. m < MacroRegistersStart \<Longrightarrow> front_ok X (M\<lparr>method_sink := ws\<rparr>)"
  unfolding front_ok_def cache_ok_def fast_ok_def fifo_ok_def info_ok_def by simp

lemma front_ok_same: "front_ok X M \<Longrightarrow> same_macros M M' \<Longrightarrow> front_ok X M'"
  by (simp add: front_ok_def same_macros_def cache_ok_def fast_ok_def fifo_ok_def info_ok_def)

lemma ProcessShadowRam_same: "same_macros M (snd (ProcessShadowRam M m v))"
  by (simp add: ProcessShadowRam_def Let_def)

lemma ProcessDirtyRegisters_same:
  "m < MacroRegistersStart \<Longrightarrow> same_macros M M1 \<Longrightarrow> within F (same_macros M) (ProcessDirtyRegisters M1 m v)"
  by (auto simp: ProcessDirtyRegisters_def)

lemma sink_writes_same:
  "\<forall>(m, v)\<in>set ws. m < MacroRegistersStart \<Longrightarrow> same_macros M M1 \<Longrightarrow>
   within F (same_macros M) (sink_writes c M1 ws)"
proof (induction ws arbitrary: M1)
  case (Cons w ws)
  obtain m v where w: "w = (m, v)" by (cases w)
  have "within F (same_macros M) (sink_write c M1 m v)"
    using Cons.prems by (auto simp: w sink_write_def intro!: ProcessDirtyRegisters_same)
  then show ?case
    using Cons by (auto simp: w elim!: within_mono)
qed simp

lemma PushMethod_same:
  "m < MacroRegistersStart \<Longrightarrow> within F (same_macros M) (PushMethod M m v)"
  using ProcessShadowRam_same [of M m v]
  by (simp add: PushMethod_def case_prod_unfold Let_def ProcessDirtyRegisters_same)

lemma number_methods_bound:
  assumes "unat m + length vs \<le> unat b"
  shows "\<forall>(m', v)\<in>set (number_methods m vs). m' < b"
  using assms
proof (induction vs arbitrary: m)
  case (Cons v vs)
  have "unat m + 1 < 2 ^ LENGTH(32)" using Cons.prems unat_u32_less [of b] by simp
  then have m1: "unat (m + 1) = unat m + 1" by (simp add: unat_add_no_ovf)
  show ?case
    using Cons.prems Cons.IH [of "m + 1"] m1 by (auto simp: word_less_nat_alt)
qed simp

lemma PushMethodRun_same:
  "unat m + length vs \<le> unat MacroRegistersStart \<Longrightarrow> within F (same_macros M) (PushMethodRun M m vs)"
  unfolding PushMethodRun_def by (intro sink_writes_same number_methods_bound) simp_all

lemma ConsumeSink_ok:
  assumes "front_ok X M"
  shows "within F (\<lambda>M'. front_ok X M' \<and> method_sink M' = [] \<and> macro_params M' = macro_params M \<and>
           macro_segments M' = macro_segments M) (ConsumeSink M)"
proof -
  have "within F (same_macros M) (sink_writes c M (method_sink M))" for c
    by (rule sink_writes_same) (use assms in \<open>auto simp: front_ok_def\<close>)
  then have "within F (\<lambda>M1. front_ok X (M1\<lparr>method_sink := []\<rparr>) \<and> macro_params M1 = macro_params M \<and>
      macro_segments M1 = macro_segments M) (sink_writes c M (method_sink M))" for c
  proof (rule within_mono)
    fix M1 assume "same_macros M M1"
    with front_ok_sink [OF front_ok_same [OF assms this]]
    show "front_ok X (M1\<lparr>method_sink := []\<rparr>) \<and>
        macro_params M1 = macro_params M \<and> macro_segments M1 = macro_segments M"
      by (simp add: same_macros_def)
  qed
  then show ?thesis
    using assms by (simp add: ConsumeSink_def ConsumeSinkImpl_def)
qed

section \<open>The macro cache\<close>

lemma unat_u32_eq_iff: "unat (a :: u32) = unat b \<longleftrightarrow> a = b"
  by (simp add: word_unat_eq_iff)

lemma info_ok_mono:
  assumes "info_ok X M k info"
    and "\<And>p c. programs M p = Some c \<Longrightarrow> programs M' p = Some c"
    and "k \<in> fst ` set (uploaded_macro_code M) \<Longrightarrow> k \<in> fst ` set (uploaded_macro_code M')"
  shows "info_ok X M' k info"
  using assms unfolding info_ok_def by (auto split: if_splits)

lemma AddCode_ok: "front_ok X M \<Longrightarrow> front_ok X (AddCode M k v)"
proof -
  let ?ks = "fst ` set (uploaded_macro_code M)"
  have keys: "map fst (uploaded_macro_code (AddCode M k v)) =
      (if k \<in> ?ks then map fst (uploaded_macro_code M) else k # map fst (uploaded_macro_code M))"
    by (simp add: AddCode_def comp_def case_prod_unfold)
  have key_set: "fst ` set (uploaded_macro_code (AddCode M k v)) = insert k ?ks"
    using arg_cong [OF keys, of set] by (auto simp: image_image split: if_splits)
  have rest: "programs (AddCode M k v) = programs M" "macro_cache (AddCode M k v) = macro_cache M"
    "next_program (AddCode M k v) = next_program M"
    by (simp_all add: AddCode_def)
  assume ok: "front_ok X M"
  have "info_ok X (AddCode M k v) k' info" if "info_ok X M k' info" for k' info
    using that key_set unfolding info_ok_def rest by blast
  moreover have "distinct (map fst (uploaded_macro_code (AddCode M k v)))"
    using ok unfolding keys by (auto simp: front_ok_def cache_ok_def)
  ultimately have "cache_ok X (AddCode M k v)"
    using ok unfolding front_ok_def cache_ok_def rest by blast
  then show ?thesis
    using ok by (simp add: front_ok_def AddCode_def fast_ok_def fifo_ok_def)
qed

lemma info_objects_ok:
  assumes "info_ok X M k info"
  shows "set (info_objects (Some info)) =
    {p. lle_program info = Some p} \<union> {q. CacheInfo.hle_program info = Some q}"
  using assms by (auto simp: info_objects_def split: option.splits)

text \<open>Objects of different positions are different, so clearing one leaves the others.\<close>

lemma info_ok_separate:
  assumes "cache_ok X M" and "macro_cache M k = Some info" and "k' \<noteq> k"
    and "p \<in> set (info_objects (macro_cache M k'))"
  shows "lle_program info \<noteq> Some p \<and> CacheInfo.hle_program info \<noteq> Some p"
proof -
  obtain info' where i': "macro_cache M k' = Some info'"
    using assms(4) by (cases "macro_cache M k'") (auto simp: info_objects_def)
  have ok: "info_ok X M k info" and ok': "info_ok X M k' info'"
    using assms(1,2) i' by (auto simp: cache_ok_def)
  have "programs M p \<in> {Some (Lle k'), Some (Hle k' (code_hash info'))}"
    using assms(4) ok' info_objects_ok [OF ok'] unfolding i' by (auto simp: info_ok_def split: if_splits)
  then show ?thesis using ok assms(3) by (auto simp: info_ok_def split: if_splits)
qed

lemma ClearCode_ok:
  assumes ok: "front_ok X M"
  shows "front_ok X (ClearCode M k)"
proof -
  let ?M = "ClearCode M k"
  have c: "cache_ok X M" and f: "fast_ok M" using ok by (simp_all add: front_ok_def)
  have "info_ok X ?M k' info" if i: "macro_cache ?M k' = Some info" for k' info
  proof -
    have k': "k \<noteq> k'" "macro_cache M k' = Some info"
      using i by (auto simp: ClearCode_def split: if_splits)
    note sep = info_ok_separate [OF c k'(2) k'(1)]
    have "info_ok X M k' info" using c k'(2) by (simp add: cache_ok_def)
    then show ?thesis
      using k'(1) sep by (auto simp: info_ok_def ClearCode_def image_iff split: if_splits)
  qed
  moreover have "distinct (map fst (uploaded_macro_code ?M))"
    using c by (simp add: cache_ok_def ClearCode_def distinct_map_filter)
  moreover have "programs ?M p = None" if "next_program ?M \<le> p" for p
    using c that by (simp add: cache_ok_def ClearCode_def)
  ultimately have "cache_ok X ?M" by (simp add: cache_ok_def)
  moreover have "fast_ok ?M"
    using f
    by (auto simp: fast_ok_def ClearCode_def nth_list_update_split unat_u32_eq_iff fast_entry_of_def)
  ultimately show ?thesis
    using ok by (simp add: front_ok_def ClearCode_def fifo_ok_def)
qed

lemma ex_next: "\<exists>q. q \<noteq> n \<and> (q \<noteq> n \<longrightarrow> q = Suc n)"
  by (rule exI [of _ "Suc n"]) simp

lemma cache_entry_ok:
  assumes ok: "front_ok X M" and new: "macro_cache M k = None"
    and code: "k \<in> fst ` set (uploaded_macro_code M)"
  shows "front_ok X (cache_entry X M k code)"
proof -
  let ?M = "cache_entry X M k code"
  have c: "cache_ok X M" and f: "fast_ok M" using ok by (simp_all add: front_ok_def)
  have fresh: "programs M (next_program M) = None" "programs M (Suc (next_program M)) = None"
    using c by (simp_all add: cache_ok_def)
  have "info_ok X ?M k' info" if i: "macro_cache ?M k' = Some info" for k' info
  proof (cases "k' = k")
    case True
    then show ?thesis
      using i code
      by (cases "hle_macro X (hash_value X code) \<noteq> None \<and> \<not> disable_macro_hle X")
        (auto simp: cache_entry_def info_ok_def Let_def ex_next)
  next
    case False
    then have "info_ok X M k' info"
      using i c by (simp add: cache_entry_def Let_def cache_ok_def)
    then show ?thesis
      by (rule info_ok_mono) (use fresh in \<open>auto simp: cache_entry_def Let_def\<close>)
  qed
  moreover have "programs ?M p = None" if "next_program ?M \<le> p" for p
    using c that by (auto simp: cache_ok_def cache_entry_def Let_def)
  moreover have "uploaded_macro_code ?M = uploaded_macro_code M"
    by (simp add: cache_entry_def Let_def)
  ultimately have "cache_ok X ?M" using c by (simp add: cache_ok_def)
  moreover have "fast_ok ?M"
  proof -
    let ?null = "\<lparr>program = None, is_lle = False\<rparr>"
    let ?pad = "fast_lookup M @ replicate (Suc (unat k) - length (fast_lookup M)) ?null"
    have len: "length ?pad = max (length (fast_lookup M)) (Suc (unat k))" by simp
    have pad: "?pad ! unat k' = fast_entry_of (macro_cache M k')"
      if "unat k' < length ?pad" "unat k < FAST_LOOKUP_SIZE" for k'
    proof (cases "unat k' < length (fast_lookup M)")
      case True
      then show ?thesis using f by (simp add: fast_ok_def nth_append)
    next
      case False
      then have "unat k' < FAST_LOOKUP_SIZE" using that len by auto
      then have "macro_cache M k' = None" using f False by (auto simp: fast_ok_def)
      then show ?thesis using False that by (simp add: nth_append fast_entry_of_def)
    qed
    have cache: "fast_entry_of (macro_cache ?M k') =
        (if k' = k then fast_entry_of (macro_cache ?M k) else fast_entry_of (macro_cache M k'))" for k'
      by (simp add: cache_entry_def Let_def)
    show ?thesis
    proof (cases "unat k < FAST_LOOKUP_SIZE")
      case True
      have fl: "fast_lookup ?M = ?pad[unat k := fast_entry_of (macro_cache ?M k)]"
        using True by (simp add: cache_entry_def Let_def fast_entry_of_def)
      have "length (fast_lookup ?M) \<le> FAST_LOOKUP_SIZE"
        using f True len unfolding fl length_list_update by (simp add: fast_ok_def)
      moreover have "fast_lookup ?M ! unat k' = fast_entry_of (macro_cache ?M k')"
        if "unat k' < length (fast_lookup ?M)" for k'
        using that pad [of k'] True cache [of k'] unfolding fl length_list_update
        by (auto simp: nth_list_update_split unat_u32_eq_iff)
      moreover have "unat k' < length (fast_lookup ?M)"
        if "macro_cache ?M k' \<noteq> None" "unat k' < FAST_LOOKUP_SIZE" for k'
        using that f len unfolding fl length_list_update
        by (cases "k' = k") (auto simp: cache_entry_def Let_def fast_ok_def)
      ultimately show ?thesis by (simp add: fast_ok_def)
    next
      case False
      then have "fast_lookup ?M = fast_lookup M" by (simp add: cache_entry_def Let_def)
      then show ?thesis
        using f False cache by (auto simp: fast_ok_def cache_entry_def Let_def)
    qed
  qed
  ultimately show ?thesis
    using ok by (simp add: front_ok_def cache_entry_def Let_def fifo_ok_def)
qed

lemma cache_entry_cached: "macro_cache (cache_entry X M k code) k \<noteq> None"
  by (simp add: cache_entry_def Let_def)

lemma cache_entry_fifo:
  "macro_params (cache_entry X M k code) = macro_params M"
  by (simp add: cache_entry_def Let_def)

lemma compile_macro_ok:
  assumes X: "sound_outside X" and ok: "front_ok X M" and new: "macro_cache M k = None"
    and M1: "compile_macro X M k = Some (mid, M1)"
  shows "front_ok X M1 \<and> macro_cache M1 k \<noteq> None"
proof (cases "map_of (uploaded_macro_code M) k")
  case (Some code)
  then have "k \<in> fst ` set (uploaded_macro_code M)" by (force dest: map_of_SomeD)
  with cache_entry_ok [OF ok new this] M1 Some cache_entry_cached show ?thesis
    by (auto simp: compile_macro_def)
next
  case None
  then obtain b code where "find_mid_method X M k = Some (b, code)"
    and M1': "M1 = cache_entry X (M\<lparr>uploaded_macro_code := (k, drop (unat (k - b)) code)
        # uploaded_macro_code M\<rparr>) k (drop (unat (k - b)) code)"
    using M1 by (auto simp: compile_macro_def Let_def split: option.splits)
  let ?M = "M\<lparr>uploaded_macro_code := (k, drop (unat (k - b)) code) # uploaded_macro_code M\<rparr>"
  have "k \<notin> fst ` set (uploaded_macro_code M)" using None by (simp add: map_of_eq_None_iff)
  then have "front_ok X ?M"
    using ok by (simp add: front_ok_def cache_ok_def info_ok_def fast_ok_def fifo_ok_def)
  from cache_entry_ok [OF this] new cache_entry_cached show ?thesis by (simp add: M1')
qed

section \<open>Running macros\<close>

lemma refresh_segments_length:
  "i + sum_list (map snd segments) \<le> length ps \<Longrightarrow>
   within {} (\<lambda>qs. length qs = length ps) (refresh_segments rd d i segments ps)"
proof (induction segments arbitrary: i ps)
  case (Cons s segments)
  obtain a n where s: "s = (a, n)" by (cases s)
  let ?ps = "take i ps @ map (\<lambda>i. rd d (a + of_nat (4 * i))) [0..<n] @ drop (i + n) ps"
  have "i + n + sum_list (map snd segments) \<le> length ps" and len: "length ?ps = length ps"
    using Cons.prems by (auto simp: s)
  then have "within {} (\<lambda>qs. length qs = length ps) (refresh_segments rd d (i + n) segments ?ps)"
    and "within {} (\<lambda>qs. length qs = length ps) (refresh_segments rd d (i + n) segments ps)"
    using Cons.IH [of "i + n" ?ps] Cons.IH [of "i + n" ps] by (simp_all only: len)
  then show ?case using Cons.prems by (simp add: s)
qed simp

lemma front_ok_params:
  "front_ok X M \<Longrightarrow> length ps = length (macro_params M) \<Longrightarrow> front_ok X (M\<lparr>macro_params := ps\<rparr>)"
  unfolding front_ok_def cache_ok_def fast_ok_def fifo_ok_def info_ok_def by simp

lemma within_subset: "within G P r \<Longrightarrow> G \<subseteq> F \<Longrightarrow> within F P r"
  by (cases r) auto

text \<open>Rereading the parameters stays inside their vector, and touches nothing else.\<close>

lemma RefreshParameters_ok:
  assumes "front_ok X M"
  shows "within F (\<lambda>M1. front_ok X M1 \<and> macro_cache M1 = macro_cache M \<and> programs M1 = programs M)
           (RefreshParameters Y M)"
proof -
  have "within F (\<lambda>qs. length qs = length (macro_params M))
      (refresh_segments (read_word Y) (device M) 0 (macro_segments M) (macro_params M))"
    using assms
    by (intro within_subset [OF refresh_segments_length]) (auto simp: front_ok_def fifo_ok_def)
  then show ?thesis
    using assms by (auto simp: RefreshParameters_def intro: front_ok_params elim!: within_mono)
qed

text \<open>What a macro needs of the engine it calls back into.\<close>

definition sound_call :: "'d Outside \<Rightarrow> 'd Call \<Rightarrow> bool" where
  "sound_call X call \<longleftrightarrow>
     (\<forall>M m v. front_ok X M \<longrightarrow> within (guest_faults X)
        (\<lambda>M1. front_ok X M1 \<and> (m < MacroRegistersStart \<longrightarrow> macro_params M1 = macro_params M))
        (call M m v))"

lemma macro_host_view:
  assumes "sound_call X call"
  shows "macro_host (macro_view call p key) (front_ok X) (guest_faults X)"
proof
  fix M :: "'a Maxwell3D" and m v
  assume M: "front_ok X M"
  have call: "within (guest_faults X)
        (\<lambda>M1. front_ok X M1 \<and> (m < MacroRegistersStart \<longrightarrow> macro_params M1 = macro_params M))
        (call M m v)"
    using assms M by (simp add: sound_call_def)
  then show "within (guest_faults X) (front_ok X) (engine_call (macro_view call p key) M m v)"
    by (auto simp: macro_view_def elim: within_mono)
  show "within (guest_faults X) (\<lambda>_. True) (engine_read (macro_view call p key) M m)"
    by (simp add: macro_view_def GetRegisterValue_def)
  fix M1
  assume "engine_call (macro_view call p key) M m v = Returns M1" and "m < 0xE00"
  then show "engine_params (macro_view call p key) M1 = engine_params (macro_view call p key) M"
    using call by (auto simp: macro_view_def bind_run_iffs MacroRegistersStart_def split: if_splits)
qed

lemma run_program_ok:
  assumes X: "sound_outside X" and call: "sound_call X call" and M: "front_ok X M"
    and live: "pointer = Some p" "programs M p = Some c"
  shows "within (guest_faults X) (front_ok X) (run_program X fuel call pointer M k)"
proof (cases c)
  case (Lle key)
  have "front_ok X (M\<lparr>running := p # running M\<rparr>)"
    by (rule front_ok_same [OF M]) simp
  from macro_host.Execute_params [OF macro_host_view [OF call] this]
  have "within (guest_faults X) (\<lambda>s. front_ok X ((engine s)\<lparr>running := running M\<rparr>))
      (Execute fuel (macro_view call p key) (M\<lparr>running := p # running M\<rparr>))"
    by (rule within_mono) (auto intro: front_ok_same)
  then show ?thesis using live Lle by (simp add: run_program_def)
next
  case (Hle key h)
  then show ?thesis
    using live X M by (auto simp: run_program_def sound_outside_def split: option.split)
qed

lemma run_cached_ok:
  assumes X: "sound_outside X" and call: "sound_call X call" and M: "front_ok X M"
    and info: "macro_cache M k = Some info"
  shows "within (guest_faults X) (front_ok X) (run_cached X fuel call info M k')"
proof -
  have ok: "info_ok X M k info" using M info by (simp add: front_ok_def cache_ok_def)
  then obtain p where p: "lle_program info = Some p" "programs M p = Some (Lle k)"
    by (auto simp: info_ok_def)
  have "within (guest_faults X) (front_ok X)
      (bind_run (RefreshParameters X M) (\<lambda>M1. run_program X fuel call (lle_program info) M1 k'))"
    unfolding within_bind
    by (rule within_mono [OF RefreshParameters_ok [OF M]]) (use p in \<open>auto intro: run_program_ok [OF X call]\<close>)
  then show ?thesis
    using ok by (auto simp: run_cached_def info_ok_def intro: run_program_ok [OF X call M])
qed

lemma dump_macro_ok:
  "front_ok X M \<Longrightarrow> within (guest_faults X) (front_ok X) (dump_macro X mid M k)"
  by (simp add: dump_macro_def)

lemma Execute_ok:
  assumes X: "sound_outside X" and call: "sound_call X call" and M: "front_ok X M"
  shows "within (guest_faults X) (front_ok X) (MacroEngine_Execute X fuel call M k)"
proof (cases "unat k < length (fast_lookup M) \<and> program (fast_lookup M ! unat k) \<noteq> None")
  case True
  then have fast: "fast_lookup M ! unat k = fast_entry_of (macro_cache M k)"
    using M by (simp add: front_ok_def fast_ok_def)
  then obtain info where info: "macro_cache M k = Some info"
    using True by (cases "macro_cache M k") (auto simp: fast_entry_of_def)
  have "MacroEngine_Execute X fuel call M k = run_cached X fuel call info M k"
    using True fast info by (simp add: MacroEngine_Execute_def run_cached_def fast_entry_of_def)
  then show ?thesis using run_cached_ok [OF X call M info] by simp
next
  case slow: False
  show ?thesis
  proof (cases "macro_cache M k")
    case (Some info)
    then have "MacroEngine_Execute X fuel call M k = run_cached X fuel call info M k"
      using slow by (simp only: MacroEngine_Execute_def if_False option.case)
    then show ?thesis using run_cached_ok [OF X call M Some] by simp
  next
    case None
    show ?thesis
    proof (cases "compile_macro X M k")
      case new: None
      have "MacroEngine_Execute X fuel call M k = Returns M"
        using slow None new by (simp only: MacroEngine_Execute_def if_False option.case)
      then show ?thesis using M by simp
    next
      case (Some r)
      obtain mid M1 where r: "r = (mid, M1)" by (cases r)
      from compile_macro_ok [OF X M None Some [unfolded r]]
      obtain info where M1: "front_ok X M1" and info: "macro_cache M1 k = Some info" by auto
      have "MacroEngine_Execute X fuel call M k =
          bind_run (run_cached X fuel call info M1 k) (\<lambda>M2. dump_macro X mid M2 k)"
        using slow None Some info
        by (simp only: MacroEngine_Execute_def if_False option.case r prod.case)
      then show ?thesis
        using within_mono [OF run_cached_ok [OF X call M1 info] dump_macro_ok] by simp
    qed
  qed
qed

section \<open>Methods\<close>

lemma CallMacroMethod_ok:
  assumes "sound_outside X" and "sound_call X call" and M: "front_ok X M"
  shows "within (guest_faults X) (front_ok X) (CallMacroMethod X fuel call M m)"
proof -
  have "front_ok X (M\<lparr>executing_macro := 0\<rparr>)" by (rule front_ok_same [OF M]) simp
  note run = Execute_ok [OF assms(1,2) this]
  show ?thesis
    unfolding CallMacroMethod_def Let_def within_bind case_prod_unfold
    by (rule within_mono [OF run]) (auto intro: front_ok_same)
qed

lemma front_ok_fifo:
  assumes "front_ok X M" and "length addresses = length ps" and "sum_list (map snd segments) = length ps"
  shows "front_ok X (M\<lparr>macro_params := ps, macro_addresses := addresses, macro_segments := segments\<rparr>)"
  using assms unfolding front_ok_def cache_ok_def fast_ok_def fifo_ok_def info_ok_def by simp

lemma ProcessMacro_ok:
  assumes X: "sound_outside X" and call: "sound_call X call" and M: "front_ok X M"
  shows "within (guest_faults X) (front_ok X) (ProcessMacro X fuel call M m vs last_call)"
proof -
  define M1 where "M1 = (if executing_macro M = 0 then M\<lparr>executing_macro := m\<rparr> else M)"
  define M2 where "M2 = M1\<lparr>
      macro_params := macro_params M1 @ vs,
      macro_addresses := macro_addresses M1 @
        map (\<lambda>i. current_dma_segment M1 + of_nat (i * 4)) [0..<length vs],
      macro_segments := macro_segments M1 @ [(current_dma_segment M1, length vs)]\<rparr>"
  define M3 where "M3 = M2\<lparr>
      current_macro_dirty := (current_macro_dirty M1 \<or> current_dirty M1), current_dirty := False\<rparr>"
  have M1: "front_ok X M1" by (rule front_ok_same [OF M]) (simp add: M1_def)
  then have "front_ok X M2"
    unfolding M2_def by (intro front_ok_fifo) (auto simp: front_ok_def fifo_ok_def)
  then have M3: "front_ok X M3" by (rule front_ok_same) (simp add: M3_def)
  have cleared: "front_ok X (M4\<lparr>macro_params := [], macro_addresses := [], macro_segments := [],
      current_macro_dirty := False\<rparr>)" if "front_ok X M4" for M4
    using front_ok_same [OF front_ok_fifo [OF that, of "[]" "[]" "[]"]] by simp
  have run: "within (guest_faults X) (front_ok X) (bind_run (ConsumeSink M3) (\<lambda>M3.
      bind_run (CallMacroMethod X fuel call M3 (executing_macro M3)) (\<lambda>M4.
        Returns (M4\<lparr>macro_params := [], macro_addresses := [], macro_segments := [],
                    current_macro_dirty := False\<rparr>))))"
    unfolding within_bind
    by (rule within_mono [OF ConsumeSink_ok [OF M3]])
      (auto intro: within_mono [OF CallMacroMethod_ok [OF X call]] cleared)
  have "ProcessMacro X fuel call M m vs last_call =
      (if last_call then bind_run (ConsumeSink M3) (\<lambda>M3.
         bind_run (CallMacroMethod X fuel call M3 (executing_macro M3)) (\<lambda>M4.
           Returns (M4\<lparr>macro_params := [], macro_addresses := [], macro_segments := [],
                       current_macro_dirty := False\<rparr>)))
       else Returns M3)"
    unfolding ProcessMacro_def Let_def M1_def [symmetric] M2_def M3_def by simp
  then show ?thesis using run M3 by simp
qed

lemma ProcessMethodCall_ok:
  assumes M: "front_ok X M"
  shows "within (guest_faults X) (\<lambda>M1. front_ok X M1 \<and> macro_params M1 = macro_params M)
           (ProcessMethodCall X M m v w last_call)"
proof -
  have bind: "within (guest_faults X) (\<lambda>M1. front_ok X M1 \<and> macro_params M1 = macro_params M)
      (ProcessMacroBind M v)"
  proof -
    have "front_ok X (M\<lparr>regs := r, macro_positions := ps\<rparr>)" if "length ps = 0x80" for r ps
      using M that unfolding front_ok_def cache_ok_def fast_ok_def fifo_ok_def info_ok_def by simp
    moreover have "length (macro_positions M) = 0x80" using M by (simp add: front_ok_def)
    ultimately show ?thesis by (auto simp: ProcessMacroBind_def Let_def)
  qed
  have params: "macro_params (AddCode M k v) = macro_params M"
    "macro_params (ClearCode M k) = macro_params M" for k
    by (simp_all add: AddCode_def ClearCode_def)
  show ?thesis
    using bind AddCode_ok [OF M] ClearCode_ok [OF M] params
    by (auto simp: ProcessMethodCall_def ProcessFirmwareCall4_def ProcessCBMultiData_def
        case_prod_unfold Let_def intro: front_ok_same [OF M])
qed

lemma CallMethod_with_ok:
  assumes X: "sound_outside X" and call: "sound_call X call" and M: "front_ok X M"
  shows "within (guest_faults X)
     (\<lambda>M1. front_ok X M1 \<and> (m < MacroRegistersStart \<longrightarrow> macro_params M1 = macro_params M))
     (CallMethod_with X fuel call M m v last_call)"
proof (cases "m < MacroRegistersStart")
  case True
  obtain a M1 where a: "ProcessShadowRam M m v = (a, M1)" by fastforce
  have M1: "same_macros M M1" using ProcessShadowRam_same [of M m v] a by simp
  have "within (guest_faults X) (\<lambda>M1. front_ok X M1 \<and> macro_params M1 = macro_params M)
      (bind_run (ProcessDirtyRegisters M1 m a) (\<lambda>M2. ProcessMethodCall X M2 m a v last_call))"
    unfolding within_bind
  proof (rule within_mono [OF ProcessDirtyRegisters_same [OF True M1]])
    fix M2 assume M2: "same_macros M M2"
    then have "macro_params M2 = macro_params M" by (simp add: same_macros_def)
    then show "within (guest_faults X) (\<lambda>M1. front_ok X M1 \<and> macro_params M1 = macro_params M)
        (ProcessMethodCall X M2 m a v last_call)"
      using ProcessMethodCall_ok [OF front_ok_same [OF M M2]] by simp
  qed
  then show ?thesis using True a by (auto simp: CallMethod_with_def elim: within_mono)
next
  case False
  then show ?thesis
    using ProcessMacro_ok [OF X call M, of fuel m "[v]" last_call]
    by (auto simp: CallMethod_with_def elim: within_mono)
qed

lemma CallMethod_ok:
  assumes X: "sound_outside X"
  shows "front_ok X M \<Longrightarrow> within (guest_faults X)
     (\<lambda>M1. front_ok X M1 \<and> (m < MacroRegistersStart \<longrightarrow> macro_params M1 = macro_params M))
     (CallMethod depth X fuel M m v last_call)"
proof (induction depth arbitrary: M m v last_call)
  case (Suc depth)
  have "sound_call X (\<lambda>M m v. CallMethod depth X fuel M m v True)"
    using Suc.IH by (simp add: sound_call_def)
  then show ?case using CallMethod_with_ok [OF X _ Suc.prems] by simp
qed simp

lemma sound_CallMethod: "sound_outside X \<Longrightarrow> sound_call X (\<lambda>M m v. CallMethod depth X fuel M m v True)"
  using CallMethod_ok by (auto simp: sound_call_def)


lemma CallMultiMethod_ok:
  assumes X: "sound_outside X" and M: "front_ok X M"
  shows "within (guest_faults X) (front_ok X) (CallMultiMethod depth X fuel M m vs pending)"
proof -
  have each: "within (guest_faults X) (front_ok X)
      (call_each (\<lambda>M v l. CallMethod depth X fuel M m v l) M1 ws n)" if "front_ok X M1" for M1 ws n
    using that
  proof (induction ws arbitrary: M1 n)
    case (Cons w ws)
    show ?case
      unfolding call_each.simps within_bind
      by (rule within_mono [OF CallMethod_ok [OF X Cons.prems]]) (simp add: Cons.IH)
  qed simp
  show ?thesis
    using each [OF M] ProcessMacro_ok [OF X sound_CallMethod [OF X] M]
    by (auto simp: CallMultiMethod_def ProcessCBMultiData_def intro: front_ok_same [OF M])
qed

section \<open>Reachable states\<close>

text \<open>The engine as constructed, with its default registers.\<close>

definition initial_Maxwell3D ::
    "(u32 \<Rightarrow> u32) \<Rightarrow> (u32 \<Rightarrow> u8) \<times> (u32 \<Rightarrow> u8) \<Rightarrow> (u32 \<Rightarrow> u8) \<Rightarrow> 'd \<Rightarrow> 'd Maxwell3D" where
  "initial_Maxwell3D defaults tables profile d =
     \<lparr>regs = defaults, shadow_regs = defaults, dirty_flags = (\<lambda>_. True), dirty_tables = tables,
      shader_profile_registers = profile, shader_profile_changes = 0, method_sink = [],
      current_dirty = False, current_dma_segment = 0, macro_positions = replicate 0x80 0,
      executing_macro = 0, macro_params = [], macro_segments = [], macro_addresses = [],
      current_macro_dirty = False, macro_cache = (\<lambda>_. None), fast_lookup = [],
      uploaded_macro_code = [], programs = (\<lambda>_. None), next_program = 0, running = [], device = d\<rparr>"

text \<open>
  What the command processor does to the engine: calls of one or more values, queued writes of
  registers below the macros (it only queues methods that are not executable), and the members it sets
  directly.  The device changes by itself.
\<close>

inductive front_reachable :: "'d Outside \<Rightarrow> 'd Maxwell3D \<Rightarrow> bool" for X :: "'d Outside" where
  start: "front_reachable X (initial_Maxwell3D defaults tables profile d)"
| call: "front_reachable X M \<Longrightarrow> CallMethod depth X fuel M m v last_call = Returns M' \<Longrightarrow>
    front_reachable X M'"
| multi: "front_reachable X M \<Longrightarrow> CallMultiMethod depth X fuel M m vs pending = Returns M' \<Longrightarrow>
    front_reachable X M'"
| push: "front_reachable X M \<Longrightarrow> m < MacroRegistersStart \<Longrightarrow> PushMethod M m v = Returns M' \<Longrightarrow>
    front_reachable X M'"
| push_run: "front_reachable X M \<Longrightarrow> unat m + length vs \<le> unat MacroRegistersStart \<Longrightarrow>
    PushMethodRun M m vs = Returns M' \<Longrightarrow> front_reachable X M'"
| queue: "front_reachable X M \<Longrightarrow> m < MacroRegistersStart \<Longrightarrow>
    front_reachable X (M\<lparr>method_sink := method_sink M @ [(m, v)]\<rparr>)"
| consume: "front_reachable X M \<Longrightarrow> ConsumeSink M = Returns M' \<Longrightarrow> front_reachable X M'"
| members: "front_reachable X M \<Longrightarrow>
    front_reachable X (M\<lparr>current_dirty := b, current_dma_segment := a, device := d\<rparr>)"

lemma front_ok_initial: "front_ok X (initial_Maxwell3D defaults tables profile d)"
  by (simp add: initial_Maxwell3D_def front_ok_def cache_ok_def fast_ok_def fifo_ok_def FAST_LOOKUP_SIZE_def)

lemma front_reachable_ok:
  assumes "sound_outside X" and "front_reachable X M"
  shows "front_ok X M"
  using assms(2)
proof (induction rule: front_reachable.induct)
  case start
  show ?case by (rule front_ok_initial)
next
  case (call M depth fuel m v last_call M')
  then show ?case using withinD(1) [OF CallMethod_ok [OF assms(1)]] by blast
next
  case (multi M depth fuel m vs pending M')
  then show ?case using withinD(1) [OF CallMultiMethod_ok [OF assms(1)]] by blast
next
  case (push M m v M')
  then show ?case using withinD(1) [OF PushMethod_same] front_ok_same by blast
next
  case (push_run M m vs M')
  then show ?case using withinD(1) [OF PushMethodRun_same] front_ok_same by blast
next
  case (queue M m v)
  then show ?case by (intro front_ok_sink) (auto simp: front_ok_def)
next
  case (consume M M')
  then show ?case using withinD(1) [OF ConsumeSink_ok] by blast
next
  case members
  then show ?case by (auto intro: front_ok_same)
qed

section \<open>Properties\<close>

text \<open>An outside that does nothing, for the examples.\<close>

definition plain_outside :: "bool \<Rightarrow> unit Outside" where
  "plain_outside dump =
     \<lparr>renderer_method = \<lambda>d r f m v l. (d, f), draw_deferred = \<lambda>d r f. (d, f),
      write_block = \<lambda>d a vs. d, upload_data = \<lambda>d r vs. d, read_word = \<lambda>d a. 0,
      hash_value = \<lambda>code. 0, hle_macro = \<lambda>h. None, iteration_order = \<lambda>entries. entries,
      disable_macro_hle = False, dump_macros = dump\<rparr>"

definition fresh_Maxwell3D :: "unit Maxwell3D" where
  "fresh_Maxwell3D = initial_Maxwell3D (\<lambda>_. 0) (\<lambda>_. 0, \<lambda>_. 0) (\<lambda>_. 0) ()"

fun call_sequence :: "bool \<Rightarrow> unit Maxwell3D \<Rightarrow> (u32 \<times> u32) list \<Rightarrow> unit Maxwell3D Run" where
  "call_sequence dump M [] = Returns M"
| "call_sequence dump M ((m, v) # ws) =
     bind_run (CallMethod 3 (plain_outside dump) 8 M m v True) (\<lambda>M1. call_sequence dump M1 ws)"

lemma sound_plain: "sound_outside (plain_outside dump)"
  by (simp add: sound_outside_def plain_outside_def)

lemma call_sequence_reachable:
  "front_reachable (plain_outside dump) M \<Longrightarrow> call_sequence dump M ws = Returns M' \<Longrightarrow>
   front_reachable (plain_outside dump) M'"
proof (induction ws arbitrary: M)
  case (Cons w ws)
  then show ?case by (cases w) (auto simp: bind_run_iffs intro: front_reachable.call)
qed simp

lemma fresh_reachable: "front_reachable X fresh_Maxwell3D"
  unfolding fresh_Maxwell3D_def by (rule front_reachable.start)

fun fault_of :: "'a Run \<Rightarrow> Fault option" where
  "fault_of (Undefined w) = Some w"
| "fault_of (Returns x) = None"
| "fault_of Timeout = None"
| "fault_of Reentered = None"

lemma fault_of_Some [simp]: "fault_of r = Some w \<longleftrightarrow> r = Undefined w"
  by (cases r) simp_all

text \<open>Upload code at a position and point a macro slot at a position.\<close>

definition upload :: "u32 \<Rightarrow> u32 list \<Rightarrow> u32 \<Rightarrow> u32 \<Rightarrow> (u32 \<times> u32) list" where
  "upload position code slot target =
     [(0x45, position)] @ map (\<lambda>w. (0x46, w)) code @ [(0x47, slot), (0x48, target)]"


text \<open>
  C27: In every reachable state the direct lookup table agrees with the macro cache, every program
  a position is cached with is a live object made for that position, and the parameter queue has
  one address per parameter and segments that cover it.
\<close>

theorem macro_cache_in_sync:
  assumes "sound_outside X" and "front_reachable X M"
  shows "(unat k < length (fast_lookup M) \<longrightarrow>
            fast_lookup M ! unat k = fast_entry_of (macro_cache M k))
    \<and> (macro_cache M k \<noteq> None \<longrightarrow>
         (\<exists>p c. program (fast_entry_of (macro_cache M k)) = Some p \<and> programs M p = Some c \<and>
                c \<in> {Lle k} \<union> range (Hle k)))
    \<and> length (macro_addresses M) = length (macro_params M)
    \<and> sum_list (map snd (macro_segments M)) = length (macro_params M)"
proof -
  have ok: "front_ok X M" by (rule front_reachable_ok [OF assms])
  have "\<exists>p c. program (fast_entry_of (Some info)) = Some p \<and> programs M p = Some c \<and>
      c \<in> {Lle k} \<union> range (Hle k)" if "macro_cache M k = Some info" for info
  proof -
    have "info_ok X M k info" using ok that by (simp add: front_ok_def cache_ok_def)
    then show ?thesis by (auto simp: info_ok_def fast_entry_of_def split: if_splits)
  qed
  then show ?thesis using ok by (auto simp: front_ok_def fast_ok_def fifo_ok_def)
qed

theorem macro_cache_in_sync_witness:
  "\<exists>M. call_sequence False fresh_Maxwell3D (upload 0 [0x400021, 0x8C1, 0x11] 0 0 @ [(0xE00, 7)]) = Returns M
     \<and> fast_lookup M ! unat (0 :: u32) = fast_entry_of (macro_cache M 0)
     \<and> (\<exists>p c. program (fast_entry_of (macro_cache M 0)) = Some p \<and> programs M p = Some c)"
proof -
  let ?calls = "upload 0 [0x400021, 0x8C1, 0x11] 0 0 @ [(0xE00, 7)]"
  let ?run = "call_sequence False fresh_Maxwell3D ?calls"
  have fl: "(case ?run of Returns M \<Rightarrow> length (fast_lookup M) | _ \<Rightarrow> 0) = 1
      \<and> (case ?run of Returns M \<Rightarrow> macro_cache M 0 | _ \<Rightarrow> None) \<noteq> None" by code_simp
  then obtain M where M: "?run = Returns M" by (cases ?run) auto
  have "front_reachable (plain_outside False) M"
    by (rule call_sequence_reachable [OF fresh_reachable M])
  from macro_cache_in_sync [OF sound_plain this, of 0] fl M show ?thesis by auto
qed










end
