(* ===== verification/Dma_Pusher.thy ===== *)
theory Dma_Pusher
  imports Macro_Interpreter
begin

text \<open>
  The command processor: \<^verbatim>\<open>yuzu_video_core/dma_pusher.cpp\<close>, \<^verbatim>\<open>dma_pusher.h\<close> and
  \<^verbatim>\<open>command_header.h\<close>.  It turns the words of a pushbuffer into method writes for the puller and for
  the engines bound to the eight subchannels.  What it does to them are the \<open>Event\<close>s; the
  state \<open>'g\<close> of puller and engines and the effect of an event are the parameter
  \<open>Channel\<close>, which \<open>Gpu_Front_End\<close> instantiates.
\<close>

section \<open>Command words\<close>

datatype SubmissionMode = IncreasingOld | Increasing | NonIncreasingOld | NonIncreasing | Inline
  | IncreaseOnce | InvalidMode

definition ch_method :: "u32 \<Rightarrow> u32" where "ch_method w = bit_field 0 13 w"
definition ch_subchannel :: "u32 \<Rightarrow> u32" where "ch_subchannel w = bit_field 13 3 w"
definition ch_arg_count :: "u32 \<Rightarrow> u32" where "ch_arg_count w = bit_field 16 13 w"
definition ch_method_count :: "u32 \<Rightarrow> u32" where "ch_method_count w = bit_field 16 13 w"

definition ch_mode :: "u32 \<Rightarrow> SubmissionMode" where
  "ch_mode w =
     [IncreasingOld, Increasing, NonIncreasingOld, NonIncreasing, Inline, IncreaseOnce, InvalidMode,
      InvalidMode] ! unat (bit_field 29 3 w)"

text \<open>\<^verbatim>\<open>CommandListHeader\<close>, an entry of the pushbuffer.\<close>

definition clh_conditional_fetch :: "u64 \<Rightarrow> bool" where "clh_conditional_fetch raw = bit raw 0"
definition clh_size :: "u64 \<Rightarrow> nat" where "clh_size raw = unat (take_bit 21 (drop_bit 42 raw))"
definition clh_sync :: "u64 \<Rightarrow> bool" where "clh_sync raw = bit raw 63"
definition clh_Address :: "u64 \<Rightarrow> u64" where "clh_Address raw = raw AND 0xFFFFFFFFFC"

definition non_puller_methods :: u32 where "non_puller_methods = 0x40"

section \<open>State and events\<close>

record DmaState =
  dma_method :: u32
  dma_subchannel :: u32
  dma_method_count :: u32
  dma_get :: u64
  dma_word_offset :: u64
  non_incrementing :: bool
  dma_is_last_call :: bool
  dma_increment_once :: bool

text \<open>
  A write for the puller (its last number is the count of writes the command still has), several of
  them, a call of an engine with the address of its data (\<^verbatim>\<open>current_dma_segment\<close>), several of
  them, and the three ways a write is deferred.
\<close>

datatype Event =
    Puller_Write u32 u32 u32 u32
  | Puller_Multi u32 u32 "u32 list" u32
  | Engine_Call u32 u32 u32 bool u64
  | Engine_Multi u32 u32 "u32 list" u32 u64
  | Engine_Push u32 u32 u32
  | Engine_Run u32 u32 "u32 list"
  | Engine_Sink u32 u32 u32

text \<open>
  The engine bound to a subchannel, if any: whether it is the 3D engine, and which of its methods are
  executable (\<^verbatim>\<open>execution_mask\<close>).
\<close>

record 'g Channel =
  bound_engine :: "'g \<Rightarrow> u32 \<Rightarrow> (bool \<times> (u32 \<Rightarrow> bool)) option"
  perform :: "'g \<Rightarrow> Event \<Rightarrow> 'g Run"

section \<open>Processing commands\<close>

definition SetState :: "DmaState \<Rightarrow> u32 \<Rightarrow> DmaState" where
  "SetState P command_header =
     P\<lparr>dma_method := ch_method command_header, dma_subchannel := ch_subchannel command_header,
       dma_method_count := ch_method_count command_header\<rparr>"

definition pusher_CallMethod :: "'g Channel \<Rightarrow> 'g \<Rightarrow> DmaState \<Rightarrow> u32 \<Rightarrow> Event list Run" where
  "pusher_CallMethod C g P argument =
     (if dma_method P < non_puller_methods
      then Returns [Puller_Write (dma_method P) argument (dma_subchannel P) (dma_method_count P)]
      else case bound_engine C g (dma_subchannel P) of
             None \<Rightarrow> Undefined Null_Pointer
           | Some (maxwell, execution_mask) \<Rightarrow>
               if \<not> execution_mask (dma_method P)
               then Returns [(if maxwell then Engine_Push else Engine_Sink)
                               (dma_subchannel P) (dma_method P) argument]
               else Returns [Engine_Call (dma_subchannel P) (dma_method P) argument (dma_is_last_call P)
                               (dma_get P + dma_word_offset P)])"

definition pusher_CallMultiMethod ::
    "'g Channel \<Rightarrow> 'g \<Rightarrow> DmaState \<Rightarrow> u32 list \<Rightarrow> Event list Run" where
  "pusher_CallMultiMethod C g P arguments =
     (if dma_method P < non_puller_methods
      then Returns [Puller_Multi (dma_method P) (dma_subchannel P) arguments (dma_method_count P)]
      else case bound_engine C g (dma_subchannel P) of
             None \<Rightarrow> Undefined Null_Pointer
           | Some _ \<Rightarrow>
               Returns [Engine_Multi (dma_subchannel P) (dma_method P) arguments (dma_method_count P)
                          (dma_get P + dma_word_offset P)])"

text \<open>The \<^verbatim>\<open>do while\<close> loop after its first turn: how far the run of deferred methods goes on.\<close>

fun extend_run :: "(u32 \<Rightarrow> bool) \<Rightarrow> u32 \<Rightarrow> nat \<Rightarrow> nat" where
  "extend_run execution_mask method 0 = 0"
| "extend_run execution_mask method (Suc available) =
     (if execution_mask method then 0 else Suc (extend_run execution_mask (method + 1) available))"

text \<open>The state after one incrementing write.\<close>

definition written_word :: "DmaState \<Rightarrow> DmaState" where
  "written_word P =
     P\<lparr>dma_method := dma_method P + 1, dma_method_count := dma_method_count P - 1,
       non_incrementing := (non_incrementing P \<or> dma_increment_once P)\<rparr>"

text \<open>The inner \<^verbatim>\<open>while\<close> loop for the other engines, and for executable methods.\<close>

function deferred_loop ::
    "'g Channel \<Rightarrow> 'g \<Rightarrow> (u32 \<Rightarrow> bool) \<Rightarrow> u32 list \<Rightarrow> DmaState \<Rightarrow> nat \<Rightarrow>
     (Event list \<times> DmaState \<times> nat) Run" where
  "deferred_loop C g execution_mask commands P index =
     (if index < length commands \<and> dma_method_count P \<noteq> 0
      then
        let P1 = P\<lparr>dma_is_last_call := (dma_method_count P \<le> 1)\<rparr>
        in if execution_mask (dma_method P)
           then let P2 = P1\<lparr>dma_word_offset := ucast (of_nat (index * 4) :: u32)\<rparr>
                in bind_run (pusher_CallMethod C g P2 (commands ! index))
                     (\<lambda>events. Returns (events, written_word P2, index + 1))
           else if dma_increment_once P
           then Returns ([Engine_Sink (dma_subchannel P) (dma_method P) (commands ! index)],
                  written_word P1, index + 1)
           else bind_run (deferred_loop C g execution_mask commands (written_word P1) (index + 1))
                  (\<lambda>(events, P2, i).
                    Returns (Engine_Sink (dma_subchannel P) (dma_method P) (commands ! index) # events, P2, i))
      else Returns ([], P, index))"
  by pat_completeness auto
termination by (relation "measure (\<lambda>(C, g, m, commands, P, index). length commands - index)") auto

declare deferred_loop.simps [simp del]

text \<open>
  One turn of the loop of \<^verbatim>\<open>ProcessCommands\<close>: what it does to puller and engines, the state and the
  index it leaves.
\<close>

definition command_step ::
    "'g Channel \<Rightarrow> 'g \<Rightarrow> u32 list \<Rightarrow> DmaState \<Rightarrow> nat \<Rightarrow> (Event list \<times> DmaState \<times> nat) Run" where
  "command_step C g commands P index =
     (let command_header = commands ! index
      in if dma_method_count P \<noteq> 0
         then
           let P1 = P\<lparr>dma_word_offset := ucast (of_nat (index * 4) :: u32)\<rparr>
           in if non_incrementing P1
              then
                let max_write = min (index + unat (dma_method_count P1)) (length commands) - index
                in bind_run (pusher_CallMultiMethod C g P1 (take max_write (drop index commands)))
                     (\<lambda>events. Returns (events,
                        P1\<lparr>dma_method_count := dma_method_count P1 - of_nat max_write,
                           dma_is_last_call := True\<rparr>, index + max_write))
              else if dma_method P1 \<ge> non_puller_methods
              then
                (case bound_engine C g (dma_subchannel P1) of
                   None \<Rightarrow> Undefined Null_Pointer
                 | Some (maxwell, execution_mask) \<Rightarrow>
                     if maxwell \<and> \<not> execution_mask (dma_method P1)
                     then
                       let available = (if dma_increment_once P1 then 1
                             else min (unat (dma_method_count P1)) (length commands - index));
                           count = 1 + extend_run execution_mask (dma_method P1 + 1) (available - 1)
                       in Returns ([Engine_Run (dma_subchannel P1) (dma_method P1)
                                      (take count (drop index commands))],
                            P1\<lparr>dma_method := dma_method P1 + of_nat count,
                               dma_is_last_call := (dma_method_count P1 \<le> of_nat count),
                               dma_method_count := dma_method_count P1 - of_nat count,
                               non_incrementing := (non_incrementing P1 \<or> dma_increment_once P1)\<rparr>,
                            index + count)
                     else deferred_loop C g execution_mask commands P1 index)
              else
                let P2 = P1\<lparr>dma_is_last_call := (dma_method_count P1 \<le> 1)\<rparr>
                in bind_run (pusher_CallMethod C g P2 command_header)
                     (\<lambda>events. Returns (events,
                        P2\<lparr>dma_method := (if non_incrementing P2 then dma_method P2 else dma_method P2 + 1),
                           non_incrementing := (non_incrementing P2 \<or> dma_increment_once P2),
                           dma_method_count := dma_method_count P2 - 1\<rparr>, index + 1))
         else
           (case ch_mode command_header of
              Increasing \<Rightarrow>
                Returns ([], (SetState P command_header)\<lparr>non_incrementing := False,
                                                           dma_increment_once := False\<rparr>, index + 1)
            | NonIncreasing \<Rightarrow>
                Returns ([], (SetState P command_header)\<lparr>non_incrementing := True,
                                                           dma_increment_once := False\<rparr>, index + 1)
            | Inline \<Rightarrow>
                let P1 = P\<lparr>dma_method := ch_method command_header,
                           dma_subchannel := ch_subchannel command_header,
                           dma_word_offset := - dma_get P, dma_is_last_call := True\<rparr>
                in bind_run (pusher_CallMethod C g P1 (ch_arg_count command_header))
                     (\<lambda>events. Returns (events, P1\<lparr>non_incrementing := True,
                                                     dma_increment_once := False\<rparr>, index + 1))
            | IncreaseOnce \<Rightarrow>
                Returns ([], (SetState P command_header)\<lparr>non_incrementing := False,
                                                           dma_increment_once := True\<rparr>, index + 1)
            | _ \<Rightarrow> Returns ([], P, index + 1)))"

fun perform_all :: "'g Channel \<Rightarrow> 'g \<Rightarrow> Event list \<Rightarrow> 'g Run" where
  "perform_all C g [] = Returns g"
| "perform_all C g (e # es) = bind_run (perform C g e) (\<lambda>g1. perform_all C g1 es)"

text \<open>Every turn goes forward in the buffer.\<close>

lemma deferred_loop_le:
  "deferred_loop C g m commands P index = Returns (events, P', index') \<Longrightarrow> index \<le> index'"
proof (induction C g m commands P index arbitrary: events rule: deferred_loop.induct)
  case (1 C g m commands P index)
  show ?case
  proof (cases "index < length commands \<and> dma_method_count P \<noteq> 0 \<and>
      \<not> m (dma_method P) \<and> \<not> dma_increment_once P")
    case True
    then obtain evs where "deferred_loop C g m commands
        (written_word (P\<lparr>dma_is_last_call := (dma_method_count P \<le> 1)\<rparr>)) (index + 1)
        = Returns (evs, P', index')"
      using "1.prems" by (subst (asm) deferred_loop.simps) (auto simp: Let_def bind_run_iffs)
    with "1.IH" True show ?thesis by fastforce
  next
    case False
    then show ?thesis
      using "1.prems"
      by (subst (asm) deferred_loop.simps) (auto simp: Let_def bind_run_iffs split: if_splits)
  qed
qed

lemma command_step_index:
  assumes "command_step C g commands P index = Returns (events, P', index')"
    and "index < length commands"
  shows "index < index'"
proof -
  have "index < index'" if "deferred_loop C g m commands P1 index = Returns (events, P', index')"
    and "dma_method_count P1 \<noteq> 0" for m P1
    using that assms(2)
    by (subst (asm) deferred_loop.simps)
      (auto simp: Let_def bind_run_iffs less_eq_Suc_le dest: deferred_loop_le split: if_splits)
  moreover have "0 < unat (dma_method_count P)" if "dma_method_count P \<noteq> 0"
    using that by (simp add: unat_gt_0)
  ultimately show ?thesis
    using assms
    by (auto simp: command_step_def Let_def bind_run_iffs
        split: if_splits option.splits SubmissionMode.splits)
qed

lemma bind_run_cong [fundef_cong]:
  "r = r' \<Longrightarrow> (\<And>x. r' = Returns x \<Longrightarrow> f x = f' x) \<Longrightarrow> bind_run r f = bind_run r' f'"
  by (cases r') simp_all

function process_from ::
    "'g Channel \<Rightarrow> u32 list \<Rightarrow> nat \<Rightarrow> DmaState \<Rightarrow> 'g \<Rightarrow> (DmaState \<times> 'g) Run" where
  "process_from C commands index P g =
     (if index < length commands
      then bind_run (command_step C g commands P index) (\<lambda>(events, P1, index1).
           bind_run (perform_all C g events) (\<lambda>g1. process_from C commands index1 P1 g1))
      else Returns (P, g))"
  by pat_completeness auto
termination
  by (relation "measure (\<lambda>(C, commands, index, P, g). length commands - index)")
    (auto dest: command_step_index intro: diff_less_mono2)

declare process_from.simps [simp del]

definition ProcessCommands :: "'g Channel \<Rightarrow> u32 list \<Rightarrow> DmaState \<Rightarrow> 'g \<Rightarrow> (DmaState \<times> 'g) Run" where
  "ProcessCommands C commands P g = process_from C commands 0 P g"

section \<open>The pushbuffer\<close>

datatype SyncState = Sync_None | Sync_Skip | Sync_Armed

record CommandList =
  command_lists :: "u64 list"
  prefetch_command_list :: "u32 list"

text \<open>
  What \<^verbatim>\<open>Step\<close> asks of the rest of the GPU: its settings, the power state, reads of guest memory
  (safely, that is with pending GPU writes, or not), whether a range was written by the GPU, the flag of
  the engine of a subchannel, and the fences.  Waiting for an armed fence returns when it was signalled.
\<close>

record 'g PusherHost =
  channel :: "'g Channel"
  powered_on :: "'g \<Rightarrow> bool"
  is_compute :: "'g \<Rightarrow> u32 \<Rightarrow> bool"
  is_maxwell :: "'g \<Rightarrow> u32 \<Rightarrow> bool"
  set_current_dirty :: "'g \<Rightarrow> u32 \<Rightarrow> bool \<Rightarrow> 'g"
  fetch_words :: "'g \<Rightarrow> bool \<Rightarrow> u64 \<Rightarrow> nat \<Rightarrow> u32 list"
  memory_dirty :: "'g \<Rightarrow> u64 \<Rightarrow> nat \<Rightarrow> bool"
  wait_for_fence :: "'g \<Rightarrow> 'g"
  signal_fence :: "'g \<Rightarrow> 'g"
  wait_armed :: "'g \<Rightarrow> 'g"
  finish_commands :: "'g \<Rightarrow> 'g"
  sync_enabled :: bool
  safe_dma_reads :: bool
  dma_level_default :: bool

record Pusher =
  dma_state :: DmaState
  dma_pushbuffer :: "CommandList list"
  dma_pushbuffer_subindex :: nat
  memory_operation_sync_state :: SyncState

definition ComputeInline :: u32 where "ComputeInline = 0x6D"

definition WaitForArmedMemoryOperationSync :: "'g PusherHost \<Rightarrow> Pusher \<Rightarrow> 'g \<Rightarrow> Pusher \<times> 'g" where
  "WaitForArmedMemoryOperationSync H S g =
     (S\<lparr>memory_operation_sync_state := Sync_None\<rparr>, wait_armed H g)"

definition ArmMemoryOperationSync :: "'g PusherHost \<Rightarrow> Pusher \<Rightarrow> 'g \<Rightarrow> Pusher \<times> 'g" where
  "ArmMemoryOperationSync H S g =
     (S\<lparr>memory_operation_sync_state := Sync_Armed\<rparr>, signal_fence H g)"

definition CanSkipCleanMemoryOperationSync :: "'g PusherHost \<Rightarrow> 'g \<Rightarrow> u64 \<Rightarrow> bool" where
  "CanSkipCleanMemoryOperationSync H g header =
     (if \<not> safe_dma_reads H \<or> clh_size header = 0 \<or> clh_conditional_fetch header then False
      else \<not> memory_dirty H g (clh_Address header) (clh_size header * 4))"

text \<open>\<^verbatim>\<open>SYNC_WAIT\<close> of the current entry.\<close>

definition sync_entry :: "'g PusherHost \<Rightarrow> Pusher \<Rightarrow> 'g \<Rightarrow> u64 \<Rightarrow> Pusher \<times> 'g" where
  "sync_entry H S g header =
     (if clh_sync header
      then case memory_operation_sync_state S of
             Sync_Skip \<Rightarrow> (S\<lparr>memory_operation_sync_state := Sync_None\<rparr>, g)
           | Sync_Armed \<Rightarrow> WaitForArmedMemoryOperationSync H S g
           | Sync_None \<Rightarrow> (S, if sync_enabled H then wait_for_fence H g else g)
      else (S, g))"

text \<open>The parameters of a macro or an inline upload keep track of where they come from.\<close>

definition mark_payload :: "'g PusherHost \<Rightarrow> DmaState \<Rightarrow> 'g \<Rightarrow> nat \<Rightarrow> 'g" where
  "mark_payload H P g sz =
     (if sz > 0 \<and> dma_method_count P \<noteq> 0 \<and> bound_engine (channel H) g (dma_subchannel P) \<noteq> None
      then
        let compute_payload = (is_compute H g (dma_subchannel P) \<and> dma_method P = ComputeInline \<and>
                               non_incrementing P);
            macro_payload = (is_maxwell H g (dma_subchannel P) \<and> dma_method P \<ge> 0xE00);
            words = min (unat (dma_method_count P)) sz
        in if compute_payload \<or> macro_payload
           then set_current_dirty H g (dma_subchannel P) (memory_dirty H g (dma_get P) (words * 4))
           else g
      else g)"

definition uses_safe_fetch :: "'g PusherHost \<Rightarrow> DmaState \<Rightarrow> 'g \<Rightarrow> nat \<Rightarrow> bool" where
  "uses_safe_fetch H P g sz =
     (let is_gpu_consumed = (dma_level_default H \<and> non_incrementing P \<and>
            unat (dma_method_count P) \<ge> sz \<and>
            (dma_method P \<ge> 0xE00 \<or> is_compute H g (dma_subchannel P) \<and> dma_method P = ComputeInline))
      in safe_dma_reads H \<and> \<not> is_gpu_consumed)"

definition prepare_next_sync :: "'g PusherHost \<Rightarrow> Pusher \<Rightarrow> 'g \<Rightarrow> u64 list \<Rightarrow> Pusher \<times> 'g" where
  "prepare_next_sync H S g entries =
     (let next_entry_index = dma_pushbuffer_subindex S + 1
      in if next_entry_index < length entries \<and> sync_enabled H \<and> clh_sync (entries ! next_entry_index)
         then if CanSkipCleanMemoryOperationSync H g (entries ! next_entry_index)
              then (S\<lparr>memory_operation_sync_state := Sync_Skip\<rparr>, g)
              else ArmMemoryOperationSync H S g
         else (S, g))"

definition pop_list :: "Pusher \<Rightarrow> Pusher" where
  "pop_list S = S\<lparr>dma_pushbuffer := tl (dma_pushbuffer S), dma_pushbuffer_subindex := 0\<rparr>"

definition Pusher_Step :: "'g PusherHost \<Rightarrow> Pusher \<Rightarrow> 'g \<Rightarrow> (bool \<times> Pusher \<times> 'g) Run" where
  "Pusher_Step H S g =
     (case dma_pushbuffer S of
        [] \<Rightarrow> Returns (False, S, g)
      | command_list # _ \<Rightarrow>
          let entries = command_lists command_list; prefetch = prefetch_command_list command_list
          in if prefetch = [] \<and> entries = [] then Returns (True, pop_list S, g)
             else if prefetch \<noteq> []
             then bind_run (ProcessCommands (channel H) prefetch (dma_state S) g) (\<lambda>(P, g1).
                    Returns (True, S\<lparr>dma_state := P, dma_pushbuffer := tl (dma_pushbuffer S)\<rparr>, g1))
             else if dma_pushbuffer_subindex S \<ge> length entries then Undefined Null_Pointer
             else
               let header = entries ! dma_pushbuffer_subindex S;
                   sz = clh_size header;
                   S1 = S\<lparr>dma_state := (dma_state S)\<lparr>dma_get := clh_Address header\<rparr>\<rparr>;
                   (S2, g2) = sync_entry H S1 g header;
                   g3 = mark_payload H (dma_state S2) g2 sz;
                   commands = fetch_words H g3 (uses_safe_fetch H (dma_state S2) g3 sz)
                     (dma_get (dma_state S2)) sz
               in bind_run (if sz > 0 then ProcessCommands (channel H) commands (dma_state S2) g3
                            else Returns (dma_state S2, g3)) (\<lambda>(P, g4).
                    let (S5, g5) = prepare_next_sync H (S2\<lparr>dma_state := P\<rparr>) g4 entries;
                        next = dma_pushbuffer_subindex S5 + 1
                    in Returns (True, if next \<ge> length entries then pop_list S5
                                      else S5\<lparr>dma_pushbuffer_subindex := next\<rparr>, g5)))"

fun dispatch_loop :: "nat \<Rightarrow> 'g PusherHost \<Rightarrow> Pusher \<Rightarrow> 'g \<Rightarrow> (Pusher \<times> 'g) Run" where
  "dispatch_loop 0 H S g = Timeout"
| "dispatch_loop (Suc fuel) H S g =
     (if powered_on H g
      then bind_run (Pusher_Step H S g) (\<lambda>(continue, S1, g1).
             if continue then dispatch_loop fuel H S1 g1 else Returns (S1, g1))
      else Returns (S, g))"

definition DispatchCalls :: "nat \<Rightarrow> 'g PusherHost \<Rightarrow> Pusher \<Rightarrow> 'g \<Rightarrow> (Pusher \<times> 'g) Run" where
  "DispatchCalls fuel H S g =
     bind_run (dispatch_loop fuel H
        (S\<lparr>dma_pushbuffer_subindex := 0, dma_state := (dma_state S)\<lparr>dma_is_last_call := True\<rparr>\<rparr>) g)
       (\<lambda>(S1, g1).
         let (S2, g2) = (if memory_operation_sync_state S1 = Sync_Armed
                         then WaitForArmedMemoryOperationSync H S1 g1
                         else (S1\<lparr>memory_operation_sync_state := Sync_None\<rparr>, g1))
         in Returns (S2, finish_commands H g2))"

end
