(* ===== verification/Dma_Pusher_Props.thy ===== *)
theory Dma_Pusher_Props
  imports Dma_Pusher Macro_Interpreter_Props
begin

text \<open>
  The command processor against the format it decodes: whatever its fast paths do, and however the
  words are cut into buffers, the writes it performs are the ones of the reference decoder below.
\<close>

section \<open>The format\<close>

text \<open>
  A command writes to a method of a subchannel: to the same method each time, to the following methods,
  or to the first method once and then to the next one.
\<close>

datatype Advance = Fixed | Every | First

type_synonym Command = "u32 \<times> u32 \<times> nat \<times> Advance"
type_synonym Write = "u32 \<times> u32 \<times> u32"

fun next_command :: "Command \<Rightarrow> Command option" where
  "next_command (s, m, n, adv) =
     (if n \<le> 1 then None
      else Some (s, if adv = Fixed then m else m + 1, n - 1, if adv = Every then Every else Fixed))"

definition start_command :: "u32 \<Rightarrow> Advance \<Rightarrow> Command option" where
  "start_command w adv =
     (if ch_method_count w = 0 then None
      else Some (ch_subchannel w, ch_method w, unat (ch_method_count w), adv))"

fun decode :: "Command option \<Rightarrow> u32 list \<Rightarrow> Write list \<times> Command option" where
  "decode c [] = ([], c)"
| "decode (Some (s, m, n, adv)) (w # ws) =
     (let (l, c) = decode (next_command (s, m, n, adv)) ws in ((s, m, w) # l, c))"
| "decode None (w # ws) =
     (case ch_mode w of
        Increasing \<Rightarrow> decode (start_command w Every) ws
      | NonIncreasing \<Rightarrow> decode (start_command w Fixed) ws
      | IncreaseOnce \<Rightarrow> decode (start_command w First) ws
      | Inline \<Rightarrow> (let (l, c) = decode None ws in ((ch_subchannel w, ch_method w, ch_arg_count w) # l, c))
      | _ \<Rightarrow> decode None ws)"

lemma decode_append:
  "decode c (xs @ ys) =
     (let (l1, c1) = decode c xs; (l2, c2) = decode c1 ys in (l1 @ l2, c2))"
  by (induction c xs rule: decode.induct) (auto simp: Let_def case_prod_unfold split: SubmissionMode.splits)

text \<open>The command the state of the processor is in the middle of.\<close>

definition pending :: "DmaState \<Rightarrow> Command option" where
  "pending P =
     (if dma_method_count P = 0 then None
      else Some (dma_subchannel P, dma_method P, unat (dma_method_count P),
             if non_incrementing P then Fixed else if dma_increment_once P then First else Every))"

text \<open>The writes an event stands for.\<close>

fun numbered :: "u32 \<Rightarrow> u32 \<Rightarrow> u32 list \<Rightarrow> Write list" where
  "numbered s m [] = []"
| "numbered s m (w # ws) = (s, m, w) # numbered s (m + 1) ws"

fun writes :: "Event \<Rightarrow> Write list" where
  "writes (Puller_Write m a s n) = [(s, m, a)]"
| "writes (Puller_Multi m s as n) = map (\<lambda>a. (s, m, a)) as"
| "writes (Engine_Call s m a last_call address) = [(s, m, a)]"
| "writes (Engine_Multi s m as n address) = map (\<lambda>a. (s, m, a)) as"
| "writes (Engine_Push s m a) = [(s, m, a)]"
| "writes (Engine_Run s m as) = numbered s m as"
| "writes (Engine_Sink s m a) = [(s, m, a)]"

section \<open>One turn\<close>

lemma decode_fixed:
  "length ws \<le> n \<Longrightarrow> 0 < n \<Longrightarrow> decode (Some (s, m, n, Fixed)) ws =
     (map (\<lambda>w. (s, m, w)) ws, if length ws = n then None else Some (s, m, n - length ws, Fixed))"
proof (induction ws arbitrary: n)
  case (Cons w ws)
  show ?case
  proof (cases "n \<le> 1")
    case True
    then have "ws = []" "n = 1" using Cons.prems by (cases ws; simp)+
    then show ?thesis by simp
  next
    case False
    then show ?thesis using Cons.IH [of "n - 1"] Cons.prems by auto
  qed
qed simp

lemma decode_every:
  "length ws \<le> n \<Longrightarrow> 0 < n \<Longrightarrow> decode (Some (s, m, n, Every)) ws =
     (numbered s m ws,
      if length ws = n then None else Some (s, m + of_nat (length ws), n - length ws, Every))"
proof (induction ws arbitrary: n m)
  case (Cons w ws)
  show ?case
  proof (cases "n \<le> 1")
    case True
    then have "ws = []" "n = 1" using Cons.prems by (cases ws; simp)+
    then show ?thesis by simp
  next
    case False
    then show ?thesis using Cons.IH [of "n - 1" "m + 1"] Cons.prems by (auto simp: add.assoc)
  qed
qed simp

lemma count_minus:
  fixes c :: u32
  assumes "k \<le> unat c"
  shows "unat (c - of_nat k) = unat c - k" and "c - of_nat k = 0 \<longleftrightarrow> k = unat c"
proof -
  have k: "unat (of_nat k :: u32) = k"
    using assms unat_u32_less [of c] by (subst unat_of_nat) (simp add: take_bit_nat_eq_self_iff)
  show a: "unat (c - of_nat k) = unat c - k"
    using assms k by (subst unat_sub_le) simp_all
  show "c - of_nat k = 0 \<longleftrightarrow> k = unat c"
    using a assms by (metis diff_diff_cancel diff_is_0_eq diff_zero le_refl unat_0 unat_eq_0)
qed

lemma extend_run_le: "extend_run ex m n \<le> n"
  by (induction ex m n rule: extend_run.induct) auto

lemma pending_written:
  assumes "dma_method_count P \<noteq> 0" and "\<not> non_incrementing P"
  shows "decode (pending P) [w] = ([(dma_subchannel P, dma_method P, w)], pending (written_word P))"
proof -
  have pos: "1 \<le> unat (dma_method_count P)" using assms(1) by (simp add: unat_gt_0 Suc_leI)
  note c = count_minus [OF pos]
  show ?thesis
    using assms pos c by (auto simp: pending_def written_word_def)
qed

lemma pusher_CallMethod_writes:
  "pusher_CallMethod C g P a = Returns evs \<Longrightarrow>
   concat (map writes evs) = [(dma_subchannel P, dma_method P, a)]"
  by (auto simp: pusher_CallMethod_def split: if_splits option.splits)

lemma pusher_CallMultiMethod_writes:
  "pusher_CallMultiMethod C g P as = Returns evs \<Longrightarrow>
   concat (map writes evs) = map (\<lambda>a. (dma_subchannel P, dma_method P, a)) as"
  by (auto simp: pusher_CallMultiMethod_def split: if_splits option.splits)

lemma pending_offset [simp]:
  "pending (P\<lparr>dma_word_offset := x\<rparr>) = pending P"
  "pending (P\<lparr>dma_is_last_call := b\<rparr>) = pending P"
  "pending (P\<lparr>dma_get := a\<rparr>) = pending P"
  by (simp_all add: pending_def)

text \<open>What a turn consumed, and that it did what the format says.\<close>

definition turn_decodes ::
    "u32 list \<Rightarrow> DmaState \<Rightarrow> nat \<Rightarrow> Event list \<Rightarrow> DmaState \<Rightarrow> nat \<Rightarrow> bool" where
  "turn_decodes commands P i evs P' i' \<longleftrightarrow>
     i \<le> i' \<and> i' \<le> length commands \<and>
     decode (pending P) (take (i' - i) (drop i commands)) = (concat (map writes evs), pending P')"

lemma turn_one:
  assumes "i < length commands"
    and "decode (pending P) [commands ! i] = (concat (map writes evs), pending P')"
  shows "turn_decodes commands P i evs P' (i + 1)"
  using assms by (simp add: turn_decodes_def take_Suc_conv_app_nth)

lemma turn_compose:
  assumes "turn_decodes commands P i evs P1 i1" and "turn_decodes commands P1 i1 evs1 P2 i2"
  shows "turn_decodes commands P i (evs @ evs1) P2 i2"
proof -
  obtain b c where i1: "i1 = i + b" and i2: "i2 = i + b + c"
    using assms by (auto simp: turn_decodes_def dest!: le_Suc_ex)
  have "take (b + c) (drop i commands) = take b (drop i commands) @ take c (drop (i + b) commands)"
    by (simp add: take_add add.commute)
  then show ?thesis
    using assms by (simp add: turn_decodes_def decode_append i1 i2)
qed

lemma turn_none: "i \<le> length commands \<Longrightarrow> turn_decodes commands P i [] P i"
  by (simp add: turn_decodes_def)

lemma turn_written:
  assumes "i < length commands" and "dma_method_count P \<noteq> 0" and "\<not> non_incrementing P"
    and "concat (map writes evs) = [(dma_subchannel P, dma_method P, commands ! i)]"
  shows "turn_decodes commands P i evs (written_word P) (i + 1)"
  by (rule turn_one [OF assms(1)]) (simp add: pending_written [OF assms(2,3)] assms(4))

lemma turn_pending: "pending P = pending Q \<Longrightarrow> turn_decodes commands P i evs P' i' = turn_decodes commands Q i evs P' i'"
  by (simp add: turn_decodes_def)

lemma deferred_loop_turn:
  "deferred_loop C g m commands P i = Returns (evs, P', i') \<Longrightarrow> i \<le> length commands \<Longrightarrow>
   \<not> non_incrementing P \<Longrightarrow> turn_decodes commands P i evs P' i'"
proof (induction C g m commands P i arbitrary: evs rule: deferred_loop.induct)
  case (1 C g m commands P i)
  let ?P1 = "P\<lparr>dma_is_last_call := (dma_method_count P \<le> 1)\<rparr>"
  let ?P2 = "?P1\<lparr>dma_word_offset := ucast (of_nat (i * 4) :: u32)\<rparr>"
  have same: "turn_decodes commands P i = turn_decodes commands ?P1 i"
    "turn_decodes commands P i = turn_decodes commands ?P2 i"
    by (intro ext turn_pending; simp)+
  show ?case
  proof (cases "i < length commands \<and> dma_method_count P \<noteq> 0")
    case False
    then show ?thesis
      using "1.prems" by (subst (asm) deferred_loop.simps) (auto intro: turn_none)
  next
    case True
    then have i: "i < length commands" and n: "dma_method_count P \<noteq> 0" by simp_all
    show ?thesis
    proof (cases "m (dma_method P)")
      case True
      then obtain events where "pusher_CallMethod C g ?P2 (commands ! i) = Returns events"
        and "evs = events" "P' = written_word ?P2" "i' = i + 1"
        using "1.prems" i n by (subst (asm) deferred_loop.simps) (auto simp: Let_def bind_run_iffs)
      then show ?thesis
        using turn_written [OF i, of ?P2 events] n "1.prems"(3)
        by (simp add: same(2) pusher_CallMethod_writes)
    next
      case m: False
      let ?e = "Engine_Sink (dma_subchannel P) (dma_method P) (commands ! i)"
      have step: "turn_decodes commands P i [?e] (written_word ?P1) (i + 1)"
        using turn_written [OF i, of ?P1 "[?e]"] n "1.prems"(3) by (simp add: same(1))
      show ?thesis
      proof (cases "dma_increment_once P")
        case True
        then show ?thesis
          using "1.prems" i n m step
          by (subst (asm) deferred_loop.simps) (auto simp: Let_def)
      next
        case once: False
        obtain es where rest: "deferred_loop C g m commands (written_word ?P1) (i + 1) = Returns (es, P', i')"
          and evs: "evs = [?e] @ es"
          using "1.prems" i n m once
          by (subst (asm) deferred_loop.simps) (auto simp: Let_def bind_run_iffs)
        have "turn_decodes commands (written_word ?P1) (i + 1) es P' i'"
          using "1.IH" [OF _ refl m once rest] i n once "1.prems"(3) by (simp add: written_word_def)
        from turn_compose [OF step this] show ?thesis by (simp only: evs)
      qed
    qed
  qed
qed

lemma command_step_turn:
  assumes step: "command_step C g commands P i = Returns (evs, P', i')" and i: "i < length commands"
  shows "turn_decodes commands P i evs P' i'"
proof (cases "dma_method_count P = 0")
  case True
  have idle: "pending P = None" using True by (simp add: pending_def)
  have start: "pending ((SetState P w)\<lparr>non_incrementing := b, dma_increment_once := c\<rparr>)
      = start_command w (if b then Fixed else if c then First else Every)" for w b c
    by (simp add: pending_def SetState_def start_command_def)
  show ?thesis
  proof (cases "ch_mode (commands ! i) = Inline")
    case inline: True
    let ?w = "commands ! i"
    let ?P1 = "P\<lparr>dma_method := ch_method ?w, dma_subchannel := ch_subchannel ?w,
      dma_word_offset := - dma_get P, dma_is_last_call := True\<rparr>"
    have "pusher_CallMethod C g ?P1 (ch_arg_count ?w) = Returns evs"
      and "P' = ?P1\<lparr>non_incrementing := True, dma_increment_once := False\<rparr>" "i' = i + 1"
      using step True inline by (auto simp: command_step_def Let_def bind_run_iffs)
    then show ?thesis
      using turn_one [OF i, of P evs P'] True inline pusher_CallMethod_writes [of C g ?P1]
      by (simp add: idle pending_def)
  next
    case False
    have "evs = []" "i' = i + 1"
      and "pending P' = snd (decode None [commands ! i])" "fst (decode None [commands ! i]) = []"
      using step True False idle
      by (auto simp: command_step_def Let_def start split: SubmissionMode.splits)
    then show ?thesis
      using turn_one [OF i, of P evs P'] by (simp add: idle prod_eq_iff)
  qed
next
  case busy: False
  define P1 where "P1 = P\<lparr>dma_word_offset := ucast (of_nat (i * 4) :: u32)\<rparr>"
  have same: "turn_decodes commands P i = turn_decodes commands P1 i"
    by (intro ext turn_pending) (simp add: P1_def)
  have n: "dma_method_count P1 \<noteq> 0" and pos: "0 < unat (dma_method_count P1)"
    using busy by (simp_all add: P1_def unat_gt_0)
  consider (ni) "non_incrementing P1"
    | (run) m where "\<not> non_incrementing P1" "dma_method P1 \<ge> non_puller_methods"
        "bound_engine C g (dma_subchannel P1) = Some (True, m)" "\<not> m (dma_method P1)"
    | (loop) maxwell m where "\<not> non_incrementing P1" "dma_method P1 \<ge> non_puller_methods"
        "bound_engine C g (dma_subchannel P1) = Some (maxwell, m)" "\<not> (maxwell \<and> \<not> m (dma_method P1))"
    | (puller) "\<not> non_incrementing P1" "\<not> dma_method P1 \<ge> non_puller_methods"
    | (unbound) "\<not> non_incrementing P1" "dma_method P1 \<ge> non_puller_methods"
        "bound_engine C g (dma_subchannel P1) = None"
    by (cases "bound_engine C g (dma_subchannel P1)") auto
  then show ?thesis
  proof cases
    case ni
    define k where "k = min (i + unat (dma_method_count P1)) (length commands) - i"
    have k: "k \<le> unat (dma_method_count P1)" "i + k \<le> length commands"
      using i by (auto simp: k_def)
    have "pusher_CallMultiMethod C g P1 (take k (drop i commands)) = Returns evs"
      and P': "P' = P1\<lparr>dma_method_count := dma_method_count P1 - of_nat k, dma_is_last_call := True\<rparr>"
      and i': "i' = i + k"
      using step busy ni unfolding command_step_def Let_def P1_def [symmetric] k_def
      by (auto simp: bind_run_iffs)
    from pusher_CallMultiMethod_writes [OF this(1)] show ?thesis
      using ni k n pos count_minus [OF k(1)]
      by (simp add: same turn_decodes_def i' P' pending_def decode_fixed)
  next
    case (run m)
    define available where "available = (if dma_increment_once P1 then 1
      else min (unat (dma_method_count P1)) (length commands - i))"
    define k where "k = 1 + extend_run m (dma_method P1 + 1) (available - 1)"
    have av: "1 \<le> available" "available \<le> unat (dma_method_count P1)"
        "available \<le> length commands - i" "dma_increment_once P1 \<Longrightarrow> available = 1"
      using i pos by (auto simp: available_def)
    have "k \<le> available"
      using extend_run_le [of m "dma_method P1 + 1" "available - 1"] av(1) unfolding k_def by linarith
    then have k: "k \<le> unat (dma_method_count P1)" "i + k \<le> length commands" "0 < k"
      and once: "dma_increment_once P1 \<longrightarrow> k = 1"
      using i av by (auto simp: k_def)
    have evs: "evs = [Engine_Run (dma_subchannel P1) (dma_method P1) (take k (drop i commands))]"
      and P': "P' = P1\<lparr>dma_method := dma_method P1 + of_nat k,
          dma_is_last_call := (dma_method_count P1 \<le> of_nat k),
          dma_method_count := dma_method_count P1 - of_nat k,
          non_incrementing := (non_incrementing P1 \<or> dma_increment_once P1)\<rparr>"
      and i': "i' = i + k"
      using step busy run unfolding command_step_def Let_def P1_def [symmetric] k_def available_def
      by auto
    show ?thesis
    proof (cases "dma_increment_once P1")
      case True
      then have "k = 1" using once by simp
      then show ?thesis
        using run pos count_minus [OF k(1)] True i
        by (simp add: same turn_decodes_def i' P' evs pending_def n take_Suc_conv_app_nth)
    next
      case False
      then show ?thesis
        using run k n pos count_minus [OF k(1)]
        by (simp add: same turn_decodes_def i' P' evs pending_def decode_every)
    qed
  next
    case (loop maxwell m)
    then have "deferred_loop C g m commands P1 i = Returns (evs, P', i')"
      using step busy unfolding command_step_def Let_def P1_def [symmetric] by auto
    from deferred_loop_turn [OF this] i loop show ?thesis by (simp add: same)
  next
    case puller
    define P2 where "P2 = P1\<lparr>dma_is_last_call := (dma_method_count P1 \<le> 1)\<rparr>"
    have "pusher_CallMethod C g P2 (commands ! i) = Returns evs"
      and P': "P' = written_word P2" and i': "i' = i + 1"
      using step busy puller unfolding command_step_def Let_def P1_def [symmetric] P2_def [symmetric]
      by (auto simp: bind_run_iffs written_word_def P2_def)
    from turn_written [OF i, of P2 evs] pusher_CallMethod_writes [OF this(1)] puller n show ?thesis
      by (simp add: same P' i' P2_def turn_pending [of P1 P2])
  next
    case unbound
    then show ?thesis
      using step busy unfolding command_step_def Let_def P1_def [symmetric] by auto
  qed
qed

section \<open>Buffers\<close>

text \<open>A channel that also records the events.\<close>

definition traced :: "'g Channel \<Rightarrow> ('g \<times> Event list) Channel" where
  "traced C =
     \<lparr>bound_engine = \<lambda>(g, log) s. bound_engine C g s,
      perform = \<lambda>(g, log) e. bind_run (perform C g e) (\<lambda>g1. Returns (g1, log @ [e]))\<rparr>"

text \<open>Buffers one after the other, each at its address, as the pushbuffer entries are processed.\<close>

fun process_buffers ::
    "'g Channel \<Rightarrow> (u64 \<times> u32 list) list \<Rightarrow> DmaState \<Rightarrow> 'g \<Rightarrow> (DmaState \<times> 'g) Run" where
  "process_buffers C [] P g = Returns (P, g)"
| "process_buffers C ((address, commands) # buffers) P g =
     bind_run (ProcessCommands C commands (P\<lparr>dma_get := address\<rparr>) g)
       (\<lambda>(P1, g1). process_buffers C buffers P1 g1)"

lemma perform_traced:
  "perform (traced C) (g, log) e = bind_run (perform C g e) (\<lambda>g1. Returns (g1, log @ [e]))"
  by (simp add: traced_def)

lemma perform_all_traced:
  "perform_all (traced C) (g, log) es = Returns (g', log') \<Longrightarrow> log' = log @ es"
  by (induction es arbitrary: g log) (fastforce simp: perform_traced bind_run_iffs)+

lemma process_from_decodes:
  "process_from (traced C) commands i P gl = Returns (P', gl') \<Longrightarrow> i \<le> length commands \<Longrightarrow>
   \<exists>es. snd gl' = snd gl @ es \<and>
     (concat (map writes es), pending P') = decode (pending P) (drop i commands)"
proof (induction "length commands - i" arbitrary: i P gl rule: less_induct)
  case less
  show ?case
  proof (cases "i < length commands")
    case False
    then show ?thesis
      using less.prems by (subst (asm) process_from.simps) (simp add: less_le_not_le)
  next
    case True
    obtain evs P1 i1 gl1 where step: "command_step (traced C) gl commands P i = Returns (evs, P1, i1)"
      and perf: "perform_all (traced C) gl evs = Returns gl1"
      and rest: "process_from (traced C) commands i1 P1 gl1 = Returns (P', gl')"
      using less.prems(1) True by (subst (asm) process_from.simps) (auto simp: bind_run_iffs)
    have turn: "turn_decodes commands P i evs P1 i1" by (rule command_step_turn [OF step True])
    have i1: "i < i1" "i1 \<le> length commands"
      using command_step_index [OF step True] turn by (simp_all add: turn_decodes_def)
    have "length commands - i1 < length commands - i" using i1(1) True by simp
    from less.hyps [OF this rest i1(2)]
    obtain es where es: "snd gl' = snd gl1 @ es"
      "(concat (map writes es), pending P') = decode (pending P1) (drop i1 commands)" by auto
    have "snd gl1 = snd gl @ evs"
      using perform_all_traced [of C "fst gl" "snd gl" evs "fst gl1" "snd gl1"] perf by simp
    moreover have split: "drop i commands = take (i1 - i) (drop i commands) @ drop i1 commands"
      using i1 by (metis append_take_drop_id drop_drop le_add_diff_inverse2 less_imp_le)
    have "decode (pending P) (take (i1 - i) (drop i commands)) = (concat (map writes evs), pending P1)"
      using turn by (simp add: turn_decodes_def)
    then have "decode (pending P) (drop i commands) = (concat (map writes (evs @ es)), pending P')"
      using es(2) [symmetric] by (subst split) (simp add: decode_append)
    ultimately show ?thesis using es(1) by (intro exI [of _ "evs @ es"]) simp
  qed
qed

lemma process_buffers_decodes:
  "process_buffers (traced C) buffers P gl = Returns (P', gl') \<Longrightarrow>
   \<exists>es. snd gl' = snd gl @ es \<and>
     (concat (map writes es), pending P') = decode (pending P) (concat (map snd buffers))"
proof (induction buffers arbitrary: P gl)
  case (Cons b buffers)
  obtain a ws where b: "b = (a, ws)" by (cases b)
  obtain P1 gl1 where first: "process_from (traced C) ws 0 (P\<lparr>dma_get := a\<rparr>) gl = Returns (P1, gl1)"
    and rest: "process_buffers (traced C) buffers P1 gl1 = Returns (P', gl')"
    using Cons.prems by (auto simp: b ProcessCommands_def bind_run_iffs)
  obtain es1 where es1: "snd gl1 = snd gl @ es1"
    "(concat (map writes es1), pending P1) = decode (pending P) ws"
    using process_from_decodes [OF first] by auto
  obtain es2 where es2: "snd gl' = snd gl1 @ es2"
    "(concat (map writes es2), pending P') = decode (pending P1) (concat (map snd buffers))"
    using Cons.IH [OF rest] by auto
  have "decode (pending P) (concat (map snd (b # buffers))) = (concat (map writes (es1 @ es2)), pending P')"
    using es1(2) [symmetric] es2(2) [symmetric] by (simp add: b decode_append)
  then show ?case using es1(1) es2(1) by (intro exI [of _ "es1 @ es2"]) simp
qed (auto intro: exI [of _ "[]"])

section \<open>Properties\<close>

text \<open>
  C32: The command processor implements the pushbuffer format.  Over any sequence of buffers, cut
  anywhere, the writes it performs on the puller and the engines, one by one, in batches or deferred, are
  in order the writes the reference decoder gives for the concatenated words, and the command it is in
  the middle of at the end is the one the format says; which methods are executable does not matter.
\<close>

theorem pusher_decodes_stream:
  assumes "process_buffers (traced C) buffers P (g, log) = Returns (P', (g', log'))"
  shows "\<exists>events. log' = log @ events \<and>
           (concat (map writes events), pending P') = decode (pending P) (concat (map snd buffers))"
  using process_buffers_decodes [OF assms] by simp

text \<open>
  An increasing command over two buffers with a deferred run and an executable method, then an
  increase-once command and an inline one.
\<close>

definition example_channel :: "unit Channel" where
  "example_channel =
     \<lparr>bound_engine = \<lambda>g s. Some (True, \<lambda>m. m \<ge> 0x102), perform = \<lambda>g e. Returns g\<rparr>"

definition idle_DmaState :: DmaState where
  "idle_DmaState =
     \<lparr>dma_method = 0, dma_subchannel = 0, dma_method_count = 0, dma_get = 0, dma_word_offset = 0,
      non_incrementing = False, dma_is_last_call = False, dma_increment_once = False\<rparr>"

definition example_buffers :: "(u64 \<times> u32 list) list" where
  "example_buffers =
     [(0x1000, [0x20030100, 11, 12]), (0x2000, [13, 0xA0030100, 21, 22, 23, 0x80050104])]"

lemma example_buffers_run:
  "(case process_buffers (traced example_channel) example_buffers idle_DmaState ((), []) of
      Returns (P, (g, log)) \<Rightarrow> Some log | _ \<Rightarrow> None) =
   Some [Engine_Run 0 0x100 [11, 12], Engine_Call 0 0x102 13 True 0x2000, Engine_Run 0 0x100 [21],
         Engine_Multi 0 0x101 [22, 23] 2 0x200C, Engine_Call 0 0x104 5 True 0]"
  by code_simp

theorem pusher_decodes_stream_witness:
  "concat (map writes
      [Engine_Run 0 0x100 [11, 12], Engine_Call 0 0x102 13 True 0x2000, Engine_Run 0 0x100 [21],
       Engine_Multi 0 0x101 [22, 23] 2 0x200C, Engine_Call 0 0x104 5 True 0])
   = fst (decode None (concat (map snd example_buffers)))"
proof -
  obtain P g log where run:
      "process_buffers (traced example_channel) example_buffers idle_DmaState ((), []) = Returns (P, (g, log))"
    and log: "log = [Engine_Run 0 0x100 [11, 12], Engine_Call 0 0x102 13 True 0x2000,
      Engine_Run 0 0x100 [21], Engine_Multi 0 0x101 [22, 23] 2 0x200C, Engine_Call 0 0x104 5 True 0]"
    using example_buffers_run by (auto split: Run.splits prod.splits)
  obtain es where es: "log = [] @ es"
    "(concat (map writes es), pending P) = decode (pending idle_DmaState) (concat (map snd example_buffers))"
    using pusher_decodes_stream [OF run] by blast
  have "pending idle_DmaState = None" by (simp add: pending_def idle_DmaState_def)
  with es have "concat (map writes log) = fst (decode None (concat (map snd example_buffers)))"
    by (metis append_Nil fst_conv)
  then show ?thesis by (simp only: log)
qed

end
