(* ===== verification/Gpu_Front_End.thy ===== *)
theory Gpu_Front_End
  imports Dma_Pusher Macro_Engine
begin

text \<open>
  The channel behind the command processor: the puller
  (\<^verbatim>\<open>yuzu_video_core/engines/puller.cpp\<close>), the eight subchannels, the 3D engine of
  \<open>Macro_Engine\<close> and the register files of the four other engines
  (\<^verbatim>\<open>fermi_2d.cpp\<close>, \<^verbatim>\<open>kepler_compute.cpp\<close>, \<^verbatim>\<open>kepler_memory.cpp\<close>,
  \<^verbatim>\<open>maxwell_dma.cpp\<close>).  It instantiates \<open>Channel\<close>.  What those engines do when an executable
  register is written, the rasterizer and the syncpoints are the parameter \<open>Host\<close>.
\<close>

section \<open>Engines\<close>

datatype EngineTypes = KeplerCompute | Maxwell3DEngine | Fermi2D | MaxwellDMA | KeplerMemory

text \<open>\<^verbatim>\<open>EngineID\<close>: the classes a guest binds.\<close>

definition engine_of_class :: "u32 \<Rightarrow> EngineTypes option" where
  "engine_of_class engine_id =
     (if engine_id = 0x902D then Some Fermi2D
      else if engine_id = 0xB197 then Some Maxwell3DEngine
      else if engine_id = 0xB1C0 then Some KeplerCompute
      else if engine_id = 0xB0B5 then Some MaxwellDMA
      else if engine_id = 0xA140 then Some KeplerMemory
      else None)"

text \<open>\<^verbatim>\<open>Maxwell3D::IsMethodExecutable\<close>, by word index.\<close>

definition IsMethodExecutable :: "u32 \<Rightarrow> bool" where
  "IsMethodExecutable method \<longleftrightarrow>
     method \<ge> MacroRegistersStart \<or>
     method \<in> {0x585, 0x586, 0x35D, 0x35E, 0x5F7, 0x5F8, 0x57A, 0x5FC, 0x5FD, 0x5FE, 0x5F9, 0x5FA, 0x5FB,
       0x57C, 0x4C1, 0x485, 0x486, 0x42B, 0x44,
       reg_shadow_ram_control, reg_load_mme_instruction_ptr, reg_load_mme_instruction,
       reg_load_mme_start_address, reg_falcon_4} \<or>
     is_const_buffer_data method \<or>
     method \<in> {0x904, 0x90C, 0x914, 0x91C, 0x924, 0x65C, 0x674, 0x6C3, 0x651, 0x554, 0x555, 0x556, 0x54C,
       0xB2, 0x6C, reg_inline_data, 0x378, 0x3DD, 0x3DF}"

text \<open>The registers of the other engines: how many, and which are executable.\<close>

definition engine_NUM_REGS :: "EngineTypes \<Rightarrow> u32" where
  "engine_NUM_REGS t =
     (case t of Fermi2D \<Rightarrow> 0x258 | KeplerCompute \<Rightarrow> 0xCF8 | KeplerMemory \<Rightarrow> 0x7F | MaxwellDMA \<Rightarrow> 0x800
      | Maxwell3DEngine \<Rightarrow> MacroRegistersStart)"

definition engine_execution_mask :: "EngineTypes \<Rightarrow> u32 \<Rightarrow> bool" where
  "engine_execution_mask t method =
     (case t of
        Fermi2D \<Rightarrow> method = 0x237
      | KeplerCompute \<Rightarrow> method \<in> {0x6C, 0x6D, 0xAF}
      | KeplerMemory \<Rightarrow> method \<in> {0x6C, 0x6D}
      | MaxwellDMA \<Rightarrow> method = 0xC0
      | Maxwell3DEngine \<Rightarrow> IsMethodExecutable method)"

text \<open>Register file and queue of an engine other than the 3D one.\<close>

record EngineState =
  engine_regs :: "u32 \<Rightarrow> u32"
  engine_sink :: "(u32 \<times> u32) list"
  engine_current_dirty :: bool
  engine_dma_segment :: u64

record 'd Gpu =
  maxwell_3d :: "'d Maxwell3D"
  others :: "EngineTypes \<Rightarrow> EngineState"
  subchannels :: "EngineTypes option list"
  bound_engines :: "u32 list"
  puller_regs :: "u32 \<Rightarrow> u32"
  acquire_mode :: bool
  acquire_source :: bool
  acquire_active :: bool
  acquire_value :: u32

text \<open>
  The rasterizer, the syncpoints and the executable registers of the other engines.
  \<open>puller_query\<close> writes a semaphore: its address, whether it is a fence, the payload.
\<close>

record 'd Host =
  outside :: "'d Outside"
  engine_effect :: "EngineTypes \<Rightarrow> 'd \<Rightarrow> EngineState \<Rightarrow> u32 \<Rightarrow> u32 list \<Rightarrow> bool \<Rightarrow> 'd"
  puller_query :: "'d \<Rightarrow> u64 \<Rightarrow> bool \<Rightarrow> u32 \<Rightarrow> 'd"
  release_fences :: "'d \<Rightarrow> 'd"
  signal_syncpoint :: "'d \<Rightarrow> u32 \<Rightarrow> 'd"
  syncpoint_ready :: "'d \<Rightarrow> u32 \<Rightarrow> u32 \<Rightarrow> bool"
  puller_effect :: "'d \<Rightarrow> u32 \<Rightarrow> 'd"

definition on_device :: "('d \<Rightarrow> 'd) \<Rightarrow> 'd Gpu \<Rightarrow> 'd Gpu" where
  "on_device f G = G\<lparr>maxwell_3d := (maxwell_3d G)\<lparr>device := f (device (maxwell_3d G))\<rparr>\<rparr>"

text \<open>
  \<^verbatim>\<open>regs.reg_array[method] = method_argument\<close>; the assertion on the method is not fatal, so a
  method past the array is a write past it.
\<close>

definition write_engine_reg :: "EngineTypes \<Rightarrow> EngineState \<Rightarrow> u32 \<Rightarrow> u32 \<Rightarrow> EngineState Run" where
  "write_engine_reg t s method argument =
     (if method < engine_NUM_REGS t
      then Returns (s\<lparr>engine_regs := (engine_regs s)(method := argument)\<rparr>)
      else Undefined Engine_Register_Write)"

definition engine_CallMethod ::
    "'d Host \<Rightarrow> EngineTypes \<Rightarrow> 'd Gpu \<Rightarrow> u32 \<Rightarrow> u32 \<Rightarrow> bool \<Rightarrow> 'd Gpu Run" where
  "engine_CallMethod H t G method argument is_last_call =
     bind_run (write_engine_reg t (others G t) method argument) (\<lambda>s.
       let s1 = (if t = KeplerCompute \<and> method = 0x6D then s\<lparr>engine_current_dirty := False\<rparr> else s);
           G1 = G\<lparr>others := (others G)(t := s1)\<rparr>
       in Returns (if engine_execution_mask t method
                   then on_device (\<lambda>d. engine_effect H t d s method [argument] is_last_call) G1
                   else G1))"

fun engine_each ::
    "'d Host \<Rightarrow> EngineTypes \<Rightarrow> 'd Gpu \<Rightarrow> u32 \<Rightarrow> u32 list \<Rightarrow> u32 \<Rightarrow> 'd Gpu Run" where
  "engine_each H t G method [] methods_pending = Returns G"
| "engine_each H t G method (v # vs) methods_pending =
     bind_run (engine_CallMethod H t G method v (methods_pending \<le> 1))
       (\<lambda>G1. engine_each H t G1 method vs (methods_pending - 1))"

text \<open>The upload registers of the two Kepler engines take many words at once.\<close>

definition engine_CallMultiMethod ::
    "'d Host \<Rightarrow> EngineTypes \<Rightarrow> 'd Gpu \<Rightarrow> u32 \<Rightarrow> u32 list \<Rightarrow> u32 \<Rightarrow> 'd Gpu Run" where
  "engine_CallMultiMethod H t G method arguments methods_pending =
     (if t \<in> {KeplerCompute, KeplerMemory} \<and> method = 0x6D
      then Returns (on_device (\<lambda>d. engine_effect H t d (others G t) method arguments True)
             (G\<lparr>others := (others G)(t := (if t = KeplerCompute
                then (others G t)\<lparr>engine_current_dirty := False\<rparr> else others G t))\<rparr>))
      else engine_each H t G method arguments methods_pending)"

fun engine_writes :: "EngineTypes \<Rightarrow> EngineState \<Rightarrow> (u32 \<times> u32) list \<Rightarrow> EngineState Run" where
  "engine_writes t s [] = Returns s"
| "engine_writes t s ((method, v) # ws) =
     bind_run (write_engine_reg t s method v) (\<lambda>s1. engine_writes t s1 ws)"

definition engine_ConsumeSink :: "EngineTypes \<Rightarrow> 'd Gpu \<Rightarrow> 'd Gpu Run" where
  "engine_ConsumeSink t G =
     (if engine_sink (others G t) = [] then Returns G
      else bind_run (engine_writes t (others G t) (engine_sink (others G t)))
             (\<lambda>s. Returns (G\<lparr>others := (others G)(t := s\<lparr>engine_sink := []\<rparr>)\<rparr>)))"

section \<open>The puller\<close>

definition ProcessBindMethod :: "'d Gpu \<Rightarrow> u32 \<Rightarrow> u32 \<Rightarrow> 'd Gpu" where
  "ProcessBindMethod G subchannel argument =
     G\<lparr>bound_engines := (bound_engines G)[unat subchannel := argument],
       subchannels := (case engine_of_class argument of
                         None \<Rightarrow> subchannels G
                       | Some t \<Rightarrow> (subchannels G)[unat subchannel := Some t])\<rparr>"

definition SemaphoreAddress :: "'d Gpu \<Rightarrow> u64" where
  "SemaphoreAddress G = push_bit 32 (ucast (puller_regs G 0x4)) OR ucast (puller_regs G 0x5)"

definition ProcessFenceActionMethod :: "'d Host \<Rightarrow> 'd Gpu \<Rightarrow> 'd Gpu" where
  "ProcessFenceActionMethod H G =
     (let fence_action = puller_regs G 0x1D; syncpoint_id = drop_bit 8 fence_action
      in if \<not> bit fence_action 0
         then if syncpoint_ready H (device (maxwell_3d G)) syncpoint_id (puller_regs G 0x1C) then G
              else on_device (release_fences H) G
         else on_device (\<lambda>d. signal_syncpoint H d syncpoint_id) G)"

text \<open>
  The loop is \<^verbatim>\<open>do ... while (false)\<close>: its \<^verbatim>\<open>continue\<close> goes to the condition and so leaves the
  loop.
\<close>

definition ProcessSemaphoreTriggerMethod :: "'d Host \<Rightarrow> 'd Gpu \<Rightarrow> 'd Gpu" where
  "ProcessSemaphoreTriggerMethod H G =
     (let op = puller_regs G 0x7 AND 0xF; sequence = puller_regs G 0x6
      in if op = 0x2
         then on_device (\<lambda>d. puller_query H d (SemaphoreAddress G) False sequence) G
         else
           let word = read_word (outside H) (device (maxwell_3d G)) (SemaphoreAddress G);
               G1 = G\<lparr>acquire_source := True, acquire_value := sequence\<rparr>
           in if op = 0x1
              then let G2 = G1\<lparr>acquire_active := True, acquire_mode := False\<rparr>
                   in if word \<noteq> acquire_value G2 then on_device (release_fences H) G2 else G2
              else if op = 0x4
              then let G2 = G1\<lparr>acquire_active := True, acquire_mode := True\<rparr>
                   in if word < acquire_value G2 then on_device (release_fences H) G2 else G2
              else if op = 0x8
              then if word \<noteq> 0 \<and> sequence = 0 then on_device (release_fences H) G1 else G1
              else G1)"

definition ProcessSemaphoreRelease :: "'d Host \<Rightarrow> 'd Gpu \<Rightarrow> 'd Gpu" where
  "ProcessSemaphoreRelease H G =
     on_device (\<lambda>d. puller_query H d (SemaphoreAddress G) True (puller_regs G 0x1B)) G"

text \<open>The wait for the semaphore, which only ends when the word is the wanted one.\<close>

fun semaphore_acquire_loop :: "nat \<Rightarrow> 'd Host \<Rightarrow> 'd Gpu \<Rightarrow> u32 \<Rightarrow> 'd Gpu Run" where
  "semaphore_acquire_loop 0 H G v = Timeout"
| "semaphore_acquire_loop (Suc fuel) H G v =
     (if read_word (outside H) (device (maxwell_3d G)) (SemaphoreAddress G) = v then Returns G
      else semaphore_acquire_loop fuel H
             ((on_device (release_fences H) (G\<lparr>acquire_active := True, acquire_value := v\<rparr>))
                \<lparr>acquire_mode := False, acquire_source := False\<rparr>) v)"

definition ProcessSemaphoreAcquire :: "nat \<Rightarrow> 'd Host \<Rightarrow> 'd Gpu \<Rightarrow> 'd Gpu Run" where
  "ProcessSemaphoreAcquire fuel H G = semaphore_acquire_loop fuel H G (puller_regs G 0x1A)"

definition CallPullerMethod :: "nat \<Rightarrow> 'd Host \<Rightarrow> 'd Gpu \<Rightarrow> u32 \<Rightarrow> u32 \<Rightarrow> u32 \<Rightarrow> 'd Gpu Run" where
  "CallPullerMethod fuel H G method argument subchannel =
     (let G1 = G\<lparr>puller_regs := (puller_regs G)(method := argument)\<rparr>
      in if method = 0x0 then Returns (ProcessBindMethod G1 subchannel argument)
         else if method \<in> {0x14, 0x1E, 0xB} then Returns (on_device (\<lambda>d. puller_effect H d method) G1)
         else if method = 0x1D then Returns (ProcessFenceActionMethod H G1)
         else if method = 0x7 then Returns (ProcessSemaphoreTriggerMethod H G1)
         else if method = 0x1A then ProcessSemaphoreAcquire fuel H G1
         else if method = 0x1B then Returns (ProcessSemaphoreRelease H G1)
         else Returns G1)"

fun puller_each :: "nat \<Rightarrow> 'd Host \<Rightarrow> 'd Gpu \<Rightarrow> u32 \<Rightarrow> u32 list \<Rightarrow> u32 \<Rightarrow> 'd Gpu Run" where
  "puller_each fuel H G method [] subchannel = Returns G"
| "puller_each fuel H G method (v # vs) subchannel =
     bind_run (CallPullerMethod fuel H G method v subchannel)
       (\<lambda>G1. puller_each fuel H G1 method vs subchannel)"

section \<open>The channel\<close>

text \<open>The engine of a subchannel; its number has three bits.\<close>

definition subchannel_engine :: "'d Gpu \<Rightarrow> u32 \<Rightarrow> EngineTypes option" where
  "subchannel_engine G s =
     (if unat s < length (subchannels G) then subchannels G ! unat s else None)"

definition on_maxwell :: "('d Maxwell3D \<Rightarrow> 'd Maxwell3D Run) \<Rightarrow> 'd Gpu \<Rightarrow> 'd Gpu Run" where
  "on_maxwell f G = bind_run (f (maxwell_3d G)) (\<lambda>M. Returns (G\<lparr>maxwell_3d := M\<rparr>))"

definition append_sink :: "EngineTypes \<Rightarrow> 'd Gpu \<Rightarrow> (u32 \<times> u32) list \<Rightarrow> 'd Gpu" where
  "append_sink t G ws =
     (if t = Maxwell3DEngine
      then G\<lparr>maxwell_3d := (maxwell_3d G)\<lparr>method_sink := method_sink (maxwell_3d G) @ ws\<rparr>\<rparr>
      else G\<lparr>others := (others G)(t := (others G t)\<lparr>engine_sink := engine_sink (others G t) @ ws\<rparr>)\<rparr>)"

definition set_segment :: "EngineTypes \<Rightarrow> u64 \<Rightarrow> 'd Gpu \<Rightarrow> 'd Gpu" where
  "set_segment t address G =
     (if t = Maxwell3DEngine
      then G\<lparr>maxwell_3d := (maxwell_3d G)\<lparr>current_dma_segment := address\<rparr>\<rparr>
      else G\<lparr>others := (others G)(t := (others G t)\<lparr>engine_dma_segment := address\<rparr>)\<rparr>)"

definition ConsumeSink_of :: "EngineTypes \<Rightarrow> 'd Gpu \<Rightarrow> 'd Gpu Run" where
  "ConsumeSink_of t G = (if t = Maxwell3DEngine then on_maxwell ConsumeSink G else engine_ConsumeSink t G)"

text \<open>
  The effect of an event: \<^verbatim>\<open>DmaPusher::CallMethod\<close> and \<^verbatim>\<open>CallMultiMethod\<close> empty the queue of the
  engine and note the address before the call.
\<close>

definition perform_event :: "nat \<Rightarrow> nat \<Rightarrow> 'd Host \<Rightarrow> 'd Gpu \<Rightarrow> Event \<Rightarrow> 'd Gpu Run" where
  "perform_event depth fuel H G e =
     (let engine = (\<lambda>s f. case subchannel_engine G s of None \<Rightarrow> Undefined Null_Pointer | Some t \<Rightarrow> f t)
      in case e of
           Puller_Write method argument s count \<Rightarrow> CallPullerMethod fuel H G method argument s
         | Puller_Multi method s arguments pending \<Rightarrow> puller_each fuel H G method arguments s
         | Engine_Push s method argument \<Rightarrow>
             engine s (\<lambda>t. if t = Maxwell3DEngine then on_maxwell (\<lambda>M. PushMethod M method argument) G
                            else Returns (append_sink t G [(method, argument)]))
         | Engine_Run s method arguments \<Rightarrow>
             engine s (\<lambda>t. if t = Maxwell3DEngine then on_maxwell (\<lambda>M. PushMethodRun M method arguments) G
                            else Returns (append_sink t G (number_methods method arguments)))
         | Engine_Sink s method argument \<Rightarrow>
             engine s (\<lambda>t. Returns (append_sink t G [(method, argument)]))
         | Engine_Call s method argument is_last_call address \<Rightarrow>
             engine s (\<lambda>t. bind_run (ConsumeSink_of t G) (\<lambda>G1.
               let G2 = set_segment t address G1
               in if t = Maxwell3DEngine
                  then on_maxwell (\<lambda>M. CallMethod depth (outside H) fuel M method argument is_last_call) G2
                  else engine_CallMethod H t G2 method argument is_last_call))
         | Engine_Multi s method arguments pending address \<Rightarrow>
             engine s (\<lambda>t. bind_run (ConsumeSink_of t G) (\<lambda>G1.
               let G2 = set_segment t address G1
               in if t = Maxwell3DEngine
                  then on_maxwell (\<lambda>M. CallMultiMethod depth (outside H) fuel M method arguments pending) G2
                  else engine_CallMultiMethod H t G2 method arguments pending)))"

definition gpu_channel :: "nat \<Rightarrow> nat \<Rightarrow> 'd Host \<Rightarrow> 'd Gpu Channel" where
  "gpu_channel depth fuel H =
     \<lparr>bound_engine = \<lambda>G s. map_option (\<lambda>t. (t = Maxwell3DEngine, engine_execution_mask t))
        (subchannel_engine G s),
      perform = perform_event depth fuel H\<rparr>"

end
