(* ===== verification/Gpu_Props.thy ===== *)
theory Gpu_Props
  imports Gpu_Front_End Macro_Engine_Props Dma_Pusher_Props
begin

text \<open>
  Command processor, puller and 3D engine together: no command stream breaks the invariant of the
  3D engine or makes it write past its registers; what a stream can still do to the host is exhibited.
\<close>

section \<open>Deferred writes stay below the macros\<close>













section \<open>Performing events\<close>

definition stream_faults :: "'d Host \<Rightarrow> Fault set" where
  "stream_faults H = guest_faults (outside H) \<union> {Null_Pointer, Engine_Register_Write}"

abbreviation gpu_ok :: "'d Host \<Rightarrow> 'd Gpu \<Rightarrow> bool" where
  "gpu_ok H G \<equiv> front_ok (outside H) (maxwell_3d G)"

lemma gpu_ok_on_device [simp]: "gpu_ok H (on_device f G) = gpu_ok H G"
  using front_ok_same [of "outside H" "maxwell_3d G" "maxwell_3d (on_device f G)"]
    front_ok_same [of "outside H" "maxwell_3d (on_device f G)" "maxwell_3d G"]
  by (auto simp: on_device_def same_macros_def)



lemma stream_faults_simps [simp]: "Null_Pointer \<in> stream_faults H" "Engine_Register_Write \<in> stream_faults H"
  by (simp_all add: stream_faults_def)

lemma gpu_ok_set_segment [simp]: "gpu_ok H G \<Longrightarrow> gpu_ok H (set_segment t a G)"
  by (auto simp: set_segment_def intro: front_ok_same)


















section \<open>Properties\<close>

definition initial_Gpu :: "'d Maxwell3D \<Rightarrow> 'd Gpu" where
  "initial_Gpu M =
     \<lparr>maxwell_3d = M,
      others = (\<lambda>_. \<lparr>engine_regs = \<lambda>_. 0, engine_sink = [], engine_current_dirty = False, engine_dma_segment = 0\<rparr>),
      subchannels = replicate 8 None, bound_engines = replicate 8 0, puller_regs = (\<lambda>_. 0),
      acquire_mode = False, acquire_source = False, acquire_active = False, acquire_value = 0\<rparr>"

definition plain_host :: "unit Host" where
  "plain_host =
     \<lparr>outside = plain_outside False, engine_effect = \<lambda>t d s m vs l. d, puller_query = \<lambda>d a f v. d,
      release_fences = \<lambda>d. d, signal_syncpoint = \<lambda>d i. d, syncpoint_ready = \<lambda>d i v. True,
      puller_effect = \<lambda>d m. d\<rparr>"









lemma semaphore_acquire_loop_equal:
  "semaphore_acquire_loop n H G v = Returns G1 \<Longrightarrow>
   read_word (outside H) (device (maxwell_3d G1)) (SemaphoreAddress G1) = v"
  by (induction n arbitrary: G) (auto split: if_splits)

text \<open>
  C35: The two ways to wait for a semaphore differ.  \<^verbatim>\<open>SemaphoreAcquire\<close> returns only when the memory word
  is the wanted value; \<^verbatim>\<open>SemaphoreOperation\<close> with an acquire operation always returns after reading the
  word once and releasing the fences at most once, whatever the word is, because the
  \<^verbatim>\<open>continue\<close> of its loop leaves it.
\<close>

theorem semaphore_operation_does_not_wait:
  assumes "op AND 0xF \<noteq> 0x2"
  shows "(CallPullerMethod fuel H G 0x1A v s = Returns G1 \<longrightarrow>
            read_word (outside H) (device (maxwell_3d G1)) (SemaphoreAddress G1) = v)
     \<and> (\<exists>G2. CallPullerMethod fuel H G 0x7 op s = Returns G2 \<and>
            device (maxwell_3d G2) \<in> {device (maxwell_3d G), release_fences H (device (maxwell_3d G))})"
  using assms
  by (auto simp: CallPullerMethod_def ProcessSemaphoreAcquire_def ProcessSemaphoreTriggerMethod_def
      Let_def on_device_def dest: semaphore_acquire_loop_equal)

theorem semaphore_operation_does_not_wait_witness:
  "(\<exists>G2. CallPullerMethod 8 plain_host (initial_Gpu fresh_Maxwell3D) 0x7 1 0 = Returns G2)
   \<and> CallPullerMethod 8 plain_host (initial_Gpu fresh_Maxwell3D) 0x1A 5 0 = Timeout"
proof
  have "(1 :: u32) AND 0xF \<noteq> 0x2" by simp
  from semaphore_operation_does_not_wait [OF this, of 8 plain_host "initial_Gpu fresh_Maxwell3D" 5 0 _]
  show "\<exists>G2. CallPullerMethod 8 plain_host (initial_Gpu fresh_Maxwell3D) 0x7 1 0 = Returns G2" by blast
  have "semaphore_acquire_loop n plain_host G 5 = Timeout" for n G
    by (induction n arbitrary: G) (simp_all add: plain_host_def plain_outside_def)
  then show "CallPullerMethod 8 plain_host (initial_Gpu fresh_Maxwell3D) 0x1A 5 0 = Timeout"
    by (simp add: CallPullerMethod_def ProcessSemaphoreAcquire_def initial_Gpu_def)
qed

end
