(* ===== verification/Page_Bitmap.thy ===== *)
theory Page_Bitmap
  imports Prelude
begin

text \<open>
  The bitmap of free pages, \<^verbatim>\<open>nxemu-os/core/hle/kernel/k_page_bitmap.h\<close>, with its source of random
  bits and the generator \<^verbatim>\<open>yuzu_common/tiny_mt.h\<close> behind it.  The bitmap has up to four levels of 64-bit
  words; a bit of a level says whether the word of the next level is not zero.  The levels are listed
  from the finest (the highest depth index) to the coarsest.  A result \<open>None\<close> is undefined behaviour: an
  index past a level, a shift by the width of the type, or a division by zero.
\<close>

section \<open>TinyMT\<close>

definition ParamMat1 :: u32 where "ParamMat1 = 0x8F7011EE"
definition ParamMat2 :: u32 where "ParamMat2 = 0xFC78FF1F"
definition ParamTmat :: u32 where "ParamTmat = 0x3793FDFF"
definition ParamMult :: u32 where "ParamMult = 0x6C078965"

definition XorByShifted30 :: "u32 \<Rightarrow> u32" where
  "XorByShifted30 v = v XOR drop_bit 30 v"

definition GenerateRandomU32 :: "u32 list \<Rightarrow> u32 \<times> u32 list" where
  "GenerateRandomU32 s =
     (let x0 = (s ! 0 AND 0x7FFFFFFF) XOR s ! 1 XOR s ! 2;
          y0 = s ! 3;
          x1 = x0 XOR push_bit 1 x0;
          y1 = y0 XOR drop_bit 1 y0 XOR x1;
          state0 = s ! 1;
          state1 = (if y1 AND 1 \<noteq> 0 then s ! 2 XOR ParamMat1 else s ! 2);
          state2 = (if y1 AND 1 \<noteq> 0 then (x1 XOR push_bit 10 y1) XOR ParamMat2
                    else x1 XOR push_bit 10 y1);
          state3 = y1;
          t1 = state0 + drop_bit 8 state2;
          t0 = state3 XOR t1
      in (if t1 AND 1 \<noteq> 0 then t0 XOR ParamTmat else t0, [state0, state1, state2, state3]))"

text \<open>An all-zero state is replaced by the letters of the name, and eight outputs are dropped.\<close>

definition FinalizeInitialization :: "u32 list \<Rightarrow> u32 list" where
  "FinalizeInitialization s =
     (let s1 = (if s ! 0 AND 0x7FFFFFFF = 0 \<and> s ! 1 = 0 \<and> s ! 2 = 0 \<and> s ! 3 = 0
                then [0x54, 0x49, 0x4E, 0x59] else s)
      in ((snd \<circ> GenerateRandomU32) ^^ 8) s1)"

definition TinyMT_Initialize :: "u32 \<Rightarrow> u32 list" where
  "TinyMT_Initialize seed =
     FinalizeInitialization
       (fold (\<lambda>i s. s[i mod 4 := s ! (i mod 4) XOR
                (XorByShifted30 (s ! ((i - 1) mod 4)) * ParamMult + of_nat i)])
          [1..<8] [seed, ParamMat1, ParamMat2, ParamTmat])"

section \<open>Random bits\<close>

record RandomBitGenerator =
  tiny_mt :: "u32 list"
  m_entropy :: u32
  m_bits_available :: nat

definition RandomBitGenerator_init :: "u64 \<Rightarrow> RandomBitGenerator" where
  "RandomBitGenerator_init seed =
     \<lparr>tiny_mt = TinyMT_Initialize (ucast seed), m_entropy = 0, m_bits_available = 0\<rparr>"

definition RefreshEntropy :: "RandomBitGenerator \<Rightarrow> RandomBitGenerator" where
  "RefreshEntropy r =
     (let (x, s) = GenerateRandomU32 (tiny_mt r)
      in r\<lparr>tiny_mt := s, m_entropy := x, m_bits_available := 32\<rparr>)"

text \<open>The refill both functions below start with.\<close>

definition ensure_entropy :: "RandomBitGenerator \<Rightarrow> RandomBitGenerator" where
  "ensure_entropy r = (if m_bits_available r = 0 then RefreshEntropy r else r)"

definition GenerateRandomBit :: "RandomBitGenerator \<Rightarrow> bool \<times> RandomBitGenerator" where
  "GenerateRandomBit r =
     (let r1 = ensure_entropy r
      in (m_entropy r1 AND 1 \<noteq> 0,
          r1\<lparr>m_entropy := drop_bit 1 (m_entropy r1), m_bits_available := m_bits_available r1 - 1\<rparr>))"

lemma ensure_entropy_available: "0 < m_bits_available (ensure_entropy r)"
  by (simp add: ensure_entropy_def RefreshEntropy_def split: prod.splits)

text \<open>The entropy has 32 bits, so taking all of them at once shifts it by its width.\<close>

function GenerateRandomBits ::
    "nat \<Rightarrow> u64 \<Rightarrow> RandomBitGenerator \<Rightarrow> (u64 \<times> RandomBitGenerator) option" where
  "GenerateRandomBits num_bits result r =
     (if num_bits > 0
      then
        let r1 = ensure_entropy r;
            cur_bits = min num_bits (m_bits_available r1)
        in if cur_bits \<ge> 32 then None
           else GenerateRandomBits (num_bits - cur_bits)
                  (push_bit cur_bits result OR (ucast (m_entropy r1) AND (push_bit cur_bits 1 - 1)))
                  (r1\<lparr>m_entropy := drop_bit cur_bits (m_entropy r1),
                      m_bits_available := m_bits_available r1 - cur_bits\<rparr>)
      else Some (result, r))"
  by pat_completeness auto
termination
  by (relation "measure (\<lambda>(num_bits, result, r). num_bits)") (simp_all add: ensure_entropy_available)

declare GenerateRandomBits.simps [simp del]

definition GenerateRandom :: "u64 \<Rightarrow> RandomBitGenerator \<Rightarrow> (u64 \<times> RandomBitGenerator) option" where
  "GenerateRandom upper r =
     (let bits_needed = 1 + (64 - countl_zero upper)
      in case GenerateRandomBits bits_needed 0 r of
           None \<Rightarrow> None
         | Some (rnd, r1) \<Rightarrow> if upper = 0 then None else Some (rnd - (rnd div upper) * upper, r1))"

text \<open>Halving: the loop looks at 32, 16, \<open>\<dots>\<close>, 1 bits.\<close>

function select_loop ::
    "nat \<Rightarrow> u64 \<Rightarrow> nat \<Rightarrow> RandomBitGenerator \<Rightarrow> nat \<times> RandomBitGenerator" where
  "select_loop cur_num_bits bitmap selected r =
     (if cur_num_bits \<noteq> 0
      then
        let high = drop_bit cur_num_bits bitmap;
            low = bitmap AND NOT (push_bit cur_num_bits 0xFFFFFFFFFFFFFFFF);
            (take_high, r1) = (if high \<noteq> 0
                               then if low = 0 then (True, r) else GenerateRandomBit r
                               else (False, r))
        in if take_high then select_loop (cur_num_bits div 2) high (selected + cur_num_bits) r1
           else select_loop (cur_num_bits div 2) low selected r1
      else (selected, r))"
  by pat_completeness auto
termination by (relation "measure (\<lambda>(cur_num_bits, bitmap, selected, r). cur_num_bits)") auto

declare select_loop.simps [simp del]

definition SelectRandomBit :: "u64 \<Rightarrow> RandomBitGenerator \<Rightarrow> nat \<times> RandomBitGenerator" where
  "SelectRandomBit bitmap r = select_loop 32 bitmap 0 r"

section \<open>The bitmap\<close>

text \<open>\<open>m_used_depths\<close> is the number of levels.\<close>

record KPageBitmap =
  bit_storages :: "u64 list list"
  m_rng :: RandomBitGenerator
  m_num_bits :: u64

definition MaxDepth :: nat where "MaxDepth = 4"

function GetRequiredDepth :: "nat \<Rightarrow> nat" where
  "GetRequiredDepth region_size =
     (if region_size div 64 = 0 then 1 else 1 + GetRequiredDepth (region_size div 64))"
  by pat_completeness auto
termination by (relation "measure id") auto

declare GetRequiredDepth.simps [simp del]

text \<open>The words of a level.\<close>

definition level_words :: "u64 \<Rightarrow> u64" where
  "level_words n = AlignUp n 64 div 64"

text \<open>The levels are cut from the front of the storage, the finest first; what is left is returned.\<close>

fun carve_levels :: "nat \<Rightarrow> u64 \<Rightarrow> u64 list \<Rightarrow> u64 list list \<times> u64 list" where
  "carve_levels 0 n storage = ([], storage)"
| "carve_levels (Suc depth) n storage =
     (let n1 = level_words n;
          (levels, rest) = carve_levels depth n1 (drop (unat n1) storage)
      in (take (unat n1) storage # levels, rest))"

text \<open>More levels than \<^verbatim>\<open>MaxDepth\<close> are only asserted against: the arrays of pointers are overrun.\<close>

definition Bitmap_Initialize ::
    "KPageBitmap \<Rightarrow> u64 list \<Rightarrow> u64 \<Rightarrow> (KPageBitmap \<times> u64 list) option" where
  "Bitmap_Initialize b storage n =
     (let depths = GetRequiredDepth (unat n)
      in if depths > MaxDepth then None
         else let (levels, rest) = carve_levels depths n storage
              in Some (b\<lparr>bit_storages := levels, m_num_bits := 0\<rparr>, rest))"

fun overhead_words :: "nat \<Rightarrow> u64 \<Rightarrow> u64" where
  "overhead_words 0 region_size = 0"
| "overhead_words (Suc depth) region_size =
     (let n = level_words region_size in n + overhead_words depth n)"

definition Bitmap_CalculateManagementOverheadSize :: "u64 \<Rightarrow> u64" where
  "Bitmap_CalculateManagementOverheadSize region_size =
     overhead_words (GetRequiredDepth (unat region_size)) region_size * 8"

text \<open>The walk down from the coarsest level, which is the last of the list; \<^verbatim>\<open>-1\<close> is \<open>None\<close> inside.\<close>

fun descend ::
    "bool \<Rightarrow> u64 list list \<Rightarrow> RandomBitGenerator \<Rightarrow> (nat option \<times> RandomBitGenerator) option" where
  "descend rnd [] r = Some (Some 0, r)"
| "descend rnd (l # levels) r =
     (case descend rnd levels r of
        None \<Rightarrow> None
      | Some (None, r1) \<Rightarrow> Some (None, r1)
      | Some (Some offset, r1) \<Rightarrow>
          if offset < length l
          then let v = l ! offset
               in if v = 0 then Some (None, r1)
                  else if rnd
                  then let (b, r2) = SelectRandomBit v r1 in Some (Some (offset * 64 + b), r2)
                  else Some (Some (offset * 64 + countr_zero v), r1)
          else None)"

definition FindFreeBlock :: "bool \<Rightarrow> KPageBitmap \<Rightarrow> (nat option \<times> KPageBitmap) option" where
  "FindFreeBlock rnd b =
     map_option (\<lambda>(offset, r). (offset, b\<lparr>m_rng := r\<rparr>)) (descend rnd (bit_storages b) (m_rng b))"

text \<open>The inner loop of \<^verbatim>\<open>FindFreeRange\<close> over the options of a word, and the loop over the words.\<close>

fun scan_options ::
    "nat \<Rightarrow> nat \<Rightarrow> u64 \<Rightarrow> nat list \<Rightarrow> nat \<times> nat option \<times> RandomBitGenerator \<Rightarrow>
     (nat \<times> nat option \<times> RandomBitGenerator) option" where
  "scan_options count storage_index storage [] (num_valid, chosen, r) = Some (num_valid, chosen, r)"
| "scan_options count storage_index storage (opt # opts) (num_valid, chosen, r) =
     (let free_mask = push_bit count 1 - 1;
          place = storage_index * 64 + opt * count
      in case (if storage AND free_mask = free_mask
               then if num_valid + 1 = 1 then Some (num_valid + 1, Some place, r)
                    else case GenerateRandom (of_nat (num_valid + 1)) r of
                           None \<Rightarrow> None
                         | Some (k, r1) \<Rightarrow>
                             Some (num_valid + 1, if k = 0 then Some place else chosen, r1)
               else Some (num_valid, chosen, r)) of
           None \<Rightarrow> None
         | Some s \<Rightarrow> scan_options count storage_index (drop_bit count storage) opts s)"

fun scan_storages ::
    "nat \<Rightarrow> nat \<Rightarrow> nat \<Rightarrow> u64 list \<Rightarrow> nat \<times> nat option \<times> RandomBitGenerator \<Rightarrow>
     (nat \<times> nat option \<times> RandomBitGenerator) option" where
  "scan_storages count options_per_storage storage_index [] s = Some s"
| "scan_storages count options_per_storage storage_index (storage # storages) s =
     (case scan_options count storage_index storage [0..<options_per_storage] s of
        None \<Rightarrow> None
      | Some s1 \<Rightarrow> scan_storages count options_per_storage (storage_index + 1) storages s1)"

text \<open>
  A count of zero divides by zero, and a count of 64, which passes the check, shifts by the width of
  the mask.
\<close>

definition FindFreeRange :: "nat \<Rightarrow> KPageBitmap \<Rightarrow> (nat option \<times> KPageBitmap) option" where
  "FindFreeRange count b =
     (case bit_storages b of
        [] \<Rightarrow> None
      | finest # _ \<Rightarrow>
          if \<not> (finest \<noteq> [] \<and> count \<le> 64) then Some (None, b)
          else if count = 0 \<or> count = 64 then None
          else case scan_storages count (max (64 div count) 1) 0 finest (0, None, m_rng b) of
                 None \<Rightarrow> None
               | Some (num_valid, chosen, r) \<Rightarrow> Some (chosen, b\<lparr>m_rng := r\<rparr>))"

text \<open>Setting a bit goes on to the next coarser level when the word was empty, clearing when it is now.\<close>

fun set_levels :: "u64 list list \<Rightarrow> nat \<Rightarrow> u64 list list option" where
  "set_levels [] offset = Some []"
| "set_levels (l # levels) offset =
     (let ind = offset div 64; mask = push_bit (offset mod 64) 1
      in if ind < length l
         then let v = l ! ind; l1 = l[ind := v OR mask]
              in if v \<noteq> 0 then Some (l1 # levels)
                 else map_option ((#) l1) (set_levels levels ind)
         else None)"

fun clear_levels :: "u64 list list \<Rightarrow> nat \<Rightarrow> u64 list list option" where
  "clear_levels [] offset = Some []"
| "clear_levels (l # levels) offset =
     (let ind = offset div 64; mask = push_bit (offset mod 64) 1
      in if ind < length l
         then let v = l ! ind AND NOT mask; l1 = l[ind := v]
              in if v \<noteq> 0 then Some (l1 # levels)
                 else map_option ((#) l1) (clear_levels levels ind)
         else None)"

definition SetBit :: "nat \<Rightarrow> KPageBitmap \<Rightarrow> KPageBitmap option" where
  "SetBit offset b =
     map_option (\<lambda>levels. b\<lparr>bit_storages := levels, m_num_bits := m_num_bits b + 1\<rparr>)
       (set_levels (bit_storages b) offset)"

definition ClearBit :: "nat \<Rightarrow> KPageBitmap \<Rightarrow> KPageBitmap option" where
  "ClearBit offset b =
     map_option (\<lambda>levels. b\<lparr>bit_storages := levels, m_num_bits := m_num_bits b - 1\<rparr>)
       (clear_levels (bit_storages b) offset)"

text \<open>The two loops of \<^verbatim>\<open>ClearRange\<close> over whole words; the remaining count wraps.\<close>

function all_ones :: "u64 list \<Rightarrow> nat \<Rightarrow> u64 \<Rightarrow> bool option" where
  "all_ones l i remaining =
     (if i < length l
      then if l ! i \<noteq> NOT 0 then Some False
           else if remaining - 64 > 0 then all_ones l (i + 1) (remaining - 64) else Some True
      else None)"
  by pat_completeness auto
termination by (relation "measure (\<lambda>(l, i, remaining). length l - i)") auto

declare all_ones.simps [simp del]

function clear_words ::
    "u64 list \<Rightarrow> u64 list list \<Rightarrow> nat \<Rightarrow> u64 \<Rightarrow> u64 list list option" where
  "clear_words l levels i remaining =
     (if i < length l
      then case clear_levels levels i of
             None \<Rightarrow> None
           | Some levels1 \<Rightarrow>
               if remaining - 64 > 0 then clear_words (l[i := 0]) levels1 (i + 1) (remaining - 64)
               else Some (l[i := 0] # levels1)
      else None)"
  by pat_completeness auto
termination by (relation "measure (\<lambda>(l, levels, i, remaining). length l - i)") auto

declare clear_words.simps [simp del]

definition ClearRange :: "nat \<Rightarrow> u64 \<Rightarrow> KPageBitmap \<Rightarrow> (bool \<times> KPageBitmap) option" where
  "ClearRange offset count b =
     (let cleared = (\<lambda>levels. (True, b\<lparr>bit_storages := levels, m_num_bits := m_num_bits b - count\<rparr>));
          bit_ind = offset div 64
      in case bit_storages b of
           [] \<Rightarrow> None
         | l # levels \<Rightarrow>
             if count < 64
             then
               if bit_ind < length l
               then let mask = push_bit (offset mod 64) (push_bit (unat count) 1 - 1); v = l ! bit_ind
                    in if v AND mask \<noteq> mask then Some (False, b)
                       else let v1 = v AND NOT mask; l1 = l[bit_ind := v1]
                            in if v1 = 0
                               then map_option (\<lambda>levels1. cleared (l1 # levels1)) (clear_levels levels bit_ind)
                               else Some (cleared (l1 # levels))
               else None
             else
               case all_ones l bit_ind count of
                 None \<Rightarrow> None
               | Some False \<Rightarrow> Some (False, b)
               | Some True \<Rightarrow> map_option cleared (clear_words l levels bit_ind count))"

end
