(* ===== verification/Page_Bitmap_Props.thy ===== *)
theory Page_Bitmap_Props
  imports Page_Bitmap
begin

text \<open>
  The page bitmap is a set of offsets.  The invariant says that every bit of a coarser level tells
  whether the word below it is empty; the operations keep it and act on the set as one expects.  The
  locale \<open>free_bitmap\<close> is the contract its clients use.
\<close>

section \<open>Bits of a level\<close>

definition bit_at :: "u64 list \<Rightarrow> nat \<Rightarrow> bool" where
  "bit_at l i \<longleftrightarrow> i div 64 < length l \<and> bit (l ! (i div 64)) (i mod 64)"

lemma bit_at_update:
  "ind < length l \<Longrightarrow>
   bit_at (l[ind := w]) i \<longleftrightarrow> (if i div 64 = ind then bit w (i mod 64) else bit_at l i)"
  by (auto simp: bit_at_def)

lemma same_place: "i div 64 = j div 64 \<and> i mod 64 = j mod 64 \<longleftrightarrow> i = (j :: nat)"
  by (metis div_mult_mod_eq)

lemma bit_at_set:
  assumes "i div 64 < length l"
  shows "bit_at (l[i div 64 := l ! (i div 64) OR push_bit (i mod 64) 1]) j \<longleftrightarrow> j = i \<or> bit_at l j"
  using assms same_place [of j i] bit_at_update [OF assms]
  by (auto simp: bit_or_iff bit_exp_iff bit_at_def)

lemma bit_at_clear:
  assumes "i div 64 < length l"
  shows "bit_at (l[i div 64 := l ! (i div 64) AND NOT (push_bit (i mod 64) 1)]) j \<longleftrightarrow>
         j \<noteq> i \<and> bit_at l j"
  using assms same_place [of j i] bit_at_update [OF assms]
  by (auto simp: bit_and_iff bit_not_iff bit_exp_iff bit_at_def)

lemmas bit_at_ops = bit_at_set [unfolded push_bit_eq_mult mult_1] bit_at_clear [unfolded push_bit_eq_mult mult_1]

text \<open>A word is empty exactly when it has no bit.\<close>

lemma bit_at_word: "k < 64 \<Longrightarrow> bit_at l (i * 64 + k) \<longleftrightarrow> i < length l \<and> bit (l ! i) k"
  by (simp add: bit_at_def)

section \<open>The levels\<close>

definition summarizes :: "u64 list \<Rightarrow> u64 list \<Rightarrow> bool" where
  "summarizes u l \<longleftrightarrow> length u = (length l + 63) div 64 \<and>
     (\<forall>i. bit_at u i \<longleftrightarrow> i < length l \<and> l ! i \<noteq> 0)"

fun levels_ok :: "u64 list list \<Rightarrow> bool" where
  "levels_ok [] = False"
| "levels_ok [l] = (length l = 1)"
| "levels_ok (l # u # levels) = (summarizes u l \<and> levels_ok (u # levels))"

lemma summarizes_index: "summarizes u l \<Longrightarrow> i < length l \<Longrightarrow> i div 64 < length u"
  by (simp add: summarizes_def)

text \<open>Changing one word of a level leaves the summary right if the emptiness of that word is recorded.\<close>

lemma summarizes_same:
  "summarizes u l \<Longrightarrow> i < length l \<Longrightarrow> (w \<noteq> 0 \<longleftrightarrow> l ! i \<noteq> 0) \<Longrightarrow> summarizes u (l[i := w])"
  by (auto simp: summarizes_def nth_list_update)

lemma summarizes_change:
  assumes "summarizes u l" and "i < length l" and "length u1 = length u"
    and "\<And>j. bit_at u1 j \<longleftrightarrow> (if j = i then w \<noteq> 0 else bit_at u j)"
  shows "summarizes u1 (l[i := w])"
  using assms by (auto simp: summarizes_def nth_list_update)

lemma set_levels_ok:
  assumes "levels_ok (l # levels)" and "i div 64 < length l"
  shows "\<exists>l1 levels1. set_levels (l # levels) i = Some (l1 # levels1) \<and> levels_ok (l1 # levels1) \<and>
           length l1 = length l \<and> (\<forall>j. bit_at l1 j \<longleftrightarrow> j = i \<or> bit_at l j)"
  using assms
proof (induction levels arbitrary: l i)
  case Nil
  have "set_levels [l] i = Some [l[i div 64 := l ! (i div 64) OR push_bit (i mod 64) 1]]"
    using Nil by (simp add: Let_def)
  moreover have "levels_ok [l[i div 64 := w]]" for w using Nil by simp
  moreover note bit_at_set [OF Nil(2)]
  ultimately show ?case
    by (intro exI [of _ "l[i div 64 := l ! (i div 64) OR push_bit (i mod 64) 1]"] exI [of _ "[]"]
        conjI allI) (simp_all only: length_list_update)
next
  case (Cons u levels)
  let ?ind = "i div 64" and ?w = "l ! (i div 64) OR push_bit (i mod 64) 1"
  have s: "summarizes u l" and ok: "levels_ok (u # levels)" using Cons.prems(1) by simp_all
  have w: "?w \<noteq> 0"
  proof -
    have "bit ?w (i mod 64)" by (simp add: bit_or_iff bit_exp_iff)
    then show ?thesis by (metis bit_0_eq bot_apply bot_bool_def)
  qed
  show ?case
  proof (cases "l ! ?ind = 0")
    case False
    then have "summarizes u (l[?ind := ?w])" using summarizes_same [OF s] Cons.prems(2) w by blast
    with False ok Cons.prems(2) show ?thesis
      by (intro exI [of _ "l[?ind := ?w]"] exI [of _ "u # levels"]) (simp add: Let_def bit_at_ops)
  next
    case True
    obtain u1 levels1 where u1: "set_levels (u # levels) ?ind = Some (u1 # levels1)"
        "levels_ok (u1 # levels1)" "length u1 = length u" "\<forall>j. bit_at u1 j \<longleftrightarrow> j = ?ind \<or> bit_at u j"
      using Cons.IH [OF ok summarizes_index [OF s Cons.prems(2)]] by blast
    have "summarizes u1 (l[?ind := ?w])"
      by (rule summarizes_change [OF s Cons.prems(2) u1(3)]) (use u1(4) w in simp)
    moreover have "bit_at (l[?ind := ?w]) j \<longleftrightarrow> j = i \<or> bit_at l j" for j
      using bit_at_set [OF Cons.prems(2)] .
    moreover have "set_levels (l # u # levels) i = Some (l[?ind := ?w] # u1 # levels1)"
      using True u1(1) Cons.prems(2) by (subst set_levels.simps(2)) (simp add: Let_def del: set_levels.simps)
    ultimately show ?thesis using u1(2)
      by (intro exI [of _ "l[?ind := ?w]"] exI [of _ "u1 # levels1"] conjI allI) simp_all
  qed
qed

lemma clear_levels_ok:
  assumes "levels_ok (l # levels)" and "i div 64 < length l"
  shows "\<exists>l1 levels1. clear_levels (l # levels) i = Some (l1 # levels1) \<and> levels_ok (l1 # levels1) \<and>
           length l1 = length l \<and> (\<forall>j. bit_at l1 j \<longleftrightarrow> j \<noteq> i \<and> bit_at l j)"
  using assms
proof (induction levels arbitrary: l i)
  case Nil
  have "clear_levels [l] i = Some [l[i div 64 := l ! (i div 64) AND NOT (push_bit (i mod 64) 1)]]"
    using Nil by (simp add: Let_def)
  moreover have "levels_ok [l[i div 64 := w]]" for w using Nil by simp
  moreover note bit_at_clear [OF Nil(2)]
  ultimately show ?case
    by (intro exI [of _ "l[i div 64 := l ! (i div 64) AND NOT (push_bit (i mod 64) 1)]"] exI [of _ "[]"]
        conjI allI) (simp_all only: length_list_update)
next
  case (Cons u levels)
  let ?ind = "i div 64" and ?w = "l ! (i div 64) AND NOT (push_bit (i mod 64) 1)"
  have s: "summarizes u l" and ok: "levels_ok (u # levels)" using Cons.prems(1) by simp_all
  show ?case
  proof (cases "?w = 0")
    case False
    then have "l ! ?ind \<noteq> 0" by (metis and_zero_eq and.commute)
    then have "summarizes u (l[?ind := ?w])" using summarizes_same [OF s] Cons.prems(2) False by blast
    with False ok Cons.prems(2) show ?thesis
      by (intro exI [of _ "l[?ind := ?w]"] exI [of _ "u # levels"]) (simp add: Let_def bit_at_ops)
  next
    case True
    obtain u1 levels1 where u1: "clear_levels (u # levels) ?ind = Some (u1 # levels1)"
        "levels_ok (u1 # levels1)" "length u1 = length u" "\<forall>j. bit_at u1 j \<longleftrightarrow> j \<noteq> ?ind \<and> bit_at u j"
      using Cons.IH [OF ok summarizes_index [OF s Cons.prems(2)]] by blast
    have "summarizes u1 (l[?ind := ?w])"
      by (rule summarizes_change [OF s Cons.prems(2) u1(3)]) (use u1(4) True in simp)
    moreover have "bit_at (l[?ind := ?w]) j \<longleftrightarrow> j \<noteq> i \<and> bit_at l j" for j
      using bit_at_clear [OF Cons.prems(2)] .
    moreover have "clear_levels (l # u # levels) i = Some (l[?ind := ?w] # u1 # levels1)"
      using True u1(1) Cons.prems(2) by (subst clear_levels.simps(2)) (simp only: Let_def if_True option.map, simp)
    ultimately show ?thesis using u1(2) by (intro exI [of _ "l[?ind := ?w]"] exI [of _ "u1 # levels1"]) simp
  qed
qed

section \<open>Choosing a bit\<close>

lemma word_bit_choice: "(w :: u64) \<noteq> 0 \<Longrightarrow> \<exists>k. bit w k"
  using word_bit_nonzero by blast

lemma bit_all_ones: "bit (0xFFFFFFFFFFFFFFFF :: int) n \<longleftrightarrow> n < 64"
proof -
  have "(0xFFFFFFFFFFFFFFFF :: int) = mask 64" by (simp add: mask_eq_exp_minus_1)
  then show ?thesis by (simp only: bit_mask_iff) simp
qed

lemma select_loop_bit:
  assumes "bitmap \<noteq> 0" and "\<And>j. 2 ^ k \<le> j \<Longrightarrow> \<not> bit bitmap j"
  shows "\<exists>p r1. select_loop (2 ^ k div 2) bitmap selected r = (selected + p, r1) \<and> bit bitmap p"
  using assms
proof (induction k arbitrary: bitmap selected r)
  case 0
  then obtain j where "bit bitmap j" using word_bit_choice by blast
  with 0 have "bit bitmap 0" by (metis One_nat_def less_one not_less power_0)
  then show ?case by (auto simp: select_loop.simps)
next
  case (Suc k)
  let ?cur = "2 ^ k :: nat"
  let ?high = "drop_bit ?cur bitmap" and ?low = "bitmap AND NOT (push_bit ?cur 0xFFFFFFFFFFFFFFFF)"
  have low: "bit ?low j \<longleftrightarrow> bit bitmap j \<and> j < ?cur" for j
    using bit_imp_le_length [of bitmap j]
    by (auto simp: bit_and_iff bit_not_iff bit_push_bit_iff bit_all_ones)
  have high: "bit ?high j \<longleftrightarrow> bit bitmap (?cur + j)" for j by (simp add: bit_drop_bit_eq)
  have go_high: ?case if "select_loop (2 ^ Suc k div 2) bitmap selected r
      = select_loop (?cur div 2) ?high (selected + ?cur) r1" and "?high \<noteq> 0" for r1
  proof -
    have "\<not> bit ?high j" if "?cur \<le> j" for j using Suc.prems(2) [of "?cur + j"] that by (simp add: high)
    from Suc.IH [OF \<open>?high \<noteq> 0\<close> this] that(1) high show ?thesis by (metis add.assoc)
  qed
  have go_low: ?case if "select_loop (2 ^ Suc k div 2) bitmap selected r
      = select_loop (?cur div 2) ?low selected r1" and "?low \<noteq> 0" for r1
  proof -
    have "\<not> bit ?low j" if "?cur \<le> j" for j using that low by simp
    from Suc.IH [OF \<open>?low \<noteq> 0\<close> this] that(1) low show ?thesis by metis
  qed
  have some: "?low \<noteq> 0" if "?high = 0"
  proof -
    obtain j where j: "bit bitmap j" using word_bit_choice [OF Suc.prems(1)] by blast
    have "\<not> bit bitmap (?cur + i)" for i using high that by simp
    then have "j < ?cur" using j by (metis le_add_diff_inverse not_le)
    then show ?thesis using low j by (metis bit_0_eq bot_apply bot_bool_def)
  qed
  have step: "select_loop (2 ^ Suc k div 2) bitmap selected r =
      (if ?high \<noteq> 0
       then if ?low = 0 then select_loop (?cur div 2) ?high (selected + ?cur) r
            else case GenerateRandomBit r of (b, r1) \<Rightarrow>
                   if b then select_loop (?cur div 2) ?high (selected + ?cur) r1
                   else select_loop (?cur div 2) ?low selected r1
       else select_loop (?cur div 2) ?low selected r)"
    by (subst select_loop.simps) (simp add: Let_def split: prod.splits)
  show ?case
  proof (cases "?high \<noteq> 0 \<and> ?low \<noteq> 0")
    case True
    obtain b r1 where "GenerateRandomBit r = (b, r1)" by fastforce
    with True step go_high [of r1] go_low [of r1] show ?thesis by (cases b) simp_all
  next
    case False
    with step some go_high [of r] go_low [of r] show ?thesis by (cases "?high = 0") simp_all
  qed
qed

lemma SelectRandomBit_bit:
  assumes "v \<noteq> 0"
  shows "\<exists>k r1. SelectRandomBit v r = (k, r1) \<and> k < 64 \<and> bit v k"
proof -
  have "\<not> bit v j" if "2 ^ 6 \<le> j" for j using that bit_imp_le_length [of v j] by auto
  from select_loop_bit [where k = 6 and selected = 0 and r = r, OF assms this] obtain k r1
    where "SelectRandomBit v r = (k, r1)" "bit v k" by (auto simp: SelectRandomBit_def)
  then show ?thesis using bit_imp_le_length [of v k] by auto
qed

lemma descend_finds:
  assumes "levels_ok levels"
  shows "\<exists>found r1. descend rnd levels r = Some (found, r1) \<and>
           (case found of None \<Rightarrow> \<forall>i. \<not> bit_at (hd levels) i
            | Some k \<Rightarrow> bit_at (hd levels) k \<and> (\<not> rnd \<longrightarrow> (\<forall>i. bit_at (hd levels) i \<longrightarrow> k \<le> i)))"
  using assms
proof (induction levels arbitrary: r rule: levels_ok.induct)
  case (2 l)
  then have l: "l = [l ! 0]" by (cases l) auto
  have b: "bit_at l i \<longleftrightarrow> i < 64 \<and> bit (l ! 0) i" for i using 2 by (auto simp: bit_at_def div_eq_0_iff)
  show ?case
  proof (cases "l ! 0 = 0")
    case True
    then show ?thesis using 2 b by simp
  next
    case False
    then show ?thesis
      using 2 b countr_zero_bit [OF False] SelectRandomBit_bit [OF False, of r]
      by (cases rnd) (auto simp: Let_def)
  qed
next
  case (3 l u levels)
  have s: "\<And>i. bit_at u i \<longleftrightarrow> i < length l \<and> l ! i \<noteq> 0" using 3 by (simp add: summarizes_def)
  obtain found r1 where f: "descend rnd (u # levels) r = Some (found, r1)"
    "case found of None \<Rightarrow> \<forall>i. \<not> bit_at u i
     | Some k \<Rightarrow> bit_at u k \<and> (\<not> rnd \<longrightarrow> (\<forall>i. bit_at u i \<longrightarrow> k \<le> i))"
    using "3.IH" [of r, unfolded list.sel] "3.prems" unfolding levels_ok.simps by blast
  have up: "bit_at u (i div 64)" if "bit_at l i" for i
    using that by (auto simp: s) (auto simp: bit_at_def)
  show ?case
  proof (cases found)
    case None
    then show ?thesis using f up by (auto simp del: descend.simps(2) simp add: descend.simps(2) [of _ l])
  next
    case (Some k)
    with f s have k: "k < length l" "l ! k \<noteq> 0" by auto
    obtain j r2 where j: "SelectRandomBit (l ! k) r1 = (j, r2)" "j < 64" "bit (l ! k) j"
      using SelectRandomBit_bit [OF k(2)] by blast
    note c = countr_zero_bit [OF k(2)]
    have least: "k * 64 + countr_zero (l ! k) \<le> i" if "bit_at l i" "\<not> rnd" for i
    proof -
      have "k \<le> i div 64" using f(2) Some that up by auto
      moreover have "countr_zero (l ! k) \<le> i mod 64" if "k = i div 64"
        using c \<open>bit_at l i\<close> that by (auto simp: bit_at_def)
      ultimately show ?thesis
        using c div_mult_mod_eq [of i 64] by (cases "k = i div 64") linarith+
    qed
    show ?thesis
    proof (cases rnd)
      case True
      with Some f k j show ?thesis
        by (simp del: descend.simps(2) add: descend.simps(2) [of _ l] Let_def bit_at_word)
    next
      case False
      with Some f k c least show ?thesis
        by (simp del: descend.simps(2) add: descend.simps(2) [of _ l] Let_def bit_at_word)
    qed
  qed
qed simp

section \<open>Random numbers\<close>

lemma GenerateRandomBits_defined:
  "num_bits < 32 \<Longrightarrow> \<exists>x r1. GenerateRandomBits num_bits result r = Some (x, r1)"
proof (induction num_bits result r rule: GenerateRandomBits.induct)
  case (1 num_bits result r)
  show ?case
  proof (cases "num_bits > 0")
    case True
    let ?cur = "min num_bits (m_bits_available (ensure_entropy r))"
    have "\<not> ?cur \<ge> 32" and "num_bits - ?cur < 32" using "1.prems" by auto
    from "1.IH" [OF True refl refl this] show ?thesis
      using True \<open>\<not> ?cur \<ge> 32\<close> by (subst GenerateRandomBits.simps) (simp add: Let_def)
  qed (simp add: GenerateRandomBits.simps)
qed

text \<open>Below \<^term>\<open>2 ^ 30\<close> fewer than 32 bits are drawn, and the remainder is in range.\<close>

lemma GenerateRandom_below:
  assumes "0 < upper" and "upper < 2 ^ 30"
  shows "\<exists>x r1. GenerateRandom upper r = Some (x, r1) \<and> x < upper"
proof -
  have "take_bit 30 upper = upper" using assms(2) 
    by (simp add: take_bit_eq_mod word_unat_eq_iff unat_mod_distrib word_less_nat_alt)
  then have "\<not> bit upper i" if "30 \<le> i" for i using that by (metis bit_take_bit_iff not_le)
  then have "34 \<le> countl_zero upper"
    unfolding countl_zero_def by (intro length_takeWhile_less_P_nth) (simp_all add: rev_nth)
  then have "1 + (64 - countl_zero upper) < 32" by linarith
  from GenerateRandomBits_defined [OF this] obtain x r1
    where x: "GenerateRandomBits (1 + (64 - countl_zero upper)) 0 r = Some (x, r1)" by blast
  have "x - (x div upper) * upper = x mod upper" by (simp add: minus_div_mult_eq_mod)
  moreover have "x mod upper < upper" using assms(1) by (simp add: word_mod_less_divisor)
  ultimately show ?thesis using x assms(1) by (auto simp: GenerateRandom_def)
qed

section \<open>Ranges\<close>

lemma range_in_word:
  assumes "i mod 64 + c \<le> (64 :: nat)"
  shows "i \<le> j \<and> j < i + c \<longleftrightarrow> j div 64 = i div 64 \<and> i mod 64 \<le> j mod 64 \<and> j mod 64 < i mod 64 + c"
proof -
  have i: "i = 64 * (i div 64) + i mod 64" and j: "j = 64 * (j div 64) + j mod 64"
    and "j mod 64 < 64" by simp_all
  show ?thesis
  proof (cases "j div 64 = i div 64")
    case True
    with i j show ?thesis by linarith
  next
    case False
    then have "j div 64 + 1 \<le> i div 64 \<or> i div 64 + 1 \<le> j div 64" by linarith
    then have "64 * (j div 64) + 64 \<le> 64 * (i div 64) \<or> 64 * (i div 64) + 64 \<le> 64 * (j div 64)"
      by linarith
    with False i j \<open>j mod 64 < 64\<close> assms show ?thesis by linarith
  qed
qed

lemma range_mask_bit:
  "c < 64 \<Longrightarrow>
   bit (push_bit s (push_bit c 1 - 1) :: u64) k \<longleftrightarrow> k < 64 \<and> s \<le> k \<and> k < s + c"
  by (auto simp: bit_push_bit_iff bit_mask_iff simp flip: mask_eq_decr_exp)

lemma covers_mask:
  fixes v m :: u64
  shows "v AND m = m \<longleftrightarrow> (\<forall>k. bit m k \<longrightarrow> bit v k)"
proof
  assume "v AND m = m"
  then show "\<forall>k. bit m k \<longrightarrow> bit v k" by (metis bit_and_iff)
next
  assume "\<forall>k. bit m k \<longrightarrow> bit v k"
  then show "v AND m = m" by (intro bit_word_eqI) (auto simp: bit_and_iff)
qed

text \<open>Writing a word of the finest level: the summary stays, or the empty word is recorded above.\<close>

lemma word_kept:
  "levels_ok (l # levels) \<Longrightarrow> i < length l \<Longrightarrow> w \<noteq> 0 \<Longrightarrow> l ! i \<noteq> 0 \<Longrightarrow>
   levels_ok (l[i := w] # levels)"
  by (cases levels) (auto intro: summarizes_same)

lemma word_emptied:
  assumes "levels_ok (l # levels)" and "i < length l"
  shows "\<exists>levels1. clear_levels levels i = Some levels1 \<and> levels_ok (l[i := 0] # levels1)"
proof (cases levels)
  case Nil
  with assms show ?thesis by simp
next
  case (Cons u us)
  then have s: "summarizes u l" and ok: "levels_ok (u # us)" using assms(1) by simp_all
  obtain u1 us1 where u1: "clear_levels (u # us) i = Some (u1 # us1)" "levels_ok (u1 # us1)"
      "length u1 = length u" "\<forall>j. bit_at u1 j \<longleftrightarrow> j \<noteq> i \<and> bit_at u j"
    using clear_levels_ok [OF ok summarizes_index [OF s assms(2)]] by blast
  have "summarizes u1 (l[i := 0])"
    by (rule summarizes_change [OF s assms(2) u1(3)]) (use u1(4) in simp)
  with u1 Cons show ?thesis by auto
qed

lemma clear_in_word:
  assumes "levels_ok (l # levels)" and "i div 64 < length l" and "0 < c" and "c < 64"
    and "i mod 64 + c \<le> 64"
    and m: "m = push_bit (i mod 64) (push_bit c 1 - 1)" and w: "w = l ! (i div 64) AND NOT m"
  shows "l ! (i div 64) AND m = m \<longleftrightarrow> (\<forall>j. i \<le> j \<and> j < i + c \<longrightarrow> bit_at l j)"
    and "l ! (i div 64) AND m = m \<Longrightarrow>
      if w = 0 then \<exists>levels1. clear_levels levels (i div 64) = Some levels1 \<and>
                            levels_ok (l[i div 64 := w] # levels1)
      else levels_ok (l[i div 64 := w] # levels)"
    and "bit_at (l[i div 64 := w]) j \<longleftrightarrow> bit_at l j \<and> \<not> (i \<le> j \<and> j < i + c)"
proof -
  note in_word = range_in_word [OF assms(5)]
  have mk: "bit m k \<longleftrightarrow> k < 64 \<and> i mod 64 \<le> k \<and> k < i mod 64 + c" for k
    unfolding m by (rule range_mask_bit [OF assms(4)])
  show "l ! (i div 64) AND m = m \<longleftrightarrow> (\<forall>j. i \<le> j \<and> j < i + c \<longrightarrow> bit_at l j)"
  proof -
    have "(\<forall>k. bit m k \<longrightarrow> bit (l ! (i div 64)) k) \<longleftrightarrow> (\<forall>j. i \<le> j \<and> j < i + c \<longrightarrow> bit_at l j)"
    proof (intro iffI allI impI)
      fix j assume "\<forall>k. bit m k \<longrightarrow> bit (l ! (i div 64)) k" and "i \<le> j \<and> j < i + c"
      then show "bit_at l j" using in_word mk [of "j mod 64"] assms(2) by (auto simp: bit_at_def)
    next
      fix k assume all: "\<forall>j. i \<le> j \<and> j < i + c \<longrightarrow> bit_at l j" and "bit m k"
      then have k: "k < 64" "i mod 64 \<le> k" "k < i mod 64 + c" using mk by auto
      then have "bit_at l (i div 64 * 64 + k)" using all in_word by auto
      then show "bit (l ! (i div 64)) k" using k by (simp add: bit_at_word)
    qed
    then show ?thesis by (simp add: covers_mask)
  qed
  show "if w = 0 then \<exists>levels1. clear_levels levels (i div 64) = Some levels1 \<and>
                            levels_ok (l[i div 64 := w] # levels1)
      else levels_ok (l[i div 64 := w] # levels)" if "l ! (i div 64) AND m = m"
  proof -
    have "bit m (i mod 64)" using mk assms(3) by simp
    then have "l ! (i div 64) \<noteq> 0" using that by auto
    then show ?thesis using word_kept [OF assms(1,2)] word_emptied [OF assms(1,2)] by auto
  qed
  show "bit_at (l[i div 64 := w]) j \<longleftrightarrow> bit_at l j \<and> \<not> (i \<le> j \<and> j < i + c)"
  proof (cases "j div 64 = i div 64")
    case True
    then show ?thesis
      using in_word [of j] mk [of "j mod 64"] assms(2)
      by (simp add: bit_at_update w bit_and_iff bit_not_iff) (auto simp: bit_at_def)
  next
    case False
    with in_word [of j] assms(2) show ?thesis by (simp add: bit_at_update)
  qed
qed

text \<open>Whole words.\<close>

lemma words_left:
  assumes "0 < n" and "64 * n < 2 ^ 64"
  shows "(of_nat (64 * n) :: u64) - 64 > 0 \<longleftrightarrow> 1 < n"
    and "(of_nat (64 * n) :: u64) - 64 = of_nat (64 * (n - 1))"
proof -
  have "64 * n = 64 * (n - 1) + 64" using assms(1) by simp
  then have "(of_nat (64 * n) :: u64) = of_nat (64 * (n - 1)) + 64" by (metis of_nat_add of_nat_numeral)
  then show e: "(of_nat (64 * n) :: u64) - 64 = of_nat (64 * (n - 1))" by simp
  have "unat (of_nat (64 * (n - 1)) :: u64) = 64 * (n - 1)"
    using assms by (simp add: unat_of_nat del: of_nat_mult)
  then show "(of_nat (64 * n) :: u64) - 64 > 0 \<longleftrightarrow> 1 < n"
    using assms unfolding e by (simp add: word_less_nat_alt)
qed

lemma all_ones_spec:
  assumes "0 < n" and "64 * n < 2 ^ 64" and "i + n \<le> length l"
  shows "all_ones l i (of_nat (64 * n)) = Some (\<forall>k. i \<le> k \<and> k < i + n \<longrightarrow> l ! k = NOT 0)"
  using assms
proof (induction n arbitrary: i)
  case (Suc n)
  have range: "(\<forall>k. i \<le> k \<and> k < i + Suc n \<longrightarrow> P k) \<longleftrightarrow>
      P i \<and> (\<forall>k. i + 1 \<le> k \<and> k < i + 1 + n \<longrightarrow> P k)" for P
  proof -
    have "i \<le> k \<and> k < i + Suc n \<longleftrightarrow> k = i \<or> i + 1 \<le> k \<and> k < i + 1 + n" for k by auto
    then show ?thesis by metis
  qed
  note left = words_left [OF Suc.prems(1,2)]
  show ?case
  proof (cases "n = 0")
    case True
    then show ?thesis
      using Suc.prems left(1) unfolding range [of "\<lambda>k. l ! k = NOT 0"] by (subst all_ones.simps) auto
  next
    case False
    then have "all_ones l (i + 1) (of_nat (64 * n)) = Some (\<forall>k. i + 1 \<le> k \<and> k < i + 1 + n \<longrightarrow> l ! k = NOT 0)"
      using Suc by simp
    then show ?thesis
      using Suc.prems(3) left False unfolding range [of "\<lambda>k. l ! k = NOT 0"]
      by (subst all_ones.simps) (simp del: of_nat_mult of_nat_Suc mult_Suc_right)
  qed
qed simp

lemma clear_words_spec:
  assumes "0 < n" and "64 * n < 2 ^ 64" and "i + n \<le> length l" and "levels_ok (l # levels)"
  shows "\<exists>l1 levels1. clear_words l levels i (of_nat (64 * n)) = Some (l1 # levels1) \<and>
           levels_ok (l1 # levels1) \<and> length l1 = length l \<and>
           (\<forall>k < length l. l1 ! k = (if i \<le> k \<and> k < i + n then 0 else l ! k))"
  using assms
proof (induction n arbitrary: i l levels)
  case (Suc n)
  note left = words_left [OF Suc.prems(1,2)]
  have i: "i < length l" using Suc.prems by simp
  obtain levels1 where c: "clear_levels levels i = Some levels1" "levels_ok (l[i := 0] # levels1)"
    using word_emptied [OF Suc.prems(4) i] by blast
  show ?case
  proof (cases "n = 0")
    case True
    then have "clear_words l levels i (of_nat (64 * Suc n)) = Some (l[i := 0] # levels1)"
      using i c left(1) by (subst clear_words.simps) (simp del: of_nat_mult of_nat_Suc mult_Suc_right)
    then show ?thesis
      using c True by (intro exI [of _ "l[i := 0]"] exI [of _ levels1]) (auto simp: nth_list_update)
  next
    case False
    with Suc.IH [of "i + 1" "l[i := 0]" levels1] Suc.prems c obtain l2 levels2
      where r: "clear_words (l[i := 0]) levels1 (i + 1) (of_nat (64 * n)) = Some (l2 # levels2)"
        "levels_ok (l2 # levels2)" "length l2 = length l"
        "\<forall>k < length l. l2 ! k = (if i + 1 \<le> k \<and> k < i + 1 + n then 0 else l[i := 0] ! k)"
      by auto
    have "clear_words l levels i (of_nat (64 * Suc n)) = Some (l2 # levels2)"
      using i c left False r(1) by (subst clear_words.simps) (simp del: of_nat_mult of_nat_Suc mult_Suc_right)
    with r i show ?thesis
      by (intro exI [of _ l2] exI [of _ levels2]) (auto simp: nth_list_update)
  qed
qed simp

section \<open>The bitmap as a set\<close>

definition free_offsets :: "KPageBitmap \<Rightarrow> nat set" where
  "free_offsets b = {i. bit_at (hd (bit_storages b)) i}"

definition bitmap_ok :: "nat \<Rightarrow> KPageBitmap \<Rightarrow> bool" where
  "bitmap_ok n b \<longleftrightarrow>
     levels_ok (bit_storages b) \<and> length (hd (bit_storages b)) = (n + 63) div 64 \<and>
     free_offsets b \<subseteq> {..<n} \<and> m_num_bits b = of_nat (card (free_offsets b))"

text \<open>The ranges \<^verbatim>\<open>ClearRange\<close> asserts: inside a word, or whole words.\<close>

definition clearable :: "nat \<Rightarrow> nat \<Rightarrow> nat \<Rightarrow> bool" where
  "clearable n i c \<longleftrightarrow> 0 < c \<and> (i + c + 63) div 64 \<le> (n + 63) div 64 \<and> c < 2 ^ 64 \<and>
     (c < 64 \<and> i mod 64 + c \<le> 64 \<or> 64 dvd i \<and> 64 dvd c)"

lemma bitmap_okE:
  assumes "bitmap_ok n b"
  obtains l levels where "bit_storages b = l # levels" "levels_ok (l # levels)"
    "length l = (n + 63) div 64" "free_offsets b = {i. bit_at l i}" "free_offsets b \<subseteq> {..<n}"
    "m_num_bits b = of_nat (card (free_offsets b))" "finite (free_offsets b)"
  using assms finite_subset [of "free_offsets b" "{..<n}"]
  by (cases "bit_storages b") (auto simp: bitmap_ok_def free_offsets_def)

text \<open>A new finest level with its count.\<close>

lemma bitmap_okI:
  assumes "levels_ok (l # levels)" and "length l = (n + 63) div 64" and "{i. bit_at l i} = S"
    and "S \<subseteq> {..<n}" and "k = of_nat (card S)"
  shows "bitmap_ok n (b\<lparr>bit_storages := l # levels, m_num_bits := k\<rparr>)"
    and "free_offsets (b\<lparr>bit_storages := l # levels, m_num_bits := k\<rparr>) = S"
  using assms by (simp_all add: bitmap_ok_def free_offsets_def)

lemma below_words: "i < n \<Longrightarrow> i div 64 < (n + 63) div (64 :: nat)"
  by linarith

lemma SetBit_ok:
  assumes "bitmap_ok n b" and "i < n" and "i \<notin> free_offsets b"
  shows "\<exists>b1. SetBit i b = Some b1 \<and> bitmap_ok n b1 \<and> free_offsets b1 = insert i (free_offsets b)"
proof -
  obtain l levels where b: "bit_storages b = l # levels" "levels_ok (l # levels)"
    "length l = (n + 63) div 64" "free_offsets b = {i. bit_at l i}" "free_offsets b \<subseteq> {..<n}"
    "m_num_bits b = of_nat (card (free_offsets b))" "finite (free_offsets b)"
    using bitmap_okE [OF assms(1)] by blast
  have "i div 64 < length l" using below_words [OF assms(2)] b(3) by simp
  from set_levels_ok [OF b(2) this] obtain l1 levels1 where s: "set_levels (l # levels) i = Some (l1 # levels1)"
    "levels_ok (l1 # levels1)" "length l1 = length l" "\<forall>j. bit_at l1 j \<longleftrightarrow> j = i \<or> bit_at l j" by blast
  have "{j. bit_at l1 j} = insert i (free_offsets b)" using s(4) b(4) by auto
  note new = bitmap_okI [where b = b, OF s(2) s(3) [unfolded b(3)] this _ refl]
  have "insert i (free_offsets b) \<subseteq> {..<n}" using b(5) assms(2) by simp
  then show ?thesis
    using new s(1) b(1,6,7) assms(3) by (simp add: SetBit_def add.commute del: set_levels.simps)
qed

lemma ClearBit_ok:
  assumes "bitmap_ok n b" and "i \<in> free_offsets b"
  shows "\<exists>b1. ClearBit i b = Some b1 \<and> bitmap_ok n b1 \<and> free_offsets b1 = free_offsets b - {i}"
proof -
  obtain l levels where b: "bit_storages b = l # levels" "levels_ok (l # levels)"
    "length l = (n + 63) div 64" "free_offsets b = {i. bit_at l i}" "free_offsets b \<subseteq> {..<n}"
    "m_num_bits b = of_nat (card (free_offsets b))" "finite (free_offsets b)"
    using bitmap_okE [OF assms(1)] by blast
  have "i div 64 < length l" using assms(2) b(4) by (simp add: bit_at_def)
  from clear_levels_ok [OF b(2) this] obtain l1 levels1
    where s: "clear_levels (l # levels) i = Some (l1 # levels1)"
    "levels_ok (l1 # levels1)" "length l1 = length l" "\<forall>j. bit_at l1 j \<longleftrightarrow> j \<noteq> i \<and> bit_at l j" by blast
  have "{j. bit_at l1 j} = free_offsets b - {i}" using s(4) b(4) by auto
  note new = bitmap_okI [where b = b, OF s(2) s(3) [unfolded b(3)] this _ refl]
  have "(of_nat (card (free_offsets b - {i})) :: u64) = m_num_bits b - 1"
    using b(6,7) assms(2) card_Suc_Diff1 [OF b(7) assms(2)] by (metis add_diff_cancel_left' of_nat_Suc)
  with new s(1) b(1,5) show ?thesis by (auto simp: ClearBit_def simp del: clear_levels.simps)
qed

lemma ClearRange_ok:
  assumes "bitmap_ok n b" and "clearable n i c"
  shows "\<exists>b1. ClearRange i (of_nat c) b = Some ({i..<i + c} \<subseteq> free_offsets b, b1) \<and> bitmap_ok n b1 \<and>
           free_offsets b1 = (if {i..<i + c} \<subseteq> free_offsets b then free_offsets b - {i..<i + c}
                              else free_offsets b)"
proof -
  obtain l levels where b: "bit_storages b = l # levels" "levels_ok (l # levels)"
    "length l = (n + 63) div 64" "free_offsets b = {i. bit_at l i}" "free_offsets b \<subseteq> {..<n}"
    "m_num_bits b = of_nat (card (free_offsets b))" "finite (free_offsets b)"
    using bitmap_okE [OF assms(1)] by blast
  have c: "0 < c" "(i + c + 63) div 64 \<le> length l" "c < 2 ^ 64" using assms(2) b(3) by (simp_all add: clearable_def)
  have uc: "unat (of_nat c :: u64) = c" using c(3) by (simp add: unat_of_nat)
  have all: "{i..<i + c} \<subseteq> free_offsets b \<longleftrightarrow> (\<forall>j. i \<le> j \<and> j < i + c \<longrightarrow> bit_at l j)"
    by (auto simp: b(4))
  let ?b1 = "\<lambda>ls. b\<lparr>bit_storages := ls, m_num_bits := m_num_bits b - of_nat c\<rparr>"
  have new: "bitmap_ok n (?b1 (l1 # levels1)) \<and> free_offsets (?b1 (l1 # levels1)) = free_offsets b - {i..<i + c}"
    if "levels_ok (l1 # levels1)" "length l1 = length l"
      "\<And>j. bit_at l1 j \<longleftrightarrow> bit_at l j \<and> \<not> (i \<le> j \<and> j < i + c)" "{i..<i + c} \<subseteq> free_offsets b"
    for l1 levels1
  proof -
    have "card (free_offsets b) = card (free_offsets b - {i..<i + c}) + c"
      using card_Diff_subset [OF _ that(4)] card_mono [OF b(7) that(4)] by simp
    then have "m_num_bits b - of_nat c = of_nat (card (free_offsets b - {i..<i + c}))"
      unfolding b(6) by (metis add_diff_cancel_right' of_nat_add)
    moreover have "{j. bit_at l1 j} = free_offsets b - {i..<i + c}" using that(3) b(4) by auto
    moreover have "free_offsets b - {i..<i + c} \<subseteq> {..<n}" using b(5) by blast
    ultimately show ?thesis
      using bitmap_okI [OF that(1) that(2) [unfolded b(3)], where b = b] by blast
  qed
  show ?thesis
  proof (cases "c < 64 \<and> i mod 64 + c \<le> 64")
    case True
    let ?m = "push_bit (i mod 64) (push_bit c 1 - 1) :: u64" and ?ind = "i div 64"
    let ?w = "l ! ?ind AND NOT ?m"
    have ind: "?ind < length l" using c(1,2) by linarith
    have less: "(of_nat c :: u64) < 64" using True uc by (simp add: word_less_nat_alt)
    note one = clear_in_word [OF b(2) ind c(1) conjunct1 [OF True] conjunct2 [OF True] refl refl]
    have small: "ClearRange i (of_nat c) b =
        (if l ! ?ind AND ?m \<noteq> ?m then Some (False, b)
         else if ?w = 0
         then map_option (\<lambda>levels1. (True, ?b1 (l[?ind := ?w] # levels1))) (clear_levels levels ?ind)
         else Some (True, ?b1 (l[?ind := ?w] # levels)))"
      using less ind by (simp add: ClearRange_def b(1) uc Let_def)
    show ?thesis
    proof (cases "l ! ?ind AND ?m = ?m")
      case False
      then have "\<not> {i..<i + c} \<subseteq> free_offsets b" using one(1) all by simp
      with False small assms(1) show ?thesis by simp
    next
      case True': True
      then have sub: "{i..<i + c} \<subseteq> free_offsets b" using one(1) all by simp
      show ?thesis
      proof (cases "?w = 0")
        case w: True
        then obtain levels1 where l1: "clear_levels levels ?ind = Some levels1" "levels_ok (l[?ind := ?w] # levels1)"
          using one(2) True' by auto
        show ?thesis
          using small True' w l1(1) new [OF l1(2) length_list_update one(3) sub] sub by simp
      next
        case w: False
        then have "levels_ok (l[?ind := ?w] # levels)" using one(2) True' by auto
        from small True' w new [OF this length_list_update one(3) sub] sub show ?thesis by simp
      qed
    qed
  next
    case False
    then have dvd: "64 dvd i" "64 dvd c" using assms(2) by (auto simp: clearable_def)
    then obtain q n' where q: "i = 64 * q" "c = 64 * n'" by (auto simp: dvd_def)
    have n': "0 < n'" "64 * n' < 2 ^ 64" "q + n' \<le> length l" using c q by auto
    have "\<not> (of_nat c :: u64) < 64" using q n' uc by (simp add: word_less_nat_alt)
    then have big: "ClearRange i (of_nat c) b =
        (case all_ones l q (of_nat c) of None \<Rightarrow> None | Some False \<Rightarrow> Some (False, b)
         | Some True \<Rightarrow> map_option (\<lambda>levels1. (True, ?b1 levels1)) (clear_words l levels q (of_nat c)))"
      by (simp add: ClearRange_def b(1) Let_def q(1) split: option.split bool.split)
    have word: "l ! k = NOT 0 \<longleftrightarrow> (\<forall>m < 64. bit_at l (k * 64 + m))" if "k < length l" for k
    proof
      show "l ! k = NOT 0 \<Longrightarrow> \<forall>m < 64. bit_at l (k * 64 + m)" using that by (simp add: bit_at_word)
      show "\<forall>m < 64. bit_at l (k * 64 + m) \<Longrightarrow> l ! k = NOT 0"
        by (rule bit_word_eqI) (simp add: bit_at_word)
    qed
    have inq: "i \<le> j \<and> j < i + c \<longleftrightarrow> q \<le> j div 64 \<and> j div 64 < q + n'" for j
      unfolding q by auto
    have ones: "(\<forall>k. q \<le> k \<and> k < q + n' \<longrightarrow> l ! k = NOT 0) \<longleftrightarrow> {i..<i + c} \<subseteq> free_offsets b"
    proof
      assume a: "\<forall>k. q \<le> k \<and> k < q + n' \<longrightarrow> l ! k = NOT 0"
      show "{i..<i + c} \<subseteq> free_offsets b"
        unfolding all
      proof (intro allI impI)
        fix j assume "i \<le> j \<and> j < i + c"
        then have "l ! (j div 64) = NOT 0" "j div 64 < length l" using a inq n'(3) by auto
        then show "bit_at l j" by (simp add: bit_at_def)
      qed
    next
      assume a: "{i..<i + c} \<subseteq> free_offsets b"
      show "\<forall>k. q \<le> k \<and> k < q + n' \<longrightarrow> l ! k = NOT 0"
      proof (intro allI impI)
        fix k assume k: "q \<le> k \<and> k < q + n'"
        have "bit_at l (k * 64 + m)" if "m < 64" for m
          using a [unfolded all] inq [of "k * 64 + m"] k that by simp
        then show "l ! k = NOT 0" using word [of k] k n'(3) by simp
      qed
    qed
    have chk: "all_ones l q (of_nat c) = Some ({i..<i + c} \<subseteq> free_offsets b)"
      using all_ones_spec [OF n'] ones by (simp add: q(2))
    obtain l1 levels1 where r: "clear_words l levels q (of_nat c) = Some (l1 # levels1)"
      "levels_ok (l1 # levels1)" "length l1 = length l"
      "\<forall>k < length l. l1 ! k = (if q \<le> k \<and> k < q + n' then 0 else l ! k)"
      using clear_words_spec [OF n' b(2)] q(2) by auto
    have bits: "bit_at l1 j \<longleftrightarrow> bit_at l j \<and> \<not> (i \<le> j \<and> j < i + c)" for j
      using r(3,4) inq [of j] by (auto simp: bit_at_def)
    show ?thesis
      using big chk r(1) new [OF r(2,3) bits] assms(1) by (cases "{i..<i + c} \<subseteq> free_offsets b") simp_all
  qed
qed

lemma FindFreeBlock_ok:
  assumes "bitmap_ok n b"
  shows "\<exists>found r. FindFreeBlock rnd b = Some (found, b\<lparr>m_rng := r\<rparr>) \<and>
           (case found of None \<Rightarrow> free_offsets b = {}
            | Some k \<Rightarrow> k \<in> free_offsets b \<and> (\<not> rnd \<longrightarrow> k = Min (free_offsets b)))"
proof -
  obtain l levels where b: "bit_storages b = l # levels" "levels_ok (l # levels)"
    "length l = (n + 63) div 64" "free_offsets b = {i. bit_at l i}" "free_offsets b \<subseteq> {..<n}"
    "m_num_bits b = of_nat (card (free_offsets b))" "finite (free_offsets b)"
    using bitmap_okE [OF assms(1)] by blast
  obtain found r where d: "descend rnd (l # levels) (m_rng b) = Some (found, r)"
    "case found of None \<Rightarrow> \<forall>i. \<not> bit_at l i
     | Some k \<Rightarrow> bit_at l k \<and> (\<not> rnd \<longrightarrow> (\<forall>i. bit_at l i \<longrightarrow> k \<le> i))"
    using descend_finds [OF b(2), unfolded list.sel] by blast
  have "k = Min (free_offsets b)" if "bit_at l k" "\<forall>i. bit_at l i \<longrightarrow> k \<le> i" for k
    using that b(4,7) by (intro Min_eqI [symmetric]) auto
  with d b(1,4) show ?thesis
    by (intro exI [of _ found] exI [of _ r]) (auto simp: FindFreeBlock_def split: option.splits simp del: descend.simps)
qed

lemma bitmap_ok_rng [simp]:
  "bitmap_ok n (b\<lparr>m_rng := r\<rparr>) = bitmap_ok n b" "free_offsets (b\<lparr>m_rng := r\<rparr>) = free_offsets b"
  by (simp_all add: bitmap_ok_def free_offsets_def)

section \<open>Searching for a range\<close>

text \<open>The places the search looks at: the slots of \<^term>\<open>c\<close> bits of each word.\<close>

definition range_slot :: "nat \<Rightarrow> nat \<Rightarrow> nat \<Rightarrow> bool" where
  "range_slot n c p \<longleftrightarrow> (\<exists>w q. p = w * 64 + q * c \<and> w < (n + 63) div 64 \<and> q < 64 div c)"

lemma slot_fits: "0 < c \<Longrightarrow> q < 64 div c \<Longrightarrow> q * c + c \<le> (64 :: nat)"
proof -
  assume "0 < c" "q < 64 div c"
  then have "Suc q * c \<le> 64 div c * c" by (intro mult_le_mono1) simp
  also have "\<dots> \<le> 64" by simp
  finally show ?thesis by simp
qed

text \<open>
  What the loops carry: a valid option has been chosen exactly when some were counted, and no free slot
  seen so far was missed.
\<close>

definition scan_ok ::
    "u64 list \<Rightarrow> nat \<Rightarrow> (nat \<Rightarrow> bool) \<Rightarrow> nat \<Rightarrow> nat \<times> nat option \<times> RandomBitGenerator \<Rightarrow> bool" where
  "scan_ok l c seen bound s =
     (case s of (num_valid, chosen, r) \<Rightarrow>
        num_valid \<le> bound \<and> (num_valid = 0 \<longleftrightarrow> chosen = None) \<and>
        (case chosen of
           None \<Rightarrow> \<forall>p. seen p \<longrightarrow> \<not> (\<forall>j. p \<le> j \<and> j < p + c \<longrightarrow> bit_at l j)
         | Some p \<Rightarrow> seen p \<and> (\<forall>j. p \<le> j \<and> j < p + c \<longrightarrow> bit_at l j)))"

lemma scan_ok_more:
  "scan_ok l c seen bound (num_valid, chosen, r) \<Longrightarrow> (\<And>p. seen1 p \<longleftrightarrow> seen p \<or> p = q) \<Longrightarrow>
   \<not> (\<forall>j. q \<le> j \<and> j < q + c \<longrightarrow> bit_at l j) \<Longrightarrow>
   scan_ok l c seen1 (bound + 1) (num_valid, chosen, r)"
  by (auto simp: scan_ok_def split: option.splits)

lemma scan_ok_found:
  "scan_ok l c seen bound (num_valid, chosen, r) \<Longrightarrow> (\<And>p. seen1 p \<longleftrightarrow> seen p \<or> p = q) \<Longrightarrow>
   (\<forall>j. q \<le> j \<and> j < q + c \<longrightarrow> bit_at l j) \<Longrightarrow>
   chosen1 = Some q \<or> 0 < num_valid \<and> chosen1 = chosen \<Longrightarrow>
   scan_ok l c seen1 (bound + 1) (num_valid + 1, chosen1, r1)"
  by (auto simp: scan_ok_def split: option.splits)

text \<open>The mask test of a slot of a word.\<close>

lemma slot_test:
  assumes "0 < c" and "c < 64" and "w < length l" and "q * c + c \<le> 64"
  shows "drop_bit (q * c) (l ! w) AND (push_bit c 1 - 1) = push_bit c 1 - 1 \<longleftrightarrow>
         (\<forall>j. w * 64 + q * c \<le> j \<and> j < w * 64 + q * c + c \<longrightarrow> bit_at l j)"
proof -
  define m where "m = (push_bit c 1 - 1 :: u64)"
  have m: "bit m k \<longleftrightarrow> k < c" for k
    using range_mask_bit [OF assms(2), of 0 k] assms(2) by (auto simp: m_def)
  have "(\<forall>k < c. bit (l ! w) (q * c + k)) \<longleftrightarrow>
      (\<forall>j. w * 64 + q * c \<le> j \<and> j < w * 64 + q * c + c \<longrightarrow> bit_at l j)"
  proof (intro iffI allI impI)
    fix j assume a: "\<forall>k < c. bit (l ! w) (q * c + k)" and j: "w * 64 + q * c \<le> j \<and> j < w * 64 + q * c + c"
    then obtain k where k: "j = w * 64 + (q * c + k)" by (metis add.assoc le_iff_add)
    with j have "k < c" "q * c + k < 64" using assms(4) by simp_all
    with a k assms(3) show "bit_at l j" by (simp add: bit_at_word)
  next
    fix k assume a: "\<forall>j. w * 64 + q * c \<le> j \<and> j < w * 64 + q * c + c \<longrightarrow> bit_at l j" and "k < c"
    then have "bit_at l (w * 64 + (q * c + k))" and "q * c + k < 64" using assms(4) by simp_all
    then show "bit (l ! w) (q * c + k)" by (simp add: bit_at_word)
  qed
  then show ?thesis unfolding m_def [symmetric] by (simp add: covers_mask m bit_drop_bit_eq)
qed

lemma scan_options_ok:
  assumes "0 < c" and "c < 64" and "w < length l" and "k + length opts \<le> 64 div c"
    and "opts = [k..<k + length opts]" and "bound + length opts < 2 ^ 29"
    and "scan_ok l c (\<lambda>p. seen p \<or> (\<exists>q < k. p = w * 64 + q * c)) bound s"
  shows "\<exists>s1. scan_options c w (drop_bit (k * c) (l ! w)) opts s = Some s1 \<and>
           scan_ok l c (\<lambda>p. seen p \<or> (\<exists>q < k + length opts. p = w * 64 + q * c)) (bound + length opts) s1"
  using assms(4-7)
proof (induction opts arbitrary: k s bound)
  case Nil
  then show ?case by (cases s) simp
next
  case (Cons opt opts)
  obtain num_valid chosen r where s: "s = (num_valid, chosen, r)" by (cases s) auto
  have "opt # opts = k # [Suc k..<Suc k + length opts]"
    using Cons.prems(2) upt_conv_Cons [of k "k + length (opt # opts)"] by simp
  then have opt: "opt = k" "opts = [Suc k..<Suc k + length opts]" by simp_all
  have fits: "k * c + c \<le> 64" by (rule slot_fits [OF assms(1)]) (use Cons.prems(1) in simp)
  note test = slot_test [OF assms(1-3) fits]
  let ?q = "w * 64 + k * c"
  let ?seen = "\<lambda>k p. seen p \<or> (\<exists>q < k. p = w * 64 + q * c)"
  have seen: "?seen (Suc k) p \<longleftrightarrow> ?seen k p \<or> p = ?q" for p by (auto simp: less_Suc_eq)
  have shift: "drop_bit c (drop_bit (k * c) (l ! w)) = drop_bit (Suc k * c) (l ! w)"
    by (simp add: drop_bit_drop_bit add.commute)
  have rest: ?case
    if "scan_options c w (drop_bit (k * c) (l ! w)) (opt # opts) s
        = scan_options c w (drop_bit (Suc k * c) (l ! w)) opts s1"
      and "scan_ok l c (?seen (Suc k)) (bound + 1) s1" for s1
    using Cons.IH [of "Suc k" "bound + 1" s1] Cons.prems opt that by (simp del: scan_options.simps)
  have nv: "num_valid + 1 < 2 ^ 30" using Cons.prems(3,4) by (simp add: s scan_ok_def)
  show ?case
  proof (cases "drop_bit (k * c) (l ! w) AND (push_bit c 1 - 1) = push_bit c 1 - 1")
    case False
    then show ?thesis
      using rest [of s] scan_ok_more [OF Cons.prems(4) [unfolded s] seen] test
      by (simp add: s shift opt(1) Let_def)
  next
    case True
    note found = scan_ok_found [OF Cons.prems(4) [unfolded s] seen True [unfolded test]]
    show ?thesis
    proof (cases "num_valid = 0")
      case z: True
      then show ?thesis
        using rest [of "(1, Some ?q, r)"] found [of "Some ?q" r] True
        by (simp add: s shift opt(1) Let_def)
    next
      case False
      have "unat (of_nat (num_valid + 1) :: u64) = num_valid + 1"
        using nv by (simp add: unat_of_nat del: of_nat_add of_nat_Suc)
      then have "0 < (of_nat (num_valid + 1) :: u64)" "(of_nat (num_valid + 1) :: u64) < 2 ^ 30"
        using nv by (simp_all add: word_less_nat_alt del: of_nat_add of_nat_Suc)
      from GenerateRandom_below [OF this, of r] obtain x r1
        where x: "GenerateRandom (of_nat (num_valid + 1)) r = Some (x, r1)" by blast
      let ?s1 = "(num_valid + 1, if x = 0 then Some ?q else chosen, r1)"
      show ?thesis
        using rest [of ?s1] found [of "if x = 0 then Some ?q else chosen" r1] True False x
        by (simp add: s shift opt(1) Let_def)
    qed
  qed
qed

lemma scan_storages_ok:
  assumes "0 < c" and "c < 64" and "w + length ws = length l" and "ws = drop w l"
    and "bound + length ws * (64 div c) < 2 ^ 29"
    and "scan_ok l c (\<lambda>p. \<exists>v q. v < w \<and> q < 64 div c \<and> p = v * 64 + q * c) bound s"
  shows "\<exists>s1. scan_storages c (64 div c) w ws s = Some s1 \<and>
           scan_ok l c (\<lambda>p. \<exists>v q. v < length l \<and> q < 64 div c \<and> p = v * 64 + q * c)
             (bound + length ws * (64 div c)) s1"
  using assms(3-6)
proof (induction ws arbitrary: w s bound)
  case Nil
  then show ?case by simp
next
  case (Cons v ws)
  let ?old = "\<lambda>p. \<exists>v q. v < w \<and> q < 64 div c \<and> p = v * 64 + q * c"
  have "w < length l" using Cons.prems(2) by (metis drop_all list.distinct(1) not_le)
  then have w: "w < length l" "v = l ! w" "ws = drop (Suc w) l"
    using Cons.prems(2) Cons_nth_drop_Suc [of w l] by (metis list.inject)+
  have "bound + length [0..<64 div c] < 2 ^ 29" using Cons.prems(3) by simp
  moreover have "scan_ok l c (\<lambda>p. ?old p \<or> (\<exists>q < 0. p = w * 64 + q * c)) bound s"
    using Cons.prems(4) by simp
  ultimately have "\<exists>s1. scan_options c w (drop_bit (0 * c) (l ! w)) [0..<64 div c] s = Some s1 \<and>
      scan_ok l c (\<lambda>p. ?old p \<or> (\<exists>q < 0 + length [0..<64 div c]. p = w * 64 + q * c))
        (bound + length [0..<64 div c]) s1"
    by (intro scan_options_ok [OF assms(1,2) w(1)]) simp_all
  then obtain s1 where s1: "scan_options c w v [0..<64 div c] s = Some s1"
    "scan_ok l c (\<lambda>p. ?old p \<or> (\<exists>q < 64 div c. p = w * 64 + q * c)) (bound + 64 div c) s1"
    unfolding w(2) mult_0 drop_bit_0 id_apply length_upt diff_zero add_0 by blast
  moreover have "(\<lambda>p. ?old p \<or> (\<exists>q < 64 div c. p = w * 64 + q * c))
      = (\<lambda>p. \<exists>v q. v < Suc w \<and> q < 64 div c \<and> p = v * 64 + q * c)"
    by (intro ext) (auto simp: less_Suc_eq)
  ultimately have "scan_ok l c (\<lambda>p. \<exists>v q. v < Suc w \<and> q < 64 div c \<and> p = v * 64 + q * c)
      (bound + 64 div c) s1" by simp
  from Cons.IH [OF _ w(3) _ this] Cons.prems(1,3) obtain s2
    where "scan_storages c (64 div c) (Suc w) ws s1 = Some s2"
      "scan_ok l c (\<lambda>p. \<exists>v q. v < length l \<and> q < 64 div c \<and> p = v * 64 + q * c)
         (bound + 64 div c + length ws * (64 div c)) s2"
    by (auto simp: add.assoc)
  then show ?case by (intro exI [of _ s2]) (simp add: s1(1) add.assoc)
qed

lemma FindFreeRange_ok:
  assumes "bitmap_ok n b" and "0 < c" and "c < 64" and "0 < n" and "n < 2 ^ 28"
  shows "\<exists>place r. FindFreeRange c b = Some (place, b\<lparr>m_rng := r\<rparr>) \<and>
           (case place of None \<Rightarrow> \<forall>p. range_slot n c p \<longrightarrow> \<not> {p..<p + c} \<subseteq> free_offsets b
            | Some p \<Rightarrow> range_slot n c p \<and> {p..<p + c} \<subseteq> free_offsets b)"
proof -
  obtain l levels where b: "bit_storages b = l # levels" "levels_ok (l # levels)"
    "length l = (n + 63) div 64" "free_offsets b = {i. bit_at l i}" "free_offsets b \<subseteq> {..<n}"
    "m_num_bits b = of_nat (card (free_offsets b))" "finite (free_offsets b)"
    using bitmap_okE [OF assms(1)] by blast
  have "length l * (64 div c) \<le> length l * 64" by (intro mult_le_mono2) simp
  also have "\<dots> \<le> n + 63" unfolding b(3) by simp
  finally have bound: "0 + length l * (64 div c) < 2 ^ 29" using assms(5) by simp
  have start: "scan_ok l c (\<lambda>p. \<exists>v q. v < 0 \<and> q < 64 div c \<and> p = v * 64 + q * c) 0 (0, None, m_rng b)"
    by (simp add: scan_ok_def)
  obtain num_valid place r where s: "scan_storages c (64 div c) 0 l (0, None, m_rng b) = Some (num_valid, place, r)"
    "scan_ok l c (\<lambda>p. \<exists>v q. v < length l \<and> q < 64 div c \<and> p = v * 64 + q * c)
       (length l * (64 div c)) (num_valid, place, r)"
    using scan_storages_ok [OF assms(2,3) _ _ bound start] by auto
  have "64 div c \<ge> 1" using assms(2,3) by (simp add: div_greater_zero_iff Suc_le_eq)
  then have opts: "max (64 div c) 1 = 64 div c" by simp
  have "FindFreeRange c b = Some (place, b\<lparr>m_rng := r\<rparr>)"
    using assms(2-4) s(1) b(1,3) unfolding FindFreeRange_def opts by auto
  moreover have "{p..<p + c} \<subseteq> free_offsets b \<longleftrightarrow> (\<forall>j. p \<le> j \<and> j < p + c \<longrightarrow> bit_at l j)" for p
    by (auto simp: b(4))
  moreover have "range_slot n c p \<longleftrightarrow> (\<exists>v q. v < length l \<and> q < 64 div c \<and> p = v * 64 + q * c)" for p
    by (auto simp: range_slot_def b(3))
  ultimately show ?thesis using s(2) by (auto simp: scan_ok_def split: option.splits)
qed

section \<open>Initialization\<close>

lemma unat_level_words: "unat n + 64 < 2 ^ 64 \<Longrightarrow> unat (level_words n) = (unat n + 63) div 64"
  by (simp add: level_words_def unat_div_distrib unat_AlignUp)

text \<open>The words of all levels.\<close>

fun total_words :: "nat \<Rightarrow> nat \<Rightarrow> nat" where
  "total_words 0 n = 0"
| "total_words (Suc depth) n = (n + 63) div 64 + total_words depth ((n + 63) div 64)"

lemma total_words_le: "total_words depth n \<le> n + 2 * depth"
proof (induction depth arbitrary: n)
  case (Suc depth)
  have "total_words depth ((n + 63) div 64) \<le> (n + 63) div 64 + 2 * depth" by (rule Suc)
  then show ?case by simp
qed simp

lemma GetRequiredDepth_positive: "0 < GetRequiredDepth n"
  by (subst GetRequiredDepth.simps) simp

lemma GetRequiredDepth_enough: "n < 64 ^ GetRequiredDepth n"
proof (induction n rule: GetRequiredDepth.induct)
  case (1 n)
  show ?case
  proof (cases "n div 64 = 0")
    case True
    then show ?thesis by (subst GetRequiredDepth.simps) (simp add: div_eq_0_iff)
  next
    case False
    then have "n div 64 < 64 ^ GetRequiredDepth (n div 64)" by (rule 1)
    then have "n < 64 * 64 ^ GetRequiredDepth (n div 64)" by linarith
    with False show ?thesis by (subst GetRequiredDepth.simps) simp
  qed
qed

lemma GetRequiredDepth_le: "n < 64 ^ d \<Longrightarrow> 0 < d \<Longrightarrow> GetRequiredDepth n \<le> d"
proof (induction d arbitrary: n)
  case (Suc d)
  show ?case
  proof (cases "n div 64 = 0")
    case False
    then have "d \<noteq> 0" using Suc.prems(1) by (cases d) auto
    moreover have "n div 64 < 64 ^ d" using Suc.prems(1) by (simp add: less_mult_imp_div_less mult.commute)
    ultimately have "GetRequiredDepth (n div 64) \<le> d" using Suc.IH by blast
    then show ?thesis using False by (subst GetRequiredDepth.simps) simp
  qed (subst GetRequiredDepth.simps, simp)
qed simp

lemma no_bits: "\<not> bit_at (replicate n 0) i"
  by (simp add: bit_at_def)

text \<open>Cutting the levels from zeroed storage that is long enough.\<close>

lemma carve_levels_ok:
  assumes "0 < n" and "n \<le> 64 ^ Suc d" and "n < 2 ^ 63" and "total_words (Suc d) n \<le> k"
  shows "\<exists>levels. carve_levels (Suc d) (of_nat n) (replicate k 0)
           = (replicate ((n + 63) div 64) 0 # levels, replicate (k - total_words (Suc d) n) 0) \<and>
         levels_ok (replicate ((n + 63) div 64) 0 # levels)"
  using assms
proof (induction d arbitrary: n k)
  case 0
  have u: "unat (level_words (of_nat n)) = (n + 63) div 64"
    using unat_level_words [of "of_nat n"] 0 by (simp add: unat_of_nat)
  have "(n + 63) div 64 = 1" using 0 by simp
  with 0 u show ?case by (simp add: min_def)
next
  case (Suc d)
  let ?w = "(n + 63) div 64"
  have u: "unat (level_words (of_nat n)) = ?w"
    using unat_level_words [of "of_nat n"] Suc.prems by (simp add: unat_of_nat)
  then have lw: "level_words (of_nat n) = of_nat ?w" by (metis of_nat_unat ucast_id)
  have "?w \<le> 64 ^ Suc d" using Suc.prems(2) by simp
  moreover have "0 < ?w" "?w < 2 ^ 63" using Suc.prems by auto
  moreover have "total_words (Suc d) ?w \<le> k - ?w"
    using Suc.prems(4) unfolding total_words.simps(2) [of "Suc d" n]
    by (metis add.commute add_le_imp_le_diff)
  ultimately obtain levels where r: "carve_levels (Suc d) (of_nat ?w) (replicate (k - ?w) 0)
      = (replicate ((?w + 63) div 64) 0 # levels, replicate (k - ?w - total_words (Suc d) ?w) 0)"
    "levels_ok (replicate ((?w + 63) div 64) 0 # levels)"
    using Suc.IH by blast
  have "summarizes (replicate ((?w + 63) div 64) 0) (replicate ?w 0)"
    by (simp add: summarizes_def no_bits)
  then show ?case
    using r Suc.prems(4) u
    by (intro exI [of _ "replicate ((?w + 63) div 64) 0 # levels"])
      (simp add: lw Let_def min_def del: carve_levels.simps(2) add: carve_levels.simps(2) [of "Suc d"])
qed

lemma Bitmap_Initialize_ok:
  assumes "0 < n" and "n < 2 ^ 24" and "total_words (GetRequiredDepth n) n \<le> k"
  shows "\<exists>b1. Bitmap_Initialize b (replicate k 0) (of_nat n)
           = Some (b1, replicate (k - total_words (GetRequiredDepth n) n) 0) \<and>
         bitmap_ok n b1 \<and> free_offsets b1 = {}"
proof -
  have un: "unat (of_nat n :: u64) = n" using assms(2) by (simp add: unat_of_nat)
  obtain d where d: "GetRequiredDepth n = Suc d" using GetRequiredDepth_positive [of n] gr0_conv_Suc by auto
  have "GetRequiredDepth n \<le> 4" by (rule GetRequiredDepth_le) (use assms(2) in simp_all)
  moreover have "n \<le> 64 ^ Suc d" using GetRequiredDepth_enough [of n] d by simp
  ultimately obtain levels where "carve_levels (Suc d) (of_nat n) (replicate k 0)
      = (replicate ((n + 63) div 64) 0 # levels, replicate (k - total_words (Suc d) n) 0)"
    "levels_ok (replicate ((n + 63) div 64) 0 # levels)"
    using carve_levels_ok [OF assms(1), of d k] assms(2,3) d by auto
  moreover have "{i. bit_at (replicate ((n + 63) div 64) 0) i} = {}" by (simp add: no_bits)
  ultimately show ?thesis
    using bitmap_okI [where b = b and S = "{}" and k = 0] \<open>GetRequiredDepth n \<le> 4\<close>
    by (auto simp: Bitmap_Initialize_def un d MaxDepth_def Let_def simp del: carve_levels.simps)
qed

lemma overhead_words_total:
  assumes "unat n < 2 ^ 62"
  shows "overhead_words depth n = of_nat (total_words depth (unat n))"
  using assms
proof (induction depth arbitrary: n)
  case (Suc depth)
  have u: "unat (level_words n) = (unat n + 63) div 64" by (rule unat_level_words) (use Suc.prems in simp)
  then have lw: "level_words n = of_nat ((unat n + 63) div 64)" by (metis of_nat_unat ucast_id)
  have "unat (level_words n) < 2 ^ 62" using u Suc.prems by simp
  from Suc.IH [OF this] show ?case by (simp add: Let_def u) (simp add: lw)
qed simp

section \<open>The contract of a bitmap of free blocks\<close>

locale free_bitmap =
  fixes ok :: "nat \<Rightarrow> 'b \<Rightarrow> bool"
    and free :: "'b \<Rightarrow> nat set"
    and set_bit clear_bit :: "nat \<Rightarrow> 'b \<Rightarrow> 'b option"
    and clear_range :: "nat \<Rightarrow> u64 \<Rightarrow> 'b \<Rightarrow> (bool \<times> 'b) option"
    and find_free :: "bool \<Rightarrow> 'b \<Rightarrow> (nat option \<times> 'b) option"
  assumes free_below: "ok n b \<Longrightarrow> free b \<subseteq> {..<n}"
    and set_law: "ok n b \<Longrightarrow> i < n \<Longrightarrow> i \<notin> free b \<Longrightarrow>
      \<exists>b1. set_bit i b = Some b1 \<and> ok n b1 \<and> free b1 = insert i (free b)"
    and clear_law: "ok n b \<Longrightarrow> i \<in> free b \<Longrightarrow>
      \<exists>b1. clear_bit i b = Some b1 \<and> ok n b1 \<and> free b1 = free b - {i}"
    and range_law: "ok n b \<Longrightarrow> 0 < c \<Longrightarrow> c < 64 \<Longrightarrow> i mod 64 + c \<le> 64 \<Longrightarrow> i + c \<le> n \<Longrightarrow>
      \<exists>b1. clear_range i (of_nat c) b = Some ({i..<i + c} \<subseteq> free b, b1) \<and> ok n b1 \<and>
           free b1 = (if {i..<i + c} \<subseteq> free b then free b - {i..<i + c} else free b)"
    and find_law: "ok n b \<Longrightarrow>
      \<exists>found b1. find_free rnd b = Some (found, b1) \<and> ok n b1 \<and> free b1 = free b \<and>
        (case found of None \<Rightarrow> free b = {} | Some k \<Rightarrow> k \<in> free b \<and> (\<not> rnd \<longrightarrow> k = Min (free b)))"
begin

text \<open>
  Freeing a block: its bit is set, and if the whole group of \<^term>\<open>d\<close> blocks it belongs to is free
  now, the group is taken out again.
\<close>

lemma push_group:
  assumes "ok n b" and "i < n" and "i \<notin> free b" and "0 < d" and "d < 64" and "d dvd 64"
    and "i div d * d + d \<le> n"
  shows "\<exists>b1 b2. set_bit i b = Some b1 \<and>
    clear_range (i div d * d) (of_nat d) b1
      = Some ({i div d * d..<i div d * d + d} \<subseteq> insert i (free b), b2) \<and> ok n b2 \<and>
    free b2 = (if {i div d * d..<i div d * d + d} \<subseteq> insert i (free b)
               then insert i (free b) - {i div d * d..<i div d * d + d} else insert i (free b))"
proof -
  obtain b1 where b1: "set_bit i b = Some b1" "ok n b1" "free b1 = insert i (free b)"
    using set_law [OF assms(1-3)] by blast
  obtain e where e: "64 = d * e" using assms(6) by (auto simp: dvd_def)
  have "i div d * d mod 64 = (i div d mod e) * d"
    unfolding e by (metis mult.commute mod_mult_mult2)
  moreover have "i div d mod e < e" using e by (metis mod_less_divisor mult_0_right neq0_conv zero_neq_numeral)
  then have "(i div d mod e) * d + d \<le> 64"
    unfolding e by (metis Suc_leI add.commute mult.commute mult_Suc mult_le_mono1)
  ultimately have "i div d * d mod 64 + d \<le> 64" by simp
  from range_law [OF b1(2) assms(4,5) this assms(7)] b1(1) show ?thesis unfolding b1(3) by blast
qed

text \<open>Taking a block: a free one is found, if there is any, and its bit is cleared.\<close>

lemma take_block:
  assumes "ok n b"
  shows "(free b = {} \<and> (\<exists>b1. find_free rnd b = Some (None, b1) \<and> ok n b1 \<and> free b1 = free b)) \<or>
    (\<exists>k b1 b2. find_free rnd b = Some (Some k, b1) \<and> clear_bit k b1 = Some b2 \<and> k \<in> free b \<and>
       ok n b2 \<and> free b2 = free b - {k} \<and> (\<not> rnd \<longrightarrow> k = Min (free b)))"
proof -
  obtain found b1 where f: "find_free rnd b = Some (found, b1)" "ok n b1" "free b1 = free b"
    "case found of None \<Rightarrow> free b = {} | Some k \<Rightarrow> k \<in> free b \<and> (\<not> rnd \<longrightarrow> k = Min (free b))"
    using find_law [OF assms] by blast
  show ?thesis
  proof (cases found)
    case None
    with f show ?thesis by auto
  next
    case (Some k)
    with f clear_law [OF f(2), of k] show ?thesis by auto
  qed
qed

end

lemma clearable_in_word:
  "0 < c \<Longrightarrow> c < 64 \<Longrightarrow> i mod 64 + c \<le> 64 \<Longrightarrow> i + c \<le> n \<Longrightarrow> clearable n i c"
  by (auto simp: clearable_def intro: div_le_mono)

interpretation page_bits: free_bitmap bitmap_ok free_offsets SetBit ClearBit ClearRange FindFreeBlock
proof unfold_locales
  fix n b rnd
  assume "bitmap_ok n b"
  then show "\<exists>found b1. FindFreeBlock rnd b = Some (found, b1) \<and> bitmap_ok n b1 \<and>
      free_offsets b1 = free_offsets b \<and>
      (case found of None \<Rightarrow> free_offsets b = {}
       | Some k \<Rightarrow> k \<in> free_offsets b \<and> (\<not> rnd \<longrightarrow> k = Min (free_offsets b)))"
    using FindFreeBlock_ok [of n b rnd] by fastforce
next
  fix n b i c
  assume "bitmap_ok n b" and "0 < c" "c < 64" "i mod 64 + c \<le> 64" "i + c \<le> n"
  then show "\<exists>b1. ClearRange i (of_nat c) b = Some ({i..<i + c} \<subseteq> free_offsets b, b1) \<and> bitmap_ok n b1 \<and>
      free_offsets b1 = (if {i..<i + c} \<subseteq> free_offsets b then free_offsets b - {i..<i + c}
                         else free_offsets b)"
    by (intro ClearRange_ok clearable_in_word)
qed (rule SetBit_ok ClearBit_ok | simp add: bitmap_ok_def)+

section \<open>The property\<close>

text \<open>
  The bitmaps that a client of the class gets, with the set of offsets it has freed and not taken: the
  storage is zeroed and as long as the overhead asked for, bits are set that were clear and cleared
  that were set, and ranges are the asserted ones.
\<close>

inductive bitmap_reachable :: "nat \<Rightarrow> KPageBitmap \<Rightarrow> nat set \<Rightarrow> bool" for n where
  init: "0 < n \<Longrightarrow> n < 2 ^ 24 \<Longrightarrow>
    unat (Bitmap_CalculateManagementOverheadSize (of_nat n)) \<le> 8 * k \<Longrightarrow>
    Bitmap_Initialize b (replicate k 0) (of_nat n) = Some (b1, rest) \<Longrightarrow> bitmap_reachable n b1 {}"
| set: "bitmap_reachable n b S \<Longrightarrow> i < n \<Longrightarrow> i \<notin> S \<Longrightarrow> SetBit i b = Some b1 \<Longrightarrow>
    bitmap_reachable n b1 (insert i S)"
| clear: "bitmap_reachable n b S \<Longrightarrow> i \<in> S \<Longrightarrow> ClearBit i b = Some b1 \<Longrightarrow>
    bitmap_reachable n b1 (S - {i})"
| range: "bitmap_reachable n b S \<Longrightarrow> clearable n i c \<Longrightarrow>
    ClearRange i (of_nat c) b = Some (cleared, b1) \<Longrightarrow>
    bitmap_reachable n b1 (if cleared then S - {i..<i + c} else S)"
| find: "bitmap_reachable n b S \<Longrightarrow> FindFreeBlock rnd b = Some (found, b1) \<Longrightarrow> bitmap_reachable n b1 S"
| find_range: "bitmap_reachable n b S \<Longrightarrow> 0 < c \<Longrightarrow> c < 64 \<Longrightarrow>
    FindFreeRange c b = Some (place, b1) \<Longrightarrow> bitmap_reachable n b1 S"

lemma overhead_size:
  assumes "n < 2 ^ 24"
  shows "unat (Bitmap_CalculateManagementOverheadSize (of_nat n)) = 8 * total_words (GetRequiredDepth n) n"
proof -
  have un: "unat (of_nat n :: u64) = n" using assms by (simp add: unat_of_nat)
  have "GetRequiredDepth n \<le> 4" by (rule GetRequiredDepth_le) (use assms in simp_all)
  with total_words_le [of "GetRequiredDepth n" n] assms
  have small: "total_words (GetRequiredDepth n) n < 2 ^ 25" by simp
  have "overhead_words (GetRequiredDepth n) (of_nat n) = of_nat (total_words (GetRequiredDepth n) n)"
    using overhead_words_total [of "of_nat n"] assms un by simp
  then have "Bitmap_CalculateManagementOverheadSize (of_nat n)
      = of_nat (total_words (GetRequiredDepth n) n * 8)"
    by (simp add: Bitmap_CalculateManagementOverheadSize_def un)
  with small show ?thesis by (simp add: unat_of_nat del: of_nat_mult)
qed

lemma bitmap_reachable_ok:
  "bitmap_reachable n b S \<Longrightarrow> bitmap_ok n b \<and> free_offsets b = S \<and> 0 < n \<and> n < 2 ^ 24"
proof (induction rule: bitmap_reachable.induct)
  case (init k b b1 rest)
  then show ?case using Bitmap_Initialize_ok [of n k b] overhead_size [of n] by auto
next
  case (set b S i b1)
  then show ?case using SetBit_ok [of n b i] by auto
next
  case (clear b S i b1)
  then show ?case using ClearBit_ok [of n b i] by auto
next
  case (range b S i c cleared b1)
  then show ?case using ClearRange_ok [of n b i c] by auto
next
  case (find b S rnd found b1)
  then show ?case using FindFreeBlock_ok [of n b rnd] by auto
next
  case (find_range b S c place b1)
  then show ?case using FindFreeRange_ok [of n b c] by auto
qed

text \<open>
  C36: The page bitmap implements a set of free blocks.  After any sequence of operations within their
  assertions every operation is defined; the count is the size of the set; the block that is found is
  free, the lowest one when the choice is not random, and none is found exactly when there is none;
  clearing a range succeeds exactly when all of it is free; a range that is found is free, and when none
  is found no slot of a word has that many free blocks.
\<close>

theorem page_bitmap_is_a_set:
  assumes "bitmap_reachable n b S"
  shows "m_num_bits b = of_nat (card S)
    \<and> (\<forall>i < n. i \<notin> S \<longrightarrow> SetBit i b \<noteq> None) \<and> (\<forall>i \<in> S. ClearBit i b \<noteq> None)
    \<and> (\<forall>i c. clearable n i c \<longrightarrow> (\<exists>b1. ClearRange i (of_nat c) b = Some ({i..<i + c} \<subseteq> S, b1)))
    \<and> (\<exists>found b1. FindFreeBlock rnd b = Some (found, b1) \<and>
         (case found of None \<Rightarrow> S = {} | Some k \<Rightarrow> k \<in> S \<and> (\<not> rnd \<longrightarrow> k = Min S)))
    \<and> (0 < c \<and> c < 64 \<longrightarrow> (\<exists>place b1. FindFreeRange c b = Some (place, b1) \<and>
         (case place of None \<Rightarrow> \<forall>p. range_slot n c p \<longrightarrow> \<not> {p..<p + c} \<subseteq> S
          | Some p \<Rightarrow> range_slot n c p \<and> {p..<p + c} \<subseteq> S)))"
proof -
  have ok: "bitmap_ok n b" "free_offsets b = S" "0 < n" "n < 2 ^ 28"
    using bitmap_reachable_ok [OF assms] by auto
  have "m_num_bits b = of_nat (card S)" using ok(1,2) by (simp add: bitmap_ok_def)
  moreover have "\<forall>i < n. i \<notin> S \<longrightarrow> SetBit i b \<noteq> None" using SetBit_ok [OF ok(1)] ok(2) by fastforce
  moreover have "\<forall>i \<in> S. ClearBit i b \<noteq> None" using ClearBit_ok [OF ok(1)] ok(2) by fastforce
  moreover have "\<forall>i c. clearable n i c \<longrightarrow>
      (\<exists>b1. ClearRange i (of_nat c) b = Some ({i..<i + c} \<subseteq> S, b1))"
    using ClearRange_ok [OF ok(1)] ok(2) by blast
  moreover have "\<exists>found b1. FindFreeBlock rnd b = Some (found, b1) \<and>
      (case found of None \<Rightarrow> S = {} | Some k \<Rightarrow> k \<in> S \<and> (\<not> rnd \<longrightarrow> k = Min S))"
    using FindFreeBlock_ok [OF ok(1), of rnd] unfolding ok(2) by blast
  moreover have "\<exists>place b1. FindFreeRange c b = Some (place, b1) \<and>
      (case place of None \<Rightarrow> \<forall>p. range_slot n c p \<longrightarrow> \<not> {p..<p + c} \<subseteq> S
       | Some p \<Rightarrow> range_slot n c p \<and> {p..<p + c} \<subseteq> S)" if "0 < c" "c < 64"
    using FindFreeRange_ok [OF ok(1) that ok(3,4)] unfolding ok(2) by blast
  ultimately show ?thesis by blast
qed

text \<open>A bitmap of 100 blocks in two levels, with one block free in its second word.\<close>

definition example_bitmap :: "KPageBitmap option" where
  "example_bitmap =
     (case Bitmap_Initialize \<lparr>bit_storages = [], m_rng = RandomBitGenerator_init 1, m_num_bits = 0\<rparr>
             (replicate 3 0) 100 of
        None \<Rightarrow> None | Some (b, rest) \<Rightarrow> SetBit 70 b)"

theorem page_bitmap_is_a_set_witness:
  "\<exists>b. example_bitmap = Some b \<and> bitmap_reachable 100 b {70} \<and> m_num_bits b = 1 \<and>
       (\<exists>b1. FindFreeBlock False b = Some (Some 70, b1))"
proof -
  let ?init = "Bitmap_Initialize \<lparr>bit_storages = [], m_rng = RandomBitGenerator_init 1, m_num_bits = 0\<rparr>
             (replicate 3 0) 100"
  have "unat (Bitmap_CalculateManagementOverheadSize 100) = 24" by code_simp
  moreover have "\<exists>b rest. ?init = Some (b, rest)"
  proof -
    have "total_words (GetRequiredDepth 100) 100 = 3" by code_simp
    then show ?thesis using Bitmap_Initialize_ok [of 100 3] by fastforce
  qed
  then obtain b rest where b: "?init = Some (b, rest)" by blast
  ultimately have r: "bitmap_reachable 100 b {}"
    using bitmap_reachable.init [where n = 100 and k = 3] by simp
  have "\<forall>i < 100. i \<notin> {} \<longrightarrow> SetBit i b \<noteq> None"
    using page_bitmap_is_a_set [OF r] by blast
  then have "SetBit 70 b \<noteq> None" by simp
  then obtain b1 where s: "SetBit 70 b = Some b1" by blast
  have r1: "bitmap_reachable 100 b1 {70}" using bitmap_reachable.set [OF r _ _ s] by simp
  note set = page_bitmap_is_a_set [OF r1, of False 1]
  then have "m_num_bits b1 = 1" by simp
  moreover obtain found b2 where f: "FindFreeBlock False b1 = Some (found, b2)"
    "case found of None \<Rightarrow> {70 :: nat} = {} | Some k \<Rightarrow> k \<in> {70} \<and> (\<not> False \<longrightarrow> k = Min {70 :: nat})"
    using set by blast
  then have "FindFreeBlock False b1 = Some (Some 70, b2)" by (cases found) auto
  moreover have "example_bitmap = Some b1" using b s by (simp add: example_bitmap_def)
  ultimately show ?thesis using r1 by blast
qed

end
