(* ===== verification/Page_Heap.thy ===== *)
theory Page_Heap
  imports Page_Bitmap
begin

text \<open>
  The allocator of physical pages, \<^verbatim>\<open>nxemu-os/core/hle/kernel/k_page_heap.h\<close> and
  \<^verbatim>\<open>k_page_heap.cpp\<close>: eight sizes of blocks, each with a bitmap of its free blocks.  A block that
  completes a group of the next size is merged into it.  The vector of management data is cut up by
  the bitmaps that live in it; it is modelled as their levels.  Address zero means that there was no
  block.  Loops whose end depends on wrapping address arithmetic are partial functions: not returning
  is \<open>None\<close>, as is undefined behaviour.
\<close>

section \<open>Blocks of one size\<close>

definition MemoryBlockPageShifts :: "nat list" where
  "MemoryBlockPageShifts = [0xC, 0xE, 0x10, 0x15, 0x16, 0x19, 0x1D, 0x1E]"

record Block =
  m_bitmap :: KPageBitmap
  block_heap_address :: u64
  m_end_offset :: u64
  m_block_shift :: nat
  m_next_block_shift :: nat

definition Block_GetSize :: "Block \<Rightarrow> u64" where
  "Block_GetSize b = push_bit (m_block_shift b) 1"

definition Block_GetNumPages :: "Block \<Rightarrow> u64" where
  "Block_GetNumPages b = Block_GetSize b div PageSize"

definition GetNumFreeBlocks :: "Block \<Rightarrow> u64" where
  "GetNumFreeBlocks b = m_num_bits (m_bitmap b)"

definition Block_GetNumFreePages :: "Block \<Rightarrow> u64" where
  "Block_GetNumFreePages b = GetNumFreeBlocks b * Block_GetNumPages b"

definition Block_Initialize ::
    "Block \<Rightarrow> u64 \<Rightarrow> u64 \<Rightarrow> nat \<Rightarrow> nat \<Rightarrow> u64 list \<Rightarrow> (Block \<times> u64 list) option" where
  "Block_Initialize b addr n bs nbs storage =
     (let finish = addr + n;
          align = (if nbs \<noteq> 0 then push_bit nbs 1 else push_bit bs 1);
          addr1 = AlignDown addr align;
          finish1 = AlignUp finish align;
          end_offset = (finish1 - addr1) div push_bit bs 1
      in map_option
           (\<lambda>(bitmap, rest).
             (b\<lparr>m_bitmap := bitmap, block_heap_address := addr1, m_end_offset := end_offset,
                m_block_shift := bs, m_next_block_shift := nbs\<rparr>, rest))
           (Bitmap_Initialize (m_bitmap b) storage end_offset))"

text \<open>The address of the merged block, or zero.\<close>

definition PushBlock :: "u64 \<Rightarrow> Block \<Rightarrow> (u64 \<times> Block) option" where
  "PushBlock address b =
     (let offset = drop_bit (m_block_shift b) (address - block_heap_address b)
      in case SetBit (unat offset) (m_bitmap b) of
           None \<Rightarrow> None
         | Some bitmap1 \<Rightarrow>
             if m_next_block_shift b \<noteq> 0
             then
               let diff = push_bit (m_next_block_shift b - m_block_shift b) 1;
                   offset1 = AlignDown offset diff
               in case ClearRange (unat offset1) diff bitmap1 of
                    None \<Rightarrow> None
                  | Some (cleared, bitmap2) \<Rightarrow>
                      Some (if cleared then block_heap_address b + push_bit (m_block_shift b) offset1 else 0,
                            b\<lparr>m_bitmap := bitmap2\<rparr>)
             else Some (0, b\<lparr>m_bitmap := bitmap1\<rparr>))"

definition PopBlock :: "bool \<Rightarrow> Block \<Rightarrow> (u64 \<times> Block) option" where
  "PopBlock random b =
     (case FindFreeBlock random (m_bitmap b) of
        None \<Rightarrow> None
      | Some (None, bitmap1) \<Rightarrow> Some (0, b\<lparr>m_bitmap := bitmap1\<rparr>)
      | Some (Some offset, bitmap1) \<Rightarrow>
          map_option
            (\<lambda>bitmap2. (block_heap_address b + push_bit (m_block_shift b) (of_nat offset),
                        b\<lparr>m_bitmap := bitmap2\<rparr>))
            (ClearBit offset bitmap1))"

definition Block_CalculateManagementOverheadSize :: "u64 \<Rightarrow> nat \<Rightarrow> nat \<Rightarrow> u64" where
  "Block_CalculateManagementOverheadSize region_size cur_block_shift next_block_shift =
     (let cur_block_size = push_bit cur_block_shift 1;
          next_block_size = push_bit next_block_shift 1;
          align = (if next_block_shift \<noteq> 0 then next_block_size else cur_block_size)
      in Bitmap_CalculateManagementOverheadSize
           ((align * 2 + AlignUp region_size align) div cur_block_size))"

section \<open>The heap\<close>

record KPageHeap =
  page_heap_address :: u64
  page_heap_size :: u64
  m_initial_used_size :: u64
  m_num_blocks :: nat
  heap_blocks :: "Block list"
  heap_rng :: RandomBitGenerator

text \<open>A new heap; every random generator in it takes a seed of its own.\<close>

definition new_KPageHeap :: "(nat \<Rightarrow> u64) \<Rightarrow> KPageHeap" where
  "new_KPageHeap seed =
     \<lparr>page_heap_address = 0, page_heap_size = 0, m_initial_used_size = 0, m_num_blocks = 0,
      heap_blocks = map (\<lambda>i. \<lparr>m_bitmap = \<lparr>bit_storages = [], m_rng = RandomBitGenerator_init (seed i),
                                       m_num_bits = 0\<rparr>,
                           block_heap_address = 0, m_end_offset = 0, m_block_shift = 0,
                           m_next_block_shift = 0\<rparr>) [0..<8],
      heap_rng = RandomBitGenerator_init (seed 8)\<rparr>"

fun initialize_blocks ::
    "u64 \<Rightarrow> u64 \<Rightarrow> nat list \<Rightarrow> Block list \<Rightarrow> u64 list \<Rightarrow> (Block list \<times> u64 list) option" where
  "initialize_blocks address n [] blocks storage = Some (blocks, storage)"
| "initialize_blocks address n (bs # shifts) [] storage = None"
| "initialize_blocks address n (bs # shifts) (b # blocks) storage =
     (case Block_Initialize b address n bs (case shifts of [] \<Rightarrow> 0 | nbs # _ \<Rightarrow> nbs) storage of
        None \<Rightarrow> None
      | Some (b1, storage1) \<Rightarrow>
          map_option (\<lambda>(blocks1, storage2). (b1 # blocks1, storage2))
            (initialize_blocks address n shifts blocks storage1))"

text \<open>The management data of a new heap is a zeroed vector of words.\<close>

definition KPageHeap_Initialize :: "u64 \<Rightarrow> u64 \<Rightarrow> u64 \<Rightarrow> KPageHeap \<Rightarrow> KPageHeap option" where
  "KPageHeap_Initialize address n management_size h =
     map_option
       (\<lambda>(blocks, rest).
         h\<lparr>page_heap_address := address, page_heap_size := n,
           m_num_blocks := length MemoryBlockPageShifts, heap_blocks := blocks\<rparr>)
       (initialize_blocks address n MemoryBlockPageShifts (heap_blocks h)
          (replicate (unat (management_size div 8)) 0))"

definition GetNumFreePages :: "KPageHeap \<Rightarrow> u64" where
  "GetNumFreePages h = sum_list (map Block_GetNumFreePages (take (m_num_blocks h) (heap_blocks h)))"

definition GetFreeSize :: "KPageHeap \<Rightarrow> u64" where
  "GetFreeSize h = GetNumFreePages h * PageSize"

definition SetInitialUsedSize :: "u64 \<Rightarrow> KPageHeap \<Rightarrow> KPageHeap" where
  "SetInitialUsedSize reserved_size h =
     h\<lparr>m_initial_used_size := page_heap_size h - GetNumFreePages h * PageSize - reserved_size\<rparr>"

definition GetPageOffset :: "KPageHeap \<Rightarrow> u64 \<Rightarrow> u64" where
  "GetPageOffset h block = (block - page_heap_address h) div PageSize"

definition GetPageOffsetToEnd :: "KPageHeap \<Rightarrow> u64 \<Rightarrow> u64" where
  "GetPageOffsetToEnd h block = (page_heap_address h + page_heap_size h - block) div PageSize"

definition GetBlockSize :: "nat \<Rightarrow> u64" where
  "GetBlockSize index = push_bit (MemoryBlockPageShifts ! index) 1"

definition GetBlockNumPages :: "nat \<Rightarrow> u64" where
  "GetBlockNumPages index = GetBlockSize index div PageSize"

text \<open>\<^verbatim>\<open>-1\<close> is \<open>None\<close>.\<close>

definition GetAlignedBlockIndex :: "u64 \<Rightarrow> u64 \<Rightarrow> nat option" where
  "GetAlignedBlockIndex num_pages align_pages =
     (let target_pages = max num_pages align_pages
      in List.find (\<lambda>i. target_pages \<le> push_bit (MemoryBlockPageShifts ! i) 1 div PageSize)
           [0..<length MemoryBlockPageShifts])"

definition GetBlockIndex :: "u64 \<Rightarrow> nat option" where
  "GetBlockIndex num_pages =
     List.find (\<lambda>i. num_pages \<ge> push_bit (MemoryBlockPageShifts ! i) 1 div PageSize)
       (rev [0..<length MemoryBlockPageShifts])"

section \<open>Freeing\<close>

function FreeBlock :: "u64 \<Rightarrow> nat \<Rightarrow> KPageHeap \<Rightarrow> KPageHeap option" where
  "FreeBlock block index h =
     (if index < length (heap_blocks h)
      then case PushBlock block (heap_blocks h ! index) of
             None \<Rightarrow> None
           | Some (block1, b) \<Rightarrow>
               let h1 = h\<lparr>heap_blocks := (heap_blocks h)[index := b]\<rparr>
               in if block1 \<noteq> 0 then FreeBlock block1 (index + 1) h1 else Some h1
      else None)"
  by pat_completeness auto
termination by (relation "measure (\<lambda>(block, index, h). length (heap_blocks h) - index)") auto

declare FreeBlock.simps [simp del]

text \<open>The largest blocks that fit, from the biggest size down.\<close>

fun find_big :: "nat \<Rightarrow> u64 \<Rightarrow> u64 \<Rightarrow> KPageHeap \<Rightarrow> (nat \<times> u64 \<times> u64) option" where
  "find_big 0 start finish h = None"
| "find_big (Suc big_index) start finish h =
     (let block_size = Block_GetSize (heap_blocks h ! big_index);
          big_start = AlignUp start block_size;
          big_end = AlignDown finish block_size
      in if big_start < big_end then Some (big_index, big_start, big_end)
         else find_big big_index start finish h)"

partial_function (option) free_run ::
    "u64 \<Rightarrow> u64 \<Rightarrow> u64 \<Rightarrow> nat \<Rightarrow> KPageHeap \<Rightarrow> KPageHeap option" where
  "free_run block big_end block_size index h =
     (if block < big_end
      then Option.bind (FreeBlock block index h)
             (\<lambda>h1. free_run (block + block_size) big_end block_size index h1)
      else Some h)"

text \<open>The space before the big blocks is freed towards lower addresses, the space after them upwards.\<close>

partial_function (option) free_down ::
    "u64 \<Rightarrow> u64 \<Rightarrow> u64 \<Rightarrow> nat \<Rightarrow> KPageHeap \<Rightarrow> (u64 \<times> KPageHeap) option" where
  "free_down before_start before_end block_size index h =
     (if before_start + block_size \<le> before_end
      then Option.bind (FreeBlock (before_end - block_size) index h)
             (\<lambda>h1. free_down before_start (before_end - block_size) block_size index h1)
      else Some (before_end, h))"

partial_function (option) free_up ::
    "u64 \<Rightarrow> u64 \<Rightarrow> u64 \<Rightarrow> nat \<Rightarrow> KPageHeap \<Rightarrow> (u64 \<times> KPageHeap) option" where
  "free_up after_start after_end block_size index h =
     (if after_start + block_size \<le> after_end
      then Option.bind (FreeBlock after_start index h)
             (\<lambda>h1. free_up (after_start + block_size) after_end block_size index h1)
      else Some (after_start, h))"

fun free_before :: "nat \<Rightarrow> u64 \<Rightarrow> u64 \<Rightarrow> KPageHeap \<Rightarrow> KPageHeap option" where
  "free_before 0 before_start before_end h = Some h"
| "free_before (Suc i) before_start before_end h =
     Option.bind (free_down before_start before_end (Block_GetSize (heap_blocks h ! i)) i h)
       (\<lambda>(before_end1, h1). free_before i before_start before_end1 h1)"

fun free_after :: "nat \<Rightarrow> u64 \<Rightarrow> u64 \<Rightarrow> KPageHeap \<Rightarrow> KPageHeap option" where
  "free_after 0 after_start after_end h = Some h"
| "free_after (Suc i) after_start after_end h =
     Option.bind (free_up after_start after_end (Block_GetSize (heap_blocks h ! i)) i h)
       (\<lambda>(after_start1, h1). free_after i after_start1 after_end h1)"

text \<open>When no block fits the function only asserts, and its later loops do not run.\<close>

definition KPageHeap_Free :: "u64 \<Rightarrow> u64 \<Rightarrow> KPageHeap \<Rightarrow> KPageHeap option" where
  "KPageHeap_Free addr num_pages h =
     (if num_pages = 0 then Some h
      else
        let finish = addr + num_pages * PageSize
        in case find_big (m_num_blocks h) addr finish h of
             None \<Rightarrow> Some h
           | Some (big_index, big_start, big_end) \<Rightarrow>
               Option.bind (free_run big_start big_end (Block_GetSize (heap_blocks h ! big_index)) big_index h)
                 (\<lambda>h1. Option.bind (free_before big_index addr big_start h1)
                   (\<lambda>h2. free_after big_index big_end finish h2)))"

section \<open>Allocating\<close>

fun linear_search :: "u64 \<Rightarrow> nat list \<Rightarrow> KPageHeap \<Rightarrow> (u64 \<times> KPageHeap) option" where
  "linear_search needed_size [] h = Some (0, h)"
| "linear_search needed_size (i # is) h =
     (case PopBlock False (heap_blocks h ! i) of
        None \<Rightarrow> None
      | Some (addr, b) \<Rightarrow>
          let h1 = h\<lparr>heap_blocks := (heap_blocks h)[i := b]\<rparr>;
              allocated_size = Block_GetSize b
          in if addr \<noteq> 0
             then if allocated_size > needed_size
                  then map_option (Pair addr)
                         (KPageHeap_Free (addr + needed_size) ((allocated_size - needed_size) div PageSize) h1)
                  else Some (addr, h1)
             else linear_search needed_size is h1)"

definition AllocateByLinearSearch :: "nat \<Rightarrow> KPageHeap \<Rightarrow> (u64 \<times> KPageHeap) option" where
  "AllocateByLinearSearch index h =
     (if index < length (heap_blocks h)
      then linear_search (Block_GetSize (heap_blocks h ! index)) [index..<m_num_blocks h] h
      else None)"

text \<open>The alignments blocks of one size offer, and the two loops that choose the size.\<close>

definition block_alignments :: "u64 \<Rightarrow> nat \<Rightarrow> Block \<Rightarrow> u64" where
  "block_alignments needed_size align_shift b =
     (1 + drop_bit align_shift (Block_GetSize b - needed_size)) * GetNumFreeBlocks b"

fun count_alignments ::
    "u64 \<Rightarrow> nat \<Rightarrow> KPageHeap \<Rightarrow> nat list \<Rightarrow> u64 \<Rightarrow> nat \<Rightarrow> u64 \<times> nat" where
  "count_alignments needed_size align_shift h [] possible max_blocks = (possible, max_blocks)"
| "count_alignments needed_size align_shift h (i # is) possible max_blocks =
     (let possible1 = possible + block_alignments needed_size align_shift (heap_blocks h ! i)
      in if possible1 \<ge> 4 then (possible1, i + 1)
         else count_alignments needed_size align_shift h is possible1 max_blocks)"

fun pick_block :: "u64 \<Rightarrow> nat \<Rightarrow> KPageHeap \<Rightarrow> u64 \<Rightarrow> nat list \<Rightarrow> u64 \<Rightarrow> nat \<Rightarrow> nat" where
  "pick_block needed_size align_shift h rnd [] possible index = index"
| "pick_block needed_size align_shift h rnd (i # is) possible index =
     (let possible1 = possible + block_alignments needed_size align_shift (heap_blocks h ! i)
      in if rnd < possible1 then i
         else pick_block needed_size align_shift h rnd is possible1 index)"

definition choose_index ::
    "nat \<Rightarrow> u64 \<Rightarrow> nat \<Rightarrow> KPageHeap \<Rightarrow> (nat \<times> KPageHeap) option" where
  "choose_index index needed_size align_shift h =
     (let (possible, max_blocks) =
            count_alignments needed_size align_shift h [index..<m_num_blocks h] 0 (m_num_blocks h)
      in if possible > 0 \<and> index + 1 < max_blocks
         then case GenerateRandom possible (heap_rng h) of
                None \<Rightarrow> None
              | Some (rnd, r) \<Rightarrow>
                  Some (pick_block needed_size align_shift h rnd [index..<max_blocks] 0 index,
                        h\<lparr>heap_rng := r\<rparr>)
         else Some (index, h))"

text \<open>What is left of the block before and after the chosen alignment is freed.\<close>

definition free_leftover ::
    "u64 \<Rightarrow> u64 \<Rightarrow> u64 \<Rightarrow> nat \<Rightarrow> KPageHeap \<Rightarrow> (u64 \<times> KPageHeap) option" where
  "free_leftover addr needed_size leftover_size align_shift h =
     (let possible_alignments = 1 + drop_bit align_shift leftover_size
      in case GenerateRandom possible_alignments (heap_rng h) of
           None \<Rightarrow> None
         | Some (rnd, r) \<Rightarrow>
             let random_offset = push_bit align_shift rnd;
                 h1 = h\<lparr>heap_rng := r\<rparr>;
                 addr1 = addr + random_offset
             in Option.bind (if random_offset \<noteq> 0 then KPageHeap_Free addr (random_offset div PageSize) h1
                             else Some h1)
                  (\<lambda>h2. map_option (Pair addr1)
                    (if random_offset \<noteq> leftover_size
                     then KPageHeap_Free (addr1 + needed_size) ((leftover_size - random_offset) div PageSize) h2
                     else Some h2)))"

definition AllocateByRandom :: "nat \<Rightarrow> u64 \<Rightarrow> u64 \<Rightarrow> KPageHeap \<Rightarrow> (u64 \<times> KPageHeap) option" where
  "AllocateByRandom index num_pages align_pages h =
     (let needed_size = num_pages * PageSize;
          align_size = align_pages * PageSize;
          align_shift = countr_zero align_size
      in if align_shift \<ge> 64 then None
         else Option.bind (choose_index index needed_size align_shift h) (\<lambda>(index1, h1).
           if index1 < length (heap_blocks h1)
           then case PopBlock True (heap_blocks h1 ! index1) of
                  None \<Rightarrow> None
                | Some (addr, b) \<Rightarrow>
                    let h2 = h1\<lparr>heap_blocks := (heap_blocks h1)[index1 := b]\<rparr>;
                        leftover_size = Block_GetSize b - needed_size
                    in if addr \<noteq> 0
                       then if leftover_size > 0 then free_leftover addr needed_size leftover_size align_shift h2
                            else Some (addr, h2)
                       else Some (0, h2)
           else None))"

definition AllocateBlock :: "nat \<Rightarrow> bool \<Rightarrow> KPageHeap \<Rightarrow> (u64 \<times> KPageHeap) option" where
  "AllocateBlock index random h =
     (if random
      then if index < length (heap_blocks h)
           then let block_pages = Block_GetNumPages (heap_blocks h ! index)
                in AllocateByRandom index block_pages block_pages h
           else None
      else AllocateByLinearSearch index h)"

definition AllocateAligned :: "nat \<Rightarrow> u64 \<Rightarrow> u64 \<Rightarrow> KPageHeap \<Rightarrow> (u64 \<times> KPageHeap) option" where
  "AllocateAligned index num_pages align_pages h = AllocateByRandom index num_pages align_pages h"

text \<open>The size of the management data.\<close>

fun overhead_sum :: "u64 \<Rightarrow> nat list \<Rightarrow> u64" where
  "overhead_sum region_size [] = 0"
| "overhead_sum region_size (bs # shifts) =
     Block_CalculateManagementOverheadSize region_size bs (case shifts of [] \<Rightarrow> 0 | nbs # _ \<Rightarrow> nbs)
     + overhead_sum region_size shifts"

definition Heap_CalculateManagementOverheadSize :: "u64 \<Rightarrow> u64" where
  "Heap_CalculateManagementOverheadSize region_size =
     AlignUp (overhead_sum region_size MemoryBlockPageShifts) PageSize"

end
