(* ===== verification/Page_Heap_Props.thy ===== *)
theory Page_Heap_Props
  imports Page_Heap Page_Bitmap_Props
begin

text \<open>
  The page heap is a set of free pages.  Addresses of pages are moved to page numbers; a block of a
  size is a number too, its address divided by its size.  The invariant says that the free blocks are
  disjoint and inside the heap and that no group of blocks that could be merged is left.
\<close>

section \<open>Pages\<close>

text \<open>Pages of a block of each size, and the blocks of a group of the next size.\<close>

definition block_pages :: "nat \<Rightarrow> nat" where
  "block_pages i = 2 ^ (MemoryBlockPageShifts ! i - 12)"

definition page_adr :: "nat \<Rightarrow> u64" where
  "page_adr p = of_nat (p * 4096)"

definition pages_at :: "nat \<Rightarrow> nat \<Rightarrow> nat set" where
  "pages_at i q = {q * block_pages i..<q * block_pages i + block_pages i}"

definition group_size :: "nat \<Rightarrow> nat" where
  "group_size i = block_pages (Suc i) div block_pages i"

lemma shifts_list: "MemoryBlockPageShifts = [12, 14, 16, 21, 22, 25, 29, 30]"
  by (simp add: MemoryBlockPageShifts_def)

lemma lt8: "i < 8 \<longleftrightarrow> i \<in> {0, 1, 2, 3, 4, 5, 6, 7 :: nat}"
  by auto

lemma block_pages_values:
  "block_pages 0 = 1" "block_pages 1 = 4" "block_pages (Suc 0) = 4" "block_pages 2 = 16"
  "block_pages (Suc (Suc 0)) = 16"
  "block_pages 3 = 512" "block_pages 4 = 1024" "block_pages 5 = 8192" "block_pages 6 = 131072"
  "block_pages 7 = 262144"
  by (simp_all add: block_pages_def shifts_list)

lemma shift_values:
  "MemoryBlockPageShifts ! 0 = 12" "MemoryBlockPageShifts ! 1 = 14"
  "MemoryBlockPageShifts ! Suc 0 = 14" "MemoryBlockPageShifts ! Suc (Suc 0) = 16"
  "MemoryBlockPageShifts ! 2 = 16"
  "MemoryBlockPageShifts ! 3 = 21" "MemoryBlockPageShifts ! 4 = 22" "MemoryBlockPageShifts ! 5 = 25"
  "MemoryBlockPageShifts ! 6 = 29" "MemoryBlockPageShifts ! 7 = 30"
  by (simp_all add: shifts_list)

lemma shift_bounds: "i < 8 \<Longrightarrow> 12 \<le> MemoryBlockPageShifts ! i \<and> MemoryBlockPageShifts ! i \<le> 30"
  by (auto simp: lt8 shifts_list)

lemma block_pages_shift: "i < 8 \<Longrightarrow> 2 ^ (MemoryBlockPageShifts ! i) = block_pages i * 4096"
  by (auto simp: lt8 block_pages_values shift_values)

lemma block_pages_pos [simp]: "0 < block_pages i"
  by (simp add: block_pages_def)

lemma block_pages_le: "i < 8 \<Longrightarrow> block_pages i \<le> 262144"
  by (auto simp: lt8 block_pages_values)

lemma group:
  assumes "i < 7"
  shows "block_pages (Suc i) = block_pages i * group_size i" and "1 < group_size i"
    and "group_size i < 64" and "group_size i dvd 64"
    and "MemoryBlockPageShifts ! Suc i - MemoryBlockPageShifts ! i < 6"
    and "group_size i = 2 ^ (MemoryBlockPageShifts ! Suc i - MemoryBlockPageShifts ! i)"
proof -
  have "i \<in> {0, 1, 2, 3, 4, 5, 6}" using assms by auto
  then have "block_pages (Suc i) = block_pages i * group_size i \<and> 1 < group_size i \<and> group_size i < 64 \<and>
      group_size i dvd 64 \<and> MemoryBlockPageShifts ! Suc i - MemoryBlockPageShifts ! i < 6 \<and>
      group_size i = 2 ^ (MemoryBlockPageShifts ! Suc i - MemoryBlockPageShifts ! i)"
    by (elim insertE emptyE) (simp_all add: group_size_def block_pages_values shift_values)
  then show "block_pages (Suc i) = block_pages i * group_size i" and "1 < group_size i"
    and "group_size i < 64" and "group_size i dvd 64"
    and "MemoryBlockPageShifts ! Suc i - MemoryBlockPageShifts ! i < 6"
    and "group_size i = 2 ^ (MemoryBlockPageShifts ! Suc i - MemoryBlockPageShifts ! i)"
    by blast+
qed

section \<open>Addresses of pages\<close>

lemma unat_page_adr: "p < 2 ^ 52 \<Longrightarrow> unat (page_adr p) = p * 4096"
  by (simp add: page_adr_def unat_of_nat del: of_nat_mult)

lemma page_adr_add: "page_adr p + page_adr q = page_adr (p + q)"
  by (simp add: page_adr_def algebra_simps)

lemma page_adr_diff: "q \<le> p \<Longrightarrow> page_adr p - page_adr q = page_adr (p - q)"
  by (simp add: page_adr_def of_nat_diff algebra_simps)

lemma page_adr_0 [simp]: "page_adr 0 = 0"
  by (simp add: page_adr_def)

lemma page_adr_less: "p < 2 ^ 52 \<Longrightarrow> q < 2 ^ 52 \<Longrightarrow> page_adr p < page_adr q \<longleftrightarrow> p < q"
  by (simp add: word_less_nat_alt unat_page_adr)

lemma page_adr_le: "p < 2 ^ 52 \<Longrightarrow> q < 2 ^ 52 \<Longrightarrow> page_adr p \<le> page_adr q \<longleftrightarrow> p \<le> q"
  by (simp add: word_le_nat_alt unat_page_adr)

lemma page_adr_eq: "p < 2 ^ 52 \<Longrightarrow> q < 2 ^ 52 \<Longrightarrow> page_adr p = page_adr q \<longleftrightarrow> p = q"
  by (metis mult_cancel2 unat_page_adr zero_neq_numeral)

lemma page_adr_nonzero: "0 < p \<Longrightarrow> p < 2 ^ 52 \<Longrightarrow> page_adr p \<noteq> 0"
  using page_adr_eq [of p 0] by simp

lemma page_adr_push:
  assumes "i < 8"
  shows "push_bit (MemoryBlockPageShifts ! i) (of_nat k) = page_adr (k * block_pages i)"
proof -
  have "page_adr (k * block_pages i) = of_nat (k * 2 ^ (MemoryBlockPageShifts ! i))"
    by (simp only: page_adr_def mult.assoc block_pages_shift [OF assms])
  then show ?thesis by (simp add: push_bit_eq_mult)
qed

lemma page_adr_size: "i < 8 \<Longrightarrow> push_bit (MemoryBlockPageShifts ! i) 1 = page_adr (block_pages i)"
  using page_adr_push [of i 1] by simp

lemma page_adr_drop:
  assumes "i < 8" and "k * block_pages i < 2 ^ 52"
  shows "drop_bit (MemoryBlockPageShifts ! i) (page_adr (k * block_pages i)) = of_nat k"
proof -
  have "unat (drop_bit (MemoryBlockPageShifts ! i) (page_adr (k * block_pages i)))
      = k * block_pages i * 4096 div 2 ^ (MemoryBlockPageShifts ! i)"
    by (simp only: unat_drop_bit_eq drop_bit_eq_div [where 'a = nat] unat_page_adr [OF assms(2)])
  also have "\<dots> = k" using block_pages_shift [OF assms(1)] by (simp add: mult.assoc)
  finally show ?thesis by (metis of_nat_unat ucast_id)
qed

lemma AlignUp_pages:
  assumes "0 < m" and "m \<le> 2 ^ 20" and "p < 2 ^ 50"
  shows "AlignUp (page_adr p) (page_adr m) = page_adr ((p + m - 1) div m * m)"
proof -
  have m: "unat (page_adr m) = m * 4096" and p: "unat (page_adr p) = p * 4096"
    using assms by (simp_all add: unat_page_adr)
  have r: "(p + m - 1) div m * m \<le> p + m - 1" by simp
  have "unat (AlignUp (page_adr p) (page_adr m)) = (p * 4096 + (m * 4096 - 1)) div (m * 4096) * (m * 4096)"
    using assms by (subst unat_AlignUp) (simp_all add: m p)
  also have "(p * 4096 + (m * 4096 - 1)) div (m * 4096) = (p + m - 1) div m"
  proof -
    have "p * 4096 + (m * 4096 - 1) = (p + m - 1) * 4096 + 4095" using assms(1) by (cases m) simp_all
    then have "(p * 4096 + (m * 4096 - 1)) div 4096 = p + m - 1" by simp
    then show ?thesis by (metis div_mult2_eq mult.commute)
  qed
  also have "(p + m - 1) div m * (m * 4096) = (p + m - 1) div m * m * 4096" by simp
  also have "\<dots> = unat (page_adr ((p + m - 1) div m * m))"
    by (rule unat_page_adr [symmetric], rule le_less_trans [OF r]) (use assms in simp)
  finally show ?thesis by (simp add: word_unat_eq_iff)
qed

lemma AlignDown_pages:
  assumes "0 < m" and "m \<le> 2 ^ 20" and "p < 2 ^ 50"
  shows "AlignDown (page_adr p) (page_adr m) = page_adr (p div m * m)"
proof -
  have m: "unat (page_adr m) = m * 4096" and p: "unat (page_adr p) = p * 4096"
    using assms by (simp_all add: unat_page_adr)
  have r: "p div m * m \<le> p" by simp
  have "unat (AlignDown (page_adr p) (page_adr m)) = p * 4096 - p * 4096 mod (m * 4096)"
    by (simp add: unat_AlignDown m p)
  also have "\<dots> = (p - p mod m) * 4096" by (simp add: mod_mult_mult2 diff_mult_distrib)
  also have "p - p mod m = p div m * m" by (metis minus_mod_eq_div_mult)
  also have "p div m * m * 4096 = unat (page_adr (p div m * m))"
    by (rule unat_page_adr [symmetric], rule le_less_trans [OF r]) (use assms(3) in simp)
  finally show ?thesis by (simp add: word_unat_eq_iff)
qed

section \<open>Sets of blocks\<close>

text \<open>The free blocks of each size, by number.  A page belongs to the block it is divided into.\<close>

type_synonym Blocks = "nat \<Rightarrow> nat set"

definition free_pages :: "Blocks \<Rightarrow> nat set" where
  "free_pages T = {p. \<exists>i < 8. p div block_pages i \<in> T i}"

definition unique_blocks :: "Blocks \<Rightarrow> bool" where
  "unique_blocks T \<longleftrightarrow> (\<forall>p. \<forall>i < 8. \<forall>j < 8.
     p div block_pages i \<in> T i \<longrightarrow> p div block_pages j \<in> T j \<longrightarrow> i = j)"

definition group_of :: "nat \<Rightarrow> nat \<Rightarrow> nat set" where
  "group_of i g = {g * group_size i..<g * group_size i + group_size i}"

definition merged :: "Blocks \<Rightarrow> bool" where
  "merged T \<longleftrightarrow> (\<forall>i < 7. \<forall>g. \<not> group_of i g \<subseteq> T i)"

lemma div_range: "0 < m \<Longrightarrow> q * m \<le> p \<and> p < q * m + m \<longleftrightarrow> p div m = (q :: nat)"
proof
  show "0 < m \<Longrightarrow> q * m \<le> p \<and> p < q * m + m \<Longrightarrow> p div m = q"
    by (rule div_nat_eqI) (simp_all add: mult.commute)
  show "0 < m \<Longrightarrow> p div m = q \<Longrightarrow> q * m \<le> p \<and> p < q * m + m"
    using div_times_less_eq_dividend [of p m] dividend_less_div_times [of m p] by auto
qed

lemma in_block: "p \<in> pages_at i q \<longleftrightarrow> p div block_pages i = q"
  using div_range [of "block_pages i" q p] by (simp add: pages_at_def)

lemma in_group: "i < 7 \<Longrightarrow> r \<in> group_of i g \<longleftrightarrow> r div group_size i = g"
  using div_range [of "group_size i" g r] group(2) [of i] by (simp add: group_of_def)

lemma div_next: "i < 7 \<Longrightarrow> p div block_pages (Suc i) = p div block_pages i div group_size i"
  by (simp add: group(1) div_mult2_eq)

text \<open>A new block whose pages are not free.\<close>

lemma insert_block:
  assumes "unique_blocks T" and "i < 8" and "\<And>p. p div block_pages i = q \<Longrightarrow> p \<notin> free_pages T"
  shows "unique_blocks (T(i := insert q (T i)))"
    and "free_pages (T(i := insert q (T i))) = free_pages T \<union> pages_at i q"
proof -
  show "unique_blocks (T(i := insert q (T i)))"
    using assms by (auto simp: unique_blocks_def free_pages_def)
  have "(\<exists>j < 8. p div block_pages j \<in> (T(i := insert q (T i))) j) \<longleftrightarrow>
      (\<exists>j < 8. p div block_pages j \<in> T j) \<or> p div block_pages i = q" for p
    using assms(2) by (metis (no_types) fun_upd_apply insert_iff)
  then show "free_pages (T(i := insert q (T i))) = free_pages T \<union> pages_at i q"
    by (auto simp: free_pages_def in_block)
qed

text \<open>Taking a block out.\<close>

lemma remove_blocks:
  assumes "unique_blocks T" and "i < 8" and "S \<subseteq> T i"
  shows "unique_blocks (T(i := T i - S))"
    and "free_pages (T(i := T i - S)) = free_pages T - (\<Union>q \<in> S. pages_at i q)"
  using assms by (auto simp: unique_blocks_def free_pages_def in_block)

lemma merged_remove: "merged T \<Longrightarrow> merged (T(i := T i - S))"
  by (auto simp: merged_def)

text \<open>
  An aligned run of free pages that is only covered by smaller blocks contradicts merging: each part of
  it of the next smaller size must be a block, and so they are a group.
\<close>

lemma merged_covers:
  assumes "merged T" and "i < 8" and "\<And>p. p div block_pages i = q \<Longrightarrow> \<exists>j < i. p div block_pages j \<in> T j"
  shows False
  using assms(2,3)
proof (induction i arbitrary: q)
  case 0
  then show False by (metis block_pages_pos nonzero_mult_div_cancel_right not_less0 less_numeral_extra(3))
next
  case (Suc i)
  have "r \<in> T i" if "r div group_size i = q" for r
  proof (rule ccontr)
    assume "r \<notin> T i"
    have "\<exists>j < i. p div block_pages j \<in> T j" if "p div block_pages i = r" for p
    proof -
      have "p div block_pages (Suc i) = q"
        using that \<open>r div group_size i = q\<close> Suc.prems(1) by (simp add: div_next)
      from Suc.prems(2) [OF this] that \<open>r \<notin> T i\<close> show ?thesis by (metis less_Suc_eq)
    qed
    with Suc.IH [of r] Suc.prems(1) show False by simp
  qed
  then have "group_of i q \<subseteq> T i" using Suc.prems(1) by (auto simp: in_group)
  with assms(1) Suc.prems(1) show False by (simp add: merged_def)
qed

lemma group_pages: "i < 7 \<Longrightarrow> (\<Union>r \<in> group_of i g. pages_at i r) = pages_at (Suc i) g"
  by (auto simp: in_block in_group div_next)

lemma free_pages_card:
  assumes "unique_blocks T" and "\<And>i. i < 8 \<Longrightarrow> finite (T i)"
  shows "card (free_pages T) = (\<Sum>i < 8. card (T i) * block_pages i)"
proof -
  have fin: "finite (\<Union>q \<in> T i. pages_at i q)" if "i < 8" for i
    using assms(2) [OF that] by (simp add: pages_at_def)
  have "free_pages T = (\<Union>i < 8. \<Union>q \<in> T i. pages_at i q)" by (auto simp: free_pages_def in_block)
  also have "card \<dots> = (\<Sum>i < 8. card (\<Union>q \<in> T i. pages_at i q))"
    using assms(1) fin by (intro card_UN_disjoint) (auto simp: unique_blocks_def in_block)
  also have "\<dots> = (\<Sum>i < 8. card (T i) * block_pages i)"
  proof (rule sum.cong [OF refl])
    fix i :: nat assume "i \<in> {..<8}"
    then have "card (\<Union>q \<in> T i. pages_at i q) = (\<Sum>q \<in> T i. card (pages_at i q))"
      using assms(2) by (intro card_UN_disjoint) (auto simp: in_block, simp add: pages_at_def)
    then show "card (\<Union>q \<in> T i. pages_at i q) = card (T i) * block_pages i" by (simp add: pages_at_def)
  qed
  finally show ?thesis .
qed

section \<open>A block manager of one size\<close>

text \<open>
  The heap spans the pages from \<^term>\<open>A\<close> to \<^term>\<open>A + N\<close>.  A size manages the range rounded to the
  next size; it begins with block \<^term>\<open>base_block A i\<close>.  The heap begins at 1 GiB or above, so that
  no block has address zero, and is at most 32 GiB long, so that the bitmaps have at most four levels.
\<close>

definition region_ok :: "nat \<Rightarrow> nat \<Rightarrow> bool" where
  "region_ok A N \<longleftrightarrow> 2 ^ 18 \<le> A \<and> A \<le> 2 ^ 40 \<and> 0 < N \<and> N \<le> 2 ^ 23"

definition align_pages :: "nat \<Rightarrow> nat" where
  "align_pages i = (if i < 7 then block_pages (Suc i) else block_pages i)"

definition base_page :: "nat \<Rightarrow> nat \<Rightarrow> nat" where
  "base_page A i = A div align_pages i * align_pages i"

definition base_block :: "nat \<Rightarrow> nat \<Rightarrow> nat" where
  "base_block A i = base_page A i div block_pages i"

definition num_offsets :: "nat \<Rightarrow> nat \<Rightarrow> nat \<Rightarrow> nat" where
  "num_offsets A N i =
     ((A + N + align_pages i - 1) div align_pages i * align_pages i - base_page A i) div block_pages i"

definition block_ok :: "nat \<Rightarrow> nat \<Rightarrow> nat \<Rightarrow> Block \<Rightarrow> bool" where
  "block_ok A N i b \<longleftrightarrow>
     block_heap_address b = page_adr (base_page A i) \<and> m_block_shift b = MemoryBlockPageShifts ! i \<and>
     m_next_block_shift b = (if i < 7 then MemoryBlockPageShifts ! Suc i else 0) \<and>
     bitmap_ok (num_offsets A N i) (m_bitmap b)"

definition block_set :: "nat \<Rightarrow> nat \<Rightarrow> Block \<Rightarrow> nat set" where
  "block_set A i b = (\<lambda>o'. o' + base_block A i) ` free_offsets (m_bitmap b)"

definition in_region :: "nat \<Rightarrow> nat \<Rightarrow> nat \<Rightarrow> nat \<Rightarrow> bool" where
  "in_region A N i q \<longleftrightarrow> A \<le> q * block_pages i \<and> q * block_pages i + block_pages i \<le> A + N"

lemma align_pages_multiple: "i < 8 \<Longrightarrow> \<exists>k. align_pages i = block_pages i * k \<and> 0 < k"
  using group(1,2) [of i] by (auto simp: align_pages_def intro: exI [of _ 1])

lemma align_pages_pos [simp]: "0 < align_pages i"
  by (simp add: align_pages_def)

lemma align_pages_le: "i < 8 \<Longrightarrow> align_pages i \<le> 262144"
  using block_pages_le [of i] block_pages_le [of "Suc i"] by (auto simp: align_pages_def)

lemma base_page_eq: "i < 8 \<Longrightarrow> base_page A i = base_block A i * block_pages i"
  using align_pages_multiple [of i] by (auto simp: base_block_def base_page_def)

lemma base_page_le: "base_page A i \<le> A"
  by (simp add: base_page_def)

lemma base_page_pos: "region_ok A N \<Longrightarrow> i < 8 \<Longrightarrow> 0 < base_page A i"
  using align_pages_le [of i] by (simp add: base_page_def region_ok_def div_greater_zero_iff)

lemma base_block_group: "i < 7 \<Longrightarrow> base_block A i mod group_size i = 0"
proof -
  assume i: "i < 7"
  have "base_page A i = A div block_pages (Suc i) * group_size i * block_pages i"
    using i group(1) by (simp add: base_page_def align_pages_def)
  then show ?thesis by (simp add: base_block_def)
qed

lemma round_up: "0 < m \<Longrightarrow> x \<le> (x + m - 1) div m * (m :: nat)"
proof -
  assume m: "0 < m"
  have "x + m - 1 < (x + m - 1) div m * m + m" using dividend_less_div_times [OF m] by (simp add: add.commute)
  with m show ?thesis by linarith
qed

text \<open>Blocks of the region have offsets in the bitmap, and so have the groups they are in.\<close>

lemma in_region_offset:
  assumes "i < 8" and "in_region A N i q"
  shows "base_block A i \<le> q" and "q - base_block A i < num_offsets A N i"
    and "i < 7 \<Longrightarrow> q div group_size i * group_size i + group_size i \<le> base_block A i + num_offsets A N i"
proof -
  let ?m = "block_pages i" and ?a = "align_pages i"
  let ?E = "(A + N + ?a - 1) div ?a * ?a"
  obtain k where k: "?a = ?m * k" "0 < k" using align_pages_multiple [OF assms(1)] by blast
  have b: "base_page A i = base_block A i * ?m" by (rule base_page_eq [OF assms(1)])
  have q: "A \<le> q * ?m" "q * ?m + ?m \<le> A + N" using assms(2) by (simp_all add: in_region_def)
  have "base_block A i * ?m \<le> q * ?m" using base_page_le [of A i] b q(1) by linarith
  then show le: "base_block A i \<le> q" by (simp only: mult_le_cancel2 block_pages_pos)
  define e where "e = (A + N + ?a - 1) div ?a * k"
  have e: "?E = e * ?m" by (simp add: e_def k(1))
  then have n: "num_offsets A N i = e - base_block A i"
    unfolding num_offsets_def b by (simp add: diff_mult_distrib [symmetric])
  have "A + N \<le> e * ?m" using round_up [of ?a "A + N"] e by simp
  with q(2) have "Suc q * ?m \<le> e * ?m" by simp
  then have lt: "q < e" by (metis Suc_le_eq block_pages_pos mult_le_cancel2 not_gr_zero)
  with le n show "q - base_block A i < num_offsets A N i" by simp
  show "q div group_size i * group_size i + group_size i \<le> base_block A i + num_offsets A N i" if i: "i < 7"
  proof -
    have "k = group_size i"
      using k(1) i group(1) [OF i] block_pages_pos [of i]
      by (auto simp: align_pages_def simp del: block_pages_pos)
    then have "e = (e div group_size i) * group_size i" using k(2) by (simp add: e_def)
    moreover have "q div group_size i < e div group_size i"
      using lt \<open>k = group_size i\<close> k(2) by (simp add: e_def less_mult_imp_div_less)
    then have "(q div group_size i + 1) * group_size i \<le> e div group_size i * group_size i"
      by (intro mult_le_mono1) simp
    ultimately have "q div group_size i * group_size i + group_size i \<le> e" by simp
    with n show ?thesis by simp
  qed
qed

lemma num_offsets_bound: "region_ok A N \<Longrightarrow> i < 8 \<Longrightarrow> 0 < num_offsets A N i \<and> num_offsets A N i < 2 ^ 24"
proof -
  assume r: "region_ok A N" and i: "i < 8"
  let ?m = "block_pages i" and ?a = "align_pages i"
  let ?E = "(A + N + ?a - 1) div ?a * ?a"
  obtain k where k: "?a = ?m * k" "0 < k" using align_pages_multiple [OF i] by blast
  have E: "?E \<le> A + N + ?a - 1" by simp
  have "A + N \<le> ?E" using round_up [of ?a "A + N"] by simp
  moreover have "A < base_page A i + ?a"
    using dividend_less_div_times [of ?a A] by (simp add: base_page_def add.commute)
  ultimately have d: "?E - base_page A i \<le> N + ?a + ?a" using E by linarith
  have lt: "base_page A i < ?E" using base_page_le [of A i] \<open>A + N \<le> ?E\<close> r unfolding region_ok_def by linarith
  have dv: "?E - base_page A i = ?m * (((A + N + ?a - 1) div ?a - A div ?a) * k)"
  proof -
    have "?E - base_page A i = ((A + N + ?a - 1) div ?a - A div ?a) * ?a"
      by (simp only: base_page_def diff_mult_distrib)
    then show ?thesis by (simp only: k(1)) (simp only: ac_simps)
  qed
  then have "num_offsets A N i = ((A + N + ?a - 1) div ?a - A div ?a) * k" by (simp add: num_offsets_def)
  moreover have "0 < ?E - base_page A i" using lt by simp
  ultimately have "0 < num_offsets A N i" using dv by (metis mult_0_right neq0_conv)
  moreover have "num_offsets A N i \<le> ?E - base_page A i" by (simp add: num_offsets_def)
  then have "num_offsets A N i < 2 ^ 24"
    using d align_pages_le [OF i] r by (simp add: region_ok_def)
  ultimately show ?thesis by simp
qed

lemma in_region_small: "region_ok A N \<Longrightarrow> in_region A N i q \<Longrightarrow> q * block_pages i < 2 ^ 50"
  by (simp add: region_ok_def in_region_def)

lemma block_set_iff: "q \<in> block_set A i b \<longleftrightarrow> base_block A i \<le> q \<and> q - base_block A i \<in> free_offsets (m_bitmap b)"
  by (auto simp: block_set_def intro: image_eqI [of _ _ "q - base_block A i"])

lemma block_ok_finite: "block_ok A N i b \<Longrightarrow> finite (free_offsets (m_bitmap b))"
  by (auto simp: block_ok_def elim: bitmap_okE)

text \<open>The set after a change of the bitmap's set.\<close>

lemma block_set_bitmap:
  "block_set A i (b\<lparr>m_bitmap := bm\<rparr>) = (\<lambda>o'. o' + base_block A i) ` free_offsets bm"
  by (simp add: block_set_def)

lemma block_ok_bitmap:
  "block_ok A N i b \<Longrightarrow> bitmap_ok (num_offsets A N i) bm \<Longrightarrow> block_ok A N i (b\<lparr>m_bitmap := bm\<rparr>)"
  by (simp add: block_ok_def)

lemma block_address:
  assumes "i < 8" and "block_ok A N i b"
  shows "block_heap_address b + push_bit (m_block_shift b) (of_nat k) = page_adr ((k + base_block A i) * block_pages i)"
  using assms by (simp add: block_ok_def page_adr_push page_adr_add base_page_eq algebra_simps)

lemma block_offset:
  assumes "region_ok A N" and "i < 8" and "block_ok A N i b" and "in_region A N i q"
  shows "drop_bit (m_block_shift b) (page_adr (q * block_pages i) - block_heap_address b) = of_nat (q - base_block A i)"
proof -
  have le: "base_block A i \<le> q" using in_region_offset(1) [OF assms(2,4)] .
  have "page_adr (q * block_pages i) - block_heap_address b = page_adr ((q - base_block A i) * block_pages i)"
    using assms(2,3) le by (simp add: block_ok_def base_page_eq page_adr_diff diff_mult_distrib)
  moreover have "(q - base_block A i) * block_pages i < 2 ^ 52"
    using in_region_small [OF assms(1,4)] by (simp add: diff_mult_distrib)
  ultimately show ?thesis using page_adr_drop [OF assms(2)] assms(3) by (simp add: block_ok_def)
qed

lemma AlignDown_of_nat:
  assumes "k < 2 ^ 64" and "0 < d" and "d < 2 ^ 64"
  shows "AlignDown (of_nat k) (of_nat d) = of_nat (k div d * d)"
proof -
  have r: "k div d * d \<le> k" by simp
  have "unat (AlignDown (of_nat k) (of_nat d)) = k - k mod d"
    using assms by (simp add: unat_AlignDown unat_of_nat)
  also have "\<dots> = k div d * d" by (metis minus_mod_eq_div_mult)
  also have "\<dots> = unat (of_nat (k div d * d) :: u64)"
    using le_less_trans [OF r assms(1)] by (simp add: unat_of_nat del: of_nat_mult)
  finally show ?thesis by (simp add: word_unat_eq_iff del: of_nat_mult)
qed

lemma PushBlock_ok:
  assumes "region_ok A N" and "i < 8" and "block_ok A N i b" and "in_region A N i q"
    and "q \<notin> block_set A i b"
  defines "full \<equiv> i < 7 \<and> group_of i (q div group_size i) \<subseteq> insert q (block_set A i b)"
  shows "\<exists>b1. PushBlock (page_adr (q * block_pages i)) b
           = Some (if full then page_adr (q div group_size i * block_pages (Suc i)) else 0, b1) \<and>
         block_ok A N i b1 \<and>
         block_set A i b1 = (if full then insert q (block_set A i b) - group_of i (q div group_size i)
                             else insert q (block_set A i b))"
proof -
  let ?base = "base_block A i" and ?n = "num_offsets A N i" and ?F = "free_offsets (m_bitmap b)"
  define off where "off = q - ?base"
  have le: "?base \<le> q" and off: "off < ?n"
    using in_region_offset(1,2) [OF assms(2,4)] by (simp_all add: off_def)
  have q: "q = off + ?base" using le by (simp add: off_def)
  have nb: "?n < 2 ^ 24" using num_offsets_bound [OF assms(1,2)] by simp
  have u: "unat (of_nat off :: u64) = off" using off nb by (simp add: unat_of_nat)
  have bm: "bitmap_ok ?n (m_bitmap b)" using assms(3) by (simp add: block_ok_def)
  have notin: "off \<notin> ?F" using assms(5) le by (simp add: block_set_iff off_def)
  have S: "insert q (block_set A i b) = (\<lambda>o'. o' + ?base) ` insert off ?F"
    by (simp add: block_set_def q)
  note ofs = block_offset [OF assms(1-4), folded off_def]
  show ?thesis
  proof (cases "i < 7")
    case False
    obtain bm1 where bm1: "SetBit off (m_bitmap b) = Some bm1" "bitmap_ok ?n bm1" "free_offsets bm1 = insert off ?F"
      using SetBit_ok [OF bm off notin] by blast
    have "PushBlock (page_adr (q * block_pages i)) b = Some (0, b\<lparr>m_bitmap := bm1\<rparr>)"
      using False assms(3) unfolding PushBlock_def ofs Let_def u bm1(1) by (simp add: block_ok_def)
    then show ?thesis
      using False bm1 S block_ok_bitmap [OF assms(3) bm1(2)]
      by (simp add: full_def block_set_bitmap)
  next
    case i: True
    let ?d = "group_size i"
    let ?g = "off div ?d * ?d" and ?k = "MemoryBlockPageShifts ! Suc i - MemoryBlockPageShifts ! i"
    note gr = group [OF i]
    obtain c where c: "?base = c * ?d" using base_block_group [OF i] by (metis div_mult_mod_eq add.right_neutral)
    have qd: "q div ?d = off div ?d + c" using gr(2) by (simp add: q c)
    have fits: "?g + ?d \<le> ?n"
      using in_region_offset(3) [OF assms(2,4) i] unfolding qd by (simp add: c add_mult_distrib)
    obtain bm1 bm2 where bm: "SetBit off (m_bitmap b) = Some bm1"
      "ClearRange ?g (of_nat ?d) bm1 = Some ({?g..<?g + ?d} \<subseteq> insert off ?F, bm2)" "bitmap_ok ?n bm2"
      "free_offsets bm2 = (if {?g..<?g + ?d} \<subseteq> insert off ?F then insert off ?F - {?g..<?g + ?d}
                           else insert off ?F)"
      using page_bits.push_group [OF bm off notin _ gr(3,4) fits] gr(2) by auto
    have diff: "push_bit ?k 1 = (of_nat ?d :: u64)" by (simp add: gr(6) push_bit_eq_mult)
    have "off < 2 ^ 64" using off nb by simp
    then have al: "AlignDown (of_nat off) (of_nat ?d) = (of_nat ?g :: u64)"
      using AlignDown_of_nat [of off ?d] gr(2,3) by simp
    have ug: "unat (of_nat ?g :: u64) = ?g"
      using fits nb by (simp add: unat_of_nat del: of_nat_mult)
    have nx: "m_next_block_shift b \<noteq> 0" "m_next_block_shift b - m_block_shift b = ?k"
      using assms(3) i shift_bounds [of "Suc i"] by (auto simp: block_ok_def)
    have adr: "block_heap_address b + push_bit (m_block_shift b) (of_nat ?g) = page_adr (q div ?d * block_pages (Suc i))"
      unfolding block_address [OF assms(2,3)] qd by (simp add: c gr(1) algebra_simps)
    have img: "(\<lambda>o'. o' + ?base) ` {?g..<?g + ?d} = group_of i (q div ?d)"
      unfolding image_add_atLeastLessThan' group_of_def qd by (simp add: c algebra_simps)
    have inj: "inj (\<lambda>o'. o' + ?base)" by (simp add: inj_def)
    have full: "full \<longleftrightarrow> {?g..<?g + ?d} \<subseteq> insert off ?F"
      unfolding full_def S img [symmetric] using i inj by (simp only: inj_image_subset_iff) simp
    have "PushBlock (page_adr (q * block_pages i)) b
        = Some (if full then page_adr (q div ?d * block_pages (Suc i)) else 0, b\<lparr>m_bitmap := bm2\<rparr>)"
      unfolding PushBlock_def ofs Let_def u bm(1) nx(2) diff al ug
      using nx(1) bm(2) adr full by simp
    moreover have "block_set A i (b\<lparr>m_bitmap := bm2\<rparr>)
        = (if full then insert q (block_set A i b) - group_of i (q div ?d) else insert q (block_set A i b))"
      unfolding block_set_bitmap bm(4) S img [symmetric] full
      by (simp add: image_set_diff [OF inj])
    ultimately show ?thesis using block_ok_bitmap [OF assms(3) bm(3)] by blast
  qed
qed

lemma PopBlock_ok:
  assumes "i < 8" and "block_ok A N i b"
  shows "(block_set A i b = {} \<and> (\<exists>b1. PopBlock rnd b = Some (0, b1) \<and> block_ok A N i b1 \<and>
             block_set A i b1 = {})) \<or>
    (\<exists>q b1. PopBlock rnd b = Some (page_adr (q * block_pages i), b1) \<and> q \<in> block_set A i b \<and>
       block_ok A N i b1 \<and> block_set A i b1 = block_set A i b - {q})"
proof -
  let ?F = "free_offsets (m_bitmap b)" and ?n = "num_offsets A N i"
  have bm: "bitmap_ok ?n (m_bitmap b)" using assms(2) by (simp add: block_ok_def)
  have inj: "inj (\<lambda>o'. o' + base_block A i)" by (simp add: inj_def)
  from page_bits.take_block [OF bm, of rnd] show ?thesis
  proof (elim disjE conjE exE)
    fix bm1
    assume "?F = {}" and f: "FindFreeBlock rnd (m_bitmap b) = Some (None, bm1)"
      and "bitmap_ok ?n bm1" "free_offsets bm1 = ?F"
    then show ?thesis
      using block_ok_bitmap [OF assms(2)] block_set_bitmap [where b = b and bm = bm1]
      by (simp add: PopBlock_def block_set_def)
  next
    fix k bm1 bm2
    assume f: "FindFreeBlock rnd (m_bitmap b) = Some (Some k, bm1)" "ClearBit k bm1 = Some bm2"
      and k: "k \<in> ?F" "bitmap_ok ?n bm2" "free_offsets bm2 = ?F - {k}"
    have "PopBlock rnd b = Some (page_adr ((k + base_block A i) * block_pages i), b\<lparr>m_bitmap := bm2\<rparr>)"
      using block_address [OF assms, of k] by (simp add: PopBlock_def f)
    moreover have "block_set A i (b\<lparr>m_bitmap := bm2\<rparr>) = block_set A i b - {k + base_block A i}"
      unfolding block_set_bitmap k(3) by (simp add: image_set_diff [OF inj] block_set_def)
    moreover have "k + base_block A i \<in> block_set A i b" using k(1) by (simp add: block_set_def)
    ultimately show ?thesis using block_ok_bitmap [OF assms(2) k(2)] by blast
  qed
qed

section \<open>The heap\<close>

definition heap_sets :: "nat \<Rightarrow> KPageHeap \<Rightarrow> Blocks" where
  "heap_sets A h i = block_set A i (heap_blocks h ! i)"

definition heap_ok :: "nat \<Rightarrow> nat \<Rightarrow> KPageHeap \<Rightarrow> bool" where
  "heap_ok A N h \<longleftrightarrow>
     region_ok A N \<and> page_heap_address h = page_adr A \<and> page_heap_size h = page_adr N \<and>
     m_num_blocks h = 8 \<and> length (heap_blocks h) = 8 \<and>
     (\<forall>i < 8. block_ok A N i (heap_blocks h ! i)) \<and>
     unique_blocks (heap_sets A h) \<and> merged (heap_sets A h) \<and>
     free_pages (heap_sets A h) \<subseteq> {A..<A + N}"

abbreviation heap_free :: "nat \<Rightarrow> KPageHeap \<Rightarrow> nat set" where
  "heap_free A h \<equiv> free_pages (heap_sets A h)"

lemma heap_sets_update:
  "heap_ok A N h \<Longrightarrow> i < 8 \<Longrightarrow>
   heap_sets A (h\<lparr>heap_blocks := (heap_blocks h)[i := b]\<rparr>) = (heap_sets A h)(i := block_set A i b)"
  by (auto simp: heap_sets_def heap_ok_def fun_eq_iff)

lemma heap_ok_update:
  assumes "heap_ok A N h" and "i < 8" and "block_ok A N i b"
    and "unique_blocks ((heap_sets A h)(i := block_set A i b))"
    and "merged ((heap_sets A h)(i := block_set A i b))"
    and "free_pages ((heap_sets A h)(i := block_set A i b)) \<subseteq> {A..<A + N}"
  shows "heap_ok A N (h\<lparr>heap_blocks := (heap_blocks h)[i := b]\<rparr>)"
  using assms heap_sets_update [OF assms(1,2)]
  by (simp add: heap_ok_def nth_list_update)

lemma heap_ok_rng [simp]:
  "heap_ok A N (h\<lparr>heap_rng := r\<rparr>) = heap_ok A N h" "heap_sets A (h\<lparr>heap_rng := r\<rparr>) = heap_sets A h"
proof -
  show sets: "heap_sets A (h\<lparr>heap_rng := r\<rparr>) = heap_sets A h" by (rule ext) (simp add: heap_sets_def)
  show "heap_ok A N (h\<lparr>heap_rng := r\<rparr>) = heap_ok A N h" by (simp add: heap_ok_def sets)
qed

lemma block_pages_free: "i < 8 \<Longrightarrow> q \<in> T i \<Longrightarrow> pages_at i q \<subseteq> free_pages T"
  by (auto simp: free_pages_def in_block)

lemma not_free_block: "i < 8 \<Longrightarrow> (\<And>p. p div block_pages i = q \<Longrightarrow> p \<notin> free_pages T) \<Longrightarrow> q \<notin> T i"
proof
  assume "i < 8" "\<And>p. p div block_pages i = q \<Longrightarrow> p \<notin> free_pages T" "q \<in> T i"
  moreover have "q * block_pages i \<in> pages_at i q" by (simp add: in_block)
  ultimately show False using block_pages_free by (metis in_block subsetD)
qed

lemma heap_ok_block: "heap_ok A N h \<Longrightarrow> i < 8 \<Longrightarrow> block_ok A N i (heap_blocks h ! i)"
  by (simp add: heap_ok_def)

lemma heap_block_size: "heap_ok A N h \<Longrightarrow> i < 8 \<Longrightarrow> Block_GetSize (heap_blocks h ! i) = page_adr (block_pages i)"
  using page_adr_size [of i] by (simp add: heap_ok_def block_ok_def Block_GetSize_def)

lemma in_region_iff: "in_region A N i q \<longleftrightarrow> pages_at i q \<subseteq> {A..<A + N}"
  using block_pages_pos [of i] by (auto simp: in_region_def pages_at_def simp del: block_pages_pos)

lemma heap_ok_in_region: "heap_ok A N h \<Longrightarrow> i < 8 \<Longrightarrow> q \<in> heap_sets A h i \<Longrightarrow> in_region A N i q"
  unfolding in_region_iff using block_pages_free [of i q "heap_sets A h"] by (auto simp: heap_ok_def)

lemma merged_insert:
  assumes "merged T" and "i < 7 \<Longrightarrow> \<not> group_of i (q div group_size i) \<subseteq> insert q (T i)"
  shows "merged (T(i := insert q (T i)))"
  unfolding merged_def
proof (intro allI impI notI)
  fix j g assume j: "j < 7" and sub: "group_of j g \<subseteq> (T(i := insert q (T i))) j"
  show False
  proof (cases "j = i")
    case True
    with j sub have i: "i < 7" and s: "group_of i g \<subseteq> insert q (T i)" by simp_all
    show False
    proof (cases "q \<in> group_of i g")
      case True
      then have "g = q div group_size i" using i by (simp add: in_group)
      with s assms(2) [OF i] show False by simp
    next
      case False
      with s have "group_of i g \<subseteq> T i" by blast
      with assms(1) i show False by (simp add: merged_def)
    qed
  qed (use assms(1) j sub in \<open>simp add: merged_def\<close>)
qed

text \<open>A block whose group does not get complete is only added.\<close>

lemma FreeBlock_plain:
  assumes "heap_ok A N h" and "i < 8" and "in_region A N i q" and "pages_at i q \<inter> heap_free A h = {}"
    and "\<not> (i < 7 \<and> group_of i (q div group_size i) \<subseteq> insert q (heap_sets A h i))"
  shows "\<exists>h1. FreeBlock (page_adr (q * block_pages i)) i h = Some h1 \<and> heap_ok A N h1 \<and>
           heap_free A h1 = heap_free A h \<union> pages_at i q"
proof -
  let ?T = "heap_sets A h" and ?T1 = "(heap_sets A h)(i := insert q (heap_sets A h i))"
  have r: "region_ok A N" and len: "i < length (heap_blocks h)"
    and T: "unique_blocks ?T" "merged ?T" "free_pages ?T \<subseteq> {A..<A + N}"
    using assms(1,2) by (simp_all add: heap_ok_def)
  have disj: "\<And>p. p div block_pages i = q \<Longrightarrow> p \<notin> free_pages ?T" using assms(4) by (auto simp: in_block)
  have "q \<notin> block_set A i (heap_blocks h ! i)"
    using not_free_block [OF assms(2) disj] by (simp add: heap_sets_def)
  note push = PushBlock_ok [OF r assms(2) heap_ok_block [OF assms(1,2)] assms(3) this,
      folded heap_sets_def, unfolded if_not_P [OF assms(5)]]
  from push obtain b1
    where b1: "PushBlock (page_adr (q * block_pages i)) (heap_blocks h ! i) = Some (0, b1)"
      "block_ok A N i b1" "block_set A i b1 = insert q (?T i)"
    by blast
  note ins = insert_block [where T = ?T and q = q, OF T(1) assms(2) disj]
  have "merged ?T1" by (rule merged_insert [OF T(2)]) (use assms(5) in blast)
  moreover have "free_pages ?T1 \<subseteq> {A..<A + N}"
    using ins(2) T(3) assms(3) unfolding in_region_iff by simp
  ultimately have "heap_ok A N (h\<lparr>heap_blocks := (heap_blocks h)[i := b1]\<rparr>)"
    using heap_ok_update [OF assms(1,2) b1(2)] ins(1) unfolding b1(3) by simp
  then show ?thesis
    using ins(2) heap_sets_update [OF assms(1,2), of b1] len b1(1,3)
    by (subst FreeBlock.simps) simp
qed

lemma FreeBlock_ok:
  assumes "heap_ok A N h" and "i < 8" and "in_region A N i q" and "pages_at i q \<inter> heap_free A h = {}"
  shows "\<exists>h1. FreeBlock (page_adr (q * block_pages i)) i h = Some h1 \<and> heap_ok A N h1 \<and>
           heap_free A h1 = heap_free A h \<union> pages_at i q"
  using assms
proof (induction "7 - i" arbitrary: i q h)
  case 0
  then show ?case by (intro FreeBlock_plain) simp_all
next
  case (Suc n)
  let ?T = "heap_sets A h" and ?g = "q div group_size i"
  have i: "i < 7" using Suc(2) by simp
  show ?case
  proof (cases "group_of i ?g \<subseteq> insert q (?T i)")
    case False
    then show ?thesis using FreeBlock_plain [OF Suc(3-6)] by blast
  next
    case True
    have r: "region_ok A N" and len: "i < length (heap_blocks h)"
      and T: "unique_blocks ?T" "merged ?T" "free_pages ?T \<subseteq> {A..<A + N}"
      using Suc(3,4) by (simp_all add: heap_ok_def)
    have disj: "\<And>p. p div block_pages i = q \<Longrightarrow> p \<notin> free_pages ?T" using Suc(6) by (auto simp: in_block)
    have notin: "q \<notin> ?T i" by (rule not_free_block [OF Suc(4) disj])
    have full: "i < 7 \<and> group_of i ?g \<subseteq> insert q (?T i)" using True i by blast
    from notin have "q \<notin> block_set A i (heap_blocks h ! i)" by (simp add: heap_sets_def)
    note push = PushBlock_ok [OF r Suc(4) heap_ok_block [OF Suc(3,4)] Suc(5) this,
      folded heap_sets_def, unfolded if_P [OF full]]
    from push obtain b1
      where b1: "PushBlock (page_adr (q * block_pages i)) (heap_blocks h ! i)
          = Some (page_adr (?g * block_pages (Suc i)), b1)"
        "block_ok A N i b1" "block_set A i b1 = insert q (?T i) - group_of i ?g"
      by blast
    let ?h1 = "h\<lparr>heap_blocks := (heap_blocks h)[i := b1]\<rparr>" and ?R = "group_of i ?g - {q}"
    have qg: "q \<in> group_of i ?g" using i by (simp add: in_group)
    have sub: "?R \<subseteq> ?T i" using True by blast
    have new: "block_set A i b1 = ?T i - ?R" unfolding b1(3) using qg notin by blast
    note rem = remove_blocks [OF T(1) Suc(4) sub]
    have "free_pages (?T(i := ?T i - ?R)) \<subseteq> {A..<A + N}" using rem(2) T(3) by blast
    then have ok1: "heap_ok A N ?h1"
      using heap_ok_update [OF Suc(3,4) b1(2)] rem(1) merged_remove [OF T(2)] unfolding new by blast
    have sets1: "heap_sets A ?h1 = ?T(i := ?T i - ?R)" using heap_sets_update [OF Suc(3,4)] new by simp
    have free1: "heap_free A ?h1 = free_pages ?T - (\<Union>r \<in> ?R. pages_at i r)"
      by (simp only: sets1 rem(2))
    have pages: "pages_at (Suc i) ?g = (\<Union>r \<in> ?R. pages_at i r) \<union> pages_at i q"
      unfolding group_pages [OF i, symmetric] using qg by blast
    have R: "(\<Union>r \<in> ?R. pages_at i r) \<subseteq> free_pages ?T"
      using sub block_pages_free [of i _ ?T, OF Suc(4)] by blast
    have reg: "in_region A N (Suc i) ?g"
      unfolding in_region_iff pages using R T(3) Suc(5) [unfolded in_region_iff] by blast
    have disj1: "pages_at (Suc i) ?g \<inter> heap_free A ?h1 = {}"
      unfolding free1 pages using Suc(6) by blast
    have "0 < A" "A \<le> ?g * block_pages (Suc i)"
      using reg r by (simp_all add: in_region_def region_ok_def)
    then have "0 < ?g * block_pages (Suc i)" by (rule less_le_trans)
    moreover have "?g * block_pages (Suc i) < 2 ^ 52" using in_region_small [OF r reg] by simp
    ultimately have nz: "page_adr (?g * block_pages (Suc i)) \<noteq> 0" by (rule page_adr_nonzero)
    have "n = 7 - Suc i" "Suc i < 8" using Suc(2) i by simp_all
    from Suc(1) [OF this(1) ok1 this(2) reg disj1] obtain h2
      where h2: "FreeBlock (page_adr (?g * block_pages (Suc i))) (Suc i) ?h1 = Some h2" "heap_ok A N h2"
        "heap_free A h2 = heap_free A ?h1 \<union> pages_at (Suc i) ?g" by blast
    have "heap_free A h2 = heap_free A h \<union> pages_at i q"
      unfolding h2(3) free1 pages using R by blast
    moreover have "FreeBlock (page_adr (q * block_pages i)) i h = Some h2"
      using len b1(1) nz h2(1) by (subst FreeBlock.simps) simp
    ultimately show ?thesis using h2(2) by blast
  qed
qed

section \<open>Freeing pages\<close>

text \<open>What freeing a set of pages that is not free does.\<close>

definition frees :: "nat \<Rightarrow> nat \<Rightarrow> KPageHeap \<Rightarrow> nat set \<Rightarrow> KPageHeap \<Rightarrow> bool" where
  "frees A N h S h1 \<longleftrightarrow> heap_ok A N h1 \<and> heap_free A h1 = heap_free A h \<union> S"

lemma frees_refl: "heap_ok A N h \<Longrightarrow> frees A N h {} h"
  by (simp add: frees_def)

lemma frees_trans: "frees A N h S h1 \<Longrightarrow> frees A N h1 S1 h2 \<Longrightarrow> frees A N h (S \<union> S1) h2"
  by (auto simp: frees_def)

lemma frees_ok: "frees A N h S h1 \<Longrightarrow> heap_ok A N h1"
  by (simp add: frees_def)

lemma sub_range: "{a..<e} \<inter> S = {} \<Longrightarrow> a \<le> b \<Longrightarrow> d \<le> e \<Longrightarrow> {b..<d} \<inter> S = {}" for a b :: nat
  by (simp add: disjoint_iff)

lemma frees_disjoint: "frees A N h S h1 \<Longrightarrow> R \<inter> heap_free A h = {} \<Longrightarrow> R \<inter> S = {} \<Longrightarrow> R \<inter> heap_free A h1 = {}"
  by (simp add: frees_def Int_Un_distrib)

lemma heap_small: "heap_ok A N h \<Longrightarrow> p \<le> A + N \<Longrightarrow> p < 2 ^ 50"
  by (simp add: heap_ok_def region_ok_def)

lemma FreeBlock_pages:
  assumes "heap_ok A N h" and "i < 8" and "block_pages i dvd p" and "A \<le> p" and "p + block_pages i \<le> A + N"
    and "{p..<p + block_pages i} \<inter> heap_free A h = {}"
  shows "\<exists>h1. FreeBlock (page_adr p) i h = Some h1 \<and> frees A N h {p..<p + block_pages i} h1"
proof -
  let ?q = "p div block_pages i"
  have p: "?q * block_pages i = p" using assms(3) by simp
  have "pages_at i ?q = {p..<p + block_pages i}" by (simp add: pages_at_def p)
  then show ?thesis
    using FreeBlock_ok [where q = ?q, OF assms(1,2)] assms(4-6) unfolding p frees_def by (simp add: in_region_def p)
qed

lemma free_run_ok:
  assumes "i < 8"
  shows "heap_ok A N h \<Longrightarrow> block_pages i dvd p \<Longrightarrow> A \<le> p \<Longrightarrow> p + n * block_pages i \<le> A + N \<Longrightarrow>
    {p..<p + n * block_pages i} \<inter> heap_free A h = {} \<Longrightarrow>
    \<exists>h1. free_run (page_adr p) (page_adr (p + n * block_pages i)) (page_adr (block_pages i)) i h = Some h1 \<and>
      frees A N h {p..<p + n * block_pages i} h1"
proof (induction n arbitrary: p h)
  case 0
  then show ?case using frees_refl by (subst free_run.simps) simp
next
  case (Suc n)
  let ?m = "block_pages i"
  let ?e = "p + Suc n * ?m"
  have e: "?e = p + ?m + n * ?m" by simp
  have "{p..<p + ?m} \<inter> heap_free A h = {}" by (rule sub_range [OF Suc.prems(5)]) simp_all
  then obtain h1 where h1: "FreeBlock (page_adr p) i h = Some h1" "frees A N h {p..<p + ?m} h1"
    using FreeBlock_pages [OF Suc.prems(1) assms Suc.prems(2,3)] Suc.prems(4) unfolding e by auto
  have "{p + ?m..<?e} \<inter> heap_free A h1 = {}"
    by (rule frees_disjoint [OF h1(2) sub_range [OF Suc.prems(5)]]) simp_all
  then obtain h2 where h2: "free_run (page_adr (p + ?m)) (page_adr ?e) (page_adr ?m) i h1 = Some h2"
    "frees A N h1 {p + ?m..<?e} h2"
    using Suc.IH [OF frees_ok [OF h1(2)], of "p + ?m"] Suc.prems(2-4) unfolding e by auto
  have "p < ?e" by simp
  moreover have "?e < 2 ^ 50" by (rule heap_small [OF Suc.prems(1,4)])
  ultimately have "page_adr p < page_adr ?e" by (subst page_adr_less) simp_all
  then have "free_run (page_adr p) (page_adr ?e) (page_adr ?m) i h = Some h2"
    using h1(1) h2(1) by (subst free_run.simps) (simp add: page_adr_add)
  moreover have "{p..<p + ?m} \<union> {p + ?m..<?e} = {p..<?e}" unfolding e by (rule ivl_disj_un) simp_all
  ultimately show ?case using frees_trans [OF h1(2) h2(2)] by metis
qed

lemma free_up_ok:
  assumes "i < 8"
  shows "heap_ok A N h \<Longrightarrow> block_pages i dvd a \<Longrightarrow> A \<le> a \<Longrightarrow> a \<le> e \<Longrightarrow> e \<le> A + N \<Longrightarrow>
    {a..<e} \<inter> heap_free A h = {} \<Longrightarrow>
    \<exists>h1 a1. free_up (page_adr a) (page_adr e) (page_adr (block_pages i)) i h = Some (page_adr a1, h1) \<and>
      a \<le> a1 \<and> a1 \<le> e \<and> e < a1 + block_pages i \<and> block_pages i dvd a1 \<and> frees A N h {a..<a1} h1"
proof (induction "e - a" arbitrary: a h rule: less_induct)
  case less
  let ?m = "block_pages i"
  have small: "a + ?m < 2 ^ 52" "e < 2 ^ 52"
    using heap_small [OF less.prems(1), of a] heap_small [OF less.prems(1), of e] less.prems(4,5)
      block_pages_le [OF assms] by simp_all
  have iff: "page_adr a + page_adr ?m \<le> page_adr e \<longleftrightarrow> a + ?m \<le> e"
    using page_adr_le [OF small] by (simp only: page_adr_add)
  show ?case
  proof (cases "a + ?m \<le> e")
    case False
    then show ?thesis
      using less.prems frees_refl iff by (intro exI [of _ h] exI [of _ a], subst free_up.simps) simp
  next
    case True
    have "{a..<a + ?m} \<inter> heap_free A h = {}"
      by (rule sub_range [OF less.prems(6)]) (use True in simp_all)
    then obtain h1 where h1: "FreeBlock (page_adr a) i h = Some h1" "frees A N h {a..<a + ?m} h1"
      using FreeBlock_pages [OF less.prems(1) assms less.prems(2,3)] less.prems(5) True by auto
    have "{a + ?m..<e} \<inter> heap_free A h1 = {}"
      by (rule frees_disjoint [OF h1(2) sub_range [OF less.prems(6)]]) simp_all
    moreover have "e - (a + ?m) < e - a" using True block_pages_pos [of i] by linarith
    ultimately obtain h2 a1 where h2:
      "free_up (page_adr (a + ?m)) (page_adr e) (page_adr ?m) i h1 = Some (page_adr a1, h2)"
      "a + ?m \<le> a1" "a1 \<le> e" "e < a1 + ?m" "?m dvd a1" "frees A N h1 {a + ?m..<a1} h2"
      using less.hyps [OF _ frees_ok [OF h1(2)], of "a + ?m"] less.prems(2,3,5) True by auto
    have "free_up (page_adr a) (page_adr e) (page_adr ?m) i h = Some (page_adr a1, h2)"
      using True iff h1(1) h2(1) by (subst free_up.simps) (simp add: page_adr_add)
    moreover have un: "{a..<a + ?m} \<union> {a + ?m..<a1} = {a..<a1}" using h2(2) by (intro ivl_disj_un) simp_all
    have "frees A N h {a..<a1} h2" using frees_trans [OF h1(2) h2(6)] by (simp only: un)
    moreover have "a \<le> a1" using h2(2) by simp
    ultimately show ?thesis using h2(3-5) by blast
  qed
qed

lemma free_down_ok:
  assumes "i < 8"
  shows "heap_ok A N h \<Longrightarrow> block_pages i dvd e \<Longrightarrow> A \<le> a \<Longrightarrow> a \<le> e \<Longrightarrow> e \<le> A + N \<Longrightarrow>
    {a..<e} \<inter> heap_free A h = {} \<Longrightarrow>
    \<exists>h1 e1. free_down (page_adr a) (page_adr e) (page_adr (block_pages i)) i h = Some (page_adr e1, h1) \<and>
      a \<le> e1 \<and> e1 \<le> e \<and> e1 < a + block_pages i \<and> block_pages i dvd e1 \<and> frees A N h {e1..<e} h1"
proof (induction "e - a" arbitrary: e h rule: less_induct)
  case less
  let ?m = "block_pages i"
  have small: "a + ?m < 2 ^ 52" "e < 2 ^ 52"
    using heap_small [OF less.prems(1), of a] heap_small [OF less.prems(1), of e] less.prems(4,5)
      block_pages_le [OF assms] by simp_all
  have iff: "page_adr a + page_adr ?m \<le> page_adr e \<longleftrightarrow> a + ?m \<le> e"
    using page_adr_le [OF small] by (simp only: page_adr_add)
  show ?case
  proof (cases "a + ?m \<le> e")
    case False
    then show ?thesis
      using less.prems frees_refl iff by (intro exI [of _ h] exI [of _ e], subst free_down.simps) simp
  next
    case True
    let ?e = "e - ?m"
    have e: "?e + ?m = e" using True by simp
    have dv: "?m dvd ?e" using less.prems(2) by simp
    have adr: "page_adr e - page_adr ?m = page_adr ?e" using True by (simp add: page_adr_diff)
    have "{?e..<?e + ?m} \<inter> heap_free A h = {}"
      by (rule sub_range [OF less.prems(6)]) (use True in simp_all)
    then obtain h1 where h1: "FreeBlock (page_adr ?e) i h = Some h1" "frees A N h {?e..<e} h1"
      using FreeBlock_pages [OF less.prems(1) assms dv] less.prems(3,5) True e by auto
    have "{a..<?e} \<inter> heap_free A h1 = {}"
      by (rule frees_disjoint [OF h1(2) sub_range [OF less.prems(6)]]) simp_all
    moreover have "?e - a < e - a" using True block_pages_pos [of i] by linarith
    moreover have "a \<le> ?e" "?e \<le> A + N" using True less.prems(5) by simp_all
    ultimately obtain h2 e1 where h2:
      "free_down (page_adr a) (page_adr ?e) (page_adr ?m) i h1 = Some (page_adr e1, h2)"
      "a \<le> e1" "e1 \<le> ?e" "e1 < a + ?m" "?m dvd e1" "frees A N h1 {e1..<?e} h2"
      using less.hyps [OF _ frees_ok [OF h1(2)] dv less.prems(3)] by blast
    have "free_down (page_adr a) (page_adr e) (page_adr ?m) i h = Some (page_adr e1, h2)"
      using True iff adr h1(1) h2(1) by (subst free_down.simps) simp
    moreover have un: "{?e..<e} \<union> {e1..<?e} = {e1..<e}" using h2(3) by auto
    have "frees A N h {e1..<e} h2" using frees_trans [OF h1(2) h2(6)] by (simp only: un)
    moreover have "e1 \<le> e" using h2(3) by simp
    ultimately show ?thesis using h2(2,4,5) by blast
  qed
qed

text \<open>The smaller sizes take up the whole rest, for the smallest size is one page.\<close>

lemma block_pages_dvd: "Suc i < 8 \<Longrightarrow> block_pages i dvd block_pages (Suc i)"
  using group(1) [of i] by simp

lemma free_after_ok:
  "k < 8 \<Longrightarrow> heap_ok A N h \<Longrightarrow> block_pages k dvd a \<Longrightarrow> e < a + block_pages k \<Longrightarrow> A \<le> a \<Longrightarrow> a \<le> e \<Longrightarrow>
   e \<le> A + N \<Longrightarrow> {a..<e} \<inter> heap_free A h = {} \<Longrightarrow>
   \<exists>h1. free_after k (page_adr a) (page_adr e) h = Some h1 \<and> frees A N h {a..<e} h1"
proof (induction k arbitrary: a h)
  case 0
  then have "a = e" by (simp add: block_pages_values)
  with 0 frees_refl show ?case by simp
next
  case (Suc k)
  then have k: "k < 8" by simp
  have dv: "block_pages k dvd a" using Suc.prems(1,3) block_pages_dvd by (blast intro: dvd_trans)
  from free_up_ok [OF k Suc.prems(2) dv Suc.prems(5-8)] obtain h1 a1
    where h1: "free_up (page_adr a) (page_adr e) (page_adr (block_pages k)) k h = Some (page_adr a1, h1)"
      "a \<le> a1" "a1 \<le> e" "e < a1 + block_pages k" "block_pages k dvd a1" "frees A N h {a..<a1} h1" by blast
  have d: "{a1..<e} \<inter> heap_free A h1 = {}" by (rule frees_disjoint [OF h1(6) sub_range [OF Suc.prems(8)]]) (use h1(2) in simp_all)
  have "A \<le> a1" using h1(2) Suc.prems(5) by simp
  from Suc.IH [OF k frees_ok [OF h1(6)] h1(5,4) this h1(3) Suc.prems(7) d] obtain h2
    where h2: "free_after k (page_adr a1) (page_adr e) h1 = Some h2" "frees A N h1 {a1..<e} h2" by blast
  have "free_after (Suc k) (page_adr a) (page_adr e) h = Some h2"
    using h1(1) h2(1) heap_block_size [OF Suc.prems(2) k] by simp
  moreover have "{a..<a1} \<union> {a1..<e} = {a..<e}" using h1(2,3) by auto
  ultimately show ?case using frees_trans [OF h1(6) h2(2)] by metis
qed

lemma free_before_ok:
  "k < 8 \<Longrightarrow> heap_ok A N h \<Longrightarrow> block_pages k dvd e \<Longrightarrow> e < a + block_pages k \<Longrightarrow> A \<le> a \<Longrightarrow> a \<le> e \<Longrightarrow>
   e \<le> A + N \<Longrightarrow> {a..<e} \<inter> heap_free A h = {} \<Longrightarrow>
   \<exists>h1. free_before k (page_adr a) (page_adr e) h = Some h1 \<and> frees A N h {a..<e} h1"
proof (induction k arbitrary: e h)
  case 0
  then have "a = e" by (simp add: block_pages_values)
  with 0 frees_refl show ?case by simp
next
  case (Suc k)
  then have k: "k < 8" by simp
  have dv: "block_pages k dvd e" using Suc.prems(1,3) block_pages_dvd by (blast intro: dvd_trans)
  from free_down_ok [OF k Suc.prems(2) dv Suc.prems(5-8)] obtain h1 e1
    where h1: "free_down (page_adr a) (page_adr e) (page_adr (block_pages k)) k h = Some (page_adr e1, h1)"
      "a \<le> e1" "e1 \<le> e" "e1 < a + block_pages k" "block_pages k dvd e1" "frees A N h {e1..<e} h1" by blast
  have d: "{a..<e1} \<inter> heap_free A h1 = {}" by (rule frees_disjoint [OF h1(6) sub_range [OF Suc.prems(8)]]) (use h1(3) in simp_all)
  have "e1 \<le> A + N" using h1(3) Suc.prems(7) by simp
  from Suc.IH [OF k frees_ok [OF h1(6)] h1(5,4) Suc.prems(5) h1(2) this d] obtain h2
    where h2: "free_before k (page_adr a) (page_adr e1) h1 = Some h2" "frees A N h1 {a..<e1} h2" by blast
  have "free_before (Suc k) (page_adr a) (page_adr e) h = Some h2"
    using h1(1) h2(1) heap_block_size [OF Suc.prems(2) k] by simp
  moreover have "{e1..<e} \<union> {a..<e1} = {a..<e}" using h1(2,3) by auto
  ultimately show ?case using frees_trans [OF h1(6) h2(2)] by metis
qed

lemma find_big_ok:
  assumes "heap_ok A N h" and "A \<le> p" and "p < e" and "e \<le> A + N"
  shows "0 < k \<Longrightarrow> k \<le> 8 \<Longrightarrow> \<exists>j < k. \<exists>s t. find_big k (page_adr p) (page_adr e) h = Some (j, page_adr s, page_adr t) \<and>
    p \<le> s \<and> s < p + block_pages j \<and> s < t \<and> t \<le> e \<and> e < t + block_pages j \<and>
    block_pages j dvd s \<and> block_pages j dvd t"
proof (induction k)
  case (Suc k)
  let ?m = "block_pages k"
  let ?s = "(p + ?m - 1) div ?m * ?m" and ?t = "e div ?m * ?m"
  have k: "k < 8" using Suc.prems by simp
  have small: "p < 2 ^ 50" "e < 2 ^ 50"
    using heap_small [OF assms(1), of p] heap_small [OF assms(1), of e] assms(3,4) by simp_all
  have m: "?m \<le> 2 ^ 20" using block_pages_le [OF k] by simp
  have up: "AlignUp (page_adr p) (page_adr ?m) = page_adr ?s" by (rule AlignUp_pages [OF block_pages_pos m small(1)])
  have down: "AlignDown (page_adr e) (page_adr ?m) = page_adr ?t" by (rule AlignDown_pages [OF block_pages_pos m small(2)])
  have s: "p \<le> ?s" "?s < p + ?m"
    using round_up [of ?m p] div_times_less_eq_dividend [of "p + ?m - 1" ?m] block_pages_pos [of k] by linarith+
  have t: "?t \<le> e" "e < ?t + ?m"
    using div_times_less_eq_dividend [of e ?m] dividend_less_div_times [of ?m e] by simp_all
  have "?s < 2 ^ 52" using s(2) small(1) m by simp
  moreover have "?t < 2 ^ 52" by (rule le_less_trans [OF t(1)]) (use small(2) in simp)
  ultimately have less: "page_adr ?s < page_adr ?t \<longleftrightarrow> ?s < ?t" by (rule page_adr_less)
  have eq: "find_big (Suc k) (page_adr p) (page_adr e) h
      = (if ?s < ?t then Some (k, page_adr ?s, page_adr ?t) else find_big k (page_adr p) (page_adr e) h)"
    by (simp only: find_big.simps heap_block_size [OF assms(1) k] up down less Let_def)
  show ?case
  proof (cases "?s < ?t")
    case True
    have "?m dvd ?s" "?m dvd ?t" by (rule dvd_triv_right)+
    with True s t lessI [of k] show ?thesis unfolding eq if_P [OF True] by blast
  next
    case False
    have "0 < k"
    proof (rule ccontr)
      assume "\<not> 0 < k"
      then have "k = 0" by simp
      with False assms(3) show False by (simp add: block_pages_values)
    qed
    with Suc.IH Suc.prems(2) obtain j s t where
      "j < k" "find_big k (page_adr p) (page_adr e) h = Some (j, page_adr s, page_adr t)"
      "p \<le> s" "s < p + block_pages j" "s < t" "t \<le> e" "e < t + block_pages j" "block_pages j dvd s"
      "block_pages j dvd t" by (metis Suc_leD)
    then show ?thesis unfolding eq if_not_P [OF False] by (metis less_SucI)
  qed
qed simp

lemma KPageHeap_Free_ok:
  assumes "heap_ok A N h" and "A \<le> p" and "p + n \<le> A + N" and "{p..<p + n} \<inter> heap_free A h = {}"
  shows "\<exists>h1. KPageHeap_Free (page_adr p) (of_nat n) h = Some h1 \<and> frees A N h {p..<p + n} h1"
proof (cases "n = 0")
  case True
  then show ?thesis using frees_refl [OF assms(1)] by (simp add: KPageHeap_Free_def)
next
  case False
  have n: "n < 2 ^ 50" using heap_small [OF assms(1,3)] by simp
  then have nz: "(of_nat n :: u64) \<noteq> 0" using False by (simp add: word_unat_eq_iff unat_of_nat)
  have fin: "page_adr p + of_nat n * PageSize = page_adr (p + n)"
    by (simp add: page_adr_def PageSize_def algebra_simps)
  have eight: "m_num_blocks h = 8" using assms(1) by (simp add: heap_ok_def)
  have "p < p + n" using False by simp
  from find_big_ok [OF assms(1,2) this assms(3), of 8] obtain j s t where j: "j < 8"
    and f: "find_big 8 (page_adr p) (page_adr (p + n)) h = Some (j, page_adr s, page_adr t)"
    and st: "p \<le> s" "s < p + block_pages j" "s < t" "t \<le> p + n" "p + n < t + block_pages j"
      "block_pages j dvd s" "block_pages j dvd t" by auto
  obtain k where k: "t = s + k * block_pages j"
    using st(3,6,7) by (metis dvd_diff_nat dvdE le_add_diff_inverse less_or_eq_imp_le mult.commute)
  have "A \<le> s" "t \<le> A + N" using st(1,4) assms(2,3) by simp_all
  moreover have "{s..<t} \<inter> heap_free A h = {}" by (rule sub_range [OF assms(4) st(1,4)])
  ultimately obtain h1 where h1:
    "free_run (page_adr s) (page_adr t) (page_adr (block_pages j)) j h = Some h1" "frees A N h {s..<t} h1"
    using free_run_ok [OF j assms(1) st(6), of k] unfolding k by blast
  have d1: "{p..<s} \<inter> heap_free A h1 = {}"
    by (rule frees_disjoint [OF h1(2) sub_range [OF assms(4)]]) (use st(3,4) in auto)
  have "s \<le> A + N" using st(3) \<open>t \<le> A + N\<close> by simp
  from free_before_ok [OF j frees_ok [OF h1(2)] st(6,2) assms(2) st(1) this d1] obtain h2
    where h2: "free_before j (page_adr p) (page_adr s) h1 = Some h2" "frees A N h1 {p..<s} h2" by blast
  have fr2: "frees A N h ({s..<t} \<union> {p..<s}) h2" by (rule frees_trans [OF h1(2) h2(2)])
  have d2: "{t..<p + n} \<inter> heap_free A h2 = {}"
    by (rule frees_disjoint [OF fr2 sub_range [OF assms(4)]]) (use st(1,3) in auto)
  have "A \<le> t" using st(3) \<open>A \<le> s\<close> by simp
  from free_after_ok [OF j frees_ok [OF fr2] st(7,5) this st(4) assms(3) d2] obtain h3
    where h3: "free_after j (page_adr t) (page_adr (p + n)) h2 = Some h3" "frees A N h2 {t..<p + n} h3" by blast
  have "{s..<t} \<union> {p..<s} \<union> {t..<p + n} = {p..<p + n}" using st by auto
  then have "frees A N h {p..<p + n} h3" using frees_trans [OF fr2 h3(2)] by simp
  moreover have "KPageHeap_Free (page_adr p) (of_nat n) h = Some h3"
    using nz f h1(1) h2(1) h3(1) heap_block_size [OF assms(1) j]
    by (simp add: KPageHeap_Free_def fin eight)
  ultimately show ?thesis by blast
qed

end
