(* ===== verification/Page_Heap_Init_Props.thy ===== *)
theory Page_Heap_Init_Props
  imports Page_Heap_Props
begin

text \<open>
  A new page heap: the management data whose size the heap calculates is enough for the bitmaps of all
  sizes, nothing is free at first, and the count of free pages is the size of the set.
\<close>

section \<open>The size of the management data\<close>

definition words_of :: "nat \<Rightarrow> nat" where
  "words_of n = total_words (GetRequiredDepth n) n"

text \<open>The blocks the calculation allows for.\<close>

definition managed :: "nat \<Rightarrow> nat \<Rightarrow> nat" where
  "managed N i = (align_pages i * 2 + (N + align_pages i - 1) div align_pages i * align_pages i) div block_pages i"

definition next_shift :: "nat \<Rightarrow> nat" where
  "next_shift i = (if i < 7 then MemoryBlockPageShifts ! Suc i else 0)"

lemma total_words_mono: "n \<le> m \<Longrightarrow> total_words d n \<le> total_words d m"
proof (induction d arbitrary: n m)
  case (Suc d)
  have "(n + 63) div 64 \<le> (m + 63) div 64" using Suc.prems by (intro div_le_mono) simp
  with Suc.IH [OF this] show ?case by simp
qed simp

lemma total_words_deeper: "d \<le> e \<Longrightarrow> total_words d n \<le> total_words e n"
proof (induction d arbitrary: e n)
  case (Suc d)
  then obtain e' where "e = Suc e'" "d \<le> e'" by (cases e) auto
  then show ?case using Suc.IH by simp
qed simp

lemma words_of_mono: "n \<le> m \<Longrightarrow> words_of n \<le> words_of m"
proof -
  assume le: "n \<le> m"
  have "GetRequiredDepth n \<le> GetRequiredDepth m"
    using GetRequiredDepth_enough [of m] GetRequiredDepth_positive le
    by (intro GetRequiredDepth_le) (auto intro: le_less_trans)
  then show ?thesis
    unfolding words_of_def using total_words_mono [OF le] total_words_deeper by (blast intro: order_trans)
qed

lemma words_of_bound: "n < 2 ^ 24 \<Longrightarrow> words_of n < 2 ^ 25"
proof -
  assume n: "n < 2 ^ 24"
  have "GetRequiredDepth n \<le> 4" by (rule GetRequiredDepth_le) (use n in simp_all)
  with total_words_le [of "GetRequiredDepth n" n] n show ?thesis by (simp add: words_of_def)
qed

lemma align_shift_pages:
  assumes "i < 8"
  shows "(if next_shift i \<noteq> 0 then push_bit (next_shift i) 1 else push_bit (MemoryBlockPageShifts ! i) 1)
    = page_adr (align_pages i)"
proof (cases "i < 7")
  case True
  then have "next_shift i = MemoryBlockPageShifts ! Suc i" "next_shift i \<noteq> 0"
    using shift_bounds [of "Suc i"] by (auto simp: next_shift_def)
  then show ?thesis using page_adr_size [of "Suc i"] True by (simp add: align_pages_def)
next
  case False
  then show ?thesis using page_adr_size [OF assms] by (simp add: next_shift_def align_pages_def)
qed

lemma page_adr_divide:
  assumes "0 < m" and "m * k < 2 ^ 52"
  shows "page_adr (m * k) div page_adr m = of_nat k"
proof -
  have "m \<le> m * k" if "k \<noteq> 0" using that by simp
  then have "k \<noteq> 0 \<Longrightarrow> m < 2 ^ 52" using le_less_trans [OF _ assms(2)] by blast
  moreover have "k \<le> m * k" using assms(1) by simp
  then have "k < 2 ^ 52" using assms(2) by (rule le_less_trans)
  then have "k < 2 ^ 64" by simp
  ultimately show ?thesis
    using assms by (cases "k = 0") (simp_all add: word_unat_eq_iff unat_div unat_page_adr unat_of_nat)
qed

lemma managed_enough:
  assumes "region_ok A N" and "i < 8"
  shows "num_offsets A N i \<le> managed N i" and "managed N i < 2 ^ 24"
proof -
  let ?a = "align_pages i" and ?m = "block_pages i"
  have E: "(A + N + ?a - 1) div ?a \<le> A div ?a + (2 + (N + ?a - 1) div ?a)"
  proof -
    have "A + N + ?a - 1 \<le> (A div ?a * ?a + ?a) + ((N + ?a - 1) div ?a * ?a + ?a)"
      using dividend_less_div_times [of ?a A] dividend_less_div_times [of ?a "N + ?a - 1"]
        align_pages_pos [of i] by linarith
    then have "(A + N + ?a - 1) div ?a \<le> (A div ?a * ?a + ?a + ((N + ?a - 1) div ?a * ?a + ?a)) div ?a"
      by (rule div_le_mono)
    also have "A div ?a * ?a + ?a + ((N + ?a - 1) div ?a * ?a + ?a) = (A div ?a + (2 + (N + ?a - 1) div ?a)) * ?a"
      by (simp add: algebra_simps)
    finally show ?thesis by simp
  qed
  have "(A + N + ?a - 1) div ?a * ?a - base_page A i \<le> (2 + (N + ?a - 1) div ?a) * ?a"
    using mult_le_mono1 [OF E, of ?a] by (simp add: base_page_def add_mult_distrib)
  then have "num_offsets A N i \<le> ((2 + (N + ?a - 1) div ?a) * ?a) div ?m"
    unfolding num_offsets_def by (rule div_le_mono)
  moreover have "(2 + (N + ?a - 1) div ?a) * ?a = ?a * 2 + (N + ?a - 1) div ?a * ?a"
    by (simp add: add_mult_distrib)
  ultimately show "num_offsets A N i \<le> managed N i" by (simp only: managed_def)
  have "managed N i \<le> ?a * 2 + (N + ?a - 1) div ?a * ?a" by (simp add: managed_def)
  also have "\<dots> \<le> ?a * 2 + (N + ?a - 1)" by simp
  also have "\<dots> < 16777216"
  proof -
    have "N \<le> 8388608" using assms(1) by (simp add: region_ok_def)
    with align_pages_le [OF assms(2)] show ?thesis by linarith
  qed
  also have "16777216 = (2 :: nat) ^ 24" by simp
  finally show "managed N i < 2 ^ 24" .
qed

lemma block_overhead:
  assumes "region_ok A N" and "i < 8"
  shows "unat (Block_CalculateManagementOverheadSize (page_adr N) (MemoryBlockPageShifts ! i) (next_shift i))
    = 8 * words_of (managed N i)"
proof -
  let ?a = "align_pages i" and ?m = "block_pages i"
  have a: "?a \<le> 2 ^ 20" using align_pages_le [OF assms(2)] by simp
  have N: "N < 2 ^ 50" using assms(1) by (simp add: region_ok_def)
  have up: "AlignUp (page_adr N) (page_adr ?a) = page_adr ((N + ?a - 1) div ?a * ?a)"
    by (rule AlignUp_pages [OF align_pages_pos a N])
  let ?t = "?a * 2 + (N + ?a - 1) div ?a * ?a"
  obtain k where k: "?a = ?m * k" using align_pages_multiple [OF assms(2)] by blast
  have t: "?t = ?m * managed N i"
  proof -
    have "?m dvd ?t" using k by (metis dvd_add dvd_mult dvd_mult2 dvd_triv_left)
    then show ?thesis by (simp add: managed_def)
  qed
  have "?t \<le> ?a * 2 + (N + ?a - 1)" by simp
  also have "\<dots> < 2 ^ 52" using a N by simp
  finally have small: "?m * managed N i < 2 ^ 52" unfolding t .
  have "page_adr ?a * 2 + page_adr ((N + ?a - 1) div ?a * ?a) = page_adr ?t"
    by (simp add: page_adr_def algebra_simps)
  then have "Block_CalculateManagementOverheadSize (page_adr N) (MemoryBlockPageShifts ! i) (next_shift i)
      = Bitmap_CalculateManagementOverheadSize (of_nat (managed N i))"
    unfolding Block_CalculateManagementOverheadSize_def Let_def align_shift_pages [OF assms(2)] up
    unfolding page_adr_size [OF assms(2)] t by (simp only: page_adr_divide [OF block_pages_pos small])
  then show ?thesis
    using overhead_size [OF managed_enough(2) [OF assms]] by (simp add: words_of_def)
qed

lemma drop_shifts: "i < 8 \<Longrightarrow> drop i MemoryBlockPageShifts = MemoryBlockPageShifts ! i # drop (Suc i) MemoryBlockPageShifts"
  by (rule Cons_nth_drop_Suc [symmetric]) (simp add: shifts_list)

lemma next_of_drop: "i < 8 \<Longrightarrow> (case drop (Suc i) MemoryBlockPageShifts of [] \<Rightarrow> 0 | nbs # _ \<Rightarrow> nbs) = next_shift i"
  by (auto simp: lt8 next_shift_def shifts_list)

lemma overhead_sum_ok:
  assumes "region_ok A N"
  shows "i \<le> 8 \<Longrightarrow> overhead_sum (page_adr N) (drop i MemoryBlockPageShifts) =
    of_nat (\<Sum>j = i..<8. 8 * words_of (managed N j))"
proof (induction "8 - i" arbitrary: i)
  case 0
  then show ?case by (simp add: shifts_list)
next
  case (Suc d)
  then have i: "i < 8" by simp
  have "Block_CalculateManagementOverheadSize (page_adr N) (MemoryBlockPageShifts ! i) (next_shift i)
      = of_nat (8 * words_of (managed N i))"
    by (metis block_overhead [OF assms i] of_nat_unat ucast_id)
  then show ?case
    using Suc.hyps(1) [of "Suc i"] Suc.hyps(2) i
    unfolding drop_shifts [OF i] overhead_sum.simps next_of_drop [OF i] sum.atLeast_Suc_lessThan [OF i]
    by simp
qed

lemma heap_overhead:
  assumes "region_ok A N"
  shows "(\<Sum>j < 8. words_of (num_offsets A N j)) \<le> unat (Heap_CalculateManagementOverheadSize (page_adr N)) div 8"
proof -
  let ?s = "\<Sum>j = 0..<8. 8 * words_of (managed N j)"
  have "?s \<le> (\<Sum>j = 0..<8::nat. 2 ^ 28)"
    using words_of_bound managed_enough(2) [OF assms] by (intro sum_mono) (simp add: less_imp_le)
  then have small: "?s < 2 ^ 32" by simp
  have eq: "Heap_CalculateManagementOverheadSize (page_adr N) = AlignUp (of_nat ?s) PageSize"
    using overhead_sum_ok [OF assms, of 0] by (simp add: Heap_CalculateManagementOverheadSize_def)
  have "unat (AlignUp (of_nat ?s) PageSize) = (?s + 4095) div 4096 * 4096"
    using small by (subst unat_AlignUp) (simp_all add: PageSize_def unat_of_nat del: of_nat_sum)
  then have "?s \<le> unat (Heap_CalculateManagementOverheadSize (page_adr N))"
    using round_up [of 4096 ?s] eq by simp
  then have "?s div 8 \<le> unat (Heap_CalculateManagementOverheadSize (page_adr N)) div 8" by (rule div_le_mono)
  moreover have "?s div 8 = (\<Sum>j = 0..<8. words_of (managed N j))" by (simp add: sum_distrib_left [symmetric])
  moreover have "(\<Sum>j < 8. words_of (num_offsets A N j)) \<le> (\<Sum>j = 0..<8. words_of (managed N j))"
    unfolding atLeast0LessThan using managed_enough(1) [OF assms] by (intro sum_mono words_of_mono) simp
  ultimately show ?thesis by simp
qed

section \<open>The new heap\<close>

lemma Block_Initialize_ok:
  assumes "region_ok A N" and "i < 8" and "words_of (num_offsets A N i) \<le> k"
  shows "\<exists>b1. Block_Initialize b (page_adr A) (page_adr N) (MemoryBlockPageShifts ! i) (next_shift i) (replicate k 0)
      = Some (b1, replicate (k - words_of (num_offsets A N i)) 0) \<and> block_ok A N i b1 \<and> block_set A i b1 = {}"
proof -
  let ?a = "align_pages i" and ?m = "block_pages i" and ?n = "num_offsets A N i"
  have a: "?a \<le> 2 ^ 20" using align_pages_le [OF assms(2)] by simp
  have A: "A < 2 ^ 50" "A + N < 2 ^ 50" using assms(1) by (simp_all add: region_ok_def)
  have down: "AlignDown (page_adr A) (page_adr ?a) = page_adr (base_page A i)"
    unfolding base_page_def by (rule AlignDown_pages [OF align_pages_pos a A(1)])
  let ?E = "(A + N + ?a - 1) div ?a * ?a"
  have up: "AlignUp (page_adr A + page_adr N) (page_adr ?a) = page_adr ?E"
    unfolding page_adr_add by (rule AlignUp_pages [OF align_pages_pos a A(2)])
  have E: "?E < 2 ^ 51" by (rule le_less_trans [OF div_times_less_eq_dividend]) (use a A in simp)
  have b: "base_page A i \<le> ?E" using base_page_le [of A i] round_up [OF align_pages_pos, of "A + N" i] by linarith
  obtain c where c: "?a = ?m * c" using align_pages_multiple [OF assms(2)] by blast
  have dv: "?m dvd ?E - base_page A i" unfolding base_page_def c by (intro dvd_diff_nat) simp_all
  then have "?m * ?n = ?E - base_page A i" by (simp add: num_offsets_def)
  moreover have "?E - base_page A i < 2 ^ 52" using E by simp
  ultimately have off: "(page_adr ?E - page_adr (base_page A i)) div page_adr ?m = of_nat ?n"
    using page_adr_divide [OF block_pages_pos, of i ?n] page_adr_diff [OF b] by simp
  have n: "0 < ?n" "?n < 2 ^ 24" using num_offsets_bound [OF assms(1,2)] by simp_all
  from Bitmap_Initialize_ok [OF n assms(3) [unfolded words_of_def]] obtain bm
    where bm: "Bitmap_Initialize (m_bitmap b) (replicate k 0) (of_nat ?n) = Some (bm, replicate (k - words_of ?n) 0)"
      "bitmap_ok ?n bm" "free_offsets bm = {}" unfolding words_of_def by blast
  show ?thesis
    unfolding Block_Initialize_def Let_def align_shift_pages [OF assms(2)] down up
    unfolding page_adr_size [OF assms(2)] off bm(1)
    using bm(2,3) by (simp add: block_ok_def block_set_def next_shift_def)
qed

lemma initialize_blocks_ok:
  assumes "region_ok A N"
  shows "i \<le> 8 \<Longrightarrow> length bl = 8 - i \<Longrightarrow> (\<Sum>j = i..<8. words_of (num_offsets A N j)) \<le> k \<Longrightarrow>
    \<exists>bl1 rest. initialize_blocks (page_adr A) (page_adr N) (drop i MemoryBlockPageShifts) bl (replicate k 0)
        = Some (bl1, rest) \<and> length bl1 = 8 - i \<and>
      (\<forall>j < 8. i \<le> j \<longrightarrow> block_ok A N j (bl1 ! (j - i)) \<and> block_set A j (bl1 ! (j - i)) = {})"
proof (induction "8 - i" arbitrary: i bl k)
  case 0
  then show ?case by (simp add: shifts_list)
next
  case (Suc d)
  then have i: "i < 8" by simp
  obtain b bl' where bl: "bl = b # bl'" "length bl' = 8 - Suc i" using Suc.prems(2) i by (cases bl) auto
  let ?w = "words_of (num_offsets A N i)"
  have sum: "?w + (\<Sum>j = Suc i..<8. words_of (num_offsets A N j)) \<le> k"
    using Suc.prems(3) unfolding sum.atLeast_Suc_lessThan [OF i] .
  then have "?w \<le> k" by simp
  from Block_Initialize_ok [OF assms i this, of b] obtain b1
    where b1: "Block_Initialize b (page_adr A) (page_adr N) (MemoryBlockPageShifts ! i) (next_shift i) (replicate k 0)
        = Some (b1, replicate (k - ?w) 0)" "block_ok A N i b1" "block_set A i b1 = {}" by blast
  have "d = 8 - Suc i" "Suc i \<le> 8" "(\<Sum>j = Suc i..<8. words_of (num_offsets A N j)) \<le> k - ?w"
    using Suc.hyps(2) i sum by simp_all
  from Suc.hyps(1) [OF this(1,2) bl(2) this(3)] obtain bl1 rest
    where r: "initialize_blocks (page_adr A) (page_adr N) (drop (Suc i) MemoryBlockPageShifts) bl' (replicate (k - ?w) 0)
        = Some (bl1, rest)" "length bl1 = 8 - Suc i"
      "\<forall>j < 8. Suc i \<le> j \<longrightarrow> block_ok A N j (bl1 ! (j - Suc i)) \<and> block_set A j (bl1 ! (j - Suc i)) = {}" by blast
  have "initialize_blocks (page_adr A) (page_adr N) (drop i MemoryBlockPageShifts) bl (replicate k 0)
      = Some (b1 # bl1, rest)"
    unfolding drop_shifts [OF i] bl(1) initialize_blocks.simps next_of_drop [OF i] b1(1) using r(1) by simp
  moreover have "block_ok A N j ((b1 # bl1) ! (j - i)) \<and> block_set A j ((b1 # bl1) ! (j - i)) = {}"
    if "j < 8" "i \<le> j" for j
  proof (cases "j = i")
    case True
    then show ?thesis using b1(2,3) by simp
  next
    case False
    with that have "j - i = Suc (j - Suc i)" "Suc i \<le> j" by simp_all
    then show ?thesis using r(3) that(1) by simp
  qed
  ultimately show ?case using r(2) i by (intro exI [of _ "b1 # bl1"] exI [of _ rest]) simp
qed

lemma KPageHeap_Initialize_ok:
  assumes "region_ok A N" and "length (heap_blocks h) = 8"
  shows "\<exists>h1. KPageHeap_Initialize (page_adr A) (page_adr N) (Heap_CalculateManagementOverheadSize (page_adr N)) h = Some h1 \<and>
    heap_ok A N h1 \<and> heap_free A h1 = {}"
proof -
  let ?k = "unat (Heap_CalculateManagementOverheadSize (page_adr N) div 8)"
  have k: "(\<Sum>j = 0..<8. words_of (num_offsets A N j)) \<le> ?k"
    using heap_overhead [OF assms(1)] by (simp add: unat_div atLeast0LessThan)
  have "0 \<le> (8 :: nat)" "length (heap_blocks h) = 8 - 0" using assms(2) by simp_all
  from initialize_blocks_ok [OF assms(1) this k] obtain bl1 rest
    where r: "initialize_blocks (page_adr A) (page_adr N) MemoryBlockPageShifts (heap_blocks h) (replicate ?k 0)
        = Some (bl1, rest)" "length bl1 = 8"
      "\<forall>j < 8. block_ok A N j (bl1 ! j) \<and> block_set A j (bl1 ! j) = {}"
    unfolding drop_0 diff_zero by blast
  let ?h1 = "h\<lparr>page_heap_address := page_adr A, page_heap_size := page_adr N, m_num_blocks := 8, heap_blocks := bl1\<rparr>"
  have sets: "heap_sets A ?h1 j = {}" if "j < 8" for j using r(3) that by (simp add: heap_sets_def)
  have free: "heap_free A ?h1 = {}" using sets by (auto simp: free_pages_def)
  have "unique_blocks (heap_sets A ?h1)" using sets by (simp add: unique_blocks_def)
  moreover have "merged (heap_sets A ?h1)" using sets group(2) by (fastforce simp: merged_def group_of_def)
  ultimately have "heap_ok A N ?h1" using assms(1) r(2,3) free by (simp add: heap_ok_def)
  moreover have "KPageHeap_Initialize (page_adr A) (page_adr N) (Heap_CalculateManagementOverheadSize (page_adr N)) h = Some ?h1"
    by (simp add: KPageHeap_Initialize_def r(1) shifts_list [THEN arg_cong, of length])
  ultimately show ?thesis using free by blast
qed

end
