(* ===== verification/Page_Heap_Alloc_Props.thy ===== *)
theory Page_Heap_Alloc_Props
  imports Page_Heap_Props
begin

text \<open>
  Allocation from the page heap.  A search that finds nothing has seen that no size from the wanted one
  on has a block, and then no aligned run of that size is free, for the smaller blocks are merged.
\<close>

section \<open>Taking a block\<close>

text \<open>What taking a range of free pages does.\<close>

definition takes :: "nat \<Rightarrow> nat \<Rightarrow> KPageHeap \<Rightarrow> nat \<Rightarrow> nat \<Rightarrow> KPageHeap \<Rightarrow> bool" where
  "takes A N h p n h1 \<longleftrightarrow> heap_ok A N h1 \<and> {p..<p + n} \<subseteq> heap_free A h \<and>
     heap_free A h1 = heap_free A h - {p..<p + n}"

lemma takes_in_region: "heap_ok A N h \<Longrightarrow> takes A N h p n h1 \<Longrightarrow> 0 < n \<Longrightarrow> A \<le> p \<and> p + n \<le> A + N"
proof -
  assume h: "heap_ok A N h" and t: "takes A N h p n h1" and n: "0 < n"
  have "{p..<p + n} \<subseteq> {A..<A + N}" using h t unfolding takes_def heap_ok_def by blast
  moreover have "p \<in> {p..<p + n}" "p + n - 1 \<in> {p..<p + n}" using n by auto
  ultimately have "p \<in> {A..<A + N}" "p + n - 1 \<in> {A..<A + N}" by (blast dest: subsetD)+
  with n show ?thesis by auto
qed

lemma heap_same_block:
  assumes "heap_ok A N h" and "i < 8" and "block_ok A N i b" and "block_set A i b = heap_sets A h i"
  shows "heap_ok A N (h\<lparr>heap_blocks := (heap_blocks h)[i := b]\<rparr>)"
    and "heap_sets A (h\<lparr>heap_blocks := (heap_blocks h)[i := b]\<rparr>) = heap_sets A h"
proof -
  have same: "(heap_sets A h)(i := block_set A i b) = heap_sets A h" by (simp add: assms(4))
  show "heap_sets A (h\<lparr>heap_blocks := (heap_blocks h)[i := b]\<rparr>) = heap_sets A h"
    using heap_sets_update [OF assms(1,2)] same by simp
  show "heap_ok A N (h\<lparr>heap_blocks := (heap_blocks h)[i := b]\<rparr>)"
    using assms(1) by (intro heap_ok_update [OF assms(1-3)]) (simp_all add: same heap_ok_def)
qed

lemma pop_heap:
  assumes "heap_ok A N h" and "i < 8"
  shows "(heap_sets A h i = {} \<and> (\<exists>b1. PopBlock rnd (heap_blocks h ! i) = Some (0, b1) \<and>
       Block_GetSize b1 = page_adr (block_pages i) \<and>
       heap_ok A N (h\<lparr>heap_blocks := (heap_blocks h)[i := b1]\<rparr>) \<and>
       heap_sets A (h\<lparr>heap_blocks := (heap_blocks h)[i := b1]\<rparr>) = heap_sets A h)) \<or>
    (\<exists>q b1. PopBlock rnd (heap_blocks h ! i) = Some (page_adr (q * block_pages i), b1) \<and>
       page_adr (q * block_pages i) \<noteq> 0 \<and> Block_GetSize b1 = page_adr (block_pages i) \<and>
       takes A N h (q * block_pages i) (block_pages i) (h\<lparr>heap_blocks := (heap_blocks h)[i := b1]\<rparr>))"
proof -
  let ?T = "heap_sets A h" and ?b = "heap_blocks h ! i"
  have bok: "block_ok A N i ?b" by (rule heap_ok_block [OF assms])
  have size: "Block_GetSize b1 = page_adr (block_pages i)" if "block_ok A N i b1" for b1
    using that page_adr_size [OF assms(2)] by (simp add: block_ok_def Block_GetSize_def)
  have T: "unique_blocks ?T" "merged ?T" "free_pages ?T \<subseteq> {A..<A + N}"
    using assms(1) by (simp_all add: heap_ok_def)
  from PopBlock_ok [OF assms(2) bok, of rnd] show ?thesis
  proof (elim disjE conjE exE)
    fix b1
    assume b1: "block_set A i ?b = {}" "PopBlock rnd ?b = Some (0, b1)" "block_ok A N i b1" "block_set A i b1 = {}"
    then have "block_set A i b1 = ?T i" by (simp add: heap_sets_def)
    with b1 heap_same_block [OF assms b1(3)] size show ?thesis by (auto simp: heap_sets_def)
  next
    fix q b1
    assume b1: "PopBlock rnd ?b = Some (page_adr (q * block_pages i), b1)" "q \<in> block_set A i ?b"
      "block_ok A N i b1" "block_set A i b1 = block_set A i ?b - {q}"
    let ?h1 = "h\<lparr>heap_blocks := (heap_blocks h)[i := b1]\<rparr>"
    have q: "q \<in> ?T i" "block_set A i b1 = ?T i - {q}" using b1(2,4) by (simp_all add: heap_sets_def)
    have pg: "pages_at i q = {q * block_pages i..<q * block_pages i + block_pages i}" by (simp add: pages_at_def)
    have sub: "pages_at i q \<subseteq> free_pages ?T" by (rule block_pages_free [of i q ?T, OF assms(2) q(1)])
    have "{q} \<subseteq> ?T i" using q(1) by simp
    note rem = remove_blocks [OF T(1) assms(2) this, folded q(2)]
    have free1: "free_pages (?T(i := block_set A i b1)) = free_pages ?T - pages_at i q" using rem(2) by simp
    have "merged (?T(i := block_set A i b1))" unfolding q(2) by (rule merged_remove [OF T(2)])
    moreover have "free_pages (?T(i := block_set A i b1)) \<subseteq> {A..<A + N}" using free1 T(3) by blast
    ultimately have ok1: "heap_ok A N ?h1" by (rule heap_ok_update [OF assms b1(3) rem(1)])
    have "heap_free A ?h1 = free_pages ?T - pages_at i q"
      using heap_sets_update [OF assms, of b1] free1 by simp
    with ok1 sub have "takes A N h (q * block_pages i) (block_pages i) ?h1"
      by (simp only: takes_def pg [symmetric])
    moreover have "in_region A N i q" by (rule heap_ok_in_region [OF assms q(1)])
    then have "A \<le> q * block_pages i" "q * block_pages i < 2 ^ 50"
      using assms(1) in_region_small [of A N i q] by (simp_all add: in_region_def heap_ok_def)
    then have "page_adr (q * block_pages i) \<noteq> 0"
      using assms(1) by (intro page_adr_nonzero) (auto simp: heap_ok_def region_ok_def intro: gr0I)
    ultimately show ?thesis using b1(1) size [OF b1(3)] by blast
  qed
qed

lemma page_adr_div: "p < 2 ^ 52 \<Longrightarrow> page_adr p div PageSize = of_nat p"
  by (simp add: word_unat_eq_iff unat_div unat_page_adr PageSize_def unat_of_nat)

lemma takes_then_frees:
  assumes "takes A N h p m h1" and "p \<le> s" and "s + k \<le> p + m" and "frees A N h1 ({p..<s} \<union> {s + k..<p + m}) h2"
  shows "takes A N h s k h2"
proof -
  have "{p..<p + m} - ({p..<s} \<union> {s + k..<p + m}) = {s..<s + k}" using assms(2,3) by auto
  moreover have "{p..<s} \<union> {s + k..<p + m} \<subseteq> {p..<p + m}" using assms(2,3) by auto
  ultimately show ?thesis using assms(1,4) unfolding takes_def frees_def by blast
qed

section \<open>The search from the wanted size up\<close>

lemma KPageHeap_Free_takes:
  assumes "heap_ok A N h" and "takes A N h p m h1" and "p \<le> s" and "s + k \<le> p + m"
  shows "\<exists>h2. KPageHeap_Free (page_adr s) (of_nat k) h1 = Some h2 \<and> frees A N h1 {s..<s + k} h2"
proof (cases "k = 0")
  case True
  then show ?thesis using assms(2) frees_refl by (auto simp: KPageHeap_Free_def takes_def)
next
  case False
  then have "A \<le> p" "p + m \<le> A + N" using takes_in_region [OF assms(1,2)] assms(3,4) by auto
  moreover have "{s..<s + k} \<inter> heap_free A h1 = {}"
    using assms(2-4) by (auto simp: takes_def)
  ultimately show ?thesis
    using assms(2-4) by (intro KPageHeap_Free_ok) (simp_all add: takes_def)
qed

lemma block_pages_dvds: "i \<le> j \<Longrightarrow> j < 8 \<Longrightarrow> block_pages i dvd block_pages j"
proof (induction j rule: dec_induct)
  case (step j)
  then show ?case using block_pages_dvd by (metis Suc_lessD dvd_trans)
qed simp

lemma linear_search_ok:
  assumes "i < 8"
  shows "heap_ok A N h \<Longrightarrow> i \<le> k \<Longrightarrow> k \<le> 8 \<Longrightarrow>
    (\<exists>h1. linear_search (page_adr (block_pages i)) [k..<8] h = Some (0, h1) \<and> heap_ok A N h1 \<and>
       heap_sets A h1 = heap_sets A h \<and> (\<forall>j. k \<le> j \<and> j < 8 \<longrightarrow> heap_sets A h j = {})) \<or>
    (\<exists>p h1. linear_search (page_adr (block_pages i)) [k..<8] h = Some (page_adr p, h1) \<and> page_adr p \<noteq> 0 \<and>
       block_pages i dvd p \<and> takes A N h p (block_pages i) h1)"
proof (induction "8 - k" arbitrary: k h)
  case 0
  then show ?case by auto
next
  case (Suc m)
  then have k: "k < 8" by simp
  then have upt: "[k..<8] = k # [Suc k..<8]" by (rule upt_conv_Cons)
  let ?n = "block_pages i" and ?m = "block_pages k"
  have dv: "?n dvd ?m" by (rule block_pages_dvds [OF Suc.prems(2) k])
  then have le: "?n \<le> ?m" by (rule dvd_imp_le) simp
  have less: "page_adr ?n < page_adr ?m \<longleftrightarrow> ?n < ?m"
    using block_pages_le [OF assms] block_pages_le [OF k] by (intro page_adr_less) simp_all
  from pop_heap [OF Suc.prems(1) k, of False] show ?case
  proof (elim disjE conjE exE)
    fix b1
    let ?h1 = "h\<lparr>heap_blocks := (heap_blocks h)[k := b1]\<rparr>"
    assume b1: "heap_sets A h k = {}" "PopBlock False (heap_blocks h ! k) = Some (0, b1)"
      "heap_ok A N ?h1" "heap_sets A ?h1 = heap_sets A h"
    have eq: "linear_search (page_adr ?n) [k..<8] h = linear_search (page_adr ?n) [Suc k..<8] ?h1"
      unfolding upt by (simp add: b1(2))
    have "m = 8 - Suc k" "i \<le> Suc k" "Suc k \<le> 8" using Suc.hyps(2) Suc.prems(2) k by simp_all
    from Suc.hyps(1) [OF this(1) b1(3) this(2,3)] show ?thesis
      unfolding eq b1(4) takes_def using b1(1) by (metis Suc_leI le_neq_implies_less)
  next
    fix q b1
    let ?h1 = "h\<lparr>heap_blocks := (heap_blocks h)[k := b1]\<rparr>" and ?p = "q * ?m"
    assume b1: "PopBlock False (heap_blocks h ! k) = Some (page_adr ?p, b1)" "page_adr ?p \<noteq> 0"
      "Block_GetSize b1 = page_adr ?m" "takes A N h ?p ?m ?h1"
    have small: "?m - ?n < 2 ^ 52" using block_pages_le [OF k] by simp
    have dvp: "?n dvd ?p" using dv by simp
    show ?thesis
    proof (cases "?n < ?m")
      case False
      then have "?n = ?m" using le by simp
      then have "linear_search (page_adr ?n) [k..<8] h = Some (page_adr ?p, ?h1)"
        unfolding upt by (simp add: b1(1-3))
      then show ?thesis using b1(2,4) dvp \<open>?n = ?m\<close> by metis
    next
      case True
      have "?p + ?n + (?m - ?n) \<le> ?p + ?m" using le by simp
      from KPageHeap_Free_takes [OF Suc.prems(1) b1(4) _ this] obtain h2
        where h2: "KPageHeap_Free (page_adr (?p + ?n)) (of_nat (?m - ?n)) ?h1 = Some h2"
          "frees A N ?h1 {?p + ?n..<?p + ?n + (?m - ?n)} h2" by auto
      have args: "page_adr ?p + page_adr ?n = page_adr (?p + ?n)"
        "(page_adr ?m - page_adr ?n) div PageSize = of_nat (?m - ?n)"
        using page_adr_div [OF small] le by (simp_all add: page_adr_add page_adr_diff)
      have "linear_search (page_adr ?n) [k..<8] h = Some (page_adr ?p, h2)"
        unfolding upt using True less b1(1-3) h2(1) args by simp
      moreover have "takes A N h ?p ?n h2"
        by (rule takes_then_frees [OF b1(4)]) (use le h2(2) in simp_all)
      ultimately show ?thesis using b1(2) dvp by blast
    qed
  qed
qed

text \<open>No block of the size or a larger one, and so no aligned run of that length is free.\<close>

lemma no_block_no_run:
  assumes "heap_ok A N h" and "i < 8" and "\<And>j. i \<le> j \<Longrightarrow> j < 8 \<Longrightarrow> heap_sets A h j = {}"
  shows "\<not> pages_at i q \<subseteq> heap_free A h"
proof
  assume sub: "pages_at i q \<subseteq> heap_free A h"
  have m: "merged (heap_sets A h)" using assms(1) by (simp add: heap_ok_def)
  have "\<exists>j < i. p div block_pages j \<in> heap_sets A h j" if p: "p div block_pages i = q" for p
  proof -
    have "p \<in> heap_free A h" using sub p by (auto simp: in_block)
    then obtain j where "j < 8" "p div block_pages j \<in> heap_sets A h j" by (auto simp: free_pages_def)
    then show ?thesis using assms(3) [of j] by (metis empty_iff not_le)
  qed
  from merged_covers [OF m assms(2) this] show False .
qed

lemma AllocateByLinearSearch_ok:
  assumes "heap_ok A N h" and "i < 8"
  shows "(\<exists>h1. AllocateByLinearSearch i h = Some (0, h1) \<and> heap_ok A N h1 \<and>
       heap_free A h1 = heap_free A h \<and> (\<forall>q. \<not> pages_at i q \<subseteq> heap_free A h)) \<or>
    (\<exists>p h1. AllocateByLinearSearch i h = Some (page_adr p, h1) \<and> page_adr p \<noteq> 0 \<and>
       block_pages i dvd p \<and> takes A N h p (block_pages i) h1)"
proof -
  have eq: "AllocateByLinearSearch i h = linear_search (page_adr (block_pages i)) [i..<8] h"
    using assms heap_block_size [OF assms] by (simp add: AllocateByLinearSearch_def heap_ok_def)
  from linear_search_ok [OF assms(2,1) order.refl] assms(2) show ?thesis
    unfolding eq using no_block_no_run [OF assms] by (metis less_or_eq_imp_le)
qed

section \<open>The random choice\<close>

text \<open>The alignments of one size are at most the pages of its free blocks.\<close>

lemma block_count:
  assumes "heap_ok A N h" and "i < 8"
  shows "GetNumFreeBlocks (heap_blocks h ! i) = of_nat (card (heap_sets A h i))" and "finite (heap_sets A h i)"
    and "card (heap_sets A h i) * block_pages i \<le> N"
proof -
  let ?b = "heap_blocks h ! i"
  have b: "block_ok A N i ?b" by (rule heap_ok_block [OF assms])
  have fin: "finite (free_offsets (m_bitmap ?b))" by (rule block_ok_finite [OF b])
  have "card (heap_sets A h i) = card (free_offsets (m_bitmap ?b))"
    unfolding heap_sets_def block_set_def by (intro card_image) (simp add: inj_on_def)
  then show "GetNumFreeBlocks ?b = of_nat (card (heap_sets A h i))"
    using b by (simp add: GetNumFreeBlocks_def block_ok_def bitmap_ok_def)
  show f: "finite (heap_sets A h i)" using fin by (simp add: heap_sets_def block_set_def)
  have "(\<Union>q \<in> heap_sets A h i. pages_at i q) \<subseteq> heap_free A h"
    using block_pages_free [of i _ "heap_sets A h", OF assms(2)] by blast
  then have sub: "(\<Union>q \<in> heap_sets A h i. pages_at i q) \<subseteq> {A..<A + N}"
    using assms(1) unfolding heap_ok_def by blast
  have "card (\<Union>q \<in> heap_sets A h i. pages_at i q) = (\<Sum>q \<in> heap_sets A h i. card (pages_at i q))"
    using f by (intro card_UN_disjoint) (auto simp: in_block, simp add: pages_at_def)
  also have "\<dots> = card (heap_sets A h i) * block_pages i" by (simp add: pages_at_def)
  finally have "card (heap_sets A h i) * block_pages i = card (\<Union>q \<in> heap_sets A h i. pages_at i q)" ..
  also have "\<dots> \<le> card {A..<A + N}" by (rule card_mono [OF _ sub]) simp
  finally show "card (heap_sets A h i) * block_pages i \<le> N" by simp
qed

definition alignments :: "nat \<Rightarrow> nat \<Rightarrow> nat \<Rightarrow> KPageHeap \<Rightarrow> nat \<Rightarrow> nat" where
  "alignments A n a h i = (1 + (block_pages i - n) div 2 ^ a) * card (heap_sets A h i)"

lemma alignments_le:
  assumes "heap_ok A N h" and "i < 8" and "0 < n" and "n \<le> block_pages i"
  shows "alignments A n a h i \<le> N" and "0 < alignments A n a h i \<longleftrightarrow> heap_sets A h i \<noteq> {}"
proof -
  have "(block_pages i - n) div 2 ^ a \<le> block_pages i - n" by (rule div_le_dividend)
  then have "1 + (block_pages i - n) div 2 ^ a \<le> block_pages i" using assms(3,4) by linarith
  then have "alignments A n a h i \<le> block_pages i * card (heap_sets A h i)"
    unfolding alignments_def by (rule mult_le_mono1)
  then show "alignments A n a h i \<le> N" using block_count(3) [OF assms(1,2)] by (simp add: mult.commute)
  show "0 < alignments A n a h i \<longleftrightarrow> heap_sets A h i \<noteq> {}"
    using block_count(2) [OF assms(1,2)] by (auto simp: alignments_def card_gt_0_iff)
qed

lemma page_adr_shift: "k < 2 ^ 52 \<Longrightarrow> drop_bit (a + 12) (page_adr k) = of_nat (k div 2 ^ a)"
proof -
  assume k: "k < 2 ^ 52"
  have "unat (drop_bit (a + 12) (page_adr k)) = k * 4096 div 2 ^ (a + 12)"
    by (simp only: unat_drop_bit_eq drop_bit_eq_div [where 'a = nat] unat_page_adr [OF k])
  also have "\<dots> = k * 4096 div (2 ^ a * 4096)" by (simp add: power_add)
  also have "\<dots> = k div 2 ^ a" by (subst div_mult_mult2) simp_all
  finally show ?thesis by (metis of_nat_unat ucast_id)
qed

lemma block_alignments_ok:
  assumes "heap_ok A N h" and "i < 8" and "n \<le> block_pages i"
  shows "block_alignments (page_adr n) (a + 12) (heap_blocks h ! i) = of_nat (alignments A n a h i)"
proof -
  have "block_pages i - n < 2 ^ 52" using block_pages_le [OF assms(2)] by simp
  then show ?thesis
    using assms(3) by (simp add: block_alignments_def heap_block_size [OF assms(1,2)] page_adr_diff
        page_adr_shift block_count(1) [OF assms(1,2)] alignments_def algebra_simps)
qed

text \<open>The first loop stops with a small sum, which is the alignments it has seen.\<close>

lemma count_alignments_ok:
  assumes "heap_ok A N h" and "0 < n" and "\<And>j. i \<le> j \<Longrightarrow> j < 8 \<Longrightarrow> n \<le> block_pages j"
  shows "i \<le> k \<Longrightarrow> k \<le> 8 \<Longrightarrow> s < 4 \<Longrightarrow> s = (\<Sum>j = i..<k. alignments A n a h j) \<Longrightarrow>
    \<exists>m. count_alignments (page_adr n) (a + 12) h [k..<8] (of_nat s) 8
          = (of_nat (\<Sum>j = i..<m. alignments A n a h j), m) \<and>
        (\<Sum>j = i..<m. alignments A n a h j) < 2 ^ 24 \<and> m \<le> 8 \<and> k \<le> m \<and>
        (m < 8 \<longrightarrow> k < m \<and> 4 \<le> (\<Sum>j = i..<m. alignments A n a h j))"
proof (induction "8 - k" arbitrary: k s)
  case 0
  then show ?case by (intro exI [of _ 8]) simp
next
  case (Suc d)
  then have k: "k < 8" by simp
  let ?s = "s + alignments A n a h k"
  have N: "N \<le> 2 ^ 23" using assms(1) by (simp add: heap_ok_def region_ok_def)
  have le: "alignments A n a h k \<le> N"
    using alignments_le(1) [OF assms(1) k assms(2)] assms(3) [OF Suc.prems(1) k] by simp
  have small: "?s < 2 ^ 24" using le N Suc.prems(3) by simp
  have sum: "?s = (\<Sum>j = i..<Suc k. alignments A n a h j)" using Suc.prems(1,4) by simp
  have four: "(of_nat ?s \<ge> (4 :: u64)) \<longleftrightarrow> 4 \<le> ?s"
    using small by (simp add: word_le_nat_alt unat_of_nat del: of_nat_add)
  have w: "(of_nat s :: u64) + of_nat (alignments A n a h k) = of_nat ?s" by simp
  have eq: "count_alignments (page_adr n) (a + 12) h [k..<8] (of_nat s) 8
      = (if 4 \<le> ?s then (of_nat ?s, Suc k)
         else count_alignments (page_adr n) (a + 12) h [Suc k..<8] (of_nat ?s) 8)"
    unfolding upt_conv_Cons [OF k] count_alignments.simps Let_def
      block_alignments_ok [OF assms(1) k assms(3) [OF Suc.prems(1) k]] w four by simp
  show ?case
  proof (cases "4 \<le> ?s")
    case True
    then show ?thesis unfolding eq if_P [OF True]
      using small k by (intro exI [of _ "Suc k"]) (simp add: sum)
  next
    case False
    have "d = 8 - Suc k" "i \<le> Suc k" "Suc k \<le> 8" "?s < 4" using Suc.hyps(2) Suc.prems(1) k False by simp_all
    from Suc.hyps(1) [OF this sum] show ?thesis unfolding eq if_not_P [OF False] by (meson Suc_leD less_trans lessI)
  qed
qed

text \<open>The second loop reaches the block that the random number falls into.\<close>

lemma pick_block_ok:
  assumes "heap_ok A N h" and "0 < n" and "\<And>j. i \<le> j \<Longrightarrow> j < 8 \<Longrightarrow> n \<le> block_pages j" and "m \<le> 8"
    and "(\<Sum>j = i..<m. alignments A n a h j) < 2 ^ 24" and "r < (\<Sum>j = i..<m. alignments A n a h j)"
  shows "i \<le> k \<Longrightarrow> k \<le> m \<Longrightarrow> s = (\<Sum>j = i..<k. alignments A n a h j) \<Longrightarrow> s \<le> r \<Longrightarrow>
    \<exists>j. pick_block (page_adr n) (a + 12) h (of_nat r) [k..<m] (of_nat s) i = j \<and> k \<le> j \<and> j < m \<and>
        heap_sets A h j \<noteq> {}"
proof (induction "m - k" arbitrary: k s)
  case 0
  then show ?case using assms(6) by simp
next
  case (Suc d)
  then have k: "k < m" "k < 8" using assms(4) by simp_all
  let ?s = "s + alignments A n a h k"
  have sum: "?s = (\<Sum>j = i..<Suc k. alignments A n a h j)" using Suc.prems(1,3) by simp
  also have "\<dots> \<le> (\<Sum>j = i..<m. alignments A n a h j)" using k(1) by (intro sum_mono2) auto
  finally have le: "?s \<le> (\<Sum>j = i..<m. alignments A n a h j)" .
  have lt: "(of_nat r < (of_nat ?s :: u64)) \<longleftrightarrow> r < ?s"
    using le assms(5,6) by (simp add: word_less_nat_alt unat_of_nat del: of_nat_add)
  have w: "(of_nat s :: u64) + of_nat (alignments A n a h k) = of_nat ?s" by simp
  have eq: "pick_block (page_adr n) (a + 12) h (of_nat r) [k..<m] (of_nat s) i
      = (if r < ?s then k else pick_block (page_adr n) (a + 12) h (of_nat r) [Suc k..<m] (of_nat ?s) i)"
    unfolding upt_conv_Cons [OF k(1)] pick_block.simps Let_def
      block_alignments_ok [OF assms(1) k(2) assms(3) [OF Suc.prems(1) k(2)]] w lt by simp
  show ?case
  proof (cases "r < ?s")
    case True
    then have "0 < alignments A n a h k" using Suc.prems(4) by simp
    then have "heap_sets A h k \<noteq> {}"
      using alignments_le(2) [OF assms(1) k(2) assms(2)] assms(3) [OF Suc.prems(1) k(2)] by blast
    then show ?thesis unfolding eq if_P [OF True] using k(1) by simp
  next
    case False
    have "d = m - Suc k" "i \<le> Suc k" "Suc k \<le> m" "?s \<le> r" using Suc.hyps(2) Suc.prems(1) k False by simp_all
    from Suc.hyps(1) [OF this(1-3) sum this(4)] show ?thesis
      unfolding eq if_not_P [OF False] by (meson Suc_leD)
  qed
qed

lemma KPageHeap_Free_nothing [simp]: "KPageHeap_Free adr 0 h = Some h"
  by (simp add: KPageHeap_Free_def)

lemma unat_of_nat_small: "k < 2 ^ 64 \<Longrightarrow> unat (of_nat k :: u64) = k"
  by (simp add: unat_of_nat)

lemma block_pages_mono: "i \<le> j \<Longrightarrow> j < 8 \<Longrightarrow> block_pages i \<le> block_pages j"
  by (rule dvd_imp_le [OF block_pages_dvds]) simp_all

lemma block_pages_power: "2 ^ a \<le> block_pages i \<Longrightarrow> 2 ^ a dvd block_pages i"
  by (simp add: block_pages_def le_imp_power_dvd)

lemma choose_index_ok:
  assumes "heap_ok A N h" and "i < 8" and "0 < n" and "n \<le> block_pages i"
  shows "\<exists>j r. choose_index i (page_adr n) (a + 12) h = Some (j, h\<lparr>heap_rng := r\<rparr>) \<and> i \<le> j \<and> j < 8 \<and>
    (heap_sets A h j = {} \<longrightarrow> (\<forall>k. i \<le> k \<and> k < 8 \<longrightarrow> heap_sets A h k = {}))"
proof -
  let ?al = "alignments A n a h"
  have fits: "n \<le> block_pages j" if "i \<le> j" "j < 8" for j
    using block_pages_mono [OF that] assms(4) by simp
  have eight: "m_num_blocks h = 8" using assms(1) by (simp add: heap_ok_def)
  have "\<exists>m. count_alignments (page_adr n) (a + 12) h [i..<8] (of_nat 0) 8 = (of_nat (\<Sum>j = i..<m. ?al j), m) \<and>
      (\<Sum>j = i..<m. ?al j) < 2 ^ 24 \<and> m \<le> 8 \<and> i \<le> m \<and> (m < 8 \<longrightarrow> i < m \<and> 4 \<le> (\<Sum>j = i..<m. ?al j))"
    by (rule count_alignments_ok [OF assms(1,3) fits]) (use assms(2) in simp_all)
  then have "\<exists>m. count_alignments (page_adr n) (a + 12) h [i..<8] 0 8 = (of_nat (\<Sum>j = i..<m. ?al j), m) \<and>
      (\<Sum>j = i..<m. ?al j) < 2 ^ 24 \<and> m \<le> 8 \<and> i \<le> m \<and> (m < 8 \<longrightarrow> i < m \<and> 4 \<le> (\<Sum>j = i..<m. ?al j))"
    by (simp only: semiring_1_class.of_nat_0)
  then obtain m where m: "count_alignments (page_adr n) (a + 12) h [i..<8] 0 8 = (of_nat (\<Sum>j = i..<m. ?al j), m)"
    "(\<Sum>j = i..<m. ?al j) < 2 ^ 24" "m \<le> 8" "i \<le> m" "m < 8 \<Longrightarrow> i < m \<and> 4 \<le> (\<Sum>j = i..<m. ?al j)"
    by blast
  define s where "s = (\<Sum>j = i..<m. ?al j)"
  have im: "i < m" using m(3,5) assms(2) by (cases "m = 8") auto
  have pos: "(0 < (of_nat s :: u64)) \<longleftrightarrow> 0 < s"
    using m(2) by (simp add: s_def word_less_nat_alt unat_of_nat del: of_nat_sum)
  note eq = choose_index_def [of i "page_adr n" "a + 12" h, unfolded eight Let_def m(1) prod.case,
      folded s_def, unfolded pos]
  show ?thesis
  proof (cases "0 < s \<and> i + 1 < m")
    case True
    have small: "(of_nat s :: u64) < 2 ^ 30"
      using m(2) by (simp add: s_def word_less_nat_alt unat_of_nat del: of_nat_sum)
    from GenerateRandom_below [OF _ small] True pos obtain x r
      where x: "GenerateRandom (of_nat s) (heap_rng h) = Some (x, r)" "x < of_nat s" by blast
    have "unat x < s" using x(2) m(2) by (simp add: s_def word_less_nat_alt unat_of_nat del: of_nat_sum)
    from pick_block_ok [where k = i and s = 0, OF assms(1,3) fits m(3,2) this [unfolded s_def]] im
    obtain j where "pick_block (page_adr n) (a + 12) h x [i..<m] 0 i = j" "i \<le> j" "j < m" "heap_sets A h j \<noteq> {}"
      by auto
    then show ?thesis unfolding eq if_P [OF True] x(1) option.case prod.case using m(3) by fastforce
  next
    case False
    have "heap_sets A h i = {} \<longrightarrow> (\<forall>k. i \<le> k \<and> k < 8 \<longrightarrow> heap_sets A h k = {})"
    proof (intro impI allI, elim conjE)
      fix k assume i: "heap_sets A h i = {}" and k: "i \<le> k" "k < 8"
      show "heap_sets A h k = {}"
      proof (cases "m = Suc i")
        case True
        have "?al i = 0" using alignments_le(2) [OF assms] i by simp
        then have "s = 0" by (simp add: s_def True)
        then have "m = 8" using m(3,5) by (cases "m < 8") (auto simp: s_def)
        with True k i show ?thesis by (cases "k = i") simp_all
      next
        case neq: False
        with im False have "s = 0" by simp
        then have "m = 8" using m(3,5) by (cases "m < 8") (auto simp: s_def)
        moreover have "?al k = 0" if "m = 8" using \<open>s = 0\<close> k that by (simp add: s_def)
        ultimately show ?thesis using alignments_le(2) [where a = a, OF assms(1) k(2) assms(3) fits [OF k]] by simp
      qed
    qed
    then show ?thesis unfolding eq if_not_P [OF False] using assms(2)
      by (intro exI [of _ i] exI [of _ "heap_rng h"]) simp
  qed
qed

lemma page_adr_scale: "push_bit (a + 12) x = page_adr (unat x * 2 ^ a)"
proof -
  have "page_adr (unat x * 2 ^ a) = of_nat (unat x) * 2 ^ (a + 12)"
    by (simp add: page_adr_def power_add mult.assoc)
  then show ?thesis by (simp add: push_bit_eq_mult)
qed

lemma free_leftover_ok:
  assumes "heap_ok A N h" and "takes A N h p m h1" and "n \<le> m" and "0 < n" and "m \<le> 2 ^ 18"
  shows "\<exists>s h2. free_leftover (page_adr p) (page_adr n) (page_adr (m - n)) (a + 12) h1 = Some (page_adr s, h2) \<and>
    p \<le> s \<and> s + n \<le> p + m \<and> 2 ^ a dvd s - p \<and> takes A N h s n h2"
proof -
  let ?l = "m - n"
  have l: "?l < 2 ^ 52" "?l div 2 ^ a \<le> ?l" using assms(5) by simp_all
  have "Suc (?l div 2 ^ a) \<le> Suc (2 ^ 18)" using l(2) assms(5) by linarith
  then have s30: "Suc (?l div 2 ^ a) < 2 ^ 30" by (rule le_less_trans) simp
  then have "Suc (?l div 2 ^ a) < 2 ^ 64" by (rule less_trans) simp
  then have u: "unat (1 + of_nat (?l div 2 ^ a) :: u64) = Suc (?l div 2 ^ a)"
    by (metis of_nat_Suc unat_of_nat_small)
  have "(1 + of_nat (?l div 2 ^ a) :: u64) < 2 ^ 30" "(0 :: u64) < 1 + of_nat (?l div 2 ^ a)"
    using s30 by (simp_all add: word_less_nat_alt u)
  from GenerateRandom_below [OF this(2,1), of "heap_rng h1"] obtain x r
    where x: "GenerateRandom (1 + of_nat (?l div 2 ^ a)) (heap_rng h1) = Some (x, r)"
      "x < 1 + of_nat (?l div 2 ^ a)" by blast
  define k where "k = unat x * 2 ^ a"
  have "unat x \<le> ?l div 2 ^ a" using x(2) by (simp add: word_less_nat_alt u)
  then have "k \<le> ?l div 2 ^ a * 2 ^ a" unfolding k_def by (rule mult_le_mono1)
  then have k: "k \<le> ?l" by (rule le_trans) (rule div_times_less_eq_dividend)
  let ?h1 = "h1\<lparr>heap_rng := r\<rparr>" and ?s = "p + k"
  have t: "takes A N h p m ?h1" using assms(2) by (simp add: takes_def)
  have z: "(page_adr k \<noteq> 0) \<longleftrightarrow> k \<noteq> 0" "(page_adr k \<noteq> page_adr ?l) \<longleftrightarrow> k \<noteq> ?l"
    using page_adr_eq [of k 0] page_adr_eq [of k ?l] k l(1) by simp_all
  have args: "page_adr k div PageSize = of_nat k" "(page_adr ?l - page_adr k) div PageSize = of_nat (?l - k)"
    "page_adr ?s + page_adr n = page_adr (?s + n)" "page_adr p + page_adr k = page_adr ?s"
    using page_adr_div [of k] page_adr_div [of "?l - k"] k l(1) by (simp_all add: page_adr_diff page_adr_add)
  have "p + k \<le> p + m" using k by simp
  from KPageHeap_Free_takes [OF assms(1) t order.refl this] obtain h2
    where f: "KPageHeap_Free (page_adr p) (of_nat k) ?h1 = Some h2" and h2: "frees A N ?h1 {p..<p + k} h2" by blast
  have f2: "(if page_adr k \<noteq> 0 then KPageHeap_Free (page_adr p) (of_nat k) ?h1 else Some ?h1) = Some h2"
    using f by (cases "k = 0") (simp_all add: z)
  have e: "?s + n + (?l - k) = p + m" using k assms(3) by simp
  have reg: "A \<le> p" "p + m \<le> A + N" using takes_in_region [OF assms(1,2)] assms(3,4) by auto
  have "{p..<p + m} \<inter> heap_free A ?h1 = {}" using t by (auto simp: takes_def)
  then have d: "{?s + n..<p + m} \<inter> heap_free A ?h1 = {}" by (rule sub_range) simp_all
  have "{?s + n..<?s + n + (?l - k)} \<inter> heap_free A h2 = {}"
    unfolding e by (rule frees_disjoint [OF h2 d]) auto
  moreover have "A \<le> ?s + n" "?s + n + (?l - k) \<le> A + N" unfolding e using reg by simp_all
  ultimately obtain h3 where g: "KPageHeap_Free (page_adr (?s + n)) (of_nat (?l - k)) h2 = Some h3"
    and h3: "frees A N h2 {?s + n..<p + m} h3"
    using KPageHeap_Free_ok [OF frees_ok [OF h2], of "?s + n" "?l - k"] unfolding e by blast
  have g2: "(if page_adr k \<noteq> page_adr ?l then KPageHeap_Free (page_adr (?s + n)) (of_nat (?l - k)) h2 else Some h2)
      = Some h3" using g by (cases "k = ?l") (simp_all add: z)
  have "free_leftover (page_adr p) (page_adr n) (page_adr ?l) (a + 12) h1 = Some (page_adr ?s, h3)"
    unfolding free_leftover_def Let_def page_adr_shift [OF l(1)] x(1) option.case prod.case page_adr_scale
      k_def [symmetric] args f2 Option.bind.bind_lunit g2 by simp
  moreover have "takes A N h ?s n h3"
    by (rule takes_then_frees [OF t]) (use k assms(3) frees_trans [OF h2 h3] in simp_all)
  ultimately show ?thesis using k assms(3) by (intro exI [of _ ?s] exI [of _ h3]) (simp add: k_def)
qed

lemma countr_zero_page:
  assumes "a \<le> 18"
  shows "countr_zero (page_adr (2 ^ a)) = a + 12"
proof -
  have eq: "page_adr (2 ^ a) = push_bit (a + 12) 1" by (simp only: page_adr_scale unat_1 mult_1)
  have b: "bit (page_adr (2 ^ a)) k \<longleftrightarrow> k = a + 12" for k
    unfolding eq push_bit_eq_mult mult_1 bit_exp_iff using assms by auto
  have "page_adr (2 ^ a) \<noteq> 0" using b [of "a + 12"] by (metis bit_0_eq bot_apply bot_bool_def)
  from countr_zero_bit [OF this] show ?thesis by (simp add: b)
qed

lemma AllocateByRandom_ok:
  assumes "heap_ok A N h" and "i < 8" and "0 < n" and "n \<le> block_pages i" and "2 ^ a \<le> block_pages i"
  shows "(\<exists>h1. AllocateByRandom i (of_nat n) (of_nat (2 ^ a)) h = Some (0, h1) \<and> heap_ok A N h1 \<and>
       heap_free A h1 = heap_free A h \<and> (\<forall>q. \<not> pages_at i q \<subseteq> heap_free A h)) \<or>
    (\<exists>p h1. AllocateByRandom i (of_nat n) (of_nat (2 ^ a)) h = Some (page_adr p, h1) \<and> page_adr p \<noteq> 0 \<and>
       2 ^ a dvd p \<and> takes A N h p n h1)"
proof -
  have "(2 :: nat) ^ a \<le> 2 ^ 18" using assms(5) block_pages_le [OF assms(2)] by simp
  then have a: "a \<le> 18" by (rule power_le_imp_le_exp [rotated]) simp
  have needed: "of_nat n * PageSize = page_adr n" "of_nat (2 ^ a) * PageSize = page_adr (2 ^ a)"
    by (simp_all add: page_adr_def PageSize_def)
  obtain j r where c: "choose_index i (page_adr n) (a + 12) h = Some (j, h\<lparr>heap_rng := r\<rparr>)"
    and j: "i \<le> j" "j < 8" "heap_sets A h j = {} \<longrightarrow> (\<forall>k. i \<le> k \<and> k < 8 \<longrightarrow> heap_sets A h k = {})"
    using choose_index_ok [OF assms(1-4)] by blast
  let ?h = "h\<lparr>heap_rng := r\<rparr>" and ?m = "block_pages j"
  have ok: "heap_ok A N ?h" using assms(1) by simp
  have len: "j < length (heap_blocks ?h)" using ok j(2) by (simp add: heap_ok_def)
  have m: "n \<le> ?m" "?m \<le> 2 ^ 18" "2 ^ a dvd ?m"
    using assms(4,5) block_pages_mono [OF j(1,2)] block_pages_le [OF j(2)] by (auto intro: block_pages_power)
  note def = AllocateByRandom_def [of i "of_nat n" "of_nat (2 ^ a)" h, unfolded Let_def needed
      countr_zero_page [OF a] c Option.bind.bind_lunit prod.case if_P [OF len]]
  have a64: "\<not> 64 \<le> a + 12" using a by simp
  have less: "(0 < page_adr (?m - n)) \<longleftrightarrow> 0 < ?m - n"
    using page_adr_less [of 0 "?m - n"] m(2) by simp
  from pop_heap [OF ok j(2), of True] show ?thesis
  proof (elim disjE conjE exE)
    fix b1
    let ?h1 = "?h\<lparr>heap_blocks := (heap_blocks ?h)[j := b1]\<rparr>"
    assume b1: "heap_sets A ?h j = {}" "PopBlock True (heap_blocks ?h ! j) = Some (0, b1)"
      "heap_ok A N ?h1" "heap_sets A ?h1 = heap_sets A ?h"
    have "AllocateByRandom i (of_nat n) (of_nat (2 ^ a)) h = Some (0, ?h1)"
      unfolding def using a64 b1(2) by simp
    moreover have "heap_sets A h k = {}" if "i \<le> k" "k < 8" for k using b1(1) j(3) that by simp
    then have "\<not> pages_at i q \<subseteq> heap_free A h" for q by (rule no_block_no_run [OF assms(1,2)])
    moreover have "heap_free A ?h1 = heap_free A h" by (simp only: b1(4) heap_ok_rng)
    ultimately show ?thesis using b1(3) by blast
  next
    fix q b1
    let ?h1 = "?h\<lparr>heap_blocks := (heap_blocks ?h)[j := b1]\<rparr>" and ?p = "q * ?m"
    assume b1: "PopBlock True (heap_blocks ?h ! j) = Some (page_adr ?p, b1)" "page_adr ?p \<noteq> 0"
      "Block_GetSize b1 = page_adr ?m" "takes A N ?h ?p ?m ?h1"
    have t: "takes A N h ?p ?m ?h1" using b1(4) by (simp add: takes_def)
    have left: "Block_GetSize b1 - page_adr n = page_adr (?m - n)" using m(1) by (simp add: b1(3) page_adr_diff)
    have dvp: "2 ^ a dvd ?p" using m(3) by simp
    show ?thesis
    proof (cases "n = ?m")
      case True
      then have "AllocateByRandom i (of_nat n) (of_nat (2 ^ a)) h = Some (page_adr ?p, ?h1)"
        unfolding def b1(1) option.case prod.case left less using a64 b1(2) by simp
      then show ?thesis using b1(2) dvp t True by metis
    next
      case False
      from free_leftover_ok [OF assms(1) t m(1) assms(3) m(2), of a] obtain s h2
        where s: "free_leftover (page_adr ?p) (page_adr n) (page_adr (?m - n)) (a + 12) ?h1 = Some (page_adr s, h2)"
          "?p \<le> s" "s + n \<le> ?p + ?m" "2 ^ a dvd s - ?p" "takes A N h s n h2" by blast
      have "AllocateByRandom i (of_nat n) (of_nat (2 ^ a)) h = Some (page_adr s, h2)"
        unfolding def b1(1) option.case prod.case left less using a64 b1(2) s(1) False m(1) by simp
      moreover have "2 ^ a dvd s" using dvd_add [OF s(4) dvp] s(2) by simp
      moreover have "A \<le> s" "s + n \<le> A + N" using takes_in_region [OF assms(1) s(5) assms(3)] by simp_all
      then have "page_adr s \<noteq> 0"
        using assms(1) by (intro page_adr_nonzero) (auto simp: heap_ok_def region_ok_def intro: gr0I)
      ultimately show ?thesis using s(5) by blast
    qed
  qed
qed

end
