(* ===== verification/Page_Heap_Refinement.thy ===== *)
theory Page_Heap_Refinement
  imports Page_Heap_Alloc_Props Page_Heap_Init_Props
begin

text \<open>
  The operations of the page heap against a set of free pages: what can be reached by initializing,
  freeing and allocating, with the set as a ghost.
\<close>

section \<open>Counting\<close>

lemma block_free_pages:
  assumes "heap_ok A N h" and "i < 8"
  shows "Block_GetNumFreePages (heap_blocks h ! i) = of_nat (card (heap_sets A h i) * block_pages i)"
proof -
  have "block_pages i < 2 ^ 52" using block_pages_le [OF assms(2)] by simp
  then have "Block_GetNumPages (heap_blocks h ! i) = of_nat (block_pages i)"
    by (simp add: Block_GetNumPages_def heap_block_size [OF assms] page_adr_div)
  then show ?thesis by (simp add: Block_GetNumFreePages_def block_count(1) [OF assms])
qed

lemma GetNumFreePages_ok:
  assumes "heap_ok A N h"
  shows "GetNumFreePages h = of_nat (card (heap_free A h))"
proof -
  have len: "length (heap_blocks h) = 8" "m_num_blocks h = 8" using assms by (simp_all add: heap_ok_def)
  have "map Block_GetNumFreePages (heap_blocks h) = map (\<lambda>i. Block_GetNumFreePages (heap_blocks h ! i)) [0..<8]"
    by (rule nth_equalityI) (simp_all add: len del: upt_rec_numeral)
  then have "GetNumFreePages h = sum_list (map (\<lambda>i. Block_GetNumFreePages (heap_blocks h ! i)) [0..<8])"
    by (simp only: GetNumFreePages_def len take_all order.refl)
  also have "\<dots> = (\<Sum>i = 0..<8. Block_GetNumFreePages (heap_blocks h ! i))"
    by (simp only: sum_list_distinct_conv_sum_set distinct_upt set_upt)
  also have "\<dots> = (\<Sum>i = 0..<8. of_nat (card (heap_sets A h i) * block_pages i))"
    using block_free_pages [OF assms] by (intro sum.cong) simp_all
  also have "\<dots> = of_nat (\<Sum>i < 8. card (heap_sets A h i) * block_pages i)"
    by (simp only: of_nat_sum atLeast0LessThan)
  also have "(\<Sum>i < 8. card (heap_sets A h i) * block_pages i) = card (heap_free A h)"
    using assms block_count(2) [OF assms] by (intro free_pages_card [symmetric]) (simp_all add: heap_ok_def)
  finally show ?thesis .
qed

section \<open>The result of an allocation\<close>

definition allocated ::
    "nat \<Rightarrow> nat \<Rightarrow> KPageHeap \<Rightarrow> nat \<Rightarrow> nat \<Rightarrow> nat \<Rightarrow> (u64 \<times> KPageHeap) option \<Rightarrow> bool" where
  "allocated A N h i n m res \<longleftrightarrow>
     (\<exists>addr h1. res = Some (addr, h1) \<and> heap_ok A N h1 \<and>
        (addr = 0 \<and> heap_free A h1 = heap_free A h \<and> (\<forall>q. \<not> pages_at i q \<subseteq> heap_free A h) \<or>
         (\<exists>p. addr = page_adr p \<and> addr \<noteq> 0 \<and> m dvd p \<and> takes A N h p n h1)))"

lemma AllocateByRandom_allocated:
  assumes "heap_ok A N h" and "i < 8" and "0 < n" and "n \<le> block_pages i" and "2 ^ a \<le> block_pages i"
  shows "allocated A N h i n (2 ^ a) (AllocateByRandom i (of_nat n) (of_nat (2 ^ a)) h)"
  using AllocateByRandom_ok [OF assms] unfolding allocated_def takes_def by blast

lemma AllocateBlock_allocated:
  assumes "heap_ok A N h" and "i < 8"
  shows "allocated A N h i (block_pages i) (block_pages i) (AllocateBlock i random h)"
proof (cases random)
  case False
  then show ?thesis
    using AllocateByLinearSearch_ok [OF assms] unfolding allocated_def takes_def AllocateBlock_def by auto
next
  case True
  let ?a = "MemoryBlockPageShifts ! i - 12"
  have bp: "block_pages i = 2 ^ ?a" by (simp add: block_pages_def)
  have len: "i < length (heap_blocks h)" using assms by (simp add: heap_ok_def)
  have "block_pages i < 2 ^ 52" using block_pages_le [OF assms(2)] by simp
  then have "Block_GetNumPages (heap_blocks h ! i) = of_nat (block_pages i)"
    by (simp add: Block_GetNumPages_def heap_block_size [OF assms] page_adr_div)
  then have "AllocateBlock i random h = AllocateByRandom i (of_nat (block_pages i)) (of_nat (2 ^ ?a)) h"
    using True len by (simp add: AllocateBlock_def bp Let_def)
  then show ?thesis
    using AllocateByRandom_allocated [OF assms block_pages_pos order.refl, of ?a] bp by simp
qed

lemma find_Some: "List.find P xs = Some x \<Longrightarrow> x \<in> set xs \<and> P x"
  by (auto simp: find_Some_iff)

lemma num_shifts: "length MemoryBlockPageShifts = 8"
  by (simp add: shifts_list)

text \<open>The size for a number of pages and an alignment.\<close>

lemma GetAlignedBlockIndex_fits:
  assumes "GetAlignedBlockIndex (of_nat n) (of_nat m) = Some i" and "n < 2 ^ 64" and "m < 2 ^ 64"
  shows "i < 8" and "n \<le> block_pages i" and "m \<le> block_pages i"
proof -
  have f: "i < 8" "max (of_nat n) (of_nat m) \<le> push_bit (MemoryBlockPageShifts ! i) 1 div (PageSize :: u64)"
    using find_Some [OF assms(1) [unfolded GetAlignedBlockIndex_def Let_def num_shifts]]
    by (simp_all only: set_upt atLeastLessThan_iff)
  show "i < 8" by (rule f(1))
  have bp: "block_pages i < 2 ^ 52" using block_pages_le [OF f(1)] by simp
  then have "(of_nat n :: u64) \<le> of_nat (block_pages i)" "(of_nat m :: u64) \<le> of_nat (block_pages i)"
    using f(2) unfolding page_adr_size [OF f(1)] page_adr_div [OF bp] by simp_all
  then show "n \<le> block_pages i" "m \<le> block_pages i"
    using assms(2,3) bp by (simp_all add: word_le_nat_alt unat_of_nat)
qed

lemma AllocateAligned_allocated:
  assumes "heap_ok A N h" and "GetAlignedBlockIndex (of_nat n) (of_nat (2 ^ a)) = Some i"
    and "0 < n" and "n < 2 ^ 64" and "a < 64"
  shows "allocated A N h i n (2 ^ a) (AllocateAligned i (of_nat n) (of_nat (2 ^ a)) h)"
proof -
  have "(2 :: nat) ^ a < 2 ^ 64" using assms(5) by (rule power_strict_increasing) simp
  note fit = GetAlignedBlockIndex_fits [OF assms(2,4) this]
  show ?thesis unfolding AllocateAligned_def by (rule AllocateByRandom_allocated [OF assms(1) fit(1) assms(3) fit(2,3)])
qed

section \<open>Reachable heaps\<close>

text \<open>The pages of a result.\<close>

definition run_of :: "u64 \<Rightarrow> nat \<Rightarrow> nat set" where
  "run_of addr n = (if addr = 0 then {} else {unat addr div 4096..<unat addr div 4096 + n})"

inductive heap_reachable :: "nat \<Rightarrow> nat \<Rightarrow> KPageHeap \<Rightarrow> nat set \<Rightarrow> bool" for A N where
  init: "region_ok A N \<Longrightarrow>
    KPageHeap_Initialize (page_adr A) (page_adr N) (Heap_CalculateManagementOverheadSize (page_adr N))
      (new_KPageHeap seed) = Some h \<Longrightarrow> heap_reachable A N h {}"
| used: "heap_reachable A N h F \<Longrightarrow> heap_reachable A N (SetInitialUsedSize reserved h) F"
| free: "heap_reachable A N h F \<Longrightarrow> A \<le> p \<Longrightarrow> p + n \<le> A + N \<Longrightarrow> {p..<p + n} \<inter> F = {} \<Longrightarrow>
    KPageHeap_Free (page_adr p) (of_nat n) h = Some h1 \<Longrightarrow> heap_reachable A N h1 (F \<union> {p..<p + n})"
| block: "heap_reachable A N h F \<Longrightarrow> i < 8 \<Longrightarrow> AllocateBlock i random h = Some (addr, h1) \<Longrightarrow>
    heap_reachable A N h1 (F - run_of addr (block_pages i))"
| aligned: "heap_reachable A N h F \<Longrightarrow> GetAlignedBlockIndex (of_nat n) (of_nat (2 ^ a)) = Some i \<Longrightarrow> 0 < n \<Longrightarrow>
    n < 2 ^ 64 \<Longrightarrow> a < 64 \<Longrightarrow> AllocateAligned i (of_nat n) (of_nat (2 ^ a)) h = Some (addr, h1) \<Longrightarrow>
    heap_reachable A N h1 (F - run_of addr n)"

lemma allocated_run:
  assumes "heap_ok A N h" and "allocated A N h i n m (Some (addr, h1))" and "0 < n"
  shows "heap_ok A N h1 \<and> heap_free A h1 = heap_free A h - run_of addr n"
proof -
  have ok: "heap_ok A N h1" using assms(2) by (auto simp: allocated_def)
  from assms(2) consider "addr = 0" "heap_free A h1 = heap_free A h"
    | p where "addr = page_adr p" "addr \<noteq> 0" "takes A N h p n h1" by (auto simp: allocated_def)
  then show ?thesis
  proof cases
    case 1
    then show ?thesis using ok by (simp add: run_of_def)
  next
    case 2
    then have "p + n \<le> A + N" using takes_in_region [OF assms(1) _ assms(3)] by blast
    then have "p < 2 ^ 52" using heap_small [OF assms(1), of p] by simp
    with 2 have "run_of addr n = {p..<p + n}" using unat_page_adr [of p] by (simp add: run_of_def)
    then show ?thesis using 2 by (simp add: takes_def)
  qed
qed

lemma heap_reachable_ok: "heap_reachable A N h F \<Longrightarrow> heap_ok A N h \<and> heap_free A h = F"
proof (induction rule: heap_reachable.induct)
  case (init seed h)
  have "length (heap_blocks (new_KPageHeap seed)) = 8" by (simp add: new_KPageHeap_def)
  from KPageHeap_Initialize_ok [OF init(1) this] init(2) show ?case by auto
next
  case (used h F reserved)
  let ?h = "SetInitialUsedSize reserved h"
  have sets: "heap_sets A ?h = heap_sets A h" by (rule ext) (simp add: heap_sets_def SetInitialUsedSize_def)
  have "page_heap_address ?h = page_heap_address h" "page_heap_size ?h = page_heap_size h"
    "m_num_blocks ?h = m_num_blocks h" "heap_blocks ?h = heap_blocks h" by (simp_all add: SetInitialUsedSize_def)
  then show ?case using used.IH unfolding heap_ok_def sets by auto
next
  case (free h F p n h1)
  then show ?case using KPageHeap_Free_ok [of A N h p n] by (auto simp: frees_def)
next
  case (block h F i random addr h1)
  have ok: "heap_ok A N h" and F: "heap_free A h = F" using block.IH by blast+
  from AllocateBlock_allocated [OF ok block(2), of random] have "allocated A N h i (block_pages i) (block_pages i) (Some (addr, h1))"
    unfolding block(3) .
  from allocated_run [OF ok this] show ?case by (simp add: F)
next
  case (aligned h F n a i addr h1)
  have ok: "heap_ok A N h" and F: "heap_free A h = F" using aligned.IH by blast+
  from AllocateAligned_allocated [OF ok aligned(2-5)] have "allocated A N h i n (2 ^ a) (Some (addr, h1))"
    unfolding aligned(6) .
  from allocated_run [OF ok this aligned(3)] show ?case by (simp add: F)
qed

text \<open>
  C37: The page heap implements a set of free pages.  After any sequence of operations, from the
  initialization with the management data of the calculated size on, the count of free pages is the size
  of the set; freeing a range that is not free is defined; the allocation of a block is defined, and it
  finds an aligned free block of its size exactly when there is one, however the free pages are split into
  blocks; an allocation with an alignment is defined, finds free aligned pages, and fails only when no block
  of the size it looks for is free.
\<close>

theorem page_heap_is_a_set_of_pages:
  assumes "heap_reachable A N h F"
  shows "F \<subseteq> {A..<A + N} \<and> GetNumFreePages h = of_nat (card F)
    \<and> (A \<le> p \<and> p + n \<le> A + N \<and> {p..<p + n} \<inter> F = {} \<longrightarrow> KPageHeap_Free (page_adr p) (of_nat n) h \<noteq> None)
    \<and> (i < 8 \<longrightarrow> (\<exists>addr h1. AllocateBlock i random h = Some (addr, h1) \<and>
         (if \<exists>q. pages_at i q \<subseteq> F
          then \<exists>q. addr = page_adr (q * block_pages i) \<and> addr \<noteq> 0 \<and> pages_at i q \<subseteq> F else addr = 0)))
    \<and> (GetAlignedBlockIndex (of_nat n) (of_nat (2 ^ a)) = Some j \<and> 0 < n \<and> n < 2 ^ 64 \<and> a < 64 \<longrightarrow>
         (\<exists>addr h1. AllocateAligned j (of_nat n) (of_nat (2 ^ a)) h = Some (addr, h1) \<and>
           (addr = 0 \<and> (\<forall>q. \<not> pages_at j q \<subseteq> F) \<or>
            (\<exists>s. addr = page_adr s \<and> addr \<noteq> 0 \<and> 2 ^ a dvd s \<and> {s..<s + n} \<subseteq> F))))"
proof -
  have ok: "heap_ok A N h" and F: "heap_free A h = F" using heap_reachable_ok [OF assms] by blast+
  have "F \<subseteq> {A..<A + N}" using ok F by (auto simp: heap_ok_def)
  moreover have "GetNumFreePages h = of_nat (card F)" using GetNumFreePages_ok [OF ok] F by simp
  moreover have "KPageHeap_Free (page_adr p) (of_nat n) h \<noteq> None"
    if "A \<le> p \<and> p + n \<le> A + N \<and> {p..<p + n} \<inter> F = {}"
    using KPageHeap_Free_ok [OF ok, of p n] that F by auto
  moreover have "\<exists>addr h1. AllocateBlock i random h = Some (addr, h1) \<and>
         (if \<exists>q. pages_at i q \<subseteq> F
          then \<exists>q. addr = page_adr (q * block_pages i) \<and> addr \<noteq> 0 \<and> pages_at i q \<subseteq> F else addr = 0)"
    if "i < 8"
  proof -
    from AllocateBlock_allocated [OF ok that, of random] obtain addr h1
      where r: "AllocateBlock i random h = Some (addr, h1)"
        "addr = 0 \<and> (\<forall>q. \<not> pages_at i q \<subseteq> F) \<or>
         (\<exists>s. addr = page_adr s \<and> addr \<noteq> 0 \<and> block_pages i dvd s \<and> {s..<s + block_pages i} \<subseteq> F)"
      unfolding allocated_def takes_def F by blast
    have "\<exists>q. addr = page_adr (q * block_pages i) \<and> addr \<noteq> 0 \<and> pages_at i q \<subseteq> F"
      if "addr = page_adr s" "addr \<noteq> 0" "block_pages i dvd s" "{s..<s + block_pages i} \<subseteq> F" for s
      using that by (intro exI [of _ "s div block_pages i"]) (simp add: pages_at_def)
    with r(2) have "if \<exists>q. pages_at i q \<subseteq> F
        then \<exists>q. addr = page_adr (q * block_pages i) \<and> addr \<noteq> 0 \<and> pages_at i q \<subseteq> F else addr = 0"
      by (metis (no_types))
    with r(1) show ?thesis by blast
  qed
  moreover have "\<exists>addr h1. AllocateAligned j (of_nat n) (of_nat (2 ^ a)) h = Some (addr, h1) \<and>
      (addr = 0 \<and> (\<forall>q. \<not> pages_at j q \<subseteq> F) \<or>
       (\<exists>s. addr = page_adr s \<and> addr \<noteq> 0 \<and> 2 ^ a dvd s \<and> {s..<s + n} \<subseteq> F))"
    if "GetAlignedBlockIndex (of_nat n) (of_nat (2 ^ a)) = Some j \<and> 0 < n \<and> n < 2 ^ 64 \<and> a < 64"
    using AllocateAligned_allocated [OF ok, of n a j] that unfolding allocated_def takes_def F by blast
  ultimately show ?thesis by blast
qed

text \<open>A heap of 16 pages at 1 GiB, all of them freed, and a block of 16 pages taken from it.\<close>

theorem page_heap_is_a_set_of_pages_witness:
  "\<exists>h h1. heap_reachable 262144 16 h {262144..<262160} \<and> GetNumFreePages h = 16 \<and>
     AllocateBlock 2 False h = Some (0x40000000, h1)"
proof -
  have region: "region_ok 262144 16" by (simp add: region_ok_def)
  have "length (heap_blocks (new_KPageHeap (\<lambda>i. 1))) = 8" by (simp add: new_KPageHeap_def)
  from KPageHeap_Initialize_ok [OF region this] obtain h0
    where init: "KPageHeap_Initialize (page_adr 262144) (page_adr 16) (Heap_CalculateManagementOverheadSize (page_adr 16))
      (new_KPageHeap (\<lambda>i. 1)) = Some h0" by blast
  have r0: "heap_reachable 262144 16 h0 {}" by (rule heap_reachable.init [OF region init])
  from page_heap_is_a_set_of_pages [OF r0, of 262144 16, THEN conjunct2, THEN conjunct2, THEN conjunct1]
  obtain h where f: "KPageHeap_Free (page_adr 262144) (of_nat 16) h0 = Some h" by auto
  have "heap_reachable 262144 16 h ({} \<union> {262144..<262144 + 16})"
    by (rule heap_reachable.free [OF r0 _ _ _ f]) simp_all
  then have r: "heap_reachable 262144 16 h {262144..<262160}" by simp
  have p16: "pages_at 2 16384 = {262144..<262160}" by (simp add: pages_at_def block_pages_values)
  from page_heap_is_a_set_of_pages [OF r, of 0 0 2 False, THEN conjunct2, THEN conjunct2, THEN conjunct2,
      THEN conjunct1] obtain addr h1 q
    where a: "AllocateBlock 2 False h = Some (addr, h1)" "addr = page_adr (q * block_pages 2)"
      "pages_at 2 q \<subseteq> {262144..<262160}" using p16 by (auto split: if_splits)
  have "q * 16 \<in> pages_at 2 q" "q * 16 + 15 \<in> pages_at 2 q" by (simp_all add: pages_at_def block_pages_values)
  then have "q * 16 \<in> {262144..<262160}" "q * 16 + 15 \<in> {262144..<262160 :: nat}" using a(3) by blast+
  then have "q = 16384" by simp
  then have "addr = 0x40000000" using a(2) by (simp add: page_adr_def block_pages_values)
  moreover have "GetNumFreePages h = 16" using page_heap_is_a_set_of_pages [OF r, THEN conjunct2, THEN conjunct1] by simp
  ultimately show ?thesis using r a(1) by blast
qed

end
