(* ===== verification/Priority_Queue.thy ===== *)
theory Priority_Queue
  imports Prelude
begin

text \<open>
  The queue of runnable threads, \<^verbatim>\<open>nxemu-os/core/hle/kernel/k_priority_queue.h\<close>, with the set of
  priorities that have a thread (\<^verbatim>\<open>yuzu_common/bit_set.h\<close>).  For each core a thread has one entry
  with the threads before and after it; a queue of a core and a priority is a root entry and the
  entries linked from it, and its first and last thread point nowhere.  A thread is a number, a null
  pointer is \<open>None\<close>.  A core or a priority that is not valid would be an index out of range, and is
  \<open>None\<close>.  The code in which the queue of a runnable thread is chosen reads the thread's priority, active
  core and affinity, which are parts of the thread's record here.
\<close>

section \<open>Sets of bits\<close>

text \<open>\<^verbatim>\<open>BitSet64\<close>: bit 0 is the highest bit of the first word.\<close>

definition FlagsPerWord :: nat where
  "FlagsPerWord = 64"

definition GetBitMask :: "nat \<Rightarrow> u64" where
  "GetBitMask i = push_bit (FlagsPerWord - 1 - i) 1"

definition BitSet_SetBit :: "nat \<Rightarrow> u64 list \<Rightarrow> u64 list" where
  "BitSet_SetBit i words =
     words[i div FlagsPerWord := words ! (i div FlagsPerWord) OR GetBitMask (i mod FlagsPerWord)]"

definition BitSet_ClearBit :: "nat \<Rightarrow> u64 list \<Rightarrow> u64 list" where
  "BitSet_ClearBit i words =
     words[i div FlagsPerWord := words ! (i div FlagsPerWord) AND NOT (GetBitMask (i mod FlagsPerWord))]"

fun first_word :: "nat \<Rightarrow> u64 list \<Rightarrow> nat" where
  "first_word i [] = FlagsPerWord * i"
| "first_word i (w # words) = (if w \<noteq> 0 then FlagsPerWord * i + countl_zero w else first_word (i + 1) words)"

definition CountLeadingZero :: "u64 list \<Rightarrow> nat" where
  "CountLeadingZero words = first_word 0 words"

text \<open>The mask is applied to every word the loop reaches, not only to the first.\<close>

fun next_word :: "nat \<Rightarrow> nat \<Rightarrow> u64 list \<Rightarrow> nat" where
  "next_word n i [] = FlagsPerWord * i"
| "next_word n i (w # words) =
     (let word = (if (n + 1) mod FlagsPerWord \<noteq> 0 then w AND (GetBitMask (n mod FlagsPerWord) - 1) else w)
      in if word \<noteq> 0 then FlagsPerWord * i + countl_zero word else next_word n (i + 1) words)"

definition GetNextSet :: "nat \<Rightarrow> u64 list \<Rightarrow> nat" where
  "GetNextSet n words =
     (let i = (n + 1) div FlagsPerWord
      in if i < length words then next_word n i (drop i words) else FlagsPerWord * length words)"

section \<open>Threads\<close>

record QueueEntry =
  m_prev :: "nat option"
  m_next :: "nat option"

text \<open>The parts of \<^verbatim>\<open>KThread\<close> that scheduling reads and writes; a state is 16 bits with suspend flags.\<close>

record KThread =
  m_priority :: int
  m_core_id :: int
  m_physical_affinity_mask :: u64
  IsDummyThread :: bool
  m_thread_state :: u16
  m_last_scheduled_tick :: int
  yield_schedule_count :: int
  m_parent :: "nat option"
  m_num_kernel_waiters :: int
  m_dummy_thread_runnable :: bool
  m_virtual_ideal_core_id :: int
  m_physical_ideal_core_id :: int
  m_original_physical_ideal_core_id :: int
  m_virtual_affinity_mask :: u64
  m_original_physical_affinity_mask :: u64
  m_num_core_migration_disables :: int
  is_pinned :: bool
  m_suspend_request_flags :: u32
  m_suspend_allowed_flags :: u32

type_synonym Threads = "nat \<Rightarrow> KThread"
type_synonym Entries = "int \<Rightarrow> nat \<Rightarrow> QueueEntry"
type_synonym KPerCoreQueue = "int \<Rightarrow> QueueEntry"

definition NUM_CPU_CORES :: int where
  "NUM_CPU_CORES = 4"

definition LowestThreadPriority :: int where
  "LowestThreadPriority = 63"

definition HighestThreadPriority :: int where
  "HighestThreadPriority = 0"

definition IsValidCore :: "int \<Rightarrow> bool" where
  "IsValidCore core \<longleftrightarrow> 0 \<le> core \<and> core < NUM_CPU_CORES"

definition IsValidPriority :: "int \<Rightarrow> bool" where
  "IsValidPriority priority \<longleftrightarrow> HighestThreadPriority \<le> priority \<and> priority \<le> LowestThreadPriority + 1"

definition GetCoreBit :: "int \<Rightarrow> u64" where
  "GetCoreBit core = push_bit (nat core) 1"

definition GetAffinity :: "u64 \<Rightarrow> int \<Rightarrow> bool" where
  "GetAffinity m_mask core \<longleftrightarrow> m_mask AND GetCoreBit core \<noteq> 0"

definition empty_entry :: QueueEntry where
  "empty_entry = \<lparr>m_prev = None, m_next = None\<rparr>"

definition set_entry :: "int \<Rightarrow> nat \<Rightarrow> QueueEntry \<Rightarrow> Entries \<Rightarrow> Entries" where
  "set_entry core member v entries = entries(core := (entries core)(member := v))"

text \<open>Writing through a reference to the entry of a thread, or to the root if there is no thread.\<close>

definition set_next :: "int \<Rightarrow> nat option \<Rightarrow> nat option \<Rightarrow> KPerCoreQueue \<times> Entries \<Rightarrow> KPerCoreQueue \<times> Entries" where
  "set_next core ref v = (\<lambda>(m_root, entries).
     case ref of
       None \<Rightarrow> (m_root(core := (m_root core)\<lparr>m_next := v\<rparr>), entries)
     | Some t \<Rightarrow> (m_root, set_entry core t ((entries core t)\<lparr>m_next := v\<rparr>) entries))"

definition set_prev :: "int \<Rightarrow> nat option \<Rightarrow> nat option \<Rightarrow> KPerCoreQueue \<times> Entries \<Rightarrow> KPerCoreQueue \<times> Entries" where
  "set_prev core ref v = (\<lambda>(m_root, entries).
     case ref of
       None \<Rightarrow> (m_root(core := (m_root core)\<lparr>m_prev := v\<rparr>), entries)
     | Some t \<Rightarrow> (m_root, set_entry core t ((entries core t)\<lparr>m_prev := v\<rparr>) entries))"

section \<open>The queue of one priority\<close>

definition PerCore_GetFront :: "int \<Rightarrow> KPerCoreQueue \<Rightarrow> nat option" where
  "PerCore_GetFront core m_root = m_next (m_root core)"

definition PerCore_PushBack :: "int \<Rightarrow> nat \<Rightarrow> KPerCoreQueue \<times> Entries \<Rightarrow> bool \<times> KPerCoreQueue \<times> Entries" where
  "PerCore_PushBack core member = (\<lambda>(m_root, entries).
     let tail = m_prev (m_root core);
         q1 = set_prev core (Some member) tail (m_root, entries);
         q2 = set_next core (Some member) None q1;
         q3 = set_next core tail (Some member) q2;
         q4 = set_prev core None (Some member) q3
     in (tail = None, q4))"

definition PerCore_PushFront :: "int \<Rightarrow> nat \<Rightarrow> KPerCoreQueue \<times> Entries \<Rightarrow> bool \<times> KPerCoreQueue \<times> Entries" where
  "PerCore_PushFront core member = (\<lambda>(m_root, entries).
     let head = m_next (m_root core);
         q1 = set_prev core (Some member) None (m_root, entries);
         q2 = set_next core (Some member) head q1;
         q3 = set_prev core head (Some member) q2;
         q4 = set_next core None (Some member) q3
     in (head = None, q4))"

definition PerCore_Remove :: "int \<Rightarrow> nat \<Rightarrow> KPerCoreQueue \<times> Entries \<Rightarrow> bool \<times> KPerCoreQueue \<times> Entries" where
  "PerCore_Remove core member = (\<lambda>(m_root, entries).
     let prev = m_prev (entries core member);
         nxt = m_next (entries core member);
         q1 = set_next core prev nxt (m_root, entries);
         q2 = set_prev core nxt prev q1
     in (PerCore_GetFront core (fst q2) = None, q2))"

section \<open>All priorities\<close>

record KPriorityQueueImpl =
  m_queues :: "int \<Rightarrow> KPerCoreQueue"
  m_available_priorities :: "int \<Rightarrow> u64 list"

definition store_queue :: "int \<Rightarrow> KPerCoreQueue \<Rightarrow> KPriorityQueueImpl \<Rightarrow> KPriorityQueueImpl" where
  "store_queue priority m_root q = q\<lparr>m_queues := (m_queues q)(priority := m_root)\<rparr>"

definition set_available :: "int \<Rightarrow> int \<Rightarrow> KPriorityQueueImpl \<Rightarrow> KPriorityQueueImpl" where
  "set_available priority core q =
     q\<lparr>m_available_priorities := (m_available_priorities q)
         (core := BitSet_SetBit (nat priority) (m_available_priorities q core))\<rparr>"

definition clear_available :: "int \<Rightarrow> int \<Rightarrow> KPriorityQueueImpl \<Rightarrow> KPriorityQueueImpl" where
  "clear_available priority core q =
     q\<lparr>m_available_priorities := (m_available_priorities q)
         (core := BitSet_ClearBit (nat priority) (m_available_priorities q core))\<rparr>"

type_synonym ImplState = "KPriorityQueueImpl \<times> Entries"

definition Impl_PushBack :: "int \<Rightarrow> int \<Rightarrow> nat \<Rightarrow> ImplState \<Rightarrow> ImplState option" where
  "Impl_PushBack priority core member = (\<lambda>(q, entries).
     if \<not> (IsValidCore core \<and> IsValidPriority priority) then None
     else if priority > LowestThreadPriority then Some (q, entries)
     else case PerCore_PushBack core member (m_queues q priority, entries) of (first, m_root, entries1) \<Rightarrow>
       let q1 = store_queue priority m_root q
       in Some (if first then set_available priority core q1 else q1, entries1))"

definition Impl_PushFront :: "int \<Rightarrow> int \<Rightarrow> nat \<Rightarrow> ImplState \<Rightarrow> ImplState option" where
  "Impl_PushFront priority core member = (\<lambda>(q, entries).
     if \<not> (IsValidCore core \<and> IsValidPriority priority) then None
     else if priority > LowestThreadPriority then Some (q, entries)
     else case PerCore_PushFront core member (m_queues q priority, entries) of (first, m_root, entries1) \<Rightarrow>
       let q1 = store_queue priority m_root q
       in Some (if first then set_available priority core q1 else q1, entries1))"

definition Impl_Remove :: "int \<Rightarrow> int \<Rightarrow> nat \<Rightarrow> ImplState \<Rightarrow> ImplState option" where
  "Impl_Remove priority core member = (\<lambda>(q, entries).
     if \<not> (IsValidCore core \<and> IsValidPriority priority) then None
     else if priority > LowestThreadPriority then Some (q, entries)
     else case PerCore_Remove core member (m_queues q priority, entries) of (emptied, m_root, entries1) \<Rightarrow>
       let q1 = store_queue priority m_root q
       in Some (if emptied then clear_available priority core q1 else q1, entries1))"

definition Impl_GetFront :: "int \<Rightarrow> KPriorityQueueImpl \<Rightarrow> nat option option" where
  "Impl_GetFront core q =
     (if \<not> IsValidCore core then None
      else let priority = int (CountLeadingZero (m_available_priorities q core))
           in if priority \<le> LowestThreadPriority then Some (PerCore_GetFront core (m_queues q priority))
              else Some None)"

definition Impl_GetFront_at :: "int \<Rightarrow> int \<Rightarrow> KPriorityQueueImpl \<Rightarrow> nat option option" where
  "Impl_GetFront_at priority core q =
     (if \<not> (IsValidCore core \<and> IsValidPriority priority) then None
      else if priority \<le> LowestThreadPriority then Some (PerCore_GetFront core (m_queues q priority))
      else Some None)"

definition Impl_GetNext :: "Threads \<Rightarrow> int \<Rightarrow> nat \<Rightarrow> ImplState \<Rightarrow> nat option option" where
  "Impl_GetNext threads core member = (\<lambda>(q, entries).
     if \<not> IsValidCore core then None
     else case m_next (entries core member) of
       Some t \<Rightarrow> Some (Some t)
     | None \<Rightarrow>
         let priority = int (GetNextSet (nat (m_priority (threads member))) (m_available_priorities q core))
         in if priority \<le> LowestThreadPriority then Some (PerCore_GetFront core (m_queues q priority))
            else Some None)"

text \<open>Moving within a queue does not look at what the two steps say about emptiness.\<close>

definition Impl_MoveToFront :: "int \<Rightarrow> int \<Rightarrow> nat \<Rightarrow> ImplState \<Rightarrow> ImplState option" where
  "Impl_MoveToFront priority core member = (\<lambda>(q, entries).
     if \<not> (IsValidCore core \<and> IsValidPriority priority) then None
     else if priority \<le> LowestThreadPriority
     then let q1 = snd (PerCore_Remove core member (m_queues q priority, entries));
              (m_root, entries1) = snd (PerCore_PushFront core member q1)
          in Some (store_queue priority m_root q, entries1)
     else Some (q, entries))"

definition Impl_MoveToBack :: "int \<Rightarrow> int \<Rightarrow> nat \<Rightarrow> ImplState \<Rightarrow> (nat option \<times> ImplState) option" where
  "Impl_MoveToBack priority core member = (\<lambda>(q, entries).
     if \<not> (IsValidCore core \<and> IsValidPriority priority) then None
     else if priority \<le> LowestThreadPriority
     then let q1 = snd (PerCore_Remove core member (m_queues q priority, entries));
              (m_root, entries1) = snd (PerCore_PushBack core member q1)
          in Some (PerCore_GetFront core m_root, store_queue priority m_root q, entries1)
     else Some (None, q, entries))"

section \<open>The scheduled and the suggested queue\<close>

record KPriorityQueue =
  m_scheduled_queue :: KPriorityQueueImpl
  m_suggested_queue :: KPriorityQueueImpl
  queue_entries :: Entries

definition on_scheduled :: "(ImplState \<Rightarrow> ImplState option) \<Rightarrow> KPriorityQueue \<Rightarrow> KPriorityQueue option" where
  "on_scheduled f q = map_option (\<lambda>(i, e). q\<lparr>m_scheduled_queue := i, queue_entries := e\<rparr>)
     (f (m_scheduled_queue q, queue_entries q))"

definition on_suggested :: "(ImplState \<Rightarrow> ImplState option) \<Rightarrow> KPriorityQueue \<Rightarrow> KPriorityQueue option" where
  "on_suggested f q = map_option (\<lambda>(i, e). q\<lparr>m_suggested_queue := i, queue_entries := e\<rparr>)
     (f (m_suggested_queue q, queue_entries q))"

definition ClearAffinityBit :: "u64 \<Rightarrow> int \<Rightarrow> u64" where
  "ClearAffinityBit affinity core = affinity AND NOT (push_bit (nat core) 1)"

text \<open>The loop over the cores of an affinity mask, lowest first.\<close>

function for_cores ::
    "(int \<Rightarrow> 'q \<Rightarrow> 'q option) \<Rightarrow> u64 \<Rightarrow> 'q \<Rightarrow> 'q option" where
  "for_cores f affinity q =
     (if affinity \<noteq> 0
      then let core = int (countr_zero affinity)
           in Option.bind (f core q) (for_cores f (ClearAffinityBit affinity core))
      else Some q)"
  by pat_completeness auto

lemma ClearAffinityBit_bit: "bit (ClearAffinityBit affinity core) k \<longleftrightarrow> bit affinity k \<and> k \<noteq> nat core"
  using bit_imp_le_length [of affinity k]
  by (auto simp: ClearAffinityBit_def bit_and_iff bit_not_iff push_bit_eq_mult bit_exp_iff)

lemma ClearAffinityBit_less:
  assumes "affinity \<noteq> 0"
  shows "unat (ClearAffinityBit affinity (int (countr_zero affinity))) < unat affinity"
proof -
  let ?c = "ClearAffinityBit affinity (int (countr_zero affinity))"
  have "?c \<le> affinity" unfolding ClearAffinityBit_def by (metis and.commute word_and_le1)
  moreover have "?c \<noteq> affinity"
    using ClearAffinityBit_bit [of affinity "int (countr_zero affinity)" "countr_zero affinity"]
      countr_zero_bit [OF assms] by auto
  ultimately have "?c < affinity" by (rule le_neq_trans)
  then show ?thesis by (simp only: word_less_nat_alt)
qed

termination for_cores
  by (relation "measure (\<lambda>(f, affinity, q). unat affinity)") (auto simp: ClearAffinityBit_less)

declare for_cores.simps [simp del]

text \<open>The queues of a member: the scheduled one of its active core, and suggestions for its other cores.\<close>

definition PushBack_at :: "int \<Rightarrow> Threads \<Rightarrow> nat \<Rightarrow> KPriorityQueue \<Rightarrow> KPriorityQueue option" where
  "PushBack_at priority threads member q =
     (let affinity = m_physical_affinity_mask (threads member);
          core = m_core_id (threads member)
      in if core \<ge> 0
         then Option.bind (on_scheduled (Impl_PushBack priority core member) q)
                (for_cores (\<lambda>c. on_suggested (Impl_PushBack priority c member)) (ClearAffinityBit affinity core))
         else for_cores (\<lambda>c. on_suggested (Impl_PushBack priority c member)) affinity q)"

definition PushFront_at :: "int \<Rightarrow> Threads \<Rightarrow> nat \<Rightarrow> KPriorityQueue \<Rightarrow> KPriorityQueue option" where
  "PushFront_at priority threads member q =
     (let affinity = m_physical_affinity_mask (threads member);
          core = m_core_id (threads member)
      in if core \<ge> 0
         then Option.bind (on_scheduled (Impl_PushFront priority core member) q)
                (for_cores (\<lambda>c. on_suggested (Impl_PushBack priority c member)) (ClearAffinityBit affinity core))
         else for_cores (\<lambda>c. on_suggested (Impl_PushBack priority c member)) affinity q)"

definition Remove_at :: "int \<Rightarrow> Threads \<Rightarrow> nat \<Rightarrow> KPriorityQueue \<Rightarrow> KPriorityQueue option" where
  "Remove_at priority threads member q =
     (let affinity = m_physical_affinity_mask (threads member);
          core = m_core_id (threads member)
      in if core \<ge> 0
         then Option.bind (on_scheduled (Impl_Remove priority core member) q)
                (for_cores (\<lambda>c. on_suggested (Impl_Remove priority c member)) (ClearAffinityBit affinity core))
         else for_cores (\<lambda>c. on_suggested (Impl_Remove priority c member)) affinity q)"

definition GetScheduledFront :: "int \<Rightarrow> KPriorityQueue \<Rightarrow> nat option option" where
  "GetScheduledFront core q = Impl_GetFront core (m_scheduled_queue q)"

definition GetScheduledFront_at :: "int \<Rightarrow> int \<Rightarrow> KPriorityQueue \<Rightarrow> nat option option" where
  "GetScheduledFront_at core priority q = Impl_GetFront_at priority core (m_scheduled_queue q)"

definition GetSuggestedFront :: "int \<Rightarrow> KPriorityQueue \<Rightarrow> nat option option" where
  "GetSuggestedFront core q = Impl_GetFront core (m_suggested_queue q)"

definition GetSuggestedFront_at :: "int \<Rightarrow> int \<Rightarrow> KPriorityQueue \<Rightarrow> nat option option" where
  "GetSuggestedFront_at core priority q = Impl_GetFront_at priority core (m_suggested_queue q)"

definition GetScheduledNext :: "Threads \<Rightarrow> int \<Rightarrow> nat \<Rightarrow> KPriorityQueue \<Rightarrow> nat option option" where
  "GetScheduledNext threads core member q = Impl_GetNext threads core member (m_scheduled_queue q, queue_entries q)"

definition GetSuggestedNext :: "Threads \<Rightarrow> int \<Rightarrow> nat \<Rightarrow> KPriorityQueue \<Rightarrow> nat option option" where
  "GetSuggestedNext threads core member q = Impl_GetNext threads core member (m_suggested_queue q, queue_entries q)"

definition GetSamePriorityNext :: "int \<Rightarrow> nat \<Rightarrow> KPriorityQueue \<Rightarrow> nat option option" where
  "GetSamePriorityNext core member q =
     (if IsValidCore core then Some (m_next (queue_entries q core member)) else None)"

definition PushBack :: "Threads \<Rightarrow> nat \<Rightarrow> KPriorityQueue \<Rightarrow> KPriorityQueue option" where
  "PushBack threads member q =
     (if IsDummyThread (threads member) then Some q
      else if \<not> IsValidPriority (m_priority (threads member)) then None
      else PushBack_at (m_priority (threads member)) threads member q)"

definition Queue_Remove :: "Threads \<Rightarrow> nat \<Rightarrow> KPriorityQueue \<Rightarrow> KPriorityQueue option" where
  "Queue_Remove threads member q =
     (if IsDummyThread (threads member) then Some q
      else if \<not> IsValidPriority (m_priority (threads member)) then None
      else Remove_at (m_priority (threads member)) threads member q)"

definition MoveToScheduledFront :: "Threads \<Rightarrow> nat \<Rightarrow> KPriorityQueue \<Rightarrow> KPriorityQueue option" where
  "MoveToScheduledFront threads member q =
     (if IsDummyThread (threads member) then Some q
      else on_scheduled (Impl_MoveToFront (m_priority (threads member)) (m_core_id (threads member)) member) q)"

definition MoveToScheduledBack :: "Threads \<Rightarrow> nat \<Rightarrow> KPriorityQueue \<Rightarrow> (nat option \<times> KPriorityQueue) option" where
  "MoveToScheduledBack threads member q =
     (if IsDummyThread (threads member) then Some (None, q)
      else map_option (\<lambda>(front, i, e). (front, q\<lparr>m_scheduled_queue := i, queue_entries := e\<rparr>))
             (Impl_MoveToBack (m_priority (threads member)) (m_core_id (threads member)) member
               (m_scheduled_queue q, queue_entries q)))"

definition ChangePriority :: "int \<Rightarrow> bool \<Rightarrow> Threads \<Rightarrow> nat \<Rightarrow> KPriorityQueue \<Rightarrow> KPriorityQueue option" where
  "ChangePriority prev_priority is_running threads member q =
     (if IsDummyThread (threads member) then Some q
      else if \<not> (IsValidPriority prev_priority \<and> IsValidPriority (m_priority (threads member))) then None
      else let new_priority = m_priority (threads member)
           in Option.bind (Remove_at prev_priority threads member q)
                (if is_running then PushFront_at new_priority threads member
                 else PushBack_at new_priority threads member))"

fun each_core :: "(int \<Rightarrow> 'q \<Rightarrow> 'q option) \<Rightarrow> int list \<Rightarrow> 'q \<Rightarrow> 'q option" where
  "each_core f [] q = Some q"
| "each_core f (core # cores) q = Option.bind (f core q) (each_core f cores)"

definition ChangeAffinityMask ::
    "int \<Rightarrow> u64 \<Rightarrow> Threads \<Rightarrow> nat \<Rightarrow> KPriorityQueue \<Rightarrow> KPriorityQueue option" where
  "ChangeAffinityMask prev_core prev_affinity threads member q =
     (if IsDummyThread (threads member) then Some q
      else let priority = m_priority (threads member);
               new_affinity = m_physical_affinity_mask (threads member);
               new_core = m_core_id (threads member)
           in Option.bind
                (each_core (\<lambda>core q. if GetAffinity prev_affinity core
                    then if core = prev_core then on_scheduled (Impl_Remove priority core member) q
                         else on_suggested (Impl_Remove priority core member) q
                    else Some q) [0, 1, 2, 3] q)
                (each_core (\<lambda>core q. if GetAffinity new_affinity core
                    then if core = new_core then on_scheduled (Impl_PushBack priority core member) q
                         else on_suggested (Impl_PushBack priority core member) q
                    else Some q) [0, 1, 2, 3]))"

definition ChangeCore :: "int \<Rightarrow> bool \<Rightarrow> Threads \<Rightarrow> nat \<Rightarrow> KPriorityQueue \<Rightarrow> KPriorityQueue option" where
  "ChangeCore prev_core to_front threads member q =
     (if IsDummyThread (threads member) then Some q
      else let new_core = m_core_id (threads member);
               priority = m_priority (threads member)
           in if prev_core \<noteq> new_core
              then Option.bind
                     (if prev_core \<ge> 0 then on_scheduled (Impl_Remove priority prev_core member) q else Some q)
                     (\<lambda>q1. Option.bind
                       (if new_core \<ge> 0
                        then Option.bind (on_suggested (Impl_Remove priority new_core member) q1)
                               (on_scheduled
                                 ((if to_front then Impl_PushFront else Impl_PushBack) priority new_core member))
                        else Some q1)
                       (\<lambda>q2. if prev_core \<ge> 0 then on_suggested (Impl_PushBack priority prev_core member) q2
                             else Some q2))
              else Some q)"

text \<open>A new queue: no thread, and every root points nowhere.\<close>

definition new_Impl :: KPriorityQueueImpl where
  "new_Impl = \<lparr>m_queues = (\<lambda>priority core. empty_entry), m_available_priorities = (\<lambda>core. [0])\<rparr>"

definition new_KPriorityQueue :: KPriorityQueue where
  "new_KPriorityQueue =
     \<lparr>m_scheduled_queue = new_Impl, m_suggested_queue = new_Impl, queue_entries = (\<lambda>core t. empty_entry)\<rparr>"

end
