(* ===== verification/Priority_Queue_Props.thy ===== *)
theory Priority_Queue_Props
  imports Priority_Queue
begin

text \<open>
  The linked queues are lists of threads.  A segment of linked entries has a thread before it and one
  after it; a queue is a segment with nothing at either end, to whose ends the root points.  The
  operations on the queues of a core are operations on the lists, and the sets of priorities say which of
  them are not empty.
\<close>

section \<open>Linked segments\<close>

primrec hd_or :: "nat list \<Rightarrow> nat option \<Rightarrow> nat option" where
  "hd_or [] n = n"
| "hd_or (t # ts) n = Some t"

primrec last_or :: "nat option \<Rightarrow> nat list \<Rightarrow> nat option" where
  "last_or p [] = p"
| "last_or p (t # ts) = last_or (Some t) ts"

primrec dll :: "(nat \<Rightarrow> QueueEntry) \<Rightarrow> nat option \<Rightarrow> nat list \<Rightarrow> nat option \<Rightarrow> bool" where
  "dll e p [] n \<longleftrightarrow> True"
| "dll e p (t # ts) n \<longleftrightarrow> m_prev (e t) = p \<and> m_next (e t) = hd_or ts n \<and> dll e (Some t) ts n"

lemma hd_or_append [simp]: "hd_or (xs @ ys) n = hd_or xs (hd_or ys n)"
  by (cases xs) simp_all

lemma last_or_append [simp]: "last_or p (xs @ ys) = last_or (last_or p xs) ys"
  by (induction xs arbitrary: p) simp_all

lemma dll_append [simp]: "dll e p (xs @ ys) n \<longleftrightarrow> dll e p xs (hd_or ys n) \<and> dll e (last_or p xs) ys n"
  by (induction xs arbitrary: p) auto

lemma dll_cong: "(\<And>t. t \<in> set xs \<Longrightarrow> e1 t = e t) \<Longrightarrow> dll e1 p xs n = dll e p xs n"
  by (induction xs arbitrary: p) auto

lemma dll_upd [simp]: "t \<notin> set xs \<Longrightarrow> dll (e(t := v)) p xs n = dll e p xs n"
  by (rule dll_cong) auto

definition linked :: "QueueEntry \<Rightarrow> (nat \<Rightarrow> QueueEntry) \<Rightarrow> nat list \<Rightarrow> bool" where
  "linked r e xs \<longleftrightarrow>
     m_next r = hd_or xs None \<and> m_prev r = last_or None xs \<and> dll e None xs None \<and> distinct xs"

text \<open>What an operation on a queue of one core may change.\<close>

definition only_changes ::
    "int \<Rightarrow> nat set \<Rightarrow> KPerCoreQueue \<times> Entries \<Rightarrow> KPerCoreQueue \<times> Entries \<Rightarrow> bool" where
  "only_changes core S q q1 \<longleftrightarrow>
     (\<forall>c. c \<noteq> core \<longrightarrow> fst q1 c = fst q c) \<and> (\<forall>c t. c \<noteq> core \<or> t \<notin> S \<longrightarrow> snd q1 c t = snd q c t)"

lemmas link_defs = set_next_def set_prev_def set_entry_def only_changes_def linked_def Let_def

lemma PerCore_PushBack_ok:
  assumes "linked (r core) (e core) xs" and "t \<notin> set xs"
  obtains q1 where "PerCore_PushBack core t (r, e) = (xs = [], q1)"
    and "linked (fst q1 core) (snd q1 core) (xs @ [t])" and "only_changes core (insert t (set xs)) (r, e) q1"
proof (cases xs rule: rev_cases)
  case Nil
  then show ?thesis using that assms by (simp add: PerCore_PushBack_def link_defs)
next
  case (snoc ys k)
  then show ?thesis using that assms by (simp add: PerCore_PushBack_def link_defs)
qed

lemma PerCore_PushFront_ok:
  assumes "linked (r core) (e core) xs" and "t \<notin> set xs"
  obtains q1 where "PerCore_PushFront core t (r, e) = (xs = [], q1)"
    and "linked (fst q1 core) (snd q1 core) (t # xs)" and "only_changes core (insert t (set xs)) (r, e) q1"
proof (cases xs)
  case Nil
  then show ?thesis using that assms by (simp add: PerCore_PushFront_def link_defs)
next
  case (Cons k ys)
  then show ?thesis using that assms by (auto simp: PerCore_PushFront_def link_defs)
qed

lemma PerCore_Remove_ok:
  assumes "linked (r core) (e core) (xs @ t # ys)"
  obtains q1 where "PerCore_Remove core t (r, e) = (xs @ ys = [], q1)"
    and "linked (fst q1 core) (snd q1 core) (xs @ ys)" and "only_changes core (set (xs @ ys)) (r, e) q1"
proof (cases xs rule: rev_cases)
  case Nil
  then show ?thesis using that assms by (cases ys) (auto simp: PerCore_Remove_def PerCore_GetFront_def link_defs)
next
  case (snoc zs k)
  then show ?thesis using that assms
    by (cases ys; cases zs) (auto simp: PerCore_Remove_def PerCore_GetFront_def link_defs)
qed

lemma linked_front: "linked r e xs \<Longrightarrow> m_next r = hd_or xs None"
  by (simp add: linked_def)

lemma linked_next: "linked r e (xs @ t # ys) \<Longrightarrow> m_next (e t) = hd_or ys None"
  by (simp add: linked_def)

section \<open>The set of priorities\<close>

lemma bit_GetBitMask: "i < 64 \<Longrightarrow> bit (GetBitMask i) k \<longleftrightarrow> k = 63 - i"
  by (auto simp: GetBitMask_def FlagsPerWord_def push_bit_eq_mult bit_exp_iff)

lemma SetBit_one: "i < 64 \<Longrightarrow> BitSet_SetBit i [w] = [w OR GetBitMask i]"
  by (simp add: BitSet_SetBit_def FlagsPerWord_def)

lemma ClearBit_one: "i < 64 \<Longrightarrow> BitSet_ClearBit i [w] = [w AND NOT (GetBitMask i)]"
  by (simp add: BitSet_ClearBit_def FlagsPerWord_def)

text \<open>A word that stands for a set of numbers below 64.\<close>

definition stands_for :: "u64 \<Rightarrow> (nat \<Rightarrow> bool) \<Rightarrow> bool" where
  "stands_for w P \<longleftrightarrow> (\<forall>i < 64. bit w (63 - i) \<longleftrightarrow> P i)"

lemma stands_for_set: "stands_for w P \<Longrightarrow> i < 64 \<Longrightarrow> stands_for (w OR GetBitMask i) (P(i := True))"
  by (auto simp: stands_for_def bit_or_iff bit_GetBitMask)

lemma stands_for_clear: "stands_for w P \<Longrightarrow> i < 64 \<Longrightarrow> stands_for (w AND NOT (GetBitMask i)) (P(i := False))"
  by (auto simp: stands_for_def bit_and_iff bit_not_iff bit_GetBitMask)

lemma stands_for_zero: "stands_for w P \<Longrightarrow> w = 0 \<longleftrightarrow> (\<forall>i < 64. \<not> P i)"
proof -
  assume s: "stands_for w P"
  have "(\<exists>k < 64. bit w k) \<longleftrightarrow> (\<exists>i < 64. P i)"
  proof
    assume "\<exists>k < 64. bit w k"
    then obtain k where "k < 64" "bit w k" by blast
    then have "P (63 - k)" using s [unfolded stands_for_def, rule_format, of "63 - k"] by simp
    then show "\<exists>i < 64. P i" by (intro exI [of _ "63 - k"]) simp
  next
    assume "\<exists>i < 64. P i"
    then obtain i where "i < 64" "P i" by blast
    then show "\<exists>k < 64. bit w k" using s by (intro exI [of _ "63 - i"]) (simp add: stands_for_def)
  qed
  then show ?thesis using word_bit_nonzero [of w] by blast
qed

text \<open>The first number of the set from one on, or 64.\<close>

definition first_from :: "(nat \<Rightarrow> bool) \<Rightarrow> nat \<Rightarrow> nat" where
  "first_from P n = (if \<exists>i. n \<le> i \<and> i < 64 \<and> P i then LEAST i. n \<le> i \<and> P i else 64)"

lemma first_from_unique:
  "m \<le> 64 \<Longrightarrow> n \<le> m \<Longrightarrow> (m < 64 \<Longrightarrow> P m) \<Longrightarrow> (\<And>i. n \<le> i \<Longrightarrow> i < m \<Longrightarrow> \<not> P i) \<Longrightarrow> first_from P n = m"
proof (cases "m < 64")
  case True
  assume "n \<le> m" and P: "m < 64 \<Longrightarrow> P m" and no: "\<And>i. n \<le> i \<Longrightarrow> i < m \<Longrightarrow> \<not> P i"
  then have "(LEAST i. n \<le> i \<and> P i) = m" using True by (intro Least_equality) (auto simp: not_less [symmetric])
  then show ?thesis using True P \<open>n \<le> m\<close> by (auto simp: first_from_def)
next
  case False
  assume "m \<le> 64" and no: "\<And>i. n \<le> i \<Longrightarrow> i < m \<Longrightarrow> \<not> P i"
  then show ?thesis using False by (auto simp: first_from_def)
qed

lemma CountLeadingZero_one:
  assumes "stands_for w P"
  shows "CountLeadingZero [w] = first_from P 0"
proof (cases "w = 0")
  case True
  then have "first_from P 0 = 64" using stands_for_zero [OF assms] by (auto simp: first_from_def)
  then show ?thesis using True by (simp add: CountLeadingZero_def FlagsPerWord_def)
next
  case False
  note c = countl_zero_bit [OF False]
  have "first_from P 0 = countl_zero w"
  proof (rule first_from_unique)
    show "P (countl_zero w)" using c assms unfolding stands_for_def by blast
    show "\<not> P i" if "i < countl_zero w" for i
    proof
      assume "P i"
      then have "bit w (63 - i)" using assms that c by (simp add: stands_for_def)
      with c have "63 - i \<le> 63 - countl_zero w" by blast
      with that c show False by linarith
    qed
  qed (use c in simp_all)
  then show ?thesis using False by (simp add: CountLeadingZero_def FlagsPerWord_def)
qed

lemma bit_below_mask: "n < 64 \<Longrightarrow> bit (GetBitMask n - 1) k \<longleftrightarrow> k < 63 - n"
proof -
  assume n: "n < 64"
  have "GetBitMask n = 2 ^ (63 - n)" by (simp add: GetBitMask_def FlagsPerWord_def push_bit_eq_mult)
  then have "GetBitMask n - 1 = mask (63 - n)" by (simp add: mask_eq_exp_minus_1)
  then show ?thesis using n by (auto simp: bit_mask_iff)
qed

lemma GetNextSet_one:
  assumes "stands_for w P" and "n < 64"
  shows "GetNextSet n [w] = first_from P (n + 1)"
proof (cases "n = 63")
  case True
  have "first_from P 64 = 64" by (auto simp: first_from_def)
  with True show ?thesis by (simp add: GetNextSet_def FlagsPerWord_def)
next
  case False
  let ?v = "w AND (GetBitMask n - 1)" and ?Q = "\<lambda>i. P i \<and> n < i"
  have v: "stands_for ?v ?Q"
    using assms by (auto simp: stands_for_def bit_and_iff bit_below_mask)
  have "(n + 1) div FlagsPerWord = 0" "(n + 1) mod FlagsPerWord \<noteq> 0" "n mod FlagsPerWord = n"
    using assms(2) False by (simp_all add: FlagsPerWord_def)
  then have "GetNextSet n [w] = CountLeadingZero [?v]"
    by (simp add: GetNextSet_def CountLeadingZero_def Let_def)
  also have "\<dots> = first_from ?Q 0" by (rule CountLeadingZero_one [OF v])
  also have "\<dots> = first_from P (n + 1)"
  proof -
    have "(0 \<le> i \<and> i < 64 \<and> ?Q i) \<longleftrightarrow> (n + 1 \<le> i \<and> i < 64 \<and> P i)" for i by auto
    moreover have "(0 \<le> i \<and> ?Q i) \<longleftrightarrow> (n + 1 \<le> i \<and> P i)" for i by auto
    ultimately show ?thesis by (simp only: first_from_def)
  qed
  finally show ?thesis .
qed

text \<open>With two words the mask of the first is applied to the second too, and numbers are skipped.\<close>

lemma GetNextSet_skips: "GetNextSet 10 [0, GetBitMask 5] = 128" "CountLeadingZero [0, GetBitMask 5] = 69"
  by code_simp+

section \<open>Queues as lists\<close>

text \<open>The list of the threads of a queue: scheduled or suggested, by priority and core.\<close>

type_synonym Lists = "bool \<Rightarrow> int \<Rightarrow> int \<Rightarrow> nat list"

definition valid_at :: "int \<Rightarrow> int \<Rightarrow> bool" where
  "valid_at p c \<longleftrightarrow> 0 \<le> p \<and> p \<le> 63 \<and> 0 \<le> c \<and> c < 4"

definition impl_ok :: "KPriorityQueueImpl \<Rightarrow> Entries \<Rightarrow> (int \<Rightarrow> int \<Rightarrow> nat list) \<Rightarrow> bool" where
  "impl_ok I E L \<longleftrightarrow> (\<forall>p c. valid_at p c \<longrightarrow>
     linked (m_queues I p c) (E c) (L p c) \<and>
     (\<exists>w. m_available_priorities I c = [w] \<and> stands_for w (\<lambda>i. L (int i) c \<noteq> [])))"

definition apart :: "Lists \<Rightarrow> bool" where
  "apart A \<longleftrightarrow> (\<forall>w p w' p' c t. t \<in> set (A w p c) \<longrightarrow> t \<in> set (A w' p' c) \<longrightarrow> w = w' \<and> p = p')"

definition select :: "bool \<Rightarrow> KPriorityQueue \<Rightarrow> KPriorityQueueImpl" where
  "select w q = (if w then m_scheduled_queue q else m_suggested_queue q)"

definition put :: "bool \<Rightarrow> KPriorityQueueImpl \<Rightarrow> Entries \<Rightarrow> KPriorityQueue \<Rightarrow> KPriorityQueue" where
  "put w I E q = (if w then q\<lparr>m_scheduled_queue := I, queue_entries := E\<rparr>
                  else q\<lparr>m_suggested_queue := I, queue_entries := E\<rparr>)"

definition on :: "bool \<Rightarrow> (ImplState \<Rightarrow> ImplState option) \<Rightarrow> KPriorityQueue \<Rightarrow> KPriorityQueue option" where
  "on w f = (if w then on_scheduled f else on_suggested f)"

lemma on_put: "on w f q = map_option (\<lambda>(I, E). put w I E q) (f (select w q, queue_entries q))"
  by (simp add: on_def on_scheduled_def on_suggested_def put_def select_def)

definition pq_ok :: "Lists \<Rightarrow> KPriorityQueue \<Rightarrow> bool" where
  "pq_ok A q \<longleftrightarrow> (\<forall>w. impl_ok (select w q) (queue_entries q) (A w)) \<and> apart A \<and>
     (\<forall>w p c. \<not> valid_at p c \<longrightarrow> A w p c = [])"

definition upd :: "Lists \<Rightarrow> bool \<Rightarrow> int \<Rightarrow> int \<Rightarrow> nat list \<Rightarrow> Lists" where
  "upd A w p c xs = A(w := (A w)(p := (A w p)(c := xs)))"

lemma upd_apply [simp]: "upd A w p c xs w' p' c' = (if w' = w \<and> p' = p \<and> c' = c then xs else A w' p' c')"
  by (simp add: upd_def)

lemma pq_ok_linked: "pq_ok A q \<Longrightarrow> valid_at p c \<Longrightarrow> linked (m_queues (select w q) p c) (queue_entries q c) (A w p c)"
  by (simp add: pq_ok_def impl_ok_def)

lemma pq_ok_available:
  assumes "pq_ok A q" and "valid_at p c"
  obtains v where "m_available_priorities (select w q) c = [v]" and "stands_for v (\<lambda>i. A w (int i) c \<noteq> [])"
  using assms unfolding pq_ok_def impl_ok_def by blast

lemma pq_ok_valid: "pq_ok A q \<Longrightarrow> t \<in> set (A w p c) \<Longrightarrow> valid_at p c"
  by (cases "valid_at p c") (auto simp: pq_ok_def)

lemma pq_ok_apart: "pq_ok A q \<Longrightarrow> t \<in> set (A w p c) \<Longrightarrow> t \<in> set (A w' p' c) \<Longrightarrow> w = w' \<and> p = p'"
  unfolding pq_ok_def apart_def by blast

lemma pq_ok_distinct: "pq_ok A q \<Longrightarrow> distinct (A w p c)"
proof (cases "valid_at p c")
  case True
  moreover assume "pq_ok A q"
  ultimately show ?thesis using pq_ok_linked [of A q p c w] by (simp add: linked_def)
qed (simp add: pq_ok_def)

lemma linked_cong: "(\<And>t. t \<in> set xs \<Longrightarrow> e1 t = e t) \<Longrightarrow> linked r e1 xs = linked r e xs"
  unfolding linked_def using dll_cong [of xs e1 e] by simp

text \<open>One list changes; the threads whose entries change are of the list before or after.\<close>

lemma pq_ok_update:
  assumes "pq_ok A q" and "valid_at p c" and ch: "only_changes c S (m_queues (select w q) p, queue_entries q) (R, E)"
    and S: "S \<subseteq> insert t (set (A w p c))" and ys: "set ys \<subseteq> insert t (set (A w p c))"
    and t: "\<And>w' p'. t \<in> set (A w' p' c) \<Longrightarrow> w' = w \<and> p' = p"
    and linked: "linked (R c) (E c) ys" and v: "stands_for v (\<lambda>i. upd A w p c ys w (int i) c \<noteq> [])"
    and I: "m_queues I = (m_queues (select w q))(p := R)"
      "m_available_priorities I = (m_available_priorities (select w q))(c := [v])"
  shows "pq_ok (upd A w p c ys) (put w I E q)"
proof -
  have R: "R c' = m_queues (select w q) p c'" if "c' \<noteq> c" for c' using ch that by (simp add: only_changes_def)
  have E: "E c' u = queue_entries q c' u" if "c' \<noteq> c \<or> u \<notin> S" for c' u using ch that by (simp add: only_changes_def)
  have apart: "w' = w \<and> p' = p" if "u \<in> set (A w' p' c)" "u \<in> S \<or> u \<in> set ys" for w' p' u
  proof -
    have "u = t \<or> u \<in> set (A w p c)" using that(2) S ys by blast
    then show ?thesis using t that(1) pq_ok_apart [OF assms(1) that(1)] by blast
  qed
  have other: "linked r (E c') (A w' p' c') = linked r (queue_entries q c') (A w' p' c')"
    if "\<not> (w' = w \<and> p' = p \<and> c' = c)" for r w' p' c'
  proof (rule linked_cong)
    fix u assume "u \<in> set (A w' p' c')"
    then show "E c' u = queue_entries q c' u" using that apart E by metis
  qed
  have "impl_ok (select w' (put w I E q)) (queue_entries (put w I E q)) (upd A w p c ys w')" for w'
    unfolding impl_ok_def
  proof (intro allI impI conjI)
    fix p' c' assume val: "valid_at p' c'"
    have old: "linked (m_queues (select w' q) p' c') (queue_entries q c') (A w' p' c')"
      by (rule pq_ok_linked [OF assms(1) val])
    show "linked (m_queues (select w' (put w I E q)) p' c') (queue_entries (put w I E q) c') (upd A w p c ys w' p' c')"
    proof (cases "w' = w \<and> p' = p \<and> c' = c")
      case True
      then show ?thesis using linked by (simp add: select_def put_def I)
    next
      case False
      have "m_queues (select w' (put w I E q)) p' c' = m_queues (select w' q) p' c'"
        using False R by (auto simp: select_def put_def I)
      moreover have "queue_entries (put w I E q) = E" by (simp add: put_def)
      moreover have "upd A w p c ys w' p' c' = A w' p' c'" using False by auto
      ultimately show ?thesis using other [OF False] old by metis
    qed
    obtain u where u: "m_available_priorities (select w' q) c' = [u]" "stands_for u (\<lambda>i. A w' (int i) c' \<noteq> [])"
      using pq_ok_available [OF assms(1) val] .
    show "\<exists>u. m_available_priorities (select w' (put w I E q)) c' = [u] \<and>
        stands_for u (\<lambda>i. upd A w p c ys w' (int i) c' \<noteq> [])"
    proof (cases "w' = w \<and> c' = c")
      case True
      then show ?thesis using v by (simp add: select_def put_def I)
    next
      case False
      have "m_available_priorities (select w' (put w I E q)) c' = m_available_priorities (select w' q) c'"
        using False by (auto simp: select_def put_def I)
      moreover have "(\<lambda>i. upd A w p c ys w' (int i) c' \<noteq> []) = (\<lambda>i. A w' (int i) c' \<noteq> [])" using False by auto
      ultimately show ?thesis using u by metis
    qed
  qed
  moreover have "apart (upd A w p c ys)"
    unfolding apart_def
  proof (intro allI impI)
    fix w1 p1 w2 p2 c' u
    assume u: "u \<in> set (upd A w p c ys w1 p1 c')" "u \<in> set (upd A w p c ys w2 p2 c')"
    have old: "u \<in> set (A w' p' c')" if "u \<in> set (upd A w p c ys w' p' c')" "\<not> (w' = w \<and> p' = p \<and> c' = c)" for w' p'
      using that by (auto split: if_splits)
    have new: "u \<in> set ys" "c' = c" if "u \<in> set (upd A w p c ys w' p' c')" "w' = w \<and> p' = p \<and> c' = c" for w' p'
      using that by simp_all
    show "w1 = w2 \<and> p1 = p2"
    proof (cases "(w1 = w \<and> p1 = p \<and> c' = c) \<or> (w2 = w \<and> p2 = p \<and> c' = c)")
      case True
      then have "u \<in> set ys" "c' = c" using u new by blast+
      then show ?thesis using True u old apart by blast
    next
      case False
      then show ?thesis using u old pq_ok_apart [OF assms(1)] by blast
    qed
  qed
  moreover have "\<forall>w' p' c'. \<not> valid_at p' c' \<longrightarrow> upd A w p c ys w' p' c' = []"
    using assms(1,2) by (auto simp: pq_ok_def)
  ultimately show ?thesis by (simp add: pq_ok_def)
qed

definition fresh :: "Lists \<Rightarrow> int \<Rightarrow> nat \<Rightarrow> bool" where
  "fresh A c t \<longleftrightarrow> (\<forall>w p. t \<notin> set (A w p c))"

lemma valid_at_prio: "valid_at p c \<Longrightarrow> nat p < 64 \<and> int (nat p) = p \<and> \<not> LowestThreadPriority < p \<and>
    IsValidCore c \<and> IsValidPriority p"
  by (auto simp: valid_at_def LowestThreadPriority_def IsValidCore_def IsValidPriority_def NUM_CPU_CORES_def
      HighestThreadPriority_def)

text \<open>The set of priorities after a change of one list.\<close>

lemma available_update:
  assumes "stands_for v (\<lambda>i. A w (int i) c \<noteq> [])" and "valid_at p c"
  shows "A w p c = [] \<Longrightarrow> ys \<noteq> [] \<Longrightarrow> stands_for (v OR GetBitMask (nat p)) (\<lambda>i. upd A w p c ys w (int i) c \<noteq> [])"
    and "ys = [] \<Longrightarrow> stands_for (v AND NOT (GetBitMask (nat p))) (\<lambda>i. upd A w p c ys w (int i) c \<noteq> [])"
    and "A w p c \<noteq> [] \<Longrightarrow> ys \<noteq> [] \<Longrightarrow> stands_for v (\<lambda>i. upd A w p c ys w (int i) c \<noteq> [])"
proof -
  have p: "nat p < 64" "int (nat p) = p" using valid_at_prio [OF assms(2)] by blast+
  have eq: "(\<lambda>i. upd A w p c ys w (int i) c \<noteq> []) = (\<lambda>i. A w (int i) c \<noteq> [])(nat p := ys \<noteq> [])"
    using p by (auto simp: fun_eq_iff)
  show "stands_for (v OR GetBitMask (nat p)) (\<lambda>i. upd A w p c ys w (int i) c \<noteq> [])" if "A w p c = []" "ys \<noteq> []"
    unfolding eq using stands_for_set [OF assms(1) p(1)] that by simp
  show "stands_for (v AND NOT (GetBitMask (nat p))) (\<lambda>i. upd A w p c ys w (int i) c \<noteq> [])" if "ys = []"
    unfolding eq using stands_for_clear [OF assms(1) p(1)] that by simp
  show "stands_for v (\<lambda>i. upd A w p c ys w (int i) c \<noteq> [])" if "A w p c \<noteq> []" "ys \<noteq> []"
    unfolding eq using assms(1) that p(2) by (auto simp: stands_for_def)
qed

lemma push_back_ok:
  assumes "pq_ok A q" and "valid_at p c" and "fresh A c t"
  shows "\<exists>q1. on w (Impl_PushBack p c t) q = Some q1 \<and> pq_ok (upd A w p c (A w p c @ [t])) q1"
proof -
  note val = valid_at_prio [OF assms(2)]
  have t: "t \<notin> set (A w p c)" "\<And>w' p'. t \<in> set (A w' p' c) \<Longrightarrow> w' = w \<and> p' = p"
    using assms(3) by (simp_all add: fresh_def)
  obtain v where v: "m_available_priorities (select w q) c = [v]" "stands_for v (\<lambda>i. A w (int i) c \<noteq> [])"
    using pq_ok_available [OF assms(1,2)] .
  obtain q1 where q1: "PerCore_PushBack c t (m_queues (select w q) p, queue_entries q) = (A w p c = [], q1)"
    "linked (fst q1 c) (snd q1 c) (A w p c @ [t])"
    "only_changes c (insert t (set (A w p c))) (m_queues (select w q) p, queue_entries q) q1"
    using PerCore_PushBack_ok [where r = "m_queues (select w q) p" and e = "queue_entries q",
        OF pq_ok_linked [OF assms(1,2)] t(1)] .
  obtain R E where RE: "q1 = (R, E)" by (cases q1)
  let ?v = "if A w p c = [] then v OR GetBitMask (nat p) else v"
  let ?I = "(select w q)\<lparr>m_queues := (m_queues (select w q))(p := R),
       m_available_priorities := (m_available_priorities (select w q))(c := [?v])\<rparr>"
  have "m_available_priorities (select w q) = (m_available_priorities (select w q))(c := [v])"
    using v(1) by (metis fun_upd_triv)
  then have "on w (Impl_PushBack p c t) q = Some (put w ?I E q)"
    using val v(1) SetBit_one [of "nat p" v]
    by (simp add: on_put Impl_PushBack_def q1(1) RE store_queue_def set_available_def Let_def)
  moreover have "stands_for ?v (\<lambda>i. upd A w p c (A w p c @ [t]) w (int i) c \<noteq> [])"
    using available_update(1,3) [where A = A and w = w, OF v(2) assms(2), of "A w p c @ [t]"]
    by (cases "A w p c = []") (simp_all del: upd_apply)
  then have "pq_ok (upd A w p c (A w p c @ [t])) (put w ?I E q)"
    using q1(2,3) t by (intro pq_ok_update [OF assms(1,2), of "insert t (set (A w p c))"]) (auto simp: RE)
  ultimately show ?thesis by blast
qed

lemma push_front_ok:
  assumes "pq_ok A q" and "valid_at p c" and "fresh A c t"
  shows "\<exists>q1. on w (Impl_PushFront p c t) q = Some q1 \<and> pq_ok (upd A w p c (t # A w p c)) q1"
proof -
  note val = valid_at_prio [OF assms(2)]
  have t: "t \<notin> set (A w p c)" "\<And>w' p'. t \<in> set (A w' p' c) \<Longrightarrow> w' = w \<and> p' = p"
    using assms(3) by (simp_all add: fresh_def)
  obtain v where v: "m_available_priorities (select w q) c = [v]" "stands_for v (\<lambda>i. A w (int i) c \<noteq> [])"
    using pq_ok_available [OF assms(1,2)] .
  obtain q1 where q1: "PerCore_PushFront c t (m_queues (select w q) p, queue_entries q) = (A w p c = [], q1)"
    "linked (fst q1 c) (snd q1 c) (t # A w p c)"
    "only_changes c (insert t (set (A w p c))) (m_queues (select w q) p, queue_entries q) q1"
    using PerCore_PushFront_ok [where r = "m_queues (select w q) p" and e = "queue_entries q",
        OF pq_ok_linked [OF assms(1,2)] t(1)] .
  obtain R E where RE: "q1 = (R, E)" by (cases q1)
  let ?v = "if A w p c = [] then v OR GetBitMask (nat p) else v"
  let ?I = "(select w q)\<lparr>m_queues := (m_queues (select w q))(p := R),
       m_available_priorities := (m_available_priorities (select w q))(c := [?v])\<rparr>"
  have "m_available_priorities (select w q) = (m_available_priorities (select w q))(c := [v])"
    using v(1) by (metis fun_upd_triv)
  then have "on w (Impl_PushFront p c t) q = Some (put w ?I E q)"
    using val v(1) SetBit_one [of "nat p" v]
    by (simp add: on_put Impl_PushFront_def q1(1) RE store_queue_def set_available_def Let_def)
  moreover have "stands_for ?v (\<lambda>i. upd A w p c (t # A w p c) w (int i) c \<noteq> [])"
    using available_update(1,3) [where A = A and w = w, OF v(2) assms(2), of "t # A w p c"]
    by (cases "A w p c = []") (simp_all del: upd_apply)
  then have "pq_ok (upd A w p c (t # A w p c)) (put w ?I E q)"
    using q1(2,3) t by (intro pq_ok_update [OF assms(1,2), of "insert t (set (A w p c))"]) (auto simp: RE)
  ultimately show ?thesis by blast
qed

lemma remove_ok:
  assumes "pq_ok A q" and "t \<in> set (A w p c)"
  shows "\<exists>q1. on w (Impl_Remove p c t) q = Some q1 \<and> pq_ok (upd A w p c (remove1 t (A w p c))) q1"
proof -
  have va: "valid_at p c" by (rule pq_ok_valid [OF assms])
  note val = valid_at_prio [OF va]
  obtain xs ys where xs: "A w p c = xs @ t # ys" using assms(2) by (auto simp: in_set_conv_decomp)
  have rem: "remove1 t (A w p c) = xs @ ys"
    using pq_ok_distinct [OF assms(1), of w p c] unfolding xs by (simp add: remove1_append)
  have t: "\<And>w' p'. t \<in> set (A w' p' c) \<Longrightarrow> w' = w \<and> p' = p" using pq_ok_apart [OF assms] by blast
  obtain v where v: "m_available_priorities (select w q) c = [v]" "stands_for v (\<lambda>i. A w (int i) c \<noteq> [])"
    using pq_ok_available [OF assms(1) va] .
  obtain q1 where q1: "PerCore_Remove c t (m_queues (select w q) p, queue_entries q) = (xs @ ys = [], q1)"
    "linked (fst q1 c) (snd q1 c) (xs @ ys)"
    "only_changes c (set (xs @ ys)) (m_queues (select w q) p, queue_entries q) q1"
    using PerCore_Remove_ok [where r = "m_queues (select w q) p" and e = "queue_entries q",
        OF pq_ok_linked [OF assms(1) va, of w, unfolded xs]] .
  obtain R E where RE: "q1 = (R, E)" by (cases q1)
  let ?v = "if xs @ ys = [] then v AND NOT (GetBitMask (nat p)) else v"
  let ?I = "(select w q)\<lparr>m_queues := (m_queues (select w q))(p := R),
       m_available_priorities := (m_available_priorities (select w q))(c := [?v])\<rparr>"
  have "m_available_priorities (select w q) = (m_available_priorities (select w q))(c := [v])"
    using v(1) by (metis fun_upd_triv)
  then have "on w (Impl_Remove p c t) q = Some (put w ?I E q)"
    using val v(1) ClearBit_one [of "nat p" v]
    by (simp add: on_put Impl_Remove_def q1(1) RE store_queue_def clear_available_def Let_def)
  moreover have "stands_for ?v (\<lambda>i. upd A w p c (xs @ ys) w (int i) c \<noteq> [])"
    using available_update(2,3) [where A = A and w = w, OF v(2) va, of "xs @ ys"] xs
    by (cases "xs @ ys = []") (simp_all del: upd_apply append_is_Nil_conv)
  then have "pq_ok (upd A w p c (xs @ ys)) (put w ?I E q)"
    using q1(2,3) t by (intro pq_ok_update [OF assms(1) va, of "set (xs @ ys)" w R E t]) (auto simp: RE xs)
  ultimately show ?thesis unfolding rem by blast
qed

lemma only_changes_trans:
  "only_changes c S q q1 \<Longrightarrow> only_changes c S' q1 q2 \<Longrightarrow> only_changes c (S \<union> S') q q2"
  by (simp add: only_changes_def)

text \<open>Moving to an end.  The queue stays as empty as it was.\<close>

lemma move_front_ok:
  assumes "pq_ok A q" and "t \<in> set (A w p c)"
  shows "\<exists>q1. on w (Impl_MoveToFront p c t) q = Some q1 \<and> pq_ok (upd A w p c (t # remove1 t (A w p c))) q1"
    and "\<exists>I E. Impl_MoveToBack p c t (select w q, queue_entries q) = Some (hd_or (remove1 t (A w p c) @ [t]) None, I, E) \<and>
      pq_ok (upd A w p c (remove1 t (A w p c) @ [t])) (put w I E q)"
proof -
  have va: "valid_at p c" by (rule pq_ok_valid [OF assms])
  note val = valid_at_prio [OF va]
  obtain xs ys where xs: "A w p c = xs @ t # ys" using assms(2) by (auto simp: in_set_conv_decomp)
  have dist: "distinct (xs @ t # ys)" using pq_ok_distinct [OF assms(1), of w p c] unfolding xs .
  then have rem: "remove1 t (A w p c) = xs @ ys" unfolding xs by (simp add: remove1_append)
  have t: "\<And>w' p'. t \<in> set (A w' p' c) \<Longrightarrow> w' = w \<and> p' = p" "t \<notin> set (xs @ ys)"
    using pq_ok_apart [OF assms] dist by auto
  obtain v where v: "m_available_priorities (select w q) c = [v]" "stands_for v (\<lambda>i. A w (int i) c \<noteq> [])"
    using pq_ok_available [OF assms(1) va] .
  have same: "m_available_priorities (select w q) = (m_available_priorities (select w q))(c := [v])"
    using v(1) by (metis fun_upd_triv)
  obtain q1 where q1: "PerCore_Remove c t (m_queues (select w q) p, queue_entries q) = (xs @ ys = [], q1)"
    "linked (fst q1 c) (snd q1 c) (xs @ ys)"
    "only_changes c (set (xs @ ys)) (m_queues (select w q) p, queue_entries q) q1"
    using PerCore_Remove_ok [where r = "m_queues (select w q) p" and e = "queue_entries q",
        OF pq_ok_linked [OF assms(1) va, of w, unfolded xs]] .
  obtain R1 E1 where RE1: "q1 = (R1, E1)" by (cases q1)
  have av: "stands_for v (\<lambda>i. upd A w p c zs w (int i) c \<noteq> [])" if "zs \<noteq> []" for zs
    using available_update(3) [where A = A and w = w, OF v(2) va _ that] xs by simp
  have step: "pq_ok (upd A w p c zs) (put w ((select w q)\<lparr>m_queues := (m_queues (select w q))(p := fst q2)\<rparr>) (snd q2) q)"
    if q2: "linked (fst q2 c) (snd q2 c) zs" "only_changes c (insert t (set (xs @ ys))) q1 q2"
      and zs: "zs \<noteq> []" "set zs \<subseteq> insert t (set (xs @ ys))" for zs q2
  proof (rule pq_ok_update [where t = t, OF assms(1) va])
    show "only_changes c (insert t (set (xs @ ys))) (m_queues (select w q) p, queue_entries q) (fst q2, snd q2)"
      using only_changes_trans [OF q1(3) q2(2)] by simp
    show "w' = w \<and> p' = p" if "t \<in> set (A w' p' c)" for w' p' by (rule t(1) [OF that])
    show "stands_for v (\<lambda>i. upd A w p c zs w (int i) c \<noteq> [])" by (rule av [OF zs(1)])
  qed (use q2(1) zs same xs in auto)
  obtain q2 where q2: "PerCore_PushFront c t (R1, E1) = (xs @ ys = [], q2)"
    "linked (fst q2 c) (snd q2 c) (t # xs @ ys)" "only_changes c (insert t (set (xs @ ys))) (R1, E1) q2"
    using PerCore_PushFront_ok [where r = R1 and e = E1, OF _ t(2)] q1(2) unfolding RE1 by auto
  have "on w (Impl_MoveToFront p c t) q
      = Some (put w ((select w q)\<lparr>m_queues := (m_queues (select w q))(p := fst q2)\<rparr>) (snd q2) q)"
    using val by (simp add: on_put Impl_MoveToFront_def q1(1) RE1 q2(1) store_queue_def split: prod.split)
  then show "\<exists>q1. on w (Impl_MoveToFront p c t) q = Some q1 \<and> pq_ok (upd A w p c (t # remove1 t (A w p c))) q1"
    using step [OF q2(2)] q2(3) unfolding rem RE1 by auto
  obtain q3 where q3: "PerCore_PushBack c t (R1, E1) = (xs @ ys = [], q3)"
    "linked (fst q3 c) (snd q3 c) ((xs @ ys) @ [t])" "only_changes c (insert t (set (xs @ ys))) (R1, E1) q3"
    using PerCore_PushBack_ok [where r = R1 and e = E1, OF _ t(2)] q1(2) unfolding RE1 by auto
  have "PerCore_GetFront c (fst q3) = hd_or ((xs @ ys) @ [t]) None"
    using linked_front [OF q3(2)] by (simp add: PerCore_GetFront_def)
  then have "Impl_MoveToBack p c t (select w q, queue_entries q) = Some (hd_or ((xs @ ys) @ [t]) None,
      (select w q)\<lparr>m_queues := (m_queues (select w q))(p := fst q3)\<rparr>, snd q3)"
    using val by (cases q3) (simp add: Impl_MoveToBack_def q1(1) RE1 q3(1) store_queue_def)
  then show "\<exists>I E. Impl_MoveToBack p c t (select w q, queue_entries q) = Some (hd_or (remove1 t (A w p c) @ [t]) None, I, E) \<and>
      pq_ok (upd A w p c (remove1 t (A w p c) @ [t])) (put w I E q)"
    using step [OF q3(2)] q3(3) unfolding rem RE1 by auto
qed

section \<open>All threads of a core in order\<close>

definition flat_from :: "(nat \<Rightarrow> nat list) \<Rightarrow> nat \<Rightarrow> nat list" where
  "flat_from f n = concat (map f [n..<64])"

definition flat :: "Lists \<Rightarrow> bool \<Rightarrow> int \<Rightarrow> nat list" where
  "flat A w c = flat_from (\<lambda>i. A w (int i) c) 0"

lemma flat_from_step: "n < 64 \<Longrightarrow> flat_from f n = f n @ flat_from f (Suc n)"
  unfolding flat_from_def by (subst upt_conv_Cons) simp_all

lemma flat_from_end: "64 \<le> n \<Longrightarrow> flat_from f n = []"
  by (simp add: flat_from_def)

lemma flat_from_first: "n \<le> 64 \<Longrightarrow> hd_or (flat_from f n) None =
   (let m = first_from (\<lambda>i. f i \<noteq> []) n in if m < 64 then hd_or (f m) None else None)"
proof (induction "64 - n" arbitrary: n)
  case 0
  then have "first_from (\<lambda>i. f i \<noteq> []) n = 64" by (intro first_from_unique) simp_all
  with 0 show ?case by (simp add: flat_from_end)
next
  case (Suc d)
  then have n: "n < 64" by simp
  show ?case
  proof (cases "f n = []")
    case False
    then have "first_from (\<lambda>i. f i \<noteq> []) n = n" using n by (intro first_from_unique) simp_all
    moreover have "hd_or (f n) y = hd_or (f n) None" for y using False by (cases "f n") simp_all
    ultimately show ?thesis using n by (simp add: flat_from_step)
  next
    case True
    have "first_from (\<lambda>i. f i \<noteq> []) n = first_from (\<lambda>i. f i \<noteq> []) (Suc n)"
    proof -
      have "(n \<le> i \<and> i < 64 \<and> f i \<noteq> []) \<longleftrightarrow> (Suc n \<le> i \<and> i < 64 \<and> f i \<noteq> [])"
        "(n \<le> i \<and> f i \<noteq> []) \<longleftrightarrow> (Suc n \<le> i \<and> f i \<noteq> [])" for i
        using True by (auto simp: Suc_le_eq order_less_le)
      then show ?thesis by (simp only: first_from_def)
    qed
    with Suc.hyps(1) [of "Suc n"] Suc.hyps(2) n True show ?thesis by (simp add: flat_from_step)
  qed
qed

lemma first_from_le: "first_from P n \<le> 64"
  by (auto simp: first_from_def intro: Least_le [THEN order_trans])

lemma front_ok:
  assumes "pq_ok A q" and "0 \<le> c" and "c < 4"
  shows "Impl_GetFront c (select w q) = Some (hd_or (flat A w c) None)"
proof -
  have va: "valid_at p c" if "0 \<le> p" "p \<le> 63" for p using that assms(2,3) by (simp add: valid_at_def)
  obtain v where v: "m_available_priorities (select w q) c = [v]" "stands_for v (\<lambda>i. A w (int i) c \<noteq> [])"
    using pq_ok_available [OF assms(1) va [of 0]] by auto
  let ?m = "first_from (\<lambda>i. A w (int i) c \<noteq> []) 0"
  have "m_next (m_queues (select w q) (int ?m) c) = hd_or (A w (int ?m) c) None" if "?m < 64"
    using linked_front [OF pq_ok_linked [OF assms(1) va [of "int ?m"]]] that by simp
  moreover have "IsValidCore c" using assms(2,3) by (simp add: IsValidCore_def NUM_CPU_CORES_def)
  ultimately show ?thesis
    using flat_from_first [of 0 "\<lambda>i. A w (int i) c"] CountLeadingZero_one [OF v(2)]
    by (simp add: Impl_GetFront_def v(1) flat_def PerCore_GetFront_def LowestThreadPriority_def Let_def)
qed

lemma front_at_ok:
  assumes "pq_ok A q" and "valid_at p c"
  shows "Impl_GetFront_at p c (select w q) = Some (hd_or (A w p c) None)"
  using valid_at_prio [OF assms(2)] linked_front [OF pq_ok_linked [OF assms]]
  by (simp add: Impl_GetFront_at_def PerCore_GetFront_def)

text \<open>The members of a list of a priority have this priority.\<close>

definition prio_ok :: "Threads \<Rightarrow> Lists \<Rightarrow> bool" where
  "prio_ok threads A \<longleftrightarrow> (\<forall>w p c. \<forall>t \<in> set (A w p c). m_priority (threads t) = p)"

lemma in_flat: "pq_ok A q \<Longrightarrow> t \<in> set (flat A w c) \<longleftrightarrow> (\<exists>p. t \<in> set (A w p c))"
proof
  assume ok: "pq_ok A q"
  show "t \<in> set (flat A w c)" if "\<exists>p. t \<in> set (A w p c)"
  proof -
    from that obtain p where p: "t \<in> set (A w p c)" by blast
    then have "valid_at p c" by (rule pq_ok_valid [OF ok])
    then have "nat p < 64" "int (nat p) = p" using valid_at_prio by blast+
    with p show ?thesis by (auto simp: flat_def flat_from_def intro!: bexI [of _ "nat p"])
  qed
qed (auto simp: flat_def flat_from_def)

lemma distinct_flat_from:
  assumes "pq_ok A q"
  shows "n \<le> 64 \<Longrightarrow> distinct (flat_from (\<lambda>i. A w (int i) c) n)"
proof (induction "64 - n" arbitrary: n)
  case 0
  then show ?case by (simp add: flat_from_end)
next
  case (Suc d)
  then have n: "n < 64" by simp
  have "distinct (flat_from (\<lambda>i. A w (int i) c) (Suc n))" using Suc.hyps(1) [of "Suc n"] Suc.hyps(2) n by simp
  moreover have "set (A w (int n) c) \<inter> set (flat_from (\<lambda>i. A w (int i) c) (Suc n)) = {}"
  proof (rule equals0I)
    fix u assume "u \<in> set (A w (int n) c) \<inter> set (flat_from (\<lambda>i. A w (int i) c) (Suc n))"
    then obtain i where i: "u \<in> set (A w (int n) c)" "u \<in> set (A w (int i) c)" "n < i"
      by (auto simp: flat_from_def)
    from pq_ok_apart [OF assms i(1,2)] have "int n = int i" by blast
    with i(3) show False by simp
  qed
  ultimately show ?case using pq_ok_distinct [OF assms] by (simp add: flat_from_step [OF n])
qed

lemma distinct_flat: "pq_ok A q \<Longrightarrow> distinct (flat A w c)"
  using distinct_flat_from [of A q 0] by (simp add: flat_def)

lemma flat_split:
  assumes "pq_ok A q" and "A w p c = xs @ t # ys"
  shows "\<exists>us. flat A w c = us @ t # (ys @ flat_from (\<lambda>i. A w (int i) c) (nat p + 1))"
proof -
  have "t \<in> set (A w p c)" by (simp add: assms(2))
  then have "valid_at p c" by (rule pq_ok_valid [OF assms(1)])
  then have p: "nat p < 64" "int (nat p) = p" using valid_at_prio by blast+
  have "[0..<64] = [0..<nat p] @ [nat p..<64]" using p(1) upt_add_eq_append [of 0 "nat p" "64 - nat p"] by simp
  then have "flat A w c = concat (map (\<lambda>i. A w (int i) c) [0..<nat p]) @ flat_from (\<lambda>i. A w (int i) c) (nat p)"
    by (simp add: flat_def flat_from_def del: upt_rec_numeral)
  also have "flat_from (\<lambda>i. A w (int i) c) (nat p)
      = A w (int (nat p)) c @ flat_from (\<lambda>i. A w (int i) c) (Suc (nat p))"
    by (rule flat_from_step [OF p(1)])
  finally show ?thesis using p(2) assms(2) by (intro exI) simp
qed

lemma split_unique: "us @ t # vs = us' @ t # vs' \<Longrightarrow> t \<notin> set us \<Longrightarrow> t \<notin> set vs \<Longrightarrow> vs = vs'"
  by (simp add: append_Cons_eq_iff)

lemma next_ok:
  assumes "pq_ok A q" and "prio_ok threads A" and "flat A w c = us @ t # vs"
  shows "Impl_GetNext threads c t (select w q, queue_entries q) = Some (hd_or vs None)"
proof -
  have "t \<in> set (flat A w c)" by (simp add: assms(3))
  then obtain p where tp: "t \<in> set (A w p c)" using in_flat [OF assms(1)] by blast
  then have va: "valid_at p c" by (rule pq_ok_valid [OF assms(1)])
  then have p: "nat p < 64" "int (nat p) = p" using valid_at_prio by blast+
  have prio: "m_priority (threads t) = p" using assms(2) tp by (simp add: prio_ok_def)
  obtain xs ys where xs: "A w p c = xs @ t # ys" using tp by (auto simp: in_set_conv_decomp)
  let ?f = "\<lambda>i. A w (int i) c"
  obtain us' where us': "flat A w c = us' @ t # (ys @ flat_from ?f (nat p + 1))" using flat_split [OF assms(1) xs] by blast
  have d: "distinct (flat A w c)" by (rule distinct_flat [OF assms(1)])
  have "us @ t # vs = us' @ t # (ys @ flat_from ?f (nat p + 1))" using us' unfolding assms(3) .
  moreover have "t \<notin> set us" "t \<notin> set vs" using d unfolding assms(3) by simp_all
  ultimately have vs: "vs = ys @ flat_from ?f (nat p + 1)" by (rule split_unique)
  have e: "m_next (queue_entries q c t) = hd_or ys None"
    by (rule linked_next [OF pq_ok_linked [OF assms(1) va, of w, unfolded xs]])
  have vc: "IsValidCore c" using valid_at_prio [OF va] by blast
  show ?thesis
  proof (cases ys)
    case (Cons u zs)
    then show ?thesis using e vc by (simp add: Impl_GetNext_def vs)
  next
    case Nil
    obtain v where v: "m_available_priorities (select w q) c = [v]" "stands_for v (\<lambda>i. ?f i \<noteq> [])"
      using pq_ok_available [OF assms(1) va] .
    let ?m = "first_from (\<lambda>i. ?f i \<noteq> []) (nat p + 1)"
    have "m_next (m_queues (select w q) (int ?m) c) = hd_or (?f ?m) None" if "?m < 64"
      using linked_front [OF pq_ok_linked [OF assms(1), of "int ?m" c w]] that va by (simp add: valid_at_def)
    then show ?thesis
      using flat_from_first [of "nat p + 1" ?f] GetNextSet_one [OF v(2) p(1)] p e vc Nil
      by (simp add: Impl_GetNext_def prio v(1) vs PerCore_GetFront_def LowestThreadPriority_def Let_def)
  qed
qed

lemma same_next_ok:
  assumes "pq_ok A q" and "A w p c = us @ t # vs"
  shows "GetSamePriorityNext c t q = Some (hd_or vs None)"
proof -
  have "t \<in> set (A w p c)" by (simp add: assms(2))
  then have va: "valid_at p c" by (rule pq_ok_valid [OF assms(1)])
  show ?thesis
    using linked_next [OF pq_ok_linked [OF assms(1) va, of w, unfolded assms(2)]] valid_at_prio [OF va]
    by (simp add: GetSamePriorityNext_def)
qed

lemma new_queue_ok: "pq_ok (\<lambda>w p c. []) new_KPriorityQueue"
proof -
  have "stands_for 0 (\<lambda>i. False)" by (simp add: stands_for_def)
  then show ?thesis
    by (auto simp: pq_ok_def impl_ok_def select_def new_KPriorityQueue_def new_Impl_def empty_entry_def linked_def
        apart_def)
qed

section \<open>The contract of the queues\<close>

text \<open>Adding a thread to queues or removing it from them, given as a predicate.\<close>

definition added :: "(bool \<Rightarrow> int \<Rightarrow> int \<Rightarrow> bool) \<Rightarrow> nat \<Rightarrow> Lists \<Rightarrow> Lists" where
  "added Q t A = (\<lambda>w p c. if Q w p c then A w p c @ [t] else A w p c)"

definition removed :: "(bool \<Rightarrow> int \<Rightarrow> int \<Rightarrow> bool) \<Rightarrow> nat \<Rightarrow> Lists \<Rightarrow> Lists" where
  "removed Q t A = (\<lambda>w p c. if Q w p c then remove1 t (A w p c) else A w p c)"

text \<open>The loop over an affinity mask visits its cores in order.\<close>

definition cores_of :: "u64 \<Rightarrow> int list" where
  "cores_of a = map int (filter (bit a) [0..<64])"

lemma set_cores_of: "c \<in> set (cores_of a) \<longleftrightarrow> 0 \<le> c \<and> bit a (nat c)"
  using bit_imp_le_length [of a "nat c"]
  by (auto simp: cores_of_def image_iff intro: bexI [of _ "nat c"] simp del: upt_rec_numeral)

lemma distinct_cores_of: "distinct (cores_of a)"
  by (simp add: cores_of_def distinct_map inj_on_def del: upt_rec_numeral)

lemma for_cores_list: "for_cores f a q = each_core f (cores_of a) q"
proof (induction f a q rule: for_cores.induct)
  case (1 f a q)
  show ?case
  proof (cases "a = 0")
    case True
    then show ?thesis by (subst for_cores.simps) (simp add: cores_of_def)
  next
    case False
    let ?k = "countr_zero a"
    note k = countr_zero_bit [OF False]
    have below: "filter (bit a) [0..<?k] = []" "filter (bit (ClearAffinityBit a (int ?k))) [0..<?k] = []"
      using k by (auto simp: filter_empty_conv ClearAffinityBit_bit not_less [symmetric])
    have above: "filter (bit (ClearAffinityBit a (int ?k))) [Suc ?k..<64] = filter (bit a) [Suc ?k..<64]"
      by (rule filter_cong) (auto simp: ClearAffinityBit_bit simp del: upt_rec_numeral)
    have upt: "[0..<64] = [0..<?k] @ ?k # [Suc ?k..<64]"
      using k by (metis less_imp_le_nat upt_conv_Cons upt_add_eq_append le_add_diff_inverse zero_le)
    have "cores_of a = int ?k # cores_of (ClearAffinityBit a (int ?k))"
      unfolding cores_of_def upt using k by (simp add: below above ClearAffinityBit_bit)
    moreover have "Option.bind (f (int ?k) q) (for_cores f (ClearAffinityBit a (int ?k)))
        = Option.bind (f (int ?k) q) (each_core f (cores_of (ClearAffinityBit a (int ?k))))"
      by (cases "f (int ?k) q") (simp_all add: 1 [OF False refl])
    moreover have "for_cores f a q = Option.bind (f (int ?k) q) (for_cores f (ClearAffinityBit a (int ?k)))"
      using False by (subst for_cores.simps) (simp only: Let_def if_True simp_thms)
    ultimately show ?thesis by (simp only: each_core.simps)
  qed
qed

text \<open>
  What the code that places threads needs of the queues: on lists that are kept apart, the operations
  append, prepend and take out.
\<close>

locale run_queues =
  fixes ok :: "Lists \<Rightarrow> 'q \<Rightarrow> bool"
    and push_back :: "bool \<Rightarrow> int \<Rightarrow> int \<Rightarrow> nat \<Rightarrow> 'q \<Rightarrow> 'q option"
    and push_front :: "bool \<Rightarrow> int \<Rightarrow> int \<Rightarrow> nat \<Rightarrow> 'q \<Rightarrow> 'q option"
    and remove :: "bool \<Rightarrow> int \<Rightarrow> int \<Rightarrow> nat \<Rightarrow> 'q \<Rightarrow> 'q option"
  assumes push_back: "ok A q \<Longrightarrow> valid_at p c \<Longrightarrow> fresh A c t \<Longrightarrow>
      \<exists>q1. push_back w p c t q = Some q1 \<and> ok (upd A w p c (A w p c @ [t])) q1"
    and push_front: "ok A q \<Longrightarrow> valid_at p c \<Longrightarrow> fresh A c t \<Longrightarrow>
      \<exists>q1. push_front w p c t q = Some q1 \<and> ok (upd A w p c (t # A w p c)) q1"
    and remove: "ok A q \<Longrightarrow> t \<in> set (A w p c) \<Longrightarrow>
      \<exists>q1. remove w p c t q = Some q1 \<and> ok (upd A w p c (remove1 t (A w p c))) q1"
begin

lemma each_push:
  "ok A q \<Longrightarrow> distinct cores \<Longrightarrow> (\<And>c. c \<in> set cores \<Longrightarrow> P c \<Longrightarrow> valid_at p c \<and> fresh A c t) \<Longrightarrow>
   \<exists>q1. each_core (\<lambda>c q. if P c then push_back (W c) p c t q else Some q) cores q = Some q1 \<and>
     ok (added (\<lambda>w p' c. p' = p \<and> c \<in> set cores \<and> P c \<and> w = W c) t A) q1"
proof (induction cores arbitrary: A q)
  case (Cons c cores)
  show ?case
  proof (cases "P c")
    case False
    have "added (\<lambda>w p' c'. p' = p \<and> c' \<in> set (c # cores) \<and> P c' \<and> w = W c') t A
        = added (\<lambda>w p' c'. p' = p \<and> c' \<in> set cores \<and> P c' \<and> w = W c') t A"
      using False by (auto simp: added_def fun_eq_iff)
    then show ?thesis using Cons.IH [OF Cons.prems(1)] Cons.prems(2,3) False by simp
  next
    case True
    then obtain q1 where q1: "push_back (W c) p c t q = Some q1"
      "ok (upd A (W c) p c (A (W c) p c @ [t])) q1" (is "ok ?A1 q1")
      using push_back [OF Cons.prems(1)] Cons.prems(3) by (metis list.set_intros(1))
    have d: "distinct cores" using Cons.prems(2) by simp
    have "valid_at p c' \<and> fresh ?A1 c' t" if "c' \<in> set cores" "P c'" for c'
      using Cons.prems(2,3) that by (auto simp: fresh_def)
    from Cons.IH [OF q1(2) d this] obtain q2 where q2:
      "each_core (\<lambda>c q. if P c then push_back (W c) p c t q else Some q) cores q1 = Some q2"
      "ok (added (\<lambda>w p' c. p' = p \<and> c \<in> set cores \<and> P c \<and> w = W c) t ?A1) q2" by blast
    have "added (\<lambda>w p' c'. p' = p \<and> c' \<in> set cores \<and> P c' \<and> w = W c') t ?A1
        = added (\<lambda>w p' c'. p' = p \<and> c' \<in> set (c # cores) \<and> P c' \<and> w = W c') t A"
      using True Cons.prems(2) by (auto simp: added_def fun_eq_iff)
    with q1(1) q2 True show ?thesis by simp
  qed
qed (simp add: added_def)

lemma each_remove:
  "ok A q \<Longrightarrow> distinct cores \<Longrightarrow> (\<And>c. c \<in> set cores \<Longrightarrow> P c \<Longrightarrow> t \<in> set (A (W c) p c)) \<Longrightarrow>
   \<exists>q1. each_core (\<lambda>c q. if P c then remove (W c) p c t q else Some q) cores q = Some q1 \<and>
     ok (removed (\<lambda>w p' c. p' = p \<and> c \<in> set cores \<and> P c \<and> w = W c) t A) q1"
proof (induction cores arbitrary: A q)
  case (Cons c cores)
  show ?case
  proof (cases "P c")
    case False
    have "removed (\<lambda>w p' c'. p' = p \<and> c' \<in> set (c # cores) \<and> P c' \<and> w = W c') t A
        = removed (\<lambda>w p' c'. p' = p \<and> c' \<in> set cores \<and> P c' \<and> w = W c') t A"
      using False by (auto simp: removed_def fun_eq_iff)
    then show ?thesis using Cons.IH [OF Cons.prems(1)] Cons.prems(2,3) False by simp
  next
    case True
    then obtain q1 where q1: "remove (W c) p c t q = Some q1"
      "ok (upd A (W c) p c (remove1 t (A (W c) p c))) q1" (is "ok ?A1 q1")
      using remove [OF Cons.prems(1)] Cons.prems(3) by (metis list.set_intros(1))
    have d: "distinct cores" using Cons.prems(2) by simp
    have "t \<in> set (?A1 (W c') p c')" if "c' \<in> set cores" "P c'" for c'
      using Cons.prems(2,3) that by auto
    from Cons.IH [OF q1(2) d this] obtain q2 where q2:
      "each_core (\<lambda>c q. if P c then remove (W c) p c t q else Some q) cores q1 = Some q2"
      "ok (removed (\<lambda>w p' c. p' = p \<and> c \<in> set cores \<and> P c \<and> w = W c) t ?A1) q2" by blast
    have "removed (\<lambda>w p' c'. p' = p \<and> c' \<in> set cores \<and> P c' \<and> w = W c') t ?A1
        = removed (\<lambda>w p' c'. p' = p \<and> c' \<in> set (c # cores) \<and> P c' \<and> w = W c') t A"
      using True Cons.prems(2) by (auto simp: removed_def fun_eq_iff)
    with q1(1) q2 True show ?thesis by simp
  qed
qed (simp add: removed_def)

end

interpretation thread_queues: run_queues pq_ok
  "\<lambda>w p c t. on w (Impl_PushBack p c t)" "\<lambda>w p c t. on w (Impl_PushFront p c t)" "\<lambda>w p c t. on w (Impl_Remove p c t)"
  by unfold_locales (rule push_back_ok push_front_ok remove_ok; assumption)+

end
