(* ===== verification/Priority_Queue_Members.thy ===== *)
theory Priority_Queue_Members
  imports Priority_Queue_Props
begin

text \<open>
  The queues of a thread.  A thread of a priority that is on a core and may run on others is in the
  scheduled queue of the one and in the suggested queues of the others; the operations of the priority
  queue keep it so when its priority, its affinity or its core changes.
\<close>

section \<open>Where a thread belongs\<close>

definition places :: "int \<Rightarrow> int \<Rightarrow> u64 \<Rightarrow> bool \<Rightarrow> int \<Rightarrow> int \<Rightarrow> bool" where
  "places p core aff w p' c \<longleftrightarrow>
     p' = p \<and> valid_at p c \<and> (if w then c = core else c \<noteq> core \<and> bit aff (nat c))"

definition core_ok :: "int \<Rightarrow> u64 \<Rightarrow> bool" where
  "core_ok core aff \<longleftrightarrow>
     - 1 \<le> core \<and> core < 4 \<and> (\<forall>k. bit aff k \<longrightarrow> k < 4) \<and> (0 \<le> core \<longrightarrow> bit aff (nat core))"

definition holds :: "Lists \<Rightarrow> nat \<Rightarrow> (bool \<Rightarrow> int \<Rightarrow> int \<Rightarrow> bool) \<Rightarrow> bool" where
  "holds A t Q \<longleftrightarrow> (\<forall>w p c. t \<in> set (A w p c) \<longleftrightarrow> Q w p c)"

text \<open>Into its queues; only the scheduled one may be entered at the front.\<close>

definition queued :: "bool \<Rightarrow> (bool \<Rightarrow> int \<Rightarrow> int \<Rightarrow> bool) \<Rightarrow> nat \<Rightarrow> Lists \<Rightarrow> Lists" where
  "queued to_front Q t A = (\<lambda>w p c.
     if Q w p c then if w \<and> to_front then t # A w p c else A w p c @ [t] else A w p c)"

lemma queued_back: "queued False Q t A = added Q t A"
  by (auto simp: queued_def added_def fun_eq_iff)

lemma holds_fresh: "holds A t (\<lambda>w p c. False) \<Longrightarrow> fresh A c t"
  by (simp add: holds_def fresh_def)

lemma holds_removed:
  assumes "pq_ok A q" and "holds A t Q"
  shows "holds (removed Q t A) t (\<lambda>w p c. False)"
  using assms(2) pq_ok_distinct [OF assms(1)] by (auto simp: holds_def removed_def)

lemma holds_queued: "holds A t (\<lambda>w p c. False) \<Longrightarrow> holds (queued f Q t A) t Q"
  by (auto simp: holds_def queued_def)

lemma others_removed: "u \<noteq> t \<Longrightarrow> u \<in> set (removed Q t A w p c) \<longleftrightarrow> u \<in> set (A w p c)"
  by (simp add: removed_def)

lemma others_queued: "u \<noteq> t \<Longrightarrow> u \<in> set (queued f Q t A w p c) \<longleftrightarrow> u \<in> set (A w p c)"
  by (simp add: queued_def)

lemma places_none: "places p core aff w p' c \<Longrightarrow> valid_at p c"
  by (simp add: places_def)

lemma no_places: "\<not> (0 \<le> p \<and> p \<le> 63) \<Longrightarrow> places p core aff = (\<lambda>w p' c. False)"
  by (auto simp: places_def valid_at_def fun_eq_iff)

lemma each_core_nothing: "(\<And>c. c \<in> set cores \<Longrightarrow> f c q = Some q) \<Longrightarrow> each_core f cores q = Some q"
  by (induction cores) simp_all

lemma each_core_cong: "(\<And>c q. c \<in> set cores \<Longrightarrow> f c q = g c q) \<Longrightarrow> each_core f cores q = each_core g cores q"
proof (induction cores arbitrary: q)
  case (Cons c cores)
  then show ?case by (cases "g c q") simp_all
qed simp

lemma put_same [simp]: "put w (select w q) (queue_entries q) q = q"
  by (simp add: put_def select_def)

text \<open>The lowest priority of all is in no queue.\<close>

lemma lowest_nothing:
  assumes "0 \<le> c" and "c < 4"
  shows "on w (Impl_PushBack 64 c t) q = Some q" and "on w (Impl_PushFront 64 c t) q = Some q"
    and "on w (Impl_Remove 64 c t) q = Some q"
  using assms by (simp_all add: on_put Impl_PushBack_def Impl_PushFront_def Impl_Remove_def IsValidCore_def
      IsValidPriority_def NUM_CPU_CORES_def LowestThreadPriority_def HighestThreadPriority_def)

section \<open>The loops over an affinity mask\<close>

lemma on_names: "on_scheduled = on True" "on_suggested = on False"
  by (rule ext, simp add: on_def)+

lemma mask_cores:
  assumes "core_ok core aff" and "c \<in> set (cores_of aff)"
  shows "0 \<le> c \<and> c < 4"
  using assms by (auto simp: core_ok_def set_cores_of)

lemma cleared_cores: "0 \<le> core \<Longrightarrow> c \<in> set (cores_of (ClearAffinityBit aff core)) \<longleftrightarrow> c \<in> set (cores_of aff) \<and> c \<noteq> core"
  by (auto simp: set_cores_of ClearAffinityBit_bit nat_eq_iff)

text \<open>The cores other than the active one, as the code finds them.\<close>

definition other_cores :: "int \<Rightarrow> u64 \<Rightarrow> int list" where
  "other_cores core aff = cores_of (if 0 \<le> core then ClearAffinityBit aff core else aff)"

lemma set_other_cores: "c \<in> set (other_cores core aff) \<longleftrightarrow> c \<in> set (cores_of aff) \<and> c \<noteq> core"
  unfolding other_cores_def using cleared_cores [of core c aff] by (auto simp: set_cores_of)

lemma push_suggested:
  assumes "pq_ok A q" and "core_ok core aff" and "0 \<le> p" and "p \<le> 64" and "\<And>c. c \<noteq> core \<Longrightarrow> fresh A c t"
  shows "\<exists>q1. each_core (\<lambda>c. on False (Impl_PushBack p c t)) (other_cores core aff) q = Some q1 \<and>
    pq_ok (added (\<lambda>w p' c. \<not> w \<and> places p core aff w p' c) t A) q1"
proof (cases "p = 64")
  case True
  have "on False (Impl_PushBack p c t) q = Some q" if "c \<in> set (other_cores core aff)" for c
    using that lowest_nothing(1) mask_cores [OF assms(2)] by (simp add: True set_other_cores)
  then have "each_core (\<lambda>c. on False (Impl_PushBack p c t)) (other_cores core aff) q = Some q"
    by (rule each_core_nothing)
  moreover have "places p core aff = (\<lambda>w p' c. False)" by (rule no_places) (simp add: True)
  ultimately show ?thesis using assms(1) by (simp add: added_def)
next
  case False
  have v: "valid_at p c \<and> fresh A c t" if "c \<in> set (other_cores core aff)" "True" for c
    using that(1) False mask_cores [OF assms(2)] assms(3-5) by (auto simp: set_other_cores valid_at_def)
  have d: "distinct (other_cores core aff)" by (simp add: other_cores_def distinct_cores_of)
  have "(\<lambda>w p' c. p' = p \<and> c \<in> set (other_cores core aff) \<and> True \<and> w = False)
      = (\<lambda>w p' c. \<not> w \<and> places p core aff w p' c)"
    using v by (auto simp: fun_eq_iff places_def set_other_cores set_cores_of valid_at_def)
  then show ?thesis
    using thread_queues.each_push [where W = "\<lambda>c. False" and P = "\<lambda>c. True", OF assms(1) d v] by simp
qed

lemma remove_suggested:
  assumes "pq_ok A q" and "core_ok core aff" and "0 \<le> p" and "p \<le> 64"
    and "\<And>p' c. c \<noteq> core \<Longrightarrow> t \<in> set (A False p' c) \<longleftrightarrow> places p core aff False p' c"
  shows "\<exists>q1. each_core (\<lambda>c. on False (Impl_Remove p c t)) (other_cores core aff) q = Some q1 \<and>
    pq_ok (removed (\<lambda>w p' c. \<not> w \<and> places p core aff w p' c) t A) q1"
proof (cases "p = 64")
  case True
  have "on False (Impl_Remove p c t) q = Some q" if "c \<in> set (other_cores core aff)" for c
    using that lowest_nothing(3) mask_cores [OF assms(2)] by (simp add: True set_other_cores)
  then have "each_core (\<lambda>c. on False (Impl_Remove p c t)) (other_cores core aff) q = Some q"
    by (rule each_core_nothing)
  moreover have "places p core aff = (\<lambda>w p' c. False)" by (rule no_places) (simp add: True)
  ultimately show ?thesis using assms(1) by (simp add: removed_def)
next
  case False
  have v: "t \<in> set (A False p c)" if "c \<in> set (other_cores core aff)" "True" for c
    using that(1) False mask_cores [OF assms(2)] assms(3-5)
    by (auto simp: set_other_cores set_cores_of valid_at_def places_def)
  have d: "distinct (other_cores core aff)" by (simp add: other_cores_def distinct_cores_of)
  have "(\<lambda>w p' c. p' = p \<and> c \<in> set (other_cores core aff) \<and> True \<and> w = False)
      = (\<lambda>w p' c. \<not> w \<and> places p core aff w p' c)"
    using False assms(3,4) mask_cores [OF assms(2)]
    by (auto simp: fun_eq_iff places_def set_other_cores set_cores_of valid_at_def)
  then show ?thesis
    using thread_queues.each_remove [where W = "\<lambda>c. False" and P = "\<lambda>c. True", OF assms(1) d v] by simp
qed

section \<open>Entering and leaving the queues\<close>

lemma push_at_loop:
  "PushBack_at p threads t q =
     Option.bind (if 0 \<le> m_core_id (threads t) then on True (Impl_PushBack p (m_core_id (threads t)) t) q else Some q)
       (each_core (\<lambda>c. on False (Impl_PushBack p c t))
         (other_cores (m_core_id (threads t)) (m_physical_affinity_mask (threads t))))"
  "PushFront_at p threads t q =
     Option.bind (if 0 \<le> m_core_id (threads t) then on True (Impl_PushFront p (m_core_id (threads t)) t) q else Some q)
       (each_core (\<lambda>c. on False (Impl_PushBack p c t))
         (other_cores (m_core_id (threads t)) (m_physical_affinity_mask (threads t))))"
  "Remove_at p threads t q =
     Option.bind (if 0 \<le> m_core_id (threads t) then on True (Impl_Remove p (m_core_id (threads t)) t) q else Some q)
       (each_core (\<lambda>c. on False (Impl_Remove p c t))
         (other_cores (m_core_id (threads t)) (m_physical_affinity_mask (threads t))))"
  unfolding PushBack_at_def PushFront_at_def Remove_at_def Let_def on_names other_cores_def
  by (auto simp: for_cores_list fun_eq_iff cong: bind_option_cong)

lemma scheduled_push:
  assumes "pq_ok A q" and "core_ok core aff" and "0 \<le> p" and "p \<le> 64" and "holds A t (\<lambda>w p c. False)"
  shows "\<exists>q1. (if 0 \<le> core then on True ((if to_front then Impl_PushFront else Impl_PushBack) p core t) q else Some q)
      = Some q1 \<and> pq_ok (queued to_front (\<lambda>w p' c. w \<and> places p core aff w p' c) t A) q1"
proof (cases "0 \<le> core \<and> p \<noteq> 64")
  case True
  then have va: "valid_at p core" using assms(2-4) by (simp add: valid_at_def core_ok_def)
  have "queued to_front (\<lambda>w p' c. w \<and> places p core aff w p' c) t A
      = upd A True p core (if to_front then t # A True p core else A True p core @ [t])"
    using va by (auto simp: queued_def places_def fun_eq_iff)
  then show ?thesis
    using thread_queues.push_back [OF assms(1) va holds_fresh [OF assms(5)], of True]
      thread_queues.push_front [OF assms(1) va holds_fresh [OF assms(5)], of True] True
    by (cases to_front) simp_all
next
  case False
  then have none: "queued to_front (\<lambda>w p' c. w \<and> places p core aff w p' c) t A = A"
    using assms(3,4) by (auto simp: queued_def places_def valid_at_def fun_eq_iff)
  have "(if 0 \<le> core then on True ((if to_front then Impl_PushFront else Impl_PushBack) p core t) q else Some q) = Some q"
    using False assms(2) lowest_nothing [of core True t q] by (cases to_front) (auto simp: core_ok_def)
  then show ?thesis using assms(1) none by simp
qed

lemma queued_split:
  "added (\<lambda>w p' c. \<not> w \<and> Q w p' c) t (queued f (\<lambda>w p' c. w \<and> Q w p' c) t A) = queued f Q t A"
  by (auto simp: added_def queued_def fun_eq_iff)

lemma push_at_ok:
  assumes "pq_ok A q" and "core_ok (m_core_id (threads t)) (m_physical_affinity_mask (threads t))"
    and "0 \<le> p" and "p \<le> 64" and "holds A t (\<lambda>w p c. False)"
  shows "\<exists>q1. (if to_front then PushFront_at p threads t q else PushBack_at p threads t q) = Some q1 \<and>
    pq_ok (queued to_front (places p (m_core_id (threads t)) (m_physical_affinity_mask (threads t))) t A) q1"
proof -
  let ?core = "m_core_id (threads t)" and ?aff = "m_physical_affinity_mask (threads t)"
  obtain q1 where q1: "(if 0 \<le> ?core then on True ((if to_front then Impl_PushFront else Impl_PushBack) p ?core t) q
      else Some q) = Some q1"
    "pq_ok (queued to_front (\<lambda>w p' c. w \<and> places p ?core ?aff w p' c) t A) q1" (is "pq_ok ?A1 q1")
    using scheduled_push [OF assms] by blast
  have "fresh ?A1 c t" if "c \<noteq> ?core" for c
    using assms(5) that by (auto simp: fresh_def queued_def places_def holds_def)
  from push_suggested [OF q1(2) assms(2-4) this] obtain q2 where q2:
    "each_core (\<lambda>c. on False (Impl_PushBack p c t)) (other_cores ?core ?aff) q1 = Some q2"
    "pq_ok (queued to_front (places p ?core ?aff) t A) q2"
    unfolding queued_split by blast
  have "(if to_front then PushFront_at p threads t q else PushBack_at p threads t q) = Some q2"
    unfolding push_at_loop using q1(1) q2(1)
    by (cases "0 \<le> ?core"; cases to_front) simp_all
  then show ?thesis using q2(2) by blast
qed

lemma scheduled_remove:
  assumes "pq_ok A q" and "core_ok core aff" and "0 \<le> p" and "p \<le> 64" and "holds A t (places p core aff)"
  shows "\<exists>q1. (if 0 \<le> core then on True (Impl_Remove p core t) q else Some q) = Some q1 \<and>
    pq_ok (removed (\<lambda>w p' c. w \<and> places p core aff w p' c) t A) q1"
proof (cases "0 \<le> core \<and> p \<noteq> 64")
  case True
  then have va: "valid_at p core" using assms(2-4) by (simp add: valid_at_def core_ok_def)
  then have "t \<in> set (A True p core)" using assms(5) by (simp add: holds_def places_def)
  moreover have "removed (\<lambda>w p' c. w \<and> places p core aff w p' c) t A
      = upd A True p core (remove1 t (A True p core))"
    using va by (auto simp: removed_def places_def fun_eq_iff)
  ultimately show ?thesis using thread_queues.remove [OF assms(1), of t True p core] True by simp
next
  case False
  then have none: "removed (\<lambda>w p' c. w \<and> places p core aff w p' c) t A = A"
    using assms(3,4) by (auto simp: removed_def places_def valid_at_def fun_eq_iff)
  have "(if 0 \<le> core then on True (Impl_Remove p core t) q else Some q) = Some q"
    using False assms(2) lowest_nothing(3) [of core True t q] by (auto simp: core_ok_def)
  then show ?thesis using assms(1) none by simp
qed

lemma removed_split:
  "removed (\<lambda>w p' c. \<not> w \<and> Q w p' c) t (removed (\<lambda>w p' c. w \<and> Q w p' c) t A) = removed Q t A"
  by (auto simp: removed_def fun_eq_iff)

lemma remove_at_ok:
  assumes "pq_ok A q" and "core_ok (m_core_id (threads t)) (m_physical_affinity_mask (threads t))"
    and "0 \<le> p" and "p \<le> 64"
    and "holds A t (places p (m_core_id (threads t)) (m_physical_affinity_mask (threads t)))"
  shows "\<exists>q1. Remove_at p threads t q = Some q1 \<and>
    pq_ok (removed (places p (m_core_id (threads t)) (m_physical_affinity_mask (threads t))) t A) q1"
proof -
  let ?core = "m_core_id (threads t)" and ?aff = "m_physical_affinity_mask (threads t)"
  obtain q1 where q1: "(if 0 \<le> ?core then on True (Impl_Remove p ?core t) q else Some q) = Some q1"
    "pq_ok (removed (\<lambda>w p' c. w \<and> places p ?core ?aff w p' c) t A) q1" (is "pq_ok ?A1 q1")
    using scheduled_remove [OF assms] by blast
  have "t \<in> set (?A1 False p' c) \<longleftrightarrow> places p ?core ?aff False p' c" if "c \<noteq> ?core" for p' c
    using assms(5) by (simp add: removed_def holds_def)
  from remove_suggested [OF q1(2) assms(2-4) this] obtain q2 where q2:
    "each_core (\<lambda>c. on False (Impl_Remove p c t)) (other_cores ?core ?aff) q1 = Some q2"
    "pq_ok (removed (places p ?core ?aff) t A) q2"
    unfolding removed_split by blast
  have "Remove_at p threads t q = Some q2" unfolding push_at_loop using q1(1) q2(1) by simp
  then show ?thesis using q2(2) by blast
qed

section \<open>A change of priority\<close>

lemma valid_priority: "IsValidPriority p \<longleftrightarrow> 0 \<le> p \<and> p \<le> 64"
  by (auto simp: IsValidPriority_def HighestThreadPriority_def LowestThreadPriority_def)

lemma ChangePriority_ok:
  assumes "pq_ok A q" and "\<not> IsDummyThread (threads t)"
    and "core_ok (m_core_id (threads t)) (m_physical_affinity_mask (threads t))"
    and "0 \<le> old" and "old \<le> 64" and "0 \<le> m_priority (threads t)" and "m_priority (threads t) \<le> 64"
    and "holds A t (places old (m_core_id (threads t)) (m_physical_affinity_mask (threads t)))"
  shows "\<exists>q1. ChangePriority old running threads t q = Some q1 \<and>
    pq_ok (queued running (places (m_priority (threads t)) (m_core_id (threads t)) (m_physical_affinity_mask (threads t))) t
      (removed (places old (m_core_id (threads t)) (m_physical_affinity_mask (threads t))) t A)) q1"
proof -
  obtain q1 where q1: "Remove_at old threads t q = Some q1"
    "pq_ok (removed (places old (m_core_id (threads t)) (m_physical_affinity_mask (threads t))) t A) q1"
    using remove_at_ok [where threads = threads, OF assms(1,3-5,8)] by blast
  from push_at_ok [where threads = threads, OF q1(2) assms(3,6,7) holds_removed [OF assms(1,8)], of running] obtain q2 where
    "(if running then PushFront_at (m_priority (threads t)) threads t q1
      else PushBack_at (m_priority (threads t)) threads t q1) = Some q2"
    "pq_ok (queued running (places (m_priority (threads t)) (m_core_id (threads t)) (m_physical_affinity_mask (threads t))) t
      (removed (places old (m_core_id (threads t)) (m_physical_affinity_mask (threads t))) t A)) q2" by blast
  then show ?thesis
    using assms(2,4-7) q1(1) by (cases running) (simp_all add: ChangePriority_def valid_priority Let_def)
qed

section \<open>A change of affinity\<close>

lemma GetAffinity_bit: "0 \<le> c \<Longrightarrow> c < 4 \<Longrightarrow> GetAffinity aff c \<longleftrightarrow> bit aff (nat c)"
proof -
  assume c: "0 \<le> c" "c < 4"
  have "aff AND push_bit (nat c) 1 = 0 \<longleftrightarrow> \<not> bit aff (nat c)" by (rule and_single_bit_0)
  then show ?thesis by (simp add: GetAffinity_def GetCoreBit_def)
qed

lemma four_cores: "c \<in> set [0, 1, 2, 3 :: int] \<longleftrightarrow> 0 \<le> c \<and> c < 4"
  by auto

text \<open>Every core of the mask is visited, the active one among them.\<close>

lemma affinity_places:
  assumes "core_ok core aff" and "0 \<le> p" and "p \<le> 63"
  shows "(\<lambda>w p' c. p' = p \<and> c \<in> set [0, 1, 2, 3] \<and> GetAffinity aff c \<and> w = (c = core)) = places p core aff"
proof (intro ext)
  fix w p' c
  have "(p' = p \<and> (0 \<le> c \<and> c < 4) \<and> GetAffinity aff c \<and> w = (c = core)) \<longleftrightarrow> places p core aff w p' c"
    using assms GetAffinity_bit [of c aff] by (auto simp: places_def valid_at_def core_ok_def)
  then show "(p' = p \<and> c \<in> set [0, 1, 2, 3] \<and> GetAffinity aff c \<and> w = (c = core)) = places p core aff w p' c"
    by (simp only: four_cores)
qed

lemma on_core: "(if c = core then on_scheduled f q else on_suggested f q) = on (c = core) f q"
  by (simp add: on_def)

lemma ChangeAffinityMask_ok:
  assumes "pq_ok A q" and "\<not> IsDummyThread (threads t)"
    and "core_ok prev_core prev_aff" and "core_ok (m_core_id (threads t)) (m_physical_affinity_mask (threads t))"
    and "0 \<le> m_priority (threads t)" and "m_priority (threads t) \<le> 64"
    and "holds A t (places (m_priority (threads t)) prev_core prev_aff)"
  shows "\<exists>q1. ChangeAffinityMask prev_core prev_aff threads t q = Some q1 \<and>
    pq_ok (queued False (places (m_priority (threads t)) (m_core_id (threads t)) (m_physical_affinity_mask (threads t))) t
      (removed (places (m_priority (threads t)) prev_core prev_aff) t A)) q1"
proof -
  let ?p = "m_priority (threads t)" and ?core = "m_core_id (threads t)" and ?aff = "m_physical_affinity_mask (threads t)"
  let ?rem = "\<lambda>c q. if GetAffinity prev_aff c then on (c = prev_core) (Impl_Remove ?p c t) q else Some q"
    and ?add = "\<lambda>c q. if GetAffinity ?aff c then on (c = ?core) (Impl_PushBack ?p c t) q else Some q"
  have def: "ChangeAffinityMask prev_core prev_aff threads t q
      = Option.bind (each_core ?rem [0, 1, 2, 3] q) (each_core ?add [0, 1, 2, 3])"
    using assms(2) unfolding ChangeAffinityMask_def Let_def on_core by (simp only: if_False simp_thms)
  show ?thesis
  proof (cases "?p = 64")
    case True
    have "?rem c q = Some q" "?add c q = Some q" if "c \<in> set [0, 1, 2, 3]" for c
      using that lowest_nothing(1,3) [of c] unfolding four_cores True by simp_all
    then have "each_core ?rem [0, 1, 2, 3] q = Some q" "each_core ?add [0, 1, 2, 3] q = Some q"
      by (intro each_core_nothing; blast)+
    moreover have "places ?p core aff = (\<lambda>w p' c. False)" for core aff by (rule no_places) (simp add: True)
    ultimately show ?thesis using assms(1) by (simp add: def queued_def removed_def del: each_core.simps)
  next
    case False
    then have p: "0 \<le> ?p" "?p \<le> 63" using assms(5,6) by simp_all
    note rem_places = affinity_places [OF assms(3) p] and add_places = affinity_places [OF assms(4) p]
    have d: "distinct [0, 1, 2, 3 :: int]" by simp
    have inq: "t \<in> set (A (c = prev_core) ?p c)" if "c \<in> set [0, 1, 2, 3]" "GetAffinity prev_aff c" for c
    proof -
      have "places ?p prev_core prev_aff (c = prev_core) ?p c"
        using that unfolding rem_places [symmetric] by simp
      then show ?thesis using assms(7) by (simp add: holds_def)
    qed
    from thread_queues.each_remove [where W = "\<lambda>c. c = prev_core" and P = "GetAffinity prev_aff", OF assms(1) d inq]
    obtain q1 where q1: "each_core ?rem [0, 1, 2, 3] q = Some q1"
      "pq_ok (removed (places ?p prev_core prev_aff) t A) q1" (is "pq_ok ?A1 q1")
      unfolding rem_places by blast
    have v: "valid_at ?p c \<and> fresh ?A1 c t" if "c \<in> set [0, 1, 2, 3]" "GetAffinity ?aff c" for c
      using that(1) p holds_fresh [OF holds_removed [OF assms(1,7)]] unfolding four_cores by (simp add: valid_at_def)
    from thread_queues.each_push [where W = "\<lambda>c. c = ?core" and P = "GetAffinity ?aff", OF q1(2) d v]
    obtain q2 where q2: "each_core ?add [0, 1, 2, 3] q1 = Some q2"
      "pq_ok (added (places ?p ?core ?aff) t ?A1) q2"
      unfolding add_places by blast
    then show ?thesis using q1(1) by (simp add: def queued_back del: each_core.simps)
  qed
qed

section \<open>A change of core\<close>

definition moved :: "bool \<Rightarrow> int \<Rightarrow> int \<Rightarrow> int \<Rightarrow> nat \<Rightarrow> Lists \<Rightarrow> Lists" where
  "moved to_front p prev new t A = (\<lambda>w p' c.
     if \<not> valid_at p c \<or> p' \<noteq> p \<or> prev = new then A w p' c
     else if w then (if c = prev then remove1 t (A w p c)
                     else if c = new then (if to_front then t # A w p c else A w p c @ [t]) else A w p c)
     else (if c = new then remove1 t (A w p c) else if c = prev then A w p c @ [t] else A w p c))"

lemma core_valid: "core_ok core aff \<Longrightarrow> 0 \<le> core \<Longrightarrow> 0 \<le> p \<Longrightarrow> p \<le> 63 \<Longrightarrow> valid_at p core"
  by (simp add: core_ok_def valid_at_def)

lemma ChangeCore_ok:
  assumes "pq_ok A q" and "\<not> IsDummyThread (threads t)"
    and "core_ok prev (m_physical_affinity_mask (threads t))"
    and "core_ok (m_core_id (threads t)) (m_physical_affinity_mask (threads t))"
    and p: "0 \<le> m_priority (threads t)" "m_priority (threads t) \<le> 63"
    and "holds A t (places (m_priority (threads t)) prev (m_physical_affinity_mask (threads t)))"
  shows "\<exists>q1. ChangeCore prev to_front threads t q = Some q1 \<and>
    pq_ok (moved to_front (m_priority (threads t)) prev (m_core_id (threads t)) t A) q1"
proof (cases "prev = m_core_id (threads t)")
  case True
  then have "moved to_front (m_priority (threads t)) prev (m_core_id (threads t)) t A = A"
    by (simp add: moved_def fun_eq_iff)
  then show ?thesis using assms(1,2) True by (simp add: ChangeCore_def Let_def)
next
  case False
  let ?p = "m_priority (threads t)" and ?new = "m_core_id (threads t)" and ?aff = "m_physical_affinity_mask (threads t)"
  let ?A1 = "if 0 \<le> prev then upd A True ?p prev (remove1 t (A True ?p prev)) else A"
  let ?A2 = "if 0 \<le> ?new then upd ?A1 False ?p ?new (remove1 t (A False ?p ?new)) else ?A1"
  let ?A3 = "if 0 \<le> ?new then upd ?A2 True ?p ?new (if to_front then t # A True ?p ?new else A True ?p ?new @ [t]) else ?A2"
  let ?A4 = "if 0 \<le> prev then upd ?A3 False ?p prev (A False ?p prev @ [t]) else ?A3"
  have dist: "distinct (A w p' c)" for w p' c by (rule pq_ok_distinct [OF assms(1)])
  have mem: "t \<in> set (A w p' c) \<longleftrightarrow> places ?p prev ?aff w p' c" for w p' c using assms(7) by (simp add: holds_def)
  have vprev: "0 \<le> prev \<Longrightarrow> valid_at ?p prev" by (rule core_valid [OF assms(3) _ p])
  have vnew: "0 \<le> ?new \<Longrightarrow> valid_at ?p ?new" by (rule core_valid [OF assms(4) _ p])
  have bnew: "0 \<le> ?new \<Longrightarrow> bit ?aff (nat ?new)" using assms(4) by (simp add: core_ok_def)
  have s1: "\<exists>q1. (if 0 \<le> prev then on True (Impl_Remove ?p prev t) q else Some q) = Some q1 \<and> pq_ok ?A1 q1"
    using thread_queues.remove [where A = A and w = True and p = ?p and c = prev and t = t, OF assms(1)] mem [of True ?p prev] vprev assms(1)
    by (auto simp: places_def)
  then obtain q1 where q1: "(if 0 \<le> prev then on True (Impl_Remove ?p prev t) q else Some q) = Some q1" "pq_ok ?A1 q1"
    by blast
  have in1: "0 \<le> ?new \<Longrightarrow> t \<in> set (?A1 False ?p ?new)"
    using mem [of False ?p ?new] vnew bnew False by (auto simp: places_def)
  have s2: "\<exists>q2. (if 0 \<le> ?new then on False (Impl_Remove ?p ?new t) q1 else Some q1) = Some q2 \<and> pq_ok ?A2 q2"
    using thread_queues.remove [where A = ?A1 and w = False and p = ?p and c = ?new and t = t, OF q1(2) in1] q1(2) by auto
  then obtain q2 where q2: "(if 0 \<le> ?new then on False (Impl_Remove ?p ?new t) q1 else Some q1) = Some q2" "pq_ok ?A2 q2"
    by blast
  have gone: "fresh ?A2 ?new t" if "0 \<le> ?new"
    using that mem dist False by (auto simp: fresh_def places_def)
  have s3: "\<exists>q3. (if 0 \<le> ?new then on True ((if to_front then Impl_PushFront else Impl_PushBack) ?p ?new t) q2 else Some q2)
      = Some q3 \<and> pq_ok ?A3 q3"
    using thread_queues.push_back [where A = ?A2 and w = True and p = ?p and c = ?new and t = t, OF q2(2) vnew gone]
      thread_queues.push_front [where A = ?A2 and w = True and p = ?p and c = ?new and t = t, OF q2(2) vnew gone]
      q2(2) False by (cases to_front) auto
  then obtain q3 where q3:
    "(if 0 \<le> ?new then on True ((if to_front then Impl_PushFront else Impl_PushBack) ?p ?new t) q2 else Some q2) = Some q3"
    "pq_ok ?A3 q3" by blast
  have gone': "fresh ?A3 prev t" if "0 \<le> prev"
    using that mem dist False by (auto simp: fresh_def places_def)
  have s4: "\<exists>q4. (if 0 \<le> prev then on False (Impl_PushBack ?p prev t) q3 else Some q3) = Some q4 \<and> pq_ok ?A4 q4"
    using thread_queues.push_back [where A = ?A3 and w = False and p = ?p and c = prev and t = t, OF q3(2) vprev gone'] q3(2) False by auto
  then obtain q4 where q4: "(if 0 \<le> prev then on False (Impl_PushBack ?p prev t) q3 else Some q3) = Some q4" "pq_ok ?A4 q4"
    by blast
  have m: "?A4 = moved to_front ?p prev ?new t A"
    using False vprev vnew by (auto simp: moved_def fun_eq_iff valid_at_def)
  have "ChangeCore prev to_front threads t q = Some q4"
    using q1(1) q2(1) q3(1) q4(1) assms(2) False unfolding ChangeCore_def Let_def on_names
    by (cases "0 \<le> prev"; cases "0 \<le> ?new") simp_all
  moreover have "pq_ok (moved to_front ?p prev ?new t A) q4" using q4(2) unfolding m .
  ultimately show ?thesis by blast
qed

end
