(* ===== verification/Scheduler.thy ===== *)
theory Scheduler
  imports Priority_Queue
begin

text \<open>
  The scheduler's decisions, \<^verbatim>\<open>nxemu-os/core/hle/kernel/k_scheduler.cpp\<close>: what it does when a thread's
  state, priority or affinity changes, the yields, the rotation of preemption, and the update that gives
  every core its thread and moves threads to idle cores; with the parts of \<^verbatim>\<open>k_thread.cpp\<close> and
  \<^verbatim>\<open>k_process.cpp\<close> that call it.  All of it runs under the scheduler lock, so one operation is one step.
  The switch of contexts between host fibers is not modelled.  \<open>None\<close> is a null pointer followed, an array
  index out of range or a shift by a negative number.
\<close>

section \<open>State\<close>

definition Runnable :: u16 where
  "Runnable = 2"

definition ThreadState_Mask :: u16 where
  "ThreadState_Mask = 0xF"

definition HighestCoreMigrationAllowedPriority :: int where
  "HighestCoreMigrationAllowedPriority = 2"

record KProcess =
  m_schedule_count :: int
  m_pinned_threads :: "int \<Rightarrow> nat option"
  Is64Bit :: bool
  m_running_threads :: "int \<Rightarrow> nat option"
  m_running_thread_idle_counts :: "int \<Rightarrow> u64"
  m_running_thread_switch_counts :: "int \<Rightarrow> u64"

record SchedulingState =
  needs_scheduling :: bool
  interrupt_task_runnable :: bool
  should_count_idle :: bool
  idle_count :: u64
  highest_priority_thread :: "nat option"
  prev_thread :: "nat option"

record Kernel =
  threads :: Threads
  processes :: "nat \<Rightarrow> KProcess"
  schedulers :: "int \<Rightarrow> SchedulingState"
  m_priority_queue :: KPriorityQueue
  m_scheduler_update_needed :: bool
  m_woken_dummy_threads :: "nat set"
  CpuHleSynchronizationEnabled :: bool
  cpu_runnable_mask :: u32

definition update_thread :: "nat \<Rightarrow> (KThread \<Rightarrow> KThread) \<Rightarrow> Kernel \<Rightarrow> Kernel" where
  "update_thread t f k = k\<lparr>threads := (threads k)(t := f (threads k t))\<rparr>"

definition update_process :: "nat \<Rightarrow> (KProcess \<Rightarrow> KProcess) \<Rightarrow> Kernel \<Rightarrow> Kernel" where
  "update_process p f k = k\<lparr>processes := (processes k)(p := f (processes k p))\<rparr>"

definition update_scheduler :: "int \<Rightarrow> (SchedulingState \<Rightarrow> SchedulingState) \<Rightarrow> Kernel \<Rightarrow> Kernel" where
  "update_scheduler c f k = k\<lparr>schedulers := (schedulers k)(c := f (schedulers k c))\<rparr>"

text \<open>An operation of the priority queue, which reads the threads.\<close>

definition on_queue :: "(Threads \<Rightarrow> KPriorityQueue \<Rightarrow> KPriorityQueue option) \<Rightarrow> Kernel \<Rightarrow> Kernel option" where
  "on_queue f k = map_option (\<lambda>q. k\<lparr>m_priority_queue := q\<rparr>) (f (threads k) (m_priority_queue k))"

definition IncrementScheduledCount :: "nat \<Rightarrow> Kernel \<Rightarrow> Kernel" where
  "IncrementScheduledCount t k =
     (case m_parent (threads k t) of
        None \<Rightarrow> k
      | Some p \<Rightarrow> update_process p (\<lambda>process. process\<lparr>m_schedule_count := m_schedule_count process + 1\<rparr>) k)"

definition SetSchedulerUpdateNeeded :: "Kernel \<Rightarrow> Kernel" where
  "SetSchedulerUpdateNeeded k = k\<lparr>m_scheduler_update_needed := True\<rparr>"

definition SetActiveCore :: "nat \<Rightarrow> int \<Rightarrow> Kernel \<Rightarrow> Kernel" where
  "SetActiveCore t core = update_thread t (\<lambda>thread. thread\<lparr>m_core_id := core\<rparr>)"

definition SetInterruptTaskRunnable :: "int \<Rightarrow> Kernel \<Rightarrow> Kernel" where
  "SetInterruptTaskRunnable core =
     update_scheduler core (\<lambda>s. s\<lparr>interrupt_task_runnable := True, needs_scheduling := True\<rparr>)"

definition ClearPreviousThread :: "nat \<Rightarrow> Kernel \<Rightarrow> Kernel" where
  "ClearPreviousThread t k =
     k\<lparr>schedulers := (\<lambda>c. let s = schedulers k c
                           in if IsValidCore c \<and> prev_thread s = Some t then s\<lparr>prev_thread := None\<rparr> else s)\<rparr>"

section \<open>Changes of a thread\<close>

definition OnThreadStateChanged :: "nat \<Rightarrow> u16 \<Rightarrow> Kernel \<Rightarrow> Kernel option" where
  "OnThreadStateChanged t old_state k =
     (let cur_state = m_thread_state (threads k t)
      in if cur_state = old_state then Some k
         else if old_state = Runnable
         then map_option
                (\<lambda>k1. let k2 = SetSchedulerUpdateNeeded (IncrementScheduledCount t k1)
                      in if IsDummyThread (threads k2 t)
                         then k2\<lparr>m_woken_dummy_threads := m_woken_dummy_threads k2 - {t}\<rparr> else k2)
                (on_queue (\<lambda>ts. Queue_Remove ts t) k)
         else if cur_state = Runnable
         then map_option
                (\<lambda>k1. let k2 = SetSchedulerUpdateNeeded (IncrementScheduledCount t k1)
                      in if IsDummyThread (threads k2 t)
                         then k2\<lparr>m_woken_dummy_threads := insert t (m_woken_dummy_threads k2)\<rparr> else k2)
                (on_queue (\<lambda>ts. PushBack ts t) k)
         else Some k)"

definition OnThreadPriorityChanged :: "nat \<Rightarrow> nat \<Rightarrow> int \<Rightarrow> Kernel \<Rightarrow> Kernel option" where
  "OnThreadPriorityChanged cur t old_priority k =
     (if m_thread_state (threads k t) = Runnable
      then map_option (\<lambda>k1. SetSchedulerUpdateNeeded (IncrementScheduledCount t k1))
             (on_queue (\<lambda>ts. ChangePriority old_priority (t = cur) ts t) k)
      else Some k)"

definition OnThreadAffinityMaskChanged :: "nat \<Rightarrow> u64 \<Rightarrow> int \<Rightarrow> Kernel \<Rightarrow> Kernel option" where
  "OnThreadAffinityMaskChanged t old_affinity old_core k =
     (if m_thread_state (threads k t) = Runnable
      then map_option (\<lambda>k1. SetSchedulerUpdateNeeded (IncrementScheduledCount t k1))
             (on_queue (\<lambda>ts. ChangeAffinityMask old_core old_affinity ts t) k)
      else Some k)"

section \<open>Looking through suggestions\<close>

text \<open>
  A loop over the threads of a queue.  The body goes on with a new accumulator or breaks off with a
  result; it does not change the queues, migrations come after the break.
\<close>

partial_function (option) walk ::
    "(nat \<Rightarrow> 'a \<Rightarrow> ('a + 'r) option) \<Rightarrow> (nat \<Rightarrow> nat option option) \<Rightarrow> nat option \<Rightarrow> 'a \<Rightarrow> ('a + 'r) option" where
  "walk body nxt suggested acc =
     (case suggested of
        None \<Rightarrow> Some (Inl acc)
      | Some t \<Rightarrow> Option.bind (body t acc) (\<lambda>r. case r of
            Inl acc1 \<Rightarrow> Option.bind (nxt t) (\<lambda>n. walk body nxt n acc1)
          | Inr x \<Rightarrow> Some (Inr x)))"

definition scheduled_front :: "int \<Rightarrow> Kernel \<Rightarrow> nat option option" where
  "scheduled_front core k = GetScheduledFront core (m_priority_queue k)"

definition scheduled_next :: "int \<Rightarrow> nat \<Rightarrow> Kernel \<Rightarrow> nat option option" where
  "scheduled_next core t k = GetScheduledNext (threads k) core t (m_priority_queue k)"

definition suggested_next :: "int \<Rightarrow> nat \<Rightarrow> Kernel \<Rightarrow> nat option option" where
  "suggested_next core t k = GetSuggestedNext (threads k) core t (m_priority_queue k)"

text \<open>The front of the queue of the core a suggested thread is on, if it is on one.\<close>

definition front_on_its_core :: "nat \<Rightarrow> Kernel \<Rightarrow> nat option option" where
  "front_on_its_core t k =
     (let suggested_core = m_core_id (threads k t)
      in if suggested_core \<ge> 0 then scheduled_front suggested_core k else Some None)"

definition migration_allowed :: "nat option \<Rightarrow> Kernel \<Rightarrow> bool" where
  "migration_allowed top_thread k \<longleftrightarrow>
     (case top_thread of None \<Rightarrow> True | Some u \<Rightarrow> m_priority (threads k u) \<ge> HighestCoreMigrationAllowedPriority)"

definition migrate :: "bool \<Rightarrow> int \<Rightarrow> int \<Rightarrow> nat \<Rightarrow> Kernel \<Rightarrow> Kernel option" where
  "migrate to_front suggested_core core t k =
     on_queue (\<lambda>ts. ChangeCore suggested_core to_front ts t) (SetActiveCore t core k)"

section \<open>The threads of the cores\<close>

definition UpdateHighestPriorityThread :: "int \<Rightarrow> int \<Rightarrow> nat option \<Rightarrow> Kernel \<Rightarrow> u64 \<times> Kernel" where
  "UpdateHighestPriorityThread core_id ticks highest_thread k =
     (let prev_highest = highest_priority_thread (schedulers k core_id)
      in if prev_highest = highest_thread then (0, k)
         else
           let k1 = (case prev_highest of
                       None \<Rightarrow> k
                     | Some t \<Rightarrow> update_thread t (\<lambda>thread. thread\<lparr>m_last_scheduled_tick := ticks\<rparr>)
                                  (IncrementScheduledCount t k));
               k2 = (if should_count_idle (schedulers k1 core_id)
                     then case highest_thread of
                            None \<Rightarrow> update_scheduler core_id (\<lambda>s. s\<lparr>idle_count := idle_count s + 1\<rparr>) k1
                          | Some t \<Rightarrow>
                              (case m_parent (threads k1 t) of
                                 None \<Rightarrow> k1
                               | Some p \<Rightarrow> update_process p
                                   (\<lambda>process. process\<lparr>m_running_threads := (m_running_threads process)(core_id := Some t),
                                      m_running_thread_idle_counts := (m_running_thread_idle_counts process)
                                          (core_id := idle_count (schedulers k1 core_id)),
                                      m_running_thread_switch_counts := (m_running_thread_switch_counts process)
                                          (core_id := 0)\<rparr>) k1)
                     else k1)
           in (push_bit (nat core_id) 1,
               update_scheduler core_id (\<lambda>s. s\<lparr>highest_priority_thread := highest_thread, needs_scheduling := True\<rparr>) k2))"

text \<open>The state of the update: the kernel, the cores that need scheduling and their threads.\<close>

type_synonym UpdateState = "Kernel \<times> u64 \<times> (int \<Rightarrow> nat option)"

definition set_top :: "int \<Rightarrow> int \<Rightarrow> nat option \<Rightarrow> UpdateState \<Rightarrow> UpdateState" where
  "set_top core_id ticks top_thread = (\<lambda>(k, needing, top_threads).
     let (m, k1) = UpdateHighestPriorityThread core_id ticks top_thread k
     in (k1, needing OR m, top_threads(core_id := top_thread)))"

text \<open>The first thread of a core, or a thread that its process has pinned there.\<close>

definition top_thread_of :: "int \<Rightarrow> nat \<Rightarrow> Kernel \<Rightarrow> nat option" where
  "top_thread_of core_id top_thread k =
     (case m_parent (threads k top_thread) of
        None \<Rightarrow> Some top_thread
      | Some parent \<Rightarrow>
          (case m_pinned_threads (processes k parent) core_id of
             None \<Rightarrow> Some top_thread
           | Some pinned \<Rightarrow>
               if pinned \<noteq> top_thread \<and> m_num_kernel_waiters (threads k top_thread) = 0
               then if m_thread_state (threads k pinned) = Runnable then Some pinned else None
               else Some top_thread))"

fun choose_tops :: "int \<Rightarrow> int list \<Rightarrow> u64 \<Rightarrow> UpdateState \<Rightarrow> (u64 \<times> UpdateState) option" where
  "choose_tops ticks [] idle_cores st = Some (idle_cores, st)"
| "choose_tops ticks (core_id # cores) idle_cores st =
     (case scheduled_front core_id (fst st) of
        None \<Rightarrow> None
      | Some None \<Rightarrow>
          choose_tops ticks cores (idle_cores OR push_bit (nat core_id) 1) (set_top core_id ticks None st)
      | Some (Some top_thread) \<Rightarrow>
          choose_tops ticks cores idle_cores (set_top core_id ticks (top_thread_of core_id top_thread (fst st)) st))"

text \<open>A suggestion that is not the thread of its own core can be taken; the cores of the others are kept.\<close>

definition suggestion_step ::
    "Kernel \<Rightarrow> (int \<Rightarrow> nat option) \<Rightarrow> nat \<Rightarrow> int list \<Rightarrow> (int list + nat option) option" where
  "suggestion_step k top_threads suggested candidates =
     (let suggested_core = m_core_id (threads k suggested)
      in if suggested_core \<ge> NUM_CPU_CORES then None
         else
           let top_thread = (if suggested_core \<ge> 0 then top_threads suggested_core else None)
           in if top_thread \<noteq> Some suggested
              then Some (Inr (if migration_allowed top_thread k then Some suggested else None))
              else if length candidates < nat NUM_CPU_CORES then Some (Inl (candidates @ [suggested_core]))
              else None)"

definition take_thread :: "int \<Rightarrow> int \<Rightarrow> int \<Rightarrow> nat \<Rightarrow> UpdateState \<Rightarrow> UpdateState option" where
  "take_thread core_id ticks prev_core t = (\<lambda>(k, needing, top_threads).
     map_option (\<lambda>k1. set_top core_id ticks (Some t) (k1, needing, top_threads)) (migrate False prev_core core_id t k))"

text \<open>Otherwise the thread of a core that has another one to run is taken.\<close>

fun try_candidates :: "int \<Rightarrow> int \<Rightarrow> int list \<Rightarrow> UpdateState \<Rightarrow> UpdateState option" where
  "try_candidates core_id ticks [] st = Some st"
| "try_candidates core_id ticks (candidate_core # candidates) st =
     (case snd (snd st) candidate_core of
        None \<Rightarrow> None
      | Some suggested \<Rightarrow>
          (case scheduled_next candidate_core suggested (fst st) of
             None \<Rightarrow> None
           | Some None \<Rightarrow> try_candidates core_id ticks candidates st
           | Some (Some n) \<Rightarrow> take_thread core_id ticks candidate_core suggested (set_top candidate_core ticks (Some n) st)))"

definition fill_idle_core :: "int \<Rightarrow> int \<Rightarrow> UpdateState \<Rightarrow> UpdateState option" where
  "fill_idle_core ticks core_id st =
     (let (k, needing, top_threads) = st
      in Option.bind (GetSuggestedFront core_id (m_priority_queue k)) (\<lambda>front.
           Option.bind (walk (suggestion_step k top_threads) (\<lambda>t. suggested_next core_id t k) front []) (\<lambda>r. case r of
               Inr (Some t) \<Rightarrow> take_thread core_id ticks (m_core_id (threads k t)) t st
             | Inr None \<Rightarrow> Some st
             | Inl candidates \<Rightarrow> try_candidates core_id ticks candidates st)))"

definition runnable_mask :: "(int \<Rightarrow> nat option) \<Rightarrow> Kernel \<Rightarrow> u32" where
  "runnable_mask top_threads k =
     foldl (\<lambda>m core. case top_threads core of
         None \<Rightarrow> m
       | Some t \<Rightarrow> (case m_parent (threads k t) of
           None \<Rightarrow> m
         | Some p \<Rightarrow> if Is64Bit (processes k p) then m OR push_bit (nat core) 1 else m)) 0 [0, 1, 2, 3]"

definition wake_dummy_threads :: "nat \<Rightarrow> Kernel \<Rightarrow> Kernel" where
  "wake_dummy_threads cur k =
     (let woken = m_woken_dummy_threads k;
          k1 = k\<lparr>threads := (\<lambda>t. if t \<in> woken then (threads k t)\<lparr>m_dummy_thread_runnable := True\<rparr> else threads k t),
                 m_woken_dummy_threads := {}\<rparr>
      in if IsDummyThread (threads k1 cur) \<and> m_thread_state (threads k1 cur) AND ThreadState_Mask \<noteq> Runnable
         then update_thread cur (\<lambda>thread. thread\<lparr>m_dummy_thread_runnable := False\<rparr>) k1 else k1)"

definition UpdateHighestPriorityThreadsImpl :: "nat \<Rightarrow> int \<Rightarrow> Kernel \<Rightarrow> (u64 \<times> Kernel) option" where
  "UpdateHighestPriorityThreadsImpl cur ticks k =
     Option.bind (choose_tops ticks [0, 1, 2, 3] 0 (k\<lparr>m_scheduler_update_needed := False\<rparr>, 0, \<lambda>core. None))
       (\<lambda>(idle_cores, st).
         map_option
           (\<lambda>(k1, needing, top_threads).
             let k2 = (if CpuHleSynchronizationEnabled k1
                       then k1\<lparr>cpu_runnable_mask := runnable_mask top_threads k1\<rparr> else k1)
             in (needing, wake_dummy_threads cur k2))
           (for_cores (fill_idle_core ticks) idle_cores st))"

definition UpdateHighestPriorityThreads :: "nat \<Rightarrow> int \<Rightarrow> Kernel \<Rightarrow> (u64 \<times> Kernel) option" where
  "UpdateHighestPriorityThreads cur ticks k =
     (if m_scheduler_update_needed k then UpdateHighestPriorityThreadsImpl cur ticks k else Some (0, k))"

section \<open>Rotation and yields\<close>

text \<open>The loop of the rotation over suggestions of the same priority; the first thread of the queue was moved back.\<close>

definition rotate_step ::
    "Kernel \<Rightarrow> nat option \<Rightarrow> nat option \<Rightarrow> nat \<Rightarrow> unit \<Rightarrow> (unit + nat option) option" where
  "rotate_step k top_thread next_thread suggested u =
     (case front_on_its_core suggested k of
        None \<Rightarrow> None
      | Some top_on_suggested_core \<Rightarrow>
          if top_on_suggested_core \<noteq> Some suggested
          then if top_thread \<noteq> next_thread \<and> (case next_thread of None \<Rightarrow> False | Some n \<Rightarrow>
                    m_last_scheduled_tick (threads k n) < m_last_scheduled_tick (threads k suggested))
               then Some (Inr None)
               else if migration_allowed top_on_suggested_core k then Some (Inr (Some suggested))
               else Some (Inl ())
          else Some (Inl ()))"

definition migrate_found :: "int \<Rightarrow> (unit + nat option) \<Rightarrow> Kernel \<Rightarrow> Kernel option" where
  "migrate_found core_id found k =
     (case found of
        Inr (Some t) \<Rightarrow> map_option (IncrementScheduledCount t) (migrate True (m_core_id (threads k t)) core_id t k)
      | _ \<Rightarrow> Some k)"

text \<open>The loop over suggestions of a higher priority than the best thread.\<close>

definition better_step :: "Kernel \<Rightarrow> nat \<Rightarrow> nat \<Rightarrow> unit \<Rightarrow> (unit + nat option) option" where
  "better_step k best_thread suggested u =
     (if m_priority (threads k suggested) \<ge> m_priority (threads k best_thread) then Some (Inr None)
      else case front_on_its_core suggested k of
             None \<Rightarrow> None
           | Some top_on_suggested_core \<Rightarrow>
               if top_on_suggested_core \<noteq> Some suggested \<and> migration_allowed top_on_suggested_core k
               then Some (Inr (Some suggested)) else Some (Inl ()))"

definition rotate_front :: "int \<Rightarrow> int \<Rightarrow> Kernel \<Rightarrow> (nat option \<times> nat option \<times> Kernel) option" where
  "rotate_front core_id priority k =
     (case GetScheduledFront_at core_id priority (m_priority_queue k) of
        None \<Rightarrow> None
      | Some None \<Rightarrow> Some (None, None, k)
      | Some (Some t) \<Rightarrow>
          (case MoveToScheduledBack (threads k) t (m_priority_queue k) of
             None \<Rightarrow> None
           | Some (next_thread, q) \<Rightarrow>
               let k1 = k\<lparr>m_priority_queue := q\<rparr>
               in if next_thread = Some t then Some (Some t, next_thread, k1)
                  else case next_thread of
                         None \<Rightarrow> None
                       | Some n \<Rightarrow> Some (Some t, next_thread, IncrementScheduledCount n (IncrementScheduledCount t k1))))"

definition rotate_better :: "nat \<Rightarrow> int \<Rightarrow> int \<Rightarrow> Kernel \<Rightarrow> Kernel option" where
  "rotate_better cur core_id priority k =
     Option.bind (scheduled_front core_id k) (\<lambda>front.
       Option.bind (if front = Some cur then scheduled_next core_id cur k else Some front) (\<lambda>best. case best of
           None \<Rightarrow> Some k
         | Some best_thread \<Rightarrow>
             if m_priority (threads k best_thread) \<ge> priority
             then Option.bind (GetSuggestedFront core_id (m_priority_queue k)) (\<lambda>suggested.
                    Option.bind (walk (better_step k best_thread) (\<lambda>t. suggested_next core_id t k) suggested ())
                      (\<lambda>found. migrate_found core_id found k))
             else Some k))"

definition RotateScheduledQueue :: "nat \<Rightarrow> int \<Rightarrow> int \<Rightarrow> Kernel \<Rightarrow> Kernel option" where
  "RotateScheduledQueue cur core_id priority k =
     Option.bind (rotate_front core_id priority k) (\<lambda>(top_thread, next_thread, k1).
       Option.bind (GetSuggestedFront_at core_id priority (m_priority_queue k1)) (\<lambda>suggested.
         Option.bind (walk (rotate_step k1 top_thread next_thread)
                        (\<lambda>t. GetSamePriorityNext core_id t (m_priority_queue k1)) suggested ()) (\<lambda>found.
           Option.bind (migrate_found core_id found k1) (\<lambda>k2.
             map_option SetSchedulerUpdateNeeded (rotate_better cur core_id priority k2)))))"

text \<open>The preemption every 10 ms.\<close>

definition preemption_priorities :: "int list" where
  "preemption_priorities = [59, 59, 59, 63]"

fun preempt_cores :: "nat \<Rightarrow> (int \<times> int) list \<Rightarrow> Kernel \<Rightarrow> Kernel option" where
  "preempt_cores cur [] k = Some k"
| "preempt_cores cur ((core_id, priority) # cores) k =
     Option.bind (RotateScheduledQueue cur core_id priority k) (preempt_cores cur cores)"

definition PreemptThreads :: "nat \<Rightarrow> Kernel \<Rightarrow> Kernel option" where
  "PreemptThreads cur = preempt_cores cur (zip [0, 1, 2, 3] preemption_priorities)"

definition SetYieldScheduleCount :: "nat \<Rightarrow> nat \<Rightarrow> Kernel \<Rightarrow> Kernel" where
  "SetYieldScheduleCount t p k =
     update_thread t (\<lambda>thread. thread\<lparr>yield_schedule_count := m_schedule_count (processes k p)\<rparr>) k"

text \<open>A yield does nothing if the process was not scheduled since the thread's last one.\<close>

definition yields :: "nat \<Rightarrow> (nat \<Rightarrow> Kernel \<Rightarrow> Kernel option) \<Rightarrow> Kernel \<Rightarrow> Kernel option" where
  "yields cur body k =
     (case m_parent (threads k cur) of
        None \<Rightarrow> None
      | Some p \<Rightarrow>
          if yield_schedule_count (threads k cur) = m_schedule_count (processes k p) then Some k
          else if m_thread_state (threads k cur) = Runnable then body p k else Some k)"

definition YieldWithoutCoreMigration :: "nat \<Rightarrow> Kernel \<Rightarrow> Kernel option" where
  "YieldWithoutCoreMigration cur = yields cur (\<lambda>p k.
     map_option
       (\<lambda>(next_thread, q).
         let k1 = IncrementScheduledCount cur (k\<lparr>m_priority_queue := q\<rparr>)
         in if next_thread \<noteq> Some cur then SetSchedulerUpdateNeeded k1 else SetYieldScheduleCount cur p k1)
       (MoveToScheduledBack (threads k) cur (m_priority_queue k)))"

text \<open>The accumulator says whether to look again at a later yield.\<close>

definition yield_step ::
    "Kernel \<Rightarrow> nat \<Rightarrow> nat option \<Rightarrow> nat \<Rightarrow> bool \<Rightarrow> (bool + bool \<times> nat option) option" where
  "yield_step k cur next_thread suggested recheck =
     (let suggested_core = m_core_id (threads k suggested)
      in if suggested_core \<ge> NUM_CPU_CORES then None
         else
           let running = (if suggested_core \<ge> 0 then highest_priority_thread (schedulers k suggested_core) else None);
               p = m_priority (threads k suggested);
               p_cur = m_priority (threads k cur)
           in if running \<noteq> Some suggested
              then if p > p_cur \<or> p = p_cur \<and> next_thread \<noteq> Some cur \<and>
                      (case next_thread of None \<Rightarrow> True | Some n \<Rightarrow>
                         m_last_scheduled_tick (threads k n) < m_last_scheduled_tick (threads k suggested))
                   then if p = p_cur \<and> next_thread = None then None else Some (Inr (recheck, None))
                   else if migration_allowed running k then Some (Inr (recheck, Some suggested))
                   else Some (Inl True)
              else Some (Inl recheck))"

definition YieldWithCoreMigration :: "nat \<Rightarrow> Kernel \<Rightarrow> Kernel option" where
  "YieldWithCoreMigration cur = yields cur (\<lambda>p k.
     let core_id = m_core_id (threads k cur)
     in Option.bind (MoveToScheduledBack (threads k) cur (m_priority_queue k)) (\<lambda>(next_thread, q).
          let k1 = IncrementScheduledCount cur (k\<lparr>m_priority_queue := q\<rparr>)
          in Option.bind (GetSuggestedFront core_id (m_priority_queue k1)) (\<lambda>front.
               Option.bind (walk (yield_step k1 cur next_thread) (\<lambda>t. suggested_next core_id t k1) front False) (\<lambda>r.
                 let (recheck, suggested) = (case r of Inl recheck \<Rightarrow> (recheck, None) | Inr x \<Rightarrow> x)
                 in map_option
                      (\<lambda>k2. if suggested \<noteq> None \<or> next_thread \<noteq> Some cur then SetSchedulerUpdateNeeded k2
                            else if \<not> recheck then SetYieldScheduleCount cur p k2 else k2)
                      (migrate_found core_id (Inr suggested) k1)))))"

text \<open>
  The loop of the yield to any thread stops at the first suggestion that is not the front of its core;
  the result says whether that one may be migrated.
\<close>

definition any_step :: "Kernel \<Rightarrow> nat \<Rightarrow> unit \<Rightarrow> (unit + nat \<times> bool) option" where
  "any_step k suggested u =
     map_option
       (\<lambda>top_on_suggested_core. if top_on_suggested_core \<noteq> Some suggested
          then Inr (suggested, migration_allowed top_on_suggested_core k) else Inl ())
       (front_on_its_core suggested k)"

definition YieldToAnyThread :: "nat \<Rightarrow> Kernel \<Rightarrow> Kernel option" where
  "YieldToAnyThread cur = yields cur (\<lambda>p k.
     let core_id = m_core_id (threads k cur)
     in Option.bind (on_queue (\<lambda>ts. ChangeCore core_id False ts cur) (SetActiveCore cur (- 1) k)) (\<lambda>k1.
          let k2 = IncrementScheduledCount cur k1
          in Option.bind (scheduled_front core_id k2) (\<lambda>front.
               if front \<noteq> None then Some (SetSchedulerUpdateNeeded k2)
               else Option.bind (GetSuggestedFront core_id (m_priority_queue k2)) (\<lambda>first.
                      Option.bind (walk (any_step k2) (\<lambda>t. suggested_next core_id t k2) first ()) (\<lambda>r.
                        let suggested = (case r of Inl u \<Rightarrow> None | Inr (t, allowed) \<Rightarrow> Some t)
                        in map_option
                             (\<lambda>k3. if suggested \<noteq> Some cur then SetSchedulerUpdateNeeded k3
                                   else SetYieldScheduleCount cur p k3)
                             (case r of
                                Inr (t, True) \<Rightarrow> map_option (IncrementScheduledCount t)
                                                   (migrate False (m_core_id (threads k2 t)) core_id t k2)
                              | _ \<Rightarrow> Some k2))))))"

section \<open>The threads' own operations\<close>

definition KThread_SetState :: "nat \<Rightarrow> u16 \<Rightarrow> Kernel \<Rightarrow> Kernel option" where
  "KThread_SetState t state k =
     (let old_state = m_thread_state (threads k t);
          new_state = (old_state AND NOT ThreadState_Mask) OR (state AND ThreadState_Mask);
          k1 = update_thread t (\<lambda>thread. thread\<lparr>m_thread_state := new_state\<rparr>) k
      in if new_state \<noteq> old_state then OnThreadStateChanged t old_state k1 else Some k1)"

definition GetSuspendFlags :: "KThread \<Rightarrow> u32" where
  "GetSuspendFlags thread = m_suspend_allowed_flags thread AND m_suspend_request_flags thread"

definition UpdateState :: "nat \<Rightarrow> Kernel \<Rightarrow> Kernel option" where
  "UpdateState t k =
     (let old_state = m_thread_state (threads k t);
          new_state = ucast (GetSuspendFlags (threads k t)) OR (old_state AND ThreadState_Mask);
          k1 = update_thread t (\<lambda>thread. thread\<lparr>m_thread_state := new_state\<rparr>) k
      in if new_state \<noteq> old_state then OnThreadStateChanged t old_state k1 else Some k1)"

definition Continue :: "nat \<Rightarrow> Kernel \<Rightarrow> Kernel option" where
  "Continue t k =
     (let old_state = m_thread_state (threads k t)
      in OnThreadStateChanged t old_state
           (update_thread t (\<lambda>thread. thread\<lparr>m_thread_state := old_state AND ThreadState_Mask\<rparr>) k))"

text \<open>The part of \<^verbatim>\<open>RestorePriority\<close> that gives a thread its new priority and tells the scheduler.\<close>

definition change_priority :: "nat \<Rightarrow> nat \<Rightarrow> int \<Rightarrow> Kernel \<Rightarrow> Kernel option" where
  "change_priority cur t new_priority k =
     OnThreadPriorityChanged cur t (m_priority (threads k t))
       (update_thread t (\<lambda>thread. thread\<lparr>m_priority := new_priority\<rparr>) k)"

definition VirtualToPhysicalCoreMap :: "int list" where
  "VirtualToPhysicalCoreMap = [0, 1, 2, 3] @ replicate 59 0 @ [3]"

section \<open>New threads\<close>

definition SetAffinity :: "int \<Rightarrow> bool \<Rightarrow> u64 \<Rightarrow> u64" where
  "SetAffinity core on m_mask = (if on then m_mask OR GetCoreBit core else m_mask AND NOT (GetCoreBit core))"

datatype ThreadType = Type_Main | Type_Kernel | Type_HighPriority | Type_User | Type_Dummy

definition IdleThreadPriority :: int where
  "IdleThreadPriority = LowestThreadPriority + 1"

definition SuspendFlagMask :: u32 where
  "SuspendFlagMask = push_bit 4 (push_bit 6 1 - 1)"

definition new_KThread :: KThread where
  "new_KThread =
     \<lparr>m_priority = 0, m_core_id = 0, m_physical_affinity_mask = 0, IsDummyThread = False, m_thread_state = 0,
      m_last_scheduled_tick = 0, yield_schedule_count = 0, m_parent = None, m_num_kernel_waiters = 0,
      m_dummy_thread_runnable = True, m_virtual_ideal_core_id = 0, m_physical_ideal_core_id = 0,
      m_original_physical_ideal_core_id = 0, m_virtual_affinity_mask = 0, m_original_physical_affinity_mask = 0,
      m_num_core_migration_disables = 0, is_pinned = False, m_suspend_request_flags = 0,
      m_suspend_allowed_flags = 0\<rparr>"

text \<open>
  What \<^verbatim>\<open>Initialize\<close> sets of the modelled members.  A main or dummy thread is runnable at once, without
  entering a queue.
\<close>

definition KThread_Initialize :: "int \<Rightarrow> int \<Rightarrow> nat option \<Rightarrow> ThreadType \<Rightarrow> KThread \<Rightarrow> KThread option" where
  "KThread_Initialize prio virt_core owner_process thread_type thread =
     (if virt_core < 0 \<or> virt_core \<ge> 64 then None
      else
        let phys_core = VirtualToPhysicalCoreMap ! nat virt_core
        in Some (thread\<lparr>
             IsDummyThread := thread_type = Type_Dummy,
             m_virtual_ideal_core_id := virt_core,
             m_physical_ideal_core_id := phys_core,
             m_virtual_affinity_mask := push_bit (nat virt_core) 1,
             m_physical_affinity_mask := SetAffinity phys_core True (m_physical_affinity_mask thread),
             m_thread_state := if thread_type = Type_Main \<or> thread_type = Type_Dummy then Runnable else 0,
             m_core_id := phys_core,
             m_priority := prio,
             m_suspend_request_flags := 0,
             m_suspend_allowed_flags := SuspendFlagMask,
             yield_schedule_count := - 1,
             m_last_scheduled_tick := 0,
             m_num_core_migration_disables := 0,
             m_num_kernel_waiters := 0,
             is_pinned := False,
             m_parent := owner_process\<rparr>))"

section \<open>Masks and pins\<close>

text \<open>The highest core of a mask.\<close>

definition highest_core :: "u64 \<Rightarrow> int" where
  "highest_core affinity = 63 - int (countl_zero affinity)"

definition convert_mask :: "u64 \<Rightarrow> u64" where
  "convert_mask v_affinity_mask =
     the (for_cores (\<lambda>core m. Some (m OR push_bit (nat (VirtualToPhysicalCoreMap ! nat core)) 1)) v_affinity_mask 0)"

text \<open>
  The part of \<^verbatim>\<open>SetCoreMask\<close> that sets the mask; the result is whether the cores fit.  The ideal core it
  falls back to may be the one that stands for no preference, which is negative.
\<close>

definition change_core_mask :: "int \<Rightarrow> u64 \<Rightarrow> nat \<Rightarrow> Kernel \<Rightarrow> (bool \<times> Kernel) option" where
  "change_core_mask core_id v_affinity_mask t k =
     (let thread = threads k t;
          ideal = (if core_id \<noteq> - 3 then core_id else m_virtual_ideal_core_id thread)
      in if core_id = - 3 \<and> ideal < 0 then None
         else if core_id = - 3 \<and> push_bit (nat ideal) 1 AND v_affinity_mask = 0 then Some (False, k)
         else
           let thread1 = thread\<lparr>m_virtual_ideal_core_id := ideal, m_virtual_affinity_mask := v_affinity_mask\<rparr>;
               core = (if ideal \<ge> 0 then VirtualToPhysicalCoreMap ! nat ideal else ideal);
               p_affinity_mask = convert_mask v_affinity_mask
           in if m_num_core_migration_disables thread1 = 0
              then
                let old_mask = m_physical_affinity_mask thread1;
                    active_core = m_core_id thread1;
                    thread2 = thread1\<lparr>m_physical_ideal_core_id := core, m_physical_affinity_mask := p_affinity_mask\<rparr>
                in if p_affinity_mask \<noteq> old_mask
                   then
                     let thread3 = (if active_core \<ge> 0 \<and> \<not> GetAffinity p_affinity_mask active_core
                                    then thread2\<lparr>m_core_id := if core \<ge> 0 then core else highest_core p_affinity_mask\<rparr>
                                    else thread2)
                     in map_option (Pair True)
                          (OnThreadAffinityMaskChanged t old_mask active_core (update_thread t (\<lambda>_. thread3) k))
                   else Some (True, update_thread t (\<lambda>_. thread2) k)
              else Some (True, update_thread t (\<lambda>_. thread1\<lparr>m_original_physical_ideal_core_id := core,
                                                           m_original_physical_affinity_mask := p_affinity_mask\<rparr>) k))"

text \<open>Pinning binds a thread to the core it runs on.\<close>

definition Pin :: "int \<Rightarrow> nat \<Rightarrow> Kernel \<Rightarrow> Kernel option" where
  "Pin current_core t k =
     (let thread = threads k t;
          active_core = m_core_id thread;
          new_mask = push_bit (nat current_core) 1;
          thread1 = thread\<lparr>is_pinned := True,
                      m_num_core_migration_disables := m_num_core_migration_disables thread + 1,
                      m_original_physical_ideal_core_id := m_physical_ideal_core_id thread,
                      m_original_physical_affinity_mask := m_physical_affinity_mask thread,
                      m_core_id := current_core, m_physical_ideal_core_id := current_core,
                      m_physical_affinity_mask := new_mask\<rparr>;
          k1 = update_thread t (\<lambda>_. thread1) k
      in Option.bind
           (if active_core \<noteq> current_core \<or> new_mask \<noteq> m_physical_affinity_mask thread
            then OnThreadAffinityMaskChanged t (m_physical_affinity_mask thread) active_core k1 else Some k1)
           (\<lambda>k2. UpdateState t
             (update_thread t (\<lambda>thread. thread\<lparr>m_suspend_allowed_flags :=
                m_suspend_allowed_flags thread AND NOT (push_bit 5 1)\<rparr>) k2)))"

text \<open>
  Without the wakeup of the threads that wait for the pin to go.  The mask is asked for the active core,
  which is shifted by without a test for the core of no thread.
\<close>

definition Unpin :: "bool \<Rightarrow> nat \<Rightarrow> Kernel \<Rightarrow> Kernel option" where
  "Unpin termination_requested t k =
     (let thread = threads k t;
          old_mask = m_physical_affinity_mask thread;
          new_mask = m_original_physical_affinity_mask thread;
          active_core = m_core_id thread;
          thread1 = thread\<lparr>is_pinned := False,
                      m_num_core_migration_disables := m_num_core_migration_disables thread - 1,
                      m_physical_ideal_core_id := m_original_physical_ideal_core_id thread,
                      m_physical_affinity_mask := new_mask\<rparr>
      in Option.bind
           (if new_mask \<noteq> old_mask
            then if active_core < 0 then None
                 else
                   let thread2 = (if \<not> GetAffinity new_mask active_core
                                  then thread1\<lparr>m_core_id := if m_physical_ideal_core_id thread1 \<ge> 0
                                                            then m_physical_ideal_core_id thread1
                                                            else highest_core new_mask\<rparr>
                                  else thread1)
                   in OnThreadAffinityMaskChanged t old_mask active_core (update_thread t (\<lambda>_. thread2) k)
            else Some (update_thread t (\<lambda>_. thread1) k))
           (\<lambda>k1. if termination_requested then Some k1
                 else UpdateState t
                        (update_thread t (\<lambda>thread. thread\<lparr>m_suspend_allowed_flags :=
                           m_suspend_allowed_flags thread OR push_bit 5 1\<rparr>) k1)))"

text \<open>A process has one pinned thread for each core.  The core is the one the thread runs on.\<close>

definition PinCurrentThread :: "bool \<Rightarrow> int \<Rightarrow> nat \<Rightarrow> nat \<Rightarrow> Kernel \<Rightarrow> Kernel option" where
  "PinCurrentThread termination_requested core_id p cur k =
     (if termination_requested then Some k
      else map_option SetSchedulerUpdateNeeded
             (Pin core_id cur
               (update_process p (\<lambda>process. process\<lparr>m_pinned_threads := (m_pinned_threads process)(core_id := Some cur)\<rparr>) k)))"

definition UnpinCurrentThread :: "bool \<Rightarrow> int \<Rightarrow> nat \<Rightarrow> nat \<Rightarrow> Kernel \<Rightarrow> Kernel option" where
  "UnpinCurrentThread termination_requested core_id p cur k =
     map_option
       (\<lambda>k1. SetSchedulerUpdateNeeded
         (update_process p (\<lambda>process. process\<lparr>m_pinned_threads := (m_pinned_threads process)(core_id := None)\<rparr>) k1))
       (Unpin termination_requested cur k)"

definition TrySuspend :: "nat \<Rightarrow> Kernel \<Rightarrow> Kernel option" where
  "TrySuspend t k = (if m_num_kernel_waiters (threads k t) > 0 then Some k else UpdateState t k)"

definition RequestSuspend :: "nat \<Rightarrow> nat \<Rightarrow> Kernel \<Rightarrow> Kernel option" where
  "RequestSuspend suspend_type t k =
     TrySuspend t (update_thread t (\<lambda>thread. thread\<lparr>m_suspend_request_flags :=
       m_suspend_request_flags thread OR push_bit (4 + suspend_type) 1\<rparr>) k)"

definition Resume :: "nat \<Rightarrow> nat \<Rightarrow> Kernel \<Rightarrow> Kernel option" where
  "Resume suspend_type t k =
     UpdateState t (update_thread t (\<lambda>thread. thread\<lparr>m_suspend_request_flags :=
       m_suspend_request_flags thread AND NOT (push_bit (4 + suspend_type) 1)\<rparr>) k)"

end
