(* ===== verification/Scheduler_Props.thy ===== *)
theory Scheduler_Props
  imports Scheduler Priority_Queue_Members
begin

text \<open>
  The invariant of the scheduler: the queues hold exactly the runnable threads, each in the scheduled
  queue of its core and in the suggested queues of the other cores it may run on.  Every operation is
  defined and keeps it.
\<close>

section \<open>The invariant\<close>

definition active :: "KThread \<Rightarrow> bool" where
  "active th \<longleftrightarrow> m_thread_state th = Runnable \<and> \<not> IsDummyThread th"

definition belongs :: "KThread \<Rightarrow> bool \<Rightarrow> int \<Rightarrow> int \<Rightarrow> bool" where
  "belongs th w p c \<longleftrightarrow>
     active th \<and> places (m_priority th) (m_core_id th) (m_physical_affinity_mask th) w p c"

definition mask_ok :: "u64 \<Rightarrow> bool" where
  "mask_ok aff \<longleftrightarrow> aff \<noteq> 0 \<and> (\<forall>k. bit aff k \<longrightarrow> k < 4)"

text \<open>An ideal core, if there is one, is of the mask; the state saved by pinning is as good as the current one.\<close>

definition thread_ok :: "KThread \<Rightarrow> bool" where
  "thread_ok th \<longleftrightarrow>
     core_ok (m_core_id th) (m_physical_affinity_mask th) \<and> mask_ok (m_physical_affinity_mask th) \<and>
     0 \<le> m_priority th \<and> (\<not> IsDummyThread th \<longrightarrow> m_priority th \<le> 64) \<and> m_virtual_ideal_core_id th < 64 \<and>
     (0 \<le> m_physical_ideal_core_id th \<longrightarrow> bit (m_physical_affinity_mask th) (nat (m_physical_ideal_core_id th))) \<and>
     (m_num_core_migration_disables th \<noteq> 0 \<longrightarrow> mask_ok (m_original_physical_affinity_mask th) \<and>
        (0 \<le> m_original_physical_ideal_core_id th \<longrightarrow>
          bit (m_original_physical_affinity_mask th) (nat (m_original_physical_ideal_core_id th))))"

definition sched_ok :: "Lists \<Rightarrow> Threads \<Rightarrow> KPriorityQueue \<Rightarrow> bool" where
  "sched_ok A ts q \<longleftrightarrow> pq_ok A q \<and> (\<forall>t. thread_ok (ts t) \<and> holds A t (belongs (ts t)))"

definition kernel_ok :: "Kernel \<Rightarrow> bool" where
  "kernel_ok k \<longleftrightarrow> (\<exists>A. sched_ok A (threads k) (m_priority_queue k))"

text \<open>What the invariant reads of a thread.\<close>

definition same_place :: "KThread \<Rightarrow> KThread \<Rightarrow> bool" where
  "same_place a b \<longleftrightarrow>
     m_priority a = m_priority b \<and> m_core_id a = m_core_id b \<and>
     m_physical_affinity_mask a = m_physical_affinity_mask b \<and> IsDummyThread a = IsDummyThread b \<and>
     m_thread_state a = m_thread_state b \<and> m_physical_ideal_core_id a = m_physical_ideal_core_id b \<and>
     m_original_physical_ideal_core_id a = m_original_physical_ideal_core_id b \<and>
     m_original_physical_affinity_mask a = m_original_physical_affinity_mask b \<and>
     m_num_core_migration_disables a = m_num_core_migration_disables b \<and>
     m_virtual_ideal_core_id a = m_virtual_ideal_core_id b"

lemma same_place_belongs: "same_place a b \<Longrightarrow> belongs a = belongs b \<and> thread_ok a = thread_ok b \<and> active a = active b"
  by (simp add: same_place_def belongs_def active_def thread_ok_def fun_eq_iff)

lemma sched_ok_same: "sched_ok A ts q \<Longrightarrow> (\<And>t. same_place (ts1 t) (ts t)) \<Longrightarrow> sched_ok A ts1 q"
  using same_place_belongs unfolding sched_ok_def by metis

lemma same_place_self [simp]: "same_place a a"
  by (simp add: same_place_def)

lemma active_priority: "sched_ok A ts q \<Longrightarrow> prio_ok ts A"
  by (simp add: sched_ok_def prio_ok_def holds_def belongs_def places_def)

lemma in_queue_belongs: "sched_ok A ts q \<Longrightarrow> t \<in> set (A w p c) \<longleftrightarrow> belongs (ts t) w p c"
  by (simp add: sched_ok_def holds_def)

lemma in_queue:
  assumes "sched_ok A ts q" and "t \<in> set (A w p c)"
  shows "active (ts t)" and "m_priority (ts t) = p" and "valid_at p c"
    and "if w then c = m_core_id (ts t) else c \<noteq> m_core_id (ts t) \<and> bit (m_physical_affinity_mask (ts t)) (nat c)"
  using in_queue_belongs [OF assms(1), of t w p c] assms(2) by (simp_all add: belongs_def places_def split: if_splits)

lemma sched_ok_pq: "sched_ok A ts q \<Longrightarrow> pq_ok A q"
  by (simp add: sched_ok_def)

lemma sched_ok_thread: "sched_ok A ts q \<Longrightarrow> thread_ok (ts t)"
  by (simp add: sched_ok_def)

lemma sched_ok_holds: "sched_ok A ts q \<Longrightarrow> holds A t (belongs (ts t))"
  by (simp add: sched_ok_def)

text \<open>One thread changes, and so do its queues.\<close>

lemma sched_ok_change:
  assumes "sched_ok A ts q" and "pq_ok A1 q1" and "thread_ok th" and "holds A1 t (belongs th)"
    and "\<And>u w p c. u \<noteq> t \<Longrightarrow> u \<in> set (A1 w p c) \<longleftrightarrow> u \<in> set (A w p c)"
  shows "sched_ok A1 (ts(t := th)) q1"
proof -
  have "holds A1 u (belongs ((ts(t := th)) u))" for u
  proof (cases "u = t")
    case False
    then show ?thesis using assms(1,5) unfolding sched_ok_def holds_def by simp
  qed (simp add: assms(4))
  moreover have "thread_ok ((ts(t := th)) u)" for u using assms(1,3) by (simp add: sched_ok_def)
  ultimately show ?thesis using assms(2) by (simp add: sched_ok_def)
qed

lemma belongs_active: "active th \<Longrightarrow>
    belongs th = places (m_priority th) (m_core_id th) (m_physical_affinity_mask th)"
  by (simp add: belongs_def fun_eq_iff)

lemma belongs_inactive: "\<not> active th \<Longrightarrow> belongs th = (\<lambda>w p c. False)"
  by (simp add: belongs_def fun_eq_iff)

section \<open>What does not touch threads and queues\<close>

lemma frame [simp]:
  "threads (IncrementScheduledCount t k) = threads k" "m_priority_queue (IncrementScheduledCount t k) = m_priority_queue k"
  "threads (SetSchedulerUpdateNeeded k) = threads k" "m_priority_queue (SetSchedulerUpdateNeeded k) = m_priority_queue k"
  "threads (update_process p g k) = threads k" "m_priority_queue (update_process p g k) = m_priority_queue k"
  "threads (update_scheduler c h k) = threads k" "m_priority_queue (update_scheduler c h k) = m_priority_queue k"
  "m_priority_queue (update_thread t f k) = m_priority_queue k"
  "threads (update_thread t f k) = (threads k)(t := f (threads k t))"
  "schedulers (IncrementScheduledCount t k) = schedulers k" "schedulers (SetSchedulerUpdateNeeded k) = schedulers k"
  "schedulers (update_process p g k) = schedulers k" "schedulers (update_thread t f k) = schedulers k"
  "schedulers (update_scheduler c h k) = (schedulers k)(c := h (schedulers k c))"
  by (simp_all add: IncrementScheduledCount_def SetSchedulerUpdateNeeded_def update_process_def update_scheduler_def
      update_thread_def split: option.split)

section \<open>Changes of a thread\<close>

lemma PushBack_ok:
  assumes "sched_ok A ts q" and "t_old = ts t" and "\<not> active (ts t)" and "active th" and "thread_ok th"
  shows "\<exists>q1 A1. PushBack (ts(t := th)) t q = Some q1 \<and> sched_ok A1 (ts(t := th)) q1"
proof -
  let ?ts = "ts(t := th)"
  have none: "holds A t (\<lambda>w p c. False)" using sched_ok_holds [OF assms(1), of t] belongs_inactive [OF assms(3)] by simp
  have th: "core_ok (m_core_id (?ts t)) (m_physical_affinity_mask (?ts t))" "0 \<le> m_priority th" "m_priority th \<le> 64"
    using assms(4,5) by (simp_all add: thread_ok_def active_def)
  from push_at_ok [where to_front = False and threads = ?ts, OF sched_ok_pq [OF assms(1)] th none] obtain q1
    where q1: "PushBack_at (m_priority th) ?ts t q = Some q1"
      "pq_ok (queued False (belongs th) t A) q1"
    using belongs_active [OF assms(4)] by auto
  have "sched_ok (queued False (belongs th) t A) ?ts q1"
    by (rule sched_ok_change [OF assms(1) q1(2) assms(5) holds_queued [OF none] others_queued])
  moreover have "PushBack ?ts t q = Some q1"
    using assms(4) th q1(1) by (simp add: PushBack_def valid_priority active_def)
  ultimately show ?thesis by blast
qed

lemma Queue_Remove_ok:
  assumes "sched_ok A ts q" and "active (ts t)" and "\<not> active th" and "thread_ok th" and "IsDummyThread th = IsDummyThread (ts t)"
    and "m_priority th = m_priority (ts t)" and "m_core_id th = m_core_id (ts t)"
    and "m_physical_affinity_mask th = m_physical_affinity_mask (ts t)"
  shows "\<exists>q1 A1. Queue_Remove (ts(t := th)) t q = Some q1 \<and> sched_ok A1 (ts(t := th)) q1"
proof -
  let ?ts = "ts(t := th)"
  have h: "holds A t (places (m_priority th) (m_core_id (?ts t)) (m_physical_affinity_mask (?ts t)))"
    using sched_ok_holds [OF assms(1), of t] belongs_active [OF assms(2)] assms(6-8) by simp
  have th: "core_ok (m_core_id (?ts t)) (m_physical_affinity_mask (?ts t))" "0 \<le> m_priority th" "m_priority th \<le> 64"
    using assms(2,4,5) by (simp_all add: thread_ok_def active_def)
  from remove_at_ok [where threads = ?ts, OF sched_ok_pq [OF assms(1)] th h] obtain q1
    where q1: "Remove_at (m_priority th) ?ts t q = Some q1"
      "pq_ok (removed (places (m_priority th) (m_core_id (?ts t)) (m_physical_affinity_mask (?ts t))) t A) q1" by blast
  have none: "holds (removed (places (m_priority th) (m_core_id (?ts t)) (m_physical_affinity_mask (?ts t))) t A) t (belongs th)"
    using holds_removed [OF sched_ok_pq [OF assms(1)] h] belongs_inactive [OF assms(3)] by simp
  have "sched_ok (removed (places (m_priority th) (m_core_id (?ts t)) (m_physical_affinity_mask (?ts t))) t A) ?ts q1"
    by (rule sched_ok_change [OF assms(1) q1(2) assms(4) none others_removed])
  moreover have "Queue_Remove ?ts t q = Some q1"
    using assms(2,5) th q1(1) by (simp add: Queue_Remove_def valid_priority active_def)
  ultimately show ?thesis by blast
qed

lemma inactive_change:
  assumes "sched_ok A ts q" and "\<not> active (ts t)" and "\<not> active th" and "thread_ok th"
  shows "sched_ok A (ts(t := th)) q"
proof -
  have "holds A t (belongs th)"
    using sched_ok_holds [OF assms(1), of t] belongs_inactive [OF assms(2)] belongs_inactive [OF assms(3)] by simp
  then show ?thesis using sched_ok_change [OF assms(1) sched_ok_pq [OF assms(1)] assms(4)] by blast
qed

text \<open>Any change of the state.\<close>

lemma state_changed:
  assumes "sched_ok A (threads k) (m_priority_queue k)" and "th = (threads k t)\<lparr>m_thread_state := new\<rparr>"
    and "threads k1 = (threads k)(t := th)" and "m_priority_queue k1 = m_priority_queue k"
  shows "\<exists>k2. OnThreadStateChanged t (m_thread_state (threads k t)) k1 = Some k2 \<and> threads k2 = threads k1 \<and> kernel_ok k2"
proof -
  let ?ts = "(threads k)(t := th)" and ?q = "m_priority_queue k" and ?old = "m_thread_state (threads k t)"
  have ok: "thread_ok th" using sched_ok_thread [OF assms(1), of t] assms(2) by (simp add: thread_ok_def)
  have cur: "m_thread_state (threads k1 t) = new" by (simp add: assms(2,3))
  consider "new = ?old" | "new \<noteq> ?old" "?old = Runnable" | "new \<noteq> ?old" "?old \<noteq> Runnable" "new = Runnable"
    | "new \<noteq> ?old" "?old \<noteq> Runnable" "new \<noteq> Runnable" by blast
  then show ?thesis
  proof cases
    case 1
    then have "th = threads k t" by (simp add: assms(2))
    then have "threads k1 = threads k" by (simp add: assms(3))
    then show ?thesis using 1 cur assms(1,4) by (auto simp: OnThreadStateChanged_def kernel_ok_def)
  next
    case 2
    show ?thesis
    proof (cases "IsDummyThread th")
      case True
      have "sched_ok A ?ts ?q"
        using True assms(2) by (intro inactive_change [OF assms(1) _ _ ok]) (simp_all add: active_def)
      then show ?thesis using 2 cur True assms(3,4)
        by (auto simp: OnThreadStateChanged_def on_queue_def Queue_Remove_def kernel_ok_def Let_def)
    next
      case False
      have "active (threads k t)" "\<not> active th" using 2 False assms(2) by (simp_all add: active_def)
      from Queue_Remove_ok [OF assms(1) this ok] assms(2) obtain q1 A1
        where "Queue_Remove ?ts t ?q = Some q1" "sched_ok A1 ?ts q1" by auto
      then show ?thesis using 2 cur False assms(3,4)
        by (auto simp: OnThreadStateChanged_def on_queue_def kernel_ok_def Let_def)
    qed
  next
    case 3
    show ?thesis
    proof (cases "IsDummyThread th")
      case True
      have "sched_ok A ?ts ?q"
        using True assms(2) by (intro inactive_change [OF assms(1) _ _ ok]) (simp_all add: active_def)
      then show ?thesis using 3 cur True assms(3,4)
        by (auto simp: OnThreadStateChanged_def on_queue_def PushBack_def kernel_ok_def Let_def)
    next
      case False
      have "\<not> active (threads k t)" "active th" using 3 False assms(2) by (simp_all add: active_def)
      from PushBack_ok [OF assms(1) refl this ok] obtain q1 A1
        where "PushBack ?ts t ?q = Some q1" "sched_ok A1 ?ts q1" by blast
      then show ?thesis using 3 cur False assms(3,4)
        by (auto simp: OnThreadStateChanged_def on_queue_def kernel_ok_def Let_def)
    qed
  next
    case 4
    have "sched_ok A ?ts ?q"
      using 4 assms(2) by (intro inactive_change [OF assms(1) _ _ ok]) (simp_all add: active_def)
    then show ?thesis using 4 cur assms(3,4) by (auto simp: OnThreadStateChanged_def kernel_ok_def)
  qed
qed

text \<open>A change of priority.\<close>

lemma requeued:
  assumes "pq_ok A q" and "holds A t Q"
  shows "holds (queued f Q' t (removed Q t A)) t Q'"
    and "u \<noteq> t \<Longrightarrow> u \<in> set (queued f Q' t (removed Q t A) w p c) \<longleftrightarrow> u \<in> set (A w p c)"
  using holds_queued [OF holds_removed [OF assms]] by (simp_all add: others_queued others_removed)

lemma thread_ok_queue: "thread_ok th \<Longrightarrow> core_ok (m_core_id th) (m_physical_affinity_mask th) \<and>
    0 \<le> m_priority th \<and> (\<not> IsDummyThread th \<longrightarrow> m_priority th \<le> 64)"
  by (simp add: thread_ok_def)

lemma change_priority_ok:
  assumes "kernel_ok k" and "0 \<le> new" and "IsDummyThread (threads k t) \<or> new \<le> 64"
  shows "\<exists>k1. change_priority cur t new k = Some k1 \<and> kernel_ok k1"
proof -
  from assms(1) obtain A where ok: "sched_ok A (threads k) (m_priority_queue k)" unfolding kernel_ok_def by blast
  let ?th = "(threads k t)\<lparr>m_priority := new\<rparr>"
  let ?ts = "(threads k)(t := ?th)" and ?q = "m_priority_queue k"
  let ?old = "places (m_priority (threads k t)) (m_core_id (threads k t)) (m_physical_affinity_mask (threads k t))"
    and ?new = "places new (m_core_id (threads k t)) (m_physical_affinity_mask (threads k t))"
  have old: "thread_ok (threads k t)" by (rule sched_ok_thread [OF ok])
  then have th: "thread_ok ?th" using assms(2,3) by (auto simp: thread_ok_def)
  show ?thesis
  proof (cases "active (threads k t)")
    case False
    have "sched_ok A ?ts ?q" using False by (intro inactive_change [OF ok False _ th]) (simp add: active_def)
    then show ?thesis using False
      by (auto simp: change_priority_def OnThreadPriorityChanged_def on_queue_def ChangePriority_def active_def kernel_ok_def)
  next
    case True
    have h: "holds A t ?old" using sched_ok_holds [OF ok, of t] belongs_active [OF True] by simp
    have "\<exists>q1. ChangePriority (m_priority (threads k t)) (t = cur) ?ts t ?q = Some q1 \<and>
        pq_ok (queued (t = cur) ?new t (removed ?old t A)) q1"
      using ChangePriority_ok [where threads = ?ts and t = t and running = "t = cur", OF sched_ok_pq [OF ok]]
        thread_ok_queue [OF old] assms(2,3) h True by (simp add: active_def)
    then obtain q1 where q1: "ChangePriority (m_priority (threads k t)) (t = cur) ?ts t ?q = Some q1"
      "pq_ok (queued (t = cur) ?new t (removed ?old t A)) q1" by blast
    have "active ?th" using True by (simp add: active_def)
    then have "belongs ?th = ?new" by (simp add: belongs_active)
    then have "sched_ok (queued (t = cur) ?new t (removed ?old t A)) ?ts q1"
      using requeued [OF sched_ok_pq [OF ok] h] by (intro sched_ok_change [OF ok q1(2) th]) simp_all
    then show ?thesis using True q1(1)
      by (auto simp: change_priority_def OnThreadPriorityChanged_def on_queue_def active_def kernel_ok_def)
  qed
qed

text \<open>A change of affinity and core, of a thread whose new state the caller has set.\<close>

lemma affinity_changed:
  assumes ok: "sched_ok A (threads k) (m_priority_queue k)" and th: "thread_ok th"
    and same: "m_priority th = m_priority (threads k t)" "IsDummyThread th = IsDummyThread (threads k t)"
      "m_thread_state th = m_thread_state (threads k t)"
    and k1: "threads k1 = (threads k)(t := th)" "m_priority_queue k1 = m_priority_queue k"
  shows "\<exists>k2. OnThreadAffinityMaskChanged t (m_physical_affinity_mask (threads k t)) (m_core_id (threads k t)) k1 = Some k2 \<and>
    threads k2 = threads k1 \<and> kernel_ok k2"
proof (cases "active (threads k t)")
  case False
  then have "sched_ok A ((threads k)(t := th)) (m_priority_queue k)"
    using same by (intro inactive_change [OF ok False _ th]) (simp add: active_def)
  then show ?thesis using False k1 same
    by (auto simp: OnThreadAffinityMaskChanged_def on_queue_def ChangeAffinityMask_def active_def kernel_ok_def)
next
  case True
  let ?ts = "(threads k)(t := th)" and ?q = "m_priority_queue k"
  let ?old = "places (m_priority th) (m_core_id (threads k t)) (m_physical_affinity_mask (threads k t))"
    and ?new = "places (m_priority th) (m_core_id th) (m_physical_affinity_mask th)"
  have h: "holds A t ?old" using sched_ok_holds [OF ok, of t] belongs_active [OF True] same(1) by simp
  have "\<exists>q1. ChangeAffinityMask (m_core_id (threads k t)) (m_physical_affinity_mask (threads k t)) ?ts t ?q = Some q1 \<and>
      pq_ok (queued False ?new t (removed ?old t A)) q1"
    using ChangeAffinityMask_ok [where threads = ?ts and t = t, OF sched_ok_pq [OF ok]]
      thread_ok_queue [OF sched_ok_thread [OF ok, of t]] thread_ok_queue [OF th] h True same by (simp add: active_def)
  then obtain q1 where
    q1: "ChangeAffinityMask (m_core_id (threads k t)) (m_physical_affinity_mask (threads k t)) ?ts t ?q = Some q1"
      "pq_ok (queued False ?new t (removed ?old t A)) q1" by blast
  have "active th" using True same by (simp add: active_def)
  then have "belongs th = ?new" by (simp add: belongs_active)
  then have "sched_ok (queued False ?new t (removed ?old t A)) ?ts q1"
    using requeued [OF sched_ok_pq [OF ok] h] by (intro sched_ok_change [OF ok q1(2) th]) simp_all
  then show ?thesis using True q1(1) k1 same
    by (auto simp: OnThreadAffinityMaskChanged_def on_queue_def active_def kernel_ok_def)
qed

section \<open>A change of core\<close>

lemma moved_members:
  assumes "pq_ok A q" and "core_ok prev aff" and "core_ok new aff" and "holds A t (places p prev aff)"
  shows "holds (moved f p prev new t A) t (places p new aff)"
    and "u \<noteq> t \<Longrightarrow> u \<in> set (moved f p prev new t A w p' c) \<longleftrightarrow> u \<in> set (A w p' c)"
proof -
  have mem: "t \<in> set (A w p' c) \<longleftrightarrow> places p prev aff w p' c" for w p' c using assms(4) by (simp add: holds_def)
  have dist: "t \<notin> set (remove1 t (A w p' c))" for w p' c using pq_ok_distinct [OF assms(1)] by simp
  have b: "0 \<le> prev \<Longrightarrow> bit aff (nat prev)" "0 \<le> new \<Longrightarrow> bit aff (nat new)"
    using assms(2,3) by (simp_all add: core_ok_def)
  have "t \<in> set (moved f p prev new t A w p' c) \<longleftrightarrow> places p new aff w p' c" for w p' c
  proof (cases "valid_at p c \<and> p' = p \<and> prev \<noteq> new")
    case True
    have "0 \<le> c" using True by (simp add: valid_at_def)
    then show ?thesis using True b mem [of w p c] dist [of w p c] by (auto simp: moved_def places_def)
  next
    case False
    then show ?thesis using mem [of w p' c] by (auto simp: moved_def places_def)
  qed
  then show "holds (moved f p prev new t A) t (places p new aff)" by (simp add: holds_def)
  show "u \<noteq> t \<Longrightarrow> u \<in> set (moved f p prev new t A w p' c) \<longleftrightarrow> u \<in> set (A w p' c)"
    by (auto simp: moved_def)
qed

lemma ChangeCore_lowest:
  assumes "m_priority (ts t) = 64" and "prev < 4" and "m_core_id (ts t) < 4"
  shows "ChangeCore prev f ts t q = Some q"
  using assms lowest_nothing [of prev] lowest_nothing [of "m_core_id (ts t)"]
  by (cases f) (auto simp: ChangeCore_def Let_def on_names)

definition after_move :: "bool \<Rightarrow> int \<Rightarrow> nat \<Rightarrow> Threads \<Rightarrow> Lists \<Rightarrow> Lists" where
  "after_move f core t ts A =
     (if active (ts t) then moved f (m_priority (ts t)) (m_core_id (ts t)) core t A else A)"

lemma thread_ok_core: "thread_ok th \<Longrightarrow> core_ok core (m_physical_affinity_mask th) \<Longrightarrow> thread_ok (th\<lparr>m_core_id := core\<rparr>)"
  by (simp add: thread_ok_def)

lemma migrate_ok:
  assumes ok: "sched_ok A (threads k) (m_priority_queue k)"
    and core: "core_ok core (m_physical_affinity_mask (threads k t))" and run: "m_thread_state (threads k t) = Runnable"
  shows "\<exists>q1. migrate f (m_core_id (threads k t)) core t k = Some (SetActiveCore t core k\<lparr>m_priority_queue := q1\<rparr>) \<and>
    sched_ok (after_move f core t (threads k) A) ((threads k)(t := (threads k t)\<lparr>m_core_id := core\<rparr>)) q1"
proof -
  let ?th = "(threads k t)\<lparr>m_core_id := core\<rparr>"
  let ?ts = "(threads k)(t := ?th)" and ?q = "m_priority_queue k"
  let ?p = "m_priority (threads k t)" and ?prev = "m_core_id (threads k t)" and ?aff = "m_physical_affinity_mask (threads k t)"
  have old: "thread_ok (threads k t)" by (rule sched_ok_thread [OF ok])
  have th: "thread_ok ?th" by (rule thread_ok_core [OF old core])
  have prev: "core_ok ?prev ?aff" "0 \<le> ?p" "\<not> IsDummyThread (threads k t) \<Longrightarrow> ?p \<le> 64"
    using thread_ok_queue [OF old] by simp_all
  have mig: "migrate f ?prev core t k = map_option (\<lambda>q1. SetActiveCore t core k\<lparr>m_priority_queue := q1\<rparr>)
      (ChangeCore ?prev f ?ts t ?q)"
    by (simp add: migrate_def on_queue_def SetActiveCore_def)
  have act: "active ?th \<longleftrightarrow> active (threads k t)" by (simp add: active_def)
  have "\<exists>q1. ChangeCore ?prev f ?ts t ?q = Some q1 \<and> sched_ok (after_move f core t (threads k) A) ?ts q1"
  proof (cases "active (threads k t)")
    case True
    have h: "holds A t (places ?p ?prev ?aff)" using sched_ok_holds [OF ok, of t] belongs_active [OF True] by simp
    have am: "after_move f core t (threads k) A = moved f ?p ?prev core t A" using True by (simp add: after_move_def)
    have "\<exists>q1. ChangeCore ?prev f ?ts t ?q = Some q1 \<and> pq_ok (moved f ?p ?prev core t A) q1"
    proof (cases "?p = 64")
      case True
      have "moved f ?p ?prev core t A = A" unfolding True by (simp add: moved_def valid_at_def fun_eq_iff)
      moreover have "ChangeCore ?prev f ?ts t ?q = Some ?q"
        using True prev core by (intro ChangeCore_lowest) (simp_all add: core_ok_def)
      ultimately show ?thesis using sched_ok_pq [OF ok] by simp
    next
      case False
      have d: "\<not> IsDummyThread (threads k t)" using True by (simp add: active_def)
      show ?thesis
        using ChangeCore_ok [where threads = ?ts and t = t and prev = ?prev and to_front = f, OF sched_ok_pq [OF ok]]
          d prev core False h by simp
    qed
    then obtain q1 where q1: "ChangeCore ?prev f ?ts t ?q = Some q1" "pq_ok (moved f ?p ?prev core t A) q1" by blast
    have "belongs ?th = places ?p core ?aff" using act True by (simp add: belongs_active)
    then have "sched_ok (moved f ?p ?prev core t A) ?ts q1"
      using moved_members [OF sched_ok_pq [OF ok] prev(1) core h]
      by (intro sched_ok_change [OF ok q1(2) th]) simp_all
    then show ?thesis using q1(1) am by simp
  next
    case False
    have "belongs ?th = belongs (threads k t)" using False act by (simp add: belongs_inactive)
    then have h: "holds A t (belongs ?th)" using sched_ok_holds [OF ok, of t] by simp
    have s: "sched_ok A ?ts ?q" by (rule sched_ok_change [OF ok sched_ok_pq [OF ok] th h]) simp
    have "IsDummyThread (threads k t)" using False run by (simp add: active_def)
    then show ?thesis using s False by (simp add: ChangeCore_def after_move_def)
  qed
  then show ?thesis unfolding mig by auto
qed

text \<open>To the back of its queue; the front of the queue comes back.\<close>

lemma sched_ok_lists:
  assumes "sched_ok A ts q" and "pq_ok A1 q1" and "\<And>w p c. set (A1 w p c) = set (A w p c)"
  shows "sched_ok A1 ts q1"
  using assms by (simp add: sched_ok_def holds_def)

lemma MoveToScheduledBack_ok:
  assumes ok: "sched_ok A ts q" and act: "active (ts t)" and "0 \<le> m_core_id (ts t)" and "m_priority (ts t) \<le> 63"
  defines "p \<equiv> m_priority (ts t)" and "c \<equiv> m_core_id (ts t)"
  shows "t \<in> set (A True p c) \<and> (\<exists>q1. MoveToScheduledBack ts t q = Some (hd_or (remove1 t (A True p c) @ [t]) None, q1) \<and>
    sched_ok (upd A True p c (remove1 t (A True p c) @ [t])) ts q1)"
proof -
  have th: "thread_ok (ts t)" by (rule sched_ok_thread [OF ok])
  have v: "valid_at p c" using assms(3,4) thread_ok_queue [OF th] by (simp add: p_def c_def valid_at_def core_ok_def)
  have inq: "t \<in> set (A True p c)"
    using in_queue_belongs [OF ok, of t True p c] act v by (simp add: belongs_def places_def p_def c_def)
  from move_front_ok(2) [OF sched_ok_pq [OF ok] inq] obtain I E where
    q1: "Impl_MoveToBack p c t (m_scheduled_queue q, queue_entries q) = Some (hd_or (remove1 t (A True p c) @ [t]) None, I, E)"
      "pq_ok (upd A True p c (remove1 t (A True p c) @ [t])) (put True I E q)"
    by (auto simp: select_def)
  have "MoveToScheduledBack ts t q = Some (hd_or (remove1 t (A True p c) @ [t]) None, put True I E q)"
    using act q1(1) by (simp add: MoveToScheduledBack_def active_def p_def c_def put_def)
  moreover have "sched_ok (upd A True p c (remove1 t (A True p c) @ [t])) ts (put True I E q)"
    using inq pq_ok_distinct [OF sched_ok_pq [OF ok], of True p c] by (intro sched_ok_lists [OF ok q1(2)]) auto
  ultimately show ?thesis using inq by blast
qed

section \<open>Walks over a queue\<close>

fun scan :: "(nat \<Rightarrow> 'a \<Rightarrow> ('a + 'r) option) \<Rightarrow> nat list \<Rightarrow> 'a \<Rightarrow> ('a + 'r) option" where
  "scan body [] acc = Some (Inl acc)"
| "scan body (t # ts) acc =
     Option.bind (body t acc) (\<lambda>r. case r of Inl acc1 \<Rightarrow> scan body ts acc1 | Inr x \<Rightarrow> Some (Inr x))"

lemma walk_scan:
  assumes "\<And>us t vs. L = us @ t # vs \<Longrightarrow> nxt t = Some (hd_or vs None)" and "L = us @ vs"
  shows "walk body nxt (hd_or vs None) acc = scan body vs acc"
  using assms(2)
proof (induction vs arbitrary: us acc)
  case Nil
  then show ?case by (simp add: walk.simps [of body nxt None])
next
  case (Cons t vs)
  have IH: "walk body nxt (hd_or vs None) acc1 = scan body vs acc1" for acc1
    using Cons.IH [of "us @ [t]"] Cons.prems by simp
  show ?case using assms(1) [OF Cons.prems]
    by (cases "body t acc") (auto simp: walk.simps [of body nxt "Some t"] IH split: sum.split)
qed

text \<open>What a walk keeps; the invariant may speak of the threads passed.\<close>

lemma scan_ok:
  assumes "\<And>us t vs acc. L = us @ t # vs \<Longrightarrow> I us acc \<Longrightarrow>
      \<exists>r. body t acc = Some r \<and> (case r of Inl acc1 \<Rightarrow> I (us @ [t]) acc1 | Inr x \<Rightarrow> Q x)"
    and "L = us @ vs" and "I us acc"
  shows "\<exists>r. scan body vs acc = Some r \<and> (case r of Inl acc1 \<Rightarrow> I L acc1 | Inr x \<Rightarrow> Q x)"
  using assms(2,3)
proof (induction vs arbitrary: us acc)
  case (Cons t vs)
  from assms(1) [OF Cons.prems] obtain r where
    r: "body t acc = Some r" "case r of Inl acc1 \<Rightarrow> I (us @ [t]) acc1 | Inr x \<Rightarrow> Q x" by blast
  show ?case
  proof (cases r)
    case (Inl acc1)
    then show ?thesis using Cons.IH [of "us @ [t]" acc1] Cons.prems(1) r by simp
  qed (use r in simp)
qed simp

lemma suggested_walk:
  assumes ok: "sched_ok A (threads k) (m_priority_queue k)" and c: "0 \<le> c" "c < 4"
  shows "GetSuggestedFront c (m_priority_queue k) = Some (hd_or (flat A False c) None)"
    and "walk body (\<lambda>t. suggested_next c t k) (hd_or (flat A False c) None) acc = scan body (flat A False c) acc"
proof -
  show "GetSuggestedFront c (m_priority_queue k) = Some (hd_or (flat A False c) None)"
    using front_ok [OF sched_ok_pq [OF ok] c, of False] by (simp add: GetSuggestedFront_def select_def)
  have n: "flat A False c = us @ t # vs \<Longrightarrow> suggested_next c t k = Some (hd_or vs None)" for us t vs
    using next_ok [OF sched_ok_pq [OF ok] active_priority [OF ok], of False c us t vs]
    by (simp add: suggested_next_def GetSuggestedNext_def select_def)
  show "walk body (\<lambda>t. suggested_next c t k) (hd_or (flat A False c) None) acc = scan body (flat A False c) acc"
    by (rule walk_scan [where us = "[]", OF n]) simp_all
qed

lemma same_priority_walk:
  assumes ok: "sched_ok A (threads k) (m_priority_queue k)" and v: "valid_at p c"
  shows "GetSuggestedFront_at c p (m_priority_queue k) = Some (hd_or (A False p c) None)"
    and "walk body (\<lambda>t. GetSamePriorityNext c t (m_priority_queue k)) (hd_or (A False p c) None) acc
      = scan body (A False p c) acc"
proof -
  show "GetSuggestedFront_at c p (m_priority_queue k) = Some (hd_or (A False p c) None)"
    using front_at_ok [OF sched_ok_pq [OF ok] v, of False] by (simp add: GetSuggestedFront_at_def select_def)
  show "walk body (\<lambda>t. GetSamePriorityNext c t (m_priority_queue k)) (hd_or (A False p c) None) acc
      = scan body (A False p c) acc"
    using same_next_ok [OF sched_ok_pq [OF ok], of False p c] by (intro walk_scan [where us = "[]"]) auto
qed

lemma scheduled_front_ok:
  assumes "sched_ok A (threads k) (m_priority_queue k)" and "0 \<le> c" and "c < 4"
  shows "scheduled_front c k = Some (hd_or (flat A True c) None)"
  using front_ok [OF sched_ok_pq [OF assms(1)] assms(2,3), of True]
  by (simp add: scheduled_front_def GetScheduledFront_def select_def)

lemma scheduled_next_ok:
  assumes "sched_ok A (threads k) (m_priority_queue k)" and "flat A True c = us @ t # vs"
  shows "scheduled_next c t k = Some (hd_or vs None)"
  using next_ok [OF sched_ok_pq [OF assms(1)] active_priority [OF assms(1)] assms(2)]
  by (simp add: scheduled_next_def GetScheduledNext_def select_def)

lemma front_on_its_core_ok:
  assumes ok: "sched_ok A (threads k) (m_priority_queue k)"
  shows "front_on_its_core t k = Some (if 0 \<le> m_core_id (threads k t) then hd_or (flat A True (m_core_id (threads k t))) None
    else None)"
  using scheduled_front_ok [OF ok, of "m_core_id (threads k t)"] thread_ok_queue [OF sched_ok_thread [OF ok, of t]]
  by (simp add: front_on_its_core_def Let_def core_ok_def)

lemma flat_member:
  assumes ok: "sched_ok A ts q"
  shows "t \<in> set (flat A w c) \<longleftrightarrow> belongs (ts t) w (m_priority (ts t)) c"
proof
  assume "t \<in> set (flat A w c)"
  then obtain p where "t \<in> set (A w p c)" using in_flat [OF sched_ok_pq [OF ok]] by blast
  then show "belongs (ts t) w (m_priority (ts t)) c"
    using in_queue_belongs [OF ok, of t w p c] in_queue(2) [OF ok, of t w p c] by simp
next
  assume "belongs (ts t) w (m_priority (ts t)) c"
  then show "t \<in> set (flat A w c)"
    using in_queue_belongs [OF ok, of t w "m_priority (ts t)" c] in_flat [OF sched_ok_pq [OF ok]] by blast
qed

lemma suggestion_member:
  assumes ok: "sched_ok A ts q" and "t \<in> set (A False p c)"
  shows "active (ts t)" and "m_priority (ts t) = p" and "valid_at p c" and "m_core_id (ts t) \<noteq> c"
    and "core_ok c (m_physical_affinity_mask (ts t))" and "m_core_id (ts t) < 4"
  using in_queue [OF assms] thread_ok_queue [OF sched_ok_thread [OF ok, of t]]
  by (auto simp: core_ok_def valid_at_def)

lemma suggestion_flat:
  assumes "sched_ok A ts q" and "t \<in> set (flat A False c)"
  shows "t \<in> set (A False (m_priority (ts t)) c)"
  using flat_member [OF assms(1)] in_queue_belongs [OF assms(1), of t False "m_priority (ts t)" c] assms(2) by blast

section \<open>The rotation\<close>

lemma kernel_okI: "sched_ok A (threads k) (m_priority_queue k) \<Longrightarrow> kernel_ok k"
  by (auto simp: kernel_ok_def)

lemma kernel_ok_cong: "threads k1 = threads k \<Longrightarrow> m_priority_queue k1 = m_priority_queue k \<Longrightarrow> kernel_ok k1 = kernel_ok k"
  by (simp add: kernel_ok_def)

lemma kernel_ok_frame [simp]:
  "kernel_ok (IncrementScheduledCount t k) = kernel_ok k" "kernel_ok (SetSchedulerUpdateNeeded k) = kernel_ok k"
  "kernel_ok (update_process p g k) = kernel_ok k" "kernel_ok (update_scheduler c h k) = kernel_ok k"
  by (simp_all add: kernel_ok_def)

text \<open>What is found is nothing or one of the suggestions.\<close>

definition found_in :: "nat list \<Rightarrow> (unit + nat option) \<Rightarrow> bool" where
  "found_in L r \<longleftrightarrow> (case r of Inr (Some t) \<Rightarrow> t \<in> set L | _ \<Rightarrow> True)"

lemma scan_found:
  assumes "\<And>t acc. t \<in> set L \<Longrightarrow> \<exists>r. body t acc = Some r \<and> (case r of Inl u \<Rightarrow> True | Inr x \<Rightarrow> x = None \<or> x = Some t)"
  shows "\<exists>r. scan body L () = Some r \<and> found_in L r"
proof -
  have "\<exists>r. scan body L () = Some r \<and> (case r of Inl u \<Rightarrow> True | Inr x \<Rightarrow> found_in L (Inr x))"
  proof (rule scan_ok [where I = "\<lambda>us u. True" and us = "[]"])
    fix us t vs and acc :: unit
    assume "L = us @ t # vs"
    then have "t \<in> set L" by simp
    from assms [OF this] obtain r where
      r: "body t acc = Some r" "case r of Inl u \<Rightarrow> True | Inr x \<Rightarrow> x = None \<or> x = Some t" by blast
    then have "case r of Inl u \<Rightarrow> True | Inr x \<Rightarrow> found_in L (Inr x)"
      using \<open>t \<in> set L\<close> by (auto simp: found_in_def split: sum.splits)
    then show "\<exists>r. body t acc = Some r \<and> (case r of Inl u \<Rightarrow> True | Inr x \<Rightarrow> found_in L (Inr x))" using r(1) by blast
  qed simp_all
  then obtain r where "scan body L () = Some r" "case r of Inl u \<Rightarrow> True | Inr x \<Rightarrow> found_in L (Inr x)" by blast
  then show ?thesis by (auto simp: found_in_def split: sum.splits)
qed

lemma migrate_suggestion:
  assumes ok: "sched_ok A (threads k) (m_priority_queue k)" and t: "t \<in> set (flat A False c)"
  shows "\<exists>k1. migrate f (m_core_id (threads k t)) c t k = Some k1 \<and> kernel_ok k1 \<and>
    threads k1 = (threads k)(t := (threads k t)\<lparr>m_core_id := c\<rparr>)"
proof -
  have run: "m_thread_state (threads k t) = Runnable"
    using suggestion_member(1) [OF ok suggestion_flat [OF ok t]] by (simp add: active_def)
  from migrate_ok [OF ok suggestion_member(5) [OF ok suggestion_flat [OF ok t]] run, of f] show ?thesis
    by (auto simp: kernel_ok_def SetActiveCore_def)
qed

lemma migrate_found_ok:
  assumes ok: "sched_ok A (threads k) (m_priority_queue k)" and "found_in (flat A False c) found"
  shows "\<exists>k1. migrate_found c found k = Some k1 \<and> kernel_ok k1"
proof (cases "\<exists>t. found = Inr (Some t)")
  case True
  then obtain t where t: "found = Inr (Some t)" by blast
  then have "t \<in> set (flat A False c)" using assms(2) by (simp add: found_in_def)
  from migrate_suggestion [OF ok this, of True] show ?thesis using t by (auto simp: migrate_found_def)
next
  case False
  then have "migrate_found c found k = Some k"
    by (cases found) (auto simp: migrate_found_def split: option.split)
  then show ?thesis using kernel_okI [OF ok] by simp
qed

lemma rotate_front_ok:
  assumes "kernel_ok k" and v: "valid_at p c"
  shows "\<exists>top_thread next_thread k1. rotate_front c p k = Some (top_thread, next_thread, k1) \<and> kernel_ok k1"
proof -
  from assms(1) obtain A where ok: "sched_ok A (threads k) (m_priority_queue k)" unfolding kernel_ok_def by blast
  have front: "GetScheduledFront_at c p (m_priority_queue k) = Some (hd_or (A True p c) None)"
    using front_at_ok [OF sched_ok_pq [OF ok] v, of True] by (simp add: GetScheduledFront_at_def select_def)
  show ?thesis
  proof (cases "A True p c")
    case Nil
    then show ?thesis using front assms(1) by (simp add: rotate_front_def)
  next
    case (Cons t ts)
    then have t: "active (threads k t)" "m_priority (threads k t) = p" "c = m_core_id (threads k t)"
      using in_queue [OF ok, of t True p c] by simp_all
    then obtain q1 where q1: "MoveToScheduledBack (threads k) t (m_priority_queue k) = Some (hd_or (ts @ [t]) None, q1)"
      "sched_ok (upd A True p c (ts @ [t])) (threads k) q1"
      using MoveToScheduledBack_ok [OF ok t(1)] v Cons by (auto simp: valid_at_def)
    obtain n where n: "hd_or (ts @ [t]) None = Some n" by (cases ts) simp_all
    show ?thesis
    proof (cases "n = t")
      case True
      then have "rotate_front c p k = Some (Some t, Some t, k\<lparr>m_priority_queue := q1\<rparr>)"
        using front Cons q1(1) n by (simp add: rotate_front_def Let_def del: hd_or_append)
      then show ?thesis using q1(2) by (auto simp: kernel_ok_def)
    next
      case False
      then have "rotate_front c p k = Some (Some t, Some n,
          IncrementScheduledCount n (IncrementScheduledCount t (k\<lparr>m_priority_queue := q1\<rparr>)))"
        using front Cons q1(1) n by (simp add: rotate_front_def Let_def del: hd_or_append)
      then show ?thesis using q1(2) by (auto simp: kernel_ok_def)
    qed
  qed
qed

lemma rotate_step_ok:
  assumes "sched_ok A (threads k) (m_priority_queue k)"
  shows "\<exists>r. rotate_step k tt nt t u = Some r \<and> (case r of Inl u \<Rightarrow> True | Inr x \<Rightarrow> x = None \<or> x = Some t)"
  using front_on_its_core_ok [OF assms, of t] by (auto simp: rotate_step_def)

lemma better_step_ok:
  assumes "sched_ok A (threads k) (m_priority_queue k)"
  shows "\<exists>r. better_step k b t u = Some r \<and> (case r of Inl u \<Rightarrow> True | Inr x \<Rightarrow> x = None \<or> x = Some t)"
  using front_on_its_core_ok [OF assms, of t] by (auto simp: better_step_def)

lemma rotate_better_ok:
  assumes "kernel_ok k" and c: "0 \<le> c" "c < 4"
  shows "\<exists>k1. rotate_better cur c p k = Some k1 \<and> kernel_ok k1"
proof -
  from assms(1) obtain A where ok: "sched_ok A (threads k) (m_priority_queue k)" unfolding kernel_ok_def by blast
  note front = scheduled_front_ok [OF ok c]
  have "\<exists>best. (if hd_or (flat A True c) None = Some cur then scheduled_next c cur k
      else Some (hd_or (flat A True c) None)) = Some best"
  proof (cases "hd_or (flat A True c) None = Some cur")
    case True
    then obtain vs where "flat A True c = [] @ cur # vs" by (cases "flat A True c") auto
    from scheduled_next_ok [OF ok this] show ?thesis by simp
  qed simp
  then obtain best where best: "(if hd_or (flat A True c) None = Some cur then scheduled_next c cur k
      else Some (hd_or (flat A True c) None)) = Some best" by blast
  show ?thesis
  proof (cases "\<exists>b. best = Some b \<and> p \<le> m_priority (threads k b)")
    case True
    then obtain b where b: "best = Some b" "p \<le> m_priority (threads k b)" by blast
    from scan_found [where L = "flat A False c" and body = "better_step k b", OF better_step_ok [OF ok]] obtain r where
      r: "scan (better_step k b) (flat A False c) () = Some r" "found_in (flat A False c) r" by blast
    from migrate_found_ok [OF ok r(2)] show ?thesis
      using front best b r(1) by (simp add: rotate_better_def suggested_walk [OF ok c])
  next
    case False
    then have "rotate_better cur c p k = Some k"
      using front best by (cases best) (simp_all add: rotate_better_def)
    then show ?thesis using assms(1) by simp
  qed
qed

lemma RotateScheduledQueue_ok:
  assumes "kernel_ok k" and v: "valid_at p c"
  shows "\<exists>k1. RotateScheduledQueue cur c p k = Some k1 \<and> kernel_ok k1"
proof -
  from rotate_front_ok [OF assms] obtain tt nt k1 where
    k1: "rotate_front c p k = Some (tt, nt, k1)" "kernel_ok k1" by blast
  then obtain A where ok: "sched_ok A (threads k1) (m_priority_queue k1)" unfolding kernel_ok_def by blast
  from scan_found [where L = "A False p c" and body = "rotate_step k1 tt nt", OF rotate_step_ok [OF ok]] obtain r where
    r: "scan (rotate_step k1 tt nt) (A False p c) () = Some r" "found_in (A False p c) r" by blast
  have "found_in (flat A False c) r"
    using r(2) in_flat [OF sched_ok_pq [OF ok]] by (auto simp: found_in_def split: sum.splits option.splits)
  from migrate_found_ok [OF ok this] obtain k2 where k2: "migrate_found c r k1 = Some k2" "kernel_ok k2" by blast
  from rotate_better_ok [OF k2(2), of c cur p] v obtain k3 where "rotate_better cur c p k2 = Some k3" "kernel_ok k3"
    by (auto simp: valid_at_def)
  then show ?thesis using k1(1) r(1) k2(1) by (simp add: RotateScheduledQueue_def same_priority_walk [OF ok v])
qed

lemma PreemptThreads_ok:
  assumes "kernel_ok k"
  shows "\<exists>k1. PreemptThreads cur k = Some k1 \<and> kernel_ok k1"
proof -
  have "\<exists>k1. preempt_cores cur cs k = Some k1 \<and> kernel_ok k1"
    if "kernel_ok k" "\<And>c p. (c, p) \<in> set cs \<Longrightarrow> valid_at p c" for cs k
    using that
  proof (induction cs arbitrary: k)
    case (Cons cp cs)
    obtain c p where cp: "cp = (c, p)" by (cases cp)
    from RotateScheduledQueue_ok [OF Cons.prems(1), of p c cur] Cons.prems(2) cp obtain k1
      where "RotateScheduledQueue cur c p k = Some k1" "kernel_ok k1" by auto
    then show ?case using Cons.IH [of k1] Cons.prems(2) cp by simp
  qed simp
  moreover have "valid_at p c" if "(c, p) \<in> set (zip [0, 1, 2, 3] preemption_priorities)" for c p
    using that by (auto simp: preemption_priorities_def valid_at_def)
  ultimately show ?thesis using assms unfolding PreemptThreads_def by blast
qed

section \<open>The yields\<close>

lemma kernel_ok_update_thread:
  assumes "kernel_ok k" and "same_place (f (threads k t)) (threads k t)"
  shows "kernel_ok (update_thread t f k)"
proof -
  from assms(1) obtain A where ok: "sched_ok A (threads k) (m_priority_queue k)" unfolding kernel_ok_def by blast
  have "sched_ok A ((threads k)(t := f (threads k t))) (m_priority_queue k)"
    using assms(2) by (intro sched_ok_same [OF ok]) simp
  then show ?thesis by (auto simp: kernel_ok_def)
qed

lemma kernel_ok_SetYieldScheduleCount: "kernel_ok k \<Longrightarrow> kernel_ok (SetYieldScheduleCount t p k)"
  unfolding SetYieldScheduleCount_def by (rule kernel_ok_update_thread) (simp_all add: same_place_def)

text \<open>Only a thread that is in no queue gets nothing from the back of its queue.\<close>

lemma MoveToScheduledBack_total:
  assumes ok: "sched_ok A (threads k) (m_priority_queue k)" and run: "m_thread_state (threads k t) = Runnable"
    and core: "0 \<le> m_core_id (threads k t)"
  shows "\<exists>front q1. MoveToScheduledBack (threads k) t (m_priority_queue k) = Some (front, q1) \<and>
    kernel_ok (k\<lparr>m_priority_queue := q1\<rparr>) \<and>
    (front = None \<longrightarrow> IsDummyThread (threads k t) \<or> m_priority (threads k t) = 64)"
proof (cases "active (threads k t) \<and> m_priority (threads k t) \<le> 63")
  case True
  let ?L = "A True (m_priority (threads k t)) (m_core_id (threads k t))"
  from MoveToScheduledBack_ok [OF ok _ core] True obtain q1 where
    q1: "MoveToScheduledBack (threads k) t (m_priority_queue k) = Some (hd_or (remove1 t ?L @ [t]) None, q1)"
      "sched_ok (upd A True (m_priority (threads k t)) (m_core_id (threads k t)) (remove1 t ?L @ [t])) (threads k) q1"
    by blast
  have "hd_or (remove1 t ?L @ [t]) None \<noteq> None" by (cases "remove1 t ?L") simp_all
  moreover have "kernel_ok (k\<lparr>m_priority_queue := q1\<rparr>)" using q1(2) by (intro kernel_okI) simp
  ultimately show ?thesis using q1(1) by (intro exI [where x = "hd_or (remove1 t ?L @ [t]) None"] exI [where x = q1]) auto
next
  case False
  have th: "core_ok (m_core_id (threads k t)) (m_physical_affinity_mask (threads k t))"
    "\<not> IsDummyThread (threads k t) \<longrightarrow> m_priority (threads k t) \<le> 64"
    using thread_ok_queue [OF sched_ok_thread [OF ok, of t]] by simp_all
  then have "IsDummyThread (threads k t) \<or> m_priority (threads k t) = 64" using False run by (auto simp: active_def)
  moreover have "IsDummyThread (threads k t) \<or> MoveToScheduledBack (threads k) t (m_priority_queue k)
      = Some (None, m_priority_queue k)"
    using calculation core th(1)
    by (auto simp: MoveToScheduledBack_def Impl_MoveToBack_def core_ok_def IsValidCore_def NUM_CPU_CORES_def
        IsValidPriority_def LowestThreadPriority_def HighestThreadPriority_def)
  ultimately show ?thesis using kernel_okI [OF ok] by (auto simp: MoveToScheduledBack_def)
qed

lemma yields_ok:
  assumes "kernel_ok k" and "m_parent (threads k cur) \<noteq> None"
    and "\<And>p. m_thread_state (threads k cur) = Runnable \<Longrightarrow> \<exists>k1. body p k = Some k1 \<and> kernel_ok k1"
  shows "\<exists>k1. yields cur body k = Some k1 \<and> kernel_ok k1"
  using assms by (auto simp: yields_def)

lemma YieldWithoutCoreMigration_ok:
  assumes "kernel_ok k" and "m_parent (threads k cur) \<noteq> None" and "0 \<le> m_core_id (threads k cur)"
  shows "\<exists>k1. YieldWithoutCoreMigration cur k = Some k1 \<and> kernel_ok k1"
  unfolding YieldWithoutCoreMigration_def
proof (rule yields_ok [OF assms(1,2)])
  fix p
  assume run: "m_thread_state (threads k cur) = Runnable"
  from assms(1) obtain A where ok: "sched_ok A (threads k) (m_priority_queue k)" unfolding kernel_ok_def by blast
  from MoveToScheduledBack_total [OF ok run assms(3)] obtain front q1 where
    q1: "MoveToScheduledBack (threads k) cur (m_priority_queue k) = Some (front, q1)" "kernel_ok (k\<lparr>m_priority_queue := q1\<rparr>)"
    by blast
  show "\<exists>k1. map_option
      (\<lambda>(next_thread, q).
         let k1 = IncrementScheduledCount cur (k\<lparr>m_priority_queue := q\<rparr>)
         in if next_thread \<noteq> Some cur then SetSchedulerUpdateNeeded k1 else SetYieldScheduleCount cur p k1)
      (MoveToScheduledBack (threads k) cur (m_priority_queue k)) = Some k1 \<and> kernel_ok k1"
    unfolding q1(1) using q1(2) by (simp add: Let_def kernel_ok_SetYieldScheduleCount)
qed

lemma yield_step_ok:
  assumes ok: "sched_ok A (threads k) (m_priority_queue k)" and t: "t \<in> set (flat A False c)"
    and "next_thread = None \<Longrightarrow> m_priority (threads k cur) = 64"
  shows "\<exists>r. yield_step k cur next_thread t b = Some r \<and>
    (case r of Inl b \<Rightarrow> True | Inr (b, x) \<Rightarrow> x = None \<or> x = Some t)"
proof -
  have "m_core_id (threads k t) < 4" "m_priority (threads k t) \<le> 63"
    using suggestion_member [OF ok suggestion_flat [OF ok t]] by (simp_all add: valid_at_def)
  then show ?thesis using assms(3)
    by (auto simp: yield_step_def Let_def NUM_CPU_CORES_def)
qed

lemma YieldWithCoreMigration_ok:
  assumes "kernel_ok k" and "m_parent (threads k cur) \<noteq> None" and core: "0 \<le> m_core_id (threads k cur)"
    and "\<not> IsDummyThread (threads k cur)"
  shows "\<exists>k1. YieldWithCoreMigration cur k = Some k1 \<and> kernel_ok k1"
  unfolding YieldWithCoreMigration_def
proof (rule yields_ok [OF assms(1,2)], unfold Let_def)
  fix p
  assume run: "m_thread_state (threads k cur) = Runnable"
  let ?c = "m_core_id (threads k cur)"
  from assms(1) obtain A where ok: "sched_ok A (threads k) (m_priority_queue k)" unfolding kernel_ok_def by blast
  from MoveToScheduledBack_total [OF ok run core] assms(4) obtain nt q1 where
    q1: "MoveToScheduledBack (threads k) cur (m_priority_queue k) = Some (nt, q1)" "kernel_ok (k\<lparr>m_priority_queue := q1\<rparr>)"
      "nt = None \<Longrightarrow> m_priority (threads k cur) = 64" by blast
  let ?k1 = "IncrementScheduledCount cur (k\<lparr>m_priority_queue := q1\<rparr>)"
  have "kernel_ok ?k1" using q1(2) by simp
  then obtain A1 where ok1: "sched_ok A1 (threads ?k1) (m_priority_queue ?k1)" unfolding kernel_ok_def by blast
  have c: "0 \<le> ?c" "?c < 4" using core thread_ok_queue [OF sched_ok_thread [OF ok, of cur]] by (simp_all add: core_ok_def)
  have "\<exists>r. scan (yield_step ?k1 cur nt) (flat A1 False ?c) False = Some r \<and>
      (case r of Inl b \<Rightarrow> True | Inr (b, x) \<Rightarrow> found_in (flat A1 False ?c) (Inr x))"
  proof (rule scan_ok [where I = "\<lambda>us u. True" and us = "[]"])
    fix us t vs and b :: bool
    assume L: "flat A1 False ?c = us @ t # vs"
    then have "t \<in> set (flat A1 False ?c)" by simp
    from yield_step_ok [OF ok1 this, of nt cur b] q1(3) obtain r where r: "yield_step ?k1 cur nt t b = Some r"
      "case r of Inl b \<Rightarrow> True | Inr (b, x) \<Rightarrow> x = None \<or> x = Some t" by auto
    have "case r of Inl b \<Rightarrow> True | Inr (b, x) \<Rightarrow> found_in (flat A1 False ?c) (Inr x)"
      using r(2) \<open>t \<in> set (flat A1 False ?c)\<close> by (cases r) (auto simp: found_in_def)
    then show "\<exists>r. yield_step ?k1 cur nt t b = Some r \<and>
        (case r of Inl b \<Rightarrow> True | Inr (b, x) \<Rightarrow> found_in (flat A1 False ?c) (Inr x))" using r(1) by blast
  qed simp_all
  then obtain r where r: "scan (yield_step ?k1 cur nt) (flat A1 False ?c) False = Some r"
    "case r of Inl b \<Rightarrow> True | Inr (b, x) \<Rightarrow> found_in (flat A1 False ?c) (Inr x)" by blast
  obtain recheck suggested where rs: "(case r of Inl recheck \<Rightarrow> (recheck, None) | Inr x \<Rightarrow> x) = (recheck, suggested)"
    by (cases "case r of Inl recheck \<Rightarrow> (recheck, None) | Inr x \<Rightarrow> x")
  have "found_in (flat A1 False ?c) (Inr suggested)" using r(2) rs by (cases r) (auto simp: found_in_def)
  from migrate_found_ok [OF ok1 this] obtain k2 where "migrate_found ?c (Inr suggested) ?k1 = Some k2" "kernel_ok k2" by blast
  note k2 = this
  show "\<exists>k1. Option.bind (MoveToScheduledBack (threads k) cur (m_priority_queue k)) (\<lambda>(next_thread, q).
      Option.bind (GetSuggestedFront ?c (m_priority_queue (IncrementScheduledCount cur (k\<lparr>m_priority_queue := q\<rparr>)))) (\<lambda>front.
        Option.bind (walk (yield_step (IncrementScheduledCount cur (k\<lparr>m_priority_queue := q\<rparr>)) cur next_thread)
            (\<lambda>t. suggested_next ?c t (IncrementScheduledCount cur (k\<lparr>m_priority_queue := q\<rparr>))) front False) (\<lambda>r.
          case case r of Inl recheck \<Rightarrow> (recheck, None) | Inr x \<Rightarrow> x of (recheck, suggested) \<Rightarrow>
            map_option
              (\<lambda>k2. if suggested \<noteq> None \<or> next_thread \<noteq> Some cur then SetSchedulerUpdateNeeded k2
                    else if \<not> recheck then SetYieldScheduleCount cur p k2 else k2)
              (migrate_found ?c (Inr suggested) (IncrementScheduledCount cur (k\<lparr>m_priority_queue := q\<rparr>)))))) = Some k1 \<and> kernel_ok k1"
    unfolding q1(1) bind.simps prod.case suggested_walk [OF ok1 c] r(1) rs
    using k2(2) by (simp add: k2(1) kernel_ok_SetYieldScheduleCount)
qed

lemma any_step_ok:
  assumes "sched_ok A (threads k) (m_priority_queue k)"
  shows "\<exists>r. any_step k t u = Some r \<and> (case r of Inl u \<Rightarrow> True | Inr (t1, b) \<Rightarrow> t1 = t)"
  using front_on_its_core_ok [OF assms, of t] by (auto simp: any_step_def)

lemma mask_ok_core: "thread_ok th \<Longrightarrow> core_ok (- 1) (m_physical_affinity_mask th)"
  by (simp add: thread_ok_def mask_ok_def core_ok_def)

lemma YieldToAnyThread_ok:
  assumes "kernel_ok k" and "m_parent (threads k cur) \<noteq> None" and core: "0 \<le> m_core_id (threads k cur)"
  shows "\<exists>k1. YieldToAnyThread cur k = Some k1 \<and> kernel_ok k1"
  unfolding YieldToAnyThread_def
proof (rule yields_ok [OF assms(1,2)])
  fix p
  assume run: "m_thread_state (threads k cur) = Runnable"
  let ?c = "m_core_id (threads k cur)"
  from assms(1) obtain A where ok: "sched_ok A (threads k) (m_priority_queue k)" unfolding kernel_ok_def by blast
  from migrate_ok [OF ok mask_ok_core [OF sched_ok_thread [OF ok]] run, of False] obtain k1 A1 where
    k1: "migrate False ?c (- 1) cur k = Some k1" "sched_ok A1 (threads k1) (m_priority_queue k1)"
    by (auto simp: SetActiveCore_def)
  let ?k2 = "IncrementScheduledCount cur k1"
  have ok2: "sched_ok A1 (threads ?k2) (m_priority_queue ?k2)" using k1(2) by simp
  have c: "0 \<le> ?c" "?c < 4" using core thread_ok_queue [OF sched_ok_thread [OF ok, of cur]] by (simp_all add: core_ok_def)
  have q: "on_queue (\<lambda>ts. ChangeCore ?c False ts cur) (SetActiveCore cur (- 1) k) = Some k1"
    using k1(1) by (simp add: migrate_def)
  have "\<exists>r. scan (any_step ?k2) (flat A1 False ?c) () = Some r \<and>
      (case r of Inl b \<Rightarrow> True | Inr (t, b) \<Rightarrow> t \<in> set (flat A1 False ?c))"
  proof (rule scan_ok [where I = "\<lambda>us u. True" and us = "[]"])
    fix us t vs and u :: unit
    assume "flat A1 False ?c = us @ t # vs"
    then have t: "t \<in> set (flat A1 False ?c)" by simp
    from any_step_ok [OF ok2, of t u] obtain r where r: "any_step ?k2 t u = Some r"
      "case r of Inl u \<Rightarrow> True | Inr (t1, b) \<Rightarrow> t1 = t" by blast
    then have "case r of Inl b \<Rightarrow> True | Inr (t, b) \<Rightarrow> t \<in> set (flat A1 False ?c)" using t by (cases r) auto
    then show "\<exists>r. any_step ?k2 t u = Some r \<and>
        (case r of Inl b \<Rightarrow> True | Inr (t, b) \<Rightarrow> t \<in> set (flat A1 False ?c))" using r(1) by blast
  qed simp_all
  then obtain r where r: "scan (any_step ?k2) (flat A1 False ?c) () = Some r"
    "case r of Inl b \<Rightarrow> True | Inr (t, b) \<Rightarrow> t \<in> set (flat A1 False ?c)" by blast
  have "\<exists>k3. (case r of Inr (t, True) \<Rightarrow> map_option (IncrementScheduledCount t)
      (migrate False (m_core_id (threads ?k2 t)) ?c t ?k2) | _ \<Rightarrow> Some ?k2) = Some k3 \<and> kernel_ok k3"
  proof (cases "\<exists>t. r = Inr (t, True)")
    case True
    then obtain t where t: "r = Inr (t, True)" by blast
    then have "t \<in> set (flat A1 False ?c)" using r(2) by simp
    from migrate_suggestion [OF ok2 this, of False] show ?thesis using t by auto
  next
    case False
    then show ?thesis using kernel_okI [OF ok2] by (auto split: sum.split bool.split)
  qed
  then obtain k3 where k3: "(case r of Inr (t, True) \<Rightarrow> map_option (IncrementScheduledCount t)
      (migrate False (m_core_id (threads ?k2 t)) ?c t ?k2) | _ \<Rightarrow> Some ?k2) = Some k3" "kernel_ok k3" by blast
  show "\<exists>k1. (let core_id = ?c
     in Option.bind (on_queue (\<lambda>ts. ChangeCore core_id False ts cur) (SetActiveCore cur (- 1) k)) (\<lambda>k1.
          let k2 = IncrementScheduledCount cur k1
          in Option.bind (scheduled_front core_id k2) (\<lambda>front.
               if front \<noteq> None then Some (SetSchedulerUpdateNeeded k2)
               else Option.bind (GetSuggestedFront core_id (m_priority_queue k2)) (\<lambda>first.
                      Option.bind (walk (any_step k2) (\<lambda>t. suggested_next core_id t k2) first ()) (\<lambda>r.
                        let suggested = (case r of Inl u \<Rightarrow> None | Inr (t, allowed) \<Rightarrow> Some t)
                        in map_option
                             (\<lambda>k3. if suggested \<noteq> Some cur then SetSchedulerUpdateNeeded k3
                                   else SetYieldScheduleCount cur p k3)
                             (case r of
                                Inr (t, True) \<Rightarrow> map_option (IncrementScheduledCount t)
                                                   (migrate False (m_core_id (threads k2 t)) core_id t k2)
                              | _ \<Rightarrow> Some k2)))))) = Some k1 \<and> kernel_ok k1"
    unfolding Let_def q bind.simps scheduled_front_ok [OF ok2 c] suggested_walk [OF ok2 c] r(1) k3(1)
    using k3(2) kernel_okI [OF ok2] by (simp add: kernel_ok_SetYieldScheduleCount)
qed

section \<open>The threads' own operations\<close>

lemma state_changed_ok:
  assumes "kernel_ok k"
  shows "\<exists>k2. OnThreadStateChanged t (m_thread_state (threads k t))
      (update_thread t (\<lambda>thread. thread\<lparr>m_thread_state := new\<rparr>) k) = Some k2 \<and> kernel_ok k2"
proof -
  from assms obtain A where "sched_ok A (threads k) (m_priority_queue k)" unfolding kernel_ok_def by blast
  from state_changed [OF this refl, of "update_thread t (\<lambda>thread. thread\<lparr>m_thread_state := new\<rparr>) k" t new] show ?thesis
    by auto
qed

lemma KThread_SetState_ok:
  assumes "kernel_ok k"
  shows "\<exists>k1. KThread_SetState t state k = Some k1 \<and> kernel_ok k1"
  using state_changed_ok [OF assms] assms
  by (auto simp: KThread_SetState_def Let_def kernel_ok_update_thread)

lemma UpdateState_ok:
  assumes "kernel_ok k"
  shows "\<exists>k1. UpdateState t k = Some k1 \<and> kernel_ok k1"
  using state_changed_ok [OF assms] assms
  by (auto simp: UpdateState_def Let_def kernel_ok_update_thread)

lemma Continue_ok:
  assumes "kernel_ok k"
  shows "\<exists>k1. Continue t k = Some k1 \<and> kernel_ok k1"
  using state_changed_ok [OF assms] by (auto simp: Continue_def Let_def)

lemma RequestSuspend_ok:
  assumes "kernel_ok k"
  shows "\<exists>k1. RequestSuspend ty t k = Some k1 \<and> kernel_ok k1"
  unfolding RequestSuspend_def TrySuspend_def
  using UpdateState_ok [OF kernel_ok_update_thread [OF assms]] kernel_ok_update_thread [OF assms]
  by (simp add: same_place_def)

lemma Resume_ok:
  assumes "kernel_ok k"
  shows "\<exists>k1. Resume ty t k = Some k1 \<and> kernel_ok k1"
  unfolding Resume_def using UpdateState_ok [OF kernel_ok_update_thread [OF assms]] by (simp add: same_place_def)

lemma same_belongs_change:
  assumes ok: "sched_ok A ts q" and "thread_ok th" and "belongs th = belongs (ts t)"
  shows "sched_ok A (ts(t := th)) q"
  using sched_ok_holds [OF ok, of t] assms(3)
  by (intro sched_ok_change [OF ok sched_ok_pq [OF ok] assms(2)]) simp_all

lemma highest_core_bit:
  assumes "aff \<noteq> 0"
  shows "bit aff (nat (highest_core aff))" and "0 \<le> highest_core aff"
proof -
  have n: "countl_zero aff < 64" "bit aff (63 - countl_zero aff)" using countl_zero_bit [OF assms] by simp_all
  then show "0 \<le> highest_core aff" by (simp add: highest_core_def)
  have "nat (highest_core aff) = 63 - countl_zero aff" using n(1) by (simp add: highest_core_def nat_diff_distrib)
  then show "bit aff (nat (highest_core aff))" using n(2) by simp
qed

text \<open>A core for a thread whose mask no longer has its core.\<close>

lemma new_core_ok:
  assumes "mask_ok aff" and "0 \<le> ideal \<longrightarrow> bit aff (nat ideal)" and "- 1 \<le> active_core" and "active_core < 4"
  shows "core_ok (if 0 \<le> active_core \<and> \<not> GetAffinity aff active_core
    then if 0 \<le> ideal then ideal else highest_core aff else active_core) aff"
  using assms highest_core_bit [of aff] GetAffinity_bit [of active_core aff] by (auto simp: core_ok_def mask_ok_def)

lemma single_mask: "0 \<le> c \<Longrightarrow> c < 4 \<Longrightarrow> mask_ok (push_bit (nat c) 1) \<and> bit (push_bit (nat c) 1 :: u64) (nat c)"
  by (auto simp: mask_ok_def bit_exp_iff)

lemma Pin_ok:
  assumes "kernel_ok k" and c: "0 \<le> c" "c < 4" and "m_num_core_migration_disables (threads k t) = 0"
  shows "\<exists>k1. Pin c t k = Some k1 \<and> kernel_ok k1"
proof -
  from assms(1) obtain A where ok: "sched_ok A (threads k) (m_priority_queue k)" unfolding kernel_ok_def by blast
  let ?thread = "threads k t"
  let ?th = "?thread\<lparr>is_pinned := True, m_num_core_migration_disables := m_num_core_migration_disables ?thread + 1,
    m_original_physical_ideal_core_id := m_physical_ideal_core_id ?thread,
    m_original_physical_affinity_mask := m_physical_affinity_mask ?thread,
    m_core_id := c, m_physical_ideal_core_id := c, m_physical_affinity_mask := push_bit (nat c) 1\<rparr>"
  have old: "thread_ok ?thread" by (rule sched_ok_thread [OF ok])
  have m: "mask_ok (push_bit (nat c) 1)" "bit (push_bit (nat c) 1 :: u64) (nat c)" using single_mask [OF c] by simp_all
  then have core: "core_ok c (push_bit (nat c) 1)" using c by (simp add: core_ok_def mask_ok_def)
  have th: "thread_ok ?th" using old m core assms(4) c unfolding thread_ok_def by simp
  let ?k1 = "update_thread t (\<lambda>_. ?th) k"
  have "\<exists>k2. (if m_core_id ?thread \<noteq> c \<or> push_bit (nat c) 1 \<noteq> m_physical_affinity_mask ?thread
      then OnThreadAffinityMaskChanged t (m_physical_affinity_mask ?thread) (m_core_id ?thread) ?k1 else Some ?k1) = Some k2
      \<and> kernel_ok k2"
  proof (cases "m_core_id ?thread \<noteq> c \<or> push_bit (nat c) 1 \<noteq> m_physical_affinity_mask ?thread")
    case True
    have "\<exists>k2. OnThreadAffinityMaskChanged t (m_physical_affinity_mask ?thread) (m_core_id ?thread) ?k1 = Some k2 \<and>
        threads k2 = threads ?k1 \<and> kernel_ok k2"
      by (rule affinity_changed [OF ok th]) simp_all
    then show ?thesis using True by auto
  next
    case False
    then have "belongs ?th = belongs ?thread" by (simp add: belongs_def active_def fun_eq_iff)
    from kernel_okI [of A ?k1] same_belongs_change [OF ok th this] show ?thesis using False by simp
  qed
  then obtain k2 where k2: "(if m_core_id ?thread \<noteq> c \<or> push_bit (nat c) 1 \<noteq> m_physical_affinity_mask ?thread
      then OnThreadAffinityMaskChanged t (m_physical_affinity_mask ?thread) (m_core_id ?thread) ?k1 else Some ?k1) = Some k2"
    "kernel_ok k2" by blast
  have "kernel_ok (update_thread t (\<lambda>thread. thread\<lparr>m_suspend_allowed_flags :=
      m_suspend_allowed_flags thread AND NOT (push_bit 5 1)\<rparr>) k2)"
    by (rule kernel_ok_update_thread [OF k2(2)]) (simp add: same_place_def)
  from UpdateState_ok [OF this, of t] show ?thesis unfolding Pin_def Let_def k2(1) bind.simps .
qed

lemma Unpin_ok:
  assumes "kernel_ok k" and "0 \<le> m_core_id (threads k t)" and "m_num_core_migration_disables (threads k t) = 1"
  shows "\<exists>k1. Unpin terminated t k = Some k1 \<and> kernel_ok k1"
proof -
  from assms(1) obtain A where ok: "sched_ok A (threads k) (m_priority_queue k)" unfolding kernel_ok_def by blast
  let ?thread = "threads k t"
  let ?new = "m_original_physical_affinity_mask ?thread" and ?ideal = "m_original_physical_ideal_core_id ?thread"
  let ?th1 = "?thread\<lparr>is_pinned := False, m_num_core_migration_disables := m_num_core_migration_disables ?thread - 1,
    m_physical_ideal_core_id := ?ideal, m_physical_affinity_mask := ?new\<rparr>"
  let ?core = "if 0 \<le> m_core_id ?thread \<and> \<not> GetAffinity ?new (m_core_id ?thread)
    then if 0 \<le> ?ideal then ?ideal else highest_core ?new else m_core_id ?thread"
  let ?th2 = "?th1\<lparr>m_core_id := ?core\<rparr>"
  have old: "thread_ok ?thread" by (rule sched_ok_thread [OF ok])
  then have o: "mask_ok ?new" "0 \<le> ?ideal \<longrightarrow> bit ?new (nat ?ideal)" "- 1 \<le> m_core_id ?thread" "m_core_id ?thread < 4"
    using assms(3) by (simp_all add: thread_ok_def core_ok_def)
  have th2: "thread_ok ?th2" using old o(1,2) new_core_ok [OF o] assms(3) unfolding thread_ok_def by simp
  have same: "(if \<not> GetAffinity ?new (m_core_id ?thread) then ?th1\<lparr>m_core_id := if m_physical_ideal_core_id ?th1 \<ge> 0
      then m_physical_ideal_core_id ?th1 else highest_core ?new\<rparr> else ?th1) = ?th2"
    using assms(2) by simp
  have "\<exists>k2. (if ?new \<noteq> m_physical_affinity_mask ?thread
      then OnThreadAffinityMaskChanged t (m_physical_affinity_mask ?thread) (m_core_id ?thread) (update_thread t (\<lambda>_. ?th2) k)
      else Some (update_thread t (\<lambda>_. ?th1) k)) = Some k2 \<and> kernel_ok k2"
  proof (cases "?new = m_physical_affinity_mask ?thread")
    case False
    have "\<exists>k2. OnThreadAffinityMaskChanged t (m_physical_affinity_mask ?thread) (m_core_id ?thread)
        (update_thread t (\<lambda>_. ?th2) k) = Some k2 \<and> threads k2 = threads (update_thread t (\<lambda>_. ?th2) k) \<and> kernel_ok k2"
      by (rule affinity_changed [OF ok th2]) simp_all
    then show ?thesis using False by auto
  next
    case True
    have "thread_ok ?th1" using old o(1,2) assms(3) True unfolding thread_ok_def by simp
    moreover have "belongs ?th1 = belongs ?thread" using True by (simp add: belongs_def active_def fun_eq_iff)
    ultimately have "sched_ok A ((threads k)(t := ?th1)) (m_priority_queue k)" by (rule same_belongs_change [OF ok])
    then show ?thesis using True by (auto simp: kernel_ok_def)
  qed
  then obtain k2 where k2: "(if ?new \<noteq> m_physical_affinity_mask ?thread
      then OnThreadAffinityMaskChanged t (m_physical_affinity_mask ?thread) (m_core_id ?thread) (update_thread t (\<lambda>_. ?th2) k)
      else Some (update_thread t (\<lambda>_. ?th1) k)) = Some k2" "kernel_ok k2" by blast
  have "kernel_ok (update_thread t (\<lambda>thread. thread\<lparr>m_suspend_allowed_flags :=
      m_suspend_allowed_flags thread OR push_bit 5 1\<rparr>) k2)"
    by (rule kernel_ok_update_thread [OF k2(2)]) (simp add: same_place_def)
  note upd = UpdateState_ok [OF this, of t]
  have nn: "(m_core_id ?thread < 0) = False" using assms(2) by simp
  have "Unpin terminated t k = (if terminated then Some k2
      else UpdateState t (update_thread t (\<lambda>thread. thread\<lparr>m_suspend_allowed_flags :=
        m_suspend_allowed_flags thread OR push_bit 5 1\<rparr>) k2))"
    unfolding Unpin_def Let_def nn if_False same k2(1) bind.simps ..
  then show ?thesis using upd k2(2) by (cases terminated) simp_all
qed

text \<open>The translation of a mask to physical cores.\<close>

lemma physical_core: "i < 64 \<Longrightarrow> 0 \<le> VirtualToPhysicalCoreMap ! i \<and> nat (VirtualToPhysicalCoreMap ! i) < 4"
proof -
  assume "i < 64"
  have "length VirtualToPhysicalCoreMap = 64" by (simp add: VirtualToPhysicalCoreMap_def)
  then have "VirtualToPhysicalCoreMap ! i \<in> set VirtualToPhysicalCoreMap" using \<open>i < 64\<close> by (intro nth_mem) simp
  then show ?thesis by (auto simp: VirtualToPhysicalCoreMap_def)
qed

lemma convert_loop:
  assumes "\<And>c. c \<in> set cs \<Longrightarrow> nat c < 64"
  shows "\<exists>r. each_core (\<lambda>core m. Some (m OR push_bit (nat (VirtualToPhysicalCoreMap ! nat core)) 1)) cs m = Some r \<and>
    (\<forall>k. bit (r :: u64) k \<longleftrightarrow> bit m k \<or> (\<exists>c \<in> set cs. k = nat (VirtualToPhysicalCoreMap ! nat c)))"
  using assms
proof (induction cs arbitrary: m)
  case (Cons c cs)
  have n: "nat (VirtualToPhysicalCoreMap ! nat c) < 64" using physical_core [of "nat c"] Cons.prems [of c] by simp
  obtain r where r: "each_core (\<lambda>core m. Some (m OR push_bit (nat (VirtualToPhysicalCoreMap ! nat core)) 1)) cs
      (m OR push_bit (nat (VirtualToPhysicalCoreMap ! nat c)) 1) = Some r"
    "\<forall>k. bit r k \<longleftrightarrow> bit (m OR push_bit (nat (VirtualToPhysicalCoreMap ! nat c)) 1) k \<or>
      (\<exists>c \<in> set cs. k = nat (VirtualToPhysicalCoreMap ! nat c))"
    using Cons.IH [of "m OR push_bit (nat (VirtualToPhysicalCoreMap ! nat c)) 1"] Cons.prems by auto
  then show ?case using n by (auto simp: bit_or_iff bit_exp_iff)
qed simp

lemma convert_mask_bits: "bit (convert_mask v) k \<longleftrightarrow> (\<exists>i < 64. bit v i \<and> k = nat (VirtualToPhysicalCoreMap ! i))"
proof -
  have lt: "c \<in> set (cores_of v) \<Longrightarrow> nat c < 64" for c using bit_imp_le_length [of v "nat c"] by (simp add: set_cores_of)
  from convert_loop [where m = 0 and cs = "cores_of v", OF lt] obtain r where
    "for_cores (\<lambda>core m. Some (m OR push_bit (nat (VirtualToPhysicalCoreMap ! nat core)) 1)) v 0 = Some r"
    and r: "\<forall>k. bit (r :: u64) k \<longleftrightarrow> (\<exists>c \<in> set (cores_of v). k = nat (VirtualToPhysicalCoreMap ! nat c))"
    unfolding for_cores_list by auto
  then have "convert_mask v = r" by (simp add: convert_mask_def)
  moreover have "(\<exists>c \<in> set (cores_of v). k = nat (VirtualToPhysicalCoreMap ! nat c))
      \<longleftrightarrow> (\<exists>i < 64. bit v i \<and> k = nat (VirtualToPhysicalCoreMap ! i))"
  proof
    assume "\<exists>c \<in> set (cores_of v). k = nat (VirtualToPhysicalCoreMap ! nat c)"
    then obtain c where "c \<in> set (cores_of v)" "k = nat (VirtualToPhysicalCoreMap ! nat c)" by blast
    then show "\<exists>i < 64. bit v i \<and> k = nat (VirtualToPhysicalCoreMap ! i)"
      using lt [of c] by (intro exI [of _ "nat c"]) (simp add: set_cores_of)
  next
    assume "\<exists>i < 64. bit v i \<and> k = nat (VirtualToPhysicalCoreMap ! i)"
    then obtain i where "bit v i" "k = nat (VirtualToPhysicalCoreMap ! i)" by blast
    then show "\<exists>c \<in> set (cores_of v). k = nat (VirtualToPhysicalCoreMap ! nat c)"
      by (intro bexI [of _ "int i"]) (simp_all add: set_cores_of)
  qed
  ultimately show ?thesis using r by simp
qed

lemma convert_mask_ok:
  assumes "v \<noteq> 0"
  shows "mask_ok (convert_mask v)"
proof -
  obtain i where i: "i < 64" "bit v i" using assms word_bit_nonzero by blast
  then have "bit (convert_mask v) (nat (VirtualToPhysicalCoreMap ! i))" unfolding convert_mask_bits by blast
  then have "convert_mask v \<noteq> 0" by auto
  moreover have "k < 4" if k: "bit (convert_mask v) k" for k
  proof -
    obtain j where "j < 64" "k = nat (VirtualToPhysicalCoreMap ! j)" using k unfolding convert_mask_bits by blast
    then show ?thesis using physical_core [of j] by simp
  qed
  ultimately show ?thesis unfolding mask_ok_def by blast
qed

text \<open>What the system call has checked of the arguments, and that a thread asked to keep its ideal core has one.\<close>

definition core_mask_args :: "int \<Rightarrow> u64 \<Rightarrow> KThread \<Rightarrow> bool" where
  "core_mask_args core_id v th \<longleftrightarrow> v \<noteq> 0 \<and>
     (core_id = - 1 \<or> 0 \<le> core_id \<and> core_id < 64 \<and> bit v (nat core_id) \<or>
      core_id = - 3 \<and> 0 \<le> m_virtual_ideal_core_id th)"

lemma change_core_mask_ok:
  assumes "kernel_ok k" and args: "core_mask_args core_id v (threads k t)"
  shows "\<exists>b k1. change_core_mask core_id v t k = Some (b, k1) \<and> kernel_ok k1"
proof -
  from assms(1) obtain A where ok: "sched_ok A (threads k) (m_priority_queue k)" unfolding kernel_ok_def by blast
  let ?thread = "threads k t"
  let ?ideal = "if core_id \<noteq> - 3 then core_id else m_virtual_ideal_core_id ?thread" and ?mask = "convert_mask v"
  let ?core = "if ?ideal \<ge> 0 then VirtualToPhysicalCoreMap ! nat ?ideal else ?ideal"
  have old: "thread_ok ?thread" by (rule sched_ok_thread [OF ok])
  have defined: "\<not> (core_id = - 3 \<and> ?ideal < 0)" using args by (auto simp: core_mask_args_def)
  have ideal: "?ideal < 64" using args old by (auto simp: core_mask_args_def thread_ok_def)
  have m: "mask_ok ?mask" using args by (intro convert_mask_ok) (simp add: core_mask_args_def)
  show ?thesis
  proof (cases "core_id = - 3 \<and> push_bit (nat ?ideal) 1 AND v = 0")
    case True
    have "change_core_mask core_id v t k = Some (False, k)"
      unfolding change_core_mask_def Let_def if_not_P [OF defined] if_P [OF True] ..
    then show ?thesis using assms(1) by blast
  next
    case False
    have "bit v (nat ?ideal)" if "0 \<le> ?ideal"
    proof (cases "core_id = - 3")
      case True
      then have "v AND push_bit (nat ?ideal) 1 \<noteq> 0" using False by (simp add: and.commute)
      then show ?thesis using and_single_bit_0 [of v "nat ?ideal"] by blast
    next
      case False
      then show ?thesis using args that by (auto simp: core_mask_args_def)
    qed
    then have inmask: "0 \<le> ?core \<longrightarrow> bit ?mask (nat ?core)"
      using ideal unfolding convert_mask_bits by (auto intro!: exI [of _ "nat ?ideal"])
    let ?th1 = "?thread\<lparr>m_virtual_ideal_core_id := ?ideal, m_virtual_affinity_mask := v\<rparr>"
    show ?thesis
    proof (cases "m_num_core_migration_disables ?thread = 0")
      case True
      let ?th2 = "?th1\<lparr>m_physical_ideal_core_id := ?core, m_physical_affinity_mask := ?mask\<rparr>"
      let ?new = "if 0 \<le> m_core_id ?thread \<and> \<not> GetAffinity ?mask (m_core_id ?thread)
        then if 0 \<le> ?core then ?core else highest_core ?mask else m_core_id ?thread"
      have "- 1 \<le> m_core_id ?thread" "m_core_id ?thread < 4" using old by (simp_all add: thread_ok_def core_ok_def)
      then have core: "core_ok ?new ?mask" by (rule new_core_ok [OF m inmask])
      have th3: "thread_ok (?th2\<lparr>m_core_id := ?new\<rparr>)"
        using old m inmask core ideal True unfolding thread_ok_def by simp
      have same: "(if 0 \<le> m_core_id ?thread \<and> \<not> GetAffinity ?mask (m_core_id ?thread)
          then ?th2\<lparr>m_core_id := if ?core \<ge> 0 then ?core else highest_core ?mask\<rparr> else ?th2) = ?th2\<lparr>m_core_id := ?new\<rparr>"
        by simp
      show ?thesis
      proof (cases "?mask = m_physical_affinity_mask ?thread")
        case eq: True
        have "thread_ok ?th2" using old m inmask ideal True eq unfolding thread_ok_def by simp
        moreover have "belongs ?th2 = belongs ?thread" using eq by (simp add: belongs_def active_def fun_eq_iff)
        ultimately have "sched_ok A ((threads k)(t := ?th2)) (m_priority_queue k)" by (rule same_belongs_change [OF ok])
        then have "kernel_ok (update_thread t (\<lambda>_. ?th2) k)" by (auto simp: kernel_ok_def)
        moreover have "change_core_mask core_id v t k = Some (True, update_thread t (\<lambda>_. ?th2) k)"
          using defined False True eq unfolding change_core_mask_def Let_def by simp
        ultimately show ?thesis by blast
      next
        case ne: False
        have "\<exists>k2. OnThreadAffinityMaskChanged t (m_physical_affinity_mask ?thread) (m_core_id ?thread)
            (update_thread t (\<lambda>_. ?th2\<lparr>m_core_id := ?new\<rparr>) k) = Some k2 \<and>
            threads k2 = threads (update_thread t (\<lambda>_. ?th2\<lparr>m_core_id := ?new\<rparr>) k) \<and> kernel_ok k2"
          by (rule affinity_changed [OF ok th3]) simp_all
        then obtain k2 where k2: "OnThreadAffinityMaskChanged t (m_physical_affinity_mask ?thread) (m_core_id ?thread)
            (update_thread t (\<lambda>_. ?th2\<lparr>m_core_id := ?new\<rparr>) k) = Some k2" "kernel_ok k2" by blast
        have c: "m_num_core_migration_disables ?th1 = 0" "?mask \<noteq> m_physical_affinity_mask ?th1" using True ne by simp_all
        have g: "m_physical_affinity_mask ?th1 = m_physical_affinity_mask ?thread" "m_core_id ?th1 = m_core_id ?thread"
          by simp_all
        have "change_core_mask core_id v t k = Some (True, k2)"
          unfolding change_core_mask_def Let_def if_not_P [OF defined] if_not_P [OF False] if_P [OF c(1)] if_P [OF c(2)]
          unfolding g same k2(1) option.map ..
        then show ?thesis using k2(2) by blast
      qed
    next
      case disabled: False
      let ?th2 = "?th1\<lparr>m_original_physical_ideal_core_id := ?core, m_original_physical_affinity_mask := ?mask\<rparr>"
      have "thread_ok ?th2" using old m inmask ideal disabled unfolding thread_ok_def by simp
      moreover have "belongs ?th2 = belongs ?thread" by (simp add: belongs_def active_def fun_eq_iff)
      ultimately have "sched_ok A ((threads k)(t := ?th2)) (m_priority_queue k)" by (rule same_belongs_change [OF ok])
      then have "kernel_ok (update_thread t (\<lambda>_. ?th2) k)" by (auto simp: kernel_ok_def)
      moreover have "change_core_mask core_id v t k = Some (True, update_thread t (\<lambda>_. ?th2) k)"
        using defined False disabled unfolding change_core_mask_def Let_def by simp
      ultimately show ?thesis by blast
    qed
  qed
qed

lemma PinCurrentThread_ok:
  assumes "kernel_ok k" and "0 \<le> c" and "c < 4" and "m_num_core_migration_disables (threads k t) = 0"
  shows "\<exists>k1. PinCurrentThread terminated c p t k = Some k1 \<and> kernel_ok k1"
  using assms Pin_ok [of "update_process p (\<lambda>process. process\<lparr>m_pinned_threads := (m_pinned_threads process)(c := Some t)\<rparr>) k" c t]
  by (auto simp: PinCurrentThread_def)

lemma UnpinCurrentThread_ok:
  assumes "kernel_ok k" and "0 \<le> m_core_id (threads k t)" and "m_num_core_migration_disables (threads k t) = 1"
  shows "\<exists>k1. UnpinCurrentThread terminated c p t k = Some k1 \<and> kernel_ok k1"
  using Unpin_ok [OF assms, of terminated] by (auto simp: UnpinCurrentThread_def)



end
