(* ===== verification/Scheduler_Update.thy ===== *)
theory Scheduler_Update
  imports Scheduler_Props
begin

text \<open>
  The update that gives every core its thread: it always ends, keeps the queues, and leaves every core
  with the first thread of its queue; a core stays idle only if nothing could be moved to it.
\<close>

section \<open>The queues of the cores after a migration\<close>

lemma distinct_after_move: "sched_ok A ts q \<Longrightarrow> distinct (A w p c)"
  by (rule pq_ok_distinct [OF sched_ok_pq])

lemma filter_other: "t \<notin> set xs \<Longrightarrow> filter (\<lambda>x. x \<noteq> t) xs = xs"
  by (induction xs) auto

text \<open>A thread leaves the queue of the core it was on.\<close>

lemma scheduled_after_move:
  assumes ok: "sched_ok A ts q" and act: "active (ts t)" and c: "c \<noteq> core"
  shows "flat (after_move False core t ts A) True c = filter (\<lambda>x. x \<noteq> t) (flat A True c)"
proof -
  let ?A1 = "after_move False core t ts A"
  have "?A1 True p c = filter (\<lambda>x. x \<noteq> t) (A True p c)" for p
  proof (cases "t \<in> set (A True p c)")
    case True
    then have "m_priority (ts t) = p" "valid_at p c" "c = m_core_id (ts t)" using in_queue [OF ok True] by simp_all
    then have "?A1 True p c = remove1 t (A True p c)" using act c by (simp add: after_move_def moved_def)
    also have "\<dots> = filter (\<lambda>x. x \<noteq> t) (A True p c)"
      using distinct_after_move [OF ok] by (auto simp: distinct_remove1_removeAll removeAll_filter_not_eq intro: filter_cong)
    finally show ?thesis .
  next
    case False
    have "?A1 True p c = A True p c"
      using False c by (auto simp: after_move_def moved_def remove1_idem)
    then show ?thesis using filter_other [OF False] by simp
  qed
  then show ?thesis by (simp add: flat_def flat_from_def filter_concat comp_def)
qed

text \<open>An idle core has only the thread it took.\<close>

lemma one_element: "distinct xs \<Longrightarrow> set xs = {t} \<Longrightarrow> xs = [t]"
  by (cases xs; cases "tl xs") auto

lemma taken_alone:
  assumes ok: "sched_ok A ts q" and ok1: "sched_ok A1 (ts(t := (ts t)\<lparr>m_core_id := core\<rparr>)) q1"
    and t: "t \<in> set (flat A False core)" and idle: "flat A True core = []"
  shows "flat A1 True core = [t]"
proof (rule one_element)
  show "distinct (flat A1 True core)" by (rule distinct_flat [OF sched_ok_pq [OF ok1]])
  have "u \<in> set (flat A1 True core) \<longleftrightarrow> u = t" for u
  proof (cases "u = t")
    case True
    have "active (ts t)" "valid_at (m_priority (ts t)) core"
      using suggestion_member [OF ok suggestion_flat [OF ok t]] by simp_all
    then show ?thesis using True unfolding flat_member [OF ok1] by (simp add: belongs_def active_def places_def)
  next
    case False
    then show ?thesis using idle flat_member [OF ok, of u True core] unfolding flat_member [OF ok1] by simp
  qed
  then show "set (flat A1 True core) = {t}" by blast
qed

text \<open>The suggestions of the other cores are the same but for the thread.\<close>

lemma suggested_after_move:
  assumes "sched_ok A ts q" and "sched_ok A1 (ts(t := (ts t)\<lparr>m_core_id := core\<rparr>)) q1"
  shows "u \<noteq> t \<Longrightarrow> u \<in> set (flat A1 w c) \<longleftrightarrow> u \<in> set (flat A w c)"
    and "c \<noteq> core \<Longrightarrow> c \<noteq> m_core_id (ts t) \<Longrightarrow> t \<in> set (flat A1 False c) \<longleftrightarrow> t \<in> set (flat A False c)"
  unfolding flat_member [OF assms(1)] flat_member [OF assms(2)]
  by (auto simp: belongs_def active_def places_def)

section \<open>A core gets its thread\<close>

definition nopin :: "Kernel \<Rightarrow> bool" where
  "nopin k \<longleftrightarrow> (\<forall>p c. m_pinned_threads (processes k p) c = None)"

text \<open>No thread is of a priority so high that the threads of its core may not move.\<close>

definition calm :: "Kernel \<Rightarrow> bool" where
  "calm k \<longleftrightarrow> (\<forall>t. active (threads k t) \<longrightarrow> HighestCoreMigrationAllowedPriority \<le> m_priority (threads k t))"

definition running_on :: "int \<Rightarrow> Kernel \<Rightarrow> nat option" where
  "running_on c k = highest_priority_thread (schedulers k c)"

text \<open>What a thread asks for stays the same; its core may change.\<close>

definition claims_kept :: "Kernel \<Rightarrow> Kernel \<Rightarrow> bool" where
  "claims_kept k0 k \<longleftrightarrow> (\<forall>t. m_priority (threads k t) = m_priority (threads k0 t) \<and>
     m_physical_affinity_mask (threads k t) = m_physical_affinity_mask (threads k0 t) \<and>
     m_thread_state (threads k t) = m_thread_state (threads k0 t) \<and>
     IsDummyThread (threads k t) = IsDummyThread (threads k0 t))"

lemma claims_kept_same: "(\<And>t. same_place (threads k1 t) (threads k t)) \<Longrightarrow> claims_kept k k1"
  by (simp add: claims_kept_def same_place_def)

lemma claims_kept_trans: "claims_kept k0 k \<Longrightarrow> claims_kept k k1 \<Longrightarrow> claims_kept k0 k1"
  by (simp add: claims_kept_def)

text \<open>A core whose thread has changed is in the set of those to be rescheduled.\<close>

definition told :: "Kernel \<Rightarrow> Kernel \<Rightarrow> u64 \<Rightarrow> bool" where
  "told k0 k needing \<longleftrightarrow> claims_kept k0 k \<and> (\<forall>c. 0 \<le> c \<longrightarrow> c < 4 \<longrightarrow> running_on c k \<noteq> running_on c k0 \<longrightarrow> bit needing (nat c))"

lemma pins_frame [simp]:
  "m_pinned_threads (processes (IncrementScheduledCount t k) p) = m_pinned_threads (processes k p)"
  by (simp add: IncrementScheduledCount_def update_process_def split: option.split)

lemma set_top_effect:
  assumes "0 \<le> c" and "c < 4"
  obtains k1 m where "set_top c ticks tt (k, needing, tops) = (k1, needing OR m, tops(c := tt))"
    and "m_priority_queue k1 = m_priority_queue k" and "\<And>t. same_place (threads k1 t) (threads k t)"
    and "running_on c k1 = tt" and "\<And>d. d \<noteq> c \<Longrightarrow> running_on d k1 = running_on d k"
    and "nopin k1 = nopin k" and "m_scheduler_update_needed k1 = m_scheduler_update_needed k"
    and "running_on c k \<noteq> tt \<Longrightarrow> bit m (nat c)"
proof -
  obtain m k1 where u: "UpdateHighestPriorityThread c ticks tt k = (m, k1)" by fastforce
  show ?thesis
  proof (cases "running_on c k = tt")
    case True
    then have "m = 0 \<and> k1 = k" using u by (simp add: UpdateHighestPriorityThread_def running_on_def)
    then show ?thesis using that [of k1 0] u True by (simp add: set_top_def)
  next
    case False
    let ?k2 = "case running_on c k of None \<Rightarrow> k
      | Some t \<Rightarrow> update_thread t (\<lambda>thread. thread\<lparr>m_last_scheduled_tick := ticks\<rparr>) (IncrementScheduledCount t k)"
    let ?k3 = "if should_count_idle (schedulers ?k2 c)
      then case tt of None \<Rightarrow> update_scheduler c (\<lambda>s. s\<lparr>idle_count := idle_count s + 1\<rparr>) ?k2
        | Some t \<Rightarrow> (case m_parent (threads ?k2 t) of None \<Rightarrow> ?k2
            | Some p \<Rightarrow> update_process p
                (\<lambda>process. process\<lparr>m_running_threads := (m_running_threads process)(c := Some t),
                   m_running_thread_idle_counts := (m_running_thread_idle_counts process)
                     (c := idle_count (schedulers ?k2 c)),
                   m_running_thread_switch_counts := (m_running_thread_switch_counts process)(c := 0)\<rparr>) ?k2)
      else ?k2"
    have e: "m = push_bit (nat c) 1"
      "k1 = update_scheduler c (\<lambda>s. s\<lparr>highest_priority_thread := tt, needs_scheduling := True\<rparr>) ?k3"
      using u False unfolding UpdateHighestPriorityThread_def Let_def running_on_def by simp_all
    have k2: "m_priority_queue ?k2 = m_priority_queue k" "\<And>t. same_place (threads ?k2 t) (threads k t)"
      "schedulers ?k2 = schedulers k" "\<And>p. m_pinned_threads (processes ?k2 p) = m_pinned_threads (processes k p)"
      "m_scheduler_update_needed ?k2 = m_scheduler_update_needed k"
      by (auto simp: same_place_def update_thread_def IncrementScheduledCount_def update_process_def split: option.split)
    have k2r: "running_on d ?k2 = running_on d k" for d using k2(3) by (simp add: running_on_def [of d])
    have k3: "m_priority_queue ?k3 = m_priority_queue ?k2" "threads ?k3 = threads ?k2"
      "\<And>d. running_on d ?k3 = running_on d ?k2" "\<And>p. m_pinned_threads (processes ?k3 p) = m_pinned_threads (processes ?k2 p)"
      "m_scheduler_update_needed ?k3 = m_scheduler_update_needed ?k2"
      by (auto simp: running_on_def update_process_def update_scheduler_def split: option.split)
    have k1: "m_priority_queue k1 = m_priority_queue ?k3" "threads k1 = threads ?k3" "running_on c k1 = tt"
      "\<And>d. d \<noteq> c \<Longrightarrow> running_on d k1 = running_on d ?k3" "processes k1 = processes ?k3"
      "m_scheduler_update_needed k1 = m_scheduler_update_needed ?k3"
      unfolding e(2) by (simp_all add: running_on_def update_scheduler_def)
    have b: "bit m (nat c)" unfolding e(1) using assms by (simp add: bit_exp_iff)
    have s: "set_top c ticks tt (k, needing, tops) = (k1, needing OR m, tops(c := tt))" by (simp add: set_top_def u)
    show ?thesis
    proof (rule that [OF s])
      show "m_priority_queue k1 = m_priority_queue k" using k1(1) k3(1) k2(1) by (rule trans [OF _ trans])
      show "same_place (threads k1 t) (threads k t)" for t unfolding k1(2) k3(2) by (rule k2(2))
      show "running_on c k1 = tt" by (rule k1(3))
      show "running_on d k1 = running_on d k" if "d \<noteq> c" for d
        unfolding k1(4) [OF that] k3(3) by (rule k2r)
      show "nopin k1 = nopin k" unfolding nopin_def k1(5) k3(4) k2(4) ..
      show "m_scheduler_update_needed k1 = m_scheduler_update_needed k" unfolding k1(6) k3(5) k2(5) ..
      show "bit m (nat c)" by (rule b)
    qed
  qed
qed

lemma calm_same:
  assumes "\<And>t. same_place (threads k1 t) (threads k t)"
  shows "calm k1 = calm k"
  unfolding calm_def using assms same_place_belongs by (metis same_place_def)

lemma told_step:
  assumes "told k0 k n" and "\<And>d. d \<noteq> c \<Longrightarrow> running_on d k1 = running_on d k"
    and "running_on c k \<noteq> running_on c k1 \<Longrightarrow> bit m (nat c)" and "claims_kept k k1"
  shows "told k0 k1 (n OR m)"
  unfolding told_def bit_or_iff
proof (intro conjI allI impI)
  show "claims_kept k0 k1" using assms(1,4) claims_kept_trans by (auto simp: told_def)
next
  fix d assume d: "0 \<le> d" "d < 4" "running_on d k1 \<noteq> running_on d k0"
  show "bit n (nat d) \<or> bit m (nat d)"
  proof (cases "running_on d k = running_on d k1")
    case True
    then show ?thesis using assms(1) d by (simp add: told_def)
  next
    case False
    then show ?thesis using assms(2) [of d] assms(3) by (cases "d = c") auto
  qed
qed

text \<open>Every core first gets the first thread of its queue, or the one pinned there.\<close>

lemma choose_tops_ok:
  assumes "sched_ok A (threads k) (m_priority_queue k)" and "\<forall>c \<in> set cs. 0 \<le> c \<and> c < 4" and "distinct cs"
    and "told k0 k n"
  shows "\<exists>idle' k' n' tops'. choose_tops ticks cs idle (k, n, tops) = Some (idle', k', n', tops') \<and>
    sched_ok A (threads k') (m_priority_queue k') \<and> told k0 k' n' \<and>
    nopin k' = nopin k \<and> calm k' = calm k \<and> m_scheduler_update_needed k' = m_scheduler_update_needed k \<and>
    (\<forall>j. bit idle' j \<longleftrightarrow> bit idle j \<or> (\<exists>c \<in> set cs. j = nat c \<and> flat A True c = [])) \<and>
    (\<forall>c \<in> set cs. running_on c k' = tops' c \<and> (nopin k \<longrightarrow> tops' c = hd_or (flat A True c) None)) \<and>
    (\<forall>c. c \<notin> set cs \<longrightarrow> running_on c k' = running_on c k \<and> tops' c = tops c)"
  using assms
proof (induction cs arbitrary: k n tops idle)
  case Nil
  then show ?case by auto
next
  case (Cons c cs)
  have c: "0 \<le> c" "c < 4" using Cons.prems(2) by simp_all
  let ?tt = "case flat A True c of [] \<Rightarrow> None | t # ts \<Rightarrow> top_thread_of c t k"
  let ?idle = "case flat A True c of [] \<Rightarrow> idle OR push_bit (nat c) 1 | t # ts \<Rightarrow> idle"
  obtain k1 m where st: "set_top c ticks ?tt (k, n, tops) = (k1, n OR m, tops(c := ?tt))"
    and q: "m_priority_queue k1 = m_priority_queue k" and same: "\<And>t. same_place (threads k1 t) (threads k t)"
    and run: "running_on c k1 = ?tt" "\<And>d. d \<noteq> c \<Longrightarrow> running_on d k1 = running_on d k"
    and np: "nopin k1 = nopin k" and fl: "m_scheduler_update_needed k1 = m_scheduler_update_needed k"
    and b: "running_on c k \<noteq> ?tt \<Longrightarrow> bit m (nat c)" by (rule set_top_effect [OF c, of ticks ?tt k n tops]) (rule that)
  have ok1: "sched_ok A (threads k1) (m_priority_queue k1)"
    unfolding q by (rule sched_ok_same [OF Cons.prems(1) same])
  have b1: "running_on c k \<noteq> running_on c k1 \<Longrightarrow> bit m (nat c)" using b unfolding run(1) .
  have told1: "told k0 k1 (n OR m)" by (rule told_step [OF Cons.prems(4) run(2) b1 claims_kept_same [OF same]])
  have step: "choose_tops ticks (c # cs) idle (k, n, tops) = choose_tops ticks cs ?idle (k1, n OR m, tops(c := ?tt))"
    using scheduled_front_ok [OF Cons.prems(1) c] st by (cases "flat A True c") simp_all
  have cs: "\<forall>d \<in> set cs. 0 \<le> d \<and> d < 4" "distinct cs" using Cons.prems(2,3) by simp_all
  obtain idle' k' n' tops' where IH: "choose_tops ticks cs ?idle (k1, n OR m, tops(c := ?tt)) = Some (idle', k', n', tops')"
    "sched_ok A (threads k') (m_priority_queue k')" "told k0 k' n'" "nopin k' = nopin k1" "calm k' = calm k1"
    "m_scheduler_update_needed k' = m_scheduler_update_needed k1"
    and bits: "\<forall>j. bit idle' j \<longleftrightarrow> bit ?idle j \<or> (\<exists>c \<in> set cs. j = nat c \<and> flat A True c = [])"
    and ins: "\<forall>c \<in> set cs. running_on c k' = tops' c \<and> (nopin k1 \<longrightarrow> tops' c = hd_or (flat A True c) None)"
    and outs: "\<forall>d. d \<notin> set cs \<longrightarrow> running_on d k' = running_on d k1 \<and> tops' d = (tops(c := ?tt)) d"
    using Cons.IH [OF ok1 cs told1, of ?idle "tops(c := ?tt)"] by - (elim exE conjE, rule that)
  have "c \<notin> set cs" using Cons.prems(3) by simp
  then have c': "running_on c k' = ?tt" "tops' c = ?tt" using outs run(1) by simp_all
  have head: "nopin k \<longrightarrow> ?tt = hd_or (flat A True c) None"
    by (cases "flat A True c") (auto simp: nopin_def top_thread_of_def split: option.split)
  have "bit idle' j \<longleftrightarrow> bit idle j \<or> (\<exists>d \<in> set (c # cs). j = nat d \<and> flat A True d = [])" for j
    using bits c by (cases "flat A True c") (auto simp: bit_or_iff bit_exp_iff)
  moreover have "running_on d k' = tops' d \<and> (nopin k \<longrightarrow> tops' d = hd_or (flat A True d) None)" if "d \<in> set (c # cs)" for d
    using that ins np c' head by (cases "d = c") simp_all
  moreover have "running_on d k' = running_on d k \<and> tops' d = tops d" if "d \<notin> set (c # cs)" for d
    using that outs run(2) by simp
  ultimately show ?case unfolding step using IH np fl calm_same [OF same]
    by - (rule exI [where x = idle'], rule exI [where x = k'], rule exI [where x = n'], rule exI [where x = tops'], simp)
qed

section \<open>Threads for the idle cores\<close>

text \<open>Nothing else could be moved to the core: every thread that may run there is alone on its own.\<close>

definition lonely :: "Lists \<Rightarrow> Threads \<Rightarrow> int \<Rightarrow> bool" where
  "lonely A ts c \<longleftrightarrow> (\<forall>s \<in> set (flat A False c). 0 \<le> m_core_id (ts s) \<and> flat A True (m_core_id (ts s)) = [s])"

lemma lonely_same: "(\<And>t. same_place (ts1 t) (ts t)) \<Longrightarrow> lonely A ts1 c = lonely A ts c"
  by (simp add: lonely_def same_place_def)

text \<open>The cores that are left are idle; the others have their first thread, or are idle for good.\<close>

definition fill_ok :: "Kernel \<Rightarrow> Lists \<Rightarrow> int list \<Rightarrow> UpdateState \<Rightarrow> bool" where
  "fill_ok k0 A rest = (\<lambda>(k, n, tops).
     sched_ok A (threads k) (m_priority_queue k) \<and> told k0 k n \<and> \<not> m_scheduler_update_needed k \<and>
     nopin k = nopin k0 \<and> calm k = calm k0 \<and> (\<forall>c. 0 \<le> c \<longrightarrow> c < 4 \<longrightarrow> running_on c k = tops c) \<and>
     (\<forall>c \<in> set rest. flat A True c = []) \<and>
     (nopin k0 \<longrightarrow> (\<forall>c. 0 \<le> c \<longrightarrow> c < 4 \<longrightarrow> tops c = hd_or (flat A True c) None)) \<and>
     (nopin k0 \<and> calm k0 \<longrightarrow>
       (\<forall>c. 0 \<le> c \<longrightarrow> c < 4 \<longrightarrow> c \<notin> set rest \<longrightarrow> flat A True c = [] \<longrightarrow> lonely A (threads k) c)))"

lemma scheduled_member:
  assumes ok: "sched_ok A ts q" and t: "t \<in> set (flat A False c)" and "0 \<le> m_core_id (ts t)"
  shows "t \<in> set (flat A True (m_core_id (ts t)))"
  using suggestion_member [OF ok suggestion_flat [OF ok t]] assms(3) unfolding flat_member [OF ok]
  by (simp add: belongs_def places_def valid_at_def)

lemma scheduled_core:
  assumes ok: "sched_ok A ts q" and "t \<in> set (flat A True d)"
  shows "m_core_id (ts t) = d"
  using assms(2) unfolding flat_member [OF ok] by (simp add: belongs_def places_def)

text \<open>A thread taken by an idle core; the core it leaves has another one.\<close>

lemma take_ok:
  assumes ok: "sched_ok A (threads k) (m_priority_queue k)" and c: "0 \<le> c" "c < 4"
    and told: "told k0 k n" and flag: "\<not> m_scheduler_update_needed k"
    and np: "nopin k = nopin k0" and ca: "calm k = calm k0"
    and run: "\<And>d. 0 \<le> d \<Longrightarrow> d < 4 \<Longrightarrow> running_on d k = tops d"
    and idle: "flat A True c = []" "\<forall>d \<in> set rest. flat A True d = []"
    and t: "t \<in> set (flat A False c)" and rest: "c \<notin> set rest"
    and heads: "\<And>d. nopin k0 \<Longrightarrow> 0 \<le> d \<Longrightarrow> d < 4 \<Longrightarrow> d \<noteq> c \<Longrightarrow> tops d = hd_or (filter (\<lambda>x. x \<noteq> t) (flat A True d)) None"
    and more: "nopin k0 \<Longrightarrow> 0 \<le> m_core_id (threads k t) \<Longrightarrow> flat A True (m_core_id (threads k t)) \<noteq> [t]"
    and lon: "\<And>d. nopin k0 \<Longrightarrow> calm k0 \<Longrightarrow> 0 \<le> d \<Longrightarrow> d < 4 \<Longrightarrow> d \<noteq> c \<Longrightarrow> d \<notin> set rest \<Longrightarrow> flat A True d = [] \<Longrightarrow>
      lonely A (threads k) d"
  shows "\<exists>st1 A1. take_thread c ticks (m_core_id (threads k t)) t (k, n, tops) = Some st1 \<and> fill_ok k0 A1 rest st1"
proof -
  let ?prev = "m_core_id (threads k t)" and ?A1 = "after_move False c t (threads k) A"
  let ?ts1 = "(threads k)(t := (threads k t)\<lparr>m_core_id := c\<rparr>)"
  have sug: "active (threads k t)" "core_ok c (m_physical_affinity_mask (threads k t))"
    using suggestion_member [OF ok suggestion_flat [OF ok t]] by simp_all
  then have "m_thread_state (threads k t) = Runnable" by (simp add: active_def)
  from migrate_ok [OF ok sug(2) this, of False] obtain q1 where
    q1: "migrate False ?prev c t k = Some (SetActiveCore t c k\<lparr>m_priority_queue := q1\<rparr>)" "sched_ok ?A1 ?ts1 q1" by blast
  let ?k1 = "SetActiveCore t c k\<lparr>m_priority_queue := q1\<rparr>"
  have k1: "threads ?k1 = ?ts1" "m_priority_queue ?k1 = q1" "running_on d ?k1 = running_on d k" "nopin ?k1 = nopin k"
    "m_scheduler_update_needed ?k1 = m_scheduler_update_needed k" for d
    by (simp_all add: SetActiveCore_def running_on_def nopin_def update_thread_def)
  have ca1: "calm ?k1 = calm k" by (auto simp: calm_def SetActiveCore_def active_def)
  obtain k2 m where st: "set_top c ticks (Some t) (?k1, n, tops) = (k2, n OR m, tops(c := Some t))"
    and q2: "m_priority_queue k2 = m_priority_queue ?k1" and same: "\<And>u. same_place (threads k2 u) (threads ?k1 u)"
    and run2: "running_on c k2 = Some t" "\<And>d. d \<noteq> c \<Longrightarrow> running_on d k2 = running_on d ?k1"
    and np2: "nopin k2 = nopin ?k1" and fl2: "m_scheduler_update_needed k2 = m_scheduler_update_needed ?k1"
    and b: "running_on c ?k1 \<noteq> Some t \<Longrightarrow> bit m (nat c)"
    by (rule set_top_effect [OF c, of ticks "Some t" ?k1 n tops]) (rule that)
  have ok2: "sched_ok ?A1 (threads k2) (m_priority_queue k2)"
    unfolding q2 k1(2) by (rule sched_ok_same [OF q1(2)]) (use same k1(1) in simp)
  have b1: "running_on c k \<noteq> running_on c k2 \<Longrightarrow> bit m (nat c)" using b unfolding run2(1) k1(3) .
  have "claims_kept k ?k1" by (simp add: claims_kept_def SetActiveCore_def)
  then have kept: "claims_kept k k2" by (rule claims_kept_trans) (rule claims_kept_same [OF same])
  have told2: "told k0 k2 (n OR m)" by (rule told_step [OF told _ b1 kept]) (simp add: run2(2) k1(3))
  have Fc: "flat ?A1 True c = [t]" by (rule taken_alone [OF ok q1(2) t idle(1)])
  have Fd: "flat ?A1 True d = filter (\<lambda>x. x \<noteq> t) (flat A True d)" if "d \<noteq> c" for d
    by (rule scheduled_after_move [OF ok sug(1) that])
  have heads2: "(tops(c := Some t)) d = hd_or (flat ?A1 True d) None" if "nopin k0" "0 \<le> d" "d < 4" for d
    using heads [OF that] Fc Fd by (cases "d = c") simp_all
  have lon2: "lonely ?A1 (threads k2) d"
    if n: "nopin k0" "calm k0" and d: "0 \<le> d" "d < 4" "d \<notin> set rest" and e: "flat ?A1 True d = []" for d
  proof -
    have "d \<noteq> c" using Fc e by auto
    then have e': "filter (\<lambda>x. x \<noteq> t) (flat A True d) = []" using Fd e by simp
    have d0: "flat A True d = []"
    proof (rule ccontr)
      assume ne: "flat A True d \<noteq> []"
      have sub: "\<forall>x \<in> set (flat A True d). x = t" using e' by (simp add: filter_empty_conv)
      then have "set (flat A True d) = {t}" using ne by (cases "flat A True d") auto
      then have "flat A True d = [t]" by (rule one_element [OF distinct_flat [OF sched_ok_pq [OF ok]]])
      moreover from this have "?prev = d" using scheduled_core [OF ok, of t d] by simp
      ultimately show False using more [OF n(1)] d(1) by simp
    qed
    have l: "lonely A (threads k) d" by (rule lon [OF n d(1,2) \<open>d \<noteq> c\<close> d(3) d0])
    have "lonely ?A1 ?ts1 d"
      unfolding lonely_def
    proof
      fix s assume s: "s \<in> set (flat ?A1 False d)"
      have "s \<noteq> t"
      proof
        assume "s = t"
        have "d \<noteq> ?prev" using scheduled_member [OF ok t] d(1) d0 by auto
        then have "t \<in> set (flat A False d)"
          using suggested_after_move(2) [OF ok q1(2) \<open>d \<noteq> c\<close>] s \<open>s = t\<close> by simp
        then show False using l more [OF n(1)] by (auto simp: lonely_def)
      qed
      then have "s \<in> set (flat A False d)" using suggested_after_move(1) [OF ok q1(2)] s by blast
      then have s2: "0 \<le> m_core_id (threads k s)" "flat A True (m_core_id (threads k s)) = [s]"
        using l by (simp_all add: lonely_def)
      then have "m_core_id (threads k s) \<noteq> c" using idle(1) by auto
      then show "0 \<le> m_core_id (?ts1 s) \<and> flat ?A1 True (m_core_id (?ts1 s)) = [s]"
        using s2 \<open>s \<noteq> t\<close> Fd by simp
    qed
    then show ?thesis using lonely_same [of "threads k2" ?ts1] same k1(1) by simp
  qed
  have "fill_ok k0 ?A1 rest (k2, n OR m, tops(c := Some t))"
    unfolding fill_ok_def prod.case
  proof (intro conjI allI impI ballI)
    show "flat ?A1 True d = []" if "d \<in> set rest" for d
      using that rest idle(2) Fd [of d] by (cases "d = c") simp_all
    show "running_on d k2 = (tops(c := Some t)) d" if "0 \<le> d" "d < 4" for d
      using run2 run [OF that] k1(3) by simp
    show "calm k2 = calm k0" using calm_same [OF same] ca1 ca by simp
  qed (use ok2 told2 fl2 flag np2 np k1 heads2 lon2 in \<open>simp_all\<close>)
  moreover have "take_thread c ticks ?prev t (k, n, tops) = Some (k2, n OR m, tops(c := Some t))"
    by (simp add: take_thread_def q1(1) st)
  ultimately show ?thesis by blast
qed

lemma suggestion_cores:
  assumes ok: "sched_ok A ts q" and us: "set us \<subseteq> set (flat A False c)" "distinct us" and c: "0 \<le> c" "c < 4"
    and on: "\<forall>s \<in> set us. 0 \<le> m_core_id (ts s) \<and> tops (m_core_id (ts s)) = Some s"
  shows "length us < 4"
proof -
  have inj: "inj_on (\<lambda>s. m_core_id (ts s)) (set us)"
  proof (rule inj_onI)
    fix s u assume "s \<in> set us" "u \<in> set us" and eq: "m_core_id (ts s) = m_core_id (ts u)"
    then have "tops (m_core_id (ts s)) = Some s" "tops (m_core_id (ts u)) = Some u" using on by blast+
    then show "s = u" unfolding eq by simp
  qed
  have "(\<lambda>s. m_core_id (ts s)) ` set us \<subseteq> {0..<4} - {c}"
  proof
    fix d assume "d \<in> (\<lambda>s. m_core_id (ts s)) ` set us"
    then obtain s where s: "s \<in> set us" "d = m_core_id (ts s)" by blast
    then have "s \<in> set (flat A False c)" using us(1) by blast
    from suggestion_member(4,6) [OF ok suggestion_flat [OF ok this]] on s
    show "d \<in> {0..<4} - {c}" by simp
  qed
  then have "card ((\<lambda>s. m_core_id (ts s)) ` set us) \<le> card ({0..<4} - {c})" by (intro card_mono) simp_all
  also have "\<dots> = 3" using c by simp
  finally show ?thesis using card_image [OF inj] distinct_card [OF us(2)] by simp
qed

lemma suggestion_step_ok:
  assumes f: "fill_ok k0 A rest (k, n, tops)" and c: "0 \<le> c" "c < 4" and L: "flat A False c = us @ t # vs"
    and cands: "cands = map (\<lambda>s. m_core_id (threads k s)) us"
    and on: "\<forall>s \<in> set us. 0 \<le> m_core_id (threads k s) \<and> tops (m_core_id (threads k s)) = Some s"
  shows "suggestion_step k tops t cands =
      (if 0 \<le> m_core_id (threads k t) \<and> tops (m_core_id (threads k t)) = Some t
       then Some (Inl (cands @ [m_core_id (threads k t)]))
       else Some (Inr (if migration_allowed (if 0 \<le> m_core_id (threads k t) then tops (m_core_id (threads k t)) else None) k
                       then Some t else None)))"
    and "\<not> (nopin k0 \<and> calm k0) \<or>
      migration_allowed (if 0 \<le> m_core_id (threads k t) then tops (m_core_id (threads k t)) else None) k"
proof -
  have ok: "sched_ok A (threads k) (m_priority_queue k)" using f by (simp add: fill_ok_def)
  have t: "t \<in> set (flat A False c)" using L by simp
  have "distinct us" using distinct_flat [OF sched_ok_pq [OF ok], of False c] L by simp
  have "set us \<subseteq> set (flat A False c)" using L by auto
  from suggestion_cores [OF ok this \<open>distinct us\<close> c on] have len: "length us < 4" .
  have core: "m_core_id (threads k t) < 4" using suggestion_member(6) [OF ok suggestion_flat [OF ok t]] .
  show "suggestion_step k tops t cands =
      (if 0 \<le> m_core_id (threads k t) \<and> tops (m_core_id (threads k t)) = Some t
       then Some (Inl (cands @ [m_core_id (threads k t)]))
       else Some (Inr (if migration_allowed (if 0 \<le> m_core_id (threads k t) then tops (m_core_id (threads k t)) else None) k
                       then Some t else None)))"
    using core len cands by (simp add: suggestion_step_def Let_def NUM_CPU_CORES_def)
  show "\<not> (nopin k0 \<and> calm k0) \<or>
      migration_allowed (if 0 \<le> m_core_id (threads k t) then tops (m_core_id (threads k t)) else None) k"
  proof (cases "nopin k0 \<and> calm k0 \<and> 0 \<le> m_core_id (threads k t)")
    case True
    let ?d = "m_core_id (threads k t)"
    have h: "tops ?d = hd_or (flat A True ?d) None" "calm k" using f True core by (simp_all add: fill_ok_def)
    show ?thesis
    proof (cases "flat A True ?d")
      case Nil
      then show ?thesis using h by (simp add: migration_allowed_def)
    next
      case (Cons u xs)
      then have "active (threads k u)" using flat_member [OF ok, of u True ?d] by (simp add: belongs_def)
      then show ?thesis using h Cons by (simp add: migration_allowed_def calm_def)
    qed
  qed (auto simp: migration_allowed_def)
qed

text \<open>The second try: a core whose first thread may move and is followed by another.\<close>

lemma first_is_head: "distinct (us @ s # ws) \<Longrightarrow> hd_or (us @ s # ws) None = Some s \<Longrightarrow> us = []"
  by (cases us) auto

lemma try_candidates_ok:
  assumes f: "fill_ok k0 A (c # rest) (k, n, tops)" and c: "0 \<le> c" "c < 4" and rest: "c \<notin> set rest"
    and vs: "\<forall>s \<in> set vs. s \<in> set (flat A False c) \<and> 0 \<le> m_core_id (threads k s) \<and> tops (m_core_id (threads k s)) = Some s"
  shows "\<exists>st1. try_candidates c ticks (map (\<lambda>s. m_core_id (threads k s)) vs) (k, n, tops) = Some st1 \<and>
    ((\<exists>A1. fill_ok k0 A1 rest st1) \<or>
     st1 = (k, n, tops) \<and> (nopin k0 \<longrightarrow> (\<forall>s \<in> set vs. flat A True (m_core_id (threads k s)) = [s])))"
  using vs
proof (induction vs)
  case (Cons s vs)
  have s: "s \<in> set (flat A False c)" "0 \<le> m_core_id (threads k s)" "tops (m_core_id (threads k s)) = Some s"
    using Cons.prems by simp_all
  let ?d = "m_core_id (threads k s)"
  have ok: "sched_ok A (threads k) (m_priority_queue k)" using f by (simp add: fill_ok_def)
  have d: "?d < 4" "?d \<noteq> c" using suggestion_member(4,6) [OF ok suggestion_flat [OF ok s(1)]] by simp_all
  obtain us ws where split: "flat A True ?d = us @ s # ws"
    using scheduled_member [OF ok s(1,2)] by (auto simp: in_set_conv_decomp)
  have dist: "distinct (us @ s # ws)" using distinct_flat [OF sched_ok_pq [OF ok], of True ?d] split by simp
  have first: "nopin k0 \<Longrightarrow> us = []"
    using first_is_head [OF dist] f s(2,3) d(1) split by (simp add: fill_ok_def del: hd_or_append)
  note nxt = scheduled_next_ok [OF ok split]
  show ?case
  proof (cases ws)
    case Nil
    then have "try_candidates c ticks (map (\<lambda>s. m_core_id (threads k s)) (s # vs)) (k, n, tops)
        = try_candidates c ticks (map (\<lambda>s. m_core_id (threads k s)) vs) (k, n, tops)"
      using s(3) nxt by simp
    moreover have "nopin k0 \<longrightarrow> flat A True ?d = [s]" using first split Nil by simp
    ultimately show ?thesis using Cons.IH Cons.prems by auto
  next
    case ws: (Cons x ws')
    obtain k1 m where st: "set_top ?d ticks (Some x) (k, n, tops) = (k1, n OR m, tops(?d := Some x))"
      and q: "m_priority_queue k1 = m_priority_queue k" and same: "\<And>t. same_place (threads k1 t) (threads k t)"
      and run: "running_on ?d k1 = Some x" "\<And>e. e \<noteq> ?d \<Longrightarrow> running_on e k1 = running_on e k"
      and np: "nopin k1 = nopin k" and fl: "m_scheduler_update_needed k1 = m_scheduler_update_needed k"
      and b: "running_on ?d k \<noteq> Some x \<Longrightarrow> bit m (nat ?d)"
      by (rule set_top_effect [OF s(2) d(1), of ticks "Some x" k n tops]) (rule that)
    have ok1: "sched_ok A (threads k1) (m_priority_queue k1)" unfolding q by (rule sched_ok_same [OF ok same])
    have b1: "running_on ?d k \<noteq> running_on ?d k1 \<Longrightarrow> bit m (nat ?d)" using b unfolding run(1) .
    have told: "told k0 k1 (n OR m)" by (rule told_step [OF _ run(2) b1 claims_kept_same [OF same]]) (use f in \<open>simp_all add: fill_ok_def\<close>)
    have core: "m_core_id (threads k1 s) = ?d" using same [of s] by (simp add: same_place_def)
    have heads: "(tops(?d := Some x)) e = hd_or (filter (\<lambda>y. y \<noteq> s) (flat A True e)) None"
      if n: "nopin k0" and e: "0 \<le> e" "e < 4" for e
    proof (cases "e = ?d")
      case True
      have "x \<noteq> s" using dist ws by auto
      then show ?thesis using first [OF n] split ws True by simp
    next
      case False
      then have "s \<notin> set (flat A True e)" using scheduled_core [OF ok, of s e] by auto
      then show ?thesis using f n e False by (simp add: fill_ok_def filter_other)
    qed
    have "\<exists>st1 A1. take_thread c ticks (m_core_id (threads k1 s)) s (k1, n OR m, tops(?d := Some x)) = Some st1 \<and>
        fill_ok k0 A1 rest st1"
    proof (rule take_ok [OF ok1 c told])
      show "running_on e k1 = (tops(?d := Some x)) e" if "0 \<le> e" "e < 4" for e
        using run f that by (simp add: fill_ok_def)
      show "flat A True (m_core_id (threads k1 s)) \<noteq> [s]" unfolding core split using ws by (cases us) simp_all
      show "lonely A (threads k1) e" if "nopin k0" "calm k0" "0 \<le> e" "e < 4" "e \<noteq> c" "e \<notin> set rest" "flat A True e = []" for e
        using f that lonely_same [of "threads k1" "threads k" A e] same by (simp add: fill_ok_def)
      show "calm k1 = calm k0" using f calm_same [OF same] by (simp add: fill_ok_def)
    qed (use f fl np s(1) rest heads in \<open>simp_all add: fill_ok_def\<close>)
    then show ?thesis using s(3) nxt ws st core by auto
  qed
qed simp

lemma fill_idle_core_ok:
  assumes f: "fill_ok k0 A (c # rest) (k, n, tops)" and c: "0 \<le> c" "c < 4" and rest: "c \<notin> set rest"
  shows "\<exists>st1 A1. fill_idle_core ticks c (k, n, tops) = Some st1 \<and> fill_ok k0 A1 rest st1"
proof -
  have ok: "sched_ok A (threads k) (m_priority_queue k)" using f by (simp add: fill_ok_def)
  let ?L = "flat A False c" and ?core = "\<lambda>s. m_core_id (threads k s)"
  let ?on = "\<lambda>s. 0 \<le> ?core s \<and> tops (?core s) = Some s"
  have "\<exists>r. scan (suggestion_step k tops) ?L [] = Some r \<and>
      (case r of Inl cands \<Rightarrow> cands = map ?core ?L \<and> (\<forall>s \<in> set ?L. ?on s)
       | Inr x \<Rightarrow> (case x of None \<Rightarrow> \<not> (nopin k0 \<and> calm k0) | Some t \<Rightarrow> t \<in> set ?L \<and> \<not> ?on t))"
  proof (rule scan_ok [where I = "\<lambda>us cands. cands = map ?core us \<and> (\<forall>s \<in> set us. ?on s)" and us = "[]"])
    fix us t vs cands
    assume L: "?L = us @ t # vs" and I: "cands = map ?core us \<and> (\<forall>s \<in> set us. ?on s)"
    then have on: "\<forall>s \<in> set us. ?on s" and cands: "cands = map ?core us" by simp_all
    note step = suggestion_step_ok [OF f c L cands on]
    show "\<exists>r. suggestion_step k tops t cands = Some r \<and>
      (case r of Inl cands \<Rightarrow> cands = map ?core (us @ [t]) \<and> (\<forall>s \<in> set (us @ [t]). ?on s)
       | Inr x \<Rightarrow> (case x of None \<Rightarrow> \<not> (nopin k0 \<and> calm k0) | Some t \<Rightarrow> t \<in> set ?L \<and> \<not> ?on t))"
    proof (cases "?on t")
      case True
      then show ?thesis unfolding step(1) if_P [OF True] using I by simp
    next
      case False
      have "t \<in> set ?L" using L by simp
      then show ?thesis unfolding step(1) if_not_P [OF False] using step(2) False
        by (cases "migration_allowed (if 0 \<le> ?core t then tops (?core t) else None) k") auto
    qed
  qed simp_all
  then obtain r where r: "scan (suggestion_step k tops) ?L [] = Some r"
    "case r of Inl cands \<Rightarrow> cands = map ?core ?L \<and> (\<forall>s \<in> set ?L. ?on s)
       | Inr x \<Rightarrow> (case x of None \<Rightarrow> \<not> (nopin k0 \<and> calm k0) | Some t \<Rightarrow> t \<in> set ?L \<and> \<not> ?on t)" by blast
  have e: "fill_idle_core ticks c (k, n, tops) = (case r of
        Inr (Some t) \<Rightarrow> take_thread c ticks (?core t) t (k, n, tops)
      | Inr None \<Rightarrow> Some (k, n, tops)
      | Inl candidates \<Rightarrow> try_candidates c ticks candidates (k, n, tops))"
    unfolding fill_idle_core_def Let_def prod.case suggested_walk [OF ok c] r(1) bind.simps ..
  consider t where "r = Inr (Some t)" | "r = Inr None" | cands where "r = Inl cands" by (cases r) auto
  then show ?thesis
  proof cases
    case (1 t)
    have t: "t \<in> set ?L" "\<not> ?on t" using r(2) 1 by simp_all
    have heads: "tops d = hd_or (filter (\<lambda>x. x \<noteq> t) (flat A True d)) None" if n0: "nopin k0" and d: "0 \<le> d" "d < 4" for d
    proof -
      have h: "tops d = hd_or (flat A True d) None" using f n0 d by (simp add: fill_ok_def)
      show ?thesis
      proof (cases "t \<in> set (flat A True d)")
        case True
        then have "?core t = d" by (rule scheduled_core [OF ok])
        then show ?thesis using h t(2) d by (cases "flat A True d") auto
      qed (simp add: h filter_other)
    qed
    have "flat A True (?core t) \<noteq> [t]" if "nopin k0" "0 \<le> ?core t"
      using f that t(2) suggestion_member(6) [OF ok suggestion_flat [OF ok t(1)]] by (auto simp: fill_ok_def)
    then have "\<exists>st1 A1. take_thread c ticks (?core t) t (k, n, tops) = Some st1 \<and> fill_ok k0 A1 rest st1"
      using f by (intro take_ok [OF ok c _ _ _ _ _ _ _ t(1) rest heads]) (simp_all add: fill_ok_def)
    then show ?thesis using e 1 by simp
  next
    case 2
    then have "fill_ok k0 A rest (k, n, tops)" using f r(2) by (auto simp: fill_ok_def)
    then show ?thesis using e 2 by auto
  next
    case (3 cands)
    then have cands: "cands = map ?core ?L" "\<forall>s \<in> set ?L. s \<in> set ?L \<and> ?on s" using r(2) by auto
    from try_candidates_ok [OF f c rest cands(2), of ticks] obtain st1 where
      st1: "try_candidates c ticks (map ?core ?L) (k, n, tops) = Some st1"
      "(\<exists>A1. fill_ok k0 A1 rest st1) \<or> st1 = (k, n, tops) \<and> (nopin k0 \<longrightarrow> (\<forall>s \<in> set ?L. flat A True (?core s) = [s]))"
      by auto
    have "\<exists>A1. fill_ok k0 A1 rest st1"
    proof (cases "\<exists>A1. fill_ok k0 A1 rest st1")
      case False
      then have l: "st1 = (k, n, tops)" "nopin k0 \<Longrightarrow> lonely A (threads k) c" using st1(2) cands(2) by (auto simp: lonely_def)
      have "fill_ok k0 A rest (k, n, tops)" using f l(2) unfolding fill_ok_def by auto
      then show ?thesis using l(1) by blast
    qed
    then show ?thesis using e 3 cands(1) st1(1) by auto
  qed
qed

section \<open>The update\<close>

lemma fill_all_ok:
  assumes "fill_ok k0 A cs st" and "distinct cs" and "\<forall>c \<in> set cs. 0 \<le> c \<and> c < 4"
  shows "\<exists>st1 A1. each_core (fill_idle_core ticks) cs st = Some st1 \<and> fill_ok k0 A1 [] st1"
  using assms
proof (induction cs arbitrary: st A)
  case (Cons c cs)
  obtain k n tops where st: "st = (k, n, tops)" by (cases st)
  have "0 \<le> c" "c < 4" "c \<notin> set cs" using Cons.prems(2,3) by simp_all
  from fill_idle_core_ok [OF Cons.prems(1) [unfolded st] this, of ticks] obtain st1 A1 where
    st1: "fill_idle_core ticks c st = Some st1" "fill_ok k0 A1 cs st1" unfolding st by blast
  from Cons.IH [OF st1(2)] Cons.prems(2,3) show ?case using st1(1) by simp
qed auto

lemma wake_effect:
  "m_priority_queue (wake_dummy_threads cur k) = m_priority_queue k"
  "same_place (threads (wake_dummy_threads cur k) t) (threads k t)"
  "running_on c (wake_dummy_threads cur k) = running_on c k"
  "m_scheduler_update_needed (wake_dummy_threads cur k) = m_scheduler_update_needed k"
  by (simp_all add: wake_dummy_threads_def Let_def running_on_def same_place_def update_thread_def)

lemma update_ok:
  assumes "kernel_ok k" and "m_scheduler_update_needed k"
  shows "\<exists>needing k1 A. UpdateHighestPriorityThreads cur ticks k = Some (needing, k1) \<and>
    sched_ok A (threads k1) (m_priority_queue k1) \<and> told k k1 needing \<and> \<not> m_scheduler_update_needed k1 \<and>
    (nopin k \<longrightarrow> (\<forall>c. 0 \<le> c \<longrightarrow> c < 4 \<longrightarrow> running_on c k1 = hd_or (flat A True c) None)) \<and>
    (nopin k \<and> calm k \<longrightarrow> (\<forall>c. 0 \<le> c \<longrightarrow> c < 4 \<longrightarrow> flat A True c = [] \<longrightarrow> lonely A (threads k1) c))"
proof -
  from assms(1) obtain A where ok: "sched_ok A (threads k) (m_priority_queue k)" unfolding kernel_ok_def by blast
  let ?k = "k\<lparr>m_scheduler_update_needed := False\<rparr>"
  have ok0: "sched_ok A (threads ?k) (m_priority_queue ?k)" using ok by simp
  have b: "\<forall>c \<in> set [0, 1, 2, 3 :: int]. 0 \<le> c \<and> c < 4" and d: "distinct [0, 1, 2, 3 :: int]" by simp_all
  have told0: "told k ?k 0" by (simp add: told_def running_on_def claims_kept_def)
  from choose_tops_ok [OF ok0 b d told0, of ticks 0 "\<lambda>c. None"] obtain idle k1 n1 tops1 where
    c1: "choose_tops ticks [0, 1, 2, 3] 0 (?k, 0, \<lambda>c. None) = Some (idle, k1, n1, tops1)"
      "sched_ok A (threads k1) (m_priority_queue k1)" "told k k1 n1" "nopin k1 = nopin ?k" "calm k1 = calm ?k"
      "m_scheduler_update_needed k1 = m_scheduler_update_needed ?k"
    and idle: "\<forall>j. bit idle j \<longleftrightarrow> bit (0 :: u64) j \<or> (\<exists>c \<in> set [0, 1, 2, 3]. j = nat c \<and> flat A True c = [])"
    and tops: "\<forall>c \<in> set [0, 1, 2, 3]. running_on c k1 = tops1 c \<and> (nopin ?k \<longrightarrow> tops1 c = hd_or (flat A True c) None)"
    by - (elim exE conjE, rule that)
  have four: "0 \<le> c \<Longrightarrow> c < 4 \<Longrightarrow> c \<in> set [0, 1, 2, 3]" for c :: int by (simp only: four_cores)
  have bits: "bit idle j \<longleftrightarrow> (\<exists>c. 0 \<le> c \<and> c < 4 \<and> j = nat c \<and> flat A True c = [])" for j
    using idle four_cores by (simp only: bit_0_eq bot_apply bot_bool_def simp_thms Bex_def) blast
  have cores: "c \<in> set (cores_of idle) \<longleftrightarrow> 0 \<le> c \<and> c < 4 \<and> flat A True c = []" for c
    unfolding set_cores_of bits by (auto simp: nat_eq_iff)
  have np: "nopin ?k = nopin k" "calm ?k = calm k" by (simp_all add: nopin_def calm_def)
  have "fill_ok k A (cores_of idle) (k1, n1, tops1)"
    unfolding fill_ok_def prod.case
    using c1 tops four np cores by (intro conjI allI impI ballI) (simp_all del: set_simps)
  from fill_all_ok [OF this distinct_cores_of, of ticks] cores obtain k2 n2 tops2 A2 where
    f: "each_core (fill_idle_core ticks) (cores_of idle) (k1, n1, tops1) = Some (k2, n2, tops2)"
      "fill_ok k A2 [] (k2, n2, tops2)" by auto
  let ?k3 = "if CpuHleSynchronizationEnabled k2 then k2\<lparr>cpu_runnable_mask := runnable_mask tops2 k2\<rparr> else k2"
  let ?k4 = "wake_dummy_threads cur ?k3"
  have k3: "m_priority_queue ?k3 = m_priority_queue k2" "threads ?k3 = threads k2" "running_on c ?k3 = running_on c k2"
    "m_scheduler_update_needed ?k3 = m_scheduler_update_needed k2" for c by (simp_all add: running_on_def)
  have same: "same_place (threads ?k4 t) (threads k2 t)" for t using wake_effect(2) [of cur ?k3 t] unfolding k3 .
  have "UpdateHighestPriorityThreads cur ticks k = Some (n2, ?k4)"
    unfolding UpdateHighestPriorityThreads_def UpdateHighestPriorityThreadsImpl_def if_P [OF assms(2)]
      c1(1) bind.simps prod.case for_cores_list f(1) option.map Let_def ..
  moreover have "sched_ok A2 (threads ?k4) (m_priority_queue ?k4)"
    unfolding wake_effect(1) k3(1) by (rule sched_ok_same [OF _ same]) (use f(2) in \<open>simp add: fill_ok_def\<close>)
  moreover have "claims_kept k ?k4"
    using f(2) by (intro claims_kept_trans [OF _ claims_kept_same [OF same]]) (simp add: fill_ok_def told_def)
  then have "told k ?k4 n2"
    using f(2) unfolding told_def wake_effect(3) k3(3) by (simp add: fill_ok_def told_def)
  moreover have "\<not> m_scheduler_update_needed ?k4" unfolding wake_effect(4) k3(4) using f(2) by (simp add: fill_ok_def)
  moreover have "running_on c ?k4 = hd_or (flat A2 True c) None" if "nopin k" "0 \<le> c" "c < 4" for c
    unfolding wake_effect(3) k3(3) using f(2) that by (simp add: fill_ok_def)
  moreover have "lonely A2 (threads ?k4) c" if "nopin k" "calm k" "0 \<le> c" "c < 4" "flat A2 True c = []" for c
    using f(2) that unfolding lonely_same [of "threads ?k4" "threads k2", OF same] by (simp add: fill_ok_def)
  ultimately show ?thesis by blast
qed

lemma UpdateHighestPriorityThreads_ok:
  assumes "kernel_ok k"
  shows "\<exists>needing k1. UpdateHighestPriorityThreads cur ticks k = Some (needing, k1) \<and> kernel_ok k1"
proof (cases "m_scheduler_update_needed k")
  case True
  then show ?thesis using update_ok [OF assms] kernel_okI by blast
next
  case False
  then show ?thesis using assms by (simp add: UpdateHighestPriorityThreads_def)
qed

section \<open>The first thread of a core\<close>

text \<open>A thread that wants a core: one of the lowest priority of all never gets one.\<close>

definition wants_core :: "KThread \<Rightarrow> bool" where
  "wants_core th \<longleftrightarrow> m_thread_state th = Runnable \<and> \<not> IsDummyThread th \<and> m_priority th \<le> LowestThreadPriority"

definition best_on :: "int \<Rightarrow> Kernel \<Rightarrow> nat option \<Rightarrow> bool" where
  "best_on c k r \<longleftrightarrow> (case r of
     None \<Rightarrow> \<forall>t. wants_core (threads k t) \<longrightarrow> m_core_id (threads k t) \<noteq> c
   | Some t \<Rightarrow> wants_core (threads k t) \<and> m_core_id (threads k t) = c \<and>
       (\<forall>u. wants_core (threads k u) \<longrightarrow> m_core_id (threads k u) = c \<longrightarrow> m_priority (threads k t) \<le> m_priority (threads k u)))"

lemma flat_from_sorted:
  assumes "\<And>i x. i < 64 \<Longrightarrow> x \<in> set (f i) \<Longrightarrow> pr x = int i"
  shows "n \<le> 64 \<Longrightarrow> flat_from f n = t # ts \<Longrightarrow> u \<in> set (t # ts) \<Longrightarrow> pr t \<le> (pr u :: int) \<and> int n \<le> pr t"
proof (induction "64 - n" arbitrary: n)
  case 0
  then show ?case by (simp add: flat_from_end)
next
  case (Suc d)
  have n: "n < 64" using Suc.hyps(2) by simp
  have split: "f n @ flat_from f (Suc n) = t # ts" using Suc.prems(2) flat_from_step [OF n, of f] by simp
  show ?case
  proof (cases "f n")
    case Nil
    then have "flat_from f (Suc n) = t # ts" using split by simp
    moreover have "d = 64 - Suc n" "Suc n \<le> 64" using Suc.hyps(2) n by simp_all
    ultimately have "pr t \<le> pr u \<and> int (Suc n) \<le> pr t" using Suc.hyps(1) [of "Suc n"] Suc.prems(3) by blast
    then show ?thesis by simp
  next
    case (Cons x xs)
    then have t: "pr t = int n" using split assms [of n x] n by simp
    have "int n \<le> pr u"
    proof (cases "u \<in> set (f n)")
      case True
      then show ?thesis using assms [OF n] by simp
    next
      case False
      then have "u \<in> set (flat_from f (Suc n))" using Suc.prems(3) unfolding split [symmetric] by simp
      then obtain i where "Suc n \<le> i" "i < 64" "u \<in> set (f i)" by (auto simp: flat_from_def simp del: upt_rec_numeral)
      then show ?thesis using assms [of i u] by simp
    qed
    then show ?thesis using t by simp
  qed
qed

lemma wants_core_active: "wants_core th \<longleftrightarrow> active th \<and> m_priority th \<le> 63"
  by (auto simp: wants_core_def active_def LowestThreadPriority_def)

lemma wants_core_member:
  assumes ok: "sched_ok A ts q" and c: "0 \<le> c" "c < 4"
  shows "t \<in> set (flat A True c) \<longleftrightarrow> wants_core (ts t) \<and> m_core_id (ts t) = c"
  using c thread_ok_queue [OF sched_ok_thread [OF ok, of t]] unfolding flat_member [OF ok] wants_core_active
  by (auto simp: belongs_def places_def valid_at_def)

lemma best_on_front:
  assumes ok: "sched_ok A (threads k) (m_priority_queue k)" and c: "0 \<le> c" "c < 4"
  shows "best_on c k (hd_or (flat A True c) None)"
proof (cases "flat A True c")
  case Nil
  then show ?thesis using wants_core_member [OF ok c] by (auto simp: best_on_def)
next
  case (Cons t ts)
  have p: "m_priority (threads k x) = int i" if "x \<in> set (A True (int i) c)" for x i
    using in_queue(2) [OF ok that] .
  have "m_priority (threads k t) \<le> m_priority (threads k u)" if "u \<in> set (flat A True c)" for u
    using flat_from_sorted [where pr = "\<lambda>x. m_priority (threads k x)" and n = 0 and f = "\<lambda>i. A True (int i) c", of t ts u]
      p Cons that by (simp add: flat_def)
  moreover have "t \<in> set (flat A True c)" using Cons by simp
  ultimately show ?thesis unfolding wants_core_member [OF ok c] using Cons by (simp add: best_on_def)
qed



end
