(* ===== verification/Scheduler_System.thy ===== *)
theory Scheduler_System
  imports Scheduler_Update
begin

text \<open>
  The scheduler as a system: the operations that threads, processes and the timer ask for, in any order,
  each under the scheduler lock.
\<close>

section \<open>New threads\<close>

definition creatable :: "int \<Rightarrow> int \<Rightarrow> ThreadType \<Rightarrow> bool" where
  "creatable prio virt_core thread_type \<longleftrightarrow>
     0 \<le> virt_core \<and> virt_core < 64 \<and> 0 \<le> prio \<and>
     (thread_type = Type_Dummy \<or> prio \<le> LowestThreadPriority \<and> thread_type \<noteq> Type_Main \<or>
      prio = IdleThreadPriority \<and> thread_type = Type_Main)"

lemma initialized_ok:
  assumes "creatable prio virt_core ty"
  obtains th where "KThread_Initialize prio virt_core owner_process ty new_KThread = Some th" and "thread_ok th"
    and "belongs th = (\<lambda>w p c. False)"
proof -
  let ?phys = "VirtualToPhysicalCoreMap ! nat virt_core"
  have v: "nat virt_core < 64" using assms by (auto simp: creatable_def)
  have phys: "0 \<le> ?phys" "nat ?phys < 4" using physical_core [OF v] by simp_all
  then have m: "mask_ok (push_bit (nat ?phys) 1)" "bit (push_bit (nat ?phys) 1 :: u64) (nat ?phys)"
    using single_mask [of ?phys] by simp_all
  obtain th where th: "KThread_Initialize prio virt_core owner_process ty new_KThread = Some th"
    using assms by (auto simp: KThread_Initialize_def creatable_def Let_def)
  have f: "m_priority th = prio" "m_core_id th = ?phys" "m_physical_affinity_mask th = push_bit (nat ?phys) 1"
    "IsDummyThread th \<longleftrightarrow> ty = Type_Dummy" "m_virtual_ideal_core_id th = virt_core" "m_physical_ideal_core_id th = ?phys"
    "m_num_core_migration_disables th = 0" "m_thread_state th = (if ty = Type_Main \<or> ty = Type_Dummy then Runnable else 0)"
    using th assms unfolding creatable_def KThread_Initialize_def Let_def
    by (auto simp: new_KThread_def SetAffinity_def GetCoreBit_def)
  have "?phys < 4" using phys(2) nat_less_iff [OF phys(1), of 4] by simp
  then have "core_ok ?phys (push_bit (nat ?phys) 1)" using m phys(1) by (simp add: core_ok_def mask_ok_def)
  then have "thread_ok th"
    unfolding thread_ok_def f using m assms by (auto simp: creatable_def IdleThreadPriority_def LowestThreadPriority_def)
  moreover have "belongs th = (\<lambda>w p c. False)"
  proof (cases "active th")
    case True
    then have "prio = 64"
      using assms f by (auto simp: active_def creatable_def IdleThreadPriority_def LowestThreadPriority_def Runnable_def
          split: if_splits)
    then show ?thesis using f(1) by (simp add: belongs_def places_def valid_at_def fun_eq_iff)
  qed (rule belongs_inactive)
  ultimately show ?thesis using that th by blast
qed

lemma create_ok:
  assumes "kernel_ok k" and "creatable prio virt_core ty" and "m_thread_state (threads k t) \<noteq> Runnable"
  shows "\<exists>k1. map_option (\<lambda>th. update_thread t (\<lambda>_. th) k) (KThread_Initialize prio virt_core owner_process ty new_KThread)
    = Some k1 \<and> kernel_ok k1"
proof -
  from assms(1) obtain A where ok: "sched_ok A (threads k) (m_priority_queue k)" unfolding kernel_ok_def by blast
  obtain th where th: "KThread_Initialize prio virt_core owner_process ty new_KThread = Some th" "thread_ok th"
    "belongs th = (\<lambda>w p c. False)" by (rule initialized_ok [OF assms(2)]) (rule that)
  have "belongs (threads k t) = (\<lambda>w p c. False)" using assms(3) by (intro belongs_inactive) (simp add: active_def)
  then have "sched_ok A ((threads k)(t := th)) (m_priority_queue k)" using th by (intro same_belongs_change [OF ok]) simp_all
  then show ?thesis using th(1) by (auto simp: kernel_ok_def)
qed

section \<open>The operations, in any order\<close>

text \<open>
  An operation that may be asked for in a state, with its result.  What the callers have checked is a
  premise: the priority is one the system calls admit, the arguments of a new core mask passed their
  test, pins and unpins alternate, and the current thread of a yield belongs to a process and is on a core.
\<close>

inductive asks :: "Kernel \<Rightarrow> Kernel option \<Rightarrow> bool" where
  create: "m_thread_state (threads k t) \<noteq> Runnable \<Longrightarrow> creatable prio virt_core ty \<Longrightarrow>
    asks k (map_option (\<lambda>th. update_thread t (\<lambda>_. th) k) (KThread_Initialize prio virt_core owner_process ty new_KThread))"
| set_state: "asks k (KThread_SetState t state k)"
| continue: "asks k (Continue t k)"
| suspend: "asks k (RequestSuspend suspend_type t k)"
| resume: "asks k (Resume suspend_type t k)"
| waiters: "asks k (Some (update_thread t (\<lambda>thread. thread\<lparr>m_num_kernel_waiters := n\<rparr>) k))"
| priority: "0 \<le> new_priority \<Longrightarrow> IsDummyThread (threads k t) \<or> new_priority \<le> 64 \<Longrightarrow>
    asks k (change_priority cur t new_priority k)"
| core_mask: "core_mask_args core_id v (threads k t) \<Longrightarrow> asks k (map_option snd (change_core_mask core_id v t k))"
| pin: "0 \<le> core_id \<Longrightarrow> core_id < 4 \<Longrightarrow> m_num_core_migration_disables (threads k cur) = 0 \<Longrightarrow>
    asks k (PinCurrentThread terminated core_id p cur k)"
| unpin: "0 \<le> m_core_id (threads k cur) \<Longrightarrow> m_num_core_migration_disables (threads k cur) = 1 \<Longrightarrow>
    asks k (UnpinCurrentThread terminated core_id p cur k)"
| yield: "m_parent (threads k cur) \<noteq> None \<Longrightarrow> 0 \<le> m_core_id (threads k cur) \<Longrightarrow> asks k (YieldWithoutCoreMigration cur k)"
| yield_migrating: "m_parent (threads k cur) \<noteq> None \<Longrightarrow> 0 \<le> m_core_id (threads k cur) \<Longrightarrow>
    \<not> IsDummyThread (threads k cur) \<Longrightarrow> asks k (YieldWithCoreMigration cur k)"
| yield_to_any: "m_parent (threads k cur) \<noteq> None \<Longrightarrow> 0 \<le> m_core_id (threads k cur) \<Longrightarrow> asks k (YieldToAnyThread cur k)"
| rotate: "0 \<le> core_id \<Longrightarrow> core_id < 4 \<Longrightarrow> 0 \<le> p \<Longrightarrow> p \<le> LowestThreadPriority \<Longrightarrow>
    asks k (RotateScheduledQueue cur core_id p k)"
| preempt: "asks k (PreemptThreads cur k)"
| need_update: "asks k (Some (SetSchedulerUpdateNeeded k))"
| clear_previous: "asks k (Some (ClearPreviousThread t k))"
| interrupt: "asks k (Some (SetInterruptTaskRunnable core_id k))"
| update: "asks k (map_option snd (UpdateHighestPriorityThreads cur ticks k))"

lemma asks_ok:
  assumes "asks k r" and "kernel_ok k"
  shows "\<exists>k1. r = Some k1 \<and> kernel_ok k1"
  using assms
proof (cases rule: asks.cases)
  case (waiters t n)
  then show ?thesis using kernel_ok_update_thread [OF assms(2)] by (simp add: same_place_def)
next
  case (core_mask core_id v t)
  then show ?thesis using change_core_mask_ok [OF assms(2)] by fastforce
next
  case (rotate core_id p cur)
  then show ?thesis using RotateScheduledQueue_ok [OF assms(2), of p core_id cur] by (simp add: valid_at_def LowestThreadPriority_def)
next
  case (update cur ticks)
  then show ?thesis using UpdateHighestPriorityThreads_ok [OF assms(2), of cur ticks] by auto
next
  case (clear_previous t)
  then show ?thesis using assms(2) by (simp add: ClearPreviousThread_def kernel_ok_def)
next
  case (interrupt core_id)
  then show ?thesis using assms(2) by (simp add: SetInterruptTaskRunnable_def)
qed (use assms(2) create_ok KThread_SetState_ok Continue_ok RequestSuspend_ok Resume_ok change_priority_ok PinCurrentThread_ok
    UnpinCurrentThread_ok YieldWithoutCoreMigration_ok YieldWithCoreMigration_ok YieldToAnyThread_ok PreemptThreads_ok
    in \<open>simp_all\<close>)

text \<open>At the start no thread is runnable; the entries of threads that do not exist yet are of no interest but sane.\<close>

inductive sched_reach :: "Kernel \<Rightarrow> bool" where
  start: "m_priority_queue k = new_KPriorityQueue \<Longrightarrow>
    (\<And>t. thread_ok (threads k t) \<and> m_thread_state (threads k t) \<noteq> Runnable) \<Longrightarrow> sched_reach k"
| step: "sched_reach k \<Longrightarrow> asks k (Some k1) \<Longrightarrow> sched_reach k1"

lemma reach_ok: "sched_reach k \<Longrightarrow> kernel_ok k"
proof (induction rule: sched_reach.induct)
  case (start k)
  have "holds (\<lambda>w p c. []) t (belongs (threads k t))" for t
    using start(2) [of t] by (subst belongs_inactive) (simp_all add: active_def holds_def)
  then have "sched_ok (\<lambda>w p c. []) (threads k) (m_priority_queue k)"
    using start new_queue_ok by (simp add: sched_ok_def)
  then show ?case by (rule kernel_okI)
next
  case (step k k1)
  then show ?case using asks_ok by blast
qed

section \<open>What is in the queues\<close>







lemma suggested_member:
  assumes ok: "sched_ok A ts q" and c: "0 \<le> c" "c < 4"
  shows "t \<in> set (flat A False c) \<longleftrightarrow>
    wants_core (ts t) \<and> m_core_id (ts t) \<noteq> c \<and> bit (m_physical_affinity_mask (ts t)) (nat c)"
  using c thread_ok_queue [OF sched_ok_thread [OF ok, of t]] unfolding flat_member [OF ok] wants_core_active
  by (auto simp: belongs_def places_def valid_at_def)

section \<open>The queues hold the runnable threads\<close>


text \<open>A kernel in which one thread of process 7 may run on the cores 0 and 1, and is on core 0.\<close>

definition example_thread :: KThread where
  "example_thread = new_KThread\<lparr>m_priority := 44, m_physical_affinity_mask := 3, m_parent := Some 7\<rparr>"

definition example_kernel :: Kernel where
  "example_kernel =
     \<lparr>threads = (\<lambda>t. example_thread),
      processes = (\<lambda>p. \<lparr>m_schedule_count = 0, m_pinned_threads = (\<lambda>c. None), Is64Bit = True, m_running_threads = (\<lambda>c. None),
        m_running_thread_idle_counts = (\<lambda>c. 0), m_running_thread_switch_counts = (\<lambda>c. 0)\<rparr>),
      schedulers = (\<lambda>c. \<lparr>needs_scheduling = False, interrupt_task_runnable = False, should_count_idle = False,
        idle_count = 0, highest_priority_thread = None, prev_thread = None\<rparr>),
      m_priority_queue = new_KPriorityQueue, m_scheduler_update_needed = False, m_woken_dummy_threads = {},
      CpuHleSynchronizationEnabled = False, cpu_runnable_mask = 0\<rparr>"

lemma example_start: "sched_reach example_kernel"
proof (rule sched_reach.start)
  have m: "(3 :: u64) = mask 2" by (simp add: mask_eq_exp_minus_1)
  have three: "bit (3 :: u64) k \<longleftrightarrow> k < 2" for k unfolding m by (auto simp: bit_mask_iff)
  show "thread_ok (threads example_kernel t) \<and> m_thread_state (threads example_kernel t) \<noteq> Runnable" for t
    using three by (simp add: example_kernel_def example_thread_def new_KThread_def thread_ok_def core_ok_def mask_ok_def Runnable_def)
qed (simp add: example_kernel_def)

lemma state_change_threads:
  "OnThreadStateChanged t old k = Some k1 \<Longrightarrow> threads k1 = threads k"
  by (auto simp: OnThreadStateChanged_def on_queue_def Let_def split: if_splits)

text \<open>The thread becomes runnable: it is scheduled on core 0 and suggested to core 1.\<close>

lemma example_runnable:
  obtains k1 where "KThread_SetState 0 Runnable example_kernel = Some k1" and "sched_reach k1"
    and "threads k1 = (threads example_kernel)(0 := example_thread\<lparr>m_thread_state := Runnable\<rparr>)"
    and "nopin k1" and "m_scheduler_update_needed k1"
proof -
  have a: "asks example_kernel (KThread_SetState 0 Runnable example_kernel)" by (rule set_state)
  from asks_ok [OF this reach_ok [OF example_start]] obtain k1 where
    k1: "KThread_SetState 0 Runnable example_kernel = Some k1" by blast
  have new: "(m_thread_state (threads example_kernel 0) AND NOT ThreadState_Mask) OR (Runnable AND ThreadState_Mask) = Runnable"
    by (simp add: example_kernel_def example_thread_def new_KThread_def Runnable_def ThreadState_Mask_def)
  have old: "m_thread_state (threads example_kernel 0) = 0" by (simp add: example_kernel_def example_thread_def new_KThread_def)
  have ch: "OnThreadStateChanged 0 0
      (update_thread 0 (\<lambda>thread. thread\<lparr>m_thread_state := Runnable\<rparr>) example_kernel) = Some k1"
    using k1 new unfolding KThread_SetState_def Let_def old by (simp add: Runnable_def)
  have th: "threads k1 = (threads example_kernel)(0 := example_thread\<lparr>m_thread_state := Runnable\<rparr>)"
    using state_change_threads [OF ch] by (simp add: example_kernel_def)
  have "nopin k1 \<and> m_scheduler_update_needed k1"
    using ch by (auto simp: OnThreadStateChanged_def on_queue_def Let_def Runnable_def example_kernel_def nopin_def
        update_thread_def IncrementScheduledCount_def SetSchedulerUpdateNeeded_def update_process_def
        split: if_splits option.splits)
  then show ?thesis using that [OF k1 _ th] sched_reach.step [OF example_start a [unfolded k1]] by blast
qed

lemma example_wants: "wants_core (((threads example_kernel)(0 := example_thread\<lparr>m_thread_state := Runnable\<rparr>)) t) \<longleftrightarrow> t = 0"
  by (simp add: wants_core_def example_kernel_def example_thread_def new_KThread_def Runnable_def LowestThreadPriority_def)



section \<open>Every core gets its thread\<close>

text \<open>
  (C39) If no process has pinned a thread, the update leaves every core with the best of the runnable
  threads that are on it, or without a thread if there is none, and the cores whose thread changed are
  told; what the threads ask for is kept.  If in addition no runnable thread is of one of the two priorities that hold off migration, a core
  stays idle only if each runnable thread that may run on it is on another core, running there, and the
  only one: no core idles while a thread it could run waits.
\<close>

theorem update_gives_cores_their_threads:
  assumes "sched_reach k" and "m_scheduler_update_needed k" and "nopin k"
  shows "\<exists>needing k1. UpdateHighestPriorityThreads cur ticks k = Some (needing, k1) \<and> sched_reach k1 \<and>
    claims_kept k k1 \<and> \<not> m_scheduler_update_needed k1 \<and>
    (\<forall>c. 0 \<le> c \<longrightarrow> c < NUM_CPU_CORES \<longrightarrow>
      best_on c k1 (running_on c k1) \<and> (running_on c k1 \<noteq> running_on c k \<longrightarrow> bit needing (nat c))) \<and>
    (calm k \<longrightarrow> (\<forall>c t. 0 \<le> c \<longrightarrow> c < NUM_CPU_CORES \<longrightarrow> running_on c k1 = None \<longrightarrow>
      wants_core (threads k1 t) \<longrightarrow> bit (m_physical_affinity_mask (threads k1 t)) (nat c) \<longrightarrow>
      IsValidCore (m_core_id (threads k1 t)) \<and> running_on (m_core_id (threads k1 t)) k1 = Some t \<and>
      (\<forall>u. wants_core (threads k1 u) \<longrightarrow> m_core_id (threads k1 u) = m_core_id (threads k1 t) \<longrightarrow> u = t)))"
proof -
  from update_ok [OF reach_ok [OF assms(1)] assms(2), of cur ticks] obtain needing k1 A where
    u: "UpdateHighestPriorityThreads cur ticks k = Some (needing, k1)"
    and ok: "sched_ok A (threads k1) (m_priority_queue k1)" and told: "told k k1 needing"
    and flag: "\<not> m_scheduler_update_needed k1"
    and run: "\<And>c. 0 \<le> c \<Longrightarrow> c < 4 \<Longrightarrow> running_on c k1 = hd_or (flat A True c) None"
    and idle: "\<And>c. calm k \<Longrightarrow> 0 \<le> c \<Longrightarrow> c < 4 \<Longrightarrow> flat A True c = [] \<Longrightarrow> lonely A (threads k1) c"
    using assms(3) by blast
  have reach: "sched_reach k1" using sched_reach.step [OF assms(1)] asks.update [of k cur ticks] u by simp
  have best: "best_on c k1 (running_on c k1)" if c: "0 \<le> c" "c < 4" for c
    unfolding run [OF c] by (rule best_on_front [OF ok c])
  have alone: "IsValidCore (m_core_id (threads k1 t)) \<and> running_on (m_core_id (threads k1 t)) k1 = Some t \<and>
      (\<forall>u. wants_core (threads k1 u) \<longrightarrow> m_core_id (threads k1 u) = m_core_id (threads k1 t) \<longrightarrow> u = t)"
    if ca: "calm k" and c: "0 \<le> c" "c < 4" and none: "running_on c k1 = None"
      and t: "wants_core (threads k1 t)" "bit (m_physical_affinity_mask (threads k1 t)) (nat c)" for c t
  proof -
    have e: "flat A True c = []" using none run [OF c] by (cases "flat A True c") simp_all
    then have "m_core_id (threads k1 t) \<noteq> c" using t(1) wants_core_member [OF ok c, of t] by simp
    then have "t \<in> set (flat A False c)" using suggested_member [OF ok c, of t] t by simp
    then have l: "0 \<le> m_core_id (threads k1 t)" "flat A True (m_core_id (threads k1 t)) = [t]"
      using idle [OF ca c e] by (simp_all add: lonely_def)
    have d: "m_core_id (threads k1 t) < 4"
      using thread_ok_queue [OF sched_ok_thread [OF ok, of t]] by (simp add: core_ok_def)
    then show ?thesis using l run [OF l(1) d] wants_core_member [OF ok l(1) d]
      by (simp add: IsValidCore_def NUM_CPU_CORES_def)
  qed
  show ?thesis unfolding NUM_CPU_CORES_def
    using u reach flag best alone told unfolding told_def by blast
qed

lemma update_gives_cores_their_threads_witness:
  "\<exists>k1 needing k2 c. KThread_SetState 0 Runnable example_kernel = Some k1 \<and>
    UpdateHighestPriorityThreads 0 5 k1 = Some (needing, k2) \<and> running_on c k2 = Some 0"
proof -
  obtain k1 where k1: "KThread_SetState 0 Runnable example_kernel = Some k1" "sched_reach k1"
    and th: "threads k1 = (threads example_kernel)(0 := example_thread\<lparr>m_thread_state := Runnable\<rparr>)"
    and k1': "nopin k1" "m_scheduler_update_needed k1" by (rule example_runnable) (rule that)
  from update_gives_cores_their_threads [OF k1(2) k1'(2,1), of 0 5] obtain needing k2 where
    u: "UpdateHighestPriorityThreads 0 5 k1 = Some (needing, k2)" and kept: "claims_kept k1 k2"
    and best: "\<And>c. 0 \<le> c \<Longrightarrow> c < 4 \<Longrightarrow> best_on c k2 (running_on c k2)"
    and alone: "\<And>c t. calm k1 \<Longrightarrow> 0 \<le> c \<Longrightarrow> c < 4 \<Longrightarrow> running_on c k2 = None \<Longrightarrow> wants_core (threads k2 t) \<Longrightarrow>
      bit (m_physical_affinity_mask (threads k2 t)) (nat c) \<Longrightarrow> running_on (m_core_id (threads k2 t)) k2 = Some t"
    unfolding NUM_CPU_CORES_def by blast
  have wants: "wants_core (threads k2 t) \<longleftrightarrow> t = 0" for t
    using kept example_wants [of t] unfolding th [symmetric] by (simp add: wants_core_def claims_kept_def)
  have "active (threads k1 t) \<Longrightarrow> m_priority (threads k1 t) = 44" for t
    unfolding th by (simp add: example_kernel_def example_thread_def)
  then have "calm k1" by (simp add: calm_def HighestCoreMigrationAllowedPriority_def)
  have "m_physical_affinity_mask (threads k2 0) = 3"
    using kept th by (simp add: claims_kept_def example_thread_def)
  then have b: "bit (m_physical_affinity_mask (threads k2 0)) (nat 0)" by simp
  have "\<exists>c. running_on c k2 = Some 0"
  proof (cases "running_on 0 k2")
    case None
    then show ?thesis using alone [OF \<open>calm k1\<close> _ _ None _ b] wants by auto
  next
    case (Some t)
    then show ?thesis using best [of 0] wants by (auto simp: best_on_def)
  qed
  then show ?thesis using k1(1) u by blast
qed

end
