(* ===== verification/Lock_Inheritance.thy ===== *)
theory Lock_Inheritance
  imports Scheduler
begin

text \<open>
  Locks with priority inheritance, \<^verbatim>\<open>nxemu-os/core/hle/kernel/k_thread.cpp\<close> and
  \<^verbatim>\<open>k_thread.h\<close>: a thread that waits for a lock is in the tree of the lock, the lock is in the list of
  its owner, and the owner runs at the best priority of those that wait for it.  A red-black tree is the
  list of its nodes in order, an intrusive list is a list, a pointer to a lock is its index in the slab heap.
  \<open>None\<close> is a null pointer followed, a node taken out of a container it is not in, or a loop that does not end.
\<close>

section \<open>State\<close>

text \<open>The trees of the condition variables and of the address arbiter of a process.\<close>

datatype ThreadTree = ConditionVariableTree nat | AddressArbiterTree nat

text \<open>
  What can be waited for together: threads, which are signaled at their end, and the other objects.  The node
  of a wait is the place in the array on the stack of the waiting thread.
\<close>

datatype SyncObject = ThreadObject nat | OtherObject nat

type_synonym SyncNode = "nat \<times> nat"

text \<open>What a thread waits in: the wait queue's class, with what the class keeps.\<close>

datatype ThreadQueueKind =
    ForKLightLock
  | ForAddress
  | ForConditionVariable ThreadTree
  | ForAddressArbiter ThreadTree
  | ForThreadSleep
  | ForSynchronizationObjects "SyncObject list"
  | ForUserException nat
  | ForThreadSetProperty nat

record KThreadQueue =
  queue_kind :: ThreadQueueKind
  m_hardware_timer :: bool

datatype WaitResult =
    ResultSuccess
  | ResultNoSynchronizationObject
  | ResultTerminationRequested
  | ResultInvalidHandle
  | ResultTimedOut
  | ResultCancelled
  | ResultInvalidState

record LockWithPriorityInheritanceInfo =
  lock_tree :: "nat list"
  lock_address_key :: u64
  lock_owner :: "nat option"
  lock_waiter_count :: u32
  lock_is_kernel_address_key :: bool

text \<open>The members of a thread that belong to waiting and to locks.\<close>

record ThreadWait =
  m_base_priority :: int
  m_held_lock_info_list :: "nat list"
  m_waiting_lock_info :: "nat option"
  m_address_key :: u64
  m_address_key_value :: u32
  m_is_kernel_address_key :: bool
  m_condvar_tree :: "ThreadTree option"
  m_condvar_key :: u64
  m_wait_queue :: "KThreadQueue option"
  m_wait_result :: WaitResult
  m_wait_generation :: u64
  m_termination_requested :: bool
  m_cancellable :: bool
  m_wait_cancelled :: bool
  m_time :: int
  m_synced_index :: int
  m_pinned_waiter_list :: "nat list"

text \<open>
  The objects that can be waited for with their lists of nodes, and the thread of each process that handles a
  user exception.
\<close>

record WaitObjects =
  m_signaled :: "SyncObject \<Rightarrow> bool"
  m_thread_list_head :: "SyncObject \<Rightarrow> SyncNode option"
  m_thread_list_tail :: "SyncObject \<Rightarrow> SyncNode option"
  node_next :: "SyncNode \<Rightarrow> SyncNode option"
  m_exception_thread :: "nat \<Rightarrow> nat option"

text \<open>
  The kernel of the scheduler with the threads' waits, the slab heap of lock infos, the trees, and what the
  waits read and write: the memory of each process, the tags of the light locks, the hardware timer and the
  objects.
\<close>

record WaitState =
  kernel :: Kernel
  waits :: "nat \<Rightarrow> ThreadWait"
  lock_infos :: "nat \<Rightarrow> LockWithPriorityInheritanceInfo"
  free_lock_infos :: "nat list"
  thread_tree :: "ThreadTree \<Rightarrow> nat list"
  user_memory :: "nat \<Rightarrow> u64 \<Rightarrow> u32"
  m_tag :: "u64 \<Rightarrow> nat option \<times> bool"
  m_task_tree :: "nat list"
  m_next_task :: "nat option"
  m_wakeup_time :: int
  objects :: WaitObjects

definition update_wait :: "nat \<Rightarrow> (ThreadWait \<Rightarrow> ThreadWait) \<Rightarrow> WaitState \<Rightarrow> WaitState" where
  "update_wait t f s = s\<lparr>waits := (waits s)(t := f (waits s t))\<rparr>"

definition update_lock ::
    "nat \<Rightarrow> (LockWithPriorityInheritanceInfo \<Rightarrow> LockWithPriorityInheritanceInfo) \<Rightarrow> WaitState \<Rightarrow> WaitState" where
  "update_lock l f s = s\<lparr>lock_infos := (lock_infos s)(l := f (lock_infos s l))\<rparr>"

definition update_tree :: "ThreadTree \<Rightarrow> (nat list \<Rightarrow> nat list) \<Rightarrow> WaitState \<Rightarrow> WaitState" where
  "update_tree tr f s = s\<lparr>thread_tree := (thread_tree s)(tr := f (thread_tree s tr))\<rparr>"

definition on_kernel :: "(Kernel \<Rightarrow> Kernel option) \<Rightarrow> WaitState \<Rightarrow> WaitState option" where
  "on_kernel f s = map_option (\<lambda>k. s\<lparr>kernel := k\<rparr>) (f (kernel s))"

definition GetPriority :: "WaitState \<Rightarrow> nat \<Rightarrow> int" where
  "GetPriority s t = m_priority (threads (kernel s) t)"

definition GetBasePriority :: "WaitState \<Rightarrow> nat \<Rightarrow> int" where
  "GetBasePriority s t = m_base_priority (waits s t)"

section \<open>Trees of threads\<close>

text \<open>
  The comparators never say equal, so an insertion goes behind all elements that do not come after the
  new one.
\<close>

fun insert_ordered :: "('a \<Rightarrow> 'a \<Rightarrow> bool) \<Rightarrow> 'a \<Rightarrow> 'a list \<Rightarrow> 'a list" where
  "insert_ordered before x [] = [x]"
| "insert_ordered before x (y # ys) = (if before x y then x # y # ys else y # insert_ordered before x ys)"

definition tree_erase :: "'a \<Rightarrow> 'a list \<Rightarrow> 'a list option" where
  "tree_erase x ys = (if x \<in> set ys then Some (remove1 x ys) else None)"

text \<open>The order of a lock's waiters and the order of the trees shared by the keys of a process.\<close>

definition LockWithPriorityInheritanceComparator :: "WaitState \<Rightarrow> nat \<Rightarrow> nat \<Rightarrow> bool" where
  "LockWithPriorityInheritanceComparator s a b \<longleftrightarrow> GetPriority s a < GetPriority s b"

definition ConditionVariableComparator :: "WaitState \<Rightarrow> nat \<Rightarrow> nat \<Rightarrow> bool" where
  "ConditionVariableComparator s a b \<longleftrightarrow>
     m_condvar_key (waits s a) < m_condvar_key (waits s b) \<or>
     m_condvar_key (waits s a) = m_condvar_key (waits s b) \<and> GetPriority s a < GetPriority s b"

definition tree_insert_thread :: "ThreadTree \<Rightarrow> nat \<Rightarrow> WaitState \<Rightarrow> WaitState" where
  "tree_insert_thread tr t s = update_tree tr (insert_ordered (ConditionVariableComparator s) t) s"

definition tree_erase_thread :: "ThreadTree \<Rightarrow> nat \<Rightarrow> WaitState \<Rightarrow> WaitState option" where
  "tree_erase_thread tr t s = map_option (\<lambda>ts. update_tree tr (\<lambda>_. ts) s) (tree_erase t (thread_tree s tr))"

section \<open>Lock infos\<close>

text \<open>A lock info comes from the head of the slab heap's free list; without one the code follows a null pointer.\<close>

definition LockInfo_Create :: "u64 \<Rightarrow> bool \<Rightarrow> WaitState \<Rightarrow> (nat \<times> WaitState) option" where
  "LockInfo_Create address_key is_kernel s =
     (case free_lock_infos s of
        [] \<Rightarrow> None
      | l # ls \<Rightarrow> Some (l, update_lock l
          (\<lambda>_. \<lparr>lock_tree = [], lock_address_key = address_key, lock_owner = None, lock_waiter_count = 0,
                lock_is_kernel_address_key = is_kernel\<rparr>) (s\<lparr>free_lock_infos := ls\<rparr>)))"

definition LockInfo_Free :: "nat \<Rightarrow> WaitState \<Rightarrow> WaitState" where
  "LockInfo_Free l s = s\<lparr>free_lock_infos := l # free_lock_infos s\<rparr>"

definition LockInfo_AddWaiter :: "nat \<Rightarrow> nat \<Rightarrow> WaitState \<Rightarrow> WaitState" where
  "LockInfo_AddWaiter l waiter s =
     update_wait waiter (\<lambda>w. w\<lparr>m_waiting_lock_info := Some l\<rparr>)
       (update_lock l (\<lambda>info. info\<lparr>lock_tree := insert_ordered (LockWithPriorityInheritanceComparator s) waiter (lock_tree info),
                                   lock_waiter_count := lock_waiter_count info + 1\<rparr>) s)"

text \<open>The result says whether the lock has no waiter any more.\<close>

definition LockInfo_RemoveWaiter :: "nat \<Rightarrow> nat \<Rightarrow> WaitState \<Rightarrow> (bool \<times> WaitState) option" where
  "LockInfo_RemoveWaiter l waiter s =
     map_option
       (\<lambda>tree. (lock_waiter_count (lock_infos s l) - 1 = 0,
          update_lock l (\<lambda>info. info\<lparr>lock_waiter_count := lock_waiter_count info - 1\<rparr>)
            (update_wait waiter (\<lambda>w. w\<lparr>m_waiting_lock_info := None\<rparr>)
              (update_lock l (\<lambda>info. info\<lparr>lock_tree := tree\<rparr>) s))))
       (tree_erase waiter (lock_tree (lock_infos s l)))"

definition GetHighestPriorityWaiter :: "WaitState \<Rightarrow> nat \<Rightarrow> nat option" where
  "GetHighestPriorityWaiter s l = (case lock_tree (lock_infos s l) of [] \<Rightarrow> None | t # ts \<Rightarrow> Some t)"

section \<open>The locks of a thread\<close>

definition AddHeldLock :: "nat \<Rightarrow> nat \<Rightarrow> WaitState \<Rightarrow> WaitState" where
  "AddHeldLock t l s =
     update_wait t (\<lambda>w. w\<lparr>m_held_lock_info_list := l # m_held_lock_info_list w\<rparr>)
       (update_lock l (\<lambda>info. info\<lparr>lock_owner := Some t\<rparr>) s)"

definition erase_held_lock :: "nat \<Rightarrow> nat \<Rightarrow> WaitState \<Rightarrow> WaitState option" where
  "erase_held_lock t l s =
     map_option (\<lambda>ls. update_wait t (\<lambda>w. w\<lparr>m_held_lock_info_list := ls\<rparr>) s)
       (tree_erase l (m_held_lock_info_list (waits s t)))"

fun find_lock :: "WaitState \<Rightarrow> u64 \<Rightarrow> bool \<Rightarrow> nat list \<Rightarrow> nat option" where
  "find_lock s address_key is_kernel [] = None"
| "find_lock s address_key is_kernel (l # ls) =
     (if lock_address_key (lock_infos s l) = address_key \<and> lock_is_kernel_address_key (lock_infos s l) = is_kernel
      then Some l else find_lock s address_key is_kernel ls)"

definition FindHeldLock :: "nat \<Rightarrow> u64 \<Rightarrow> bool \<Rightarrow> WaitState \<Rightarrow> nat option" where
  "FindHeldLock t address_key is_kernel s = find_lock s address_key is_kernel (m_held_lock_info_list (waits s t))"

text \<open>The count of the waiters on the kernel's own locks is changed by a number.\<close>

definition add_kernel_waiters :: "nat \<Rightarrow> int \<Rightarrow> WaitState \<Rightarrow> WaitState" where
  "add_kernel_waiters t n s =
     s\<lparr>kernel := update_thread t (\<lambda>th. th\<lparr>m_num_kernel_waiters := m_num_kernel_waiters th + n\<rparr>) (kernel s)\<rparr>"

definition update_needed :: "WaitState \<Rightarrow> WaitState" where
  "update_needed s = s\<lparr>kernel := SetSchedulerUpdateNeeded (kernel s)\<rparr>"

definition AddWaiterImpl :: "nat \<Rightarrow> nat \<Rightarrow> WaitState \<Rightarrow> WaitState option" where
  "AddWaiterImpl t waiter s =
     (let address_key = m_address_key (waits s waiter);
          is_kernel = m_is_kernel_address_key (waits s waiter);
          s1 = (if is_kernel then update_needed (add_kernel_waiters t 1 s) else s)
      in map_option (\<lambda>(l, s2). LockInfo_AddWaiter l waiter s2)
           (case FindHeldLock t address_key is_kernel s1 of
              Some l \<Rightarrow> Some (l, s1)
            | None \<Rightarrow> map_option (\<lambda>(l, s2). (l, AddHeldLock t l s2)) (LockInfo_Create address_key is_kernel s1)))"

definition RemoveWaiterImpl :: "nat \<Rightarrow> nat \<Rightarrow> WaitState \<Rightarrow> WaitState option" where
  "RemoveWaiterImpl t waiter s =
     (let s1 = (if m_is_kernel_address_key (waits s waiter) then update_needed (add_kernel_waiters t (- 1) s) else s)
      in case m_waiting_lock_info (waits s1 waiter) of
           None \<Rightarrow> None
         | Some l \<Rightarrow> Option.bind (LockInfo_RemoveWaiter l waiter s1) (\<lambda>(no_waiters, s2).
             if no_waiters then map_option (LockInfo_Free l) (erase_held_lock t l s2) else Some s2))"

section \<open>Inheritance\<close>

definition GetLockOwner :: "WaitState \<Rightarrow> nat \<Rightarrow> nat option" where
  "GetLockOwner s t =
     (case m_waiting_lock_info (waits s t) of None \<Rightarrow> None | Some l \<Rightarrow> lock_owner (lock_infos s l))"

text \<open>The best of a priority and those of the first waiters of locks.\<close>

fun inherited_priority :: "WaitState \<Rightarrow> nat list \<Rightarrow> int \<Rightarrow> int option" where
  "inherited_priority s [] p = Some p"
| "inherited_priority s (l # ls) p =
     (case GetHighestPriorityWaiter s l of
        None \<Rightarrow> None
      | Some t \<Rightarrow> inherited_priority s ls (min p (GetPriority s t)))"

definition SetPriority :: "nat \<Rightarrow> int \<Rightarrow> WaitState \<Rightarrow> WaitState" where
  "SetPriority t p s = s\<lparr>kernel := update_thread t (\<lambda>th. th\<lparr>m_priority := p\<rparr>) (kernel s)\<rparr>"

text \<open>A tree is left for the change of a priority and entered again after it.\<close>

definition BeforeUpdatePriority :: "nat \<Rightarrow> WaitState \<Rightarrow> WaitState option" where
  "BeforeUpdatePriority t s =
     (case m_condvar_tree (waits s t) of None \<Rightarrow> Some s | Some tr \<Rightarrow> tree_erase_thread tr t s)"

definition AfterUpdatePriority :: "nat \<Rightarrow> WaitState \<Rightarrow> WaitState" where
  "AfterUpdatePriority t s =
     (case m_condvar_tree (waits s t) of None \<Rightarrow> s | Some tr \<Rightarrow> tree_insert_thread tr t s)"

definition set_inherited :: "nat \<Rightarrow> nat \<Rightarrow> int \<Rightarrow> nat option \<Rightarrow> WaitState \<Rightarrow> WaitState option" where
  "set_inherited cur t new_priority owner s =
     Option.bind (case owner of None \<Rightarrow> Some s | Some u \<Rightarrow> RemoveWaiterImpl u t s) (\<lambda>s1.
     Option.bind (BeforeUpdatePriority t s1) (\<lambda>s2.
       let old_priority = GetPriority s2 t;
           s3 = AfterUpdatePriority t (SetPriority t new_priority s2)
       in Option.bind (case owner of None \<Rightarrow> Some s3 | Some u \<Rightarrow> AddWaiterImpl u t s3)
            (on_kernel (OnThreadPriorityChanged cur t old_priority))))"

text \<open>\<open>cur\<close> is the current thread, which the queue puts first among those of its new priority.\<close>

partial_function (option) RestorePriority :: "nat \<Rightarrow> nat option \<Rightarrow> WaitState \<Rightarrow> WaitState option" where
  "RestorePriority cur thread s =
     (case thread of
        None \<Rightarrow> Some s
      | Some t \<Rightarrow>
          Option.bind (inherited_priority s (m_held_lock_info_list (waits s t)) (GetBasePriority s t)) (\<lambda>new_priority.
            if new_priority = GetPriority s t then Some s
            else Option.bind (set_inherited cur t new_priority (GetLockOwner s t) s)
                   (RestorePriority cur (GetLockOwner s t))))"

definition AddWaiter :: "nat \<Rightarrow> nat \<Rightarrow> nat \<Rightarrow> WaitState \<Rightarrow> WaitState option" where
  "AddWaiter cur t waiter s =
     Option.bind (AddWaiterImpl t waiter s) (\<lambda>s1.
       if GetPriority s1 waiter < GetPriority s1 t then RestorePriority cur (Some t) s1 else Some s1)"

definition RemoveWaiter :: "nat \<Rightarrow> nat \<Rightarrow> nat \<Rightarrow> WaitState \<Rightarrow> WaitState option" where
  "RemoveWaiter cur t waiter s =
     Option.bind (RemoveWaiterImpl t waiter s) (\<lambda>s1.
       if GetPriority s1 t = GetPriority s1 waiter \<and> GetPriority s1 t < GetBasePriority s1 t
       then RestorePriority cur (Some t) s1 else Some s1)"

text \<open>
  A thread gives up a lock: the first waiter gets it, with the waiters that are left.  The result is that
  waiter, if there is one, and whether others wait.
\<close>

definition RemoveWaiterByKey ::
    "nat \<Rightarrow> nat \<Rightarrow> u64 \<Rightarrow> bool \<Rightarrow> WaitState \<Rightarrow> (nat option \<times> bool \<times> WaitState) option" where
  "RemoveWaiterByKey cur t key is_kernel s =
     (case FindHeldLock t key is_kernel s of
        None \<Rightarrow> Some (None, False, s)
      | Some l \<Rightarrow>
          Option.bind (erase_held_lock t l s) (\<lambda>s1.
            let lock_kernel = lock_is_kernel_address_key (lock_infos s1 l);
                s2 = (if lock_kernel
                      then update_needed (add_kernel_waiters t (- uint (lock_waiter_count (lock_infos s1 l))) s1) else s1)
            in Option.bind (GetHighestPriorityWaiter s2 l) (\<lambda>next_lock_owner.
               Option.bind (LockInfo_RemoveWaiter l next_lock_owner s2) (\<lambda>(no_waiters, s3).
                 let s4 = (if no_waiters then LockInfo_Free l s3
                           else
                             let s' = AddHeldLock next_lock_owner l s3
                             in if lock_kernel
                                then add_kernel_waiters next_lock_owner (uint (lock_waiter_count (lock_infos s' l))) s' else s')
                 in map_option (\<lambda>s5. (Some next_lock_owner, \<not> no_waiters, s5))
                      (if GetPriority s4 t = GetPriority s4 next_lock_owner \<and> GetPriority s4 t < GetBasePriority s4 t
                       then RestorePriority cur (Some t) s4 else Some s4)))))"

fun find_user_lock :: "WaitState \<Rightarrow> nat list \<Rightarrow> u64 option" where
  "find_user_lock s [] = None"
| "find_user_lock s (l # ls) =
     (if \<not> lock_is_kernel_address_key (lock_infos s l) \<and> lock_waiter_count (lock_infos s l) > 0
      then Some (lock_address_key (lock_infos s l)) else find_user_lock s ls)"

definition FindHeldUserLockKey :: "nat \<Rightarrow> WaitState \<Rightarrow> u64 option" where
  "FindHeldUserLockKey t s = find_user_lock s (m_held_lock_info_list (waits s t))"

definition SetBasePriority :: "nat \<Rightarrow> nat \<Rightarrow> int \<Rightarrow> WaitState \<Rightarrow> WaitState option" where
  "SetBasePriority cur t v s = RestorePriority cur (Some t) (update_wait t (\<lambda>w. w\<lparr>m_base_priority := v\<rparr>) s)"

definition IncreaseBasePriority :: "nat \<Rightarrow> nat \<Rightarrow> int \<Rightarrow> WaitState \<Rightarrow> WaitState option" where
  "IncreaseBasePriority cur t priority s =
     (if GetBasePriority s t > priority
      then RestorePriority cur (Some t) (update_wait t (\<lambda>w. w\<lparr>m_base_priority := priority\<rparr>) s) else Some s)"

end
