(* ===== verification/Lock_Inheritance_Props.thy ===== *)
theory Lock_Inheritance_Props
  imports Lock_Inheritance Scheduler_System
begin

text \<open>
  What holds of the locks between two operations: trees, lists and back pointers agree, the slab heap does
  not run out, the trees are in the order of the priorities.  The parts of an operation keep it, and the
  restoration of priorities ends, also when threads wait for each other in a circle.
\<close>

section \<open>The invariant of the locks\<close>

text \<open>The slab heaps of threads and of lock infos have the same number of objects.\<close>

definition SlabCountKThread :: nat where
  "SlabCountKThread = 800"

abbreviation held :: "WaitState \<Rightarrow> nat \<Rightarrow> nat list" where
  "held s t \<equiv> m_held_lock_info_list (waits s t)"

abbreviation waits_in :: "WaitState \<Rightarrow> nat \<Rightarrow> nat option" where
  "waits_in s t \<equiv> m_waiting_lock_info (waits s t)"

abbreviation waiters :: "WaitState \<Rightarrow> nat \<Rightarrow> nat list" where
  "waiters s l \<equiv> lock_tree (lock_infos s l)"

text \<open>A lock in the list of a thread; the locks of \<open>E\<close> may be without waiters.\<close>

definition lock_ok :: "nat set \<Rightarrow> WaitState \<Rightarrow> nat \<Rightarrow> nat \<Rightarrow> bool" where
  "lock_ok E s t l \<longleftrightarrow>
     lock_owner (lock_infos s l) = Some t \<and> l < SlabCountKThread \<and> (l \<in> E \<or> waiters s l \<noteq> []) \<and> distinct (waiters s l) \<and>
     sorted (map (GetPriority s) (waiters s l)) \<and> lock_waiter_count (lock_infos s l) = of_nat (length (waiters s l)) \<and>
     (\<forall>u \<in> set (waiters s l). waits_in s u = Some l \<and> m_address_key (waits s u) = lock_address_key (lock_infos s l) \<and>
        m_is_kernel_address_key (waits s u) = lock_is_kernel_address_key (lock_infos s l))"

definition slab_ok :: "WaitState \<Rightarrow> bool" where
  "slab_ok s \<longleftrightarrow>
     distinct (free_lock_infos s) \<and> (\<forall>l \<in> set (free_lock_infos s). l < SlabCountKThread \<and> (\<forall>t. l \<notin> set (held s t))) \<and>
     (\<forall>l < SlabCountKThread. l \<in> set (free_lock_infos s) \<or> (\<exists>t. l \<in> set (held s t)))"

definition locks_ok :: "nat set \<Rightarrow> WaitState \<Rightarrow> bool" where
  "locks_ok E s \<longleftrightarrow>
     (\<forall>t. distinct (held s t) \<and> (\<forall>l \<in> set (held s t). lock_ok E s t l)) \<and>
     (\<forall>u l. waits_in s u = Some l \<longrightarrow> u < SlabCountKThread \<and> u \<in> set (waiters s l) \<and> (\<exists>t. l \<in> set (held s t))) \<and>
     slab_ok s"

text \<open>The trees of the condition variables and arbiters; a thread waits in one place.\<close>

definition trees_ok :: "WaitState \<Rightarrow> bool" where
  "trees_ok s \<longleftrightarrow>
     (\<forall>tr. distinct (thread_tree s tr) \<and>
        sorted_wrt (\<lambda>a b. \<not> ConditionVariableComparator s b a) (thread_tree s tr)) \<and>
     (\<forall>tr u. u \<in> set (thread_tree s tr) \<longleftrightarrow> m_condvar_tree (waits s u) = Some tr) \<and>
     (\<forall>u. m_condvar_tree (waits s u) \<noteq> None \<longrightarrow> waits_in s u = None)"

definition kernel_waiters :: "WaitState \<Rightarrow> nat \<Rightarrow> int" where
  "kernel_waiters s t =
     (\<Sum>l \<in> set (held s t). if lock_is_kernel_address_key (lock_infos s l) then int (length (waiters s l)) else 0)"

definition counts_ok :: "WaitState \<Rightarrow> bool" where
  "counts_ok s \<longleftrightarrow> (\<forall>t. m_num_kernel_waiters (threads (kernel s) t) = kernel_waiters s t)"

definition bases_ok :: "WaitState \<Rightarrow> bool" where
  "bases_ok s \<longleftrightarrow> (\<forall>t. 0 \<le> GetBasePriority s t \<and> (IsDummyThread (threads (kernel s) t) \<or> GetBasePriority s t \<le> 64))"

lemma held_lock: "locks_ok E s \<Longrightarrow> l \<in> set (held s t) \<Longrightarrow> lock_ok E s t l"
  by (simp add: locks_ok_def)

lemma distinct_held: "locks_ok E s \<Longrightarrow> distinct (held s t)"
  by (simp add: locks_ok_def)

lemma one_owner: "locks_ok E s \<Longrightarrow> l \<in> set (held s t) \<Longrightarrow> l \<in> set (held s u) \<Longrightarrow> u = t"
  using held_lock [of E s l t] held_lock [of E s l u] by (simp add: lock_ok_def)

lemma free_not_held: "locks_ok E s \<Longrightarrow> l \<in> set (free_lock_infos s) \<Longrightarrow> l \<notin> set (held s t)"
  by (simp add: locks_ok_def slab_ok_def)

lemma waiting_in:
  assumes "locks_ok E s" and "waits_in s u = Some l"
  obtains t where "l \<in> set (held s t)" and "u \<in> set (waiters s l)" and "u < SlabCountKThread" and "lock_ok E s t l"
  using assms held_lock [OF assms(1)] that unfolding locks_ok_def by blast

lemma waiter_waits: "locks_ok E s \<Longrightarrow> l \<in> set (held s t) \<Longrightarrow> u \<in> set (waiters s l) \<Longrightarrow> waits_in s u = Some l"
  using held_lock by (auto simp: lock_ok_def)

lemma lock_owner_iff:
  assumes "locks_ok E s"
  shows "GetLockOwner s u = Some t \<longleftrightarrow> (\<exists>l \<in> set (held s t). u \<in> set (waiters s l))"
proof
  assume own: "GetLockOwner s u = Some t"
  then obtain l where l: "waits_in s u = Some l" "lock_owner (lock_infos s l) = Some t"
    by (auto simp: GetLockOwner_def split: option.splits)
  obtain v where "l \<in> set (held s v)" "u \<in> set (waiters s l)" "lock_ok E s v l" by (rule waiting_in [OF assms l(1)])
  then show "\<exists>l \<in> set (held s t). u \<in> set (waiters s l)" using l(2) by (auto simp: lock_ok_def)
next
  assume "\<exists>l \<in> set (held s t). u \<in> set (waiters s l)"
  then obtain l where "l \<in> set (held s t)" "u \<in> set (waiters s l)" by blast
  then show "GetLockOwner s u = Some t" using held_lock [OF assms, of l t] by (auto simp: lock_ok_def GetLockOwner_def)
qed

lemma lock_owner_None: "locks_ok E s \<Longrightarrow> GetLockOwner s u = None \<longleftrightarrow> waits_in s u = None"
  by (auto simp: GetLockOwner_def lock_ok_def split: option.splits elim: waiting_in)

lemma count_waiters:
  assumes "locks_ok E s" and "l \<in> set (held s t)"
  shows "length (waiters s l) \<le> SlabCountKThread"
proof -
  have d: "distinct (waiters s l)" using held_lock [OF assms] by (simp add: lock_ok_def)
  have "set (waiters s l) \<subseteq> {..<SlabCountKThread}"
    using waiter_waits [OF assms] waiting_in [OF assms(1)] by (metis lessThan_iff subsetI)
  then have "card (set (waiters s l)) \<le> SlabCountKThread" using card_mono [of "{..<SlabCountKThread}"] by fastforce
  then show ?thesis using distinct_card [OF d] by simp
qed

section \<open>Lists in order\<close>

lemma insert_ordered_set [simp]: "set (insert_ordered before x ys) = insert x (set ys)"
  by (induction ys) auto

lemma insert_ordered_distinct [simp]: "distinct (insert_ordered before x ys) \<longleftrightarrow> x \<notin> set ys \<and> distinct ys"
  by (induction ys) auto

lemma insert_ordered_length [simp]: "length (insert_ordered before x ys) = Suc (length ys)"
  by (induction ys) auto

lemma insert_ordered_sorted:
  assumes "sorted_wrt (\<lambda>a b. \<not> before b a) ys"
    and "\<And>a b. before a b \<Longrightarrow> \<not> before b a" and "\<And>a b c. before a b \<Longrightarrow> \<not> before c b \<Longrightarrow> before a c"
  shows "sorted_wrt (\<lambda>a b. \<not> before b a) (insert_ordered before x ys)"
  using assms(1)
proof (induction ys)
  case (Cons y ys)
  show ?case
  proof (cases "before x y")
    case True
    have "\<not> before z x" if "z \<in> set ys" for z
    proof -
      have "\<not> before z y" using Cons.prems that by simp
      then show ?thesis using assms(2) [of x z] assms(3) [OF True, of z] by blast
    qed
    then show ?thesis using True Cons.prems assms(2) [OF True] by simp
  qed (use Cons in simp)
qed simp

lemma insert_ordered_cong:
  "(\<And>y. y \<in> set ys \<Longrightarrow> before x y = before' x y) \<Longrightarrow> insert_ordered before x ys = insert_ordered before' x ys"
  by (induction ys) auto

lemma sorted_priorities: "sorted (map f ys) \<longleftrightarrow> sorted_wrt (\<lambda>a b. \<not> (f b :: int) < f a) ys"
  by (simp add: sorted_wrt_map not_less)

lemma insert_by_priority: "sorted (map (GetPriority s) ys) \<Longrightarrow>
    sorted (map (GetPriority s) (insert_ordered (LockWithPriorityInheritanceComparator s) x ys))"
  unfolding sorted_priorities LockWithPriorityInheritanceComparator_def by (rule insert_ordered_sorted) auto

lemma insert_by_key: "sorted_wrt (\<lambda>a b. \<not> ConditionVariableComparator s b a) ys \<Longrightarrow>
    sorted_wrt (\<lambda>a b. \<not> ConditionVariableComparator s b a) (insert_ordered (ConditionVariableComparator s) x ys)"
  by (rule insert_ordered_sorted) (auto simp: ConditionVariableComparator_def)

lemma sorted_remove1: "sorted_wrt P ys \<Longrightarrow> sorted_wrt P (remove1 x ys)"
proof (induction ys)
  case (Cons y ys)
  then show ?case using set_remove1_subset [of x ys] by auto
qed simp

lemma sorted_map_remove1: "sorted (map f ys) \<Longrightarrow> sorted (map f (remove1 x ys))"
  by (simp add: sorted_wrt_map sorted_remove1)

lemma length_remove1_in: "x \<in> set ys \<Longrightarrow> length (remove1 x ys) = length ys - 1"
  by (simp add: length_remove1)

section \<open>What the updates leave alone\<close>

lemma update_wait_frame [simp]:
  "kernel (update_wait t f s) = kernel s" "waits (update_wait t f s) = (waits s)(t := f (waits s t))"
  "lock_infos (update_wait t f s) = lock_infos s" "free_lock_infos (update_wait t f s) = free_lock_infos s"
  "thread_tree (update_wait t f s) = thread_tree s" "user_memory (update_wait t f s) = user_memory s"
  "m_tag (update_wait t f s) = m_tag s" "m_task_tree (update_wait t f s) = m_task_tree s"
  "m_next_task (update_wait t f s) = m_next_task s" "m_wakeup_time (update_wait t f s) = m_wakeup_time s"
  "GetPriority (update_wait t f s) = GetPriority s" "objects (update_wait t f s) = objects s"
  by (simp_all add: update_wait_def GetPriority_def fun_eq_iff)

lemma update_lock_frame [simp]:
  "kernel (update_lock l f s) = kernel s" "waits (update_lock l f s) = waits s"
  "lock_infos (update_lock l f s) = (lock_infos s)(l := f (lock_infos s l))"
  "free_lock_infos (update_lock l f s) = free_lock_infos s" "thread_tree (update_lock l f s) = thread_tree s"
  "user_memory (update_lock l f s) = user_memory s" "m_tag (update_lock l f s) = m_tag s"
  "m_task_tree (update_lock l f s) = m_task_tree s" "m_next_task (update_lock l f s) = m_next_task s"
  "m_wakeup_time (update_lock l f s) = m_wakeup_time s" "GetPriority (update_lock l f s) = GetPriority s" "objects (update_lock l f s) = objects s"
  by (simp_all add: update_lock_def GetPriority_def fun_eq_iff)

lemma update_tree_frame [simp]:
  "kernel (update_tree tr f s) = kernel s" "waits (update_tree tr f s) = waits s"
  "lock_infos (update_tree tr f s) = lock_infos s" "free_lock_infos (update_tree tr f s) = free_lock_infos s"
  "thread_tree (update_tree tr f s) = (thread_tree s)(tr := f (thread_tree s tr))"
  "user_memory (update_tree tr f s) = user_memory s" "m_tag (update_tree tr f s) = m_tag s"
  "m_task_tree (update_tree tr f s) = m_task_tree s" "m_next_task (update_tree tr f s) = m_next_task s"
  "m_wakeup_time (update_tree tr f s) = m_wakeup_time s" "GetPriority (update_tree tr f s) = GetPriority s" "objects (update_tree tr f s) = objects s"
  by (simp_all add: update_tree_def GetPriority_def fun_eq_iff)

lemma priority_frame [simp]:
  "GetPriority (s\<lparr>free_lock_infos := ls\<rparr>) = GetPriority s" "GetPriority (s\<lparr>user_memory := m\<rparr>) = GetPriority s"
  "GetPriority (s\<lparr>m_tag := g\<rparr>) = GetPriority s" "GetPriority (s\<lparr>m_task_tree := ts\<rparr>) = GetPriority s"
  "GetPriority (s\<lparr>m_next_task := n\<rparr>) = GetPriority s" "GetPriority (s\<lparr>m_wakeup_time := w\<rparr>) = GetPriority s"
  by (simp_all add: GetPriority_def fun_eq_iff)

section \<open>The parts of an operation\<close>

lemma locks_okI:
  assumes "\<And>t. distinct (held s t)" and "\<And>t l. l \<in> set (held s t) \<Longrightarrow> lock_ok E s t l"
    and "\<And>u l. waits_in s u = Some l \<Longrightarrow> u < SlabCountKThread \<and> u \<in> set (waiters s l) \<and> (\<exists>t. l \<in> set (held s t))"
    and "slab_ok s"
  shows "locks_ok E s"
  using assms unfolding locks_ok_def by blast

lemma waits_in_locks: "locks_ok E s \<Longrightarrow> waits_in s u = Some l \<Longrightarrow>
    u < SlabCountKThread \<and> u \<in> set (waiters s l) \<and> (\<exists>t. l \<in> set (held s t))"
  by (simp add: locks_ok_def)

lemma new_lock_ok:
  assumes ok: "locks_ok {} s" and free: "free_lock_infos s = l # ls"
  shows "locks_ok {l} (AddHeldLock t l (update_lock l
    (\<lambda>_. \<lparr>lock_tree = [], lock_address_key = key, lock_owner = None, lock_waiter_count = 0,
          lock_is_kernel_address_key = isk\<rparr>) (s\<lparr>free_lock_infos := ls\<rparr>)))" (is "locks_ok _ ?s")
proof (rule locks_okI)
  have l: "l < SlabCountKThread" "l \<notin> set (held s v)" "l \<notin> set ls" "distinct ls" for v
    using ok free by (simp_all add: locks_ok_def slab_ok_def)
  have held: "held ?s v = (if v = t then l # held s v else held s v)" for v by (simp add: AddHeldLock_def)
  show "distinct (held ?s v)" for v using held distinct_held [OF ok] l(2) by simp
  show "lock_ok {l} ?s v m" if "m \<in> set (held ?s v)" for v m
  proof (cases "m = l")
    case True
    then show ?thesis using that l(1,2) by (auto simp: lock_ok_def AddHeldLock_def split: if_splits)
  next
    case False
    then have "m \<in> set (held s v)" using that held by (auto split: if_splits)
    then show ?thesis using held_lock [OF ok] False by (auto simp: lock_ok_def AddHeldLock_def)
  qed
  show "u < SlabCountKThread \<and> u \<in> set (waiters ?s m) \<and> (\<exists>v. m \<in> set (held ?s v))" if "waits_in ?s u = Some m" for u m
  proof -
    have "waits_in s u = Some m" using that by (auto simp: AddHeldLock_def split: if_splits)
    note w = waits_in_locks [OF ok this]
    then have "m \<noteq> l" using l(2) by blast
    then show ?thesis using w unfolding held by (auto simp: AddHeldLock_def)
  qed
  show "slab_ok ?s"
  proof -
    have held_in: "m \<in> set (held ?s v) \<longleftrightarrow> m \<in> set (held s v) \<or> v = t \<and> m = l" for m v using held by auto
    have f: "free_lock_infos ?s = ls" by (simp add: AddHeldLock_def)
    have "slab_ok s" using ok by (simp add: locks_ok_def)
    then show ?thesis unfolding slab_ok_def held_in f free using l(3,4) by fastforce
  qed
qed

lemma LockInfo_AddWaiter_ok:
  assumes ok: "locks_ok E s" and l: "l \<in> set (held s t)" and u: "waits_in s u = None" "u < SlabCountKThread"
    and key: "m_address_key (waits s u) = lock_address_key (lock_infos s l)"
      "m_is_kernel_address_key (waits s u) = lock_is_kernel_address_key (lock_infos s l)"
  shows "locks_ok (E - {l}) (LockInfo_AddWaiter l u s)" (is "locks_ok _ ?s")
proof (rule locks_okI)
  have held: "held ?s v = held s v" for v by (simp add: LockInfo_AddWaiter_def)
  have new: "u \<notin> set (waiters s m)" if "m \<in> set (held s v)" for m v using waiter_waits [OF ok that] u(1) by auto
  show "distinct (held ?s v)" for v using held distinct_held [OF ok] by simp
  show "lock_ok (E - {l}) ?s v m" if "m \<in> set (held ?s v)" for v m
  proof (cases "m = l")
    case True
    have m: "m \<in> set (held s v)" using that held by simp
    have "set (waiters ?s l) = insert u (set (waiters s l))" by (simp add: LockInfo_AddWaiter_def)
    then have "waiters ?s l \<noteq> []" by auto
    moreover have "sorted (map (GetPriority ?s) (waiters ?s l))"
      using insert_by_priority [of s "waiters s l" u] held_lock [OF ok m] True by (simp add: LockInfo_AddWaiter_def lock_ok_def)
    ultimately show ?thesis
      using held_lock [OF ok m] new [OF m] True key by (auto simp: lock_ok_def LockInfo_AddWaiter_def)
  next
    case False
    have m: "m \<in> set (held s v)" using that held by simp
    then have "lock_ok E s v m" "u \<notin> set (waiters s m)" using held_lock [OF ok] new by simp_all
    then show ?thesis using False by (auto simp: lock_ok_def LockInfo_AddWaiter_def)
  qed
  show "v < SlabCountKThread \<and> v \<in> set (waiters ?s m) \<and> (\<exists>w. m \<in> set (held ?s w))" if "waits_in ?s v = Some m" for v m
    using that waits_in_locks [OF ok, of v m] u(2) l unfolding held
    by (auto simp: LockInfo_AddWaiter_def split: if_splits)
  show "slab_ok ?s" using ok unfolding slab_ok_def held locks_ok_def by (simp add: LockInfo_AddWaiter_def)
qed

definition without_waiter :: "nat \<Rightarrow> nat \<Rightarrow> WaitState \<Rightarrow> WaitState" where
  "without_waiter l u s =
     update_wait u (\<lambda>w. w\<lparr>m_waiting_lock_info := None\<rparr>)
       (update_lock l (\<lambda>info. info\<lparr>lock_tree := remove1 u (lock_tree info), lock_waiter_count := lock_waiter_count info - 1\<rparr>) s)"

lemma without_waiter_frame [simp]:
  "kernel (without_waiter l u s) = kernel s"
  "waits (without_waiter l u s) = (waits s)(u := waits s u\<lparr>m_waiting_lock_info := None\<rparr>)"
  "lock_infos (without_waiter l u s) = (lock_infos s)(l := (lock_infos s l)\<lparr>lock_tree := remove1 u (waiters s l),
     lock_waiter_count := lock_waiter_count (lock_infos s l) - 1\<rparr>)"
  "free_lock_infos (without_waiter l u s) = free_lock_infos s" "thread_tree (without_waiter l u s) = thread_tree s"
  "user_memory (without_waiter l u s) = user_memory s" "m_tag (without_waiter l u s) = m_tag s"
  "m_task_tree (without_waiter l u s) = m_task_tree s" "m_next_task (without_waiter l u s) = m_next_task s"
  "m_wakeup_time (without_waiter l u s) = m_wakeup_time s" "GetPriority (without_waiter l u s) = GetPriority s" "objects (without_waiter l u s) = objects s"
  by (simp_all add: without_waiter_def)

lemma count_zero: "n \<le> SlabCountKThread \<Longrightarrow> (of_nat n :: u32) = 0 \<longleftrightarrow> n = 0"
  by (simp add: word_of_nat_eq_0_iff SlabCountKThread_def nat_dvd_not_less) (auto dest: dvd_imp_le)

lemma LockInfo_RemoveWaiter_ok:
  assumes ok: "locks_ok {} s" and w: "waits_in s u = Some l"
  shows "LockInfo_RemoveWaiter l u s = Some (remove1 u (waiters s l) = [], without_waiter l u s)"
    and "locks_ok (if remove1 u (waiters s l) = [] then {l} else {}) (without_waiter l u s)" (is "locks_ok ?E ?s")
proof -
  obtain t where t: "l \<in> set (held s t)" "u \<in> set (waiters s l)" "lock_ok {} s t l"
    by (rule waiting_in [OF ok w]) (rule that)
  have n: "length (waiters s l) \<le> SlabCountKThread" by (rule count_waiters [OF ok t(1)])
  have len: "length (waiters s l) = Suc (length (remove1 u (waiters s l)))"
    using length_pos_if_in_set [OF t(2)] t(2) by (simp add: length_remove1)
  then have count: "lock_waiter_count (lock_infos s l) - 1 = of_nat (length (remove1 u (waiters s l)))"
    using t(3) by (simp add: lock_ok_def)
  have "length (remove1 u (waiters s l)) \<le> SlabCountKThread" using n len by simp
  then have "lock_waiter_count (lock_infos s l) - 1 = 0 \<longleftrightarrow> remove1 u (waiters s l) = []"
    unfolding count using count_zero by simp
  moreover have "update_lock l (\<lambda>info. info\<lparr>lock_waiter_count := lock_waiter_count info - 1\<rparr>)
      (update_wait u (\<lambda>w. w\<lparr>m_waiting_lock_info := None\<rparr>)
        (update_lock l (\<lambda>info. info\<lparr>lock_tree := remove1 u (waiters s l)\<rparr>) s)) = ?s"
    by (simp add: update_lock_def update_wait_def without_waiter_def)
  ultimately show "LockInfo_RemoveWaiter l u s = Some (remove1 u (waiters s l) = [], ?s)"
    using t(2) by (simp add: LockInfo_RemoveWaiter_def tree_erase_def)
  have held: "held ?s v = held s v" for v by simp
  have keep: "a \<noteq> u" if "m \<in> set (held s v)" "a \<in> set (waiters ?s m)" for m v a
  proof (cases "m = l")
    case True
    then show ?thesis using that t(3) by (auto simp: lock_ok_def)
  next
    case False
    then show ?thesis using that waiter_waits [OF ok that(1), of a] w by auto
  qed
  have tree: "set (waiters ?s m) \<subseteq> set (waiters s m)" for m
    using set_remove1_subset [of u "waiters s l"] by simp
  show "locks_ok ?E ?s"
  proof (rule locks_okI)
    show "distinct (held ?s v)" for v using distinct_held [OF ok] unfolding held .
    show "lock_ok ?E ?s v m" if "m \<in> set (held ?s v)" for v m
    proof -
      have m: "m \<in> set (held s v)" using that unfolding held .
      have "waits_in ?s a = Some m \<and> m_address_key (waits ?s a) = lock_address_key (lock_infos ?s m) \<and>
          m_is_kernel_address_key (waits ?s a) = lock_is_kernel_address_key (lock_infos ?s m)"
        if a: "a \<in> set (waiters ?s m)" for a
      proof -
        have "a \<noteq> u" "a \<in> set (waiters s m)" using keep [OF m a] a tree by blast+
        then show ?thesis using held_lock [OF ok m] by (auto simp: lock_ok_def)
      qed
      then show ?thesis
        using held_lock [OF ok m] count sorted_map_remove1 [of "GetPriority s" "waiters s l" u]
        unfolding lock_ok_def by auto
    qed
    show "a < SlabCountKThread \<and> a \<in> set (waiters ?s m) \<and> (\<exists>v. m \<in> set (held ?s v))" if "waits_in ?s a = Some m" for a m
      using that waits_in_locks [OF ok, of a m] unfolding held by (auto split: if_splits)
    show "slab_ok ?s" using ok unfolding slab_ok_def locks_ok_def held by simp
  qed
qed

lemma drop_lock_ok:
  assumes ok: "locks_ok {l} s" and l: "l \<in> set (held s t)" "waiters s l = []"
  shows "erase_held_lock t l s = Some (update_wait t (\<lambda>w. w\<lparr>m_held_lock_info_list := remove1 l (held s t)\<rparr>) s)"
    and "locks_ok {} (LockInfo_Free l (update_wait t (\<lambda>w. w\<lparr>m_held_lock_info_list := remove1 l (held s t)\<rparr>) s))"
      (is "locks_ok _ ?s")
proof -
  show "erase_held_lock t l s = Some (update_wait t (\<lambda>w. w\<lparr>m_held_lock_info_list := remove1 l (held s t)\<rparr>) s)"
    using l(1) by (simp add: erase_held_lock_def tree_erase_def)
  have d: "distinct (held s v)" for v by (rule distinct_held [OF ok])
  have other: "l \<notin> set (held s v)" if "v \<noteq> t" for v using that one_owner [OF ok l(1)] by blast
  have held_in: "m \<in> set (held ?s v) \<longleftrightarrow> m \<in> set (held s v) \<and> m \<noteq> l" for m v
    using other [of v] d by (cases "v = t") (auto simp: LockInfo_Free_def)
  have same: "lock_infos ?s = lock_infos s" "GetPriority ?s = GetPriority s" "waits_in ?s v = waits_in s v"
    "m_address_key (waits ?s v) = m_address_key (waits s v)"
    "m_is_kernel_address_key (waits ?s v) = m_is_kernel_address_key (waits s v)"
    "free_lock_infos ?s = l # free_lock_infos s" for v by (simp_all add: LockInfo_Free_def)
  show "locks_ok {} ?s"
  proof (rule locks_okI)
    show "distinct (held ?s v)" for v using d by (simp add: LockInfo_Free_def)
    show "lock_ok {} ?s v m" if "m \<in> set (held ?s v)" for v m
      using that held_lock [OF ok, of m v] unfolding held_in by (auto simp: lock_ok_def same)
    show "a < SlabCountKThread \<and> a \<in> set (waiters ?s m) \<and> (\<exists>v. m \<in> set (held ?s v))" if "waits_in ?s a = Some m" for a m
      using that waits_in_locks [OF ok, of a m] l(2) unfolding held_in same by auto
    have "slab_ok s" "l < SlabCountKThread" using ok held_lock [OF ok l(1)] by (simp_all add: locks_ok_def lock_ok_def)
    then show "slab_ok ?s" unfolding slab_ok_def held_in same using free_not_held [OF ok, of l t] l(1) by fastforce
  qed
qed

lemma transfer_ok:
  assumes ok: "locks_ok {} s" and l: "l \<in> set (held s t)"
  shows "erase_held_lock t l s = Some (update_wait t (\<lambda>w. w\<lparr>m_held_lock_info_list := remove1 l (held s t)\<rparr>) s)"
    and "locks_ok {} (AddHeldLock n l (update_wait t (\<lambda>w. w\<lparr>m_held_lock_info_list := remove1 l (held s t)\<rparr>) s))"
      (is "locks_ok _ ?s")
proof -
  show "erase_held_lock t l s = Some (update_wait t (\<lambda>w. w\<lparr>m_held_lock_info_list := remove1 l (held s t)\<rparr>) s)"
    using l(1) by (simp add: erase_held_lock_def tree_erase_def)
  have d: "distinct (held s v)" for v by (rule distinct_held [OF ok])
  have other: "l \<notin> set (held s v)" if "v \<noteq> t" for v using that one_owner [OF ok l(1)] by blast
  have held_v: "held ?s v = (if v = n then [l] else []) @ (if v = t then remove1 l (held s t) else held s v)" for v
    by (simp add: AddHeldLock_def)
  have held_in: "m \<in> set (held ?s v) \<longleftrightarrow> (if m = l then v = n else m \<in> set (held s v))" for m v
    using other [of v] d [of v] unfolding held_v by (cases "v = t") auto
  have same: "lock_infos ?s m = (if m = l then (lock_infos s m)\<lparr>lock_owner := Some n\<rparr> else lock_infos s m)"
    "waiters ?s m = waiters s m"
    "GetPriority ?s = GetPriority s" "waits_in ?s v = waits_in s v"
    "m_address_key (waits ?s v) = m_address_key (waits s v)"
    "m_is_kernel_address_key (waits ?s v) = m_is_kernel_address_key (waits s v)"
    "free_lock_infos ?s = free_lock_infos s" for v m by (simp_all add: AddHeldLock_def)
  show "locks_ok {} ?s"
  proof (rule locks_okI)
    show "distinct (held ?s v)" for v using d [of v] other [of v] unfolding held_v by (cases "v = t") auto
    show "lock_ok {} ?s v m" if "m \<in> set (held ?s v)" for v m
    proof (cases "m = l")
      case True
      then show ?thesis using that held_lock [OF ok l] unfolding held_in by (auto simp: lock_ok_def same)
    next
      case False
      then show ?thesis using that held_lock [OF ok, of m v] unfolding held_in by (auto simp: lock_ok_def same)
    qed
    show "a < SlabCountKThread \<and> a \<in> set (waiters ?s m) \<and> (\<exists>v. m \<in> set (held ?s v))" if "waits_in ?s a = Some m" for a m
      using that waits_in_locks [OF ok, of a m] unfolding held_in same by auto
    have slab: "slab_ok s" using ok by (simp add: locks_ok_def)
    have "l \<notin> set (free_lock_infos s)" using free_not_held [OF ok, of l t] l by blast
    then have "m < SlabCountKThread \<and> (\<forall>v. m \<notin> set (held ?s v))" if "m \<in> set (free_lock_infos s)" for m
      using slab that unfolding held_in slab_ok_def by (cases "m = l") simp_all
    moreover have "m \<in> set (free_lock_infos s) \<or> (\<exists>v. m \<in> set (held ?s v))" if "m < SlabCountKThread" for m
      using slab that unfolding held_in slab_ok_def by (cases "m = l") simp_all
    ultimately show "slab_ok ?s" using slab unfolding slab_ok_def same by simp
  qed
qed

section \<open>What an operation on the locks leaves alone\<close>

definition same_rest :: "WaitState \<Rightarrow> WaitState \<Rightarrow> bool" where
  "same_rest s s1 \<longleftrightarrow>
     user_memory s1 = user_memory s \<and> m_tag s1 = m_tag s \<and> m_task_tree s1 = m_task_tree s \<and>
     m_next_task s1 = m_next_task s \<and> m_wakeup_time s1 = m_wakeup_time s \<and> objects s1 = objects s \<and>
     (\<forall>t. (waits s1 t)\<lparr>m_held_lock_info_list := [], m_waiting_lock_info := None\<rparr> =
          (waits s t)\<lparr>m_held_lock_info_list := [], m_waiting_lock_info := None\<rparr>)"

lemma same_rest_refl [simp]: "same_rest s s"
  by (simp add: same_rest_def)

lemma same_rest_trans [trans]: "same_rest s s1 \<Longrightarrow> same_rest s1 s2 \<Longrightarrow> same_rest s s2"
  unfolding same_rest_def by (elim conjE) simp

lemma same_rest_members:
  assumes "same_rest s s1"
  shows "m_base_priority (waits s1 t) = m_base_priority (waits s t)" "m_address_key (waits s1 t) = m_address_key (waits s t)"
    "m_address_key_value (waits s1 t) = m_address_key_value (waits s t)"
    "m_is_kernel_address_key (waits s1 t) = m_is_kernel_address_key (waits s t)"
    "m_condvar_tree (waits s1 t) = m_condvar_tree (waits s t)" "m_condvar_key (waits s1 t) = m_condvar_key (waits s t)"
    "m_wait_queue (waits s1 t) = m_wait_queue (waits s t)" "m_wait_result (waits s1 t) = m_wait_result (waits s t)"
    "m_wait_generation (waits s1 t) = m_wait_generation (waits s t)"
    "m_termination_requested (waits s1 t) = m_termination_requested (waits s t)"
    "m_cancellable (waits s1 t) = m_cancellable (waits s t)" "m_wait_cancelled (waits s1 t) = m_wait_cancelled (waits s t)"
    "m_time (waits s1 t) = m_time (waits s t)" "user_memory s1 = user_memory s" "m_tag s1 = m_tag s"
    "m_task_tree s1 = m_task_tree s" "m_next_task s1 = m_next_task s" "m_wakeup_time s1 = m_wakeup_time s"
    "GetBasePriority s1 t = GetBasePriority s t" "objects s1 = objects s"
    "m_synced_index (waits s1 t) = m_synced_index (waits s t)" "m_pinned_waiter_list (waits s1 t) = m_pinned_waiter_list (waits s t)"
proof -
  have w: "(waits s1 t)\<lparr>m_held_lock_info_list := [], m_waiting_lock_info := None\<rparr> =
          (waits s t)\<lparr>m_held_lock_info_list := [], m_waiting_lock_info := None\<rparr>" using assms by (simp add: same_rest_def)
  show "m_base_priority (waits s1 t) = m_base_priority (waits s t)" using arg_cong [OF w, of m_base_priority] by simp
  then show "GetBasePriority s1 t = GetBasePriority s t" by (simp add: GetBasePriority_def)
  show "m_address_key (waits s1 t) = m_address_key (waits s t)" using arg_cong [OF w, of m_address_key] by simp
  show "m_address_key_value (waits s1 t) = m_address_key_value (waits s t)" using arg_cong [OF w, of m_address_key_value] by simp
  show "m_is_kernel_address_key (waits s1 t) = m_is_kernel_address_key (waits s t)"
    using arg_cong [OF w, of m_is_kernel_address_key] by simp
  show "m_condvar_tree (waits s1 t) = m_condvar_tree (waits s t)" using arg_cong [OF w, of m_condvar_tree] by simp
  show "m_condvar_key (waits s1 t) = m_condvar_key (waits s t)" using arg_cong [OF w, of m_condvar_key] by simp
  show "m_wait_queue (waits s1 t) = m_wait_queue (waits s t)" using arg_cong [OF w, of m_wait_queue] by simp
  show "m_wait_result (waits s1 t) = m_wait_result (waits s t)" using arg_cong [OF w, of m_wait_result] by simp
  show "m_wait_generation (waits s1 t) = m_wait_generation (waits s t)" using arg_cong [OF w, of m_wait_generation] by simp
  show "m_termination_requested (waits s1 t) = m_termination_requested (waits s t)"
    using arg_cong [OF w, of m_termination_requested] by simp
  show "m_cancellable (waits s1 t) = m_cancellable (waits s t)" using arg_cong [OF w, of m_cancellable] by simp
  show "m_wait_cancelled (waits s1 t) = m_wait_cancelled (waits s t)" using arg_cong [OF w, of m_wait_cancelled] by simp
  show "m_time (waits s1 t) = m_time (waits s t)" using arg_cong [OF w, of m_time] by simp
  show "m_synced_index (waits s1 t) = m_synced_index (waits s t)" using arg_cong [OF w, of m_synced_index] by simp
  show "m_pinned_waiter_list (waits s1 t) = m_pinned_waiter_list (waits s t)" using arg_cong [OF w, of m_pinned_waiter_list] by simp
qed (use assms in \<open>simp_all add: same_rest_def\<close>)

text \<open>The scheduler's part of a change of the count of kernel waiters.\<close>

definition counted :: "bool \<Rightarrow> nat \<Rightarrow> int \<Rightarrow> Kernel \<Rightarrow> Kernel" where
  "counted isk t n k =
     (if isk then SetSchedulerUpdateNeeded (update_thread t (\<lambda>th. th\<lparr>m_num_kernel_waiters := m_num_kernel_waiters th + n\<rparr>) k)
      else k)"

lemma counted_step: "(if isk then update_needed (add_kernel_waiters t n s) else s) = s\<lparr>kernel := counted isk t n (kernel s)\<rparr>"
  by (simp add: counted_def update_needed_def add_kernel_waiters_def)

lemma counted_threads: "threads (counted isk t n k) u =
    (if isk \<and> u = t then (threads k u)\<lparr>m_num_kernel_waiters := m_num_kernel_waiters (threads k u) + n\<rparr> else threads k u)"
  by (simp add: counted_def SetSchedulerUpdateNeeded_def update_thread_def)

lemma counted_priority [simp]: "GetPriority (s\<lparr>kernel := counted isk t n k\<rparr>) = GetPriority (s\<lparr>kernel := k\<rparr>)"
  by (simp add: GetPriority_def counted_threads fun_eq_iff)

lemma counted_ok: "kernel_ok k \<Longrightarrow> kernel_ok (counted isk t n k)"
  using kernel_ok_update_thread [of k "\<lambda>th. th\<lparr>m_num_kernel_waiters := m_num_kernel_waiters th + n\<rparr>" t]
  by (simp add: counted_def same_place_def)

lemma locks_ok_kernel:
  assumes "GetPriority (s\<lparr>kernel := k\<rparr>) = GetPriority s"
  shows "locks_ok E (s\<lparr>kernel := k\<rparr>) = locks_ok E s"
  by (simp add: locks_ok_def lock_ok_def slab_ok_def assms)

lemma lock_frame_kernel [simp]:
  "GetLockOwner (s\<lparr>kernel := k\<rparr>) = GetLockOwner s" "kernel_waiters (s\<lparr>kernel := k\<rparr>) = kernel_waiters s"
  "FindHeldLock t key isk (s\<lparr>kernel := k\<rparr>) = FindHeldLock t key isk s" "same_rest s (s\<lparr>kernel := k\<rparr>)"
proof -
  have "find_lock (s\<lparr>kernel := k\<rparr>) key isk ls = find_lock s key isk ls" for ls by (induction ls) simp_all
  then show "FindHeldLock t key isk (s\<lparr>kernel := k\<rparr>) = FindHeldLock t key isk s" by (simp add: FindHeldLock_def)
qed (simp_all add: GetLockOwner_def kernel_waiters_def same_rest_def fun_eq_iff cong: option.case_cong if_cong)

lemma slab_not_empty:
  assumes ok: "locks_ok {} s" and u: "waits_in s u = None" "u < SlabCountKThread"
  shows "free_lock_infos s \<noteq> []"
proof
  assume "free_lock_infos s = []"
  then have held: "\<exists>t. l \<in> set (held s t)" if "l < SlabCountKThread" for l
    using ok that by (simp add: locks_ok_def slab_ok_def)
  let ?f = "\<lambda>l. hd (waiters s l)"
  have f: "waits_in s (?f l) = Some l" if l: "l < SlabCountKThread" for l
  proof -
    obtain t where t: "l \<in> set (held s t)" using held [OF l] by blast
    then have "waiters s l \<noteq> []" using held_lock [OF ok t] by (simp add: lock_ok_def)
    then show ?thesis using waiter_waits [OF ok t] by simp
  qed
  then have "inj_on ?f {..<SlabCountKThread}" by (intro inj_onI) (metis lessThan_iff option.inject)
  moreover have "?f l < SlabCountKThread \<and> ?f l \<noteq> u" if "l < SlabCountKThread" for l
    using f [OF that] u(1) waits_in_locks [OF ok f [OF that]] by auto
  then have "?f ` {..<SlabCountKThread} \<subseteq> {..<SlabCountKThread} - {u}" by auto
  ultimately have "card {..<SlabCountKThread} \<le> card ({..<SlabCountKThread} - {u})" by (intro card_inj_on_le) auto
  then show False using u(2) by simp
qed

lemma sum_one:
  fixes f :: "'a \<Rightarrow> int"
  assumes "finite S" and "l \<in> S" and "\<And>m. m \<in> S \<Longrightarrow> m \<noteq> l \<Longrightarrow> f m = g m"
  shows "sum f S = sum g S + (f l - g l)"
proof -
  have "sum f (S - {l}) = sum g (S - {l})" using assms(3) by (intro sum.cong) auto
  then show ?thesis using sum.remove [OF assms(1,2), of f] sum.remove [OF assms(1,2), of g] by simp
qed

lemma find_lock_in: "find_lock s key isk ls = Some l \<Longrightarrow>
    l \<in> set ls \<and> lock_address_key (lock_infos s l) = key \<and> lock_is_kernel_address_key (lock_infos s l) = isk"
  by (induction ls) (auto split: if_splits)

lemma FindHeldLock_in: "FindHeldLock t key isk s = Some l \<Longrightarrow>
    l \<in> set (held s t) \<and> lock_address_key (lock_infos s l) = key \<and> lock_is_kernel_address_key (lock_infos s l) = isk"
  using find_lock_in by (simp add: FindHeldLock_def)

section \<open>A waiter more, a waiter less\<close>

lemma LockInfo_AddWaiter_effect:
  assumes ok: "locks_ok E s" and l: "l \<in> set (held s t)" and u: "waits_in s u = None"
  shows "GetLockOwner (LockInfo_AddWaiter l u s) = (GetLockOwner s)(u := Some t)"
    and "kernel_waiters (LockInfo_AddWaiter l u s) v =
      kernel_waiters s v + (if v = t \<and> lock_is_kernel_address_key (lock_infos s l) then 1 else 0)"
    and "same_rest s (LockInfo_AddWaiter l u s)" and "kernel (LockInfo_AddWaiter l u s) = kernel s"
    and "thread_tree (LockInfo_AddWaiter l u s) = thread_tree s" and "held (LockInfo_AddWaiter l u s) v = held s v"
proof -
  let ?s = "LockInfo_AddWaiter l u s"
  have o: "lock_owner (lock_infos s l) = Some t" using held_lock [OF ok l] by (simp add: lock_ok_def)
  show "GetLockOwner ?s = (GetLockOwner s)(u := Some t)"
    using o by (auto simp: GetLockOwner_def LockInfo_AddWaiter_def fun_eq_iff split: option.splits)
  show h: "held ?s v = held s v" for v by (simp add: LockInfo_AddWaiter_def)
  show "kernel_waiters ?s v = kernel_waiters s v + (if v = t \<and> lock_is_kernel_address_key (lock_infos s l) then 1 else 0)"
  proof (cases "l \<in> set (held s v)")
    case True
    then have "v = t" using one_owner [OF ok l] by blast
    then show ?thesis
      unfolding kernel_waiters_def h
      by (subst sum_one [OF _ True, where g = "\<lambda>l. if lock_is_kernel_address_key (lock_infos s l) then int (length (waiters s l)) else 0"])
        (auto simp: LockInfo_AddWaiter_def)
  next
    case False
    then have "v \<noteq> t" using l by blast
    moreover have "kernel_waiters ?s v = kernel_waiters s v"
      unfolding kernel_waiters_def h using False by (intro sum.cong) (auto simp: LockInfo_AddWaiter_def)
    ultimately show ?thesis by simp
  qed
qed (simp_all add: LockInfo_AddWaiter_def same_rest_def)

lemma without_waiter_effect:
  assumes ok: "locks_ok {} s" and w: "waits_in s u = Some l" and l: "l \<in> set (held s t)"
  shows "GetLockOwner (without_waiter l u s) = (GetLockOwner s)(u := None)"
    and "kernel_waiters (without_waiter l u s) v =
      kernel_waiters s v - (if v = t \<and> lock_is_kernel_address_key (lock_infos s l) then 1 else 0)"
    and "same_rest s (without_waiter l u s)" and "held (without_waiter l u s) v = held s v"
proof -
  let ?s = "without_waiter l u s"
  show "GetLockOwner ?s = (GetLockOwner s)(u := None)"
    by (auto simp: GetLockOwner_def fun_eq_iff split: option.splits)
  show h: "held ?s v = held s v" for v by simp
  have n: "int (length (remove1 u (waiters s l))) = int (length (waiters s l)) - 1"
  proof -
    have "u \<in> set (waiters s l)" using waits_in_locks [OF ok w] by blast
    then have "length (remove1 u (waiters s l)) = length (waiters s l) - 1" "0 < length (waiters s l)"
      using length_pos_if_in_set by (simp_all add: length_remove1)
    then show ?thesis by linarith
  qed
  show "kernel_waiters ?s v = kernel_waiters s v - (if v = t \<and> lock_is_kernel_address_key (lock_infos s l) then 1 else 0)"
  proof (cases "l \<in> set (held s v)")
    case True
    then have "v = t" using one_owner [OF ok l] by blast
    then show ?thesis
      unfolding kernel_waiters_def h
      by (subst sum_one [OF _ True, where g = "\<lambda>l. if lock_is_kernel_address_key (lock_infos s l) then int (length (waiters s l)) else 0"])
        (auto simp: n)
  next
    case False
    then have "v \<noteq> t" using l by blast
    moreover have "kernel_waiters ?s v = kernel_waiters s v"
      unfolding kernel_waiters_def h using False by (intro sum.cong) auto
    ultimately show ?thesis by simp
  qed
qed (simp add: same_rest_def)

lemma new_lock_effect:
  fixes t :: nat and key :: u64 and isk :: bool
  assumes ok: "locks_ok {} s" and free: "free_lock_infos s = l # ls"
  defines "s1 \<equiv> AddHeldLock t l (update_lock l
    (\<lambda>_. \<lparr>lock_tree = [], lock_address_key = key, lock_owner = None, lock_waiter_count = 0,
          lock_is_kernel_address_key = isk\<rparr>) (s\<lparr>free_lock_infos := ls\<rparr>))"
  shows "GetLockOwner s1 = GetLockOwner s" and "kernel_waiters s1 = kernel_waiters s" and "same_rest s s1"
    and "kernel s1 = kernel s" and "thread_tree s1 = thread_tree s" and "l \<in> set (held s1 t)" and "waits_in s1 v = waits_in s v"
    and "lock_address_key (lock_infos s1 l) = key" and "lock_is_kernel_address_key (lock_infos s1 l) = isk"
proof -
  have nl: "l \<notin> set (held s v)" for v using free_not_held [OF ok, of l v] free by simp
  have "waits_in s v \<noteq> Some l" for v using waits_in_locks [OF ok, of v l] nl by blast
  then show "GetLockOwner s1 = GetLockOwner s"
    by (auto simp: GetLockOwner_def s1_def AddHeldLock_def fun_eq_iff split: option.splits)
  have "kernel_waiters s1 v = kernel_waiters s v" for v
  proof -
    have e: "(\<Sum>m\<in>set (held s v). if lock_is_kernel_address_key (lock_infos s1 m) then int (length (waiters s1 m)) else 0) =
        kernel_waiters s v" unfolding kernel_waiters_def
      using nl [of v] by (intro sum.cong) (auto simp: s1_def AddHeldLock_def)
    have "held s1 v = (if v = t then l # held s v else held s v)" by (simp add: s1_def AddHeldLock_def)
    then show ?thesis using e nl [of v] unfolding kernel_waiters_def [of s1]
      by (auto simp: s1_def AddHeldLock_def)
  qed
  then show "kernel_waiters s1 = kernel_waiters s" by (simp add: fun_eq_iff)
qed (simp_all add: s1_def AddHeldLock_def same_rest_def)

lemma dropped_waiters:
  assumes "distinct (held s t)" and "l \<in> set (held s t)" and "waiters s l = []"
  shows "kernel_waiters (LockInfo_Free l (update_wait t (\<lambda>w. w\<lparr>m_held_lock_info_list := remove1 l (held s t)\<rparr>) s)) = kernel_waiters s"
    (is "kernel_waiters ?s = _")
proof
  fix v
  have i: "lock_infos ?s = lock_infos s" by (simp add: LockInfo_Free_def)
  have h: "set (held ?s v) = (if v = t then set (held s v) - {l} else set (held s v))"
    using assms(1) by (simp add: LockInfo_Free_def)
  show "kernel_waiters ?s v = kernel_waiters s v"
    unfolding kernel_waiters_def h i
    using sum.remove [OF finite_set assms(2), of "\<lambda>l. if lock_is_kernel_address_key (lock_infos s l) then int (length (waiters s l)) else 0"]
      assms(3) by (cases "v = t") simp_all
qed

lemma AddWaiterImpl_ok:
  assumes ok: "locks_ok {} s" and u: "waits_in s u = None" "u < SlabCountKThread"
  obtains s1 where "AddWaiterImpl t u s = Some s1" and "locks_ok {} s1" and "GetLockOwner s1 = (GetLockOwner s)(u := Some t)"
    and "same_rest s s1" and "thread_tree s1 = thread_tree s"
    and "kernel s1 = counted (m_is_kernel_address_key (waits s u)) t 1 (kernel s)"
    and "\<And>v. kernel_waiters s1 v = kernel_waiters s v + (if v = t \<and> m_is_kernel_address_key (waits s u) then 1 else 0)"
proof -
  let ?key = "m_address_key (waits s u)" and ?isk = "m_is_kernel_address_key (waits s u)"
  let ?s = "s\<lparr>kernel := counted ?isk t 1 (kernel s)\<rparr>"
  have ok': "locks_ok {} ?s" using ok by (subst locks_ok_kernel) simp_all
  have impl: "AddWaiterImpl t u s = map_option (\<lambda>(l, s2). LockInfo_AddWaiter l u s2)
      (case FindHeldLock t ?key ?isk s of Some l \<Rightarrow> Some (l, ?s)
       | None \<Rightarrow> map_option (\<lambda>(l, s2). (l, AddHeldLock t l s2)) (LockInfo_Create ?key ?isk ?s))"
    unfolding AddWaiterImpl_def counted_step Let_def by simp
  show thesis
  proof (cases "FindHeldLock t ?key ?isk s")
    case (Some l)
    note l = FindHeldLock_in [OF Some]
    have l': "l \<in> set (held ?s t)" and u': "waits_in ?s u = None" using l u(1) by simp_all
    note e = LockInfo_AddWaiter_effect [OF ok' l' u']
    have "locks_ok ({} - {l}) (LockInfo_AddWaiter l u ?s)"
      using l u(2) by (intro LockInfo_AddWaiter_ok [OF ok' l' u']) simp_all
    then have "locks_ok {} (LockInfo_AddWaiter l u ?s)" by simp
    moreover have "AddWaiterImpl t u s = Some (LockInfo_AddWaiter l u ?s)" using Some by (simp add: impl)
    moreover have "same_rest s (LockInfo_AddWaiter l u ?s)" using e(3) same_rest_trans [of s ?s] by simp
    ultimately show ?thesis using e(1,2,4,5) l by (intro that) auto
  next
    case None
    obtain l ls where free: "free_lock_infos s = l # ls" using slab_not_empty [OF ok u] by (cases "free_lock_infos s") auto
    then have free': "free_lock_infos ?s = l # ls" by simp
    define s1 where "s1 = AddHeldLock t l (update_lock l
      (\<lambda>_. \<lparr>lock_tree = [], lock_address_key = ?key, lock_owner = None, lock_waiter_count = 0,
            lock_is_kernel_address_key = ?isk\<rparr>) (?s\<lparr>free_lock_infos := ls\<rparr>))"
    note n = new_lock_effect [OF ok' free', of t ?key ?isk, folded s1_def]
    have ok1: "locks_ok {l} s1" unfolding s1_def by (rule new_lock_ok [OF ok' free'])
    have u1: "waits_in s1 u = None" using n(7) [of u] u(1) by simp
    note e = LockInfo_AddWaiter_effect [OF ok1 n(6) u1]
    have key: "m_address_key (waits s1 u) = ?key" "m_is_kernel_address_key (waits s1 u) = ?isk"
      using same_rest_members(2,4) [OF n(3), of u] by simp_all
    have "locks_ok ({l} - {l}) (LockInfo_AddWaiter l u s1)"
      using key n(8,9) by (intro LockInfo_AddWaiter_ok [OF ok1 n(6) u1 u(2)]) simp_all
    then have "locks_ok {} (LockInfo_AddWaiter l u s1)" by simp
    moreover have "AddWaiterImpl t u s = Some (LockInfo_AddWaiter l u s1)"
      using None free by (simp add: impl LockInfo_Create_def s1_def)
    moreover have "same_rest s (LockInfo_AddWaiter l u s1)"
      using same_rest_trans [OF lock_frame_kernel(4) same_rest_trans [OF n(3) e(3)]] by simp
    ultimately show ?thesis using e(1,2,4,5) n(1,2,4,5,9) by (intro that) auto
  qed
qed

lemma RemoveWaiterImpl_ok:
  assumes ok: "locks_ok {} s" and own: "GetLockOwner s u = Some t"
  obtains s1 where "RemoveWaiterImpl t u s = Some s1" and "locks_ok {} s1" and "GetLockOwner s1 = (GetLockOwner s)(u := None)"
    and "same_rest s s1" and "thread_tree s1 = thread_tree s"
    and "kernel s1 = counted (m_is_kernel_address_key (waits s u)) t (- 1) (kernel s)"
    and "\<And>v. kernel_waiters s1 v = kernel_waiters s v - (if v = t \<and> m_is_kernel_address_key (waits s u) then 1 else 0)"
proof -
  let ?isk = "m_is_kernel_address_key (waits s u)"
  let ?s = "s\<lparr>kernel := counted ?isk t (- 1) (kernel s)\<rparr>"
  obtain l where l: "l \<in> set (held s t)" "u \<in> set (waiters s l)" using own unfolding lock_owner_iff [OF ok] by blast
  have w: "waits_in s u = Some l" by (rule waiter_waits [OF ok l])
  have isk: "?isk = lock_is_kernel_address_key (lock_infos s l)" using held_lock [OF ok l(1)] l(2) by (simp add: lock_ok_def)
  have ok': "locks_ok {} ?s" using ok by (subst locks_ok_kernel) simp_all
  have w': "waits_in ?s u = Some l" and l': "l \<in> set (held ?s t)" using w l(1) by simp_all
  let ?s1 = "without_waiter l u ?s"
  note r = LockInfo_RemoveWaiter_ok [OF ok' w'] and e = without_waiter_effect [OF ok' w' l']
  have impl: "RemoveWaiterImpl t u s =
      (if remove1 u (waiters ?s l) = [] then map_option (LockInfo_Free l) (erase_held_lock t l ?s1) else Some ?s1)"
    unfolding RemoveWaiterImpl_def counted_step Let_def w' by (simp add: r(1))
  have rest: "same_rest s ?s1" using same_rest_trans [OF lock_frame_kernel(4) e(3)] by simp
  show thesis
  proof (cases "remove1 u (waiters ?s l) = []")
    case True
    have ok1: "locks_ok {l} ?s1" using r(2) True by simp
    have l1: "l \<in> set (held ?s1 t)" "waiters ?s1 l = []" using e(4) [of t] l(1) True by simp_all
    let ?s2 = "LockInfo_Free l (update_wait t (\<lambda>w. w\<lparr>m_held_lock_info_list := remove1 l (held ?s1 t)\<rparr>) ?s1)"
    note d = drop_lock_ok [OF ok1 l1]
    have "RemoveWaiterImpl t u s = Some ?s2" using True d(1) by (simp add: impl)
    moreover have "GetLockOwner ?s2 = GetLockOwner ?s1"
      by (auto simp: GetLockOwner_def LockInfo_Free_def fun_eq_iff split: option.splits)
    moreover have "same_rest ?s1 ?s2" by (simp add: same_rest_def LockInfo_Free_def)
    moreover have "kernel_waiters ?s2 = kernel_waiters ?s1" by (rule dropped_waiters [OF distinct_held [OF ok1] l1])
    moreover have "thread_tree ?s2 = thread_tree s" "kernel ?s2 = kernel ?s" by (simp_all add: LockInfo_Free_def)
    ultimately show ?thesis using d(2) e(1,2) isk by (intro that [of ?s2] same_rest_trans [OF rest]) auto
  next
    case False
    then have "RemoveWaiterImpl t u s = Some ?s1" "locks_ok {} ?s1" using r(2) by (simp_all add: impl)
    then show ?thesis using e(1,2) isk rest by (intro that [of ?s1]) auto
  qed
qed

end
