(* ===== verification/Lock_Restore.thy ===== *)
theory Lock_Restore
  imports Lock_Inheritance_Props
begin

text \<open>
  The restoration of priorities keeps the locks and trees as they should be and ends; after it each
  thread runs at the best of its own priority and of those that wait for it.
\<close>

section \<open>The best priority\<close>

definition best_priority :: "WaitState \<Rightarrow> nat \<Rightarrow> int" where
  "best_priority s t = Min (insert (GetBasePriority s t) (GetPriority s ` {u. GetLockOwner s u = Some t}))"

definition inherits :: "nat set \<Rightarrow> WaitState \<Rightarrow> bool" where
  "inherits X s \<longleftrightarrow> (\<forall>t. t \<notin> X \<longrightarrow> GetPriority s t = best_priority s t)"

lemma owned_waiters: "locks_ok E s \<Longrightarrow> {u. GetLockOwner s u = Some t} = (\<Union>l \<in> set (held s t). set (waiters s l))"
  by (auto simp: lock_owner_iff)

lemma finite_waiters: "locks_ok E s \<Longrightarrow> finite {u. GetLockOwner s u = Some t}"
  by (simp add: owned_waiters)

lemma Min_sorted: "sorted (map f (x # xs)) \<Longrightarrow> Min (f ` set (x # xs)) = (f x :: int)"
  by (rule Min_eqI) auto

lemma min_insert: "finite R \<Longrightarrow> min (min p q) (Min (insert p R)) = Min (insert (min p q) (R :: int set))"
  by (cases "R = {}") (simp_all add: min.assoc min.commute min.left_commute)

lemma inherited_fold:
  assumes "\<And>l. l \<in> set ls \<Longrightarrow> waiters s l \<noteq> [] \<and> sorted (map (GetPriority s) (waiters s l))"
  shows "inherited_priority s ls p = Some (Min (insert p (GetPriority s ` (\<Union>l \<in> set ls. set (waiters s l)))))"
  using assms
proof (induction ls arbitrary: p)
  case (Cons l ls)
  obtain u us where l: "waiters s l = u # us" using Cons.prems [of l] by (cases "waiters s l") auto
  then have m: "Min (GetPriority s ` set (waiters s l)) = GetPriority s u"
    using Min_sorted [of "GetPriority s" u us] Cons.prems [of l] by simp
  let ?R = "GetPriority s ` (\<Union>l \<in> set ls. set (waiters s l))" and ?L = "GetPriority s ` set (waiters s l)"
  have "inherited_priority s (l # ls) p = Some (Min (insert (min p (GetPriority s u)) ?R))"
    using Cons l by (simp add: GetHighestPriorityWaiter_def)
  moreover have "Min (insert (min p (GetPriority s u)) ?R) = Min (insert p (?L \<union> ?R))"
  proof -
    have "finite ?L" "?L \<noteq> {}" "finite ?R" using l by auto
    then have "Min (insert p (?L \<union> ?R)) = Min (insert p ?L \<union> insert p ?R)" by simp
    also have "\<dots> = min (min p (Min ?L)) (Min (insert p ?R))"
      using \<open>finite ?L\<close> \<open>?L \<noteq> {}\<close> \<open>finite ?R\<close> by (subst Min_Un) auto
    also have "\<dots> = Min (insert (min p (GetPriority s u)) ?R)"
      unfolding m using min_insert [OF \<open>finite ?R\<close>] by simp
    finally show ?thesis by simp
  qed
  ultimately show ?case by (simp add: image_Un)
qed simp

lemma inherited_best:
  assumes "locks_ok {} s"
  shows "inherited_priority s (held s t) (GetBasePriority s t) = Some (best_priority s t)"
  unfolding best_priority_def owned_waiters [OF assms]
  using held_lock [OF assms] by (intro inherited_fold) (auto simp: lock_ok_def)

lemma best_le_base: "locks_ok E s \<Longrightarrow> best_priority s t \<le> GetBasePriority s t"
  unfolding best_priority_def using finite_waiters by (intro Min_le) auto

lemma best_le_waiter: "locks_ok E s \<Longrightarrow> GetLockOwner s u = Some t \<Longrightarrow> best_priority s t \<le> GetPriority s u"
  unfolding best_priority_def using finite_waiters by (intro Min_le) auto

lemma best_greatest: "locks_ok E s \<Longrightarrow> p \<le> GetBasePriority s t \<Longrightarrow>
    (\<And>u. GetLockOwner s u = Some t \<Longrightarrow> p \<le> GetPriority s u) \<Longrightarrow> p \<le> best_priority s t"
  unfolding best_priority_def using finite_waiters by (subst Min_ge_iff) auto

text \<open>The best priority depends on the waiters of the thread alone.\<close>

lemma best_cong:
  assumes "GetBasePriority s1 t = GetBasePriority s t"
    and "\<And>u. GetLockOwner s1 u = Some t \<longleftrightarrow> GetLockOwner s u = Some t"
    and "\<And>u. GetLockOwner s u = Some t \<Longrightarrow> GetPriority s1 u = GetPriority s u"
  shows "best_priority s1 t = best_priority s t"
proof -
  have "GetPriority s1 ` {u. GetLockOwner s1 u = Some t} = GetPriority s ` {u. GetLockOwner s u = Some t}"
    unfolding assms(2) using assms(3) by (intro image_cong) auto
  then show ?thesis by (simp add: best_priority_def assms(1))
qed

section \<open>The whole state\<close>

definition system_ok :: "WaitState \<Rightarrow> bool" where
  "system_ok s \<longleftrightarrow> locks_ok {} s \<and> trees_ok s \<and> counts_ok s \<and> bases_ok s \<and> kernel_ok (kernel s)"

text \<open>What the lock operations leave of the scheduler's threads.\<close>

definition same_threads :: "WaitState \<Rightarrow> WaitState \<Rightarrow> bool" where
  "same_threads s s1 \<longleftrightarrow> (\<forall>t.
     (threads (kernel s1) t)\<lparr>m_priority := 0, m_num_kernel_waiters := 0\<rparr> =
     (threads (kernel s) t)\<lparr>m_priority := 0, m_num_kernel_waiters := 0\<rparr>)"

lemma same_threads_refl [simp]: "same_threads s s"
  by (simp add: same_threads_def)

lemma same_threads_trans: "same_threads s s1 \<Longrightarrow> same_threads s1 s2 \<Longrightarrow> same_threads s s2"
  unfolding same_threads_def by simp

lemma same_threads_members:
  assumes "same_threads s s1"
  shows "m_thread_state (threads (kernel s1) t) = m_thread_state (threads (kernel s) t)"
    and "IsDummyThread (threads (kernel s1) t) = IsDummyThread (threads (kernel s) t)"
    and "m_suspend_request_flags (threads (kernel s1) t) = m_suspend_request_flags (threads (kernel s) t)"
    and "m_suspend_allowed_flags (threads (kernel s1) t) = m_suspend_allowed_flags (threads (kernel s) t)"
proof -
  have e: "(threads (kernel s1) t)\<lparr>m_priority := 0, m_num_kernel_waiters := 0\<rparr> =
     (threads (kernel s) t)\<lparr>m_priority := 0, m_num_kernel_waiters := 0\<rparr>" using assms by (simp add: same_threads_def)
  show "m_thread_state (threads (kernel s1) t) = m_thread_state (threads (kernel s) t)"
    using arg_cong [OF e, of m_thread_state] by simp
  show "IsDummyThread (threads (kernel s1) t) = IsDummyThread (threads (kernel s) t)"
    using arg_cong [OF e, of IsDummyThread] by simp
  show "m_suspend_request_flags (threads (kernel s1) t) = m_suspend_request_flags (threads (kernel s) t)"
    using arg_cong [OF e, of m_suspend_request_flags] by simp
  show "m_suspend_allowed_flags (threads (kernel s1) t) = m_suspend_allowed_flags (threads (kernel s) t)"
    using arg_cong [OF e, of m_suspend_allowed_flags] by simp
qed

section \<open>A new priority\<close>

lemma SetPriority_frame [simp]:
  "waits (SetPriority t p s) = waits s" "lock_infos (SetPriority t p s) = lock_infos s"
  "free_lock_infos (SetPriority t p s) = free_lock_infos s" "thread_tree (SetPriority t p s) = thread_tree s"
  "GetPriority (SetPriority t p s) = (GetPriority s)(t := p)"
  "kernel (SetPriority t p s) = update_thread t (\<lambda>th. th\<lparr>m_priority := p\<rparr>) (kernel s)"
  "GetLockOwner (SetPriority t p s) = GetLockOwner s" "kernel_waiters (SetPriority t p s) = kernel_waiters s"
  "same_rest s (SetPriority t p s)"
  by (simp_all add: SetPriority_def GetPriority_def fun_eq_iff)

lemma locks_SetPriority:
  assumes ok: "locks_ok E s" and w: "waits_in s t = None"
  shows "locks_ok E (SetPriority t p s)"
proof (rule locks_okI)
  show "lock_ok E (SetPriority t p s) v l" if "l \<in> set (held (SetPriority t p s) v)" for v l
  proof -
    have l: "l \<in> set (held s v)" using that by simp
    then have "t \<notin> set (waiters s l)" using waiter_waits [OF ok] w by fastforce
    then have e: "map ((GetPriority s)(t := p)) (waiters s l) = map (GetPriority s) (waiters s l)" by auto
    have "sorted (map ((GetPriority s)(t := p)) (waiters s l))"
      using held_lock [OF ok l] unfolding e by (simp add: lock_ok_def)
    then show ?thesis using held_lock [OF ok l] by (simp add: lock_ok_def)
  qed
qed (use ok in \<open>simp_all add: locks_ok_def slab_ok_def\<close>)

text \<open>Out of the tree, a new priority, and into the tree again.\<close>

lemma sorted_without:
  assumes "sorted_wrt (\<lambda>a b. \<not> ConditionVariableComparator s b a) ts" and "t \<notin> set ts" and "waits s1 = waits s"
    and "\<And>u. u \<noteq> t \<Longrightarrow> GetPriority s1 u = GetPriority s u"
  shows "sorted_wrt (\<lambda>a b. \<not> ConditionVariableComparator s1 b a) ts"
proof (rule sorted_wrt_mono_rel [OF _ assms(1)])
  fix a b assume "a \<in> set ts" "b \<in> set ts" and c: "\<not> ConditionVariableComparator s b a"
  then have "GetPriority s1 a = GetPriority s a" "GetPriority s1 b = GetPriority s b" using assms(2,4) by metis+
  then show "\<not> ConditionVariableComparator s1 b a" using c by (simp add: ConditionVariableComparator_def assms(3))
qed

lemma treesD:
  assumes "trees_ok s"
  shows "distinct (thread_tree s tr)" "sorted_wrt (\<lambda>a b. \<not> ConditionVariableComparator s b a) (thread_tree s tr)"
    "u \<in> set (thread_tree s tr) \<longleftrightarrow> m_condvar_tree (waits s u) = Some tr"
    "m_condvar_tree (waits s u) \<noteq> None \<Longrightarrow> waits_in s u = None"
  using assms unfolding trees_ok_def by blast+

lemma treesI:
  assumes "\<And>tr. distinct (thread_tree s tr)" "\<And>tr. sorted_wrt (\<lambda>a b. \<not> ConditionVariableComparator s b a) (thread_tree s tr)"
    "\<And>tr u. u \<in> set (thread_tree s tr) \<longleftrightarrow> m_condvar_tree (waits s u) = Some tr"
    "\<And>u. m_condvar_tree (waits s u) \<noteq> None \<Longrightarrow> waits_in s u = None"
  shows "trees_ok s"
  using assms unfolding trees_ok_def by blast

lemma update_in_tree:
  assumes ok: "trees_ok s"
  obtains s2 where "BeforeUpdatePriority t s = Some s2" and "GetPriority s2 = GetPriority s"
    and "waits s2 = waits s" and "kernel s2 = kernel s" and "lock_infos s2 = lock_infos s" and "same_rest s s2"
    and "free_lock_infos s2 = free_lock_infos s"
    and "\<And>p. trees_ok (AfterUpdatePriority t (SetPriority t p s2))"
proof (cases "m_condvar_tree (waits s t)")
  case None
  have no: "t \<notin> set (thread_tree s tr)" for tr using treesD(3) [OF ok, of t tr] None by simp
  have "trees_ok (SetPriority t p s)" for p
  proof (rule treesI)
    show "sorted_wrt (\<lambda>a b. \<not> ConditionVariableComparator (SetPriority t p s) b a) (thread_tree (SetPriority t p s) tr)" for tr
      unfolding SetPriority_frame by (rule sorted_without [OF treesD(2) [OF ok] no]) simp_all
    show "distinct (thread_tree (SetPriority t p s) tr)" for tr using treesD(1) [OF ok] by simp
    show "u \<in> set (thread_tree (SetPriority t p s) tr) \<longleftrightarrow> m_condvar_tree (waits (SetPriority t p s) u) = Some tr" for u tr
      using treesD(3) [OF ok, of u tr] by simp
    show "m_condvar_tree (waits (SetPriority t p s) u) \<noteq> None \<Longrightarrow> waits_in (SetPriority t p s) u = None" for u
      using treesD(4) [OF ok, of u] by simp
  qed
  then show ?thesis using None
    by (intro that [of s]) (simp_all add: BeforeUpdatePriority_def AfterUpdatePriority_def)
next
  case (Some tr)
  let ?s = "update_tree tr (\<lambda>_. remove1 t (thread_tree s tr)) s"
  have t: "t \<in> set (thread_tree s tr)" using treesD(3) [OF ok, of t tr] Some by simp
  have only: "t \<notin> set (thread_tree s v)" if "v \<noteq> tr" for v using treesD(3) [OF ok, of t v] Some that by simp
  have no: "t \<notin> set (thread_tree ?s v)" for v
    using only [of v] treesD(1) [OF ok, of tr] by (cases "v = tr") simp_all
  have "trees_ok (AfterUpdatePriority t (SetPriority t p ?s))" (is "trees_ok ?s1") for p
  proof -
    let ?p = "SetPriority t p ?s"
    have tree: "thread_tree ?s1 = (thread_tree ?s)(tr := insert_ordered (ConditionVariableComparator ?p) t (thread_tree ?s tr))"
      and w: "waits ?s1 = waits s" using Some by (simp_all add: AfterUpdatePriority_def tree_insert_thread_def)
    have cmp: "ConditionVariableComparator ?s1 = ConditionVariableComparator ?p"
      using Some by (simp add: AfterUpdatePriority_def tree_insert_thread_def ConditionVariableComparator_def fun_eq_iff)
    have "sorted_wrt (\<lambda>a b. \<not> ConditionVariableComparator s b a) (thread_tree ?s v)" for v
      using treesD(2) [OF ok] sorted_remove1 [OF treesD(2) [OF ok]] by simp
    then have sorted: "sorted_wrt (\<lambda>a b. \<not> ConditionVariableComparator ?p b a) (thread_tree ?s v)" for v
      by (rule sorted_without [OF _ no]) simp_all
    show ?thesis
    proof (rule treesI)
      show "distinct (thread_tree ?s1 v)" for v using treesD(1) [OF ok] no [of tr] unfolding tree by simp
      show "sorted_wrt (\<lambda>a b. \<not> ConditionVariableComparator ?s1 b a) (thread_tree ?s1 v)" for v
        using sorted [of v] insert_by_key [OF sorted [of tr]] unfolding cmp tree by (cases "v = tr") simp_all
      show "u \<in> set (thread_tree ?s1 v) \<longleftrightarrow> m_condvar_tree (waits ?s1 u) = Some v" for u v
        using treesD(3) [OF ok, of u v] treesD(1) [OF ok, of tr] Some unfolding tree w by (cases "u = t") auto
      show "m_condvar_tree (waits ?s1 u) \<noteq> None \<Longrightarrow> waits_in ?s1 u = None" for u
        using treesD(4) [OF ok, of u] unfolding w .
    qed
  qed
  then show ?thesis using Some t
    by (intro that [of ?s]) (simp_all add: BeforeUpdatePriority_def tree_erase_thread_def tree_erase_def same_rest_def)
qed

lemma locks_ok_cong:
  assumes "waits s1 = waits s" and "lock_infos s1 = lock_infos s" and "free_lock_infos s1 = free_lock_infos s"
    and "GetPriority s1 = GetPriority s"
  shows "locks_ok E s1 = locks_ok E s"
  unfolding locks_ok_def lock_ok_def slab_ok_def assms ..

lemma trees_ok_cong:
  assumes ok: "trees_ok s" and rest: "same_rest s s1" and tree: "thread_tree s1 = thread_tree s" and p: "GetPriority s1 = GetPriority s"
    and w: "\<And>u. m_condvar_tree (waits s u) \<noteq> None \<Longrightarrow> waits_in s1 u = None"
  shows "trees_ok s1"
proof (rule treesI)
  have cmp: "ConditionVariableComparator s1 = ConditionVariableComparator s"
    by (simp add: ConditionVariableComparator_def fun_eq_iff p same_rest_members [OF rest])
  show "distinct (thread_tree s1 tr)" for tr using treesD(1) [OF ok] by (simp add: tree)
  show "sorted_wrt (\<lambda>a b. \<not> ConditionVariableComparator s1 b a) (thread_tree s1 tr)" for tr
    using treesD(2) [OF ok] by (simp add: tree cmp)
  show "u \<in> set (thread_tree s1 tr) \<longleftrightarrow> m_condvar_tree (waits s1 u) = Some tr" for tr u
    using treesD(3) [OF ok] by (simp add: tree same_rest_members [OF rest])
  show "m_condvar_tree (waits s1 u) \<noteq> None \<Longrightarrow> waits_in s1 u = None" for u
    using w by (simp add: same_rest_members [OF rest])
qed

lemma counted_commutes: "counted b u n (update_thread t (\<lambda>th. th\<lparr>m_priority := p\<rparr>) k) =
    update_thread t (\<lambda>th. th\<lparr>m_priority := p\<rparr>) (counted b u n k)"
  by (auto simp: counted_def update_thread_def SetSchedulerUpdateNeeded_def fun_eq_iff)

lemma OnThreadPriorityChanged_threads: "OnThreadPriorityChanged cur t old k = Some k1 \<Longrightarrow> threads k1 = threads k"
  by (auto simp: OnThreadPriorityChanged_def on_queue_def split: if_splits)

lemma system_okD:
  assumes "system_ok s"
  shows "locks_ok {} s" "trees_ok s" "counts_ok s" "bases_ok s" "kernel_ok (kernel s)"
  using assms by (simp_all add: system_ok_def)

lemma GetPriority_kernel: "threads (kernel s1) = threads (kernel s) \<Longrightarrow> GetPriority s1 = GetPriority s"
  by (simp add: GetPriority_def fun_eq_iff)

lemma counts_kernel:
  assumes "counts_ok s" and "\<And>t. m_num_kernel_waiters (threads (kernel s1) t) = m_num_kernel_waiters (threads (kernel s) t)"
    and "kernel_waiters s1 = kernel_waiters s"
  shows "counts_ok s1"
  using assms by (simp add: counts_ok_def)

text \<open>
  The notification of the scheduler, after the thread has its new priority and its place among the waiters again.
\<close>

lemma notify_ok:
  assumes sys: "locks_ok {} s" "trees_ok s" "kernel s = update_thread t (\<lambda>th. th\<lparr>m_priority := v\<rparr>) k"
    and k: "kernel_ok k" and v: "0 \<le> v" "IsDummyThread (threads k t) \<or> v \<le> 64" and old: "old = m_priority (threads k t)"
  obtains s1 where "on_kernel (OnThreadPriorityChanged cur t old) s = Some s1" and "locks_ok {} s1" and "trees_ok s1"
    and "kernel_ok (kernel s1)" and "threads (kernel s1) = threads (kernel s)" and "GetPriority s1 = GetPriority s"
    and "GetLockOwner s1 = GetLockOwner s" and "same_rest s s1" and "kernel_waiters s1 = kernel_waiters s"
proof -
  obtain k1 where k1: "change_priority cur t v k = Some k1" "kernel_ok k1"
    using change_priority_ok [OF k v(1), of t cur] v(2) by blast
  then have n: "OnThreadPriorityChanged cur t old (kernel s) = Some k1"
    using old sys(3) by (simp add: change_priority_def)
  let ?s = "s\<lparr>kernel := k1\<rparr>"
  have th: "threads (kernel ?s) = threads (kernel s)" using OnThreadPriorityChanged_threads [OF n] by simp
  have p: "GetPriority ?s = GetPriority s" by (rule GetPriority_kernel [OF th])
  have "trees_ok ?s" using treesD(4) [OF sys(2)] by (intro trees_ok_cong [OF sys(2) _ _ p]) simp_all
  then show thesis using n k1(2) th p locks_ok_kernel [OF p] sys(1)
    by (intro that [of ?s]) (simp_all add: on_kernel_def)
qed

lemma set_inherited_ok:
  assumes sys: "system_ok s" and v: "0 \<le> v" "IsDummyThread (threads (kernel s) t) \<or> v \<le> 64"
  obtains s1 where "set_inherited cur t v (GetLockOwner s t) s = Some s1" and "system_ok s1"
    and "GetPriority s1 = (GetPriority s)(t := v)" and "GetLockOwner s1 = GetLockOwner s"
    and "same_rest s s1" and "same_threads s s1"
proof -
  note ok = system_okD [OF sys]
  let ?isk = "m_is_kernel_address_key (waits s t)" and ?p = "update_thread t (\<lambda>th. th\<lparr>m_priority := v\<rparr>)"
  show thesis
  proof (cases "GetLockOwner s t")
    case None
    obtain s2 where s2: "BeforeUpdatePriority t s = Some s2" "GetPriority s2 = GetPriority s" "waits s2 = waits s"
      "kernel s2 = kernel s" "lock_infos s2 = lock_infos s" "same_rest s s2" "free_lock_infos s2 = free_lock_infos s"
      "\<And>p. trees_ok (AfterUpdatePriority t (SetPriority t p s2))"
      by (rule update_in_tree [OF ok(2)]) (rule that)
    let ?s3 = "AfterUpdatePriority t (SetPriority t v s2)"
    have f: "waits ?s3 = waits s" "kernel ?s3 = ?p (kernel s)" "lock_infos ?s3 = lock_infos s"
      "free_lock_infos ?s3 = free_lock_infos s" "GetPriority ?s3 = (GetPriority s)(t := v)"
      using s2 by (simp_all add: AfterUpdatePriority_def tree_insert_thread_def split: option.split)
    have own: "GetLockOwner ?s3 = GetLockOwner s" "kernel_waiters ?s3 = kernel_waiters s"
      by (simp_all add: GetLockOwner_def kernel_waiters_def f fun_eq_iff cong: option.case_cong if_cong)
    have rest: "same_rest s ?s3"
      using s2(6) by (simp add: AfterUpdatePriority_def tree_insert_thread_def same_rest_def SetPriority_def split: option.split)
    have "waits_in s t = None" using None lock_owner_None [OF ok(1)] by simp
    then have "locks_ok {} (SetPriority t v s)" by (rule locks_SetPriority [OF ok(1)])
    then have l3: "locks_ok {} ?s3" by (rule locks_ok_cong [THEN iffD2, rotated 4]) (simp_all add: f)
    have t3: "trees_ok ?s3" by (rule s2(8))
    obtain s1 where s1: "on_kernel (OnThreadPriorityChanged cur t (GetPriority s t)) ?s3 = Some s1" "locks_ok {} s1" "trees_ok s1"
      "kernel_ok (kernel s1)" "threads (kernel s1) = threads (kernel ?s3)" "GetPriority s1 = GetPriority ?s3"
      "GetLockOwner s1 = GetLockOwner ?s3" "same_rest ?s3 s1" "kernel_waiters s1 = kernel_waiters ?s3"
      by (rule notify_ok [OF l3 t3 f(2) ok(5) v, of "GetPriority s t" cur]) (simp add: GetPriority_def, rule that)
    have rest1: "same_rest s s1" by (rule same_rest_trans [OF rest s1(8)])
    have th: "threads (kernel s1) = (threads (kernel s))(t := (threads (kernel s) t)\<lparr>m_priority := v\<rparr>)"
      unfolding s1(5) f(2) by simp
    have "counts_ok s1" using th s1(9) own(2) by (intro counts_kernel [OF ok(3)]) simp_all
    moreover have "bases_ok s1" using ok(4) th by (simp add: bases_ok_def same_rest_members [OF rest1])
    ultimately have "system_ok s1" using s1 by (simp add: system_ok_def)
    moreover have "same_threads s s1" using th by (simp add: same_threads_def)
    moreover have "set_inherited cur t v (GetLockOwner s t) s = Some s1"
      using s1(1) s2(1,2) None by (simp add: set_inherited_def Let_def)
    ultimately show ?thesis using s1(6,7) f(5) own(1) rest1 by (intro that [of s1]) simp_all
  next
    case (Some u)
    obtain l where l: "waits_in s t = Some l" using Some by (auto simp: GetLockOwner_def split: option.splits)
    have tN: "t < SlabCountKThread" using waits_in_locks [OF ok(1) l] by blast
    have cv: "m_condvar_tree (waits s t) = None" using treesD(4) [OF ok(2), of t] l
      by (cases "m_condvar_tree (waits s t)") simp_all
    obtain sa where sa: "RemoveWaiterImpl u t s = Some sa" "locks_ok {} sa" "GetLockOwner sa = (GetLockOwner s)(t := None)"
      "same_rest s sa" "thread_tree sa = thread_tree s" "kernel sa = counted ?isk u (- 1) (kernel s)"
      "\<And>v. kernel_waiters sa v = kernel_waiters s v - (if v = u \<and> ?isk then 1 else 0)"
      by (rule RemoveWaiterImpl_ok [OF ok(1) Some]) (rule that)
    note ra = same_rest_members [OF sa(4)]
    have wa: "waits_in sa t = None" using lock_owner_None [OF sa(2), of t] sa(3) by simp
    have pa: "GetPriority sa = GetPriority s" by (simp add: GetPriority_def sa(6) counted_threads fun_eq_iff)
    have "waits_in sa v = None" if "m_condvar_tree (waits s v) \<noteq> None" for v
      using treesD(4) [OF ok(2) that] lock_owner_None [OF ok(1), of v] lock_owner_None [OF sa(2), of v] sa(3)
      by (cases "v = t") simp_all
    then have ta: "trees_ok sa" by (intro trees_ok_cong [OF ok(2) sa(4,5) pa])
    let ?s3 = "SetPriority t v sa"
    have cva: "m_condvar_tree (waits sa t) = None" using cv ra by simp
    have l3: "locks_ok {} ?s3" by (rule locks_SetPriority [OF sa(2) wa])
    have t3: "trees_ok ?s3"
    proof -
      have no: "t \<notin> set (thread_tree sa tr)" for tr using treesD(3) [OF ta, of t tr] cva by simp
      show ?thesis
      proof (rule treesI)
        show "sorted_wrt (\<lambda>a b. \<not> ConditionVariableComparator ?s3 b a) (thread_tree ?s3 tr)" for tr
          unfolding SetPriority_frame by (rule sorted_without [OF treesD(2) [OF ta] no]) simp_all
        show "u \<in> set (thread_tree ?s3 tr) \<longleftrightarrow> m_condvar_tree (waits ?s3 u) = Some tr" for u tr
          using treesD(3) [OF ta, of u tr] by simp
        show "m_condvar_tree (waits ?s3 u) \<noteq> None \<Longrightarrow> waits_in ?s3 u = None" for u using treesD(4) [OF ta, of u] by simp
        show "distinct (thread_tree ?s3 tr)" for tr using treesD(1) [OF ta] by simp
      qed
    qed
    have w3: "waits_in ?s3 t = None" using wa by simp
    obtain s4 where s4: "AddWaiterImpl u t ?s3 = Some s4" "locks_ok {} s4" "GetLockOwner s4 = (GetLockOwner ?s3)(t := Some u)"
      "same_rest ?s3 s4" "thread_tree s4 = thread_tree ?s3"
      "kernel s4 = counted (m_is_kernel_address_key (waits ?s3 t)) u 1 (kernel ?s3)"
      "\<And>v. kernel_waiters s4 v = kernel_waiters ?s3 v + (if v = u \<and> m_is_kernel_address_key (waits ?s3 t) then 1 else 0)"
      by (rule AddWaiterImpl_ok [OF l3 w3 tN]) (rule that)
    have isk: "m_is_kernel_address_key (waits ?s3 t) = ?isk" using ra by simp
    let ?k = "counted ?isk u 1 (counted ?isk u (- 1) (kernel s))"
    have "kernel s4 = counted ?isk u 1 (kernel ?s3)" using s4(6) unfolding isk .
    then have k4: "kernel s4 = ?p ?k" by (simp only: SetPriority_frame sa(6) counted_commutes)
    have p4: "GetPriority s4 = (GetPriority s)(t := v)"
      by (simp add: GetPriority_def k4 counted_threads fun_eq_iff)
    have p43: "GetPriority s4 = GetPriority ?s3" using p4 pa by simp
    have "waits_in s4 x = None" if "m_condvar_tree (waits ?s3 x) \<noteq> None" for x
      using treesD(4) [OF t3 that] lock_owner_None [OF l3, of x] lock_owner_None [OF s4(2), of x] s4(3) that cva
      by (cases "x = t") simp_all
    then have t4: "trees_ok s4" by (intro trees_ok_cong [OF t3 s4(4,5) p43])
    have kk: "kernel_ok ?k" using counted_ok ok(5) by blast
    have thk: "threads ?k x = threads (kernel s) x" for x by (simp add: counted_threads)
    obtain s1 where s1: "on_kernel (OnThreadPriorityChanged cur t (GetPriority s t)) s4 = Some s1" "locks_ok {} s1" "trees_ok s1"
      "kernel_ok (kernel s1)" "threads (kernel s1) = threads (kernel s4)" "GetPriority s1 = GetPriority s4"
      "GetLockOwner s1 = GetLockOwner s4" "same_rest s4 s1" "kernel_waiters s1 = kernel_waiters s4"
      using v(2) thk [of t] by (elim notify_ok [OF s4(2) t4 k4 kk v(1), of "GetPriority s t" cur, rotated 2])
        (simp_all add: GetPriority_def that)
    have rest1: "same_rest s s1"
      using same_rest_trans [OF same_rest_trans [OF sa(4) SetPriority_frame(9)] same_rest_trans [OF s4(4) s1(8)]] .
    have th: "threads (kernel s1) = (threads (kernel s))(t := (threads (kernel s) t)\<lparr>m_priority := v\<rparr>)"
      unfolding s1(5) k4 by (simp add: thk fun_eq_iff)
    have "kernel_waiters s1 x = kernel_waiters s x" for x using s1(9) s4(7) sa(7) isk by simp
    then have "counts_ok s1" using th by (intro counts_kernel [OF ok(3)]) (simp_all add: fun_eq_iff)
    moreover have "bases_ok s1" using ok(4) th by (simp add: bases_ok_def same_rest_members [OF rest1])
    ultimately have "system_ok s1" using s1 by (simp add: system_ok_def)
    moreover have "same_threads s s1" using th by (simp add: same_threads_def)
    moreover have "set_inherited cur t v (GetLockOwner s t) s = Some s1"
      using s1(1) sa(1) s4(1) Some cva pa by (simp add: set_inherited_def BeforeUpdatePriority_def AfterUpdatePriority_def Let_def)
    moreover have "GetLockOwner s1 = GetLockOwner s" using s1(7) s4(3) sa(3) Some by (simp add: fun_eq_iff)
    ultimately show ?thesis using s1(6) p4 rest1 by (intro that [of s1]) simp_all
  qed
qed

section \<open>The restoration ends\<close>

text \<open>
  Along the chain of owners the priorities change in one direction only: a thread that got a better
  priority can only improve the best of its owner.  What is left in that direction bounds the number of
  threads that still wait and change, so a circle of waits is left too.
\<close>

definition room :: "bool \<Rightarrow> WaitState \<Rightarrow> nat \<Rightarrow> nat" where
  "room better s u = (if better then nat (GetPriority s u) else nat (GetBasePriority s u - GetPriority s u))"

definition towards :: "bool \<Rightarrow> int \<Rightarrow> int \<Rightarrow> bool" where
  "towards better p q \<longleftrightarrow> (if better then q \<le> p else p \<le> q)"

lemma waiting_finite: "locks_ok E s \<Longrightarrow> finite {u. GetLockOwner s u \<noteq> None}"
  by (rule finite_subset [of _ "{..<SlabCountKThread}"]) (auto simp: lock_owner_None dest: waits_in_locks)

lemma priority_nonneg: "system_ok s \<Longrightarrow> 0 \<le> GetPriority s t"
  using sched_ok_thread unfolding system_ok_def kernel_ok_def GetPriority_def thread_ok_def by blast

lemma best_nonneg:
  assumes "system_ok s"
  shows "0 \<le> best_priority s t"
  using system_okD(4) [OF assms] priority_nonneg [OF assms]
  by (intro best_greatest [OF system_okD(1) [OF assms]]) (simp_all add: bases_ok_def)

lemma best_step:
  assumes ok: "locks_ok {} s" "locks_ok {} s1" and p: "GetPriority s1 = (GetPriority s)(t := v)"
    and own: "GetLockOwner s1 = GetLockOwner s" and base: "GetBasePriority s1 x = GetBasePriority s x"
  shows "GetLockOwner s t \<noteq> Some x \<Longrightarrow> best_priority s1 x = best_priority s x"
    and "towards better (GetPriority s t) v \<Longrightarrow> towards better (best_priority s x) (best_priority s1 x)"
proof -
  show "best_priority s1 x = best_priority s x" if "GetLockOwner s t \<noteq> Some x"
    using that by (intro best_cong) (auto simp: p own base)
  assume t: "towards better (GetPriority s t) v"
  show "towards better (best_priority s x) (best_priority s1 x)"
  proof (cases better)
    case True
    have "best_priority s1 x \<le> best_priority s x"
    proof (rule best_greatest [OF ok(1)])
      show "best_priority s1 x \<le> GetBasePriority s x" using best_le_base [OF ok(2), of x] base by simp
      show "best_priority s1 x \<le> GetPriority s u" if "GetLockOwner s u = Some x" for u
        using best_le_waiter [OF ok(2), of u x] that own p t True by (cases "u = t") (simp_all add: towards_def)
    qed
    then show ?thesis using True by (simp add: towards_def)
  next
    case False
    have "best_priority s x \<le> best_priority s1 x"
    proof (rule best_greatest [OF ok(2)])
      show "best_priority s x \<le> GetBasePriority s1 x" using best_le_base [OF ok(1), of x] base by simp
      show "best_priority s x \<le> GetPriority s1 u" if "GetLockOwner s1 u = Some x" for u
        using best_le_waiter [OF ok(1), of u x] that own p t False by (cases "u = t") (simp_all add: towards_def)
    qed
    then show ?thesis using False by (simp add: towards_def)
  qed
qed

lemma restore_one_way:
  assumes "system_ok s" and "inherits (set_option thread) s"
    and "\<And>t. thread = Some t \<Longrightarrow> towards better (GetPriority s t) (best_priority s t)"
  shows "\<exists>s1. RestorePriority cur thread s = Some s1 \<and> system_ok s1 \<and> inherits {} s1 \<and>
    GetLockOwner s1 = GetLockOwner s \<and> same_rest s s1 \<and> same_threads s s1"
  using assms
proof (induction "\<Sum>u | GetLockOwner s u \<noteq> None. room better s u" arbitrary: s thread rule: less_induct)
  case less
  note sys = less.prems(1) and ok = system_okD [OF less.prems(1)]
  show ?case
  proof (cases thread)
    case None
    then show ?thesis using less.prems by (subst RestorePriority.simps) simp
  next
    case (Some t)
    let ?v = "best_priority s t" and ?owner = "GetLockOwner s t"
    note inh = inherited_best [OF ok(1), of t]
    show ?thesis
    proof (cases "?v = GetPriority s t")
      case True
      then have "GetPriority s x = best_priority s x" for x
        using less.prems(2) Some by (cases "x = t") (simp_all add: inherits_def)
      then have "inherits {} s" by (simp add: inherits_def)
      then show ?thesis using sys Some inh True by (subst RestorePriority.simps) simp
    next
      case False
      have v: "0 \<le> ?v" "?v \<le> GetBasePriority s t" "IsDummyThread (threads (kernel s) t) \<or> ?v \<le> 64"
        using best_nonneg [OF sys] best_le_base [OF ok(1), of t] ok(4) by (auto simp: bases_ok_def dest: order_trans)
      obtain s1 where s1: "set_inherited cur t ?v ?owner s = Some s1" "system_ok s1" "GetPriority s1 = (GetPriority s)(t := ?v)"
        "GetLockOwner s1 = GetLockOwner s" "same_rest s s1" "same_threads s s1"
        by (rule set_inherited_ok [OF sys v(1,3)]) (rule that)
      have base: "GetBasePriority s1 x = GetBasePriority s x" for x by (rule same_rest_members(19) [OF s1(5)])
      have dir: "towards better (GetPriority s t) ?v" by (rule less.prems(3) [OF Some])
      note best = best_step [OF ok(1) system_okD(1) [OF s1(2)] s1(3,4) base]
      have inh1: "inherits (set_option ?owner) s1"
        using best(1) less.prems(2) Some by (auto simp: inherits_def s1(3) simp del: not_None_eq)
      have dir1: "towards better (GetPriority s1 u) (best_priority s1 u)" if "?owner = Some u" for u
      proof -
        have "GetPriority s1 u = best_priority s u" using less.prems(2) Some s1(3) by (auto simp: inherits_def)
        then show ?thesis using best(2) [OF dir, of u] by simp
      qed
      have "\<exists>s2. RestorePriority cur ?owner s1 = Some s2 \<and> system_ok s2 \<and> inherits {} s2 \<and>
        GetLockOwner s2 = GetLockOwner s1 \<and> same_rest s1 s2 \<and> same_threads s1 s2"
      proof (cases ?owner)
        case None
        then show ?thesis using s1(2) inh1 by (subst RestorePriority.simps) simp
      next
        case (Some u)
        have "room better s1 t < room better s t"
          using dir False v priority_nonneg [OF sys, of t] base by (auto simp: room_def towards_def s1(3))
        moreover have "room better s1 x = room better s x" if "x \<noteq> t" for x using that base by (simp add: room_def s1(3))
        ultimately have "(\<Sum>u | GetLockOwner s1 u \<noteq> None. room better s1 u) < (\<Sum>u | GetLockOwner s u \<noteq> None. room better s u)"
          unfolding s1(4) using waiting_finite [OF ok(1)] Some
          by (intro sum_strict_mono_ex1) (auto intro: less_imp_le dest: eq_refl, metis order_refl less_imp_le)
        then show ?thesis using less.hyps [OF _ s1(2) inh1 dir1] by blast
      qed
      then obtain s2 where s2: "RestorePriority cur ?owner s1 = Some s2" "system_ok s2" "inherits {} s2"
        "GetLockOwner s2 = GetLockOwner s1" "same_rest s1 s2" "same_threads s1 s2" by blast
      moreover have "RestorePriority cur thread s = Some s2"
        using Some inh False s1(1) s2(1) by (subst RestorePriority.simps) simp
      ultimately show ?thesis using same_rest_trans [OF s1(5) s2(5)] same_threads_trans [OF s1(6) s2(6)] s1(4) by auto
    qed
  qed
qed

lemma RestorePriority_ok:
  assumes "system_ok s" and "inherits {t} s"
  obtains s1 where "RestorePriority cur (Some t) s = Some s1" and "system_ok s1" and "inherits {} s1"
    and "GetLockOwner s1 = GetLockOwner s" and "same_rest s s1" and "same_threads s s1"
proof -
  have "towards (best_priority s t \<le> GetPriority s t) (GetPriority s t) (best_priority s t)" by (auto simp: towards_def)
  then show thesis using restore_one_way [of s "Some t" _ cur] assms that by fastforce
qed

section \<open>The operations\<close>

lemma locks_counted: "locks_ok E (s\<lparr>kernel := counted isk t n (kernel s)\<rparr>) = locks_ok E s"
  by (rule locks_ok_kernel) simp

lemma base_dummy_ok:
  assumes "bases_ok s" and "same_rest s s1" and "\<And>t. IsDummyThread (threads (kernel s1) t) = IsDummyThread (threads (kernel s) t)"
  shows "bases_ok s1"
  using assms(1,3) by (simp add: bases_ok_def same_rest_members [OF assms(2)])

text \<open>A waiter more or less, as far as the whole state is concerned.\<close>

lemma waiter_changed_system:
  assumes sys: "system_ok s" and new: "locks_ok {} s1" "same_rest s s1" "thread_tree s1 = thread_tree s"
    "kernel s1 = counted isk t n (kernel s)"
    and w: "\<And>v. kernel_waiters s1 v = kernel_waiters s v + (if v = t \<and> isk then n else 0)"
    and cv: "\<forall>u. m_condvar_tree (waits s u) \<noteq> None \<longrightarrow> waits_in s1 u = None"
  shows "system_ok s1" and "GetPriority s1 = GetPriority s" and "same_threads s s1"
proof -
  note ok = system_okD [OF sys]
  show p: "GetPriority s1 = GetPriority s" by (simp add: GetPriority_def new(4) counted_threads fun_eq_iff)
  show "same_threads s s1" by (simp add: same_threads_def new(4) counted_threads)
  have "trees_ok s1" by (rule trees_ok_cong [OF ok(2) new(2,3) p]) (use cv in blast)
  moreover have "counts_ok s1" using ok(3) by (simp add: counts_ok_def w new(4) counted_threads)
  moreover have "bases_ok s1" by (rule base_dummy_ok [OF ok(4) new(2)]) (simp add: new(4) counted_threads)
  ultimately show "system_ok s1" using new(1) counted_ok [OF ok(5)] by (simp add: system_ok_def new(4))
qed

lemma AddWaiter_ok:
  assumes sys: "system_ok s" "inherits {} s" and u: "waits_in s u = None" "m_condvar_tree (waits s u) = None" "u < SlabCountKThread"
  obtains s1 where "AddWaiter cur t u s = Some s1" and "system_ok s1" and "inherits {} s1"
    and "GetLockOwner s1 = (GetLockOwner s)(u := Some t)" and "same_rest s s1" and "same_threads s s1"
proof -
  note ok = system_okD [OF sys(1)]
  let ?isk = "m_is_kernel_address_key (waits s u)"
  obtain s1 where s1: "AddWaiterImpl t u s = Some s1" "locks_ok {} s1" "GetLockOwner s1 = (GetLockOwner s)(u := Some t)"
    "same_rest s s1" "thread_tree s1 = thread_tree s" "kernel s1 = counted ?isk t 1 (kernel s)"
    "\<And>v. kernel_waiters s1 v = kernel_waiters s v + (if v = t \<and> ?isk then 1 else 0)"
    by (rule AddWaiterImpl_ok [OF ok(1) u(1,3)]) (rule that)
  have "waits_in s1 v = None" if "m_condvar_tree (waits s v) \<noteq> None" for v
    using treesD(4) [OF ok(2) that] lock_owner_None [OF ok(1), of v] lock_owner_None [OF s1(2), of v] s1(3) that u(2)
    by (cases "v = u") simp_all
  then have cv: "\<forall>v. m_condvar_tree (waits s v) \<noteq> None \<longrightarrow> waits_in s1 v = None" by blast
  note w = waiter_changed_system [OF sys(1) s1(2,4-7) cv]
  have none: "GetLockOwner s u = None" using lock_owner_None [OF ok(1)] u(1) by simp
  have own: "GetLockOwner s1 v = Some x \<longleftrightarrow> GetLockOwner s v = Some x \<or> v = u \<and> x = t" for v x
    using s1(3) none by auto
  have base: "GetBasePriority s1 x = GetBasePriority s x" for x by (rule same_rest_members(19) [OF s1(4)])
  have best: "best_priority s1 x = GetPriority s1 x" if "x \<noteq> t" for x
    using sys(2) that none by (subst best_cong [where s = s]) (auto simp: base own w(2) inherits_def)
  show thesis
  proof (cases "GetPriority s1 u < GetPriority s1 t")
    case True
    have inh: "inherits {t} s1" using best by (simp add: inherits_def)
    obtain s2 where s2: "RestorePriority cur (Some t) s1 = Some s2" "system_ok s2" "inherits {} s2"
      "GetLockOwner s2 = GetLockOwner s1" "same_rest s1 s2" "same_threads s1 s2"
      by (rule RestorePriority_ok [OF w(1) inh]) (rule that)
    have "AddWaiter cur t u s = Some s2" using s1(1) s2(1) True by (simp add: AddWaiter_def)
    then show thesis using s2 s1(3) same_rest_trans [OF s1(4) s2(5)] same_threads_trans [OF w(3) s2(6)] that by metis
  next
    case False
    have t: "GetPriority s1 t = best_priority s t" using sys(2) by (simp add: inherits_def w(2))
    have "best_priority s1 t = best_priority s t"
    proof (rule antisym)
      show "best_priority s1 t \<le> best_priority s t"
        using best_le_base [OF s1(2), of t] best_le_waiter [OF s1(2)] by (intro best_greatest [OF ok(1)]) (simp_all add: base own flip: w(2))
      show "best_priority s t \<le> best_priority s1 t"
        using best_le_base [OF ok(1), of t] best_le_waiter [OF ok(1)] False t
        by (intro best_greatest [OF s1(2)]) (auto simp: base own w(2))
    qed
    then have "GetPriority s1 x = best_priority s1 x" for x using best [of x] t by (cases "x = t") simp_all
    then have "inherits {} s1" by (simp add: inherits_def)
    moreover have "AddWaiter cur t u s = Some s1" using s1(1) False by (simp add: AddWaiter_def)
    ultimately show thesis using w s1(3,4) that by blast
  qed
qed

text \<open>
  The best priority stays when waiters go that are not better than a priority that is worse than it,
  or when the thread runs at its own priority.
\<close>

lemma best_without:
  assumes ok: "locks_ok {} s" "locks_ok {} s1" and base: "GetBasePriority s1 t = GetBasePriority s t"
    and p: "GetPriority s1 = GetPriority s"
    and fewer: "\<And>v. GetLockOwner s1 v = Some t \<Longrightarrow> best_priority s t \<le> GetPriority s v"
    and worse: "\<And>v. GetLockOwner s v = Some t \<Longrightarrow> GetLockOwner s1 v \<noteq> Some t \<Longrightarrow> q \<le> GetPriority s v"
    and q: "best_priority s t < q \<or> GetBasePriority s t \<le> best_priority s t"
  shows "best_priority s1 t = best_priority s t"
proof (rule antisym)
  show "best_priority s t \<le> best_priority s1 t"
    using best_le_base [OF ok(1), of t] fewer by (intro best_greatest [OF ok(2)]) (simp_all add: base p)
  show "best_priority s1 t \<le> best_priority s t"
  proof (cases "GetBasePriority s t \<le> best_priority s t")
    case True
    then show ?thesis using best_le_base [OF ok(2), of t] base by simp
  next
    case False
    have "best_priority s t \<in> insert (GetBasePriority s t) (GetPriority s ` {u. GetLockOwner s u = Some t})"
      unfolding best_priority_def using finite_waiters [OF ok(1)] by (intro Min_in) auto
    then obtain v where v: "GetLockOwner s v = Some t" "best_priority s t = GetPriority s v" using False by auto
    then have "GetLockOwner s1 v = Some t" using worse [OF v(1)] q False by force
    then show ?thesis using best_le_waiter [OF ok(2)] v(2) p by metis
  qed
qed

lemma RemoveWaiter_ok:
  assumes sys: "system_ok s" "inherits {} s" and own: "GetLockOwner s u = Some t"
  obtains s1 where "RemoveWaiter cur t u s = Some s1" and "system_ok s1" and "inherits {} s1"
    and "GetLockOwner s1 = (GetLockOwner s)(u := None)" and "same_rest s s1" and "same_threads s s1"
proof -
  note ok = system_okD [OF sys(1)]
  let ?isk = "m_is_kernel_address_key (waits s u)"
  obtain s1 where s1: "RemoveWaiterImpl t u s = Some s1" "locks_ok {} s1" "GetLockOwner s1 = (GetLockOwner s)(u := None)"
    "same_rest s s1" "thread_tree s1 = thread_tree s" "kernel s1 = counted ?isk t (- 1) (kernel s)"
    "\<And>v. kernel_waiters s1 v = kernel_waiters s v - (if v = t \<and> ?isk then 1 else 0)"
    by (rule RemoveWaiterImpl_ok [OF ok(1) own]) (rule that)
  have "waits_in s1 v = None" if "m_condvar_tree (waits s v) \<noteq> None" for v
    using treesD(4) [OF ok(2) that] lock_owner_None [OF ok(1), of v] lock_owner_None [OF s1(2), of v] s1(3)
    by (cases "v = u") simp_all
  then have cv: "\<forall>v. m_condvar_tree (waits s v) \<noteq> None \<longrightarrow> waits_in s1 v = None" by blast
  have kw: "kernel_waiters s1 v = kernel_waiters s v + (if v = t \<and> ?isk then - 1 else 0)" for v using s1(7) by simp
  note w = waiter_changed_system [OF sys(1) s1(2,4-6) kw cv]
  have own1: "GetLockOwner s1 v = Some x \<longleftrightarrow> GetLockOwner s v = Some x \<and> v \<noteq> u" for v x using s1(3) by simp
  have base: "GetBasePriority s1 x = GetBasePriority s x" for x by (rule same_rest_members(19) [OF s1(4)])
  have best: "best_priority s1 x = GetPriority s1 x" if "x \<noteq> t" for x
    using sys(2) that own by (subst best_cong [where s = s]) (auto simp: base own1 w(2) inherits_def)
  have t: "GetPriority s t = best_priority s t" using sys(2) by (simp add: inherits_def)
  show thesis
  proof (cases "GetPriority s1 t = GetPriority s1 u \<and> GetPriority s1 t < GetBasePriority s1 t")
    case True
    have inh: "inherits {t} s1" using best by (simp add: inherits_def)
    obtain s2 where s2: "RestorePriority cur (Some t) s1 = Some s2" "system_ok s2" "inherits {} s2"
      "GetLockOwner s2 = GetLockOwner s1" "same_rest s1 s2" "same_threads s1 s2"
      by (rule RestorePriority_ok [OF w(1) inh]) (rule that)
    have "RemoveWaiter cur t u s = Some s2" using s1(1) s2(1) True by (simp add: RemoveWaiter_def)
    then show thesis using s2 s1(3) same_rest_trans [OF s1(4) s2(5)] same_threads_trans [OF w(3) s2(6)] that by metis
  next
    case False
    then have "GetPriority s t \<noteq> GetPriority s u \<or> GetBasePriority s t \<le> GetPriority s t" by (auto simp: w(2) base)
    then have q: "best_priority s t < GetPriority s u \<or> GetBasePriority s t \<le> best_priority s t"
      using best_le_waiter [OF ok(1) own] t by auto
    have "best_priority s1 t = best_priority s t"
      using own1 best_le_waiter [OF ok(1)] q by (intro best_without [OF ok(1) s1(2) base w(2)]) auto
    then have "GetPriority s1 x = best_priority s1 x" for x using best [of x] t w(2) by (cases "x = t") simp_all
    then have "inherits {} s1" by (simp add: inherits_def)
    moreover have "RemoveWaiter cur t u s = Some s1" unfolding RemoveWaiter_def s1(1) Option.bind.bind_lunit if_not_P [OF False] ..
    ultimately show thesis using w s1(3,4) that by blast
  qed
qed

section \<open>Handing a lock on\<close>

lemma held_commutes: "without_waiter l n (update_wait t (\<lambda>w. w\<lparr>m_held_lock_info_list := ls\<rparr>) s) =
    update_wait t (\<lambda>w. w\<lparr>m_held_lock_info_list := ls\<rparr>) (without_waiter l n s)"
  by (auto simp: without_waiter_def update_wait_def update_lock_def fun_eq_iff)

lemma LockInfo_RemoveWaiter_eq: "u \<in> set (waiters s l) \<Longrightarrow>
    LockInfo_RemoveWaiter l u s = Some (lock_waiter_count (lock_infos s l) - 1 = 0, without_waiter l u s)"
  by (simp add: LockInfo_RemoveWaiter_def tree_erase_def update_lock_def update_wait_def without_waiter_def)

lemma transfer_effect:
  fixes n :: nat
  assumes ok: "locks_ok {} s" and l: "l \<in> set (held s t)"
  defines "s1 \<equiv> AddHeldLock n l (update_wait t (\<lambda>w. w\<lparr>m_held_lock_info_list := remove1 l (held s t)\<rparr>) s)"
    and "k \<equiv> (if lock_is_kernel_address_key (lock_infos s l) then int (length (waiters s l)) else 0)"
  shows "kernel_waiters s1 v = kernel_waiters s v - (if v = t then k else 0) + (if v = n then k else 0)"
    and "GetLockOwner s1 v = (if waits_in s v = Some l then Some n else GetLockOwner s v)"
    and "same_rest s s1" and "kernel s1 = kernel s" and "thread_tree s1 = thread_tree s"
proof -
  have other: "l \<notin> set (held s v)" if "v \<noteq> t" for v using that one_owner [OF ok l] by blast
  let ?f = "\<lambda>m. if lock_is_kernel_address_key (lock_infos s m) then int (length (waiters s m)) else 0"
  have e: "lock_is_kernel_address_key (lock_infos s1 m) = lock_is_kernel_address_key (lock_infos s m)"
    "waiters s1 m = waiters s m" for m by (simp_all add: s1_def AddHeldLock_def)
  have held: "set (held s1 v) = (if v = n then {l} else {}) \<union> (set (held s v) - {l})"
    using other [of v] distinct_held [OF ok, of t] by (cases "v = t") (auto simp: s1_def AddHeldLock_def)
  have sum: "sum ?f (set (held s v) - {l}) = kernel_waiters s v - (if v = t then k else 0)"
  proof (cases "v = t")
    case True
    then show ?thesis using sum.remove [OF finite_set l, of ?f] by (simp add: kernel_waiters_def k_def)
  next
    case False
    then show ?thesis using other by (simp add: kernel_waiters_def)
  qed
  show "kernel_waiters s1 v = kernel_waiters s v - (if v = t then k else 0) + (if v = n then k else 0)"
  proof -
    have "sum ?f ((if v = n then {l} else {}) \<union> (set (held s v) - {l})) =
        sum ?f (if v = n then {l} else {}) + sum ?f (set (held s v) - {l})"
      by (rule sum.union_disjoint) auto
    also have "\<dots> = (if v = n then k else 0) + sum ?f (set (held s v) - {l})" by (simp add: k_def)
    finally show ?thesis unfolding kernel_waiters_def [of s1] e held sum by simp
  qed
  show "GetLockOwner s1 v = (if waits_in s v = Some l then Some n else GetLockOwner s v)"
    by (auto simp: GetLockOwner_def s1_def AddHeldLock_def split: option.split)
qed (simp_all add: s1_def AddHeldLock_def same_rest_def)

text \<open>The state after the lock has a new owner or is gone, before priorities are restored.\<close>

lemma handed_on:
  assumes sys: "system_ok s" "inherits {} s" and l: "l \<in> set (held s t)" and n: "waiters s l = n # us"
    and s4: "locks_ok {} s4" "same_rest s s4" "thread_tree s4 = thread_tree s" "kernel_ok (kernel s4)"
      "same_threads s s4" "GetPriority s4 = GetPriority s" "counts_ok s4"
    and own: "\<And>v. GetLockOwner s4 v = (if v = n then None else if waits_in s v = Some l then Some n else GetLockOwner s v)"
  shows "system_ok s4" and "inherits {t} s4"
    and "\<not> (GetPriority s4 t = GetPriority s4 n \<and> GetPriority s4 t < GetBasePriority s4 t) \<Longrightarrow> inherits {} s4"
proof -
  note ok = system_okD [OF sys(1)]
  have base: "GetBasePriority s4 x = GetBasePriority s x" for x by (rule same_rest_members(19) [OF s4(2)])
  have lock: "lock_ok {} s t l" by (rule held_lock [OF ok(1) l])
  have of_l: "waits_in s v = Some l \<longleftrightarrow> v \<in> set (n # us)" for v
    using waits_in_locks [OF ok(1), of v l] waiter_waits [OF ok(1) l, of v] n by auto
  have l_own: "GetLockOwner s v = Some t" if "waits_in s v = Some l" for v
    using that lock by (simp add: GetLockOwner_def lock_ok_def)
  have worse: "GetPriority s n \<le> GetPriority s v" if "waits_in s v = Some l" for v
    using that lock unfolding of_l lock_ok_def n by auto
  have inh: "GetPriority s x = best_priority s x" for x using sys(2) by (simp add: inherits_def)
  have none: "m_condvar_tree (waits s v) \<noteq> None \<Longrightarrow> waits_in s4 v = None" for v
  proof -
    assume "m_condvar_tree (waits s v) \<noteq> None"
    then have w: "waits_in s v = None" by (rule treesD(4) [OF ok(2)])
    then have "GetLockOwner s v = None" by (simp add: GetLockOwner_def)
    then show "waits_in s4 v = None" using w own [of v] lock_owner_None [OF s4(1), of v] by (cases "v = n") simp_all
  qed
  have "trees_ok s4" by (rule trees_ok_cong [OF ok(2) s4(2,3,6) none])
  moreover have "bases_ok s4" using same_threads_members(2) [OF s4(5)] by (intro base_dummy_ok [OF ok(4) s4(2)])
  ultimately show "system_ok s4" using s4(1,4,7) by (simp add: system_ok_def)
  have n_best: "best_priority s4 n = best_priority s n" if "n \<noteq> t"
  proof (rule antisym)
    have same: "GetLockOwner s4 v = Some n" if "GetLockOwner s v = Some n" for v
      using that own [of v] l_own [of v] \<open>n \<noteq> t\<close> l_own [of n] of_l [of n] by auto
    show "best_priority s4 n \<le> best_priority s n"
      using best_le_base [OF s4(1), of n] best_le_waiter [OF s4(1) same] by (intro best_greatest [OF ok(1)]) (simp_all add: base s4(6))
    show "best_priority s n \<le> best_priority s4 n"
    proof (rule best_greatest [OF s4(1)])
      show "best_priority s n \<le> GetBasePriority s4 n" using best_le_base [OF ok(1), of n] base by simp
      show "best_priority s n \<le> GetPriority s4 v" if "GetLockOwner s4 v = Some n" for v
        using that own [of v] best_le_waiter [OF ok(1), of v n] worse [of v] inh [of n] by (auto simp: s4(6) split: if_splits)
    qed
  qed
  have x_best: "best_priority s4 x = best_priority s x" if "x \<noteq> t" "x \<noteq> n" for x
  proof -
    have "GetLockOwner s4 v = Some x \<longleftrightarrow> GetLockOwner s v = Some x" for v
      using that own [of v] l_own [of v] l_own [of n] of_l [of n] by auto
    then show ?thesis using base s4(6) by (intro best_cong) simp_all
  qed
  have rest: "GetPriority s4 x = best_priority s4 x" if "x \<noteq> t" for x
    using that inh [of x] n_best x_best [of x] s4(6) by (cases "x = n") simp_all
  then show "inherits {t} s4" by (simp add: inherits_def)
  assume no: "\<not> (GetPriority s4 t = GetPriority s4 n \<and> GetPriority s4 t < GetBasePriority s4 t)"
  have "best_priority s t \<le> GetPriority s n" using best_le_waiter [OF ok(1) l_own] of_l [of n] by simp
  then have q: "best_priority s t < GetPriority s n \<or> GetBasePriority s t \<le> best_priority s t"
    using no inh [of t] by (auto simp: s4(6) base)
  have "best_priority s4 t = best_priority s t"
  proof (rule best_without [OF ok(1) s4(1) base s4(6) _ _ q])
    show "best_priority s t \<le> GetPriority s v" if "GetLockOwner s4 v = Some t" for v
      using that own [of v] best_le_waiter [OF ok(1), of v t] l_own [of v] by (auto split: if_splits)
    show "GetPriority s n \<le> GetPriority s v" if "GetLockOwner s v = Some t" "GetLockOwner s4 v \<noteq> Some t" for v
      using that own [of v] worse [of v] by (auto split: if_splits)
  qed
  then have "GetPriority s4 x = best_priority s4 x" for x using rest [of x] inh [of t] s4(6) by (cases "x = t") simp_all
  then show "inherits {} s4" by (simp add: inherits_def)
qed

lemma uint_of_count: "n \<le> SlabCountKThread \<Longrightarrow> uint (of_nat n :: u32) = int n"
  by (simp add: SlabCountKThread_def unsigned_of_nat take_bit_nat_eq_self)

text \<open>The result of the hand over, with the new owner if there was a lock with the key.\<close>

definition handed :: "nat \<Rightarrow> u64 \<Rightarrow> bool \<Rightarrow> WaitState \<Rightarrow> nat option \<Rightarrow> WaitState \<Rightarrow> bool" where
  "handed t key isk s nxt s1 \<longleftrightarrow>
     system_ok s1 \<and> inherits {} s1 \<and> same_rest s s1 \<and> same_threads s s1 \<and>
     (\<forall>v. GetLockOwner s1 v = None \<longleftrightarrow> GetLockOwner s v = None \<or> nxt = Some v) \<and>
     (\<forall>v. nxt = Some v \<longrightarrow> GetLockOwner s v = Some t \<and> m_address_key (waits s v) = key \<and>
        m_is_kernel_address_key (waits s v) = isk)"

text \<open>The state before the restoration of priorities.\<close>

lemma hand_over_state:
  assumes ok: "locks_ok {} s" and l: "l \<in> set (held s t)" and n: "waiters s l = n # us"
  defines "isk \<equiv> lock_is_kernel_address_key (lock_infos s l)"
  defines "s3 \<equiv> without_waiter l n ((update_wait t (\<lambda>w. w\<lparr>m_held_lock_info_list := remove1 l (held s t)\<rparr>) s)
      \<lparr>kernel := counted isk t (- int (length (waiters s l))) (kernel s)\<rparr>)"
  defines "s4 \<equiv> (if us = [] then LockInfo_Free l s3
      else if isk then add_kernel_waiters n (uint (lock_waiter_count (lock_infos (AddHeldLock n l s3) l))) (AddHeldLock n l s3)
      else AddHeldLock n l s3)"
  shows "locks_ok {} s4 \<and> same_rest s s4 \<and> thread_tree s4 = thread_tree s \<and> same_threads s s4 \<and>
    GetPriority s4 = GetPriority s \<and> (counts_ok s \<longrightarrow> counts_ok s4) \<and> (kernel_ok (kernel s) \<longrightarrow> kernel_ok (kernel s4)) \<and>
    (\<forall>v. GetLockOwner s4 v = (if v = n then None else if waits_in s v = Some l then Some n else GetLockOwner s v))"
proof -
  let ?k = "counted isk t (- int (length (waiters s l))) (kernel s)"
  let ?sK = "s\<lparr>kernel := ?k\<rparr>"
  let ?sA = "without_waiter l n ?sK"
  have okK: "locks_ok {} ?sK" using ok by (simp add: locks_counted)
  have w: "waits_in s n = Some l" using waiter_waits [OF ok l] n by simp
  have wK: "waits_in ?sK n = Some l" and lK: "l \<in> set (held ?sK t)" using w l by simp_all
  note rA = LockInfo_RemoveWaiter_ok [OF okK wK] and eA = without_waiter_effect [OF okK wK lK]
  have us: "remove1 n (waiters ?sK l) = us" using n by simp
  have isA: "lock_is_kernel_address_key (lock_infos ?sA l) = isk" "waiters ?sA l = us" by (simp_all add: isk_def n)
  have e0: "(update_wait t (\<lambda>w. w\<lparr>m_held_lock_info_list := remove1 l (held s t)\<rparr>) s)\<lparr>kernel := ?k\<rparr> =
      update_wait t (\<lambda>w. w\<lparr>m_held_lock_info_list := remove1 l (held s t)\<rparr>) ?sK"
    by (simp add: update_wait_def)
  have s3: "s3 = update_wait t (\<lambda>w. w\<lparr>m_held_lock_info_list := remove1 l (held ?sA t)\<rparr>) ?sA"
    unfolding s3_def e0 held_commutes eA(4) by simp
  have of_l: "waits_in s v = Some l \<Longrightarrow> v \<in> set (waiters s l)" for v using waits_in_locks [OF ok, of v l] by simp
  have rest: "same_rest s ?sA" using same_rest_trans [OF lock_frame_kernel(4) eA(3)] .
  have kwA: "kernel_waiters ?sA v = kernel_waiters s v - (if v = t \<and> isk then 1 else 0)" for v
    using eA(2) [of v] by (simp add: isk_def)
  show ?thesis
  proof (cases "us = []")
    case True
    have okA: "locks_ok {l} ?sA" using rA(2) True us by simp
    have lA: "l \<in> set (held ?sA t)" "waiters ?sA l = []" using eA(4) [of t] l True isA(2) by simp_all
    note d = drop_lock_ok [OF okA lA] and dw = dropped_waiters [OF distinct_held [OF okA] lA]
    have s4: "s4 = LockInfo_Free l s3" using True by (simp add: s4_def)
    have k4: "kernel s4 = ?k" by (simp add: s4 s3 LockInfo_Free_def)
    have p: "GetPriority s4 = GetPriority s" by (simp add: GetPriority_def k4 counted_threads fun_eq_iff)
    have own: "GetLockOwner s4 = (GetLockOwner s)(n := None)"
    proof -
      have "GetLockOwner s4 = GetLockOwner ?sA" unfolding s4 s3
        by (auto simp: GetLockOwner_def LockInfo_Free_def fun_eq_iff split: option.splits)
      then show ?thesis using eA(1) by simp
    qed
    have kw: "kernel_waiters s4 = kernel_waiters ?sA" unfolding s4 s3 by (rule dw)
    have "counts_ok s4" if "counts_ok s"
      unfolding counts_ok_def kw kwA k4 counted_threads using that True n by (simp add: counts_ok_def)
    moreover have "same_rest s s4"
      by (rule same_rest_trans [OF rest]) (simp add: same_rest_def s4 s3 LockInfo_Free_def)
    moreover have "GetLockOwner s4 v = (if v = n then None else if waits_in s v = Some l then Some n else GetLockOwner s v)" for v
      using own of_l [of v] n True by simp
    moreover have "thread_tree s4 = thread_tree s" "same_threads s s4"
      by (simp_all add: s4 s3 LockInfo_Free_def same_threads_def counted_threads)
    moreover have "locks_ok {} s4" unfolding s4 s3 by (rule d(2))
    ultimately show ?thesis using p counted_ok k4 by simp
  next
    case False
    have okA: "locks_ok {} ?sA" using rA(2) False us by simp
    have lA: "l \<in> set (held ?sA t)" using eA(4) [of t] l by simp
    note d = transfer_ok(2) [OF okA lA, of n, folded s3] and e = transfer_effect [OF okA lA, where n = n, folded s3]
    let ?sB = "AddHeldLock n l s3"
    have count: "uint (lock_waiter_count (lock_infos ?sB l)) = int (length us)"
    proof -
      have "lock_waiter_count (lock_infos ?sA l) = of_nat (length us)" "length us \<le> SlabCountKThread"
        using held_lock [OF okA lA] count_waiters [OF okA lA] isA(2) by (simp_all add: lock_ok_def)
      moreover have "lock_waiter_count (lock_infos ?sB l) = lock_waiter_count (lock_infos ?sA l)"
        unfolding s3 by (simp add: AddHeldLock_def)
      ultimately show ?thesis using uint_of_count by simp
    qed
    define k4 where "k4 = (if isk then update_thread n (\<lambda>th. th\<lparr>m_num_kernel_waiters := m_num_kernel_waiters th + int (length us)\<rparr>) ?k else ?k)"
    have s4: "s4 = ?sB\<lparr>kernel := k4\<rparr>"
      unfolding s4_def count using False e(4) by (simp add: k4_def add_kernel_waiters_def)
    have th4: "threads k4 x = (threads (kernel s) x)\<lparr>m_num_kernel_waiters := m_num_kernel_waiters (threads (kernel s) x) +
        (if isk then (if x = t then - int (length (waiters s l)) else 0) + (if x = n then int (length us) else 0) else 0)\<rparr>" for x
      by (simp add: k4_def counted_threads)
    have p: "GetPriority s4 = GetPriority s" by (simp add: GetPriority_def s4 th4 fun_eq_iff)
    have pB: "GetPriority (?sB\<lparr>kernel := k4\<rparr>) = GetPriority ?sB"
      using p by (simp add: s4 GetPriority_def e(4) counted_threads fun_eq_iff split: if_splits)
    have own: "GetLockOwner s4 v = (if v = n then None else if waits_in s v = Some l then Some n else GetLockOwner s v)" for v
      using e(2) [of v] eA(1) by (auto simp: s4)
    have "kernel_waiters s4 v = kernel_waiters s v - (if v = t \<and> isk then 1 else 0) -
        (if v = t \<and> isk then int (length us) else 0) + (if v = n \<and> isk then int (length us) else 0)" for v
      using e(1) [of v] kwA [of v] isA by (simp add: s4)
    then have "counts_ok s4" if "counts_ok s" using that n by (simp add: counts_ok_def s4 th4)
    moreover have "same_rest s s4" using same_rest_trans [OF rest same_rest_trans [OF e(3) lock_frame_kernel(4)]] by (simp add: s4)
    moreover have "thread_tree s4 = thread_tree s" "same_threads s s4" using e(5) by (simp_all add: s4 same_threads_def th4)
    moreover have "locks_ok {} s4" using d locks_ok_kernel [OF pB] by (simp add: s4)
    moreover have "kernel_ok (kernel s4)" if "kernel_ok (kernel s)"
      using counted_ok [OF that] kernel_ok_update_thread by (auto simp: s4 k4_def same_place_def)
    ultimately show ?thesis using p own by simp
  qed
qed

lemma RemoveWaiterByKey_ok:
  assumes sys: "system_ok s" "inherits {} s"
  obtains nxt others s1 where "RemoveWaiterByKey cur t key isk s = Some (nxt, others, s1)" and "handed t key isk s nxt s1"
proof (cases "FindHeldLock t key isk s")
  case None
  then show thesis using sys that [of None False s] by (simp add: RemoveWaiterByKey_def handed_def)
next
  case (Some l)
  note ok = system_okD [OF sys(1)]
  note f = FindHeldLock_in [OF Some]
  then have l: "l \<in> set (held s t)" by simp
  have lock: "lock_ok {} s t l" by (rule held_lock [OF ok(1) l])
  obtain n us where n: "waiters s l = n # us" using lock by (cases "waiters s l") (auto simp: lock_ok_def)
  let ?s1 = "update_wait t (\<lambda>w. w\<lparr>m_held_lock_info_list := remove1 l (held s t)\<rparr>) s"
  let ?s2 = "?s1\<lparr>kernel := counted isk t (- int (length (waiters s l))) (kernel s)\<rparr>"
  let ?s3 = "without_waiter l n ?s2"
  have count: "lock_waiter_count (lock_infos s l) = of_nat (length (waiters s l))" "length (waiters s l) \<le> SlabCountKThread"
    using lock count_waiters [OF ok(1) l] by (simp_all add: lock_ok_def)
  have e1: "erase_held_lock t l s = Some ?s1" using l by (simp add: erase_held_lock_def tree_erase_def)
  have e5: "lock_is_kernel_address_key (lock_infos ?s1 l) = isk" using f by simp
  have e2: "(if isk
      then update_needed (add_kernel_waiters t (- uint (lock_waiter_count (lock_infos ?s1 l))) ?s1) else ?s1) = ?s2"
    unfolding counted_step using f count uint_of_count by simp
  have e3: "GetHighestPriorityWaiter ?s2 l = Some n" using n by (simp add: GetHighestPriorityWaiter_def)
  have "(of_nat (length us) :: u32) = 0 \<longleftrightarrow> us = []" using count(2) n count_zero [of "length us"] by simp
  then have e4: "LockInfo_RemoveWaiter l n ?s2 = Some (us = [], ?s3)"
    using n count(1) by (subst LockInfo_RemoveWaiter_eq) simp_all
  define s4 where "s4 = (if us = [] then LockInfo_Free l ?s3
      else if isk then add_kernel_waiters n (uint (lock_waiter_count (lock_infos (AddHeldLock n l ?s3) l))) (AddHeldLock n l ?s3)
      else AddHeldLock n l ?s3)"
  have run: "RemoveWaiterByKey cur t key isk s =
      map_option (\<lambda>s5. (Some n, us \<noteq> [], s5))
        (if GetPriority s4 t = GetPriority s4 n \<and> GetPriority s4 t < GetBasePriority s4 t
         then RestorePriority cur (Some t) s4 else Some s4)"
    unfolding RemoveWaiterByKey_def Some option.case e1 Let_def Option.bind.bind_lunit e5 e2 e3 e4 prod.case s4_def ..
  have isk': "lock_is_kernel_address_key (lock_infos s l) = isk" using f by simp
  have st: "locks_ok {} s4" "same_rest s s4" "thread_tree s4 = thread_tree s" "same_threads s s4" "GetPriority s4 = GetPriority s"
    "counts_ok s \<longrightarrow> counts_ok s4" "kernel_ok (kernel s) \<longrightarrow> kernel_ok (kernel s4)"
    "\<forall>v. GetLockOwner s4 v = (if v = n then None else if waits_in s v = Some l then Some n else GetLockOwner s v)"
    using hand_over_state [OF ok(1) l n, unfolded isk', folded s4_def] by blast+
  have own: "GetLockOwner s4 v = (if v = n then None else if waits_in s v = Some l then Some n else GetLockOwner s v)" for v
    using st(8) by blast
  note h = handed_on [OF sys l n st(1-3) st(7) [THEN mp, OF ok(5)] st(4,5) st(6) [THEN mp, OF ok(3)] own]
  have n_key: "GetLockOwner s n = Some t" "m_address_key (waits s n) = key" "m_is_kernel_address_key (waits s n) = isk"
    using lock n f by (auto simp: lock_ok_def GetLockOwner_def)
  have none: "GetLockOwner s4 v = None \<longleftrightarrow> GetLockOwner s v = None \<or> Some n = Some v" for v
  proof -
    have "GetLockOwner s v = Some t" if "waits_in s v = Some l" using that lock by (simp add: GetLockOwner_def lock_ok_def)
    then show ?thesis using own [of v] n_key(1) by (cases "v = n"; cases "waits_in s v = Some l") simp_all
  qed
  show thesis
  proof (cases "GetPriority s4 t = GetPriority s4 n \<and> GetPriority s4 t < GetBasePriority s4 t")
    case True
    obtain s5 where s5: "RestorePriority cur (Some t) s4 = Some s5" "system_ok s5" "inherits {} s5"
      "GetLockOwner s5 = GetLockOwner s4" "same_rest s4 s5" "same_threads s4 s5"
      by (rule RestorePriority_ok [OF h(1,2)]) (rule that)
    have "handed t key isk s (Some n) s5"
      unfolding handed_def s5(4) none
      using s5(2,3) same_rest_trans [OF st(2) s5(5)] same_threads_trans [OF st(4) s5(6)] n_key by simp
    moreover have "RemoveWaiterByKey cur t key isk s = Some (Some n, us \<noteq> [], s5)" unfolding run if_P [OF True] s5(1) by simp
    ultimately show thesis using that by blast
  next
    case False
    have "handed t key isk s (Some n) s4"
      unfolding handed_def none using h(1) h(3) [OF False] st(2,4) n_key by simp
    moreover have "RemoveWaiterByKey cur t key isk s = Some (Some n, us \<noteq> [], s4)" unfolding run if_not_P [OF False] by simp
    ultimately show thesis using that by blast
  qed
qed

section \<open>The base priority\<close>

lemma base_changed:
  fixes t :: nat
  assumes sys: "system_ok s" "inherits {} s" and v: "0 \<le> v" "v \<le> 64"
  defines "s1 \<equiv> update_wait t (\<lambda>w. w\<lparr>m_base_priority := v\<rparr>) s"
  shows "system_ok s1" and "inherits {t} s1"
proof -
  note ok = system_okD [OF sys(1)]
  have w: "waits_in s1 u = waits_in s u" "held s1 u = held s u" "m_address_key (waits s1 u) = m_address_key (waits s u)"
    "m_is_kernel_address_key (waits s1 u) = m_is_kernel_address_key (waits s u)"
    "m_condvar_tree (waits s1 u) = m_condvar_tree (waits s u)" "m_condvar_key (waits s1 u) = m_condvar_key (waits s u)" for u
    by (simp_all add: s1_def)
  have i: "lock_infos s1 = lock_infos s" "free_lock_infos s1 = free_lock_infos s" "GetPriority s1 = GetPriority s"
    "thread_tree s1 = thread_tree s" "kernel s1 = kernel s" by (simp_all add: s1_def)
  have "locks_ok {} s1" using ok(1) unfolding locks_ok_def lock_ok_def slab_ok_def w i .
  moreover have "trees_ok s1" using ok(2) unfolding trees_ok_def ConditionVariableComparator_def w i .
  moreover have "counts_ok s1" using ok(3) unfolding counts_ok_def kernel_waiters_def w i .
  moreover have "bases_ok s1" using ok(4) v by (simp add: bases_ok_def i(5)) (simp add: s1_def GetBasePriority_def)
  ultimately show "system_ok s1" using ok(5) i(5) by (simp add: system_ok_def)
  have own: "GetLockOwner s1 = GetLockOwner s" by (simp add: GetLockOwner_def w i fun_eq_iff cong: option.case_cong)
  have "GetPriority s1 x = best_priority s1 x" if "x \<noteq> t" for x
  proof -
    have "GetBasePriority s1 x = GetBasePriority s x" using that by (simp add: s1_def GetBasePriority_def)
    then show ?thesis using sys(2) by (subst best_cong [where s = s]) (simp_all add: own i inherits_def)
  qed
  then show "inherits {t} s1" by (simp add: inherits_def)
qed

definition base_set :: "nat \<Rightarrow> int \<Rightarrow> WaitState \<Rightarrow> WaitState \<Rightarrow> bool" where
  "base_set t v s s1 \<longleftrightarrow> system_ok s1 \<and> inherits {} s1 \<and> GetLockOwner s1 = GetLockOwner s \<and>
     same_rest (update_wait t (\<lambda>w. w\<lparr>m_base_priority := v\<rparr>) s) s1 \<and> same_threads s s1"

lemma SetBasePriority_ok:
  assumes sys: "system_ok s" "inherits {} s" and v: "0 \<le> v" "v \<le> 64"
  obtains s1 where "SetBasePriority cur t v s = Some s1" and "base_set t v s s1"
proof -
  let ?s = "update_wait t (\<lambda>w. w\<lparr>m_base_priority := v\<rparr>) s"
  obtain s1 where s1: "RestorePriority cur (Some t) ?s = Some s1" "system_ok s1" "inherits {} s1"
    "GetLockOwner s1 = GetLockOwner ?s" "same_rest ?s s1" "same_threads ?s s1"
    by (rule RestorePriority_ok [OF base_changed [OF sys v]]) (rule that)
  have "GetLockOwner ?s = GetLockOwner s" by (simp add: GetLockOwner_def fun_eq_iff cong: option.case_cong)
  moreover have "same_threads s s1" using s1(6) by (simp add: same_threads_def)
  ultimately show thesis using s1 that [of s1] by (simp add: SetBasePriority_def base_set_def)
qed

lemma IncreaseBasePriority_ok:
  assumes sys: "system_ok s" "inherits {} s" and v: "0 \<le> v" "v \<le> 64"
  obtains s1 where "IncreaseBasePriority cur t v s = Some s1" and "base_set t (min v (GetBasePriority s t)) s s1"
proof (cases "GetBasePriority s t > v")
  case True
  then show thesis using that SetBasePriority_ok [OF sys v, of cur t]
    by (metis IncreaseBasePriority_def SetBasePriority_def min.absorb1 less_imp_le)
next
  case False
  have "update_wait t (\<lambda>w. w\<lparr>m_base_priority := min v (GetBasePriority s t)\<rparr>) s = s"
    using False by (simp add: update_wait_def GetBasePriority_def)
  then show thesis using that [of s] sys False by (simp add: IncreaseBasePriority_def base_set_def)
qed

end
