(* ===== verification/Wait_Structures.thy ===== *)
theory Wait_Structures
  imports Lock_Inheritance
begin

text \<open>
  What threads wait in, \<^verbatim>\<open>nxemu-os/core/hle/kernel/\<close>: wait queues (\<^verbatim>\<open>k_thread_queue.cpp\<close>), the hardware timer
  (\<^verbatim>\<open>k_hardware_timer_base.h\<close>), locks and condition variables of user memory (\<^verbatim>\<open>k_condition_variable.cpp\<close>),
  the address arbiter (\<^verbatim>\<open>k_address_arbiter.cpp\<close>), light locks (\<^verbatim>\<open>k_light_lock.cpp\<close>) and sleep.  Each
  operation runs under the scheduler lock and is one step.  An operation that makes its thread wait has
  no result yet; it reads the thread's wait result when the thread runs again.  User memory is a map of
  aligned addresses to 32-bit words, and an exclusive load and store that is repeated until it succeeds
  is one change of it.  \<open>handles\<close> is what the handle table of the process has for a handle, if it is a thread.
\<close>

section \<open>States of a thread\<close>

definition Waiting :: u16 where
  "Waiting = 1"

definition Terminated :: u16 where
  "Terminated = 3"

definition GetState :: "WaitState \<Rightarrow> nat \<Rightarrow> u16" where
  "GetState s t = m_thread_state (threads (kernel s) t) AND ThreadState_Mask"

definition Thread_SetState :: "nat \<Rightarrow> u16 \<Rightarrow> WaitState \<Rightarrow> WaitState option" where
  "Thread_SetState t state = on_kernel (KThread_SetState t state)"

definition IsSuspended :: "WaitState \<Rightarrow> nat \<Rightarrow> bool" where
  "IsSuspended s t \<longleftrightarrow> GetSuspendFlags (threads (kernel s) t) \<noteq> 0"

definition IsTerminationRequested :: "WaitState \<Rightarrow> nat \<Rightarrow> bool" where
  "IsTerminationRequested s t \<longleftrightarrow>
     m_termination_requested (waits s t) \<or> m_thread_state (threads (kernel s) t) = Terminated"

definition ContinueIfHasKernelWaiters :: "nat \<Rightarrow> WaitState \<Rightarrow> WaitState option" where
  "ContinueIfHasKernelWaiters t s =
     (if m_num_kernel_waiters (threads (kernel s) t) > 0 then on_kernel (Continue t) s else Some s)"

section \<open>The hardware timer\<close>

definition MaxTime :: int where
  "MaxTime = 2 ^ 63 - 1"

text \<open>The element behind another one.\<close>

fun successor :: "'a \<Rightarrow> 'a list \<Rightarrow> 'a option" where
  "successor x [] = None"
| "successor x (y # ys) = (if y = x then (case ys of [] \<Rightarrow> None | z # zs \<Rightarrow> Some z) else successor x ys)"

definition RemoveTaskFromTree :: "nat \<Rightarrow> WaitState \<Rightarrow> WaitState option" where
  "RemoveTaskFromTree t s =
     map_option
       (\<lambda>tree. update_wait t (\<lambda>w. w\<lparr>m_time := 0\<rparr>)
          (s\<lparr>m_task_tree := tree,
             m_next_task := if m_next_task s = Some t then successor t (m_task_tree s) else m_next_task s\<rparr>))
       (tree_erase t (m_task_tree s))"

definition CancelTask :: "nat \<Rightarrow> WaitState \<Rightarrow> WaitState option" where
  "CancelTask t s = (if m_time (waits s t) > 0 then RemoveTaskFromTree t s else Some s)"

text \<open>The interrupt is asked for when the new task is the first one and comes before the time set.\<close>

definition RegisterAbsoluteTask :: "nat \<Rightarrow> int \<Rightarrow> WaitState \<Rightarrow> WaitState" where
  "RegisterAbsoluteTask t task_time s =
     (let s1 = update_wait t (\<lambda>w. w\<lparr>m_time := task_time\<rparr>) s;
          s2 = s1\<lparr>m_task_tree := insert_ordered (\<lambda>a b. m_time (waits s1 a) < m_time (waits s1 b)) t (m_task_tree s1)\<rparr>;
          later = (case m_next_task s2 of None \<Rightarrow> True | Some u \<Rightarrow> \<not> m_time (waits s2 u) \<le> task_time)
      in if later
         then s2\<lparr>m_next_task := Some t,
                 m_wakeup_time := if task_time \<le> m_wakeup_time s2 then task_time else m_wakeup_time s2\<rparr>
         else s2)"

text \<open>At the end of a wait with a timeout the task is registered, if the timeout is still positive.\<close>

definition register_sleep :: "nat \<Rightarrow> int \<Rightarrow> WaitState \<Rightarrow> WaitState" where
  "register_sleep t timeout s = (if timeout > 0 then RegisterAbsoluteTask t timeout s else s)"

section \<open>Wait queues\<close>

definition BeginWait :: "nat \<Rightarrow> KThreadQueue \<Rightarrow> WaitState \<Rightarrow> WaitState option" where
  "BeginWait t queue s =
     map_option (update_wait t (\<lambda>w. w\<lparr>m_wait_queue := Some queue\<rparr>))
       (Thread_SetState t Waiting (update_wait t (\<lambda>w. w\<lparr>m_wait_generation := m_wait_generation w + 1\<rparr>) s))"

text \<open>The result, the state, no queue any more, and no timer task if it is to be cancelled.\<close>

definition finish_wait :: "nat \<Rightarrow> WaitResult \<Rightarrow> bool \<Rightarrow> WaitState \<Rightarrow> WaitState option" where
  "finish_wait t wait_result cancel_timer s =
     Option.bind (Thread_SetState t Runnable (update_wait t (\<lambda>w. w\<lparr>m_wait_result := wait_result\<rparr>) s)) (\<lambda>s1.
       let s2 = update_wait t (\<lambda>w. w\<lparr>m_wait_queue := None\<rparr>) s1
       in if cancel_timer then CancelTask t s2 else Some s2)"

text \<open>Some waits do not end this way; the one for a user exception makes its thread the one that handles it.\<close>

definition set_exception_thread :: "nat \<Rightarrow> nat option \<Rightarrow> WaitState \<Rightarrow> WaitState" where
  "set_exception_thread p t s =
     s\<lparr>objects := (objects s)\<lparr>m_exception_thread := (m_exception_thread (objects s))(p := t)\<rparr>\<rparr>"

definition KThreadQueue_EndWait :: "KThreadQueue \<Rightarrow> nat \<Rightarrow> WaitResult \<Rightarrow> WaitState \<Rightarrow> WaitState option" where
  "KThreadQueue_EndWait queue t wait_result s =
     (case queue_kind queue of
        ForThreadSleep \<Rightarrow> None
      | ForSynchronizationObjects sync_objects \<Rightarrow> None
      | ForUserException p \<Rightarrow> finish_wait t wait_result (m_hardware_timer queue) (set_exception_thread p (Some t) s)
      | _ \<Rightarrow> finish_wait t wait_result (m_hardware_timer queue) s)"

definition KThreadQueue_CancelWait :: "KThreadQueue \<Rightarrow> nat \<Rightarrow> WaitResult \<Rightarrow> bool \<Rightarrow> WaitState \<Rightarrow> WaitState option" where
  "KThreadQueue_CancelWait queue t wait_result cancel_timer_task s =
     finish_wait t wait_result (cancel_timer_task \<and> m_hardware_timer queue) s"

definition remove_from_owner :: "nat \<Rightarrow> nat \<Rightarrow> WaitState \<Rightarrow> WaitState option" where
  "remove_from_owner cur t s =
     (case GetLockOwner s t of None \<Rightarrow> Some s | Some owner \<Rightarrow> RemoveWaiter cur owner t s)"

definition remove_from_tree :: "ThreadTree \<Rightarrow> nat \<Rightarrow> WaitState \<Rightarrow> WaitState option" where
  "remove_from_tree tr t s =
     (if m_condvar_tree (waits s t) \<noteq> None
      then map_option (update_wait t (\<lambda>w. w\<lparr>m_condvar_tree := None\<rparr>)) (tree_erase_thread tr t s) else Some s)"

text \<open>
  The list of the nodes that wait for an object, linked through the nodes, with its first and its last one.
\<close>

definition LinkNode :: "SyncObject \<Rightarrow> SyncNode \<Rightarrow> WaitObjects \<Rightarrow> WaitObjects" where
  "LinkNode ob node l =
     (let l1 = (case m_thread_list_tail l ob of
                  None \<Rightarrow> l\<lparr>m_thread_list_head := (m_thread_list_head l)(ob := Some node)\<rparr>
                | Some final \<Rightarrow> l\<lparr>node_next := (node_next l)(final := Some node)\<rparr>)
      in l1\<lparr>m_thread_list_tail := (m_thread_list_tail l1)(ob := Some node)\<rparr>)"

text \<open>The head of the list is taken for the link of a node in front of the first one, which is \<open>None\<close> here.\<close>

definition next_of :: "WaitObjects \<Rightarrow> SyncObject \<Rightarrow> SyncNode option \<Rightarrow> SyncNode option" where
  "next_of l ob prev = (case prev of None \<Rightarrow> m_thread_list_head l ob | Some n \<Rightarrow> node_next l n)"

partial_function (option) find_prev ::
    "WaitObjects \<Rightarrow> SyncObject \<Rightarrow> SyncNode \<Rightarrow> SyncNode option \<Rightarrow> SyncNode option \<Rightarrow> (SyncNode option \<times> SyncNode option) option" where
  "find_prev l ob node prev_ptr prev_val =
     (case next_of l ob prev_ptr of
        None \<Rightarrow> None
      | Some n \<Rightarrow> if n = node then Some (prev_ptr, prev_val) else find_prev l ob node (Some n) (Some n))"

definition UnlinkNode :: "SyncObject \<Rightarrow> SyncNode \<Rightarrow> WaitObjects \<Rightarrow> WaitObjects option" where
  "UnlinkNode ob node l =
     map_option (\<lambda>(prev, tail_prev).
         let l1 = (if m_thread_list_tail l ob = Some node
                   then l\<lparr>m_thread_list_tail := (m_thread_list_tail l)(ob := tail_prev)\<rparr> else l)
         in case prev of
              None \<Rightarrow> l1\<lparr>m_thread_list_head := (m_thread_list_head l1)(ob := node_next l1 node)\<rparr>
            | Some n \<Rightarrow> l1\<lparr>node_next := (node_next l1)(n := node_next l1 node)\<rparr>)
       (find_prev l ob node None None)"

text \<open>The nodes of a thread are those of its array from a place on.\<close>

fun link_nodes :: "nat \<Rightarrow> nat \<Rightarrow> SyncObject list \<Rightarrow> WaitObjects \<Rightarrow> WaitObjects" where
  "link_nodes t i [] l = l"
| "link_nodes t i (ob # obs) l =
     link_nodes t (i + 1) obs (LinkNode ob (t, i) (l\<lparr>node_next := (node_next l)((t, i) := None)\<rparr>))"

fun unlink_nodes :: "nat \<Rightarrow> nat \<Rightarrow> SyncObject list \<Rightarrow> WaitObjects \<Rightarrow> WaitObjects option" where
  "unlink_nodes t i [] l = Some l"
| "unlink_nodes t i (ob # obs) l = Option.bind (UnlinkNode ob (t, i) l) (unlink_nodes t (i + 1) obs)"

definition erase_pinned_waiter :: "nat \<Rightarrow> nat \<Rightarrow> WaitState \<Rightarrow> WaitState option" where
  "erase_pinned_waiter t u s =
     map_option (\<lambda>us. update_wait t (\<lambda>w. w\<lparr>m_pinned_waiter_list := us\<rparr>) s) (tree_erase u (m_pinned_waiter_list (waits s t)))"

text \<open>
  What the handlers of the queues' classes do before the common part.  Those for a wait on an address and
  for a user exception do not ask whether there is an owner.
\<close>

definition leave_queue :: "nat \<Rightarrow> KThreadQueue \<Rightarrow> nat \<Rightarrow> WaitState \<Rightarrow> WaitState option" where
  "leave_queue cur queue t s =
     (case queue_kind queue of
        ForKLightLock \<Rightarrow> remove_from_owner cur t s
      | ForAddress \<Rightarrow> (case GetLockOwner s t of None \<Rightarrow> None | Some owner \<Rightarrow> RemoveWaiter cur owner t s)
      | ForUserException p \<Rightarrow> (case GetLockOwner s t of None \<Rightarrow> None | Some owner \<Rightarrow> RemoveWaiter cur owner t s)
      | ForConditionVariable tr \<Rightarrow> Option.bind (remove_from_owner cur t s) (remove_from_tree tr t)
      | ForAddressArbiter tr \<Rightarrow> remove_from_tree tr t s
      | ForThreadSleep \<Rightarrow> Some s
      | ForSynchronizationObjects sync_objects \<Rightarrow>
          map_option (\<lambda>l. update_wait t (\<lambda>w. w\<lparr>m_cancellable := False\<rparr>) (s\<lparr>objects := l\<rparr>))
            (unlink_nodes t 0 sync_objects (objects s))
      | ForThreadSetProperty u \<Rightarrow> erase_pinned_waiter u t s)"

definition queue_CancelWait :: "nat \<Rightarrow> KThreadQueue \<Rightarrow> nat \<Rightarrow> WaitResult \<Rightarrow> bool \<Rightarrow> WaitState \<Rightarrow> WaitState option" where
  "queue_CancelWait cur queue t wait_result cancel_timer_task s =
     Option.bind (leave_queue cur queue t s) (KThreadQueue_CancelWait queue t wait_result cancel_timer_task)"

definition KThread_EndWait :: "nat \<Rightarrow> WaitResult \<Rightarrow> WaitState \<Rightarrow> WaitState option" where
  "KThread_EndWait t wait_result s =
     (if GetState s t = Waiting
      then case m_wait_queue (waits s t) of
             None \<Rightarrow> Some s
           | Some queue \<Rightarrow> KThreadQueue_EndWait queue t wait_result s
      else Some s)"

definition KThread_CancelWait :: "nat \<Rightarrow> nat \<Rightarrow> WaitResult \<Rightarrow> bool \<Rightarrow> WaitState \<Rightarrow> WaitState option" where
  "KThread_CancelWait cur t wait_result cancel_timer_task s =
     (if GetState s t = Waiting
      then case m_wait_queue (waits s t) of
             None \<Rightarrow> None
           | Some queue \<Rightarrow> queue_CancelWait cur queue t wait_result cancel_timer_task s
      else Some s)"

definition OnTimer :: "nat \<Rightarrow> nat \<Rightarrow> WaitState \<Rightarrow> WaitState option" where
  "OnTimer cur t s = KThread_CancelWait cur t ResultTimedOut False s"

definition WaitCancel :: "nat \<Rightarrow> nat \<Rightarrow> WaitState \<Rightarrow> WaitState option" where
  "WaitCancel cur t s =
     (if GetState s t = Waiting \<and> m_cancellable (waits s t)
      then KThread_CancelWait cur t ResultCancelled True (update_wait t (\<lambda>w. w\<lparr>m_wait_cancelled := False\<rparr>) s)
      else Some (update_wait t (\<lambda>w. w\<lparr>m_wait_cancelled := True\<rparr>) s))"

text \<open>All tasks that are due are taken from the timer; the result is the time of the next one, or 0.\<close>

partial_function (option) DoInterruptTaskImpl :: "nat \<Rightarrow> int \<Rightarrow> WaitState \<Rightarrow> (int \<times> WaitState) option" where
  "DoInterruptTaskImpl cur cur_time s =
     (case m_next_task s of
        None \<Rightarrow> Some (0, s)
      | Some t \<Rightarrow>
          if m_time (waits s t) > cur_time then Some (m_time (waits s t), s)
          else Option.bind (RemoveTaskFromTree t s) (\<lambda>s1.
                 Option.bind (OnTimer cur t s1) (DoInterruptTaskImpl cur cur_time)))"

definition DoTask :: "nat \<Rightarrow> int \<Rightarrow> WaitState \<Rightarrow> WaitState option" where
  "DoTask cur tick s =
     (if m_wakeup_time s = MaxTime then Some s
      else map_option
             (\<lambda>(next_time, s1). if 0 < next_time \<and> next_time \<le> m_wakeup_time s1 then s1\<lparr>m_wakeup_time := next_time\<rparr> else s1)
             (DoInterruptTaskImpl cur tick (s\<lparr>m_wakeup_time := MaxTime\<rparr>)))"

definition Sleep :: "nat \<Rightarrow> int \<Rightarrow> WaitState \<Rightarrow> (WaitResult option \<times> WaitState) option" where
  "Sleep cur timeout s =
     (if IsTerminationRequested s cur then Some (Some ResultTerminationRequested, s)
      else map_option (\<lambda>s1. (None, register_sleep cur timeout s1))
             (BeginWait cur \<lparr>queue_kind = ForThreadSleep, m_hardware_timer = timeout > 0\<rparr> s))"

section \<open>Locks in user memory\<close>

definition HandleWaitMask :: u32 where
  "HandleWaitMask = push_bit 30 1"

definition ReadFromUser :: "nat \<Rightarrow> u64 \<Rightarrow> WaitState \<Rightarrow> u32" where
  "ReadFromUser p address s = user_memory s p address"

definition WriteToUser :: "nat \<Rightarrow> u64 \<Rightarrow> u32 \<Rightarrow> WaitState \<Rightarrow> WaitState" where
  "WriteToUser p address v s = s\<lparr>user_memory := (user_memory s)(p := (user_memory s p)(address := v))\<rparr>"

definition UpdateLockAtomic :: "nat \<Rightarrow> u64 \<Rightarrow> u32 \<Rightarrow> u32 \<Rightarrow> WaitState \<Rightarrow> u32 \<times> WaitState" where
  "UpdateLockAtomic p address if_zero new_orr_mask s =
     (let expected = ReadFromUser p address s
      in (expected, WriteToUser p address (if expected = 0 then if_zero else expected OR new_orr_mask) s))"

text \<open>The value that tells the next owner of a lock, and whether others wait.\<close>

definition next_tag :: "nat option \<Rightarrow> bool \<Rightarrow> WaitState \<Rightarrow> u32" where
  "next_tag next_owner has_waiters s =
     (case next_owner of
        None \<Rightarrow> 0
      | Some t \<Rightarrow> (let v = m_address_key_value (waits s t) in if has_waiters then v OR HandleWaitMask else v))"

definition end_next_wait :: "nat option \<Rightarrow> WaitState \<Rightarrow> WaitState option" where
  "end_next_wait next_owner s = (case next_owner of None \<Rightarrow> Some s | Some t \<Rightarrow> KThread_EndWait t ResultSuccess s)"

definition SignalToAddress :: "nat \<Rightarrow> nat \<Rightarrow> u64 \<Rightarrow> WaitState \<Rightarrow> WaitState option" where
  "SignalToAddress cur p addr s =
     Option.bind (RemoveWaiterByKey cur cur addr False s) (\<lambda>(next_owner, has_waiters, s1).
       end_next_wait next_owner (WriteToUser p addr (next_tag next_owner has_waiters s1) s1))"

partial_function (option) ReleaseAbandonedUserLocks :: "nat \<Rightarrow> nat \<Rightarrow> WaitState \<Rightarrow> WaitState option" where
  "ReleaseAbandonedUserLocks cur p s =
     (case FindHeldUserLockKey cur s of
        None \<Rightarrow> Some s
      | Some addr \<Rightarrow>
          Option.bind (RemoveWaiterByKey cur cur addr False s) (\<lambda>(next_owner, has_waiters, s1).
            if next_owner = None then None
            else Option.bind (end_next_wait next_owner (WriteToUser p addr (next_tag next_owner has_waiters s1) s1))
                   (ReleaseAbandonedUserLocks cur p)))"

definition SetUserAddressKey :: "nat \<Rightarrow> u64 \<Rightarrow> u32 \<Rightarrow> WaitState \<Rightarrow> WaitState" where
  "SetUserAddressKey t key val = update_wait t
     (\<lambda>w. w\<lparr>m_address_key := key, m_address_key_value := val, m_is_kernel_address_key := False\<rparr>)"

definition SetKernelAddressKey :: "nat \<Rightarrow> u64 \<Rightarrow> WaitState \<Rightarrow> WaitState" where
  "SetKernelAddressKey t key = update_wait t (\<lambda>w. w\<lparr>m_address_key := key, m_is_kernel_address_key := True\<rparr>)"

definition WaitForAddress ::
    "(u32 \<Rightarrow> nat option) \<Rightarrow> nat \<Rightarrow> nat \<Rightarrow> u32 \<Rightarrow> u64 \<Rightarrow> u32 \<Rightarrow> WaitState \<Rightarrow> (WaitResult option \<times> WaitState) option" where
  "WaitForAddress handles cur p handle addr v s =
     (if IsTerminationRequested s cur then Some (Some ResultTerminationRequested, s)
      else if ReadFromUser p addr s \<noteq> handle OR HandleWaitMask then Some (Some ResultSuccess, s)
      else case handles handle of
             None \<Rightarrow> Some (Some ResultInvalidHandle, s)
           | Some owner \<Rightarrow>
               if GetState s owner = Terminated then Some (Some ResultSuccess, WriteToUser p addr v s)
               else Option.bind (AddWaiter cur owner cur (SetUserAddressKey cur addr v s)) (\<lambda>s1.
                      map_option (Pair None) (BeginWait cur \<lparr>queue_kind = ForAddress, m_hardware_timer = False\<rparr> s1)))"

section \<open>Condition variables\<close>

definition SignalImpl :: "(u32 \<Rightarrow> nat option) \<Rightarrow> nat \<Rightarrow> nat \<Rightarrow> nat \<Rightarrow> WaitState \<Rightarrow> WaitState option" where
  "SignalImpl handles cur p t s =
     (let address = m_address_key (waits s t);
          own_tag = m_address_key_value (waits s t);
          (prev_tag, s1) = UpdateLockAtomic p address own_tag HandleWaitMask s
      in if prev_tag = 0 then KThread_EndWait t ResultSuccess s1
         else case handles (prev_tag AND NOT HandleWaitMask) of
                None \<Rightarrow> KThread_EndWait t ResultInvalidState s1
              | Some owner \<Rightarrow>
                  if GetState s1 owner = Terminated
                  then KThread_EndWait t ResultSuccess (WriteToUser p address own_tag s1)
                  else AddWaiter cur owner t s1)"

text \<open>The first element that comes after a key and priority.\<close>

definition nfind_key :: "ThreadTree \<Rightarrow> u64 \<Rightarrow> int \<Rightarrow> WaitState \<Rightarrow> nat option" where
  "nfind_key tr key priority s =
     find (\<lambda>t. key < m_condvar_key (waits s t) \<or> key = m_condvar_key (waits s t) \<and> priority < GetPriority s t)
       (thread_tree s tr)"

definition at_key :: "nat option \<Rightarrow> u64 \<Rightarrow> WaitState \<Rightarrow> bool" where
  "at_key it key s \<longleftrightarrow> (case it of None \<Rightarrow> False | Some t \<Rightarrow> m_condvar_key (waits s t) = key)"

text \<open>The iterator is the node that came behind the erased one, wherever it is by the next turn.\<close>

partial_function (option) signal_threads ::
    "(u32 \<Rightarrow> nat option) \<Rightarrow> nat \<Rightarrow> nat \<Rightarrow> u64 \<Rightarrow> int \<Rightarrow> nat option \<Rightarrow> int \<Rightarrow> WaitState \<Rightarrow> (nat option \<times> WaitState) option" where
  "signal_threads handles cur p cv_key count it num_waiters s =
     (case it of
        None \<Rightarrow> Some (it, s)
      | Some t \<Rightarrow>
          if (count \<le> 0 \<or> num_waiters < count) \<and> m_condvar_key (waits s t) = cv_key
          then let it1 = successor t (thread_tree s (ConditionVariableTree p))
               in Option.bind (tree_erase_thread (ConditionVariableTree p) t s) (\<lambda>s1.
                    Option.bind (SignalImpl handles cur p t (update_wait t (\<lambda>w. w\<lparr>m_condvar_tree := None\<rparr>) s1))
                      (signal_threads handles cur p cv_key count it1 (num_waiters + 1)))
          else Some (it, s))"

definition KConditionVariable_Signal ::
    "(u32 \<Rightarrow> nat option) \<Rightarrow> nat \<Rightarrow> nat \<Rightarrow> u64 \<Rightarrow> int \<Rightarrow> WaitState \<Rightarrow> WaitState option" where
  "KConditionVariable_Signal handles cur p cv_key count s =
     map_option (\<lambda>(it, s1). if at_key it cv_key s1 then s1 else WriteToUser p cv_key 0 s1)
       (signal_threads handles cur p cv_key count (nfind_key (ConditionVariableTree p) cv_key (- 1) s) 0 s)"

definition SetConditionVariable :: "nat \<Rightarrow> ThreadTree \<Rightarrow> u64 \<Rightarrow> u64 \<Rightarrow> u32 \<Rightarrow> WaitState \<Rightarrow> WaitState" where
  "SetConditionVariable t tree address cv_key val = update_wait t
     (\<lambda>w. w\<lparr>m_condvar_tree := Some tree, m_condvar_key := cv_key, m_address_key := address,
            m_address_key_value := val, m_is_kernel_address_key := False\<rparr>)"

definition KConditionVariable_Wait ::
    "nat \<Rightarrow> nat \<Rightarrow> u64 \<Rightarrow> u64 \<Rightarrow> u32 \<Rightarrow> int \<Rightarrow> WaitState \<Rightarrow> (WaitResult option \<times> WaitState) option" where
  "KConditionVariable_Wait cur p addr key v timeout s =
     (if IsTerminationRequested s cur then Some (Some ResultTerminationRequested, s)
      else Option.bind (RemoveWaiterByKey cur cur addr False s) (\<lambda>(next_owner, has_waiters, s1).
        let next_value = next_tag next_owner has_waiters s1
        in Option.bind (end_next_wait next_owner s1) (\<lambda>s2.
          let s3 = WriteToUser p addr next_value (WriteToUser p key 1 s2)
          in if timeout = 0 then Some (Some ResultTimedOut, s3)
             else
               let s4 = tree_insert_thread (ConditionVariableTree p) cur
                          (SetConditionVariable cur (ConditionVariableTree p) addr key v s3)
               in map_option (\<lambda>s5. (None, register_sleep cur timeout s5))
                    (BeginWait cur \<lparr>queue_kind = ForConditionVariable (ConditionVariableTree p),
                                    m_hardware_timer = timeout > 0\<rparr> s4))))"

section \<open>The address arbiter\<close>

definition DecrementIfLessThan :: "nat \<Rightarrow> u64 \<Rightarrow> u32 \<Rightarrow> WaitState \<Rightarrow> u32 \<times> WaitState" where
  "DecrementIfLessThan p address v s =
     (let current_value = ReadFromUser p address s
      in (current_value, if sint current_value < sint v then WriteToUser p address (current_value - 1) s else s))"

definition UpdateIfEqual :: "nat \<Rightarrow> u64 \<Rightarrow> u32 \<Rightarrow> u32 \<Rightarrow> WaitState \<Rightarrow> u32 \<times> WaitState" where
  "UpdateIfEqual p address v new_value s =
     (let current_value = ReadFromUser p address s
      in (current_value, if current_value = v then WriteToUser p address new_value s else s))"

definition SetAddressArbiter :: "nat \<Rightarrow> ThreadTree \<Rightarrow> u64 \<Rightarrow> WaitState \<Rightarrow> WaitState" where
  "SetAddressArbiter t tree address = update_wait t (\<lambda>w. w\<lparr>m_condvar_tree := Some tree, m_condvar_key := address\<rparr>)"

partial_function (option) signal_arbiter ::
    "nat \<Rightarrow> u64 \<Rightarrow> int \<Rightarrow> nat option \<Rightarrow> int \<Rightarrow> WaitState \<Rightarrow> WaitState option" where
  "signal_arbiter p addr count it num_waiters s =
     (case it of
        None \<Rightarrow> Some s
      | Some t \<Rightarrow>
          if (count \<le> 0 \<or> num_waiters < count) \<and> m_condvar_key (waits s t) = addr
          then Option.bind (KThread_EndWait t ResultSuccess s) (\<lambda>s1.
                 let s2 = update_wait t (\<lambda>w. w\<lparr>m_condvar_tree := None\<rparr>) s1;
                     it1 = successor t (thread_tree s2 (AddressArbiterTree p))
                 in Option.bind (tree_erase_thread (AddressArbiterTree p) t s2)
                      (signal_arbiter p addr count it1 (num_waiters + 1)))
          else Some s)"

definition KAddressArbiter_Signal :: "nat \<Rightarrow> u64 \<Rightarrow> int \<Rightarrow> WaitState \<Rightarrow> (WaitResult \<times> WaitState) option" where
  "KAddressArbiter_Signal p addr count s =
     map_option (Pair ResultSuccess) (signal_arbiter p addr count (nfind_key (AddressArbiterTree p) addr (- 1) s) 0 s)"

definition SignalAndIncrementIfEqual :: "nat \<Rightarrow> u64 \<Rightarrow> u32 \<Rightarrow> int \<Rightarrow> WaitState \<Rightarrow> (WaitResult \<times> WaitState) option" where
  "SignalAndIncrementIfEqual p addr v count s =
     (let (user_value, s1) = UpdateIfEqual p addr v (v + 1) s
      in if user_value \<noteq> v then Some (ResultInvalidState, s1)
         else map_option (Pair ResultSuccess)
                (signal_arbiter p addr count (nfind_key (AddressArbiterTree p) addr (- 1) s1) 0 s1))"

text \<open>The threads behind the first one that wait for the same address, counted up to one more than asked for.\<close>

fun count_others :: "WaitState \<Rightarrow> u64 \<Rightarrow> int \<Rightarrow> nat list \<Rightarrow> int \<Rightarrow> int" where
  "count_others s addr count [] n = n"
| "count_others s addr count (t # ts) n =
     (if m_condvar_key (waits s t) = addr
      then if n \<ge> count then n + 1 else count_others s addr count ts (n + 1)
      else n)"

fun behind :: "'a \<Rightarrow> 'a list \<Rightarrow> 'a list" where
  "behind x [] = []"
| "behind x (y # ys) = (if y = x then ys else behind x ys)"

definition waiting_count_value :: "nat \<Rightarrow> u64 \<Rightarrow> u32 \<Rightarrow> int \<Rightarrow> WaitState \<Rightarrow> u32" where
  "waiting_count_value p addr v count s =
     (let it = nfind_key (AddressArbiterTree p) addr (- 1) s
      in if \<not> at_key it addr s then v + 1
         else if count \<le> 0 then v - 2
         else if count_others s addr count (behind (the it) (thread_tree s (AddressArbiterTree p))) 0 < count then v - 1
         else v)"

definition SignalAndModifyByWaitingCountIfEqual ::
    "nat \<Rightarrow> u64 \<Rightarrow> u32 \<Rightarrow> int \<Rightarrow> WaitState \<Rightarrow> (WaitResult \<times> WaitState) option" where
  "SignalAndModifyByWaitingCountIfEqual p addr v count s =
     (let it = nfind_key (AddressArbiterTree p) addr (- 1) s;
          new_value = waiting_count_value p addr v count s;
          (user_value, s1) = (if v \<noteq> new_value then UpdateIfEqual p addr v new_value s else (ReadFromUser p addr s, s))
      in if user_value \<noteq> v then Some (ResultInvalidState, s1)
         else map_option (Pair ResultSuccess) (signal_arbiter p addr count it 0 s1))"

text \<open>The end of the waits: the thread enters the tree and waits.\<close>

definition arbiter_wait :: "nat \<Rightarrow> nat \<Rightarrow> u64 \<Rightarrow> int \<Rightarrow> WaitState \<Rightarrow> (WaitResult option \<times> WaitState) option" where
  "arbiter_wait cur p addr timeout s =
     map_option (\<lambda>s1. (None, register_sleep cur timeout s1))
       (BeginWait cur \<lparr>queue_kind = ForAddressArbiter (AddressArbiterTree p), m_hardware_timer = timeout > 0\<rparr>
         (tree_insert_thread (AddressArbiterTree p) cur (SetAddressArbiter cur (AddressArbiterTree p) addr s)))"

definition WaitIfLessThan ::
    "nat \<Rightarrow> nat \<Rightarrow> u64 \<Rightarrow> u32 \<Rightarrow> bool \<Rightarrow> int \<Rightarrow> WaitState \<Rightarrow> (WaitResult option \<times> WaitState) option" where
  "WaitIfLessThan cur p addr v decrement timeout s =
     (if IsTerminationRequested s cur then Some (Some ResultTerminationRequested, s)
      else
        let (user_value, s1) = (if decrement then DecrementIfLessThan p addr v s else (ReadFromUser p addr s, s))
        in if sint user_value \<ge> sint v then Some (Some ResultInvalidState, s1)
           else if timeout = 0 then Some (Some ResultTimedOut, s1)
           else arbiter_wait cur p addr timeout s1)"

definition WaitIfEqual :: "nat \<Rightarrow> nat \<Rightarrow> u64 \<Rightarrow> u32 \<Rightarrow> int \<Rightarrow> WaitState \<Rightarrow> (WaitResult option \<times> WaitState) option" where
  "WaitIfEqual cur p addr v timeout s =
     (if IsTerminationRequested s cur then Some (Some ResultTerminationRequested, s)
      else if v \<noteq> ReadFromUser p addr s then Some (Some ResultInvalidState, s)
      else if timeout = 0 then Some (Some ResultTimedOut, s)
      else arbiter_wait cur p addr timeout s)"

section \<open>Light locks\<close>

text \<open>
  The tag of a light lock is the owner with the bit that tells of waiters; no owner is 0.  Entering and
  leaving are an exchange of the tag without the scheduler lock, and a slow path under it.
\<close>

definition KLightLock_exchange :: "nat \<Rightarrow> u64 \<Rightarrow> WaitState \<Rightarrow> (nat option \<times> bool) \<times> WaitState" where
  "KLightLock_exchange cur lock s =
     (let old_tag = m_tag s lock
      in (old_tag, s\<lparr>m_tag := (m_tag s)(lock := if old_tag = (None, False) then (Some cur, False) else (fst old_tag, True))\<rparr>))"

text \<open>The result says whether the caller now has the lock or waits for it.\<close>

definition LockSlowPath :: "nat \<Rightarrow> nat \<Rightarrow> u64 \<Rightarrow> WaitState \<Rightarrow> (bool \<times> WaitState) option" where
  "LockSlowPath owner cur lock s =
     (if m_tag s lock \<noteq> (Some owner, True) then Some (False, s)
      else Option.bind (AddWaiter cur owner cur (SetKernelAddressKey cur lock s)) (\<lambda>s1.
             Option.bind (BeginWait cur \<lparr>queue_kind = ForKLightLock, m_hardware_timer = False\<rparr> s1) (\<lambda>s2.
               map_option (Pair True) (if IsSuspended s2 owner then ContinueIfHasKernelWaiters owner s2 else Some s2))))"

definition KLightLock_release :: "nat \<Rightarrow> u64 \<Rightarrow> WaitState \<Rightarrow> bool \<times> WaitState" where
  "KLightLock_release cur lock s =
     (if m_tag s lock = (Some cur, False) then (True, s\<lparr>m_tag := (m_tag s)(lock := (None, False))\<rparr>) else (False, s))"

definition UnlockSlowPath :: "nat \<Rightarrow> u64 \<Rightarrow> WaitState \<Rightarrow> WaitState option" where
  "UnlockSlowPath cur lock s =
     Option.bind (RemoveWaiterByKey cur cur lock True s) (\<lambda>(next_owner, has_waiters, s1).
       Option.bind
         (case next_owner of
            None \<Rightarrow> Some s1
          | Some t \<Rightarrow> Option.bind (KThread_EndWait t ResultSuccess s1) (\<lambda>s2.
              if IsSuspended s2 t then ContinueIfHasKernelWaiters t s2 else Some s2)) (\<lambda>s3.
       Option.bind (if IsSuspended s3 cur then on_kernel (TrySuspend cur) s3 else Some s3) (\<lambda>s4.
         Some (s4\<lparr>m_tag := (m_tag s4)(lock := case next_owner of None \<Rightarrow> (None, False) | Some t \<Rightarrow> (Some t, has_waiters))\<rparr>))))"

section \<open>The end of a thread\<close>

text \<open>When a thread object is destroyed, those that wait for its locks are removed and their waits cancelled.\<close>

partial_function (option) cancel_waiters :: "nat \<Rightarrow> nat \<Rightarrow> WaitState \<Rightarrow> WaitState option" where
  "cancel_waiters cur l s =
     (if lock_waiter_count (lock_infos s l) = 0 then Some s
      else Option.bind (GetHighestPriorityWaiter s l) (\<lambda>waiter.
             Option.bind (LockInfo_RemoveWaiter l waiter s) (\<lambda>(no_waiters, s1).
               Option.bind (KThread_CancelWait cur waiter ResultInvalidState True s1) (cancel_waiters cur l))))"

fun release_locks :: "nat \<Rightarrow> nat \<Rightarrow> nat list \<Rightarrow> WaitState \<Rightarrow> WaitState option" where
  "release_locks cur t [] s = Some s"
| "release_locks cur t (l # ls) s =
     Option.bind (cancel_waiters cur l s) (\<lambda>s1.
       Option.bind (erase_held_lock t l s1) (\<lambda>s2. release_locks cur t ls (LockInfo_Free l s2)))"

definition Finalize_waiters :: "nat \<Rightarrow> nat \<Rightarrow> WaitState \<Rightarrow> WaitState option" where
  "Finalize_waiters cur t s = release_locks cur t (m_held_lock_info_list (waits s t)) s"

text \<open>The members of a new thread that belong to waiting; the object's lists are empty.\<close>

definition Initialize_wait :: "int \<Rightarrow> ThreadWait" where
  "Initialize_wait prio =
     \<lparr>m_base_priority = prio, m_held_lock_info_list = [], m_waiting_lock_info = None, m_address_key = 0,
      m_address_key_value = 0, m_is_kernel_address_key = False, m_condvar_tree = None, m_condvar_key = 0,
      m_wait_queue = None, m_wait_result = ResultNoSynchronizationObject, m_wait_generation = 0,
      m_termination_requested = False, m_cancellable = False, m_wait_cancelled = False, m_time = 0,
      m_synced_index = 0, m_pinned_waiter_list = []\<rparr>"

end
