(* ===== verification/Wait_Structures_Props.thy ===== *)
theory Wait_Structures_Props
  imports Wait_Structures Lock_Restore
begin

text \<open>
  A thread is in the state of waiting exactly when its queue can end or cancel the wait: its place in a
  lock's or a variable's tree fits the queue's class, and a timer task is only there while it waits with one.
\<close>

section \<open>The invariant of waiting\<close>

fun place_ok :: "ThreadQueueKind \<Rightarrow> bool \<Rightarrow> ThreadTree option \<Rightarrow> bool" where
  "place_ok ForKLightLock at_lock in_tree \<longleftrightarrow> in_tree = None"
| "place_ok ForAddress at_lock in_tree \<longleftrightarrow> at_lock \<and> in_tree = None"
| "place_ok (ForConditionVariable tr) at_lock in_tree \<longleftrightarrow>
     in_tree = None \<or> in_tree = Some tr \<and> tr \<in> range ConditionVariableTree"
| "place_ok (ForAddressArbiter tr) at_lock in_tree \<longleftrightarrow>
     \<not> at_lock \<and> (in_tree = None \<or> in_tree = Some tr \<and> tr \<in> range AddressArbiterTree)"
| "place_ok ForThreadSleep at_lock in_tree \<longleftrightarrow> \<not> at_lock \<and> in_tree = None"
| "place_ok (ForSynchronizationObjects obs) at_lock in_tree \<longleftrightarrow> \<not> at_lock \<and> in_tree = None"
| "place_ok (ForUserException p) at_lock in_tree \<longleftrightarrow> at_lock \<and> in_tree = None"
| "place_ok (ForThreadSetProperty t) at_lock in_tree \<longleftrightarrow> \<not> at_lock \<and> in_tree = None"

definition queue_ok :: "WaitState \<Rightarrow> nat \<Rightarrow> bool" where
  "queue_ok s t \<longleftrightarrow>
     (if GetState s t = Waiting
      then t < SlabCountKThread \<and> (\<exists>q. m_wait_queue (waits s t) = Some q \<and>
             place_ok (queue_kind q) (waits_in s t \<noteq> None) (m_condvar_tree (waits s t)) \<and>
             (0 < m_time (waits s t) \<longrightarrow> m_hardware_timer q))
      else waits_in s t = None \<and> m_condvar_tree (waits s t) = None \<and> m_time (waits s t) \<le> 0)"

definition queues_ok :: "nat set \<Rightarrow> WaitState \<Rightarrow> bool" where
  "queues_ok X s \<longleftrightarrow> (\<forall>t. t \<notin> X \<longrightarrow> queue_ok s t)"

text \<open>The timer's tree holds the threads with a time, the earliest first.\<close>

definition tasks_ok :: "WaitState \<Rightarrow> bool" where
  "tasks_ok s \<longleftrightarrow>
     distinct (m_task_tree s) \<and> sorted (map (\<lambda>t. m_time (waits s t)) (m_task_tree s)) \<and>
     (\<forall>t. t \<in> set (m_task_tree s) \<longleftrightarrow> 0 < m_time (waits s t)) \<and>
     m_next_task s = (case m_task_tree s of [] \<Rightarrow> None | t # ts \<Rightarrow> Some t)"

text \<open>The suspension flags leave the bits of the state alone.\<close>

definition flags_ok :: "WaitState \<Rightarrow> bool" where
  "flags_ok s \<longleftrightarrow> (\<forall>t. m_suspend_allowed_flags (threads (kernel s) t) AND 15 = 0)"

text \<open>
  What a thread waits for by a list: the objects of its nodes, or a pinned thread.  \<open>K\<close> says for each thread
  what it waits for, \<open>chain\<close> follows the links of the nodes.
\<close>

abbreviation pinned_waiters :: "WaitState \<Rightarrow> nat \<Rightarrow> nat list" where
  "pinned_waiters s t \<equiv> m_pinned_waiter_list (waits s t)"

definition listed :: "WaitState \<Rightarrow> nat \<Rightarrow> ThreadQueueKind option" where
  "listed s t = (if GetState s t = Waiting then map_option queue_kind (m_wait_queue (waits s t)) else None)"

fun object_at :: "ThreadQueueKind option \<Rightarrow> nat \<Rightarrow> SyncObject option" where
  "object_at (Some (ForSynchronizationObjects obs)) i = (if i < length obs then Some (obs ! i) else None)"
| "object_at k i = None"

fun pinned_at :: "ThreadQueueKind option \<Rightarrow> nat option" where
  "pinned_at (Some (ForThreadSetProperty t)) = Some t"
| "pinned_at k = None"

definition off_list :: "ThreadQueueKind option \<Rightarrow> bool" where
  "off_list k \<longleftrightarrow> object_at k = (\<lambda>i. None) \<and> pinned_at k = None"

fun chain :: "(SyncNode \<Rightarrow> SyncNode option) \<Rightarrow> SyncNode option \<Rightarrow> SyncNode list \<Rightarrow> bool" where
  "chain f h [] \<longleftrightarrow> h = None"
| "chain f h (n # ns) \<longleftrightarrow> h = Some n \<and> chain f (f n) ns"

definition nodes_ok :: "WaitObjects \<Rightarrow> SyncObject \<Rightarrow> SyncNode list \<Rightarrow> bool" where
  "nodes_ok l ob ns \<longleftrightarrow> distinct ns \<and> chain (node_next l) (m_thread_list_head l ob) ns \<and>
     m_thread_list_tail l ob = (if ns = [] then None else Some (last ns))"

definition objects_ok :: "(SyncObject \<Rightarrow> SyncNode list) \<Rightarrow> (nat \<Rightarrow> nat \<Rightarrow> SyncObject option) \<Rightarrow> WaitObjects \<Rightarrow> bool" where
  "objects_ok N W l \<longleftrightarrow> (\<forall>ob. nodes_ok l ob (N ob) \<and> (\<forall>t i. (t, i) \<in> set (N ob) \<longleftrightarrow> W t i = Some ob))"

definition lists_at :: "(nat \<Rightarrow> ThreadQueueKind option) \<Rightarrow> WaitState \<Rightarrow> bool" where
  "lists_at K s \<longleftrightarrow> (\<exists>N. objects_ok N (\<lambda>t. object_at (K t)) (objects s)) \<and>
     (\<forall>t. distinct (pinned_waiters s t) \<and> (\<forall>u. u \<in> set (pinned_waiters s t) \<longleftrightarrow> pinned_at (K u) = Some t))"

definition lists_ok :: "WaitState \<Rightarrow> bool" where
  "lists_ok s \<longleftrightarrow> lists_at (listed s) s"

definition waiting_ok :: "nat set \<Rightarrow> WaitState \<Rightarrow> bool" where
  "waiting_ok X s \<longleftrightarrow> system_ok s \<and> inherits {} s \<and> queues_ok X s \<and> tasks_ok s \<and> flags_ok s"

definition wait_ok :: "nat set \<Rightarrow> WaitState \<Rightarrow> bool" where
  "wait_ok X s \<longleftrightarrow> waiting_ok X s \<and> lists_ok s"

lemma waiting_okD:
  assumes "waiting_ok X s"
  shows "system_ok s" "inherits {} s" "queues_ok X s" "tasks_ok s" "flags_ok s"
  using assms by (simp_all add: waiting_ok_def)

lemma wait_okD:
  assumes "wait_ok X s"
  shows "system_ok s" "inherits {} s" "queues_ok X s" "tasks_ok s" "flags_ok s" "lists_ok s" "waiting_ok X s"
  using assms by (simp_all add: wait_ok_def waiting_ok_def)

lemma wait_okI:
  assumes "system_ok s" "inherits {} s" "queues_ok X s" "tasks_ok s" "flags_ok s" "lists_ok s"
  shows "wait_ok X s"
  using assms by (simp add: wait_ok_def waiting_ok_def)

definition same_lists :: "WaitState \<Rightarrow> WaitState \<Rightarrow> bool" where
  "same_lists s s1 \<longleftrightarrow>
     m_thread_list_head (objects s1) = m_thread_list_head (objects s) \<and>
     m_thread_list_tail (objects s1) = m_thread_list_tail (objects s) \<and> node_next (objects s1) = node_next (objects s) \<and>
     m_signaled (objects s1) = m_signaled (objects s) \<and> (\<forall>t. pinned_waiters s1 t = pinned_waiters s t)"

lemma same_listsI: "objects s1 = objects s \<Longrightarrow> (\<And>t. pinned_waiters s1 t = pinned_waiters s t) \<Longrightarrow> same_lists s s1"
  by (simp add: same_lists_def)

lemma same_lists_refl [simp]: "same_lists s s"
  by (simp add: same_lists_def)

lemma same_lists_trans: "same_lists s s1 \<Longrightarrow> same_lists s1 s2 \<Longrightarrow> same_lists s s2"
  unfolding same_lists_def by (elim conjE) simp

lemma lists_at_cong:
  assumes "same_lists s s1"
  shows "lists_at K s1 = lists_at K s"
proof -
  have "m_thread_list_head (objects s1) = m_thread_list_head (objects s)"
    "m_thread_list_tail (objects s1) = m_thread_list_tail (objects s)" "node_next (objects s1) = node_next (objects s)"
    "pinned_waiters s1 t = pinned_waiters s t" for t using assms by (simp_all add: same_lists_def)
  then show ?thesis by (simp add: lists_at_def objects_ok_def nodes_ok_def)
qed

lemma lists_ok_cong: "same_lists s s1 \<Longrightarrow> listed s1 = listed s \<Longrightarrow> lists_ok s1 = lists_ok s"
  by (simp add: lists_ok_def lists_at_cong)

lemma listed_cong:
  assumes "\<And>u. m_wait_queue (waits s1 u) = m_wait_queue (waits s u)" "\<And>u. GetState s1 u = Waiting \<longleftrightarrow> GetState s u = Waiting"
  shows "listed s1 = listed s"
  by (simp add: listed_def fun_eq_iff assms)

lemma lists_at_off:
  assumes "off_list (K t)" and "off_list k"
  shows "lists_at (K(t := k)) s = lists_at K s"
proof -
  have o: "object_at ((K(t := k)) u) = object_at (K u)" and p: "pinned_at ((K(t := k)) u) = pinned_at (K u)" for u
    using assms by (simp_all add: off_list_def)
  show ?thesis unfolding lists_at_def o p ..
qed

lemma off_list_None [simp]: "off_list None"
  by (simp add: off_list_def fun_eq_iff)

lemma off_list_kinds [simp]:
  "off_list (Some ForKLightLock)" "off_list (Some ForAddress)" "off_list (Some (ForConditionVariable tr))"
  "off_list (Some (ForAddressArbiter tr))" "off_list (Some ForThreadSleep)" "off_list (Some (ForUserException p))"
  by (simp_all add: off_list_def fun_eq_iff)

lemma place_off_list: "place_ok k True tr \<Longrightarrow> off_list (Some k)" "place_ok k b (Some v) \<Longrightarrow> off_list (Some k)"
  by (cases k; simp)+

text \<open>No thread begins to wait, and none enters a tree of a variable.\<close>

definition keeps :: "WaitState \<Rightarrow> WaitState \<Rightarrow> bool" where
  "keeps s s1 \<longleftrightarrow> (\<forall>u. m_condvar_tree (waits s1 u) = m_condvar_tree (waits s u) \<and>
     m_condvar_key (waits s1 u) = m_condvar_key (waits s u) \<and> (GetState s1 u = Waiting \<longrightarrow> GetState s u = Waiting))"

lemma keeps_refl [simp]: "keeps s s"
  by (simp add: keeps_def)

lemma keeps_trans: "keeps s s1 \<Longrightarrow> keeps s1 s2 \<Longrightarrow> keeps s s2"
  by (simp add: keeps_def)

lemma not_waiting:
  assumes "wait_ok {} s" and "GetState s t \<noteq> Waiting"
  shows "waits_in s t = None" "m_condvar_tree (waits s t) = None" "m_time (waits s t) \<le> 0" "GetLockOwner s t = None"
proof -
  have "queue_ok s t" using wait_okD(3) [OF assms(1)] by (simp add: queues_ok_def)
  then show "waits_in s t = None" "m_condvar_tree (waits s t) = None" "m_time (waits s t) \<le> 0"
    using assms(2) by (simp_all add: queue_ok_def)
  then show "GetLockOwner s t = None" by (simp add: GetLockOwner_def)
qed

lemma GetState_threads: "same_threads s s1 \<Longrightarrow> GetState s1 t = GetState s t"
  by (simp add: GetState_def same_threads_members)

lemma lock_operation_keeps: "same_rest s s1 \<Longrightarrow> same_threads s s1 \<Longrightarrow> keeps s s1"
  by (simp add: keeps_def same_rest_members GetState_threads)

lemma queue_ok_cong:
  assumes "m_wait_queue (waits s1 t) = m_wait_queue (waits s t)" "m_condvar_tree (waits s1 t) = m_condvar_tree (waits s t)"
    "m_time (waits s1 t) = m_time (waits s t)" "GetState s1 t = GetState s t" "waits_in s1 t = None \<longleftrightarrow> waits_in s t = None"
  shows "queue_ok s1 t = queue_ok s t"
  unfolding queue_ok_def assms by simp

lemma tasks_ok_cong:
  assumes "\<And>t. m_time (waits s1 t) = m_time (waits s t)" "m_task_tree s1 = m_task_tree s" "m_next_task s1 = m_next_task s"
  shows "tasks_ok s1 = tasks_ok s"
  unfolding tasks_ok_def assms ..

text \<open>An operation on the locks after which the threads of \<open>Y\<close> may no longer be at a lock.\<close>

lemma lock_operation_ok:
  assumes ok: "wait_ok X s" and new: "system_ok s1" "inherits {} s1" "same_rest s s1" "same_threads s s1"
    and own: "\<And>v. v \<notin> Y \<Longrightarrow> GetLockOwner s1 v = None \<longleftrightarrow> GetLockOwner s v = None"
  shows "wait_ok (X \<union> Y) s1"
proof -
  note rest = same_rest_members [OF new(3)]
  have w: "waits_in s1 v = None \<longleftrightarrow> waits_in s v = None" if "v \<notin> Y" for v
    using own [OF that] lock_owner_None [OF system_okD(1) [OF new(1)]] lock_owner_None [OF system_okD(1) [OF wait_okD(1) [OF ok]]]
    by simp
  have "queue_ok s1 v = queue_ok s v" if "v \<notin> Y" for v
    by (rule queue_ok_cong) (simp_all add: rest w [OF that] GetState_threads [OF new(4)])
  then have "queues_ok (X \<union> Y) s1" using wait_okD(3) [OF ok] by (simp add: queues_ok_def)
  moreover have "tasks_ok s1" using wait_okD(4) [OF ok] tasks_ok_cong [of s1 s] rest by simp
  moreover have "flags_ok s1" using wait_okD(5) [OF ok] same_threads_members(4) [OF new(4)] by (simp add: flags_ok_def)
  moreover have "listed s1 = listed s" by (rule listed_cong) (simp_all add: rest GetState_threads [OF new(4)])
  then have "lists_ok s1" using wait_okD(6) [OF ok] lists_ok_cong [OF same_listsI [of s1 s]] rest by simp
  ultimately show ?thesis using new(1,2) by (intro wait_okI)
qed

section \<open>A new state of a thread\<close>

lemma system_kernel:
  assumes sys: "system_ok s" "inherits {} s" and k: "kernel_ok k" and th: "\<And>t. m_priority (threads k t) = m_priority (threads (kernel s) t)"
    "\<And>t. m_num_kernel_waiters (threads k t) = m_num_kernel_waiters (threads (kernel s) t)"
    "\<And>t. IsDummyThread (threads k t) = IsDummyThread (threads (kernel s) t)"
  shows "system_ok (s\<lparr>kernel := k\<rparr>)" and "inherits {} (s\<lparr>kernel := k\<rparr>)"
proof -
  note ok = system_okD [OF sys(1)]
  let ?s = "s\<lparr>kernel := k\<rparr>"
  have p: "GetPriority ?s = GetPriority s" using th(1) by (simp add: GetPriority_def fun_eq_iff)
  have "trees_ok ?s" using treesD(4) [OF ok(2)] by (intro trees_ok_cong [OF ok(2) _ _ p]) simp_all
  moreover have "counts_ok ?s" using th(2) by (intro counts_kernel [OF ok(3)]) simp_all
  moreover have "bases_ok ?s" using th(3) by (intro base_dummy_ok [OF ok(4)]) simp_all
  ultimately show "system_ok ?s" using ok(1) locks_ok_kernel [OF p] k by (simp add: system_ok_def)
  have "best_priority ?s = best_priority s" by (simp add: best_priority_def p GetBasePriority_def fun_eq_iff)
  then show "inherits {} ?s" using sys(2) by (simp add: inherits_def p)
qed

lemma Thread_SetState_ok:
  assumes "kernel_ok (kernel s)"
  obtains k where "Thread_SetState t state s = Some (s\<lparr>kernel := k\<rparr>)" and "kernel_ok k"
    and "threads k = (threads (kernel s))(t := (threads (kernel s) t)\<lparr>m_thread_state :=
      (m_thread_state (threads (kernel s) t) AND NOT ThreadState_Mask) OR (state AND ThreadState_Mask)\<rparr>)"
proof -
  let ?new = "(m_thread_state (threads (kernel s) t) AND NOT ThreadState_Mask) OR (state AND ThreadState_Mask)"
  let ?k1 = "update_thread t (\<lambda>thread. thread\<lparr>m_thread_state := ?new\<rparr>) (kernel s)"
  from assms obtain A where A: "sched_ok A (threads (kernel s)) (m_priority_queue (kernel s))" unfolding kernel_ok_def by blast
  obtain k where k: "OnThreadStateChanged t (m_thread_state (threads (kernel s) t)) ?k1 = Some k" "threads k = threads ?k1" "kernel_ok k"
    using state_changed [OF A refl, of ?k1 t ?new] by auto
  show thesis
  proof (cases "?new = m_thread_state (threads (kernel s) t)")
    case True
    then have "KThread_SetState t state (kernel s) = Some ?k1" by (simp add: KThread_SetState_def Let_def)
    moreover have "kernel_ok ?k1" using True by (intro kernel_ok_update_thread [OF assms]) (simp add: same_place_def)
    ultimately show thesis by (intro that [of ?k1]) (simp_all add: Thread_SetState_def on_kernel_def)
  next
    case False
    then have "KThread_SetState t state (kernel s) = Some k" using k(1) by (simp add: KThread_SetState_def Let_def)
    then show thesis using k by (intro that [of k]) (simp_all add: Thread_SetState_def on_kernel_def)
  qed
qed

lemma low_bits:
  fixes a b :: u16
  shows "((a AND NOT ThreadState_Mask) OR (b AND ThreadState_Mask)) AND ThreadState_Mask = b AND ThreadState_Mask"
    and "(a AND ThreadState_Mask) AND ThreadState_Mask = a AND ThreadState_Mask"
  by (simp_all add: bit_eq_iff bit_simps) blast+

lemma states [simp]: "Waiting AND ThreadState_Mask = Waiting" "Runnable AND ThreadState_Mask = Runnable"
  "Runnable \<noteq> Waiting" "Terminated \<noteq> Waiting" "Terminated AND ThreadState_Mask = Terminated"
  by (simp_all add: Waiting_def Runnable_def Terminated_def ThreadState_Mask_def)

lemma low_state: "(a AND NOT ThreadState_Mask OR Runnable) AND ThreadState_Mask = Runnable"
  "(a AND NOT ThreadState_Mask OR Waiting) AND ThreadState_Mask = Waiting"
  using low_bits(1) [of a Runnable] low_bits(1) [of a Waiting] by simp_all

section \<open>Changes that are not about locks\<close>

definition same_core :: "WaitState \<Rightarrow> WaitState \<Rightarrow> bool" where
  "same_core s s1 \<longleftrightarrow>
     kernel s1 = kernel s \<and> lock_infos s1 = lock_infos s \<and> free_lock_infos s1 = free_lock_infos s \<and>
     thread_tree s1 = thread_tree s \<and>
     (\<forall>u. held s1 u = held s u \<and> waits_in s1 u = waits_in s u \<and> m_base_priority (waits s1 u) = m_base_priority (waits s u) \<and>
        m_address_key (waits s1 u) = m_address_key (waits s u) \<and>
        m_is_kernel_address_key (waits s1 u) = m_is_kernel_address_key (waits s u) \<and>
        m_condvar_tree (waits s1 u) = m_condvar_tree (waits s u) \<and> m_condvar_key (waits s1 u) = m_condvar_key (waits s u))"

lemma same_core_refl [simp]: "same_core s s"
  by (simp add: same_core_def)

lemma same_core_trans: "same_core s s1 \<Longrightarrow> same_core s1 s2 \<Longrightarrow> same_core s s2"
  by (simp add: same_core_def)

lemma same_coreD:
  assumes "same_core s s1"
  shows "kernel s1 = kernel s" "lock_infos s1 = lock_infos s" "free_lock_infos s1 = free_lock_infos s"
    "thread_tree s1 = thread_tree s" "held s1 u = held s u" "waits_in s1 u = waits_in s u"
    "m_base_priority (waits s1 u) = m_base_priority (waits s u)" "m_address_key (waits s1 u) = m_address_key (waits s u)"
    "m_is_kernel_address_key (waits s1 u) = m_is_kernel_address_key (waits s u)"
    "m_condvar_tree (waits s1 u) = m_condvar_tree (waits s u)" "m_condvar_key (waits s1 u) = m_condvar_key (waits s u)"
  using assms by (simp_all add: same_core_def)

lemma same_core_effect:
  assumes "same_core s s1"
  shows "GetPriority s1 = GetPriority s" "GetLockOwner s1 = GetLockOwner s" "GetState s1 = GetState s"
    "system_ok s1 = system_ok s" "inherits X s1 = inherits X s" "flags_ok s1 = flags_ok s" "same_threads s s1"
proof -
  note c = same_coreD [OF assms]
  show p: "GetPriority s1 = GetPriority s" by (simp add: GetPriority_def c(1) fun_eq_iff)
  show own: "GetLockOwner s1 = GetLockOwner s" by (simp add: GetLockOwner_def c(2,6) fun_eq_iff cong: option.case_cong)
  show "GetState s1 = GetState s" by (simp add: GetState_def c(1) fun_eq_iff)
  have b: "GetBasePriority s1 = GetBasePriority s" by (simp add: GetBasePriority_def c(7) fun_eq_iff)
  have "locks_ok {} s1 = locks_ok {} s" unfolding locks_ok_def lock_ok_def slab_ok_def c p ..
  moreover have "trees_ok s1 = trees_ok s" unfolding trees_ok_def ConditionVariableComparator_def c p ..
  moreover have "counts_ok s1 = counts_ok s" unfolding counts_ok_def kernel_waiters_def c ..
  moreover have "bases_ok s1 = bases_ok s" unfolding bases_ok_def b c(1) ..
  ultimately show "system_ok s1 = system_ok s" by (simp add: system_ok_def c(1))
  show "inherits X s1 = inherits X s" unfolding inherits_def best_priority_def p own b ..
  show "flags_ok s1 = flags_ok s" "same_threads s s1" by (simp_all add: flags_ok_def same_threads_def c(1))
qed

lemma waiting_ok_cong:
  assumes c: "same_core s s1" and w: "\<And>u. m_wait_queue (waits s1 u) = m_wait_queue (waits s u)"
    "\<And>u. m_time (waits s1 u) = m_time (waits s u)" "m_task_tree s1 = m_task_tree s" "m_next_task s1 = m_next_task s"
  shows "waiting_ok X s1 = waiting_ok X s" and "listed s1 = listed s"
proof -
  note core = same_coreD [OF c] and eff = same_core_effect [OF c]
  have "queue_ok s1 u = queue_ok s u" for u by (rule queue_ok_cong) (simp_all add: w core eff)
  moreover have "tasks_ok s1 = tasks_ok s" by (rule tasks_ok_cong) (simp_all add: w)
  ultimately show "waiting_ok X s1 = waiting_ok X s" by (simp add: waiting_ok_def queues_ok_def eff)
  show "listed s1 = listed s" by (rule listed_cong) (simp_all add: w eff)
qed

lemma wait_ok_cong:
  assumes c: "same_core s s1" and w: "\<And>u. m_wait_queue (waits s1 u) = m_wait_queue (waits s u)"
    "\<And>u. m_time (waits s1 u) = m_time (waits s u)" "m_task_tree s1 = m_task_tree s" "m_next_task s1 = m_next_task s"
    and l: "same_lists s s1"
  shows "wait_ok X s1 = wait_ok X s"
proof -
  note same = waiting_ok_cong [OF c w]
  show ?thesis using lists_ok_cong [OF l] by (simp add: wait_ok_def same)
qed

definition task_removed :: "nat \<Rightarrow> WaitState \<Rightarrow> WaitState" where
  "task_removed t s = update_wait t (\<lambda>w. w\<lparr>m_time := 0\<rparr>)
     (s\<lparr>m_task_tree := remove1 t (m_task_tree s),
        m_next_task := if m_next_task s = Some t then successor t (m_task_tree s) else m_next_task s\<rparr>)"

lemma task_removed_frame:
  "same_core s (task_removed t s)" "m_wait_queue (waits (task_removed t s) u) = m_wait_queue (waits s u)"
  "m_time (waits (task_removed t s) u) = (if u = t then 0 else m_time (waits s u))"
  "m_task_tree (task_removed t s) = remove1 t (m_task_tree s)"
  "user_memory (task_removed t s) = user_memory s" "m_tag (task_removed t s) = m_tag s" "same_lists s (task_removed t s)"
  by (simp_all add: task_removed_def same_core_def same_lists_def)

lemma RemoveTaskFromTree_ok:
  assumes ok: "tasks_ok s" and t: "0 < m_time (waits s t)"
  shows "RemoveTaskFromTree t s = Some (task_removed t s)" and "tasks_ok (task_removed t s)"
proof -
  have d: "distinct (m_task_tree s)" and m: "u \<in> set (m_task_tree s) \<longleftrightarrow> 0 < m_time (waits s u)" for u
    using ok by (simp_all add: tasks_ok_def)
  have mem: "t \<in> set (m_task_tree s)" using m t by simp
  then show "RemoveTaskFromTree t s = Some (task_removed t s)"
    by (simp add: RemoveTaskFromTree_def tree_erase_def task_removed_def)
  have "map (\<lambda>u. m_time (waits (task_removed t s) u)) (remove1 t (m_task_tree s)) =
      map (\<lambda>u. m_time (waits s u)) (remove1 t (m_task_tree s))"
    using d by (auto simp: task_removed_frame)
  moreover have "sorted (map (\<lambda>u. m_time (waits s u)) (remove1 t (m_task_tree s)))"
    using ok by (intro sorted_map_remove1) (simp add: tasks_ok_def)
  ultimately have "sorted (map (\<lambda>u. m_time (waits (task_removed t s) u)) (m_task_tree (task_removed t s)))"
    unfolding task_removed_frame(4) by (simp only:)
  moreover have "m_next_task (task_removed t s) = (case remove1 t (m_task_tree s) of [] \<Rightarrow> None | u # us \<Rightarrow> Some u)"
  proof (cases "m_task_tree s")
    case Nil
    then show ?thesis using mem by simp
  next
    case (Cons u us)
    then have "m_next_task s = Some u" using ok by (simp add: tasks_ok_def)
    then show ?thesis using Cons by (simp add: task_removed_def)
  qed
  ultimately show "tasks_ok (task_removed t s)"
    using d m unfolding tasks_ok_def task_removed_frame(4) by (simp add: task_removed_frame(3))
qed

lemma CancelTask_ok:
  assumes "tasks_ok s"
  obtains s1 where "CancelTask t s = Some s1" and "tasks_ok s1" and "same_core s s1" and "same_lists s s1"
    and "\<And>u. m_wait_queue (waits s1 u) = m_wait_queue (waits s u)"
    and "\<And>u. u \<noteq> t \<Longrightarrow> m_time (waits s1 u) = m_time (waits s u)" and "m_time (waits s1 t) \<le> 0"
proof (cases "0 < m_time (waits s t)")
  case True
  then show thesis using RemoveTaskFromTree_ok [OF assms True] that [of "task_removed t s"]
    by (simp add: CancelTask_def task_removed_frame)
next
  case False
  then show thesis using that [of s] assms by (simp add: CancelTask_def)
qed

section \<open>The end of a wait\<close>

definition ended :: "nat \<Rightarrow> WaitState \<Rightarrow> WaitState \<Rightarrow> bool" where
  "ended t s s1 \<longleftrightarrow> keeps s s1 \<and> GetLockOwner s1 = GetLockOwner s \<and> thread_tree s1 = thread_tree s \<and>
     GetPriority s1 = GetPriority s \<and> m_time (waits s1 t) \<le> 0 \<and> same_lists s s1 \<and> listed s1 = (listed s)(t := None) \<and>
     (\<forall>u. GetState s1 u = (if u = t then Runnable else GetState s u))"

lemma queues_ok_one:
  assumes "queues_ok X s" and "\<And>u. u \<noteq> t \<Longrightarrow> queue_ok s1 u = queue_ok s u"
  shows "queues_ok (insert t X) s1" and "queue_ok s1 t \<Longrightarrow> queues_ok (X - {t}) s1"
proof -
  show "queues_ok (insert t X) s1" using assms by (simp add: queues_ok_def)
  show "queues_ok (X - {t}) s1" if "queue_ok s1 t"
    unfolding queues_ok_def
  proof (intro allI impI)
    fix u assume "u \<notin> X - {t}"
    then show "queue_ok s1 u" using assms that by (cases "u = t") (simp_all add: queues_ok_def)
  qed
qed

lemma finish_wait_core:
  assumes ok: "waiting_ok X s" and w: "waits_in s t = None" and timer: "cancel \<or> m_time (waits s t) \<le> 0"
  obtains s1 where "finish_wait t r cancel s = Some s1" and "waiting_ok (insert t X) s1"
    and "m_condvar_tree (waits s t) = None \<Longrightarrow> waiting_ok (X - {t}) s1" and "ended t s s1"
    and "\<not> cancel \<Longrightarrow> m_task_tree s1 = m_task_tree s"
proof -
  let ?s = "update_wait t (\<lambda>w. w\<lparr>m_wait_result := r\<rparr>) s"
  have c0: "same_core s ?s" by (simp add: same_core_def)
  have sys0: "system_ok ?s" "inherits {} ?s" "flags_ok ?s" using waiting_okD [OF ok] same_core_effect [OF c0] by simp_all
  obtain k where k: "Thread_SetState t Runnable ?s = Some (?s\<lparr>kernel := k\<rparr>)" "kernel_ok k"
    "threads k = (threads (kernel s))(t := (threads (kernel s) t)\<lparr>m_thread_state :=
      (m_thread_state (threads (kernel s) t) AND NOT ThreadState_Mask) OR (Runnable AND ThreadState_Mask)\<rparr>)"
    using Thread_SetState_ok [of ?s t Runnable] system_okD(5) [OF sys0(1)] by auto
  let ?s1 = "?s\<lparr>kernel := k\<rparr>"
  have th: "m_priority (threads k u) = m_priority (threads (kernel s) u)"
    "m_num_kernel_waiters (threads k u) = m_num_kernel_waiters (threads (kernel s) u)"
    "IsDummyThread (threads k u) = IsDummyThread (threads (kernel s) u)"
    "m_suspend_allowed_flags (threads k u) = m_suspend_allowed_flags (threads (kernel s) u)" for u by (simp_all add: k(3))
  have sys1: "system_ok ?s1" "inherits {} ?s1"
    using system_kernel [OF sys0(1,2) k(2)] th by simp_all
  let ?s2 = "update_wait t (\<lambda>w. w\<lparr>m_wait_queue := None\<rparr>) ?s1"
  have c2: "same_core ?s1 ?s2" by (simp add: same_core_def)
  have t2: "tasks_ok ?s2" using waiting_okD(4) [OF ok] by (subst tasks_ok_cong [of _ s]) simp_all
  have time2: "m_time (waits ?s2 u) = m_time (waits s u)" for u by simp
  obtain s3 where s3: "(if cancel then CancelTask t ?s2 else Some ?s2) = Some s3" "tasks_ok s3" "same_core ?s2 s3"
    "\<And>u. m_wait_queue (waits s3 u) = m_wait_queue (waits ?s2 u)"
    "\<And>u. u \<noteq> t \<Longrightarrow> m_time (waits s3 u) = m_time (waits s u)" "m_time (waits s3 t) \<le> 0"
    "\<not> cancel \<Longrightarrow> m_task_tree s3 = m_task_tree s" "same_lists ?s2 s3"
  proof (cases cancel)
    case True
    then show thesis using CancelTask_ok [OF t2, of t] that unfolding time2 by (metis (full_types))
  next
    case False
    then show thesis using that [of ?s2] t2 timer by simp
  qed
  have c3: "same_core ?s1 s3" by (rule same_core_trans [OF c2 s3(3)])
  note core = same_coreD [OF c3] and eff = same_core_effect [OF c3]
  have st: "GetState s3 u = (if u = t then Runnable else GetState s u)" for u
    unfolding eff(3) by (simp add: GetState_def k(3) low_state)
  have own: "GetLockOwner s3 = GetLockOwner s" "GetPriority s3 = GetPriority s"
    using eff(1,2) same_core_effect(1,2) [OF c0] th(1) by (simp_all add: GetPriority_def fun_eq_iff)
  have f: "m_condvar_tree (waits s3 u) = m_condvar_tree (waits s u)" "m_condvar_key (waits s3 u) = m_condvar_key (waits s u)"
    "waits_in s3 u = waits_in s u" for u
    using core(10,11,6) by simp_all
  have same: "queue_ok s3 u = queue_ok s u" if "u \<noteq> t" for u
    using that s3(4,5) by (intro queue_ok_cong) (simp_all add: f st)
  have "flags_ok s3" using sys0(3) th(4) eff(6) by (simp add: flags_ok_def)
  then have all: "waiting_ok Y s3" if "queues_ok Y s3" for Y using that sys1 s3(2) eff(4,5) by (simp add: waiting_ok_def)
  have t: "queue_ok s3 t" if "m_condvar_tree (waits s t) = None" using that w s3(6) by (simp add: queue_ok_def st f)
  have "waiting_ok (insert t X) s3" using same by (intro all queues_ok_one(1) [OF waiting_okD(3) [OF ok]])
  moreover have "waiting_ok (X - {t}) s3" if "m_condvar_tree (waits s t) = None"
    using same t [OF that] by (intro all queues_ok_one(2) [OF waiting_okD(3) [OF ok]])
  moreover have "ended t s s3"
  proof -
    have "same_lists s ?s2" by (rule same_listsI) simp_all
    then have lists: "same_lists s s3" using s3(8) by (rule same_lists_trans)
    have "listed s3 u = ((listed s)(t := None)) u" for u using s3(4) by (cases "u = t") (simp_all add: listed_def st)
    then have "listed s3 = (listed s)(t := None)" by blast
    then show ?thesis using lists st own f core(4) s3(6) by (simp add: ended_def keeps_def)
  qed
  moreover have "finish_wait t r cancel s = Some s3" using k(1) s3(1) by (simp add: finish_wait_def Let_def)
  ultimately show thesis using s3(7) by (intro that [of s3])
qed

lemma finish_wait_ok:
  assumes ok: "waiting_ok X s" and lists: "lists_at ((listed s)(t := None)) s" and w: "waits_in s t = None"
    and timer: "cancel \<or> m_time (waits s t) \<le> 0"
  obtains s1 where "finish_wait t r cancel s = Some s1" and "wait_ok (insert t X) s1"
    and "m_condvar_tree (waits s t) = None \<Longrightarrow> wait_ok (X - {t}) s1" and "ended t s s1"
    and "\<not> cancel \<Longrightarrow> m_task_tree s1 = m_task_tree s"
proof -
  obtain s1 where s1: "finish_wait t r cancel s = Some s1" "waiting_ok (insert t X) s1"
    "m_condvar_tree (waits s t) = None \<Longrightarrow> waiting_ok (X - {t}) s1" "ended t s s1"
    "\<not> cancel \<Longrightarrow> m_task_tree s1 = m_task_tree s" by (rule finish_wait_core [OF ok w timer]) (rule that)
  then have "lists_ok s1" using lists lists_at_cong [of s s1] by (simp add: ended_def lists_ok_def)
  then show thesis using s1 by (intro that [of s1]) (simp_all add: wait_ok_def)
qed

lemma objects_changed [simp]:
  "waiting_ok X (s\<lparr>objects := l\<rparr>) = waiting_ok X s" "GetState (s\<lparr>objects := l\<rparr>) = GetState s" "listed (s\<lparr>objects := l\<rparr>) = listed s"
  "GetPriority (s\<lparr>objects := l\<rparr>) = GetPriority s" "GetLockOwner (s\<lparr>objects := l\<rparr>) = GetLockOwner s"
proof -
  have c: "same_core s (s\<lparr>objects := l\<rparr>)" by (simp add: same_core_def)
  note eff = same_core_effect [OF c]
  show "waiting_ok X (s\<lparr>objects := l\<rparr>) = waiting_ok X s" "listed (s\<lparr>objects := l\<rparr>) = listed s" by (rule waiting_ok_cong [OF c]; simp)+
  show "GetState (s\<lparr>objects := l\<rparr>) = GetState s" "GetPriority (s\<lparr>objects := l\<rparr>) = GetPriority s"
    "GetLockOwner (s\<lparr>objects := l\<rparr>) = GetLockOwner s" by (simp_all add: eff)
qed

lemma flag_changed [simp]:
  "waiting_ok X (update_wait t (\<lambda>w. w\<lparr>m_pinned_waiter_list := us\<rparr>) s) = waiting_ok X s"
  "listed (update_wait t (\<lambda>w. w\<lparr>m_pinned_waiter_list := us\<rparr>) s) = listed s"
  "waiting_ok X (update_wait t (\<lambda>w. w\<lparr>m_cancellable := b\<rparr>) s) = waiting_ok X s"
  "listed (update_wait t (\<lambda>w. w\<lparr>m_cancellable := b\<rparr>) s) = listed s"
  "waiting_ok X (update_wait t (\<lambda>w. w\<lparr>m_synced_index := i, m_cancellable := b\<rparr>) s) = waiting_ok X s"
  "listed (update_wait t (\<lambda>w. w\<lparr>m_synced_index := i, m_cancellable := b\<rparr>) s) = listed s"
proof -
  have c: "same_core s (update_wait t (\<lambda>w. w\<lparr>m_pinned_waiter_list := us\<rparr>) s)" "same_core s (update_wait t (\<lambda>w. w\<lparr>m_cancellable := b\<rparr>) s)"
    "same_core s (update_wait t (\<lambda>w. w\<lparr>m_synced_index := i, m_cancellable := b\<rparr>) s)"
    by (simp_all add: same_core_def)
  show "waiting_ok X (update_wait t (\<lambda>w. w\<lparr>m_pinned_waiter_list := us\<rparr>) s) = waiting_ok X s"
    "listed (update_wait t (\<lambda>w. w\<lparr>m_pinned_waiter_list := us\<rparr>) s) = listed s" by (rule waiting_ok_cong [OF c(1)]; simp)+
  show "waiting_ok X (update_wait t (\<lambda>w. w\<lparr>m_cancellable := b\<rparr>) s) = waiting_ok X s"
    "listed (update_wait t (\<lambda>w. w\<lparr>m_cancellable := b\<rparr>) s) = listed s" by (rule waiting_ok_cong [OF c(2)]; simp)+
  show "waiting_ok X (update_wait t (\<lambda>w. w\<lparr>m_synced_index := i, m_cancellable := b\<rparr>) s) = waiting_ok X s"
    "listed (update_wait t (\<lambda>w. w\<lparr>m_synced_index := i, m_cancellable := b\<rparr>) s) = listed s" by (rule waiting_ok_cong [OF c(3)]; simp)+
qed

definition ends :: "ThreadQueueKind \<Rightarrow> bool" where
  "ends k \<longleftrightarrow> k \<noteq> ForThreadSleep \<and> (\<forall>obs. k \<noteq> ForSynchronizationObjects obs)"

lemma place_ends: "place_ok k True tr \<Longrightarrow> ends k" "place_ok k b (Some v) \<Longrightarrow> ends k"
  by (cases k; simp add: ends_def)+

lemma KThread_EndWait_core:
  assumes ok: "waiting_ok {t} s" and st: "GetState s t = Waiting" and q: "m_wait_queue (waits s t) = Some q"
    "ends (queue_kind q)" "0 < m_time (waits s t) \<longrightarrow> m_hardware_timer q" and w: "waits_in s t = None"
  obtains s1 where "KThread_EndWait t r s = Some s1" and "waiting_ok {t} s1"
    and "m_condvar_tree (waits s t) = None \<Longrightarrow> waiting_ok {} s1" and "ended t s s1"
proof -
  have timer: "m_hardware_timer q \<or> m_time (waits s t) \<le> 0" using q(3) by auto
  obtain l where l: "KThread_EndWait t r s = finish_wait t r (m_hardware_timer q) (s\<lparr>objects := l\<rparr>)"
    "same_lists s (s\<lparr>objects := l\<rparr>)"
  proof (cases "queue_kind q")
    case (ForUserException p)
    then show thesis using st q that [of "(objects s)\<lparr>m_exception_thread := (m_exception_thread (objects s))(p := Some t)\<rparr>"]
      by (simp add: KThread_EndWait_def KThreadQueue_EndWait_def set_exception_thread_def same_lists_def)
  qed (use st q that [of "objects s"] in \<open>simp_all add: KThread_EndWait_def KThreadQueue_EndWait_def ends_def\<close>)
  let ?s = "s\<lparr>objects := l\<rparr>"
  have ok': "waiting_ok {t} ?s" using ok by simp
  have w': "waits_in ?s t = None" "m_hardware_timer q \<or> m_time (waits ?s t) \<le> 0" using w timer by simp_all
  obtain s1 where s1: "finish_wait t r (m_hardware_timer q) ?s = Some s1" "waiting_ok (insert t {t}) s1"
    "m_condvar_tree (waits ?s t) = None \<Longrightarrow> waiting_ok ({t} - {t}) s1" "ended t ?s s1"
    by (rule finish_wait_core [OF ok' w']) (rule that)
  have "ended t s s1" using s1(4) same_lists_trans [OF l(2), of s1] by (simp add: ended_def keeps_def)
  then show thesis using s1 l(1) by (intro that [of s1]) simp_all
qed

lemma KThread_EndWait_ok:
  assumes ok: "wait_ok {t} s" and st: "GetState s t = Waiting" and q: "m_wait_queue (waits s t) = Some q"
    "ends (queue_kind q)" "0 < m_time (waits s t) \<longrightarrow> m_hardware_timer q" and w: "waits_in s t = None"
    and off: "off_list (Some (queue_kind q))"
  obtains s1 where "KThread_EndWait t r s = Some s1" and "wait_ok {t} s1"
    and "m_condvar_tree (waits s t) = None \<Longrightarrow> wait_ok {} s1" and "ended t s s1"
proof -
  obtain s1 where s1: "KThread_EndWait t r s = Some s1" "waiting_ok {t} s1"
    "m_condvar_tree (waits s t) = None \<Longrightarrow> waiting_ok {} s1" "ended t s s1"
    by (rule KThread_EndWait_core [OF wait_okD(7) [OF ok] st q w]) (rule that)
  have "listed s t = Some (queue_kind q)" using st q(1) by (simp add: listed_def)
  then have "lists_at ((listed s)(t := None)) s = lists_ok s" using off by (simp add: lists_ok_def lists_at_off)
  then have "lists_ok s1" using wait_okD(6) [OF ok] s1(4) lists_at_cong [of s s1] by (simp add: ended_def lists_ok_def)
  then show thesis using s1 by (intro that [of s1]) (simp_all add: wait_ok_def)
qed

section \<open>Leaving a tree\<close>

definition left_tree :: "ThreadTree \<Rightarrow> nat \<Rightarrow> WaitState \<Rightarrow> WaitState" where
  "left_tree tr t s = update_wait t (\<lambda>w. w\<lparr>m_condvar_tree := None\<rparr>) (update_tree tr (remove1 t) s)"

lemma left_tree_frame [simp]:
  "kernel (left_tree tr t s) = kernel s" "waits (left_tree tr t s) = (waits s)(t := waits s t\<lparr>m_condvar_tree := None\<rparr>)"
  "lock_infos (left_tree tr t s) = lock_infos s" "free_lock_infos (left_tree tr t s) = free_lock_infos s"
  "thread_tree (left_tree tr t s) = (thread_tree s)(tr := remove1 t (thread_tree s tr))"
  "m_task_tree (left_tree tr t s) = m_task_tree s" "m_next_task (left_tree tr t s) = m_next_task s"
  "GetPriority (left_tree tr t s) = GetPriority s" "objects (left_tree tr t s) = objects s"
  by (simp_all add: left_tree_def)

lemma leaving:
  assumes "t \<in> set (thread_tree s tr)"
  shows "map_option (update_wait t (\<lambda>w. w\<lparr>m_condvar_tree := None\<rparr>)) (tree_erase_thread tr t s) = Some (left_tree tr t s)"
    and "tree_erase_thread tr t (update_wait t (\<lambda>w. w\<lparr>m_condvar_tree := None\<rparr>) s) = Some (left_tree tr t s)"
  using assms by (simp_all add: tree_erase_thread_def tree_erase_def left_tree_def update_tree_def update_wait_def)

lemma left_tree_ok:
  assumes ok: "wait_ok X s" and t: "m_condvar_tree (waits s t) = Some tr"
  shows "wait_ok (insert t X) (left_tree tr t s)" and "GetLockOwner (left_tree tr t s) = GetLockOwner s"
    and "GetState (left_tree tr t s) = GetState s" and "t \<in> set (thread_tree s tr)" and "waits_in s t = None"
proof -
  let ?s = "left_tree tr t s"
  note sys = system_okD [OF wait_okD(1) [OF ok]]
  have f: "held ?s u = held s u" "waits_in ?s u = waits_in s u" "m_address_key (waits ?s u) = m_address_key (waits s u)"
    "m_is_kernel_address_key (waits ?s u) = m_is_kernel_address_key (waits s u)" "m_base_priority (waits ?s u) = m_base_priority (waits s u)"
    "m_condvar_key (waits ?s u) = m_condvar_key (waits s u)" "m_time (waits ?s u) = m_time (waits s u)"
    "m_wait_queue (waits ?s u) = m_wait_queue (waits s u)" for u by simp_all
  have l: "lock_infos ?s = lock_infos s" "free_lock_infos ?s = free_lock_infos s" "kernel ?s = kernel s"
    "GetPriority ?s = GetPriority s" by simp_all
  show own: "GetLockOwner ?s = GetLockOwner s" by (simp add: GetLockOwner_def f l fun_eq_iff del: left_tree_frame(2,3) cong: option.case_cong)
  show st: "GetState ?s = GetState s" by (simp add: GetState_def fun_eq_iff)
  show mem: "t \<in> set (thread_tree s tr)" using treesD(3) [OF sys(2)] t by simp
  show "waits_in s t = None" using treesD(4) [OF sys(2), of t] t by simp
  have cmp: "ConditionVariableComparator ?s = ConditionVariableComparator s"
    unfolding ConditionVariableComparator_def f l ..
  have "trees_ok ?s"
  proof (rule treesI)
    show "distinct (thread_tree ?s v)" for v using treesD(1) [OF sys(2)] by simp
    show "sorted_wrt (\<lambda>a b. \<not> ConditionVariableComparator ?s b a) (thread_tree ?s v)" for v
      using treesD(2) [OF sys(2), of v] sorted_remove1 [OF treesD(2) [OF sys(2), of tr]] unfolding cmp by simp
    show "u \<in> set (thread_tree ?s v) \<longleftrightarrow> m_condvar_tree (waits ?s u) = Some v" for v u
      using treesD(3) [OF sys(2), of u v] treesD(1) [OF sys(2), of tr] t by (cases "u = t") auto
    show "m_condvar_tree (waits ?s u) \<noteq> None \<Longrightarrow> waits_in ?s u = None" for u
      using treesD(4) [OF sys(2), of u] by (cases "u = t") simp_all
  qed
  moreover have "locks_ok {} ?s" using sys(1) unfolding locks_ok_def lock_ok_def slab_ok_def f l .
  moreover have "counts_ok ?s" using sys(3) unfolding counts_ok_def kernel_waiters_def f l .
  moreover have "bases_ok ?s" using sys(4) unfolding bases_ok_def GetBasePriority_def f l .
  ultimately have s1: "system_ok ?s" using sys(5) by (simp add: system_ok_def)
  have "inherits {} ?s" using wait_okD(2) [OF ok] unfolding inherits_def best_priority_def GetBasePriority_def own f l .
  moreover have "tasks_ok ?s" using wait_okD(4) [OF ok] by (subst tasks_ok_cong [of _ s]) simp_all
  moreover have "queues_ok (insert t X) ?s"
    by (rule queues_ok_one(1) [OF wait_okD(3) [OF ok]]) (rule queue_ok_cong, simp_all add: st)
  moreover have "flags_ok ?s" using wait_okD(5) [OF ok] by (simp add: flags_ok_def)
  moreover have "listed ?s = listed s" by (rule listed_cong) (simp_all add: st)
  then have "lists_ok ?s" using wait_okD(6) [OF ok] lists_ok_cong [OF same_listsI [of ?s s]] by simp
  ultimately show "wait_ok (insert t X) ?s" using s1 by (intro wait_okI)
qed

section \<open>Lists of nodes\<close>

lemma chain_cong: "(\<And>n. n \<in> set ns \<Longrightarrow> f n = g n) \<Longrightarrow> chain f h ns = chain g h ns"
  by (induction ns arbitrary: h) simp_all

text \<open>The search meets the nodes in order; what it returns is the node in front of the one it looks for.\<close>

lemma find_prev_ok:
  assumes "chain (node_next l) (next_of l ob prev) (as @ node # bs)" and "node \<notin> set as"
  shows "find_prev l ob node prev val =
    Some (if as = [] then (prev, val) else (Some (last as), Some (last as)))"
  using assms
proof (induction as arbitrary: prev val)
  case Nil
  then show ?case by (subst find_prev.simps) simp
next
  case (Cons a as)
  have "next_of l ob prev = Some a" "chain (node_next l) (next_of l ob (Some a)) (as @ node # bs)" "a \<noteq> node" "node \<notin> set as"
    using Cons.prems by (auto simp: next_of_def [of l ob "Some a"])
  then show ?case using Cons.IH by (subst find_prev.simps) auto
qed

lemma chain_unlink:
  assumes "chain f h (as @ node # bs)" and "distinct (as @ node # bs)"
  shows "chain (if as = [] then f else f(last as := f node)) (if as = [] then f node else h) (as @ bs)"
  using assms
proof (induction as arbitrary: h)
  case Nil
  then show ?case by simp
next
  case (Cons a as)
  show ?case
  proof (cases "as = []")
    case True
    have "chain (f(a := f node)) (f node) bs = chain f (f node) bs" using Cons.prems(2) True by (intro chain_cong) auto
    then show ?thesis using Cons.prems True by (simp add: fun_upd_def)
  next
    case False
    have "a \<noteq> last as" using Cons.prems(2) False by auto
    then show ?thesis using Cons.IH [of "f a"] Cons.prems False by simp
  qed
qed

lemma UnlinkNode_ok:
  assumes ok: "objects_ok N W l" and n: "W t i = Some ob"
  obtains l1 where "UnlinkNode ob (t, i) l = Some l1"
    and "objects_ok (N(ob := remove1 (t, i) (N ob))) (W(t := (W t)(i := None))) l1"
    and "m_signaled l1 = m_signaled l" and "m_exception_thread l1 = m_exception_thread l"
proof -
  have mem: "(u, j) \<in> set (N v) \<longleftrightarrow> W u j = Some v" and nodes: "nodes_ok l v (N v)" for u j v
    using ok by (simp_all add: objects_ok_def)
  have "(t, i) \<in> set (N ob)" using mem n by simp
  then obtain as bs where N: "N ob = as @ (t, i) # bs" "(t, i) \<notin> set as" using split_list_first by metis
  have d: "distinct (as @ (t, i) # bs)" and c: "chain (node_next l) (m_thread_list_head l ob) (as @ (t, i) # bs)"
    and final: "m_thread_list_tail l ob = Some (last (as @ (t, i) # bs))"
    using nodes [of ob] N(1) by (simp_all add: nodes_ok_def)
  define prev where "prev = (if as = [] then None else Some (last as))"
  have f: "find_prev l ob (t, i) None None = Some (prev, prev)"
    using find_prev_ok [of l ob None as "(t, i)" bs None] c N(2) by (simp add: next_of_def prev_def)
  define l1 where "l1 = l\<lparr>
      m_thread_list_head := if as = [] then (m_thread_list_head l)(ob := node_next l (t, i)) else m_thread_list_head l,
      m_thread_list_tail := if bs = [] then (m_thread_list_tail l)(ob := prev) else m_thread_list_tail l,
      node_next := if as = [] then node_next l else (node_next l)(last as := node_next l (t, i))\<rparr>"
  have "m_thread_list_tail l ob = Some (t, i) \<longleftrightarrow> bs = []" using final d by (cases bs rule: rev_cases) auto
  then have u: "UnlinkNode ob (t, i) l = Some l1"
    by (cases "as = []"; cases "bs = []") (simp_all add: UnlinkNode_def f prev_def l1_def)
  have r: "remove1 (t, i) (N ob) = as @ bs" using N by (simp add: remove1_append)
  have "nodes_ok l1 v ((N(ob := as @ bs)) v)" for v
  proof (cases "v = ob")
    case True
    have "chain (node_next l1) (m_thread_list_head l1 ob) (as @ bs)"
      using chain_unlink [OF c d] by (cases "as = []") (simp_all add: l1_def)
    moreover have "m_thread_list_tail l1 ob = (if as @ bs = [] then None else Some (last (as @ bs)))"
      using final by (cases "bs = []") (simp_all add: l1_def prev_def)
    ultimately show ?thesis using True d by (simp add: nodes_ok_def)
  next
    case False
    have "chain (node_next l1) (m_thread_list_head l v) (N v) = chain (node_next l) (m_thread_list_head l v) (N v)"
    proof (rule chain_cong)
      fix n
      assume "n \<in> set (N v)"
      then have "as \<noteq> [] \<Longrightarrow> n \<noteq> last as" using mem [of "fst n" "snd n" v] mem [of "fst n" "snd n" ob] N(1) False
        by (cases as rule: rev_cases) auto
      then show "node_next l1 n = node_next l n" by (simp add: l1_def)
    qed
    moreover have "m_thread_list_head l1 v = m_thread_list_head l v" "m_thread_list_tail l1 v = m_thread_list_tail l v"
      using False by (simp_all add: l1_def)
    ultimately show ?thesis using nodes [of v] False by (simp add: nodes_ok_def)
  qed
  moreover have "(u, j) \<in> set ((N(ob := as @ bs)) v) \<longleftrightarrow> (W(t := (W t)(i := None))) u j = Some v" for u j v
    using mem [of u j v] N d n by (cases "v = ob"; cases "u = t"; cases "j = i") auto
  ultimately have "objects_ok (N(ob := remove1 (t, i) (N ob))) (W(t := (W t)(i := None))) l1" unfolding r by (simp add: objects_ok_def)
  then show thesis using u by (intro that [of l1]) (simp_all add: l1_def)
qed

text \<open>All nodes of a thread from a place on are unlinked, or linked at the end of the lists.\<close>

definition nodes_left :: "nat \<Rightarrow> nat \<Rightarrow> nat \<Rightarrow> SyncNode list \<Rightarrow> SyncNode list" where
  "nodes_left t i k ns = filter (\<lambda>n. \<not> (fst n = t \<and> i \<le> snd n \<and> snd n < i + k)) ns"

lemma unlink_nodes_ok:
  assumes "objects_ok N W l" and "\<forall>j < length obs. W t (i + j) = Some (obs ! j)"
  shows "\<exists>l1. unlink_nodes t i obs l = Some l1 \<and>
    objects_ok (\<lambda>v. nodes_left t i (length obs) (N v)) (W(t := \<lambda>j. if i \<le> j \<and> j < i + length obs then None else W t j)) l1 \<and>
    m_signaled l1 = m_signaled l \<and> m_exception_thread l1 = m_exception_thread l"
  using assms
proof (induction obs arbitrary: i N W l)
  case Nil
  have "W(t := \<lambda>j. if i \<le> j \<and> j < i + length [] then None else W t j) = W" by (auto simp: fun_eq_iff)
  then show ?case using Nil.prems(1) by (simp add: nodes_left_def not_less [symmetric])
next
  case (Cons ob obs)
  have w: "W t i = Some ob" using Cons.prems(2) [rule_format, of 0] by simp
  obtain l1 where l1: "UnlinkNode ob (t, i) l = Some l1"
    "objects_ok (N(ob := remove1 (t, i) (N ob))) (W(t := (W t)(i := None))) l1"
    "m_signaled l1 = m_signaled l" "m_exception_thread l1 = m_exception_thread l"
    by (rule UnlinkNode_ok [OF Cons.prems(1) w]) (rule that)
  have "\<forall>j < length obs. (W(t := (W t)(i := None))) t (i + 1 + j) = Some (obs ! j)"
    using Cons.prems(2) by (auto dest: spec [of _ "Suc _"])
  from Cons.IH [OF l1(2) this] obtain l2 where l2: "unlink_nodes t (i + 1) obs l1 = Some l2"
    "objects_ok (\<lambda>v. nodes_left t (i + 1) (length obs) ((N(ob := remove1 (t, i) (N ob))) v))
      ((W(t := (W t)(i := None)))(t := \<lambda>j. if i + 1 \<le> j \<and> j < i + 1 + length obs then None else (W(t := (W t)(i := None))) t j)) l2"
    "m_signaled l2 = m_signaled l1" "m_exception_thread l2 = m_exception_thread l1" by blast
  have mem: "(t, i) \<in> set (N v) \<longleftrightarrow> v = ob" and d: "distinct (N v)" for v
    using Cons.prems(1) w by (auto simp: objects_ok_def nodes_ok_def)
  have eqN: "nodes_left t (i + 1) (length obs) ((N(ob := remove1 (t, i) (N ob))) v) = nodes_left t i (length (ob # obs)) (N v)" for v
  proof -
    have "(N(ob := remove1 (t, i) (N ob))) v = filter (\<lambda>n. n \<noteq> (t, i)) (N v)"
    proof (cases "v = ob")
      case True
      then show ?thesis using d [of v] by (simp add: distinct_remove1_removeAll removeAll_filter_not_eq eq_commute)
    next
      case False
      then have "filter (\<lambda>n. n \<noteq> (t, i)) (N v) = N v" using mem [of v] by (intro filter_True) auto
      then show ?thesis using False by simp
    qed
    then show ?thesis unfolding nodes_left_def by (auto intro: filter_cong)
  qed
  have eqW: "(W(t := (W t)(i := None)))(t := \<lambda>j. if i + 1 \<le> j \<and> j < i + 1 + length obs then None else (W(t := (W t)(i := None))) t j) =
      W(t := \<lambda>j. if i \<le> j \<and> j < i + length (ob # obs) then None else W t j)"
    by (auto simp: fun_eq_iff)
  have "objects_ok (\<lambda>v. nodes_left t i (length (ob # obs)) (N v))
      (W(t := \<lambda>j. if i \<le> j \<and> j < i + length (ob # obs) then None else W t j)) l2"
    using l2(2) unfolding eqN eqW .
  moreover have "unlink_nodes t i (ob # obs) l = Some l2" using l1(1) l2(1) by simp
  moreover have "m_signaled l2 = m_signaled l" "m_exception_thread l2 = m_exception_thread l" using l1(3,4) l2(3,4) by simp_all
  ultimately show ?case by (intro exI [of _ l2] conjI)
qed

lemma LinkNode_ok:
  assumes ok: "objects_ok N W l" and n: "W t i = None"
  shows "objects_ok (N(ob := N ob @ [(t, i)])) (W(t := (W t)(i := Some ob)))
      (LinkNode ob (t, i) (l\<lparr>node_next := (node_next l)((t, i) := None)\<rparr>))" (is "objects_ok _ _ ?l")
proof -
  have mem: "(u, j) \<in> set (N v) \<longleftrightarrow> W u j = Some v" and nodes: "nodes_ok l v (N v)" for u j v
    using ok by (simp_all add: objects_ok_def)
  have out: "(t, i) \<notin> set (N v)" for v using mem n by simp
  have c: "distinct (N v)" "chain (node_next l) (m_thread_list_head l v) (N v)"
    "m_thread_list_tail l v = (if N v = [] then None else Some (last (N v)))" for v using nodes [of v] by (simp_all add: nodes_ok_def)
  have extend: "chain ((f((t, i) := None))(last ns := Some (t, i))) h (ns @ [(t, i)])"
    if "chain f h ns" "ns \<noteq> []" "distinct ns" "(t, i) \<notin> set ns" for f h ns
    using that
  proof (induction ns arbitrary: h)
    case (Cons a ns)
    then show ?case by (cases "ns = []") auto
  qed simp
  have "nodes_ok ?l v ((N(ob := N ob @ [(t, i)])) v)" for v
  proof (cases "v = ob")
    case True
    show ?thesis
    proof (cases "N ob = []")
      case True
      then show ?thesis using \<open>v = ob\<close> c(3) [of ob] by (simp add: nodes_ok_def LinkNode_def)
    next
      case False
      then show ?thesis using \<open>v = ob\<close> c [of ob] out [of ob] extend [OF c(2) False c(1) out] by (simp add: nodes_ok_def LinkNode_def)
    qed
  next
    case False
    have "node_next ?l n = node_next l n" if "n \<in> set (N v)" for n
    proof -
      have "N ob \<noteq> [] \<Longrightarrow> n \<noteq> last (N ob)"
        using that mem [of "fst n" "snd n" v] mem [of "fst n" "snd n" ob] last_in_set [of "N ob"] False by auto
      then show ?thesis using that out [of v] c(3) [of ob] by (auto simp: LinkNode_def)
    qed
    then have "chain (node_next ?l) (m_thread_list_head ?l v) (N v)"
      using chain_cong [of "N v" "node_next ?l" "node_next l" "m_thread_list_head l v"] c(2) [of v] False
      by (auto simp: LinkNode_def split: option.split)
    moreover have "m_thread_list_tail ?l v = m_thread_list_tail l v" using False by (auto simp: LinkNode_def split: option.split)
    ultimately show ?thesis using c(1,3) [of v] False by (simp add: nodes_ok_def)
  qed
  moreover have "(u, j) \<in> set ((N(ob := N ob @ [(t, i)])) v) \<longleftrightarrow> (W(t := (W t)(i := Some ob))) u j = Some v" for u j v
    using mem [of u j v] out [of v] n by (cases "v = ob"; cases "u = t"; cases "j = i") auto
  ultimately show ?thesis by (simp add: objects_ok_def)
qed

lemma link_nodes_ok:
  assumes "objects_ok N W l" and "\<forall>j. i \<le> j \<longrightarrow> W t j = None"
  shows "\<exists>N1. objects_ok N1 (W(t := \<lambda>j. if i \<le> j \<and> j < i + length obs then Some (obs ! (j - i)) else W t j)) (link_nodes t i obs l)"
  using assms
proof (induction obs arbitrary: i N W l)
  case Nil
  have "W(t := \<lambda>j. if i \<le> j \<and> j < i + length [] then Some ([] ! (j - i)) else W t j) = W" by (auto simp: fun_eq_iff)
  note same = this
  show ?case unfolding same link_nodes.simps using Nil.prems(1) by blast
next
  case (Cons ob obs)
  have "W t i = None" using Cons.prems(2) by simp
  note l1 = LinkNode_ok [OF Cons.prems(1) this, of ob]
  have "\<forall>j. i + 1 \<le> j \<longrightarrow> (W(t := (W t)(i := Some ob))) t j = None" using Cons.prems(2) by simp
  from Cons.IH [OF l1 this] obtain N1 where
    "objects_ok N1 ((W(t := (W t)(i := Some ob)))(t := \<lambda>j. if i + 1 \<le> j \<and> j < i + 1 + length obs then Some (obs ! (j - (i + 1)))
        else (W(t := (W t)(i := Some ob))) t j)) (link_nodes t i (ob # obs) l)"
    unfolding link_nodes.simps by blast
  moreover have "(W(t := (W t)(i := Some ob)))(t := \<lambda>j. if i + 1 \<le> j \<and> j < i + 1 + length obs then Some (obs ! (j - (i + 1)))
        else (W(t := (W t)(i := Some ob))) t j) =
      W(t := \<lambda>j. if i \<le> j \<and> j < i + length (ob # obs) then Some ((ob # obs) ! (j - i)) else W t j)"
    by (auto simp: fun_eq_iff nth_Cons')
  ultimately have "objects_ok N1 (W(t := \<lambda>j. if i \<le> j \<and> j < i + length (ob # obs) then Some ((ob # obs) ! (j - i)) else W t j))
      (link_nodes t i (ob # obs) l)" by (simp only:)
  then show ?case by (intro exI [of _ N1])
qed

section \<open>A wait is cancelled\<close>

text \<open>The thread leaves its lock, then its tree; what is left is a thread that waits for nothing.\<close>

lemma remove_from_owner_ok:
  assumes ok: "wait_ok {t} s"
  obtains s1 where "remove_from_owner cur t s = Some s1" and "wait_ok {t} s1" and "waits_in s1 t = None"
    and "same_rest s s1" and "same_threads s s1"
proof (cases "GetLockOwner s t")
  case None
  then show thesis using that [of s] ok lock_owner_None [OF system_okD(1) [OF wait_okD(1) [OF ok]], of t]
    by (simp add: remove_from_owner_def)
next
  case (Some u)
  obtain s1 where s1: "RemoveWaiter cur u t s = Some s1" "system_ok s1" "inherits {} s1"
    "GetLockOwner s1 = (GetLockOwner s)(t := None)" "same_rest s s1" "same_threads s s1"
    by (rule RemoveWaiter_ok [OF wait_okD(1,2) [OF ok] Some]) (rule that)
  have "wait_ok ({t} \<union> {t}) s1" using s1(4) by (intro lock_operation_ok [OF ok s1(2,3,5,6)]) simp
  moreover have "waits_in s1 t = None" using s1(4) lock_owner_None [OF system_okD(1) [OF s1(2)], of t] by simp
  ultimately show thesis using s1 Some by (intro that [of s1]) (simp_all add: remove_from_owner_def)
qed

lemma remove_from_tree_ok:
  assumes ok: "wait_ok {t} s" and tr: "m_condvar_tree (waits s t) = None \<or> m_condvar_tree (waits s t) = Some tr"
    and w: "waits_in s t = None"
  obtains s1 where "remove_from_tree tr t s = Some s1" and "wait_ok {t} s1" and "m_condvar_tree (waits s1 t) = None"
    and "waits_in s1 t = None" and "m_task_tree s1 = m_task_tree s" and "m_wait_queue (waits s1 t) = m_wait_queue (waits s t)"
    and "m_time (waits s1 t) = m_time (waits s t)" and "GetState s1 = GetState s"
proof (cases "m_condvar_tree (waits s t)")
  case None
  then show thesis using that [of s] ok w by (simp add: remove_from_tree_def)
next
  case (Some v)
  then have v: "m_condvar_tree (waits s t) = Some tr" using tr by simp
  note l = left_tree_ok [OF ok v]
  show thesis using l leaving(1) [OF l(4)] v w by (intro that [of "left_tree tr t s"]) (simp_all add: remove_from_tree_def)
qed

lemma off_lists:
  assumes "wait_ok X s" and "off_list (listed s t)"
  shows "lists_at ((listed s)(t := None)) s"
  using assms by (simp add: wait_ok_def lists_ok_def lists_at_off)

text \<open>The nodes of a thread that waits for objects can all be unlinked.\<close>

lemma unlink_all_ok:
  assumes ok: "lists_ok s" and on: "listed s t = Some (ForSynchronizationObjects obs)"
  obtains l where "unlink_nodes t 0 obs (objects s) = Some l" and "m_signaled l = m_signaled (objects s)"
    and "lists_at ((listed s)(t := None)) (s\<lparr>objects := l\<rparr>)"
    and "\<And>N. objects_ok N (\<lambda>u. object_at (listed s u)) (objects s) \<Longrightarrow>
      objects_ok (\<lambda>v. filter (\<lambda>n. fst n \<noteq> t) (N v)) (\<lambda>u. object_at (((listed s)(t := None)) u)) l"
proof -
  let ?W = "\<lambda>u. object_at (listed s u)" and ?W1 = "\<lambda>u. object_at (((listed s)(t := None)) u)"
  obtain N where N: "objects_ok N ?W (objects s)" using ok unfolding lists_ok_def lists_at_def by blast
  have at: "\<forall>j < length obs. ?W t (0 + j) = Some (obs ! j)" and beyond: "\<not> j < length obs \<Longrightarrow> ?W t j = None" for j by (simp_all add: on)
  have W1: "?W(t := \<lambda>j. if 0 \<le> j \<and> j < 0 + length obs then None else ?W t j) = ?W1" using beyond by (auto simp: fun_eq_iff)
  obtain l where l: "unlink_nodes t 0 obs (objects s) = Some l" "m_signaled l = m_signaled (objects s)"
    using unlink_nodes_ok [OF N at] by blast
  have left: "objects_ok (\<lambda>v. filter (\<lambda>n. fst n \<noteq> t) (N v)) ?W1 l" if N: "objects_ok N ?W (objects s)" for N
  proof -
    have "objects_ok (\<lambda>v. nodes_left t 0 (length obs) (N v)) ?W1 l" using unlink_nodes_ok [OF N at] l(1) unfolding W1 by auto
    moreover have "nodes_left t 0 (length obs) (N v) = filter (\<lambda>n. fst n \<noteq> t) (N v)" for v
      unfolding nodes_left_def
    proof (rule filter_cong [OF refl])
      fix n
      assume "n \<in> set (N v)"
      then have "(fst n, snd n) \<in> set (N v)" by simp
      then have "?W (fst n) (snd n) = Some v" using N unfolding objects_ok_def by blast
      then show "(\<not> (fst n = t \<and> 0 \<le> snd n \<and> snd n < 0 + length obs)) = (fst n \<noteq> t)" using beyond [of "snd n"] by auto
    qed
    ultimately show ?thesis by simp
  qed
  have pin: "pinned_at (((listed s)(t := None)) u) = pinned_at (listed s u)" for u using on by simp
  have "lists_at ((listed s)(t := None)) (s\<lparr>objects := l\<rparr>)"
    using left [OF N] ok unfolding lists_ok_def lists_at_def pin by auto
  then show thesis using l left by (intro that [of l])
qed

lemma erase_pinned_ok:
  assumes ok: "lists_ok s" and on: "listed s t = Some (ForThreadSetProperty u)"
  shows "erase_pinned_waiter u t s = Some (update_wait u (\<lambda>w. w\<lparr>m_pinned_waiter_list := remove1 t (pinned_waiters s u)\<rparr>) s)" (is "_ = Some ?s")
    and "lists_at ((listed s)(t := None)) (update_wait u (\<lambda>w. w\<lparr>m_pinned_waiter_list := remove1 t (pinned_waiters s u)\<rparr>) s)"
proof -
  have p: "distinct (pinned_waiters s v)" "w \<in> set (pinned_waiters s v) \<longleftrightarrow> pinned_at (listed s w) = Some v" for v w
    using ok by (simp_all add: lists_ok_def lists_at_def)
  then show "erase_pinned_waiter u t s = Some ?s" using on by (simp add: erase_pinned_waiter_def tree_erase_def)
  have "object_at (((listed s)(t := None)) v) = object_at (listed s v)" for v using on by (simp add: fun_eq_iff)
  moreover have "w \<in> set (pinned_waiters ?s v) \<longleftrightarrow> pinned_at (((listed s)(t := None)) w) = Some v" for v w
    using p(1) [of v] p(2) [of w v] p(2) [of w u] on by (cases "v = u"; cases "w = t") auto
  ultimately show "lists_at ((listed s)(t := None)) ?s" using ok p(1) by (simp add: lists_ok_def lists_at_def)
qed

lemma leave_queue_ok:
  assumes ok: "wait_ok {} s" and st: "GetState s t = Waiting" and q: "m_wait_queue (waits s t) = Some q"
    "place_ok (queue_kind q) (waits_in s t \<noteq> None) (m_condvar_tree (waits s t))"
  shows "\<exists>s1. leave_queue cur q t s = Some s1 \<and> waiting_ok {t} s1 \<and> lists_at ((listed s1)(t := None)) s1 \<and> waits_in s1 t = None \<and>
    m_condvar_tree (waits s1 t) = None \<and> m_task_tree s1 = m_task_tree s \<and> m_time (waits s1 t) = m_time (waits s t)"
proof -
  have ok1: "wait_ok {t} s" using ok by (simp add: wait_ok_def waiting_ok_def queues_ok_def)
  have on: "listed s t = Some (queue_kind q)" using st q(1) by (simp add: listed_def)
  obtain s1 where s1: "remove_from_owner cur t s = Some s1" "wait_ok {t} s1" "waits_in s1 t = None" "same_rest s s1" "same_threads s s1"
    by (rule remove_from_owner_ok [OF ok1]) (rule that)
  note rest = same_rest_members [OF s1(4)]
  have on1: "listed s1 t = Some (queue_kind q)" using st q(1) by (simp add: listed_def rest GetState_threads [OF s1(5)])
  have off1: "waiting_ok {t} s1 \<and> lists_at ((listed s1)(t := None)) s1" if "off_list (Some (queue_kind q))"
    using wait_okD(7) [OF s1(2)] off_lists [OF s1(2)] that on1 by simp
  have addr: ?thesis if at: "leave_queue cur q t s = (case GetLockOwner s t of None \<Rightarrow> None | Some owner \<Rightarrow> RemoveWaiter cur owner t s)"
    and k: "waits_in s t \<noteq> None" "m_condvar_tree (waits s t) = None" "off_list (Some (queue_kind q))"
  proof -
    have "GetLockOwner s t \<noteq> None" using k(1) lock_owner_None [OF system_okD(1) [OF wait_okD(1) [OF ok]], of t] by simp
    then show ?thesis using at s1(1,3) off1 [OF k(3)] k(2) rest by (auto simp: remove_from_owner_def)
  qed
  show ?thesis
  proof (cases "queue_kind q")
    case ForKLightLock
    then show ?thesis using s1 q(2) rest off1 by (simp add: leave_queue_def)
  next
    case ForAddress
    then show ?thesis using q(2) by (intro addr) (simp_all add: leave_queue_def)
  next
    case (ForUserException p)
    then show ?thesis using q(2) by (intro addr) (simp_all add: leave_queue_def)
  next
    case (ForConditionVariable tr)
    have tr: "m_condvar_tree (waits s1 t) = None \<or> m_condvar_tree (waits s1 t) = Some tr"
      using q(2) ForConditionVariable rest by auto
    obtain s2 where s2: "remove_from_tree tr t s1 = Some s2" "wait_ok {t} s2" "m_condvar_tree (waits s2 t) = None"
      "waits_in s2 t = None" "m_task_tree s2 = m_task_tree s1" "m_wait_queue (waits s2 t) = m_wait_queue (waits s1 t)"
      "m_time (waits s2 t) = m_time (waits s1 t)" "GetState s2 = GetState s1"
      by (rule remove_from_tree_ok [OF s1(2) tr s1(3)]) (rule that)
    have "listed s2 t = listed s1 t" by (simp add: listed_def s2(6,8))
    then show ?thesis using ForConditionVariable s1(1) s2 rest wait_okD(7) [OF s2(2)] off_lists [OF s2(2), of t] on1 by (simp add: leave_queue_def)
  next
    case (ForAddressArbiter tr)
    have tr: "m_condvar_tree (waits s t) = None \<or> m_condvar_tree (waits s t) = Some tr" "waits_in s t = None"
      using q(2) ForAddressArbiter by auto
    obtain s2 where s2: "remove_from_tree tr t s = Some s2" "wait_ok {t} s2" "m_condvar_tree (waits s2 t) = None"
      "waits_in s2 t = None" "m_task_tree s2 = m_task_tree s" "m_wait_queue (waits s2 t) = m_wait_queue (waits s t)"
      "m_time (waits s2 t) = m_time (waits s t)" "GetState s2 = GetState s"
      by (rule remove_from_tree_ok [OF ok1 tr]) (rule that)
    have "listed s2 t = listed s t" by (simp add: listed_def s2(6,8))
    then show ?thesis using ForAddressArbiter s2 wait_okD(7) [OF s2(2)] off_lists [OF s2(2), of t] on by (simp add: leave_queue_def)
  next
    case ForThreadSleep
    then show ?thesis using wait_okD(7) [OF ok1] off_lists [OF ok1, of t] on q(2) by (simp add: leave_queue_def)
  next
    case (ForSynchronizationObjects obs)
    then have on': "listed s t = Some (ForSynchronizationObjects obs)" using on by simp
    obtain l where l: "unlink_nodes t 0 obs (objects s) = Some l" "lists_at ((listed s)(t := None)) (s\<lparr>objects := l\<rparr>)"
      by (rule unlink_all_ok [OF wait_okD(6) [OF ok1] on']) (rule that)
    let ?s = "update_wait t (\<lambda>w. w\<lparr>m_cancellable := False\<rparr>) (s\<lparr>objects := l\<rparr>)"
    have "same_lists (s\<lparr>objects := l\<rparr>) ?s" by (rule same_listsI) simp_all
    then have "lists_at ((listed s)(t := None)) ?s" using l(2) lists_at_cong by blast
    then show ?thesis using ForSynchronizationObjects l(1) wait_okD(7) [OF ok1] q(2) by (simp add: leave_queue_def)
  next
    case (ForThreadSetProperty u)
    then have on': "listed s t = Some (ForThreadSetProperty u)" using on by simp
    note e = erase_pinned_ok [OF wait_okD(6) [OF ok1] on']
    then show ?thesis using ForThreadSetProperty wait_okD(7) [OF ok1] q(2) by (cases "t = u") (simp_all add: leave_queue_def)
  qed
qed

lemma KThread_CancelWait_ok:
  assumes ok: "wait_ok {} s" and timer: "cancel \<or> m_time (waits s t) \<le> 0"
  obtains s1 where "KThread_CancelWait cur t r cancel s = Some s1" and "wait_ok {} s1" and "GetState s1 t \<noteq> Waiting"
    and "\<not> cancel \<Longrightarrow> m_task_tree s1 = m_task_tree s"
proof (cases "GetState s t = Waiting")
  case False
  then show thesis using that [of s] ok by (simp add: KThread_CancelWait_def)
next
  case True
  have "queue_ok s t" using wait_okD(3) [OF ok] by (simp add: queues_ok_def)
  then obtain q where q: "m_wait_queue (waits s t) = Some q"
    "place_ok (queue_kind q) (waits_in s t \<noteq> None) (m_condvar_tree (waits s t))" "0 < m_time (waits s t) \<longrightarrow> m_hardware_timer q"
    using True by (auto simp: queue_ok_def simp del: not_None_eq)
  obtain s1 where s1: "leave_queue cur q t s = Some s1" "waiting_ok {t} s1" "lists_at ((listed s1)(t := None)) s1" "waits_in s1 t = None"
    "m_condvar_tree (waits s1 t) = None" "m_task_tree s1 = m_task_tree s" "m_time (waits s1 t) = m_time (waits s t)"
    using leave_queue_ok [OF ok True q(1,2), of cur] by blast
  have c: "cancel \<and> m_hardware_timer q \<or> m_time (waits s1 t) \<le> 0" using timer q(3) s1(7) by auto
  obtain s2 where s2: "finish_wait t r (cancel \<and> m_hardware_timer q) s1 = Some s2"
    "m_condvar_tree (waits s1 t) = None \<Longrightarrow> wait_ok ({t} - {t}) s2" "ended t s1 s2"
    "\<not> (cancel \<and> m_hardware_timer q) \<Longrightarrow> m_task_tree s2 = m_task_tree s1"
    by (rule finish_wait_ok [OF s1(2,3,4) c]) (rule that)
  have "KThread_CancelWait cur t r cancel s = Some s2"
    using True q(1) s1(1) s2(1) by (simp add: KThread_CancelWait_def queue_CancelWait_def KThreadQueue_CancelWait_def)
  then show thesis using s2(2) [OF s1(5)] s2(3,4) s1(6) by (intro that [of s2]) (simp_all add: ended_def)
qed

end
