(* ===== verification/Wait_Operations.thy ===== *)
theory Wait_Operations
  imports Wait_Structures_Props
begin

text \<open>
  The operations of the wait structures are defined and keep the invariant of locks, trees, queues and
  timer, whatever user memory holds and whatever the handles are.
\<close>

section \<open>Waiting begins\<close>

lemma BeginWait_core:
  assumes ok: "waiting_ok {t} s" and t: "t < SlabCountKThread" and time: "m_time (waits s t) \<le> 0"
    and place: "place_ok (queue_kind q) (waits_in s t \<noteq> None) (m_condvar_tree (waits s t))"
  obtains s1 where "BeginWait t q s = Some s1" and "waiting_ok {} s1" and "GetState s1 t = Waiting"
    and "m_wait_queue (waits s1 t) = Some q" and "m_time (waits s1 t) \<le> 0" and "same_lists s s1"
    and "listed s1 = (listed s)(t := Some (queue_kind q))"
proof -
  let ?s = "update_wait t (\<lambda>w. w\<lparr>m_wait_generation := m_wait_generation w + 1\<rparr>) s"
  have c0: "same_core s ?s" by (simp add: same_core_def)
  have sys0: "system_ok ?s" "inherits {} ?s" "flags_ok ?s" using waiting_okD [OF ok] same_core_effect [OF c0] by simp_all
  obtain k where k: "Thread_SetState t Waiting ?s = Some (?s\<lparr>kernel := k\<rparr>)" "kernel_ok k"
    "threads k = (threads (kernel s))(t := (threads (kernel s) t)\<lparr>m_thread_state :=
      (m_thread_state (threads (kernel s) t) AND NOT ThreadState_Mask) OR (Waiting AND ThreadState_Mask)\<rparr>)"
    using Thread_SetState_ok [of ?s t Waiting] system_okD(5) [OF sys0(1)] by auto
  let ?s1 = "?s\<lparr>kernel := k\<rparr>"
  have th: "m_priority (threads k u) = m_priority (threads (kernel s) u)"
    "m_num_kernel_waiters (threads k u) = m_num_kernel_waiters (threads (kernel s) u)"
    "IsDummyThread (threads k u) = IsDummyThread (threads (kernel s) u)"
    "m_suspend_allowed_flags (threads k u) = m_suspend_allowed_flags (threads (kernel s) u)" for u by (simp_all add: k(3))
  have sys1: "system_ok ?s1" "inherits {} ?s1" using system_kernel [OF sys0(1,2) k(2)] th by simp_all
  let ?s2 = "update_wait t (\<lambda>w. w\<lparr>m_wait_queue := Some q\<rparr>) ?s1"
  have c2: "same_core ?s1 ?s2" by (simp add: same_core_def)
  note eff = same_core_effect [OF c2]
  have st: "GetState ?s2 u = (if u = t then Waiting else GetState s u)" for u
    unfolding eff(3) by (simp add: GetState_def k(3) low_state)
  have "queues_ok ({t} - {t}) ?s2"
  proof (rule queues_ok_one(2) [OF waiting_okD(3) [OF ok]])
    show "queue_ok ?s2 u = queue_ok s u" if "u \<noteq> t" for u using that by (intro queue_ok_cong) (simp_all add: st)
    show "queue_ok ?s2 t" using t place time by (simp add: queue_ok_def st)
  qed
  moreover have "tasks_ok ?s2" using waiting_okD(4) [OF ok] by (subst tasks_ok_cong [of _ s]) simp_all
  moreover have "flags_ok ?s2" using sys0(3) th(4) eff(6) by (simp add: flags_ok_def)
  ultimately have "waiting_ok {} ?s2" using sys1 eff(4,5) by (simp add: waiting_ok_def)
  moreover have "BeginWait t q s = Some ?s2" using k(1) by (simp add: BeginWait_def)
  moreover have "same_lists s ?s2" by (rule same_listsI) simp_all
  moreover have "listed ?s2 = (listed s)(t := Some (queue_kind q))"
    by (rule ext) (simp add: listed_def st)
  ultimately show thesis using st time by (intro that [of ?s2]) simp_all
qed

lemma BeginWait_ok:
  assumes ok: "wait_ok {t} s" and t: "t < SlabCountKThread" and time: "m_time (waits s t) \<le> 0"
    and place: "place_ok (queue_kind q) (waits_in s t \<noteq> None) (m_condvar_tree (waits s t))"
    and off: "GetState s t \<noteq> Waiting" "off_list (Some (queue_kind q))"
  obtains s1 where "BeginWait t q s = Some s1" and "wait_ok {} s1" and "GetState s1 t = Waiting"
    and "m_wait_queue (waits s1 t) = Some q" and "m_time (waits s1 t) \<le> 0"
proof -
  obtain s1 where s1: "BeginWait t q s = Some s1" "waiting_ok {} s1" "GetState s1 t = Waiting"
    "m_wait_queue (waits s1 t) = Some q" "m_time (waits s1 t) \<le> 0" "same_lists s s1"
    "listed s1 = (listed s)(t := Some (queue_kind q))"
    by (rule BeginWait_core [OF wait_okD(7) [OF ok] t time place]) (rule that)
  have "listed s t = None" using off(1) by (simp add: listed_def)
  then have "lists_at (listed s1) s = lists_at (listed s) s" unfolding s1(7) using off(2) by (intro lists_at_off) simp_all
  then have "lists_ok s1" using wait_okD(6) [OF ok] lists_at_cong [OF s1(6)] by (simp add: lists_ok_def)
  then show thesis using s1 by (intro that [of s1]) (simp_all add: wait_ok_def)
qed

lemma RegisterAbsoluteTask_ok:
  assumes ok: "tasks_ok s" and t: "m_time (waits s t) \<le> 0" "0 < task_time"
  defines "s1 \<equiv> RegisterAbsoluteTask t task_time s"
  shows "tasks_ok s1" and "same_core s s1" and "m_wait_queue (waits s1 u) = m_wait_queue (waits s u)"
    and "m_time (waits s1 u) = (if u = t then task_time else m_time (waits s u))" and "same_lists s s1"
proof -
  let ?s = "update_wait t (\<lambda>w. w\<lparr>m_time := task_time\<rparr>) s"
  let ?f = "\<lambda>u. m_time (waits ?s u)"
  let ?tree = "insert_ordered (\<lambda>a b. ?f a < ?f b) t (m_task_tree s)"
  have no: "t \<notin> set (m_task_tree s)" using ok t(1) by (simp add: tasks_ok_def)
  have tree: "m_task_tree s1 = ?tree" and w: "waits s1 = waits ?s"
    by (simp_all add: s1_def RegisterAbsoluteTask_def Let_def)
  show core: "same_core s s1" by (simp add: same_core_def s1_def RegisterAbsoluteTask_def Let_def)
  show "same_lists s s1" by (rule same_listsI) (simp_all add: s1_def RegisterAbsoluteTask_def Let_def)
  show "m_wait_queue (waits s1 u) = m_wait_queue (waits s u)"
    and "m_time (waits s1 u) = (if u = t then task_time else m_time (waits s u))" for u by (simp_all add: w)
  have "map ?f (m_task_tree s) = map (\<lambda>u. m_time (waits s u)) (m_task_tree s)" using no by auto
  moreover have "sorted (map (\<lambda>u. m_time (waits s u)) (m_task_tree s))" using ok by (simp add: tasks_ok_def)
  ultimately have "sorted (map ?f (m_task_tree s))" by (simp only:)
  then have "sorted (map ?f ?tree)" unfolding sorted_priorities by (intro insert_ordered_sorted) auto
  moreover have "distinct ?tree" using ok no by (simp add: tasks_ok_def)
  moreover have "u \<in> set ?tree \<longleftrightarrow> 0 < ?f u" for u using ok t by (auto simp: tasks_ok_def)
  moreover have "m_next_task s1 = (case ?tree of [] \<Rightarrow> None | u # us \<Rightarrow> Some u)"
  proof (cases "m_task_tree s")
    case Nil
    then have "m_next_task s = None" using ok by (simp add: tasks_ok_def)
    then show ?thesis using Nil by (simp add: s1_def RegisterAbsoluteTask_def Let_def)
  next
    case (Cons u us)
    then have "m_next_task s = Some u" "u \<noteq> t" using ok no by (auto simp: tasks_ok_def)
    then show ?thesis using Cons by (simp add: s1_def RegisterAbsoluteTask_def Let_def not_le)
  qed
  ultimately show "tasks_ok s1" unfolding tasks_ok_def tree w by blast
qed

lemma register_sleep_ok:
  assumes ok: "wait_ok {} s" and t: "GetState s t = Waiting" "m_wait_queue (waits s t) = Some q" "m_time (waits s t) \<le> 0"
    and q: "0 < timeout \<Longrightarrow> m_hardware_timer q"
  shows "wait_ok {} (register_sleep t timeout s)"
proof (cases "0 < timeout")
  case False
  then show ?thesis using ok by (simp add: register_sleep_def)
next
  case True
  let ?s = "RegisterAbsoluteTask t timeout s"
  note r = RegisterAbsoluteTask_ok [OF wait_okD(4) [OF ok] t(3) True]
  note eff = same_core_effect [OF r(2)] and core = same_coreD [OF r(2)]
  have "queues_ok ({} - {t}) ?s"
  proof (rule queues_ok_one(2) [OF wait_okD(3) [OF ok]])
    show "queue_ok ?s u = queue_ok s u" if "u \<noteq> t" for u
      using that by (intro queue_ok_cong) (simp_all add: r core eff)
    have "queue_ok s t" using wait_okD(3) [OF ok] by (simp add: queues_ok_def)
    then show "queue_ok ?s t" using t(1,2) q [OF True] by (simp add: queue_ok_def r core eff)
  qed
  moreover have "listed ?s = listed s" by (rule listed_cong) (simp_all add: r eff)
  then have "lists_ok ?s" using wait_okD(6) [OF ok] lists_ok_cong [OF r(5)] by simp
  ultimately have "wait_ok {} ?s" using wait_okD [OF ok] r(1) eff by (intro wait_okI) simp_all
  then show ?thesis using True by (simp add: register_sleep_def)
qed

lemma wait_ok_weaken: "wait_ok {} s \<Longrightarrow> wait_ok X s"
  by (simp add: wait_ok_def waiting_ok_def queues_ok_def)

lemma Sleep_ok:
  assumes ok: "wait_ok {} s" and cur: "GetState s cur \<noteq> Waiting" "cur < SlabCountKThread"
  shows "\<exists>r s1. Sleep cur timeout s = Some (r, s1) \<and> wait_ok {} s1"
proof (cases "IsTerminationRequested s cur")
  case True
  then show ?thesis using ok by (simp add: Sleep_def)
next
  case False
  note n = not_waiting [OF ok cur(1)]
  let ?q = "\<lparr>queue_kind = ForThreadSleep, m_hardware_timer = timeout > 0\<rparr>"
  have place: "place_ok (queue_kind ?q) (waits_in s cur \<noteq> None) (m_condvar_tree (waits s cur))" using n by simp
  obtain s1 where s1: "BeginWait cur ?q s = Some s1" "wait_ok {} s1" "GetState s1 cur = Waiting"
    "m_wait_queue (waits s1 cur) = Some ?q" "m_time (waits s1 cur) \<le> 0"
    by (rule BeginWait_ok [OF wait_ok_weaken [OF ok] cur(2) n(3) place cur(1)]) (simp, rule that)
  have "wait_ok {} (register_sleep cur timeout s1)" by (rule register_sleep_ok [OF s1(2-5)]) simp
  then show ?thesis using False s1(1) by (simp add: Sleep_def)
qed

section \<open>The timer\<close>

lemma task_removed_ok:
  assumes ok: "wait_ok {} s" and t: "m_next_task s = Some t"
  obtains s1 where "RemoveTaskFromTree t s = Some s1" and "wait_ok {} s1" and "m_time (waits s1 t) \<le> 0"
    and "length (m_task_tree s1) < length (m_task_tree s)"
proof -
  have mem: "t \<in> set (m_task_tree s)" using wait_okD(4) [OF ok] t by (auto simp: tasks_ok_def split: list.splits)
  then have pos: "0 < m_time (waits s t)" using wait_okD(4) [OF ok] by (simp add: tasks_ok_def)
  note r = RemoveTaskFromTree_ok [OF wait_okD(4) [OF ok] pos]
  note core = same_coreD [OF task_removed_frame(1) [of s t]] and eff = same_core_effect [OF task_removed_frame(1) [of s t]]
  have "queue_ok (task_removed t s) u" for u
  proof -
    have q: "queue_ok s u" using wait_okD(3) [OF ok] by (simp add: queues_ok_def)
    then show ?thesis by (auto simp: queue_ok_def core eff task_removed_frame)
  qed
  then have "queues_ok {} (task_removed t s)" by (simp add: queues_ok_def)
  moreover have "listed (task_removed t s) = listed s" by (rule listed_cong) (simp_all add: task_removed_frame eff)
  then have "lists_ok (task_removed t s)" using wait_okD(6) [OF ok] lists_ok_cong [OF task_removed_frame(7) [of s t]] by simp
  ultimately have "wait_ok {} (task_removed t s)" using wait_okD [OF ok] r(2) eff by (intro wait_okI) simp_all
  moreover have "length (m_task_tree (task_removed t s)) < length (m_task_tree s)"
    using mem length_pos_if_in_set [OF mem] by (simp add: task_removed_frame length_remove1)
  ultimately show thesis using r(1)
    by (intro that [of "task_removed t s"]) (simp_all add: task_removed_frame)
qed

lemma DoInterruptTaskImpl_ok: "wait_ok {} s \<Longrightarrow>
    \<exists>t s1. DoInterruptTaskImpl cur now s = Some (t, s1) \<and> wait_ok {} s1 \<and> (\<forall>u \<in> set (m_task_tree s1). now < m_time (waits s1 u))"
proof (induction "length (m_task_tree s)" arbitrary: s rule: less_induct)
  case less
  note tasks = wait_okD(4) [OF less.prems]
  show ?case
  proof (cases "m_next_task s")
    case None
    then have "m_task_tree s = []" using tasks by (auto simp: tasks_ok_def split: list.splits)
    then show ?thesis using None less.prems by (subst DoInterruptTaskImpl.simps) simp
  next
    case (Some t)
    show ?thesis
    proof (cases "now < m_time (waits s t)")
      case True
      obtain ts where "m_task_tree s = t # ts" using tasks Some by (auto simp: tasks_ok_def split: list.splits)
      then have "\<forall>u \<in> set (m_task_tree s). now < m_time (waits s u)" using tasks True by (auto simp: tasks_ok_def)
      then show ?thesis using Some True less.prems by (subst DoInterruptTaskImpl.simps) simp
    next
      case False
      obtain s1 where s1: "RemoveTaskFromTree t s = Some s1" "wait_ok {} s1" "m_time (waits s1 t) \<le> 0"
        "length (m_task_tree s1) < length (m_task_tree s)" by (rule task_removed_ok [OF less.prems Some]) (rule that)
      have t: "False \<or> m_time (waits s1 t) \<le> 0" using s1(3) by simp
      obtain s2 where s2: "KThread_CancelWait cur t ResultTimedOut False s1 = Some s2" "wait_ok {} s2"
        "\<not> False \<Longrightarrow> m_task_tree s2 = m_task_tree s1" by (rule KThread_CancelWait_ok [OF s1(2) t]) (rule that)
      have "length (m_task_tree s2) < length (m_task_tree s)" using s1(4) s2(3) by simp
      then show ?thesis
        using less.hyps [OF _ s2(2)] Some False s1(1) s2(1) by (subst DoInterruptTaskImpl.simps) (simp add: OnTimer_def)
    qed
  qed
qed

lemma wakeup_ok [simp]: "wait_ok X (s\<lparr>m_wakeup_time := w\<rparr>) = wait_ok X s"
  by (rule wait_ok_cong) (simp_all add: same_core_def same_lists_def)

lemma DoTask_ok:
  assumes "wait_ok {} s"
  shows "\<exists>s1. DoTask cur tick s = Some s1 \<and> wait_ok {} s1"
proof -
  have "wait_ok {} (s\<lparr>m_wakeup_time := MaxTime\<rparr>)" using assms by simp
  from DoInterruptTaskImpl_ok [OF this, of cur tick] obtain n s1
    where s1: "DoInterruptTaskImpl cur tick (s\<lparr>m_wakeup_time := MaxTime\<rparr>) = Some (n, s1)" "wait_ok {} s1" by blast
  then show ?thesis using assms
    by (cases "m_wakeup_time s = MaxTime"; cases "0 < n \<and> n \<le> m_wakeup_time s1") (simp_all add: DoTask_def)
qed

lemma WaitCancel_ok:
  assumes ok: "wait_ok {} s"
  shows "\<exists>s1. WaitCancel cur t s = Some s1 \<and> wait_ok {} s1"
proof -
  have flag: "wait_ok {} (update_wait t (\<lambda>w. w\<lparr>m_wait_cancelled := b\<rparr>) s)" (is "wait_ok {} ?s") for b
    using ok by (subst wait_ok_cong [of s]) (simp_all add: same_core_def same_lists_def)
  show ?thesis
    using KThread_CancelWait_ok [OF flag, of True False t cur ResultCancelled] flag unfolding WaitCancel_def by fastforce
qed

section \<open>Locks in user memory\<close>

lemma WriteToUser_frame [simp]:
  "same_core s (WriteToUser p a v s)" "waits (WriteToUser p a v s) = waits s" "wait_ok X (WriteToUser p a v s) = wait_ok X s"
  "GetState (WriteToUser p a v s) = GetState s" "GetLockOwner (WriteToUser p a v s) = GetLockOwner s"
  "thread_tree (WriteToUser p a v s) = thread_tree s" "keeps s (WriteToUser p a v s)"
proof -
  show c: "same_core s (WriteToUser p a v s)" by (simp add: WriteToUser_def same_core_def)
  show w: "waits (WriteToUser p a v s) = waits s" by (simp add: WriteToUser_def)
  show "wait_ok X (WriteToUser p a v s) = wait_ok X s" by (rule wait_ok_cong [OF c]) (simp_all add: WriteToUser_def same_lists_def)
  show "GetState (WriteToUser p a v s) = GetState s" "GetLockOwner (WriteToUser p a v s) = GetLockOwner s"
    using same_core_effect [OF c] by simp_all
  then show "keeps s (WriteToUser p a v s)" by (simp add: keeps_def w)
  show "thread_tree (WriteToUser p a v s) = thread_tree s" by (simp add: WriteToUser_def)
qed

text \<open>A thread that has left its place and still waits, in a queue that lets it wait for a lock.\<close>

definition ready :: "WaitState \<Rightarrow> nat \<Rightarrow> bool" where
  "ready s t \<longleftrightarrow> t < SlabCountKThread \<and> GetState s t = Waiting \<and> waits_in s t = None \<and> m_condvar_tree (waits s t) = None \<and>
     (\<exists>q. m_wait_queue (waits s t) = Some q \<and> place_ok (queue_kind q) True None \<and> (0 < m_time (waits s t) \<longrightarrow> m_hardware_timer q))"

lemma ready_WriteToUser [simp]: "ready (WriteToUser p a v s) t = ready s t"
  by (simp add: ready_def)

lemma ready_EndWait:
  assumes ok: "wait_ok {t} s" and r: "ready s t"
  obtains s1 where "KThread_EndWait t res s = Some s1" and "wait_ok {} s1" and "ended t s s1"
proof -
  obtain q where q: "m_wait_queue (waits s t) = Some q" "place_ok (queue_kind q) True None" "0 < m_time (waits s t) \<longrightarrow> m_hardware_timer q"
    using r unfolding ready_def by blast
  note k = place_ends(1) [OF q(2)] and off = place_off_list(1) [OF q(2)]
  have st: "GetState s t = Waiting" "waits_in s t = None" "m_condvar_tree (waits s t) = None" using r by (simp_all add: ready_def)
  obtain s1 where "KThread_EndWait t res s = Some s1" "wait_ok {t} s1" "m_condvar_tree (waits s t) = None \<Longrightarrow> wait_ok {} s1" "ended t s s1"
    by (rule KThread_EndWait_ok [OF ok st(1) q(1) k q(3) st(2) off]) (rule that)
  then show thesis using that st(3) by blast
qed

lemma hand_over_ok:
  assumes ok: "wait_ok {} s"
  obtains nxt others s1 where "RemoveWaiterByKey cur t key isk s = Some (nxt, others, s1)" and "wait_ok (set_option nxt) s1"
    and "handed t key isk s nxt s1" and "keeps s s1" and "\<And>v. nxt = Some v \<Longrightarrow> ready s1 v"
    and "\<And>v. nxt = Some v \<Longrightarrow> GetState s v = Waiting"
proof -
  obtain nxt others s1 where s1: "RemoveWaiterByKey cur t key isk s = Some (nxt, others, s1)" "handed t key isk s nxt s1"
    by (rule RemoveWaiterByKey_ok [OF wait_okD(1,2) [OF ok]]) (rule that)
  have h: "system_ok s1" "inherits {} s1" "same_rest s s1" "same_threads s s1"
    "GetLockOwner s1 v = None \<longleftrightarrow> GetLockOwner s v = None \<or> nxt = Some v" "nxt = Some v \<Longrightarrow> GetLockOwner s v = Some t" for v
    using s1(2) by (simp_all add: handed_def)
  have "wait_ok ({} \<union> set_option nxt) s1" using h(5) by (intro lock_operation_ok [OF ok h(1-4)]) auto
  moreover have r: "ready s1 v \<and> GetState s v = Waiting" if v: "nxt = Some v" for v
  proof -
    note rest = same_rest_members [OF h(3)]
    have q: "queue_ok s v" using wait_okD(3) [OF ok] by (simp add: queues_ok_def)
    have at: "waits_in s v \<noteq> None"
      using h(6) [OF v] lock_owner_None [OF system_okD(1) [OF wait_okD(1) [OF ok]], of v] by simp
    then have none: "m_condvar_tree (waits s v) = None"
      using treesD(4) [OF system_okD(2) [OF wait_okD(1) [OF ok]], of v] by (cases "m_condvar_tree (waits s v)") simp_all
    have "waits_in s1 v = None" using h(5) [of v] v lock_owner_None [OF system_okD(1) [OF h(1)], of v] by simp
    moreover have "GetState s v = Waiting" using q at by (auto simp: queue_ok_def split: if_splits)
    ultimately show ?thesis using q at none by (simp add: ready_def queue_ok_def rest GetState_threads [OF h(4)])
  qed
  ultimately show thesis using s1 lock_operation_keeps [OF h(3,4)] by (intro that [of nxt others s1]) simp_all
qed

lemma end_next_wait_ok:
  assumes ok: "wait_ok (set_option nxt) s" and r: "\<forall>v. nxt = Some v \<longrightarrow> ready s v"
  obtains s1 where "end_next_wait nxt s = Some s1" and "wait_ok {} s1" and "keeps s s1" and "GetLockOwner s1 = GetLockOwner s"
proof (cases nxt)
  case None
  then show thesis using that [of s] ok by (simp add: end_next_wait_def)
next
  case (Some v)
  then have v: "wait_ok {v} s" "ready s v" using ok r by simp_all
  obtain s1 where "KThread_EndWait v ResultSuccess s = Some s1" "wait_ok {} s1" "ended v s s1"
    by (rule ready_EndWait [OF v]) (rule that)
  then show thesis using that [of s1] Some by (simp add: end_next_wait_def ended_def)
qed

lemma SignalToAddress_ok:
  assumes ok: "wait_ok {} s"
  shows "\<exists>s1. SignalToAddress cur p addr s = Some s1 \<and> wait_ok {} s1"
proof -
  obtain nxt others s1 where s1: "RemoveWaiterByKey cur cur addr False s = Some (nxt, others, s1)" "wait_ok (set_option nxt) s1"
    "handed cur addr False s nxt s1" "keeps s s1" "\<And>v. nxt = Some v \<Longrightarrow> ready s1 v" "\<And>v. nxt = Some v \<Longrightarrow> GetState s v = Waiting"
    by (rule hand_over_ok [OF ok]) (rule that)
  let ?s = "WriteToUser p addr (next_tag nxt others s1) s1"
  obtain s2 where "end_next_wait nxt ?s = Some s2" "wait_ok {} s2"
    using s1(2,5) end_next_wait_ok [of nxt ?s] by auto
  then show ?thesis using s1(1) by (simp add: SignalToAddress_def)
qed

text \<open>The release of abandoned locks ends: one thread less waits for a lock after each turn.\<close>

lemma find_user_lock_found: "find_user_lock s ls = Some key \<Longrightarrow> find_lock s key False ls \<noteq> None"
  by (induction ls) (auto split: if_splits)

lemma RemoveWaiterByKey_found:
  assumes "RemoveWaiterByKey cur t key isk s = Some (nxt, others, s1)" and "FindHeldLock t key isk s \<noteq> None"
  shows "nxt \<noteq> None"
proof -
  obtain l where "FindHeldLock t key isk s = Some l" using assms(2) by blast
  then show ?thesis using assms(1) by (auto simp: RemoveWaiterByKey_def Let_def bind_eq_Some_conv)
qed

lemma ReleaseAbandonedUserLocks_ok: "wait_ok {} s \<Longrightarrow>
    \<exists>s1. ReleaseAbandonedUserLocks cur p s = Some s1 \<and> wait_ok {} s1 \<and> FindHeldUserLockKey cur s1 = None \<and> keeps s s1"
proof (induction "card {u. GetLockOwner s u \<noteq> None}" arbitrary: s rule: less_induct)
  case less
  show ?case
  proof (cases "FindHeldUserLockKey cur s")
    case None
    then show ?thesis using less.prems by (subst ReleaseAbandonedUserLocks.simps) simp
  next
    case (Some addr)
    then have found: "FindHeldLock cur addr False s \<noteq> None"
      using find_user_lock_found by (simp add: FindHeldUserLockKey_def FindHeldLock_def)
    obtain nxt others s1 where s1: "RemoveWaiterByKey cur cur addr False s = Some (nxt, others, s1)" "wait_ok (set_option nxt) s1"
      "handed cur addr False s nxt s1" "keeps s s1" "\<And>v. nxt = Some v \<Longrightarrow> ready s1 v" "\<And>v. nxt = Some v \<Longrightarrow> GetState s v = Waiting"
      by (rule hand_over_ok [OF less.prems]) (rule that)
    obtain v where v: "nxt = Some v" using RemoveWaiterByKey_found [OF s1(1) found] by auto
    let ?s = "WriteToUser p addr (next_tag nxt others s1) s1"
    have s: "wait_ok (set_option nxt) ?s" "\<forall>v. nxt = Some v \<longrightarrow> ready ?s v" using s1(2,5) by simp_all
    obtain s2 where s2: "end_next_wait nxt ?s = Some s2" "wait_ok {} s2" "keeps ?s s2" "GetLockOwner s2 = GetLockOwner ?s"
      by (rule end_next_wait_ok [OF s]) (rule that)
    have own: "GetLockOwner s2 u = None \<longleftrightarrow> GetLockOwner s u = None \<or> u = v" for u
      using s1(3) s2(4) v by (auto simp: handed_def)
    have mem: "v \<in> {u. GetLockOwner s u \<noteq> None}" using s1(3) v by (auto simp: handed_def)
    have "{u. GetLockOwner s2 u \<noteq> None} = {u. GetLockOwner s u \<noteq> None} - {v}" unfolding own set_eq_iff by simp
    then have "card {u. GetLockOwner s2 u \<noteq> None} < card {u. GetLockOwner s u \<noteq> None}"
      using card_Diff1_less [OF waiting_finite [OF system_okD(1) [OF wait_okD(1) [OF less.prems]]] mem] by (simp only:)
    from less.hyps [OF this s2(2)] obtain s3 where s3: "ReleaseAbandonedUserLocks cur p s2 = Some s3" "wait_ok {} s3"
      "FindHeldUserLockKey cur s3 = None" "keeps s2 s3" by blast
    have "keeps s1 ?s" by simp
    then have "keeps s s3" using s1(4) s2(3) s3(4) keeps_trans by blast
    then show ?thesis using Some s1(1) s2(1) v s3 by (subst ReleaseAbandonedUserLocks.simps) simp
  qed
qed

section \<open>New keys, and the entry of a tree\<close>

text \<open>The keys of a thread that waits for nothing may change.\<close>

lemma key_changed_ok:
  assumes ok: "wait_ok X s" and no: "waits_in s t = None" "m_condvar_tree (waits s t) = None"
    and f: "m_held_lock_info_list (f (waits s t)) = held s t" "m_waiting_lock_info (f (waits s t)) = waits_in s t"
      "m_base_priority (f (waits s t)) = m_base_priority (waits s t)" "m_condvar_tree (f (waits s t)) = m_condvar_tree (waits s t)"
      "m_wait_queue (f (waits s t)) = m_wait_queue (waits s t)" "m_time (f (waits s t)) = m_time (waits s t)"
      "m_pinned_waiter_list (f (waits s t)) = pinned_waiters s t"
  shows "wait_ok X (update_wait t f s)" and "GetLockOwner (update_wait t f s) = GetLockOwner s"
proof -
  let ?s = "update_wait t f s"
  note sys = system_okD [OF wait_okD(1) [OF ok]]
  have w: "held ?s u = held s u" "waits_in ?s u = waits_in s u" "m_base_priority (waits ?s u) = m_base_priority (waits s u)"
    "m_condvar_tree (waits ?s u) = m_condvar_tree (waits s u)" "m_wait_queue (waits ?s u) = m_wait_queue (waits s u)"
    "m_time (waits ?s u) = m_time (waits s u)" for u using f by simp_all
  have other: "waits ?s u = waits s u" if "u \<noteq> t" for u using that by simp
  have i: "lock_infos ?s = lock_infos s" "free_lock_infos ?s = free_lock_infos s" "GetPriority ?s = GetPriority s"
    "thread_tree ?s = thread_tree s" "kernel ?s = kernel s" by simp_all
  show own: "GetLockOwner ?s = GetLockOwner s" by (simp add: GetLockOwner_def w i fun_eq_iff del: update_wait_frame cong: option.case_cong)
  have st: "GetState ?s = GetState s" by (simp add: GetState_def fun_eq_iff)
  have "locks_ok {} ?s"
  proof (rule locks_okI)
    show "distinct (held ?s v)" for v using distinct_held [OF sys(1)] unfolding w .
    show "lock_ok {} ?s v l" if "l \<in> set (held ?s v)" for v l
    proof -
      have l: "l \<in> set (held s v)" using that unfolding w .
      have "t \<notin> set (waiters s l)" using waiter_waits [OF sys(1) l, of t] no(1) by auto
      then have "\<forall>u \<in> set (waiters s l). waits ?s u = waits s u" using other by auto
      then show ?thesis using held_lock [OF sys(1) l] unfolding lock_ok_def i by simp
    qed
    show "u < SlabCountKThread \<and> u \<in> set (waiters ?s l) \<and> (\<exists>v. l \<in> set (held ?s v))" if "waits_in ?s u = Some l" for u l
      using waits_in_locks [OF sys(1)] that unfolding w i .
    show "slab_ok ?s" using sys(1) unfolding locks_ok_def slab_ok_def w i by blast
  qed
  moreover have "trees_ok ?s"
  proof (rule treesI)
    show "distinct (thread_tree ?s tr)" for tr using treesD(1) [OF sys(2)] by simp
    show "sorted_wrt (\<lambda>a b. \<not> ConditionVariableComparator ?s b a) (thread_tree ?s tr)" for tr
    proof -
      have "t \<notin> set (thread_tree s tr)" using treesD(3) [OF sys(2), of t tr] no(2) by simp
      then have "ConditionVariableComparator ?s b a = ConditionVariableComparator s b a"
        if "a \<in> set (thread_tree s tr)" "b \<in> set (thread_tree s tr)" for a b
        using that other [of a] other [of b] unfolding ConditionVariableComparator_def i by (cases "a = t"; cases "b = t") simp_all
      then show ?thesis using treesD(2) [OF sys(2), of tr] unfolding i by (auto intro: sorted_wrt_mono_rel [rotated])
    qed
    show "u \<in> set (thread_tree ?s tr) \<longleftrightarrow> m_condvar_tree (waits ?s u) = Some tr" for tr u using treesD(3) [OF sys(2)] unfolding w i .
    show "m_condvar_tree (waits ?s u) \<noteq> None \<Longrightarrow> waits_in ?s u = None" for u using treesD(4) [OF sys(2), of u] unfolding w .
  qed
  moreover have "counts_ok ?s" using sys(3) unfolding counts_ok_def kernel_waiters_def w i .
  moreover have "bases_ok ?s" using sys(4) unfolding bases_ok_def GetBasePriority_def w i .
  ultimately have "system_ok ?s" using sys(5) by (simp add: system_ok_def)
  moreover have "inherits {} ?s" using wait_okD(2) [OF ok] unfolding inherits_def best_priority_def GetBasePriority_def own w i .
  moreover have "tasks_ok ?s" using wait_okD(4) [OF ok] by (subst tasks_ok_cong [of _ s]) (simp_all add: f)
  moreover have "queue_ok ?s u = queue_ok s u" for u by (rule queue_ok_cong) (simp_all add: w st del: update_wait_frame)
  then have "queues_ok X ?s" using wait_okD(3) [OF ok] by (simp add: queues_ok_def)
  moreover have "flags_ok ?s" using wait_okD(5) [OF ok] by (simp add: flags_ok_def)
  moreover have "listed ?s = listed s" by (rule listed_cong) (simp_all only: w(5) st)
  then have "lists_ok ?s" using wait_okD(6) [OF ok] lists_ok_cong [OF same_listsI [of ?s s]] f(7) by simp
  ultimately show "wait_ok X ?s" by (intro wait_okI)
qed

lemma enter_tree_ok:
  fixes tr :: ThreadTree
  assumes ok: "wait_ok X s" and no: "waits_in s t = None" "m_condvar_tree (waits s t) = None"
  defines "s1 \<equiv> tree_insert_thread tr t (update_wait t (\<lambda>w. w\<lparr>m_condvar_tree := Some tr\<rparr>) s)"
  shows "wait_ok (insert t X) s1" and "m_condvar_tree (waits s1 t) = Some tr" and "waits_in s1 t = None"
    and "m_time (waits s1 t) = m_time (waits s t)"
proof -
  note sys = system_okD [OF wait_okD(1) [OF ok]]
  have w: "held s1 u = held s u" "waits_in s1 u = waits_in s u" "m_base_priority (waits s1 u) = m_base_priority (waits s u)"
    "m_address_key (waits s1 u) = m_address_key (waits s u)" "m_is_kernel_address_key (waits s1 u) = m_is_kernel_address_key (waits s u)"
    "m_condvar_tree (waits s1 u) = (if u = t then Some tr else m_condvar_tree (waits s u))"
    "m_condvar_key (waits s1 u) = m_condvar_key (waits s u)" "m_wait_queue (waits s1 u) = m_wait_queue (waits s u)"
    "m_time (waits s1 u) = m_time (waits s u)" for u by (simp_all add: s1_def tree_insert_thread_def)
  then show "m_condvar_tree (waits s1 t) = Some tr" "waits_in s1 t = None" "m_time (waits s1 t) = m_time (waits s t)"
    using no by simp_all
  have i: "lock_infos s1 = lock_infos s" "free_lock_infos s1 = free_lock_infos s" "GetPriority s1 = GetPriority s"
    "kernel s1 = kernel s" "m_task_tree s1 = m_task_tree s" "m_next_task s1 = m_next_task s"
    by (simp_all add: s1_def tree_insert_thread_def)
  have own: "GetLockOwner s1 = GetLockOwner s" by (simp add: GetLockOwner_def w i fun_eq_iff cong: option.case_cong)
  have st: "GetState s1 = GetState s" by (simp add: GetState_def i fun_eq_iff)
  have cmp: "ConditionVariableComparator s1 = ConditionVariableComparator s"
    "ConditionVariableComparator (update_wait t (\<lambda>w. w\<lparr>m_condvar_tree := Some tr\<rparr>) s) = ConditionVariableComparator s"
    unfolding ConditionVariableComparator_def w i by (simp_all add: fun_eq_iff)
  have tree: "thread_tree s1 = (thread_tree s)(tr := insert_ordered (ConditionVariableComparator s) t (thread_tree s tr))"
    unfolding s1_def tree_insert_thread_def cmp by simp
  have out: "t \<notin> set (thread_tree s v)" for v using treesD(3) [OF sys(2), of t v] no(2) by simp
  have "trees_ok s1"
  proof (rule treesI)
    show "distinct (thread_tree s1 v)" for v using treesD(1) [OF sys(2)] out unfolding tree by simp
    show "sorted_wrt (\<lambda>a b. \<not> ConditionVariableComparator s1 b a) (thread_tree s1 v)" for v
      using treesD(2) [OF sys(2), of v] insert_by_key [OF treesD(2) [OF sys(2), of tr]] unfolding cmp tree by simp
    show "u \<in> set (thread_tree s1 v) \<longleftrightarrow> m_condvar_tree (waits s1 u) = Some v" for u v
      using treesD(3) [OF sys(2), of u v] out unfolding tree w by (cases "u = t"; cases "v = tr") simp_all
    show "m_condvar_tree (waits s1 u) \<noteq> None \<Longrightarrow> waits_in s1 u = None" for u
      using treesD(4) [OF sys(2), of u] no(1) unfolding w by (cases "u = t") simp_all
  qed
  moreover have "locks_ok {} s1" using sys(1) unfolding locks_ok_def lock_ok_def slab_ok_def w i .
  moreover have "counts_ok s1" using sys(3) unfolding counts_ok_def kernel_waiters_def w i .
  moreover have "bases_ok s1" using sys(4) unfolding bases_ok_def GetBasePriority_def w i .
  ultimately have "system_ok s1" using sys(5) i(4) by (simp add: system_ok_def)
  moreover have "inherits {} s1" using wait_okD(2) [OF ok] unfolding inherits_def best_priority_def GetBasePriority_def own w i .
  moreover have "tasks_ok s1" using wait_okD(4) [OF ok] by (subst tasks_ok_cong [of _ s]) (simp_all add: w i)
  moreover have "queues_ok (insert t X) s1"
    by (rule queues_ok_one(1) [OF wait_okD(3) [OF ok]]) (rule queue_ok_cong, simp_all add: w st)
  moreover have "flags_ok s1" using wait_okD(5) [OF ok] by (simp add: flags_ok_def i)
  moreover have "listed s1 = listed s" by (rule listed_cong) (simp_all add: w st)
  moreover have "same_lists s s1" by (rule same_listsI) (simp_all add: s1_def tree_insert_thread_def)
  then have "lists_at K s1 = lists_at K s" for K by (rule lists_at_cong)
  ultimately show "wait_ok (insert t X) s1" using wait_okD(6) [OF ok] by (intro wait_okI) (simp_all add: lists_ok_def)
qed

lemma wait_ok_one: "wait_ok (insert t X) s \<Longrightarrow> queue_ok s t \<Longrightarrow> wait_ok X s"
  by (auto simp: wait_ok_def waiting_ok_def queues_ok_def)

text \<open>A thread becomes a waiter of an owner.\<close>

lemma join_lock_ok:
  assumes ok: "wait_ok X s" and no: "waits_in s t = None" "m_condvar_tree (waits s t) = None" and t: "t < SlabCountKThread"
  obtains s1 where "AddWaiter cur owner t s = Some s1" and "wait_ok (insert t X) s1" and "waits_in s1 t \<noteq> None"
    and "same_rest s s1" and "same_threads s s1"
proof -
  obtain s1 where s1: "AddWaiter cur owner t s = Some s1" "system_ok s1" "inherits {} s1"
    "GetLockOwner s1 = (GetLockOwner s)(t := Some owner)" "same_rest s s1" "same_threads s s1"
    by (rule AddWaiter_ok [OF wait_okD(1,2) [OF ok] no t]) (rule that)
  have "wait_ok (X \<union> {t}) s1" using s1(4) by (intro lock_operation_ok [OF ok s1(2,3,5,6)]) simp
  then have "wait_ok (insert t X) s1" by simp
  moreover have "waits_in s1 t \<noteq> None" using s1(4) lock_owner_None [OF system_okD(1) [OF s1(2)], of t] by simp
  ultimately show thesis using s1 that by blast
qed

lemma WaitForAddress_ok:
  assumes ok: "wait_ok {} s" and cur: "GetState s cur \<noteq> Waiting" "cur < SlabCountKThread"
  shows "\<exists>r s1. WaitForAddress handles cur p handle addr v s = Some (r, s1) \<and> wait_ok {} s1"
proof -
  note n = not_waiting [OF ok cur(1)]
  let ?s = "SetUserAddressKey cur addr v s"
  have key: "wait_ok {} ?s" unfolding SetUserAddressKey_def by (rule key_changed_ok(1) [OF ok n(1,2)]) simp_all
  have n': "waits_in ?s cur = None" "m_condvar_tree (waits ?s cur) = None" "m_time (waits ?s cur) \<le> 0" "GetState ?s cur \<noteq> Waiting"
    using n cur(1) by (simp_all add: SetUserAddressKey_def GetState_def)
  let ?q = "\<lparr>queue_kind = ForAddress, m_hardware_timer = False\<rparr>"
  have wait: "\<exists>s2. Option.bind (AddWaiter cur owner cur ?s) (BeginWait cur ?q) = Some s2 \<and> wait_ok {} s2" for owner
  proof -
    obtain s1 where s1: "AddWaiter cur owner cur ?s = Some s1" "wait_ok {cur} s1" "waits_in s1 cur \<noteq> None"
      "same_rest ?s s1" "same_threads ?s s1" by (rule join_lock_ok [OF key n'(1,2) cur(2)]) (rule that)
    note rest = same_rest_members [OF s1(4)]
    have place: "place_ok (queue_kind ?q) (waits_in s1 cur \<noteq> None) (m_condvar_tree (waits s1 cur))"
      and time: "m_time (waits s1 cur) \<le> 0" using s1(3) n' rest by simp_all
    have st: "GetState s1 cur \<noteq> Waiting" using n'(4) GetState_threads [OF s1(5), of cur] by simp
    obtain s2 where "BeginWait cur ?q s1 = Some s2" "wait_ok {} s2"
      by (rule BeginWait_ok [OF s1(2) cur(2) time place st]) (simp, rule that)
    then show ?thesis using s1(1) by simp
  qed
  show ?thesis
  proof (cases "handles handle")
    case None
    then show ?thesis using ok by (simp add: WaitForAddress_def)
  next
    case (Some owner)
    then show ?thesis using ok wait [of owner] by (auto simp: WaitForAddress_def bind_eq_Some_conv)
  qed
qed

section \<open>Condition variables\<close>

lemma UpdateLockAtomic_write: "\<exists>v. snd (UpdateLockAtomic p a z m s) = WriteToUser p a v s"
  by (auto simp: UpdateLockAtomic_def Let_def)

lemma SignalImpl_ok:
  assumes ok: "wait_ok {t} s" and r: "ready s t"
  shows "\<exists>s1. SignalImpl handles cur p t s = Some s1 \<and> wait_ok {} s1 \<and> keeps s s1"
proof -
  obtain prev s0 where u: "UpdateLockAtomic p (m_address_key (waits s t)) (m_address_key_value (waits s t)) HandleWaitMask s = (prev, s0)"
    by (cases "UpdateLockAtomic p (m_address_key (waits s t)) (m_address_key_value (waits s t)) HandleWaitMask s")
  obtain v where v: "s0 = WriteToUser p (m_address_key (waits s t)) v s"
    using UpdateLockAtomic_write [of p "m_address_key (waits s t)" "m_address_key_value (waits s t)" HandleWaitMask s] u by auto
  have s0: "wait_ok {t} s0" "ready s0 t" "keeps s s0" using ok r by (simp_all add: v)
  have endw: "\<exists>s1. KThread_EndWait t res s' = Some s1 \<and> wait_ok {} s1 \<and> keeps s s1"
    if a: "wait_ok {t} s'" and b: "ready s' t" and c: "keeps s s'" for res s'
  proof -
    obtain s1 where "KThread_EndWait t res s' = Some s1" "wait_ok {} s1" "ended t s' s1"
      by (rule ready_EndWait [OF a b]) (rule that)
    then show ?thesis using keeps_trans [OF c] by (auto simp: ended_def)
  qed
  have join: "\<exists>s1. AddWaiter cur owner t s0 = Some s1 \<and> wait_ok {} s1 \<and> keeps s s1" for owner
  proof -
    have r0: "waits_in s0 t = None" "m_condvar_tree (waits s0 t) = None" "t < SlabCountKThread" "GetState s0 t = Waiting"
      using s0(2) by (simp_all add: ready_def)
    obtain s1 where s1: "AddWaiter cur owner t s0 = Some s1" "wait_ok (insert t {t}) s1" "waits_in s1 t \<noteq> None"
      "same_rest s0 s1" "same_threads s0 s1" by (rule join_lock_ok [OF s0(1) r0(1-3)]) (rule that)
    note rest = same_rest_members [OF s1(4)]
    have "queue_ok s1 t" using s0(2) s1(3) r0 by (simp add: queue_ok_def ready_def rest GetState_threads [OF s1(5)])
    then have "wait_ok {} s1" using wait_ok_one [of t "{}" s1] s1(2) by simp
    then show ?thesis using s1(1) keeps_trans [OF s0(3) lock_operation_keeps [OF s1(4,5)]] by blast
  qed
  have w: "keeps s (WriteToUser p a x s0)" for a x using keeps_trans [OF s0(3) WriteToUser_frame(7)] .
  show ?thesis
    using endw [OF s0] endw [of "WriteToUser p (m_address_key (waits s t)) (m_address_key_value (waits s t)) s0"] s0 w join
    unfolding SignalImpl_def Let_def u by (auto split: option.split)
qed

lemma successor_in: "distinct ys \<Longrightarrow> successor x ys = Some y \<Longrightarrow> y \<in> set ys \<and> y \<noteq> x"
  by (induction ys) (auto split: if_splits list.splits)

lemma tree_smaller:
  assumes ok: "trees_ok s" "trees_ok s1" and t: "t \<in> set (thread_tree s tr)"
    and cv: "\<And>u. m_condvar_tree (waits s1 u) = (if u = t then None else m_condvar_tree (waits s u))"
  shows "length (thread_tree s1 tr) < length (thread_tree s tr)"
proof -
  have "set (thread_tree s1 tr) = set (thread_tree s tr) - {t}"
    using treesD(3) [OF ok(1)] treesD(3) [OF ok(2)] by (auto simp: cv split: if_splits)
  moreover have "card (set (thread_tree s tr) - {t}) < card (set (thread_tree s tr))"
    using t by (intro card_Diff1_less) auto
  ultimately show ?thesis using distinct_card [OF treesD(1) [OF ok(1)]] distinct_card [OF treesD(1) [OF ok(2)]] by metis
qed

lemma signal_threads_ok: "wait_ok {} s \<Longrightarrow> \<forall>t. it = Some t \<longrightarrow> t \<in> set (thread_tree s (ConditionVariableTree p)) \<Longrightarrow>
    \<exists>it1 s1. signal_threads handles cur p key count it n s = Some (it1, s1) \<and> wait_ok {} s1"
proof (induction "length (thread_tree s (ConditionVariableTree p))" arbitrary: s it n rule: less_induct)
  case less
  let ?tr = "ConditionVariableTree p"
  note sys = system_okD [OF wait_okD(1) [OF less.prems(1)]]
  show ?case
  proof (cases it)
    case None
    then show ?thesis using less.prems(1) by (subst signal_threads.simps) simp
  next
    case (Some t)
    show ?thesis
    proof (cases "(count \<le> 0 \<or> n < count) \<and> m_condvar_key (waits s t) = key")
      case False
      show ?thesis using less.prems(1) unfolding Some signal_threads.simps [of _ _ _ _ _ "Some t"] option.case if_not_P [OF False]
        by blast
    next
      case True
      have mem: "t \<in> set (thread_tree s ?tr)" using less.prems(2) Some by blast
      then have cv: "m_condvar_tree (waits s t) = Some ?tr" using treesD(3) [OF sys(2)] by simp
      note l = left_tree_ok [OF less.prems(1) cv]
      have q: "queue_ok s t" using wait_okD(3) [OF less.prems(1)] by (simp add: queues_ok_def)
      then have st: "GetState s t = Waiting" using cv by (auto simp: queue_ok_def split: if_splits)
      obtain k where k: "m_wait_queue (waits s t) = Some k" "place_ok (queue_kind k) (waits_in s t \<noteq> None) (Some ?tr)"
        "0 < m_time (waits s t) \<longrightarrow> m_hardware_timer k" "t < SlabCountKThread"
        using q st cv unfolding queue_ok_def by auto
      have "place_ok (queue_kind k) True None" using k(2) by (cases "queue_kind k") auto
      then have r: "ready (left_tree ?tr t s) t" using k st l(3,5) by (simp add: ready_def)
      obtain s1 where e: "tree_erase_thread ?tr t s = Some s1" "update_wait t (\<lambda>w. w\<lparr>m_condvar_tree := None\<rparr>) s1 = left_tree ?tr t s"
        using leaving(1) [OF mem] by blast
      obtain s2 where s2: "SignalImpl handles cur p t (left_tree ?tr t s) = Some s2" "wait_ok {} s2" "keeps (left_tree ?tr t s) s2"
        using SignalImpl_ok [OF l(1) r, of handles cur p] by blast
      have cv2: "m_condvar_tree (waits s2 u) = (if u = t then None else m_condvar_tree (waits s u))" for u
        using s2(3) by (simp add: keeps_def)
      note sys2 = system_okD [OF wait_okD(1) [OF s2(2)]]
      have it1: "\<forall>u. successor t (thread_tree s ?tr) = Some u \<longrightarrow> u \<in> set (thread_tree s2 ?tr)"
      proof (intro allI impI)
        fix u
        assume that: "successor t (thread_tree s ?tr) = Some u"
        show "u \<in> set (thread_tree s2 ?tr)" using successor_in [OF treesD(1) [OF sys(2)] that] treesD(3) [OF sys(2), of u ?tr] treesD(3) [OF sys2(2), of u ?tr] cv2 by simp
      qed
      from less.hyps [OF tree_smaller [OF sys(2) sys2(2) mem cv2] s2(2) it1, where n = "n + 1"]
      show ?thesis using Some True e s2(1) by (subst signal_threads.simps) simp
    qed
  qed
qed

lemma nfind_key_in: "nfind_key tr key prio s = Some t \<Longrightarrow> t \<in> set (thread_tree s tr)"
  by (auto simp: nfind_key_def find_Some_iff)

lemma KConditionVariable_Signal_ok:
  assumes "wait_ok {} s"
  shows "\<exists>s1. KConditionVariable_Signal handles cur p key count s = Some s1 \<and> wait_ok {} s1"
proof -
  obtain it s1 where "signal_threads handles cur p key count (nfind_key (ConditionVariableTree p) key (- 1) s) 0 s = Some (it, s1)"
    "wait_ok {} s1"
    using signal_threads_ok [OF assms, of "nfind_key (ConditionVariableTree p) key (- 1) s" p handles cur key count 0]
      nfind_key_in [of "ConditionVariableTree p" key "- 1" s] by blast
  then show ?thesis by (simp add: KConditionVariable_Signal_def)
qed

text \<open>A thread that waits for nothing enters a tree and begins to wait.\<close>

lemma tree_wait_ok:
  assumes ok: "wait_ok {} s" and cur: "GetState s cur \<noteq> Waiting" "cur < SlabCountKThread"
    and f: "\<And>w. f w = (g w)\<lparr>m_condvar_tree := Some tr\<rparr>"
    and g: "m_held_lock_info_list (g (waits s cur)) = held s cur" "m_waiting_lock_info (g (waits s cur)) = waits_in s cur"
      "m_base_priority (g (waits s cur)) = m_base_priority (waits s cur)" "m_condvar_tree (g (waits s cur)) = m_condvar_tree (waits s cur)"
      "m_wait_queue (g (waits s cur)) = m_wait_queue (waits s cur)" "m_time (g (waits s cur)) = m_time (waits s cur)"
      "m_pinned_waiter_list (g (waits s cur)) = pinned_waiters s cur"
    and place: "place_ok kind False (Some tr)"
  shows "\<exists>s1. map_option (\<lambda>s1. (None :: WaitResult option, register_sleep cur timeout s1))
      (BeginWait cur \<lparr>queue_kind = kind, m_hardware_timer = timeout > 0\<rparr> (tree_insert_thread tr cur (update_wait cur f s))) =
    Some (None, s1) \<and> wait_ok {} s1"
proof -
  note n = not_waiting [OF ok cur(1)]
  let ?g = "update_wait cur g s" and ?q = "\<lparr>queue_kind = kind, m_hardware_timer = timeout > 0\<rparr>"
  have ok1: "wait_ok {} ?g" by (rule key_changed_ok(1) [where f = g, OF ok n(1,2) g])
  have n1: "waits_in ?g cur = None" "m_condvar_tree (waits ?g cur) = None" "m_time (waits ?g cur) \<le> 0" using n g by simp_all
  let ?t = "tree_insert_thread tr cur (update_wait cur (\<lambda>w. w\<lparr>m_condvar_tree := Some tr\<rparr>) ?g)"
  have eq: "tree_insert_thread tr cur (update_wait cur f s) = ?t" by (simp add: update_wait_def f)
  note e = enter_tree_ok [OF ok1 n1(1,2), of tr]
  have time: "m_time (waits ?t cur) \<le> 0" using e(4) n1(3) by simp
  have st: "GetState ?t cur \<noteq> Waiting" and off: "off_list (Some (queue_kind ?q))"
    using cur(1) place_off_list(2) [OF place] by (simp_all add: GetState_def tree_insert_thread_def)
  have pl: "place_ok (queue_kind ?q) (waits_in ?t cur \<noteq> None) (m_condvar_tree (waits ?t cur))" using place e(2,3) by simp
  obtain s1 where s1: "BeginWait cur ?q ?t = Some s1" "wait_ok {} s1" "GetState s1 cur = Waiting"
    "m_wait_queue (waits s1 cur) = Some ?q" "m_time (waits s1 cur) \<le> 0"
    by (rule BeginWait_ok [OF e(1) cur(2) time pl st off]) (rule that)
  have "wait_ok {} (register_sleep cur timeout s1)" by (rule register_sleep_ok [OF s1(2-5)]) simp
  then show ?thesis using s1(1) unfolding eq by simp
qed

lemma KConditionVariable_Wait_ok:
  assumes ok: "wait_ok {} s" and cur: "GetState s cur \<noteq> Waiting" "cur < SlabCountKThread"
  shows "\<exists>r s1. KConditionVariable_Wait cur p addr key v timeout s = Some (r, s1) \<and> wait_ok {} s1"
proof (cases "IsTerminationRequested s cur")
  case True
  then show ?thesis using ok by (simp add: KConditionVariable_Wait_def)
next
  case False
  obtain nxt others s1 where s1: "RemoveWaiterByKey cur cur addr False s = Some (nxt, others, s1)" "wait_ok (set_option nxt) s1"
    "handed cur addr False s nxt s1" "keeps s s1" "\<And>v. nxt = Some v \<Longrightarrow> ready s1 v" "\<And>v. nxt = Some v \<Longrightarrow> GetState s v = Waiting"
    by (rule hand_over_ok [OF ok]) (rule that)
  have r: "\<forall>v. nxt = Some v \<longrightarrow> ready s1 v" using s1(5) by blast
  obtain s2 where s2: "end_next_wait nxt s1 = Some s2" "wait_ok {} s2" "keeps s1 s2" "GetLockOwner s2 = GetLockOwner s1"
    by (rule end_next_wait_ok [OF s1(2) r]) (rule that)
  let ?s3 = "WriteToUser p addr (next_tag nxt others s1) (WriteToUser p key 1 s2)"
  have s3: "wait_ok {} ?s3" "GetState ?s3 cur \<noteq> Waiting" using s2(2) keeps_trans [OF s1(4) s2(3)] cur(1) by (auto simp: keeps_def)
  let ?g = "\<lambda>w. w\<lparr>m_condvar_key := key, m_address_key := addr, m_address_key_value := v, m_is_kernel_address_key := False\<rparr>"
  let ?f = "\<lambda>w. w\<lparr>m_condvar_tree := Some (ConditionVariableTree p), m_condvar_key := key, m_address_key := addr,
            m_address_key_value := v, m_is_kernel_address_key := False\<rparr>"
  have "\<exists>s4. map_option (\<lambda>s1. (None :: WaitResult option, register_sleep cur timeout s1))
      (BeginWait cur \<lparr>queue_kind = ForConditionVariable (ConditionVariableTree p), m_hardware_timer = timeout > 0\<rparr>
        (tree_insert_thread (ConditionVariableTree p) cur (update_wait cur ?f ?s3))) = Some (None, s4) \<and> wait_ok {} s4"
    by (rule tree_wait_ok [OF s3 cur(2), where g = ?g]) simp_all
  then show ?thesis using False s1(1) s2(1) s3(1) by (auto simp: KConditionVariable_Wait_def SetConditionVariable_def Let_def)
qed

section \<open>The address arbiter\<close>

lemma tree_member:
  assumes ok: "wait_ok {} s" and mem: "t \<in> set (thread_tree s tr)"
  obtains q where "m_condvar_tree (waits s t) = Some tr" and "waits_in s t = None" and "GetState s t = Waiting"
    and "m_wait_queue (waits s t) = Some q" and "place_ok (queue_kind q) False (Some tr)"
    and "0 < m_time (waits s t) \<longrightarrow> m_hardware_timer q" and "t < SlabCountKThread"
proof -
  note sys = system_okD [OF wait_okD(1) [OF ok]]
  have cv: "m_condvar_tree (waits s t) = Some tr" using mem treesD(3) [OF sys(2)] by simp
  have w: "waits_in s t = None" using cv treesD(4) [OF sys(2), of t] by simp
  have "queue_ok s t" using wait_okD(3) [OF ok] by (simp add: queues_ok_def)
  then show thesis using that cv w by (auto simp: queue_ok_def split: if_splits)
qed

lemma signal_arbiter_ok: "wait_ok {} s \<Longrightarrow> \<forall>t. it = Some t \<longrightarrow> t \<in> set (thread_tree s (AddressArbiterTree p)) \<Longrightarrow>
    \<exists>s1. signal_arbiter p addr count it n s = Some s1 \<and> wait_ok {} s1"
proof (induction "length (thread_tree s (AddressArbiterTree p))" arbitrary: s it n rule: less_induct)
  case less
  let ?tr = "AddressArbiterTree p"
  note sys = system_okD [OF wait_okD(1) [OF less.prems(1)]]
  show ?case
  proof (cases it)
    case None
    then show ?thesis using less.prems(1) by (subst signal_arbiter.simps) simp
  next
    case (Some t)
    show ?thesis
    proof (cases "(count \<le> 0 \<or> n < count) \<and> m_condvar_key (waits s t) = addr")
      case False
      show ?thesis using less.prems(1) unfolding Some signal_arbiter.simps [of _ _ _ "Some t"] option.case if_not_P [OF False]
        by blast
    next
      case True
      have mem: "t \<in> set (thread_tree s ?tr)" using less.prems(2) Some by blast
      obtain q where q: "m_condvar_tree (waits s t) = Some ?tr" "waits_in s t = None" "GetState s t = Waiting"
        "m_wait_queue (waits s t) = Some q" "place_ok (queue_kind q) False (Some ?tr)"
        "0 < m_time (waits s t) \<longrightarrow> m_hardware_timer q" "t < SlabCountKThread"
        by (rule tree_member [OF less.prems(1) mem]) (rule that)
      note kind = place_ends(2) [OF q(5)] and off = place_off_list(2) [OF q(5)]
      obtain s1 where s1: "KThread_EndWait t ResultSuccess s = Some s1" "wait_ok {t} s1"
        "m_condvar_tree (waits s t) = None \<Longrightarrow> wait_ok {} s1" "ended t s s1"
        by (rule KThread_EndWait_ok [OF wait_ok_weaken [OF less.prems(1)] q(3,4) kind q(6,2) off]) (rule that)
      have tree1: "thread_tree s1 = thread_tree s" "GetState s1 t = Runnable" "m_time (waits s1 t) \<le> 0"
        and cv1: "m_condvar_tree (waits s1 u) = m_condvar_tree (waits s u)" for u
        using s1(4) by (simp_all add: ended_def keeps_def)
      have cv: "m_condvar_tree (waits s1 t) = Some ?tr" using cv1 q(1) by simp
      note l = left_tree_ok [OF s1(2) cv]
      let ?s2 = "left_tree ?tr t s1"
      have "queue_ok ?s2 t" unfolding queue_ok_def l(3) using tree1(2,3) l(5) by simp
      then have ok2: "wait_ok {} ?s2" using wait_ok_one [of t "{}" ?s2] l(1) by simp
      note sys2 = system_okD [OF wait_okD(1) [OF ok2]]
      have cv2: "m_condvar_tree (waits ?s2 u) = (if u = t then None else m_condvar_tree (waits s u))" for u
        using cv1 by simp
      have it1: "\<forall>u. successor t (thread_tree s ?tr) = Some u \<longrightarrow> u \<in> set (thread_tree ?s2 ?tr)"
      proof (intro allI impI)
        fix u
        assume u: "successor t (thread_tree s ?tr) = Some u"
        show "u \<in> set (thread_tree ?s2 ?tr)"
          using successor_in [OF treesD(1) [OF sys(2)] u] treesD(3) [OF sys(2), of u ?tr] treesD(3) [OF sys2(2), of u ?tr] cv2 [of u]
          by (simp del: left_tree_frame)
      qed
      note e = leaving(2) [OF l(4)]
      from less.hyps [OF tree_smaller [OF sys(2) sys2(2) mem cv2] ok2 it1, where n = "n + 1"]
      show ?thesis using Some True e s1(1) tree1(1) by (subst signal_arbiter.simps) (simp add: Let_def)
    qed
  qed
qed

lemma signals_ok:
  assumes "wait_ok {} s"
  shows "\<exists>s1. signal_arbiter p addr count (nfind_key (AddressArbiterTree p) addr (- 1) s) 0 s = Some s1 \<and> wait_ok {} s1"
  using signal_arbiter_ok [OF assms, of "nfind_key (AddressArbiterTree p) addr (- 1) s" p addr count 0]
    nfind_key_in [of "AddressArbiterTree p" addr "- 1" s] by blast

lemma nfind_key_WriteToUser [simp]: "nfind_key tr key n (WriteToUser p a v s) = nfind_key tr key n s"
  by (simp add: nfind_key_def GetPriority_def WriteToUser_def)

lemma KAddressArbiter_Signal_ok:
  assumes "wait_ok {} s"
  shows "\<exists>r s1. KAddressArbiter_Signal p addr count s = Some (r, s1) \<and> wait_ok {} s1"
  using signals_ok [OF assms, of p addr count] by (auto simp: KAddressArbiter_Signal_def)

lemma SignalAndIncrementIfEqual_ok:
  assumes "wait_ok {} s"
  shows "\<exists>r s1. SignalAndIncrementIfEqual p addr v count s = Some (r, s1) \<and> wait_ok {} s1"
proof (cases "ReadFromUser p addr s = v")
  case True
  have "wait_ok {} (WriteToUser p addr (v + 1) s)" using assms by simp
  from signals_ok [OF this, of p addr count] show ?thesis
    using True by (auto simp: SignalAndIncrementIfEqual_def UpdateIfEqual_def Let_def)
next
  case False
  then show ?thesis using assms by (simp add: SignalAndIncrementIfEqual_def UpdateIfEqual_def Let_def)
qed

lemma SignalAndModifyByWaitingCountIfEqual_ok:
  assumes "wait_ok {} s"
  shows "\<exists>r s1. SignalAndModifyByWaitingCountIfEqual p addr v count s = Some (r, s1) \<and> wait_ok {} s1"
proof (cases "ReadFromUser p addr s = v")
  case True
  have "wait_ok {} (WriteToUser p addr (waiting_count_value p addr v count s) s)" using assms by simp
  from signals_ok [OF this, of p addr count] signals_ok [OF assms, of p addr count] show ?thesis
    using True by (auto simp: SignalAndModifyByWaitingCountIfEqual_def UpdateIfEqual_def Let_def)
next
  case False
  then show ?thesis using assms by (simp add: SignalAndModifyByWaitingCountIfEqual_def UpdateIfEqual_def Let_def)
qed

lemma arbiter_wait_ok:
  assumes ok: "wait_ok {} s" and cur: "GetState s cur \<noteq> Waiting" "cur < SlabCountKThread"
  shows "\<exists>r s1. arbiter_wait cur p addr timeout s = Some (r, s1) \<and> wait_ok {} s1"
proof -
  have "\<exists>s1. map_option (\<lambda>s1. (None :: WaitResult option, register_sleep cur timeout s1))
      (BeginWait cur \<lparr>queue_kind = ForAddressArbiter (AddressArbiterTree p), m_hardware_timer = timeout > 0\<rparr>
        (tree_insert_thread (AddressArbiterTree p) cur
          (update_wait cur (\<lambda>w. w\<lparr>m_condvar_tree := Some (AddressArbiterTree p), m_condvar_key := addr\<rparr>) s))) =
      Some (None, s1) \<and> wait_ok {} s1"
    by (rule tree_wait_ok [OF ok cur, where g = "\<lambda>w. w\<lparr>m_condvar_key := addr\<rparr>"]) simp_all
  then show ?thesis unfolding arbiter_wait_def SetAddressArbiter_def by blast
qed

lemma WaitIfLessThan_ok:
  assumes ok: "wait_ok {} s" and cur: "GetState s cur \<noteq> Waiting" "cur < SlabCountKThread"
  shows "\<exists>r s1. WaitIfLessThan cur p addr v decrement timeout s = Some (r, s1) \<and> wait_ok {} s1"
proof -
  obtain user s1 where u: "(if decrement then DecrementIfLessThan p addr v s else (ReadFromUser p addr s, s)) = (user, s1)"
    by (cases "if decrement then DecrementIfLessThan p addr v s else (ReadFromUser p addr s, s)")
  have s1: "wait_ok {} s1 \<and> GetState s1 cur \<noteq> Waiting"
    using u ok cur(1) by (auto simp: DecrementIfLessThan_def Let_def split: if_splits)
  show ?thesis using ok s1 arbiter_wait_ok [OF conjunct1 [OF s1] conjunct2 [OF s1] cur(2), of p addr timeout]
    by (simp add: WaitIfLessThan_def u)
qed

lemma WaitIfEqual_ok:
  assumes ok: "wait_ok {} s" and cur: "GetState s cur \<noteq> Waiting" "cur < SlabCountKThread"
  shows "\<exists>r s1. WaitIfEqual cur p addr v timeout s = Some (r, s1) \<and> wait_ok {} s1"
  using ok arbiter_wait_ok [OF assms, of p addr timeout] by (simp add: WaitIfEqual_def)

section \<open>The scheduler under the locks\<close>

text \<open>What a step of the scheduler leaves alone: priorities, counts of kernel waiters, and who waits.\<close>

definition keeps_waits :: "Kernel \<Rightarrow> Kernel \<Rightarrow> bool" where
  "keeps_waits k k1 \<longleftrightarrow> (\<forall>t.
     m_priority (threads k1 t) = m_priority (threads k t) \<and>
     m_num_kernel_waiters (threads k1 t) = m_num_kernel_waiters (threads k t) \<and>
     IsDummyThread (threads k1 t) = IsDummyThread (threads k t) \<and>
     (m_suspend_allowed_flags (threads k t) AND 15 = 0 \<longrightarrow> m_suspend_allowed_flags (threads k1 t) AND 15 = 0) \<and>
     (m_thread_state (threads k1 t) AND ThreadState_Mask = Waiting \<longleftrightarrow> m_thread_state (threads k t) AND ThreadState_Mask = Waiting))"

lemma scheduler_step_ok:
  assumes ok: "wait_ok X s" and k: "kernel_ok k" "keeps_waits (kernel s) k"
  shows "wait_ok X (s\<lparr>kernel := k\<rparr>)"
proof -
  let ?s = "s\<lparr>kernel := k\<rparr>"
  have th: "m_priority (threads k t) = m_priority (threads (kernel s) t)"
    "m_num_kernel_waiters (threads k t) = m_num_kernel_waiters (threads (kernel s) t)"
    "IsDummyThread (threads k t) = IsDummyThread (threads (kernel s) t)"
    "GetState ?s t = Waiting \<longleftrightarrow> GetState s t = Waiting" for t
    using k(2) by (simp_all add: keeps_waits_def GetState_def)
  have "queue_ok ?s t = queue_ok s t" for t unfolding queue_ok_def th(4) by simp
  moreover have "tasks_ok ?s" using wait_okD(4) [OF ok] by (subst tasks_ok_cong [of _ s]) simp_all
  moreover have "flags_ok ?s" using wait_okD(5) [OF ok] k(2) by (simp add: flags_ok_def keeps_waits_def)
  moreover have "listed ?s = listed s" by (rule listed_cong) (simp_all add: th(4))
  then have "lists_ok ?s" using wait_okD(6) [OF ok] lists_ok_cong [OF same_listsI [of ?s s]] by simp
  ultimately show ?thesis using wait_okD(3) [OF ok] system_kernel [OF wait_okD(1,2) [OF ok] k(1)] th
    by (intro wait_okI) (simp_all add: queues_ok_def)
qed

lemma Continue_keeps:
  assumes "Continue t k = Some k1"
  shows "keeps_waits k k1"
proof -
  have "threads k1 = threads (update_thread t (\<lambda>thread. thread\<lparr>m_thread_state := m_thread_state (threads k t) AND ThreadState_Mask\<rparr>) k)"
    using assms by (intro state_change_threads [where t = t]) (simp add: Continue_def Let_def)
  then show ?thesis using low_bits(2) [of "m_thread_state (threads k t)"] by (simp add: keeps_waits_def)
qed

lemma suspend_bits:
  fixes a b :: u32
  assumes "a AND 15 = 0"
  shows "(ucast (a AND b) OR (old AND ThreadState_Mask)) AND ThreadState_Mask = old AND ThreadState_Mask"
proof -
  have m: "ThreadState_Mask = mask 4" "(15 :: u32) = mask 4" by (simp_all add: ThreadState_Mask_def mask_eq_exp_minus_1)
  have a: "\<not> bit a n" if "n < 4" for n
  proof -
    have "\<not> bit (a AND mask 4) n" using assms unfolding m by simp
    then show ?thesis using that by (simp add: bit_simps)
  qed
  show ?thesis unfolding m by (rule bit_eqI) (auto simp: bit_simps dest: a)
qed

lemma UpdateState_keeps:
  assumes "UpdateState t k = Some k1" and "m_suspend_allowed_flags (threads k t) AND 15 = 0"
  shows "keeps_waits k k1"
proof -
  let ?new = "ucast (GetSuspendFlags (threads k t)) OR (m_thread_state (threads k t) AND ThreadState_Mask)"
  let ?k = "update_thread t (\<lambda>thread. thread\<lparr>m_thread_state := ?new\<rparr>) k"
  have "OnThreadStateChanged t (m_thread_state (threads k t)) ?k = Some k1 \<or> ?k = k1"
    using assms(1) by (simp add: UpdateState_def Let_def split: if_splits)
  then have "threads k1 = threads ?k" using state_change_threads by blast
  moreover have "?new AND ThreadState_Mask = m_thread_state (threads k t) AND ThreadState_Mask"
    unfolding GetSuspendFlags_def by (rule suspend_bits [OF assms(2)])
  ultimately show ?thesis by (simp add: keeps_waits_def)
qed

lemma TrySuspend_keeps:
  assumes "TrySuspend t k = Some k1" and "m_suspend_allowed_flags (threads k t) AND 15 = 0"
  shows "keeps_waits k k1"
  using assms UpdateState_keeps by (auto simp: TrySuspend_def keeps_waits_def split: if_splits)

lemma Continue_step_ok:
  assumes ok: "wait_ok {} s"
  shows "\<exists>s1. ContinueIfHasKernelWaiters t s = Some s1 \<and> wait_ok {} s1"
proof -
  obtain k where k: "Continue t (kernel s) = Some k" "kernel_ok k"
    using Continue_ok [OF system_okD(5) [OF wait_okD(1) [OF ok]], of t] by blast
  then show ?thesis using ok scheduler_step_ok [OF ok k(2) Continue_keeps [OF k(1)]]
    by (simp add: ContinueIfHasKernelWaiters_def on_kernel_def)
qed

lemma TrySuspend_step_ok:
  assumes ok: "wait_ok {} s"
  shows "\<exists>s1. on_kernel (TrySuspend t) s = Some s1 \<and> wait_ok {} s1"
proof -
  have k0: "kernel_ok (kernel s)" by (rule system_okD(5) [OF wait_okD(1) [OF ok]])
  have fl: "m_suspend_allowed_flags (threads (kernel s) t) AND 15 = 0" using wait_okD(5) [OF ok] by (simp add: flags_ok_def)
  obtain k where k: "TrySuspend t (kernel s) = Some k" "kernel_ok k"
    using k0 UpdateState_ok [OF k0, of t] by (cases "m_num_kernel_waiters (threads (kernel s) t) > 0")
      (auto simp: TrySuspend_def)
  then show ?thesis using scheduler_step_ok [OF ok k(2) TrySuspend_keeps [OF k(1) fl]] by (simp add: on_kernel_def)
qed

section \<open>Light locks\<close>

lemma tag_ok [simp]: "wait_ok X (s\<lparr>m_tag := m\<rparr>) = wait_ok X s"
  by (rule wait_ok_cong) (simp_all add: same_core_def same_lists_def)

lemma exchange_ok: "wait_ok {} s \<Longrightarrow> wait_ok {} (snd (KLightLock_exchange cur lock s))"
  by (simp add: KLightLock_exchange_def Let_def)

lemma release_ok: "wait_ok {} s \<Longrightarrow> wait_ok {} (snd (KLightLock_release cur lock s))"
  by (simp add: KLightLock_release_def)

lemma LockSlowPath_ok:
  assumes ok: "wait_ok {} s" and cur: "GetState s cur \<noteq> Waiting" "cur < SlabCountKThread"
  shows "\<exists>r s1. LockSlowPath owner cur lock s = Some (r, s1) \<and> wait_ok {} s1"
proof (cases "m_tag s lock = (Some owner, True)")
  case False
  then show ?thesis using ok by (auto simp: LockSlowPath_def)
next
  case True
  note n = not_waiting [OF ok cur(1)]
  let ?s = "SetKernelAddressKey cur lock s" and ?q = "\<lparr>queue_kind = ForKLightLock, m_hardware_timer = False\<rparr>"
  have key: "wait_ok {} ?s" unfolding SetKernelAddressKey_def by (rule key_changed_ok(1) [OF ok n(1,2)]) simp_all
  have n': "waits_in ?s cur = None" "m_condvar_tree (waits ?s cur) = None" "m_time (waits ?s cur) \<le> 0" "GetState ?s cur \<noteq> Waiting"
    using n cur(1) by (simp_all add: SetKernelAddressKey_def GetState_def)
  obtain s1 where s1: "AddWaiter cur owner cur ?s = Some s1" "wait_ok {cur} s1" "waits_in s1 cur \<noteq> None"
    "same_rest ?s s1" "same_threads ?s s1" by (rule join_lock_ok [OF key n'(1,2) cur(2)]) (rule that)
  note rest = same_rest_members [OF s1(4)]
  have place: "place_ok (queue_kind ?q) (waits_in s1 cur \<noteq> None) (m_condvar_tree (waits s1 cur))"
    and time: "m_time (waits s1 cur) \<le> 0" using s1(3) n' rest by simp_all
  have st: "GetState s1 cur \<noteq> Waiting" using n'(4) GetState_threads [OF s1(5), of cur] by simp
  obtain s2 where s2: "BeginWait cur ?q s1 = Some s2" "wait_ok {} s2"
    by (rule BeginWait_ok [OF s1(2) cur(2) time place st]) (simp, rule that)
  obtain s3 where s3: "ContinueIfHasKernelWaiters owner s2 = Some s3" "wait_ok {} s3"
    using Continue_step_ok [OF s2(2), of owner] by blast
  show ?thesis using True s1(1) s2 s3 by (auto simp: LockSlowPath_def)
qed

lemma UnlockSlowPath_ok:
  assumes ok: "wait_ok {} s"
  shows "\<exists>s1. UnlockSlowPath cur lock s = Some s1 \<and> wait_ok {} s1"
proof -
  obtain nxt others s1 where s1: "RemoveWaiterByKey cur cur lock True s = Some (nxt, others, s1)" "wait_ok (set_option nxt) s1"
    "handed cur lock True s nxt s1" "keeps s s1" "\<And>v. nxt = Some v \<Longrightarrow> ready s1 v" "\<And>v. nxt = Some v \<Longrightarrow> GetState s v = Waiting"
    by (rule hand_over_ok [OF ok]) (rule that)
  have "\<exists>s3. (case nxt of None \<Rightarrow> Some s1
      | Some t \<Rightarrow> Option.bind (KThread_EndWait t ResultSuccess s1) (\<lambda>s2.
          if IsSuspended s2 t then ContinueIfHasKernelWaiters t s2 else Some s2)) = Some s3 \<and> wait_ok {} s3"
  proof (cases nxt)
    case None
    then show ?thesis using s1(2) by simp
  next
    case (Some v)
    then have v: "wait_ok {v} s1" "ready s1 v" using s1(2,5) by simp_all
    obtain s2 where s2: "KThread_EndWait v ResultSuccess s1 = Some s2" "wait_ok {} s2" "ended v s1 s2"
      by (rule ready_EndWait [OF v]) (rule that)
    show ?thesis using Some s2(1,2) Continue_step_ok [OF s2(2), of v] by simp
  qed
  then obtain s3 where s3: "(case nxt of None \<Rightarrow> Some s1
      | Some t \<Rightarrow> Option.bind (KThread_EndWait t ResultSuccess s1) (\<lambda>s2.
          if IsSuspended s2 t then ContinueIfHasKernelWaiters t s2 else Some s2)) = Some s3" "wait_ok {} s3" by blast
  obtain s4 where s4: "(if IsSuspended s3 cur then on_kernel (TrySuspend cur) s3 else Some s3) = Some s4" "wait_ok {} s4"
    using s3(2) TrySuspend_step_ok [OF s3(2), of cur] by (cases "IsSuspended s3 cur") auto
  show ?thesis using s1(1) s3(1) s4 by (simp add: UnlockSlowPath_def)
qed

section \<open>Changes of a base priority and of flags\<close>

lemma base_set_ok:
  assumes ok: "wait_ok {} s" and b: "base_set t v s s1"
  shows "wait_ok {} s1"
proof -
  let ?s = "update_wait t (\<lambda>w. w\<lparr>m_base_priority := v\<rparr>) s"
  have b': "system_ok s1" "inherits {} s1" "GetLockOwner s1 = GetLockOwner s" "same_rest ?s s1" "same_threads s s1"
    using b by (simp_all add: base_set_def)
  note rest = same_rest_members [OF b'(4)]
  have w: "waits_in s1 u = None \<longleftrightarrow> waits_in s u = None" for u
    using lock_owner_None [OF system_okD(1) [OF b'(1)], of u] lock_owner_None [OF system_okD(1) [OF wait_okD(1) [OF ok]], of u] b'(3)
    by simp
  have "queue_ok s1 u = queue_ok s u" for u
    by (rule queue_ok_cong) (simp_all add: rest w GetState_threads [OF b'(5)])
  moreover have "tasks_ok s1" using wait_okD(4) [OF ok] by (subst tasks_ok_cong [of _ s]) (simp_all add: rest)
  moreover have "flags_ok s1" using wait_okD(5) [OF ok] same_threads_members(4) [OF b'(5)] by (simp add: flags_ok_def)
  moreover have "listed s1 = listed s" by (rule listed_cong) (simp_all add: rest GetState_threads [OF b'(5)])
  then have "lists_ok s1" using wait_okD(6) [OF ok] lists_ok_cong [OF same_listsI [of s1 s]] rest by simp
  ultimately show ?thesis using wait_okD(3) [OF ok] b'(1,2) by (intro wait_okI) (simp_all add: queues_ok_def)
qed

lemma flag_ok:
  "wait_ok {} s \<Longrightarrow> wait_ok {} (update_wait t (\<lambda>w. w\<lparr>m_termination_requested := b\<rparr>) s)"
  "wait_ok {} s \<Longrightarrow> wait_ok {} (update_wait t (\<lambda>w. w\<lparr>m_cancellable := b\<rparr>) s)"
  by (subst wait_ok_cong [of s], simp_all add: same_core_def same_lists_def)+

section \<open>New threads\<close>

text \<open>A new thread object, with its place in the scheduler and its members for waiting.\<close>

definition Thread_Initialize :: "int \<Rightarrow> int \<Rightarrow> nat option \<Rightarrow> ThreadType \<Rightarrow> nat \<Rightarrow> WaitState \<Rightarrow> WaitState option" where
  "Thread_Initialize prio virt_core owner_process thread_type t s =
     map_option (\<lambda>th. update_wait t (\<lambda>_. Initialize_wait prio)
         (s\<lparr>kernel := update_thread t (\<lambda>_. th) (kernel s),
            objects := (objects s)\<lparr>m_signaled := (m_signaled (objects s))(ThreadObject t := False)\<rparr>\<rparr>))
       (KThread_Initialize prio virt_core owner_process thread_type new_KThread)"

lemma initialized_members:
  assumes "KThread_Initialize prio virt_core owner_process ty new_KThread = Some th" and "creatable prio virt_core ty"
  shows "m_priority th = prio" "m_num_kernel_waiters th = 0" "m_suspend_allowed_flags th AND 15 = 0"
    "m_thread_state th AND ThreadState_Mask \<noteq> Waiting" "0 \<le> prio" "IsDummyThread th \<or> prio \<le> 64"
proof -
  have th: "m_priority th = prio" "m_num_kernel_waiters th = 0" "m_suspend_allowed_flags th = SuspendFlagMask"
    "m_thread_state th = (if ty = Type_Main \<or> ty = Type_Dummy then Runnable else 0)" "IsDummyThread th \<longleftrightarrow> ty = Type_Dummy"
    using assms unfolding creatable_def KThread_Initialize_def Let_def by auto
  show "m_priority th = prio" "m_num_kernel_waiters th = 0" by (rule th)+
  show "m_suspend_allowed_flags th AND 15 = 0" by (simp add: th(3) SuspendFlagMask_def)
  show "m_thread_state th AND ThreadState_Mask \<noteq> Waiting" using th(4) by (simp add: Waiting_def Runnable_def ThreadState_Mask_def)
  show "0 \<le> prio" "IsDummyThread th \<or> prio \<le> 64"
    using assms(2) th(5) by (auto simp: creatable_def LowestThreadPriority_def IdleThreadPriority_def)
qed

lemma Thread_Initialize_ok:
  assumes ok: "wait_ok {} s" and st: "GetState s t \<noteq> Waiting" "m_thread_state (threads (kernel s) t) \<noteq> Runnable"
    and none: "held s t = []" "pinned_waiters s t = []" and args: "creatable prio virt_core ty"
  shows "\<exists>s1. Thread_Initialize prio virt_core owner_process ty t s = Some s1 \<and> wait_ok {} s1"
proof -
  note sys = system_okD [OF wait_okD(1) [OF ok]] and n = not_waiting [OF ok st(1)]
  obtain th where th: "KThread_Initialize prio virt_core owner_process ty new_KThread = Some th"
    "kernel_ok (update_thread t (\<lambda>_. th) (kernel s))"
    using create_ok [OF sys(5) args st(2), of owner_process] by auto
  note m = initialized_members [OF th(1) args]
  let ?s = "update_wait t (\<lambda>_. Initialize_wait prio) (s\<lparr>kernel := update_thread t (\<lambda>_. th) (kernel s),
            objects := (objects s)\<lparr>m_signaled := (m_signaled (objects s))(ThreadObject t := False)\<rparr>\<rparr>)"
  have w: "held ?s u = held s u" "waits_in ?s u = waits_in s u" "m_condvar_tree (waits ?s u) = m_condvar_tree (waits s u)" for u
    using n(1,2) none(1) by (simp_all add: Initialize_wait_def)
  have i: "lock_infos ?s = lock_infos s" "free_lock_infos ?s = free_lock_infos s" "thread_tree ?s = thread_tree s" by simp_all
  have other: "waits ?s u = waits s u" "GetPriority ?s u = GetPriority s u" "GetBasePriority ?s u = GetBasePriority s u"
    "GetState ?s u = GetState s u" if "u \<noteq> t" for u
    using that by (simp_all add: GetPriority_def GetBasePriority_def GetState_def)
  have new: "GetPriority ?s t = prio" "GetBasePriority ?s t = prio" "GetState ?s t \<noteq> Waiting" "m_time (waits ?s t) = 0"
    using m(1,4) by (simp_all add: GetPriority_def GetBasePriority_def Initialize_wait_def GetState_def)
  have own: "GetLockOwner ?s = GetLockOwner s" unfolding GetLockOwner_def w i by (simp add: fun_eq_iff)
  have out: "u \<noteq> t" if "l \<in> set (held s v)" "u \<in> set (waiters s l)" for u v l
    using waiter_waits [OF sys(1) that] n(1) by auto
  have "locks_ok {} ?s"
  proof (rule locks_okI)
    show "distinct (held ?s v)" for v using distinct_held [OF sys(1)] unfolding w .
    show "lock_ok {} ?s v l" if "l \<in> set (held ?s v)" for v l
    proof -
      have l: "l \<in> set (held s v)" using that unfolding w .
      have same: "waits ?s u = waits s u \<and> GetPriority ?s u = GetPriority s u" if "u \<in> set (waiters s l)" for u
        using out [OF l that] other by blast
      then have "map (GetPriority ?s) (waiters s l) = map (GetPriority s) (waiters s l)" by (intro map_cong) blast+
      then show ?thesis using held_lock [OF sys(1) l] same unfolding lock_ok_def i by (metis (no_types, lifting))
    qed
    show "u < SlabCountKThread \<and> u \<in> set (waiters ?s l) \<and> (\<exists>v. l \<in> set (held ?s v))" if "waits_in ?s u = Some l" for u l
      using waits_in_locks [OF sys(1)] that unfolding w i .
    show "slab_ok ?s" using sys(1) unfolding locks_ok_def slab_ok_def w i by blast
  qed
  moreover have "trees_ok ?s"
  proof (rule treesI)
    show "distinct (thread_tree ?s tr)" for tr using treesD(1) [OF sys(2)] by simp
    show "sorted_wrt (\<lambda>a b. \<not> ConditionVariableComparator ?s b a) (thread_tree ?s tr)" for tr
    proof -
      have "t \<notin> set (thread_tree s tr)" using treesD(3) [OF sys(2), of t tr] n(2) by simp
      then have "ConditionVariableComparator ?s b a = ConditionVariableComparator s b a"
        if "a \<in> set (thread_tree s tr)" "b \<in> set (thread_tree s tr)" for a b
        using that other [of a] other [of b] unfolding ConditionVariableComparator_def by (cases "a = t"; cases "b = t") simp_all
      then show ?thesis using treesD(2) [OF sys(2), of tr] unfolding i by (auto intro: sorted_wrt_mono_rel [rotated])
    qed
    show "u \<in> set (thread_tree ?s tr) \<longleftrightarrow> m_condvar_tree (waits ?s u) = Some tr" for tr u using treesD(3) [OF sys(2)] unfolding w i .
    show "m_condvar_tree (waits ?s u) \<noteq> None \<Longrightarrow> waits_in ?s u = None" for u using treesD(4) [OF sys(2), of u] unfolding w .
  qed
  moreover have "m_num_kernel_waiters (threads (kernel ?s) u) = kernel_waiters ?s u" for u
  proof -
    have "kernel_waiters ?s u = kernel_waiters s u" unfolding kernel_waiters_def w i ..
    moreover have "kernel_waiters s t = 0" by (simp add: kernel_waiters_def none(1))
    ultimately show ?thesis using sys(3) m(2) by (simp add: counts_ok_def)
  qed
  then have "counts_ok ?s" by (simp add: counts_ok_def)
  moreover have "0 \<le> GetBasePriority ?s u \<and> (IsDummyThread (threads (kernel ?s) u) \<or> GetBasePriority ?s u \<le> 64)" for u
  proof (cases "u = t")
    case True
    then show ?thesis using new(2) m(5,6) by simp
  next
    case False
    then show ?thesis using other [OF False] sys(4) by (simp add: bases_ok_def)
  qed
  then have "bases_ok ?s" by (simp add: bases_ok_def)
  ultimately have "system_ok ?s" using th(2) by (simp add: system_ok_def)
  moreover have "GetPriority ?s u = best_priority ?s u" for u
  proof -
    have ne: "v \<noteq> t" if "GetLockOwner s v = Some u" for v using that n(4) by auto
    then have img: "GetPriority ?s ` {v. GetLockOwner s v = Some u} = GetPriority s ` {v. GetLockOwner s v = Some u}"
      using other(2) by (intro image_cong) auto
    show ?thesis
    proof (cases "u = t")
      case True
      have "{v. GetLockOwner s v = Some t} = {}" using none(1) by (auto simp: lock_owner_iff [OF sys(1)])
      then show ?thesis using True new(1,2) unfolding best_priority_def own by simp
    next
      case False
      have "GetPriority s u = best_priority s u" using wait_okD(2) [OF ok] unfolding inherits_def by blast
      then show ?thesis unfolding best_priority_def own img other(2,3) [OF False] .
    qed
  qed
  then have "inherits {} ?s" unfolding inherits_def by blast
  moreover have "queue_ok ?s u" for u
  proof (cases "u = t")
    case True
    then show ?thesis using new(3,4) n(1,2) w [of t] by (simp add: queue_ok_def del: update_wait_frame)
  next
    case False
    have "queue_ok ?s u = queue_ok s u" using other [OF False] by (intro queue_ok_cong) (simp_all del: update_wait_frame)
    then show ?thesis using wait_okD(3) [OF ok] by (simp add: queues_ok_def)
  qed
  then have "queues_ok {} ?s" by (simp add: queues_ok_def)
  moreover have "tasks_ok ?s"
  proof -
    have t: "t \<notin> set (m_task_tree s)" using wait_okD(4) [OF ok] n(3) by (simp add: tasks_ok_def)
    then have eq: "map (\<lambda>u. m_time (waits ?s u)) (m_task_tree s) = map (\<lambda>u. m_time (waits s u)) (m_task_tree s)"
      by (intro map_cong) auto
    have i': "m_task_tree ?s = m_task_tree s" "m_next_task ?s = m_next_task s" by simp_all
    have "u \<in> set (m_task_tree s) \<longleftrightarrow> 0 < m_time (waits ?s u)" for u
      using wait_okD(4) [OF ok] t new(4) by (cases "u = t") (simp_all add: tasks_ok_def)
    then show ?thesis using wait_okD(4) [OF ok] unfolding tasks_ok_def i' eq by blast
  qed
  moreover have "flags_ok ?s" using wait_okD(5) [OF ok] m(3) by (simp add: flags_ok_def)
  moreover have "lists_ok ?s"
  proof -
    have l: "listed ?s u = listed s u" for u using other [of u] new(3) st(1) by (cases "u = t") (simp_all add: listed_def del: update_wait_frame)
    have o: "m_thread_list_head (objects ?s) = m_thread_list_head (objects s)" "node_next (objects ?s) = node_next (objects s)"
      "m_thread_list_tail (objects ?s) = m_thread_list_tail (objects s)" by simp_all
    have p: "pinned_waiters ?s u = pinned_waiters s u" for u using none(2) by (simp add: Initialize_wait_def)
    show ?thesis using wait_okD(6) [OF ok] unfolding lists_ok_def lists_at_def objects_ok_def nodes_ok_def l o p .
  qed
  ultimately have "wait_ok {} ?s" by (intro wait_okI)
  then show ?thesis using th(1) by (simp add: Thread_Initialize_def)
qed

end
