(* ===== verification/Wait_Objects.thy ===== *)
theory Wait_Objects
  imports Wait_Structures
begin

text \<open>
  What threads wait for together and what ends them, \<^verbatim>\<open>nxemu-os/core/hle/kernel/\<close>: synchronization objects
  (\<^verbatim>\<open>k_synchronization_object.cpp\<close>) and the events among them, the thread of a process that handles a user
  exception (\<^verbatim>\<open>k_process.cpp\<close>), the threads that wait until another one is no longer pinned, and the start
  and the end of a thread (\<^verbatim>\<open>k_thread.cpp\<close>).  Each locked section is one step.
\<close>

section \<open>Waiting for one of several objects\<close>

definition ArgumentHandleCountMax :: nat where
  "ArgumentHandleCountMax = 0x40"

text \<open>The first place of an object, and the first object that is signaled.\<close>

fun sync_index :: "SyncObject \<Rightarrow> int \<Rightarrow> SyncObject list \<Rightarrow> int" where
  "sync_index signaled_object i [] = - 1"
| "sync_index signaled_object i (ob # obs) = (if ob = signaled_object then i else sync_index signaled_object (i + 1) obs)"

fun first_signaled :: "WaitObjects \<Rightarrow> int \<Rightarrow> SyncObject list \<Rightarrow> int option" where
  "first_signaled l i [] = None"
| "first_signaled l i (ob # obs) = (if m_signaled l ob then Some i else first_signaled l (i + 1) obs)"

text \<open>The other classes of queues do not let a signal end the wait.\<close>

definition queue_NotifyAvailable :: "KThreadQueue \<Rightarrow> nat \<Rightarrow> SyncObject \<Rightarrow> WaitResult \<Rightarrow> WaitState \<Rightarrow> WaitState option" where
  "queue_NotifyAvailable queue t signaled_object wait_result s =
     (case queue_kind queue of
        ForSynchronizationObjects sync_objects \<Rightarrow>
          Option.bind (unlink_nodes t 0 sync_objects (objects s)) (\<lambda>l.
            finish_wait t wait_result (m_hardware_timer queue)
              (update_wait t (\<lambda>w. w\<lparr>m_synced_index := sync_index signaled_object 0 sync_objects, m_cancellable := False\<rparr>)
                (s\<lparr>objects := l\<rparr>)))
      | _ \<Rightarrow> None)"

definition KThread_NotifyAvailable :: "nat \<Rightarrow> SyncObject \<Rightarrow> WaitResult \<Rightarrow> WaitState \<Rightarrow> WaitState option" where
  "KThread_NotifyAvailable t signaled_object wait_result s =
     (if GetState s t = Waiting
      then case m_wait_queue (waits s t) of
             None \<Rightarrow> None
           | Some queue \<Rightarrow> queue_NotifyAvailable queue t signaled_object wait_result s
      else Some s)"

text \<open>The loop follows the links as they are after each thread has been notified.\<close>

partial_function (option) notify_nodes :: "SyncObject \<Rightarrow> WaitResult \<Rightarrow> SyncNode option \<Rightarrow> WaitState \<Rightarrow> WaitState option" where
  "notify_nodes ob result cur_node s =
     (case cur_node of
        None \<Rightarrow> Some s
      | Some n \<Rightarrow> Option.bind (KThread_NotifyAvailable (fst n) ob result s)
                    (\<lambda>s1. notify_nodes ob result (node_next (objects s1) n) s1))"

definition KSynchronizationObject_NotifyAvailable :: "SyncObject \<Rightarrow> WaitResult \<Rightarrow> WaitState \<Rightarrow> WaitState option" where
  "KSynchronizationObject_NotifyAvailable ob result s =
     (if \<not> m_signaled (objects s) ob then Some s
      else notify_nodes ob result (m_thread_list_head (objects s) ob) s)"

text \<open>
  The results are the one of the call, if it does not wait, and the index of a signaled object.  A wait ends
  with the thread's synced index and wait result.
\<close>

definition KSynchronizationObject_Wait ::
    "nat \<Rightarrow> SyncObject list \<Rightarrow> int \<Rightarrow> WaitState \<Rightarrow> (WaitResult option \<times> int option \<times> WaitState) option" where
  "KSynchronizationObject_Wait cur sync_objects timeout s =
     (if IsTerminationRequested s cur then Some (Some ResultTerminationRequested, None, s)
      else case first_signaled (objects s) 0 sync_objects of
             Some i \<Rightarrow> Some (Some ResultSuccess, Some i, s)
           | None \<Rightarrow>
               if timeout = 0 then Some (Some ResultTimedOut, None, s)
               else if m_wait_cancelled (waits s cur)
               then Some (Some ResultCancelled, None, update_wait cur (\<lambda>w. w\<lparr>m_wait_cancelled := False\<rparr>) s)
               else if length sync_objects > ArgumentHandleCountMax then None
               else
                 let l = link_nodes cur 0 sync_objects (objects s);
                     s1 = update_wait cur (\<lambda>w. w\<lparr>m_synced_index := - 1, m_cancellable := True\<rparr>) (s\<lparr>objects := l\<rparr>)
                 in map_option (\<lambda>s2. (None, None, register_sleep cur timeout s2))
                      (BeginWait cur \<lparr>queue_kind = ForSynchronizationObjects sync_objects, m_hardware_timer = timeout > 0\<rparr> s1))"

definition set_signaled :: "SyncObject \<Rightarrow> bool \<Rightarrow> WaitState \<Rightarrow> WaitState" where
  "set_signaled ob b s = s\<lparr>objects := (objects s)\<lparr>m_signaled := (m_signaled (objects s))(ob := b)\<rparr>\<rparr>"

section \<open>Events\<close>

definition KReadableEvent_Signal :: "nat \<Rightarrow> WaitState \<Rightarrow> WaitState option" where
  "KReadableEvent_Signal event s =
     (if \<not> m_signaled (objects s) (OtherObject event)
      then KSynchronizationObject_NotifyAvailable (OtherObject event) ResultSuccess (set_signaled (OtherObject event) True s)
      else Some s)"

definition KReadableEvent_Reset :: "nat \<Rightarrow> WaitState \<Rightarrow> WaitResult \<times> WaitState" where
  "KReadableEvent_Reset event s =
     (if \<not> m_signaled (objects s) (OtherObject event) then (ResultInvalidState, s)
      else (ResultSuccess, set_signaled (OtherObject event) False s))"

definition KReadableEvent_Clear :: "nat \<Rightarrow> WaitState \<Rightarrow> WaitResult \<times> WaitState" where
  "KReadableEvent_Clear event s = (ResultSuccess, snd (KReadableEvent_Reset event s))"

definition KEvent_Signal :: "bool \<Rightarrow> nat \<Rightarrow> WaitState \<Rightarrow> WaitState option" where
  "KEvent_Signal readable_event_destroyed event s =
     (if readable_event_destroyed then Some s else KReadableEvent_Signal event s)"

definition KEvent_Clear :: "bool \<Rightarrow> nat \<Rightarrow> WaitState \<Rightarrow> WaitResult \<times> WaitState" where
  "KEvent_Clear readable_event_destroyed event s =
     (if readable_event_destroyed then (ResultSuccess, s) else KReadableEvent_Clear event s)"

text \<open>A process is signaled when its state changes.\<close>

definition KProcess_ChangeState :: "nat \<Rightarrow> nat \<Rightarrow> nat \<Rightarrow> WaitState \<Rightarrow> (nat \<times> WaitState) option" where
  "KProcess_ChangeState p m_state new_state s =
     (if m_state \<noteq> new_state
      then map_option (Pair new_state)
             (KSynchronizationObject_NotifyAvailable (OtherObject p) ResultSuccess (set_signaled (OtherObject p) True s))
      else Some (m_state, s))"

section \<open>User exceptions\<close>

text \<open>\<open>key\<close> is the address of the process's member with its lowest bit set.  The first result says whether there is one.\<close>

definition EnterUserException :: "u64 \<Rightarrow> nat \<Rightarrow> nat \<Rightarrow> WaitState \<Rightarrow> (bool option \<times> WaitState) option" where
  "EnterUserException key p cur s =
     (if m_exception_thread (objects s) p = Some cur then Some (Some False, s)
      else if IsTerminationRequested s cur then Some (Some False, s)
      else case m_exception_thread (objects s) p of
             None \<Rightarrow> Some (Some True, update_needed (set_exception_thread p (Some cur) s))
           | Some owner \<Rightarrow>
               Option.bind (AddWaiter cur owner cur (SetKernelAddressKey cur key s)) (\<lambda>s1.
                 map_option (Pair None) (BeginWait cur \<lparr>queue_kind = ForUserException p, m_hardware_timer = False\<rparr> s1)))"

definition EnterUserException_result :: "WaitState \<Rightarrow> nat \<Rightarrow> bool" where
  "EnterUserException_result s cur \<longleftrightarrow> m_wait_result (waits s cur) \<noteq> ResultTerminationRequested"

definition ReleaseUserException :: "u64 \<Rightarrow> nat \<Rightarrow> nat \<Rightarrow> nat \<Rightarrow> WaitState \<Rightarrow> (bool \<times> WaitState) option" where
  "ReleaseUserException key p cur t s =
     (if m_exception_thread (objects s) p = Some t
      then Option.bind (RemoveWaiterByKey cur t key True (set_exception_thread p None s)) (\<lambda>(next_thread, has_waiters, s1).
             map_option (\<lambda>s2. (True, update_needed s2)) (end_next_wait next_thread s1))
      else Some (False, s))"

section \<open>Waiting until a thread is not pinned\<close>

text \<open>Each turn of the loop ends a wait and takes the front off the list.\<close>

partial_function (option) resume_pinned_waiters :: "nat \<Rightarrow> WaitState \<Rightarrow> WaitState option" where
  "resume_pinned_waiters t s =
     (case m_pinned_waiter_list (waits s t) of
        [] \<Rightarrow> Some s
      | u # us \<Rightarrow> Option.bind (KThread_EndWait u ResultSuccess s) (\<lambda>s1.
                    Option.bind (erase_pinned_waiter t u s1) (resume_pinned_waiters t)))"

definition KThread_Unpin :: "nat \<Rightarrow> WaitState \<Rightarrow> WaitState option" where
  "KThread_Unpin t s = Option.bind (on_kernel (Unpin (IsTerminationRequested s t) t) s) (resume_pinned_waiters t)"

definition clear_pinned :: "nat \<Rightarrow> int \<Rightarrow> Kernel \<Rightarrow> Kernel" where
  "clear_pinned p core_id =
     update_process p (\<lambda>process. process\<lparr>m_pinned_threads := (m_pinned_threads process)(core_id := None)\<rparr>)"

definition on_kernel_always :: "(Kernel \<Rightarrow> Kernel) \<Rightarrow> WaitState \<Rightarrow> WaitState" where
  "on_kernel_always f s = s\<lparr>kernel := f (kernel s)\<rparr>"

definition KProcess_UnpinCurrentThread :: "int \<Rightarrow> nat \<Rightarrow> nat \<Rightarrow> WaitState \<Rightarrow> WaitState option" where
  "KProcess_UnpinCurrentThread core_id p cur s =
     map_option (\<lambda>s1. update_needed (on_kernel_always (clear_pinned p core_id) s1)) (KThread_Unpin cur s)"

text \<open>The core is the one the thread is on; an index out of range is not defined.\<close>

definition KProcess_UnpinThread :: "nat \<Rightarrow> nat \<Rightarrow> WaitState \<Rightarrow> WaitState option" where
  "KProcess_UnpinThread p t s =
     (let core_id = m_core_id (threads (kernel s) t)
      in if core_id < 0 \<or> core_id \<ge> NUM_CPU_CORES then None
         else map_option update_needed (KThread_Unpin t (on_kernel_always (clear_pinned p core_id) s)))"

text \<open>How a turn of the loops that wait for a thread ends: with a result, with another turn, or with a wait.\<close>

datatype TurnResult = Finished WaitResult | Again | Waits

definition wait_for_pin :: "nat \<Rightarrow> nat \<Rightarrow> WaitState \<Rightarrow> (TurnResult \<times> WaitState) option" where
  "wait_for_pin cur t s =
     (if IsTerminationRequested s cur then Some (Finished ResultTerminationRequested, s)
      else map_option (Pair Waits)
             (BeginWait cur \<lparr>queue_kind = ForThreadSetProperty t, m_hardware_timer = False\<rparr>
               (update_wait t (\<lambda>w. w\<lparr>m_pinned_waiter_list := m_pinned_waiter_list w @ [cur]\<rparr>) s)))"

text \<open>\<open>thread_is_current\<close> is whether one of the schedulers has the thread as its current one.\<close>

definition activity_turn :: "bool \<Rightarrow> nat \<Rightarrow> nat \<Rightarrow> WaitState \<Rightarrow> (TurnResult \<times> WaitState) option" where
  "activity_turn thread_is_current cur t s =
     (if IsTerminationRequested s t then Some (Finished ResultSuccess, s)
      else if is_pinned (threads (kernel s) t) then wait_for_pin cur t s
      else if thread_is_current then Some (Again, s)
      else Some (Finished ResultSuccess, s))"

text \<open>
  \<open>thread_core\<close> is the core that has the thread as its current one, \<open>quiescent\<close> says that with a single host
  thread it is another one than the core that executes, and \<open>locked\<close> that the thread's context is free.
\<close>

definition core_mask_turn ::
    "int option \<Rightarrow> bool \<Rightarrow> bool \<Rightarrow> u64 \<Rightarrow> nat \<Rightarrow> nat \<Rightarrow> WaitState \<Rightarrow> (TurnResult \<times> WaitState) option" where
  "core_mask_turn thread_core quiescent locked p_affinity_mask cur t s =
     (if IsTerminationRequested s t then Some (Finished ResultSuccess, s)
      else case thread_core of
             None \<Rightarrow> Some (Finished ResultSuccess, s)
           | Some core \<Rightarrow>
               if push_bit (nat core) 1 AND p_affinity_mask = 0
               then if is_pinned (threads (kernel s) t) then wait_for_pin cur t s
                    else if quiescent then Some (if locked then Finished ResultSuccess else Again, s)
                    else Some (Again, s)
               else Some (Finished ResultSuccess, s))"

definition IsSuspendRequested :: "WaitState \<Rightarrow> nat \<Rightarrow> nat \<Rightarrow> bool" where
  "IsSuspendRequested s t suspend_type \<longleftrightarrow>
     m_suspend_request_flags (threads (kernel s) t) AND push_bit (4 + suspend_type) 1 \<noteq> 0"

text \<open>The part of \<^verbatim>\<open>SetActivity\<close> that pauses or resumes the thread; thread suspension is of type 1.\<close>

definition change_activity :: "bool \<Rightarrow> nat \<Rightarrow> WaitState \<Rightarrow> (WaitResult \<times> WaitState) option" where
  "change_activity paused t s =
     (if GetState s t \<noteq> Waiting \<and> GetState s t \<noteq> Runnable then Some (ResultInvalidState, s)
      else if paused
      then if IsSuspendRequested s t 1 then Some (ResultInvalidState, s)
           else map_option (Pair ResultSuccess) (on_kernel (RequestSuspend 1 t) s)
      else if \<not> IsSuspendRequested s t 1 then Some (ResultInvalidState, s)
           else map_option (Pair ResultSuccess) (on_kernel (Resume 1 t) s))"

section \<open>The start and the end of a thread\<close>

definition TerminatingThreadPriority :: int where
  "TerminatingThreadPriority = 15"

text \<open>
  A turn of \<^verbatim>\<open>Run\<close>; no result means another turn.  \<open>user_thread\<close> is the type of the thread.
\<close>

definition Run_turn :: "bool \<Rightarrow> nat \<Rightarrow> nat \<Rightarrow> WaitState \<Rightarrow> (WaitResult option \<times> WaitState) option" where
  "Run_turn user_thread cur t s =
     (if IsTerminationRequested s t \<or> IsTerminationRequested s cur then Some (Some ResultTerminationRequested, s)
      else if GetState s t \<noteq> 0 then Some (Some ResultInvalidState, s)
      else if IsSuspended s cur then map_option (Pair None) (on_kernel (UpdateState cur) s)
      else Option.bind
             (if m_parent (threads (kernel s) t) \<noteq> None \<and> user_thread \<and> IsSuspended s t
              then on_kernel (UpdateState t) s else Some s) (\<lambda>s1.
               map_option (Pair (Some ResultSuccess)) (Thread_SetState t Runnable s1)))"

definition ClearRunningThread :: "nat \<Rightarrow> nat \<Rightarrow> Kernel \<Rightarrow> Kernel" where
  "ClearRunningThread p t =
     update_process p (\<lambda>process. process\<lparr>m_running_threads :=
       (\<lambda>c. if IsValidCore c \<and> m_running_threads process c = Some t then None else m_running_threads process c)\<rparr>)"

text \<open>What a thread has of its process is given back: the user exception and the pin.\<close>

definition leave_process :: "(nat \<Rightarrow> u64) \<Rightarrow> int \<Rightarrow> nat \<Rightarrow> nat \<Rightarrow> WaitState \<Rightarrow> WaitState option" where
  "leave_process key core_id cur t s =
     (case m_parent (threads (kernel s) t) of
        None \<Rightarrow> Some s
      | Some p \<Rightarrow>
          Option.bind (ReleaseUserException (key p) p cur t s) (\<lambda>(b, s1).
            if m_pinned_threads (processes (kernel s1) p) core_id = Some t
            then KProcess_UnpinCurrentThread core_id p cur s1 else Some s1))"

definition StartTermination :: "(nat \<Rightarrow> u64) \<Rightarrow> int \<Rightarrow> nat \<Rightarrow> nat \<Rightarrow> WaitState \<Rightarrow> WaitState option" where
  "StartTermination key core_id cur t s =
     Option.bind (leave_process key core_id cur t s) (\<lambda>s1.
       map_option
         (\<lambda>s2. on_kernel_always (ClearPreviousThread t)
                (case m_parent (threads (kernel s2) t) of
                   None \<Rightarrow> s2
                 | Some p \<Rightarrow> on_kernel_always (ClearRunningThread p t) s2))
         (Thread_SetState t Terminated s1))"

definition FinishTermination :: "nat \<Rightarrow> WaitState \<Rightarrow> WaitState option" where
  "FinishTermination t s =
     KSynchronizationObject_NotifyAvailable (ThreadObject t) ResultSuccess (set_signaled (ThreadObject t) True s)"

definition disallow_suspension :: "nat \<Rightarrow> WaitState \<Rightarrow> WaitState option" where
  "disallow_suspension t s =
     on_kernel (\<lambda>k. UpdateState t (update_thread t (\<lambda>thread. thread\<lparr>m_suspend_allowed_flags := 0\<rparr>) k)) s"

text \<open>The locked section of \<^verbatim>\<open>Exit\<close>; \<open>p\<close> is the process whose memory the locks are in.\<close>

definition Exit :: "(nat \<Rightarrow> u64) \<Rightarrow> int \<Rightarrow> nat \<Rightarrow> nat \<Rightarrow> WaitState \<Rightarrow> WaitState option" where
  "Exit key core_id p cur s =
     Option.bind (disallow_suspension cur s) (\<lambda>s1.
       Option.bind (ReleaseAbandonedUserLocks cur p s1) (StartTermination key core_id cur cur))"

definition wake_for_termination :: "nat \<Rightarrow> nat \<Rightarrow> WaitState \<Rightarrow> (u16 \<times> WaitState) option" where
  "wake_for_termination cur t s =
     Option.bind
       (if is_pinned (threads (kernel s) t)
        then case m_parent (threads (kernel s) t) of None \<Rightarrow> None | Some p \<Rightarrow> KProcess_UnpinThread p t s
        else Some s) (\<lambda>s1.
     Option.bind (if IsSuspended s1 t then disallow_suspension t s1 else Some s1) (\<lambda>s2.
     Option.bind (IncreaseBasePriority cur t TerminatingThreadPriority s2) (\<lambda>s3.
     map_option (\<lambda>s4. (GetState s4 t, s4)) (KThread_CancelWait cur t ResultTerminationRequested True s3))))"

text \<open>The result is the state of the thread after the request.  A thread that did not start is terminated at once.\<close>

definition RequestTerminate :: "nat \<Rightarrow> nat \<Rightarrow> WaitState \<Rightarrow> (u16 \<times> WaitState) option" where
  "RequestTerminate cur t s =
     (if m_termination_requested (waits s t) then Some (GetState s t, s)
      else
        let s1 = update_wait t (\<lambda>w. w\<lparr>m_termination_requested := True\<rparr>) s
        in if GetState s1 t = 0
           then Some (Terminated, s1\<lparr>kernel := update_thread t (\<lambda>thread. thread\<lparr>m_thread_state := Terminated\<rparr>) (kernel s1)\<rparr>)
           else wake_for_termination cur t s1)"

section \<open>The deadline of a wait\<close>

definition DefaultTimeIncrementNanoseconds :: int where
  "DefaultTimeIncrementNanoseconds = 105"

definition GetTimeoutDeadlineNs :: "int \<Rightarrow> int \<Rightarrow> int" where
  "GetTimeoutDeadlineNs now_ns timeout_ns =
     (if timeout_ns \<le> 0 then timeout_ns
      else if timeout_ns > MaxTime - DefaultTimeIncrementNanoseconds then MaxTime
      else
        let offset_ns = timeout_ns + DefaultTimeIncrementNanoseconds
        in if now_ns mod 2 ^ 64 > (MaxTime - offset_ns) mod 2 ^ 64 then MaxTime else now_ns + offset_ns)"

end
