(* ===== verification/Wait_Objects_Props.thy ===== *)
theory Wait_Objects_Props
  imports Wait_Objects Wait_Operations
begin

text \<open>
  The operations on synchronization objects, user exceptions, pinned threads and on the life of a thread are
  defined and keep the invariant; a signaled object wakes exactly the threads that wait for it.
\<close>

section \<open>Changes beside the waits\<close>

lemma signaled_ok [simp]: "wait_ok X (set_signaled ob b s) = wait_ok X s" "GetState (set_signaled ob b s) = GetState s"
  "keeps s (set_signaled ob b s)" "node_next (objects (set_signaled ob b s)) = node_next (objects s)"
  "waits (set_signaled ob b s) = waits s" "kernel (set_signaled ob b s) = kernel s"
  "m_thread_list_head (objects (set_signaled ob b s)) = m_thread_list_head (objects s)"
  "m_signaled (objects (set_signaled ob b s)) = (m_signaled (objects s))(ob := b)"
proof -
  have "lists_ok (set_signaled ob b s) = lists_ok s"
    unfolding lists_ok_def lists_at_def set_signaled_def objects_changed by (simp add: objects_ok_def nodes_ok_def)
  then show "wait_ok X (set_signaled ob b s) = wait_ok X s" by (simp add: wait_ok_def set_signaled_def)
  show "GetState (set_signaled ob b s) = GetState s" "node_next (objects (set_signaled ob b s)) = node_next (objects s)"
    "waits (set_signaled ob b s) = waits s" "kernel (set_signaled ob b s) = kernel s"
    "m_thread_list_head (objects (set_signaled ob b s)) = m_thread_list_head (objects s)"
    "m_signaled (objects (set_signaled ob b s)) = (m_signaled (objects s))(ob := b)"
    by (simp_all add: set_signaled_def)
  then show "keeps s (set_signaled ob b s)" by (simp add: keeps_def)
qed

lemma exception_thread_ok [simp]: "wait_ok X (set_exception_thread p t s) = wait_ok X s"
  "GetState (set_exception_thread p t s) = GetState s" "keeps s (set_exception_thread p t s)"
  "waits (set_exception_thread p t s) = waits s" "kernel (set_exception_thread p t s) = kernel s"
proof -
  show "wait_ok X (set_exception_thread p t s) = wait_ok X s"
    by (rule wait_ok_cong) (simp_all add: set_exception_thread_def same_core_def same_lists_def)
  show "GetState (set_exception_thread p t s) = GetState s" "waits (set_exception_thread p t s) = waits s"
    "kernel (set_exception_thread p t s) = kernel s" by (simp_all add: set_exception_thread_def)
  then show "keeps s (set_exception_thread p t s)" by (simp add: keeps_def)
qed

lemma kernel_changed_ok:
  assumes ok: "wait_ok X s" and k: "threads k = threads (kernel s)" "m_priority_queue k = m_priority_queue (kernel s)"
  shows "wait_ok X (s\<lparr>kernel := k\<rparr>)" and "keeps s (s\<lparr>kernel := k\<rparr>)"
proof -
  have "kernel_ok k" using system_okD(5) [OF wait_okD(1) [OF ok]] k by (simp add: kernel_ok_def)
  then show "wait_ok X (s\<lparr>kernel := k\<rparr>)" by (rule scheduler_step_ok [OF ok]) (simp add: keeps_waits_def k)
  show "keeps s (s\<lparr>kernel := k\<rparr>)" by (simp add: keeps_def GetState_def k)
qed

lemma update_needed_ok:
  assumes "wait_ok X s"
  shows "wait_ok X (update_needed s)" and "keeps s (update_needed s)"
  unfolding update_needed_def by (rule kernel_changed_ok [OF assms]; simp add: SetSchedulerUpdateNeeded_def)+

section \<open>Signaled objects\<close>

text \<open>
  When nodes of a thread are unlinked, a list that is followed along its links is the one it was, without some
  nodes of that thread.
\<close>

definition skips :: "nat \<Rightarrow> WaitObjects \<Rightarrow> WaitObjects \<Rightarrow> bool" where
  "skips t l l1 \<longleftrightarrow> (\<forall>h ns. chain (node_next l) h ns \<longrightarrow> distinct ns \<longrightarrow>
     (\<exists>ns1. chain (node_next l1) h ns1 \<and> distinct ns1 \<and> length ns1 \<le> length ns \<and>
        filter (\<lambda>n. fst n \<noteq> t) ns1 = filter (\<lambda>n. fst n \<noteq> t) ns))"

lemma skips_refl [simp]: "skips t l l"
  by (auto simp: skips_def)

lemma skips_trans:
  assumes "skips t l l1" and "skips t l1 l2"
  shows "skips t l l2"
  unfolding skips_def
proof (intro allI impI)
  fix h ns
  assume "chain (node_next l) h ns" "distinct ns"
  then obtain ns1 where ns1: "chain (node_next l1) h ns1" "distinct ns1" "length ns1 \<le> length ns"
    "filter (\<lambda>n. fst n \<noteq> t) ns1 = filter (\<lambda>n. fst n \<noteq> t) ns" using assms(1) unfolding skips_def by meson
  then obtain ns2 where "chain (node_next l2) h ns2" "distinct ns2" "length ns2 \<le> length ns1"
    "filter (\<lambda>n. fst n \<noteq> t) ns2 = filter (\<lambda>n. fst n \<noteq> t) ns1" using assms(2) unfolding skips_def by meson
  then show "\<exists>ns2. chain (node_next l2) h ns2 \<and> distinct ns2 \<and> length ns2 \<le> length ns \<and>
      filter (\<lambda>n. fst n \<noteq> t) ns2 = filter (\<lambda>n. fst n \<noteq> t) ns" using ns1 by (intro exI [of _ ns2]) auto
qed

lemma find_prev_next:
  assumes "find_prev l ob node pp pv = Some (Some p, x)"
  shows "node_next l p = Some node"
proof -
  have "case fst (Some p, x) of None \<Rightarrow> True | Some p \<Rightarrow> next_of l ob (Some p) = Some node"
  proof (rule find_prev.raw_induct [where P = "\<lambda>l ob node pp pv r. case fst r of None \<Rightarrow> True | Some p \<Rightarrow> next_of l ob (Some p) = Some node",
        OF _ assms])
    fix find_prev l ob node pp pv r
    assume IH: "\<And>l ob node pp pv r. find_prev l ob node pp pv = Some r \<Longrightarrow>
        case fst r of None \<Rightarrow> True | Some p \<Rightarrow> next_of l ob (Some p) = Some node"
      and r: "(case next_of l ob pp of None \<Rightarrow> None
        | Some n \<Rightarrow> if n = node then Some (pp, pv) else find_prev l ob node (Some n) (Some n)) = Some r"
    show "case fst r of None \<Rightarrow> True | Some p \<Rightarrow> next_of l ob (Some p) = Some node"
      using r IH [of l ob node "next_of l ob pp" "next_of l ob pp" r]
      by (cases "next_of l ob pp") (auto split: if_splits option.splits)
  qed
  then show ?thesis by (simp add: next_of_def)
qed

text \<open>The link to a node is set to go past it.\<close>

lemma chain_past:
  assumes "chain f h ns" and "distinct ns" and "f p = Some m"
  shows "\<exists>ns1. chain (f(p := f m)) h ns1 \<and> distinct ns1 \<and> length ns1 \<le> length ns \<and> (ns1 = ns \<or> ns1 = remove1 m ns)"
proof (cases "p \<in> set ns")
  case False
  have "chain (f(p := f m)) h ns = chain f h ns" by (rule chain_cong) (use False in auto)
  then show ?thesis using assms(1,2) by blast
next
  case True
  then obtain as bs where ns: "ns = as @ p # bs" using split_list by metis
  have "chain f (f p) bs" using assms(1) unfolding ns by (induction as arbitrary: h) simp_all
  then obtain cs where bs: "bs = m # cs" using assms(3) by (cases bs) simp_all
  have d: "distinct ((as @ [p]) @ m # cs)" and c: "chain f h ((as @ [p]) @ m # cs)" using assms(1,2) by (simp_all add: ns bs)
  have "chain (f(p := f m)) h (as @ p # cs)" using chain_unlink [OF c d] by simp
  moreover have "as @ p # cs = remove1 m ns" using d by (auto simp: ns bs remove1_append)
  moreover have "length (as @ p # cs) \<le> length ns" by (simp add: ns bs)
  moreover have "distinct (as @ p # cs)" using d by auto
  ultimately show ?thesis by (intro exI [of _ "as @ p # cs"]) blast
qed

lemma UnlinkNode_skips:
  assumes "UnlinkNode ob (t, i) l = Some l1"
  shows "skips t l l1"
proof -
  obtain prev x where p: "find_prev l ob (t, i) None None = Some (prev, x)"
    using assms by (auto simp: UnlinkNode_def)
  show ?thesis
  proof (cases prev)
    case None
    then have "node_next l1 = node_next l" using assms p by (auto simp: UnlinkNode_def Let_def split: if_splits)
    then show ?thesis by (auto simp: skips_def)
  next
    case (Some q)
    have n: "node_next l q = Some (t, i)" using p Some by (auto intro: find_prev_next)
    have f: "node_next l1 = (node_next l)(q := node_next l (t, i))"
      using assms p Some by (auto simp: UnlinkNode_def Let_def split: if_splits)
    show ?thesis
      unfolding skips_def f
    proof (intro allI impI)
      fix h ns
      assume c: "chain (node_next l) h ns" "distinct ns"
      obtain ns1 where ns1: "chain ((node_next l)(q := node_next l (t, i))) h ns1" "distinct ns1" "length ns1 \<le> length ns"
        "ns1 = ns \<or> ns1 = remove1 (t, i) ns" using chain_past [OF c n] by blast
      have "filter (\<lambda>n. fst n \<noteq> t) (remove1 (t, i) ns) = filter (\<lambda>n. fst n \<noteq> t) ns"
        by (induction ns) auto
      then show "\<exists>ns1. chain ((node_next l)(q := node_next l (t, i))) h ns1 \<and> distinct ns1 \<and> length ns1 \<le> length ns \<and>
          filter (\<lambda>n. fst n \<noteq> t) ns1 = filter (\<lambda>n. fst n \<noteq> t) ns" using ns1 by metis
    qed
  qed
qed

lemma unlink_nodes_skips: "unlink_nodes t i obs l = Some l1 \<Longrightarrow> skips t l l1"
  by (induction obs arbitrary: i l) (auto simp: bind_eq_Some_conv intro: skips_trans UnlinkNode_skips)

lemma CancelTask_frame:
  assumes "CancelTask t s = Some s1"
  shows "m_wait_result (waits s1 u) = m_wait_result (waits s u)" "m_synced_index (waits s1 u) = m_synced_index (waits s u)"
    "objects s1 = objects s"
  using assms by (auto simp: CancelTask_def RemoveTaskFromTree_def split: if_splits)

lemma finish_wait_frame:
  assumes "finish_wait t r c s = Some s1"
  shows "m_wait_result (waits s1 u) = (if u = t then r else m_wait_result (waits s u))"
    "m_synced_index (waits s1 u) = m_synced_index (waits s u)" "objects s1 = objects s"
proof -
  let ?s = "update_wait t (\<lambda>w. w\<lparr>m_wait_result := r\<rparr>) s"
  obtain s2 where s2: "Thread_SetState t Runnable ?s = Some s2"
    "(let s3 = update_wait t (\<lambda>w. w\<lparr>m_wait_queue := None\<rparr>) s2 in if c then CancelTask t s3 else Some s3) = Some s1"
    using assms by (auto simp: finish_wait_def bind_eq_Some_conv)
  have w: "waits s2 = waits ?s" "objects s2 = objects s" using s2(1) by (auto simp: Thread_SetState_def on_kernel_def)
  show "m_wait_result (waits s1 u) = (if u = t then r else m_wait_result (waits s u))"
    "m_synced_index (waits s1 u) = m_synced_index (waits s u)" "objects s1 = objects s"
    using s2(2) CancelTask_frame [of t "update_wait t (\<lambda>w. w\<lparr>m_wait_queue := None\<rparr>) s2" s1] w
    by (auto simp: Let_def split: if_splits)
qed

text \<open>A thread that waits for objects is notified by one of them.\<close>

definition notified :: "nat \<Rightarrow> SyncObject \<Rightarrow> WaitResult \<Rightarrow> WaitState \<Rightarrow> WaitState \<Rightarrow> bool" where
  "notified t ob r s s1 \<longleftrightarrow>
     (\<exists>obs. listed s t = Some (ForSynchronizationObjects obs) \<and> m_synced_index (waits s1 t) = sync_index ob 0 obs) \<and>
     m_wait_result (waits s1 t) = r \<and> GetState s1 t = Runnable \<and>
     listed s1 = (listed s)(t := None) \<and> m_signaled (objects s1) = m_signaled (objects s) \<and>
     (\<forall>u. u \<noteq> t \<longrightarrow> GetState s1 u = GetState s u \<and> m_wait_result (waits s1 u) = m_wait_result (waits s u) \<and>
        m_synced_index (waits s1 u) = m_synced_index (waits s u))"

lemma KThread_NotifyAvailable_ok:
  assumes ok: "wait_ok {} s" and on: "listed s t = Some (ForSynchronizationObjects obs)"
  obtains s1 where "KThread_NotifyAvailable t ob r s = Some s1" and "wait_ok {} s1" and "notified t ob r s s1"
    and "skips t (objects s) (objects s1)" and "keeps s s1"
    and "\<And>N. objects_ok N (\<lambda>u. object_at (listed s u)) (objects s) \<Longrightarrow>
      objects_ok (\<lambda>v. filter (\<lambda>n. fst n \<noteq> t) (N v)) (\<lambda>u. object_at (listed s1 u)) (objects s1)"
proof -
  obtain q where st: "GetState s t = Waiting" and q: "m_wait_queue (waits s t) = Some q" "queue_kind q = ForSynchronizationObjects obs"
    using on by (auto simp: listed_def split: if_splits)
  have "queue_ok s t" using wait_okD(3) [OF ok] by (simp add: queues_ok_def)
  then have none: "waits_in s t = None" "m_condvar_tree (waits s t) = None" and time: "0 < m_time (waits s t) \<longrightarrow> m_hardware_timer q"
    using st q by (simp_all add: queue_ok_def)
  obtain l where l: "unlink_nodes t 0 obs (objects s) = Some l" "m_signaled l = m_signaled (objects s)"
    "lists_at ((listed s)(t := None)) (s\<lparr>objects := l\<rparr>)"
    "\<And>N. objects_ok N (\<lambda>u. object_at (listed s u)) (objects s) \<Longrightarrow>
      objects_ok (\<lambda>v. filter (\<lambda>n. fst n \<noteq> t) (N v)) (\<lambda>u. object_at (((listed s)(t := None)) u)) l"
    by (rule unlink_all_ok [OF wait_okD(6) [OF ok] on]) (rule that)
  let ?s = "update_wait t (\<lambda>w. w\<lparr>m_synced_index := sync_index ob 0 obs, m_cancellable := False\<rparr>) (s\<lparr>objects := l\<rparr>)"
  have same: "same_lists (s\<lparr>objects := l\<rparr>) ?s" by (rule same_listsI) simp_all
  have w: "waiting_ok {} ?s" "listed ?s = listed s" using wait_okD(7) [OF ok] by simp_all
  have lists: "lists_at ((listed ?s)(t := None)) ?s" using l(3) lists_at_cong [OF same] w(2) by simp
  have at: "waits_in ?s t = None" "m_hardware_timer q \<or> m_time (waits ?s t) \<le> 0" using none time by auto
  obtain s1 where s1: "finish_wait t r (m_hardware_timer q) ?s = Some s1" "wait_ok (insert t {}) s1"
    "m_condvar_tree (waits ?s t) = None \<Longrightarrow> wait_ok ({} - {t}) s1" "ended t ?s s1"
    by (rule finish_wait_ok [OF w(1) lists at]) (rule that)
  note f = finish_wait_frame [OF s1(1)]
  have ok1: "wait_ok {} s1" using s1(3) none(2) by simp
  have st1: "GetState ?s = GetState s" by (simp add: fun_eq_iff GetState_def)
  have e: "listed s1 = (listed s)(t := None)" "GetState s1 u = (if u = t then Runnable else GetState s u)" for u
    using s1(4) w(2) st1 by (simp_all add: ended_def)
  have "notified t ob r s s1" unfolding notified_def using on e f l(2) by auto
  moreover have "skips t (objects s) (objects s1)" using unlink_nodes_skips [OF l(1)] f(3) by simp
  moreover have "keeps s s1"
  proof -
    have "keeps s ?s" by (simp add: keeps_def st1 del: update_wait_frame) (simp add: keeps_def)
    then show ?thesis using s1(4) keeps_trans by (auto simp: ended_def)
  qed
  moreover have "KThread_NotifyAvailable t ob r s = Some s1"
    using st q l(1) s1(1) by (simp add: KThread_NotifyAvailable_def queue_NotifyAvailable_def)
  ultimately show thesis using ok1 l(4) e(1) f(3) by (intro that [of s1]) simp_all
qed

text \<open>The threads of \<open>T\<close> are woken by an object; nothing else changes.\<close>

definition woken :: "nat set \<Rightarrow> SyncObject \<Rightarrow> WaitResult \<Rightarrow> WaitState \<Rightarrow> WaitState \<Rightarrow> bool" where
  "woken T ob r s s1 \<longleftrightarrow> m_signaled (objects s1) = m_signaled (objects s) \<and>
     listed s1 = (\<lambda>u. if u \<in> T then None else listed s u) \<and>
     (\<forall>u \<in> T. GetState s u = Waiting \<and> GetState s1 u = Runnable \<and> m_wait_result (waits s1 u) = r \<and>
        (\<exists>obs. listed s u = Some (ForSynchronizationObjects obs) \<and> m_synced_index (waits s1 u) = sync_index ob 0 obs)) \<and>
     (\<forall>u. u \<notin> T \<longrightarrow> GetState s1 u = GetState s u \<and> m_wait_result (waits s1 u) = m_wait_result (waits s u) \<and>
        m_synced_index (waits s1 u) = m_synced_index (waits s u))"

lemma woken_refl: "woken {} ob r s s"
  by (simp add: woken_def)

lemma woken_step:
  assumes n: "notified t ob r s s1" and w: "woken (T - {t}) ob r s1 s2" and t: "t \<in> T" "GetState s t = Waiting"
  shows "woken T ob r s s2"
proof -
  obtain obs where obs: "listed s t = Some (ForSynchronizationObjects obs)" "m_synced_index (waits s1 t) = sync_index ob 0 obs"
    using n unfolding notified_def by blast
  have n': "m_wait_result (waits s1 t) = r" "GetState s1 t = Runnable" "listed s1 = (listed s)(t := None)"
    "m_signaled (objects s1) = m_signaled (objects s)"
    "u \<noteq> t \<Longrightarrow> GetState s1 u = GetState s u \<and> m_wait_result (waits s1 u) = m_wait_result (waits s u) \<and>
      m_synced_index (waits s1 u) = m_synced_index (waits s u)" for u using n unfolding notified_def by blast+
  have w': "m_signaled (objects s2) = m_signaled (objects s1)" "listed s2 = (\<lambda>u. if u \<in> T - {t} then None else listed s1 u)"
    "u \<in> T - {t} \<Longrightarrow> GetState s1 u = Waiting \<and> GetState s2 u = Runnable \<and> m_wait_result (waits s2 u) = r \<and>
        (\<exists>obs. listed s1 u = Some (ForSynchronizationObjects obs) \<and> m_synced_index (waits s2 u) = sync_index ob 0 obs)"
    "u \<notin> T - {t} \<Longrightarrow> GetState s2 u = GetState s1 u \<and> m_wait_result (waits s2 u) = m_wait_result (waits s1 u) \<and>
        m_synced_index (waits s2 u) = m_synced_index (waits s1 u)" for u using w unfolding woken_def by blast+
  have "listed s2 = (\<lambda>u. if u \<in> T then None else listed s u)" using w'(2) n'(3) t(1) by (auto simp: fun_eq_iff)
  moreover have "GetState s u = Waiting \<and> GetState s2 u = Runnable \<and> m_wait_result (waits s2 u) = r \<and>
        (\<exists>obs. listed s u = Some (ForSynchronizationObjects obs) \<and> m_synced_index (waits s2 u) = sync_index ob 0 obs)"
    if "u \<in> T" for u
  proof (cases "u = t")
    case True
    then show ?thesis using w'(4) [of t] n'(1,2) obs t(2) by simp
  next
    case False
    then show ?thesis using w'(3) [of u] n'(5) [of u] n'(3) that by simp
  qed
  moreover have "GetState s2 u = GetState s u \<and> m_wait_result (waits s2 u) = m_wait_result (waits s u) \<and>
        m_synced_index (waits s2 u) = m_synced_index (waits s u)" if "u \<notin> T" for u
  proof -
    have "u \<noteq> t" using that t(1) by blast
    then show ?thesis using w'(4) [of u] n'(5) [of u] that by simp
  qed
  ultimately show ?thesis using n'(4) w'(1) unfolding woken_def by simp
qed

lemma notify_nodes_ok: "wait_ok {} s \<Longrightarrow> objects_ok N (\<lambda>u. object_at (listed s u)) (objects s) \<Longrightarrow>
    chain (node_next (objects s)) node ns \<Longrightarrow> distinct ns \<Longrightarrow> N ob = filter (\<lambda>n. GetState s (fst n) = Waiting) ns \<Longrightarrow>
    \<exists>s1. notify_nodes ob r node s = Some s1 \<and> wait_ok {} s1 \<and> keeps s s1 \<and> woken (fst ` set (N ob)) ob r s s1"
proof (induction "length ns" arbitrary: s N node ns rule: less_induct)
  case less
  note ok = less.prems(1) and N = less.prems(2)
  show ?case
  proof (cases node)
    case None
    then have "ns = []" using less.prems(3) by (cases ns) simp_all
    then show ?thesis using None ok less.prems(5) woken_refl by (subst notify_nodes.simps) simp
  next
    case (Some n)
    then obtain ns' where ns: "ns = n # ns'" using less.prems(3) by (cases ns) simp_all
    have c: "chain (node_next (objects s)) (node_next (objects s) n) ns'" using less.prems(3) ns by simp
    show ?thesis
    proof (cases "GetState s (fst n) = Waiting")
      case False
      then have step: "notify_nodes ob r node s = notify_nodes ob r (node_next (objects s) n) s"
        using Some by (subst notify_nodes.simps) (simp add: KThread_NotifyAvailable_def)
      have "length ns' < length ns" "distinct ns'" "N ob = filter (\<lambda>n. GetState s (fst n) = Waiting) ns'"
        using less.prems(4,5) ns False by simp_all
      then show ?thesis unfolding step by (intro less.hyps [OF _ ok N c])
    next
      case True
      have "n \<in> set (N ob)" using less.prems(5) ns True by simp
      then have "object_at (listed s (fst n)) (snd n) = Some ob" using N unfolding objects_ok_def by (metis prod.collapse)
      then obtain obs where on: "listed s (fst n) = Some (ForSynchronizationObjects obs)"
        by (auto elim: object_at.elims)
      obtain s1 where s1: "KThread_NotifyAvailable (fst n) ob r s = Some s1" "wait_ok {} s1" "notified (fst n) ob r s s1"
        "skips (fst n) (objects s) (objects s1)" "keeps s s1"
        "\<And>N. objects_ok N (\<lambda>u. object_at (listed s u)) (objects s) \<Longrightarrow>
          objects_ok (\<lambda>v. filter (\<lambda>m. fst m \<noteq> fst n) (N v)) (\<lambda>u. object_at (listed s1 u)) (objects s1)"
        by (rule KThread_NotifyAvailable_ok [OF ok on]) (rule that)
      obtain ms where ms: "chain (node_next (objects s1)) (Some n) ms" "distinct ms" "length ms \<le> length ns"
        "filter (\<lambda>m. fst m \<noteq> fst n) ms = filter (\<lambda>m. fst m \<noteq> fst n) ns"
        using s1(4) less.prems(3,4) Some unfolding skips_def by blast
      then obtain ms' where ms': "ms = n # ms'" by (cases ms) simp_all
      let ?N = "\<lambda>v. filter (\<lambda>m. fst m \<noteq> fst n) (N v)"
      have st: "GetState s1 u = (if u = fst n then Runnable else GetState s u)" for u
        using s1(3) unfolding notified_def by simp
      have "filter (\<lambda>m. GetState s1 (fst m) = Waiting) ms' =
          filter (\<lambda>m. GetState s (fst m) = Waiting) (filter (\<lambda>m. fst m \<noteq> fst n) ms)"
        unfolding ms' by (auto simp: st intro: filter_cong)
      also have "\<dots> = ?N ob" unfolding ms(4) less.prems(5) by (auto intro: filter_cong)
      finally have N1: "?N ob = filter (\<lambda>m. GetState s1 (fst m) = Waiting) ms'" ..
      have "length ms' < length ns" "chain (node_next (objects s1)) (node_next (objects s1) n) ms'" "distinct ms'"
        using ms(1-3) ms' by simp_all
      from less.hyps [OF this(1) s1(2) s1(6) [OF N] this(2,3) N1]
      obtain s2 where s2: "notify_nodes ob r (node_next (objects s1) n) s1 = Some s2" "wait_ok {} s2" "keeps s1 s2"
        "woken (fst ` set (?N ob)) ob r s1 s2" by blast
      have T: "fst ` set (?N ob) = fst ` set (N ob) - {fst n}" by auto
      have "woken (fst ` set (N ob)) ob r s s2"
        using woken_step [OF s1(3) s2(4) [unfolded T]] \<open>n \<in> set (N ob)\<close> True by blast
      moreover have "notify_nodes ob r node s = Some s2" using Some s1(1) s2(1) by (subst notify_nodes.simps) simp
      ultimately show ?thesis using s2(2) keeps_trans [OF s1(5) s2(3)] by blast
    qed
  qed
qed

text \<open>The threads that wait for an object.\<close>

definition waiters_of :: "SyncObject \<Rightarrow> WaitState \<Rightarrow> nat set" where
  "waiters_of ob s = {t. \<exists>obs. listed s t = Some (ForSynchronizationObjects obs) \<and> ob \<in> set obs}"

lemma waits_for_object: "(\<exists>i. object_at k i = Some ob) \<longleftrightarrow> (\<exists>obs. k = Some (ForSynchronizationObjects obs) \<and> ob \<in> set obs)"
  by (cases "(k, 0 :: nat)" rule: object_at.cases) (auto simp: in_set_conv_nth)

lemma NotifyAvailable_ok:
  assumes ok: "wait_ok {} s"
  obtains s1 where "KSynchronizationObject_NotifyAvailable ob r s = Some s1" and "wait_ok {} s1" and "keeps s s1"
    and "woken (if m_signaled (objects s) ob then waiters_of ob s else {}) ob r s s1"
proof (cases "m_signaled (objects s) ob")
  case False
  then show thesis using that [of s] ok woken_refl by (simp add: KSynchronizationObject_NotifyAvailable_def)
next
  case True
  obtain N where N: "objects_ok N (\<lambda>u. object_at (listed s u)) (objects s)"
    using wait_okD(6) [OF ok] unfolding lists_ok_def lists_at_def by blast
  have mem: "(t, i) \<in> set (N ob) \<longleftrightarrow> object_at (listed s t) i = Some ob" for t i using N unfolding objects_ok_def by blast
  have c: "chain (node_next (objects s)) (m_thread_list_head (objects s) ob) (N ob)" "distinct (N ob)"
    using N unfolding objects_ok_def nodes_ok_def by blast+
  have "GetState s (fst n) = Waiting" if "n \<in> set (N ob)" for n
  proof -
    have "object_at (listed s (fst n)) (snd n) = Some ob" using mem [of "fst n" "snd n"] that by simp
    then have "listed s (fst n) \<noteq> None" by (metis object_at.simps(2) option.distinct(1))
    then show ?thesis by (simp add: listed_def split: if_splits)
  qed
  then have all: "N ob = filter (\<lambda>n. GetState s (fst n) = Waiting) (N ob)" by (intro filter_True [symmetric]) blast
  have "fst ` set (N ob) = {t. \<exists>i. object_at (listed s t) i = Some ob}" using mem by force
  then have T: "fst ` set (N ob) = waiters_of ob s" unfolding waiters_of_def waits_for_object .
  from notify_nodes_ok [OF ok N c all, of r] show thesis
    using True that unfolding T by (auto simp: KSynchronizationObject_NotifyAvailable_def)
qed

section \<open>The wait for objects\<close>

lemma weaken_waiting: "wait_ok {} s \<Longrightarrow> waiting_ok X s"
  by (simp add: wait_ok_def waiting_ok_def queues_ok_def)

lemma cancelled_flag_ok [simp]: "wait_ok X (update_wait t (\<lambda>w. w\<lparr>m_wait_cancelled := b\<rparr>) s) = wait_ok X s"
  by (rule wait_ok_cong) (simp_all add: same_core_def same_lists_def)

lemma register_sleep_listed: "listed (register_sleep t timeout s) = listed s"
  by (rule listed_cong) (simp_all add: register_sleep_def RegisterAbsoluteTask_def GetState_def Let_def)

lemma KSynchronizationObject_Wait_ok:
  assumes ok: "wait_ok {} s" and cur: "GetState s cur \<noteq> Waiting" "cur < SlabCountKThread" and len: "length obs \<le> ArgumentHandleCountMax"
  shows "\<exists>r i s1. KSynchronizationObject_Wait cur obs timeout s = Some (r, i, s1) \<and> wait_ok {} s1 \<and>
    (r = None \<longrightarrow> listed s1 cur = Some (ForSynchronizationObjects obs))"
proof -
  note n = not_waiting [OF ok cur(1)]
  let ?l = "link_nodes cur 0 obs (objects s)" and ?kind = "ForSynchronizationObjects obs"
  let ?q = "\<lparr>queue_kind = ?kind, m_hardware_timer = timeout > 0\<rparr>"
  let ?s = "update_wait cur (\<lambda>w. w\<lparr>m_synced_index := - 1, m_cancellable := True\<rparr>) (s\<lparr>objects := ?l\<rparr>)"
  let ?K = "(listed s)(cur := Some ?kind)"
  have off: "listed s cur = None" using cur(1) by (simp add: listed_def)
  obtain N where N: "objects_ok N (\<lambda>t. object_at (listed s t)) (objects s)"
    using wait_okD(6) [OF ok] unfolding lists_ok_def lists_at_def by blast
  have none: "\<forall>j. 0 \<le> j \<longrightarrow> object_at (listed s cur) j = None" using off by simp
  have "(\<lambda>t. object_at (listed s t))(cur := \<lambda>j. if 0 \<le> j \<and> j < 0 + length obs then Some (obs ! (j - 0)) else object_at (listed s cur) j) =
      (\<lambda>t. object_at (?K t))" by (auto simp: fun_eq_iff off)
  note eq = this
  from link_nodes_ok [OF N none, of obs] have "\<exists>N1. objects_ok N1 (\<lambda>t. object_at (?K t)) ?l" unfolding eq .
  moreover have "pinned_at (?K t) = pinned_at (listed s t)" for t using off by simp
  ultimately have "lists_at ?K (s\<lparr>objects := ?l\<rparr>)" using wait_okD(6) [OF ok] by (simp add: lists_ok_def lists_at_def)
  moreover have "same_lists (s\<lparr>objects := ?l\<rparr>) ?s" by (rule same_listsI) simp_all
  ultimately have lists: "lists_at ?K ?s" using lists_at_cong by blast
  have w: "waiting_ok {cur} ?s" "listed ?s = listed s" using weaken_waiting [OF ok] by simp_all
  have time: "m_time (waits ?s cur) \<le> 0" and place: "place_ok (queue_kind ?q) (waits_in ?s cur \<noteq> None) (m_condvar_tree (waits ?s cur))"
    using n by simp_all
  obtain s1 where s1: "BeginWait cur ?q ?s = Some s1" "waiting_ok {} s1" "GetState s1 cur = Waiting"
    "m_wait_queue (waits s1 cur) = Some ?q" "m_time (waits s1 cur) \<le> 0" "same_lists ?s s1"
    "listed s1 = (listed ?s)(cur := Some (queue_kind ?q))"
    by (rule BeginWait_core [OF w(1) cur(2) time place]) (rule that)
  have "lists_ok s1" unfolding lists_ok_def s1(7) w(2) using lists lists_at_cong [OF s1(6)] by simp
  then have ok1: "wait_ok {} s1" using s1(2) by (simp add: wait_ok_def)
  have "wait_ok {} (register_sleep cur timeout s1)" by (rule register_sleep_ok [OF ok1 s1(3-5)]) simp
  moreover have "listed (register_sleep cur timeout s1) cur = Some ?kind" by (simp add: register_sleep_listed s1(7))
  ultimately show ?thesis using ok len s1(1) by (simp add: KSynchronizationObject_Wait_def Let_def split: option.split)
qed

section \<open>Events\<close>

lemma KReadableEvent_Signal_ok:
  assumes "wait_ok {} s"
  shows "\<exists>s1. KReadableEvent_Signal e s = Some s1 \<and> wait_ok {} s1"
proof -
  have "wait_ok {} (set_signaled (OtherObject e) True s)" using assms by simp
  then obtain s1 where "KSynchronizationObject_NotifyAvailable (OtherObject e) ResultSuccess (set_signaled (OtherObject e) True s) = Some s1"
    "wait_ok {} s1" by (rule NotifyAvailable_ok)
  then show ?thesis using assms by (simp add: KReadableEvent_Signal_def)
qed

lemma event_ok:
  assumes "wait_ok {} s"
  shows "\<exists>s1. KEvent_Signal destroyed e s = Some s1 \<and> wait_ok {} s1" and "wait_ok {} (snd (KReadableEvent_Reset e s))"
    and "wait_ok {} (snd (KEvent_Clear destroyed e s))"
proof -
  show "\<exists>s1. KEvent_Signal destroyed e s = Some s1 \<and> wait_ok {} s1"
    using assms KReadableEvent_Signal_ok [OF assms, of e] by (cases destroyed) (simp_all add: KEvent_Signal_def)
  show "wait_ok {} (snd (KReadableEvent_Reset e s))" using assms by (simp add: KReadableEvent_Reset_def)
  then show "wait_ok {} (snd (KEvent_Clear destroyed e s))" using assms by (simp add: KEvent_Clear_def KReadableEvent_Clear_def)
qed

lemma KProcess_ChangeState_ok:
  assumes "wait_ok {} s"
  shows "\<exists>st s1. KProcess_ChangeState p m_state new_state s = Some (st, s1) \<and> wait_ok {} s1"
proof -
  have "wait_ok {} (set_signaled (OtherObject p) True s)" using assms by simp
  then obtain s1 where "KSynchronizationObject_NotifyAvailable (OtherObject p) ResultSuccess (set_signaled (OtherObject p) True s) = Some s1"
    "wait_ok {} s1" by (rule NotifyAvailable_ok)
  then show ?thesis using assms by (simp add: KProcess_ChangeState_def)
qed

section \<open>User exceptions\<close>

lemma EnterUserException_ok:
  assumes ok: "wait_ok {} s" and cur: "GetState s cur \<noteq> Waiting" "cur < SlabCountKThread"
  shows "\<exists>r s1. EnterUserException key p cur s = Some (r, s1) \<and> wait_ok {} s1"
proof -
  note n = not_waiting [OF ok cur(1)]
  let ?s = "SetKernelAddressKey cur key s" and ?q = "\<lparr>queue_kind = ForUserException p, m_hardware_timer = False\<rparr>"
  have key: "wait_ok {} ?s" unfolding SetKernelAddressKey_def by (rule key_changed_ok(1) [OF ok n(1,2)]) simp_all
  have n': "waits_in ?s cur = None" "m_condvar_tree (waits ?s cur) = None" "m_time (waits ?s cur) \<le> 0" "GetState ?s cur \<noteq> Waiting"
    using n cur(1) by (simp_all add: SetKernelAddressKey_def GetState_def)
  have wait: "\<exists>s2. Option.bind (AddWaiter cur owner cur ?s) (BeginWait cur ?q) = Some s2 \<and> wait_ok {} s2" for owner
  proof -
    obtain s1 where s1: "AddWaiter cur owner cur ?s = Some s1" "wait_ok {cur} s1" "waits_in s1 cur \<noteq> None"
      "same_rest ?s s1" "same_threads ?s s1" by (rule join_lock_ok [OF key n'(1,2) cur(2)]) (rule that)
    note rest = same_rest_members [OF s1(4)]
    have place: "place_ok (queue_kind ?q) (waits_in s1 cur \<noteq> None) (m_condvar_tree (waits s1 cur))"
      and time: "m_time (waits s1 cur) \<le> 0" using s1(3) n' rest by simp_all
    have st: "GetState s1 cur \<noteq> Waiting" using n'(4) GetState_threads [OF s1(5), of cur] by simp
    obtain s2 where "BeginWait cur ?q s1 = Some s2" "wait_ok {} s2"
      by (rule BeginWait_ok [OF s1(2) cur(2) time place st]) (simp, rule that)
    then show ?thesis using s1(1) by simp
  qed
  have claim: "wait_ok {} (update_needed (set_exception_thread p (Some cur) s))" using ok by (intro update_needed_ok) simp
  show ?thesis
  proof (cases "m_exception_thread (objects s) p")
    case None
    then show ?thesis using ok claim by (simp add: EnterUserException_def)
  next
    case (Some owner)
    then show ?thesis using ok wait [of owner] by (auto simp: EnterUserException_def bind_eq_Some_conv)
  qed
qed

lemma ReleaseUserException_ok:
  assumes ok: "wait_ok {} s"
  obtains b s1 where "ReleaseUserException key p cur t s = Some (b, s1)" and "wait_ok {} s1" and "keeps s s1"
proof (cases "m_exception_thread (objects s) p = Some t")
  case False
  then show thesis using that [of False s] ok by (simp add: ReleaseUserException_def)
next
  case True
  let ?s = "set_exception_thread p None s"
  have ok': "wait_ok {} ?s" using ok by simp
  obtain nxt others s1 where s1: "RemoveWaiterByKey cur t key True ?s = Some (nxt, others, s1)" "wait_ok (set_option nxt) s1"
    "handed t key True ?s nxt s1" "keeps ?s s1" "\<And>v. nxt = Some v \<Longrightarrow> ready s1 v" "\<And>v. nxt = Some v \<Longrightarrow> GetState ?s v = Waiting"
    by (rule hand_over_ok [OF ok']) (rule that)
  have r: "\<forall>v. nxt = Some v \<longrightarrow> ready s1 v" using s1(5) by blast
  obtain s2 where s2: "end_next_wait nxt s1 = Some s2" "wait_ok {} s2" "keeps s1 s2" "GetLockOwner s2 = GetLockOwner s1"
    by (rule end_next_wait_ok [OF s1(2) r]) (rule that)
  have "keeps s ?s" by simp
  then have "keeps s (update_needed s2)" using s1(4) s2(3) update_needed_ok(2) [OF s2(2)] keeps_trans by blast
  then show thesis using True s1(1) s2(1) update_needed_ok(1) [OF s2(2)] by (intro that [of True "update_needed s2"]) (simp_all add: ReleaseUserException_def)
qed

section \<open>Steps of the scheduler\<close>

lemma kernel_step_ok:
  assumes ok: "wait_ok X s" and k: "kernel_ok k" "keeps_waits (kernel s) k"
  shows "wait_ok X (s\<lparr>kernel := k\<rparr>)" and "keeps s (s\<lparr>kernel := k\<rparr>)"
  using scheduler_step_ok [OF ok k] k(2) by (simp_all add: keeps_def keeps_waits_def GetState_def)

lemma keeps_waits_trans: "keeps_waits k k1 \<Longrightarrow> keeps_waits k1 k2 \<Longrightarrow> keeps_waits k k2"
  by (simp add: keeps_waits_def)

lemma allowed_flags: "wait_ok X s \<Longrightarrow> m_suspend_allowed_flags (threads (kernel s) t) AND 15 = 0"
  using wait_okD(5) by (simp add: flags_ok_def)

lemma update_thread_keeps:
  assumes "m_priority (f th) = m_priority th" "m_num_kernel_waiters (f th) = m_num_kernel_waiters th"
    "IsDummyThread (f th) = IsDummyThread th" "m_thread_state (f th) AND ThreadState_Mask = m_thread_state th AND ThreadState_Mask"
    "m_suspend_allowed_flags th AND 15 = 0 \<Longrightarrow> m_suspend_allowed_flags (f th) AND 15 = 0" and "th = threads k t"
  shows "keeps_waits k (update_thread t f k)"
  using assms by (simp add: keeps_waits_def)

lemma affinity_threads: "OnThreadAffinityMaskChanged t a c k = Some k1 \<Longrightarrow> threads k1 = threads k"
  by (auto simp: OnThreadAffinityMaskChanged_def on_queue_def split: if_splits)

lemma allow_thread_suspension: "x AND 15 = 0 \<Longrightarrow> (x OR 32) AND 15 = (0 :: u32)"
  by (simp add: bit.conj_disj_distrib2)

lemma Unpin_keeps:
  assumes u: "Unpin b t k = Some k1" and fl: "m_suspend_allowed_flags (threads k t) AND 15 = 0"
  shows "keeps_waits k k1"
proof -
  have "\<exists>k2. keeps_waits k k2 \<and> (if b then Some k2 else UpdateState t
      (update_thread t (\<lambda>thread. thread\<lparr>m_suspend_allowed_flags := m_suspend_allowed_flags thread OR push_bit 5 1\<rparr>) k2)) = Some k1"
    using u unfolding Unpin_def Let_def bind_eq_Some_conv
    by (elim exE conjE, intro exI conjI) (auto simp: keeps_waits_def split: if_splits dest!: affinity_threads)
  then obtain k2 where k2: "keeps_waits k k2" "(if b then Some k2 else UpdateState t
      (update_thread t (\<lambda>thread. thread\<lparr>m_suspend_allowed_flags := m_suspend_allowed_flags thread OR push_bit 5 1\<rparr>) k2)) = Some k1"
    by blast
  show ?thesis
  proof (cases b)
    case True
    then show ?thesis using k2 by simp
  next
    case False
    let ?k = "update_thread t (\<lambda>thread. thread\<lparr>m_suspend_allowed_flags := m_suspend_allowed_flags thread OR push_bit 5 1\<rparr>) k2"
    have fl2: "m_suspend_allowed_flags (threads k2 t) AND 15 = 0" using k2(1) fl by (simp add: keeps_waits_def)
    have "keeps_waits k2 ?k" by (rule update_thread_keeps) (simp_all add: allow_thread_suspension)
    moreover have "keeps_waits ?k k1" using False k2(2) fl2 by (intro UpdateState_keeps [of t]) (simp_all add: allow_thread_suspension)
    ultimately show ?thesis using k2(1) keeps_waits_trans by blast
  qed
qed

section \<open>Pinned threads\<close>

lemma resume_pinned_waiters_ok: "wait_ok {} s \<Longrightarrow>
    \<exists>s1. resume_pinned_waiters t s = Some s1 \<and> wait_ok {} s1 \<and> keeps s s1 \<and> pinned_waiters s1 t = []"
proof (induction "length (pinned_waiters s t)" arbitrary: s rule: less_induct)
  case less
  note ok = less.prems
  show ?case
  proof (cases "pinned_waiters s t")
    case Nil
    then show ?thesis using ok by (subst resume_pinned_waiters.simps) simp
  next
    case (Cons u us)
    have "pinned_at (listed s u) = Some t" using wait_okD(6) [OF ok] Cons by (simp add: lists_ok_def lists_at_def) (metis list.set_intros(1))
    then have on: "listed s u = Some (ForThreadSetProperty t)" by (auto elim: pinned_at.elims)
    then obtain q where st: "GetState s u = Waiting" and q: "m_wait_queue (waits s u) = Some q" "queue_kind q = ForThreadSetProperty t"
      by (auto simp: listed_def split: if_splits)
    have "queue_ok s u" using wait_okD(3) [OF ok] by (simp add: queues_ok_def)
    then have none: "waits_in s u = None" "m_condvar_tree (waits s u) = None" and time: "0 < m_time (waits s u) \<longrightarrow> m_hardware_timer q"
      using st q by (simp_all add: queue_ok_def)
    have ends: "ends (queue_kind q)" by (simp add: ends_def q(2))
    obtain s1 where s1: "KThread_EndWait u ResultSuccess s = Some s1" "waiting_ok {u} s1"
      "m_condvar_tree (waits s u) = None \<Longrightarrow> waiting_ok {} s1" "ended u s s1"
      by (rule KThread_EndWait_core [OF weaken_waiting [OF ok] st q(1) ends time none(1)]) (rule that)
    have e: "listed s1 = (listed s)(u := None)" "same_lists s s1" "keeps s s1" using s1(4) by (simp_all add: ended_def)
    have p: "pinned_waiters s1 v = pinned_waiters s v" for v using e(2) by (simp add: same_lists_def)
    let ?f = "\<lambda>w. w\<lparr>m_pinned_waiter_list := remove1 u (pinned_waiters s t)\<rparr>"
    let ?s = "update_wait t ?f s1"
    have erase: "erase_pinned_waiter t u s1 = Some ?s" using Cons p by (simp add: erase_pinned_waiter_def tree_erase_def)
    have "same_lists (update_wait t ?f s) ?s" using e(2) p by (simp add: same_lists_def)
    then have "lists_ok ?s"
      using erase_pinned_ok(2) [OF wait_okD(6) [OF ok] on] lists_at_cong unfolding lists_ok_def flag_changed e(1) by blast
    then have ok1: "wait_ok {} ?s" using s1(3) [OF none(2)] by (simp add: wait_ok_def)
    have "keeps s1 ?s" by (simp add: keeps_def GetState_def)
    then have k: "keeps s ?s" using e(3) keeps_trans by blast
    have "length (pinned_waiters ?s t) < length (pinned_waiters s t)" using Cons by simp
    from less.hyps [OF this ok1] obtain s2 where s2: "resume_pinned_waiters t ?s = Some s2" "wait_ok {} s2" "keeps ?s s2"
      "pinned_waiters s2 t = []" by blast
    have "resume_pinned_waiters t s = Some s2" using Cons s1(1) erase s2(1) by (subst resume_pinned_waiters.simps) simp
    then show ?thesis using s2(2,4) keeps_trans [OF k s2(3)] by blast
  qed
qed

text \<open>What pins and unpins alternating means for a thread that is to be unpinned.\<close>

definition unpinnable :: "KThread \<Rightarrow> bool" where
  "unpinnable th \<longleftrightarrow> 0 \<le> m_core_id th \<and> m_num_core_migration_disables th = 1"

lemma KThread_Unpin_ok:
  assumes ok: "wait_ok {} s" and u: "unpinnable (threads (kernel s) t)"
  obtains s1 where "KThread_Unpin t s = Some s1" and "wait_ok {} s1" and "keeps s s1" and "pinned_waiters s1 t = []"
proof -
  obtain k where k: "Unpin (IsTerminationRequested s t) t (kernel s) = Some k" "kernel_ok k"
    using Unpin_ok [OF system_okD(5) [OF wait_okD(1) [OF ok]]] u unfolding unpinnable_def by blast
  note step = kernel_step_ok [OF ok k(2) Unpin_keeps [OF k(1) allowed_flags [OF ok]]]
  from resume_pinned_waiters_ok [OF step(1), of t] obtain s1 where "resume_pinned_waiters t (s\<lparr>kernel := k\<rparr>) = Some s1"
    "wait_ok {} s1" "keeps (s\<lparr>kernel := k\<rparr>) s1" "pinned_waiters s1 t = []" by blast
  then show thesis using k(1) keeps_trans [OF step(2)] by (intro that [of s1]) (simp_all add: KThread_Unpin_def on_kernel_def)
qed

lemma clear_pinned_ok:
  assumes "wait_ok {} s"
  shows "wait_ok {} (on_kernel_always (clear_pinned p c) s)" and "keeps s (on_kernel_always (clear_pinned p c) s)"
  unfolding on_kernel_always_def by (rule kernel_changed_ok [OF assms]; simp add: clear_pinned_def)+

lemma KProcess_UnpinCurrentThread_ok:
  assumes "wait_ok {} s" and "unpinnable (threads (kernel s) cur)"
  shows "\<exists>s1. KProcess_UnpinCurrentThread core_id p cur s = Some s1 \<and> wait_ok {} s1 \<and> keeps s s1"
proof -
  obtain s1 where s1: "KThread_Unpin cur s = Some s1" "wait_ok {} s1" "keeps s s1" "pinned_waiters s1 cur = []"
    by (rule KThread_Unpin_ok [OF assms]) (rule that)
  note c = clear_pinned_ok [OF s1(2), of p core_id]
  note n = update_needed_ok [OF c(1)]
  show ?thesis using s1(1) n(1) keeps_trans [OF keeps_trans [OF s1(3) c(2)] n(2)] by (simp add: KProcess_UnpinCurrentThread_def)
qed

lemma KProcess_UnpinThread_ok:
  assumes ok: "wait_ok {} s" and u: "unpinnable (threads (kernel s) t)" "m_core_id (threads (kernel s) t) < 4"
  shows "\<exists>s1. KProcess_UnpinThread p t s = Some s1 \<and> wait_ok {} s1 \<and> keeps s s1"
proof -
  let ?s = "on_kernel_always (clear_pinned p (m_core_id (threads (kernel s) t))) s"
  note c = clear_pinned_ok [OF ok, of p "m_core_id (threads (kernel s) t)"]
  have "unpinnable (threads (kernel ?s) t)" using u(1) by (simp add: on_kernel_always_def clear_pinned_def)
  then obtain s1 where s1: "KThread_Unpin t ?s = Some s1" "wait_ok {} s1" "keeps ?s s1" "pinned_waiters s1 t = []"
    by (rule KThread_Unpin_ok [OF c(1)]) (rule that)
  note n = update_needed_ok [OF s1(2)]
  have r: "\<not> (m_core_id (threads (kernel s) t) < 0 \<or> m_core_id (threads (kernel s) t) \<ge> NUM_CPU_CORES)"
    using u by (simp add: unpinnable_def NUM_CPU_CORES_def)
  show ?thesis unfolding KProcess_UnpinThread_def Let_def if_not_P [OF r]
    using s1(1) n(1) keeps_trans [OF keeps_trans [OF c(2) s1(3)] n(2)] by simp
qed

section \<open>What only pins and moves of threads change\<close>

definition pin_state :: "Kernel \<Rightarrow> (nat \<Rightarrow> int \<Rightarrow> nat option) \<times> (nat \<Rightarrow> int \<times> int \<times> bool \<times> nat option)" where
  "pin_state k = ((\<lambda>p. m_pinned_threads (processes k p)),
     (\<lambda>t. (m_core_id (threads k t), m_num_core_migration_disables (threads k t), is_pinned (threads k t), m_parent (threads k t))))"

lemma pin_state_frame [simp]:
  "pin_state (SetSchedulerUpdateNeeded k) = pin_state k" "pin_state (IncrementScheduledCount t k) = pin_state k"
  "pin_state (k\<lparr>m_priority_queue := q\<rparr>) = pin_state k" "pin_state (k\<lparr>m_woken_dummy_threads := d\<rparr>) = pin_state k"
  by (simp_all add: pin_state_def SetSchedulerUpdateNeeded_def IncrementScheduledCount_def update_process_def fun_eq_iff split: option.split)

lemma pin_state_update [simp]:
  "pin_state (update_thread t (\<lambda>th. th\<lparr>m_priority := p\<rparr>) k) = pin_state k"
  "pin_state (update_thread t (\<lambda>th. th\<lparr>m_num_kernel_waiters := m_num_kernel_waiters th + n\<rparr>) k) = pin_state k"
  "pin_state (update_thread t (\<lambda>th. th\<lparr>m_thread_state := st\<rparr>) k) = pin_state k"
  "pin_state (update_thread t (\<lambda>th. th\<lparr>m_suspend_allowed_flags := fl\<rparr>) k) = pin_state k"
  by (simp_all add: pin_state_def update_thread_def fun_eq_iff)

lemma state_change_pin: "OnThreadStateChanged t old k = Some k1 \<Longrightarrow> pin_state k1 = pin_state k"
  by (auto simp: OnThreadStateChanged_def on_queue_def Let_def split: if_splits)

lemma priority_change_pin: "OnThreadPriorityChanged cur t old k = Some k1 \<Longrightarrow> pin_state k1 = pin_state k"
  by (auto simp: OnThreadPriorityChanged_def on_queue_def split: if_splits)

lemma SetState_pin: "Thread_SetState t st s = Some s1 \<Longrightarrow> pin_state (kernel s1) = pin_state (kernel s)"
  by (auto simp: Thread_SetState_def on_kernel_def KThread_SetState_def Let_def dest!: state_change_pin split: if_splits)

lemma UpdateState_pin: "UpdateState t k = Some k1 \<Longrightarrow> pin_state k1 = pin_state k"
  by (auto simp: UpdateState_def Let_def dest!: state_change_pin split: if_splits)

lemma lock_frame_pin [simp]:
  "pin_state (kernel (update_needed s)) = pin_state (kernel s)" "pin_state (kernel (add_kernel_waiters t n s)) = pin_state (kernel s)"
  "kernel (LockInfo_AddWaiter l u s) = kernel s" "kernel (LockInfo_Free l s) = kernel s" "kernel (AddHeldLock t l s) = kernel s"
  "pin_state (kernel (SetPriority t p s)) = pin_state (kernel s)" "kernel (AfterUpdatePriority t s) = kernel s"
  "kernel (WriteToUser pr a v s) = kernel s"
  by (simp_all add: update_needed_def add_kernel_waiters_def LockInfo_AddWaiter_def LockInfo_Free_def AddHeldLock_def SetPriority_def
      AfterUpdatePriority_def tree_insert_thread_def WriteToUser_def split: option.split)

lemma lock_step_pin:
  "LockInfo_RemoveWaiter l u s = Some (b, s1) \<Longrightarrow> kernel s1 = kernel s"
  "erase_held_lock t l s = Some s1 \<Longrightarrow> kernel s1 = kernel s"
  "BeforeUpdatePriority t s = Some s1 \<Longrightarrow> kernel s1 = kernel s"
  "LockInfo_Create key isk s = Some (l, s1) \<Longrightarrow> kernel s1 = kernel s"
  by (auto simp: LockInfo_RemoveWaiter_def erase_held_lock_def BeforeUpdatePriority_def tree_erase_thread_def LockInfo_Create_def
      split: option.splits list.splits)

lemma AddWaiterImpl_pin: "AddWaiterImpl t u s = Some s1 \<Longrightarrow> pin_state (kernel s1) = pin_state (kernel s)"
  by (auto simp: AddWaiterImpl_def Let_def dest!: lock_step_pin split: option.splits if_splits)

lemma RemoveWaiterImpl_pin: "RemoveWaiterImpl t u s = Some s1 \<Longrightarrow> pin_state (kernel s1) = pin_state (kernel s)"
  by (auto simp: RemoveWaiterImpl_def Let_def bind_eq_Some_conv dest!: lock_step_pin split: option.splits if_splits)

lemma set_inherited_pin: "set_inherited cur t p own s = Some s1 \<Longrightarrow> pin_state (kernel s1) = pin_state (kernel s)"
  by (cases own) (auto simp: set_inherited_def Let_def bind_eq_Some_conv on_kernel_def
      dest!: lock_step_pin(3) AddWaiterImpl_pin RemoveWaiterImpl_pin priority_change_pin)

lemma RestorePriority_pin:
  assumes "RestorePriority cur thread s = Some s1"
  shows "pin_state (kernel s1) = pin_state (kernel s)"
proof (rule RestorePriority.raw_induct [where P = "\<lambda>cur thread s s1. pin_state (kernel s1) = pin_state (kernel s)", OF _ assms])
  fix restore cur thread s s1
  assume IH: "\<And>cur thread s s1. restore cur thread s = Some s1 \<Longrightarrow> pin_state (kernel s1) = pin_state (kernel s)"
    and r: "(case thread of None \<Rightarrow> Some s
      | Some t \<Rightarrow> Option.bind (inherited_priority s (m_held_lock_info_list (waits s t)) (GetBasePriority s t)) (\<lambda>new_priority.
            if new_priority = GetPriority s t then Some s
            else Option.bind (set_inherited cur t new_priority (GetLockOwner s t) s) (restore cur (GetLockOwner s t)))) = Some s1"
  show "pin_state (kernel s1) = pin_state (kernel s)"
    using r by (auto simp: bind_eq_Some_conv dest!: IH set_inherited_pin split: option.splits if_splits)
qed

lemma restore_if_pin: "(if b then RestorePriority cur thread s else Some s) = Some s1 \<Longrightarrow> pin_state (kernel s1) = pin_state (kernel s)"
  by (cases b) (auto dest: RestorePriority_pin)

lemma lock_if_pin [simp]:
  "pin_state (kernel (if b then update_needed (add_kernel_waiters t n s) else s)) = pin_state (kernel s)"
  "pin_state (kernel (if b then LockInfo_Free l s else if c then add_kernel_waiters u m (AddHeldLock v l s) else AddHeldLock v l s)) =
    pin_state (kernel s)"
  by simp_all

lemma RemoveWaiterByKey_pin:
  assumes "RemoveWaiterByKey cur t key isk s = Some (nxt, others, s1)"
  shows "pin_state (kernel s1) = pin_state (kernel s)"
proof (cases "FindHeldLock t key isk s")
  case None
  then show ?thesis using assms by (simp add: RemoveWaiterByKey_def)
next
  case (Some l)
  from assms Some obtain s2 where s2: "erase_held_lock t l s = Some s2"
    by (auto simp: RemoveWaiterByKey_def bind_eq_Some_conv)
  note rest = assms [unfolded RemoveWaiterByKey_def Some option.case s2 bind.simps Let_def]
  show ?thesis
    using rest lock_step_pin(2) [OF s2]
    by (elim bind_eq_Some_conv [THEN iffD1, elim_format] exE conjE)
      (auto simp only: split_beta map_option_eq_Some prod.inject lock_if_pin fst_conv snd_conv dest!: restore_if_pin lock_step_pin(1))
qed

lemma finish_wait_pin: "finish_wait t r c s = Some s1 \<Longrightarrow> pin_state (kernel s1) = pin_state (kernel s)"
  by (auto simp: finish_wait_def Let_def bind_eq_Some_conv CancelTask_def RemoveTaskFromTree_def dest!: SetState_pin split: if_splits)

lemma EndWait_pin: "KThread_EndWait t r s = Some s1 \<Longrightarrow> pin_state (kernel s1) = pin_state (kernel s)"
  by (auto simp: KThread_EndWait_def KThreadQueue_EndWait_def set_exception_thread_def dest!: finish_wait_pin
      split: option.splits if_splits ThreadQueueKind.splits)

lemma end_next_wait_pin: "end_next_wait nxt s = Some s1 \<Longrightarrow> pin_state (kernel s1) = pin_state (kernel s)"
  by (auto simp: end_next_wait_def dest!: EndWait_pin split: option.splits)

lemma ReleaseAbandoned_pin:
  assumes "ReleaseAbandonedUserLocks cur p s = Some s1"
  shows "pin_state (kernel s1) = pin_state (kernel s)"
proof (rule ReleaseAbandonedUserLocks.raw_induct [where P = "\<lambda>cur p s s1. pin_state (kernel s1) = pin_state (kernel s)", OF _ assms])
  fix release cur p s s1
  assume IH: "\<And>cur p s s1. release cur p s = Some s1 \<Longrightarrow> pin_state (kernel s1) = pin_state (kernel s)"
    and r: "(case FindHeldUserLockKey cur s of None \<Rightarrow> Some s
      | Some addr \<Rightarrow> Option.bind (RemoveWaiterByKey cur cur addr False s) (\<lambda>(next_owner, has_waiters, s1).
            if next_owner = None then None
            else Option.bind (end_next_wait next_owner (WriteToUser p addr (next_tag next_owner has_waiters s1) s1)) (release cur p))) = Some s1"
  show "pin_state (kernel s1) = pin_state (kernel s)"
    using r by (auto simp: bind_eq_Some_conv dest!: IH RemoveWaiterByKey_pin end_next_wait_pin split: option.splits if_splits)
qed

lemma ReleaseUserException_pin: "ReleaseUserException key p cur t s = Some (b, s1) \<Longrightarrow> pin_state (kernel s1) = pin_state (kernel s)"
  by (auto simp: ReleaseUserException_def bind_eq_Some_conv dest!: RemoveWaiterByKey_pin end_next_wait_pin split: if_splits)

section \<open>Waits for a pinned thread\<close>

lemma wait_for_pin_ok:
  assumes ok: "wait_ok {} s" and cur: "GetState s cur \<noteq> Waiting" "cur < SlabCountKThread"
  shows "\<exists>r s1. wait_for_pin cur t s = Some (r, s1) \<and> wait_ok {} s1"
proof -
  note n = not_waiting [OF ok cur(1)]
  let ?kind = "ForThreadSetProperty t" and ?us = "pinned_waiters s t @ [cur]"
  let ?q = "\<lparr>queue_kind = ?kind, m_hardware_timer = False\<rparr>" and ?K = "(listed s)(cur := Some (ForThreadSetProperty t))"
  let ?s = "update_wait t (\<lambda>w. w\<lparr>m_pinned_waiter_list := ?us\<rparr>) s"
  have eq: "update_wait t (\<lambda>w. w\<lparr>m_pinned_waiter_list := m_pinned_waiter_list w @ [cur]\<rparr>) s = ?s" by (simp add: update_wait_def)
  have off: "listed s cur = None" using cur(1) by (simp add: listed_def)
  have p: "distinct (pinned_waiters s v)" "w \<in> set (pinned_waiters s v) \<longleftrightarrow> pinned_at (listed s w) = Some v" for v w
    using wait_okD(6) [OF ok] by (simp_all add: lists_ok_def lists_at_def)
  have out: "cur \<notin> set (pinned_waiters s v)" for v using p(2) [of cur v] off by simp
  have "object_at (?K v) = object_at (listed s v)" for v using off by (simp add: fun_eq_iff)
  moreover have "w \<in> set (pinned_waiters ?s v) \<longleftrightarrow> pinned_at (?K w) = Some v" for v w
    using p(2) [of w v] p(2) [of w t] out [of v] by (cases "v = t"; cases "w = cur") auto
  moreover have "distinct (pinned_waiters ?s v)" for v using p(1) [of v] p(1) [of t] out [of t] by simp
  ultimately have lists: "lists_at ?K ?s" using wait_okD(6) [OF ok] by (simp add: lists_ok_def lists_at_def)
  have w: "waiting_ok {cur} ?s" "listed ?s = listed s" using weaken_waiting [OF ok] by simp_all
  have time: "m_time (waits ?s cur) \<le> 0" and place: "place_ok (queue_kind ?q) (waits_in ?s cur \<noteq> None) (m_condvar_tree (waits ?s cur))"
    using n by auto
  obtain s1 where s1: "BeginWait cur ?q ?s = Some s1" "waiting_ok {} s1" "same_lists ?s s1"
    "listed s1 = (listed ?s)(cur := Some (queue_kind ?q))"
    by (rule BeginWait_core [OF w(1) cur(2) time place]) (rule that)
  have "lists_ok s1" unfolding lists_ok_def s1(4) w(2) using lists lists_at_cong [OF s1(3)] by simp
  then show ?thesis using ok s1(1,2) unfolding wait_for_pin_def eq by (simp add: wait_ok_def)
qed

lemma turns_ok:
  assumes ok: "wait_ok {} s" and cur: "GetState s cur \<noteq> Waiting" "cur < SlabCountKThread"
  shows "\<exists>r s1. activity_turn b cur t s = Some (r, s1) \<and> wait_ok {} s1"
    and "\<exists>r s1. core_mask_turn c b l m cur t s = Some (r, s1) \<and> wait_ok {} s1"
  using ok wait_for_pin_ok [OF assms, of t] by (auto simp: activity_turn_def core_mask_turn_def split: option.split)

lemma RequestSuspend_keeps:
  assumes "RequestSuspend ty t k = Some k1" and "m_suspend_allowed_flags (threads k t) AND 15 = 0"
  shows "keeps_waits k k1"
proof -
  let ?k = "update_thread t (\<lambda>thread. thread\<lparr>m_suspend_request_flags := m_suspend_request_flags thread OR push_bit (4 + ty) 1\<rparr>) k"
  have "keeps_waits k ?k" by (rule update_thread_keeps) simp_all
  moreover have "keeps_waits ?k k1" using assms by (intro TrySuspend_keeps [of t]) (simp_all add: RequestSuspend_def)
  ultimately show ?thesis by (rule keeps_waits_trans)
qed

lemma Resume_keeps:
  assumes "Resume ty t k = Some k1" and "m_suspend_allowed_flags (threads k t) AND 15 = 0"
  shows "keeps_waits k k1"
proof -
  let ?k = "update_thread t (\<lambda>thread. thread\<lparr>m_suspend_request_flags := m_suspend_request_flags thread AND NOT (push_bit (4 + ty) 1)\<rparr>) k"
  have "keeps_waits k ?k" by (rule update_thread_keeps) simp_all
  moreover have "keeps_waits ?k k1" using assms by (intro UpdateState_keeps [of t]) (simp_all add: Resume_def)
  ultimately show ?thesis by (rule keeps_waits_trans)
qed

lemma change_activity_ok:
  assumes ok: "wait_ok {} s"
  shows "\<exists>r s1. change_activity paused t s = Some (r, s1) \<and> wait_ok {} s1"
proof -
  note k0 = system_okD(5) [OF wait_okD(1) [OF ok]]
  obtain k1 where k1: "RequestSuspend 1 t (kernel s) = Some k1" "kernel_ok k1" using RequestSuspend_ok [OF k0, of 1 t] by blast
  obtain k2 where k2: "Resume 1 t (kernel s) = Some k2" "kernel_ok k2" using Resume_ok [OF k0, of 1 t] by blast
  show ?thesis
    using ok k1(1) k2(1) kernel_step_ok(1) [OF ok k1(2) RequestSuspend_keeps [OF k1(1) allowed_flags [OF ok]]]
      kernel_step_ok(1) [OF ok k2(2) Resume_keeps [OF k2(1) allowed_flags [OF ok]]]
    by (simp add: change_activity_def on_kernel_def)
qed

section \<open>The start and the end of a thread\<close>

lemma set_state_ok:
  assumes ok: "wait_ok {} s" and st: "GetState s t \<noteq> Waiting" "state AND ThreadState_Mask \<noteq> Waiting"
  obtains s1 where "Thread_SetState t state s = Some s1" and "wait_ok {} s1" and "keeps s s1"
    and "GetState s1 t = state AND ThreadState_Mask" and "\<And>u. u \<noteq> t \<Longrightarrow> GetState s1 u = GetState s u"
proof -
  obtain k where k: "Thread_SetState t state s = Some (s\<lparr>kernel := k\<rparr>)" "kernel_ok k"
    "threads k = (threads (kernel s))(t := (threads (kernel s) t)\<lparr>m_thread_state :=
      (m_thread_state (threads (kernel s) t) AND NOT ThreadState_Mask) OR (state AND ThreadState_Mask)\<rparr>)"
    by (rule Thread_SetState_ok [OF system_okD(5) [OF wait_okD(1) [OF ok]], of t state]) (rule that)
  have g: "GetState (s\<lparr>kernel := k\<rparr>) t = state AND ThreadState_Mask" "u \<noteq> t \<Longrightarrow> GetState (s\<lparr>kernel := k\<rparr>) u = GetState s u" for u
    by (simp_all add: GetState_def k(3) low_bits(1))
  have "keeps_waits (kernel s) k" using st by (simp add: keeps_waits_def k(3) low_bits(1) GetState_def)
  then show thesis using k(1) g kernel_step_ok [OF ok k(2)] by (intro that [of "s\<lparr>kernel := k\<rparr>"]) simp_all
qed

lemma update_state_step:
  assumes ok: "wait_ok {} s"
  obtains s1 where "on_kernel (UpdateState t) s = Some s1" and "wait_ok {} s1" and "keeps s s1"
    and "GetState s1 u = Waiting \<longleftrightarrow> GetState s u = Waiting"
proof -
  obtain k where k: "UpdateState t (kernel s) = Some k" "kernel_ok k"
    using UpdateState_ok [OF system_okD(5) [OF wait_okD(1) [OF ok]], of t] by blast
  note u = UpdateState_keeps [OF k(1) allowed_flags [OF ok]]
  show thesis using k(1) kernel_step_ok [OF ok k(2) u] u
    by (intro that [of "s\<lparr>kernel := k\<rparr>"]) (simp_all add: on_kernel_def keeps_waits_def GetState_def)
qed

lemma Run_turn_ok:
  assumes ok: "wait_ok {} s"
  shows "\<exists>r s1. Run_turn user cur t s = Some (r, s1) \<and> wait_ok {} s1"
proof -
  have start: "\<exists>s2. Thread_SetState t Runnable s1 = Some s2 \<and> wait_ok {} s2" if "wait_ok {} s1" "GetState s1 t \<noteq> Waiting" for s1
    using set_state_ok [OF that, of Runnable] by auto
  obtain s1 where s1: "on_kernel (UpdateState cur) s = Some s1" "wait_ok {} s1" by (rule update_state_step [OF ok]) (rule that)
  obtain s2 where s2: "on_kernel (UpdateState t) s = Some s2" "wait_ok {} s2" "keeps s s2" by (rule update_state_step [OF ok]) (rule that)
  have "\<exists>s3. Option.bind (if b then on_kernel (UpdateState t) s else Some s) (Thread_SetState t Runnable) = Some s3 \<and> wait_ok {} s3"
    if "GetState s t = 0" for b
  proof -
    have g: "GetState s t \<noteq> Waiting" using that by (simp add: Waiting_def)
    then have "GetState s2 t \<noteq> Waiting" using s2(3) by (auto simp: keeps_def)
    then show ?thesis using start [OF ok g] start [OF s2(2)] s2(1) by (cases b) simp_all
  qed
  note run = this [of "m_parent (threads (kernel s) t) \<noteq> None \<and> user \<and> IsSuspended s t"]
  show ?thesis
  proof (cases "GetState s t = 0")
    case False
    then show ?thesis using ok by (simp add: Run_turn_def)
  next
    case True
    from run [OF this] obtain s3 where "Option.bind (if m_parent (threads (kernel s) t) \<noteq> None \<and> user \<and> IsSuspended s t
        then on_kernel (UpdateState t) s else Some s) (Thread_SetState t Runnable) = Some s3" "wait_ok {} s3" by blast
    then show ?thesis using ok s1 by (auto simp: Run_turn_def bind_eq_Some_conv)
  qed
qed

lemma FinishTermination_ok:
  assumes "wait_ok {} s"
  shows "\<exists>s1. FinishTermination t s = Some s1 \<and> wait_ok {} s1"
proof -
  have "wait_ok {} (set_signaled (ThreadObject t) True s)" using assms by simp
  then obtain s1 where "KSynchronizationObject_NotifyAvailable (ThreadObject t) ResultSuccess (set_signaled (ThreadObject t) True s) = Some s1"
    "wait_ok {} s1" by (rule NotifyAvailable_ok)
  then show ?thesis by (simp add: FinishTermination_def)
qed

lemma disallow_suspension_ok:
  assumes ok: "wait_ok {} s"
  obtains s1 where "disallow_suspension t s = Some s1" and "wait_ok {} s1" and "keeps s s1" and "pin_state (kernel s1) = pin_state (kernel s)"
proof -
  let ?k = "update_thread t (\<lambda>thread. thread\<lparr>m_suspend_allowed_flags := 0\<rparr>) (kernel s)"
  have "kernel_ok ?k" using system_okD(5) [OF wait_okD(1) [OF ok]] by (rule kernel_ok_update_thread) (simp add: same_place_def)
  then obtain k where k: "UpdateState t ?k = Some k" "kernel_ok k" using UpdateState_ok by blast
  have "keeps_waits (kernel s) ?k" by (rule update_thread_keeps) simp_all
  moreover have "keeps_waits ?k k" by (rule UpdateState_keeps [OF k(1)]) simp
  ultimately have "keeps_waits (kernel s) k" by (rule keeps_waits_trans)
  then show thesis using k(1) kernel_step_ok [OF ok k(2)] UpdateState_pin [OF k(1)]
    by (intro that [of "s\<lparr>kernel := k\<rparr>"]) (simp_all add: disallow_suspension_def on_kernel_def)
qed

text \<open>The thread that ends on a core, if it is the pinned one there, can be unpinned.\<close>

definition may_unpin :: "int \<Rightarrow> nat \<Rightarrow> WaitState \<Rightarrow> bool" where
  "may_unpin core_id t s \<longleftrightarrow> (\<forall>p. m_parent (threads (kernel s) t) = Some p \<longrightarrow>
     m_pinned_threads (processes (kernel s) p) core_id = Some t \<longrightarrow> unpinnable (threads (kernel s) t))"

lemma pin_state_members:
  assumes "pin_state k1 = pin_state k"
  shows "m_parent (threads k1 t) = m_parent (threads k t)" "unpinnable (threads k1 t) = unpinnable (threads k t)"
    "m_pinned_threads (processes k1 p) = m_pinned_threads (processes k p)" "m_core_id (threads k1 t) = m_core_id (threads k t)"
proof -
  have th: "(m_core_id (threads k1 t), m_num_core_migration_disables (threads k1 t), is_pinned (threads k1 t), m_parent (threads k1 t)) =
      (m_core_id (threads k t), m_num_core_migration_disables (threads k t), is_pinned (threads k t), m_parent (threads k t))"
    using fun_cong [OF arg_cong [OF assms, of snd], of t] unfolding pin_state_def snd_conv .
  show "m_pinned_threads (processes k1 p) = m_pinned_threads (processes k p)"
    using fun_cong [OF arg_cong [OF assms, of fst], of p] unfolding pin_state_def fst_conv .
  show "m_parent (threads k1 t) = m_parent (threads k t)" "unpinnable (threads k1 t) = unpinnable (threads k t)"
    "m_core_id (threads k1 t) = m_core_id (threads k t)" using th unfolding unpinnable_def by simp_all
qed

lemma may_unpin_cong:
  assumes "pin_state (kernel s1) = pin_state (kernel s)"
  shows "may_unpin c t s1 = may_unpin c t s"
  unfolding may_unpin_def pin_state_members [OF assms] ..

lemma leave_process_ok:
  assumes ok: "wait_ok {} s" and pin: "may_unpin core_id cur s"
  obtains s1 where "leave_process key core_id cur cur s = Some s1" and "wait_ok {} s1" and "keeps s s1"
proof (cases "m_parent (threads (kernel s) cur)")
  case None
  then show thesis using that [of s] ok by (simp add: leave_process_def)
next
  case (Some p)
  obtain b s1 where s1: "ReleaseUserException (key p) p cur cur s = Some (b, s1)" "wait_ok {} s1" "keeps s s1"
    by (rule ReleaseUserException_ok [OF ok]) (rule that)
  note f = pin_state_members [OF ReleaseUserException_pin [OF s1(1)]]
  show thesis
  proof (cases "m_pinned_threads (processes (kernel s1) p) core_id = Some cur")
    case True
    then have "unpinnable (threads (kernel s1) cur)" using pin Some f by (simp add: may_unpin_def)
    from KProcess_UnpinCurrentThread_ok [OF s1(2) this, of core_id p] obtain s2
      where s2: "KProcess_UnpinCurrentThread core_id p cur s1 = Some s2" "wait_ok {} s2" "keeps s1 s2" by blast
    then show thesis using Some True s1(1) keeps_trans [OF s1(3)] by (intro that [of s2]) (simp_all add: leave_process_def)
  next
    case False
    then show thesis using Some s1 by (intro that [of s1]) (simp_all add: leave_process_def)
  qed
qed

lemma StartTermination_ok:
  assumes ok: "wait_ok {} s" and cur: "GetState s cur \<noteq> Waiting" and pin: "may_unpin core_id cur s"
  shows "\<exists>s1. StartTermination key core_id cur cur s = Some s1 \<and> wait_ok {} s1 \<and> GetState s1 cur = Terminated"
proof -
  obtain s1 where s1: "leave_process key core_id cur cur s = Some s1" "wait_ok {} s1" "keeps s s1"
    by (rule leave_process_ok [OF ok pin]) (rule that)
  have "GetState s1 cur \<noteq> Waiting" using cur s1(3) by (auto simp: keeps_def)
  then obtain s2 where s2: "Thread_SetState cur Terminated s1 = Some s2" "wait_ok {} s2" "GetState s2 cur = Terminated"
    by (rule set_state_ok [OF s1(2), of cur Terminated]) auto
  let ?s3 = "case m_parent (threads (kernel s2) cur) of None \<Rightarrow> s2 | Some p \<Rightarrow> on_kernel_always (ClearRunningThread p cur) s2"
  let ?s4 = "on_kernel_always (ClearPreviousThread cur) ?s3"
  have clear: "wait_ok {} (on_kernel_always (ClearRunningThread p cur) s2)" for p
    unfolding on_kernel_always_def by (rule kernel_changed_ok [OF s2(2)]) (simp_all add: ClearRunningThread_def)
  then have ok3: "wait_ok {} ?s3" using s2(2) by (simp split: option.split)
  have ok4: "wait_ok {} ?s4" unfolding on_kernel_always_def [of "ClearPreviousThread cur"]
    by (rule kernel_changed_ok [OF ok3]) (simp_all add: ClearPreviousThread_def)
  have "GetState ?s4 cur = GetState s2 cur"
    by (simp add: GetState_def on_kernel_always_def ClearPreviousThread_def ClearRunningThread_def split: option.split)
  then show ?thesis using s1(1) s2(1,3) ok4 by (simp add: StartTermination_def)
qed

lemma Exit_ok:
  assumes ok: "wait_ok {} s" and cur: "GetState s cur \<noteq> Waiting" and pin: "may_unpin core_id cur s"
  shows "\<exists>s1. Exit key core_id p cur s = Some s1 \<and> wait_ok {} s1 \<and> GetState s1 cur = Terminated"
proof -
  obtain s1 where s1: "disallow_suspension cur s = Some s1" "wait_ok {} s1" "keeps s s1" "pin_state (kernel s1) = pin_state (kernel s)"
    by (rule disallow_suspension_ok [OF ok]) (rule that)
  obtain s2 where s2: "ReleaseAbandonedUserLocks cur p s1 = Some s2" "wait_ok {} s2" "keeps s1 s2"
    using ReleaseAbandonedUserLocks_ok [OF s1(2), of cur p] by blast
  have cur2: "GetState s2 cur \<noteq> Waiting" using cur s1(3) s2(3) by (auto simp: keeps_def)
  have "pin_state (kernel s2) = pin_state (kernel s)" using ReleaseAbandoned_pin [OF s2(1)] s1(4) by simp
  then have pin2: "may_unpin core_id cur s2" using pin may_unpin_cong by blast
  show ?thesis using StartTermination_ok [OF s2(2) cur2 pin2, of key] s1(1) s2(1) by (simp add: Exit_def)
qed

text \<open>What a request to terminate relies on: a pinned thread belongs to a process, and can be unpinned.\<close>

definition pin_sane :: "KThread \<Rightarrow> bool" where
  "pin_sane th \<longleftrightarrow> (is_pinned th \<longrightarrow> m_parent th \<noteq> None \<and> unpinnable th \<and> m_core_id th < NUM_CPU_CORES)"

lemma wake_for_termination_ok:
  assumes ok: "wait_ok {} s" and pin: "pin_sane (threads (kernel s) t)"
  shows "\<exists>st s1. wake_for_termination cur t s = Some (st, s1) \<and> wait_ok {} s1 \<and> st = GetState s1 t \<and> st \<noteq> Waiting"
proof -
  obtain s1 where s1: "(if is_pinned (threads (kernel s) t)
        then case m_parent (threads (kernel s) t) of None \<Rightarrow> None | Some p \<Rightarrow> KProcess_UnpinThread p t s
        else Some s) = Some s1" "wait_ok {} s1"
  proof (cases "is_pinned (threads (kernel s) t)")
    case True
    then obtain p where p: "m_parent (threads (kernel s) t) = Some p" "unpinnable (threads (kernel s) t)" "m_core_id (threads (kernel s) t) < 4"
      using pin by (auto simp: pin_sane_def NUM_CPU_CORES_def)
    then show thesis using KProcess_UnpinThread_ok [OF ok p(2,3), of p] True that by auto
  next
    case False
    then show thesis using that ok by simp
  qed
  obtain s2 where s2: "(if IsSuspended s1 t then disallow_suspension t s1 else Some s1) = Some s2" "wait_ok {} s2"
  proof (cases "IsSuspended s1 t")
    case True
    obtain s2 where "disallow_suspension t s1 = Some s2" "wait_ok {} s2" by (rule disallow_suspension_ok [OF s1(2)]) (rule that)
    then show thesis using True that by simp
  qed (use s1(2) that in simp)
  have v: "0 \<le> TerminatingThreadPriority" "TerminatingThreadPriority \<le> 64" by (simp_all add: TerminatingThreadPriority_def)
  obtain s3 where s3: "IncreaseBasePriority cur t TerminatingThreadPriority s2 = Some s3"
    "base_set t (min TerminatingThreadPriority (GetBasePriority s2 t)) s2 s3"
    by (rule IncreaseBasePriority_ok [OF wait_okD(1,2) [OF s2(2)] v]) (rule that)
  have ok3: "wait_ok {} s3" by (rule base_set_ok [OF s2(2) s3(2)])
  obtain s4 where s4: "KThread_CancelWait cur t ResultTerminationRequested True s3 = Some s4" "wait_ok {} s4" "GetState s4 t \<noteq> Waiting"
    by (rule KThread_CancelWait_ok [OF ok3, of True]) (simp, rule that)
  show ?thesis unfolding wake_for_termination_def s1(1) s2(1) bind.simps s3(1) s4(1) using s4(2,3) by simp
qed

lemma RequestTerminate_ok:
  assumes ok: "wait_ok {} s" and pin: "pin_sane (threads (kernel s) t)"
  shows "\<exists>st s1. RequestTerminate cur t s = Some (st, s1) \<and> wait_ok {} s1"
proof (cases "m_termination_requested (waits s t)")
  case True
  then show ?thesis using ok by (simp add: RequestTerminate_def)
next
  case False
  let ?s = "update_wait t (\<lambda>w. w\<lparr>m_termination_requested := True\<rparr>) s"
  have ok1: "wait_ok {} ?s" by (rule flag_ok(1) [OF ok])
  show ?thesis
  proof (cases "GetState ?s t = 0")
    case True
    let ?k = "update_thread t (\<lambda>thread. thread\<lparr>m_thread_state := Terminated\<rparr>) (kernel ?s)"
    have st: "m_thread_state (threads (kernel s) t) AND ThreadState_Mask = 0" using True by (simp add: GetState_def)
    have "kernel_ok (kernel s)" by (rule system_okD(5) [OF wait_okD(1) [OF ok]])
    then obtain A where A: "sched_ok A (threads (kernel s)) (m_priority_queue (kernel s))" unfolding kernel_ok_def by blast
    have "thread_ok (threads (kernel s) t)" using A by (simp add: sched_ok_def)
    then have "thread_ok ((threads (kernel s) t)\<lparr>m_thread_state := Terminated\<rparr>)" by (simp add: thread_ok_def)
    moreover have "m_thread_state (threads (kernel s) t) \<noteq> Runnable" using st by (auto simp: Runnable_def ThreadState_Mask_def)
    then have "belongs ((threads (kernel s) t)\<lparr>m_thread_state := Terminated\<rparr>) = belongs (threads (kernel s) t)"
      by (simp add: belongs_inactive active_def Terminated_def Runnable_def)
    ultimately have "sched_ok A ((threads (kernel s))(t := (threads (kernel s) t)\<lparr>m_thread_state := Terminated\<rparr>)) (m_priority_queue (kernel s))"
      by (rule same_belongs_change [OF A])
    then have "kernel_ok ?k" by (auto simp: kernel_ok_def)
    moreover have "keeps_waits (kernel ?s) ?k" using st by (simp add: keeps_waits_def Waiting_def) (simp add: Terminated_def ThreadState_Mask_def)
    ultimately have "wait_ok {} (?s\<lparr>kernel := ?k\<rparr>)" by (rule kernel_step_ok(1) [OF ok1])
    then show ?thesis using False True by (simp add: RequestTerminate_def Let_def)
  next
    case w: False
    have "pin_sane (threads (kernel ?s) t)" using pin by simp
    from wake_for_termination_ok [OF ok1 this, of cur] show ?thesis using False w by (auto simp: RequestTerminate_def Let_def)
  qed
qed

section \<open>Deadlines\<close>

text \<open>The deadline is the time of the timeout and the margin, as far as the clock goes.\<close>

lemma GetTimeoutDeadlineNs_exact:
  assumes "0 \<le> now" "now \<le> MaxTime" "timeout \<le> MaxTime"
  shows "GetTimeoutDeadlineNs now timeout =
    (if timeout \<le> 0 then timeout else min MaxTime (now + timeout + DefaultTimeIncrementNanoseconds))"
  using assms by (auto simp: GetTimeoutDeadlineNs_def MaxTime_def DefaultTimeIncrementNanoseconds_def Let_def)

end
