(* ===== verification/Wait_System.thy ===== *)
theory Wait_System
  imports Wait_Objects_Props
begin

text \<open>
  The wait structures as a system: threads that lock, wait, signal and sleep, the timer, changes of priorities and
  everything the scheduler does meanwhile, in any order, each operation under the scheduler lock.
\<close>

section \<open>The operations, in any order\<close>

text \<open>The thread that makes a call runs, so it does not wait.\<close>

definition running :: "WaitState \<Rightarrow> nat \<Rightarrow> bool" where
  "running s cur \<longleftrightarrow> GetState s cur \<noteq> Waiting \<and> cur < SlabCountKThread"

text \<open>
  An operation that may be asked for in a state, with its result.  What a handle stands for, what the other
  code writes to user memory, and when a thread is asked to end or may be cancelled are arbitrary.  A step of
  the scheduler, or of a caller that sets a thread's state, is one that leaves priorities and waits alone.
\<close>

inductive wait_asks :: "WaitState \<Rightarrow> WaitState option \<Rightarrow> bool" where
  sleep: "running s cur \<Longrightarrow> wait_asks s (map_option snd (Sleep cur timeout s))"
| timer: "wait_asks s (DoTask cur tick s)"
| cancel: "wait_asks s (WaitCancel cur t s)"
| cancel_wait: "wait_asks s (KThread_CancelWait cur t wait_result True s)"
| set_base: "0 \<le> v \<Longrightarrow> v \<le> LowestThreadPriority \<Longrightarrow> wait_asks s (SetBasePriority cur t v s)"
| increase_base: "0 \<le> v \<Longrightarrow> v \<le> LowestThreadPriority \<Longrightarrow> wait_asks s (IncreaseBasePriority cur t v s)"
| wait_for_address: "running s cur \<Longrightarrow> wait_asks s (map_option snd (WaitForAddress handles cur p handle addr tag s))"
| signal_to_address: "wait_asks s (SignalToAddress cur p addr s)"
| release_abandoned: "wait_asks s (ReleaseAbandonedUserLocks cur p s)"
| condition_wait: "running s cur \<Longrightarrow> wait_asks s (map_option snd (KConditionVariable_Wait cur p addr key tag timeout s))"
| condition_signal: "wait_asks s (KConditionVariable_Signal handles cur p key count s)"
| arbiter_signal: "wait_asks s (map_option snd (KAddressArbiter_Signal p addr count s))"
| arbiter_increment: "wait_asks s (map_option snd (SignalAndIncrementIfEqual p addr val count s))"
| arbiter_modify: "wait_asks s (map_option snd (SignalAndModifyByWaitingCountIfEqual p addr val count s))"
| arbiter_less: "running s cur \<Longrightarrow> wait_asks s (map_option snd (WaitIfLessThan cur p addr val decrement timeout s))"
| arbiter_equal: "running s cur \<Longrightarrow> wait_asks s (map_option snd (WaitIfEqual cur p addr val timeout s))"
| light_enter: "wait_asks s (Some (snd (KLightLock_exchange cur lock s)))"
| light_leave: "wait_asks s (Some (snd (KLightLock_release cur lock s)))"
| light_lock: "running s cur \<Longrightarrow> wait_asks s (map_option snd (LockSlowPath owner cur lock s))"
| light_unlock: "wait_asks s (UnlockSlowPath cur lock s)"
| user_write: "wait_asks s (Some (WriteToUser p addr val s))"
| ask_to_end: "wait_asks s (Some (update_wait t (\<lambda>w. w\<lparr>m_termination_requested := flag\<rparr>) s))"
| allow_cancel: "wait_asks s (Some (update_wait t (\<lambda>w. w\<lparr>m_cancellable := flag\<rparr>) s))"
| object_wait: "running s cur \<Longrightarrow> length obs \<le> ArgumentHandleCountMax \<Longrightarrow>
    wait_asks s (map_option (\<lambda>r. snd (snd r)) (KSynchronizationObject_Wait cur obs timeout s))"
| object_notify: "wait_asks s (KSynchronizationObject_NotifyAvailable ob wait_result s)"
| object_state: "wait_asks s (Some (set_signaled ob flag s))"
| event_signal: "wait_asks s (KEvent_Signal destroyed event s)"
| event_clear: "wait_asks s (Some (snd (KEvent_Clear destroyed event s)))"
| event_reset: "wait_asks s (Some (snd (KReadableEvent_Reset event s)))"
| process_state: "wait_asks s (map_option snd (KProcess_ChangeState p old_state new_state s))"
| enter_exception: "running s cur \<Longrightarrow> wait_asks s (map_option snd (EnterUserException key p cur s))"
| release_exception: "wait_asks s (map_option snd (ReleaseUserException key p cur t s))"
| unpin_current: "unpinnable (threads (kernel s) cur) \<Longrightarrow> wait_asks s (KProcess_UnpinCurrentThread core_id p cur s)"
| unpin: "unpinnable (threads (kernel s) t) \<Longrightarrow> m_core_id (threads (kernel s) t) < NUM_CPU_CORES \<Longrightarrow>
    wait_asks s (KProcess_UnpinThread p t s)"
| activity: "wait_asks s (map_option snd (change_activity paused t s))"
| activity_turn: "running s cur \<Longrightarrow> wait_asks s (map_option snd (activity_turn thread_is_current cur t s))"
| core_mask_turn: "running s cur \<Longrightarrow>
    wait_asks s (map_option snd (core_mask_turn thread_core quiescent locked p_affinity_mask cur t s))"
| run: "wait_asks s (map_option snd (Run_turn user_thread cur t s))"
| exit: "running s cur \<Longrightarrow> may_unpin core_id cur s \<Longrightarrow> wait_asks s (Exit exception_key core_id p cur s)"
| finish: "wait_asks s (FinishTermination t s)"
| terminate: "pin_sane (threads (kernel s) t) \<Longrightarrow> wait_asks s (map_option snd (RequestTerminate cur t s))"
| create: "GetState s t \<noteq> Waiting \<Longrightarrow> m_thread_state (threads (kernel s) t) \<noteq> Runnable \<Longrightarrow> held s t = [] \<Longrightarrow>
    pinned_waiters s t = [] \<Longrightarrow> creatable prio virt_core thread_type \<Longrightarrow>
    wait_asks s (Thread_Initialize prio virt_core owner_process thread_type t s)"
| scheduler: "asks (kernel s) r \<Longrightarrow> (\<And>k. r = Some k \<Longrightarrow> keeps_waits (kernel s) k) \<Longrightarrow>
    wait_asks s (map_option (\<lambda>k. s\<lparr>kernel := k\<rparr>) r)"

text \<open>At the start nobody waits, every lock info is free and every thread has its base priority.\<close>

definition wait_start :: "WaitState \<Rightarrow> bool" where
  "wait_start s \<longleftrightarrow>
     m_priority_queue (kernel s) = new_KPriorityQueue \<and> distinct (free_lock_infos s) \<and>
     set (free_lock_infos s) = {..<SlabCountKThread} \<and> (\<forall>tr. thread_tree s tr = []) \<and>
     m_task_tree s = [] \<and> m_next_task s = None \<and>
     (\<forall>ob. m_thread_list_head (objects s) ob = None \<and> m_thread_list_tail (objects s) ob = None) \<and>
     (\<forall>t. thread_ok (threads (kernel s) t) \<and> m_thread_state (threads (kernel s) t) \<noteq> Runnable \<and> GetState s t \<noteq> Waiting \<and>
        m_num_kernel_waiters (threads (kernel s) t) = 0 \<and> m_suspend_allowed_flags (threads (kernel s) t) AND 15 = 0 \<and>
        GetBasePriority s t = GetPriority s t \<and> held s t = [] \<and> waits_in s t = None \<and> m_condvar_tree (waits s t) = None \<and>
        m_time (waits s t) = 0 \<and> pinned_waiters s t = [])"

inductive wait_reach :: "WaitState \<Rightarrow> bool" where
  start: "wait_start s \<Longrightarrow> wait_reach s"
| step: "wait_reach s \<Longrightarrow> wait_asks s (Some s1) \<Longrightarrow> wait_reach s1"

section \<open>Every operation keeps the invariant\<close>

lemma start_ok:
  assumes "wait_start s"
  shows "wait_ok {} s"
proof -
  note s = assms [unfolded wait_start_def]
  have f: "held s t = []" "waits_in s t = None" "m_condvar_tree (waits s t) = None" "m_time (waits s t) = 0"
    "GetState s t \<noteq> Waiting" "GetBasePriority s t = GetPriority s t" "thread_ok (threads (kernel s) t)"
    "m_num_kernel_waiters (threads (kernel s) t) = 0" "pinned_waiters s t = []" for t using s by blast+
  have own: "GetLockOwner s t = None" for t by (simp add: GetLockOwner_def f)
  have "kernel_ok (kernel s)" using s by (intro reach_ok sched_reach.start) blast+
  moreover have "locks_ok {} s" using s by (simp add: locks_ok_def slab_ok_def)
  moreover have "trees_ok s" using s by (simp add: trees_ok_def)
  moreover have "counts_ok s" by (simp add: counts_ok_def kernel_waiters_def f)
  moreover have "bases_ok s" using f(7) by (auto simp: bases_ok_def f(6) GetPriority_def thread_ok_def)
  ultimately have "system_ok s" by (simp add: system_ok_def)
  moreover have "inherits {} s" by (simp add: inherits_def best_priority_def own f(6))
  moreover have "queues_ok {} s" by (simp add: queues_ok_def queue_ok_def f)
  moreover have "tasks_ok s" using s by (simp add: tasks_ok_def)
  moreover have "flags_ok s" using s by (simp add: flags_ok_def)
  moreover have "lists_ok s"
  proof -
    have l: "listed s t = None" for t by (simp add: listed_def f)
    have "objects_ok (\<lambda>ob. []) (\<lambda>t. object_at (listed s t)) (objects s)" using s by (simp add: objects_ok_def nodes_ok_def l)
    then show ?thesis unfolding lists_ok_def lists_at_def by (auto simp: f(9) l)
  qed
  ultimately show ?thesis by (intro wait_okI)
qed

lemma snd_some: "\<exists>r s1. f = Some (r, s1) \<and> P s1 \<Longrightarrow> \<exists>s1. map_option snd f = Some s1 \<and> P s1"
  by force

lemma wait_asks_ok:
  assumes "wait_asks s r" and ok: "wait_ok {} s"
  shows "\<exists>s1. r = Some s1 \<and> wait_ok {} s1"
  using assms(1)
proof (cases rule: wait_asks.cases)
  case (sleep cur timeout)
  then show ?thesis using snd_some [OF Sleep_ok [OF ok, of cur timeout]] by (simp add: running_def)
next
  case (timer cur tick)
  then show ?thesis using DoTask_ok [OF ok, of cur tick] by simp
next
  case (cancel cur t)
  then show ?thesis using WaitCancel_ok [OF ok, of cur t] by simp
next
  case (cancel_wait cur t wait_result)
  obtain s1 where "KThread_CancelWait cur t wait_result True s = Some s1" "wait_ok {} s1"
    by (rule KThread_CancelWait_ok [OF ok, of True t cur wait_result]) auto
  then show ?thesis using cancel_wait by simp
next
  case (set_base v cur t)
  then have v: "0 \<le> v" "v \<le> 64" by (simp_all add: LowestThreadPriority_def)
  obtain s1 where "SetBasePriority cur t v s = Some s1" "base_set t v s s1"
    by (rule SetBasePriority_ok [OF wait_okD(1,2) [OF ok] v]) (rule that)
  then show ?thesis using set_base base_set_ok [OF ok] by simp
next
  case (increase_base v cur t)
  then have v: "0 \<le> v" "v \<le> 64" by (simp_all add: LowestThreadPriority_def)
  obtain s1 where "IncreaseBasePriority cur t v s = Some s1" "base_set t (min v (GetBasePriority s t)) s s1"
    by (rule IncreaseBasePriority_ok [OF wait_okD(1,2) [OF ok] v]) (rule that)
  then show ?thesis using increase_base base_set_ok [OF ok] by simp
next
  case (wait_for_address cur handles p handle addr tag)
  then show ?thesis using snd_some [OF WaitForAddress_ok [OF ok, of cur handles p handle addr tag]] by (simp add: running_def)
next
  case (signal_to_address cur p addr)
  then show ?thesis using SignalToAddress_ok [OF ok, of cur p addr] by simp
next
  case (release_abandoned cur p)
  then show ?thesis using ReleaseAbandonedUserLocks_ok [OF ok, of cur p] by auto
next
  case (condition_wait cur p addr key tag timeout)
  then show ?thesis using snd_some [OF KConditionVariable_Wait_ok [OF ok, of cur p addr key tag timeout]] by (simp add: running_def)
next
  case (condition_signal handles cur p key count)
  then show ?thesis using KConditionVariable_Signal_ok [OF ok, of handles cur p key count] by simp
next
  case (arbiter_signal p addr count)
  then show ?thesis using snd_some [OF KAddressArbiter_Signal_ok [OF ok, of p addr count]] by simp
next
  case (arbiter_increment p addr val count)
  then show ?thesis using snd_some [OF SignalAndIncrementIfEqual_ok [OF ok, of p addr val count]] by simp
next
  case (arbiter_modify p addr val count)
  then show ?thesis using snd_some [OF SignalAndModifyByWaitingCountIfEqual_ok [OF ok, of p addr val count]] by simp
next
  case (arbiter_less cur p addr val decrement timeout)
  then show ?thesis using snd_some [OF WaitIfLessThan_ok [OF ok, of cur p addr val decrement timeout]] by (simp add: running_def)
next
  case (arbiter_equal cur p addr val timeout)
  then show ?thesis using snd_some [OF WaitIfEqual_ok [OF ok, of cur p addr val timeout]] by (simp add: running_def)
next
  case (light_lock cur owner lock)
  then show ?thesis using snd_some [OF LockSlowPath_ok [OF ok, of cur owner lock]] by (simp add: running_def)
next
  case (light_unlock cur lock)
  then show ?thesis using UnlockSlowPath_ok [OF ok, of cur lock] by simp
next
  case (object_wait cur obs timeout)
  then show ?thesis using KSynchronizationObject_Wait_ok [OF ok, of cur obs timeout] by (auto simp: running_def)
next
  case (object_notify ob wait_result)
  obtain s1 where "KSynchronizationObject_NotifyAvailable ob wait_result s = Some s1" "wait_ok {} s1"
    by (rule NotifyAvailable_ok [OF ok]) (rule that)
  then show ?thesis using object_notify by simp
next
  case (event_signal destroyed event)
  then show ?thesis using event_ok(1) [OF ok, of destroyed event] by simp
next
  case (process_state p old_state new_state)
  then show ?thesis using KProcess_ChangeState_ok [OF ok, of p old_state new_state] by auto
next
  case (enter_exception cur key p)
  then show ?thesis using snd_some [OF EnterUserException_ok [OF ok, of cur key p]] by (simp add: running_def)
next
  case (release_exception key p cur t)
  obtain b s1 where "ReleaseUserException key p cur t s = Some (b, s1)" "wait_ok {} s1"
    by (rule ReleaseUserException_ok [OF ok]) (rule that)
  then show ?thesis using release_exception by simp
next
  case (unpin_current cur core_id p)
  then show ?thesis using KProcess_UnpinCurrentThread_ok [OF ok, of cur core_id p] by auto
next
  case (unpin t p)
  then show ?thesis using KProcess_UnpinThread_ok [OF ok, of t p] by (auto simp: NUM_CPU_CORES_def)
next
  case (activity paused t)
  then show ?thesis using snd_some [OF change_activity_ok [OF ok, of paused t]] by simp
next
  case (activity_turn cur thread_is_current t)
  then show ?thesis using snd_some [OF turns_ok(1) [OF ok, of cur thread_is_current t]] by (simp add: running_def)
next
  case (core_mask_turn cur thread_core quiescent locked p_affinity_mask t)
  then show ?thesis using snd_some [OF turns_ok(2) [OF ok, of cur thread_core quiescent locked p_affinity_mask t]]
    by (simp add: running_def)
next
  case (run user_thread cur t)
  then show ?thesis using snd_some [OF Run_turn_ok [OF ok, of user_thread cur t]] by simp
next
  case (exit cur core_id exception_key p)
  then show ?thesis using Exit_ok [OF ok, of cur core_id exception_key p] by (auto simp: running_def)
next
  case (finish t)
  then show ?thesis using FinishTermination_ok [OF ok, of t] by simp
next
  case (terminate t cur)
  then show ?thesis using snd_some [OF RequestTerminate_ok [OF ok, of t cur]] by simp
next
  case (create t prio virt_core thread_type owner_process)
  then show ?thesis using Thread_Initialize_ok [OF ok] by simp
next
  case (scheduler r')
  obtain k where k: "r' = Some k" "kernel_ok k" using asks_ok [OF scheduler(2) system_okD(5) [OF wait_okD(1) [OF ok]]] by blast
  then show ?thesis using scheduler(1) scheduler_step_ok [OF ok k(2) scheduler(3) [OF k(1)]] by simp
qed (use ok in \<open>simp_all add: exchange_ok release_ok flag_ok event_ok\<close>)

lemma wait_reach_ok: "wait_reach s \<Longrightarrow> wait_ok {} s"
proof (induction rule: wait_reach.induct)
  case (start s)
  then show ?case by (rule start_ok)
next
  case (step s s1)
  then show ?case using wait_asks_ok by blast
qed

section \<open>What the invariant says\<close>




text \<open>
  Along the links of an object the nodes of exactly the threads that wait for it, each node once; and in the list of a
  thread exactly those that wait until it is not pinned.
\<close>

definition exact_lists :: "WaitState \<Rightarrow> bool" where
  "exact_lists s \<longleftrightarrow>
     (\<forall>ob. \<exists>ns. chain (node_next (objects s)) (m_thread_list_head (objects s) ob) ns \<and> distinct ns \<and>
        m_thread_list_tail (objects s) ob = (if ns = [] then None else Some (last ns)) \<and>
        (\<forall>t i. (t, i) \<in> set ns \<longleftrightarrow>
           (\<exists>obs. listed s t = Some (ForSynchronizationObjects obs) \<and> i < length obs \<and> obs ! i = ob))) \<and>
     (\<forall>t. distinct (pinned_waiters s t) \<and> set (pinned_waiters s t) = {u. listed s u = Some (ForThreadSetProperty t)})"

lemma object_at_iff: "object_at k i = Some ob \<longleftrightarrow> (\<exists>obs. k = Some (ForSynchronizationObjects obs) \<and> i < length obs \<and> obs ! i = ob)"
  by (cases "(k, i)" rule: object_at.cases) auto

lemma pinned_at_iff: "pinned_at k = Some t \<longleftrightarrow> k = Some (ForThreadSetProperty t)"
  by (cases k rule: pinned_at.cases) auto

lemma exact_lists_ok:
  assumes "lists_ok s"
  shows "exact_lists s"
proof -
  obtain N where N: "objects_ok N (\<lambda>t. object_at (listed s t)) (objects s)" using assms unfolding lists_ok_def lists_at_def by blast
  have p: "distinct (pinned_waiters s t)" "u \<in> set (pinned_waiters s t) \<longleftrightarrow> pinned_at (listed s u) = Some t" for t u
    using assms unfolding lists_ok_def lists_at_def by blast+
  have "set (pinned_waiters s t) = {u. listed s u = Some (ForThreadSetProperty t)}" for t using p(2) [of _ t] by (auto simp: pinned_at_iff)
  then show ?thesis using N p(1) unfolding exact_lists_def objects_ok_def nodes_ok_def object_at_iff by blast
qed


section \<open>A signal\<close>

lemma sync_index_first:
  "ob \<in> set obs \<Longrightarrow> \<exists>k < length obs. sync_index ob i obs = i + int k \<and> obs ! k = ob \<and> (\<forall>j < k. obs ! j \<noteq> ob)"
proof (induction obs arbitrary: i)
  case (Cons x obs)
  show ?case
  proof (cases "x = ob")
    case False
    then obtain k where k: "k < length obs" "sync_index ob (i + 1) obs = i + 1 + int k" "obs ! k = ob" "\<forall>j < k. obs ! j \<noteq> ob"
      using Cons.IH [of "i + 1"] Cons.prems by auto
    then have "\<forall>j < Suc k. (x # obs) ! j \<noteq> ob" using False by (auto simp: less_Suc_eq_0_disj)
    then show ?thesis using k False by (intro exI [of _ "Suc k"]) auto
  qed (intro exI [of _ 0], simp)
qed simp

text \<open>
  (C2) In every state that is reached, a signaled object that notifies wakes exactly the threads that wait for it: each of
  them may run with the given result and the first index of the object among those it waits for, whatever nodes are
  unlinked while the list is followed; the list of the object is empty then, and nothing changes for other threads.
\<close>

theorem signal_wakes_exactly_the_waiters:
  assumes "wait_reach s" and "m_signaled (objects s) ob"
  shows "\<exists>s1. KSynchronizationObject_NotifyAvailable ob r s = Some s1 \<and> wait_reach s1 \<and>
    m_thread_list_head (objects s1) ob = None \<and>
    (\<forall>t obs. listed s t = Some (ForSynchronizationObjects obs) \<and> ob \<in> set obs \<longrightarrow>
       GetState s1 t = Runnable \<and> m_wait_result (waits s1 t) = r \<and>
       (\<exists>k < length obs. m_synced_index (waits s1 t) = int k \<and> obs ! k = ob \<and> (\<forall>j < k. obs ! j \<noteq> ob))) \<and>
    (\<forall>t. t \<notin> waiters_of ob s \<longrightarrow> GetState s1 t = GetState s t \<and> listed s1 t = listed s t \<and>
       m_wait_result (waits s1 t) = m_wait_result (waits s t) \<and> m_synced_index (waits s1 t) = m_synced_index (waits s t))"
proof -
  have ok: "wait_ok {} s" by (rule wait_reach_ok [OF assms(1)])
  obtain s1 where s1: "KSynchronizationObject_NotifyAvailable ob r s = Some s1" "wait_ok {} s1" "woken (waiters_of ob s) ob r s s1"
    using NotifyAvailable_ok [OF ok, of ob r] assms(2) by (metis (full_types))
  have reach: "wait_reach s1" using wait_reach.step [OF assms(1)] object_notify [of s ob r] s1(1) by simp
  obtain ns where ns: "chain (node_next (objects s1)) (m_thread_list_head (objects s1) ob) ns"
    "\<And>t i. (t, i) \<in> set ns \<longleftrightarrow> (\<exists>obs. listed s1 t = Some (ForSynchronizationObjects obs) \<and> i < length obs \<and> obs ! i = ob)"
    using exact_lists_ok [OF wait_okD(6) [OF s1(2)]] unfolding exact_lists_def by blast
  have none: "listed s1 t \<noteq> Some (ForSynchronizationObjects obs)" if "ob \<in> set obs" for t obs
  proof
    assume l: "listed s1 t = Some (ForSynchronizationObjects obs)"
    then have "t \<notin> waiters_of ob s" "listed s t = Some (ForSynchronizationObjects obs)"
      using s1(3) by (auto simp: woken_def split: if_splits)
    then show False using that by (auto simp: waiters_of_def)
  qed
  have "n \<notin> set ns" for n using ns(2) [of "fst n" "snd n"] none by auto
  then have "ns = []" by (cases ns) auto
  then have head: "m_thread_list_head (objects s1) ob = None" using ns(1) by simp
  have woke: "\<forall>t obs. listed s t = Some (ForSynchronizationObjects obs) \<and> ob \<in> set obs \<longrightarrow>
       GetState s1 t = Runnable \<and> m_wait_result (waits s1 t) = r \<and>
       (\<exists>k < length obs. m_synced_index (waits s1 t) = int k \<and> obs ! k = ob \<and> (\<forall>j < k. obs ! j \<noteq> ob))"
  proof (intro allI impI)
    fix t obs
    assume t: "listed s t = Some (ForSynchronizationObjects obs) \<and> ob \<in> set obs"
    then have "t \<in> waiters_of ob s" by (auto simp: waiters_of_def)
    then show "GetState s1 t = Runnable \<and> m_wait_result (waits s1 t) = r \<and>
        (\<exists>k < length obs. m_synced_index (waits s1 t) = int k \<and> obs ! k = ob \<and> (\<forall>j < k. obs ! j \<noteq> ob))"
      using s1(3) sync_index_first [of ob obs 0] t by (auto simp: woken_def)
  qed
  have others: "\<forall>t. t \<notin> waiters_of ob s \<longrightarrow> GetState s1 t = GetState s t \<and> listed s1 t = listed s t \<and>
       m_wait_result (waits s1 t) = m_wait_result (waits s t) \<and> m_synced_index (waits s1 t) = m_synced_index (waits s t)"
    using s1(3) by (simp add: woken_def)
  show ?thesis by (rule exI [of _ s1], rule conjI [OF s1(1) conjI [OF reach conjI [OF head conjI [OF woke others]]]])
qed

section \<open>An example\<close>





text \<open>Thread 0 of priority 44 has a light lock that others want; thread 1 of priority 10 waits for it.\<close>

definition example_waits :: WaitState where
  "example_waits =
     \<lparr>kernel = example_kernel\<lparr>threads := (\<lambda>t. if t = 1 then example_thread\<lparr>m_priority := 10\<rparr> else example_thread)\<rparr>,
      waits = (\<lambda>t. Initialize_wait (if t = 1 then 10 else 44)),
      lock_infos = (\<lambda>l. \<lparr>lock_tree = [], lock_address_key = 0, lock_owner = None, lock_waiter_count = 0, lock_is_kernel_address_key = False\<rparr>),
      free_lock_infos = [0..<SlabCountKThread], thread_tree = (\<lambda>tr. []), user_memory = (\<lambda>p a. 0),
      m_tag = (\<lambda>lock. (Some 0, True)), m_task_tree = [], m_next_task = None, m_wakeup_time = MaxTime,
      objects = \<lparr>m_signaled = (\<lambda>ob. False), m_thread_list_head = (\<lambda>ob. None), m_thread_list_tail = (\<lambda>ob. None),
                 node_next = (\<lambda>n. None), m_exception_thread = (\<lambda>p. None)\<rparr>\<rparr>"

lemma example_threads:
  "thread_ok (example_thread\<lparr>m_priority := 10\<rparr>)" "thread_ok example_thread"
proof -
  have three: "bit (3 :: u64) k \<longleftrightarrow> k < 2" for k
  proof -
    have m: "(3 :: u64) = mask 2" by (simp add: mask_eq_exp_minus_1)
    show ?thesis unfolding m by (auto simp: bit_mask_iff)
  qed
  show "thread_ok (example_thread\<lparr>m_priority := 10\<rparr>)" "thread_ok example_thread"
    using three by (simp_all add: example_thread_def new_KThread_def thread_ok_def core_ok_def mask_ok_def)
qed

lemma example_waits_start: "wait_start example_waits"
proof -
  have "threads (kernel example_waits) t = (if t = 1 then example_thread\<lparr>m_priority := 10\<rparr> else example_thread)" for t
    by (simp add: example_waits_def)
  then show ?thesis using example_threads
    by (auto simp: wait_start_def GetState_def GetBasePriority_def GetPriority_def example_waits_def Initialize_wait_def example_kernel_def
        example_thread_def new_KThread_def Runnable_def Waiting_def lessThan_atLeast0)
qed


text \<open>Thread 1 waits for two events without a timeout, and the second one is signaled.\<close>

lemma signal_wakes_exactly_the_waiters_witness:
  "\<exists>s1 s2. KSynchronizationObject_Wait 1 [OtherObject 4, OtherObject 5] (- 1) example_waits = Some (None, None, s1) \<and>
    KSynchronizationObject_NotifyAvailable (OtherObject 5) ResultSuccess (set_signaled (OtherObject 5) True s1) = Some s2 \<and>
    GetState s2 1 = Runnable \<and> m_synced_index (waits s2 1) = 1"
proof -
  let ?obs = "[OtherObject 4, OtherObject 5]"
  have r0: "wait_reach example_waits" by (rule wait_reach.start [OF example_waits_start])
  have run: "running example_waits 1"
    by (simp add: running_def GetState_def example_waits_def example_thread_def new_KThread_def Waiting_def SlabCountKThread_def)
  have len: "length ?obs \<le> ArgumentHandleCountMax" by (simp add: ArgumentHandleCountMax_def)
  have st: "GetState example_waits 1 \<noteq> Waiting" "1 < SlabCountKThread" using run by (simp_all add: running_def)
  obtain res i s1 where s1: "KSynchronizationObject_Wait 1 ?obs (- 1) example_waits = Some (res, i, s1)"
    "res = None \<longrightarrow> listed s1 1 = Some (ForSynchronizationObjects ?obs)"
    using KSynchronizationObject_Wait_ok [OF wait_reach_ok [OF r0] st len, of "- 1"] by blast
  have "\<not> IsTerminationRequested example_waits 1" "first_signaled (objects example_waits) 0 ?obs = None"
    "\<not> m_wait_cancelled (waits example_waits 1)"
    by (simp_all add: IsTerminationRequested_def example_waits_def Initialize_wait_def example_thread_def new_KThread_def Terminated_def)
  then have w: "res = None" "i = None" using s1(1) len by (auto simp: KSynchronizationObject_Wait_def Let_def)
  have r1: "wait_reach s1" using wait_reach.step [OF r0] object_wait [OF run len, of "- 1"] s1(1) by simp
  let ?s = "set_signaled (OtherObject 5) True s1"
  have r2: "wait_reach ?s" using wait_reach.step [OF r1 object_state [of s1 "OtherObject 5" True]] .
  have sig: "m_signaled (objects ?s) (OtherObject 5)" by simp
  have on: "listed ?s 1 = Some (ForSynchronizationObjects ?obs)" using s1(2) w(1) by (simp add: set_signaled_def)
  obtain s2 where s2: "KSynchronizationObject_NotifyAvailable (OtherObject 5) ResultSuccess ?s = Some s2"
    "\<forall>t obs. listed ?s t = Some (ForSynchronizationObjects obs) \<and> OtherObject 5 \<in> set obs \<longrightarrow>
       GetState s2 t = Runnable \<and> m_wait_result (waits s2 t) = ResultSuccess \<and>
       (\<exists>k < length obs. m_synced_index (waits s2 t) = int k \<and> obs ! k = OtherObject 5 \<and> (\<forall>j < k. obs ! j \<noteq> OtherObject 5))"
    using signal_wakes_exactly_the_waiters [OF r2 sig, of ResultSuccess] by (elim exE conjE) (rule that)
  have five: "OtherObject 5 \<in> set ?obs" by simp
  obtain k where k: "GetState s2 1 = Runnable" "k < length ?obs" "m_synced_index (waits s2 1) = int k" "?obs ! k = OtherObject 5"
    using s2(2) [rule_format, OF conjI [OF on five]] by blast
  have "k = 1" using k(2,4) by (cases k) auto
  then show ?thesis using s1(1) w s2(1) k(1,3) by auto
qed

end
